(* ===== verification/Prelude_Js.thy ===== *)
theory Prelude_Js
  imports Main "HOL-Library.Word"
begin

text \<open>
  Prelude of the development: JavaScript strings as lists of 16-bit code units, the string
  operations of the language that the modelled sources use, the table operations behind the
  SQL statements, and the hint collections the component theories share.
\<close>

subsection \<open>Hint collections\<close>

named_theorems js_eval \<open>evaluation of closed string and word terms\<close>
named_theorems db_frame \<open>fields an operation of the orchestration store leaves alone\<close>

subsection \<open>Strings\<close>

text \<open>
  A JavaScript string is a sequence of UTF-16 code units; \<open>length\<close>, \<open>slice\<close> and
  \<open>charCodeAt\<close> count and read code units, which is what \<open>length\<close>, \<open>take\<close>/\<open>drop\<close> and
  \<open>!\<close> do here.  \<open>js\<close> embeds an ASCII literal of the source.
\<close>

type_synonym jschar = "16 word"
type_synonym jsstr = "16 word list"

definition js :: "string \<Rightarrow> jsstr" where
  "js s = map of_char s"

lemma js_Nil [simp, js_eval]: "js [] = []"
  by (simp add: js_def)

lemma js_Cons [js_eval]: "js (c # cs) = of_char c # js cs"
  by (simp add: js_def)

lemma js_append: "js (a @ b) = js a @ js b"
  by (simp add: js_def)

lemma length_js [simp]: "length (js s) = length s"
  by (simp add: js_def)

text \<open>The language's string operations, on code units.\<close>

definition starts_with :: "jsstr \<Rightarrow> jsstr \<Rightarrow> bool" where
  "starts_with p s \<longleftrightarrow> take (length p) s = p"

text \<open>\<open>indexOf\<close> and \<open>lastIndexOf\<close> of one code unit; \<open>None\<close> stands for \<open>-1\<close>.\<close>

fun index_of :: "jschar \<Rightarrow> jsstr \<Rightarrow> nat option" where
  "index_of c [] = None"
| "index_of c (d # s) = (if c = d then Some 0 else map_option Suc (index_of c s))"

definition last_index_of :: "jschar \<Rightarrow> jsstr \<Rightarrow> nat option" where
  "last_index_of c s = map_option (\<lambda>i. length s - 1 - i) (index_of c (rev s))"

definition slice :: "nat \<Rightarrow> nat \<Rightarrow> 'a list \<Rightarrow> 'a list" where
  "slice i j xs = take (j - i) (drop i xs)"

text \<open>\<open>xs.splice(i, 0, x)\<close>\<close>

definition insert_at :: "nat \<Rightarrow> 'a \<Rightarrow> 'a list \<Rightarrow> 'a list" where
  "insert_at i x xs = take i xs @ x # drop i xs"

text \<open>The code units that \<open>\s\<close> and \<open>trim\<close> treat as white space.\<close>

definition is_js_space :: "jschar \<Rightarrow> bool" where
  "is_js_space c \<longleftrightarrow>
     (9 \<le> c \<and> c \<le> 13) \<or> c = 32 \<or> c = 0xA0 \<or> c = 0x1680 \<or> (0x2000 \<le> c \<and> c \<le> 0x200A) \<or>
     c = 0x2028 \<or> c = 0x2029 \<or> c = 0x202F \<or> c = 0x205F \<or> c = 0x3000 \<or> c = 0xFEFF"

definition trim_start :: "jsstr \<Rightarrow> jsstr" where
  "trim_start s = dropWhile is_js_space s"

definition trim_end :: "jsstr \<Rightarrow> jsstr" where
  "trim_end s = rev (dropWhile is_js_space (rev s))"

definition trim :: "jsstr \<Rightarrow> jsstr" where
  "trim s = trim_end (trim_start s)"

text \<open>\<open>s.replace(/\s+/g, ' ')\<close>: every maximal run of white space becomes one blank.\<close>

function collapse_spaces :: "jsstr \<Rightarrow> jsstr" where
  "collapse_spaces [] = []"
| "collapse_spaces (c # s) =
     (if is_js_space c then 32 # collapse_spaces (dropWhile is_js_space s)
      else c # collapse_spaces s)"
  by pat_completeness auto
termination
  by (relation "measure length") (auto simp: less_Suc_eq_le length_dropWhile_le)

text \<open>\<open>toLowerCase\<close> on the ASCII letters; the sources lower-case ASCII vocabulary only.\<close>

definition lower_char :: "jschar \<Rightarrow> jschar" where
  "lower_char c = (if 65 \<le> c \<and> c \<le> 90 then c + 32 else c)"

definition to_lower :: "jsstr \<Rightarrow> jsstr" where
  "to_lower s = map lower_char s"

text \<open>JavaScript truthiness of an optional string: absent, null and the empty string are falsy.\<close>

definition truthy :: "jsstr option \<Rightarrow> bool" where
  "truthy s \<longleftrightarrow> (case s of None \<Rightarrow> False | Some t \<Rightarrow> t \<noteq> [])"

lemma truthy_simps [simp]: "truthy None = False" "truthy (Some t) = (t \<noteq> [])"
  by (simp_all add: truthy_def)

lemma index_of_None [simp]: "index_of c s = None \<longleftrightarrow> c \<notin> set s"
  by (induction s) auto

lemma index_of_Some: "index_of c s = Some i \<Longrightarrow> i < length s \<and> s ! i = c \<and> c \<notin> set (take i s)"
  by (induction s arbitrary: i) (auto split: if_splits)

lemma index_of_append_left: "c \<in> set a \<Longrightarrow> index_of c (a @ b) = index_of c a"
  by (induction a) auto

lemma index_of_sep: "c \<notin> set a \<Longrightarrow> index_of c (a @ c # b) = Some (length a)"
  by (induction a) auto

lemma starts_with_append [simp]: "starts_with p (p @ s)"
  by (simp add: starts_with_def)

lemma starts_withE: "starts_with p s \<Longrightarrow> (\<And>r. s = p @ r \<Longrightarrow> thesis) \<Longrightarrow> thesis"
  unfolding starts_with_def by (metis append_take_drop_id)

subsection \<open>Tables\<close>

text \<open>
  A table is the list of its rows in insertion order (the order of \<open>rowid\<close>).
  \<open>UPDATE \<dots> SET f WHERE p\<close> is \<open>sql_update p f\<close>, \<open>SELECT \<dots> WHERE p\<close> is \<open>filter p\<close>, a \<open>get()\<close>
  is the first row that matches, and \<open>ORDER BY rowid DESC LIMIT 1\<close> the last.
\<close>

definition sql_update :: "('r \<Rightarrow> bool) \<Rightarrow> ('r \<Rightarrow> 'r) \<Rightarrow> 'r list \<Rightarrow> 'r list" where
  "sql_update p f t = map (\<lambda>r. if p r then f r else r) t"

definition sql_last :: "('r \<Rightarrow> bool) \<Rightarrow> 'r list \<Rightarrow> 'r option" where
  "sql_last p t = find p (rev t)"

lemma sql_update_Nil [simp]: "sql_update p f [] = []"
  by (simp add: sql_update_def)

lemma sql_update_Cons [simp]:
  "sql_update p f (r # t) = (if p r then f r else r) # sql_update p f t"
  by (simp add: sql_update_def)

lemma sql_update_append [simp]: "sql_update p f (s @ t) = sql_update p f s @ sql_update p f t"
  by (simp add: sql_update_def)

lemma length_sql_update [simp]: "length (sql_update p f t) = length t"
  by (simp add: sql_update_def)

lemma set_sql_update: "set (sql_update p f t) = (\<lambda>r. if p r then f r else r) ` set t"
  by (simp add: sql_update_def)

lemma in_sql_update:
  "r \<in> set (sql_update p f t) \<longleftrightarrow>
     (\<exists>r0 \<in> set t. r = (if p r0 then f r0 else r0))"
  by (auto simp: set_sql_update)

lemma map_sql_update:
  "(\<And>r. p r \<Longrightarrow> k (f r) = k r) \<Longrightarrow> map k (sql_update p f t) = map k t"
  by (induction t) auto

lemma sql_update_none: "(\<And>r. r \<in> set t \<Longrightarrow> \<not> p r) \<Longrightarrow> sql_update p f t = t"
  by (induction t) auto

lemma find_sql_update:
  "(\<And>r. p r \<Longrightarrow> q (f r) = q r) \<Longrightarrow>
   find q (sql_update p f t) = map_option (\<lambda>r. if p r then f r else r) (find q t)"
  by (induction t) auto

lemma find_snoc: "find p (xs @ [x]) = (case find p xs of None \<Rightarrow> if p x then Some x else None | Some y \<Rightarrow> Some y)"
  by (induction xs) auto

lemma find_Some_in: "find p xs = Some x \<Longrightarrow> x \<in> set xs \<and> p x"
  by (induction xs) (auto split: if_splits)

lemma find_None_all: "find p xs = None \<longleftrightarrow> (\<forall>x \<in> set xs. \<not> p x)"
  by (auto simp: find_None_iff)

lemma sql_last_Some_in: "sql_last p t = Some r \<Longrightarrow> r \<in> set t \<and> p r"
  unfolding sql_last_def by (drule find_Some_in) simp

lemma sql_last_None: "sql_last p t = None \<longleftrightarrow> (\<forall>r \<in> set t. \<not> p r)"
  by (simp add: sql_last_def find_None_all)

lemma sql_last_Nil [simp]: "sql_last p [] = None"
  by (simp add: sql_last_def)

lemma sql_last_snoc [simp]: "sql_last p (t @ [r]) = (if p r then Some r else sql_last p t)"
  by (simp add: sql_last_def)

lemma sql_last_refine: "sql_last p t = Some r \<Longrightarrow> q r \<Longrightarrow> sql_last (\<lambda>r. p r \<and> q r) t = Some r"
  by (induction t rule: rev_induct) (auto split: if_splits)

text \<open>With a key that is distinct in the table, a lookup by key finds exactly that row.\<close>

lemma find_key:
  "distinct (map k t) \<Longrightarrow> r \<in> set t \<Longrightarrow> find (\<lambda>x. k x = k r) t = Some r"
  by (induction t) (auto simp: image_iff)

lemma find_key_iff:
  "distinct (map k t) \<Longrightarrow> find (\<lambda>x. k x = i) t = Some r \<longleftrightarrow> r \<in> set t \<and> k r = i"
  using find_key [of k t r] by (auto dest: find_Some_in)

lemma distinct_key_eq:
  "distinct (map k t) \<Longrightarrow> r \<in> set t \<Longrightarrow> r' \<in> set t \<Longrightarrow> k r = k r' \<Longrightarrow> r = r'"
  by (simp add: distinct_map inj_on_def)

subsection \<open>Association lists as insertion-ordered Maps\<close>

text \<open>
  A JavaScript \<open>Map\<close> iterates in insertion order and overwriting keeps the position, so it is
  modelled by the list of its entries: \<open>map_set\<close>, \<open>map_get\<close> and \<open>map_delete\<close>.
\<close>

fun map_set :: "'k \<Rightarrow> 'v \<Rightarrow> ('k \<times> 'v) list \<Rightarrow> ('k \<times> 'v) list" where
  "map_set k v [] = [(k, v)]"
| "map_set k v (e # m) = (if fst e = k then (k, v) # m else e # map_set k v m)"

definition map_get :: "('k \<times> 'v) list \<Rightarrow> 'k \<Rightarrow> 'v option" where
  "map_get m k = map_of m k"

definition map_delete :: "'k \<Rightarrow> ('k \<times> 'v) list \<Rightarrow> ('k \<times> 'v) list" where
  "map_delete k m = filter (\<lambda>e. fst e \<noteq> k) m"

lemma map_get_Nil [simp]: "map_get [] k = None"
  by (simp add: map_get_def)

lemma map_get_set [simp]: "map_get (map_set k v m) k' = (if k = k' then Some v else map_get m k')"
  by (induction m) (auto simp: map_get_def)

lemma map_get_delete [simp]: "map_get (map_delete k m) k' = (if k = k' then None else map_get m k')"
  by (induction m) (auto simp: map_get_def map_delete_def)

lemma fst_map_set: "fst ` set (map_set k v m) = insert k (fst ` set m)"
  by (induction m) auto

lemma distinct_map_set: "distinct (map fst m) \<Longrightarrow> distinct (map fst (map_set k v m))"
  by (induction m) (auto simp: fst_map_set)

lemma distinct_map_delete: "distinct (map fst m) \<Longrightarrow> distinct (map fst (map_delete k m))"
  by (simp add: map_delete_def distinct_map_filter)

lemma map_get_in: "map_get m k = Some v \<Longrightarrow> (k, v) \<in> set m"
  by (simp add: map_get_def map_of_SomeD)

lemma map_get_None: "map_get m k = None \<longleftrightarrow> k \<notin> fst ` set m"
  by (simp add: map_get_def map_of_eq_None_iff)

lemma map_get_unique:
  "distinct (map fst m) \<Longrightarrow> (k, v) \<in> set m \<Longrightarrow> map_get m k = Some v"
  by (simp add: map_get_def)

end
