(* ===== verification/Contracts.thy ===== *)
theory Contracts
  imports Prelude_Js
begin

text \<open>
  The contracts that several components share, as locales.  \<open>event_machine\<close> is a component
  with a state, a total step per event and an invariant; \<open>stream_parser\<close> is a component that
  is fed a byte or character stream in pieces and must not depend on how it is cut.
  Each component interprets them on its own definitions.
\<close>

subsection \<open>Event machines\<close>

text \<open>A run of a deterministic machine over a list of events.\<close>

fun run_events :: "('e \<Rightarrow> 's \<Rightarrow> 's) \<Rightarrow> 'e list \<Rightarrow> 's \<Rightarrow> 's" where
  "run_events step [] s = s"
| "run_events step (e # es) s = run_events step es (step e s)"

lemma run_events_append [simp]:
  "run_events step (es @ fs) s = run_events step fs (run_events step es s)"
  by (induction es arbitrary: s) auto

locale event_machine =
  fixes step :: "'e \<Rightarrow> 's \<Rightarrow> 's"
    and inv :: "'s \<Rightarrow> bool"
  assumes inv_step: "inv s \<Longrightarrow> inv (step e s)"
begin

lemma inv_run: "inv s \<Longrightarrow> inv (run_events step es s)"
  by (induction es arbitrary: s) (auto intro: inv_step)

text \<open>A quantity no step lowers only grows over a run.\<close>

lemma mono_run:
  fixes m :: "'s \<Rightarrow> 'n::order"
  assumes "\<And>s e. inv s \<Longrightarrow> m s \<le> m (step e s)" and "inv s"
  shows "m s \<le> m (run_events step es s)"
  using assms(2)
proof (induction es arbitrary: s)
  case (Cons e es)
  then have "m s \<le> m (step e s)" and "m (step e s) \<le> m (run_events step es (step e s))"
    using assms(1) inv_step by auto
  then show ?case by (simp add: order_trans)
qed simp

end

subsection \<open>Steps with outputs\<close>

text \<open>A step gives the next state and what it says to the outside; results are run one after the other.\<close>

definition emit_then :: "'s \<times> 'o list \<Rightarrow> ('s \<Rightarrow> 's \<times> 'o list) \<Rightarrow> 's \<times> 'o list" where
  "emit_then r f = (case r of (st, o1) \<Rightarrow> case f st of (st', o2) \<Rightarrow> (st', o1 @ o2))"

definition emit_quiet :: "('s \<Rightarrow> 's) \<Rightarrow> 's \<Rightarrow> 's \<times> 'o list" where
  "emit_quiet f st = (f st, [])"

fun emit_each :: "('a \<Rightarrow> 's \<Rightarrow> 's \<times> 'o list) \<Rightarrow> 'a list \<Rightarrow> 's \<Rightarrow> 's \<times> 'o list" where
  "emit_each f [] st = (st, [])"
| "emit_each f (x # xs) st = emit_then (f x st) (emit_each f xs)"

lemma fst_emit_then [simp]: "fst (emit_then r f) = fst (f (fst r))"
  by (simp add: emit_then_def case_prod_unfold)

lemma snd_emit_then [simp]: "snd (emit_then r f) = snd r @ snd (f (fst r))"
  by (simp add: emit_then_def case_prod_unfold)

lemma emit_quiet_simps [simp]: "fst (emit_quiet f st) = f st" "snd (emit_quiet f st) = []"
  by (simp_all add: emit_quiet_def)

lemma emit_then_assoc: "emit_then (emit_then r f) g = emit_then r (\<lambda>st. emit_then (f st) g)"
  by (simp add: emit_then_def case_prod_unfold)

lemma emit_then_same [simp]: "emit_then r (\<lambda>st. (st, [])) = r"
  by (simp add: emit_then_def case_prod_unfold)

lemma emit_each_append: "emit_each f (xs @ ys) st = emit_then (emit_each f xs st) (emit_each f ys)"
proof (induction xs arbitrary: st)
  case (Cons x xs)
  then have "emit_each f (xs @ ys) = (\<lambda>st. emit_then (emit_each f xs st) (emit_each f ys))" by (intro ext)
  then show ?case by (simp add: emit_then_assoc)
qed (simp add: emit_then_def case_prod_unfold)

text \<open>
  A relation between a state and a result that composes, and holds for what leaves the state alone and says
  nothing, holds for whatever is built from results that have it.
\<close>

locale composing =
  fixes keeps :: "'s \<Rightarrow> 's \<times> 'o list \<Rightarrow> bool"
  assumes keeps_same: "keeps st (st, [])"
    and keeps_then: "keeps st r \<Longrightarrow> keeps (fst r) (f (fst r)) \<Longrightarrow> keeps st (emit_then r f)"
begin

lemma keeps_each: "(\<And>x st. keeps st (f x st)) \<Longrightarrow> keeps st (emit_each f xs st)"
  by (induction xs arbitrary: st) (auto intro: keeps_same keeps_then)

end

subsection \<open>Stream parsers\<close>

text \<open>
  \<open>feed\<close> consumes one piece of the stream and returns the new parser state and what the piece
  completed.  The law \<open>feed_append\<close> is what makes the transport's fragmentation invisible.
\<close>

fun feed_all :: "('c list \<Rightarrow> 's \<Rightarrow> 's \<times> 'o list) \<Rightarrow> 'c list list \<Rightarrow> 's \<Rightarrow> 's \<times> 'o list" where
  "feed_all feed [] s = (s, [])"
| "feed_all feed (c # cs) s =
     (let (s', out) = feed c s; (s'', out') = feed_all feed cs s' in (s'', out @ out'))"

text \<open>
  \<open>cutp a b\<close> says that the stream \<open>a @ b\<close> may be cut there: a byte stream anywhere, a character
  stream not inside a surrogate pair.
\<close>

fun cuts :: "('c list \<Rightarrow> 'c list \<Rightarrow> bool) \<Rightarrow> 'c list list \<Rightarrow> bool" where
  "cuts cutp [] \<longleftrightarrow> True"
| "cuts cutp (c # cs) \<longleftrightarrow> cutp c (concat cs) \<and> cuts cutp cs"

lemma cuts_anywhere [simp]: "cuts (\<lambda>_ _. True) cs"
  by (induction cs) auto

locale stream_parser =
  fixes feed :: "'c list \<Rightarrow> 's \<Rightarrow> 's \<times> 'o list"
    and ok :: "'s \<Rightarrow> bool"
    and cutp :: "'c list \<Rightarrow> 'c list \<Rightarrow> bool"
  assumes feed_ok: "ok s \<Longrightarrow> ok (fst (feed c s))"
    and feed_Nil: "ok s \<Longrightarrow> feed [] s = (s, [])"
    and feed_append: "ok s \<Longrightarrow> cutp a b \<Longrightarrow> feed (a @ b) s =
           (let (s', out) = feed a s; (s'', out') = feed b s' in (s'', out @ out'))"
begin

lemma feed_all_concat: "ok s \<Longrightarrow> cuts cutp cs \<Longrightarrow> feed_all feed cs s = feed (concat cs) s"
proof (induction cs arbitrary: s)
  case Nil
  then show ?case by (simp add: feed_Nil)
next
  case (Cons c cs)
  have "ok (fst (feed c s))" using Cons.prems(1) by (rule feed_ok)
  then show ?case
    using Cons by (simp add: feed_append case_prod_unfold Let_def)
qed

text \<open>Two ways of cutting the same stream give the same messages and the same residue.\<close>

lemma chunking_irrelevant:
  "ok s \<Longrightarrow> cuts cutp cs \<Longrightarrow> cuts cutp ds \<Longrightarrow> concat cs = concat ds \<Longrightarrow>
   feed_all feed cs s = feed_all feed ds s"
  by (simp add: feed_all_concat)

end

end
