(* ===== verification/Priority_Sem.thy ===== *)
theory Priority_Sem
  imports Contracts
begin

text \<open>
  The daemon's priority semaphore, \<open>src/main/daemon/priority-semaphore.ts\<close>.

  An acquisition is named by the number its caller gives it.  A granted acquisition has a
  release closure; \<open>closures\<close> records each closure handed out with its \<open>released\<close> flag, so
  that calling a closure twice is an event of the model as it is in the program.
\<close>

record waiter =
  w_priority :: int
  w_id :: nat

record psem =
  available :: int
  waiters :: "waiter list"
  closures :: "(nat \<times> bool) list"

definition new_sem :: "int \<Rightarrow> psem" where
  "new_sem concurrency = \<lparr>available = concurrency, waiters = [], closures = []\<rparr>"

definition acquire :: "int \<Rightarrow> nat \<Rightarrow> psem \<Rightarrow> psem" where
  "acquire p i s =
     (if available s > 0
      then s\<lparr>available := available s - 1, closures := closures s @ [(i, False)]\<rparr>
      else s\<lparr>waiters := waiters s @ [\<lparr>w_priority = p, w_id = i\<rparr>]\<rparr>)"

text \<open>The search loop of \<open>release\<close>: \<open>i\<close> is the loop variable, \<open>b\<close> is \<open>bestIdx\<close>.\<close>

function best_idx :: "waiter list \<Rightarrow> nat \<Rightarrow> nat \<Rightarrow> nat" where
  "best_idx ws i b =
     (if i < length ws
      then best_idx ws (Suc i) (if w_priority (ws ! i) < w_priority (ws ! b) then i else b)
      else b)"
  by pat_completeness auto
termination
  by (relation "measure (\<lambda>(ws, i, b). length ws - i)") auto

declare best_idx.simps [simp del]

definition release_slot :: "psem \<Rightarrow> psem" where
  "release_slot s =
     (if waiters s = [] then s\<lparr>available := available s + 1\<rparr>
      else let b = best_idx (waiters s) 1 0; w = waiters s ! b
           in s\<lparr>waiters := take b (waiters s) @ drop (Suc b) (waiters s),
                closures := closures s @ [(w_id w, False)]\<rparr>)"

text \<open>Calling the \<open>n\<close>-th closure that was handed out.\<close>

definition call_release :: "nat \<Rightarrow> psem \<Rightarrow> psem" where
  "call_release n s =
     (if n < length (closures s) \<and> \<not> snd (closures s ! n)
      then release_slot (s\<lparr>closures := (closures s)[n := (fst (closures s ! n), True)]\<rparr>)
      else s)"

datatype sem_event = Acquire int nat | CallRelease nat

fun sem_step :: "sem_event \<Rightarrow> psem \<Rightarrow> psem" where
  "sem_step (Acquire p i) s = acquire p i s"
| "sem_step (CallRelease n) s = call_release n s"

text \<open>Holders: acquisitions granted and not yet released.\<close>

definition holding :: "psem \<Rightarrow> nat" where
  "holding s = length (filter (\<lambda>c. \<not> snd c) (closures s))"

definition sem_inv :: "int \<Rightarrow> psem \<Rightarrow> bool" where
  "sem_inv n s \<longleftrightarrow> available s \<ge> 0 \<and> available s + int (holding s) = n \<and>
     (waiters s \<noteq> [] \<longrightarrow> available s = 0)"

subsection \<open>The search loop\<close>

lemma best_idx_spec:
  assumes "b < i" "i \<le> length ws"
    and "\<forall>k < i. w_priority (ws ! b) \<le> w_priority (ws ! k)"
    and "\<forall>k < b. w_priority (ws ! b) < w_priority (ws ! k)"
  defines "r \<equiv> best_idx ws i b"
  shows "r < length ws \<and> (\<forall>k < length ws. w_priority (ws ! r) \<le> w_priority (ws ! k)) \<and>
         (\<forall>k < r. w_priority (ws ! r) < w_priority (ws ! k))"
  using assms(1-4) unfolding r_def
proof (induction ws i b rule: best_idx.induct)
  case (1 ws i b)
  show ?case
  proof (cases "i < length ws")
    case True
    let ?b = "if w_priority (ws ! i) < w_priority (ws ! b) then i else b"
    have "?b < Suc i" using "1.prems"(1) by simp
    moreover have "\<forall>k < Suc i. w_priority (ws ! ?b) \<le> w_priority (ws ! k)"
      using "1.prems"(3) by (auto simp: less_Suc_eq intro: order_trans less_imp_le)
    moreover have "\<forall>k < ?b. w_priority (ws ! ?b) < w_priority (ws ! k)"
      using "1.prems"(3,4) by (auto intro: less_le_trans)
    ultimately show ?thesis
      using "1.IH" [OF True] True by (simp add: best_idx.simps [of ws i b])
  next
    case False
    with "1.prems" have "i = length ws" by simp
    then have "best_idx ws i b = b" by (subst best_idx.simps) simp
    with "1.prems" \<open>i = length ws\<close> show ?thesis by simp
  qed
qed

lemma best_idx_less: "ws \<noteq> [] \<Longrightarrow> best_idx ws 1 0 < length ws"
  using best_idx_spec [of 0 1 ws] by (cases ws) auto

subsection \<open>The invariant\<close>

lemma holding_append [simp]: "holding (s\<lparr>closures := cs @ [(i, False)]\<rparr>) = Suc (length (filter (\<lambda>c. \<not> snd c) cs))"
  by (simp add: holding_def)

lemma filter_update_released:
  "n < length cs \<Longrightarrow> \<not> snd (cs ! n) \<Longrightarrow>
   Suc (length (filter (\<lambda>c. \<not> snd c) (cs[n := (a, True)]))) = length (filter (\<lambda>c. \<not> snd c) cs)"
  by (induction cs arbitrary: n) (auto split: nat.splits)

lemma sem_inv_acquire: "sem_inv n s \<Longrightarrow> sem_inv n (acquire p i s)"
  by (auto simp: sem_inv_def acquire_def holding_def)

lemma sem_inv_release_slot:
  assumes "available s \<ge> 0" "available s + int (holding s) + 1 = n"
    "waiters s \<noteq> [] \<longrightarrow> available s = 0"
  shows "sem_inv n (release_slot s)"
  using assms by (auto simp: sem_inv_def release_slot_def holding_def Let_def)

lemma sem_inv_call_release:
  assumes "sem_inv n s"
  shows "sem_inv n (call_release k s)"
proof (cases "k < length (closures s) \<and> \<not> snd (closures s ! k)")
  case True
  let ?s = "s\<lparr>closures := (closures s)[k := (fst (closures s ! k), True)]\<rparr>"
  have "Suc (holding ?s) = holding s"
    using True by (simp add: holding_def filter_update_released)
  with assms have "sem_inv n (release_slot ?s)"
    by (intro sem_inv_release_slot) (auto simp: sem_inv_def)
  with True show ?thesis by (simp add: call_release_def)
qed (use assms in \<open>auto simp: call_release_def\<close>)

interpretation sem: event_machine sem_step "sem_inv n" for n
proof
  fix s e assume "sem_inv n s"
  then show "sem_inv n (sem_step e s)"
    by (cases e) (auto intro: sem_inv_acquire sem_inv_call_release)
qed

lemma sem_inv_new: "0 \<le> n \<Longrightarrow> sem_inv n (new_sem n)"
  by (simp add: sem_inv_def new_sem_def holding_def)

subsection \<open>Properties\<close>

text \<open>
  C37: over any sequence of acquisitions and calls of release closures (in any order, repeated
  calls included) a semaphore made for \<open>n\<close> slots never has more than \<open>n\<close> holders, and it is
  work conserving: while an acquisition waits, all \<open>n\<close> slots are held.
\<close>

theorem sem_bounded_and_work_conserving:
  assumes "0 \<le> n"
  shows "let s = run_events sem_step es (new_sem n)
         in int (holding s) \<le> n \<and> (waiters s \<noteq> [] \<longrightarrow> int (holding s) = n)"
  using sem.inv_run [OF sem_inv_new [OF assms], of es]
  by (auto simp: Let_def sem_inv_def)

theorem sem_bounded_and_work_conserving_witness:
  "(0::int) \<le> 1 \<and>
   (let s = run_events sem_step [Acquire 5 0, Acquire 2 1, Acquire 1 2, CallRelease 0, CallRelease 0] (new_sem 1)
    in int (holding s) \<le> 1 \<and> (waiters s = [] \<or> int (holding s) = 1))"
proof -
  have h: "(0::int) \<le> 1" by simp
  show ?thesis
    using sem_bounded_and_work_conserving [OF h,
        of "[Acquire 5 0, Acquire 2 1, Acquire 1 2, CallRelease 0, CallRelease 0]"]
    unfolding Let_def by auto
qed

text \<open>
  Releasing a slot while acquisitions wait hands it to the waiter of the lowest priority
  number, the earliest of those on a tie, removes exactly that waiter and keeps the order of
  the others; the count of free slots is unchanged.
\<close>

theorem release_grants_best_waiter:
  assumes "waiters s \<noteq> []"
  shows "\<exists>pre w post. waiters s = pre @ w # post \<and>
     (\<forall>v \<in> set pre. w_priority w < w_priority v) \<and> (\<forall>v \<in> set post. w_priority w \<le> w_priority v) \<and>
     release_slot s = s\<lparr>waiters := pre @ post, closures := closures s @ [(w_id w, False)]\<rparr>"
proof -
  let ?ws = "waiters s" and ?b = "best_idx (waiters s) 1 0"
  have spec: "?b < length ?ws \<and> (\<forall>k < length ?ws. w_priority (?ws ! ?b) \<le> w_priority (?ws ! k)) \<and>
      (\<forall>k < ?b. w_priority (?ws ! ?b) < w_priority (?ws ! k))"
    using best_idx_spec [of 0 1 ?ws] assms by (cases ?ws) auto
  have split: "?ws = take ?b ?ws @ ?ws ! ?b # drop (Suc ?b) ?ws"
    using spec by (simp add: id_take_nth_drop)
  have pre: "\<forall>v \<in> set (take ?b ?ws). w_priority (?ws ! ?b) < w_priority v"
    using spec by (auto simp: in_set_conv_nth)
  have post: "\<forall>v \<in> set (drop (Suc ?b) ?ws). w_priority (?ws ! ?b) \<le> w_priority v"
    using spec by (auto simp: in_set_conv_nth)
  show ?thesis
    using split pre post assms
    by (intro exI [of _ "take ?b ?ws"] exI [of _ "?ws ! ?b"] exI [of _ "drop (Suc ?b) ?ws"])
       (simp add: release_slot_def Let_def)
qed

theorem release_grants_best_waiter_witness:
  "\<exists>s pre w post. waiters s = pre @ w # post \<and> length pre = 1 \<and> length post = 1 \<and> w_id w = 1 \<and>
     release_slot s = s\<lparr>waiters := pre @ post, closures := closures s @ [(w_id w, False)]\<rparr>"
proof -
  let ?a = "\<lparr>w_priority = 5, w_id = 0\<rparr>" and ?b = "\<lparr>w_priority = 2, w_id = 1\<rparr>"
    and ?c = "\<lparr>w_priority = 2, w_id = 2\<rparr>"
  let ?s = "\<lparr>available = 0, waiters = [?a, ?b, ?c], closures = []\<rparr>"
  have "waiters ?s \<noteq> []" by simp
  from release_grants_best_waiter [OF this] obtain pre w post where
    *: "waiters ?s = pre @ w # post" "\<forall>v \<in> set pre. w_priority w < w_priority v"
      "\<forall>v \<in> set post. w_priority w \<le> w_priority v"
      "release_slot ?s = ?s\<lparr>waiters := pre @ post, closures := closures ?s @ [(w_id w, False)]\<rparr>"
    by blast
  then have "pre = [?a] \<and> w = ?b \<and> post = [?c]"
    by (auto simp: Cons_eq_append_conv)
  with * show ?thesis by (intro exI [of _ ?s] exI [of _ "[?a]"] exI [of _ ?b] exI [of _ "[?c]"]) auto
qed

end
