(* ===== verification/Json.thy ===== *)
theory Json
  imports Prelude_Js
begin

text \<open>
  The language's \<open>JSON.parse\<close> and \<open>JSON.stringify\<close> on code-unit strings, as the sources use
  them for message payloads, dependency lists and NDJSON lines.  A number keeps its source
  spelling (\<open>JNum\<close>), since no modelled code computes with a parsed number; everything else is the
  well-formed \<open>JSON.stringify\<close> of ECMAScript: control characters and lone surrogates are escaped,
  and a later duplicate key overwrites the earlier one in place.

  The parser carries fuel: every bracket it opens and every element it reads consumes input, so
  twice the length of the text is enough (\<open>json_parse_stringify\<close> shows it for every value).
\<close>

datatype json =
    JNull
  | JBool bool
  | JNum jsstr
  | JStr jsstr
  | JArr "json list"
  | JObj "(jsstr \<times> json) list"

subsection \<open>Lexical layer\<close>

definition json_ws :: "jschar \<Rightarrow> bool" where
  "json_ws c \<longleftrightarrow> c = 32 \<or> c = 9 \<or> c = 10 \<or> c = 13"

definition skip_ws :: "jsstr \<Rightarrow> jsstr" where
  "skip_ws s = dropWhile json_ws s"

definition is_digit :: "jschar \<Rightarrow> bool" where
  "is_digit c \<longleftrightarrow> 48 \<le> c \<and> c \<le> 57"

definition num_char :: "jschar \<Rightarrow> bool" where
  "num_char c \<longleftrightarrow> is_digit c \<or> c = 43 \<or> c = 45 \<or> c = 46 \<or> c = 69 \<or> c = 101"

text \<open>\<open>-?(0|[1-9][0-9]*)(\.[0-9]+)?([eE][+-]?[0-9]+)?\<close>\<close>

definition valid_exp :: "jsstr \<Rightarrow> bool" where
  "valid_exp s \<longleftrightarrow>
     (case s of [] \<Rightarrow> True
      | c # r \<Rightarrow> (c = 69 \<or> c = 101) \<and>
          (let d = (case r of [] \<Rightarrow> [] | x # y \<Rightarrow> if x = 43 \<or> x = 45 then y else r)
           in d \<noteq> [] \<and> list_all is_digit d))"

definition valid_num :: "jsstr \<Rightarrow> bool" where
  "valid_num s =
     (let s1 = (case s of [] \<Rightarrow> [] | c # r \<Rightarrow> if c = 45 then r else s);
          ip = takeWhile is_digit s1; s2 = dropWhile is_digit s1
      in ip \<noteq> [] \<and> (hd ip = 48 \<longrightarrow> length ip = 1) \<and>
         (case s2 of [] \<Rightarrow> True
          | c # r \<Rightarrow> if c = 46
              then takeWhile is_digit r \<noteq> [] \<and> valid_exp (dropWhile is_digit r)
              else valid_exp s2))"

definition hex_val :: "jschar \<Rightarrow> jschar option" where
  "hex_val c =
     (if is_digit c then Some (c - 48)
      else if 97 \<le> c \<and> c \<le> 102 then Some (c - 87)
      else if 65 \<le> c \<and> c \<le> 70 then Some (c - 55) else None)"

fun hex4_val :: "jsstr \<Rightarrow> jschar option" where
  "hex4_val [a, b, c, d] =
     (case (hex_val a, hex_val b, hex_val c, hex_val d) of
        (Some x, Some y, Some z, Some w) \<Rightarrow> Some (4096 * x + 256 * y + 16 * z + w)
      | _ \<Rightarrow> None)"
| "hex4_val _ = None"

definition unescape1 :: "jschar \<Rightarrow> jschar option" where
  "unescape1 e =
     (if e = 34 \<or> e = 92 \<or> e = 47 then Some e
      else if e = 98 then Some 8 else if e = 102 then Some 12
      else if e = 110 then Some 10 else if e = 114 then Some 13
      else if e = 116 then Some 9 else None)"

text \<open>The rest of a string literal after its opening quote.\<close>

function parse_str :: "jsstr \<Rightarrow> (jsstr \<times> jsstr) option" where
  "parse_str [] = None"
| "parse_str (c # s) =
     (if c = 34 then Some ([], s)
      else if c = 92 then
        (case s of [] \<Rightarrow> None
         | e # r \<Rightarrow>
            if e = 117 then
              (case hex4_val (take 4 r) of None \<Rightarrow> None
               | Some u \<Rightarrow> map_option (\<lambda>(t, r'). (u # t, r')) (parse_str (drop 4 r)))
            else
              (case unescape1 e of None \<Rightarrow> None
               | Some u \<Rightarrow> map_option (\<lambda>(t, r'). (u # t, r')) (parse_str r)))
      else if c < 32 then None
      else map_option (\<lambda>(t, r'). (c # t, r')) (parse_str s))"
  by pat_completeness auto
termination by (relation "measure length") auto

subsection \<open>Values\<close>

fun parse_value :: "nat \<Rightarrow> jsstr \<Rightarrow> (json \<times> jsstr) option"
and parse_elems :: "nat \<Rightarrow> jsstr \<Rightarrow> (json list \<times> jsstr) option"
and parse_members :: "nat \<Rightarrow> jsstr \<Rightarrow> ((jsstr \<times> json) list \<times> jsstr) option" where
  "parse_value 0 s = None"
| "parse_value (Suc n) s =
     (case skip_ws s of [] \<Rightarrow> None
      | c # r \<Rightarrow>
         if c = 34 then map_option (\<lambda>(t, r'). (JStr t, r')) (parse_str r)
         else if c = 91 then
           (if starts_with [93] (skip_ws r) then Some (JArr [], tl (skip_ws r))
            else map_option (\<lambda>(vs, r'). (JArr vs, r')) (parse_elems n r))
         else if c = 123 then
           (if starts_with [125] (skip_ws r) then Some (JObj [], tl (skip_ws r))
            else map_option (\<lambda>(ms, r'). (JObj (fold (\<lambda>(k, v). map_set k v) ms []), r'))
                   (parse_members n r))
         else if starts_with (js ''true'') (c # r) then Some (JBool True, drop 3 r)
         else if starts_with (js ''false'') (c # r) then Some (JBool False, drop 4 r)
         else if starts_with (js ''null'') (c # r) then Some (JNull, drop 3 r)
         else let l = takeWhile num_char (c # r)
              in if valid_num l then Some (JNum l, dropWhile num_char (c # r)) else None)"
| "parse_elems 0 s = None"
| "parse_elems (Suc n) s =
     (case parse_value n s of None \<Rightarrow> None
      | Some (v, r) \<Rightarrow>
         (case skip_ws r of [] \<Rightarrow> None
          | c # r' \<Rightarrow>
             if c = 44 then map_option (\<lambda>(vs, r''). (v # vs, r'')) (parse_elems n r')
             else if c = 93 then Some ([v], r') else None))"
| "parse_members 0 s = None"
| "parse_members (Suc n) s =
     (case skip_ws s of [] \<Rightarrow> None
      | q # t \<Rightarrow>
         if q \<noteq> 34 then None
         else (case parse_str t of None \<Rightarrow> None
               | Some (k, t') \<Rightarrow>
                  (case skip_ws t' of [] \<Rightarrow> None
                   | d # t'' \<Rightarrow>
                      if d \<noteq> 58 then None
                      else (case parse_value n t'' of None \<Rightarrow> None
                            | Some (v, r) \<Rightarrow>
                               (case skip_ws r of [] \<Rightarrow> None
                                | c # r' \<Rightarrow>
                                   if c = 44
                                   then map_option (\<lambda>(ms, r''). ((k, v) # ms, r'')) (parse_members n r')
                                   else if c = 125 then Some ([(k, v)], r') else None)))))"

definition json_parse :: "jsstr \<Rightarrow> json option" where
  "json_parse s =
     (case parse_value (2 * length s) s of None \<Rightarrow> None
      | Some (v, r) \<Rightarrow> if skip_ws r = [] then Some v else None)"

subsection \<open>Stringify\<close>

definition hex_digit :: "jschar \<Rightarrow> jschar" where
  "hex_digit d = (if d < 10 then d + 48 else d + 87)"

definition hex4 :: "jschar \<Rightarrow> jsstr" where
  "hex4 c = [hex_digit (c div 16 div 16 div 16), hex_digit (c div 16 div 16 mod 16),
             hex_digit (c div 16 mod 16), hex_digit (c mod 16)]"

definition is_high_surrogate :: "jschar \<Rightarrow> bool" where
  "is_high_surrogate c \<longleftrightarrow> 0xD800 \<le> c \<and> c \<le> 0xDBFF"

definition is_low_surrogate :: "jschar \<Rightarrow> bool" where
  "is_low_surrogate c \<longleftrightarrow> 0xDC00 \<le> c \<and> c \<le> 0xDFFF"

definition escape_char :: "jschar \<Rightarrow> jsstr" where
  "escape_char c =
     (if c = 34 \<or> c = 92 then [92, c]
      else if c = 8 then [92, 98] else if c = 12 then [92, 102]
      else if c = 10 then [92, 110] else if c = 13 then [92, 114]
      else if c = 9 then [92, 116]
      else if c < 32 then 92 # 117 # hex4 c else [c])"

function escape_str :: "jsstr \<Rightarrow> jsstr" where
  "escape_str [] = []"
| "escape_str (c # s) =
     (if is_high_surrogate c \<and> s \<noteq> [] \<and> is_low_surrogate (hd s)
      then c # hd s # escape_str (tl s)
      else if is_high_surrogate c \<or> is_low_surrogate c then 92 # 117 # hex4 c @ escape_str s
      else escape_char c @ escape_str s)"
  by pat_completeness auto
termination by (relation "measure length") (auto simp: neq_Nil_conv)

definition quote_str :: "jsstr \<Rightarrow> jsstr" where
  "quote_str s = 34 # escape_str s @ [34]"

fun join :: "jsstr \<Rightarrow> jsstr list \<Rightarrow> jsstr" where
  "join d [] = []"
| "join d [x] = x"
| "join d (x # y # xs) = x @ d @ join d (y # xs)"

fun json_stringify :: "json \<Rightarrow> jsstr" where
  "json_stringify JNull = js ''null''"
| "json_stringify (JBool b) = (if b then js ''true'' else js ''false'')"
| "json_stringify (JNum l) = l"
| "json_stringify (JStr s) = quote_str s"
| "json_stringify (JArr vs) = 91 # join [44] (map json_stringify vs) @ [93]"
| "json_stringify (JObj ms) =
     123 # join [44] (map (\<lambda>(k, v). quote_str k @ 58 # json_stringify v) ms) @ [125]"

text \<open>Values a program can hold: number spellings are numbers, the keys of an object distinct.\<close>

fun json_ok :: "json \<Rightarrow> bool" where
  "json_ok (JNum l) = (valid_num l \<and> list_all num_char l)"
| "json_ok (JArr vs) = list_all json_ok vs"
| "json_ok (JObj ms) = (distinct (map fst ms) \<and> list_all (\<lambda>(k, v). json_ok v) ms)"
| "json_ok _ = True"

subsection \<open>Parsing what was printed\<close>

lemma word16_lt16_cases:
  assumes "d < (16 :: jschar)"
  shows "d = 0 \<or> d = 1 \<or> d = 2 \<or> d = 3 \<or> d = 4 \<or> d = 5 \<or> d = 6 \<or> d = 7 \<or>
         d = 8 \<or> d = 9 \<or> d = 10 \<or> d = 11 \<or> d = 12 \<or> d = 13 \<or> d = 14 \<or> d = 15"
proof -
  from assms have "unat d < 16" by (simp add: word_less_nat_alt)
  then have "unat d = 0 \<or> unat d = 1 \<or> unat d = 2 \<or> unat d = 3 \<or> unat d = 4 \<or> unat d = 5 \<or>
      unat d = 6 \<or> unat d = 7 \<or> unat d = 8 \<or> unat d = 9 \<or> unat d = 10 \<or> unat d = 11 \<or>
      unat d = 12 \<or> unat d = 13 \<or> unat d = 14 \<or> unat d = 15" by presburger
  then show ?thesis by (simp add: word_unat_eq_iff)
qed

lemma hex_val_digit: "d < 16 \<Longrightarrow> hex_val (hex_digit d) = Some d"
  by (drule word16_lt16_cases, elim disjE) (simp_all add: hex_val_def hex_digit_def is_digit_def)

lemma hex4_val_hex4: "hex4_val (hex4 c) = Some c"
proof -
  have small: "c mod 16 < 16" "c div 16 mod 16 < 16" "c div 16 div 16 mod 16 < 16"
    "c div 16 div 16 div 16 < 16" for c :: jschar
    using unsigned_less [of c, where ?'a = nat] by (simp_all add: word_less_nat_alt unat_mod unat_div)
  have "4096 * (c div 16 div 16 div 16) + 256 * (c div 16 div 16 mod 16) + 16 * (c div 16 mod 16) + c mod 16
      = 16 * (16 * (16 * (c div 16 div 16 div 16) + c div 16 div 16 mod 16) + c div 16 mod 16) + c mod 16"
    by (simp add: algebra_simps)
  also have "\<dots> = c"
    by (metis mult_div_mod_eq)
  finally show ?thesis by (simp add: hex4_def hex_val_digit small)
qed

lemma length_hex4 [simp]: "length (hex4 c) = 4"
  by (simp add: hex4_def)

lemma parse_str_unicode:
  "parse_str (92 # 117 # hex4 c @ t) = map_option (\<lambda>(x, r). (c # x, r)) (parse_str t)"
  by (simp add: hex4_val_hex4)

lemma parse_str_escape_char:
  "parse_str (escape_char c @ t) = map_option (\<lambda>(x, r). (c # x, r)) (parse_str t)"
  by (auto simp: escape_char_def unescape1_def hex4_val_hex4 not_less)

lemma parse_str_plain:
  "is_high_surrogate c \<or> is_low_surrogate c \<Longrightarrow>
   parse_str (c # t) = map_option (\<lambda>(x, r). (c # x, r)) (parse_str t)"
  by (auto simp: is_high_surrogate_def is_low_surrogate_def word_le_nat_alt word_less_nat_alt)

lemma parse_str_escape: "parse_str (escape_str s @ 34 # r) = Some (s, r)"
proof (induction s rule: escape_str.induct)
  case 1
  then show ?case by simp
next
  case (2 c s)
  show ?case
  proof (cases "is_high_surrogate c \<and> s \<noteq> [] \<and> is_low_surrogate (hd s)")
    case True
    then obtain d s' where "s = d # s'" "is_low_surrogate d" by (cases s) auto
    with True "2.IH"(1) show ?thesis
      by (simp add: parse_str_plain del: parse_str.simps)
  next
    case F: False
    show ?thesis
    proof (cases "is_high_surrogate c \<or> is_low_surrogate c")
      case True
      with F "2.IH"(2) have "parse_str (escape_str s @ 34 # r) = Some (s, r)" by blast
      moreover have "escape_str (c # s) @ 34 # r = 92 # 117 # hex4 c @ escape_str s @ 34 # r"
        using F True by auto
      ultimately show ?thesis by (simp only: parse_str_unicode) simp
    next
      case False
      with F "2.IH"(3) have "parse_str (escape_str s @ 34 # r) = Some (s, r)" by blast
      moreover have "escape_str (c # s) @ 34 # r = escape_char c @ escape_str s @ 34 # r"
        using F False by auto
      ultimately show ?thesis by (simp only: parse_str_escape_char) simp
    qed
  qed
qed

definition json_stop :: "jsstr \<Rightarrow> bool" where
  "json_stop r \<longleftrightarrow> (case r of [] \<Rightarrow> True | c # _ \<Rightarrow> \<not> num_char c)"

lemma json_stop_simps [simp]:
  "json_stop []" "json_stop (c # r) = (\<not> num_char c)"
  by (simp_all add: json_stop_def)

lemma num_char_sep [simp]:
  "\<not> num_char 44" "\<not> num_char 93" "\<not> num_char 125"
  by (simp_all add: num_char_def is_digit_def)

text \<open>What the first code unit of a printed value can be.\<close>

definition value_start :: "jschar \<Rightarrow> bool" where
  "value_start c \<longleftrightarrow> c = 34 \<or> c = 91 \<or> c = 123 \<or> c = 116 \<or> c = 102 \<or> c = 110 \<or> num_char c"

lemma stringify_start:
  "json_ok v \<Longrightarrow> \<exists>c t. json_stringify v = c # t \<and> value_start c"
proof (cases v)
  case (JNum l)
  assume "json_ok v"
  with JNum have "l \<noteq> []" by (auto simp: valid_num_def)
  with JNum \<open>json_ok v\<close> show ?thesis by (cases l) (auto simp: value_start_def)
qed (auto simp: value_start_def quote_str_def js_eval)

lemma value_start_props:
  assumes "value_start c"
  shows "\<not> json_ws c" "c \<noteq> 93" "c \<noteq> 125"
  using assms by (auto simp: value_start_def json_ws_def num_char_def is_digit_def)

lemma skip_ws_stringify [simp]:
  "json_ok v \<Longrightarrow> skip_ws (json_stringify v @ r) = json_stringify v @ r"
  using stringify_start [of v] value_start_props(1) by (auto simp: skip_ws_def)

lemma skip_ws_sep [simp]:
  "skip_ws [] = []" "skip_ws (44 # r) = 44 # r" "skip_ws (93 # r) = 93 # r" "skip_ws (125 # r) = 125 # r"
  "skip_ws (58 # r) = 58 # r" "skip_ws (34 # r) = 34 # r"
  by (simp_all add: skip_ws_def json_ws_def)

lemma parse_value_num:
  assumes "valid_num l" "list_all num_char l" "json_stop r"
  shows "parse_value (Suc n) (l @ r) = Some (JNum l, r)"
proof -
  obtain c t where l: "l = c # t" using assms(1) by (cases l) (auto simp: valid_num_def)
  have c: "num_char c" using assms(2) l by simp
  have tw: "takeWhile num_char (l @ r) = l \<and> dropWhile num_char (l @ r) = r"
    using assms(2,3) by (cases r) (auto simp: list_all_iff)
  have "skip_ws (l @ r) = c # t @ r" "c \<notin> {34, 91, 123, 116, 102, 110}"
    using c l by (auto simp: skip_ws_def json_ws_def num_char_def is_digit_def)
  with tw assms(1) show ?thesis
    by (simp add: l starts_with_def js_eval Let_def)
qed

lemma parse_elems_join:
  assumes "\<And>v n r. v \<in> set vs \<Longrightarrow> 2 * length (json_stringify v) \<le> n \<Longrightarrow> json_stop r \<Longrightarrow>
      parse_value n (json_stringify v @ r) = Some (v, r)"
    and "vs \<noteq> []" "2 * length (join [44] (map json_stringify vs)) + 1 \<le> n"
  shows "parse_elems n (join [44] (map json_stringify vs) @ 93 # r) = Some (vs, r)"
  using assms
proof (induction vs arbitrary: n)
  case (Cons v vs)
  obtain m where n: "n = Suc m" using Cons.prems(3) by (cases n) auto
  show ?case
  proof (cases vs)
    case Nil
    then show ?thesis using Cons.prems(1) [of v m "93 # r"] Cons.prems(3) n by simp
  next
    case (Cons w ws)
    let ?rest = "join [44] (map json_stringify vs)"
    have "parse_elems m (?rest @ 93 # r) = Some (vs, r)"
      using Cons.IH [of m] Cons.prems(1,3) Cons n by simp
    moreover have "parse_value m (json_stringify v @ 44 # ?rest @ 93 # r) = Some (v, 44 # ?rest @ 93 # r)"
      using Cons.prems(1) [of v m] Cons.prems(3) Cons n by simp
    ultimately show ?thesis using Cons n by simp
  qed
qed simp

abbreviation print_member :: "jsstr \<times> json \<Rightarrow> jsstr" where
  "print_member \<equiv> (\<lambda>(k, v). quote_str k @ 58 # json_stringify v)"

lemma skip_ws_member [simp]: "skip_ws (join [44] (map print_member ((k, v) # ms)) @ r)
    = join [44] (map print_member ((k, v) # ms)) @ r"
  by (cases ms) (auto simp: quote_str_def skip_ws_def json_ws_def)

lemma parse_members_join:
  assumes "\<And>k v n r. (k, v) \<in> set ms \<Longrightarrow> 2 * length (json_stringify v) \<le> n \<Longrightarrow> json_stop r \<Longrightarrow>
      parse_value n (json_stringify v @ r) = Some (v, r)"
    and "\<And>k v. (k, v) \<in> set ms \<Longrightarrow> json_ok v"
    and "ms \<noteq> []" "2 * length (join [44] (map print_member ms)) + 1 \<le> n"
  shows "parse_members n (join [44] (map print_member ms) @ 125 # r) = Some (ms, r)"
  using assms
proof (induction ms arbitrary: n)
  case (Cons e ms)
  obtain k v where e: "e = (k, v)" by (cases e)
  obtain m where n: "n = Suc m" using Cons.prems(4) by (cases n) auto
  show ?case
  proof (cases ms)
    case Nil
    then show ?thesis
      using Cons.prems(1) [of k v m "125 # r"] Cons.prems(2) [of k v] Cons.prems(4) n e
      by (simp add: quote_str_def parse_str_escape)
  next
    case (Cons f fs)
    let ?rest = "join [44] (map print_member ms)"
    have "parse_members m (?rest @ 125 # r) = Some (ms, r)"
      using Cons.IH [of m] Cons.prems(1,2,4) Cons n e by fastforce
    moreover have "parse_value m (json_stringify v @ 44 # ?rest @ 125 # r) = Some (v, 44 # ?rest @ 125 # r)"
      using Cons.prems(1) [of k v m] Cons.prems(4) Cons n e by simp
    ultimately show ?thesis
      using Cons n e Cons.prems(2) [of k v] by (simp add: quote_str_def parse_str_escape)
  qed
qed simp

lemma fold_map_set_distinct:
  "distinct (map fst (ms' @ ms)) \<Longrightarrow> fold (\<lambda>(k, v). map_set k v) ms ms' = ms' @ ms"
proof (induction ms arbitrary: ms')
  case (Cons e ms)
  have new: "k \<notin> fst ` set m \<Longrightarrow> map_set k v m = m @ [(k, v)]" for k v and m :: "('a \<times> 'b) list"
    by (induction m) auto
  have "map_set (fst e) (snd e) ms' = ms' @ [e]"
    using new [of "fst e" ms' "snd e"] Cons.prems by auto
  then show ?case using Cons.IH [of "ms' @ [e]"] Cons.prems by (auto simp: case_prod_unfold)
qed simp

lemma parse_value_stringify:
  "json_ok v \<Longrightarrow> 2 * length (json_stringify v) \<le> n \<Longrightarrow> json_stop r \<Longrightarrow>
   parse_value n (json_stringify v @ r) = Some (v, r)"
proof (induction v arbitrary: n r)
  case (JNum l)
  then obtain m where "n = Suc m" by (cases n) (auto simp: valid_num_def)
  with JNum show ?case using parse_value_num [of l r m] by simp
next
  case (JStr t)
  then obtain m where "n = Suc m" by (cases n) (auto simp: quote_str_def)
  then show ?case by (simp add: quote_str_def parse_str_escape)
next
  case (JArr vs)
  then obtain m where n: "n = Suc m" by (cases n) auto
  show ?case
  proof (cases "vs = []")
    case True
    with n show ?thesis by (simp add: skip_ws_def json_ws_def starts_with_def)
  next
    case False
    have p: "parse_elems m (join [44] (map json_stringify vs) @ 93 # r) = Some (vs, r)"
      using JArr False n by (intro parse_elems_join) (auto simp: list_all_iff)
    obtain v ws where vs: "vs = v # ws" using False by (cases vs) auto
    then have ok: "json_ok v" using JArr.prems(1) by simp
    obtain c t where ct: "json_stringify v = c # t" "value_start c"
      using stringify_start [OF ok] by blast
    then obtain t' where j: "join [44] (map json_stringify vs) @ 93 # r = c # t'"
      using vs by (cases ws) auto
    have "skip_ws (c # t') = c # t'" "\<not> starts_with [93] (c # t')"
      using value_start_props [OF ct(2)] by (auto simp: skip_ws_def starts_with_def)
    with p j n show ?thesis by (simp add: skip_ws_def json_ws_def)
  qed
next
  case (JObj ms)
  then obtain m where n: "n = Suc m" by (cases n) auto
  show ?case
  proof (cases "ms = []")
    case True
    with n show ?thesis by (simp add: skip_ws_def json_ws_def starts_with_def)
  next
    case False
    have p: "parse_members m (join [44] (map print_member ms) @ 125 # r) = Some (ms, r)"
      using JObj False n by (intro parse_members_join) (fastforce simp: list_all_iff)+
    have d: "fold (\<lambda>(k, v). map_set k v) ms [] = ms"
      using fold_map_set_distinct [of "[]" ms] JObj.prems(1) by simp
    obtain k v fs where ms: "ms = (k, v) # fs" using False by (cases ms) auto
    have "skip_ws (join [44] (map print_member ms) @ 125 # r) = join [44] (map print_member ms) @ 125 # r"
      by (simp only: ms skip_ws_member)
    moreover have "\<not> starts_with [125] (join [44] (map print_member ms) @ 125 # r)"
      using ms by (cases fs) (auto simp: quote_str_def starts_with_def)
    ultimately show ?thesis using p d n by (simp add: skip_ws_def json_ws_def)
  qed
next
  case JNull
  then obtain m where "n = Suc m" by (cases n) (auto simp: js_eval)
  then show ?case by (simp add: skip_ws_def json_ws_def starts_with_def js_eval)
next
  case (JBool b)
  then obtain m where "n = Suc m" by (cases n) (auto simp: js_eval split: if_splits)
  then show ?case by (simp add: skip_ws_def json_ws_def starts_with_def js_eval)
qed

theorem json_parse_stringify: "json_ok v \<Longrightarrow> json_parse (json_stringify v) = Some v"
  using parse_value_stringify [of v "2 * length (json_stringify v)" "[]"]
  by (simp add: json_parse_def)

subsection \<open>Printed text holds no line feed\<close>

lemma hex_digit_not_nl: "d < 16 \<Longrightarrow> hex_digit d \<noteq> 10"
  by (drule word16_lt16_cases, elim disjE) (simp_all add: hex_digit_def)

lemma hex4_not_nl: "10 \<notin> set (hex4 c)"
proof -
  have "c mod 16 < 16" "c div 16 mod 16 < 16" "c div 16 div 16 mod 16 < 16"
    "c div 16 div 16 div 16 < 16" for c :: jschar
    using unsigned_less [of c, where ?'a = nat] by (simp_all add: word_less_nat_alt unat_mod unat_div)
  then show ?thesis using hex_digit_not_nl by (simp add: hex4_def)
qed

lemma escape_str_not_nl: "10 \<notin> set (escape_str s)"
proof (induction s rule: escape_str.induct)
  case (2 c s)
  have "10 \<notin> set (escape_char c)" by (auto simp: escape_char_def hex4_not_nl)
  moreover have "is_high_surrogate c \<or> is_low_surrogate c \<Longrightarrow> c \<noteq> 10"
    by (auto simp: is_high_surrogate_def is_low_surrogate_def)
  moreover have "s \<noteq> [] \<Longrightarrow> is_low_surrogate (hd s) \<Longrightarrow> hd s \<noteq> 10"
    by (auto simp: is_low_surrogate_def)
  ultimately show ?case using 2 hex4_not_nl [of c] by auto
qed simp

lemma join_not_nl: "d \<notin> set sep \<Longrightarrow> (\<And>x. x \<in> set xs \<Longrightarrow> d \<notin> set x) \<Longrightarrow> d \<notin> set (join sep xs)"
  by (induction sep xs rule: join.induct) auto

lemma stringify_not_nl: "json_ok v \<Longrightarrow> 10 \<notin> set (json_stringify v)"
proof (induction v)
  case (JNum l)
  then show ?case by (auto simp: list_all_iff num_char_def is_digit_def)
next
  case (JArr vs)
  then have "10 \<notin> set (join [44] (map json_stringify vs))"
    by (intro join_not_nl) (auto simp: list_all_iff)
  then show ?case by simp
next
  case (JObj ms)
  have "10 \<notin> set (join [44] (map print_member ms))"
    using JObj by (intro join_not_nl) (fastforce simp: list_all_iff quote_str_def escape_str_not_nl)+
  then show ?case by simp
qed (auto simp: js_eval quote_str_def escape_str_not_nl)

text \<open>What the parser returns is a value the program can hold.\<close>

lemma fold_map_set_ok:
  assumes "distinct (map fst acc)" "list_all (\<lambda>(k, v). P v) acc" "list_all (\<lambda>(k, v). P v) ms"
  shows "distinct (map fst (fold (\<lambda>(k, v). map_set k v) ms acc)) \<and>
     list_all (\<lambda>(k, v). P v) (fold (\<lambda>(k, v). map_set k v) ms acc)"
  using assms
proof (induction ms arbitrary: acc)
  case (Cons e ms)
  have "list_all (\<lambda>(k, v). P v) (map_set k v acc)" if "P v" for k v
    using Cons.prems(2) that by (induction acc) auto
  with Cons show ?case by (auto intro: distinct_map_set)
qed simp

lemma list_all_takeWhile: "list_all p (takeWhile p s)"
  by (induction s) auto

lemma parse_ok:
  "parse_value n s = Some (v, r) \<Longrightarrow> json_ok v"
  "parse_elems n s = Some (vs, r) \<Longrightarrow> list_all json_ok vs"
  "parse_members n s = Some (ms, r) \<Longrightarrow> list_all (\<lambda>(k, v). json_ok v) ms"
proof (induction n s and n s and n s arbitrary: v r and vs r and ms r
    rule: parse_value_parse_elems_parse_members.induct)
  case (2 n s)
  show ?case
  proof (cases "skip_ws s")
    case (Cons c t)
    have elems: "parse_elems n t = Some (vs, r') \<Longrightarrow> c = 91 \<Longrightarrow> \<not> starts_with [93] (skip_ws t) \<Longrightarrow> list_all json_ok vs"
      and mems: "parse_members n t = Some (ms, r') \<Longrightarrow> c = 123 \<Longrightarrow> \<not> starts_with [125] (skip_ws t) \<Longrightarrow>
        list_all (\<lambda>(k, v). json_ok v) ms" for vs ms r'
      using 2(1,2) Cons by auto
    have obj: "parse_members n t = Some (ms, r') \<Longrightarrow> c = 123 \<Longrightarrow> \<not> starts_with [125] (skip_ws t) \<Longrightarrow>
        json_ok (JObj (fold (\<lambda>(k, v). map_set k v) ms []))" for ms r'
      using fold_map_set_ok [of "[]" json_ok ms] mems [of ms r'] by simp
    have "json_ok (JObj [])" by simp
    then show ?thesis
      using 2(3) Cons elems obj
      by (auto simp: Let_def list_all_takeWhile simp del: json_ok.simps(3) split: if_splits)
  qed (use 2 in simp)
next
  case (4 n s)
  then show ?case
    by (auto split: option.splits list.splits if_splits)
next
  case (6 n s)
  from 6(3) obtain t where q: "skip_ws s = 34 # t" by (auto split: list.splits if_splits)
  from 6(3) q obtain k t' where k: "parse_str t = Some (k, t')" by (auto split: option.splits)
  from 6(3) q k obtain t'' where d: "skip_ws t' = 58 # t''" by (auto split: list.splits if_splits)
  from 6(3) q k d obtain v r1 where v: "parse_value n t'' = Some (v, r1)" by (auto split: option.splits)
  from 6(3) q k d v obtain c r2 where c: "skip_ws r1 = c # r2" by (auto split: list.splits)
  show ?case
    using 6(3) q k d v c 6(1) 6(2) by (auto split: if_splits)
qed simp_all

lemma json_parse_ok: "json_parse s = Some v \<Longrightarrow> json_ok v"
  by (auto simp: json_parse_def split: option.splits if_splits intro: parse_ok)

text \<open>Lists of strings, the shape of the \<open>deps\<close> and \<open>options\<close> columns.\<close>

definition json_strings :: "jsstr list \<Rightarrow> json" where
  "json_strings xs = JArr (map JStr xs)"

lemma parse_json_strings [simp]: "json_parse (json_stringify (json_strings xs)) = Some (json_strings xs)"
  by (rule json_parse_stringify) (simp add: json_strings_def list_all_iff)

end
