(* ===== verification/Utf16.thy ===== *)
theory Utf16
  imports Json
begin

text \<open>
  UTF-16 code units and their UTF-8 size: \<open>Buffer.byteLength\<close> of the runtime and the bounded
  measurements of \<open>src/shared/utf8-byte-limits.ts\<close>.
\<close>

definition unit_bytes :: "jschar \<Rightarrow> nat" where
  "unit_bytes c = (if c \<le> 0x7F then 1 else if c \<le> 0x7FF then 2 else 3)"

text \<open>
  \<open>Buffer.byteLength(s, 'utf8')\<close>: a surrogate pair takes four bytes, a lone surrogate the three
  of the replacement character.
\<close>

function byte_length :: "jsstr \<Rightarrow> nat" where
  "byte_length [] = 0"
| "byte_length (c # s) =
     (if is_high_surrogate c \<and> s \<noteq> [] \<and> is_low_surrogate (hd s) then 4 + byte_length (tl s)
      else unit_bytes c + byte_length s)"
  by pat_completeness auto
termination by (relation "measure length") (auto simp: neq_Nil_conv)

text \<open>\<open>codePointAt\<close>, as a number.\<close>

definition code_point_at :: "jsstr \<Rightarrow> nat \<Rightarrow> nat option" where
  "code_point_at s i =
     (if i < length s
      then Some (if is_high_surrogate (s ! i) \<and> Suc i < length s \<and> is_low_surrogate (s ! Suc i)
                 then 0x10000 + (unat (s ! i) - 0xD800) * 0x400 + (unat (s ! Suc i) - 0xDC00)
                 else unat (s ! i))
      else None)"

definition utf8_len_code_point :: "nat \<Rightarrow> nat" where
  "utf8_len_code_point cp =
     (if cp \<le> 0x7F then 1 else if cp \<le> 0x7FF then 2 else if cp \<le> 0xFFFF then 3 else 4)"

record utf8_measurement =
  byteLength :: nat
  exceededLimit :: bool

text \<open>The loop of \<open>measureUtf8ByteLength\<close>; \<open>stop\<close> is \<open>stopAfterBytes\<close> when it is finite.\<close>

function measure_loop :: "jsstr \<Rightarrow> nat option \<Rightarrow> nat \<Rightarrow> nat \<Rightarrow> utf8_measurement" where
  "measure_loop str stop index acc =
     (if index < length str then
        (let cp = (case code_point_at str index of None \<Rightarrow> 0 | Some p \<Rightarrow> p);
             acc' = acc + utf8_len_code_point cp
         in if (case stop of None \<Rightarrow> False | Some b \<Rightarrow> b < acc')
            then \<lparr>byteLength = acc', exceededLimit = True\<rparr>
            else measure_loop str stop (if 0xFFFF < cp then index + 2 else index + 1) acc')
      else \<lparr>byteLength = acc, exceededLimit = False\<rparr>)"
  by pat_completeness auto
termination
  by (relation "measure (\<lambda>(str, _, index, _). length str - index)") (auto simp: Let_def)

declare measure_loop.simps [simp del]

definition measureUtf8ByteLength :: "jsstr \<Rightarrow> nat option \<Rightarrow> utf8_measurement" where
  "measureUtf8ByteLength str stop = measure_loop str stop 0 0"

definition getUtf8ByteLength :: "jsstr \<Rightarrow> nat" where
  "getUtf8ByteLength str = byteLength (measureUtf8ByteLength str None)"

text \<open>\<open>getPreviousUtf8CodePoint\<close>: the start index and the bytes of the code point before \<open>e\<close>.\<close>

definition previous_code_point :: "jsstr \<Rightarrow> nat \<Rightarrow> nat \<times> nat" where
  "previous_code_point str e =
     (let s0 = e - 1; u = str ! s0;
          start = (if is_low_surrogate u \<and> 0 < s0 \<and> is_high_surrogate (str ! (s0 - 1))
                   then s0 - 1 else s0)
      in (start, utf8_len_code_point (case code_point_at str start of None \<Rightarrow> unat u | Some p \<Rightarrow> p)))"

function clamp_loop :: "jsstr \<Rightarrow> nat \<Rightarrow> nat \<Rightarrow> nat \<Rightarrow> nat \<times> nat" where
  "clamp_loop str maxBytes start bytes =
     (if 0 < start then
        (let (ps, pb) = previous_code_point str start
         in if maxBytes < pb \<or> maxBytes < bytes + pb then (start, bytes)
            else if maxBytes \<le> bytes + pb then (ps, bytes + pb)
            else clamp_loop str maxBytes ps (bytes + pb))
      else (start, bytes))"
  by pat_completeness auto
termination
  by (relation "measure (\<lambda>(_, _, start, _). start)")
     (auto simp: previous_code_point_def Let_def split: if_splits)

declare clamp_loop.simps [simp del]

definition clampUtf8TextTail :: "jsstr \<Rightarrow> int \<Rightarrow> jsstr \<times> nat" where
  "clampUtf8TextTail str maxBytes =
     (if str = [] \<or> maxBytes \<le> 0 then ([], 0)
      else let (start, bytes) = clamp_loop str (nat maxBytes) (length str) 0
           in (drop start str, bytes))"

subsection \<open>Code points and bytes\<close>

definition splits_pair :: "jsstr \<Rightarrow> nat \<Rightarrow> bool" where
  "splits_pair s i \<longleftrightarrow> 0 < i \<and> i < length s \<and> is_high_surrogate (s ! (i - 1)) \<and> is_low_surrogate (s ! i)"

lemma utf8_len_unit: "utf8_len_code_point (unat c) = unit_bytes (c :: jschar)"
proof -
  have "unat c \<le> 0xFFFF" using unsigned_less [of c, where ?'a = nat] by simp
  then show ?thesis by (simp add: utf8_len_code_point_def unit_bytes_def word_le_nat_alt)
qed

lemma utf8_len_pair: "utf8_len_code_point (0x10000 + n) = 4"
  by (simp add: utf8_len_code_point_def)

lemma byte_length_at:
  assumes "i < length s"
  defines "cp \<equiv> (case code_point_at s i of None \<Rightarrow> 0 | Some p \<Rightarrow> p)"
  shows "byte_length (drop i s) =
     utf8_len_code_point cp + byte_length (drop (if 0xFFFF < cp then i + 2 else i + 1) s)"
proof -
  have d: "drop i s = s ! i # drop (Suc i) s" using assms(1) by (simp add: Cons_nth_drop_Suc)
  have small: "\<not> 0xFFFF < unat (s ! i)" using unsigned_less [of "s ! i", where ?'a = nat] by simp
  show ?thesis
  proof (cases "is_high_surrogate (s ! i) \<and> Suc i < length s \<and> is_low_surrogate (s ! Suc i)")
    case True
    then have "cp = 0x10000 + ((unat (s ! i) - 0xD800) * 0x400 + (unat (s ! Suc i) - 0xDC00))"
      using assms(1) by (simp add: cp_def code_point_at_def)
    moreover have "drop (Suc i) s = s ! Suc i # drop (i + 2) s"
      using True by (simp add: Cons_nth_drop_Suc)
    ultimately show ?thesis using True d by (simp add: utf8_len_pair)
  next
    case False
    then have "cp = unat (s ! i)" using assms(1) by (auto simp: cp_def code_point_at_def)
    moreover have "\<not> (is_high_surrogate (s ! i) \<and> drop (Suc i) s \<noteq> [] \<and> is_low_surrogate (hd (drop (Suc i) s)))"
      using False by (auto simp: hd_drop_conv_nth)
    ultimately show ?thesis using d small by (auto simp: utf8_len_unit)
  qed
qed

lemma measure_loop_None:
  "measure_loop str None index acc =
     \<lparr>byteLength = acc + byte_length (drop index str), exceededLimit = False\<rparr>"
proof (induction str "None :: nat option" index acc rule: measure_loop.induct)
  case (1 str index acc)
  show ?case
  proof (cases "index < length str")
    case True
    let ?cp = "case code_point_at str index of None \<Rightarrow> 0 | Some p \<Rightarrow> p"
    have "measure_loop str None index acc =
        measure_loop str None (if 0xFFFF < ?cp then index + 2 else index + 1) (acc + utf8_len_code_point ?cp)"
      using True by (simp add: measure_loop.simps [of str None index acc] Let_def)
    with "1" [OF True refl refl] byte_length_at [OF True] show ?thesis by simp
  next
    case False
    then show ?thesis by (simp add: measure_loop.simps)
  qed
qed

subsection \<open>The clamped tail\<close>

lemma previous_code_point_step:
  assumes "0 < e" "e \<le> length str" "\<not> splits_pair str e"
    and "previous_code_point str e = (ps, pb)"
  shows "ps < e" "\<not> splits_pair str ps" "byte_length (drop ps str) = pb + byte_length (drop e str)"
proof -
  let ?s0 = "e - 1"
  let ?pair = "is_low_surrogate (str ! ?s0) \<and> 0 < ?s0 \<and> is_high_surrogate (str ! (?s0 - 1))"
  have not_both: "\<not> (is_high_surrogate c \<and> is_low_surrogate c)" for c
    by (auto simp: is_high_surrogate_def is_low_surrogate_def word_le_nat_alt)
  have "(if ?pair then ?s0 - 1 else ?s0, utf8_len_code_point
        (case code_point_at str (if ?pair then ?s0 - 1 else ?s0) of None \<Rightarrow> unat (str ! ?s0) | Some p \<Rightarrow> p))
      = (ps, pb)"
    using assms(4) by (simp only: previous_code_point_def Let_def)
  then have ps: "ps = (if ?pair then ?s0 - 1 else ?s0)"
    and pb: "pb = utf8_len_code_point (case code_point_at str ps of None \<Rightarrow> unat (str ! ?s0) | Some p \<Rightarrow> p)"
    unfolding prod.inject by blast+
  have lt: "ps < length str" using ps assms(1,2) by auto
  then have cp: "code_point_at str ps \<noteq> None" by (simp add: code_point_at_def)
  show "ps < e" using ps assms(1) by auto
  show "\<not> splits_pair str ps"
    using ps assms(1,2) not_both [of "str ! (e - 2)"]
    by (auto simp: splits_pair_def numeral_2_eq_2 split: if_splits)
  have "(if 0xFFFF < the (code_point_at str ps) then ps + 2 else ps + 1) = e"
  proof (cases ?pair)
    case True
    then have "Suc ps = e - 1" using ps by auto
    with True have "code_point_at str ps = Some (0x10000 + (unat (str ! ps) - 0xD800) * 0x400 + (unat (str ! Suc ps) - 0xDC00))"
      using ps assms(2) lt by (auto simp: code_point_at_def)
    with True ps show ?thesis by auto
  next
    case False
    then have s: "ps = e - 1" using ps unfolding if_not_P [OF False] by blast
    then have "\<not> (is_high_surrogate (str ! ps) \<and> Suc ps < length str \<and> is_low_surrogate (str ! Suc ps))"
      using assms(1,3) by (auto simp: splits_pair_def)
    then have "code_point_at str ps = Some (unat (str ! ps))"
      using lt by (auto simp: code_point_at_def)
    then show ?thesis
      using s assms(1) unsigned_less [of "str ! ps", where ?'a = nat] by simp
  qed
  with byte_length_at [OF lt] cp pb show "byte_length (drop ps str) = pb + byte_length (drop e str)"
    by auto
qed

lemma clamp_loop_spec:
  assumes "clamp_loop str maxBytes start bytes = (r, b)" "start \<le> length str"
    and "\<not> splits_pair str start" "bytes = byte_length (drop start str)" "bytes \<le> maxBytes"
  shows "r \<le> length str \<and> \<not> splits_pair str r \<and> b = byte_length (drop r str) \<and> b \<le> maxBytes \<and>
     (0 < r \<longrightarrow> maxBytes < byte_length (drop (fst (previous_code_point str r)) str) \<or> b = maxBytes)"
  using assms
proof (induction str maxBytes start bytes rule: clamp_loop.induct)
  case (1 str maxBytes start bytes)
  show ?case
  proof (cases "0 < start")
    case True
    obtain ps pb where p: "previous_code_point str start = (ps, pb)" by force
    note step = previous_code_point_step [OF True "1.prems"(2,3) p]
    show ?thesis
    proof (cases "maxBytes < pb \<or> maxBytes < bytes + pb")
      case stop: True
      then have "r = start \<and> b = bytes"
        using "1.prems"(1) True p by (simp add: clamp_loop.simps [of str maxBytes start bytes])
      then show ?thesis using "1.prems" step stop p by auto
    next
      case False
      show ?thesis
      proof (cases "maxBytes \<le> bytes + pb")
        case full: True
        then have "r = ps \<and> b = bytes + pb"
          using "1.prems"(1) True False p by (simp add: clamp_loop.simps [of str maxBytes start bytes])
        then show ?thesis using "1.prems" step False full by auto
      next
        case F2: False
        then have "clamp_loop str maxBytes ps (bytes + pb) = (r, b)"
          using "1.prems"(1) True False p by (simp add: clamp_loop.simps [of str maxBytes start bytes])
        then show ?thesis
          using "1.IH" [OF True p [symmetric] refl False F2] "1.prems" step F2 by auto
      qed
    qed
  next
    case False
    have "r = start \<and> b = bytes"
      using "1.prems"(1) False by (subst (asm) clamp_loop.simps) simp
    then show ?thesis using "1.prems" False by auto
  qed
qed

text \<open>The loop's equation in a shape that evaluates on closed arguments.\<close>

lemma clamp_loop_eval:
  "clamp_loop str m start bytes =
     (if start = 0 then (start, bytes)
      else if m < snd (previous_code_point str start) \<or> m < bytes + snd (previous_code_point str start)
      then (start, bytes)
      else if m \<le> bytes + snd (previous_code_point str start)
      then (fst (previous_code_point str start), bytes + snd (previous_code_point str start))
      else clamp_loop str m (fst (previous_code_point str start)) (bytes + snd (previous_code_point str start)))"
  by (subst clamp_loop.simps) (auto simp: case_prod_unfold Let_def)

subsection \<open>Properties\<close>

text \<open>
  \<open>getUtf8ByteLength\<close> agrees with \<open>Buffer.byteLength\<close> on every string, lone surrogates
  included.
\<close>

theorem utf8_length_is_byte_length: "getUtf8ByteLength str = byte_length str"
  by (simp add: getUtf8ByteLength_def measureUtf8ByteLength_def measure_loop_None)

text \<open>
  \<open>clampUtf8TextTail\<close> returns a suffix of the str that is within the byte limit, reports
  its exact UTF-8 size, never starts inside a surrogate pair, and is maximal: unless the whole
  str fits, the limit is met exactly or taking one more code point would exceed it.
\<close>

theorem clamp_tail_spec:
  assumes "0 < maxBytes"
  shows "\<exists>start \<le> length str.
     clampUtf8TextTail str maxBytes = (drop start str, byte_length (drop start str)) \<and>
     int (byte_length (drop start str)) \<le> maxBytes \<and> \<not> splits_pair str start \<and>
     (start = 0 \<or> int (byte_length (drop start str)) = maxBytes \<or>
      maxBytes < int (byte_length (drop (fst (previous_code_point str start)) str)))"
proof (cases "str = []")
  case True
  then show ?thesis using assms by (auto simp: clampUtf8TextTail_def splits_pair_def)
next
  case False
  obtain r b where rb: "clamp_loop str (nat maxBytes) (length str) 0 = (r, b)" by force
  have "\<not> splits_pair str (length str)" by (simp add: splits_pair_def)
  from clamp_loop_spec [OF rb _ this] have
    "r \<le> length str" "\<not> splits_pair str r" "b = byte_length (drop r str)" "b \<le> nat maxBytes"
    "0 < r \<longrightarrow> nat maxBytes < byte_length (drop (fst (previous_code_point str r)) str) \<or> b = nat maxBytes"
    by auto
  with rb False assms show ?thesis
    by (intro exI [of _ r]) (auto simp: clampUtf8TextTail_def)
qed

theorem clamp_tail_spec_witness:
  "let t = [0x41, 0xD83D, 0xDE00, 0x42]
   in clampUtf8TextTail t 4 = ([0x42], 1) \<and>
      (\<exists>start \<le> length t. clampUtf8TextTail t 4 = (drop start t, byte_length (drop start t)) \<and>
         int (byte_length (drop start t)) \<le> 4 \<and> \<not> splits_pair t start \<and>
         (start = 0 \<or> int (byte_length (drop start t)) = 4 \<or>
          4 < int (byte_length (drop (fst (previous_code_point t start)) t))))"
proof -
  have h: "(0::int) < 4" by simp
  have "clampUtf8TextTail [0x41, 0xD83D, 0xDE00, 0x42] 4 = ([0x42], 1)"
    by (simp add: clampUtf8TextTail_def clamp_loop_eval previous_code_point_def code_point_at_def
        utf8_len_code_point_def is_high_surrogate_def is_low_surrogate_def)
  then show ?thesis
    unfolding Let_def using clamp_tail_spec [OF h, of "[0x41, 0xD83D, 0xDE00, 0x42]"] by (rule conjI)
qed

end
