(* ===== verification/Ndjson.thy ===== *)
theory Ndjson
  imports Utf16 Contracts
begin

text \<open>
  The daemon's line protocol, \<open>src/main/daemon/ndjson.ts\<close>.  The parser's closure variables are the
  record \<open>nd_state\<close>, the calls of its two callbacks the list of outputs of \<open>nd_feed\<close>; a callback is
  taken not to throw.
\<close>

definition encodeNdjson :: "json \<Rightarrow> jsstr" where
  "encodeNdjson msg = json_stringify msg @ [10]"

definition NDJSON_MAX_LINE_BYTES :: nat where
  "NDJSON_MAX_LINE_BYTES = 16 * 1024 * 1024"

record nd_state =
  nd_buffer :: jsstr
  nd_bytes :: nat
  nd_discarding :: bool

datatype nd_out = NdMessage json | NdBadJson | NdOversized nat

definition nd_init :: nd_state where
  "nd_init = \<lparr>nd_buffer = [], nd_bytes = 0, nd_discarding = False\<rparr>"

definition nd_max_line :: "int option \<Rightarrow> nat" where
  "nd_max_line opt = nat (max 1 (case opt of None \<Rightarrow> int NDJSON_MAX_LINE_BYTES | Some n \<Rightarrow> n))"

definition clearBuffer :: "nd_state \<Rightarrow> nd_state" where
  "clearBuffer st = st\<lparr>nd_buffer := [], nd_bytes := 0\<rparr>"

text \<open>What a complete line makes the parser report.\<close>

definition nd_deliver :: "jsstr \<Rightarrow> nd_out list" where
  "nd_deliver line =
     (if line = [] then []
      else [case json_parse line of Some v \<Rightarrow> NdMessage v | None \<Rightarrow> NdBadJson])"

function nd_loop :: "nat \<Rightarrow> jsstr \<Rightarrow> nd_state \<Rightarrow> nd_state \<times> nd_out list" where
  "nd_loop maxLineBytes remaining st =
     (if remaining = [] then (st, [])
      else
        let newline = index_of 10 remaining;
            segment = (case newline of None \<Rightarrow> remaining | Some i \<Rightarrow> take i remaining);
            rest = (case newline of None \<Rightarrow> [] | Some i \<Rightarrow> drop (Suc i) remaining)
        in if nd_discarding st
           then (if newline \<noteq> None
                 then nd_loop maxLineBytes rest (clearBuffer (st\<lparr>nd_discarding := False\<rparr>))
                 else (st, []))
           else
             let nextLineBytes = nd_bytes st + byte_length segment
             in if maxLineBytes < nextLineBytes
                then (let r = (if newline = None then (clearBuffer (st\<lparr>nd_discarding := True\<rparr>), [])
                               else nd_loop maxLineBytes rest (clearBuffer st))
                      in (fst r, NdOversized nextLineBytes # snd r))
                else if newline = None
                then (st\<lparr>nd_buffer := nd_buffer st @ segment, nd_bytes := nextLineBytes\<rparr>, [])
                else (let r = nd_loop maxLineBytes rest (clearBuffer st)
                      in (fst r, nd_deliver (nd_buffer st @ segment) @ snd r)))"
  by pat_completeness auto
termination
  by (relation "measure (\<lambda>(_, remaining, _). length remaining)")
     (auto split: option.splits dest: index_of_Some)

declare nd_loop.simps [simp del]

definition nd_feed :: "nat \<Rightarrow> jsstr \<Rightarrow> nd_state \<Rightarrow> nd_state \<times> nd_out list" where
  "nd_feed maxLineBytes chunk st = nd_loop maxLineBytes chunk st"

definition nd_reset :: "nd_state \<Rightarrow> nd_state" where
  "nd_reset st = (clearBuffer st)\<lparr>nd_discarding := False\<rparr>"

subsection \<open>Sizes\<close>

definition pair_across :: "jsstr \<Rightarrow> jsstr \<Rightarrow> bool" where
  "pair_across a b \<longleftrightarrow> a \<noteq> [] \<and> b \<noteq> [] \<and> is_high_surrogate (last a) \<and> is_low_surrogate (hd b)"

definition leads_pair :: "jschar \<Rightarrow> jsstr \<Rightarrow> bool" where
  "leads_pair c s \<longleftrightarrow> is_high_surrogate c \<and> s \<noteq> [] \<and> is_low_surrogate (hd s)"

lemma byte_length_Cons:
  "leads_pair c s \<Longrightarrow> byte_length (c # s) = 4 + byte_length (tl s)"
  "\<not> leads_pair c s \<Longrightarrow> byte_length (c # s) = unit_bytes c + byte_length s"
  by (simp_all only: leads_pair_def byte_length.simps if_True if_False simp_thms)

lemma leads_pair_append: "s \<noteq> [] \<Longrightarrow> leads_pair c (s @ b) = leads_pair c s"
  by (simp add: leads_pair_def)

lemma byte_length_append: "\<not> pair_across a b \<Longrightarrow> byte_length (a @ b) = byte_length a + byte_length b"
proof (induction a rule: byte_length.induct)
  case (2 c s)
  show ?case
  proof (cases "leads_pair c s")
    case True
    then have s: "s \<noteq> []" by (simp add: leads_pair_def)
    have "\<not> pair_across (tl s) b" using 2(3) s by (cases s) (auto simp: pair_across_def)
    then have "byte_length (tl s @ b) = byte_length (tl s) + byte_length b"
      using 2(1) True by (simp add: leads_pair_def)
    then show ?thesis
      using True s leads_pair_append [OF s, of c b] by (simp add: byte_length_Cons del: byte_length.simps)
  next
    case False
    then have "\<not> leads_pair c (s @ b)"
      using 2(3) by (cases s) (auto simp: pair_across_def leads_pair_def)
    moreover have "\<not> pair_across s b" using 2(3) by (cases s) (auto simp: pair_across_def)
    ultimately show ?thesis
      using False 2(2) by (simp add: byte_length_Cons leads_pair_def [symmetric] del: byte_length.simps)
  qed
qed simp

lemma surrogate_bytes: "is_high_surrogate c \<or> is_low_surrogate c \<Longrightarrow> unit_bytes c = 3"
  by (auto simp: unit_bytes_def is_high_surrogate_def is_low_surrogate_def word_le_nat_alt)

lemma byte_length_append_le: "byte_length (a @ b) \<le> byte_length a + byte_length b"
proof (cases "pair_across a b")
  case True
  then have "a = butlast a @ [last a]" "b = hd b # tl b" "is_high_surrogate (last a)" "is_low_surrogate (hd b)"
    by (simp_all add: pair_across_def)
  then obtain a' c b' d where a: "a = a' @ [c]" and b: "b = d # b'"
    and c: "is_high_surrogate c" and d: "is_low_surrogate d" by blast
  have nd: "\<not> is_high_surrogate d" using d by (auto simp: is_high_surrogate_def is_low_surrogate_def word_le_nat_alt)
  have nc: "\<not> is_low_surrogate c" using c by (auto simp: is_high_surrogate_def is_low_surrogate_def word_le_nat_alt)
  have "byte_length (a' @ c # d # b') = byte_length a' + byte_length (c # d # b')"
    by (rule byte_length_append) (simp add: pair_across_def nc)
  moreover have "byte_length (a' @ [c]) = byte_length a' + byte_length [c]"
    by (rule byte_length_append) (simp add: pair_across_def nc)
  moreover have "byte_length (c # d # b') = 4 + byte_length b'" "byte_length [c] = 3" "byte_length (d # b') = 3 + byte_length b'"
    using c d nd surrogate_bytes [of c] surrogate_bytes [of d] by simp_all
  ultimately show ?thesis by (simp add: a b)
qed (simp add: byte_length_append)

subsection \<open>The loop by lines\<close>

definition nd_tail :: "nat \<Rightarrow> jsstr \<Rightarrow> nd_state \<Rightarrow> nd_state \<times> nd_out list" where
  "nd_tail m seg st =
     (if nd_discarding st then (st, [])
      else if m < nd_bytes st + byte_length seg
      then (\<lparr>nd_buffer = [], nd_bytes = 0, nd_discarding = True\<rparr>, [NdOversized (nd_bytes st + byte_length seg)])
      else (st\<lparr>nd_buffer := nd_buffer st @ seg, nd_bytes := nd_bytes st + byte_length seg\<rparr>, []))"

definition nd_line :: "nat \<Rightarrow> jsstr \<Rightarrow> nd_state \<Rightarrow> nd_out list" where
  "nd_line m seg st =
     (if nd_discarding st then []
      else if m < nd_bytes st + byte_length seg then [NdOversized (nd_bytes st + byte_length seg)]
      else nd_deliver (nd_buffer st @ seg))"

definition nd_ok :: "nat \<Rightarrow> nd_state \<Rightarrow> bool" where
  "nd_ok m st \<longleftrightarrow> nd_bytes st \<le> m \<and> byte_length (nd_buffer st) \<le> nd_bytes st \<and>
     (nd_discarding st \<longrightarrow> nd_buffer st = [] \<and> nd_bytes st = 0)"

lemma nd_state_eqI:
  "nd_buffer s = nd_buffer t \<Longrightarrow> nd_bytes s = nd_bytes t \<Longrightarrow> nd_discarding s = nd_discarding t \<Longrightarrow> s = (t :: nd_state)"
  by simp

lemma nd_loop_tail:
  assumes "nd_ok m st" "10 \<notin> set seg"
  shows "nd_loop m seg st = nd_tail m seg st"
proof (cases "seg = []")
  case True
  then show ?thesis
    using assms by (simp add: nd_loop.simps [of m "[]" st] nd_tail_def nd_ok_def)
next
  case False
  have "index_of 10 seg = None" using assms(2) by simp
  then show ?thesis
    using False by (simp add: nd_loop.simps [of m seg st] nd_tail_def Let_def clearBuffer_def del: index_of_None)
qed

lemma nd_loop_line:
  assumes "10 \<notin> set seg"
  shows "nd_loop m (seg @ 10 # rest) st =
     (fst (nd_loop m rest nd_init), nd_line m seg st @ snd (nd_loop m rest nd_init))"
proof -
  have i: "index_of 10 (seg @ 10 # rest) = Some (length seg)" using assms by (rule index_of_sep)
  have c: "nd_discarding st \<Longrightarrow> clearBuffer (st\<lparr>nd_discarding := False\<rparr>) = nd_init"
    "\<not> nd_discarding st \<Longrightarrow> clearBuffer st = nd_init"
    by (simp_all add: clearBuffer_def nd_init_def)
  show ?thesis
    by (subst nd_loop.simps) (simp add: i nd_line_def Let_def c)
qed

subsection \<open>Cutting the stream\<close>

text \<open>
  The text of an oversized-line error names the bytes seen so far, which depends on the cuts; \<open>nd_erase\<close>
  forgets it.
\<close>

definition nd_erase :: "nd_out \<Rightarrow> nd_out" where
  "nd_erase r = (case r of NdOversized _ \<Rightarrow> NdOversized 0 | _ \<Rightarrow> r)"

definition nd_feed_erased :: "nat \<Rightarrow> jsstr \<Rightarrow> nd_state \<Rightarrow> nd_state \<times> nd_out list" where
  "nd_feed_erased m chunk st = (fst (nd_feed m chunk st), map nd_erase (snd (nd_feed m chunk st)))"

definition between_characters :: "jsstr \<Rightarrow> jsstr \<Rightarrow> bool" where
  "between_characters a b \<longleftrightarrow> \<not> pair_across a b"

lemma nd_ok_init [simp]: "nd_ok m nd_init"
  by (simp add: nd_ok_def nd_init_def)

lemma nd_ok_tail: "nd_ok m st \<Longrightarrow> nd_ok m (fst (nd_tail m seg st))"
  using byte_length_append_le [of "nd_buffer st" seg] by (auto simp: nd_tail_def nd_ok_def)

text \<open>A stream is a list of terminated lines and an unterminated rest.\<close>

lemma stream_induct [case_names tail line]:
  assumes "\<And>s. 10 \<notin> set s \<Longrightarrow> P s" and "\<And>s r. 10 \<notin> set s \<Longrightarrow> P r \<Longrightarrow> P (s @ (10 :: jschar) # r)"
  shows "P s"
proof (induction s rule: length_induct)
  case (1 s)
  show ?case
  proof (cases "10 \<in> set s")
    case True
    then obtain a r where "s = a @ 10 # r" "10 \<notin> set a" by (meson split_list_first)
    then show ?thesis using 1 assms(2) by simp
  qed (rule assms(1))
qed

lemma nd_ok_loop: "nd_ok m st \<Longrightarrow> nd_ok m (fst (nd_loop m s st))"
  by (induction s arbitrary: st rule: stream_induct)
     (simp_all add: nd_loop_tail nd_ok_tail nd_loop_line)

lemma pair_across_mid: "\<not> pair_across (s @ 10 # r) b \<Longrightarrow> \<not> pair_across r b"
  by (cases r) (auto simp: pair_across_def)

lemma pair_across_head: "\<not> pair_across a (s @ r) \<Longrightarrow> \<not> pair_across a s"
  by (cases s) (auto simp: pair_across_def)

lemma nd_tail_append:
  assumes "nd_ok m st" "\<not> pair_across a b"
  shows "fst (nd_tail m (a @ b) st) = fst (nd_tail m b (fst (nd_tail m a st)))"
    and "map nd_erase (snd (nd_tail m (a @ b) st)) =
         map nd_erase (snd (nd_tail m a st)) @ map nd_erase (snd (nd_tail m b (fst (nd_tail m a st))))"
    and "map nd_erase (nd_line m (a @ b) st) =
         map nd_erase (snd (nd_tail m a st)) @ map nd_erase (nd_line m b (fst (nd_tail m a st)))"
  using assms byte_length_append [OF assms(2)]
  by (auto simp: nd_tail_def nd_line_def nd_erase_def nd_ok_def)

lemma nd_loop_append:
  assumes "nd_ok m st" "\<not> pair_across a b"
  shows "fst (nd_loop m (a @ b) st) = fst (nd_loop m b (fst (nd_loop m a st))) \<and>
    map nd_erase (snd (nd_loop m (a @ b) st)) =
      map nd_erase (snd (nd_loop m a st)) @ map nd_erase (snd (nd_loop m b (fst (nd_loop m a st))))"
  using assms
proof (induction a arbitrary: st rule: stream_induct)
  case (line s r)
  have "nd_loop m ((s @ 10 # r) @ b) st = nd_loop m (s @ 10 # (r @ b)) st" by simp
  then show ?case
    using line.IH [OF nd_ok_init [of m] pair_across_mid [OF line.prems(2)]] line.hyps
    by (simp add: nd_loop_line)
next
  case (tail a)
  show ?case
  proof (cases "10 \<in> set b")
    case False
    then show ?thesis
      using tail nd_tail_append [OF tail.prems] by (simp add: nd_loop_tail nd_ok_tail)
  next
    case True
    then obtain s r where b: "b = s @ 10 # r" "10 \<notin> set s" by (meson split_list_first)
    have np: "\<not> pair_across a s" using tail.prems(2) pair_across_head unfolding b by blast
    have "nd_loop m (a @ b) st = (fst (nd_loop m r nd_init), nd_line m (a @ s) st @ snd (nd_loop m r nd_init))"
      using nd_loop_line [of "a @ s" m r st] tail.hyps b(2) by (simp add: b(1))
    then show ?thesis
      using tail.hyps b nd_tail_append(3) [OF tail.prems(1) np] tail.prems(1)
      by (simp add: nd_loop_line [OF b(2)] nd_loop_tail)
  qed
qed

interpretation nd: stream_parser "nd_feed_erased m" "nd_ok m" between_characters for m
proof
  fix s c a b
  assume ok: "nd_ok m s"
  then show "nd_ok m (fst (nd_feed_erased m c s))"
    by (simp add: nd_feed_erased_def nd_feed_def nd_ok_loop)
  show "nd_feed_erased m [] s = (s, [])"
    by (simp add: nd_feed_erased_def nd_feed_def nd_loop.simps [of m "[]" s])
  assume "between_characters a b"
  then show "nd_feed_erased m (a @ b) s =
      (let (s', out) = nd_feed_erased m a s; (s'', out') = nd_feed_erased m b s' in (s'', out @ out'))"
    using nd_loop_append [OF ok, of a b]
    by (simp add: nd_feed_erased_def nd_feed_def between_characters_def)
qed

interpretation nd_run: event_machine "\<lambda>c st. fst (nd_feed m c st)" "nd_ok m" for m
  by unfold_locales (simp add: nd_feed_def nd_ok_loop)

subsection \<open>Properties\<close>

lemma stringify_not_Nil: "json_ok v \<Longrightarrow> json_stringify v \<noteq> []"
  using json_parse_stringify [of v] by (auto simp: json_parse_def)

lemma nd_feed_encoded:
  assumes "list_all json_ok vs" "list_all (\<lambda>v. byte_length (json_stringify v) \<le> m) vs"
  shows "nd_loop m (concat (map encodeNdjson vs)) nd_init = (nd_init, map NdMessage vs)"
  using assms
proof (induction vs)
  case Nil
  then show ?case by (simp add: nd_loop.simps [of m "[]"])
next
  case (Cons v vs)
  have "10 \<notin> set (json_stringify v)" using Cons.prems by (simp add: stringify_not_nl)
  moreover have "nd_line m (json_stringify v) nd_init = [NdMessage v]"
    using Cons.prems by (simp add: nd_line_def nd_init_def nd_deliver_def stringify_not_Nil json_parse_stringify)
  ultimately show ?case
    using Cons by (simp add: encodeNdjson_def nd_loop_line)
qed

lemma feed_all_erased:
  "feed_all (nd_feed_erased m) cs st =
     (fst (feed_all (nd_feed m) cs st), map nd_erase (snd (feed_all (nd_feed m) cs st)))"
  by (induction cs arbitrary: st) (simp_all add: nd_feed_erased_def Let_def case_prod_unfold)

lemma erase_message: "map nd_erase outs = map NdMessage vs \<Longrightarrow> outs = map NdMessage vs"
proof (induction outs arbitrary: vs)
  case (Cons r outs)
  then obtain v ws where vs: "vs = v # ws" by (cases vs) auto
  with Cons show ?case by (cases r) (auto simp: nd_erase_def)
qed simp

lemma erase_message_map: "map (nd_erase \<circ> NdMessage) vs = map NdMessage vs"
  by (simp add: nd_erase_def)

lemma nd_lossless:
  assumes "list_all json_ok vs" and "list_all (\<lambda>v. byte_length (json_stringify v) \<le> m) vs"
    and "concat chunks = concat (map encodeNdjson vs)" and "cuts between_characters chunks"
  shows "feed_all (nd_feed m) chunks nd_init = (nd_init, map NdMessage vs)"
proof -
  have "feed_all (nd_feed_erased m) chunks nd_init = nd_feed_erased m (concat (map encodeNdjson vs)) nd_init"
    using nd.feed_all_concat [OF nd_ok_init assms(4)] assms(3) by simp
  also have "\<dots> = (nd_init, map NdMessage vs)"
    using nd_feed_encoded [OF assms(1,2)]
    by (simp add: nd_feed_erased_def nd_feed_def erase_message_map del: comp_apply)
  finally show ?thesis
    unfolding feed_all_erased by (metis erase_message fst_conv prod.collapse snd_conv)
qed

text \<open>
  A pair cut in two counts six bytes instead of four, so that a line near the limit can be over it.  A line whose
  units fit one by one is safe under every cut.
\<close>

definition loose_bytes :: "jsstr \<Rightarrow> nat" where
  "loose_bytes s = sum_list (map unit_bytes s)"

lemma loose_append [simp]: "loose_bytes [] = 0" "loose_bytes (a @ b) = loose_bytes a + loose_bytes b"
  by (simp_all add: loose_bytes_def)

lemma byte_length_loose: "byte_length s \<le> loose_bytes s"
proof (induction s rule: byte_length.induct)
  case (2 c s)
  show ?case
  proof (cases "leads_pair c s")
    case True
    then obtain d r where s: "s = d # r" "is_high_surrogate c" "is_low_surrogate d" by (cases s) (auto simp: leads_pair_def)
    then have "byte_length r \<le> loose_bytes r" using 2(1) True by (simp add: leads_pair_def)
    then show ?thesis using s surrogate_bytes [of c] surrogate_bytes [of d] by (simp add: loose_bytes_def)
  next
    case False
    then have "byte_length s \<le> loose_bytes s" using 2(2) by (simp add: leads_pair_def)
    then show ?thesis using False by (simp add: byte_length_Cons loose_bytes_def del: byte_length.simps)
  qed
qed simp

text \<open>The parser in the middle of a line, of which it has \<open>r\<close>.\<close>

definition holds_line :: "jsstr \<Rightarrow> nd_state \<Rightarrow> bool" where
  "holds_line r st \<longleftrightarrow> nd_buffer st = r \<and> nd_bytes st \<le> loose_bytes r \<and> \<not> nd_discarding st \<and> 10 \<notin> set r"

lemma holds_init: "holds_line [] nd_init"
  by (simp add: holds_line_def nd_init_def)

lemma holds_line_Nil: "holds_line [] st \<Longrightarrow> st = nd_init"
  by (auto simp: holds_line_def nd_init_def intro: nd_state_eqI)

lemma holds_tail:
  assumes "holds_line s st" "10 \<notin> set c" "loose_bytes (s @ c) \<le> m"
  shows "holds_line (s @ c) (fst (nd_loop m c st)) \<and> snd (nd_loop m c st) = []"
proof -
  have "nd_bytes st + byte_length c \<le> loose_bytes (s @ c)"
    using assms(1) byte_length_loose [of c] by (simp add: holds_line_def)
  moreover have "nd_loop m c st = nd_tail m c st"
  proof (cases "c = []")
    case True
    then show ?thesis using assms(1,3)
      by (simp add: nd_loop.simps [of m "[]" st] nd_tail_def holds_line_def)
  next
    case False
    have "index_of 10 c = None" using assms(2) by simp
    then show ?thesis
      using False by (simp add: nd_loop.simps [of m c st] nd_tail_def Let_def clearBuffer_def del: index_of_None)
  qed
  ultimately show ?thesis using assms by (simp add: nd_tail_def holds_line_def)
qed

lemma holds_message:
  assumes "holds_line s st" "s @ c = json_stringify v" "json_ok v" "loose_bytes (json_stringify v) \<le> m"
  shows "nd_loop m (c @ 10 # rest) st = (fst (nd_loop m rest nd_init), NdMessage v # snd (nd_loop m rest nd_init))"
proof -
  have "10 \<notin> set c" using stringify_not_nl [OF assms(3)] unfolding assms(2) [symmetric] by simp
  moreover have "nd_bytes st + byte_length c \<le> loose_bytes (s @ c)"
    using assms(1) byte_length_loose [of c] by (simp add: holds_line_def)
  then have "nd_line m c st = [NdMessage v]"
    using assms by (simp add: nd_line_def holds_line_def nd_deliver_def stringify_not_Nil json_parse_stringify)
  ultimately show ?thesis by (simp add: nd_loop_line)
qed

lemma holds_chunk:
  assumes "holds_line s st" "s @ c @ rest = concat (map encodeNdjson vs)"
    and "list_all json_ok vs" "list_all (\<lambda>v. loose_bytes (json_stringify v) \<le> m) vs"
  shows "\<exists>ws us r. vs = ws @ us \<and> r @ rest = concat (map encodeNdjson us) \<and>
    holds_line r (fst (nd_loop m c st)) \<and> snd (nd_loop m c st) = map NdMessage ws"
  using assms
proof (induction vs arbitrary: s c st)
  case Nil
  then show ?case by (intro exI [of _ "[]"]) (simp add: nd_loop.simps [of m "[]"] holds_line_def)
next
  case (Cons v vs)
  have v: "json_ok v" "loose_bytes (json_stringify v) \<le> m" using Cons.prems(3,4) by simp_all
  have eq: "(s @ c) @ rest = json_stringify v @ 10 # concat (map encodeNdjson vs)"
    using Cons.prems(2) by (simp add: encodeNdjson_def [abs_def])
  consider (inside) z where "json_stringify v = (s @ c) @ z" "rest = z @ 10 # concat (map encodeNdjson vs)"
    | (beyond) z where "s @ c = json_stringify v @ 10 # z" "z @ rest = concat (map encodeNdjson vs)"
  proof -
    from eq [THEN append_eq_append_conv2 [THEN iffD1]] obtain us where
      "s @ c = json_stringify v @ us \<and> us @ rest = 10 # concat (map encodeNdjson vs) \<or>
       (s @ c) @ us = json_stringify v \<and> rest = us @ 10 # concat (map encodeNdjson vs)" by blast
    then show thesis using inside [of us] inside [of "[]"] beyond [of "tl us"] by (cases us) auto
  qed
  then show ?case
  proof cases
    case inside
    have "10 \<notin> set c" using stringify_not_nl [OF v(1)] unfolding inside(1) by simp
    moreover have "loose_bytes (s @ c) \<le> m" using v(2) unfolding inside(1) by simp
    ultimately have "holds_line (s @ c) (fst (nd_loop m c st)) \<and> snd (nd_loop m c st) = []"
      using holds_tail [OF Cons.prems(1)] by blast
    moreover have "(s @ c) @ rest = concat (map encodeNdjson (v # vs))" using Cons.prems(2) by simp
    ultimately show ?thesis by (intro exI [of _ "[]"] exI [of _ "v # vs"] exI [of _ "s @ c"]) simp
  next
    case beyond
    have "10 \<notin> set s" using Cons.prems(1) by (simp add: holds_line_def)
    then obtain d where d: "s @ d = json_stringify v" "c = d @ 10 # z"
      using beyond(1) stringify_not_nl [OF v(1)] by (auto simp: append_eq_append_conv2 append_eq_Cons_conv)
    have loop: "nd_loop m c st = (fst (nd_loop m z nd_init), NdMessage v # snd (nd_loop m z nd_init))"
      unfolding d(2) by (rule holds_message [OF Cons.prems(1) d(1) v])
    obtain ws us r where "vs = ws @ us" "r @ rest = concat (map encodeNdjson us)"
        "holds_line r (fst (nd_loop m z nd_init))" "snd (nd_loop m z nd_init) = map NdMessage ws"
      using Cons.IH [OF holds_init, of z] beyond(2) Cons.prems(3,4) by auto
    then show ?thesis using loop by (intro exI [of _ "v # ws"] exI [of _ us] exI [of _ r]) simp
  qed
qed

lemma holds_chunks:
  assumes "holds_line s st" "s @ concat chunks = concat (map encodeNdjson vs)"
    and "list_all json_ok vs" "list_all (\<lambda>v. loose_bytes (json_stringify v) \<le> m) vs"
  shows "feed_all (nd_feed m) chunks st = (nd_init, map NdMessage vs)"
  using assms
proof (induction chunks arbitrary: s st vs)
  case Nil
  have "vs = []" "s = []"
  proof -
    show "vs = []"
      using Nil.prems(1,2) by (cases vs rule: rev_cases) (auto simp: holds_line_def encodeNdjson_def)
    then show "s = []" using Nil.prems(2) by simp
  qed
  then show ?case using Nil.prems(1) holds_line_Nil by simp
next
  case (Cons c chunks)
  obtain ws us r where one: "vs = ws @ us" "r @ concat chunks = concat (map encodeNdjson us)"
      "holds_line r (fst (nd_loop m c st))" "snd (nd_loop m c st) = map NdMessage ws"
    using holds_chunk [OF Cons.prems(1) _ Cons.prems(3,4), of c "concat chunks"] Cons.prems(2) by auto
  have "feed_all (nd_feed m) chunks (fst (nd_loop m c st)) = (nd_init, map NdMessage us)"
    by (rule Cons.IH [OF one(3,2)]) (use Cons.prems(3,4) one(1) in simp_all)
  then show ?case using one by (simp add: nd_feed_def [abs_def] case_prod_unfold Let_def)
qed

text \<open>
  C32: the line protocol is lossless.  The messages one side encodes come out of the other side's parser as they were
  sent and in order, with no error and nothing left over, if each is within the line limit and the transport cuts
  the text between characters, or if each is within it counting three bytes for every half of a surrogate pair and
  the cuts are anywhere.
\<close>

theorem ndjson_roundtrip:
  assumes "list_all json_ok vs" and "concat chunks = concat (map encodeNdjson vs)"
    and "list_all (\<lambda>v. byte_length (json_stringify v) \<le> m) vs \<and> cuts between_characters chunks \<or>
      list_all (\<lambda>v. loose_bytes (json_stringify v) \<le> m) vs"
  shows "feed_all (nd_feed m) chunks nd_init = (nd_init, map NdMessage vs)"
  using assms(3)
proof
  assume "list_all (\<lambda>v. byte_length (json_stringify v) \<le> m) vs \<and> cuts between_characters chunks"
  then show ?thesis using nd_lossless assms(1,2) by blast
next
  assume "list_all (\<lambda>v. loose_bytes (json_stringify v) \<le> m) vs"
  then show ?thesis using holds_chunks [OF holds_init] assms(1,2) by simp
qed

text \<open>At the limit a cut inside a pair makes the parser refuse the message.\<close>

lemma split_pair_is_oversized:
  "snd (feed_all (nd_feed 6) [[34, 0xD83D], [0xDE00, 34, 10]] nd_init) = [NdOversized 8]"
  by (simp add: nd_feed_def nd_loop.simps Let_def nd_init_def clearBuffer_def unit_bytes_def is_high_surrogate_def is_low_surrogate_def)

theorem ndjson_roundtrip_witness:
  "feed_all (nd_feed 5) [js ''tr'', js ''ue'' @ [10] @ js ''nul'', js ''l'', [10]] nd_init =
     (nd_init, [NdMessage (JBool True), NdMessage JNull])"
proof -
  have 1: "list_all json_ok [JBool True, JNull]" by simp
  have 2: "list_all (\<lambda>v. byte_length (json_stringify v) \<le> 5) [JBool True, JNull]"
    by (simp add: js_eval is_high_surrogate_def unit_bytes_def)
  have 3: "concat [js ''tr'', js ''ue'' @ [10] @ js ''nul'', js ''l'', [10]] = concat (map encodeNdjson [JBool True, JNull])"
    by (simp add: encodeNdjson_def js_eval)
  have 4: "cuts between_characters [js ''tr'', js ''ue'' @ [10] @ js ''nul'', js ''l'', [10]]"
    by (simp add: between_characters_def pair_across_def js_eval is_high_surrogate_def)
  show ?thesis using ndjson_roundtrip [OF 1 3 disjI1 [OF conjI [OF 2 4]]] unfolding list.map .
qed

text \<open>
  Whatever the peer sends, in whatever pieces, the parser never holds more than \<open>maxLineBytes\<close> bytes of
  an unfinished line.
\<close>

theorem ndjson_buffer_bounded:
  "byte_length (nd_buffer (run_events (\<lambda>c st. fst (nd_feed m c st)) chunks nd_init)) \<le> m"
  using nd_run.inv_run [OF nd_ok_init, of m chunks] by (simp add: nd_ok_def)

text \<open>
  An oversized line costs only itself: it is reported once, none of it is parsed, and the stream after
  its newline is read as from a fresh parser, also when the line came in several pieces.
\<close>

theorem oversized_line_is_skipped:
  assumes "10 \<notin> set line" and "m < byte_length line"
    and "concat chunks = line @ 10 # rest" and "cuts between_characters chunks"
  shows "feed_all (nd_feed_erased m) chunks nd_init =
     (let (st, out) = nd_feed_erased m rest nd_init in (st, NdOversized 0 # out))"
proof -
  have "feed_all (nd_feed_erased m) chunks nd_init = nd_feed_erased m (line @ 10 # rest) nd_init"
    using nd.feed_all_concat [OF nd_ok_init assms(4)] assms(3) by simp
  moreover have "nd_line m line nd_init = [NdOversized (byte_length line)]"
    using assms(2) by (simp add: nd_line_def nd_init_def)
  ultimately show ?thesis
    by (simp add: nd_feed_erased_def nd_feed_def nd_loop_line [OF assms(1)] nd_erase_def)
qed

theorem oversized_line_is_skipped_witness:
  "snd (feed_all (nd_feed_erased 4) [js ''aaa'', js ''bbb'', 10 # js ''null'' @ [10]] nd_init) =
     [NdOversized 0, NdMessage JNull]"
proof -
  have 1: "10 \<notin> set (js ''aaabbb'')" by (simp add: js_eval)
  have 2: "4 < byte_length (js ''aaabbb'')" by (simp add: js_eval is_high_surrogate_def unit_bytes_def)
  have 3: "concat [js ''aaa'', js ''bbb'', 10 # js ''null'' @ [10]] = js ''aaabbb'' @ 10 # (js ''null'' @ [10])"
    by (simp add: js_eval)
  have 4: "cuts between_characters [js ''aaa'', js ''bbb'', 10 # js ''null'' @ [10]]"
    by (simp add: between_characters_def pair_across_def js_eval is_high_surrogate_def)
  have "list_all json_ok [JNull]" "list_all (\<lambda>v. byte_length (json_stringify v) \<le> 4) [JNull]"
    by (simp_all add: js_eval is_high_surrogate_def unit_bytes_def)
  from nd_feed_encoded [OF this] have "nd_loop 4 (js ''null'' @ [10]) nd_init = (nd_init, [NdMessage JNull])"
    by (simp add: encodeNdjson_def)
  then have "nd_feed_erased 4 (js ''null'' @ [10]) nd_init = (nd_init, [NdMessage JNull])"
    by (simp add: nd_feed_erased_def nd_feed_def nd_erase_def)
  then show ?thesis using oversized_line_is_skipped [OF 1 2 3 4] by simp
qed

end
