(* ===== verification/Framing.thy ===== *)
theory Framing
  imports Contracts
begin

text \<open>
  Length-prefixed framing, the contract both binary protocols share: a frame is a header of fixed
  size, from which the length of the rest can be read, and that rest.  \<open>frame_loop\<close> is the
  reference decoder on one flat buffer; the locale \<open>framing\<close> derives the laws of a stream parser for it.
\<close>

type_synonym bytes = "8 word list"

subsection \<open>Big-endian numbers\<close>

text \<open>\<open>writeUInt32BE\<close> of a number below \<open>2 ^ 32\<close>, and \<open>readUInt32BE\<close>.\<close>

definition be32 :: "nat \<Rightarrow> bytes" where
  "be32 n = [of_nat (n div 16777216 mod 256), of_nat (n div 65536 mod 256),
             of_nat (n div 256 mod 256), of_nat (n mod 256)]"

definition read32 :: "bytes \<Rightarrow> nat \<Rightarrow> nat" where
  "read32 b i = unat (b ! i) * 16777216 + unat (b ! (i + 1)) * 65536 + unat (b ! (i + 2)) * 256 + unat (b ! (i + 3))"

lemma length_be32 [simp]: "length (be32 n) = 4"
  by (simp add: be32_def)

lemma unat_byte: "unat (of_nat (n mod 256) :: 8 word) = n mod 256"
  by (simp add: unat_of_nat take_bit_eq_mod)

lemma read32_be32:
  assumes "n < 2 ^ 32" "length p = i"
  shows "read32 (p @ be32 n @ s) i = n"
proof -
  have "(p @ be32 n @ s) ! i = of_nat (n div 16777216 mod 256)"
    "(p @ be32 n @ s) ! (i + 1) = of_nat (n div 65536 mod 256)"
    "(p @ be32 n @ s) ! (i + 2) = of_nat (n div 256 mod 256)"
    "(p @ be32 n @ s) ! (i + 3) = of_nat (n mod 256)"
    using assms(2) by (auto simp: be32_def nth_append)
  then have "read32 (p @ be32 n @ s) i =
      n div 16777216 mod 256 * 16777216 + n div 65536 mod 256 * 65536 + n div 256 mod 256 * 256 + n mod 256"
    by (simp only: read32_def unat_byte)
  also have "\<dots> = n"
  proof -
    let ?a = "n div 256" and ?b = "n div 256 div 256" and ?c = "n div 256 div 256 div 256"
    have d: "n div 65536 = ?b" "n div 16777216 = ?c" by (simp_all flip: div_mult2_eq)
    have "?c < 256" using assms(1) by (simp flip: div_mult2_eq)
    then have "?c mod 256 = ?c" by simp
    moreover have "n = ?a * 256 + n mod 256" "?a = ?b * 256 + ?a mod 256" "?b = ?c * 256 + ?b mod 256"
      by (rule div_mult_mod_eq [symmetric])+
    ultimately show ?thesis unfolding d by linarith
  qed
  finally show ?thesis .
qed

lemma read32_take: "i + 4 \<le> n \<Longrightarrow> n \<le> length b \<Longrightarrow> read32 (take n b) i = read32 b i"
  by (simp add: read32_def)

subsection \<open>The reference decoder\<close>

function frame_loop :: "nat \<Rightarrow> (bytes \<Rightarrow> nat) \<Rightarrow> (bytes \<Rightarrow> 'o) \<Rightarrow> bytes \<Rightarrow> bytes \<times> 'o list" where
  "frame_loop hl len emit buf =
     (if 0 < hl \<and> hl \<le> length buf \<and> hl + len buf \<le> length buf
      then (let r = frame_loop hl len emit (drop (hl + len buf) buf)
            in (fst r, emit (take (hl + len buf) buf) # snd r))
      else (buf, []))"
  by pat_completeness auto
termination by (relation "measure (\<lambda>(_, _, _, buf). length buf)") auto

declare frame_loop.simps [simp del]

locale framing =
  fixes hl :: nat and len :: "bytes \<Rightarrow> nat" and emit :: "bytes \<Rightarrow> 'o"
  assumes header: "0 < hl"
    and len_prefix: "hl \<le> length a \<Longrightarrow> len (a @ b) = len a"
begin

lemma loop_step:
  "hl \<le> length f \<Longrightarrow> length f = hl + len f \<Longrightarrow>
   frame_loop hl len emit (f @ r) =
     (fst (frame_loop hl len emit r), emit f # snd (frame_loop hl len emit r))"
  using header by (subst frame_loop.simps) (simp add: len_prefix Let_def)

lemma loop_residue: "frame_loop hl len emit (fst (frame_loop hl len emit x)) = (fst (frame_loop hl len emit x), [])"
proof (induction x rule: length_induct)
  case (1 x)
  show ?case
  proof (cases "hl \<le> length x \<and> hl + len x \<le> length x")
    case True
    then have "fst (frame_loop hl len emit x) = fst (frame_loop hl len emit (drop (hl + len x) x))"
      using header by (simp add: frame_loop.simps [of hl len emit x] Let_def)
    moreover have "length (drop (hl + len x) x) < length x"
      using True header unfolding length_drop by linarith
    ultimately show ?thesis using 1 by presburger
  next
    case False
    then have "frame_loop hl len emit x = (x, [])" by (subst frame_loop.simps) auto
    then show ?thesis by simp
  qed
qed

lemma loop_append:
  "frame_loop hl len emit (x @ b) =
     (fst (frame_loop hl len emit (fst (frame_loop hl len emit x) @ b)),
      snd (frame_loop hl len emit x) @ snd (frame_loop hl len emit (fst (frame_loop hl len emit x) @ b)))"
proof (induction x rule: length_induct)
  case (1 x)
  show ?case
  proof (cases "hl \<le> length x \<and> hl + len x \<le> length x")
    case True
    let ?f = "take (hl + len x) x" and ?r = "drop (hl + len x) x"
    have f: "hl \<le> length ?f" "length ?f = hl + len ?f"
      using True len_prefix [of ?f ?r] by auto
    have x: "frame_loop hl len emit x = (fst (frame_loop hl len emit ?r), emit ?f # snd (frame_loop hl len emit ?r))"
      using loop_step [OF f, of ?r] by simp
    have xb: "frame_loop hl len emit (x @ b) =
        (fst (frame_loop hl len emit (?r @ b)), emit ?f # snd (frame_loop hl len emit (?r @ b)))"
      using loop_step [OF f, of "?r @ b"] by (metis append.assoc append_take_drop_id)
    have "length ?r < length x" using True header unfolding length_drop by linarith
    then show ?thesis using 1 unfolding x xb by simp
  next
    case False
    then have "frame_loop hl len emit x = (x, [])" by (subst frame_loop.simps) auto
    then show ?thesis by simp
  qed
qed

text \<open>A concatenation of complete frames is decoded into those frames.\<close>

lemma loop_frames:
  "list_all (\<lambda>f. hl \<le> length f \<and> length f = hl + len f) fs \<Longrightarrow>
   frame_loop hl len emit (concat fs) = ([], map emit fs)"
proof (induction fs)
  case Nil
  then show ?case using header by (subst frame_loop.simps) simp
qed (simp add: loop_step)

end

text \<open>Every framing is a stream parser: the residue is the buffer, and bytes may be cut anywhere.\<close>

sublocale framing \<subseteq> stream_parser
  "\<lambda>c s. frame_loop hl len emit (s @ c)" "\<lambda>s. frame_loop hl len emit s = (s, [])" "\<lambda>_ _. True"
proof
  fix s c assume "frame_loop hl len emit s = (s, [])"
  show "frame_loop hl len emit (fst (frame_loop hl len emit (s @ c))) = (fst (frame_loop hl len emit (s @ c)), [])"
    by (rule loop_residue)
next
  fix s a b assume "frame_loop hl len emit s = (s, [])"
  show "frame_loop hl len emit (s @ a @ b) =
      (let (s', out) = frame_loop hl len emit (s @ a); (s'', out') = frame_loop hl len emit (s' @ b)
       in (s'', out @ out'))"
    using loop_append [of "s @ a" b] by (simp add: case_prod_unfold Let_def)
qed simp

end
