(* ===== verification/Daemon_Frame.thy ===== *)
theory Daemon_Frame
  imports Framing
begin

text \<open>
  The daemon's binary frames, \<open>src/main/daemon/binary-frame.ts\<close> with the constants of
  \<open>src/main/daemon/types.ts\<close>: one type byte, a 32-bit big-endian length, the payload.
\<close>

datatype frame_type = FData | FResize | FExit | FError | FKill | FSignal

fun frame_type_code :: "frame_type \<Rightarrow> 8 word" where
  "frame_type_code FData = 1"
| "frame_type_code FResize = 2"
| "frame_type_code FExit = 3"
| "frame_type_code FError = 4"
| "frame_type_code FKill = 5"
| "frame_type_code FSignal = 6"

definition FRAME_HEADER_SIZE :: nat where
  "FRAME_HEADER_SIZE = 5"

definition FRAME_MAX_PAYLOAD :: nat where
  "FRAME_MAX_PAYLOAD = 1024 * 1024"

text \<open>\<open>None\<close> is the exception for a payload over the limit.\<close>

definition encodeDaemonFrame :: "frame_type \<Rightarrow> bytes \<Rightarrow> bytes option" where
  "encodeDaemonFrame ty payload =
     (if length payload > FRAME_MAX_PAYLOAD then None
      else Some (frame_type_code ty # be32 (length payload) @ payload))"

text \<open>The parser's buffer and its loop; a frame is reported as its type byte and payload.\<close>

function df_parse :: "bytes \<Rightarrow> bytes \<times> (8 word \<times> bytes) list" where
  "df_parse buffer =
     (if length buffer \<ge> FRAME_HEADER_SIZE
      then (let payloadLength = read32 buffer 1;
                totalLength = FRAME_HEADER_SIZE + payloadLength
            in if length buffer < totalLength then (buffer, [])
               else (let r = df_parse (drop totalLength buffer)
                     in (fst r, (buffer ! 0, slice FRAME_HEADER_SIZE totalLength buffer) # snd r)))
      else (buffer, []))"
  by pat_completeness auto
termination
  by (relation "measure length") (auto simp: FRAME_HEADER_SIZE_def)

declare df_parse.simps [simp del]

definition df_feed :: "bytes \<Rightarrow> bytes \<Rightarrow> bytes \<times> (8 word \<times> bytes) list" where
  "df_feed chunk buffer = df_parse (if buffer = [] then chunk else buffer @ chunk)"

definition df_reset :: "bytes \<Rightarrow> bytes" where
  "df_reset buffer = []"

subsection \<open>The framing contract\<close>

definition df_len :: "bytes \<Rightarrow> nat" where
  "df_len b = read32 b 1"

definition df_emit :: "bytes \<Rightarrow> 8 word \<times> bytes" where
  "df_emit f = (f ! 0, drop FRAME_HEADER_SIZE f)"

lemma df_parse_loop: "df_parse b = frame_loop FRAME_HEADER_SIZE df_len df_emit b"
proof (induction b rule: df_parse.induct)
  case (1 b)
  show ?case
  proof (cases "FRAME_HEADER_SIZE \<le> length b \<and> FRAME_HEADER_SIZE + df_len b \<le> length b")
    case True
    let ?n = "FRAME_HEADER_SIZE + df_len b"
    have "df_emit (take ?n b) = (b ! 0, slice FRAME_HEADER_SIZE ?n b)"
      using True by (simp add: df_emit_def slice_def FRAME_HEADER_SIZE_def drop_take)
    moreover have "df_parse (drop ?n b) = frame_loop FRAME_HEADER_SIZE df_len df_emit (drop ?n b)"
      using True 1 [OF _ refl refl] by (simp add: df_len_def [of b])
    moreover have "0 < FRAME_HEADER_SIZE" by (simp add: FRAME_HEADER_SIZE_def)
    ultimately show ?thesis
      using True unfolding df_parse.simps [of b] frame_loop.simps [of _ _ _ b]
      by (simp add: Let_def df_len_def [of b])
  next
    case False
    then show ?thesis
      unfolding df_parse.simps [of b] frame_loop.simps [of _ _ _ b] by (auto simp: Let_def df_len_def)
  qed
qed

interpretation df: framing FRAME_HEADER_SIZE df_len df_emit
proof
  show "0 < FRAME_HEADER_SIZE" by (simp add: FRAME_HEADER_SIZE_def)
  fix a b :: bytes assume "FRAME_HEADER_SIZE \<le> length a"
  then show "df_len (a @ b) = df_len a"
    by (simp add: df_len_def read32_def FRAME_HEADER_SIZE_def nth_append)
qed

lemma df_feed_loop: "df_feed c b = frame_loop FRAME_HEADER_SIZE df_len df_emit (b @ c)"
  by (simp add: df_feed_def df_parse_loop)

lemma df_encode:
  assumes "encodeDaemonFrame ty p = Some f"
  shows "FRAME_HEADER_SIZE \<le> length f \<and> length f = FRAME_HEADER_SIZE + df_len f \<and>
    df_emit f = (frame_type_code ty, p)"
proof -
  have f: "f = [frame_type_code ty] @ be32 (length p) @ p" and l: "length p \<le> FRAME_MAX_PAYLOAD"
    using assms by (auto simp: encodeDaemonFrame_def split: if_splits)
  have "df_len f = length p"
    unfolding df_len_def f by (rule read32_be32) (use l in \<open>auto simp: FRAME_MAX_PAYLOAD_def\<close>)
  moreover have "drop FRAME_HEADER_SIZE f = p" by (simp add: f FRAME_HEADER_SIZE_def)
  ultimately show ?thesis by (simp add: f df_emit_def FRAME_HEADER_SIZE_def)
qed

text \<open>
  The frames one side encodes are the frames the other side's parser reports, in order and with
  nothing left in its buffer, however the byte stream is cut.
\<close>

theorem daemon_frames_roundtrip:
  assumes "list_all2 (\<lambda>(ty, p) f. encodeDaemonFrame ty p = Some f) msgs frames"
    and "concat chunks = concat frames"
  shows "feed_all df_feed chunks [] = ([], map (\<lambda>(ty, p). (frame_type_code ty, p)) msgs)"
proof -
  have fr: "list_all (\<lambda>f. FRAME_HEADER_SIZE \<le> length f \<and> length f = FRAME_HEADER_SIZE + df_len f) frames"
    and em: "map df_emit frames = map (\<lambda>(ty, p). (frame_type_code ty, p)) msgs"
    using assms(1) by (induction rule: list_all2_induct) (auto simp: df_encode)
  have "df_feed = (\<lambda>c s. frame_loop FRAME_HEADER_SIZE df_len df_emit (s @ c))"
    by (intro ext) (rule df_feed_loop)
  moreover have "frame_loop FRAME_HEADER_SIZE df_len df_emit [] = ([], [])"
    by (subst frame_loop.simps) (simp add: FRAME_HEADER_SIZE_def)
  ultimately show ?thesis
    using df.feed_all_concat [of "[]" chunks] df.loop_frames [OF fr] assms(2) by (simp add: em)
qed

theorem daemon_frames_roundtrip_witness:
  "feed_all df_feed [[1, 0, 0], [0, 2, 7, 8, 3], [0, 0, 0, 0]] [] = ([], [(1, [7, 8]), (3, [])])"
proof -
  have 1: "list_all2 (\<lambda>(ty, p) f. encodeDaemonFrame ty p = Some f)
      [(FData, [7, 8]), (FExit, [])] [[1, 0, 0, 0, 2, 7, 8], [3, 0, 0, 0, 0]]"
    by (simp add: encodeDaemonFrame_def FRAME_MAX_PAYLOAD_def be32_def)
  have 2: "concat [[1, 0, 0], [0, 2, 7, 8, 3], [0, 0, 0, 0]] = concat [[1, 0, 0, 0, 2, 7, 8], [3, 0, 0, 0, 0 :: 8 word]]"
    by simp
  show ?thesis using daemon_frames_roundtrip [OF 1 2] by simp
qed

end
