(* ===== verification/Utf8.thy ===== *)
theory Utf8
  imports Utf16 Framing
begin

text \<open>
  UTF-8 as the runtime encodes and decodes it: \<open>TextEncoder\<close> and \<open>Buffer.from(s, 'utf8')\<close> replace a lone
  surrogate by U+FFFD, \<open>Buffer.toString('utf8')\<close> replaces every maximal ill-formed prefix by U+FFFD, and
  \<open>TextDecoder\<close> moreover drops a leading byte order mark.
\<close>

subsection \<open>Encoding\<close>

definition utf8_code_point :: "nat \<Rightarrow> bytes" where
  "utf8_code_point cp =
     (if cp \<le> 0x7F then [of_nat cp]
      else if cp \<le> 0x7FF then [of_nat (0xC0 + cp div 64), of_nat (0x80 + cp mod 64)]
      else if cp \<le> 0xFFFF then [of_nat (0xE0 + cp div 4096), of_nat (0x80 + cp div 64 mod 64), of_nat (0x80 + cp mod 64)]
      else [of_nat (0xF0 + cp div 262144), of_nat (0x80 + cp div 4096 mod 64), of_nat (0x80 + cp div 64 mod 64),
            of_nat (0x80 + cp mod 64)])"

definition is_surrogate :: "jschar \<Rightarrow> bool" where
  "is_surrogate c \<longleftrightarrow> is_high_surrogate c \<or> is_low_surrogate c"

definition pair_code_point :: "jschar \<Rightarrow> jschar \<Rightarrow> nat" where
  "pair_code_point h l = 0x10000 + (unat h - 0xD800) * 0x400 + (unat l - 0xDC00)"

function utf8_encode :: "jsstr \<Rightarrow> bytes" where
  "utf8_encode [] = []"
| "utf8_encode (c # s) =
     (if is_high_surrogate c \<and> s \<noteq> [] \<and> is_low_surrogate (hd s)
      then utf8_code_point (pair_code_point c (hd s)) @ utf8_encode (tl s)
      else utf8_code_point (if is_surrogate c then 0xFFFD else unat c) @ utf8_encode s)"
  by pat_completeness auto
termination by (relation "measure length") (auto simp: neq_Nil_conv)

text \<open>The string with every lone surrogate replaced, and the strings that have none.\<close>

function to_well_formed :: "jsstr \<Rightarrow> jsstr" where
  "to_well_formed [] = []"
| "to_well_formed (c # s) =
     (if is_high_surrogate c \<and> s \<noteq> [] \<and> is_low_surrogate (hd s) then c # hd s # to_well_formed (tl s)
      else (if is_surrogate c then 0xFFFD else c) # to_well_formed s)"
  by pat_completeness auto
termination by (relation "measure length") (auto simp: neq_Nil_conv)

definition well_formed :: "jsstr \<Rightarrow> bool" where
  "well_formed s \<longleftrightarrow> to_well_formed s = s"

subsection \<open>Decoding\<close>

definition cont :: "nat \<Rightarrow> bool" where
  "cont b \<longleftrightarrow> 0x80 \<le> b \<and> b \<le> 0xBF"

text \<open>The units of a code point.\<close>

definition units :: "nat \<Rightarrow> jsstr" where
  "units cp = (if cp \<le> 0xFFFF then [of_nat cp]
               else [of_nat (0xD800 + (cp - 0x10000) div 0x400), of_nat (0xDC00 + (cp - 0x10000) mod 0x400)])"

text \<open>
  One step: the units of the first code point, or U+FFFD for an ill-formed prefix, and the bytes used.
\<close>

definition utf8_step :: "nat \<Rightarrow> bytes \<Rightarrow> jsstr \<times> nat" where
  "utf8_step b bs =
     (let at = (\<lambda>i. if i < length bs then unat (bs ! i) else 0)
      in if b \<le> 0x7F then (units b, 1)
         else if 0xC2 \<le> b \<and> b \<le> 0xDF then
           (if cont (at 0) then (units ((b - 0xC0) * 64 + (at 0 - 0x80)), 2) else ([0xFFFD], 1))
         else if 0xE0 \<le> b \<and> b \<le> 0xEF then
           (if (if b = 0xE0 then 0xA0 else 0x80) \<le> at 0 \<and> at 0 \<le> (if b = 0xED then 0x9F else 0xBF)
            then (if cont (at 1)
                  then (units ((b - 0xE0) * 4096 + (at 0 - 0x80) * 64 + (at 1 - 0x80)), 3) else ([0xFFFD], 2))
            else ([0xFFFD], 1))
         else if 0xF0 \<le> b \<and> b \<le> 0xF4 then
           (if (if b = 0xF0 then 0x90 else 0x80) \<le> at 0 \<and> at 0 \<le> (if b = 0xF4 then 0x8F else 0xBF)
            then (if cont (at 1)
                  then (if cont (at 2)
                        then (units ((b - 0xF0) * 262144 + (at 0 - 0x80) * 4096 + (at 1 - 0x80) * 64 + (at 2 - 0x80)), 4)
                        else ([0xFFFD], 3))
                  else ([0xFFFD], 2))
            else ([0xFFFD], 1))
         else ([0xFFFD], 1))"

lemma utf8_step_pos: "0 < snd (utf8_step b bs)"
  by (simp add: utf8_step_def Let_def)

function utf8_decode :: "bytes \<Rightarrow> jsstr" where
  "utf8_decode [] = []"
| "utf8_decode (b # bs) = fst (utf8_step (unat b) bs) @ utf8_decode (drop (snd (utf8_step (unat b) bs) - 1) bs)"
  by pat_completeness auto
termination by (relation "measure length") auto

declare utf8_decode.simps(2) [simp del]

definition text_decode :: "bytes \<Rightarrow> jsstr" where
  "text_decode bs = utf8_decode (if take 3 bs = [0xEF, 0xBB, 0xBF] then drop 3 bs else bs)"

subsection \<open>Lengths and the round trip\<close>

lemma length_utf8_code_point: "length (utf8_code_point cp) = utf8_len_code_point cp"
  by (simp add: utf8_code_point_def utf8_len_code_point_def)

lemma surrogate_range: "is_surrogate c \<longleftrightarrow> 0xD800 \<le> unat c \<and> unat c \<le> 0xDFFF"
  by (auto simp: is_surrogate_def is_high_surrogate_def is_low_surrogate_def word_le_nat_alt)

lemma length_utf8_encode: "length (utf8_encode s) = byte_length s"
proof (induction s rule: utf8_encode.induct)
  case (2 c s)
  have "utf8_len_code_point (if is_surrogate c then 0xFFFD else unat c) = unit_bytes c"
    using utf8_len_unit [of c] by (auto simp: surrogate_range utf8_len_code_point_def)
  then show ?case
    using 2 by (auto simp: length_utf8_code_point pair_code_point_def utf8_len_code_point_def)
qed simp

lemma unat_small: "n < 256 \<Longrightarrow> unat (of_nat n :: 8 word) = n"
  by (simp add: unat_of_nat take_bit_eq_mod)

lemma digits_64: "(n :: nat) div 64 * 64 + n mod 64 = n"
  by (rule div_mult_mod_eq)

lemma decode_1: "cp \<le> 0x7F \<Longrightarrow> utf8_decode (of_nat cp # r) = units cp @ utf8_decode r"
  by (simp add: utf8_decode.simps(2) unat_small utf8_step_def)

lemma decode_2:
  assumes "2 \<le> a" "a < 32" "b < 64"
  shows "utf8_decode (of_nat (0xC0 + a) # of_nat (0x80 + b) # r) = units (a * 64 + b) @ utf8_decode r"
proof -
  have "unat (of_nat (0xC0 + a) :: 8 word) = 0xC0 + a" "unat (of_nat (0x80 + b) :: 8 word) = 0x80 + b"
    using assms by (simp_all only: unat_small)
  then show ?thesis
    using assms by (auto simp: utf8_decode.simps(2) utf8_step_def Let_def cont_def simp del: of_nat_add)
qed

lemma decode_3:
  assumes "a < 16" "b < 64" "c < 64" "a = 0 \<longrightarrow> 32 \<le> b" "a = 13 \<longrightarrow> b < 32"
  shows "utf8_decode (of_nat (0xE0 + a) # of_nat (0x80 + b) # of_nat (0x80 + c) # r) =
    units (a * 4096 + b * 64 + c) @ utf8_decode r"
proof -
  have "unat (of_nat (0xE0 + a) :: 8 word) = 0xE0 + a" "unat (of_nat (0x80 + b) :: 8 word) = 0x80 + b"
    "unat (of_nat (0x80 + c) :: 8 word) = 0x80 + c"
    using assms by (simp_all only: unat_small)
  then show ?thesis
    using assms by (auto simp: utf8_decode.simps(2) utf8_step_def Let_def cont_def simp del: of_nat_add)
qed

lemma decode_4:
  assumes "a \<le> 4" "b < 64" "c < 64" "d < 64" "a = 0 \<longrightarrow> 16 \<le> b" "a = 4 \<longrightarrow> b < 16"
  shows "utf8_decode (of_nat (0xF0 + a) # of_nat (0x80 + b) # of_nat (0x80 + c) # of_nat (0x80 + d) # r) =
    units (a * 262144 + b * 4096 + c * 64 + d) @ utf8_decode r"
proof -
  have "unat (of_nat (0xF0 + a) :: 8 word) = 0xF0 + a" "unat (of_nat (0x80 + b) :: 8 word) = 0x80 + b"
    "unat (of_nat (0x80 + c) :: 8 word) = 0x80 + c" "unat (of_nat (0x80 + d) :: 8 word) = 0x80 + d"
    using assms by (simp_all only: unat_small)
  then show ?thesis
    using assms by (auto simp: utf8_decode.simps(2) utf8_step_def Let_def cont_def simp del: of_nat_add)
qed

lemma decode_code_point:
  assumes "cp < 0x110000" and "\<not> (0xD800 \<le> cp \<and> cp \<le> 0xDFFF)"
  shows "utf8_decode (utf8_code_point cp @ r) = units cp @ utf8_decode r"
proof -
  let ?a = "cp div 64" and ?b = "cp div 64 div 64" and ?c = "cp div 64 div 64 div 64"
  have div: "cp div 4096 = ?b" "cp div 262144 = ?c" by (simp_all flip: div_mult2_eq)
  have d: "?a * 64 + cp mod 64 = cp" "?b * 64 + ?a mod 64 = ?a" "?c * 64 + ?b mod 64 = ?b"
    by (rule digits_64)+
  have m: "cp mod 64 < 64" "?a mod 64 < 64" "?b mod 64 < 64" by simp_all
  consider "cp \<le> 0x7F" | "0x7F < cp" "cp \<le> 0x7FF" | "0x7FF < cp" "cp \<le> 0xFFFF" | "0xFFFF < cp" by linarith
  then show ?thesis
  proof cases
    case 1
    then show ?thesis by (simp add: utf8_code_point_def decode_1)
  next
    case 2
    have "2 \<le> ?a" "?a < 32" using 2 d(1) m(1) by linarith+
    from decode_2 [OF this m(1), of r] show ?thesis using 2 d by (simp add: utf8_code_point_def)
  next
    case 3
    have "?b < 16" "?b = 0 \<longrightarrow> 32 \<le> ?a mod 64" using 3 d m by linarith+
    moreover have "?b = 13 \<longrightarrow> ?a mod 64 < 32" using assms(2) 3 d m by linarith
    ultimately have "utf8_decode (of_nat (0xE0 + ?b) # of_nat (0x80 + ?a mod 64) # of_nat (0x80 + cp mod 64) # r) =
        units (?b * 4096 + ?a mod 64 * 64 + cp mod 64) @ utf8_decode r"
      using m by (intro decode_3) auto
    moreover have "?b * 4096 + ?a mod 64 * 64 + cp mod 64 = cp" using d by linarith
    ultimately show ?thesis using 3 by (simp add: utf8_code_point_def div)
  next
    case 4
    have "?c \<le> 4" "?c = 0 \<longrightarrow> 16 \<le> ?b mod 64" "?c = 4 \<longrightarrow> ?b mod 64 < 16" using 4 assms(1) d m by linarith+
    then have "utf8_decode (of_nat (0xF0 + ?c) # of_nat (0x80 + ?b mod 64) # of_nat (0x80 + ?a mod 64) # of_nat (0x80 + cp mod 64) # r) =
        units (?c * 262144 + ?b mod 64 * 4096 + ?a mod 64 * 64 + cp mod 64) @ utf8_decode r"
      using m by (intro decode_4) auto
    moreover have "?c * 262144 + ?b mod 64 * 4096 + ?a mod 64 * 64 + cp mod 64 = cp" using d by linarith
    ultimately show ?thesis using 4 by (simp add: utf8_code_point_def div)
  qed
qed

lemma units_unit: "units (unat (c :: jschar)) = [c]"
  using unsigned_less [of c, where ?'a = nat] by (simp add: units_def)

lemma units_pair:
  assumes "is_high_surrogate h" and "is_low_surrogate l"
  shows "units (pair_code_point h l) = [h, l]"
proof -
  have "0xD800 \<le> unat h" "unat h \<le> 0xDBFF" "0xDC00 \<le> unat l" "unat l \<le> 0xDFFF"
    using assms by (auto simp: is_high_surrogate_def is_low_surrogate_def word_le_nat_alt)
  then obtain a b where a: "unat h = 0xD800 + a" and b: "unat l = 0xDC00 + b" "b < 0x400"
    using le_Suc_ex [of "0xD800" "unat h"] le_Suc_ex [of "0xDC00" "unat l"] by auto
  have cp: "pair_code_point h l = 0x10000 + (a * 0x400 + b)" by (simp add: pair_code_point_def a b)
  have "(a * 0x400 + b) div 0x400 = a" "(a * 0x400 + b) mod 0x400 = b" using b(2) by simp_all
  then have "units (pair_code_point h l) = [of_nat (unat h), of_nat (unat l)]"
    by (simp add: units_def cp a b(1))
  then show ?thesis by simp
qed

lemma decode_encode: "utf8_decode (utf8_encode s) = to_well_formed s"
proof (induction s rule: utf8_encode.induct)
  case (2 c s)
  show ?case
  proof (cases "is_high_surrogate c \<and> s \<noteq> [] \<and> is_low_surrogate (hd s)")
    case True
    then have h: "unat c \<le> 0xDBFF" "unat (hd s) \<le> 0xDFFF"
      by (auto simp: is_high_surrogate_def is_low_surrogate_def word_le_nat_alt)
    have "pair_code_point c (hd s) < 0x110000" "0x10000 \<le> pair_code_point c (hd s)"
      using h by (simp_all add: pair_code_point_def)
    then show ?thesis using True 2 by (simp add: decode_code_point units_pair)
  next
    case False
    have "unat c < 0x110000" using unsigned_less [of c, where ?'a = nat] by simp
    then have "utf8_decode (utf8_code_point (if is_surrogate c then 0xFFFD else unat c) @ utf8_encode s) =
        (if is_surrogate c then [0xFFFD] else [c]) @ utf8_decode (utf8_encode s)"
      using decode_code_point [of "unat c" "utf8_encode s"] decode_code_point [of "0xFFFD" "utf8_encode s"]
      by (simp add: surrogate_range units_unit) (simp add: units_def)
    then show ?thesis using False 2 by auto
  qed
qed simp

subsection \<open>Well-formed strings\<close>

lemma not_surrogate_replacement: "\<not> is_surrogate 0xFFFD"
  by (simp add: is_surrogate_def is_high_surrogate_def is_low_surrogate_def)

lemma to_well_formed_append: "well_formed a \<Longrightarrow> to_well_formed (a @ b) = a @ to_well_formed b"
proof (induction a rule: to_well_formed.induct)
  case (2 c s)
  show ?case
  proof (cases "is_high_surrogate c \<and> s \<noteq> [] \<and> is_low_surrogate (hd s)")
    case True
    then obtain d t where "s = d # t" "is_low_surrogate d" by (cases s) auto
    then show ?thesis using 2 True by (simp add: well_formed_def)
  next
    case False
    then have "(if is_surrogate c then 0xFFFD else c) = c" and s: "well_formed s"
      using "2.prems" by (auto simp: well_formed_def split: if_splits)
    then have c: "\<not> is_surrogate c" using not_surrogate_replacement by (metis (full_types))
    then have "\<not> is_high_surrogate c" by (simp add: is_surrogate_def)
    then show ?thesis using c s 2 False by simp
  qed
qed simp

lemma well_formed_append: "well_formed a \<Longrightarrow> well_formed b \<Longrightarrow> well_formed (a @ b)"
  by (simp add: well_formed_def [of "a @ b"] to_well_formed_append) (simp add: well_formed_def)

lemma well_formed_plain: "\<forall>c \<in> set s. \<not> is_surrogate c \<Longrightarrow> well_formed s"
  by (induction s) (auto simp: well_formed_def is_surrogate_def)

lemma small_not_surrogate: "unat c < 0xD800 \<Longrightarrow> \<not> is_surrogate (c :: jschar)"
  by (simp add: surrogate_range)

lemma ascii_well_formed: "unat c < 0xD800 \<Longrightarrow> well_formed [c]"
  by (intro well_formed_plain) (simp add: small_not_surrogate)

lemma length_utf8_le: "length (utf8_encode s) \<le> 3 * length s"
proof (induction s rule: utf8_encode.induct)
  case (2 c s)
  have "unat c \<le> 0xFFFF" using unsigned_less [of c, where ?'a = nat] by simp
  then have l: "length (utf8_code_point (if is_surrogate c then 0xFFFD else unat c)) \<le> 3" "length (utf8_code_point n) \<le> 6" for n
    by (simp_all add: utf8_code_point_def)
  show ?case
  proof (cases "is_high_surrogate c \<and> s \<noteq> [] \<and> is_low_surrogate (hd s)")
    case True
    then obtain d t where s: "s = d # t" by (cases s) auto
    then have "length (utf8_encode t) \<le> 3 * length t" using 2 True by simp
    then show ?thesis using True s l(2) [of "pair_code_point c d"] by simp
  next
    case False
    then have "length (utf8_encode s) \<le> 3 * length s" using 2 by blast
    then show ?thesis using False l(1) by (simp del: de_Morgan_conj)
  qed
qed simp

end
