(* ===== verification/Relay_Frame.thy ===== *)
theory Relay_Frame
  imports Framing Utf8
begin

text \<open>
  The relay protocol's frames, \<open>src/relay/protocol.ts\<close>: a type byte, the sender's frame id, the
  acknowledged id and the payload length as 32-bit big-endian numbers, then the payload.  The decoder
  keeps the received chunks in a list and copies each frame once; it refines the flat reference decoder.
\<close>

subsection \<open>Encoding\<close>

definition HEADER_LENGTH :: nat where
  "HEADER_LENGTH = 13"

definition MAX_MESSAGE_SIZE :: nat where
  "MAX_MESSAGE_SIZE = 16 * 1024 * 1024"

datatype relay_message_type = Regular | Handshake | KeepAlive

fun relay_type_code :: "relay_message_type \<Rightarrow> nat" where
  "relay_type_code Regular = 1"
| "relay_type_code Handshake = 2"
| "relay_type_code KeepAlive = 9"

text \<open>\<open>None\<close> is the range error of \<open>writeUInt32BE\<close>.\<close>

definition encodeFrame :: "nat \<Rightarrow> nat \<Rightarrow> nat \<Rightarrow> bytes \<Rightarrow> bytes option" where
  "encodeFrame ty i ack payload =
     (if i < 2 ^ 32 \<and> ack < 2 ^ 32 \<and> length payload < 2 ^ 32
      then Some (of_nat ty # be32 i @ be32 ack @ be32 (length payload) @ payload) else None)"

definition encodeJsonRpcFrame :: "json \<Rightarrow> nat \<Rightarrow> nat \<Rightarrow> bytes option" where
  "encodeJsonRpcFrame msg i ack =
     (let payload = utf8_encode (json_stringify msg)
      in if length payload > MAX_MESSAGE_SIZE then None
         else encodeFrame (relay_type_code Regular) i ack payload)"

definition encodeHandshakeFrame :: "json \<Rightarrow> bytes option" where
  "encodeHandshakeFrame msg = encodeFrame (relay_type_code Handshake) 0 0 (utf8_encode (json_stringify msg))"

definition encodeKeepAliveFrame :: "nat \<Rightarrow> nat \<Rightarrow> bytes option" where
  "encodeKeepAliveFrame i ack = encodeFrame (relay_type_code KeepAlive) i ack []"

subsection \<open>The decoder\<close>

datatype decoded =
    DecodedFrame "8 word" nat nat bytes
  | FrameTooLarge nat

record frame_decoder =
  fd_chunks :: "bytes list"
  fd_buffered :: nat

definition fd_init :: frame_decoder where
  "fd_init = \<lparr>fd_chunks = [], fd_buffered = 0\<rparr>"

fun peek_loop :: "bytes list \<Rightarrow> nat \<Rightarrow> bytes \<Rightarrow> bytes" where
  "peek_loop [] count out = out"
| "peek_loop (part # ps) count out =
     (let out' = out @ take (min (length part) (count - length out)) part
      in if length out' \<ge> count then out' else peek_loop ps count out')"

text \<open>The decoder only peeks and takes when enough bytes are buffered, so there is a first chunk.\<close>

definition peekBytes :: "nat \<Rightarrow> frame_decoder \<Rightarrow> bytes" where
  "peekBytes count d =
     (case fd_chunks d of [] \<Rightarrow> []
      | first # _ \<Rightarrow> if length first \<ge> count then first else peek_loop (fd_chunks d) count [])"

fun take_loop :: "bytes list \<Rightarrow> nat \<Rightarrow> bytes \<Rightarrow> bytes \<times> bytes list" where
  "take_loop [] count out = (out, [])"
| "take_loop (part # ps) count out =
     (if length out < count
      then let n = min (length part) (count - length out); out' = out @ take n part
           in if n = length part then take_loop ps count out' else (out', drop n part # ps)
      else (out, part # ps))"

definition takeBytes :: "nat \<Rightarrow> frame_decoder \<Rightarrow> bytes \<times> frame_decoder" where
  "takeBytes count d =
     (case fd_chunks d of [] \<Rightarrow> ([], d\<lparr>fd_buffered := fd_buffered d - count\<rparr>)
      | first # rest \<Rightarrow>
         if length first = count
         then (first, d\<lparr>fd_chunks := rest, fd_buffered := fd_buffered d - count\<rparr>)
         else if length first > count
         then (take count first, d\<lparr>fd_chunks := drop count first # rest, fd_buffered := fd_buffered d - count\<rparr>)
         else let r = take_loop (fd_chunks d) count []
              in (fst r, d\<lparr>fd_chunks := snd r, fd_buffered := fd_buffered d - count\<rparr>))"

fun discard_loop :: "bytes list \<Rightarrow> nat \<Rightarrow> bytes list" where
  "discard_loop [] remaining = []"
| "discard_loop (part # ps) remaining =
     (if remaining > 0
      then if length part \<le> remaining then discard_loop ps (remaining - length part)
           else drop remaining part # ps
      else part # ps)"

definition discardBytes :: "nat \<Rightarrow> frame_decoder \<Rightarrow> frame_decoder" where
  "discardBytes count d =
     d\<lparr>fd_chunks := discard_loop (fd_chunks d) count, fd_buffered := fd_buffered d - count\<rparr>"

lemma fd_buffered_take [simp]: "fd_buffered (snd (takeBytes n d)) = fd_buffered d - n"
  by (simp add: takeBytes_def Let_def split: list.split)

lemma fd_buffered_discard [simp]: "fd_buffered (discardBytes n d) = fd_buffered d - n"
  by (simp add: discardBytes_def)

function fd_loop :: "frame_decoder \<Rightarrow> frame_decoder \<times> decoded list" where
  "fd_loop d =
     (if fd_buffered d \<ge> HEADER_LENGTH
      then (let len = read32 (peekBytes HEADER_LENGTH d) 9; totalLength = HEADER_LENGTH + len
            in if fd_buffered d < totalLength then (d, [])
               else if len > MAX_MESSAGE_SIZE
               then (let r = fd_loop (discardBytes totalLength d) in (fst r, FrameTooLarge len # snd r))
               else (let t = takeBytes totalLength d; framed = fst t; r = fd_loop (snd t)
                     in (fst r, DecodedFrame (framed ! 0) (read32 framed 1) (read32 framed 5)
                                  (slice HEADER_LENGTH totalLength framed) # snd r)))
      else (d, []))"
  by pat_completeness auto
termination by (relation "measure fd_buffered") (auto simp: HEADER_LENGTH_def)

declare fd_loop.simps [simp del]

definition fd_feed :: "bytes \<Rightarrow> frame_decoder \<Rightarrow> frame_decoder \<times> decoded list" where
  "fd_feed chunk d =
     fd_loop (if length chunk > 0
              then d\<lparr>fd_chunks := fd_chunks d @ [chunk], fd_buffered := fd_buffered d + length chunk\<rparr>
              else d)"

definition fd_reset :: "frame_decoder \<Rightarrow> frame_decoder" where
  "fd_reset d = d\<lparr>fd_chunks := [], fd_buffered := 0\<rparr>"

definition fd_drain :: "frame_decoder \<Rightarrow> bytes \<times> frame_decoder" where
  "fd_drain d =
     (case fd_chunks d of [c] \<Rightarrow> (c, fd_reset d)
      | cs \<Rightarrow> (take (fd_buffered d) (concat cs), fd_reset d))"

subsection \<open>The flat reference decoder\<close>

definition rf_len :: "bytes \<Rightarrow> nat" where
  "rf_len b = read32 b 9"

definition rf_emit :: "bytes \<Rightarrow> decoded" where
  "rf_emit f =
     (if length f - HEADER_LENGTH > MAX_MESSAGE_SIZE then FrameTooLarge (length f - HEADER_LENGTH)
      else DecodedFrame (f ! 0) (read32 f 1) (read32 f 5) (drop HEADER_LENGTH f))"

definition rf_decode :: "bytes \<Rightarrow> bytes \<times> decoded list" where
  "rf_decode b = frame_loop HEADER_LENGTH rf_len rf_emit b"

interpretation rf: framing HEADER_LENGTH rf_len rf_emit
proof
  show "0 < HEADER_LENGTH" by (simp add: HEADER_LENGTH_def)
  fix a b :: bytes assume "HEADER_LENGTH \<le> length a"
  then show "rf_len (a @ b) = rf_len a"
    by (simp add: rf_len_def read32_def HEADER_LENGTH_def nth_append)
qed

subsection \<open>The chunk list refines the flat buffer\<close>

definition fd_ok :: "frame_decoder \<Rightarrow> bool" where
  "fd_ok d \<longleftrightarrow> fd_buffered d = length (concat (fd_chunks d)) \<and> [] \<notin> set (fd_chunks d)"

lemma peek_loop_take:
  "length out < count \<Longrightarrow> count \<le> length out + length (concat cs) \<Longrightarrow>
   peek_loop cs count out = out @ take (count - length out) (concat cs)"
proof (induction cs arbitrary: out)
  case (Cons p ps)
  show ?case
  proof (cases "length out + length p \<ge> count")
    case True
    then show ?thesis using Cons.prems by (simp add: Let_def min_def)
  next
    case False
    then have "min (length p) (count - length out) = length p" by linarith
    then have "peek_loop (p # ps) count out = peek_loop ps count (out @ p)"
      using False by (simp add: Let_def)
    also have "\<dots> = (out @ p) @ take (count - length (out @ p)) (concat ps)"
      using Cons.IH [of "out @ p"] Cons.prems False by simp
    finally show ?thesis using False by simp
  qed
qed simp

lemma take_loop_take:
  "[] \<notin> set cs \<Longrightarrow> length out \<le> count \<Longrightarrow> count \<le> length out + length (concat cs) \<Longrightarrow>
   fst (take_loop cs count out) = out @ take (count - length out) (concat cs) \<and>
   concat (snd (take_loop cs count out)) = drop (count - length out) (concat cs) \<and>
   [] \<notin> set (snd (take_loop cs count out))"
proof (induction cs arbitrary: out)
  case (Cons p ps)
  show ?case
  proof (cases "length out < count")
    case T: True
    show ?thesis
    proof (cases "length p \<le> count - length out")
      case True
      then have "take_loop (p # ps) count out = take_loop ps count (out @ p)"
        using T by (simp add: Let_def min_def)
      then show ?thesis using Cons.IH [of "out @ p"] Cons.prems True by simp
    next
      case False
      then show ?thesis using Cons.prems T by (simp add: Let_def min_def)
    qed
  qed (use Cons.prems in simp)
qed simp

lemma discard_loop_drop:
  "[] \<notin> set cs \<Longrightarrow> concat (discard_loop cs n) = drop n (concat cs) \<and> [] \<notin> set (discard_loop cs n)"
  by (induction cs arbitrary: n) auto

lemma peekBytes_read:
  assumes "fd_ok d" "HEADER_LENGTH \<le> fd_buffered d"
  shows "read32 (peekBytes HEADER_LENGTH d) 9 = rf_len (concat (fd_chunks d))"
proof -
  obtain first rest where c: "fd_chunks d = first # rest"
    using assms by (cases "fd_chunks d") (auto simp: fd_ok_def HEADER_LENGTH_def)
  show ?thesis
  proof (cases "length first \<ge> HEADER_LENGTH")
    case True
    then show ?thesis
      using rf.len_prefix [of first "concat rest"] by (simp add: peekBytes_def c rf_len_def)
  next
    case False
    have "peek_loop (fd_chunks d) HEADER_LENGTH [] = take HEADER_LENGTH (concat (fd_chunks d))"
      using peek_loop_take [of "[]" HEADER_LENGTH "fd_chunks d"] assms by (simp add: fd_ok_def HEADER_LENGTH_def)
    then show ?thesis
      using False assms read32_take [of 9 HEADER_LENGTH "concat (fd_chunks d)"]
      by (simp add: peekBytes_def c rf_len_def fd_ok_def HEADER_LENGTH_def)
  qed
qed

lemma takeBytes_spec:
  assumes "fd_ok d" "0 < n" "n \<le> fd_buffered d"
  shows "fst (takeBytes n d) = take n (concat (fd_chunks d))"
    and "concat (fd_chunks (snd (takeBytes n d))) = drop n (concat (fd_chunks d))"
    and "fd_ok (snd (takeBytes n d))"
proof -
  obtain first rest where c: "fd_chunks d = first # rest"
    using assms by (cases "fd_chunks d") (auto simp: fd_ok_def)
  have l: "[] \<notin> set (fd_chunks d)" "n \<le> length (concat (fd_chunks d))" using assms by (auto simp: fd_ok_def)
  note t = take_loop_take [of "fd_chunks d" "[]" n, simplified, OF l]
  show 1: "fst (takeBytes n d) = take n (concat (fd_chunks d))"
    and 2: "concat (fd_chunks (snd (takeBytes n d))) = drop n (concat (fd_chunks d))"
    using t by (auto simp: takeBytes_def c Let_def)
  have "[] \<notin> set (fd_chunks (snd (takeBytes n d)))"
    using t l by (auto simp: takeBytes_def c Let_def)
  then show "fd_ok (snd (takeBytes n d))"
    using assms(1) 2 by (simp add: fd_ok_def)
qed

lemma discardBytes_spec:
  assumes "fd_ok d"
  shows "concat (fd_chunks (discardBytes n d)) = drop n (concat (fd_chunks d))"
    and "fd_ok (discardBytes n d)"
  using assms discard_loop_drop [of "fd_chunks d" n] by (auto simp: fd_ok_def discardBytes_def)

lemma rf_decode_stop:
  "\<not> (HEADER_LENGTH \<le> length b \<and> HEADER_LENGTH + rf_len b \<le> length b) \<Longrightarrow> rf_decode b = (b, [])"
  unfolding rf_decode_def by (subst frame_loop.simps) auto

lemma rf_decode_step:
  assumes "HEADER_LENGTH \<le> length b" "HEADER_LENGTH + rf_len b \<le> length b"
  shows "rf_decode b = (fst (rf_decode (drop (HEADER_LENGTH + rf_len b) b)),
    rf_emit (take (HEADER_LENGTH + rf_len b) b) # snd (rf_decode (drop (HEADER_LENGTH + rf_len b) b)))"
  unfolding rf_decode_def using assms rf.header
  by (simp add: frame_loop.simps [of HEADER_LENGTH rf_len rf_emit b] Let_def)

lemma rf_emit_take:
  assumes "HEADER_LENGTH + l \<le> length b"
  shows "rf_emit (take (HEADER_LENGTH + l) b) =
    (if l > MAX_MESSAGE_SIZE then FrameTooLarge l
     else DecodedFrame (take (HEADER_LENGTH + l) b ! 0) (read32 (take (HEADER_LENGTH + l) b) 1)
       (read32 (take (HEADER_LENGTH + l) b) 5) (slice HEADER_LENGTH (HEADER_LENGTH + l) b))"
  using assms by (simp add: rf_emit_def slice_def drop_take)

lemma fd_loop_refines:
  "fd_ok d \<Longrightarrow> fd_ok (fst (fd_loop d)) \<and>
     concat (fd_chunks (fst (fd_loop d))) = fst (rf_decode (concat (fd_chunks d))) \<and>
     snd (fd_loop d) = snd (rf_decode (concat (fd_chunks d)))"
proof (induction d rule: fd_loop.induct)
  case (1 d)
  let ?b = "concat (fd_chunks d)"
  have len: "fd_buffered d = length ?b" using "1.prems" by (simp add: fd_ok_def)
  show ?case
  proof (cases "HEADER_LENGTH \<le> length ?b \<and> HEADER_LENGTH + rf_len ?b \<le> length ?b")
    case False
    then have "fd_loop d = (d, [])"
      using peekBytes_read [OF "1.prems"] len by (subst fd_loop.simps) (auto simp: Let_def)
    then show ?thesis using "1.prems" rf_decode_stop [OF False] by simp
  next
    case True
    let ?l = "rf_len ?b"
    let ?n = "HEADER_LENGTH + ?l"
    have hb: "HEADER_LENGTH \<le> fd_buffered d" "\<not> fd_buffered d < ?n" "?n \<le> fd_buffered d" using True len by auto
    have peek: "read32 (peekBytes HEADER_LENGTH d) 9 = ?l" using peekBytes_read [OF "1.prems" hb(1)] .
    have n0: "0 < ?n" by (simp add: HEADER_LENGTH_def)
    note step = rf_decode_step [OF conjunct1 [OF True] conjunct2 [OF True]]
    note emit = rf_emit_take [OF conjunct2 [OF True]]
    show ?thesis
    proof (cases "?l > MAX_MESSAGE_SIZE")
      case big: True
      note ds = discardBytes_spec [OF "1.prems", of ?n]
      have eq: "fd_loop d = (fst (fd_loop (discardBytes ?n d)), FrameTooLarge ?l # snd (fd_loop (discardBytes ?n d)))"
        using hb big by (subst fd_loop.simps) (simp add: peek Let_def)
      have "\<not> fd_buffered d < HEADER_LENGTH + read32 (peekBytes HEADER_LENGTH d) 9"
        "read32 (peekBytes HEADER_LENGTH d) 9 > MAX_MESSAGE_SIZE"
        using hb(2) big unfolding peek by auto
      note IH = "1.IH"(1) [OF hb(1) refl refl this, unfolded peek, OF ds(2)]
      show ?thesis unfolding eq step emit using IH big ds(1) by simp
    next
      case small: False
      note ts = takeBytes_spec [OF "1.prems" n0 hb(3)]
      have sl: "slice HEADER_LENGTH ?n (take ?n ?b) = slice HEADER_LENGTH ?n ?b"
        by (simp add: slice_def drop_take)
      have eq: "fd_loop d = (fst (fd_loop (snd (takeBytes ?n d))),
          DecodedFrame (take ?n ?b ! 0) (read32 (take ?n ?b) 1) (read32 (take ?n ?b) 5) (slice HEADER_LENGTH ?n ?b)
            # snd (fd_loop (snd (takeBytes ?n d))))"
        using hb small by (subst fd_loop.simps) (simp add: peek Let_def ts(1) sl)
      have "\<not> fd_buffered d < HEADER_LENGTH + read32 (peekBytes HEADER_LENGTH d) 9"
        "\<not> read32 (peekBytes HEADER_LENGTH d) 9 > MAX_MESSAGE_SIZE"
        using hb(2) small unfolding peek by auto
      note IH = "1.IH"(2) [OF hb(1) refl refl this refl refl, unfolded peek, OF ts(3)]
      show ?thesis unfolding eq step emit using IH small ts(2) by simp
    qed
  qed
qed

lemma fd_feed_refines:
  assumes "fd_ok d"
  shows "fd_ok (fst (fd_feed c d)) \<and>
     concat (fd_chunks (fst (fd_feed c d))) = fst (rf_decode (concat (fd_chunks d) @ c)) \<and>
     snd (fd_feed c d) = snd (rf_decode (concat (fd_chunks d) @ c))"
proof (cases "c = []")
  case True
  then show ?thesis using fd_loop_refines [OF assms] by (simp add: fd_feed_def)
next
  case False
  let ?d = "d\<lparr>fd_chunks := fd_chunks d @ [c], fd_buffered := fd_buffered d + length c\<rparr>"
  have "fd_ok ?d" using assms False by (auto simp: fd_ok_def)
  from fd_loop_refines [OF this] False show ?thesis by (simp add: fd_feed_def)
qed

lemma fd_feed_all_refines:
  assumes "fd_ok d" "rf_decode (concat (fd_chunks d)) = (concat (fd_chunks d), [])"
  shows "fd_ok (fst (feed_all fd_feed cs d)) \<and>
     concat (fd_chunks (fst (feed_all fd_feed cs d))) = fst (rf_decode (concat (fd_chunks d) @ concat cs)) \<and>
     snd (feed_all fd_feed cs d) = snd (rf_decode (concat (fd_chunks d) @ concat cs))"
  using assms
proof (induction cs arbitrary: d)
  case (Cons c cs)
  let ?d = "fst (fd_feed c d)"
  note f = fd_feed_refines [OF Cons.prems(1), of c]
  have "rf_decode (concat (fd_chunks ?d)) = (concat (fd_chunks ?d), [])"
    using f rf.loop_residue unfolding rf_decode_def by metis
  note IH = Cons.IH [OF conjunct1 [OF f] this]
  have app: "rf_decode (concat (fd_chunks d) @ c @ concat cs) =
      (fst (rf_decode (fst (rf_decode (concat (fd_chunks d) @ c)) @ concat cs)),
       snd (rf_decode (concat (fd_chunks d) @ c)) @ snd (rf_decode (fst (rf_decode (concat (fd_chunks d) @ c)) @ concat cs)))"
    using rf.loop_append [of "concat (fd_chunks d) @ c" "concat cs"] unfolding rf_decode_def by simp
  show ?case using IH f app by (simp add: Let_def case_prod_unfold)
qed simp

lemma fd_init_ok: "fd_ok fd_init" "rf_decode (concat (fd_chunks fd_init)) = (concat (fd_chunks fd_init), [])"
proof -
  have "\<not> HEADER_LENGTH \<le> length []" by (simp add: HEADER_LENGTH_def)
  then show "rf_decode (concat (fd_chunks fd_init)) = (concat (fd_chunks fd_init), [])"
    by (simp add: fd_init_def rf_decode_stop)
qed (simp add: fd_ok_def fd_init_def)

lemma fd_drain_concat: "fd_ok d \<Longrightarrow> fst (fd_drain d) = concat (fd_chunks d)"
  by (auto simp: fd_drain_def fd_ok_def split: list.split)

text \<open>
  C5: the copy-avoiding decoder is the simple one.  Whatever chunks arrive, it reports the frames and the
  oversized-frame errors that decoding the whole stream from one flat buffer gives, and what it hands over
  when it is drained is exactly the bytes not consumed.
\<close>

theorem decoder_refines_flat_buffer:
  "(fst (fd_drain (fst (feed_all fd_feed chunks fd_init))), snd (feed_all fd_feed chunks fd_init)) =
     frame_loop HEADER_LENGTH rf_len rf_emit (concat chunks)"
  using fd_feed_all_refines [OF fd_init_ok, of chunks]
  by (simp add: fd_drain_concat rf_decode_def fd_init_def prod_eq_iff)

text \<open>What a sent frame is at the other side.\<close>

fun expected_frame :: "nat \<times> nat \<times> nat \<times> bytes \<Rightarrow> decoded" where
  "expected_frame (ty, i, ack, payload) =
     (if length payload > MAX_MESSAGE_SIZE then FrameTooLarge (length payload)
      else DecodedFrame (of_nat ty) i ack payload)"

lemma encodeFrame_decodes:
  assumes "encodeFrame ty i ack p = Some f"
  shows "HEADER_LENGTH \<le> length f \<and> length f = HEADER_LENGTH + rf_len f \<and> rf_emit f = expected_frame (ty, i, ack, p)"
proof -
  have f: "f = [of_nat ty] @ be32 i @ be32 ack @ be32 (length p) @ p"
    and lt: "i < 2 ^ 32" "ack < 2 ^ 32" "length p < 2 ^ 32"
    using assms by (auto simp: encodeFrame_def split: if_splits)
  have 1: "read32 f 1 = i" unfolding f by (rule read32_be32) (use lt in auto)
  have 2: "read32 (([of_nat ty] @ be32 i) @ be32 ack @ be32 (length p) @ p) 5 = ack"
    by (rule read32_be32) (use lt in auto)
  have 3: "read32 (([of_nat ty] @ be32 i @ be32 ack) @ be32 (length p) @ p) 9 = length p"
    by (rule read32_be32) (use lt in auto)
  have h: "drop HEADER_LENGTH f = p" "length f = HEADER_LENGTH + length p" "f ! 0 = of_nat ty"
    by (simp_all add: f HEADER_LENGTH_def be32_def)
  show ?thesis
    using 1 2 3 h by (simp add: rf_emit_def rf_len_def) (simp add: f)
qed

lemma relay_frames_core:
  assumes "list_all2 (\<lambda>(ty, i, ack, p) f. encodeFrame ty i ack p = Some f) msgs frames"
    and "concat chunks = concat frames"
  shows "feed_all fd_feed chunks fd_init = (fd_init, map expected_frame msgs)"
proof -
  have fr: "list_all (\<lambda>f. HEADER_LENGTH \<le> length f \<and> length f = HEADER_LENGTH + rf_len f) frames"
    and em: "map rf_emit frames = map expected_frame msgs"
    using assms(1) by (induction rule: list_all2_induct) (auto simp: encodeFrame_decodes simp del: expected_frame.simps)
  have dec: "rf_decode (concat chunks) = ([], map expected_frame msgs)"
    unfolding rf_decode_def assms(2) rf.loop_frames [OF fr] em ..
  obtain d out where r: "feed_all fd_feed chunks fd_init = (d, out)" by fastforce
  have "fd_ok d" "concat (fd_chunks d) = []" "out = map expected_frame msgs"
    using fd_feed_all_refines [OF fd_init_ok, of chunks] dec r by (simp_all add: fd_init_def)
  then have "fd_chunks d = []" "fd_buffered d = 0" "out = map expected_frame msgs"
    by (cases "fd_chunks d"; auto simp: fd_ok_def)+
  then show ?thesis using r by (simp add: fd_init_def)
qed

text \<open>
  Frames survive the wire.  The receiver reports every frame sent, with its type, ids and payload, in
  order and for every way of cutting the bytes; a frame over the size limit is reported as such and does
  not disturb its neighbours; nothing is left over.
\<close>

theorem relay_frames_roundtrip:
  assumes "list_all2 (\<lambda>(ty, i, ack, p) f. encodeFrame ty i ack p = Some f) msgs frames"
    and "concat chunks = concat frames"
  shows "feed_all fd_feed chunks fd_init = (fd_init, map expected_frame msgs)"
  using assms by (rule relay_frames_core)

theorem relay_frames_roundtrip_witness:
  "feed_all fd_feed [[1, 0, 0], [0, 2, 0, 0, 0, 1], [0, 0, 0, 2, 7], [8]] fd_init =
     (fd_init, [DecodedFrame 1 2 1 [7, 8]])"
proof -
  have 1: "list_all2 (\<lambda>(ty, i, ack, p) f. encodeFrame ty i ack p = Some f)
      [(1, 2, 1, [7, 8])] [[1, 0, 0, 0, 2, 0, 0, 0, 1, 0, 0, 0, 2, 7, 8]]"
    by (simp add: encodeFrame_def be32_def)
  have 2: "concat [[1, 0, 0], [0, 2, 0, 0, 0, 1], [0, 0, 0, 2, 7], [8]] =
      concat [[1, 0, 0, 0, 2, 0, 0, 0, 1, 0, 0, 0, 2, 7, 8 :: 8 word]]" by simp
  show ?thesis using relay_frames_roundtrip [OF 1 2] by (simp add: MAX_MESSAGE_SIZE_def)
qed

end
