(* ===== verification/Stream_Split.thy ===== *)
theory Stream_Split
  imports Ndjson
begin

text \<open>
  Splitting of terminal output into protocol lines, \<open>src/main/daemon/daemon-stream-data-split.ts\<close>.
  Indexes count code units; a socket is the list of texts written to it.
\<close>

text \<open>The decimal text of a number.\<close>

fun nat_text :: "nat \<Rightarrow> jsstr" where
  "nat_text n = (if n < 10 then [of_nat (48 + n)] else nat_text (n div 10) @ [of_nat (48 + n mod 10)])"

declare nat_text.simps [simp del]

definition data_event :: "jsstr \<Rightarrow> jsstr \<Rightarrow> nat option \<Rightarrow> json" where
  "data_event sessionId data sequenceChars =
     JObj [(js ''type'', JStr (js ''event'')), (js ''event'', JStr (js ''data'')), (js ''sessionId'', JStr sessionId),
       (js ''payload'', JObj ((js ''data'', JStr data) #
          (case sequenceChars of None \<Rightarrow> [] | Some n \<Rightarrow> [(js ''sequenceChars'', JNum (nat_text n))])))]"

definition encodeStreamDataEvent :: "jsstr \<Rightarrow> jsstr \<Rightarrow> nat option \<Rightarrow> jsstr" where
  "encodeStreamDataEvent sessionId data sequenceChars = encodeNdjson (data_event sessionId data sequenceChars)"

definition streamDataEventLineBytes :: "jsstr \<Rightarrow> jsstr \<Rightarrow> nat option \<Rightarrow> nat" where
  "streamDataEventLineBytes sessionId data sequenceChars =
     byte_length (encodeStreamDataEvent sessionId data sequenceChars)"

definition clampToSafeSplitIndex :: "jsstr \<Rightarrow> nat \<Rightarrow> nat \<Rightarrow> nat" where
  "clampToSafeSplitIndex value start e =
     (if e \<le> start \<or> e \<ge> length value then e
      else if is_high_surrogate (value ! (e - 1)) \<and> is_low_surrogate (value ! e) then e - 1 else e)"

definition nextSafeSplitIndex :: "jsstr \<Rightarrow> nat \<Rightarrow> nat" where
  "nextSafeSplitIndex value start =
     (let next = min (length value) (start + 1)
      in if next < length value \<and> is_high_surrogate (value ! start) \<and> is_low_surrogate (value ! next)
         then next + 1 else next)"

text \<open>The binary search for the end of a chunk; \<open>fits\<close> is the test of the line's size.\<close>

function chunk_search :: "(jsstr \<Rightarrow> bool) \<Rightarrow> jsstr \<Rightarrow> nat \<Rightarrow> nat \<Rightarrow> nat \<Rightarrow> nat \<Rightarrow> nat" where
  "chunk_search fits data start low high best =
     (if low \<le> high
      then (let rawMid = (low + high) div 2; mid = clampToSafeSplitIndex data start rawMid
            in if mid \<le> start then chunk_search fits data start (rawMid + 1) high best
               else if fits (slice start mid data) then chunk_search fits data start (rawMid + 1) high mid
               else if rawMid = 0 then best
               else chunk_search fits data start low (rawMid - 1) best)
      else best)"
  by pat_completeness auto
termination
  by (relation "measure (\<lambda>(_, _, _, low, high, _). Suc high - low)") (auto; arith)+

declare chunk_search.simps [simp del]

definition chunk_end :: "(jsstr \<Rightarrow> bool) \<Rightarrow> jsstr \<Rightarrow> nat \<Rightarrow> nat" where
  "chunk_end fits data start =
     (let best = chunk_search fits data start (start + 1) (length data) start
      in if best > start then best else nextSafeSplitIndex data start)"

lemma chunk_end_gt: "start < length data \<Longrightarrow> start < chunk_end fits data start"
  by (simp add: chunk_end_def nextSafeSplitIndex_def Let_def)

function split_loop :: "(jsstr \<Rightarrow> bool) \<Rightarrow> jsstr \<Rightarrow> nat \<Rightarrow> jsstr list" where
  "split_loop fits data start =
     (if start < length data
      then slice start (chunk_end fits data start) data # split_loop fits data (chunk_end fits data start)
      else [])"
  by pat_completeness auto
termination
  by (relation "measure (\<lambda>(_, data, start). length data - start)") (auto intro: diff_less_mono2 chunk_end_gt)

declare split_loop.simps [simp del]

definition splitStreamDataForNdjson :: "jsstr \<Rightarrow> jsstr \<Rightarrow> nat \<Rightarrow> nat option \<Rightarrow> jsstr list" where
  "splitStreamDataForNdjson sessionId data maxLineBytes sequenceChars =
     (if streamDataEventLineBytes sessionId data sequenceChars \<le> maxLineBytes then [data]
      else split_loop (\<lambda>d. streamDataEventLineBytes sessionId d sequenceChars \<le> maxLineBytes) data 0)"

text \<open>The texts \<open>writeStreamDataEvents\<close> writes to the socket.\<close>

definition writeStreamDataEvents :: "jsstr \<Rightarrow> jsstr \<Rightarrow> nat \<Rightarrow> nat \<Rightarrow> jsstr list" where
  "writeStreamDataEvents sessionId data maxLineBytes sequenceChars =
     (let explicit = (if sequenceChars = length data then None else Some sequenceChars)
      in map (\<lambda>chunk. encodeStreamDataEvent sessionId chunk explicit)
           (splitStreamDataForNdjson sessionId data maxLineBytes explicit))"

subsection \<open>Safe indexes\<close>

lemma not_both_surrogates: "\<not> (is_high_surrogate c \<and> is_low_surrogate c)"
  by (auto simp: is_high_surrogate_def is_low_surrogate_def word_le_nat_alt)

lemma clamp_safe:
  assumes "start < clampToSafeSplitIndex d start e"
  shows "\<not> splits_pair d (clampToSafeSplitIndex d start e)"
  using assms not_both_surrogates [of "d ! (e - 1)"]
  by (auto simp: clampToSafeSplitIndex_def splits_pair_def split: if_splits)

lemma next_safe: "start < length d \<Longrightarrow> \<not> splits_pair d (nextSafeSplitIndex d start)"
  using not_both_surrogates [of "d ! Suc start"]
  by (auto simp: nextSafeSplitIndex_def splits_pair_def Let_def min_def split: if_splits)

lemma clamp_le: "clampToSafeSplitIndex d start e \<le> e"
  by (simp add: clampToSafeSplitIndex_def)

lemma chunk_search_spec:
  assumes "high \<le> length d"
    and "best = start \<or> start < best \<and> best \<le> length d \<and> \<not> splits_pair d best \<and> fits (slice start best d)"
  shows "chunk_search fits d start low high best = start \<or>
    start < chunk_search fits d start low high best \<and> chunk_search fits d start low high best \<le> length d \<and>
    \<not> splits_pair d (chunk_search fits d start low high best) \<and>
    fits (slice start (chunk_search fits d start low high best) d)"
  using assms
proof (induction fits d start low high best rule: chunk_search.induct)
  case (1 fits d start low high best)
  show ?case
  proof (cases "low \<le> high")
    case True
    let ?raw = "(low + high) div 2"
    let ?mid = "clampToSafeSplitIndex d start ?raw"
    have raw: "?raw \<le> length d" using True "1.prems"(1) by linarith
    have mid: "?mid \<le> length d" using clamp_le raw by (rule order_trans)
    show ?thesis
    proof (cases "?mid \<le> start")
      case skip: True
      have "chunk_search fits d start low high best = chunk_search fits d start (?raw + 1) high best"
        using True skip by (subst chunk_search.simps) (simp add: Let_def)
      then show ?thesis using "1.IH"(1) [OF True refl refl skip "1.prems"] by simp
    next
      case F: False
      show ?thesis
      proof (cases "fits (slice start ?mid d)")
        case fit: True
        have "chunk_search fits d start low high best = chunk_search fits d start (?raw + 1) high ?mid"
          using True F fit by (subst chunk_search.simps) (simp add: Let_def)
        moreover have "?mid = start \<or> start < ?mid \<and> ?mid \<le> length d \<and> \<not> splits_pair d ?mid \<and> fits (slice start ?mid d)"
          using F fit mid clamp_safe by auto
        ultimately show ?thesis using "1.IH"(2) [OF True refl refl F fit "1.prems"(1)] by simp
      next
        case nofit: False
        show ?thesis
        proof (cases "?raw = 0")
          case z: True
          then have "chunk_search fits d start low high best = best"
            using True F nofit by (subst chunk_search.simps) (simp add: Let_def)
          then show ?thesis using "1.prems"(2) by simp
        next
          case nz: False
          have "chunk_search fits d start low high best = chunk_search fits d start low (?raw - 1) best"
            using True F nofit nz by (subst chunk_search.simps) (simp add: Let_def)
          moreover have "?raw - 1 \<le> length d" using raw by simp
          ultimately show ?thesis using "1.IH"(3) [OF True refl refl F nofit nz _ "1.prems"(2)] by simp
        qed
      qed
    qed
  next
    case False
    then have "chunk_search fits d start low high best = best" by (subst chunk_search.simps) simp
    then show ?thesis using "1.prems"(2) by simp
  qed
qed

lemma chunk_end_spec:
  assumes "start < length d"
  shows "start < chunk_end fits d start" "chunk_end fits d start \<le> length d"
    "\<not> splits_pair d (chunk_end fits d start)"
    "fits (slice start (chunk_end fits d start) d) \<or> chunk_end fits d start = nextSafeSplitIndex d start"
proof -
  let ?b = "chunk_search fits d start (start + 1) (length d) start"
  have b: "?b = start \<or> start < ?b \<and> ?b \<le> length d \<and> \<not> splits_pair d ?b \<and> fits (slice start ?b d)"
    by (rule chunk_search_spec) auto
  have n: "nextSafeSplitIndex d start \<le> length d"
    using assms by (simp add: nextSafeSplitIndex_def Let_def)
  show "start < chunk_end fits d start" using assms by (rule chunk_end_gt)
  show "chunk_end fits d start \<le> length d" "\<not> splits_pair d (chunk_end fits d start)"
    "fits (slice start (chunk_end fits d start) d) \<or> chunk_end fits d start = nextSafeSplitIndex d start"
    using b n next_safe [OF assms] by (auto simp: chunk_end_def Let_def)
qed

text \<open>A character at the start of \<open>s\<close>: one code unit, or a surrogate pair.\<close>

definition one_character :: "jsstr \<Rightarrow> bool" where
  "one_character s \<longleftrightarrow> length s = 1 \<or> (length s = 2 \<and> is_high_surrogate (s ! 0) \<and> is_low_surrogate (s ! 1))"

lemma next_one_character: "start < length d \<Longrightarrow> one_character (slice start (nextSafeSplitIndex d start) d)"
  by (auto simp: one_character_def slice_def nextSafeSplitIndex_def Let_def min_def)

text \<open>Chunks that join to the data, cut between characters, each with a property.\<close>

lemma split_loop_spec:
  assumes "start \<le> length d" "\<not> splits_pair d start"
    and "\<And>c. fits c \<Longrightarrow> P c" "\<And>c. one_character c \<Longrightarrow> P c"
  shows "concat (split_loop fits d start) = drop start d \<and> list_all P (split_loop fits d start) \<and>
     cuts between_characters (split_loop fits d start)"
  using assms
proof (induction fits d start rule: split_loop.induct)
  case (1 fits d start)
  show ?case
  proof (cases "start < length d")
    case True
    let ?e = "chunk_end fits d start"
    note e = chunk_end_spec [OF True, of fits]
    have eq: "split_loop fits d start = slice start ?e d # split_loop fits d ?e"
      using True by (subst split_loop.simps) simp
    have IH: "concat (split_loop fits d ?e) = drop ?e d \<and> list_all P (split_loop fits d ?e) \<and>
        cuts between_characters (split_loop fits d ?e)"
      using "1.IH" [OF True e(2,3) "1.prems"(3,4)] .
    have join: "slice start ?e d @ drop ?e d = drop start d"
      using e(1,2) by (simp add: slice_def) (metis append_take_drop_id drop_drop le_add_diff_inverse2 less_imp_le)
    have "P (slice start ?e d)"
      using e(4) "1.prems"(3,4) next_one_character [OF True] by metis
    moreover have "between_characters (slice start ?e d) (drop ?e d)"
    proof (cases "?e < length d")
      case lt: True
      have ne: "slice start ?e d \<noteq> []" using e(1,2) by (simp add: slice_def)
      have "last (slice start ?e d) = d ! (?e - 1)"
        using e(1,2) ne by (simp add: last_conv_nth slice_def)
      moreover have "hd (drop ?e d) = d ! ?e" using lt by (rule hd_drop_conv_nth)
      ultimately show ?thesis
        using e(1,3) lt by (auto simp: between_characters_def pair_across_def splits_pair_def)
    qed (simp add: between_characters_def pair_across_def)
    ultimately show ?thesis unfolding eq using IH join by simp
  next
    case False
    then have "split_loop fits d start = []" by (subst split_loop.simps) simp
    then show ?thesis using False by simp
  qed
qed

lemma split_spec:
  assumes "\<And>c. streamDataEventLineBytes sid c sq \<le> m \<Longrightarrow> P c" "\<And>c. one_character c \<Longrightarrow> P c"
  shows "concat (splitStreamDataForNdjson sid d m sq) = d \<and> list_all P (splitStreamDataForNdjson sid d m sq) \<and>
     cuts between_characters (splitStreamDataForNdjson sid d m sq)"
proof (cases "streamDataEventLineBytes sid d sq \<le> m")
  case True
  then show ?thesis using assms(1) [OF True]
    by (simp add: splitStreamDataForNdjson_def between_characters_def pair_across_def)
next
  case False
  then show ?thesis
    using split_loop_spec [of 0 d "\<lambda>d. streamDataEventLineBytes sid d sq \<le> m" P] assms
    by (simp add: splitStreamDataForNdjson_def splits_pair_def)
qed

text \<open>
  Splitting output into lines loses nothing and cuts no character: the chunks join to the data, no
  surrogate pair is torn apart, and every chunk's line is within the limit unless the chunk is a single
  character, which cannot be made smaller.
\<close>

theorem split_chunks_fit:
  "concat (splitStreamDataForNdjson sid d m sq) = d \<and>
   list_all (\<lambda>c. streamDataEventLineBytes sid c sq \<le> m \<or> one_character c) (splitStreamDataForNdjson sid d m sq) \<and>
   cuts between_characters (splitStreamDataForNdjson sid d m sq)"
  by (rule split_spec) simp_all

subsection \<open>From one end to the other\<close>

lemma is_digit_of_nat: "n < 10 \<Longrightarrow> is_digit (of_nat (48 + n))"
proof -
  assume n: "n < 10"
  then have "unat (of_nat (48 + n) :: jschar) = 48 + n" by (subst unat_of_nat) (simp add: take_bit_eq_mod)
  with n show ?thesis by (simp add: is_digit_def word_le_nat_alt)
qed

lemma of_nat_digit_zero: "n < 10 \<Longrightarrow> of_nat (48 + n) = (48 :: jschar) \<longleftrightarrow> n = 0"
proof -
  assume n: "n < 10"
  then have "unat (of_nat (48 + n) :: jschar) = 48 + n" by (subst unat_of_nat) (simp add: take_bit_eq_mod)
  moreover have "unat (48 :: jschar) = 48" by simp
  ultimately show ?thesis unfolding word_unat_eq_iff by simp
qed

lemma nat_text_digits:
  "list_all is_digit (nat_text n) \<and> nat_text n \<noteq> [] \<and> (hd (nat_text n) = 48 \<longrightarrow> n = 0)"
proof (induction n rule: nat_text.induct)
  case (1 n)
  show ?case
  proof (cases "n < 10")
    case True
    then show ?thesis
      using is_digit_of_nat [OF True] of_nat_digit_zero [OF True] by (subst (1 2 3) nat_text.simps) simp
  next
    case False
    have "n mod 10 < 10" by simp
    from is_digit_of_nat [OF this] show ?thesis
      using False "1.IH" by (subst (1 2 3) nat_text.simps) auto
  qed
qed

lemma takeWhile_all: "list_all p s \<Longrightarrow> takeWhile p s = s \<and> dropWhile p s = []"
  by (induction s) auto

lemma nat_text_ok: "valid_num (nat_text n) \<and> list_all num_char (nat_text n)"
proof -
  note d = nat_text_digits [of n]
  have "\<not> is_digit 45" by (simp add: is_digit_def)
  then have "hd (nat_text n) \<noteq> 45" using d by (cases "nat_text n") auto
  moreover have "hd (nat_text n) = 48 \<Longrightarrow> length (nat_text n) = 1"
    using d by (subst nat_text.simps) simp
  moreover obtain c r where cr: "nat_text n = c # r" using d by (cases "nat_text n") auto
  ultimately have "valid_num (nat_text n)"
    unfolding cr
    by (simp add: takeWhile_all [OF conjunct1 [OF d], unfolded cr] valid_num_def Let_def
        del: takeWhile.simps dropWhile.simps) (simp add: is_digit_def)
  moreover have "list_all num_char (nat_text n)" using d by (auto simp: list_all_iff num_char_def)
  ultimately show ?thesis ..
qed

lemma data_event_ok: "json_ok (data_event sid d sq)"
  by (simp add: data_event_def js_eval nat_text_ok split: option.split)

definition fits_line :: "jsstr \<Rightarrow> nat \<Rightarrow> nat option \<Rightarrow> jsstr \<Rightarrow> bool" where
  "fits_line sid m sq c \<longleftrightarrow> streamDataEventLineBytes sid c sq \<le> m"

text \<open>
  What a session writes is what the other side reads.  Feeding the text written for one piece of output
  to the line parser, in any pieces cut between characters, yields data events whose payloads join to exactly
  that output, provided the limit leaves room for one character.
\<close>

theorem stream_data_end_to_end:
  assumes "concat chunks = concat (writeStreamDataEvents sid d m n)"
    and "cuts between_characters chunks"
    and "\<And>c. one_character c \<Longrightarrow> fits_line sid m (if n = length d then None else Some n) c"
  shows "\<exists>ds. concat ds = d \<and> feed_all (nd_feed m) chunks nd_init =
    (nd_init, map (\<lambda>c. NdMessage (data_event sid c (if n = length d then None else Some n))) ds)"
proof -
  let ?sq = "if n = length d then None else Some n"
  let ?ds = "splitStreamDataForNdjson sid d m ?sq"
  let ?vs = "map (\<lambda>c. data_event sid c ?sq) ?ds"
  have "concat ?ds = d \<and> list_all (fits_line sid m ?sq) ?ds \<and> cuts between_characters ?ds"
    by (rule split_spec) (use assms(3) in \<open>auto simp: fits_line_def\<close>)
  then have split: "concat ?ds = d" "list_all (fits_line sid m ?sq) ?ds" by blast+
  have w: "concat chunks = concat (map encodeNdjson ?vs)"
    using assms(1) by (simp add: writeStreamDataEvents_def Let_def encodeStreamDataEvent_def comp_def)
  have ok: "list_all json_ok ?vs" by (simp add: list_all_iff data_event_ok)
  have bl: "byte_length (json_stringify v) \<le> byte_length (encodeNdjson v)" for v
    unfolding encodeNdjson_def by (subst byte_length_append) (simp_all add: pair_across_def is_low_surrogate_def)
  have sz: "list_all (\<lambda>v. byte_length (json_stringify v) \<le> m) ?vs"
    using split(2) unfolding list_all_iff fits_line_def streamDataEventLineBytes_def encodeStreamDataEvent_def
    by (auto intro: order_trans [OF bl])
  have "feed_all (nd_feed m) chunks nd_init = (nd_init, map NdMessage ?vs)"
    using nd_feed_encoded [OF ok sz] nd_lossless [OF ok sz w assms(2)] by simp
  then show ?thesis using split(1) by (intro exI [of _ ?ds]) (simp add: comp_def)
qed

lemma byte_length_le: "byte_length s \<le> 3 * length s"
proof (induction s rule: byte_length.induct)
  case (2 c s)
  show ?case
  proof (cases "is_high_surrogate c \<and> s \<noteq> [] \<and> is_low_surrogate (hd s)")
    case True
    then show ?thesis using 2(1) by (cases s) auto
  next
    case False
    then show ?thesis using 2(2) by (auto simp: unit_bytes_def)
  qed
qed simp

lemma length_escape: "length (escape_str s) \<le> 6 * length s"
proof (induction s rule: escape_str.induct)
  case (2 c s)
  have "length (escape_char c) \<le> 6" by (simp add: escape_char_def hex4_def)
  then show ?case using 2 by (cases s) (auto simp: hex4_def)
qed simp

text \<open>An empty session name and 400 bytes leave room for every character.\<close>

lemma room_400: "one_character c \<Longrightarrow> fits_line [] 400 None c"
proof -
  assume "one_character c"
  then have "length c \<le> 2" by (auto simp: one_character_def)
  then have "length (escape_str c) \<le> 12" using length_escape [of c] by linarith
  then have "length (encodeStreamDataEvent [] c None) \<le> 130"
    by (simp add: encodeStreamDataEvent_def encodeNdjson_def data_event_def quote_str_def js_eval
        is_high_surrogate_def is_low_surrogate_def escape_char_def)
  then show ?thesis
    using byte_length_le [of "encodeStreamDataEvent [] c None"]
    by (simp add: fits_line_def streamDataEventLineBytes_def)
qed

theorem stream_data_end_to_end_witness:
  "\<exists>ds. concat ds = [65, 66] \<and> feed_all (nd_feed 400) (writeStreamDataEvents [] [65, 66] 400 2) nd_init =
    (nd_init, map (\<lambda>c. NdMessage (data_event [] c None)) ds)"
proof -
  have 1: "concat (writeStreamDataEvents [] [65, 66] 400 2) = concat (writeStreamDataEvents [] [65, 66] 400 2)" ..
  have e: "pair_across (encodeNdjson v) r = False" for v r
    by (simp add: pair_across_def encodeNdjson_def is_high_surrogate_def)
  have "cuts between_characters (map encodeNdjson vs)" for vs
    by (induction vs) (simp_all add: between_characters_def e)
  from this [of "map (\<lambda>c. data_event [] c None) (splitStreamDataForNdjson [] [65, 66] 400 None)"]
  have 2: "cuts between_characters (writeStreamDataEvents [] [65, 66] 400 2)"
    by (simp add: writeStreamDataEvents_def encodeStreamDataEvent_def comp_def)
  have sq: "(if 2 = length [65, 66 :: jschar] then None else Some 2) = None" by simp
  have 3: "one_character c \<Longrightarrow> fits_line [] 400 (if 2 = length [65, 66 :: jschar] then None else Some 2) c" for c
    unfolding sq by (rule room_400)
  show ?thesis using stream_data_end_to_end [OF 1 2 3] unfolding sq .
qed

end
