(* ===== verification/Stream_Keep_Tail.thy ===== *)
theory Stream_Keep_Tail
  imports Stream_Split
begin

text \<open>
  Keep-tail thinning of background sessions' queued output,
  \<open>src/main/daemon/daemon-stream-keep-tail-drop.ts\<close>.  The queue of a client holds data entries and control
  entries; dropping the oldest data of a session leaves a gap event in its place.  Character counts are
  integers as in the source, where nothing keeps them from going below zero.  The diagnostics
  event is left out; the query salvage is a parameter.
\<close>

text \<open>A gap event carries the characters dropped and, optionally, the stream positions they stood for.\<close>

datatype control = DataGap int "int option" | OtherControl json

record stream_entry =
  se_session :: jsstr
  se_data :: jsstr
  se_seq :: "int option"
  se_control :: "control option"

record stream_batch =
  sb_timer :: bool
  sb_queue :: "stream_entry list"
  sb_chars :: int
  sb_by_session :: "(jsstr \<times> int) list"
  sb_last_droppable :: "nat option"

definition BACKGROUND_SESSION_KEEP_TAIL_CHARS :: nat where
  "BACKGROUND_SESSION_KEEP_TAIL_CHARS = 512 * 1024"

definition BACKGROUND_SESSION_MIN_KEEP_TAIL_CHARS :: nat where
  "BACKGROUND_SESSION_MIN_KEEP_TAIL_CHARS = 64 * 1024"

definition BACKGROUND_GLOBAL_KEEP_BUDGET_CHARS :: nat where
  "BACKGROUND_GLOBAL_KEEP_BUDGET_CHARS = 2 * 1024 * 1024"

definition backgroundSessionKeepTailChars :: "nat \<Rightarrow> nat" where
  "backgroundSessionKeepTailChars n =
     min BACKGROUND_SESSION_KEEP_TAIL_CHARS
       (max BACKGROUND_SESSION_MIN_KEEP_TAIL_CHARS (BACKGROUND_GLOBAL_KEEP_BUDGET_CHARS div max 1 n))"

definition backgroundSessionDropCapChars :: "nat \<Rightarrow> nat" where
  "backgroundSessionDropCapChars n = backgroundSessionKeepTailChars n * 2"

definition DROPPED_QUERY_SALVAGE_MAX_CHARS :: nat where
  "DROPPED_QUERY_SALVAGE_MAX_CHARS = 4096"

definition queued_for :: "stream_batch \<Rightarrow> jsstr \<Rightarrow> int" where
  "queued_for b sid = (case map_get (sb_by_session b) sid of None \<Rightarrow> 0 | Some n \<Rightarrow> n)"

text \<open>\<open>entry.sequenceChars ?? entry.data.length\<close>\<close>

definition seq_chars :: "stream_entry \<Rightarrow> int" where
  "seq_chars e = (case se_seq e of None \<Rightarrow> int (length (se_data e)) | Some n \<Rightarrow> n)"

definition salvageIntoCap :: "(jsstr \<Rightarrow> jsstr) \<Rightarrow> jsstr \<Rightarrow> jsstr \<Rightarrow> jsstr" where
  "salvageIntoCap salvage salvaged dropped =
     (if length salvaged \<ge> DROPPED_QUERY_SALVAGE_MAX_CHARS then salvaged
      else take DROPPED_QUERY_SALVAGE_MAX_CHARS (salvaged @ salvage dropped))"

text \<open>The variables of the drop loop; \<open>dr_done\<close> is the queue up to the loop index.\<close>

record drop_state =
  dr_done :: "stream_entry list"
  dr_left :: int
  dr_seq :: int
  dr_salvaged :: jsstr
  dr_gap :: "nat option"
  dr_insert :: "nat option"

definition trim_entry :: "nat \<Rightarrow> stream_entry \<Rightarrow> stream_entry" where
  "trim_entry n e =
     (let cutSeq = (if seq_chars e = 0 then 0 else int n); rest = drop n (se_data e);
          remaining = seq_chars e - cutSeq
      in e\<lparr>se_data := rest, se_seq := (if remaining = int (length rest) then None else Some remaining)\<rparr>)"

definition first_index :: "nat option \<Rightarrow> nat \<Rightarrow> nat option" where
  "first_index x i = (case x of None \<Rightarrow> Some i | Some j \<Rightarrow> Some j)"

fun drop_loop :: "(jsstr \<Rightarrow> jsstr) \<Rightarrow> jsstr \<Rightarrow> stream_entry list \<Rightarrow> drop_state \<Rightarrow> drop_state" where
  "drop_loop salvage sid [] a = a"
| "drop_loop salvage sid (e # es) a =
     (if dr_left a \<le> 0 then a\<lparr>dr_done := dr_done a @ e # es\<rparr>
      else if se_session e \<noteq> sid then drop_loop salvage sid es (a\<lparr>dr_done := dr_done a @ [e]\<rparr>)
      else (case se_control e of
              Some c \<Rightarrow> drop_loop salvage sid es
                (a\<lparr>dr_done := dr_done a @ [e],
                   dr_gap := (case c of DataGap _ _ \<Rightarrow> Some (length (dr_done a)) | _ \<Rightarrow> dr_gap a)\<rparr>)
            | None \<Rightarrow>
               if int (length (se_data e)) \<le> dr_left a
               then drop_loop salvage sid es
                 (a\<lparr>dr_left := dr_left a - int (length (se_data e)), dr_seq := dr_seq a + seq_chars e,
                    dr_salvaged := salvageIntoCap salvage (dr_salvaged a) (se_data e),
                    dr_insert := first_index (dr_insert a) (length (dr_done a))\<rparr>)
               else let n = clampToSafeSplitIndex (se_data e) 0 (nat (dr_left a))
                    in if n > 0
                       then a\<lparr>dr_done := dr_done a @ trim_entry n e # es, dr_left := 0,
                              dr_seq := dr_seq a + (if seq_chars e = 0 then 0 else int n),
                              dr_salvaged := salvageIntoCap salvage (dr_salvaged a) (take n (se_data e)),
                              dr_insert := first_index (dr_insert a) (length (dr_done a))\<rparr>
                       else a\<lparr>dr_done := dr_done a @ e # es, dr_left := 0\<rparr>))"

definition grow_gap :: "int \<Rightarrow> int \<Rightarrow> stream_entry \<Rightarrow> stream_entry" where
  "grow_gap dropped sq e =
     (case se_control e of
        Some (DataGap d s) \<Rightarrow>
          e\<lparr>se_control := Some (DataGap (d + dropped) (Some ((case s of None \<Rightarrow> d | Some n \<Rightarrow> n) + sq)))\<rparr>
      | _ \<Rightarrow> e)"

definition gap_entry :: "jsstr \<Rightarrow> int \<Rightarrow> int \<Rightarrow> stream_entry" where
  "gap_entry sid dropped sq =
     \<lparr>se_session = sid, se_data = [], se_seq = None, se_control = Some (DataGap dropped (Some sq))\<rparr>"

definition start_drop :: "int \<Rightarrow> drop_state" where
  "start_drop toDrop = \<lparr>dr_done = [], dr_left = toDrop, dr_seq = 0, dr_salvaged = [], dr_gap = None, dr_insert = None\<rparr>"

definition dropOldestQueuedForSession ::
    "(jsstr \<Rightarrow> jsstr) \<Rightarrow> jsstr \<Rightarrow> int \<Rightarrow> stream_batch \<Rightarrow> stream_batch" where
  "dropOldestQueuedForSession salvage sid keepTailChars b =
     (let toDrop = queued_for b sid - keepTailChars
      in if toDrop \<le> 0 then b
         else let a = drop_loop salvage sid (sb_queue b) (start_drop toDrop);
                  dropped = toDrop - dr_left a
              in if dropped \<le> 0 then b\<lparr>sb_queue := dr_done a\<rparr>
                 else let b1 = b\<lparr>sb_chars := sb_chars b - dropped,
                                 sb_by_session := map_set sid (max 0 (queued_for b sid - dropped)) (sb_by_session b)\<rparr>;
                          q = (case dr_gap a of
                                 Some i \<Rightarrow> (dr_done a)[i := grow_gap dropped (dr_seq a) (dr_done a ! i)]
                               | None \<Rightarrow> insert_at (case dr_insert a of None \<Rightarrow> 0 | Some i \<Rightarrow> i)
                                           (gap_entry sid dropped (dr_seq a)) (dr_done a));
                          at = (case dr_gap a of Some i \<Rightarrow> i + 1
                                | None \<Rightarrow> (case dr_insert a of None \<Rightarrow> 0 | Some i \<Rightarrow> i) + 1)
                      in if dr_salvaged a = [] then b1\<lparr>sb_queue := q\<rparr>
                         else b1\<lparr>sb_queue := insert_at at \<lparr>se_session = sid, se_data = dr_salvaged a,
                                      se_seq = Some 0, se_control = None\<rparr> q,
                                 sb_chars := sb_chars b1 + int (length (dr_salvaged a)),
                                 sb_by_session := map_set sid (queued_for b1 sid + int (length (dr_salvaged a)))
                                                    (sb_by_session b1)\<rparr>)"

subsection \<open>Sums over the queue\<close>

definition positions_of :: "jsstr \<Rightarrow> stream_entry \<Rightarrow> int" where
  "positions_of sid e =
     (if se_session e \<noteq> sid then 0
      else case se_control e of
             None \<Rightarrow> seq_chars e
           | Some (DataGap d s) \<Rightarrow> (case s of None \<Rightarrow> d | Some n \<Rightarrow> n)
           | Some (OtherControl _) \<Rightarrow> 0)"

definition positions :: "jsstr \<Rightarrow> stream_entry list \<Rightarrow> int" where
  "positions sid q = sum_list (map (positions_of sid) q)"

definition chars_of :: "jsstr \<Rightarrow> stream_entry \<Rightarrow> int" where
  "chars_of sid e = (if se_session e = sid \<and> se_control e = None then int (length (se_data e)) else 0)"

definition chars :: "jsstr \<Rightarrow> stream_entry list \<Rightarrow> int" where
  "chars sid q = sum_list (map (chars_of sid) q)"

definition others :: "jsstr \<Rightarrow> stream_entry list \<Rightarrow> stream_entry list" where
  "others sid q = filter (\<lambda>e. se_session e \<noteq> sid) q"

lemmas sums_defs = positions_def chars_def others_def

lemma sums_append [simp]:
  "positions sid (q @ r) = positions sid q + positions sid r"
  "chars sid (q @ r) = chars sid q + chars sid r"
  "others sid (q @ r) = others sid q @ others sid r"
  by (simp_all add: sums_defs)

lemma sums_Cons [simp]:
  "positions sid (e # q) = positions_of sid e + positions sid q"
  "chars sid (e # q) = chars_of sid e + chars sid q"
  "others sid (e # q) = (if se_session e \<noteq> sid then e # others sid q else others sid q)"
  by (simp_all add: sums_defs)

lemma sums_Nil [simp]: "positions sid [] = 0" "chars sid [] = 0" "others sid [] = []"
  by (simp_all add: sums_defs)

lemma sums_insert_at [simp]:
  "positions sid (insert_at i e q) = positions_of sid e + positions sid q"
  "chars sid (insert_at i e q) = chars_of sid e + chars sid q"
  using sums_append(1) [of sid "take i q" "drop i q"] sums_append(2) [of sid "take i q" "drop i q"]
  by (simp_all add: insert_at_def)

lemma others_insert_at [simp]: "se_session e = sid \<Longrightarrow> others sid (insert_at i e q) = others sid q"
  using sums_append(3) [of sid "take i q" "drop i q"] by (simp add: insert_at_def)

lemma sums_update:
  assumes "i < length q"
  shows "positions sid (q[i := e]) = positions sid q - positions_of sid (q ! i) + positions_of sid e"
    and "chars sid (q[i := e]) = chars sid q - chars_of sid (q ! i) + chars_of sid e"
    and "se_session e = sid \<Longrightarrow> se_session (q ! i) = sid \<Longrightarrow> others sid (q[i := e]) = others sid q"
proof -
  have q: "q = take i q @ q ! i # drop (Suc i) q" using assms by (rule id_take_nth_drop)
  have u: "q[i := e] = take i q @ e # drop (Suc i) q" using assms by (rule upd_conv_take_nth_drop)
  show "positions sid (q[i := e]) = positions sid q - positions_of sid (q ! i) + positions_of sid e"
    unfolding u by (subst (2) q) simp
  show "chars sid (q[i := e]) = chars sid q - chars_of sid (q ! i) + chars_of sid e"
    unfolding u by (subst (2) q) simp
  show "se_session e = sid \<Longrightarrow> se_session (q ! i) = sid \<Longrightarrow> others sid (q[i := e]) = others sid q"
    unfolding u by (subst (2) q) simp
qed

subsection \<open>The drop loop\<close>

definition drop_ok :: "jsstr \<Rightarrow> drop_state \<Rightarrow> bool" where
  "drop_ok sid a \<longleftrightarrow>
     (\<forall>i. dr_gap a = Some i \<longrightarrow> i < length (dr_done a) \<and> se_session (dr_done a ! i) = sid \<and>
        (\<exists>d s. se_control (dr_done a ! i) = Some (DataGap d s))) \<and>
     0 \<le> dr_left a \<and> length (dr_salvaged a) \<le> DROPPED_QUERY_SALVAGE_MAX_CHARS"

lemma drop_ok_start: "0 \<le> n \<Longrightarrow> drop_ok sid (start_drop n)"
  by (simp add: drop_ok_def start_drop_def)

lemma salvage_cap:
  "length s \<le> DROPPED_QUERY_SALVAGE_MAX_CHARS \<Longrightarrow> length (salvageIntoCap sal s d) \<le> DROPPED_QUERY_SALVAGE_MAX_CHARS"
  unfolding salvageIntoCap_def by (simp only: length_take split: if_split) simp

lemma trim_entry_sums:
  assumes "se_session e = sid" "se_control e = None" "n \<le> length (se_data e)"
  shows "positions_of sid (trim_entry n e) = positions_of sid e - (if seq_chars e = 0 then 0 else int n)"
    and "chars_of sid (trim_entry n e) = chars_of sid e - int n"
    and "se_session (trim_entry n e) = sid"
  using assms by (auto simp: trim_entry_def Let_def positions_of_def chars_of_def seq_chars_def split: option.splits)

lemma drop_ok_upd:
  assumes "drop_ok sid a"
  shows "drop_ok sid (a\<lparr>dr_done := dr_done a @ xs\<rparr>)"
    and "0 \<le> l \<Longrightarrow> drop_ok sid (a\<lparr>dr_done := dr_done a @ xs, dr_left := l\<rparr>)"
    and "0 \<le> l \<Longrightarrow> length t \<le> DROPPED_QUERY_SALVAGE_MAX_CHARS \<Longrightarrow>
       drop_ok sid (a\<lparr>dr_left := l, dr_seq := n, dr_salvaged := t, dr_insert := j\<rparr>)"
    and "0 \<le> l \<Longrightarrow> length t \<le> DROPPED_QUERY_SALVAGE_MAX_CHARS \<Longrightarrow>
       drop_ok sid (a\<lparr>dr_done := dr_done a @ xs, dr_left := l, dr_seq := n, dr_salvaged := t, dr_insert := j\<rparr>)"
    and "se_session e = sid \<Longrightarrow> se_control e = Some c \<Longrightarrow>
       drop_ok sid (a\<lparr>dr_done := dr_done a @ [e],
         dr_gap := (case c of DataGap _ _ \<Rightarrow> Some (length (dr_done a)) | _ \<Rightarrow> dr_gap a)\<rparr>)"
  using assms by (auto simp: drop_ok_def nth_append split: control.split)

lemma drop_ok_cap: "drop_ok sid a \<Longrightarrow> length (salvageIntoCap sal (dr_salvaged a) d) \<le> DROPPED_QUERY_SALVAGE_MAX_CHARS"
  by (rule salvage_cap) (simp add: drop_ok_def)

lemma drop_loop_ok: "drop_ok sid a \<Longrightarrow> drop_ok sid (drop_loop sal sid es a)"
proof (induction es arbitrary: a)
  case (Cons e es)
  note up = drop_ok_upd [OF Cons.prems] and cap = drop_ok_cap [OF Cons.prems]
  consider "dr_left a \<le> 0" | "0 < dr_left a" "se_session e \<noteq> sid"
    | c where "0 < dr_left a" "se_session e = sid" "se_control e = Some c"
    | "0 < dr_left a" "se_session e = sid" "se_control e = None"
    by fastforce
  then show ?case
  proof cases
    case 1
    then show ?thesis using up(1) by simp
  next
    case 2
    then show ?thesis using Cons.IH [OF up(1)] by simp
  next
    case 3
    then show ?thesis using Cons.IH [OF up(5)] by simp
  next
    case 4
    then show ?thesis using Cons.IH [OF up(3)] up(2,4) cap by (simp add: Let_def)
  qed
qed simp

lemma drop_loop_positions:
  "positions sid (dr_done (drop_loop sal sid es a)) + dr_seq (drop_loop sal sid es a) =
     positions sid (dr_done a) + positions sid es + dr_seq a"
proof (induction es arbitrary: a)
  case (Cons e es)
  have clamp: "clampToSafeSplitIndex (se_data e) 0 (nat (dr_left a)) \<le> length (se_data e)"
    if "\<not> int (length (se_data e)) \<le> dr_left a"
    using that clamp_le [of "se_data e" 0 "nat (dr_left a)"] by linarith
  show ?case
  proof (cases "dr_left a \<le> 0 \<or> se_session e \<noteq> sid")
    case True
    then show ?thesis using Cons by auto
  next
    case F: False
    show ?thesis
    proof (cases "se_control e")
      case None
      then show ?thesis
        using Cons F clamp trim_entry_sums(1) [of e sid]
        by (auto simp: positions_of_def Let_def)
    qed (use Cons F in simp)
  qed
qed simp

lemma drop_loop_others:
  "others sid (dr_done (drop_loop sal sid es a)) = others sid (dr_done a) @ others sid es"
proof (induction es arbitrary: a)
  case (Cons e es)
  then show ?case
    by (auto simp: Let_def trim_entry_def split: option.split)
qed simp

lemma clamp_cases: "clampToSafeSplitIndex v 0 e = e \<or> (0 < e \<and> clampToSafeSplitIndex v 0 e = e - 1)"
  by (auto simp: clampToSafeSplitIndex_def)

lemma drop_loop_left:
  "dr_left (drop_loop sal sid es a) \<le> dr_left a \<and> (0 \<le> dr_left a \<longrightarrow> 0 \<le> dr_left (drop_loop sal sid es a))"
proof (induction es arbitrary: a)
  case (Cons e es)
  show ?case
    using Cons [of "a\<lparr>dr_done := dr_done a @ [e]\<rparr>"]
      Cons [of "a\<lparr>dr_done := dr_done a @ [e], dr_gap := gp\<rparr>" for gp]
      Cons [of "a\<lparr>dr_left := dr_left a - int (length (se_data e)), dr_seq := dr_seq a + seq_chars e,
        dr_salvaged := salvageIntoCap sal (dr_salvaged a) (se_data e),
        dr_insert := first_index (dr_insert a) (length (dr_done a))\<rparr>"]
    by (auto simp: Let_def split: option.split)
qed simp

text \<open>An entry without characters stands for no positions.\<close>

definition entry_ok :: "stream_entry \<Rightarrow> bool" where
  "entry_ok e \<longleftrightarrow> (se_control e = None \<and> se_data e = [] \<longrightarrow> seq_chars e = 0)"

lemma drop_loop_quiet:
  "list_all entry_ok es \<Longrightarrow> 0 < dr_left a \<Longrightarrow> dr_left (drop_loop sal sid es a) = dr_left a \<Longrightarrow>
   dr_seq (drop_loop sal sid es a) = dr_seq a"
proof (induction es arbitrary: a)
  case (Cons e es)
  show ?case
  proof (cases "se_session e \<noteq> sid \<or> se_control e \<noteq> None")
    case True
    then show ?thesis using Cons by (auto split: option.split)
  next
    case F: False
    let ?a = "a\<lparr>dr_left := dr_left a - int (length (se_data e)), dr_seq := dr_seq a + seq_chars e,
        dr_salvaged := salvageIntoCap sal (dr_salvaged a) (se_data e),
        dr_insert := first_index (dr_insert a) (length (dr_done a))\<rparr>"
    show ?thesis
    proof (cases "int (length (se_data e)) \<le> dr_left a")
      case True
      then have eq: "drop_loop sal sid (e # es) a = drop_loop sal sid es ?a"
        using F Cons.prems(2) by simp
      have "dr_left (drop_loop sal sid es ?a) \<le> dr_left a - int (length (se_data e))"
        using drop_loop_left [of sal sid es ?a] by simp
      then have e: "se_data e = []" using Cons.prems(3) eq by simp
      then have "seq_chars e = 0" using Cons.prems(1) F by (simp add: entry_ok_def)
      then show ?thesis using Cons.IH [of ?a] Cons.prems eq e by simp
    next
      case False
      then show ?thesis using F Cons.prems(2,3) by (simp add: Let_def split: if_splits)
    qed
  qed
qed simp

lemma drop_loop_chars:
  assumes "0 \<le> dr_left a"
  shows "\<exists>k. (k = 0 \<or> k = 1 \<and> dr_left (drop_loop sal sid es a) = 0) \<and>
     chars sid (dr_done (drop_loop sal sid es a)) =
       chars sid (dr_done a) + chars sid es - (dr_left a - dr_left (drop_loop sal sid es a)) + k"
  using assms
proof (induction es arbitrary: a)
  case (Cons e es)
  consider "dr_left a \<le> 0" | "0 < dr_left a" "se_session e \<noteq> sid"
    | c where "0 < dr_left a" "se_session e = sid" "se_control e = Some c"
    | "0 < dr_left a" "se_session e = sid" "se_control e = None" "int (length (se_data e)) \<le> dr_left a"
    | "0 < dr_left a" "se_session e = sid" "se_control e = None" "\<not> int (length (se_data e)) \<le> dr_left a"
    by fastforce
  then show ?case
  proof cases
    case 2
    then show ?thesis using Cons.IH [of "a\<lparr>dr_done := dr_done a @ [e]\<rparr>"] by (simp add: chars_of_def)
  next
    case 3
    then show ?thesis
      using Cons.IH [of "a\<lparr>dr_done := dr_done a @ [e],
        dr_gap := (case c of DataGap _ _ \<Rightarrow> Some (length (dr_done a)) | _ \<Rightarrow> dr_gap a)\<rparr>"]
      by (simp add: chars_of_def)
  next
    case 4
    then show ?thesis
      using Cons.IH [of "a\<lparr>dr_left := dr_left a - int (length (se_data e)), dr_seq := dr_seq a + seq_chars e,
        dr_salvaged := salvageIntoCap sal (dr_salvaged a) (se_data e),
        dr_insert := first_index (dr_insert a) (length (dr_done a))\<rparr>"]
      by (simp add: chars_of_def algebra_simps)
  next
    case 5
    let ?n = "clampToSafeSplitIndex (se_data e) 0 (nat (dr_left a))"
    have n: "int ?n = dr_left a \<or> int ?n = dr_left a - 1"
      using clamp_cases [of "se_data e" "nat (dr_left a)"] 5(1) by auto
    have le: "?n \<le> length (se_data e)" using n 5(4) by linarith
    show ?thesis
    proof (cases "?n > 0")
      case True
      then show ?thesis
        using 5 n trim_entry_sums(2) [OF 5(2,3) le]
        by (intro exI [of _ "dr_left a - int ?n"]) (auto simp: Let_def)
    next
      case False
      then have "dr_left a = 1" using n 5(1) by linarith
      then show ?thesis using 5 False by (intro exI [of _ 1]) (simp add: Let_def)
    qed
  qed (use Cons.prems in auto)
qed simp

lemma drop_loop_empties:
  "0 \<le> dr_left a \<Longrightarrow> dr_left a \<le> chars sid es \<Longrightarrow> dr_left (drop_loop sal sid es a) = 0"
proof (induction es arbitrary: a)
  case (Cons e es)
  show ?case
  proof (cases "dr_left a \<le> 0")
    case True
    then show ?thesis using Cons.prems by simp
  next
    case F: False
    show ?thesis
    proof (cases "se_session e \<noteq> sid \<or> se_control e \<noteq> None")
      case True
      then have "chars_of sid e = 0" by (auto simp: chars_of_def)
      then show ?thesis using True Cons F by (auto split: option.split)
    next
      case False
      then have "chars_of sid e = int (length (se_data e))" by (simp add: chars_of_def)
      then show ?thesis using False Cons F by (auto simp: Let_def)
    qed
  qed
qed simp

subsection \<open>Properties\<close>

lemma queued_for_set [simp]: "queued_for (b\<lparr>sb_by_session := map_set sid n m\<rparr>) sid = n"
  by (simp add: queued_for_def)

lemma queued_for_frame [simp]:
  "queued_for (b\<lparr>sb_queue := q\<rparr>) sid = queued_for b sid"
  "queued_for (b\<lparr>sb_chars := n\<rparr>) sid = queued_for b sid"
  by (simp_all add: queued_for_def)

text \<open>The queue after a drop, from the queue the loop leaves.\<close>

definition mark_gap :: "jsstr \<Rightarrow> int \<Rightarrow> drop_state \<Rightarrow> stream_entry list" where
  "mark_gap sid dropped a =
     (let q = (case dr_gap a of
                 Some i \<Rightarrow> (dr_done a)[i := grow_gap dropped (dr_seq a) (dr_done a ! i)]
               | None \<Rightarrow> insert_at (case dr_insert a of None \<Rightarrow> 0 | Some i \<Rightarrow> i)
                           (gap_entry sid dropped (dr_seq a)) (dr_done a));
          at = (case dr_gap a of Some i \<Rightarrow> i + 1
                | None \<Rightarrow> (case dr_insert a of None \<Rightarrow> 0 | Some i \<Rightarrow> i) + 1)
      in if dr_salvaged a = [] then q
         else insert_at at \<lparr>se_session = sid, se_data = dr_salvaged a, se_seq = Some 0, se_control = None\<rparr> q)"

lemma mark_gap_sums:
  assumes "drop_ok sid a"
  shows "positions sid (mark_gap sid dropped a) = positions sid (dr_done a) + dr_seq a"
    and "chars sid (mark_gap sid dropped a) = chars sid (dr_done a) + int (length (dr_salvaged a))"
    and "others sid (mark_gap sid dropped a) = others sid (dr_done a)"
proof -
  let ?s = "\<lparr>se_session = sid, se_data = dr_salvaged a, se_seq = Some 0, se_control = None\<rparr>"
  have s: "positions_of sid ?s = 0" "chars_of sid ?s = int (length (dr_salvaged a))"
    by (simp_all add: positions_of_def chars_of_def seq_chars_def)
  have g: "positions_of sid (gap_entry sid dropped n) = n" "chars_of sid (gap_entry sid dropped n) = 0"
    "se_session (gap_entry sid dropped n) = sid" for n
    by (simp_all add: positions_of_def chars_of_def gap_entry_def)
  have u: "positions_of sid (grow_gap dropped n e) = positions_of sid e + n" "chars_of sid (grow_gap dropped n e) = chars_of sid e"
    "se_session (grow_gap dropped n e) = sid"
    if "se_session e = sid" "se_control e = Some (DataGap d x)" for n e d x
    using that by (auto simp: positions_of_def chars_of_def grow_gap_def split: option.split)
  have "positions sid (mark_gap sid dropped a) = positions sid (dr_done a) + dr_seq a \<and>
    chars sid (mark_gap sid dropped a) = chars sid (dr_done a) + int (length (dr_salvaged a)) \<and>
    others sid (mark_gap sid dropped a) = others sid (dr_done a)"
  proof (cases "dr_gap a")
    case None
    then show ?thesis by (simp add: mark_gap_def Let_def s g)
  next
    case (Some i)
    then obtain d x where i: "i < length (dr_done a)" "se_session (dr_done a ! i) = sid"
        "se_control (dr_done a ! i) = Some (DataGap d x)"
      using assms by (auto simp: drop_ok_def)
    note u = u [OF i(2,3)]
    show ?thesis
      using Some i(2) by (simp add: mark_gap_def Let_def s sums_update [OF i(1)] u)
  qed
  then show "positions sid (mark_gap sid dropped a) = positions sid (dr_done a) + dr_seq a"
    "chars sid (mark_gap sid dropped a) = chars sid (dr_done a) + int (length (dr_salvaged a))"
    "others sid (mark_gap sid dropped a) = others sid (dr_done a)" by blast+
qed

lemma drop_cases:
  fixes b sid keep sal
  defines "n \<equiv> queued_for b sid - keep"
  defines "a \<equiv> drop_loop sal sid (sb_queue b) (start_drop n)"
  defines "b' \<equiv> dropOldestQueuedForSession sal sid keep b"
  shows "n \<le> 0 \<and> b' = b \<or>
    0 < n \<and> n - dr_left a \<le> 0 \<and> sb_queue b' = dr_done a \<and> queued_for b' sid = queued_for b sid \<or>
    0 < n \<and> 0 < n - dr_left a \<and> sb_queue b' = mark_gap sid (n - dr_left a) a \<and>
      queued_for b' sid = max 0 (queued_for b sid - (n - dr_left a)) + int (length (dr_salvaged a))"
  unfolding b'_def dropOldestQueuedForSession_def n_def [symmetric] Let_def a_def [symmetric]
  by (auto simp: mark_gap_def Let_def)

lemma drop_others: "others sid (sb_queue (dropOldestQueuedForSession sal sid keep b)) = others sid (sb_queue b)"
proof -
  let ?n = "queued_for b sid - keep"
  let ?a = "drop_loop sal sid (sb_queue b) (start_drop ?n)"
  have oth: "others sid (dr_done ?a) = others sid (sb_queue b)"
    using drop_loop_others [of sid sal "sb_queue b" "start_drop ?n"] by (simp add: start_drop_def)
  show ?thesis
    using drop_cases [of b sid keep sal]
  proof (elim disjE conjE)
    assume n: "0 < ?n" and q: "sb_queue (dropOldestQueuedForSession sal sid keep b) = mark_gap sid (?n - dr_left ?a) ?a"
    have "drop_ok sid ?a" using n by (intro drop_loop_ok drop_ok_start) simp
    then show ?thesis using oth by (simp add: q mark_gap_sums)
  qed (use oth in simp_all)
qed

text \<open>
  Dropping output keeps the books of the stream: the positions of a session that are still queued,
  dropped (in its gap events) or re-sent as queries add up to the same number before and after, and the
  entries of all other sessions are untouched.
\<close>

theorem drop_conserves_positions:
  assumes "list_all entry_ok (sb_queue b)"
  shows "positions sid (sb_queue (dropOldestQueuedForSession sal sid keep b)) = positions sid (sb_queue b) \<and>
    others sid (sb_queue (dropOldestQueuedForSession sal sid keep b)) = others sid (sb_queue b)"
proof -
  let ?n = "queued_for b sid - keep"
  let ?a = "drop_loop sal sid (sb_queue b) (start_drop ?n)"
  have pos: "positions sid (dr_done ?a) + dr_seq ?a = positions sid (sb_queue b)"
    using drop_loop_positions [of sid sal "sb_queue b" "start_drop ?n"] by (simp add: start_drop_def)
  note oth = drop_others [of sid sal keep b]
  show ?thesis
    using drop_cases [of b sid keep sal]
  proof (elim disjE conjE)
    assume n: "0 < ?n" and le: "?n - dr_left ?a \<le> 0"
      and q: "sb_queue (dropOldestQueuedForSession sal sid keep b) = dr_done ?a"
    have l: "dr_left (start_drop ?n) = ?n" "dr_seq (start_drop ?n) = 0" by (simp_all add: start_drop_def)
    have "dr_left ?a = ?n" using le drop_loop_left [of sal sid "sb_queue b" "start_drop ?n"] l by linarith
    then have "dr_seq ?a = 0"
      using drop_loop_quiet [OF assms, of "start_drop ?n" sal sid] n l by simp
    then show ?thesis using pos oth q by simp
  next
    assume n: "0 < ?n" and q: "sb_queue (dropOldestQueuedForSession sal sid keep b) = mark_gap sid (?n - dr_left ?a) ?a"
    have "drop_ok sid ?a" using n by (intro drop_loop_ok drop_ok_start) simp
    then show ?thesis using pos oth by (simp add: q mark_gap_sums)
  qed simp
qed

text \<open>
  Dropping bounds the queue.  From an exact account, a session that was over its keep-tail has at most
  that many characters queued afterwards, plus one, plus the re-sent queries; the account is
  exact again or one character short.
\<close>

theorem drop_bounds_queue:
  assumes "queued_for b sid = chars sid (sb_queue b)" and "0 \<le> keep" and "keep < queued_for b sid"
  shows "let b' = dropOldestQueuedForSession sal sid keep b
    in chars sid (sb_queue b') \<le> keep + 1 + int DROPPED_QUERY_SALVAGE_MAX_CHARS \<and>
       (chars sid (sb_queue b') = queued_for b' sid \<or> chars sid (sb_queue b') = queued_for b' sid + 1)"
proof -
  let ?n = "queued_for b sid - keep"
  let ?a = "drop_loop sal sid (sb_queue b) (start_drop ?n)"
  have n: "0 < ?n" using assms(3) by simp
  have l: "dr_left (start_drop ?n) = ?n" "dr_done (start_drop ?n) = []" by (simp_all add: start_drop_def)
  have left: "dr_left ?a = 0"
    using drop_loop_empties [of "start_drop ?n" sid "sb_queue b" sal] assms n l by simp
  obtain k where k: "k = 0 \<or> k = 1" "chars sid (dr_done ?a) = chars sid (sb_queue b) - ?n + k"
    using drop_loop_chars [of "start_drop ?n" sal sid "sb_queue b"] n l left by auto
  have ok: "drop_ok sid ?a" using n by (intro drop_loop_ok drop_ok_start) simp
  have q: "sb_queue (dropOldestQueuedForSession sal sid keep b) = mark_gap sid ?n ?a"
    and h: "queued_for (dropOldestQueuedForSession sal sid keep b) sid =
      max 0 (queued_for b sid - ?n) + int (length (dr_salvaged ?a))"
    using drop_cases [of b sid keep sal] n left by simp_all
  have c: "chars sid (sb_queue (dropOldestQueuedForSession sal sid keep b)) = keep + k + int (length (dr_salvaged ?a))"
    unfolding q mark_gap_sums(2) [OF ok] using k(2) assms(1) by simp
  have "length (dr_salvaged ?a) \<le> DROPPED_QUERY_SALVAGE_MAX_CHARS" using ok by (simp add: drop_ok_def)
  moreover have "max 0 (queued_for b sid - ?n) = keep" using assms(2) by simp
  ultimately show ?thesis
    using k(1) unfolding Let_def c h by auto
qed

text \<open>A session's queue of one entry, with the account \<open>n\<close>.\<close>

definition one_entry_batch :: "jsstr \<Rightarrow> int \<Rightarrow> stream_batch" where
  "one_entry_batch data n = \<lparr>sb_timer = False,
     sb_queue = [\<lparr>se_session = [7], se_data = data, se_seq = None, se_control = None\<rparr>],
     sb_chars = n, sb_by_session = [([7], n)], sb_last_droppable = None\<rparr>"

theorem drop_conserves_positions_witness:
  "positions [7] (sb_queue (dropOldestQueuedForSession (\<lambda>_. [63]) [7] 2 (one_entry_batch [65, 66, 67, 68] 4))) = 4"
proof -
  have h: "list_all entry_ok (sb_queue (one_entry_batch [65, 66, 67, 68] 4))"
    by (simp add: one_entry_batch_def entry_ok_def)
  have "positions [7] (sb_queue (one_entry_batch [65, 66, 67, 68] 4)) = 4"
    by (simp add: one_entry_batch_def positions_of_def seq_chars_def)
  then show ?thesis
    using drop_conserves_positions [OF h, of "[7]" "\<lambda>_. [63]" 2] by simp
qed

theorem drop_bounds_queue_witness:
  "let b' = dropOldestQueuedForSession (\<lambda>_. []) [7] 2 (one_entry_batch [65, 66, 67, 68] 4)
   in chars [7] (sb_queue b') \<le> 4099"
proof -
  have 1: "queued_for (one_entry_batch [65, 66, 67, 68] 4) [7] = chars [7] (sb_queue (one_entry_batch [65, 66, 67, 68] 4))"
    by (simp add: one_entry_batch_def queued_for_def map_get_def chars_of_def)
  have 2: "(0::int) \<le> 2" by simp
  have 3: "2 < queued_for (one_entry_batch [65, 66, 67, 68] 4) [7]"
    by (simp add: one_entry_batch_def queued_for_def map_get_def)
  have "2 + 1 + int DROPPED_QUERY_SALVAGE_MAX_CHARS = 4099" by (simp add: DROPPED_QUERY_SALVAGE_MAX_CHARS_def)
  then show ?thesis
    using drop_bounds_queue [OF 1 2 3, of "\<lambda>_. []"] unfolding Let_def by simp
qed

text \<open>
  The missing character: the cut falls inside a surrogate pair and moves back, so nothing is removed, but
  the account is charged and a gap of one character is reported.
\<close>

lemma drop_charges_for_nothing:
  "let b' = dropOldestQueuedForSession (\<lambda>_. []) [7] 2 (one_entry_batch [0xD83D, 0xDE00, 65] 3)
   in chars [7] (sb_queue b') = 3 \<and> queued_for b' [7] = 2 \<and> sb_chars b' = 2 \<and>
      se_control (hd (sb_queue b')) = Some (DataGap 1 (Some 0))"
  by (simp add: dropOldestQueuedForSession_def one_entry_batch_def queued_for_def map_get_def start_drop_def Let_def
      clampToSafeSplitIndex_def is_high_surrogate_def is_low_surrogate_def insert_at_def gap_entry_def chars_of_def)

end
