(* ===== verification/Stream_Batcher.thy ===== *)
theory Stream_Batcher
  imports Stream_Keep_Tail
begin

text \<open>
  The daemon's output batcher, \<open>src/main/daemon/daemon-stream-data-batcher.ts\<close>: per client a queue of data and
  control entries, written to the client's stream socket by timer flushes, by immediate flushes of one session
  and by the refill that a deep socket triggers.  The socket is seen through the writes made to it and through
  its \<open>writableLength\<close>, which is a parameter: a function of the writes of the running flush.  The pacer's
  callback \<open>onAfterSocketWrite\<close> and the diagnostics event of the valve are left out.
\<close>

subsection \<open>Constants, writes and state\<close>

text \<open>With the kill switch set the gate is infinite.\<close>

definition SHALLOW_SOCKET_WRITE_GATE_BYTES :: "bool \<Rightarrow> nat option" where
  "SHALLOW_SOCKET_WRITE_GATE_BYTES off = (if off then None else Some (128 * 1024))"

definition BULK_WRITE_SLICE_CHARS :: nat where
  "BULK_WRITE_SLICE_CHARS = 64 * 1024"

definition HELD_WRITE_THROUGH_TOTAL_CHARS :: int where
  "HELD_WRITE_THROUGH_TOTAL_CHARS = 32 * 1024 * 1024"

definition SMALL_SESSION_HOLD_BYPASS_CHARS :: int where
  "SMALL_SESSION_HOLD_BYPASS_CHARS = 4 * 1024"

text \<open>A call that writes to the socket, and the lines it puts on the wire.\<close>

datatype sock_write = WData jsstr jsstr nat | WControl jsstr control | WRefill jsstr

definition control_json :: "jsstr \<Rightarrow> control \<Rightarrow> json" where
  "control_json sid c = (case c of
     OtherControl j \<Rightarrow> j
   | DataGap d s \<Rightarrow>
       JObj [(js ''type'', JStr (js ''event'')), (js ''event'', JStr (js ''dataGap'')), (js ''sessionId'', JStr sid),
         (js ''payload'', JObj ((js ''droppedChars'', JNum (nat_text (nat d))) #
            (case s of None \<Rightarrow> [] | Some n \<Rightarrow> [(js ''sequenceChars'', JNum (nat_text (nat n)))])))])"

definition wire :: "nat \<Rightarrow> sock_write \<Rightarrow> jsstr list" where
  "wire maxLineBytes w = (case w of
     WData sid data n \<Rightarrow> writeStreamDataEvents sid data maxLineBytes n
   | WControl sid c \<Rightarrow> [encodeNdjson (control_json sid c)]
   | WRefill sid \<Rightarrow> [encodeStreamDataEvent sid [] None])"

text \<open>What the batcher is told by its surroundings during one call.\<close>

record batcher_env =
  be_live :: "jsstr \<Rightarrow> bool"
  be_depth :: "jsstr \<Rightarrow> sock_write list \<Rightarrow> nat"
  be_droppable :: "jsstr \<Rightarrow> bool"
  be_salvage :: "jsstr \<Rightarrow> jsstr"
  be_gate_off :: bool

record batcher =
  bt_pending :: "(jsstr \<times> stream_batch) list"
  bt_armed :: "jsstr list"
  bt_out :: "(jsstr \<times> sock_write) list"

definition empty_batch :: stream_batch where
  "empty_batch = \<lparr>sb_timer = False, sb_queue = [], sb_chars = 0, sb_by_session = [], sb_last_droppable = None\<rparr>"

definition empty_batcher :: batcher where
  "empty_batcher = \<lparr>bt_pending = [], bt_armed = [], bt_out = []\<rparr>"

definition put_batch :: "jsstr \<Rightarrow> stream_batch \<Rightarrow> batcher \<Rightarrow> batcher" where
  "put_batch cid b s = s\<lparr>bt_pending := map_set cid b (bt_pending s)\<rparr>"

definition drop_batch :: "jsstr \<Rightarrow> batcher \<Rightarrow> batcher" where
  "drop_batch cid s = s\<lparr>bt_pending := map_delete cid (bt_pending s)\<rparr>"

definition emit :: "jsstr \<Rightarrow> sock_write list \<Rightarrow> batcher \<Rightarrow> batcher" where
  "emit cid ws s = s\<lparr>bt_out := bt_out s @ map (Pair cid) ws\<rparr>"

definition getOrCreateBatch :: "jsstr \<Rightarrow> batcher \<Rightarrow> stream_batch" where
  "getOrCreateBatch cid s = (case map_get (bt_pending s) cid of None \<Rightarrow> empty_batch | Some b \<Rightarrow> b)"

definition queuedCharsForClient :: "jsstr \<Rightarrow> batcher \<Rightarrow> int" where
  "queuedCharsForClient cid s = (case map_get (bt_pending s) cid of None \<Rightarrow> 0 | Some b \<Rightarrow> sb_chars b)"

definition countDroppableSessionsWithQueuedData :: "(jsstr \<Rightarrow> bool) \<Rightarrow> stream_batch \<Rightarrow> nat" where
  "countDroppableSessionsWithQueuedData droppable b =
     length (filter (\<lambda>(sid, n). 0 < n \<and> droppable sid) (sb_by_session b))"

definition queuedCharsForSession :: "stream_batch \<Rightarrow> jsstr \<Rightarrow> nat" where
  "queuedCharsForSession b sid = sum_list (map (\<lambda>e. if se_session e = sid then length (se_data e) else 0) (sb_queue b))"

subsection \<open>Flushing\<close>

definition socket_deep :: "bool \<Rightarrow> nat \<Rightarrow> bool" where
  "socket_deep off n = (case SHALLOW_SOCKET_WRITE_GATE_BYTES off of None \<Rightarrow> False | Some g \<Rightarrow> g \<le> n)"

definition slice_end :: "jsstr \<Rightarrow> nat" where
  "slice_end data = (if length data \<le> BULK_WRITE_SLICE_CHARS then length data
                     else clampToSafeSplitIndex data 0 BULK_WRITE_SLICE_CHARS)"

definition hold_entry :: "bool \<Rightarrow> jsstr list \<Rightarrow> stream_batch \<Rightarrow> jsstr \<Rightarrow> bool" where
  "hold_entry deep held b sid \<longleftrightarrow>
     deep \<and> sb_chars b \<le> HELD_WRITE_THROUGH_TOTAL_CHARS \<and>
     (sid \<in> set held \<or> queued_for b sid > SMALL_SESSION_HOLD_BYPASS_CHARS)"

text \<open>The accounts after \<open>n\<close> characters of a session were written.\<close>

definition charge_slice :: "jsstr \<Rightarrow> nat \<Rightarrow> stream_batch \<Rightarrow> stream_batch" where
  "charge_slice sid n b =
     (let after = (case map_get (sb_by_session b) sid of None \<Rightarrow> int n | Some m \<Rightarrow> m) - int n
      in b\<lparr>sb_chars := sb_chars b - int n,
           sb_by_session := (if after \<le> 0 then map_delete sid (sb_by_session b)
                             else map_set sid after (sb_by_session b))\<rparr>)"

definition queue_size :: "stream_entry list \<Rightarrow> nat" where
  "queue_size q = sum_list (map (\<lambda>e. Suc (length (se_data e))) q)"

lemma slice_end_pos: "slice_end d < length d \<Longrightarrow> 0 < slice_end d"
  by (auto simp: slice_end_def clampToSafeSplitIndex_def BULK_WRITE_SLICE_CHARS_def split: if_splits)

lemma trim_data [simp]: "se_data (trim_entry n e) = drop n (se_data e)"
  by (simp add: trim_entry_def Let_def)

lemma queue_size_Cons [simp]: "queue_size (e # q) = Suc (length (se_data e)) + queue_size q"
  by (simp add: queue_size_def)

text \<open>
  The loop over the queue; \<open>held\<close> is \<open>heldSessions\<close>, \<open>ws\<close> what this flush has written.  What is left of a
  sliced entry is \<open>trim_entry\<close>, as in the keep-tail drop.
\<close>

function flush_loop :: "bool \<Rightarrow> (sock_write list \<Rightarrow> nat) \<Rightarrow> stream_entry list \<Rightarrow> stream_batch \<Rightarrow> jsstr list \<Rightarrow>
    stream_entry list \<Rightarrow> sock_write list \<Rightarrow> stream_batch \<times> stream_entry list \<times> sock_write list" where
  "flush_loop off depth [] b held retained ws = (b, retained, ws)"
| "flush_loop off depth (e # es) b held retained ws =
     (case se_control e of
        Some c \<Rightarrow>
          if se_session e \<in> set held then flush_loop off depth es b held (retained @ [e]) ws
          else flush_loop off depth es b held retained (ws @ [WControl (se_session e) c])
      | None \<Rightarrow>
          if hold_entry (socket_deep off (depth ws)) held b (se_session e)
          then flush_loop off depth es b (se_session e # held) (retained @ [e]) ws
          else let n = slice_end (se_data e);
                   sq = (if seq_chars e = 0 then 0 else n);
                   b' = charge_slice (se_session e) n b;
                   ws' = ws @ [WData (se_session e) (take n (se_data e)) sq]
               in if n \<ge> length (se_data e) then flush_loop off depth es b' held retained ws'
                  else flush_loop off depth (trim_entry n e # es) b' held retained ws')"
  by pat_completeness auto
termination
  by (relation "measure (\<lambda>(_, _, q, _). queue_size q)")
    (use slice_end_pos in \<open>fastforce simp: not_le\<close>)+

declare flush_loop.simps [simp del]

definition armHeldQueueRefill :: "batcher_env \<Rightarrow> jsstr \<Rightarrow> jsstr \<Rightarrow> batcher \<Rightarrow> batcher" where
  "armHeldQueueRefill env cid sid s =
     (if cid \<in> set (bt_armed s) \<or> \<not> be_live env cid then s
      else emit cid [WRefill sid] (s\<lparr>bt_armed := cid # bt_armed s\<rparr>))"

definition flush :: "batcher_env \<Rightarrow> jsstr \<Rightarrow> batcher \<Rightarrow> batcher" where
  "flush env cid s =
     (case map_get (bt_pending s) cid of
        None \<Rightarrow> s
      | Some b0 \<Rightarrow>
          let b = b0\<lparr>sb_timer := False\<rparr>
          in if \<not> be_live env cid then drop_batch cid s
             else (case flush_loop (be_gate_off env) (be_depth env cid) (sb_queue b) b [] [] [] of
                     (b', retained, ws) \<Rightarrow>
                       if retained \<noteq> []
                       then armHeldQueueRefill env cid (se_session (hd retained))
                              (put_batch cid (b'\<lparr>sb_queue := retained\<rparr>) (emit cid ws s))
                       else drop_batch cid (emit cid ws s)))"

text \<open>The callback of the refill write.\<close>

definition refill_written :: "batcher_env \<Rightarrow> jsstr \<Rightarrow> batcher \<Rightarrow> batcher" where
  "refill_written env cid s = flush env cid (s\<lparr>bt_armed := filter (\<lambda>c. c \<noteq> cid) (bt_armed s)\<rparr>)"

definition entry_write :: "stream_entry \<Rightarrow> sock_write" where
  "entry_write e = (case se_control e of
     Some c \<Rightarrow> WControl (se_session e) c
   | None \<Rightarrow> WData (se_session e) (se_data e) (nat (seq_chars e)))"

definition flushSession :: "batcher_env \<Rightarrow> jsstr \<Rightarrow> jsstr \<Rightarrow> batcher \<Rightarrow> batcher" where
  "flushSession env cid sid s =
     (case map_get (bt_pending s) cid of
        None \<Rightarrow> s
      | Some b \<Rightarrow>
          let flushed = filter (\<lambda>e. se_session e = sid) (sb_queue b);
              retained = filter (\<lambda>e. se_session e \<noteq> sid) (sb_queue b)
          in if flushed = [] then s
             else let b' = b\<lparr>sb_queue := retained,
                             sb_chars := sb_chars b - int (sum_list (map (\<lambda>e. length (se_data e)) flushed)),
                             sb_by_session := map_delete sid (sb_by_session b)\<rparr>;
                      s' = (if retained = [] then drop_batch cid s else put_batch cid b' s)
                  in if \<not> be_live env cid then s' else emit cid (map entry_write flushed) s')"

subsection \<open>Enqueueing\<close>

definition push_data :: "jsstr \<Rightarrow> jsstr \<Rightarrow> stream_entry list \<Rightarrow> stream_entry list" where
  "push_data sid data q =
     (if q \<noteq> [] \<and> se_session (last q) = sid \<and> se_control (last q) = None
      then butlast q @ [(last q)\<lparr>se_data := se_data (last q) @ data\<rparr>]
      else q @ [\<lparr>se_session = sid, se_data = data, se_seq = None, se_control = None\<rparr>])"

definition queue_data :: "jsstr \<Rightarrow> jsstr \<Rightarrow> stream_batch \<Rightarrow> stream_batch" where
  "queue_data sid data b =
     b\<lparr>sb_queue := push_data sid data (sb_queue b),
       sb_chars := sb_chars b + int (length data),
       sb_by_session := map_set sid (queued_for b sid + int (length data)) (sb_by_session b)\<rparr>"

text \<open>The re-trim iterates over a copy of the accounts taken before it starts.\<close>

fun retrim :: "batcher_env \<Rightarrow> jsstr \<Rightarrow> int \<Rightarrow> int \<Rightarrow> (jsstr \<times> int) list \<Rightarrow> stream_batch \<Rightarrow> stream_batch" where
  "retrim env sid dropCap keepTail [] b = b"
| "retrim env sid dropCap keepTail ((q, n) # qs) b =
     retrim env sid dropCap keepTail qs
       (if n > dropCap \<and> q \<noteq> sid \<and> be_droppable env q
        then dropOldestQueuedForSession (be_salvage env) q keepTail b else b)"

definition thin_background :: "batcher_env \<Rightarrow> jsstr \<Rightarrow> stream_batch \<Rightarrow> stream_batch" where
  "thin_background env sid b =
     (if \<not> be_droppable env sid then b
      else let queued = countDroppableSessionsWithQueuedData (be_droppable env) b;
               dropCap = int (backgroundSessionDropCapChars queued);
               keepTail = int (backgroundSessionKeepTailChars queued);
               b1 = (if queued_for b sid > dropCap
                     then dropOldestQueuedForSession (be_salvage env) sid keepTail b else b);
               b2 = (if queued > (case sb_last_droppable b1 of None \<Rightarrow> 0 | Some k \<Rightarrow> k)
                     then retrim env sid dropCap keepTail (sb_by_session b1) b1 else b1)
           in b2\<lparr>sb_last_droppable := Some queued\<rparr>)"

definition enqueue :: "batcher_env \<Rightarrow> jsstr \<Rightarrow> jsstr \<Rightarrow> jsstr \<Rightarrow> bool \<Rightarrow> nat option \<Rightarrow> batcher \<Rightarrow> batcher" where
  "enqueue env cid sid data flushImmediately flushMaxChars s =
     (if \<not> be_live env cid then s
      else let b = thin_background env sid (queue_data sid data (getOrCreateBatch cid s))
           in if flushImmediately \<and>
                 (case flushMaxChars of None \<Rightarrow> True | Some m \<Rightarrow> queuedCharsForSession b sid \<le> m)
              then flushSession env cid sid (put_batch cid b s)
              else put_batch cid (b\<lparr>sb_timer := True\<rparr>) s)"

definition enqueueControlEvent :: "batcher_env \<Rightarrow> jsstr \<Rightarrow> jsstr \<Rightarrow> control \<Rightarrow> batcher \<Rightarrow> batcher" where
  "enqueueControlEvent env cid sid c s =
     (if \<not> be_live env cid then s
      else let b = getOrCreateBatch cid s
           in put_batch cid (b\<lparr>sb_queue := sb_queue b @
                  [\<lparr>se_session = sid, se_data = [], se_seq = None, se_control = Some c\<rparr>], sb_timer := True\<rparr>) s)"

definition clear :: "jsstr option \<Rightarrow> batcher \<Rightarrow> batcher" where
  "clear target s = (case target of None \<Rightarrow> s\<lparr>bt_pending := []\<rparr> | Some cid \<Rightarrow> drop_batch cid s)"

datatype batcher_op =
    Enqueue jsstr jsstr jsstr bool "nat option"
  | EnqueueControl jsstr jsstr control
  | Flush jsstr
  | RefillWritten jsstr
  | Clear "jsstr option"

fun batcher_step :: "batcher_env \<times> batcher_op \<Rightarrow> batcher \<Rightarrow> batcher" where
  "batcher_step (env, Enqueue cid sid data now mx) s = enqueue env cid sid data now mx s"
| "batcher_step (env, EnqueueControl cid sid c) s = enqueueControlEvent env cid sid c s"
| "batcher_step (env, Flush cid) s = flush env cid s"
| "batcher_step (env, RefillWritten cid) s = refill_written env cid s"
| "batcher_step (env, Clear t) s = clear t s"

subsection \<open>What a session sends\<close>

text \<open>The characters and control events of a session in a queue, in a write, in the socket's history.\<close>

definition content_of :: "jsstr \<Rightarrow> stream_entry \<Rightarrow> (jschar + control) list" where
  "content_of sid e =
     (if se_session e \<noteq> sid then []
      else case se_control e of Some c \<Rightarrow> [Inr c] | None \<Rightarrow> map Inl (se_data e))"

definition content :: "jsstr \<Rightarrow> stream_entry list \<Rightarrow> (jschar + control) list" where
  "content sid q = concat (map (content_of sid) q)"

fun written_of :: "jsstr \<Rightarrow> sock_write \<Rightarrow> (jschar + control) list" where
  "written_of sid (WData s d n) = (if s = sid then map Inl d else [])"
| "written_of sid (WControl s c) = (if s = sid then [Inr c] else [])"
| "written_of sid (WRefill s) = []"

definition written :: "jsstr \<Rightarrow> sock_write list \<Rightarrow> (jschar + control) list" where
  "written sid ws = concat (map (written_of sid) ws)"

definition writes_to :: "jsstr \<Rightarrow> batcher \<Rightarrow> sock_write list" where
  "writes_to cid s = map snd (filter (\<lambda>w. fst w = cid) (bt_out s))"

definition queue_of :: "jsstr \<Rightarrow> batcher \<Rightarrow> stream_entry list" where
  "queue_of cid s = sb_queue (getOrCreateBatch cid s)"

lemma content_simps [simp]:
  "content sid [] = []" "content sid (e # q) = content_of sid e @ content sid q"
  "content sid (q @ r) = content sid q @ content sid r"
  by (simp_all add: content_def)

lemma written_simps [simp]:
  "written sid [] = []" "written sid (w # ws) = written_of sid w @ written sid ws"
  "written sid (ws @ vs) = written sid ws @ written sid vs"
  by (simp_all add: written_def)

lemma content_others: "sid \<noteq> q \<Longrightarrow> content sid (others q es) = content sid es"
  by (induction es) (auto simp: content_of_def)

lemma content_filter [simp]:
  "content sid (filter (\<lambda>e. se_session e = q) es) = (if q = sid then content sid es else [])"
  "content sid (filter (\<lambda>e. se_session e \<noteq> q) es) = (if q = sid then [] else content sid es)"
  by (induction es) (auto simp: content_of_def)

lemma content_entry_write: "written sid (map entry_write es) = content sid es"
  by (induction es) (auto simp: entry_write_def content_of_def split: option.split)

lemma content_push_data:
  "content sid (push_data s data q) = content sid q @ (if s = sid then map Inl data else [])"
proof (cases "q \<noteq> [] \<and> se_session (last q) = s \<and> se_control (last q) = None")
  case True
  then have "q = butlast q @ [last q]" by simp
  then have "content sid q = content sid (butlast q) @ content_of sid (last q)"
    by (metis content_simps append_Nil2)
  then show ?thesis using True by (simp add: push_data_def content_of_def)
next
  case False
  then have "push_data s data q = q @ [\<lparr>se_session = s, se_data = data, se_seq = None, se_control = None\<rparr>]"
    by (auto simp: push_data_def)
  then show ?thesis by (simp add: content_of_def)
qed

subsection \<open>The batcher's maps\<close>

lemma writes_to_simps [simp]:
  "writes_to cid (put_batch c b s) = writes_to cid s"
  "writes_to cid (drop_batch c s) = writes_to cid s"
  "writes_to cid (emit c ws s) = writes_to cid s @ (if c = cid then ws else [])"
  "writes_to cid (s\<lparr>bt_armed := x\<rparr>) = writes_to cid s"
  by (simp_all add: writes_to_def put_batch_def drop_batch_def emit_def filter_map o_def)

lemma getOrCreateBatch_simps [simp]:
  "getOrCreateBatch cid (put_batch c b s) = (if c = cid then b else getOrCreateBatch cid s)"
  "getOrCreateBatch cid (drop_batch c s) = (if c = cid then empty_batch else getOrCreateBatch cid s)"
  "getOrCreateBatch cid (emit c ws s) = getOrCreateBatch cid s"
  "getOrCreateBatch cid (s\<lparr>bt_armed := x\<rparr>) = getOrCreateBatch cid s"
  by (simp_all add: getOrCreateBatch_def put_batch_def drop_batch_def emit_def)

lemma queue_of_simps [simp]:
  "queue_of cid (put_batch c b s) = (if c = cid then sb_queue b else queue_of cid s)"
  "queue_of cid (drop_batch c s) = (if c = cid then [] else queue_of cid s)"
  "queue_of cid (emit c ws s) = queue_of cid s"
  "queue_of cid (s\<lparr>bt_armed := x\<rparr>) = queue_of cid s"
  by (simp_all add: queue_of_def empty_batch_def)

lemma queue_of_get: "map_get (bt_pending s) cid = Some b \<Longrightarrow> queue_of cid s = sb_queue b"
  by (simp add: queue_of_def getOrCreateBatch_def)

lemma queue_of_no_batch: "map_get (bt_pending s) cid = None \<Longrightarrow> queue_of cid s = []"
  by (simp add: queue_of_def getOrCreateBatch_def empty_batch_def)

text \<open>What the socket got and what is still queued, in the session's order.\<close>

definition ledger :: "jsstr \<Rightarrow> jsstr \<Rightarrow> batcher \<Rightarrow> (jschar + control) list" where
  "ledger cid sid s = written sid (writes_to cid s) @ content sid (queue_of cid s)"

subsection \<open>Flushing keeps the ledger\<close>

text \<open>
  A socket over the gate stays over it while a flush writes: writes to a socket that is waiting for the
  kernel only buffer more.
\<close>

definition stays_deep :: "bool \<Rightarrow> (sock_write list \<Rightarrow> nat) \<Rightarrow> bool" where
  "stays_deep off depth \<longleftrightarrow> (\<forall>ws w. socket_deep off (depth ws) \<longrightarrow> socket_deep off (depth (ws @ [w])))"

lemma charge_slice_chars [simp]: "sb_chars (charge_slice sid n b) = sb_chars b - int n"
  by (simp add: charge_slice_def Let_def)

lemma content_trim:
  "se_control e = None \<Longrightarrow> content_of sid e =
     (if se_session e = sid then map Inl (take n (se_data e)) else []) @ content_of sid (trim_entry n e)"
  by (simp add: content_of_def trim_entry_def Let_def flip: map_append)

lemma flush_loop_content:
  assumes "stays_deep off depth"
    and "if sid \<in> set held then socket_deep off (depth ws) \<and> sb_chars b \<le> HELD_WRITE_THROUGH_TOTAL_CHARS
         else content sid retained = []"
    and "flush_loop off depth q b held retained ws = (b', retained', ws')"
  shows "written sid ws' @ content sid retained' = written sid ws @ content sid retained @ content sid q"
  using assms
proof (induction off depth q b held retained ws rule: flush_loop.induct)
  case (1 off depth b held retained ws)
  then show ?case by (simp add: flush_loop.simps)
next
  case (2 off depth e es b held retained ws)
  let ?sid = "se_session e" and ?n = "slice_end (se_data e)"
  have deep_more: "socket_deep off (depth ws) \<Longrightarrow> socket_deep off (depth (ws @ [w]))" for w
    using "2.prems"(1) by (simp add: stays_deep_def)
  show ?case
  proof (cases "se_control e")
    case (Some c)
    show ?thesis
    proof (cases "?sid \<in> set held")
      case True
      then have "flush_loop off depth es b held (retained @ [e]) ws = (b', retained', ws')"
        using 2 Some by (simp add: flush_loop.simps(2))
      then show ?thesis
        using "2.IH"(4) [OF Some True "2.prems"(1)] "2.prems"(2) True by (auto simp: content_of_def split: if_splits)
    next
      case False
      then have "flush_loop off depth es b held retained (ws @ [WControl ?sid c]) = (b', retained', ws')"
        using 2 Some by (simp add: flush_loop.simps(2))
      then show ?thesis
        using "2.IH"(5) [OF Some False "2.prems"(1)] "2.prems"(2) False Some deep_more
        by (auto simp: content_of_def split: if_splits)
    qed
  next
    case None
    show ?thesis
    proof (cases "hold_entry (socket_deep off (depth ws)) held b ?sid")
      case True
      then have "flush_loop off depth es b (?sid # held) (retained @ [e]) ws = (b', retained', ws')"
        using 2 None by (simp add: flush_loop.simps(2))
      then show ?thesis
        using "2.IH"(1) [OF None True "2.prems"(1)] "2.prems"(2) True
        by (auto simp: hold_entry_def content_of_def split: if_splits)
    next
      case False
      let ?w = "WData ?sid (take ?n (se_data e)) (if seq_chars e = 0 then 0 else ?n)"
      have out: "sid = ?sid \<Longrightarrow> sid \<notin> set held" using False "2.prems"(2) by (auto simp: hold_entry_def)
      have pre: "if sid \<in> set held then socket_deep off (depth (ws @ [?w])) \<and>
          sb_chars (charge_slice ?sid ?n b) \<le> HELD_WRITE_THROUGH_TOTAL_CHARS else content sid retained = []"
        using "2.prems"(2) deep_more [of ?w] by (auto split: if_splits)
      show ?thesis
      proof (cases "?n \<ge> length (se_data e)")
        case full: True
        then have "flush_loop off depth es (charge_slice ?sid ?n b) held retained (ws @ [?w]) = (b', retained', ws')"
          using 2 None False by (simp add: flush_loop.simps(2) Let_def)
        then show ?thesis
          using "2.IH"(2) [OF None False refl refl refl refl full "2.prems"(1) pre] "2.prems"(2) out full None
          by (auto simp: content_of_def)
      next
        case part: False
        then have "flush_loop off depth (trim_entry ?n e # es) (charge_slice ?sid ?n b) held retained (ws @ [?w]) = (b', retained', ws')"
          using 2 None False by (simp add: flush_loop.simps(2) Let_def)
        then show ?thesis
          using "2.IH"(3) [OF None False refl refl refl refl part "2.prems"(1) pre] "2.prems"(2) out content_trim [OF None, of sid ?n]
          by (auto split: if_splits)
      qed
    qed
  qed
qed


lemma ledger_frame [simp]: "ledger cid sid (s\<lparr>bt_armed := x\<rparr>) = ledger cid sid s"
  by (simp add: ledger_def)

lemma ledger_arm [simp]: "ledger cid sid (armHeldQueueRefill env c q s) = ledger cid sid s"
  by (simp add: armHeldQueueRefill_def ledger_def)

lemma ledger_flush:
  assumes "c = cid \<Longrightarrow> be_live env c" and "stays_deep (be_gate_off env) (be_depth env cid)"
  shows "ledger cid sid (flush env c s) = ledger cid sid s"
proof (cases "map_get (bt_pending s) c")
  case None
  then show ?thesis by (simp add: flush_def)
next
  case (Some b)
  let ?b = "b\<lparr>sb_timer := False\<rparr>"
  obtain b' ret ws where loop: "flush_loop (be_gate_off env) (be_depth env c) (sb_queue ?b) ?b [] [] [] = (b', ret, ws)"
    by (metis prod_cases3)
  show ?thesis
  proof (cases "c = cid")
    case True
    have "written sid ws @ content sid ret = content sid (sb_queue b)"
      using flush_loop_content [OF assms(2), of sid "[]" "[]" ?b "[]" "sb_queue ?b" b' ret ws] loop True by simp
    then show ?thesis
      using True assms(1) loop Some queue_of_get [OF Some]
      by (auto simp: flush_def Let_def) (auto simp: ledger_def)
  next
    case False
    then show ?thesis using loop Some by (auto simp: flush_def Let_def) (auto simp: ledger_def)
  qed
qed

lemma ledger_flushSession:
  assumes "c = cid \<Longrightarrow> be_live env c"
  shows "ledger cid sid (flushSession env c q s) = ledger cid sid s"
proof (cases "map_get (bt_pending s) c")
  case None
  then show ?thesis by (simp add: flushSession_def)
next
  case (Some b)
  have n: "filter (\<lambda>e. se_session e \<noteq> q) (sb_queue b) = [] \<Longrightarrow> q \<noteq> sid \<Longrightarrow> content sid (sb_queue b) = []"
    using content_filter(2) [of sid q "sb_queue b"] by simp
  show ?thesis
    using assms Some n queue_of_get [OF Some]
    by (cases "c = cid"; cases "q = sid") (auto simp: flushSession_def Let_def ledger_def content_entry_write)
qed

lemma content_drop:
  assumes "\<not> be_droppable env sid" and "be_droppable env q"
  shows "content sid (sb_queue (dropOldestQueuedForSession (be_salvage env) q keep b)) = content sid (sb_queue b)"
proof -
  have "sid \<noteq> q" using assms by auto
  then show ?thesis by (metis content_others drop_others)
qed

lemma content_retrim:
  "\<not> be_droppable env sid \<Longrightarrow> content sid (sb_queue (retrim env q cap keep qs b)) = content sid (sb_queue b)"
  by (induction env q cap keep qs b rule: retrim.induct) (auto simp: content_drop)

lemma content_thin:
  "\<not> be_droppable env sid \<Longrightarrow> content sid (sb_queue (thin_background env q b)) = content sid (sb_queue b)"
  by (auto simp: thin_background_def Let_def content_retrim content_drop)

text \<open>What an operation adds to the session's stream.\<close>

fun sent_by :: "jsstr \<Rightarrow> jsstr \<Rightarrow> batcher_op \<Rightarrow> (jschar + control) list" where
  "sent_by cid sid (Enqueue c s data now mx) = (if c = cid \<and> s = sid then map Inl data else [])"
| "sent_by cid sid (EnqueueControl c s ctl) = (if c = cid \<and> s = sid then [Inr ctl] else [])"
| "sent_by cid sid _ = []"

text \<open>The client's socket is up, the session is not a background one, and the client is not cleared.\<close>

definition kept_event :: "jsstr \<Rightarrow> jsstr \<Rightarrow> batcher_env \<times> batcher_op \<Rightarrow> bool" where
  "kept_event cid sid ev \<longleftrightarrow>
     be_live (fst ev) cid \<and> \<not> be_droppable (fst ev) sid \<and>
     stays_deep (be_gate_off (fst ev)) (be_depth (fst ev) cid) \<and>
     snd ev \<noteq> Clear None \<and> snd ev \<noteq> Clear (Some cid)"

lemma ledger_enqueue:
  assumes "be_live env cid" and "\<not> be_droppable env sid"
  shows "ledger cid sid (enqueue env c q data now mx s) = ledger cid sid s @ (if c = cid \<and> q = sid then map Inl data else [])"
proof -
  let ?b = "thin_background env q (queue_data q data (getOrCreateBatch c s))"
  have b: "content sid (sb_queue ?b) = content sid (queue_of c s) @ (if q = sid then map Inl data else [])"
    using content_thin [OF assms(2), of q "queue_data q data (getOrCreateBatch c s)"]
    by (simp add: queue_data_def content_push_data queue_of_def)
  have p: "ledger cid sid (put_batch c (?b\<lparr>sb_timer := t\<rparr>) s) = ledger cid sid s @ (if c = cid \<and> q = sid then map Inl data else [])"
    "ledger cid sid (put_batch c ?b s) = ledger cid sid s @ (if c = cid \<and> q = sid then map Inl data else [])" for t
    using b by (auto simp: ledger_def)
  have "be_live env c \<Longrightarrow> ledger cid sid (flushSession env c q (put_batch c ?b s)) = ledger cid sid (put_batch c ?b s)"
    by (rule ledger_flushSession)
  then show ?thesis
    using assms(1) p by (auto simp: enqueue_def Let_def)
qed

lemma ledger_step:
  assumes "kept_event cid sid ev"
  shows "ledger cid sid (batcher_step ev s) = ledger cid sid s @ sent_by cid sid (snd ev)"
proof -
  obtain env op where ev: "ev = (env, op)" by (cases ev)
  have k: "be_live env cid" "\<not> be_droppable env sid" "stays_deep (be_gate_off env) (be_depth env cid)"
      "op \<noteq> Clear None" "op \<noteq> Clear (Some cid)"
    using assms by (simp_all add: kept_event_def ev)
  show ?thesis
  proof (cases op)
    case (Enqueue c q data now mx)
    then show ?thesis using ledger_enqueue k ev by simp
  next
    case (EnqueueControl c q ctl)
    then show ?thesis using k ev
      by (auto simp: enqueueControlEvent_def Let_def ledger_def content_of_def queue_of_def)
  next
    case (Flush c)
    then show ?thesis using ledger_flush k ev by simp
  next
    case (RefillWritten c)
    then show ?thesis using ledger_flush k ev by (simp add: refill_written_def)
  next
    case (Clear t)
    then show ?thesis using k ev by (cases t) (auto simp: clear_def ledger_def)
  qed
qed

lemma ledger_run:
  "list_all (kept_event cid sid) es \<Longrightarrow>
   ledger cid sid (run_events batcher_step es s) = ledger cid sid s @ concat (map (\<lambda>ev. sent_by cid sid (snd ev)) es)"
  by (induction es arbitrary: s) (auto simp: ledger_step)

text \<open>
  C3: The batcher loses, duplicates and reorders nothing.  Over any interleaving of enqueues, control
  events, flushes, refills and clears of other clients, what a foreground session's socket received followed by
  what is still queued is exactly what was sent, in order, whatever the other sessions do.
\<close>

theorem batcher_lossless:
  assumes "list_all (kept_event cid sid) es"
  shows "written sid (writes_to cid (run_events batcher_step es empty_batcher)) @
      content sid (queue_of cid (run_events batcher_step es empty_batcher)) =
    concat (map (\<lambda>ev. sent_by cid sid (snd ev)) es)"
  using ledger_run [OF assms, of empty_batcher]
  by (simp add: ledger_def empty_batcher_def writes_to_def queue_of_def getOrCreateBatch_def empty_batch_def)


subsection \<open>Sequence counts and wake-ups\<close>

text \<open>An entry counts all its characters or, when it re-sends queries of dropped output, none.\<close>

definition seq_ok :: "stream_entry \<Rightarrow> bool" where
  "seq_ok e \<longleftrightarrow> se_seq e = None \<or> se_seq e = Some 0"

lemma seq_ok_trim: "seq_ok e \<Longrightarrow> n \<le> length (se_data e) \<Longrightarrow> seq_ok (trim_entry n e)"
  by (auto simp: seq_ok_def trim_entry_def seq_chars_def Let_def)

lemma seq_ok_push_data: "list_all seq_ok q \<Longrightarrow> list_all seq_ok (push_data sid data q)"
proof (induction q rule: rev_induct)
  case (snoc e q)
  then show ?case by (auto simp: push_data_def seq_ok_def)
qed (simp add: push_data_def seq_ok_def)

lemma seq_ok_drop_loop:
  "list_all seq_ok es \<Longrightarrow> list_all seq_ok (dr_done a) \<Longrightarrow> list_all seq_ok (dr_done (drop_loop sal sid es a))"
proof (induction es arbitrary: a)
  case (Cons e es)
  have "clampToSafeSplitIndex (se_data e) 0 (nat (dr_left a)) \<le> length (se_data e)"
    if "\<not> int (length (se_data e)) \<le> dr_left a"
    using clamp_le [of "se_data e" 0 "nat (dr_left a)"] that by linarith
  then show ?case using Cons by (auto simp: Let_def seq_ok_trim split: option.split)
qed simp

lemma seq_ok_grow: "seq_ok e \<Longrightarrow> seq_ok (grow_gap d n e)"
  by (auto simp: seq_ok_def grow_gap_def split: option.split control.split)

lemma list_all_insert_at: "list_all p q \<Longrightarrow> p x \<Longrightarrow> list_all p (insert_at i x q)"
  by (auto simp: insert_at_def list_all_iff dest: in_set_takeD in_set_dropD)

lemma list_all_update: "list_all p q \<Longrightarrow> p x \<Longrightarrow> list_all p (q[i := x])"
  by (auto simp: list_all_iff dest!: set_update_subset_insert [THEN subsetD])

lemma seq_ok_mark_gap:
  assumes "drop_ok sid a" and "list_all seq_ok (dr_done a)"
  shows "list_all seq_ok (mark_gap sid d a)"
proof -
  have gap: "seq_ok (gap_entry sid d n)" "seq_ok \<lparr>se_session = sid, se_data = x, se_seq = Some 0, se_control = None\<rparr>" for n x
    by (simp_all add: seq_ok_def gap_entry_def)
  have "seq_ok (dr_done a ! i)" if "dr_gap a = Some i" for i
    using assms that by (auto simp: drop_ok_def list_all_length)
  then show ?thesis
    using assms(2) gap
    by (auto simp: mark_gap_def Let_def intro!: list_all_insert_at list_all_update seq_ok_grow split: option.split)
qed

lemma seq_ok_drop:
  assumes "list_all seq_ok (sb_queue b)"
  shows "list_all seq_ok (sb_queue (dropOldestQueuedForSession sal sid keep b))"
proof -
  let ?n = "queued_for b sid - keep"
  let ?a = "drop_loop sal sid (sb_queue b) (start_drop ?n)"
  have "list_all seq_ok (dr_done ?a)" by (rule seq_ok_drop_loop [OF assms]) (simp add: start_drop_def)
  moreover have "0 < ?n \<Longrightarrow> drop_ok sid ?a" by (intro drop_loop_ok drop_ok_start) simp
  ultimately show ?thesis
    using drop_cases [of b sid keep sal] assms by (auto simp: seq_ok_mark_gap)
qed

lemma drop_absent:
  assumes "\<forall>e \<in> set (sb_queue b). se_session e \<noteq> q"
  shows "sb_queue (dropOldestQueuedForSession sal q keep b) = sb_queue b"
proof -
  have "dr_done (drop_loop sal q es a) = dr_done a @ es \<and> dr_left (drop_loop sal q es a) = dr_left a"
    if "\<forall>e \<in> set es. se_session e \<noteq> q" for es a
    using that by (induction es arbitrary: a) auto
  from this [OF assms] show ?thesis
    using drop_cases [of b q keep sal] by (auto simp: start_drop_def)
qed

lemma seq_ok_retrim: "list_all seq_ok (sb_queue b) \<Longrightarrow> list_all seq_ok (sb_queue (retrim env sid cap keep qs b))"
  by (induction env sid cap keep qs b rule: retrim.induct) (auto simp: seq_ok_drop)

lemma retrim_absent:
  "others sid (sb_queue b) = [] \<Longrightarrow> sb_queue (retrim env sid cap keep qs b) = sb_queue b"
proof (induction env sid cap keep qs b rule: retrim.induct)
  case (2 env sid cap keep q n qs b)
  have "q \<noteq> sid \<Longrightarrow> \<forall>e \<in> set (sb_queue b). se_session e \<noteq> q"
    using "2.prems" by (auto simp: others_def filter_empty_conv)
  then show ?case using 2 by (simp add: drop_absent)
qed simp

lemma seq_ok_thin: "list_all seq_ok (sb_queue b) \<Longrightarrow> list_all seq_ok (sb_queue (thin_background env sid b))"
  by (simp add: thin_background_def Let_def seq_ok_retrim seq_ok_drop)

lemma thin_absent:
  "others sid (sb_queue b) = [] \<Longrightarrow> others sid (sb_queue (thin_background env sid b)) = []"
  by (simp add: thin_background_def Let_def retrim_absent drop_others)

lemma drop_timer [simp]: "sb_timer (dropOldestQueuedForSession sal sid keep b) = sb_timer b"
  by (simp add: dropOldestQueuedForSession_def Let_def)

lemma thin_timer [simp]: "sb_timer (thin_background env sid b) = sb_timer b"
proof -
  have "sb_timer (retrim e q cap keep qs c) = sb_timer c" for e q cap keep qs c
    by (induction e q cap keep qs c rule: retrim.induct) auto
  then show ?thesis by (simp add: thin_background_def Let_def)
qed

definition batch_ok :: "jsstr list \<Rightarrow> jsstr \<Rightarrow> stream_batch \<Rightarrow> bool" where
  "batch_ok armed cid b \<longleftrightarrow>
     list_all seq_ok (sb_queue b) \<and> (sb_queue b = [] \<or> sb_timer b \<or> cid \<in> set armed)"

definition batcher_inv :: "batcher \<Rightarrow> bool" where
  "batcher_inv s \<longleftrightarrow> (\<forall>cid. batch_ok (bt_armed s) cid (getOrCreateBatch cid s))"

lemma batch_ok_empty [simp]: "batch_ok armed cid empty_batch"
  by (simp add: batch_ok_def empty_batch_def)

lemma batcher_inv_put: "batcher_inv s \<Longrightarrow> batch_ok (bt_armed s) cid b \<Longrightarrow> batcher_inv (put_batch cid b s)"
  by (auto simp: batcher_inv_def) (simp_all add: put_batch_def)

lemma batcher_inv_drop: "batcher_inv s \<Longrightarrow> batcher_inv (drop_batch cid s)"
  by (auto simp: batcher_inv_def) (simp_all add: drop_batch_def)

lemma batcher_inv_emit: "batcher_inv (emit cid ws s) \<longleftrightarrow> batcher_inv s"
  by (simp add: batcher_inv_def) (simp add: emit_def)

lemma flush_loop_seq_ok:
  "flush_loop off depth q b held ret ws = (b', ret', ws') \<Longrightarrow> list_all seq_ok q \<Longrightarrow> list_all seq_ok ret \<Longrightarrow>
   list_all seq_ok ret'"
proof (induction off depth q b held ret ws rule: flush_loop.induct)
  case (2 off depth e es b held ret ws)
  let ?n = "slice_end (se_data e)"
  show ?case
  proof (cases "se_control e")
    case None
    then show ?thesis
      using 2 seq_ok_trim [of e ?n]
      by (auto simp: flush_loop.simps(2) Let_def split: if_splits)
  next
    case (Some c)
    then show ?thesis using 2 by (auto simp: flush_loop.simps(2) split: if_splits)
  qed
qed (simp add: flush_loop.simps)

lemma batcher_inv_flush:
  assumes "batcher_inv (s\<lparr>bt_armed := x\<rparr>)" and "set (bt_armed s) \<subseteq> set x" and "set x - {cid} \<subseteq> set (bt_armed s)"
  shows "batcher_inv (flush env cid s)"
proof -
  have others: "batch_ok (bt_armed s) c (getOrCreateBatch c s)" if "c \<noteq> cid" for c
    using assms that by (auto simp: batcher_inv_def batch_ok_def)
  show ?thesis
  proof (cases "map_get (bt_pending s) cid")
    case None
    then have "getOrCreateBatch cid s = empty_batch" by (simp add: getOrCreateBatch_def)
    then have "batch_ok (bt_armed s) cid (getOrCreateBatch cid s)" by simp
    then have "batcher_inv s" using others unfolding batcher_inv_def by metis
    then show ?thesis using None by (simp add: flush_def)
  next
    case (Some b0)
    let ?b = "b0\<lparr>sb_timer := False\<rparr>"
    obtain b' ret ws where loop: "flush_loop (be_gate_off env) (be_depth env cid) (sb_queue ?b) ?b [] [] [] = (b', ret, ws)"
      by (metis prod_cases3)
    have "list_all seq_ok (sb_queue b0)"
      using assms(1) Some by (auto simp: batcher_inv_def batch_ok_def getOrCreateBatch_def dest: spec [of _ cid])
    then have ret: "list_all seq_ok ret" using flush_loop_seq_ok [OF loop] by simp
    have drop: "batcher_inv (drop_batch cid t)" if "\<And>c. getOrCreateBatch c t = getOrCreateBatch c s" "bt_armed t = bt_armed s" for t
      using others that by (simp add: batcher_inv_def) (simp add: drop_batch_def that)
    let ?t = "put_batch cid (b'\<lparr>sb_queue := ret\<rparr>) (emit cid ws s)"
    have arm: "batcher_inv (armHeldQueueRefill env cid q ?t)" if "be_live env cid" for q
      unfolding batcher_inv_def
    proof
      fix c
      have "batch_ok (bt_armed (armHeldQueueRefill env cid q ?t)) c (getOrCreateBatch c s)" if "c \<noteq> cid"
        using others [OF that] by (auto simp: batch_ok_def armHeldQueueRefill_def put_batch_def emit_def)
      moreover have "cid \<in> set (bt_armed (armHeldQueueRefill env cid q ?t))"
        using \<open>be_live env cid\<close> by (simp add: armHeldQueueRefill_def put_batch_def emit_def)
      ultimately show "batch_ok (bt_armed (armHeldQueueRefill env cid q ?t)) c (getOrCreateBatch c (armHeldQueueRefill env cid q ?t))"
        using ret by (cases "c = cid") (auto simp: armHeldQueueRefill_def batch_ok_def)
    qed
    show ?thesis
      using Some loop arm drop [of s] drop [of "emit cid ws s"]
      by (auto simp: flush_def Let_def) (auto simp: emit_def)
  qed
qed

lemma batcher_inv_flushSession:
  assumes "\<And>c. c \<noteq> cid \<Longrightarrow> batch_ok (bt_armed s) c (getOrCreateBatch c s)"
    and "list_all seq_ok (queue_of cid s)"
    and "others sid (queue_of cid s) = [] \<and> filter (\<lambda>e. se_session e = sid) (queue_of cid s) \<noteq> [] \<or> queue_of cid s = []
         \<or> sb_timer (getOrCreateBatch cid s) \<or> cid \<in> set (bt_armed s)"
  shows "batcher_inv (flushSession env cid sid s)"
proof -
  have all: "batcher_inv t" if "\<And>c. c \<noteq> cid \<Longrightarrow> getOrCreateBatch c t = getOrCreateBatch c s" "bt_armed t = bt_armed s"
    "batch_ok (bt_armed s) cid (getOrCreateBatch cid t)" for t
    using assms(1) that unfolding batcher_inv_def by metis
  show ?thesis
  proof (cases "map_get (bt_pending s) cid")
    case None
    then have "getOrCreateBatch cid s = empty_batch" by (simp add: getOrCreateBatch_def)
    then show ?thesis using None all [of s] by (simp add: flushSession_def)
  next
    case (Some b)
    let ?f = "filter (\<lambda>e. se_session e = sid) (sb_queue b)" and ?r = "filter (\<lambda>e. se_session e \<noteq> sid) (sb_queue b)"
    note q = queue_of_get [OF Some]
    have g: "getOrCreateBatch cid s = b" using Some by (simp add: getOrCreateBatch_def)
    have r: "list_all seq_ok ?r" using assms(2) q by (auto simp: list_all_iff)
    show ?thesis
    proof (cases "?f = []")
      case True
      then have "batch_ok (bt_armed s) cid b" using assms(2,3) q g by (auto simp: batch_ok_def)
      then show ?thesis using True Some g all [of s] by (simp add: flushSession_def Let_def)
    next
      case False
      have "?r = [] \<or> sb_timer b \<or> cid \<in> set (bt_armed s)"
        using assms(3) q g by (auto simp: others_def)
      then show ?thesis
        using Some False r
        by (intro all) (auto simp: flushSession_def Let_def batch_ok_def put_batch_def drop_batch_def emit_def getOrCreateBatch_def empty_batch_def)
    qed
  qed
qed

lemma batcher_inv_empty: "batcher_inv empty_batcher"
  by (simp add: batcher_inv_def empty_batcher_def getOrCreateBatch_def)

lemma batcher_inv_enqueue:
  assumes "batcher_inv s"
  shows "batcher_inv (enqueue env cid sid data now mx s)"
proof -
  let ?o = "getOrCreateBatch cid s"
  let ?b = "thin_background env sid (queue_data sid data ?o)"
  have o: "batch_ok (bt_armed s) c (getOrCreateBatch c s)" for c using assms by (simp add: batcher_inv_def)
  have ok: "list_all seq_ok (sb_queue ?b)"
    using o [of cid] by (intro seq_ok_thin) (simp add: queue_data_def seq_ok_push_data batch_ok_def)
  have timer: "batcher_inv (put_batch cid (?b\<lparr>sb_timer := True\<rparr>) s)"
    using ok by (intro batcher_inv_put [OF assms]) (simp add: batch_ok_def)
  have "batcher_inv (flushSession env cid sid (put_batch cid ?b s))"
  proof (rule batcher_inv_flushSession)
    show "list_all seq_ok (queue_of cid (put_batch cid ?b s))" using ok by simp
    show "batch_ok (bt_armed (put_batch cid ?b s)) c (getOrCreateBatch c (put_batch cid ?b s))" if "c \<noteq> cid" for c
      using o [of c] that by simp (simp add: put_batch_def)
    have t: "sb_timer (queue_data sid data ?o) = sb_timer ?o" by (simp add: queue_data_def)
    show "others sid (queue_of cid (put_batch cid ?b s)) = [] \<and>
        filter (\<lambda>e. se_session e = sid) (queue_of cid (put_batch cid ?b s)) \<noteq> [] \<or>
      queue_of cid (put_batch cid ?b s) = [] \<or> sb_timer (getOrCreateBatch cid (put_batch cid ?b s)) \<or>
      cid \<in> set (bt_armed (put_batch cid ?b s))"
    proof (cases "sb_queue ?o = []")
      case True
      have o: "others sid (sb_queue ?b) = []"
        using True by (intro thin_absent) (simp add: queue_data_def push_data_def)
      then have "filter (\<lambda>e. se_session e = sid) (sb_queue ?b) = sb_queue ?b"
        by (auto simp: others_def filter_empty_conv)
      then show ?thesis using o by auto
    next
      case False
      then have "sb_timer ?o \<or> cid \<in> set (bt_armed s)" using o [of cid] by (simp add: batch_ok_def)
      then show ?thesis using t by (auto simp: put_batch_def getOrCreateBatch_def)
    qed
  qed
  then show ?thesis using assms timer by (simp add: enqueue_def Let_def)
qed

interpretation sb: event_machine batcher_step batcher_inv
proof
  fix s and ev :: "batcher_env \<times> batcher_op"
  assume inv: "batcher_inv s"
  obtain env op where ev: "ev = (env, op)" by (cases ev)
  show "batcher_inv (batcher_step ev s)"
  proof (cases op)
    case (Enqueue c q data now mx)
    then show ?thesis using inv ev by (simp add: batcher_inv_enqueue)
  next
    case (EnqueueControl c q ctl)
    have "batch_ok (bt_armed s) c (getOrCreateBatch c s)" using inv by (simp add: batcher_inv_def)
    then show ?thesis
      using EnqueueControl inv ev
      by (auto simp: enqueueControlEvent_def Let_def batch_ok_def seq_ok_def intro!: batcher_inv_put)
  next
    case (Flush c)
    then show ?thesis using inv ev batcher_inv_flush [where s = s and x = "bt_armed s" and cid = c and env = env] by simp
  next
    case (RefillWritten c)
    have "batcher_inv (flush env c (s\<lparr>bt_armed := filter (\<lambda>d. d \<noteq> c) (bt_armed s)\<rparr>))"
      using inv by (intro batcher_inv_flush [where x = "bt_armed s"]) auto
    then show ?thesis using RefillWritten ev by (simp add: refill_written_def)
  next
    case (Clear t)
    then show ?thesis using inv ev
      by (cases t) (auto simp: clear_def batcher_inv_drop, simp add: batcher_inv_def getOrCreateBatch_def)
  qed
qed

text \<open>
  No wake-up is lost.  After any sequence of operations, a client with queued output has its flush
  timer set or a refill write under way whose callback flushes again.
\<close>

theorem no_lost_wakeup:
  "queue_of cid (run_events batcher_step es empty_batcher) = [] \<or>
   sb_timer (getOrCreateBatch cid (run_events batcher_step es empty_batcher)) \<or>
   cid \<in> set (bt_armed (run_events batcher_step es empty_batcher))"
  using sb.inv_run [OF batcher_inv_empty, of es] by (simp add: batcher_inv_def batch_ok_def queue_of_def)


subsection \<open>Bulk output waits for the socket\<close>

definition chars_written :: "jsstr \<Rightarrow> sock_write list \<Rightarrow> int" where
  "chars_written sid ws =
     sum_list (map (\<lambda>w. case w of WData s d _ \<Rightarrow> if s = sid then int (length d) else 0 | _ \<Rightarrow> 0) ws)"

lemma chars_written_simps [simp]:
  "chars_written sid [] = 0"
  "chars_written sid (WControl s c # ws) = chars_written sid ws"
  "chars_written sid (WData s d n # ws) = (if s = sid then int (length d) else 0) + chars_written sid ws"
  by (simp_all add: chars_written_def)

lemma queued_for_charge: "queued_for b sid \<le> queued_for (charge_slice s n b) sid + (if s = sid then int n else 0)"
  by (auto simp: charge_slice_def queued_for_def Let_def split: option.split)

lemma slice_end_le: "slice_end d \<le> length d"
  using clamp_le [of d 0 BULK_WRITE_SLICE_CHARS] by (auto simp: slice_end_def)

text \<open>Every data write of the loop: the gate was open, or the valve was, or the session was small by then.\<close>

definition bulk_rule :: "bool \<Rightarrow> (sock_write list \<Rightarrow> nat) \<Rightarrow> stream_batch \<Rightarrow> sock_write list \<Rightarrow> sock_write list \<Rightarrow> bool" where
  "bulk_rule off depth b ws vs \<longleftrightarrow>
     (\<forall>us sid d n rest. vs = us @ WData sid d n # rest \<longrightarrow>
        \<not> socket_deep off (depth (ws @ us)) \<or> HELD_WRITE_THROUGH_TOTAL_CHARS < sb_chars b \<or>
        queued_for b sid \<le> SMALL_SESSION_HOLD_BYPASS_CHARS + chars_written sid us)"

lemma bulk_rule_Nil [simp]: "bulk_rule off depth b ws []"
  by (simp add: bulk_rule_def)

lemma bulk_rule_control:
  assumes "bulk_rule off depth b (ws @ [WControl s c]) vs"
  shows "bulk_rule off depth b ws (WControl s c # vs)"
  unfolding bulk_rule_def
proof (intro allI impI)
  fix us sid e m rest
  assume "WControl s c # vs = us @ WData sid e m # rest"
  then obtain us' where "us = WControl s c # us'" "vs = us' @ WData sid e m # rest" by (cases us) auto
  then show "\<not> socket_deep off (depth (ws @ us)) \<or> HELD_WRITE_THROUGH_TOTAL_CHARS < sb_chars b \<or>
        queued_for b sid \<le> SMALL_SESSION_HOLD_BYPASS_CHARS + chars_written sid us"
    using assms by (auto simp: bulk_rule_def dest!: spec [of _ us'])
qed

lemma bulk_rule_data:
  assumes "bulk_rule off depth (charge_slice s n b) (ws @ [WData s d k]) vs" and "length d = n"
    and "\<not> hold_entry (socket_deep off (depth ws)) held b s"
  shows "bulk_rule off depth b ws (WData s d k # vs)"
  unfolding bulk_rule_def
proof (intro allI impI)
  fix us sid e m rest
  assume eq: "WData s d k # vs = us @ WData sid e m # rest"
  show "\<not> socket_deep off (depth (ws @ us)) \<or> HELD_WRITE_THROUGH_TOTAL_CHARS < sb_chars b \<or>
        queued_for b sid \<le> SMALL_SESSION_HOLD_BYPASS_CHARS + chars_written sid us"
  proof (cases us)
    case Nil
    then show ?thesis using eq assms(3) by (auto simp: hold_entry_def)
  next
    case (Cons u us')
    then have "u = WData s d k" "vs = us' @ WData sid e m # rest" using eq by auto
    then show ?thesis
      using assms(1,2) Cons queued_for_charge [of b sid s n]
      by (auto simp: bulk_rule_def dest!: spec [of _ us'] split: if_splits)
  qed
qed

lemma flush_loop_bulk:
  "flush_loop off depth q b held ret ws = (b', ret', ws') \<Longrightarrow> \<exists>vs. ws' = ws @ vs \<and> bulk_rule off depth b ws vs"
proof (induction off depth q b held ret ws rule: flush_loop.induct)
  case (1 off depth b held ret ws)
  then show ?case by (simp add: flush_loop.simps)
next
  case (2 off depth e es b held ret ws)
  let ?sid = "se_session e" and ?n = "slice_end (se_data e)"
  show ?case
  proof (cases "se_control e")
    case (Some c)
    then show ?thesis
      using 2 by (auto simp: flush_loop.simps(2) split: if_splits) (blast intro: bulk_rule_control)
  next
    case None
    show ?thesis
    proof (cases "hold_entry (socket_deep off (depth ws)) held b ?sid")
      case True
      then show ?thesis using 2 None by (simp add: flush_loop.simps(2))
    next
      case False
      let ?w = "WData ?sid (take ?n (se_data e)) (if seq_chars e = 0 then 0 else ?n)"
      have "\<exists>vs. ws' = (ws @ [?w]) @ vs \<and> bulk_rule off depth (charge_slice ?sid ?n b) (ws @ [?w]) vs"
        using "2.IH"(2,3) [OF None False refl refl refl refl] "2.prems" None False
        by (auto simp: flush_loop.simps(2) Let_def split: if_splits)
      then obtain vs where vs: "ws' = ws @ ?w # vs" "bulk_rule off depth (charge_slice ?sid ?n b) (ws @ [?w]) vs" by auto
      then show ?thesis using bulk_rule_data [OF vs(2) _ False] slice_end_le [of "se_data e"] by auto
    qed
  qed
qed

text \<open>
  Bulk output waits.  A flush that finds less than the valve's total queued writes output of a
  session onto a socket holding 128 KB or more only when at most 4096 queued characters of that session were
  left at that point.
\<close>

theorem bulk_is_held:
  assumes "map_get (bt_pending s) cid = Some b" and "sb_chars b \<le> HELD_WRITE_THROUGH_TOTAL_CHARS"
    and "\<not> be_gate_off env" and "128 * 1024 \<le> be_depth env cid us"
    and "bt_out (flush env cid s) = bt_out s @ map (Pair cid) (us @ WData sid d n # rest)"
  shows "queued_for b sid \<le> 4096 + chars_written sid us"
proof -
  let ?b = "b\<lparr>sb_timer := False\<rparr>"
  obtain b' ret ws where loop: "flush_loop (be_gate_off env) (be_depth env cid) (sb_queue ?b) ?b [] [] [] = (b', ret, ws)"
    by (metis prod_cases3)
  have bulk: "bulk_rule (be_gate_off env) (be_depth env cid) ?b [] ws"
    using flush_loop_bulk [OF loop] by simp
  have out: "bt_out (flush env cid s) = bt_out s @ map (Pair cid) ws \<or>
      bt_out (flush env cid s) = bt_out s @ map (Pair cid) (ws @ [WRefill (se_session (hd ret))]) \<or>
      bt_out (flush env cid s) = bt_out s"
    using assms(1) loop
    by (auto simp: flush_def Let_def armHeldQueueRefill_def emit_def put_batch_def drop_batch_def)
  have inj: "map (Pair cid) x = map (Pair cid) y \<Longrightarrow> x = y" for x y :: "sock_write list"
    by (simp add: inj_on_def inj_map_eq_map)
  obtain rest' where "ws = us @ WData sid d n # rest'"
  proof -
    have "us @ WData sid d n # rest = ws \<or> us @ WData sid d n # rest = ws @ [WRefill (se_session (hd ret))]"
      using out assms(5) inj [of "us @ WData sid d n # rest" ws]
        inj [of "us @ WData sid d n # rest" "ws @ [WRefill (se_session (hd ret))]"] by auto
    then show thesis
    proof
      assume r: "us @ WData sid d n # rest = ws @ [WRefill (se_session (hd ret))]"
      then show thesis using that by (cases rest rule: rev_cases) auto
    qed (use that in auto)
  qed
  then have "\<not> socket_deep (be_gate_off env) (be_depth env cid us) \<or> HELD_WRITE_THROUGH_TOTAL_CHARS < sb_chars b \<or>
      queued_for b sid \<le> SMALL_SESSION_HOLD_BYPASS_CHARS + chars_written sid us"
    using bulk by (simp add: bulk_rule_def queued_for_def)
  then show ?thesis
    using assms(2-4)
    by (auto simp: socket_deep_def SHALLOW_SOCKET_WRITE_GATE_BYTES_def SMALL_SESSION_HOLD_BYPASS_CHARS_def)
qed

subsection \<open>Witnesses\<close>

text \<open>A client with an empty socket, and one whose socket is deep; no background sessions.\<close>

definition test_env :: "nat \<Rightarrow> batcher_env" where
  "test_env n = \<lparr>be_live = (\<lambda>_. True), be_depth = (\<lambda>_ _. n), be_droppable = (\<lambda>_. False),
     be_salvage = (\<lambda>_. []), be_gate_off = False\<rparr>"

definition test_ops :: "(batcher_env \<times> batcher_op) list" where
  "test_ops = [(test_env 0, Enqueue [1] [7] [65, 66] False None), (test_env 0, EnqueueControl [1] [8] (OtherControl JNull)),
     (test_env 0, Enqueue [1] [7] [67] False None), (test_env 0, Flush [1])]"

theorem batcher_lossless_witness:
  "written [7] (writes_to [1] (run_events batcher_step test_ops empty_batcher)) @
   content [7] (queue_of [1] (run_events batcher_step test_ops empty_batcher)) = map Inl [65, 66, 67]"
proof -
  have "list_all (kept_event [1] [7]) test_ops"
    by (simp add: test_ops_def kept_event_def test_env_def stays_deep_def)
  then show ?thesis
    using batcher_lossless [of "[1]" "[7]" test_ops] by (simp add: test_ops_def)
qed

definition small_batcher :: batcher where
  "small_batcher = empty_batcher\<lparr>bt_pending := [([1], one_entry_batch [65, 66] 2)]\<rparr>"

lemma small_flush:
  "bt_out (flush (test_env 200000) [1] small_batcher) = bt_out small_batcher @ map (Pair [1]) ([] @ WData [7] [65, 66] 2 # [])"
  by (simp add: flush_def small_batcher_def map_get_def one_entry_batch_def test_env_def empty_batcher_def Let_def
      flush_loop.simps hold_entry_def queued_for_def SMALL_SESSION_HOLD_BYPASS_CHARS_def slice_end_def
      BULK_WRITE_SLICE_CHARS_def seq_chars_def emit_def drop_batch_def)

theorem bulk_is_held_witness: "queued_for (one_entry_batch [65, 66] 2) [7] \<le> 4096"
proof -
  have 1: "map_get (bt_pending small_batcher) [1] = Some (one_entry_batch [65, 66] 2)"
    by (simp add: small_batcher_def map_get_def)
  have 2: "sb_chars (one_entry_batch [65, 66] 2) \<le> HELD_WRITE_THROUGH_TOTAL_CHARS"
    by (simp add: one_entry_batch_def HELD_WRITE_THROUGH_TOTAL_CHARS_def)
  have 3: "\<not> be_gate_off (test_env 200000)" "128 * 1024 \<le> be_depth (test_env 200000) [1] []"
    by (simp_all add: test_env_def)
  show ?thesis using bulk_is_held [OF 1 2 3 small_flush] by simp
qed

text \<open>
  The latch of held sessions is only consulted while the socket is deep: were \<open>writableLength\<close> to fall below
  the gate during a pass, a session's later entry would overtake its held one.
\<close>

lemma latch_needs_a_deep_socket:
  "let e = \<lambda>sid d. \<lparr>se_session = sid, se_data = d, se_seq = None, se_control = None\<rparr>;
       depth = \<lambda>ws. if ws = [] then 200000 else (0 :: nat);
       b = empty_batch\<lparr>sb_by_session := [([7], 5000), ([8], 1)]\<rparr>
   in snd (flush_loop False depth [e [7] [65], e [8] [66], e [7] [67]] b [] [] []) =
        ([e [7] [65]], [WData [8] [66] 1, WData [7] [67] 1])"
  by (simp add: Let_def flush_loop.simps hold_entry_def queued_for_def SMALL_SESSION_HOLD_BYPASS_CHARS_def
      slice_end_def BULK_WRITE_SLICE_CHARS_def seq_chars_def map_get_def empty_batch_def socket_deep_def
      SHALLOW_SOCKET_WRITE_GATE_BYTES_def HELD_WRITE_THROUGH_TOTAL_CHARS_def)

end
