(* ===== verification/Orch_Schema.thy ===== *)
theory Orch_Schema
  imports Main "HOL-Library.Monad_Syntax"
begin

text \<open>
  Opening the orchestration store, \<open>createTables\<close> and \<open>migrate\<close> of \<open>src/main/runtime/orchestration/db.ts\<close>, as
  operations on the schema: the tables with their columns, constraints and rows (the text of the value of each column
  that is not NULL) and the indexes.  A statement the database refuses is \<open>None\<close>.
\<close>

subsection \<open>Schemas and statements\<close>

record sql_table =
  tb_columns :: "string list"
  tb_checks :: "(string \<times> string list) list"  \<comment> \<open>\<open>CHECK(column IN (values))\<close>\<close>
  tb_required :: "string list"               \<comment> \<open>\<open>NOT NULL\<close>\<close>
  tb_key :: string                           \<comment> \<open>\<open>PRIMARY KEY\<close>\<close>
  tb_rows :: "(string \<rightharpoonup> string) list"

type_synonym sql_index = "string \<times> string \<times> string list \<times> bool"   \<comment> \<open>name, table, columns, unique\<close>

record sql_schema =
  sc_version :: int                       \<comment> \<open>\<open>user_version\<close>\<close>
  sc_tables :: "string \<rightharpoonup> sql_table"
  sc_indexes :: "sql_index list"

text \<open>A table is created from its shape, a table without rows.\<close>

definition create_table_if_absent :: "string \<Rightarrow> sql_table \<Rightarrow> sql_schema \<Rightarrow> sql_schema" where
  "create_table_if_absent t shape s =
     (if sc_tables s t = None then s\<lparr>sc_tables := (sc_tables s)(t \<mapsto> shape)\<rparr> else s)"

definition create_index :: "sql_index \<Rightarrow> sql_schema \<Rightarrow> sql_schema option" where
  "create_index i s =
     (case i of (name, t, cols, unique) \<Rightarrow>
        (case sc_tables s t of
           None \<Rightarrow> None
         | Some tb \<Rightarrow> if name \<in> fst ` set (sc_indexes s) \<or> \<not> set cols \<subseteq> set (tb_columns tb) \<or>
                         (unique \<and> \<not> distinct (map (\<lambda>r. map r cols) (tb_rows tb))) then None
                      else Some (s\<lparr>sc_indexes := sc_indexes s @ [i]\<rparr>)))"

definition create_index_if_absent :: "sql_index \<Rightarrow> sql_schema \<Rightarrow> sql_schema option" where
  "create_index_if_absent i s = (if fst i \<in> fst ` set (sc_indexes s) then Some s else create_index i s)"

fun run_all :: "('s \<Rightarrow> 's option) list \<Rightarrow> 's \<Rightarrow> 's option" where
  "run_all [] s = Some s"
| "run_all (f # fs) s = (case f s of None \<Rightarrow> None | Some s' \<Rightarrow> run_all fs s')"

definition add_column :: "string \<Rightarrow> string \<Rightarrow> sql_schema \<Rightarrow> sql_schema option" where
  "add_column t c s =
     (case sc_tables s t of
        None \<Rightarrow> None
      | Some tb \<Rightarrow> if c \<in> set (tb_columns tb) then None
                   else Some (s\<lparr>sc_tables := (sc_tables s)(t \<mapsto> tb\<lparr>tb_columns := tb_columns tb @ [c]\<rparr>)\<rparr>))"

text \<open>Whether a table of this shape takes a row: a check lets NULL through.\<close>

definition accepts_row :: "sql_table \<Rightarrow> (string \<rightharpoonup> string) \<Rightarrow> bool" where
  "accepts_row shape r \<longleftrightarrow>
     (\<forall>(c, vs) \<in> set (tb_checks shape). case r c of None \<Rightarrow> True | Some v \<Rightarrow> v \<in> set vs) \<and>
     (\<forall>c \<in> set (tb_required shape). r c \<noteq> None)"

text \<open>
  The rebuild of one table under a new shape: create, copy the given columns, drop, rename.  A row the new table does
  not take stops the copy.
\<close>

definition rebuild_table :: "string \<Rightarrow> sql_table \<Rightarrow> string list \<Rightarrow> sql_schema \<Rightarrow> sql_schema option" where
  "rebuild_table t shape copied s =
     (case sc_tables s t of
        None \<Rightarrow> None
      | Some tb \<Rightarrow>
          let rows = map (\<lambda>r. r |` set copied) (tb_rows tb)
          in if sc_tables s (t @ ''_new'') \<noteq> None \<or> \<not> set copied \<subseteq> set (tb_columns tb) \<or>
                \<not> list_all (accepts_row shape) rows \<or> \<not> distinct (map (\<lambda>r. r (tb_key shape)) rows) then None
             else Some (s\<lparr>sc_tables := (sc_tables s)(t \<mapsto> shape\<lparr>tb_rows := rows\<rparr>),
                          sc_indexes := filter (\<lambda>(_, u, _, _). u \<noteq> t) (sc_indexes s)\<rparr>))"

subsection \<open>Creating the tables\<close>

definition message_types :: "string list" where
  "message_types = [''status'', ''dispatch'', ''worker_done'', ''merge_ready'', ''escalation'', ''handoff'',
     ''decision_gate'', ''heartbeat'']"

definition rebuilt_columns :: "string list" where
  "rebuilt_columns = [''id'', ''from_handle'', ''to_handle'', ''subject'', ''body'', ''type'', ''priority'', ''thread_id'',
     ''payload'', ''read'', ''sequence'', ''created_at'']"

definition message_columns :: "string list" where
  "message_columns = rebuilt_columns @ [''delivered_at'', ''sender_pane_key'']"

definition task_columns :: "string list" where
  "task_columns = [''id'', ''parent_id'', ''created_by_terminal_handle'', ''task_title'', ''display_name'', ''spec'',
     ''status'', ''deps'', ''result'', ''created_at'', ''completed_at'']"

definition dispatch_columns :: "string list" where
  "dispatch_columns = [''id'', ''task_id'', ''assignee_handle'', ''assignee_pane_key'', ''status'', ''failure_count'',
     ''last_failure'', ''dispatched_at'', ''completed_at'', ''created_at'', ''last_heartbeat_at'']"

definition gate_columns :: "string list" where
  "gate_columns = [''id'', ''task_id'', ''question'', ''options'', ''status'', ''resolution'', ''created_at'', ''resolved_at'']"

definition run_columns :: "string list" where
  "run_columns = [''id'', ''spec'', ''status'', ''coordinator_handle'', ''poll_interval_ms'', ''created_at'', ''completed_at'']"

text \<open>The tables as they are created.\<close>

definition message_required :: "string list" where
  "message_required = [''id'', ''from_handle'', ''to_handle'', ''subject'', ''body'', ''type'', ''priority'', ''read'', ''created_at'']"

definition message_table :: "string list \<Rightarrow> sql_table" where
  "message_table cols = \<lparr>tb_columns = cols, tb_checks = [(''type'', message_types), (''priority'', [''normal'', ''high'', ''urgent''])],
     tb_required = message_required, tb_key = ''sequence'', tb_rows = []\<rparr>"

definition task_table :: sql_table where
  "task_table = \<lparr>tb_columns = task_columns,
     tb_checks = [(''status'', [''pending'', ''ready'', ''dispatched'', ''completed'', ''failed'', ''blocked''])],
     tb_required = [''spec'', ''status'', ''deps'', ''created_at''], tb_key = ''id'', tb_rows = []\<rparr>"

definition dispatch_table :: sql_table where
  "dispatch_table = \<lparr>tb_columns = dispatch_columns,
     tb_checks = [(''status'', [''pending'', ''dispatched'', ''completed'', ''failed'', ''circuit_broken''])],
     tb_required = [''task_id'', ''status'', ''failure_count'', ''created_at''], tb_key = ''id'', tb_rows = []\<rparr>"

definition gate_table :: sql_table where
  "gate_table = \<lparr>tb_columns = gate_columns, tb_checks = [(''status'', [''pending'', ''resolved'', ''timeout''])],
     tb_required = [''task_id'', ''question'', ''options'', ''status'', ''created_at''], tb_key = ''id'', tb_rows = []\<rparr>"

definition run_table :: sql_table where
  "run_table = \<lparr>tb_columns = run_columns, tb_checks = [(''status'', [''idle'', ''running'', ''completed'', ''failed''])],
     tb_required = [''spec'', ''status'', ''coordinator_handle'', ''poll_interval_ms'', ''created_at''], tb_key = ''id'', tb_rows = []\<rparr>"

definition undelivered_index :: sql_index where
  "undelivered_index = (''idx_messages_undelivered_inbox'', ''messages'', [''to_handle'', ''read'', ''delivered_at'', ''sequence''], False)"

definition message_indexes :: "sql_index list" where
  "message_indexes = [(''idx_messages_id'', ''messages'', [''id''], True), (''idx_inbox'', ''messages'', [''to_handle'', ''read''], False),
     (''idx_thread'', ''messages'', [''thread_id''], False)]"

definition other_indexes :: "sql_index list" where
  "other_indexes = [(''idx_tasks_status'', ''tasks'', [''status''], False), (''idx_tasks_parent'', ''tasks'', [''parent_id''], False),
     (''idx_dispatch_task'', ''dispatch_contexts'', [''task_id''], False), (''idx_dispatch_status'', ''dispatch_contexts'', [''status''], False),
     (''idx_gates_task'', ''decision_gates'', [''task_id''], False), (''idx_gates_status'', ''decision_gates'', [''status''], False)]"

definition hasColumn :: "string \<Rightarrow> string \<Rightarrow> sql_schema \<Rightarrow> bool" where
  "hasColumn t c s = (case sc_tables s t of None \<Rightarrow> False | Some tb \<Rightarrow> c \<in> set (tb_columns tb))"

definition createUndeliveredInboxIndexIfPossible :: "sql_schema \<Rightarrow> sql_schema option" where
  "createUndeliveredInboxIndexIfPossible s =
     (if \<not> hasColumn ''messages'' ''delivered_at'' s then Some s else create_index_if_absent undelivered_index s)"

text \<open>
  The statements of \<open>createTables\<close> in their order; an index is created after its table, and the tables do not
  depend on one another.
\<close>

definition createTables :: "sql_schema \<Rightarrow> sql_schema option" where
  "createTables s = do {
     s \<leftarrow> Some (create_table_if_absent ''messages'' (message_table message_columns) s);
     s \<leftarrow> run_all (map create_index_if_absent message_indexes) s;
     s \<leftarrow> Some (create_table_if_absent ''tasks'' task_table s);
     s \<leftarrow> run_all (map create_index_if_absent (take 2 other_indexes)) s;
     s \<leftarrow> Some (create_table_if_absent ''dispatch_contexts'' dispatch_table s);
     s \<leftarrow> run_all (map create_index_if_absent (take 2 (drop 2 other_indexes))) s;
     s \<leftarrow> Some (create_table_if_absent ''decision_gates'' gate_table s);
     s \<leftarrow> run_all (map create_index_if_absent (drop 4 other_indexes)) s;
     s \<leftarrow> Some (create_table_if_absent ''coordinator_runs'' run_table s);
     createUndeliveredInboxIndexIfPossible s
   }"

subsection \<open>Migrating\<close>

definition SCHEMA_VERSION :: int where
  "SCHEMA_VERSION = 6"

definition messagesTypeCheckAllowsHeartbeat :: "sql_schema \<Rightarrow> bool" where
  "messagesTypeCheckAllowsHeartbeat s =
     (case sc_tables s ''messages'' of
        None \<Rightarrow> False
      | Some tb \<Rightarrow> \<exists>(_, vs) \<in> set (tb_checks tb). ''heartbeat'' \<in> set vs)"

text \<open>\<open>if (!this.hasColumn(t, c)) ALTER TABLE t ADD COLUMN c\<close>\<close>

definition ensure_column :: "string \<Rightarrow> string \<Rightarrow> sql_schema \<Rightarrow> sql_schema option" where
  "ensure_column t c s = (if \<not> hasColumn t c s then add_column t c s else Some s)"

definition rebuild_messages :: "sql_schema \<Rightarrow> sql_schema option" where
  "rebuild_messages s = do {
     s \<leftarrow> rebuild_table ''messages'' (message_table (rebuilt_columns @ [''delivered_at''])) rebuilt_columns s;
     run_all (map create_index [message_indexes ! 0, message_indexes ! 1, undelivered_index, message_indexes ! 2]) s
   }"

definition migration :: "int \<Rightarrow> sql_schema \<Rightarrow> sql_schema option" where
  "migration current s = do {
     s \<leftarrow> (if current < 2 then do {
              s \<leftarrow> ensure_column ''dispatch_contexts'' ''last_heartbeat_at'' s;
              (if \<not> messagesTypeCheckAllowsHeartbeat s then rebuild_messages s else Some s)
            } else Some s);
     s \<leftarrow> (if current < 3 then ensure_column ''messages'' ''delivered_at'' s else Some s);
     s \<leftarrow> (if current < 4 then ensure_column ''tasks'' ''created_by_terminal_handle'' s else Some s);
     s \<leftarrow> (if current < 5 then do {
              s \<leftarrow> ensure_column ''tasks'' ''task_title'' s;
              ensure_column ''tasks'' ''display_name'' s
            } else Some s);
     s \<leftarrow> (if current < 6 then do {
              s \<leftarrow> ensure_column ''dispatch_contexts'' ''assignee_pane_key'' s;
              ensure_column ''messages'' ''sender_pane_key'' s
            } else Some s);
     s \<leftarrow> createUndeliveredInboxIndexIfPossible s;
     Some (s\<lparr>sc_version := SCHEMA_VERSION\<rparr>)
   }"

text \<open>\<open>migrate\<close>: the schema afterwards and whether it threw; a failed transaction is rolled back.\<close>

definition migrate :: "sql_schema \<Rightarrow> sql_schema \<times> bool" where
  "migrate s =
     (if sc_version s \<ge> SCHEMA_VERSION then (s, False)
      else (case migration (sc_version s) s of None \<Rightarrow> (s, True) | Some s' \<Rightarrow> (s', False)))"

definition open_store :: "sql_schema \<Rightarrow> sql_schema option" where
  "open_store s =
     (case createTables s of
        None \<Rightarrow> None
      | Some s' \<Rightarrow> (case migrate s' of (s'', thrown) \<Rightarrow> if thrown then None else Some s''))"

subsection \<open>Index creation\<close>

definition indexable :: "sql_schema \<Rightarrow> sql_index \<Rightarrow> bool" where
  "indexable s i \<longleftrightarrow> (case i of (name, t, cols, unique) \<Rightarrow>
     \<exists>tb. sc_tables s t = Some tb \<and> set cols \<subseteq> set (tb_columns tb) \<and>
       (unique \<longrightarrow> distinct (map (\<lambda>r. map r cols) (tb_rows tb))))"

lemma indexable_cong: "sc_tables s = sc_tables s' \<Longrightarrow> indexable s i = indexable s' i"
  by (simp add: indexable_def)

lemma create_index_ok:
  "indexable s i \<Longrightarrow> fst i \<notin> fst ` set (sc_indexes s) \<Longrightarrow> create_index i s = Some (s\<lparr>sc_indexes := sc_indexes s @ [i]\<rparr>)"
  by (auto simp: create_index_def indexable_def split: prod.splits)

text \<open>What creating indexes does to a schema.\<close>

definition indexed :: "sql_index list \<Rightarrow> sql_schema \<Rightarrow> sql_schema \<Rightarrow> bool" where
  "indexed is s s' \<longleftrightarrow> sc_tables s' = sc_tables s \<and> sc_version s' = sc_version s \<and>
     fst ` set (sc_indexes s') = fst ` set (sc_indexes s) \<union> fst ` set is \<and>
     set (sc_indexes s) \<subseteq> set (sc_indexes s') \<and> set (sc_indexes s') \<subseteq> set (sc_indexes s) \<union> set is"

lemma create_index_if_absent_ok:
  "indexable s i \<Longrightarrow> \<exists>s'. create_index_if_absent i s = Some s' \<and> indexed [i] s s'"
  using create_index_ok [of s i] by (auto simp: create_index_if_absent_def indexed_def)

lemma run_if_absent:
  "list_all (indexable s) is \<Longrightarrow> \<exists>s'. run_all (map create_index_if_absent is) s = Some s' \<and> indexed is s s'"
proof (induction "is" arbitrary: s)
  case (Cons i "is")
  obtain s1 where s1: "create_index_if_absent i s = Some s1" "indexed [i] s s1"
    using create_index_if_absent_ok [of s i] Cons.prems by auto
  have "list_all (indexable s1) is"
    using Cons.prems s1(2) indexable_cong [of s1 s] by (simp add: indexed_def list_all_iff)
  then obtain s2 where "run_all (map create_index_if_absent is) s1 = Some s2" "indexed is s1 s2"
    using Cons.IH by blast
  then show ?case using s1 by (intro exI [of _ s2]) (auto simp: indexed_def)
qed (simp add: indexed_def)

lemma run_create:
  "list_all (indexable s) is \<Longrightarrow> distinct (map fst is) \<Longrightarrow> fst ` set is \<inter> fst ` set (sc_indexes s) = {} \<Longrightarrow>
   \<exists>s'. run_all (map create_index is) s = Some s' \<and> indexed is s s'"
proof (induction "is" arbitrary: s)
  case (Cons i "is")
  let ?s = "s\<lparr>sc_indexes := sc_indexes s @ [i]\<rparr>"
  have c: "create_index i s = Some ?s" using Cons.prems by (intro create_index_ok) auto
  have "list_all (indexable ?s) is" using Cons.prems indexable_cong [of ?s s] by (simp add: list_all_iff)
  moreover have "distinct (map fst is)" "fst ` set is \<inter> fst ` set (sc_indexes ?s) = {}" using Cons.prems by auto
  ultimately obtain s2 where "run_all (map create_index is) ?s = Some s2" "indexed is ?s s2"
    using Cons.IH [of ?s] by blast
  then show ?case using c by (intro exI [of _ s2]) (auto simp: indexed_def)
qed (simp add: indexed_def)

subsection \<open>Stores that can be opened\<close>

text \<open>
  What the tables of every version have in common, what later versions added, and the constraints and indexes the
  code relies on, all written down here on their own.
\<close>

definition table_names :: "string list" where
  "table_names = [''messages'', ''tasks'', ''dispatch_contexts'', ''decision_gates'', ''coordinator_runs'']"

definition base_columns :: "string \<Rightarrow> string list" where
  "base_columns t =
     (if t = ''messages'' then [''id'', ''from_handle'', ''to_handle'', ''subject'', ''body'', ''type'', ''priority'', ''thread_id'',
        ''payload'', ''read'', ''sequence'', ''created_at'']
      else if t = ''tasks'' then [''id'', ''parent_id'', ''spec'', ''status'', ''deps'', ''result'', ''created_at'', ''completed_at'']
      else if t = ''dispatch_contexts'' then [''id'', ''task_id'', ''assignee_handle'', ''status'', ''failure_count'',
        ''last_failure'', ''dispatched_at'', ''completed_at'', ''created_at'']
      else if t = ''decision_gates'' then [''id'', ''task_id'', ''question'', ''options'', ''status'', ''resolution'', ''created_at'', ''resolved_at'']
      else if t = ''coordinator_runs'' then [''id'', ''spec'', ''status'', ''coordinator_handle'', ''poll_interval_ms'', ''created_at'', ''completed_at'']
      else [])"

definition version_columns :: "(int \<times> string \<times> string) list" where
  "version_columns = [(2, ''dispatch_contexts'', ''last_heartbeat_at''), (3, ''messages'', ''delivered_at''),
     (4, ''tasks'', ''created_by_terminal_handle''), (5, ''tasks'', ''task_title''), (5, ''tasks'', ''display_name''),
     (6, ''dispatch_contexts'', ''assignee_pane_key''), (6, ''messages'', ''sender_pane_key'')]"

text \<open>The message types of the first version; the second added the heartbeat.\<close>

definition first_types :: "string list" where
  "first_types = [''status'', ''dispatch'', ''worker_done'', ''merge_ready'', ''escalation'', ''handoff'', ''decision_gate'']"

definition statuses :: "string \<Rightarrow> string list" where
  "statuses t =
     (if t = ''tasks'' then [''pending'', ''ready'', ''dispatched'', ''completed'', ''failed'', ''blocked'']
      else if t = ''dispatch_contexts'' then [''pending'', ''dispatched'', ''completed'', ''failed'', ''circuit_broken'']
      else if t = ''decision_gates'' then [''pending'', ''resolved'', ''timeout'']
      else [''idle'', ''running'', ''completed'', ''failed''])"

text \<open>A table of messages: its checks, and rows that obey them.\<close>

definition messages_sound :: "sql_table \<Rightarrow> bool" where
  "messages_sound tb \<longleftrightarrow>
     (\<exists>types. set first_types \<subseteq> set types \<and> set types \<subseteq> insert ''heartbeat'' (set first_types) \<and>
        tb_checks tb = [(''type'', types), (''priority'', [''normal'', ''high'', ''urgent''])] \<and>
        (\<forall>r \<in> set (tb_rows tb). r ''type'' \<in> Some ` set types)) \<and>
     (\<forall>r \<in> set (tb_rows tb). r ''priority'' \<in> {Some ''normal'', Some ''high'', Some ''urgent''} \<and>
        (\<forall>c \<in> set [''id'', ''from_handle'', ''to_handle'', ''subject'', ''body'', ''read'', ''created_at'']. r c \<noteq> None)) \<and>
     distinct (map (\<lambda>r. map r [''id'']) (tb_rows tb)) \<and> distinct (map (\<lambda>r. r ''sequence'') (tb_rows tb))"

definition table_sound :: "string \<Rightarrow> sql_table \<Rightarrow> bool" where
  "table_sound t tb \<longleftrightarrow> set (base_columns t) \<subseteq> set (tb_columns tb) \<and>
     (if t = ''messages'' then messages_sound tb
      else t \<in> set table_names \<longrightarrow> tb_checks tb = [(''status'', statuses t)])"

definition known_indexes :: "sql_index list" where
  "known_indexes = [(''idx_messages_undelivered_inbox'', ''messages'', [''to_handle'', ''read'', ''delivered_at'', ''sequence''], False),
     (''idx_messages_id'', ''messages'', [''id''], True), (''idx_inbox'', ''messages'', [''to_handle'', ''read''], False),
     (''idx_thread'', ''messages'', [''thread_id''], False),
     (''idx_tasks_status'', ''tasks'', [''status''], False), (''idx_tasks_parent'', ''tasks'', [''parent_id''], False),
     (''idx_dispatch_task'', ''dispatch_contexts'', [''task_id''], False), (''idx_dispatch_status'', ''dispatch_contexts'', [''status''], False),
     (''idx_gates_task'', ''decision_gates'', [''task_id''], False), (''idx_gates_status'', ''decision_gates'', [''status''], False)]"

lemma known_indexes_eq: "known_indexes = undelivered_index # message_indexes @ other_indexes"
  by (simp add: known_indexes_def undelivered_index_def message_indexes_def other_indexes_def)

text \<open>What the tables of a store of version \<open>v\<close> have, as the comment on the versions lists it.\<close>

definition has_version :: "int \<Rightarrow> sql_schema \<Rightarrow> bool" where
  "has_version v s \<longleftrightarrow>
     (2 \<le> v \<and> sc_tables s ''messages'' \<noteq> None \<longrightarrow> messagesTypeCheckAllowsHeartbeat s) \<and>
     (\<forall>(n, t, c) \<in> set version_columns. n \<le> v \<and> sc_tables s t \<noteq> None \<longrightarrow> hasColumn t c s)"

text \<open>The ground every version shares: sound tables, and index names used as the code uses them.\<close>

definition index_home :: "sql_index \<Rightarrow> bool" where
  "index_home i \<longleftrightarrow> list_all (\<lambda>k. fst i = fst k \<longrightarrow> i = k) known_indexes"

definition ground :: "sql_schema \<Rightarrow> bool" where
  "ground s \<longleftrightarrow>
     (\<forall>t tb. sc_tables s t = Some tb \<longrightarrow> table_sound t tb) \<and>
     sc_tables s ''messages_new'' = None \<and>
     (\<forall>i \<in> set (sc_indexes s). index_home i)"

lemma table_sound_columns: "table_sound t tb \<Longrightarrow> table_sound t (tb\<lparr>tb_columns := tb_columns tb @ cs\<rparr>)"
  by (auto simp: table_sound_def messages_sound_def)

lemma sound_columns: "ground s \<Longrightarrow> sc_tables s t = Some tb \<Longrightarrow> set (base_columns t) \<subseteq> set (tb_columns tb)"
  by (simp add: ground_def table_sound_def)

lemma sound_messages: "ground s \<Longrightarrow> sc_tables s ''messages'' = Some tb \<Longrightarrow> messages_sound tb"
  by (auto simp: ground_def table_sound_def)

lemma sound_ids: "ground s \<Longrightarrow> sc_tables s ''messages'' = Some tb \<Longrightarrow> distinct (map (\<lambda>r. map r [''id'']) (tb_rows tb))"
  using sound_messages by (simp add: messages_sound_def)

definition full :: "sql_schema \<Rightarrow> bool" where
  "full s \<longleftrightarrow> (\<forall>t \<in> set table_names. sc_tables s t \<noteq> None)"

text \<open>Rows survive: other tables are as they were, messages keep the columns they always had.\<close>

definition same_rows :: "string \<Rightarrow> sql_table \<Rightarrow> sql_table \<Rightarrow> bool" where
  "same_rows t tb tb' \<longleftrightarrow>
     (if t = ''messages'' then map (\<lambda>r. r |` set (base_columns t)) (tb_rows tb') = map (\<lambda>r. r |` set (base_columns t)) (tb_rows tb)
      else tb_rows tb' = tb_rows tb)"

definition keeps_rows :: "sql_schema \<Rightarrow> sql_schema \<Rightarrow> bool" where
  "keeps_rows s s' \<longleftrightarrow>
     (\<forall>t tb. sc_tables s t = Some tb \<longrightarrow> (\<exists>tb'. sc_tables s' t = Some tb' \<and> same_rows t tb tb'))"

lemma keeps_rows_refl: "keeps_rows s s"
  by (simp add: keeps_rows_def same_rows_def)

lemma keeps_rows_trans: "keeps_rows s s' \<Longrightarrow> keeps_rows s' s'' \<Longrightarrow> keeps_rows s s''"
proof (unfold keeps_rows_def, intro allI impI)
  fix t tb
  assume a: "\<forall>t tb. sc_tables s t = Some tb \<longrightarrow> (\<exists>tb'. sc_tables s' t = Some tb' \<and> same_rows t tb tb')"
    and b: "\<forall>t tb. sc_tables s' t = Some tb \<longrightarrow> (\<exists>tb'. sc_tables s'' t = Some tb' \<and> same_rows t tb tb')"
    and t: "sc_tables s t = Some tb"
  obtain tb' where 1: "sc_tables s' t = Some tb'" "same_rows t tb tb'" using a t by blast
  obtain tb'' where 2: "sc_tables s'' t = Some tb''" "same_rows t tb' tb''" using b 1(1) by blast
  show "\<exists>tb'. sc_tables s'' t = Some tb' \<and> same_rows t tb tb'" using 1(2) 2 by (auto simp: same_rows_def split: if_splits)
qed

text \<open>A step that only adds: columns, rows, the type check, indexes.\<close>

definition extends :: "sql_schema \<Rightarrow> sql_schema \<Rightarrow> bool" where
  "extends s s' \<longleftrightarrow> (\<forall>t c. hasColumn t c s \<longrightarrow> hasColumn t c s') \<and>
     (messagesTypeCheckAllowsHeartbeat s \<longrightarrow> messagesTypeCheckAllowsHeartbeat s') \<and>
     fst ` set (sc_indexes s) \<subseteq> fst ` set (sc_indexes s') \<and> keeps_rows s s'"

lemma extends_refl: "extends s s"
  by (simp add: extends_def keeps_rows_refl)

lemma extends_trans: "extends s s' \<Longrightarrow> extends s' s'' \<Longrightarrow> extends s s''"
  unfolding extends_def using keeps_rows_trans [of s s' s''] by (elim conjE) (intro conjI; blast)

lemma has_column_extends: "hasColumn t c s \<Longrightarrow> extends s s' \<Longrightarrow> hasColumn t c s'"
  by (simp add: extends_def)

lemma in_tables: "(n, t, c) \<in> set version_columns \<Longrightarrow> t \<in> set table_names"
  by (auto simp: version_columns_def table_names_def)

lemma has_version_extends: "has_version v s \<Longrightarrow> extends s s' \<Longrightarrow> full s \<Longrightarrow> has_version v s'"
  unfolding has_version_def
proof (intro conjI impI ballI)
  assume h: "(2 \<le> v \<and> sc_tables s ''messages'' \<noteq> None \<longrightarrow> messagesTypeCheckAllowsHeartbeat s) \<and>
      (\<forall>(n, t, c) \<in> set version_columns. n \<le> v \<and> sc_tables s t \<noteq> None \<longrightarrow> hasColumn t c s)"
    and e: "extends s s'" and f: "full s"
  have m: "sc_tables s ''messages'' \<noteq> None" using f unfolding full_def table_names_def by simp
  show "messagesTypeCheckAllowsHeartbeat s'" if "2 \<le> v \<and> sc_tables s' ''messages'' \<noteq> None"
    using h e m that by (simp add: extends_def)
  fix x assume x: "x \<in> set version_columns"
  obtain n t c where nt: "x = (n, t, c)" by (cases x)
  then have "sc_tables s t \<noteq> None" using f in_tables [of n t c] x by (auto simp: full_def)
  then have "n \<le> v \<Longrightarrow> hasColumn t c s'" using h x nt e by (auto intro: has_column_extends)
  then show "case x of (n, t, c) \<Rightarrow> n \<le> v \<and> sc_tables s' t \<noteq> None \<longrightarrow> hasColumn t c s'" using nt by simp
qed

lemma ensure_column_ok:
  assumes "ground s" and "full s" and "t \<in> set table_names"
  shows "\<exists>s'. ensure_column t c s = Some s' \<and> ground s' \<and> full s' \<and> extends s s' \<and> hasColumn t c s' \<and>
    sc_version s' = sc_version s"
proof (cases "hasColumn t c s")
  case True
  then show ?thesis using assms by (simp add: ensure_column_def extends_refl)
next
  case False
  obtain tb where tb: "sc_tables s t = Some tb" using assms(2,3) by (auto simp: full_def)
  let ?tb = "tb\<lparr>tb_columns := tb_columns tb @ [c]\<rparr>"
  let ?s = "s\<lparr>sc_tables := (sc_tables s)(t \<mapsto> ?tb)\<rparr>"
  have e: "ensure_column t c s = Some ?s" using False tb by (simp add: ensure_column_def add_column_def hasColumn_def)
  have "t \<noteq> ''messages_new''" using assms(3) by (auto simp: table_names_def)
  moreover have "table_sound t ?tb" using assms(1) tb table_sound_columns by (simp add: ground_def)
  ultimately have "ground ?s" using assms(1) by (simp add: ground_def)
  moreover have "full ?s" using assms(2) by (simp add: full_def)
  moreover have "extends s ?s"
    using tb by (auto simp: extends_def hasColumn_def messagesTypeCheckAllowsHeartbeat_def keeps_rows_def same_rows_def)
  moreover have "hasColumn t c ?s" by (simp add: hasColumn_def)
  ultimately show ?thesis using e by simp
qed

subsection \<open>Creating the tables that are missing\<close>

definition current_tables :: "(string \<times> sql_table) list" where
  "current_tables = [(''messages'', message_table message_columns), (''tasks'', task_table),
     (''dispatch_contexts'', dispatch_table), (''decision_gates'', gate_table), (''coordinator_runs'', run_table)]"

text \<open>A schema reached from \<open>s0\<close> without loss.\<close>

definition sound :: "int \<Rightarrow> sql_schema \<Rightarrow> sql_schema \<Rightarrow> bool" where
  "sound v s0 s \<longleftrightarrow> ground s \<and> has_version v s \<and> extends s0 s \<and> sc_version s = sc_version s0"

lemmas column_defs = message_columns_def rebuilt_columns_def task_columns_def dispatch_columns_def gate_columns_def run_columns_def

lemmas table_defs = message_table_def task_table_def dispatch_table_def gate_table_def run_table_def message_required_def

lemma new_messages_sound: "messages_sound (message_table cols)"
  by (auto simp: messages_sound_def message_table_def message_types_def first_types_def)

lemma new_table_sound:
  "table_sound ''messages'' (message_table message_columns)" "table_sound ''tasks'' task_table"
  "table_sound ''dispatch_contexts'' dispatch_table" "table_sound ''decision_gates'' gate_table"
  "table_sound ''coordinator_runs'' run_table"
  by (simp_all add: table_sound_def new_messages_sound base_columns_def table_names_def statuses_def)
    (simp_all add: table_defs column_defs)

lemma current_tables_sound: "(t, shape) \<in> set current_tables \<Longrightarrow> table_sound t shape"
  unfolding current_tables_def list.set insert_iff empty_iff prod.inject by (elim disjE conjE FalseE) (simp_all only: new_table_sound)

lemma current_tables_ok:
  "list_all (\<lambda>(t, shape). t \<in> set table_names \<and>
     list_all (\<lambda>(n, u, c). u = t \<longrightarrow> c \<in> set (tb_columns shape)) version_columns \<and>
     (t = ''messages'' \<longrightarrow> list_ex (\<lambda>(_, vs). ''heartbeat'' \<in> set vs) (tb_checks shape))) current_tables"
  by code_simp

lemma current_name: "(t, shape) \<in> set current_tables \<Longrightarrow> t \<in> set table_names"
  using current_tables_ok by (auto simp: list_all_iff)

lemma current_has_version:
  "(t, shape) \<in> set current_tables \<Longrightarrow> (n, t, c) \<in> set version_columns \<Longrightarrow> c \<in> set (tb_columns shape)"
  "(''messages'', shape) \<in> set current_tables \<Longrightarrow> \<exists>(_, vs) \<in> set (tb_checks shape). ''heartbeat'' \<in> set vs"
  using current_tables_ok by (fastforce simp: list_all_iff list_ex_iff)+

lemma present_extends: "extends s s' \<Longrightarrow> sc_tables s t \<noteq> None \<Longrightarrow> sc_tables s' t \<noteq> None"
  unfolding extends_def keeps_rows_def by fastforce

lemma create_table_sound:
  assumes "sound v s0 s" and "(t, shape) \<in> set current_tables"
  shows "sound v s0 (create_table_if_absent t shape s)" and "sc_tables (create_table_if_absent t shape s) t \<noteq> None"
    and "extends s (create_table_if_absent t shape s)"
proof -
  let ?s = "create_table_if_absent t shape s"
  have g: "ground s" "has_version v s" "extends s0 s" "sc_version s = sc_version s0" using assms(1) by (simp_all add: sound_def)
  show "sc_tables ?s t \<noteq> None" by (simp add: create_table_if_absent_def)
  have "extends s ?s"
    by (auto simp: extends_def create_table_if_absent_def hasColumn_def messagesTypeCheckAllowsHeartbeat_def keeps_rows_def same_rows_def)
  then show "extends s ?s" .
  then have "extends s0 ?s" using g(3) extends_trans by blast
  moreover have "sc_version ?s = sc_version s0" using g(4) by (simp add: create_table_if_absent_def)
  moreover have "ground ?s"
  proof -
    have "t \<noteq> ''messages_new''" using current_name [OF assms(2)] by (auto simp: table_names_def)
    then show ?thesis using g(1) current_tables_sound [OF assms(2)]
      by (simp add: ground_def create_table_if_absent_def)
  qed
  moreover have "has_version v ?s"
  proof (cases "sc_tables s t")
    case None
    have "hasColumn u c ?s" if "(n, u, c) \<in> set version_columns" "n \<le> v" "sc_tables ?s u \<noteq> None" for n u c
      using that g(2) None current_has_version(1) [OF assms(2), of n c]
      by (cases "u = t") (auto simp: has_version_def create_table_if_absent_def hasColumn_def)
    moreover have "messagesTypeCheckAllowsHeartbeat ?s" if "2 \<le> v" "sc_tables ?s ''messages'' \<noteq> None"
      using that g(2) None current_has_version(2) [of shape] assms(2)
      by (cases "t = ''messages''") (auto simp: has_version_def create_table_if_absent_def messagesTypeCheckAllowsHeartbeat_def)
    ultimately show ?thesis unfolding has_version_def by blast
  qed (use g(2) in \<open>simp add: create_table_if_absent_def\<close>)
  ultimately show "sound v s0 ?s" by (simp add: sound_def)
qed

lemma index_sound:
  assumes "sound v s0 s" and "indexed is s s'"
    and "\<forall>i \<in> set is. index_home i"
  shows "sound v s0 s'" and "extends s s'"
proof -
  have t: "sc_tables s' = sc_tables s" "sc_version s' = sc_version s" using assms(2) by (simp_all add: indexed_def)
  have h: "hasColumn t c s' = hasColumn t c s" "messagesTypeCheckAllowsHeartbeat s' = messagesTypeCheckAllowsHeartbeat s" for t c
    using t by (simp_all add: hasColumn_def messagesTypeCheckAllowsHeartbeat_def)
  show e: "extends s s'"
    using assms(2) t by (auto simp: extends_def h keeps_rows_def same_rows_def indexed_def)
  have "has_version v s'" using assms(1) by (simp add: sound_def has_version_def h t)
  moreover have "ground s'"
  proof -
    have "\<forall>i \<in> set (sc_indexes s'). index_home i"
      using assms unfolding indexed_def sound_def ground_def by blast
    then show ?thesis using assms(1) t by (simp add: sound_def ground_def)
  qed
  ultimately show "sound v s0 s'" using assms(1) t(2) extends_trans [OF _ e] by (simp add: sound_def)
qed

text \<open>Indexes over base columns of one table.\<close>

definition index_list_ok :: "string \<Rightarrow> sql_index list \<Rightarrow> bool" where
  "index_list_ok t is \<longleftrightarrow>
     list_all (\<lambda>(n, u, cols, unique). u = t \<and> list_all (\<lambda>c. c \<in> set (base_columns t)) cols \<and>
       (unique \<longrightarrow> t = ''messages'' \<and> cols = [''id'']) \<and>
       index_home (n, u, cols, unique)) is"

lemma index_lists_ok:
  "index_list_ok ''messages'' message_indexes" "index_list_ok ''tasks'' (take 2 other_indexes)"
  "index_list_ok ''dispatch_contexts'' (take 2 (drop 2 other_indexes))" "index_list_ok ''decision_gates'' (drop 4 other_indexes)"
  "index_list_ok ''coordinator_runs'' []"
  by code_simp+

lemma index_list_indexable:
  assumes "ground s" and "sc_tables s t \<noteq> None" and "index_list_ok t is"
  shows "list_all (indexable s) is"
proof -
  obtain tb where tb: "sc_tables s t = Some tb" using assms(2) by blast
  have "set (base_columns t) \<subseteq> set (tb_columns tb)" "t = ''messages'' \<Longrightarrow> distinct (map (\<lambda>r. map r [''id'']) (tb_rows tb))"
    using sound_columns [OF assms(1) tb] sound_ids [OF assms(1)] tb by simp_all
  then show ?thesis
    using assms(3) tb unfolding index_list_ok_def list_all_iff indexable_def by fastforce
qed

lemma indexes_created:
  assumes "sound v s0 s" and "sc_tables s t \<noteq> None" and "index_list_ok t is"
  shows "\<exists>s'. run_all (map create_index_if_absent is) s = Some s' \<and> sound v s0 s' \<and> extends s s' \<and>
    fst ` set is \<subseteq> fst ` set (sc_indexes s')"
proof -
  have "ground s" using assms(1) by (simp add: sound_def)
  then obtain s' where s': "run_all (map create_index_if_absent is) s = Some s'" "indexed is s s'"
    using run_if_absent index_list_indexable assms(2,3) by blast
  have n: "\<forall>i \<in> set is. index_home i"
    using assms(3) unfolding index_list_ok_def list_all_iff by fastforce
  have "fst ` set is \<subseteq> fst ` set (sc_indexes s')" using s'(2) unfolding indexed_def by blast
  then show ?thesis using s'(1) index_sound [OF assms(1) s'(2) n] by blast
qed

lemma table_with_indexes:
  assumes "sound v s0 s" and "(t, shape) \<in> set current_tables" and "index_list_ok t is"
  obtains s' where "run_all (map create_index_if_absent is) (create_table_if_absent t shape s) = Some s'"
    "sound v s0 s'" "extends s s'" "sc_tables s' t \<noteq> None" "fst ` set is \<subseteq> fst ` set (sc_indexes s')"
proof -
  note c = create_table_sound [OF assms(1,2)]
  obtain s' where s': "run_all (map create_index_if_absent is) (create_table_if_absent t shape s) = Some s'" "sound v s0 s'"
      "extends (create_table_if_absent t shape s) s'" "fst ` set is \<subseteq> fst ` set (sc_indexes s')"
    using indexes_created [OF c(1,2) assms(3)] by blast
  have "extends s s'" using extends_trans [OF c(3) s'(3)] .
  moreover have "sc_tables s' t \<noteq> None" using present_extends [OF s'(3) c(2)] .
  ultimately show ?thesis using that s' by blast
qed

lemma undelivered_home: "index_home undelivered_index"
  by code_simp

lemma undelivered_sound:
  assumes "sound v s0 s" and "sc_tables s ''messages'' \<noteq> None"
  shows "\<exists>s'. createUndeliveredInboxIndexIfPossible s = Some s' \<and> sound v s0 s' \<and> extends s s' \<and>
    (hasColumn ''messages'' ''delivered_at'' s \<longrightarrow> fst undelivered_index \<in> fst ` set (sc_indexes s'))"
proof (cases "hasColumn ''messages'' ''delivered_at'' s")
  case True
  obtain tb where tb: "sc_tables s ''messages'' = Some tb" using assms(2) by blast
  have "set (base_columns ''messages'') \<subseteq> set (tb_columns tb)" using sound_columns [OF _ tb] assms(1) unfolding sound_def by blast
  moreover have "list_all (\<lambda>c. c \<in> set (base_columns ''messages'')) [''to_handle'', ''read'', ''sequence'']" by code_simp
  moreover have "''delivered_at'' \<in> set (tb_columns tb)" using True tb by (simp add: hasColumn_def)
  ultimately have "indexable s undelivered_index"
    using tb unfolding indexable_def undelivered_index_def by (simp add: subset_iff)
  then obtain s' where s': "create_index_if_absent undelivered_index s = Some s'" "indexed [undelivered_index] s s'"
    using create_index_if_absent_ok by blast
  have n: "\<forall>i \<in> set [undelivered_index]. index_home i" by (simp add: undelivered_home)
  have "fst undelivered_index \<in> fst ` set (sc_indexes s')" using s'(2) unfolding indexed_def by simp
  then show ?thesis
    using s'(1) index_sound [OF assms(1) s'(2) n] True by (auto simp: createUndeliveredInboxIndexIfPossible_def)
qed (use assms(1) in \<open>simp add: createUndeliveredInboxIndexIfPossible_def extends_refl\<close>)

definition base_index_names :: "string set" where
  "base_index_names = fst ` set (message_indexes @ other_indexes)"

lemma current_tables_members:
  "(''messages'', message_table message_columns) \<in> set current_tables" "(''tasks'', task_table) \<in> set current_tables"
  "(''dispatch_contexts'', dispatch_table) \<in> set current_tables" "(''decision_gates'', gate_table) \<in> set current_tables"
  "(''coordinator_runs'', run_table) \<in> set current_tables"
  unfolding current_tables_def list.set by (rule insertI1 insertI2)+

lemma createTables_sound:
  assumes "ground s" and "has_version v s"
  shows "\<exists>s'. createTables s = Some s' \<and> sound v s s' \<and> full s' \<and> base_index_names \<subseteq> fst ` set (sc_indexes s') \<and>
    (3 \<le> v \<longrightarrow> fst undelivered_index \<in> fst ` set (sc_indexes s'))"
proof -
  have s0: "sound v s s" using assms by (simp add: sound_def extends_refl)
  note ct = current_tables_members
  obtain s1 where 1: "run_all (map create_index_if_absent message_indexes) (create_table_if_absent ''messages'' (message_table message_columns) s) = Some s1"
      "sound v s s1" "extends s s1" "sc_tables s1 ''messages'' \<noteq> None" "fst ` set message_indexes \<subseteq> fst ` set (sc_indexes s1)"
    by (rule table_with_indexes [OF s0 ct(1) index_lists_ok(1)])
  obtain s2 where 2: "run_all (map create_index_if_absent (take 2 other_indexes)) (create_table_if_absent ''tasks'' task_table s1) = Some s2"
      "sound v s s2" "extends s1 s2" "sc_tables s2 ''tasks'' \<noteq> None" "fst ` set (take 2 other_indexes) \<subseteq> fst ` set (sc_indexes s2)"
    by (rule table_with_indexes [OF 1(2) ct(2) index_lists_ok(2)])
  obtain s3 where 3: "run_all (map create_index_if_absent (take 2 (drop 2 other_indexes))) (create_table_if_absent ''dispatch_contexts'' dispatch_table s2) = Some s3"
      "sound v s s3" "extends s2 s3" "sc_tables s3 ''dispatch_contexts'' \<noteq> None"
      "fst ` set (take 2 (drop 2 other_indexes)) \<subseteq> fst ` set (sc_indexes s3)"
    by (rule table_with_indexes [OF 2(2) ct(3) index_lists_ok(3)])
  obtain s4 where 4: "run_all (map create_index_if_absent (drop 4 other_indexes)) (create_table_if_absent ''decision_gates'' gate_table s3) = Some s4"
      "sound v s s4" "extends s3 s4" "sc_tables s4 ''decision_gates'' \<noteq> None" "fst ` set (drop 4 other_indexes) \<subseteq> fst ` set (sc_indexes s4)"
    by (rule table_with_indexes [OF 3(2) ct(4) index_lists_ok(4)])
  obtain s5 where 5: "create_table_if_absent ''coordinator_runs'' run_table s4 = s5"
      "sound v s s5" "extends s4 s5" "sc_tables s5 ''coordinator_runs'' \<noteq> None"
    using create_table_sound [OF 4(2) ct(5)] by blast
  note e25 = extends_trans [OF 3(3) extends_trans [OF 4(3) 5(3)]] and e35 = extends_trans [OF 4(3) 5(3)]
  note e15 = extends_trans [OF 2(3) e25]
  have m5: "sc_tables s5 ''messages'' \<noteq> None" using present_extends [OF e15 1(4)] .
  obtain s6 where 6: "createUndeliveredInboxIndexIfPossible s5 = Some s6" "sound v s s6" "extends s5 s6"
      "hasColumn ''messages'' ''delivered_at'' s5 \<longrightarrow> fst undelivered_index \<in> fst ` set (sc_indexes s6)"
    using undelivered_sound [OF 5(2) m5] by blast
  have "3 \<le> v \<longrightarrow> hasColumn ''messages'' ''delivered_at'' s5"
    using 5(2) m5 by (auto simp: sound_def has_version_def version_columns_def)
  then have u6: "3 \<le> v \<longrightarrow> fst undelivered_index \<in> fst ` set (sc_indexes s6)" using 6(4) by blast
  have "full s5"
    using m5 present_extends [OF e25 2(4)] present_extends [OF e35 3(4)] present_extends [OF 5(3) 4(4)] 5(4)
    by (simp add: full_def table_names_def)
  then have "full s6" using present_extends [OF 6(3)] by (simp add: full_def)
  moreover have "base_index_names \<subseteq> fst ` set (sc_indexes s6)"
  proof -
    have o: "other_indexes = take 2 other_indexes @ take 2 (drop 2 other_indexes) @ drop 4 other_indexes"
      by (simp add: other_indexes_def)
    have "fst ` set (sc_indexes a) \<subseteq> fst ` set (sc_indexes b)" if "extends a b" for a b :: "sql_schema"
      using that by (simp add: extends_def)
    note sub = this [OF extends_trans [OF _ 6(3)]]
    show ?thesis
      unfolding base_index_names_def set_append image_Un arg_cong [OF o, of set]
      by (intro Un_least order_trans [OF 1(5) sub [OF e15]] order_trans [OF 2(5) sub [OF e25]]
          order_trans [OF 3(5) sub [OF e35]] order_trans [OF 4(5) sub [OF 5(3)]])
  qed
  moreover have "createTables s = Some s6"
    by (simp only: createTables_def bind.bind_lunit 1(1) 2(1) 3(1) 4(1) 5(1) 6(1))
  ultimately show ?thesis using 6(2) u6 by blast
qed

subsection \<open>The migration\<close>

lemma all_types: "set (''heartbeat'' # first_types) = set message_types"
proof (intro equalityI subsetI)
  have 1: "list_all (\<lambda>x. x \<in> set message_types) (''heartbeat'' # first_types)" by code_simp
  have 2: "list_all (\<lambda>x. x \<in> set (''heartbeat'' # first_types)) message_types" by code_simp
  fix x
  show "x \<in> set message_types" if "x \<in> set (''heartbeat'' # first_types)" using bspec [OF 1 [unfolded list_all_iff] that] .
  show "x \<in> set (''heartbeat'' # first_types)" if "x \<in> set message_types" using bspec [OF 2 [unfolded list_all_iff] that] .
qed

text \<open>The rows of a sound table of messages are taken by the new one.\<close>

lemma copied_rows:
  assumes "messages_sound tb"
  defines "rows \<equiv> map (\<lambda>r. r |` set rebuilt_columns) (tb_rows tb)"
  shows "list_all (accepts_row (message_table cols)) rows"
    and "distinct (map (\<lambda>r. r (tb_key (message_table cols))) rows)"
    and "messages_sound (message_table cols\<lparr>tb_rows := rows\<rparr>)"
proof -
  have known: "r ''type'' \<in> Some ` insert ''heartbeat'' (set first_types)" if "r \<in> set (tb_rows tb)" for r
  proof -
    obtain types where "set types \<subseteq> insert ''heartbeat'' (set first_types)" "\<forall>r \<in> set (tb_rows tb). r ''type'' \<in> Some ` set types"
      using assms(1) unfolding messages_sound_def by (elim conjE exE)
    then show ?thesis using that by (meson image_mono subsetD)
  qed
  have types: "insert ''heartbeat'' (set first_types) = set message_types" using all_types by (simp only: list.set(2))
  have row: "r ''priority'' \<in> {Some ''normal'', Some ''high'', Some ''urgent''}"
      "\<forall>c \<in> set [''id'', ''from_handle'', ''to_handle'', ''subject'', ''body'', ''read'', ''created_at'']. r c \<noteq> None"
    if "r \<in> set (tb_rows tb)" for r
    using assms(1) that unfolding messages_sound_def by blast+
  have keep: "(r |` set rebuilt_columns) c = r c" if "c \<in> set rebuilt_columns" for r :: "string \<rightharpoonup> string" and c
    using that by simp
  have col: "''type'' \<in> set rebuilt_columns" "''priority'' \<in> set rebuilt_columns" "''sequence'' \<in> set rebuilt_columns" "''id'' \<in> set rebuilt_columns"
      "set [''id'', ''from_handle'', ''to_handle'', ''subject'', ''body'', ''read'', ''created_at''] \<subseteq> set rebuilt_columns"
    by (simp_all add: rebuilt_columns_def)
  note k = keep [OF col(1)] keep [OF col(2)] keep [OF col(3)] keep [OF col(4)]
  have new: "r ''type'' \<in> Some ` set message_types" "r ''priority'' \<in> {Some ''normal'', Some ''high'', Some ''urgent''}"
      "\<forall>c \<in> set [''id'', ''from_handle'', ''to_handle'', ''subject'', ''body'', ''read'', ''created_at'']. r c \<noteq> None"
    if "r \<in> set rows" for r
  proof -
    obtain r' where r': "r' \<in> set (tb_rows tb)" "r = r' |` set rebuilt_columns" using \<open>r \<in> set rows\<close> unfolding rows_def by auto
    show "r ''type'' \<in> Some ` set message_types" using known [OF r'(1)] unfolding r'(2) k types .
    show "r ''priority'' \<in> {Some ''normal'', Some ''high'', Some ''urgent''}" using row(1) [OF r'(1)] unfolding r'(2) k .
    show "\<forall>c \<in> set [''id'', ''from_handle'', ''to_handle'', ''subject'', ''body'', ''read'', ''created_at'']. r c \<noteq> None"
    proof
      fix c assume c: "c \<in> set [''id'', ''from_handle'', ''to_handle'', ''subject'', ''body'', ''read'', ''created_at'']"
      then have "r c = r' c" unfolding r'(2) by (intro keep) (rule subsetD [OF col(5)])
      then show "r c \<noteq> None" using row(2) [OF r'(1)] c by metis
    qed
  qed
  have "accepts_row (message_table cols) r" if "r \<in> set rows" for r
    using new [OF that] by (auto simp: accepts_row_def message_table_def message_required_def)
  then show "list_all (accepts_row (message_table cols)) rows" by (simp add: list_all_iff)
  have ids: "distinct (map (\<lambda>r. map r [''id'']) rows)" and "distinct (map (\<lambda>r. r ''sequence'') rows)"
    using assms(1) unfolding messages_sound_def rows_def by (simp_all add: comp_def k)
  then show "distinct (map (\<lambda>r. r (tb_key (message_table cols))) rows)" by (simp add: message_table_def)
  show "messages_sound (message_table cols\<lparr>tb_rows := rows\<rparr>)"
    unfolding messages_sound_def
  proof (intro conjI exI [of _ message_types])
    show "set first_types \<subseteq> set message_types" "set message_types \<subseteq> insert ''heartbeat'' (set first_types)" using types by blast+
    show "tb_checks (message_table cols\<lparr>tb_rows := rows\<rparr>) = [(''type'', message_types), (''priority'', [''normal'', ''high'', ''urgent''])]"
      by (simp add: message_table_def)
    have rows: "tb_rows (message_table cols\<lparr>tb_rows := rows\<rparr>) = rows" by simp
    show "\<forall>r \<in> set (tb_rows (message_table cols\<lparr>tb_rows := rows\<rparr>)). r ''type'' \<in> Some ` set message_types"
      unfolding rows using new(1) by (rule ballI)
    show "\<forall>r \<in> set (tb_rows (message_table cols\<lparr>tb_rows := rows\<rparr>)). r ''priority'' \<in> {Some ''normal'', Some ''high'', Some ''urgent''} \<and>
        (\<forall>c \<in> set [''id'', ''from_handle'', ''to_handle'', ''subject'', ''body'', ''read'', ''created_at'']. r c \<noteq> None)"
      unfolding rows by (rule ballI, rule conjI [OF new(2) new(3)])
  qed (use ids \<open>distinct (map (\<lambda>r. r ''sequence'') rows)\<close> in simp_all)
qed

lemma rebuild_messages_ok:
  assumes "ground s" and "full s" and "base_index_names \<subseteq> fst ` set (sc_indexes s)"
  shows "\<exists>s'. rebuild_messages s = Some s' \<and> ground s' \<and> full s' \<and> keeps_rows s s' \<and> sc_version s' = sc_version s \<and>
    messagesTypeCheckAllowsHeartbeat s' \<and> (\<forall>t. t \<noteq> ''messages'' \<longrightarrow> sc_tables s' t = sc_tables s t) \<and>
    base_index_names \<subseteq> fst ` set (sc_indexes s')"
proof -
  obtain tb where tb: "sc_tables s ''messages'' = Some tb" using assms(2) by (auto simp: full_def table_names_def)
  let ?shape = "message_table (rebuilt_columns @ [''delivered_at''])" and ?rows = "map (\<lambda>r. r |` set rebuilt_columns) (tb_rows tb)"
  let ?tb = "?shape\<lparr>tb_rows := ?rows\<rparr>"
  let ?s = "s\<lparr>sc_tables := (sc_tables s)(''messages'' \<mapsto> ?tb), sc_indexes := filter (\<lambda>(_, u, _, _). u \<noteq> ''messages'') (sc_indexes s)\<rparr>"
  let ?new = "[message_indexes ! 0, message_indexes ! 1, undelivered_index, message_indexes ! 2]"
  have base: "base_columns ''messages'' = rebuilt_columns" by (simp add: base_columns_def rebuilt_columns_def)
  have sound: "messages_sound tb" using sound_messages [OF assms(1) tb] .
  have id: "distinct (map (\<lambda>r. map r [''id'']) (tb_rows tb))" and cols: "set rebuilt_columns \<subseteq> set (tb_columns tb)"
    using sound_ids [OF assms(1) tb] sound_columns [OF assms(1) tb] by (simp_all add: base)
  note copied = copied_rows [OF sound]
  have r: "rebuild_table ''messages'' ?shape rebuilt_columns s = Some ?s"
    using assms(1) tb cols copied(1,2) by (simp add: rebuild_table_def ground_def Let_def)
  have tb_sound: "table_sound ''messages'' ?tb"
    using copied(3) by (auto simp: table_sound_def base message_table_def)
  then have id': "distinct (map (\<lambda>r. map r [''id'']) (tb_rows ?tb))" by (simp add: table_sound_def messages_sound_def)
  have "list_all (\<lambda>(n, t, cols, u). t = ''messages'' \<and> list_all (\<lambda>c. c \<in> set (rebuilt_columns @ [''delivered_at''])) cols \<and>
      (u \<longrightarrow> cols = [''id''])) ?new" by code_simp
  moreover have "tb_columns ?tb = rebuilt_columns @ [''delivered_at'']" by (simp add: message_table_def)
  ultimately have ix: "list_all (indexable ?s) ?new"
    using id' unfolding list_all_iff indexable_def by fastforce
  have names: "fst ` set (sc_indexes ?s) \<inter> fst ` set ?new = {}" and home: "\<forall>i \<in> set ?new. index_home i"
    and dist: "distinct (map fst ?new)"
  proof -
    show "\<forall>i \<in> set ?new. index_home i" "distinct (map fst ?new)" by code_simp+
    have new: "list_all (\<lambda>k. k \<in> set known_indexes \<and> fst (snd k) = ''messages'') ?new" by code_simp
    have "fst i \<noteq> fst k" if "i \<in> set (sc_indexes ?s)" "k \<in> set ?new" for i k
    proof
      assume "fst i = fst k"
      moreover have "index_home i" "fst (snd i) \<noteq> ''messages''" using that(1) assms(1) by (auto simp: ground_def)
      moreover have "k \<in> set known_indexes" "fst (snd k) = ''messages''" using new that(2) by (simp_all only: list_all_iff)
      ultimately show False by (auto simp: index_home_def list_all_iff)
    qed
    then show "fst ` set (sc_indexes ?s) \<inter> fst ` set ?new = {}" by blast
  qed
  obtain s' where s': "run_all (map create_index ?new) ?s = Some s'" "indexed ?new ?s s'"
    using run_create [OF ix dist] names by blast
  have rb: "rebuild_messages s = Some s'" using r s'(1) by (simp add: rebuild_messages_def)
  have t: "sc_tables s' = (sc_tables s)(''messages'' \<mapsto> ?tb)" "sc_version s' = sc_version s"
    using s'(2) by (simp_all add: indexed_def)
  have "ground s'"
  proof -
    have "set (sc_indexes s') \<subseteq> set (sc_indexes s) \<union> set ?new" using s'(2) by (auto simp: indexed_def)
    then have "\<forall>i \<in> set (sc_indexes s'). index_home i" using home assms(1) unfolding ground_def by blast
    moreover have "table_sound u tb'" if "sc_tables s' u = Some tb'" for u tb'
      using that assms(1) tb_sound by (cases "u = ''messages''") (auto simp: t ground_def)
    moreover have "sc_tables s' ''messages_new'' = None" using assms(1) by (simp add: t ground_def)
    ultimately show ?thesis unfolding ground_def by blast
  qed
  moreover have "full s'" using assms(2) by (simp add: full_def t)
  moreover have "keeps_rows s s'" using tb by (simp add: keeps_rows_def t same_rows_def base comp_def)
  moreover have "messagesTypeCheckAllowsHeartbeat s'"
    by (simp add: messagesTypeCheckAllowsHeartbeat_def t message_table_def message_types_def)
  moreover have "base_index_names \<subseteq> fst ` set (sc_indexes s')"
  proof
    fix n assume n: "n \<in> base_index_names"
    then obtain i where i: "i \<in> set (sc_indexes s)" "fst i = n" using assms(3) by blast
    show "n \<in> fst ` set (sc_indexes s')"
    proof (cases "fst (snd i) = ''messages''")
      case True
      have "index_home i" using assms(1) i(1) by (simp add: ground_def)
      moreover have "n \<in> fst ` set known_indexes" using n unfolding base_index_names_def known_indexes_eq by auto
      ultimately have "i \<in> set known_indexes" using i(2) by (auto simp: index_home_def list_all_iff)
      moreover have "list_all (\<lambda>k. fst (snd k) = ''messages'' \<longrightarrow> k \<in> set ?new) known_indexes" by code_simp
      ultimately have "i \<in> set ?new" using True unfolding list_all_iff by blast
      then have "n \<in> fst ` set ?new" using i(2) by blast
      then show ?thesis using s'(2) unfolding indexed_def by blast
    next
      case False
      then have "i \<in> set (sc_indexes ?s)" using i(1) by (auto simp: case_prod_unfold)
      then show ?thesis using s'(2) i(2) unfolding indexed_def by blast
    qed
  qed
  ultimately show ?thesis using rb t by (intro exI [of _ s']) simp
qed

text \<open>The migration has reached version \<open>k\<close>.\<close>

definition stage :: "sql_schema \<Rightarrow> int \<Rightarrow> sql_schema \<Rightarrow> bool" where
  "stage s0 k s \<longleftrightarrow> ground s \<and> full s \<and> keeps_rows s0 s \<and> sc_version s = sc_version s0 \<and>
     base_index_names \<subseteq> fst ` set (sc_indexes s) \<and> has_version (max k (sc_version s0)) s"

lemma ensure_stage:
  assumes "stage s0 k s" and "t \<in> set table_names"
  obtains s' where "ensure_column t c s = Some s'" "stage s0 k s'" "hasColumn t c s'" "extends s s'"
proof -
  obtain s' where s': "ensure_column t c s = Some s'" "ground s'" "full s'" "extends s s'" "hasColumn t c s'" "sc_version s' = sc_version s"
    using ensure_column_ok assms unfolding stage_def by blast
  have st: "keeps_rows s0 s" "sc_version s = sc_version s0" "base_index_names \<subseteq> fst ` set (sc_indexes s)"
    "has_version (max k (sc_version s0)) s" "full s" using assms(1) by (simp_all add: stage_def)
  have ex: "keeps_rows s s'" "fst ` set (sc_indexes s) \<subseteq> fst ` set (sc_indexes s')" using s'(4) by (simp_all add: extends_def)
  have "stage s0 k s'"
    unfolding stage_def using s'(2,3,6) st(2) keeps_rows_trans [OF st(1) ex(1)] order_trans [OF st(3) ex(2)]
      has_version_extends [OF st(4) s'(4) st(5)] by simp
  then show ?thesis using that s' by blast
qed

lemma stage_next:
  assumes "stage s0 k s" and "\<And>t c. (k + 1, t, c) \<in> set version_columns \<Longrightarrow> hasColumn t c s"
    and "k + 1 = 2 \<Longrightarrow> messagesTypeCheckAllowsHeartbeat s"
  shows "stage s0 (k + 1) s"
proof -
  have "has_version (max (k + 1) (sc_version s0)) s"
    unfolding has_version_def
  proof (intro conjI impI ballI)
    assume "2 \<le> max (k + 1) (sc_version s0) \<and> sc_tables s ''messages'' \<noteq> None"
    then show "messagesTypeCheckAllowsHeartbeat s"
      using assms(1,3) by (cases "k + 1 = 2") (auto simp: stage_def has_version_def)
  next
    fix x assume x: "x \<in> set version_columns"
    obtain n t c where nt: "x = (n, t, c)" by (cases x)
    have "hasColumn t c s" if "n \<le> max (k + 1) (sc_version s0)" "sc_tables s t \<noteq> None"
    proof (cases "n = k + 1")
      case False
      then have "n \<le> max k (sc_version s0)" using that(1) by auto
      then show ?thesis using assms(1) x nt that(2) by (auto simp: stage_def has_version_def)
    qed (use assms(2) x nt in simp)
    then show "case x of (n, t, c) \<Rightarrow> n \<le> max (k + 1) (sc_version s0) \<and> sc_tables s t \<noteq> None \<longrightarrow> hasColumn t c s"
      using nt by simp
  qed
  then show ?thesis using assms(1) by (simp add: stage_def)
qed

lemma stage_skip: "stage s0 k s \<Longrightarrow> k + 1 \<le> sc_version s0 \<Longrightarrow> stage s0 (k + 1) s"
  by (simp add: stage_def max_def split: if_splits)

lemma stage_columns:
  assumes "stage s0 k s" and "n \<le> k" and "(n, t, c) \<in> set version_columns"
  shows "hasColumn t c s"
proof -
  have "sc_tables s t \<noteq> None" using assms(1) in_tables [OF assms(3)] by (simp add: stage_def full_def)
  then show ?thesis using assms by (fastforce simp: stage_def has_version_def)
qed

lemma stage_heartbeat: "stage s0 k s \<Longrightarrow> 2 \<le> k \<Longrightarrow> messagesTypeCheckAllowsHeartbeat s"
  by (auto simp: stage_def has_version_def full_def table_names_def)

text \<open>One step of the migration, skipped when the store already has the version.\<close>

definition reaches :: "(sql_schema \<Rightarrow> sql_schema option) \<Rightarrow> sql_schema \<Rightarrow> int \<Rightarrow> bool" where
  "reaches f s0 k \<longleftrightarrow> (\<forall>s. stage s0 (k - 1) s \<longrightarrow> (\<exists>s'. f s = Some s' \<and> stage s0 k s'))"

lemma reaches_if:
  assumes "reaches f s0 k"
  shows "reaches (\<lambda>s. if sc_version s0 < k then f s else Some s) s0 k"
  using assms stage_skip [of s0 "k - 1"] by (auto simp: reaches_def not_less)

lemma reaches_one:
  assumes "\<And>u d. (k, u, d) \<in> set version_columns \<Longrightarrow> (u, d) = (t, c)" and "t \<in> set table_names" and "k \<noteq> 2"
  shows "reaches (ensure_column t c) s0 k"
  unfolding reaches_def
proof (intro allI impI)
  fix s assume "stage s0 (k - 1) s"
  then obtain s' where s': "ensure_column t c s = Some s'" "stage s0 (k - 1) s'" "hasColumn t c s'"
    by (rule ensure_stage [OF _ assms(2)])
  have "stage s0 (k - 1 + 1) s'" using s'(3) assms(1,3) by (intro stage_next [OF s'(2)]) force+
  then show "\<exists>s'. ensure_column t c s = Some s' \<and> stage s0 k s'" using s'(1) by simp
qed

lemma reaches_two:
  assumes "\<And>u d. (k, u, d) \<in> set version_columns \<Longrightarrow> (u, d) \<in> {(t, c), (t', c')}" and "t \<in> set table_names"
    and "t' \<in> set table_names" and "k \<noteq> 2"
  shows "reaches (\<lambda>s. ensure_column t c s \<bind> ensure_column t' c') s0 k"
  unfolding reaches_def
proof (intro allI impI)
  fix s assume "stage s0 (k - 1) s"
  then obtain s1 where s1: "ensure_column t c s = Some s1" "stage s0 (k - 1) s1" "hasColumn t c s1"
    by (rule ensure_stage [OF _ assms(2)])
  obtain s2 where s2: "ensure_column t' c' s1 = Some s2" "stage s0 (k - 1) s2" "hasColumn t' c' s2" "extends s1 s2"
    by (rule ensure_stage [OF s1(2) assms(3)])
  have "hasColumn t c s2" using has_column_extends [OF s1(3) s2(4)] .
  then have "stage s0 (k - 1 + 1) s2" using s2(3) assms(1,4) by (intro stage_next [OF s2(2)]) force+
  then show "\<exists>s'. ensure_column t c s \<bind> ensure_column t' c' = Some s' \<and> stage s0 k s'" using s1(1) s2(1) by simp
qed

lemma version_2_reached:
  "reaches (\<lambda>s. ensure_column ''dispatch_contexts'' ''last_heartbeat_at'' s \<bind>
     (\<lambda>s. if \<not> messagesTypeCheckAllowsHeartbeat s then rebuild_messages s else Some s)) s0 2"
  if "sc_version s0 < 2"
  unfolding reaches_def
proof (intro allI impI)
  let ?t = "''dispatch_contexts''" and ?c = "''last_heartbeat_at''"
  have mem: "?t \<in> set table_names" unfolding table_names_def by simp
  fix s assume "stage s0 (2 - 1) s"
  then obtain s1 where s1: "ensure_column ?t ?c s = Some s1" "stage s0 (2 - 1) s1" "hasColumn ?t ?c s1"
    by (rule ensure_stage [OF _ mem])
  have cols: "(2, t, c) \<in> set version_columns \<Longrightarrow> t = ?t \<and> c = ?c" for t c by (simp add: version_columns_def)
  have "\<exists>s'. (if \<not> messagesTypeCheckAllowsHeartbeat s1 then rebuild_messages s1 else Some s1) = Some s' \<and> stage s0 2 s'"
  proof (cases "messagesTypeCheckAllowsHeartbeat s1")
    case True
    then have "stage s0 (1 + 1) s1" using s1(2,3) cols by (intro stage_next) auto
    then show ?thesis using True by simp
  next
    case False
    have st: "ground s1" "full s1" "base_index_names \<subseteq> fst ` set (sc_indexes s1)" "keeps_rows s0 s1" "sc_version s1 = sc_version s0"
      using s1(2) by (simp_all add: stage_def)
    obtain s2 where s2: "rebuild_messages s1 = Some s2" "ground s2" "full s2" "keeps_rows s1 s2" "sc_version s2 = sc_version s1"
        "messagesTypeCheckAllowsHeartbeat s2" "\<forall>t. t \<noteq> ''messages'' \<longrightarrow> sc_tables s2 t = sc_tables s1 t"
        "base_index_names \<subseteq> fst ` set (sc_indexes s2)"
      using rebuild_messages_ok [OF st(1-3)] by blast
    have "hasColumn ?t ?c s2" using s1(3) s2(7) by (simp add: hasColumn_def)
    then have "has_version 2 s2"
      using s2(6) by (auto simp: has_version_def version_columns_def)
    then have "stage s0 2 s2"
      using s2 st that keeps_rows_trans [OF st(4) s2(4)] by (simp add: stage_def)
    then show ?thesis using False s2(1) by simp
  qed
  then show "\<exists>s'. ensure_column ?t ?c s \<bind> (\<lambda>s. if \<not> messagesTypeCheckAllowsHeartbeat s then rebuild_messages s else Some s) =
      Some s' \<and> stage s0 2 s'" using s1(1) by simp
qed

text \<open>What the code expects of an open store.\<close>

definition current_store :: "sql_schema \<Rightarrow> bool" where
  "current_store s \<longleftrightarrow> 6 \<le> sc_version s \<and>
     (\<forall>t \<in> set table_names. sc_tables s t \<noteq> None \<and> (\<forall>c \<in> set (base_columns t). hasColumn t c s)) \<and>
     (\<forall>(n, t, c) \<in> set version_columns. hasColumn t c s) \<and>
     (\<exists>tb types. sc_tables s ''messages'' = Some tb \<and> set types = set (''heartbeat'' # first_types) \<and>
        tb_checks tb = [(''type'', types), (''priority'', [''normal'', ''high'', ''urgent''])]) \<and>
     (\<forall>t tb. t \<in> set table_names \<and> t \<noteq> ''messages'' \<and> sc_tables s t = Some tb \<longrightarrow> tb_checks tb = [(''status'', statuses t)]) \<and>
     set known_indexes \<subseteq> set (sc_indexes s)"

lemma current_columns_covered:
  "list_all (\<lambda>(t, shape). list_all (\<lambda>c. c \<in> set (base_columns t) \<or>
     list_ex (\<lambda>(n, u, d). n \<le> 6 \<and> u = t \<and> d = c) version_columns) (tb_columns shape)) current_tables"
  by code_simp

lemma current_storeI:
  assumes "ground s" and "full s" and "has_version 6 s" and "6 \<le> sc_version s"
    and "insert (fst undelivered_index) base_index_names \<subseteq> fst ` set (sc_indexes s)"
  shows "current_store s"
proof -
  have "sc_tables s t \<noteq> None \<and> (\<forall>c \<in> set (base_columns t). hasColumn t c s)" if "t \<in> set table_names" for t
  proof -
    obtain tb where "sc_tables s t = Some tb" using assms(2) \<open>t \<in> set table_names\<close> by (auto simp: full_def)
    then show ?thesis using sound_columns [OF assms(1)] by (auto simp: hasColumn_def)
  qed
  moreover have "hasColumn t c s" if "(n, t, c) \<in> set version_columns" for n t c
  proof -
    have "n \<le> 6" "sc_tables s t \<noteq> None"
      using that in_tables [OF that] assms(2) by (auto simp: version_columns_def full_def)
    then show ?thesis using assms(3) that unfolding has_version_def by fastforce
  qed
  moreover have "\<exists>tb types. sc_tables s ''messages'' = Some tb \<and> set types = set (''heartbeat'' # first_types) \<and>
      tb_checks tb = [(''type'', types), (''priority'', [''normal'', ''high'', ''urgent''])]"
  proof -
    obtain tb where tb: "sc_tables s ''messages'' = Some tb" using assms(2) by (auto simp: full_def table_names_def)
    then obtain types where types: "set first_types \<subseteq> set types" "set types \<subseteq> insert ''heartbeat'' (set first_types)"
        "tb_checks tb = [(''type'', types), (''priority'', [''normal'', ''high'', ''urgent''])]"
      using sound_messages [OF assms(1)] by (auto simp: messages_sound_def)
    have "messagesTypeCheckAllowsHeartbeat s" using assms(3) tb by (simp add: has_version_def)
    then have "''heartbeat'' \<in> set types" by (simp add: messagesTypeCheckAllowsHeartbeat_def tb types(3))
    then have "set types = set (''heartbeat'' # first_types)" using types(1,2) by auto
    then show ?thesis using tb types(3) by blast
  qed
  moreover have "tb_checks tb = [(''status'', statuses t)]" if "t \<in> set table_names" "t \<noteq> ''messages''" "sc_tables s t = Some tb" for t tb
    using that assms(1) by (auto simp: ground_def table_sound_def)
  moreover have "set known_indexes \<subseteq> set (sc_indexes s)"
  proof
    fix k assume k: "k \<in> set known_indexes"
    then have "fst k \<in> insert (fst undelivered_index) base_index_names"
      unfolding known_indexes_eq base_index_names_def list.set image_Un [symmetric] by blast
    then obtain i where i: "i \<in> set (sc_indexes s)" "fst k = fst i" using assms(5) by blast
    have "index_home i" using assms(1) i(1) by (simp add: ground_def)
    then have "i = k" using k i(2) [symmetric] unfolding index_home_def list_all_iff by blast
    then show "k \<in> set (sc_indexes s)" using i(1) by simp
  qed
  ultimately show ?thesis unfolding current_store_def using assms(4) by blast
qed

lemma has_version_mono: "has_version v s \<Longrightarrow> w \<le> v \<Longrightarrow> has_version w s"
  by (fastforce simp: has_version_def)

lemma run_all_present:
  "fst ` set is \<subseteq> fst ` set (sc_indexes s) \<Longrightarrow> run_all (map create_index_if_absent is) s = Some s"
  by (induction "is") (auto simp: create_index_if_absent_def)

lemma reopen: "current_store s \<Longrightarrow> open_store s = Some s"
proof -
  assume c: "current_store s"
  have known: "set (undelivered_index # message_indexes @ other_indexes) \<subseteq> set (sc_indexes s)"
    using c unfolding current_store_def known_indexes_eq by blast
  have t: "create_table_if_absent t shape s = s" if "(t, shape) \<in> set current_tables" for t shape
    using c current_name [OF that] by (auto simp: current_store_def create_table_if_absent_def)
  have i0: "run_all (map create_index_if_absent is) s = Some s" if "set is \<subseteq> set message_indexes \<union> set other_indexes" for "is"
  proof (rule run_all_present)
    have "set is \<subseteq> set (sc_indexes s)" using that known by auto
    then show "fst ` set is \<subseteq> fst ` set (sc_indexes s)" by (rule image_mono)
  qed
  have o: "set (take n other_indexes) \<subseteq> set other_indexes" "set (drop n other_indexes) \<subseteq> set other_indexes"
    "set (take m (drop n other_indexes)) \<subseteq> set other_indexes" for n m
    using set_take_subset set_drop_subset order_trans by metis+
  have i: "run_all (map create_index_if_absent (take n other_indexes)) s = Some s"
    "run_all (map create_index_if_absent (drop n other_indexes)) s = Some s"
    "run_all (map create_index_if_absent (take m (drop n other_indexes))) s = Some s"
    "run_all (map create_index_if_absent message_indexes) s = Some s" for n m
    by (rule i0, rule le_supI2, rule o)+ (rule i0, rule Un_upper1)
  have u: "createUndeliveredInboxIndexIfPossible s = Some s"
    using known by (auto simp: createUndeliveredInboxIndexIfPossible_def create_index_if_absent_def)
  have "createTables s = Some s"
    by (simp only: createTables_def bind.bind_lunit i u t [OF current_tables_members(1)] t [OF current_tables_members(2)]
        t [OF current_tables_members(3)] t [OF current_tables_members(4)] t [OF current_tables_members(5)])
  then show ?thesis using c by (simp add: open_store_def migrate_def current_store_def SCHEMA_VERSION_def)
qed

lemma migration_reaches:
  assumes "stage s0 1 s0" and "sc_version s0 < 6"
  shows "\<exists>s'. migration (sc_version s0) s0 = Some s' \<and> current_store s' \<and> keeps_rows s0 s' \<and> sc_version s' = 6"
proof -
  let ?v = "sc_version s0"
  obtain s2 where 2: "(if ?v < 2 then do {
              s \<leftarrow> ensure_column ''dispatch_contexts'' ''last_heartbeat_at'' s0;
              (if \<not> messagesTypeCheckAllowsHeartbeat s then rebuild_messages s else Some s)
            } else Some s0) = Some s2" "stage s0 2 s2"
  proof (cases "?v < 2")
    case True
    then show ?thesis using that version_2_reached [OF True] assms(1) by (auto simp: reaches_def)
  next
    case False
    then show ?thesis using that stage_skip [OF assms(1)] by simp
  qed
  have m: "''messages'' \<in> set table_names" "''tasks'' \<in> set table_names" "''dispatch_contexts'' \<in> set table_names"
    unfolding table_names_def by simp_all
  have r: "reaches (ensure_column ''messages'' ''delivered_at'') s0 3"
    "reaches (ensure_column ''tasks'' ''created_by_terminal_handle'') s0 4"
    "reaches (\<lambda>s. ensure_column ''tasks'' ''task_title'' s \<bind> ensure_column ''tasks'' ''display_name'') s0 5"
    "reaches (\<lambda>s. ensure_column ''dispatch_contexts'' ''assignee_pane_key'' s \<bind> ensure_column ''messages'' ''sender_pane_key'') s0 6"
    by (intro reaches_one reaches_two m; auto simp: version_columns_def)+
  obtain s3 where 3: "(if ?v < 3 then ensure_column ''messages'' ''delivered_at'' s2 else Some s2) = Some s3" "stage s0 3 s3"
    using reaches_if [OF r(1)] 2(2) unfolding reaches_def by auto
  obtain s4 where 4: "(if ?v < 4 then ensure_column ''tasks'' ''created_by_terminal_handle'' s3 else Some s3) = Some s4" "stage s0 4 s4"
    using reaches_if [OF r(2)] 3(2) unfolding reaches_def by auto
  obtain s5 where 5: "(if ?v < 5 then ensure_column ''tasks'' ''task_title'' s4 \<bind> ensure_column ''tasks'' ''display_name'' else Some s4) = Some s5"
      "stage s0 5 s5" using reaches_if [OF r(3)] 4(2) unfolding reaches_def by auto
  obtain s6 where 6: "(if ?v < 6 then ensure_column ''dispatch_contexts'' ''assignee_pane_key'' s5 \<bind>
        ensure_column ''messages'' ''sender_pane_key'' else Some s5) = Some s6" "stage s0 6 s6"
    using reaches_if [OF r(4)] 5(2) unfolding reaches_def by auto
  have st: "ground s6" "full s6" "keeps_rows s0 s6" "sc_version s6 = ?v" "base_index_names \<subseteq> fst ` set (sc_indexes s6)" "has_version 6 s6"
    using 6(2) assms(2) by (simp_all add: stage_def max_def)
  have so: "sound 6 s6 s6" using st by (simp add: sound_def extends_refl)
  have "hasColumn ''messages'' ''delivered_at'' s6" using stage_columns [OF 6(2), of 3] by (simp add: version_columns_def)
  moreover have "sc_tables s6 ''messages'' \<noteq> None" using st(2) m(1) by (simp add: full_def)
  ultimately obtain s7 where 7: "createUndeliveredInboxIndexIfPossible s6 = Some s7" "sound 6 s6 s7" "extends s6 s7"
      "fst undelivered_index \<in> fst ` set (sc_indexes s7)"
    using undelivered_sound [OF so] by blast
  let ?s = "s7\<lparr>sc_version := 6\<rparr>"
  have "migration ?v s0 = Some ?s"
    unfolding migration_def 2(1) bind.bind_lunit 3(1) 4(1) 5(1) 6(1) 7(1) by (simp add: SCHEMA_VERSION_def)
  moreover have "current_store ?s"
  proof (rule current_storeI)
    show "ground ?s" "has_version 6 ?s"
      using 7(2) by (simp_all add: sound_def ground_def has_version_def messagesTypeCheckAllowsHeartbeat_def hasColumn_def)
    show "full ?s" using st(2) present_extends [OF 7(3)] by (simp add: full_def)
    show "insert (fst undelivered_index) base_index_names \<subseteq> fst ` set (sc_indexes ?s)"
      using 7(3,4) st(5) by (auto simp: extends_def)
  qed simp
  moreover have "keeps_rows s0 ?s"
    using keeps_rows_trans [OF st(3), of s7] 7(3) by (simp add: extends_def keeps_rows_def)
  ultimately show ?thesis by (intro exI [of _ ?s]) simp
qed

text \<open>
  C35: Opening upgrades any earlier store.  A store whose tables have what its version says, with the checks of the
  time and rows that obey them, is opened: it then has every table, column and index the code uses, its messages may
  be of the eight types and no others, no row is refused or lost, and opening it once more changes nothing.
\<close>

theorem open_store_upgrades:
  assumes "ground s" and "has_version (sc_version s) s"
  shows "\<exists>s'. open_store s = Some s' \<and> current_store s' \<and> keeps_rows s s' \<and> sc_version s' = max (sc_version s) 6 \<and>
    open_store s' = Some s'"
proof -
  obtain s1 where 1: "createTables s = Some s1" "sound (sc_version s) s s1" "full s1" "base_index_names \<subseteq> fst ` set (sc_indexes s1)"
      "3 \<le> sc_version s \<longrightarrow> fst undelivered_index \<in> fst ` set (sc_indexes s1)"
    using createTables_sound [OF assms] by blast
  have v: "sc_version s1 = sc_version s" "keeps_rows s s1" using 1(2) by (simp_all add: sound_def extends_def)
  show ?thesis
  proof (cases "sc_version s < 6")
    case True
    have "stage s1 1 s1"
      using 1 v has_version_mono [of _ s1 1] by (auto simp: stage_def sound_def keeps_rows_refl max_def has_version_def version_columns_def)
    then obtain s' where "migration (sc_version s1) s1 = Some s'" "current_store s'" "keeps_rows s1 s'" "sc_version s' = 6"
      using migration_reaches True v(1) by (metis (no_types, lifting))
    then show ?thesis
      using 1(1) True v keeps_rows_trans reopen by (auto simp: open_store_def migrate_def SCHEMA_VERSION_def max_def)
  next
    case False
    have g: "ground s1" "has_version 6 s1" "6 \<le> sc_version s1" using 1(2) v(1) False has_version_mono [of "sc_version s" s1 6] by (auto simp: sound_def)
    have "current_store s1"
      using current_storeI [OF g(1) 1(3) g(2,3)] 1(4,5) False by simp
    then show ?thesis
      using 1(1) False v reopen by (auto simp: open_store_def migrate_def SCHEMA_VERSION_def max_def)
  qed
qed

text \<open>A store of the first version with one message.\<close>

definition first_store :: sql_schema where
  "first_store = \<lparr>sc_version = 1,
     sc_tables = (\<lambda>t. if t = ''messages''
       then Some \<lparr>tb_columns = base_columns ''messages'',
              tb_checks = [(''type'', first_types), (''priority'', [''normal'', ''high'', ''urgent''])],
              tb_required = message_required, tb_key = ''sequence'',
              tb_rows = [[''id'' \<mapsto> ''msg_1'', ''from_handle'' \<mapsto> ''a'', ''to_handle'' \<mapsto> ''b'', ''subject'' \<mapsto> ''done'', ''body'' \<mapsto> [],
                ''type'' \<mapsto> ''worker_done'', ''priority'' \<mapsto> ''high'', ''read'' \<mapsto> ''0'', ''sequence'' \<mapsto> ''1'', ''created_at'' \<mapsto> ''now'']]\<rparr>
       else if t \<in> set table_names
       then Some \<lparr>tb_columns = base_columns t, tb_checks = [(''status'', statuses t)], tb_required = [], tb_key = ''id'', tb_rows = []\<rparr>
       else None),
     sc_indexes = []\<rparr>"

theorem open_store_upgrades_witness:
  "\<not> messagesTypeCheckAllowsHeartbeat first_store \<and>
   (\<exists>s'. open_store first_store = Some s' \<and> current_store s' \<and> keeps_rows first_store s' \<and> sc_version s' = 6)"
proof -
  have "table_sound t tb" if "sc_tables first_store t = Some tb" for t tb
    using that by (auto simp: first_store_def table_sound_def messages_sound_def first_types_def split: if_splits)
  then have g: "ground first_store" by (auto simp: ground_def first_store_def table_names_def)
  have v: "has_version (sc_version first_store) first_store"
    by (auto simp: has_version_def first_store_def version_columns_def)
  have "''heartbeat'' \<notin> set first_types" by (simp add: first_types_def)
  then have "\<not> messagesTypeCheckAllowsHeartbeat first_store"
    by (simp add: messagesTypeCheckAllowsHeartbeat_def first_store_def)
  then show ?thesis using open_store_upgrades [OF g v] by (auto simp: first_store_def)
qed

end
