(* ===== verification/Pane_Key.thy ===== *)
theory Pane_Key
  imports Utf16
begin

text \<open>
  Pane keys, \<open>src/shared/stable-pane-id.ts\<close>: \<open>tabId:leafUuid\<close>, the identity of a terminal pane
  that survives a re-minted handle, and the equivalence of keys that the orchestration store
  (\<open>isEquivalentPaneKey\<close>) and the lifecycle reconciler (\<open>isSamePane\<close>) decide ownership by.
\<close>

definition is_hex_lower :: "jschar \<Rightarrow> bool" where
  "is_hex_lower c \<longleftrightarrow> is_digit c \<or> (97 \<le> c \<and> c \<le> 102)"

text \<open>\<open>UUID_RE\<close>, position by position.\<close>

definition uuid_pos :: "nat \<Rightarrow> jschar \<Rightarrow> bool" where
  "uuid_pos i c \<longleftrightarrow>
     (if i = 8 \<or> i = 13 \<or> i = 18 \<or> i = 23 then c = 45
      else if i = 14 then 49 \<le> c \<and> c \<le> 53
      else if i = 19 then c = 56 \<or> c = 57 \<or> c = 97 \<or> c = 98
      else is_hex_lower c)"

definition isStablePaneId :: "jsstr \<Rightarrow> bool" where
  "isStablePaneId v \<longleftrightarrow> length v = 36 \<and> list_all (\<lambda>(i, c). uuid_pos i c) (enumerate 0 v)"

definition isTerminalLeafId :: "jsstr \<Rightarrow> bool" where
  "isTerminalLeafId v = isStablePaneId v"

datatype pane_key_error = BadTabId | BadLeafId

definition makePaneKey :: "jsstr \<Rightarrow> jsstr \<Rightarrow> pane_key_error + jsstr" where
  "makePaneKey tabId leafId =
     (if tabId = [] \<or> 58 \<in> set tabId then Inl BadTabId
      else if \<not> isTerminalLeafId leafId then Inl BadLeafId
      else Inr (tabId @ 58 # leafId))"

text \<open>The two halves of a key: \<open>leafId\<close> and \<open>stablePaneId\<close> of the source are the same string.\<close>

definition parsePaneKey :: "jsstr \<Rightarrow> (jsstr \<times> jsstr) option" where
  "parsePaneKey k =
     (case index_of 58 k of None \<Rightarrow> None
      | Some first \<Rightarrow>
         if first = 0 \<or> last_index_of 58 k \<noteq> Some first \<or> first = length k - 1 then None
         else let tabId = take first k; leafId = drop (Suc first) k
              in if isTerminalLeafId leafId then Some (tabId, leafId) else None)"

text \<open>The legacy \<open>tabId:number\<close> keys: \<open>None\<close> as the argument stands for a value that is no string.\<close>

definition parseLegacyNumericPaneKey :: "jsstr option \<Rightarrow> (jsstr \<times> jsstr \<times> jsstr) option" where
  "parseLegacyNumericPaneKey v =
     (case v of None \<Rightarrow> None
      | Some k \<Rightarrow>
         if length k > 256 then None
         else let t = trim k
              in (case index_of 58 t of None \<Rightarrow> None
                  | Some d \<Rightarrow>
                     if d = 0 \<or> last_index_of 58 t \<noteq> Some d \<or> d = length t - 1 then None
                     else let n = drop (Suc d) t
                          in if n \<noteq> [] \<and> list_all is_digit n then Some (take d t, n, t) else None))"

text \<open>
  \<open>isEquivalentPaneKey\<close> of \<open>src/main/runtime/orchestration/db.ts\<close> and \<open>isSamePane\<close> of
  \<open>lifecycle-reconciliation.ts\<close>, which are the same function of their arguments.
\<close>

definition isEquivalentPaneKey :: "jsstr \<Rightarrow> jsstr \<Rightarrow> bool" where
  "isEquivalentPaneKey a b \<longleftrightarrow>
     (if a = b then True
      else (case (parsePaneKey a, parsePaneKey b) of
              (Some (_, la), Some (_, lb)) \<Rightarrow> la \<noteq> [] \<and> lb \<noteq> [] \<and> la = lb
            | _ \<Rightarrow> False))"

definition isSamePane :: "jsstr \<Rightarrow> jsstr \<Rightarrow> bool" where
  "isSamePane assignee sender \<longleftrightarrow>
     (if assignee = sender then True
      else (case (parsePaneKey assignee, parsePaneKey sender) of
              (Some (_, la), Some (_, lb)) \<Rightarrow> la \<noteq> [] \<and> lb \<noteq> [] \<and> la = lb
            | _ \<Rightarrow> False))"

subsection \<open>Lemmas\<close>

lemma uuid_at: "isStablePaneId v \<Longrightarrow> i < length v \<Longrightarrow> uuid_pos i (v ! i)"
  unfolding isStablePaneId_def list_all_iff by (fastforce simp: in_set_enumerate_eq)

lemma uuid_no_colon: "isStablePaneId v \<Longrightarrow> 58 \<notin> set v"
proof
  assume v: "isStablePaneId v" and "58 \<in> set v"
  then obtain i where "i < length v" "v ! i = 58" by (auto simp: in_set_conv_nth)
  with uuid_at [OF v] have "uuid_pos i 58" by metis
  then show False
    by (auto simp: uuid_pos_def is_hex_lower_def is_digit_def split: if_splits)
qed

lemma uuid_dash: "isStablePaneId v \<Longrightarrow> v ! 8 = 45"
  using uuid_at [of v 8] by (auto simp: isStablePaneId_def uuid_pos_def)

lemma leaf_not_Nil: "isTerminalLeafId v \<Longrightarrow> v \<noteq> []"
  by (auto simp: isTerminalLeafId_def isStablePaneId_def)

lemma last_index_of_sep:
  "58 \<notin> set a \<Longrightarrow> 58 \<notin> set b \<Longrightarrow> last_index_of (58 :: jschar) (a @ 58 # b) = Some (length a)"
  by (simp add: last_index_of_def index_of_sep)

lemma parsePaneKey_join:
  "a \<noteq> [] \<Longrightarrow> 58 \<notin> set a \<Longrightarrow> isTerminalLeafId b \<Longrightarrow> parsePaneKey (a @ 58 # b) = Some (a, b)"
  using leaf_not_Nil [of b] uuid_no_colon [of b]
  by (auto simp: parsePaneKey_def index_of_sep last_index_of_sep isTerminalLeafId_def Let_def)

lemma parsePaneKey_Some:
  assumes "parsePaneKey k = Some (a, b)"
  shows "a \<noteq> [] \<and> 58 \<notin> set a \<and> isTerminalLeafId b \<and> k = a @ 58 # b"
proof -
  from assms obtain i where i: "index_of 58 k = Some i" "i \<noteq> 0" "a = take i k" "b = drop (Suc i) k"
      "isTerminalLeafId b"
    by (auto simp: parsePaneKey_def Let_def split: option.splits if_splits)
  from index_of_Some [OF i(1)] have "i < length k" "k ! i = 58" "58 \<notin> set (take i k)" by auto
  with i show ?thesis using id_take_nth_drop [of i k] by auto
qed

lemma isSamePane_eq: "isSamePane = isEquivalentPaneKey"
  by (intro ext) (simp add: isSamePane_def isEquivalentPaneKey_def)

lemma isEquivalentPaneKey_iff:
  "isEquivalentPaneKey a b \<longleftrightarrow>
     a = b \<or> (\<exists>t u l. parsePaneKey a = Some (t, l) \<and> parsePaneKey b = Some (u, l))"
  using leaf_not_Nil parsePaneKey_Some
  by (auto simp: isEquivalentPaneKey_def split: option.splits)

lemma equiv_pane_sym: "isEquivalentPaneKey a b = isEquivalentPaneKey b a"
  by (auto simp: isEquivalentPaneKey_iff)

lemma equiv_pane_trans:
  "isEquivalentPaneKey a b \<Longrightarrow> isEquivalentPaneKey b c \<Longrightarrow> isEquivalentPaneKey a c"
  by (auto simp: isEquivalentPaneKey_iff)

lemma equiv_pane_refl [simp]: "isEquivalentPaneKey a a"
  by (simp add: isEquivalentPaneKey_def)

subsection \<open>Properties\<close>

text \<open>
  \<open>makePaneKey\<close> and \<open>parsePaneKey\<close> are inverse: a key parses into \<open>(tab, leaf)\<close> exactly
  when it is the key that \<open>makePaneKey tab leaf\<close> returns.
\<close>

theorem pane_key_roundtrip: "parsePaneKey k = Some (t, l) \<longleftrightarrow> makePaneKey t l = Inr k"
  using parsePaneKey_Some [of k t l] parsePaneKey_join [of t l]
  by (auto simp: makePaneKey_def split: if_splits)

text \<open>
  No key is both a legacy numeric key and a stable key, so the two parsers never claim the
  same pane.
\<close>

theorem legacy_and_stable_keys_disjoint:
  "parseLegacyNumericPaneKey (Some k) = None \<or> parsePaneKey (trim k) = None"
proof (rule ccontr)
  assume "\<not> ?thesis"
  then obtain v w where l: "parseLegacyNumericPaneKey (Some k) = Some v"
    and pw: "parsePaneKey (trim k) = Some w" unfolding de_Morgan_disj not_None_eq by (elim conjE exE)
  obtain a b where p: "parsePaneKey (trim k) = Some (a, b)" using pw by (cases w) simp
  from l obtain d where d: "index_of 58 (trim k) = Some d" "list_all is_digit (drop (Suc d) (trim k))"
    by (auto simp: parseLegacyNumericPaneKey_def Let_def split: option.splits if_splits)
  from p d(1) have b: "isTerminalLeafId b" "b = drop (Suc d) (trim k)"
    by (auto simp: parsePaneKey_def Let_def split: option.splits if_splits)
  have "8 < length b" using b(1) by (simp add: isTerminalLeafId_def isStablePaneId_def)
  then have "is_digit (b ! 8)" using d(2) b(2) by (auto simp: list_all_length)
  moreover have "b ! 8 = 45" using uuid_dash b(1) by (simp add: isTerminalLeafId_def)
  ultimately show False by (simp add: is_digit_def)
qed

end
