(* ===== verification/Task_Display.thy ===== *)
theory Task_Display
  imports Utf16
begin

text \<open>
  Display metadata of an orchestration task, \<open>src/shared/orchestration-task-display.ts\<close>, and the
  abbreviated task list, \<open>src/shared/orchestration-task-summary.ts\<close>.
\<close>

definition ORCHESTRATION_TASK_TITLE_MAX_LENGTH :: nat where
  "ORCHESTRATION_TASK_TITLE_MAX_LENGTH = 80"

definition ORCHESTRATION_DISPLAY_NAME_MAX_LENGTH :: nat where
  "ORCHESTRATION_DISPLAY_NAME_MAX_LENGTH = 160"

record task_display =
  taskTitle :: jsstr
  displayName :: jsstr

definition trimDanglingHighSurrogate :: "jsstr \<Rightarrow> jsstr" where
  "trimDanglingHighSurrogate v =
     (if v = [] then v else if is_high_surrogate (last v) then butlast v else v)"

definition normalizeSingleLine :: "jsstr option \<Rightarrow> nat \<Rightarrow> jsstr" where
  "normalizeSingleLine value maxLength =
     (case value of None \<Rightarrow> []
      | Some v \<Rightarrow>
         if v = [] then []
         else let normalized = collapse_spaces (trim v)
              in if normalized = [] then []
                 else if length normalized \<le> maxLength then normalized
                 else trim_end (trimDanglingHighSurrogate (take (maxLength - 3) normalized)) @ js ''...'')"

text \<open>\<open>spec.split(/\r?\n/)\<close>: split at line feeds; a carriage return before one belongs to it.\<close>

function split_lines :: "jsstr \<Rightarrow> jsstr list" where
  "split_lines s =
     (case index_of 10 s of None \<Rightarrow> [s]
      | Some i \<Rightarrow>
         (let l = take i s in if l \<noteq> [] \<and> last l = 13 then butlast l else l) # split_lines (drop (Suc i) s))"
  by pat_completeness auto
termination
  by (relation "measure length") (auto dest: index_of_Some)

declare split_lines.simps [simp del]

fun first_title :: "jsstr list \<Rightarrow> jsstr option" where
  "first_title [] = None"
| "first_title (l # ls) =
     (let title = normalizeSingleLine (Some l) ORCHESTRATION_TASK_TITLE_MAX_LENGTH
      in if title \<noteq> [] then Some title else first_title ls)"

definition deriveTaskTitleFromSpec :: "jsstr \<Rightarrow> jsstr" where
  "deriveTaskTitleFromSpec spec =
     (case first_title (split_lines spec) of Some t \<Rightarrow> t
      | None \<Rightarrow> normalizeSingleLine (Some spec) ORCHESTRATION_TASK_TITLE_MAX_LENGTH)"

definition or_else :: "jsstr \<Rightarrow> jsstr \<Rightarrow> jsstr" where
  "or_else a b = (if a \<noteq> [] then a else b)"

definition buildOrchestrationTaskDisplayMetadata ::
    "jsstr \<Rightarrow> jsstr option \<Rightarrow> jsstr option \<Rightarrow> task_display" where
  "buildOrchestrationTaskDisplayMetadata spec title display =
     (let t = or_else (normalizeSingleLine title ORCHESTRATION_TASK_TITLE_MAX_LENGTH)
                (deriveTaskTitleFromSpec spec)
      in \<lparr>taskTitle = t,
          displayName = or_else (normalizeSingleLine display ORCHESTRATION_DISPLAY_NAME_MAX_LENGTH) t\<rparr>)"

definition TASK_SPEC_BRIEF_LENGTH :: nat where
  "TASK_SPEC_BRIEF_LENGTH = 160"

definition truncateAtCodePoint :: "jsstr \<Rightarrow> jsstr" where
  "truncateAtCodePoint spec =
     (let sliced = take (TASK_SPEC_BRIEF_LENGTH - 1) spec
      in if sliced \<noteq> [] \<and> is_high_surrogate (last sliced) then butlast sliced else sliced)"

text \<open>The abbreviated spec and its \<open>spec_truncated\<close> flag of one task.\<close>

definition abbreviate_spec :: "jsstr \<Rightarrow> jsstr \<times> bool" where
  "abbreviate_spec raw =
     (let spec = trim (collapse_spaces raw); truncated = length spec > TASK_SPEC_BRIEF_LENGTH
      in (if truncated then trim_end (truncateAtCodePoint spec) @ [0x2026] else spec, truncated))"

subsection \<open>Lemmas\<close>

lemma length_trim_end: "length (trim_end s) \<le> length s"
  by (metis length_dropWhile_le length_rev trim_end_def)

lemma set_trim_end: "set (trim_end s) \<subseteq> set s"
  by (auto simp: trim_end_def dest: set_dropWhileD)

lemma length_trimDangling: "length (trimDanglingHighSurrogate v) \<le> length v"
  by (simp add: trimDanglingHighSurrogate_def)

lemma set_trimDangling: "set (trimDanglingHighSurrogate v) \<subseteq> set v"
  by (auto simp: trimDanglingHighSurrogate_def dest: in_set_butlastD)

lemma collapse_spaces_space: "c \<in> set (collapse_spaces s) \<Longrightarrow> is_js_space c \<Longrightarrow> c = 32"
  by (induction s rule: collapse_spaces.induct) (auto split: if_splits)

definition single_line :: "nat \<Rightarrow> jsstr \<Rightarrow> bool" where
  "single_line n s \<longleftrightarrow> length s \<le> n \<and> (\<forall>c \<in> set s. is_js_space c \<longrightarrow> c = 32)"

lemma normalizeSingleLine_single_line:
  assumes "3 \<le> n"
  shows "single_line n (normalizeSingleLine v n)"
proof (cases v)
  case (Some w)
  let ?c = "collapse_spaces (trim w)"
  let ?b = "trim_end (trimDanglingHighSurrogate (take (n - 3) ?c))"
  have "length ?b \<le> n - 3"
    using length_trim_end [of "trimDanglingHighSurrogate (take (n - 3) ?c)"]
      length_trimDangling [of "take (n - 3) ?c"] by simp
  moreover have "set ?b \<subseteq> set ?c"
    using set_trim_end set_trimDangling by (metis in_set_takeD subset_iff)
  moreover have "\<not> is_js_space 46" by (simp add: is_js_space_def)
  ultimately show ?thesis
    using Some assms collapse_spaces_space [of _ "trim w"]
    by (auto simp: single_line_def normalizeSingleLine_def Let_def js_eval)
qed (simp add: single_line_def normalizeSingleLine_def)

lemma first_title_single_line: "first_title ls = Some t \<Longrightarrow> single_line 80 t"
  by (induction ls)
     (auto simp: Let_def ORCHESTRATION_TASK_TITLE_MAX_LENGTH_def normalizeSingleLine_single_line split: if_splits)

lemma derived_title_single_line: "single_line 80 (deriveTaskTitleFromSpec spec)"
  by (auto simp: deriveTaskTitleFromSpec_def ORCHESTRATION_TASK_TITLE_MAX_LENGTH_def
      normalizeSingleLine_single_line first_title_single_line split: option.split)

lemma single_line_mono: "single_line m s \<Longrightarrow> m \<le> n \<Longrightarrow> single_line n s"
  by (auto simp: single_line_def)

subsection \<open>Properties\<close>

text \<open>
  Whatever the spec and the requested names are, the task title fits 80 code units, the
  display name 160, and neither holds a line break, a tab or any white space but the blank.
\<close>

theorem task_display_bounds:
  "single_line 80 (taskTitle (buildOrchestrationTaskDisplayMetadata spec t d)) \<and>
   single_line 160 (displayName (buildOrchestrationTaskDisplayMetadata spec t d))"
  using normalizeSingleLine_single_line [of 80 t] normalizeSingleLine_single_line [of 160 d]
    derived_title_single_line [of spec]
  by (auto simp: buildOrchestrationTaskDisplayMetadata_def or_else_def Let_def
      ORCHESTRATION_TASK_TITLE_MAX_LENGTH_def ORCHESTRATION_DISPLAY_NAME_MAX_LENGTH_def
      intro: single_line_mono)

end
