(* ===== verification/Orch_Types.thy ===== *)
theory Orch_Types
  imports Pane_Key Task_Display
begin

text \<open>
  Rows of the orchestration store, \<open>src/main/runtime/orchestration/types.ts\<close>.

  A time column holds text.  Its format is kept: \<open>SqlUtc\<close> is the timezone-less text that
  SQLite's \<open>datetime('now')\<close> writes, \<open>IsoSec\<close> the \<open>T\<dots>Z\<close> text the store exposes for it, \<open>IsoMs\<close> the text of
  \<open>toISOString()\<close>, and \<open>TsText\<close> any text that \<open>julianday\<close> does not read.  The numbers are
  seconds (milliseconds for \<open>IsoMs\<close>) since the epoch.
\<close>

datatype timestamp = SqlUtc nat | IsoSec nat | IsoMs nat | TsText jsstr

datatype message_type =
  MStatus | MDispatch | MWorkerDone | MMergeReady | MEscalation | MHandoff | MDecisionGate | MHeartbeat

datatype message_priority = PNormal | PHigh | PUrgent

datatype task_status = TPending | TReady | TDispatched | TCompleted | TFailed | TBlocked

datatype dispatch_status = DPending | DDispatched | DCompleted | DFailed | DCircuitBroken

datatype gate_status = GPending | GResolved | GTimeout

datatype coordinator_status = CIdle | CRunning | CCompleted | CFailed

record message_row =
  m_id :: jsstr
  m_from :: jsstr
  m_to :: jsstr
  m_subject :: jsstr
  m_body :: jsstr
  m_type :: message_type
  m_priority :: message_priority
  m_thread :: "jsstr option"
  m_payload :: "jsstr option"
  m_read :: bool
  m_sequence :: nat
  m_created_at :: timestamp
  m_delivered_at :: "timestamp option"
  m_sender_pane_key :: "jsstr option"

record task_row =
  t_id :: jsstr
  t_parent :: "jsstr option"
  t_created_by :: "jsstr option"
  t_title :: "jsstr option"
  t_display :: "jsstr option"
  t_spec :: jsstr
  t_status :: task_status
  t_deps :: jsstr
  t_result :: "jsstr option"
  t_created_at :: timestamp
  t_completed_at :: "timestamp option"

record dispatch_row =
  d_id :: jsstr
  d_task :: jsstr
  d_handle :: "jsstr option"
  d_pane_key :: "jsstr option"
  d_status :: dispatch_status
  d_failures :: nat
  d_last_failure :: "jsstr option"
  d_dispatched_at :: "timestamp option"
  d_completed_at :: "timestamp option"
  d_created_at :: timestamp
  d_heartbeat_at :: "timestamp option"

record gate_row =
  g_id :: jsstr
  g_task :: jsstr
  g_question :: jsstr
  g_options :: jsstr
  g_status :: gate_status
  g_resolution :: "jsstr option"
  g_created_at :: timestamp
  g_resolved_at :: "timestamp option"

record run_row =
  r_id :: jsstr
  r_spec :: jsstr
  r_status :: coordinator_status
  r_handle :: jsstr
  r_poll_ms :: nat
  r_created_at :: timestamp
  r_completed_at :: "timestamp option"

text \<open>The text of a message type, as it is stored and put into messages.\<close>

fun message_type_text :: "message_type \<Rightarrow> jsstr" where
  "message_type_text MStatus = js ''status''"
| "message_type_text MDispatch = js ''dispatch''"
| "message_type_text MWorkerDone = js ''worker_done''"
| "message_type_text MMergeReady = js ''merge_ready''"
| "message_type_text MEscalation = js ''escalation''"
| "message_type_text MHandoff = js ''handoff''"
| "message_type_text MDecisionGate = js ''decision_gate''"
| "message_type_text MHeartbeat = js ''heartbeat''"

text \<open>\<open>julianday\<close>, in milliseconds; \<open>None\<close> is SQL's NULL.\<close>

fun julian_ms :: "timestamp \<Rightarrow> nat option" where
  "julian_ms (SqlUtc s) = Some (1000 * s)"
| "julian_ms (IsoSec s) = Some (1000 * s)"
| "julian_ms (IsoMs m) = Some m"
| "julian_ms (TsText _) = None"

text \<open>
  The order of \<open>ORDER BY created_at\<close>.  The column is only ever written by \<open>datetime('now')\<close>, whose
  text order is the order of the seconds; ties keep the insertion order.
\<close>

definition ts_order :: "timestamp \<Rightarrow> nat" where
  "ts_order t = (case julian_ms t of None \<Rightarrow> 0 | Some m \<Rightarrow> m)"

text \<open>SQL's \<open>a < b\<close> on times: false when a side is NULL.\<close>

definition sql_before :: "timestamp \<Rightarrow> timestamp \<Rightarrow> bool" where
  "sql_before a b =
     (case (julian_ms a, julian_ms b) of (Some x, Some y) \<Rightarrow> x < y | _ \<Rightarrow> False)"

fun coalesce :: "'a option \<Rightarrow> 'a option \<Rightarrow> 'a option" where
  "coalesce (Some x) _ = Some x"
| "coalesce None y = y"

end
