(* ===== verification/Orch_Db.thy ===== *)
theory Orch_Db
  imports Orch_Types Contracts
begin

text \<open>
  The orchestration store, \<open>src/main/runtime/orchestration/db.ts\<close>: messages, the task graph,
  dispatch contexts, decision gates and coordinator runs.

  The SQLite tables are lists of rows in \<open>rowid\<close> order.  An id from \<open>generateId\<close> is an
  argument of the operation that draws it, and so is the time read from the clock; a clash with
  an id of the table is the \<open>UNIQUE\<close> error of the \<open>INSERT\<close>.  An operation that can throw returns
  the store together with the error, since writes before the throw stay.
\<close>

record odb =
  messages :: "message_row list"
  last_seq :: nat
  tasks :: "task_row list"
  dispatches :: "dispatch_row list"
  gates :: "gate_row list"
  runs :: "run_row list"

definition empty_odb :: odb where
  "empty_odb = \<lparr>messages = [], last_seq = 0, tasks = [], dispatches = [], gates = [], runs = []\<rparr>"

datatype db_error =
    UniqueViolation
  | TaskNotFound jsstr
  | TaskNotReady jsstr task_status
  | AlreadyActive jsstr jsstr jsstr
  | BadJson

subsection \<open>Messages\<close>

definition addLifecycleRejectionMarker :: "jsstr option \<Rightarrow> jsstr \<Rightarrow> jsstr" where
  "addLifecycleRejectionMarker payload reason =
     (let parsed = (if truthy payload
                    then (case json_parse (the payload) of Some (JObj ms) \<Rightarrow> ms | _ \<Rightarrow> [])
                    else [])
      in json_stringify (JObj (map_set (js ''_orcaLifecycleRejection'')
           (JObj [(js ''code'', JStr (js ''sender_not_assignee'')), (js ''reason'', JStr reason)]) parsed)))"

definition exposeUtcTimestamp :: "timestamp \<Rightarrow> timestamp" where
  "exposeUtcTimestamp t = (case t of SqlUtc s \<Rightarrow> IsoSec s | _ \<Rightarrow> t)"

definition exposeMessageTimestamps :: "message_row \<Rightarrow> message_row" where
  "exposeMessageTimestamps m =
     m\<lparr>m_created_at := exposeUtcTimestamp (m_created_at m),
       m_delivered_at := map_option exposeUtcTimestamp (m_delivered_at m)\<rparr>"

record message_input =
  in_from :: jsstr
  in_to :: jsstr
  in_subject :: jsstr
  in_body :: "jsstr option"
  in_type :: "message_type option"
  in_priority :: "message_priority option"
  in_thread :: "jsstr option"
  in_payload :: "jsstr option"
  in_pane_key :: "jsstr option"

definition getMessageById :: "jsstr \<Rightarrow> odb \<Rightarrow> message_row option" where
  "getMessageById i db = map_option exposeMessageTimestamps (find (\<lambda>m. m_id m = i) (messages db))"

definition new_message_row :: "jsstr \<Rightarrow> nat \<Rightarrow> nat \<Rightarrow> message_input \<Rightarrow> message_row" where
  "new_message_row newid now seq msg =
     \<lparr>m_id = newid, m_from = in_from msg, m_to = in_to msg, m_subject = in_subject msg,
      m_body = (case in_body msg of None \<Rightarrow> [] | Some b \<Rightarrow> b),
      m_type = (case in_type msg of None \<Rightarrow> MStatus | Some t \<Rightarrow> t),
      m_priority = (case in_priority msg of None \<Rightarrow> PNormal | Some p \<Rightarrow> p),
      m_thread = in_thread msg, m_payload = in_payload msg, m_read = False,
      m_sequence = seq, m_created_at = SqlUtc now, m_delivered_at = None,
      m_sender_pane_key = in_pane_key msg\<rparr>"

definition insertMessage ::
    "jsstr \<Rightarrow> nat \<Rightarrow> message_input \<Rightarrow> odb \<Rightarrow> odb \<times> (db_error + message_row)" where
  "insertMessage newid now msg db =
     (if newid \<in> m_id ` set (messages db) then (db, Inl UniqueViolation)
      else let row = new_message_row newid now (Suc (last_seq db)) msg
           in (db\<lparr>messages := messages db @ [row], last_seq := Suc (last_seq db)\<rparr>,
               Inr (exposeMessageTimestamps row)))"

definition type_selected :: "message_type list option \<Rightarrow> message_type \<Rightarrow> bool" where
  "type_selected types t = (case types of None \<Rightarrow> True | Some [] \<Rightarrow> True | Some ts \<Rightarrow> t \<in> set ts)"

definition getUnreadMessages :: "jsstr \<Rightarrow> message_type list option \<Rightarrow> odb \<Rightarrow> message_row list" where
  "getUnreadMessages h types db =
     map exposeMessageTimestamps (sort_key m_sequence
       (filter (\<lambda>m. m_to m = h \<and> \<not> m_read m \<and> type_selected types (m_type m)) (messages db)))"

definition convertLifecycleMessageToRejection ::
    "jsstr \<Rightarrow> jsstr \<Rightarrow> odb \<Rightarrow> odb \<times> message_row option" where
  "convertLifecycleMessageToRejection i reason db =
     (case getMessageById i db of None \<Rightarrow> (db, None)
      | Some m \<Rightarrow>
         if m_type m \<noteq> MWorkerDone \<and> m_type m \<noteq> MHeartbeat then (db, Some m)
         else let originalBody = (if m_body m \<noteq> [] then [10, 10] @ js ''Original body:'' @ [10] @ m_body m else []);
                  b = js ''Orca rejected this '' @ message_type_text (m_type m) @ js '': '' @ reason @ originalBody;
                  p = addLifecycleRejectionMarker (m_payload m) reason;
                  s = js ''Rejected '' @ message_type_text (m_type m) @ js '': '' @ m_subject m;
                  db' = db\<lparr>messages := sql_update (\<lambda>r. m_id r = i)
                          (\<lambda>r. r\<lparr>m_priority := PHigh, m_subject := s, m_body := b, m_payload := Some p\<rparr>)
                          (messages db)\<rparr>
              in (db', getMessageById i db'))"

definition getUndeliveredUnreadMessages ::
    "jsstr \<Rightarrow> message_type list option \<Rightarrow> odb \<Rightarrow> message_row list" where
  "getUndeliveredUnreadMessages h types db =
     map exposeMessageTimestamps (sort_key m_sequence
       (filter (\<lambda>m. m_to m = h \<and> \<not> m_read m \<and> m_delivered_at m = None \<and> type_selected types (m_type m))
         (messages db)))"

definition getAllMessages :: "jsstr \<Rightarrow> nat \<Rightarrow> odb \<Rightarrow> message_row list" where
  "getAllMessages h limit db =
     map exposeMessageTimestamps
       (take limit (rev (sort_key m_sequence (filter (\<lambda>m. m_to m = h) (messages db)))))"

definition markAsRead :: "jsstr list \<Rightarrow> odb \<Rightarrow> odb" where
  "markAsRead ids db =
     (if ids = [] then db
      else db\<lparr>messages := sql_update (\<lambda>m. m_id m \<in> set ids) (\<lambda>m. m\<lparr>m_read := True\<rparr>) (messages db)\<rparr>)"

definition markAsDelivered :: "nat \<Rightarrow> jsstr list \<Rightarrow> odb \<Rightarrow> odb" where
  "markAsDelivered now ids db =
     (if ids = [] then db
      else db\<lparr>messages := sql_update (\<lambda>m. m_id m \<in> set ids)
                (\<lambda>m. m\<lparr>m_delivered_at := Some (SqlUtc now)\<rparr>) (messages db)\<rparr>)"

definition markAsReadAndDelivered :: "nat \<Rightarrow> jsstr list \<Rightarrow> odb \<Rightarrow> odb" where
  "markAsReadAndDelivered now ids db =
     (if ids = [] then db
      else db\<lparr>messages := sql_update (\<lambda>m. m_id m \<in> set ids)
                (\<lambda>m. m\<lparr>m_read := True, m_delivered_at := coalesce (m_delivered_at m) (Some (SqlUtc now))\<rparr>)
                (messages db)\<rparr>)"

definition getInbox :: "nat \<Rightarrow> odb \<Rightarrow> message_row list" where
  "getInbox limit db = map exposeMessageTimestamps (take limit (rev (sort_key m_sequence (messages db))))"

definition getAllMessagesForHandle ::
    "jsstr \<Rightarrow> nat \<Rightarrow> message_type list option \<Rightarrow> odb \<Rightarrow> message_row list" where
  "getAllMessagesForHandle h limit types db =
     map exposeMessageTimestamps (take limit (rev (sort_key m_sequence
       (filter (\<lambda>m. m_to m = h \<and> type_selected types (m_type m)) (messages db)))))"

definition getThreadMessagesFor :: "jsstr \<Rightarrow> jsstr \<Rightarrow> nat option \<Rightarrow> odb \<Rightarrow> message_row list" where
  "getThreadMessagesFor thread h after db =
     map exposeMessageTimestamps (sort_key m_sequence
       (filter (\<lambda>m. m_thread m = Some thread \<and> m_to m = h \<and>
                  (case after of None \<Rightarrow> True | Some n \<Rightarrow> n < m_sequence m)) (messages db)))"

subsection \<open>Tasks\<close>

record task_input =
  ti_spec :: jsstr
  ti_title :: "jsstr option"
  ti_display :: "jsstr option"
  ti_deps :: "jsstr list option"
  ti_parent :: "jsstr option"
  ti_created_by :: "jsstr option"

definition getTask :: "jsstr \<Rightarrow> odb \<Rightarrow> task_row option" where
  "getTask i db = find (\<lambda>t. t_id t = i) (tasks db)"

definition null_if_empty :: "jsstr \<Rightarrow> jsstr option" where
  "null_if_empty s = (if s = [] then None else Some s)"

definition createTask :: "jsstr \<Rightarrow> nat \<Rightarrow> task_input \<Rightarrow> odb \<Rightarrow> odb \<times> (db_error + task_row)" where
  "createTask newid now inp db =
     (let deps = (case ti_deps inp of None \<Rightarrow> [] | Some ds \<Rightarrow> ds);
          display = buildOrchestrationTaskDisplayMetadata (ti_spec inp) (ti_title inp) (ti_display inp);
          row = \<lparr>t_id = newid, t_parent = ti_parent inp, t_created_by = ti_created_by inp,
                 t_title = null_if_empty (taskTitle display), t_display = null_if_empty (displayName display),
                 t_spec = ti_spec inp, t_status = (if deps \<noteq> [] then TPending else TReady),
                 t_deps = json_stringify (json_strings deps), t_result = None,
                 t_created_at = SqlUtc now, t_completed_at = None\<rparr>
      in if newid \<in> t_id ` set (tasks db) then (db, Inl UniqueViolation)
         else (db\<lparr>tasks := tasks db @ [row]\<rparr>, Inr row))"

text \<open>The filter of \<open>listTasks\<close>: \<open>ready\<close> wins over \<open>status\<close>.\<close>

definition task_selected :: "bool \<Rightarrow> task_status option \<Rightarrow> task_row \<Rightarrow> bool" where
  "task_selected ready st t =
     (if ready then t_status t = TReady
      else (case st of None \<Rightarrow> True | Some s \<Rightarrow> t_status t = s))"

definition listTasks :: "bool \<Rightarrow> task_status option \<Rightarrow> odb \<Rightarrow> task_row list" where
  "listTasks ready st db =
     sort_key (\<lambda>t. ts_order (t_created_at t)) (filter (task_selected ready st) (tasks db))"

definition d_active :: "dispatch_row \<Rightarrow> bool" where
  "d_active d \<longleftrightarrow> d_status d = DPending \<or> d_status d = DDispatched"

definition active_dispatch_for :: "jsstr \<Rightarrow> odb \<Rightarrow> dispatch_row option" where
  "active_dispatch_for task db = sql_last (\<lambda>d. d_task d = task \<and> d_active d) (dispatches db)"

text \<open>Each task with the assignee and the id of its latest active dispatch (the LEFT JOIN).\<close>

definition listTasksWithDispatch ::
    "bool \<Rightarrow> task_status option \<Rightarrow> odb \<Rightarrow> (task_row \<times> jsstr option \<times> jsstr option) list" where
  "listTasksWithDispatch ready st db =
     map (\<lambda>t. case active_dispatch_for (t_id t) db of
                None \<Rightarrow> (t, None, None)
              | Some d \<Rightarrow> (t, d_handle d, Some (d_id d)))
       (listTasks ready st db)"

definition set_task_status :: "jsstr \<Rightarrow> task_status \<Rightarrow> odb \<Rightarrow> odb" where
  "set_task_status i st db =
     db\<lparr>tasks := sql_update (\<lambda>t. t_id t = i) (\<lambda>t. t\<lparr>t_status := st\<rparr>) (tasks db)\<rparr>"

definition task_completed :: "odb \<Rightarrow> jsstr \<Rightarrow> bool" where
  "task_completed db i = (case getTask i db of None \<Rightarrow> False | Some t \<Rightarrow> t_status t = TCompleted)"

text \<open>\<open>JSON.parse(task.deps)\<close>; \<open>None\<close> is the exception on text that is no list of strings.\<close>

definition parse_deps :: "jsstr \<Rightarrow> jsstr list option" where
  "parse_deps txt =
     (case json_parse txt of
        Some (JArr vs) \<Rightarrow>
          (if list_all (\<lambda>v. case v of JStr _ \<Rightarrow> True | _ \<Rightarrow> False) vs
           then Some (map (\<lambda>v. case v of JStr s \<Rightarrow> s | _ \<Rightarrow> []) vs) else None)
      | _ \<Rightarrow> None)"

text \<open>The loop of \<open>promoteReadyTasks\<close> over the tasks that were pending when it started.\<close>

fun promote_loop :: "jsstr \<Rightarrow> task_row list \<Rightarrow> odb \<Rightarrow> odb \<times> db_error option" where
  "promote_loop completed [] db = (db, None)"
| "promote_loop completed (t # ts) db =
     (case parse_deps (t_deps t) of
        None \<Rightarrow> (db, Some BadJson)
      | Some deps \<Rightarrow>
          if completed \<notin> set deps then promote_loop completed ts db
          else if list_all (task_completed db) deps
          then promote_loop completed ts (set_task_status (t_id t) TReady db)
          else promote_loop completed ts db)"

definition promoteReadyTasks :: "jsstr \<Rightarrow> odb \<Rightarrow> odb \<times> db_error option" where
  "promoteReadyTasks completed db =
     promote_loop completed (filter (\<lambda>t. t_status t = TPending) (tasks db)) db"

subsection \<open>Dispatch contexts\<close>

definition completeDispatch :: "nat \<Rightarrow> jsstr \<Rightarrow> odb \<Rightarrow> odb" where
  "completeDispatch now ctx db =
     db\<lparr>dispatches := sql_update (\<lambda>d. d_id d = ctx)
          (\<lambda>d. d\<lparr>d_status := DCompleted, d_completed_at := Some (SqlUtc now)\<rparr>) (dispatches db)\<rparr>"

definition completeActiveDispatchForTask :: "nat \<Rightarrow> jsstr \<Rightarrow> odb \<Rightarrow> odb" where
  "completeActiveDispatchForTask now task db =
     (case active_dispatch_for task db of None \<Rightarrow> db | Some d \<Rightarrow> completeDispatch now (d_id d) db)"

text \<open>
  \<open>updateTaskStatus\<close>: \<open>now\<close> is the clock in seconds; the ISO text of \<open>new Date()\<close> is in milliseconds.
\<close>

definition update_task_row :: "nat \<Rightarrow> jsstr \<Rightarrow> task_status \<Rightarrow> jsstr option \<Rightarrow> odb \<Rightarrow> odb" where
  "update_task_row now i st res db =
     (let completedAt = (if st = TCompleted \<or> st = TFailed then Some (IsoMs (1000 * now)) else None)
      in db\<lparr>tasks := sql_update (\<lambda>t. t_id t = i)
              (\<lambda>t. t\<lparr>t_status := st, t_result := coalesce res (t_result t),
                      t_completed_at := coalesce completedAt (t_completed_at t)\<rparr>) (tasks db)\<rparr>)"

definition updateTaskStatus ::
    "nat \<Rightarrow> jsstr \<Rightarrow> task_status \<Rightarrow> jsstr option \<Rightarrow> odb \<Rightarrow> odb \<times> (db_error + task_row option)" where
  "updateTaskStatus now i st res db =
     (let db1 = update_task_row now i st res db
      in if st = TCompleted
         then (case promoteReadyTasks i db1 of
                 (db2, Some e) \<Rightarrow> (db2, Inl e)
               | (db2, None) \<Rightarrow>
                   (let db3 = completeActiveDispatchForTask now i db2 in (db3, Inr (getTask i db3))))
         else (db1, Inr (getTask i db1)))"

definition findActiveDispatchForAssignee ::
    "jsstr \<Rightarrow> jsstr option \<Rightarrow> odb \<Rightarrow> dispatch_row option" where
  "findActiveDispatchForAssignee h pane db =
     (case find (\<lambda>d. d_handle d = Some h \<and> d_active d) (dispatches db) of
        Some d \<Rightarrow> Some d
      | None \<Rightarrow>
          if \<not> truthy pane then None
          else find (\<lambda>d. truthy (d_pane_key d) \<and> isEquivalentPaneKey (the (d_pane_key d)) (the pane))
                 (filter (\<lambda>d. d_pane_key d \<noteq> None \<and> d_active d) (dispatches db)))"

definition getActiveDispatchForTerminal :: "jsstr \<Rightarrow> odb \<Rightarrow> dispatch_row option" where
  "getActiveDispatchForTerminal h db = findActiveDispatchForAssignee h None db"

text \<open>\<open>MAX(failure_count)\<close> over the contexts of a task, 0 when there are none.\<close>

definition prior_failures :: "jsstr \<Rightarrow> odb \<Rightarrow> nat" where
  "prior_failures task db =
     fold max (map d_failures (filter (\<lambda>d. d_task d = task) (dispatches db))) 0"

definition new_dispatch_row :: "jsstr \<Rightarrow> nat \<Rightarrow> jsstr \<Rightarrow> jsstr \<Rightarrow> jsstr option \<Rightarrow> nat \<Rightarrow> dispatch_row" where
  "new_dispatch_row newid now task h pane failures =
     \<lparr>d_id = newid, d_task = task, d_handle = Some h, d_pane_key = pane, d_status = DDispatched,
      d_failures = failures, d_last_failure = None, d_dispatched_at = Some (SqlUtc now),
      d_completed_at = None, d_created_at = SqlUtc now, d_heartbeat_at = None\<rparr>"

definition createDispatchContext ::
    "jsstr \<Rightarrow> nat \<Rightarrow> jsstr \<Rightarrow> jsstr \<Rightarrow> jsstr option \<Rightarrow> odb \<Rightarrow> odb \<times> (db_error + dispatch_row)" where
  "createDispatchContext newid now task h pane db =
     (case getTask task db of None \<Rightarrow> (db, Inl (TaskNotFound task))
      | Some t \<Rightarrow>
         if t_status t \<noteq> TReady then (db, Inl (TaskNotReady task (t_status t)))
         else (case findActiveDispatchForAssignee h pane db of
                 Some d \<Rightarrow> (db, Inl (AlreadyActive h (d_id d) (d_task d)))
               | None \<Rightarrow>
                   if newid \<in> d_id ` set (dispatches db) then (db, Inl UniqueViolation)
                   else let row = new_dispatch_row newid now task h pane (prior_failures task db)
                        in (set_task_status task TDispatched (db\<lparr>dispatches := dispatches db @ [row]\<rparr>),
                            Inr row)))"

definition getDispatchContext :: "jsstr \<Rightarrow> odb \<Rightarrow> dispatch_row option" where
  "getDispatchContext task db = sql_last (\<lambda>d. d_task d = task) (dispatches db)"

definition getDispatchContextById :: "jsstr \<Rightarrow> odb \<Rightarrow> dispatch_row option" where
  "getDispatchContextById i db = find (\<lambda>d. d_id d = i) (dispatches db)"

definition getLatestDispatchForTerminal :: "jsstr \<Rightarrow> odb \<Rightarrow> dispatch_row option" where
  "getLatestDispatchForTerminal h db = sql_last (\<lambda>d. d_handle d = Some h) (dispatches db)"

definition failDispatch :: "jsstr \<Rightarrow> jsstr \<Rightarrow> odb \<Rightarrow> odb \<times> dispatch_row option" where
  "failDispatch ctx error db =
     (case getDispatchContextById ctx db of None \<Rightarrow> (db, None)
      | Some d \<Rightarrow>
         let n = d_failures d + 1;
             st = (if n \<ge> 3 then DCircuitBroken else DFailed);
             db1 = db\<lparr>dispatches := sql_update (\<lambda>r. d_id r = ctx)
                     (\<lambda>r. r\<lparr>d_status := st, d_failures := n, d_last_failure := Some error\<rparr>) (dispatches db)\<rparr>;
             db2 = set_task_status (d_task d) (if st = DCircuitBroken then TFailed else TReady) db1
         in (db2, getDispatchContextById ctx db2))"

definition failActiveDispatchForTask :: "jsstr \<Rightarrow> jsstr \<Rightarrow> odb \<Rightarrow> odb \<times> dispatch_row option" where
  "failActiveDispatchForTask task error db =
     (case active_dispatch_for task db of None \<Rightarrow> (db, None) | Some d \<Rightarrow> failDispatch (d_id d) error db)"

definition recordHeartbeat :: "jsstr \<Rightarrow> timestamp \<Rightarrow> odb \<Rightarrow> odb" where
  "recordHeartbeat ctx at db =
     db\<lparr>dispatches := sql_update (\<lambda>d. d_id d = ctx \<and> d_status d = DDispatched)
          (\<lambda>d. d\<lparr>d_heartbeat_at := Some at\<rparr>) (dispatches db)\<rparr>"

definition getStaleDispatches :: "timestamp \<Rightarrow> odb \<Rightarrow> dispatch_row list" where
  "getStaleDispatches threshold db =
     filter (\<lambda>d. d_status d = DDispatched \<and>
               (case d_dispatched_at d of None \<Rightarrow> False | Some t \<Rightarrow> sql_before t threshold) \<and>
               (case d_heartbeat_at d of None \<Rightarrow> True | Some t \<Rightarrow> sql_before t threshold))
       (dispatches db)"

subsection \<open>Decision gates\<close>

definition createGate ::
    "jsstr \<Rightarrow> nat \<Rightarrow> jsstr \<Rightarrow> jsstr \<Rightarrow> json option \<Rightarrow> odb \<Rightarrow> odb \<times> (db_error + gate_row)" where
  "createGate newid now task question options db =
     (let row = \<lparr>g_id = newid, g_task = task, g_question = question,
                 g_options = json_stringify (case options of None \<Rightarrow> JArr [] | Some JNull \<Rightarrow> JArr [] | Some os \<Rightarrow> os),
                 g_status = GPending, g_resolution = None, g_created_at = SqlUtc now, g_resolved_at = None\<rparr>
      in if newid \<in> g_id ` set (gates db) then (db, Inl UniqueViolation)
         else (set_task_status task TBlocked
                 (completeActiveDispatchForTask now task (db\<lparr>gates := gates db @ [row]\<rparr>)), Inr row))"

definition getGate :: "jsstr \<Rightarrow> odb \<Rightarrow> gate_row option" where
  "getGate i db = find (\<lambda>g. g_id g = i) (gates db)"

definition resolveGate :: "nat \<Rightarrow> jsstr \<Rightarrow> jsstr \<Rightarrow> odb \<Rightarrow> odb \<times> gate_row option" where
  "resolveGate now i resolution db =
     (case getGate i db of None \<Rightarrow> (db, None)
      | Some g \<Rightarrow>
         let db1 = db\<lparr>gates := sql_update (\<lambda>r. g_id r = i)
                     (\<lambda>r. r\<lparr>g_status := GResolved, g_resolution := Some resolution,
                             g_resolved_at := Some (SqlUtc now)\<rparr>) (gates db)\<rparr>;
             db2 = set_task_status (g_task g) TReady db1
         in (db2, getGate i db2))"

definition timeoutGate :: "nat \<Rightarrow> jsstr \<Rightarrow> odb \<Rightarrow> odb \<times> gate_row option" where
  "timeoutGate now i db =
     (let db1 = db\<lparr>gates := sql_update (\<lambda>r. g_id r = i)
                  (\<lambda>r. r\<lparr>g_status := GTimeout, g_resolved_at := Some (SqlUtc now)\<rparr>) (gates db)\<rparr>
      in (db1, getGate i db1))"

definition listGates :: "jsstr option \<Rightarrow> gate_status option \<Rightarrow> odb \<Rightarrow> gate_row list" where
  "listGates task st db =
     sort_key (\<lambda>g. ts_order (g_created_at g))
       (filter (\<lambda>g. (truthy task \<longrightarrow> Some (g_task g) = task) \<and>
                  (case st of None \<Rightarrow> True | Some s \<Rightarrow> g_status g = s)) (gates db))"

subsection \<open>Coordinator runs, idle terminals, reset\<close>

definition createCoordinatorRun ::
    "jsstr \<Rightarrow> nat \<Rightarrow> jsstr \<Rightarrow> jsstr \<Rightarrow> nat option \<Rightarrow> odb \<Rightarrow> odb \<times> (db_error + run_row)" where
  "createCoordinatorRun newid now sp h poll db =
     (let row = \<lparr>r_id = newid, r_spec = sp, r_status = CRunning, r_handle = h,
                 r_poll_ms = (case poll of None \<Rightarrow> 2000 | Some p \<Rightarrow> p), r_created_at = SqlUtc now,
                 r_completed_at = None\<rparr>
      in if newid \<in> r_id ` set (runs db) then (db, Inl UniqueViolation)
         else (db\<lparr>runs := runs db @ [row]\<rparr>, Inr row))"

definition getCoordinatorRun :: "jsstr \<Rightarrow> odb \<Rightarrow> run_row option" where
  "getCoordinatorRun i db = find (\<lambda>r. r_id r = i) (runs db)"

definition updateCoordinatorRun :: "nat \<Rightarrow> jsstr \<Rightarrow> coordinator_status \<Rightarrow> odb \<Rightarrow> odb \<times> run_row option" where
  "updateCoordinatorRun now i st db =
     (let completedAt = (if st = CCompleted \<or> st = CFailed then Some (IsoMs (1000 * now)) else None);
          db1 = db\<lparr>runs := sql_update (\<lambda>r. r_id r = i)
                  (\<lambda>r. r\<lparr>r_status := st, r_completed_at := coalesce completedAt (r_completed_at r)\<rparr>) (runs db)\<rparr>
      in (db1, getCoordinatorRun i db1))"

definition getActiveCoordinatorRun :: "odb \<Rightarrow> run_row option" where
  "getActiveCoordinatorRun db =
     (case sort_key (\<lambda>r. - int (ts_order (r_created_at r))) (filter (\<lambda>r. r_status r = CRunning) (runs db)) of
        [] \<Rightarrow> None | r # _ \<Rightarrow> Some r)"

text \<open>The query promises no order of the handles; the model lists them by first occurrence.\<close>

definition getIdleTerminals :: "jsstr list \<Rightarrow> odb \<Rightarrow> jsstr list" where
  "getIdleTerminals exclude db =
     (let busy = List.map_filter d_handle (filter d_active (dispatches db)) @ exclude
      in filter (\<lambda>h. h \<notin> set busy) (remdups (map m_to (messages db) @ map m_from (messages db))))"

definition resetTasks :: "odb \<Rightarrow> odb" where
  "resetTasks db = db\<lparr>runs := [], gates := [], dispatches := [], tasks := []\<rparr>"

definition resetMessages :: "odb \<Rightarrow> odb" where
  "resetMessages db = db\<lparr>messages := []\<rparr>"

definition resetAll :: "odb \<Rightarrow> odb" where
  "resetAll db = db\<lparr>runs := [], gates := [], dispatches := [], tasks := [], messages := []\<rparr>"

end
