(* ===== verification/Orch_Db_Inv.thy ===== *)
theory Orch_Db_Inv
  imports Orch_Db
begin

text \<open>
  What the orchestration store keeps over any sequence of its operations: unique ids, messages in
  sequence order, readable dependency lists, the one-dispatch-per-assignee lock and the
  circuit breaker.  \<open>db_op\<close> names every operation that writes.
\<close>

datatype db_op =
    InsertMessage jsstr nat message_input
  | ConvertRejection jsstr jsstr
  | MarkRead "jsstr list"
  | MarkDelivered nat "jsstr list"
  | MarkReadDelivered nat "jsstr list"
  | CreateTask jsstr nat task_input
  | UpdateTaskStatus nat jsstr task_status "jsstr option"
  | CreateDispatch jsstr nat jsstr jsstr "jsstr option"
  | CompleteDispatch nat jsstr
  | CompleteActive nat jsstr
  | FailDispatch jsstr jsstr
  | FailActive jsstr jsstr
  | RecordHeartbeat jsstr timestamp
  | CreateGate jsstr nat jsstr jsstr "json option"
  | ResolveGate nat jsstr jsstr
  | TimeoutGate nat jsstr
  | CreateRun jsstr nat jsstr jsstr "nat option"
  | UpdateRun nat jsstr coordinator_status
  | ResetTasks
  | ResetMessages
  | ResetAll

fun db_step :: "db_op \<Rightarrow> odb \<Rightarrow> odb" where
  "db_step (InsertMessage i now m) db = fst (insertMessage i now m db)"
| "db_step (ConvertRejection i r) db = fst (convertLifecycleMessageToRejection i r db)"
| "db_step (MarkRead ids) db = markAsRead ids db"
| "db_step (MarkDelivered now ids) db = markAsDelivered now ids db"
| "db_step (MarkReadDelivered now ids) db = markAsReadAndDelivered now ids db"
| "db_step (CreateTask i now t) db = fst (createTask i now t db)"
| "db_step (UpdateTaskStatus now i st r) db = fst (updateTaskStatus now i st r db)"
| "db_step (CreateDispatch i now t h p) db = fst (createDispatchContext i now t h p db)"
| "db_step (CompleteDispatch now c) db = completeDispatch now c db"
| "db_step (CompleteActive now t) db = completeActiveDispatchForTask now t db"
| "db_step (FailDispatch c e) db = fst (failDispatch c e db)"
| "db_step (FailActive t e) db = fst (failActiveDispatchForTask t e db)"
| "db_step (RecordHeartbeat c at) db = recordHeartbeat c at db"
| "db_step (CreateGate i now t q os) db = fst (createGate i now t q os db)"
| "db_step (ResolveGate now i r) db = fst (resolveGate now i r db)"
| "db_step (TimeoutGate now i) db = fst (timeoutGate now i db)"
| "db_step (CreateRun i now s h p) db = fst (createCoordinatorRun i now s h p db)"
| "db_step (UpdateRun now i st) db = fst (updateCoordinatorRun now i st db)"
| "db_step ResetTasks db = resetTasks db"
| "db_step ResetMessages db = resetMessages db"
| "db_step ResetAll db = resetAll db"

subsection \<open>The invariant\<close>

definition msg_inv :: "message_row list \<Rightarrow> nat \<Rightarrow> bool" where
  "msg_inv ms n \<longleftrightarrow> distinct (map m_id ms) \<and> sorted_wrt (<) (map m_sequence ms) \<and>
     (\<forall>m \<in> set ms. m_sequence m \<le> n)"

definition task_inv :: "task_row list \<Rightarrow> bool" where
  "task_inv ts \<longleftrightarrow> distinct (map t_id ts) \<and> (\<forall>t \<in> set ts. parse_deps (t_deps t) \<noteq> None)"

text \<open>Two active dispatches to one assignee: the same handle, or equivalent pane keys.\<close>

definition conflict :: "dispatch_row \<Rightarrow> dispatch_row \<Rightarrow> bool" where
  "conflict d e \<longleftrightarrow> d_active d \<and> d_active e \<and>
     (d_handle d = d_handle e \<or>
      truthy (d_pane_key d) \<and> truthy (d_pane_key e) \<and>
      isEquivalentPaneKey (the (d_pane_key d)) (the (d_pane_key e)))"

definition breaker_ok :: "dispatch_row \<Rightarrow> bool" where
  "breaker_ok d \<longleftrightarrow> (d_status d = DCircuitBroken \<longrightarrow> 3 \<le> d_failures d) \<and>
     (d_status d = DFailed \<longrightarrow> 0 < d_failures d \<and> d_failures d < 3)"

definition disp_inv :: "jsstr set \<Rightarrow> dispatch_row list \<Rightarrow> bool" where
  "disp_inv ids ds \<longleftrightarrow> distinct (map d_id ds) \<and> sorted_wrt (\<lambda>d e. \<not> conflict d e) ds \<and>
     (\<forall>d \<in> set ds. breaker_ok d \<and> d_task d \<in> ids \<and> d_handle d \<noteq> None)"

definition db_inv :: "odb \<Rightarrow> bool" where
  "db_inv db \<longleftrightarrow> msg_inv (messages db) (last_seq db) \<and> task_inv (tasks db) \<and>
     disp_inv (t_id ` set (tasks db)) (dispatches db) \<and>
     distinct (map g_id (gates db)) \<and> distinct (map r_id (runs db))"

lemma db_inv_empty: "db_inv empty_odb"
  by (simp add: db_inv_def empty_odb_def msg_inv_def task_inv_def disp_inv_def)

subsection \<open>Rows under an update\<close>

lemma parse_deps_strings [simp]: "parse_deps (json_stringify (json_strings ds)) = Some ds"
proof -
  have all: "list_all (\<lambda>v. case v of JStr _ \<Rightarrow> True | _ \<Rightarrow> False) (map JStr ds)"
    by (simp add: list_all_iff)
  have vals: "map (\<lambda>v. case v of JStr s \<Rightarrow> s | _ \<Rightarrow> []) (map JStr ds) = ds"
    by (induction ds) auto
  show ?thesis
    unfolding parse_deps_def parse_json_strings unfolding json_strings_def option.case json.case if_P [OF all] vals ..
qed

lemma ids_sql_update: "(\<And>r. p r \<Longrightarrow> k (f r) = k r) \<Longrightarrow> k ` set (sql_update p f t) = k ` set t"
  by (induction t) auto

lemma msg_inv_update:
  assumes "msg_inv ms n" "\<And>m. p m \<Longrightarrow> m_id (f m) = m_id m \<and> m_sequence (f m) = m_sequence m"
  shows "msg_inv (sql_update p f ms) n"
  using assms by (auto simp: msg_inv_def map_sql_update in_sql_update)

lemma task_inv_update:
  assumes "task_inv ts" "\<And>t. p t \<Longrightarrow> t_id (f t) = t_id t \<and> t_deps (f t) = t_deps t"
  shows "task_inv (sql_update p f ts)"
  using assms by (auto simp: task_inv_def map_sql_update in_sql_update)

lemma disp_inv_update:
  assumes inv: "disp_inv ids ds"
    and same: "\<And>d. p d \<Longrightarrow> d_id (f d) = d_id d \<and> d_task (f d) = d_task d \<and>
                 d_handle (f d) = d_handle d \<and> d_pane_key (f d) = d_pane_key d"
    and act: "\<And>d. p d \<Longrightarrow> d_active (f d) \<Longrightarrow> d_active d"
    and brk: "\<And>d. p d \<Longrightarrow> breaker_ok d \<Longrightarrow> breaker_ok (f d)"
  shows "disp_inv ids (sql_update p f ds)"
proof -
  let ?g = "\<lambda>d. if p d then f d else d"
  have c: "conflict (?g d) (?g e) \<Longrightarrow> conflict d e" for d e
    using same [of d] same [of e] act [of d] act [of e] by (auto simp: conflict_def split: if_splits)
  have "sorted_wrt (\<lambda>d e. \<not> conflict d e) ds" using inv by (simp add: disp_inv_def)
  then have "sorted_wrt (\<lambda>d e. \<not> conflict (?g d) (?g e)) ds"
    by (rule sorted_wrt_mono_rel [rotated]) (use c in blast)
  then have "sorted_wrt (\<lambda>d e. \<not> conflict d e) (sql_update p f ds)"
    unfolding sql_update_def sorted_wrt_map .
  moreover have "map d_id (sql_update p f ds) = map d_id ds"
    using same by (simp add: map_sql_update)
  moreover have "\<forall>d \<in> set (sql_update p f ds). breaker_ok d \<and> d_task d \<in> ids \<and> d_handle d \<noteq> None"
    using inv same brk by (auto simp: disp_inv_def in_sql_update)
  ultimately show ?thesis
    using inv by (simp add: disp_inv_def)
qed


subsection \<open>Every operation keeps the invariant\<close>

lemma db_inv_messages: "db_inv db \<Longrightarrow> msg_inv ms n \<Longrightarrow> db_inv (db\<lparr>messages := ms, last_seq := n\<rparr>)"
  by (simp add: db_inv_def)

lemma db_inv_messages_update:
  assumes "db_inv db" "\<And>m. p m \<Longrightarrow> m_id (f m) = m_id m \<and> m_sequence (f m) = m_sequence m"
  shows "db_inv (db\<lparr>messages := sql_update p f (messages db)\<rparr>)"
  using assms msg_inv_update [of "messages db" "last_seq db" p f] by (simp add: db_inv_def)

lemma db_inv_tasks_update:
  assumes "db_inv db" "\<And>t. p t \<Longrightarrow> t_id (f t) = t_id t \<and> t_deps (f t) = t_deps t"
  shows "db_inv (db\<lparr>tasks := sql_update p f (tasks db)\<rparr>)"
  using assms task_inv_update [of "tasks db" p f] ids_sql_update [of p t_id f "tasks db"]
  by (simp add: db_inv_def)

lemma db_inv_dispatches:
  "db_inv db \<Longrightarrow> disp_inv (t_id ` set (tasks db)) ds \<Longrightarrow> db_inv (db\<lparr>dispatches := ds\<rparr>)"
  by (simp add: db_inv_def)

lemma db_inv_disp: "db_inv db \<Longrightarrow> disp_inv (t_id ` set (tasks db)) (dispatches db)"
  by (simp add: db_inv_def)

lemma db_inv_set_task_status: "db_inv db \<Longrightarrow> db_inv (set_task_status i st db)"
  unfolding set_task_status_def by (rule db_inv_tasks_update) auto

lemma db_inv_insertMessage: "db_inv db \<Longrightarrow> db_inv (fst (insertMessage i now m db))"
  by (auto simp: insertMessage_def Let_def db_inv_def msg_inv_def sorted_wrt_append new_message_row_def
      less_Suc_eq_le image_iff intro: le_SucI)

lemma db_inv_convert: "db_inv db \<Longrightarrow> db_inv (fst (convertLifecycleMessageToRejection i r db))"
  by (auto simp: convertLifecycleMessageToRejection_def Let_def split: option.split
      intro!: db_inv_messages_update)

lemma db_inv_mark:
  "db_inv db \<Longrightarrow> db_inv (markAsRead ids db)"
  "db_inv db \<Longrightarrow> db_inv (markAsDelivered now ids db)"
  "db_inv db \<Longrightarrow> db_inv (markAsReadAndDelivered now ids db)"
  by (auto simp: markAsRead_def markAsDelivered_def markAsReadAndDelivered_def
      intro!: db_inv_messages_update)

lemma disp_inv_mono: "disp_inv ids ds \<Longrightarrow> ids \<subseteq> ids' \<Longrightarrow> disp_inv ids' ds"
  by (auto simp: disp_inv_def)

lemma db_inv_createTask: "db_inv db \<Longrightarrow> db_inv (fst (createTask i now inp db))"
  by (auto simp: createTask_def Let_def db_inv_def task_inv_def image_iff intro: disp_inv_mono)

lemma db_inv_completeDispatch: "db_inv db \<Longrightarrow> db_inv (completeDispatch now c db)"
  unfolding completeDispatch_def
  by (intro db_inv_dispatches disp_inv_update db_inv_disp) (auto simp: d_active_def breaker_ok_def)

lemma db_inv_completeActive: "db_inv db \<Longrightarrow> db_inv (completeActiveDispatchForTask now t db)"
  by (simp add: completeActiveDispatchForTask_def db_inv_completeDispatch split: option.split)

lemma db_inv_promote: "db_inv db \<Longrightarrow> db_inv (fst (promote_loop i ts db))"
  by (induction i ts db rule: promote_loop.induct)
     (auto simp: db_inv_set_task_status split: option.split)

lemma db_inv_updateTaskStatus: "db_inv db \<Longrightarrow> db_inv (fst (updateTaskStatus now i st r db))"
proof -
  assume "db_inv db"
  then have 1: "db_inv (update_task_row now i st r db)"
    unfolding update_task_row_def Let_def by (intro db_inv_tasks_update) auto
  then have "db_inv (fst (promoteReadyTasks i (update_task_row now i st r db)))"
    by (simp add: promoteReadyTasks_def db_inv_promote)
  with 1 show ?thesis
    by (auto simp: updateTaskStatus_def Let_def db_inv_completeActive split: prod.split option.split)
qed

lemma findActive_None:
  assumes "findActiveDispatchForAssignee h pane db = None"
  shows "\<forall>d \<in> set (dispatches db). d_active d \<longrightarrow> d_handle d \<noteq> Some h \<and>
     (truthy pane \<and> truthy (d_pane_key d) \<longrightarrow> \<not> isEquivalentPaneKey (the (d_pane_key d)) (the pane))"
  using assms unfolding findActiveDispatchForAssignee_def
  by (auto simp: find_None_all truthy_def split: option.splits if_splits)

lemma db_inv_createDispatch: "db_inv db \<Longrightarrow> db_inv (fst (createDispatchContext i now t h pane db))"
proof -
  assume inv: "db_inv db"
  let ?row = "new_dispatch_row i now t h pane (prior_failures t db)"
  have *: "disp_inv (t_id ` set (tasks db)) (dispatches db @ [?row])"
    if "getTask t db = Some tr" "findActiveDispatchForAssignee h pane db = None"
      "i \<notin> d_id ` set (dispatches db)" for tr
  proof -
    have "t \<in> t_id ` set (tasks db)"
      using that(1) unfolding getTask_def by (auto dest: find_Some_in)
    moreover have "\<forall>d \<in> set (dispatches db). \<not> conflict d ?row"
      using findActive_None [OF that(2)] by (auto simp: conflict_def new_dispatch_row_def)
    ultimately show ?thesis
      using db_inv_disp [OF inv] that(3)
      by (auto simp: disp_inv_def sorted_wrt_append new_dispatch_row_def breaker_ok_def)
  qed
  show ?thesis
    using inv * by (auto simp: createDispatchContext_def Let_def split: option.split
        intro!: db_inv_set_task_status db_inv_dispatches)
qed

lemma db_inv_failDispatch: "db_inv db \<Longrightarrow> db_inv (fst (failDispatch c e db))"
proof (cases "getDispatchContextById c db")
  case (Some d)
  assume inv: "db_inv db"
  let ?n = "d_failures d + 1"
  let ?st = "if ?n \<ge> 3 then DCircuitBroken else DFailed"
  have "db_inv (db\<lparr>dispatches := sql_update (\<lambda>r. d_id r = c)
      (\<lambda>r. r\<lparr>d_status := ?st, d_failures := ?n, d_last_failure := Some e\<rparr>) (dispatches db)\<rparr>)"
    by (intro db_inv_dispatches disp_inv_update db_inv_disp inv)
       (auto simp: d_active_def breaker_ok_def split: if_splits)
  then show ?thesis
    using Some unfolding failDispatch_def by (simp add: Let_def db_inv_set_task_status del: One_nat_def)
qed (simp add: failDispatch_def)

lemma db_inv_recordHeartbeat: "db_inv db \<Longrightarrow> db_inv (recordHeartbeat c at db)"
  unfolding recordHeartbeat_def
  by (intro db_inv_dispatches disp_inv_update db_inv_disp) (auto simp: d_active_def breaker_ok_def)

lemma db_inv_gates: "db_inv db \<Longrightarrow> distinct (map g_id gs) \<Longrightarrow> db_inv (db\<lparr>gates := gs\<rparr>)"
  by (simp add: db_inv_def)

lemma db_inv_gate_ids: "db_inv db \<Longrightarrow> distinct (map g_id (gates db))"
  by (simp add: db_inv_def)

lemma db_inv_createGate: "db_inv db \<Longrightarrow> db_inv (fst (createGate i now t q os db))"
  by (auto simp: createGate_def Let_def db_inv_gate_ids
      intro!: db_inv_set_task_status db_inv_completeActive db_inv_gates)

lemma db_inv_resolveGate: "db_inv db \<Longrightarrow> db_inv (fst (resolveGate now i r db))"
  by (auto simp: resolveGate_def Let_def map_sql_update db_inv_gate_ids split: option.split
      intro!: db_inv_set_task_status db_inv_gates)

lemma db_inv_timeoutGate: "db_inv db \<Longrightarrow> db_inv (fst (timeoutGate now i db))"
  by (simp add: timeoutGate_def Let_def map_sql_update db_inv_gate_ids db_inv_gates)

lemma db_inv_runs:
  "db_inv db \<Longrightarrow> db_inv (fst (createCoordinatorRun i now s h poll db))"
  "db_inv db \<Longrightarrow> db_inv (fst (updateCoordinatorRun now i st db))"
  by (auto simp: createCoordinatorRun_def updateCoordinatorRun_def Let_def db_inv_def map_sql_update)

lemma db_inv_reset:
  "db_inv db \<Longrightarrow> db_inv (resetTasks db)"
  "db_inv db \<Longrightarrow> db_inv (resetMessages db)"
  "db_inv db \<Longrightarrow> db_inv (resetAll db)"
  by (simp_all add: resetTasks_def resetMessages_def resetAll_def db_inv_def msg_inv_def task_inv_def
      disp_inv_def)

lemmas db_inv_ops =
  db_inv_insertMessage db_inv_convert db_inv_mark db_inv_createTask db_inv_updateTaskStatus
  db_inv_createDispatch db_inv_completeDispatch db_inv_completeActive db_inv_failDispatch
  db_inv_recordHeartbeat db_inv_createGate db_inv_resolveGate db_inv_timeoutGate db_inv_runs
  db_inv_reset

lemma db_inv_failActive: "db_inv db \<Longrightarrow> db_inv (fst (failActiveDispatchForTask t e db))"
  by (simp add: failActiveDispatchForTask_def db_inv_ops split: option.split)

interpretation db: event_machine db_step db_inv
proof
  fix db e assume "db_inv db"
  then show "db_inv (db_step e db)"
    by (cases e) (simp_all add: db_inv_ops db_inv_failActive)
qed

lemma db_inv_reachable: "db_inv (run_events db_step ops empty_odb)"
  by (rule db.inv_run [OF db_inv_empty])

end
