(* ===== verification/Orch_Db_Props.thy ===== *)
theory Orch_Db_Props
  imports Orch_Db_Inv
begin

text \<open>
  The promises of the orchestration store to its clients: the dispatch lock, the circuit
  breaker, the resolution of the task graph, the message queue and the heartbeat monitor.
\<close>

subsection \<open>The dispatch lock\<close>

lemma sorted_wrt_conflict_active:
  assumes "sorted_wrt (\<lambda>d e. \<not> conflict d e) ds"
  shows "distinct (map d_handle (filter d_active ds))"
    and "sorted_wrt (\<lambda>d e. \<not> (truthy (d_pane_key d) \<and> truthy (d_pane_key e) \<and>
           isEquivalentPaneKey (the (d_pane_key d)) (the (d_pane_key e)))) (filter d_active ds)"
  using assms by (induction ds) (auto simp: conflict_def)

text \<open>
  C1: after any sequence of operations of the store, the active dispatches have pairwise different
  assignee handles and pairwise inequivalent pane keys, and every dispatch has an id of its own:
  no terminal, and no pane under a reissued handle, works on two dispatches.
\<close>

theorem one_active_dispatch_per_assignee:
  "let ds = dispatches (run_events db_step ops empty_odb)
   in distinct (map d_id ds) \<and> distinct (map d_handle (filter d_active ds)) \<and>
      sorted_wrt (\<lambda>d e. \<not> (truthy (d_pane_key d) \<and> truthy (d_pane_key e) \<and>
        isEquivalentPaneKey (the (d_pane_key d)) (the (d_pane_key e)))) (filter d_active ds)"
proof -
  let ?ds = "dispatches (run_events db_step ops empty_odb)"
  have "distinct (map d_id ?ds)" and s: "sorted_wrt (\<lambda>d e. \<not> conflict d e) ?ds"
    using db_inv_disp [OF db_inv_reachable [of ops]] unfolding disp_inv_def by blast+
  then show ?thesis
    unfolding Let_def using sorted_wrt_conflict_active [OF s] by blast
qed

subsection \<open>The circuit breaker\<close>

lemma find_sql_update_id:
  "(\<And>r. p r \<Longrightarrow> k (f r) = k r) \<Longrightarrow>
   find (\<lambda>r. k r = j) (sql_update p f t) = map_option (\<lambda>r. if p r then f r else r) (find (\<lambda>r. k r = j) t)"
  by (rule find_sql_update) auto

lemma getTask_set_task_status:
  "getTask j (set_task_status i st db) =
     map_option (\<lambda>t. if t_id t = i then t\<lparr>t_status := st\<rparr> else t) (getTask j db)"
  unfolding getTask_def set_task_status_def by (simp add: find_sql_update_id)

lemma getTask_id: "getTask j db = Some t \<Longrightarrow> t_id t = j"
  unfolding getTask_def by (auto dest: find_Some_in)

lemma createDispatch_Inr:
  assumes "createDispatchContext c now t h pane db = (db1, Inr row)"
  shows "\<exists>tr. getTask t db = Some tr \<and> t_status tr = TReady" "c \<notin> d_id ` set (dispatches db)"
    "findActiveDispatchForAssignee h pane db = None"
    "row = new_dispatch_row c now t h pane (prior_failures t db)"
    "db1 = set_task_status t TDispatched (db\<lparr>dispatches := dispatches db @ [row]\<rparr>)"
  using assms by (auto simp: createDispatchContext_def Let_def split: option.splits if_splits)

lemma dispatches_set_task_status [simp, db_frame]:
  "dispatches (set_task_status i st db) = dispatches db"
  "messages (set_task_status i st db) = messages db"
  "last_seq (set_task_status i st db) = last_seq db"
  "gates (set_task_status i st db) = gates db"
  by (simp_all add: set_task_status_def)

lemma getTask_dispatches [simp, db_frame]: "getTask j (db\<lparr>dispatches := ds\<rparr>) = getTask j db"
  by (simp add: getTask_def)

lemma fold_max_snoc: "fold max (xs @ [n]) 0 = max n (fold max xs (0::nat))"
  by simp

text \<open>The highest count of a task, by its upper bounds.\<close>

lemma prior_failures_le: "prior_failures t db \<le> m \<longleftrightarrow> (\<forall>d\<in>set (dispatches db). d_task d = t \<longrightarrow> d_failures d \<le> m)"
proof -
  have "fold max xs k \<le> m \<longleftrightarrow> k \<le> m \<and> (\<forall>x\<in>set xs. x \<le> m)" for xs and k :: nat
    by (induction xs arbitrary: k) auto
  then show ?thesis by (auto simp: prior_failures_def)
qed

lemma ball_sql_update: "(\<forall>r\<in>set (sql_update p f t). P r) \<longleftrightarrow> (\<forall>r\<in>set t. P (if p r then f r else r))"
  by (simp only: set_sql_update ball_simps)

lemma count_bound:
  assumes "d \<in> A" "d_id d = c" "\<And>r. r \<in> A \<Longrightarrow> d_id r = c \<Longrightarrow> r = d"
  shows "(\<forall>r\<in>A. d_task r = d_task d \<longrightarrow> (if d_id r = c then Suc (d_failures d) else d_failures r) \<le> m) \<longleftrightarrow>
    (\<forall>r\<in>A. d_task r = d_task d \<longrightarrow> d_failures r \<le> m) \<and> Suc (d_failures d) \<le> m"
proof (intro iffI conjI ballI impI)
  fix r assume l: "\<forall>r\<in>A. d_task r = d_task d \<longrightarrow> (if d_id r = c then Suc (d_failures d) else d_failures r) \<le> m"
  then show n: "Suc (d_failures d) \<le> m" using assms(1,2) by auto
  assume r: "r \<in> A" "d_task r = d_task d"
  show "d_failures r \<le> m"
  proof (cases "d_id r = c")
    case True
    then have "r = d" using assms(3) r(1) by blast
    then show ?thesis using n by simp
  qed (use l r in auto)
qed auto

lemma failDispatch_eq:
  assumes "getDispatchContextById c db = Some d"
  defines "n \<equiv> Suc (d_failures d)"
  shows "fst (failDispatch c e db) = set_task_status (d_task d) (if n < 3 then TReady else TFailed)
     (db\<lparr>dispatches := sql_update (\<lambda>r. d_id r = c)
        (\<lambda>r. r\<lparr>d_status := if n < 3 then DFailed else DCircuitBroken, d_failures := n, d_last_failure := Some e\<rparr>) (dispatches db)\<rparr>)"
  by (simp add: failDispatch_def assms(1) n_def Let_def not_less)


text \<open>A task is created, given to three terminals and fails each time.\<close>

definition plain_task :: "jsstr \<Rightarrow> jsstr list \<Rightarrow> task_input" where
  "plain_task sp deps = \<lparr>ti_spec = sp, ti_title = None, ti_display = None, ti_deps = Some deps,
     ti_parent = None, ti_created_by = None\<rparr>"

definition thrice_failed :: "db_op list" where
  "thrice_failed = [CreateTask [1] 0 (plain_task [65] []), CreateDispatch [2] 1 [1] [9] None, FailDispatch [2] [], CreateDispatch [3] 2 [1] [10] None,
     FailDispatch [3] [], CreateDispatch [4] 3 [1] [11] None]"


subsection \<open>Resolution of the task graph\<close>

definition deps_of :: "task_row \<Rightarrow> jsstr list" where
  "deps_of t = the (parse_deps (t_deps t))"

text \<open>What the completion of \<open>i\<close> does to a task, given which tasks are completed.\<close>

definition promotable :: "jsstr \<Rightarrow> odb \<Rightarrow> task_row \<Rightarrow> bool" where
  "promotable i db t \<longleftrightarrow> t_status t = TPending \<and> i \<in> set (deps_of t) \<and> list_all (task_completed db) (deps_of t)"

lemma task_completed_promote:
  assumes "getTask i db = Some t" "t_status t = TPending"
  shows "task_completed (set_task_status i TReady db) j = task_completed db j"
  using assms getTask_id [of j db]
  by (auto simp: task_completed_def getTask_set_task_status split: option.split)

lemma getTask_in: "task_inv (tasks db) \<Longrightarrow> t \<in> set (tasks db) \<Longrightarrow> getTask (t_id t) db = Some t"
  unfolding getTask_def task_inv_def by (simp add: find_key)

lemma task_inv_set_task_status: "task_inv (tasks db) \<Longrightarrow> task_inv (tasks (set_task_status i st db))"
  unfolding set_task_status_def by (simp add: task_inv_update)

lemma in_set_task_status_other:
  "t \<in> set (tasks db) \<Longrightarrow> t_id t \<noteq> i \<Longrightarrow> t \<in> set (tasks (set_task_status i st db))"
  unfolding set_task_status_def by (auto simp: in_sql_update)

text \<open>The loop never fails on a store whose dependency lists are readable, and what it does to each task.\<close>

lemma promote_loop_spec:
  assumes "task_inv (tasks db)" "distinct (map t_id cs)"
    and "\<forall>c \<in> set cs. c \<in> set (tasks db) \<and> t_status c = TPending"
  shows "snd (promote_loop i cs db) = None \<and>
    (\<forall>j. getTask j (fst (promote_loop i cs db)) =
       map_option (\<lambda>t. if t \<in> set cs \<and> promotable i db t then t\<lparr>t_status := TReady\<rparr> else t) (getTask j db))"
  using assms
proof (induction cs arbitrary: db)
  case Nil
  then show ?case by (simp add: option.map_ident)
next
  case (Cons c cs)
  have c: "c \<in> set (tasks db)" "t_status c = TPending" using Cons.prems(3) by auto
  have get: "getTask (t_id c) db = Some c" using Cons.prems(1) c(1) by (rule getTask_in)
  obtain deps where deps: "parse_deps (t_deps c) = Some deps"
    using Cons.prems(1) c(1) unfolding task_inv_def by fastforce
  have prom: "promotable i db c \<longleftrightarrow> i \<in> set deps \<and> list_all (task_completed db) deps"
    using c(2) deps by (simp add: promotable_def deps_of_def)
  show ?case
  proof (cases "promotable i db c")
    case False
    have "promote_loop i (c # cs) db = promote_loop i cs db"
      using False deps prom by simp
    moreover have "t \<in> set (c # cs) \<and> promotable i db t \<longleftrightarrow> t \<in> set cs \<and> promotable i db t" for t
      using False by auto
    ultimately show ?thesis using Cons by simp
  next
    case True
    let ?db = "set_task_status (t_id c) TReady db"
    have step: "promote_loop i (c # cs) db = promote_loop i cs ?db"
      using True deps prom by simp
    have same: "promotable i ?db t = promotable i db t" for t
      using task_completed_promote [OF get c(2)] by (simp add: promotable_def list_all_iff)
    have ne: "t_id t \<noteq> t_id c" if "t \<in> set cs" for t
      using Cons.prems(2) that by (metis distinct.simps(2) image_eqI list.set_map list.simps(9))
    have cs: "\<forall>t \<in> set cs. t \<in> set (tasks ?db) \<and> t_status t = TPending"
      using Cons.prems(3) ne by (auto intro: in_set_task_status_other)
    have IH: "snd (promote_loop i cs ?db) = None \<and>
      (\<forall>j. getTask j (fst (promote_loop i cs ?db)) =
         map_option (\<lambda>t. if t \<in> set cs \<and> promotable i ?db t then t\<lparr>t_status := TReady\<rparr> else t) (getTask j ?db))"
      using Cons.IH [OF task_inv_set_task_status [OF Cons.prems(1)] _ cs] Cons.prems(2) by simp
    have row: "(if t' \<in> set cs \<and> promotable i db t' then t'\<lparr>t_status := TReady\<rparr> else t') =
        (if t \<in> set (c # cs) \<and> promotable i db t then t\<lparr>t_status := TReady\<rparr> else t)"
      if t: "getTask j db = Some t" and t': "t' = (if t_id t = t_id c then t\<lparr>t_status := TReady\<rparr> else t)" for j t t'
    proof (cases "t_id t = t_id c")
      case True
      then have "t = c" using get t getTask_id [OF t] by simp
      moreover have "t' \<notin> set cs" using ne [of t'] t' True by auto
      ultimately show ?thesis using t' \<open>promotable i db c\<close> by simp
    qed (use t' in auto)
    have "map_option (\<lambda>t. if t \<in> set cs \<and> promotable i ?db t then t\<lparr>t_status := TReady\<rparr> else t)
            (getTask j ?db) =
          map_option (\<lambda>t. if t \<in> set (c # cs) \<and> promotable i db t then t\<lparr>t_status := TReady\<rparr> else t)
            (getTask j db)" (is "?L j = ?R j") for j
    proof (cases "getTask j db")
      case (Some t)
      show ?thesis
        unfolding getTask_set_task_status Some option.map same by (rule arg_cong [OF row [OF Some refl]])
    qed (simp add: getTask_set_task_status)
    then show ?thesis
      unfolding step using trans [OF IH [THEN conjunct2, THEN spec]] IH [THEN conjunct1] by blast
  qed
qed

lemma getTask_update_task_row:
  "getTask j (update_task_row now i st res db) =
     map_option (\<lambda>t. if t_id t = i
       then t\<lparr>t_status := st, t_result := coalesce res (t_result t),
              t_completed_at := coalesce (if st = TCompleted \<or> st = TFailed then Some (IsoMs (1000 * now)) else None)
                (t_completed_at t)\<rparr> else t) (getTask j db)"
  unfolding getTask_def update_task_row_def Let_def by (simp add: find_sql_update_id)

lemma getTask_completeActive [simp, db_frame]:
  "getTask j (completeActiveDispatchForTask now t db) = getTask j db"
  by (simp add: completeActiveDispatchForTask_def completeDispatch_def split: option.split)

lemma task_inv_update_task_row: "task_inv (tasks db) \<Longrightarrow> task_inv (tasks (update_task_row now i st res db))"
  unfolding update_task_row_def Let_def by (simp add: task_inv_update)

lemma task_completed_update_task_row:
  "getTask i db \<noteq> None \<Longrightarrow>
   task_completed (update_task_row now i TCompleted res db) j \<longleftrightarrow> j = i \<or> task_completed db j"
  using getTask_id [of j db] by (auto simp: task_completed_def getTask_update_task_row split: option.split)

lemma promoteReadyTasks_spec:
  assumes "task_inv (tasks db)"
  shows "snd (promoteReadyTasks i db) = None \<and>
    (\<forall>j. getTask j (fst (promoteReadyTasks i db)) =
       map_option (\<lambda>t. if promotable i db t then t\<lparr>t_status := TReady\<rparr> else t) (getTask j db))"
proof -
  let ?cs = "filter (\<lambda>t. t_status t = TPending) (tasks db)"
  have "distinct (map t_id ?cs)"
    using assms unfolding task_inv_def by (simp add: distinct_map_filter)
  then have spec: "snd (promoteReadyTasks i db) = None \<and>
    (\<forall>j. getTask j (fst (promoteReadyTasks i db)) =
       map_option (\<lambda>t. if t \<in> set ?cs \<and> promotable i db t then t\<lparr>t_status := TReady\<rparr> else t) (getTask j db))"
    unfolding promoteReadyTasks_def by (intro promote_loop_spec assms) auto
  have "t \<in> set ?cs \<and> promotable i db t \<longleftrightarrow> promotable i db t" if "getTask j db = Some t" for j t
    using find_Some_in [OF that [unfolded getTask_def]] by (auto simp: promotable_def)
  then have "map_option (\<lambda>t. if t \<in> set ?cs \<and> promotable i db t then t\<lparr>t_status := TReady\<rparr> else t) (getTask j db) =
      map_option (\<lambda>t. if promotable i db t then t\<lparr>t_status := TReady\<rparr> else t) (getTask j db)" for j
    by (cases "getTask j db") auto
  with spec show ?thesis by simp
qed

lemma updateTaskStatus_completed:
  assumes inv: "task_inv (tasks db)" and i: "getTask i db \<noteq> None"
    and upd: "updateTaskStatus now i TCompleted res db = (db', r)"
  shows "r = Inr (getTask i db')"
    and "map_option t_status (getTask j db') =
          map_option (\<lambda>t. if j = i then TCompleted
             else if t_status t = TPending \<and> i \<in> set (deps_of t) \<and>
                     list_all (\<lambda>d. d = i \<or> task_completed db d) (deps_of t) then TReady
             else t_status t) (getTask j db)"
proof -
  let ?db1 = "update_task_row now i TCompleted res db"
  have inv1: "task_inv (tasks ?db1)" using inv by (rule task_inv_update_task_row)
  note spec = promoteReadyTasks_spec [OF inv1, of i]
  obtain db2 where eq: "promoteReadyTasks i ?db1 = (db2, None)"
    using spec by (cases "promoteReadyTasks i ?db1") auto
  note prom = spec [unfolded eq fst_conv]
  have db': "db' = completeActiveDispatchForTask now i db2" "r = Inr (getTask i db')"
    using upd unfolding updateTaskStatus_def Let_def by (auto simp: eq)
  show "r = Inr (getTask i db')" by (rule db'(2))
  show "map_option t_status (getTask j db') =
          map_option (\<lambda>t. if j = i then TCompleted
             else if t_status t = TPending \<and> i \<in> set (deps_of t) \<and>
                     list_all (\<lambda>d. d = i \<or> task_completed db d) (deps_of t) then TReady
             else t_status t) (getTask j db)"
  proof (cases "getTask j db")
    case (Some t)
    have j: "t_id t = j" using Some by (rule getTask_id)
    let ?t1 = "if t_id t = i then t\<lparr>t_status := TCompleted, t_result := coalesce res (t_result t),
      t_completed_at := coalesce (Some (IsoMs (1000 * now))) (t_completed_at t)\<rparr> else t"
    have "getTask j ?db1 = Some ?t1" by (simp add: getTask_update_task_row Some)
    then have "getTask j db' = Some (if promotable i ?db1 ?t1 then ?t1\<lparr>t_status := TReady\<rparr> else ?t1)"
      using prom by (simp add: db'(1))
    moreover have "promotable i ?db1 ?t1 \<longleftrightarrow> j \<noteq> i \<and> t_status t = TPending \<and> i \<in> set (deps_of t) \<and>
        list_all (\<lambda>d. d = i \<or> task_completed db d) (deps_of t)"
      unfolding promotable_def deps_of_def task_completed_update_task_row [OF i, abs_def]
      by (simp add: j)
    ultimately show ?thesis by (simp add: Some j)
  next
    case None
    then have "getTask j ?db1 = None" by (simp add: getTask_update_task_row)
    then show ?thesis using prom None by (simp add: db'(1))
  qed
qed

lemma db_inv_task: "db_inv db \<Longrightarrow> task_inv (tasks db)"
  by (simp add: db_inv_def)

text \<open>
  C4: completing a task of the graph always returns, and it releases exactly the tasks it should: a
  pending task that depends on it and whose dependencies are now all completed becomes ready; every
  other task, whatever its state and its dependencies, keeps its status.
\<close>

theorem completion_promotes_exactly:
  assumes "getTask i (run_events db_step ops empty_odb) \<noteq> None"
  shows "let db = run_events db_step ops empty_odb; (db', r) = updateTaskStatus now i TCompleted res db
    in r = Inr (getTask i db') \<and>
       (\<forall>j. map_option t_status (getTask j db') =
          map_option (\<lambda>t. if j = i then TCompleted
             else if t_status t = TPending \<and> i \<in> set (deps_of t) \<and>
                     list_all (\<lambda>d. d = i \<or> task_completed db d) (deps_of t) then TReady
             else t_status t) (getTask j db))"
proof -
  let ?db = "run_events db_step ops empty_odb"
  obtain db' r where u: "updateTaskStatus now i TCompleted res ?db = (db', r)" by fastforce
  note spec = updateTaskStatus_completed [OF db_inv_task [OF db_inv_reachable] assms u]
  show ?thesis
    unfolding Let_def u case_prod_conv by (intro conjI allI spec)
qed

theorem completion_promotes_exactly_witness:
  "let db = run_events db_step [CreateTask [1] 0 (plain_task [65] []), CreateTask [2] 0 (plain_task [66] [[1]])] empty_odb;
       db' = fst (updateTaskStatus 5 [1] TCompleted None db)
   in map_option t_status (getTask [2] db) = Some TPending \<and>
      map_option t_status (getTask [2] db') = Some TReady \<and>
      map_option t_status (getTask [1] db') = Some TCompleted"
proof -
  let ?ops = "[CreateTask [1] 0 (plain_task [65] []), CreateTask [2] 0 (plain_task [66] [[1]])]"
  let ?db = "run_events db_step ?ops empty_odb"
  obtain t1 where t1: "getTask [1] ?db = Some t1" "t_status t1 = TReady"
    by (simp add: getTask_def createTask_def Let_def empty_odb_def plain_task_def)
  obtain t2 where t2: "getTask [2] ?db = Some t2" "t_status t2 = TPending" "deps_of t2 = [[1]]"
    by (simp add: getTask_def createTask_def Let_def empty_odb_def plain_task_def deps_of_def)
  have h: "getTask [1] ?db \<noteq> None" using t1 by simp
  obtain db' r where u: "updateTaskStatus 5 [1] TCompleted None ?db = (db', r)" by fastforce
  have *: "map_option t_status (getTask j db') =
          map_option (\<lambda>t. if j = [1] then TCompleted
             else if t_status t = TPending \<and> [1] \<in> set (deps_of t) \<and>
                     list_all (\<lambda>d. d = [1] \<or> task_completed ?db d) (deps_of t) then TReady
             else t_status t) (getTask j ?db)" for j
    using completion_promotes_exactly [OF h, of 5 None] unfolding Let_def u by auto
  show ?thesis
    unfolding Let_def u fst_conv using * [of "[1]"] * [of "[2]"] t1 t2 by simp
qed

subsection \<open>The dispatch of a completed task\<close>

lemma dispatches_promote [db_frame]: "dispatches (fst (promote_loop i ts db)) = dispatches db"
  by (induction i ts db rule: promote_loop.induct) (auto split: option.split)

lemma dispatches_update_task_row [db_frame]: "dispatches (update_task_row now i st res db) = dispatches db"
  by (simp add: update_task_row_def Let_def)

text \<open>Completing a task completes its latest dispatch, when that one is in flight.\<close>

lemma completed_dispatch:
  assumes "task_inv (tasks db)" "getTask i db \<noteq> None"
    and upd: "updateTaskStatus now i TCompleted res db = (db', r)"
    and d: "getDispatchContext i db = Some d" "d_active d"
  shows "dispatches db' = sql_update (\<lambda>e. d_id e = d_id d)
           (\<lambda>e. e\<lparr>d_status := DCompleted, d_completed_at := Some (SqlUtc now)\<rparr>) (dispatches db)"
proof -
  let ?db1 = "update_task_row now i TCompleted res db"
  note spec = promoteReadyTasks_spec [OF task_inv_update_task_row [OF assms(1)], of i now i TCompleted res]
  obtain db2 where eq: "promoteReadyTasks i ?db1 = (db2, None)"
    using spec by (cases "promoteReadyTasks i ?db1") auto
  have ds: "dispatches db2 = dispatches db"
    using dispatches_promote [of i _ ?db1] eq unfolding promoteReadyTasks_def
    by (metis dispatches_update_task_row fst_conv)
  have "active_dispatch_for i db2 = Some d"
    unfolding active_dispatch_for_def ds by (rule sql_last_refine) (use d in \<open>auto simp: getDispatchContext_def\<close>)
  then show ?thesis
    using upd unfolding updateTaskStatus_def Let_def
    by (auto simp: eq completeActiveDispatchForTask_def completeDispatch_def ds)
qed

text \<open>
  A task that is created when everything it depends on is already completed starts as pending all the same, and
  only the completion of one of those tasks once more would promote it.
\<close>

lemma created_pending_after_its_dependencies:
  assumes "createTask i now inp db = (db', Inr t)" and "ti_deps inp = Some (d # ds)" and "list_all (task_completed db) (d # ds)"
  shows "t_status t = TPending \<and> t \<in> set (tasks db') \<and> t \<notin> set (listTasks True None db')"
  using assms(1,2) by (auto simp: createTask_def Let_def listTasks_def task_selected_def split: if_splits)

end
