(* ===== verification/Orch_Db_Queue.thy ===== *)
theory Orch_Db_Queue
  imports Orch_Db_Inv
begin

text \<open>
  The store's message queue (order, read and delivery marks), its heartbeat monitor and its
  idle-terminal query.
\<close>

subsection \<open>Order\<close>

lemma sorted_seq: "msg_inv ms n \<Longrightarrow> sorted (map m_sequence (filter p ms))"
proof -
  assume "msg_inv ms n"
  then have "sorted_wrt (<) (map m_sequence ms)" by (simp add: msg_inv_def)
  then have "sorted (map m_sequence ms)" by (rule strict_sorted_imp_sorted)
  then show ?thesis by (rule sorted_filter)
qed

lemma sort_seq: "msg_inv ms n \<Longrightarrow> sort_key m_sequence (filter p ms) = filter p ms"
  by (rule sort_key_id_if_sorted) (rule sorted_seq)

lemma db_inv_msg: "db_inv db \<Longrightarrow> msg_inv (messages db) (last_seq db)"
  by (simp add: db_inv_def)

lemma getUnread_filter:
  "db_inv db \<Longrightarrow> getUnreadMessages h types db =
     map exposeMessageTimestamps
       (filter (\<lambda>m. m_to m = h \<and> \<not> m_read m \<and> type_selected types (m_type m)) (messages db))"
  by (simp add: getUnreadMessages_def sort_seq [OF db_inv_msg])

lemma getUndelivered_filter:
  "db_inv db \<Longrightarrow> getUndeliveredUnreadMessages h types db =
     map exposeMessageTimestamps
       (filter (\<lambda>m. m_to m = h \<and> \<not> m_read m \<and> m_delivered_at m = None \<and> type_selected types (m_type m))
         (messages db))"
  by (simp add: getUndeliveredUnreadMessages_def sort_seq [OF db_inv_msg])

lemma m_id_expose [simp]: "m_id (exposeMessageTimestamps m) = m_id m"
  by (simp add: exposeMessageTimestamps_def)

lemma insertMessage_fresh:
  assumes "i \<notin> m_id ` set (messages db)"
  shows "insertMessage i now msg db =
    (db\<lparr>messages := messages db @ [new_message_row i now (Suc (last_seq db)) msg], last_seq := Suc (last_seq db)\<rparr>,
     Inr (exposeMessageTimestamps (new_message_row i now (Suc (last_seq db)) msg)))"
  using assms by (simp add: insertMessage_def Let_def)

text \<open>
  A mailbox is a queue: a message sent is appended, as the insertion returned it, to the unread
  messages of its recipient when its type is asked for, and to no other mailbox.
\<close>

theorem send_appends_to_mailbox:
  assumes "i \<notin> m_id ` set (messages (run_events db_step ops empty_odb))"
  shows "let db = run_events db_step ops empty_odb
    in \<exists>db' row. insertMessage i now msg db = (db', Inr row) \<and> m_to row = in_to msg \<and>
        getUnreadMessages h types db' = getUnreadMessages h types db @
         (if in_to msg = h \<and> type_selected types (m_type row) then [row] else []) \<and>
        getUndeliveredUnreadMessages h types db' = getUndeliveredUnreadMessages h types db @
         (if in_to msg = h \<and> type_selected types (m_type row) then [row] else [])"
proof -
  let ?db = "run_events db_step ops empty_odb"
  let ?row = "new_message_row i now (Suc (last_seq ?db)) msg"
  let ?db' = "?db\<lparr>messages := messages ?db @ [?row], last_seq := Suc (last_seq ?db)\<rparr>"
  have inv: "db_inv ?db" by (rule db_inv_reachable)
  then have inv': "db_inv ?db'"
    using db_inv_insertMessage [of ?db i now msg] insertMessage_fresh [OF assms] by simp
  have row: "m_to ?row = in_to msg" "\<not> m_read ?row" "m_delivered_at ?row = None"
    by (simp_all add: new_message_row_def)
  show ?thesis
    unfolding Let_def getUnread_filter [OF inv] getUndelivered_filter [OF inv] insertMessage_fresh [OF assms]
    by (intro exI conjI, rule refl)
       (simp_all add: getUnread_filter [OF inv'] getUndelivered_filter [OF inv'] row exposeMessageTimestamps_def)
qed

theorem send_appends_to_mailbox_witness:
  "\<exists>db' row. insertMessage [7] 3 \<lparr>in_from = [1], in_to = [2], in_subject = [3], in_body = None, in_type = None,
       in_priority = None, in_thread = None, in_payload = None, in_pane_key = None\<rparr> empty_odb = (db', Inr row) \<and>
     getUnreadMessages [2] None db' = [row] \<and> getUnreadMessages [1] None db' = []"
proof -
  let ?m = "\<lparr>in_from = [1], in_to = [2], in_subject = [3], in_body = None, in_type = None,
       in_priority = None, in_thread = None, in_payload = None, in_pane_key = None\<rparr> :: message_input"
  have h: "[7] \<notin> m_id ` set (messages (run_events db_step [] empty_odb))"
    by (simp add: empty_odb_def)
  obtain db' row where "insertMessage [7] 3 ?m empty_odb = (db', Inr row)"
    by (simp add: insertMessage_def empty_odb_def Let_def)
  moreover have "getUnreadMessages h None empty_odb = []" for h
    by (simp add: getUnreadMessages_def empty_odb_def)
  ultimately show ?thesis
    using send_appends_to_mailbox [OF h, of 3 ?m "[2]" None] send_appends_to_mailbox [OF h, of 3 ?m "[1]" None]
    by (auto simp: type_selected_def)
qed

subsection \<open>Delivery\<close>

definition delivered :: "jsstr \<Rightarrow> odb \<Rightarrow> bool" where
  "delivered i db \<longleftrightarrow> (\<exists>m \<in> set (messages db). m_id m = i \<and> m_delivered_at m \<noteq> None)"

definition keeps_messages :: "db_op \<Rightarrow> bool" where
  "keeps_messages e \<longleftrightarrow> e \<noteq> ResetMessages \<and> e \<noteq> ResetAll"

lemma delivered_mono:
  "set (messages db) \<subseteq> set (messages db') \<Longrightarrow> delivered i db \<Longrightarrow> delivered i db'"
  by (auto simp: delivered_def)

lemma delivered_update:
  assumes "delivered i db"
    and "\<And>m. p m \<Longrightarrow> m_id (f m) = m_id m \<and> (m_delivered_at m \<noteq> None \<longrightarrow> m_delivered_at (f m) \<noteq> None)"
  shows "delivered i (db\<lparr>messages := sql_update p f (messages db)\<rparr>)"
proof -
  obtain m where m: "m \<in> set (messages db)" "m_id m = i" "m_delivered_at m \<noteq> None"
    using assms(1) by (auto simp: delivered_def)
  let ?m = "if p m then f m else m"
  have "?m \<in> set (sql_update p f (messages db))" using m(1) by (auto simp: in_sql_update)
  moreover have "m_id ?m = i \<and> m_delivered_at ?m \<noteq> None" using m(2,3) assms(2) [of m] by auto
  ultimately show ?thesis unfolding delivered_def by auto
qed

lemma messages_frame [db_frame]:
  "messages (set_task_status t st db) = messages db"
  "messages (fst (createTask t now inp db)) = messages db"
  "messages (completeDispatch now c db) = messages db"
  "messages (fst (createCoordinatorRun i now s h poll db)) = messages db"
  "messages (fst (updateCoordinatorRun now i rst db)) = messages db"
  "messages (recordHeartbeat c at db) = messages db"
  "messages (resetTasks db) = messages db"
  "messages (fst (timeoutGate now i db)) = messages db"
  "messages (update_task_row now i st res db) = messages db"
  by (simp_all add: set_task_status_def createTask_def completeDispatch_def createCoordinatorRun_def
      updateCoordinatorRun_def recordHeartbeat_def resetTasks_def timeoutGate_def update_task_row_def Let_def)

lemma messages_frame2 [db_frame]:
  "messages (completeActiveDispatchForTask now t db) = messages db"
  "messages (fst (createDispatchContext i now t h p db)) = messages db"
  "messages (fst (failDispatch c e db)) = messages db"
  "messages (fst (resolveGate now i r db)) = messages db"
  by (auto simp: completeActiveDispatchForTask_def createDispatchContext_def failDispatch_def
      resolveGate_def Let_def db_frame split: option.split)

lemma messages_promote [db_frame]: "messages (fst (promote_loop i ts db)) = messages db"
  by (induction i ts db rule: promote_loop.induct) (auto simp: db_frame split: option.split)

lemma messages_frame3 [db_frame]:
  "messages (fst (createGate i now t q os db)) = messages db"
  "messages (fst (failActiveDispatchForTask t e db)) = messages db"
  by (simp_all add: createGate_def failActiveDispatchForTask_def Let_def db_frame split: option.split)

lemma messages_updateTaskStatus [db_frame]: "messages (fst (updateTaskStatus now i st res db)) = messages db"
proof -
  obtain db2 e where eq: "promoteReadyTasks i (update_task_row now i st res db) = (db2, e)" by fastforce
  then have "messages db2 = messages db"
    using messages_promote [of i _ "update_task_row now i st res db"]
    by (metis promoteReadyTasks_def fst_conv messages_frame(9))
  then show ?thesis
    using eq by (cases "st = TCompleted"; cases e) (simp_all add: updateTaskStatus_def Let_def db_frame)
qed

lemma delivered_step: "keeps_messages e \<Longrightarrow> delivered i db \<Longrightarrow> delivered i (db_step e db)"
proof (cases e)
  case (InsertMessage j now m)
  assume "delivered i db"
  then show ?thesis unfolding InsertMessage db_step.simps
    by (rule delivered_mono [rotated]) (auto simp: insertMessage_def Let_def)
next
  case (ConvertRejection j r)
  assume "delivered i db"
  then show ?thesis unfolding ConvertRejection db_step.simps convertLifecycleMessageToRejection_def
    by (auto simp: Let_def split: option.split intro!: delivered_update)
next
  case (MarkRead ids)
  assume "delivered i db"
  then show ?thesis unfolding MarkRead db_step.simps markAsRead_def
    by (auto intro!: delivered_update)
next
  case (MarkDelivered now ids)
  assume "delivered i db"
  then show ?thesis unfolding MarkDelivered db_step.simps markAsDelivered_def
    by (auto intro!: delivered_update)
next
  case (MarkReadDelivered now ids)
  assume "delivered i db"
  then show ?thesis unfolding MarkReadDelivered db_step.simps markAsReadAndDelivered_def
    by (auto intro!: delivered_update)
qed (simp_all add: delivered_def db_frame keeps_messages_def)

lemma delivered_run: "list_all keeps_messages es \<Longrightarrow> delivered i db \<Longrightarrow> delivered i (run_events db_step es db)"
  by (induction es arbitrary: db) (auto intro: delivered_step)

lemma delivered_not_pending:
  assumes "db_inv db" "delivered i db"
  shows "i \<notin> m_id ` set (getUndeliveredUnreadMessages h types db)"
proof
  assume "i \<in> m_id ` set (getUndeliveredUnreadMessages h types db)"
  then obtain m where m: "m \<in> set (messages db)" "m_id m = i" "m_delivered_at m = None"
    by (auto simp: getUndelivered_filter [OF assms(1)])
  obtain m' where m': "m' \<in> set (messages db)" "m_id m' = i" "m_delivered_at m' \<noteq> None"
    using assms(2) by (auto simp: delivered_def)
  have "m = m'"
    using db_inv_msg [OF assms(1)] m(1,2) m'(1,2) unfolding msg_inv_def by (metis distinct_key_eq)
  with m(3) m'(3) show False by simp
qed

lemma markAsDelivered_delivered:
  "i \<in> set ids \<Longrightarrow> i \<in> m_id ` set (messages db) \<Longrightarrow> delivered i (markAsDelivered now ids db)"
proof -
  assume i: "i \<in> set ids" and "i \<in> m_id ` set (messages db)"
  then obtain m where m: "m \<in> set (messages db)" "m_id m = i" by blast
  have "m\<lparr>m_delivered_at := Some (SqlUtc now)\<rparr> \<in> set (messages (markAsDelivered now ids db))"
    using m i by (auto simp: markAsDelivered_def in_sql_update intro!: bexI [of _ m])
  then show ?thesis unfolding delivered_def by (rule bexI [rotated]) (simp add: m(2))
qed

text \<open>
  C20: a message that was delivered is never offered for delivery again, whatever the store does
  next short of deleting its messages, and marking it leaves what an explicit check sees unread.
\<close>

theorem delivered_once:
  assumes "i \<in> set ids" "i \<in> m_id ` set (messages (run_events db_step ops empty_odb))"
    and "list_all keeps_messages later"
  shows "let db = run_events db_step ops empty_odb; db' = markAsDelivered now ids db
    in i \<notin> m_id ` set (getUndeliveredUnreadMessages h types (run_events db_step later db')) \<and>
       map m_id (getUnreadMessages h types db') = map m_id (getUnreadMessages h types db)"
proof -
  let ?db = "run_events db_step ops empty_odb"
  let ?db' = "markAsDelivered now ids ?db"
  have inv: "db_inv ?db" by (rule db_inv_reachable)
  then have inv': "db_inv ?db'" by (rule db_inv_mark)
  let ?P = "\<lambda>m. m_to m = h \<and> \<not> m_read m \<and> type_selected types (m_type m)"
  have q: "map m_id (filter ?P (sql_update (\<lambda>m. m_id m \<in> set ids) (\<lambda>m. m\<lparr>m_delivered_at := Some (SqlUtc now)\<rparr>) ms)) =
      map m_id (filter ?P ms)" for ms
    by (induction ms) auto
  have "map m_id (getUnreadMessages h types ?db') = map m_id (getUnreadMessages h types ?db)"
    unfolding getUnread_filter [OF inv] getUnread_filter [OF inv'] by (cases "ids = []") (simp_all add: comp_def markAsDelivered_def q)
  moreover have "delivered i (run_events db_step later ?db')"
    by (intro delivered_run assms markAsDelivered_delivered)
  ultimately show ?thesis
    unfolding Let_def using delivered_not_pending [OF db.inv_run [OF inv']] by blast
qed

theorem delivered_once_witness:
  "let msg = \<lparr>in_from = [1], in_to = [2], in_subject = [3], in_body = None, in_type = None,
         in_priority = None, in_thread = None, in_payload = None, in_pane_key = None\<rparr>;
       db = run_events db_step [InsertMessage [7] 3 msg] empty_odb
   in [7] \<in> m_id ` set (messages db) \<and>
      [7] \<notin> m_id ` set (getUndeliveredUnreadMessages [2] None
        (run_events db_step [InsertMessage [7] 5 msg, InsertMessage [8] 5 msg] (markAsDelivered 4 [[7]] db)))"
proof -
  let ?m = "\<lparr>in_from = [1], in_to = [2], in_subject = [3], in_body = None, in_type = None,
       in_priority = None, in_thread = None, in_payload = None, in_pane_key = None\<rparr> :: message_input"
  have 1: "[7] \<in> set [[7 :: jschar]]" by simp
  have 2: "[7] \<in> m_id ` set (messages (run_events db_step [InsertMessage [7] 3 ?m] empty_odb))"
    by (simp add: insertMessage_def empty_odb_def Let_def new_message_row_def)
  have 3: "list_all keeps_messages [InsertMessage [7] 5 ?m, InsertMessage [8] 5 ?m]"
    by (simp add: keeps_messages_def)
  show ?thesis
    using delivered_once [OF 1 2 3, of 4 "[2]" None] 2 unfolding Let_def by blast
qed

subsection \<open>Heartbeats\<close>

text \<open>
  A heartbeat is a no-op on a dispatch that is not in flight; a heartbeat that is not older than the
  threshold takes its dispatch, and only it, out of the list of stale dispatches, whatever text
  format the stored times have.
\<close>

theorem heartbeat_monitor:
  assumes "\<not> sql_before at threshold"
  shows "let db' = recordHeartbeat c at db
    in getStaleDispatches threshold db' = filter (\<lambda>d. d_id d \<noteq> c) (getStaleDispatches threshold db) \<and>
       filter (\<lambda>d. d_id d \<noteq> c \<or> d_status d \<noteq> DDispatched) (dispatches db') =
         filter (\<lambda>d. d_id d \<noteq> c \<or> d_status d \<noteq> DDispatched) (dispatches db)"
proof -
  let ?upd = "sql_update (\<lambda>d. d_id d = c \<and> d_status d = DDispatched) (\<lambda>d. d\<lparr>d_heartbeat_at := Some at\<rparr>)"
  let ?old = "\<lambda>t. case t of None \<Rightarrow> True | Some t \<Rightarrow> sql_before t threshold"
  let ?stale = "\<lambda>d. d_status d = DDispatched \<and>
      (case d_dispatched_at d of None \<Rightarrow> False | Some t \<Rightarrow> sql_before t threshold) \<and> ?old (d_heartbeat_at d)"
  have 1: "filter ?stale (?upd ds) = filter (\<lambda>d. d_id d \<noteq> c) (filter ?stale ds)" for ds
    using assms by (induction ds) auto
  have 2: "filter (\<lambda>d. d_id d \<noteq> c \<or> d_status d \<noteq> DDispatched) (?upd ds) =
      filter (\<lambda>d. d_id d \<noteq> c \<or> d_status d \<noteq> DDispatched) ds" for ds
    by (induction ds) auto
  have sel: "dispatches (db\<lparr>dispatches := ds\<rparr>) = ds" for ds by simp
  show ?thesis
    unfolding Let_def recordHeartbeat_def getStaleDispatches_def sel by (rule conjI [OF 1 2])
qed

text \<open>The threshold is ISO text, the dispatch time is SQL text of the same instant.\<close>

theorem heartbeat_monitor_witness:
  "let d = new_dispatch_row [3] 10 [1] [2] None 0; db = empty_odb\<lparr>dispatches := [d]\<rparr>
   in \<not> sql_before (IsoMs 20000) (IsoMs 15000) \<and> getStaleDispatches (IsoMs 10000) db = [] \<and>
      getStaleDispatches (IsoMs 15000) db = [d] \<and>
      getStaleDispatches (IsoMs 15000) (recordHeartbeat [3] (IsoMs 20000) db) = []"
proof -
  have h: "\<not> sql_before (IsoMs 20000) (IsoMs 15000)" by (simp add: sql_before_def)
  let ?d = "new_dispatch_row [3] 10 [1] [2] None 0"
  let ?db = "empty_odb\<lparr>dispatches := [?d]\<rparr>"
  have "getStaleDispatches (IsoMs 10000) ?db = []" "getStaleDispatches (IsoMs 15000) ?db = [?d]"
    by (simp_all add: getStaleDispatches_def new_dispatch_row_def sql_before_def)
  then show ?thesis
    using h heartbeat_monitor [OF h, of "[3]" ?db] by (simp add: Let_def new_dispatch_row_def)
qed

end
