(* ===== verification/Orch_Lifecycle.thy ===== *)
theory Orch_Lifecycle
  imports Orch_Db_Props
begin

text \<open>
  Reconciliation of worker messages with the store,
  \<open>src/main/runtime/orchestration/lifecycle-reconciliation.ts\<close>.  The log callback is left out; the clock is
  an argument, in seconds and as the ISO text (\<open>nowText\<close>) that goes into the task result.
\<close>

definition hasLifecycleAuthority :: "dispatch_row \<Rightarrow> message_row \<Rightarrow> bool" where
  "hasLifecycleAuthority d msg =
     (if truthy (d_pane_key d)
      then truthy (m_sender_pane_key msg) \<and> isSamePane (the (d_pane_key d)) (the (m_sender_pane_key msg))
      else d_handle d = Some (m_from msg))"

datatype lifecycle_result =
    Ignored
  | Suppressed
  | Rejected jsstr
  | Completed jsstr jsstr
  | HeartbeatRecorded jsstr

text \<open>\<open>payload.key\<close> on a parsed object or array; \<open>None\<close> is \<open>undefined\<close>.\<close>

definition member :: "jsstr \<Rightarrow> json \<Rightarrow> json option" where
  "member k v = (case v of JObj ms \<Rightarrow> map_get ms k | _ \<Rightarrow> None)"

definition parseObjectPayload :: "message_row \<Rightarrow> json" where
  "parseObjectPayload msg =
     (if \<not> truthy (m_payload msg) then JObj []
      else (case json_parse (the (m_payload msg)) of
              Some (JObj ms) \<Rightarrow> JObj ms
            | Some (JArr vs) \<Rightarrow> JArr vs
            | _ \<Rightarrow> JObj []))"

definition getPersistedLifecycleRejection :: "json \<Rightarrow> jsstr option" where
  "getPersistedLifecycleRejection payload =
     (case member (js ''_orcaLifecycleRejection'') payload of None \<Rightarrow> None
      | Some rejection \<Rightarrow>
         if member (js ''code'') rejection \<noteq> Some (JStr (js ''sender_not_assignee'')) then None
         else (case member (js ''reason'') rejection of Some (JStr reason) \<Rightarrow> Some reason | _ \<Rightarrow> None))"

text \<open>The non-empty string a payload has under a key.\<close>

definition string_member :: "jsstr \<Rightarrow> json \<Rightarrow> jsstr option" where
  "string_member k payload =
     (case member k payload of Some (JStr s) \<Rightarrow> if s = [] then None else Some s | _ \<Rightarrow> None)"

definition or_text :: "jsstr option \<Rightarrow> jsstr \<Rightarrow> jsstr" where
  "or_text x d = (case x of None \<Rightarrow> d | Some s \<Rightarrow> s)"

definition buildLifecycleAuthorityRejectionReason :: "jsstr \<Rightarrow> dispatch_row \<Rightarrow> message_row \<Rightarrow> jsstr" where
  "buildLifecycleAuthorityRejectionReason dispatchId d msg =
     js ''dispatch '' @ dispatchId @ js '' expected handle '' @ or_text (d_handle d) (js ''<unknown>'') @ js '', '' @
     js ''pane '' @ or_text (d_pane_key d) (js ''<legacy>'') @ js ''; received handle '' @ m_from msg @ js '', '' @
     js ''pane '' @ or_text (m_sender_pane_key msg) (js ''<missing>'')"

definition reconcileHeartbeatMessage :: "nat \<Rightarrow> message_row \<Rightarrow> odb \<Rightarrow> odb \<times> lifecycle_result" where
  "reconcileHeartbeatMessage now msg db =
     (if \<not> truthy (m_payload msg) then (db, Ignored)
      else let payload = parseObjectPayload msg
      in case getPersistedLifecycleRejection payload of Some reason \<Rightarrow> (db, Rejected reason)
      | None \<Rightarrow>
        (case string_member (js ''dispatchId'') payload of None \<Rightarrow> (db, Ignored)
         | Some dispatchId \<Rightarrow>
           (case getDispatchContextById dispatchId db of
              None \<Rightarrow> (markAsReadAndDelivered now [m_id msg] db, Suppressed)
            | Some d \<Rightarrow>
               if d_status d \<noteq> DDispatched then (markAsReadAndDelivered now [m_id msg] db, Suppressed)
               else if \<not> hasLifecycleAuthority d msg
               then let reason = buildLifecycleAuthorityRejectionReason dispatchId d msg
                    in (fst (convertLifecycleMessageToRejection (m_id msg) reason db), Rejected reason)
               else (recordHeartbeat dispatchId (m_created_at msg) db, HeartbeatRecorded dispatchId))))"

definition suppressEarlierHeartbeats :: "nat \<Rightarrow> message_row \<Rightarrow> jsstr \<Rightarrow> odb \<Rightarrow> odb" where
  "suppressEarlierHeartbeats now workerDone dispatchId db =
     markAsReadAndDelivered now
       (map m_id (filter (\<lambda>m. m_sequence m < m_sequence workerDone \<and>
                    member (js ''dispatchId'') (parseObjectPayload m) = Some (JStr dispatchId))
          (getUnreadMessages (m_to workerDone) (Some [MHeartbeat]) db))) db"

definition filesModified :: "json \<Rightarrow> json" where
  "filesModified payload =
     (case member (js ''filesModified'') payload of
        Some (JArr vs) \<Rightarrow>
          (if list_all (\<lambda>v. case v of JStr _ \<Rightarrow> True | _ \<Rightarrow> False) vs then JArr vs else JArr [])
      | _ \<Rightarrow> JArr [])"

definition completion_result :: "jsstr \<Rightarrow> message_row \<Rightarrow> jsstr" where
  "completion_result nowText msg =
     json_stringify (JObj [(js ''completedBy'', JStr (m_from msg)),
                           (js ''filesModified'', filesModified (parseObjectPayload msg)),
                           (js ''completedAt'', JStr nowText)])"

definition reconcileWorkerDoneMessage ::
    "nat \<Rightarrow> jsstr \<Rightarrow> message_row \<Rightarrow> odb \<Rightarrow> odb \<times> (db_error + lifecycle_result)" where
  "reconcileWorkerDoneMessage now nowText msg db =
     (let payload = parseObjectPayload msg
      in case getPersistedLifecycleRejection payload of Some reason \<Rightarrow> (db, Inr (Rejected reason))
      | None \<Rightarrow>
       (case string_member (js ''taskId'') payload of None \<Rightarrow> (db, Inr Ignored)
        | Some taskId \<Rightarrow>
       (case string_member (js ''dispatchId'') payload of None \<Rightarrow> (db, Inr Ignored)
        | Some dispatchId \<Rightarrow>
       (case getTask taskId db of None \<Rightarrow> (db, Inr Ignored)
        | Some task \<Rightarrow>
       (case getDispatchContextById dispatchId db of None \<Rightarrow> (db, Inr Ignored)
        | Some d \<Rightarrow>
          if d_task d \<noteq> taskId then (db, Inr Ignored)
          else if \<not> hasLifecycleAuthority d msg
          then let reason = buildLifecycleAuthorityRejectionReason dispatchId d msg
               in (fst (convertLifecycleMessageToRejection (m_id msg) reason db), Inr (Rejected reason))
          else if d_status d = DCompleted \<and> t_status task = TCompleted
          then (db, Inr (Completed taskId dispatchId))
          else if d_status d \<noteq> DDispatched then (db, Inr Ignored)
          else if map_option d_id (getDispatchContext taskId db) \<noteq> Some dispatchId \<or> t_status task \<noteq> TDispatched
          then (db, Inr Ignored)
          else (case updateTaskStatus now taskId TCompleted (Some (completion_result nowText msg)) db of
                  (db', Inl e) \<Rightarrow> (db', Inl e)
                | (db', Inr _) \<Rightarrow>
                    (suppressEarlierHeartbeats now msg dispatchId db', Inr (Completed taskId dispatchId))))))))"

definition reconcileLifecycleMessage ::
    "nat \<Rightarrow> jsstr \<Rightarrow> message_row \<Rightarrow> odb \<Rightarrow> odb \<times> (db_error + lifecycle_result)" where
  "reconcileLifecycleMessage now nowText msg db =
     (case m_type msg of
        MWorkerDone \<Rightarrow> reconcileWorkerDoneMessage now nowText msg db
      | MHeartbeat \<Rightarrow> (case reconcileHeartbeatMessage now msg db of (db', r) \<Rightarrow> (db', Inr r))
      | _ \<Rightarrow> (db, Inr Ignored))"

subsection \<open>Rejections persist\<close>

lemma json_ok_map_set:
  "json_ok (JObj ms) \<Longrightarrow> json_ok v \<Longrightarrow> json_ok (JObj (map_set k v ms))"
proof -
  assume ms: "json_ok (JObj ms)" and v: "json_ok v"
  have "list_all (\<lambda>(k, v). json_ok v) ms \<Longrightarrow> list_all (\<lambda>(k, v). json_ok v) (map_set k v ms)"
    using v by (induction ms) auto
  then show ?thesis using ms by (simp add: distinct_map_set)
qed

lemma marker_keys [simp]: "js ''reason'' \<noteq> js ''code''" "js ''code'' \<noteq> js ''reason''"
  by (simp_all add: js_eval)

lemma rejection_marker_reads:
  "\<exists>ms. json_parse (addLifecycleRejectionMarker p reason) = Some (JObj ms) \<and>
     getPersistedLifecycleRejection (JObj ms) = Some reason"
proof -
  let ?old = "if truthy p then (case json_parse (the p) of Some (JObj ms) \<Rightarrow> ms | _ \<Rightarrow> []) else []"
  let ?mark = "JObj [(js ''code'', JStr (js ''sender_not_assignee'')), (js ''reason'', JStr reason)]"
  let ?ms = "map_set (js ''_orcaLifecycleRejection'') ?mark ?old"
  have "json_ok (JObj ?old)"
    using json_parse_ok [of "the p"] by (auto split: option.split json.split)
  moreover have "json_ok ?mark" by simp
  ultimately have "json_ok (JObj ?ms)" by (rule json_ok_map_set)
  then have "json_parse (addLifecycleRejectionMarker p reason) = Some (JObj ?ms)"
    unfolding addLifecycleRejectionMarker_def Let_def by (rule json_parse_stringify)
  moreover have "getPersistedLifecycleRejection (JObj ?ms) = Some reason"
    by (simp add: getPersistedLifecycleRejection_def member_def) (simp add: map_get_def)
  ultimately show ?thesis by blast
qed

lemma rejected_again:
  assumes "getPersistedLifecycleRejection (parseObjectPayload msg) = Some reason"
    and "m_type msg = MWorkerDone \<or> m_type msg = MHeartbeat" and "truthy (m_payload msg)"
  shows "reconcileLifecycleMessage now nowText msg db = (db, Inr (Rejected reason))"
  using assms by (auto simp: reconcileLifecycleMessage_def reconcileWorkerDoneMessage_def
      reconcileHeartbeatMessage_def Let_def)

lemma convert_then_get:
  assumes "getMessageById i db = Some m" and "m_type m = MWorkerDone \<or> m_type m = MHeartbeat"
  shows "\<exists>m'. getMessageById i (fst (convertLifecycleMessageToRejection i reason db)) = Some m' \<and>
    m_type m' = m_type m \<and> m_payload m' = Some (addLifecycleRejectionMarker (m_payload m) reason)"
proof -
  obtain r where r: "find (\<lambda>m. m_id m = i) (messages db) = Some r" "m = exposeMessageTimestamps r"
    using assms(1) by (auto simp: getMessageById_def)
  have "m_id r = i" using find_Some_in [OF r(1)] by simp
  then show ?thesis
    using assms r
    by (auto simp: convertLifecycleMessageToRejection_def Let_def getMessageById_def find_sql_update
        exposeMessageTimestamps_def)
qed

lemma json_stringify_not_Nil: "json_stringify (JObj ms) \<noteq> []"
  by simp

text \<open>
  A rejection is durable.  When a worker message of the store is rejected for want of
  authority, the stored message keeps its id and type, and reconciling it again at any later time,
  against any state of the store, gives the same rejection and changes nothing.
\<close>

theorem rejection_persists:
  assumes "getMessageById (m_id msg) db = Some msg"
    and "reconcileLifecycleMessage now nowText msg db = (db', Inr (Rejected reason))" and "db' \<noteq> db"
  shows "\<exists>msg'. getMessageById (m_id msg) db' = Some msg' \<and> m_type msg' = m_type msg \<and>
    reconcileLifecycleMessage later laterText msg' db2 = (db2, Inr (Rejected reason))"
proof -
  have ty: "m_type msg = MWorkerDone \<or> m_type msg = MHeartbeat"
    using assms(2,3) by (auto simp: reconcileLifecycleMessage_def split: message_type.splits)
  have db': "db' = fst (convertLifecycleMessageToRejection (m_id msg) reason db)"
    using assms(2,3)
    by (auto simp: reconcileLifecycleMessage_def reconcileWorkerDoneMessage_def reconcileHeartbeatMessage_def
        Let_def split: message_type.splits option.splits if_splits sum.splits prod.splits)
  obtain msg' where m': "getMessageById (m_id msg) db' = Some msg'" "m_type msg' = m_type msg"
      "m_payload msg' = Some (addLifecycleRejectionMarker (m_payload msg) reason)"
    using convert_then_get [OF assms(1) ty, of reason] unfolding db' by blast
  obtain ms where ms: "json_parse (addLifecycleRejectionMarker (m_payload msg) reason) = Some (JObj ms)"
      "getPersistedLifecycleRejection (JObj ms) = Some reason"
    using rejection_marker_reads by blast
  have t: "truthy (m_payload msg')"
    unfolding m'(3) addLifecycleRejectionMarker_def Let_def by simp
  then have "parseObjectPayload msg' = JObj ms"
    by (simp add: parseObjectPayload_def m'(3) ms(1))
  then have "reconcileLifecycleMessage later laterText msg' db2 = (db2, Inr (Rejected reason))"
    using rejected_again [of msg' reason] ms(2) m'(2) ty t by simp
  with m' show ?thesis by blast
qed

subsection \<open>Authority\<close>

lemma frame_convert [db_frame]:
  "tasks (fst (convertLifecycleMessageToRejection i r db)) = tasks db"
  "dispatches (fst (convertLifecycleMessageToRejection i r db)) = dispatches db"
  by (simp_all add: convertLifecycleMessageToRejection_def Let_def split: option.split)

lemma frame_mark [db_frame]:
  "tasks (markAsReadAndDelivered now ids db) = tasks db"
  "dispatches (markAsReadAndDelivered now ids db) = dispatches db"
  by (simp_all add: markAsReadAndDelivered_def)

lemma frame_suppress [db_frame]:
  "tasks (suppressEarlierHeartbeats now m d db) = tasks db"
  "dispatches (suppressEarlierHeartbeats now m d db) = dispatches db"
  by (simp_all add: suppressEarlierHeartbeats_def db_frame)

lemma frame_heartbeat [db_frame]: "tasks (recordHeartbeat c at db) = tasks db"
  by (simp add: recordHeartbeat_def)

text \<open>
  C2: only the assignee speaks for a dispatch.  A worker message that changes a task or a dispatch
  names an in-flight dispatch and comes from its assignee: the same pane, if the dispatch recorded one
  (whatever handle the message carries), else the same handle.  A heartbeat changes no task; a
  completion is of the latest dispatch of a task that is out to a worker.
\<close>

theorem only_the_assignee_acts:
  assumes "reconcileLifecycleMessage now nowText msg db = (db', r)"
    and "tasks db' \<noteq> tasks db \<or> dispatches db' \<noteq> dispatches db"
  shows "\<exists>d. d \<in> set (dispatches db) \<and> d_status d = DDispatched \<and>
     string_member (js ''dispatchId'') (parseObjectPayload msg) = Some (d_id d) \<and>
     (if truthy (d_pane_key d)
      then truthy (m_sender_pane_key msg) \<and> isEquivalentPaneKey (the (d_pane_key d)) (the (m_sender_pane_key msg))
      else d_handle d = Some (m_from msg)) \<and>
     (m_type msg = MHeartbeat \<and> tasks db' = tasks db \<or>
      m_type msg = MWorkerDone \<and> map_option d_id (getDispatchContext (d_task d) db) = Some (d_id d) \<and>
        map_option t_status (getTask (d_task d) db) = Some TDispatched)"
proof -
  have ty: "m_type msg = MWorkerDone \<or> m_type msg = MHeartbeat"
    using assms by (auto simp: reconcileLifecycleMessage_def split: message_type.splits)
  then show ?thesis
  proof
    assume hb: "m_type msg = MHeartbeat"
    then obtain d where d: "getDispatchContextById (the (string_member (js ''dispatchId'') (parseObjectPayload msg))) db = Some d"
        "d_status d = DDispatched" "hasLifecycleAuthority d msg" "tasks db' = tasks db"
        "string_member (js ''dispatchId'') (parseObjectPayload msg) \<noteq> None"
      using assms by (auto simp: reconcileLifecycleMessage_def reconcileHeartbeatMessage_def Let_def db_frame
          split: option.splits if_splits)
    have "d \<in> set (dispatches db)" "d_id d = the (string_member (js ''dispatchId'') (parseObjectPayload msg))"
      using find_Some_in [OF d(1) [unfolded getDispatchContextById_def]] by auto
    with d hb show ?thesis
      by (intro exI [of _ d]) (auto simp: hasLifecycleAuthority_def isSamePane_eq split: if_splits)
  next
    assume wd: "m_type msg = MWorkerDone"
    then have r: "reconcileWorkerDoneMessage now nowText msg db = (db', r)"
      using assms(1) by (simp add: reconcileLifecycleMessage_def)
    obtain d t where d: "getDispatchContextById (the (string_member (js ''dispatchId'') (parseObjectPayload msg))) db = Some d"
        "d_status d = DDispatched" "hasLifecycleAuthority d msg"
        "string_member (js ''dispatchId'') (parseObjectPayload msg) \<noteq> None"
        "getTask (d_task d) db = Some t" "t_status t = TDispatched"
        "map_option d_id (getDispatchContext (d_task d) db) = string_member (js ''dispatchId'') (parseObjectPayload msg)"
      using r assms(2) unfolding reconcileWorkerDoneMessage_def Let_def
      by (auto simp: db_frame split: option.splits if_splits)
    have "d \<in> set (dispatches db)" "d_id d = the (string_member (js ''dispatchId'') (parseObjectPayload msg))"
      using find_Some_in [OF d(1) [unfolded getDispatchContextById_def]] by auto
    with d wd show ?thesis
      by (intro exI [of _ d]) (auto simp: hasLifecycleAuthority_def isSamePane_eq split: if_splits)
  qed
qed

subsection \<open>Repeated completions\<close>

lemma reconcile_completed_cases:
  assumes "reconcileLifecycleMessage now nowText msg db = (db', Inr (Completed t c))"
  obtains d task where "m_type msg = MWorkerDone"
    "getPersistedLifecycleRejection (parseObjectPayload msg) = None"
    "string_member (js ''taskId'') (parseObjectPayload msg) = Some t"
    "string_member (js ''dispatchId'') (parseObjectPayload msg) = Some c"
    "getTask t db = Some task" "getDispatchContextById c db = Some d" "d_task d = t"
    "hasLifecycleAuthority d msg"
    "db' = db \<and> d_status d = DCompleted \<and> t_status task = TCompleted \<or>
     d_status d = DDispatched \<and> map_option d_id (getDispatchContext t db) = Some c \<and>
     (\<exists>db1 x. updateTaskStatus now t TCompleted (Some (completion_result nowText msg)) db = (db1, Inr x) \<and>
        db' = suppressEarlierHeartbeats now msg c db1)"
  using assms that
  by (auto simp: reconcileLifecycleMessage_def reconcileWorkerDoneMessage_def reconcileHeartbeatMessage_def Let_def
      split: message_type.splits option.splits if_splits sum.splits prod.splits)

lemma getTask_suppress [db_frame]: "getTask t (suppressEarlierHeartbeats now m c db) = getTask t db"
  by (simp add: getTask_def db_frame)

lemma getDispatchById_suppress [db_frame]:
  "getDispatchContextById t (suppressEarlierHeartbeats now m c db) = getDispatchContextById t db"
  by (simp add: getDispatchContextById_def db_frame)

lemma reconcile_completed:
  assumes "reconcileLifecycleMessage now nowText msg (run_events db_step ops empty_odb) = (db', Inr (Completed t c))"
  shows "map_option t_status (getTask t db') = Some TCompleted \<and>
    map_option d_status (getDispatchContextById c db') = Some DCompleted \<and>
    reconcileLifecycleMessage later laterText msg db' = (db', Inr (Completed t c))"
  using assms
proof (rule reconcile_completed_cases)
  let ?db = "run_events db_step ops empty_odb"
  fix d task
  assume msg: "m_type msg = MWorkerDone" "getPersistedLifecycleRejection (parseObjectPayload msg) = None"
    "string_member (js ''taskId'') (parseObjectPayload msg) = Some t"
    "string_member (js ''dispatchId'') (parseObjectPayload msg) = Some c"
    and task: "getTask t ?db = Some task" and d: "getDispatchContextById c ?db = Some d" "d_task d = t"
    "hasLifecycleAuthority d msg"
    and cases: "db' = ?db \<and> d_status d = DCompleted \<and> t_status task = TCompleted \<or>
     d_status d = DDispatched \<and> map_option d_id (getDispatchContext t ?db) = Some c \<and>
     (\<exists>db1 x. updateTaskStatus now t TCompleted (Some (completion_result nowText msg)) ?db = (db1, Inr x) \<and>
        db' = suppressEarlierHeartbeats now msg c db1)"
  have again: ?thesis
    if "getTask t db' = Some task'" "t_status task' = TCompleted"
      "getDispatchContextById c db' = Some d'" "d_status d' = DCompleted" "d_task d' = t"
      "hasLifecycleAuthority d' msg" for task' d'
    using that msg by (simp add: reconcileLifecycleMessage_def reconcileWorkerDoneMessage_def Let_def)
  show ?thesis
    using cases
  proof (elim disjE conjE exE)
    assume "db' = ?db" "d_status d = DCompleted" "t_status task = TCompleted"
    with task d show ?thesis by (intro again) auto
  next
    fix db1 x
    assume st: "d_status d = DDispatched" and last: "map_option d_id (getDispatchContext t ?db) = Some c"
      and upd: "updateTaskStatus now t TCompleted (Some (completion_result nowText msg)) ?db = (db1, Inr x)"
      and db': "db' = suppressEarlierHeartbeats now msg c db1"
    have inv: "db_inv ?db" by (rule db_inv_reachable)
    obtain d0 where d0: "getDispatchContext t ?db = Some d0" "d_id d0 = c" using last by auto
    have in0: "d0 \<in> set (dispatches ?db)" and ind: "d \<in> set (dispatches ?db)" "d_id d = c"
      using sql_last_Some_in [OF d0(1) [unfolded getDispatchContext_def]]
        find_Some_in [OF d(1) [unfolded getDispatchContextById_def]] by auto
    have "d0 = d"
      using db_inv_disp [OF inv] in0 ind d0(2) unfolding disp_inv_def by (metis distinct_key_eq)
    then have act: "getDispatchContext t ?db = Some d" "d_active d"
      using d0(1) st by (auto simp: d_active_def)
    have tsk: "getTask t ?db \<noteq> None" using task by simp
    note disp = completed_dispatch [OF db_inv_task [OF inv] tsk upd act]
    have "getDispatchContextById c db' = Some (d\<lparr>d_status := DCompleted, d_completed_at := Some (SqlUtc now)\<rparr>)"
      using d(1) ind(2) by (simp add: db' db_frame getDispatchContextById_def disp find_sql_update)
    moreover have "map_option t_status (getTask t db') = Some TCompleted"
      using updateTaskStatus_completed(2) [OF db_inv_task [OF inv] tsk upd, of t] task
      by (simp add: db' db_frame)
    moreover have "hasLifecycleAuthority (d\<lparr>d_status := DCompleted, d_completed_at := Some (SqlUtc now)\<rparr>) msg"
      using d(3) by (simp add: hasLifecycleAuthority_def)
    ultimately show ?thesis
      using d(2) again by (cases "getTask t db'") auto
  qed
qed

text \<open>
  Completion is idempotent.  After a worker message completed a task, its task and its dispatch
  are completed, and the same message, processed again by the sender or the coordinator, reports the
  same completion and changes nothing.
\<close>

theorem completion_is_idempotent:
  assumes "reconcileLifecycleMessage now nowText msg (run_events db_step ops empty_odb) = (db', Inr (Completed t c))"
  shows "map_option t_status (getTask t db') = Some TCompleted \<and>
    map_option d_status (getDispatchContextById c db') = Some DCompleted \<and>
    reconcileLifecycleMessage later laterText msg db' = (db', Inr (Completed t c))"
  using assms by (rule reconcile_completed)

subsection \<open>A dispatched task\<close>

text \<open>Task 1 is out to terminal 9 as dispatch 2; the messages name both.\<close>

definition sample_ops :: "db_op list" where
  "sample_ops = [CreateTask [1] 0 (plain_task [65] []), CreateDispatch [2] 1 [1] [9] None]"

definition sample_payload :: json where
  "sample_payload = JObj [(js ''taskId'', JStr [1]), (js ''dispatchId'', JStr [2])]"

definition sample_msg :: "message_type \<Rightarrow> jsstr \<Rightarrow> message_row" where
  "sample_msg ty sender = \<lparr>m_id = [7], m_from = sender, m_to = [8], m_subject = [], m_body = [], m_type = ty,
     m_priority = PNormal, m_thread = None, m_payload = Some (json_stringify sample_payload), m_read = False,
     m_sequence = 1, m_created_at = IsoSec 2, m_delivered_at = None, m_sender_pane_key = None\<rparr>"

lemma sample_parse: "parseObjectPayload (sample_msg ty f) = sample_payload"
proof -
  have "json_ok sample_payload" by (simp add: sample_payload_def js_eval)
  then have "json_parse (json_stringify sample_payload) = Some sample_payload" by (rule json_parse_stringify)
  moreover have "json_stringify sample_payload \<noteq> []" by (simp add: sample_payload_def)
  ultimately show ?thesis
    by (simp add: parseObjectPayload_def sample_msg_def) (simp add: sample_payload_def)
qed

lemma sample_members:
  "getPersistedLifecycleRejection sample_payload = None"
  "string_member (js ''taskId'') sample_payload = Some [1]"
  "string_member (js ''dispatchId'') sample_payload = Some [2]"
  by (simp_all add: getPersistedLifecycleRejection_def string_member_def member_def sample_payload_def
      map_get_def js_eval)

lemma sample_db:
  "dispatches (run_events db_step sample_ops empty_odb) = [new_dispatch_row [2] 1 [1] [9] None 0]"
  "map_option t_status (getTask [1] (run_events db_step sample_ops empty_odb)) = Some TDispatched"
  by (simp_all add: sample_ops_def createTask_def createDispatchContext_def empty_odb_def plain_task_def Let_def
      getTask_def findActiveDispatchForAssignee_def prior_failures_def set_task_status_def)

lemma sample_done_completes:
  "\<exists>db'. reconcileLifecycleMessage 5 nt (sample_msg MWorkerDone [9]) (run_events db_step sample_ops empty_odb) =
     (db', Inr (Completed [1] [2]))"
proof -
  let ?db = "run_events db_step sample_ops empty_odb"
  obtain t where t: "getTask [1] ?db = Some t" "t_status t = TDispatched"
    using sample_db(2) by (cases "getTask [1] ?db") auto
  have d: "getDispatchContextById [2] ?db = Some (new_dispatch_row [2] 1 [1] [9] None 0)"
    "getDispatchContext [1] ?db = Some (new_dispatch_row [2] 1 [1] [9] None 0)"
    by (simp_all add: getDispatchContextById_def getDispatchContext_def sample_db sql_last_def new_dispatch_row_def)
  obtain db1 r where u: "updateTaskStatus 5 [1] TCompleted (Some (completion_result nt (sample_msg MWorkerDone [9]))) ?db = (db1, r)"
    by fastforce
  have "r = Inr (getTask [1] db1)"
    using updateTaskStatus_completed(1) [OF db_inv_task [OF db_inv_reachable] _ u] t by simp
  moreover have "hasLifecycleAuthority (new_dispatch_row [2] 1 [1] [9] None 0) (sample_msg MWorkerDone [9])"
    by (simp add: hasLifecycleAuthority_def new_dispatch_row_def sample_msg_def)
  moreover have "m_type (sample_msg MWorkerDone [9]) = MWorkerDone" by (simp add: sample_msg_def)
  ultimately show ?thesis
    using t d u unfolding reconcileLifecycleMessage_def reconcileWorkerDoneMessage_def sample_parse
    by (simp add: sample_members Let_def) (simp add: new_dispatch_row_def)
qed

theorem completion_is_idempotent_witness:
  "\<exists>db'. reconcileLifecycleMessage 5 [] (sample_msg MWorkerDone [9]) (run_events db_step sample_ops empty_odb) =
       (db', Inr (Completed [1] [2])) \<and>
     map_option t_status (getTask [1] db') = Some TCompleted \<and>
     reconcileLifecycleMessage 6 [1] (sample_msg MWorkerDone [9]) db' = (db', Inr (Completed [1] [2]))"
proof -
  obtain db' where h: "reconcileLifecycleMessage 5 [] (sample_msg MWorkerDone [9])
      (run_events db_step sample_ops empty_odb) = (db', Inr (Completed [1] [2]))"
    using sample_done_completes by blast
  show ?thesis using completion_is_idempotent [OF h, of 6 "[1]"] h by blast
qed

theorem only_the_assignee_acts_witness:
  "\<exists>d. d \<in> set (dispatches (run_events db_step sample_ops empty_odb)) \<and> d_id d = [2] \<and> d_handle d = Some [9]"
proof -
  let ?db = "run_events db_step sample_ops empty_odb"
  obtain db' where h: "reconcileLifecycleMessage 5 [] (sample_msg MWorkerDone [9]) ?db = (db', Inr (Completed [1] [2]))"
    using sample_done_completes by blast
  have "map_option t_status (getTask [1] db') \<noteq> map_option t_status (getTask [1] ?db)"
    unfolding reconcile_completed [OF h, THEN conjunct1] sample_db(2) by simp
  then have ch: "tasks db' \<noteq> tasks ?db \<or> dispatches db' \<noteq> dispatches ?db"
    by (auto simp: getTask_def)
  show ?thesis
    using only_the_assignee_acts [OF h ch] by (auto simp: sample_parse sample_members sample_msg_def sample_db new_dispatch_row_def)
qed

text \<open>A completion sent by terminal 10 for the dispatch of terminal 9.\<close>

theorem rejection_persists_witness:
  "let db = (run_events db_step sample_ops empty_odb)\<lparr>messages := [sample_msg MWorkerDone [10]]\<rparr>
   in \<exists>db' reason msg'. reconcileLifecycleMessage 5 [] (sample_msg MWorkerDone [10]) db = (db', Inr (Rejected reason)) \<and>
       getMessageById [7] db' = Some msg' \<and>
       reconcileLifecycleMessage 9 [] msg' empty_odb = (empty_odb, Inr (Rejected reason))"
proof -
  let ?db0 = "run_events db_step sample_ops empty_odb"
  let ?m = "sample_msg MWorkerDone [10]"
  let ?db = "?db0\<lparr>messages := [?m]\<rparr>"
  let ?d = "new_dispatch_row [2] 1 [1] [9] None 0"
  let ?reason = "buildLifecycleAuthorityRejectionReason [2] ?d ?m"
  have i: "m_id ?m = [7]" by (simp add: sample_msg_def)
  have g: "getMessageById (m_id ?m) ?db = Some ?m"
    by (simp add: getMessageById_def i exposeMessageTimestamps_def exposeUtcTimestamp_def) (simp add: sample_msg_def)
  obtain t where t: "getTask [1] ?db = Some t"
    using sample_db(2) by (cases "getTask [1] ?db0") (auto simp: getTask_def)
  have d: "getDispatchContextById [2] ?db = Some ?d"
    by (simp add: getDispatchContextById_def sample_db new_dispatch_row_def)
  have na: "\<not> hasLifecycleAuthority ?d ?m" "d_task ?d = [1]" "m_type ?m = MWorkerDone"
    by (simp_all add: hasLifecycleAuthority_def new_dispatch_row_def sample_msg_def)
  let ?db' = "fst (convertLifecycleMessageToRejection (m_id ?m) ?reason ?db)"
  have r: "reconcileLifecycleMessage 5 [] ?m ?db = (?db', Inr (Rejected ?reason))"
    using t d na unfolding reconcileLifecycleMessage_def reconcileWorkerDoneMessage_def sample_parse
    by (simp add: sample_members Let_def)
  have "map m_priority (messages ?db') = [PHigh]"
    using g by (simp add: convertLifecycleMessageToRejection_def na(3) Let_def)
  then have ne: "?db' \<noteq> ?db" by (auto simp: sample_msg_def)
  show ?thesis
    using rejection_persists [OF g r ne, of 9 "[]" empty_odb] r i unfolding Let_def by metis
qed

end
