(* ===== verification/Orch_Coordinator.thy ===== *)
theory Orch_Coordinator
  imports Orch_Lifecycle
begin

text \<open>
  The coordinator, \<open>src/main/runtime/orchestration/coordinator.ts\<close>: one tick reads the
  messages, re-blocks tasks with open gates, dispatches ready tasks and tests convergence.

  What the runtime answers (terminal listing, drift probe, delivery of a prompt) and what the clock
  and the id generator give are fields of \<open>tick_env\<close>.  Other clients of the store run while a tick waits, that is at each
  \<open>await\<close>: what they do to the store there are the fields \<open>te_while_\<close> and \<open>te_between\<close>.  \<open>te_num\<close> is the language's and the SQL driver's
  treatment of a number in a payload: the text it is stored as, \<open>None\<close> for a falsy number.
  Logging is left out; a prompt is recorded by the data it is built from.
\<close>

datatype coord_error = DbError db_error | JsTypeError | BindError | NoTasks

subsection \<open>The allow-stale-base flag\<close>

definition DISPATCH_STALE_THRESHOLD :: nat where
  "DISPATCH_STALE_THRESHOLD = 20"

definition is_line_end :: "jschar \<Rightarrow> bool" where
  "is_line_end c \<longleftrightarrow> c = 10 \<or> c = 13 \<or> c = 0x2028 \<or> c = 0x2029"

definition skip_blanks :: "jsstr \<Rightarrow> jsstr" where
  "skip_blanks s = dropWhile (\<lambda>c. c = 32 \<or> c = 9) s"

definition eat :: "jsstr \<Rightarrow> jsstr \<Rightarrow> jsstr option" where
  "eat p s = (if to_lower (take (length p) s) = p then Some (drop (length p) s) else None)"

text \<open>The common part of both regular expressions, from a line start: what is left after it.\<close>

definition flag_at :: "jsstr \<Rightarrow> jsstr option" where
  "flag_at s =
     (case eat (js ''allow-stale-base:'') (skip_blanks s) of None \<Rightarrow> None
      | Some r \<Rightarrow> map_option skip_blanks (eat (js ''true'') (skip_blanks r)))"

text \<open>The first match at a line start: the text before it and the text after it.\<close>

fun find_flag :: "(jsstr \<Rightarrow> bool) \<Rightarrow> bool \<Rightarrow> jsstr \<Rightarrow> (jsstr \<times> jsstr) option" where
  "find_flag ok bol [] = None"
| "find_flag ok bol (c # s) =
     (case (if bol then flag_at (c # s) else None) of
        Some r \<Rightarrow> if ok r then Some ([], r)
                  else map_option (\<lambda>(a, r). (c # a, r)) (find_flag ok (is_line_end c) s)
      | None \<Rightarrow> map_option (\<lambda>(a, r). (c # a, r)) (find_flag ok (is_line_end c) s))"

definition ALLOW_STALE_BASE_RE :: "jsstr \<Rightarrow> bool" where
  "ALLOW_STALE_BASE_RE spec = (find_flag (\<lambda>r. r = [] \<or> is_line_end (hd r)) True spec \<noteq> None)"

definition drop_crlf :: "jsstr \<Rightarrow> jsstr" where
  "drop_crlf r = (let r' = (if starts_with [13] r then tl r else r) in if starts_with [10] r' then tl r' else r')"

definition strip_flag :: "jsstr \<Rightarrow> jsstr" where
  "strip_flag spec = (case find_flag (\<lambda>_. True) True spec of None \<Rightarrow> spec | Some (a, r) \<Rightarrow> a @ drop_crlf r)"

definition parseAllowStaleBaseFromSpec :: "jsstr \<Rightarrow> bool \<times> jsstr" where
  "parseAllowStaleBaseFromSpec spec =
     (if \<not> ALLOW_STALE_BASE_RE spec then (False, spec) else (True, strip_flag spec))"

subsection \<open>State and environment\<close>

definition MAX_CONCURRENT_DEFAULT :: int where
  "MAX_CONCURRENT_DEFAULT = 4"

definition HUNG_THRESHOLD_MS :: nat where
  "HUNG_THRESHOLD_MS = 10 * 60 * 1000"

record coord_opts =
  co_spec :: jsstr
  co_handle :: jsstr
  co_max :: int
  co_worktree :: "jsstr option"

datatype phase = Decomposing | Dispatching | Monitoring | Merging | Done

record prompt =
  p_handle :: jsstr
  p_task :: jsstr
  p_dispatch :: jsstr
  p_spec :: jsstr
  p_gate :: "(jsstr \<times> jsstr option) option"

record coordinator =
  c_db :: odb
  c_phase :: phase
  c_completed :: "jsstr list"
  c_failed :: "jsstr list"
  c_escalations :: "message_row list"
  c_sent :: "prompt list"

record terminal =
  tm_handle :: jsstr
  tm_connected :: bool
  tm_writable :: bool

record tick_env =
  te_now :: nat
  te_nowText :: jsstr
  te_num :: "jsstr \<Rightarrow> jsstr option"
  te_gate_id :: "jsstr \<Rightarrow> jsstr"
  te_terminals :: "terminal list option"
  te_created :: "jsstr option"
  te_drift :: "jsstr \<Rightarrow> nat option"
  te_pane :: "jsstr \<Rightarrow> jsstr option"
  te_dispatch_id :: "jsstr \<Rightarrow> jsstr"
  te_send_error :: "jsstr \<Rightarrow> jsstr option"
  te_while_listing :: "db_op list"
  te_while_creating :: "db_op list"
  te_while_probing :: "jsstr \<Rightarrow> db_op list"
  te_while_sending :: "jsstr \<Rightarrow> db_op list"
  te_between :: "jsstr \<Rightarrow> db_op list"

definition with_db :: "(odb \<Rightarrow> odb) \<Rightarrow> coordinator \<Rightarrow> coordinator" where
  "with_db f c = c\<lparr>c_db := f (c_db c)\<rparr>"

text \<open>The operations of other clients, in the order the store runs them.\<close>

definition others :: "db_op list \<Rightarrow> coordinator \<Rightarrow> coordinator" where
  "others ops c = with_db (run_events db_step ops) c"

definition new_coordinator :: "odb \<Rightarrow> coordinator" where
  "new_coordinator db = \<lparr>c_db = db, c_phase = Decomposing, c_completed = [], c_failed = [],
     c_escalations = [], c_sent = []\<rparr>"

subsection \<open>Messages\<close>

definition json_truthy :: "(jsstr \<Rightarrow> jsstr option) \<Rightarrow> json \<Rightarrow> bool" where
  "json_truthy num v =
     (case v of JNull \<Rightarrow> False | JBool b \<Rightarrow> b | JNum l \<Rightarrow> num l \<noteq> None | JStr s \<Rightarrow> s \<noteq> []
      | JArr _ \<Rightarrow> True | JObj _ \<Rightarrow> True)"

text \<open>\<open>payload.key\<close> for a payload that is not null; \<open>None\<close> when it is falsy.\<close>

definition truthy_member :: "(jsstr \<Rightarrow> jsstr option) \<Rightarrow> jsstr \<Rightarrow> json \<Rightarrow> json option" where
  "truthy_member num k payload =
     (case member k payload of None \<Rightarrow> None | Some v \<Rightarrow> if json_truthy num v then Some v else None)"

text \<open>A value bound to a statement parameter: text and numbers; \<open>None\<close> throws.\<close>

definition sql_bind :: "(jsstr \<Rightarrow> jsstr option) \<Rightarrow> json \<Rightarrow> jsstr option" where
  "sql_bind num v = (case v of JStr s \<Rightarrow> Some s | JNum l \<Rightarrow> num l | _ \<Rightarrow> None)"

text \<open>
  \<open>getTask\<close> on a payload value: an object as the only argument is a set of named parameters, which
  throws unless it is empty.
\<close>

definition get_task_by :: "(jsstr \<Rightarrow> jsstr option) \<Rightarrow> json \<Rightarrow> odb \<Rightarrow> coord_error + task_row option" where
  "get_task_by num v db =
     (if v = JObj [] \<or> v = JArr [] then Inr None
      else (case sql_bind num v of None \<Rightarrow> Inl BindError | Some i \<Rightarrow> Inr (getTask i db)))"

definition handleLifecycleMessage ::
    "tick_env \<Rightarrow> message_row \<Rightarrow> coordinator \<Rightarrow> coordinator \<times> coord_error option" where
  "handleLifecycleMessage te msg c =
     (case reconcileLifecycleMessage (te_now te) (te_nowText te) msg (c_db c) of
        (db, Inl e) \<Rightarrow> (c\<lparr>c_db := db\<rparr>, Some (DbError e))
      | (db, Inr (Completed taskId _)) \<Rightarrow>
          (c\<lparr>c_db := db, c_completed := (if taskId \<in> set (c_completed c) then c_completed c
                                           else c_completed c @ [taskId])\<rparr>, None)
      | (db, Inr _) \<Rightarrow> (c\<lparr>c_db := db\<rparr>, None))"

text \<open>Failing the latest dispatch of a task that is neither completed nor failed.\<close>

definition escalate_task :: "nat \<Rightarrow> message_row \<Rightarrow> task_row \<Rightarrow> coordinator \<Rightarrow> coordinator" where
  "escalate_task now msg task c =
     (if t_status task = TCompleted \<or> t_status task = TFailed then c
      else (case getDispatchContext (t_id task) (c_db c) of None \<Rightarrow> c
            | Some d \<Rightarrow>
               (case failDispatch (d_id d) (m_subject msg) (c_db c) of (db1, updated) \<Rightarrow>
                  if map_option d_status updated = Some DCircuitBroken
                  then c\<lparr>c_db := fst (updateTaskStatus now (t_id task) TFailed
                                         (Some (js ''Circuit broken: '' @ m_subject msg)) db1),
                         c_failed := c_failed c @ [t_id task]\<rparr>
                  else c\<lparr>c_db := db1\<rparr>)))"

definition handleEscalation ::
    "tick_env \<Rightarrow> message_row \<Rightarrow> coordinator \<Rightarrow> coordinator \<times> coord_error option" where
  "handleEscalation te msg c =
     (let c1 = c\<lparr>c_escalations := c_escalations c @ [msg]\<rparr>;
          taskId = (if truthy (m_payload msg)
                    then (case json_parse (the (m_payload msg)) of None \<Rightarrow> None
                          | Some payload \<Rightarrow> truthy_member (te_num te) (js ''taskId'') payload)
                    else None)
      in case taskId of None \<Rightarrow> (c1, None)
         | Some v \<Rightarrow> (case get_task_by (te_num te) v (c_db c1) of
                        Inl e \<Rightarrow> (c1, Some e)
                      | Inr None \<Rightarrow> (c1, None)
                      | Inr (Some task) \<Rightarrow> (escalate_task (te_now te) msg task c1, None)))"

definition open_gate ::
    "tick_env \<Rightarrow> message_row \<Rightarrow> json \<Rightarrow> coordinator \<Rightarrow> coordinator \<times> coord_error option" where
  "open_gate te msg payload c =
     (case (truthy_member (te_num te) (js ''taskId'') payload, truthy_member (te_num te) (js ''question'') payload) of
        (Some t, Some q) \<Rightarrow>
          (case (sql_bind (te_num te) t, sql_bind (te_num te) q) of
             (Some task, Some question) \<Rightarrow>
               (case createGate (te_gate_id te (m_id msg)) (te_now te) task question
                       (member (js ''options'') payload) (c_db c) of
                  (db, Inl e) \<Rightarrow> (c\<lparr>c_db := db\<rparr>, Some (DbError e))
                | (db, Inr _) \<Rightarrow> (c\<lparr>c_db := db\<rparr>, None))
           | _ \<Rightarrow> (c, Some BindError))
      | _ \<Rightarrow> (c, None))"

definition handleDecisionGateMessage ::
    "tick_env \<Rightarrow> message_row \<Rightarrow> coordinator \<Rightarrow> coordinator \<times> coord_error option" where
  "handleDecisionGateMessage te msg c =
     (if truthy (m_payload msg)
      then (case json_parse (the (m_payload msg)) of None \<Rightarrow> (c, None)
            | Some JNull \<Rightarrow> (c, Some JsTypeError)
            | Some payload \<Rightarrow> open_gate te msg payload c)
      else open_gate te msg (JObj []) c)"

definition handle_message ::
    "tick_env \<Rightarrow> message_row \<Rightarrow> coordinator \<Rightarrow> coordinator \<times> coord_error option" where
  "handle_message te msg c =
     (case m_type msg of
        MWorkerDone \<Rightarrow> handleLifecycleMessage te msg c
      | MEscalation \<Rightarrow> handleEscalation te msg c
      | MDecisionGate \<Rightarrow> handleDecisionGateMessage te msg c
      | MHeartbeat \<Rightarrow> handleLifecycleMessage te msg c
      | _ \<Rightarrow> (c, None))"

fun message_loop ::
    "tick_env \<Rightarrow> message_row list \<Rightarrow> coordinator \<Rightarrow> coordinator \<times> coord_error option" where
  "message_loop te [] c = (c, None)"
| "message_loop te (m # ms) c =
     (case handle_message te m c of
        (c', Some e) \<Rightarrow> (c', Some e)
      | (c', None) \<Rightarrow> message_loop te ms c')"

definition processMessages ::
    "coord_opts \<Rightarrow> tick_env \<Rightarrow> coordinator \<Rightarrow> coordinator \<times> coord_error option" where
  "processMessages opts te c =
     (let ms = getUnreadMessages (co_handle opts) None (c_db c)
      in if ms = [] then (c, None)
         else (case message_loop te ms c of
                 (c', Some e) \<Rightarrow> (c', Some e)
               | (c', None) \<Rightarrow> (with_db (markAsRead (map m_id ms)) c', None)))"

subsection \<open>Gates and stale dispatches\<close>

definition reblock :: "nat \<Rightarrow> gate_row \<Rightarrow> odb \<Rightarrow> odb" where
  "reblock now g db =
     (case getTask (g_task g) db of None \<Rightarrow> db
      | Some t \<Rightarrow> if t_status t \<noteq> TBlocked then fst (updateTaskStatus now (g_task g) TBlocked None db) else db)"

definition processDecisionGates :: "tick_env \<Rightarrow> coordinator \<Rightarrow> coordinator" where
  "processDecisionGates te c =
     with_db (fold (reblock (te_now te)) (listGates None (Some GPending) (c_db c))) c"

text \<open>The dispatches a tick warns of.\<close>

definition warnStaleDispatches :: "tick_env \<Rightarrow> coordinator \<Rightarrow> dispatch_row list" where
  "warnStaleDispatches te c =
     getStaleDispatches (IsoMs (1000 * te_now te - HUNG_THRESHOLD_MS)) (c_db c)"

subsection \<open>Dispatch\<close>

definition getAvailableTerminals :: "coord_opts \<Rightarrow> tick_env \<Rightarrow> coordinator \<Rightarrow> jsstr list" where
  "getAvailableTerminals opts te c =
     (case te_terminals te of None \<Rightarrow> []
      | Some ts \<Rightarrow>
         let busy = List.map_filter (\<lambda>t. case getDispatchContext (t_id t) (c_db c) of None \<Rightarrow> None
                       | Some d \<Rightarrow> if truthy (d_handle d) then d_handle d else None)
                      (listTasks False (Some TDispatched) (c_db c))
         in map tm_handle (filter (\<lambda>t. tm_handle t \<noteq> co_handle opts \<and> tm_handle t \<notin> set busy \<and>
                                        tm_connected t \<and> tm_writable t) ts))"

text \<open>
  \<open>dispatchTask\<close>; the flag says whether it throws (the caller only logs the error).  The task is the row read before
  the first wait.
\<close>

definition dispatchTask ::
    "coord_opts \<Rightarrow> tick_env \<Rightarrow> task_row \<Rightarrow> jsstr \<Rightarrow> coordinator \<Rightarrow> coordinator \<times> bool" where
  "dispatchTask opts te task target c0 =
     (let (allowStale, strippedSpec) = parseAllowStaleBaseFromSpec (t_spec task);
          probes = truthy (co_worktree opts);
          c = (if probes then others (te_while_probing te (t_id task)) c0 else c0);
          drift = (if probes then te_drift te (t_id task) else None)
      in if (case drift of None \<Rightarrow> False | Some n \<Rightarrow> n > DISPATCH_STALE_THRESHOLD) \<and> \<not> allowStale then (c, False)
         else (case createDispatchContext (te_dispatch_id te (t_id task)) (te_now te) (t_id task) target
                      (te_pane te target) (c_db c) of
                 (db, Inl e) \<Rightarrow> (c\<lparr>c_db := db\<rparr>, True)
               | (db, Inr d) \<Rightarrow>
                   let resolved = listGates (Some (t_id task)) (Some GResolved) db;
                       gateContext = (if resolved = [] then None
                                      else Some (g_question (last resolved), g_resolution (last resolved)));
                       c1 = others (te_while_sending te (t_id task)) (c\<lparr>c_db := db, c_sent := c_sent c @
                              [\<lparr>p_handle = target, p_task = t_id task, p_dispatch = d_id d,
                                p_spec = strippedSpec, p_gate = gateContext\<rparr>]\<rparr>)
                   in (case te_send_error te (t_id task) of
                         None \<Rightarrow> (c1\<lparr>c_phase := Monitoring\<rparr>, False)
                       | Some err \<Rightarrow>
                           (case failDispatch (d_id d) err (c_db c1) of (db2, updated) \<Rightarrow>
                              (if map_option d_status updated = Some DCircuitBroken
                               then c1\<lparr>c_db := db2, c_failed := c_failed c1 @ [t_id task]\<rparr>
                               else c1\<lparr>c_db := db2\<rparr>, True)))))"

fun dispatch_loop ::
    "coord_opts \<Rightarrow> tick_env \<Rightarrow> task_row list \<Rightarrow> jsstr list \<Rightarrow> int \<Rightarrow> coordinator \<Rightarrow> coordinator" where
  "dispatch_loop opts te [] terminals slots c = c"
| "dispatch_loop opts te (t # ts) [] slots c = c"
| "dispatch_loop opts te (t # ts) (h # hs) slots c =
     (if slots \<le> 0 then c
      else dispatch_loop opts te ts hs (slots - 1)
             (others (te_between te (t_id t)) (fst (dispatchTask opts te t h c))))"

text \<open>The slots are counted before the terminals are listed, the busy terminals after.\<close>

definition dispatchReadyTasks :: "coord_opts \<Rightarrow> tick_env \<Rightarrow> coordinator \<Rightarrow> coordinator" where
  "dispatchReadyTasks opts te c0 =
     (let c = c0\<lparr>c_phase := Dispatching\<rparr>;
          readyTasks = listTasks True None (c_db c);
          slots = co_max opts - int (length (listTasks False (Some TDispatched) (c_db c)))
      in if readyTasks = [] \<or> slots \<le> 0 then c
         else let c1 = others (te_while_listing te) c; terminals = getAvailableTerminals opts te c1
              in if terminals = []
                 then let c2 = others (te_while_creating te) c1
                      in case te_created te of None \<Rightarrow> c2
                         | Some h \<Rightarrow> dispatch_loop opts te readyTasks [h] slots c2
                 else dispatch_loop opts te readyTasks terminals slots c1)"

subsection \<open>Convergence, tick and run\<close>

definition task_done :: "task_row \<Rightarrow> bool" where
  "task_done t \<longleftrightarrow> t_status t = TCompleted \<or> t_status t = TFailed"

definition checkConvergence :: "coordinator \<Rightarrow> coordinator \<times> bool" where
  "checkConvergence c =
     (let ts = listTasks False None (c_db c)
      in if ts = [] then (c, True)
         else if list_all task_done ts then (c\<lparr>c_phase := Done\<rparr>, True)
         else (c, False))"

definition tick :: "coord_opts \<Rightarrow> tick_env \<Rightarrow> coordinator \<Rightarrow> coordinator \<times> (coord_error + bool)" where
  "tick opts te c =
     (case processMessages opts te c of
        (c1, Some e) \<Rightarrow> (c1, Inl e)
      | (c1, None) \<Rightarrow>
          (case checkConvergence (dispatchReadyTasks opts te (processDecisionGates te c1)) of
             (c2, b) \<Rightarrow> (c2, Inr b)))"

text \<open>
  \<open>executeLoop\<close> after \<open>decompose\<close>, over the ticks that happen: before each of them other clients of the
  store ran \<open>ext\<close>, and \<open>stop()\<close> was called or not.  \<open>None\<close>: the loop is still running after them.
\<close>

datatype outcome = Finished coordinator_status "jsstr list" | Threw coord_error

definition finish :: "nat \<Rightarrow> jsstr \<Rightarrow> bool \<Rightarrow> coordinator \<Rightarrow> coordinator \<times> outcome" where
  "finish now runId stopped c =
     (let ts = listTasks False None (c_db c);
          allDone = list_all task_done ts;
          failedTasks = rev (remdups (rev (c_failed c @ map t_id (filter (\<lambda>t. t_status t = TFailed) ts))));
          st = (if stopped \<or> failedTasks \<noteq> [] \<or> \<not> allDone then CFailed else CCompleted)
      in (with_db (\<lambda>db. fst (updateCoordinatorRun now runId st db)) c, Finished st failedTasks))"

fun execute_ticks ::
    "coord_opts \<Rightarrow> jsstr \<Rightarrow> (db_op list \<times> bool \<times> tick_env) list \<Rightarrow> coordinator \<Rightarrow> (coordinator \<times> outcome) option" where
  "execute_ticks opts runId [] c = None"
| "execute_ticks opts runId ((ext, stop, te) # es) c0 =
     (let c = with_db (run_events db_step ext) c0
      in if stop then Some (finish (te_now te) runId True c)
         else (case tick opts te c of
                 (c1, Inl e) \<Rightarrow>
                   Some (with_db (\<lambda>db. fst (updateCoordinatorRun (te_now te) runId CFailed db)) c1, Threw e)
               | (c1, Inr True) \<Rightarrow> Some (finish (te_now te) runId False c1)
               | (c1, Inr False) \<Rightarrow> execute_ticks opts runId es c1))"

definition decompose :: "coordinator \<Rightarrow> coordinator option" where
  "decompose c =
     (if listTasks False None (c_db c) = [] then None else Some (c\<lparr>c_phase := Dispatching\<rparr>))"

definition executeLoop ::
    "coord_opts \<Rightarrow> jsstr \<Rightarrow> nat \<Rightarrow> (db_op list \<times> bool \<times> tick_env) list \<Rightarrow> coordinator \<Rightarrow> (coordinator \<times> outcome) option" where
  "executeLoop opts runId now es c =
     (case decompose c of
        None \<Rightarrow> Some (with_db (\<lambda>db. fst (updateCoordinatorRun now runId CFailed db)) c, Threw NoTasks)
      | Some c1 \<Rightarrow> execute_ticks opts runId es c1)"

end
