(* ===== verification/Orch_Coordinator_Props.thy ===== *)
theory Orch_Coordinator_Props
  imports Orch_Coordinator
begin

text \<open>
  What the coordinator guarantees: the concurrency limit, gates that hold tasks back, an honest run
  status, and how it reacts to escalations, malformed gate messages and stuck task graphs.
\<close>

lemma with_db_simps [simp]:
  "c_db (with_db f c) = f (c_db c)" "c_sent (with_db f c) = c_sent c" "c_failed (with_db f c) = c_failed c"
  "c_completed (with_db f c) = c_completed c"
  by (simp_all add: with_db_def)

subsection \<open>The store stays well formed\<close>

lemma inv_createDispatch:
  "db_inv db \<Longrightarrow> createDispatchContext i now t h p db = (db', r) \<Longrightarrow> db_inv db'"
  using db_inv_createDispatch [of db i now t h p] by simp

lemma inv_failDispatch: "db_inv db \<Longrightarrow> failDispatch i e db = (db', r) \<Longrightarrow> db_inv db'"
  using db_inv_failDispatch [of db i e] by simp

lemma others_simps [simp]:
  "c_db (others ops c) = run_events db_step ops (c_db c)" "c_sent (others ops c) = c_sent c" "c_failed (others ops c) = c_failed c"
  "c_completed (others ops c) = c_completed c"
  by (simp_all add: others_def)

lemma inv_others: "db_inv db \<Longrightarrow> db_inv (run_events db_step ops db)"
  by (rule db.inv_run)

text \<open>The store around the waits of one dispatch.\<close>

definition probed :: "coord_opts \<Rightarrow> tick_env \<Rightarrow> task_row \<Rightarrow> coordinator \<Rightarrow> odb" where
  "probed opts te t c = (if truthy (co_worktree opts) then run_events db_step (te_while_probing te (t_id t)) (c_db c) else c_db c)"

lemma dispatchTask_db:
  obtains "c_db (fst (dispatchTask opts te t h c)) = probed opts te t c"
  | db r where "createDispatchContext (te_dispatch_id te (t_id t)) (te_now te) (t_id t) h (te_pane te h) (probed opts te t c) = (db, r)"
      "c_db (fst (dispatchTask opts te t h c)) = db"
  | db d err where "createDispatchContext (te_dispatch_id te (t_id t)) (te_now te) (t_id t) h (te_pane te h) (probed opts te t c) = (db, Inr d)"
      "c_db (fst (dispatchTask opts te t h c)) = run_events db_step (te_while_sending te (t_id t)) db"
  | db d err where "createDispatchContext (te_dispatch_id te (t_id t)) (te_now te) (t_id t) h (te_pane te h) (probed opts te t c) = (db, Inr d)"
      "c_db (fst (dispatchTask opts te t h c)) = fst (failDispatch (d_id d) err (run_events db_step (te_while_sending te (t_id t)) db))"
proof -
  have p: "c_db (if truthy (co_worktree opts) then others (te_while_probing te (t_id t)) c else c) = probed opts te t c"
    by (simp add: probed_def)
  obtain db r where c: "createDispatchContext (te_dispatch_id te (t_id t)) (te_now te) (t_id t) h (te_pane te h) (probed opts te t c) = (db, r)"
    by fastforce
  show thesis
  proof (cases r)
    case (Inl e)
    then have "c_db (fst (dispatchTask opts te t h c)) \<in> {probed opts te t c, db}"
      using c by (simp add: dispatchTask_def Let_def p case_prod_unfold)
    then show thesis using that(1) that(2) [OF c] by blast
  next
    case (Inr d)
    let ?db1 = "run_events db_step (te_while_sending te (t_id t)) db"
    have "c_db (fst (dispatchTask opts te t h c)) \<in> {probed opts te t c, ?db1} \<union> (\<lambda>err. fst (failDispatch (d_id d) err ?db1)) ` UNIV"
      using c Inr by (auto simp: dispatchTask_def Let_def p case_prod_unfold split: option.split)
    then show thesis using that(1) that(3,4) [OF c [unfolded Inr]] by blast
  qed
qed

lemma db_inv_dispatchTask:
  assumes "db_inv (c_db c)"
  shows "db_inv (c_db (fst (dispatchTask opts te t h c)))"
proof -
  have p: "db_inv (probed opts te t c)" using assms by (simp add: probed_def inv_others)
  show ?thesis
    by (rule dispatchTask_db [where opts = opts and te = te and t = t and h = h and c = c])
      (simp_all add: p inv_others db_inv_failDispatch inv_createDispatch [OF p])
qed

subsection \<open>The concurrency limit\<close>

definition dispatched_count :: "odb \<Rightarrow> nat" where
  "dispatched_count db = length (filter (\<lambda>t. t_status t = TDispatched) (tasks db))"

lemma length_dispatched: "length (listTasks False (Some TDispatched) db) = dispatched_count db"
  by (simp add: listTasks_def task_selected_def [abs_def] dispatched_count_def)

lemma count_update:
  "distinct (map t_id ts) \<Longrightarrow>
   length (filter P (sql_update (\<lambda>t. t_id t = i) f ts)) \<le> Suc (length (filter P ts))"
proof (induction ts)
  case (Cons t ts)
  show ?case
  proof (cases "t_id t = i")
    case True
    then have "sql_update (\<lambda>t. t_id t = i) f ts = ts"
      using Cons.prems by (intro sql_update_none) (auto simp: image_iff)
    then show ?thesis using True by simp
  qed (use Cons in simp)
qed simp

lemma count_update_off:
  "(\<And>t. \<not> P (f t)) \<Longrightarrow> length (filter P (sql_update q f ts)) \<le> length (filter P ts)"
  by (induction ts) auto

lemma dispatched_count_set:
  "task_inv (tasks db) \<Longrightarrow> dispatched_count (set_task_status i st db) \<le> Suc (dispatched_count db)"
  "st \<noteq> TDispatched \<Longrightarrow> dispatched_count (set_task_status i st db) \<le> dispatched_count db"
  unfolding dispatched_count_def set_task_status_def task_inv_def
  by (simp_all add: count_update count_update_off)

lemma dispatched_count_dispatches [simp]: "dispatched_count (db\<lparr>dispatches := ds\<rparr>) = dispatched_count db"
  by (simp add: dispatched_count_def)

lemma dispatched_count_create:
  assumes "db_inv db" "createDispatchContext i now t h p db = (db', r)"
  shows "dispatched_count db' \<le> Suc (dispatched_count db)"
proof (cases r)
  case (Inr row)
  have "task_inv (tasks (db\<lparr>dispatches := dispatches db @ [row]\<rparr>))"
    using assms(1) by (simp add: db_inv_def)
  then show ?thesis
    using createDispatch_Inr(5) [OF assms(2) [unfolded Inr]]
      dispatched_count_set(1) [of "db\<lparr>dispatches := dispatches db @ [row]\<rparr>" t TDispatched] by simp
next
  case (Inl e)
  then have "db' = db"
    using assms(2) by (auto simp: createDispatchContext_def Let_def split: option.splits if_splits)
  then show ?thesis by simp
qed

lemma dispatched_count_fail: "failDispatch i e db = (db', r) \<Longrightarrow> dispatched_count db' \<le> dispatched_count db"
  by (auto simp: failDispatch_def Let_def split: option.splits
      intro!: order_trans [OF dispatched_count_set(2)] split: if_splits)

text \<open>What other clients may do without dispatching.\<close>

fun no_dispatch :: "db_op \<Rightarrow> bool" where
  "no_dispatch (CreateDispatch i now t h p) \<longleftrightarrow> False"
| "no_dispatch (UpdateTaskStatus now i st r) \<longleftrightarrow> st \<noteq> TDispatched"
| "no_dispatch _ \<longleftrightarrow> True"

definition calm_step :: "odb \<Rightarrow> odb \<Rightarrow> bool" where
  "calm_step db db' \<longleftrightarrow> (db_inv db \<longrightarrow> db_inv db') \<and> dispatched_count db' \<le> dispatched_count db"

lemma calm_refl [simp]: "calm_step db db"
  by (simp add: calm_step_def)

lemma calm_trans: "calm_step a b \<Longrightarrow> calm_step b c \<Longrightarrow> calm_step a c"
  by (auto simp: calm_step_def)

lemma dispatched_count_gates [simp]: "dispatched_count (db\<lparr>gates := gs\<rparr>) = dispatched_count db"
  by (simp add: dispatched_count_def)

lemma count_promote: "dispatched_count (fst (promote_loop i ts db)) \<le> dispatched_count db"
  by (induction i ts db rule: promote_loop.induct)
    (auto split: option.split intro: order_trans [OF _ dispatched_count_set(2)])

lemma count_update_status:
  assumes "st \<noteq> TDispatched"
  shows "dispatched_count (fst (updateTaskStatus now i st r db)) \<le> dispatched_count db"
proof -
  have row: "dispatched_count (update_task_row now i st r db) \<le> dispatched_count db"
    using assms by (simp add: dispatched_count_def update_task_row_def Let_def count_update_off)
  have "dispatched_count (completeActiveDispatchForTask now i db') = dispatched_count db'" for db'
    by (simp add: completeActiveDispatchForTask_def completeDispatch_def split: option.split)
  then show ?thesis
    using row count_promote by (auto simp: updateTaskStatus_def Let_def promoteReadyTasks_def split: prod.split option.split) (metis fst_conv order_trans)+
qed

lemma count_step: "no_dispatch op \<Longrightarrow> dispatched_count (db_step op db) \<le> dispatched_count db"
proof (induction op db rule: db_step.induct)
  case (7 now i st r db)
  then show ?case by (simp add: count_update_status)
next
  case (11 c e db)
  then show ?case using dispatched_count_fail [of c e db] by (cases "failDispatch c e db") simp
next
  case (12 t e db)
  then show ?case using dispatched_count_fail [of _ e db]
    by (auto simp: failActiveDispatchForTask_def split: option.split) (metis prod.collapse)
next
  case (14 i now t q os db)
  have "dispatched_count (completeActiveDispatchForTask now t db') = dispatched_count db'" for db'
    by (simp add: completeActiveDispatchForTask_def completeDispatch_def split: option.split)
  then have "dispatched_count (set_task_status t TBlocked (completeActiveDispatchForTask now t (db\<lparr>gates := gs\<rparr>))) \<le> dispatched_count db" for gs
    using dispatched_count_set(2) [of TBlocked t "completeActiveDispatchForTask now t (db\<lparr>gates := gs\<rparr>)"] by simp
  then show ?case by (simp add: createGate_def Let_def split: option.split)
next
  case (15 now i r db)
  then show ?case by (auto simp: resolveGate_def Let_def split: option.split intro: order_trans [OF dispatched_count_set(2)])
qed (auto simp: insertMessage_def convertLifecycleMessageToRejection_def markAsRead_def markAsDelivered_def markAsReadAndDelivered_def createTask_def
    completeDispatch_def completeActiveDispatchForTask_def recordHeartbeat_def timeoutGate_def createCoordinatorRun_def updateCoordinatorRun_def
    resetTasks_def resetMessages_def resetAll_def dispatched_count_def Let_def split: option.split)

lemma calm_op: "no_dispatch op \<Longrightarrow> calm_step db (db_step op db)"
  using db.inv_step count_step by (auto simp: calm_step_def)

lemma calm_ops: "list_all no_dispatch ops \<Longrightarrow> calm_step db (run_events db_step ops db)"
proof (induction ops arbitrary: db)
  case (Cons op ops)
  then show ?case using calm_trans [OF calm_op, of op db "run_events db_step (op # ops) db"] by simp
qed simp

lemma calm_results:
  "updateTaskStatus now i st r db = (db', x) \<Longrightarrow> st \<noteq> TDispatched \<Longrightarrow> calm_step db db'"
  "failDispatch c e db = (db', y) \<Longrightarrow> calm_step db db'"
  "createGate g now i q os db = (db', z) \<Longrightarrow> calm_step db db'"
  "calm_step db (markAsReadAndDelivered now ids db)" "calm_step db (markAsRead ids db)" "calm_step db (recordHeartbeat c at db)"
  "calm_step db (fst (convertLifecycleMessageToRejection m reason db))"
  using calm_op [of "UpdateTaskStatus now i st r" db] calm_op [of "FailDispatch c e" db] calm_op [of "CreateGate g now i q os" db]
    calm_op [of "MarkReadDelivered now ids" db] calm_op [of "MarkRead ids" db] calm_op [of "RecordHeartbeat c at" db]
    calm_op [of "ConvertRejection m reason" db]
  by simp_all

lemma calm_reconcile: "reconcileLifecycleMessage now nowText msg db = (db', r) \<Longrightarrow> calm_step db db'"
  by (auto simp: reconcileLifecycleMessage_def reconcileHeartbeatMessage_def reconcileWorkerDoneMessage_def suppressEarlierHeartbeats_def Let_def
      calm_results(4-7) split: message_type.splits option.splits prod.splits sum.splits if_splits
      dest!: calm_results(1) intro: calm_trans [OF _ calm_results(4)])

lemma calm_handler: "calm_step (c_db c) (c_db (fst (handle_message te msg c)))"
proof -
  have 1: "calm_step (c_db c) (c_db (fst (handleLifecycleMessage te msg c)))"
    by (auto simp: handleLifecycleMessage_def dest: calm_reconcile split: prod.split sum.split lifecycle_result.split)
  have up: "calm_step db (fst (updateTaskStatus now i TFailed r db))" for now i r db
    using calm_results(1) [of now i TFailed r db] by (metis prod.collapse task_status.distinct(19) task_status.simps)
  have "calm_step (c_db c) (c_db (escalate_task now msg task c))" for now task and c :: coordinator
    by (auto simp: escalate_task_def dest!: calm_results(2) intro: calm_trans [OF _ up] split: option.split prod.split)
  note 2 = this [of "c\<lparr>c_escalations := c_escalations c @ [msg]\<rparr>", simplified]
  have 3: "calm_step (c_db c) (c_db (fst (open_gate te msg v c)))" for v
    by (auto simp: open_gate_def dest: calm_results(3) split: option.split prod.split sum.split)
  show ?thesis using 1 2 3
    by (auto simp: handle_message_def handleEscalation_def handleDecisionGateMessage_def Let_def split: message_type.split option.split sum.split json.split)
qed

lemma calm_messages: "calm_step (c_db c) (c_db (fst (processMessages opts te c)))"
proof -
  have "calm_step (c_db c) (c_db (fst (message_loop te ms c)))" for ms
  proof (induction te ms c rule: message_loop.induct)
    case (2 te m ms c)
    then show ?case using calm_handler [of c te m] by (auto split: prod.split option.split intro: calm_trans)
  qed simp
  then show ?thesis
    by (auto simp: processMessages_def Let_def split: prod.split option.split intro: calm_trans [OF _ calm_results(5)]) (metis calm_trans calm_results(5) fst_conv)+
qed

lemma calm_gates: "calm_step (c_db c) (c_db (processDecisionGates te c))"
proof -
  have up: "calm_step db (fst (updateTaskStatus now i TBlocked r db))" for now i r db
    using calm_op [of "UpdateTaskStatus now i TBlocked r" db] by simp
  have one: "calm_step db (reblock now g db)" for now g db
    using up by (simp add: reblock_def split: option.split)
  have "calm_step db (fold (reblock now) gs db)" for now gs db
    by (induction gs arbitrary: db) (auto intro: calm_trans [OF one])
  then show ?thesis by (simp add: processDecisionGates_def)
qed

text \<open>While the coordinator waits, no other client dispatches a task.\<close>

definition leaves_dispatching :: "tick_env \<Rightarrow> bool" where
  "leaves_dispatching te \<longleftrightarrow> list_all no_dispatch (te_while_listing te) \<and> list_all no_dispatch (te_while_creating te) \<and>
     (\<forall>t. list_all no_dispatch (te_while_probing te t) \<and> list_all no_dispatch (te_while_sending te t) \<and> list_all no_dispatch (te_between te t))"

lemma dispatched_count_dispatchTask:
  assumes "db_inv (c_db c)" "leaves_dispatching te"
  shows "dispatched_count (c_db (fst (dispatchTask opts te t h c))) \<le> Suc (dispatched_count (c_db c))"
proof -
  have p: "db_inv (probed opts te t c)" "dispatched_count (probed opts te t c) \<le> dispatched_count (c_db c)"
    using assms calm_ops [of "te_while_probing te (t_id t)" "c_db c"] by (auto simp: probed_def calm_step_def leaves_dispatching_def)
  have send: "dispatched_count (run_events db_step (te_while_sending te (t_id t)) db) \<le> dispatched_count db" for db
    using assms(2) calm_ops [of "te_while_sending te (t_id t)" db] by (simp add: calm_step_def leaves_dispatching_def)
  have fail: "dispatched_count (fst (failDispatch i e db)) \<le> dispatched_count db" for i e db
    using dispatched_count_fail [of i e db] by (cases "failDispatch i e db") simp
  have made: "dispatched_count db \<le> Suc (dispatched_count (c_db c))"
    if "createDispatchContext i now j h pane (probed opts te t c) = (db, r)" for i now j h pane db r
    using dispatched_count_create [OF p(1) that] p(2) by simp
  show ?thesis
    by (rule dispatchTask_db [where opts = opts and te = te and t = t and h = h and c = c])
      (use p(2) made in \<open>auto intro: le_SucI order_trans [OF send] order_trans [OF fail order_trans [OF send]]\<close>)
qed

lemma dispatch_loop_count:
  "db_inv (c_db c) \<Longrightarrow> leaves_dispatching te \<Longrightarrow>
   int (dispatched_count (c_db (dispatch_loop opts te ts hs slots c))) \<le> int (dispatched_count (c_db c)) + max 0 slots"
proof (induction opts te ts hs slots c rule: dispatch_loop.induct)
  case (3 opts te t ts h hs slots c)
  show ?case
  proof (cases "slots \<le> 0")
    case False
    let ?c1 = "fst (dispatchTask opts te t h c)" and ?c = "others (te_between te (t_id t)) (fst (dispatchTask opts te t h c))"
    have "calm_step (c_db ?c1) (c_db ?c)" using "3.prems"(2) calm_ops by (simp add: leaves_dispatching_def)
    then have inv: "db_inv (c_db ?c)" "dispatched_count (c_db ?c) \<le> dispatched_count (c_db ?c1)"
      using db_inv_dispatchTask "3.prems"(1) by (auto simp: calm_step_def)
    have "int (dispatched_count (c_db (dispatch_loop opts te ts hs (slots - 1) ?c)))
        \<le> int (dispatched_count (c_db ?c)) + max 0 (slots - 1)"
      using "3.IH" False inv(1) "3.prems"(2) by blast
    moreover have "dispatched_count (c_db ?c1) \<le> Suc (dispatched_count (c_db c))"
      using "3.prems" by (rule dispatched_count_dispatchTask)
    ultimately show ?thesis using False inv(2) by auto
  qed simp
qed auto

text \<open>A round of dispatches gives up, or finds no terminal, or runs the loop after one or two waits.\<close>

lemma dispatchReadyTasks_cases:
  fixes c :: coordinator
  obtains ops where "ops = [] \<or> ops = te_while_listing te @ te_while_creating te"
      "dispatchReadyTasks opts te c = others ops (c\<lparr>c_phase := Dispatching\<rparr>)"
  | ops hs where "ops = te_while_listing te \<or> ops = te_while_listing te @ te_while_creating te"
      "dispatchReadyTasks opts te c = dispatch_loop opts te (listTasks True None (c_db c)) hs
         (co_max opts - int (dispatched_count (c_db c))) (others ops (c\<lparr>c_phase := Dispatching\<rparr>))"
proof -
  let ?c = "\<lambda>ops. others ops (c\<lparr>c_phase := Dispatching\<rparr>)" and ?ts = "listTasks True None (c_db c)"
  let ?slots = "co_max opts - int (dispatched_count (c_db c))"
  have app: "others [] c' = c'" "others b (others a c') = others (a @ b) c'" for a b and c' :: coordinator
    by (simp_all add: others_def with_db_def)
  have phase: "c_db (c\<lparr>c_phase := p\<rparr>) = c_db c" for p by simp
  have round: "dispatchReadyTasks opts te c =
      (if ?ts = [] \<or> ?slots \<le> 0 then ?c []
       else if getAvailableTerminals opts te (?c (te_while_listing te)) = []
         then (case te_created te of None \<Rightarrow> ?c (te_while_listing te @ te_while_creating te)
                 | Some h \<Rightarrow> dispatch_loop opts te ?ts [h] ?slots (?c (te_while_listing te @ te_while_creating te)))
         else dispatch_loop opts te ?ts (getAvailableTerminals opts te (?c (te_while_listing te))) ?slots (?c (te_while_listing te)))"
    by (simp only: dispatchReadyTasks_def Let_def app phase length_dispatched)
  consider "?ts = [] \<or> ?slots \<le> 0" | "\<not> (?ts = [] \<or> ?slots \<le> 0)" "getAvailableTerminals opts te (?c (te_while_listing te)) = []"
    | "\<not> (?ts = [] \<or> ?slots \<le> 0)" "getAvailableTerminals opts te (?c (te_while_listing te)) \<noteq> []"
    by blast
  then show thesis
  proof cases
    case 1
    then show thesis using that(1) [of "[]"] round by simp
  next
    case 2
    then show thesis using that(1) [of "te_while_listing te @ te_while_creating te"]
        that(2) [of "te_while_listing te @ te_while_creating te" "[the (te_created te)]"] round by (cases "te_created te") simp_all
  next
    case 3
    then show thesis using that(2) [of "te_while_listing te" "getAvailableTerminals opts te (?c (te_while_listing te))"] round by simp
  qed
qed

lemma dispatchReadyTasks_count:
  assumes inv: "db_inv (c_db c)" and te: "leaves_dispatching te"
  shows "int (dispatched_count (c_db (dispatchReadyTasks opts te c))) \<le> max (co_max opts) (int (dispatched_count (c_db c)))"
proof -
  let ?c = "\<lambda>ops. others ops (c\<lparr>c_phase := Dispatching\<rparr>)"
  have calm: "calm_step (c_db c) (c_db (?c ops))"
    if "ops = [] \<or> ops = te_while_listing te \<or> ops = te_while_listing te @ te_while_creating te" for ops
    using that te calm_ops [of ops "c_db c"] by (auto simp: leaves_dispatching_def)
  show ?thesis
  proof (rule dispatchReadyTasks_cases [of te opts c])
    fix ops assume "ops = [] \<or> ops = te_while_listing te @ te_while_creating te" and eq: "dispatchReadyTasks opts te c = ?c ops"
    then have "dispatched_count (c_db (?c ops)) \<le> dispatched_count (c_db c)" using calm [of ops] by (auto simp: calm_step_def)
    then show ?thesis unfolding eq by linarith
  next
    fix ops hs assume ops: "ops = te_while_listing te \<or> ops = te_while_listing te @ te_while_creating te"
      and eq: "dispatchReadyTasks opts te c = dispatch_loop opts te (listTasks True None (c_db c)) hs
         (co_max opts - int (dispatched_count (c_db c))) (?c ops)"
    have "dispatched_count (c_db (?c ops)) \<le> dispatched_count (c_db c)" "db_inv (c_db (?c ops))"
      using calm [of ops] ops inv by (auto simp: calm_step_def)
    then show ?thesis
      using dispatch_loop_count [of "?c ops" te opts "listTasks True None (c_db c)" hs "co_max opts - int (dispatched_count (c_db c))"] te
      unfolding eq by linarith
  qed
qed

text \<open>The prompts of a tick.\<close>

lemma dispatchTask_sent:
  "\<exists>ps. c_sent (fst (dispatchTask opts te t h c)) = c_sent c @ ps \<and> p_task ` set ps \<subseteq> {t_id t} \<and> length ps \<le> 1"
  by (auto simp: dispatchTask_def Let_def split: prod.split sum.split option.split)

lemma dispatch_loop_sent:
  "\<exists>ps. c_sent (dispatch_loop opts te ts hs slots c) = c_sent c @ ps \<and> p_task ` set ps \<subseteq> t_id ` set ts \<and> int (length ps) \<le> max 0 slots"
proof (induction opts te ts hs slots c rule: dispatch_loop.induct)
  case (3 opts te t ts h hs slots c)
  obtain ps where ps: "c_sent (fst (dispatchTask opts te t h c)) = c_sent c @ ps" "p_task ` set ps \<subseteq> {t_id t}" "length ps \<le> 1"
    using dispatchTask_sent by blast
  show ?case
  proof (cases "slots \<le> 0")
    case False
    then obtain qs where "c_sent (dispatch_loop opts te ts hs (slots - 1) (others (te_between te (t_id t)) (fst (dispatchTask opts te t h c)))) =
        c_sent c @ ps @ qs" "p_task ` set qs \<subseteq> t_id ` set ts" "int (length qs) \<le> max 0 (slots - 1)"
      using 3 ps(1) by auto
    then show ?thesis using ps(2,3) False by (auto intro!: exI [of _ "ps @ qs"])
  qed simp
qed auto

lemma dispatchReadyTasks_sent:
  "\<exists>ps. c_sent (dispatchReadyTasks opts te c) = c_sent c @ ps \<and>
     p_task ` set ps \<subseteq> t_id ` set (listTasks True None (c_db c)) \<and> int (length ps) \<le> max 0 (co_max opts)"
proof (rule dispatchReadyTasks_cases [of te opts c])
  fix ops assume eq: "dispatchReadyTasks opts te c = others ops (c\<lparr>c_phase := Dispatching\<rparr>)"
  show ?thesis unfolding eq by simp
next
  let ?slots = "co_max opts - int (dispatched_count (c_db c))" and ?ts = "listTasks True None (c_db c)"
  fix ops hs assume eq: "dispatchReadyTasks opts te c = dispatch_loop opts te ?ts hs ?slots (others ops (c\<lparr>c_phase := Dispatching\<rparr>))"
  obtain ps where ps: "c_sent (dispatch_loop opts te ?ts hs ?slots (others ops (c\<lparr>c_phase := Dispatching\<rparr>))) =
      c_sent (others ops (c\<lparr>c_phase := Dispatching\<rparr>)) @ ps" "p_task ` set ps \<subseteq> t_id ` set ?ts" "int (length ps) \<le> max 0 ?slots"
    using dispatch_loop_sent by blast
  have "max 0 ?slots \<le> max 0 (co_max opts)" by simp
  then have "int (length ps) \<le> max 0 (co_max opts)" using ps(3) by linarith
  then show ?thesis unfolding eq ps(1) using ps(2) by simp
qed

lemma message_sent: "c_sent (fst (handle_message te m c)) = c_sent c"
proof -
  have 1: "c_sent (fst (handleLifecycleMessage te m c)) = c_sent c"
    by (simp add: handleLifecycleMessage_def split: prod.split sum.split lifecycle_result.split)
  have task: "c_sent (escalate_task now m t c) = c_sent c" for now t and c :: coordinator
    by (simp add: escalate_task_def split: option.split prod.split)
  have 2: "c_sent (fst (handleEscalation te m c)) = c_sent c"
    by (simp add: handleEscalation_def Let_def task split: option.split sum.split)
  have gate: "c_sent (fst (open_gate te m v c)) = c_sent c" for v
    by (simp add: open_gate_def split: option.split prod.split sum.split)
  have 3: "c_sent (fst (handleDecisionGateMessage te m c)) = c_sent c"
    by (simp add: handleDecisionGateMessage_def gate split: option.split json.split)
  show ?thesis by (simp add: handle_message_def 1 2 3 split: message_type.split)
qed

lemma message_loop_sent: "c_sent (fst (message_loop te ms c)) = c_sent c"
proof (induction te ms c rule: message_loop.induct)
  case (2 te m ms c)
  then show ?case using message_sent [of te m c] by (auto split: prod.split option.split)
qed simp

lemma messages_sent: "c_sent (fst (processMessages opts te c)) = c_sent c"
  using message_loop_sent [of te "getUnreadMessages (co_handle opts) None (c_db c)" c]
  by (auto simp: processMessages_def Let_def split: prod.split option.split)

text \<open>
  C19: The concurrency limit holds over a tick, whatever other clients do to the store while the coordinator waits for
  the runtime.  A tick sends out at most as many tasks as the limit; and if the others dispatch none meanwhile, it
  never raises the number of dispatched tasks above the limit, nor at all when there are already more.
\<close>

theorem concurrency_limit:
  assumes "c_db c = run_events db_step ops empty_odb"
  shows "(\<exists>ps. c_sent (fst (tick opts te c)) = c_sent c @ ps \<and> int (length ps) \<le> max 0 (co_max opts)) \<and>
    (leaves_dispatching te \<longrightarrow>
       int (dispatched_count (c_db (fst (tick opts te c)))) \<le> max (co_max opts) (int (dispatched_count (c_db c))))"
proof -
  obtain c1 e where m: "processMessages opts te c = (c1, e)" by fastforce
  let ?c2 = "processDecisionGates te c1"
  have calm: "calm_step (c_db c) (c_db c1)" "calm_step (c_db c) (c_db ?c2)"
    using calm_messages [of c opts te] calm_trans [OF _ calm_gates] by (simp_all add: m)
  have sent: "c_sent c1 = c_sent c" "c_sent ?c2 = c_sent c"
    using messages_sent [of opts te c] by (simp_all add: m processDecisionGates_def)
  have inv: "db_inv (c_db ?c2)" using calm(2) assms db_inv_reachable by (simp add: calm_step_def)
  have check: "c_db (fst (checkConvergence c')) = c_db c'" "c_sent (fst (checkConvergence c')) = c_sent c'" for c'
    by (simp_all add: checkConvergence_def Let_def)
  have tick: "fst (tick opts te c) = (if e = None then fst (checkConvergence (dispatchReadyTasks opts te ?c2)) else c1)"
    by (simp add: tick_def m case_prod_unfold split: option.split)
  have "int (dispatched_count (c_db (dispatchReadyTasks opts te ?c2))) \<le> max (co_max opts) (int (dispatched_count (c_db c)))"
    if "leaves_dispatching te"
    using dispatchReadyTasks_count [OF inv that, of opts] calm(2) by (auto simp: calm_step_def)
  moreover have "int (dispatched_count (c_db c1)) \<le> max (co_max opts) (int (dispatched_count (c_db c)))"
    using calm(1) by (auto simp: calm_step_def)
  ultimately show ?thesis
    using dispatchReadyTasks_sent [of opts te ?c2] sent unfolding tick by (auto simp: check intro: exI [of _ "[]"])
qed

subsection \<open>Gates hold tasks back\<close>

lemma getTask_reblock:
  "getTask j (reblock now g db) =
     map_option (\<lambda>t. if j = g_task g \<and> t_status t \<noteq> TBlocked then t\<lparr>t_status := TBlocked\<rparr> else t) (getTask j db)"
proof (cases "getTask (g_task g) db")
  case None
  then show ?thesis by (cases "j = g_task g") (auto simp: reblock_def option.map_ident)
next
  case (Some t)
  show ?thesis
  proof (cases "t_status t = TBlocked")
    case True
    then show ?thesis using Some by (cases "j = g_task g") (auto simp: reblock_def option.map_ident)
  next
    case False
    have "reblock now g db = update_task_row now (g_task g) TBlocked None db"
      using Some False by (simp add: reblock_def updateTaskStatus_def Let_def)
    then show ?thesis
      using getTask_id [of j db] Some False
      by (cases "getTask j db") (auto simp: getTask_update_task_row)
  qed
qed

lemma reblock_fold:
  "getTask j (fold (reblock now) gs db) = Some t \<Longrightarrow>
   j \<in> g_task ` set gs \<or> (\<exists>t0. getTask j db = Some t0 \<and> t_status t0 = TBlocked) \<Longrightarrow> t_status t = TBlocked"
proof (induction gs arbitrary: db)
  case (Cons g gs)
  have "\<exists>t1. getTask j (reblock now g db) = Some t1 \<and> t_status t1 = TBlocked"
    if "j = g_task g \<or> (\<exists>t0. getTask j db = Some t0 \<and> t_status t0 = TBlocked)"
      "j \<notin> g_task ` set gs"
  proof -
    have "getTask j db \<noteq> None"
    proof
      assume "getTask j db = None"
      then have "getTask j (fold (reblock now) gs' db) = None" for gs'
        by (induction gs' arbitrary: db) (simp_all add: getTask_reblock)
      then have "getTask j (fold (reblock now) (g # gs) db) = None" .
      then show False using Cons.prems(1) by simp
    qed
    then obtain u where "getTask j db = Some u" by auto
    then show ?thesis using that(1) by (cases "t_status u = TBlocked") (auto simp: getTask_reblock)
  qed
  then show ?case using Cons.IH [of "reblock now g db"] Cons.prems by auto
qed simp

lemma inv_reblock: "db_inv db \<Longrightarrow> db_inv (reblock now g db)"
  by (auto simp: reblock_def db_inv_updateTaskStatus split: option.split)

lemma inv_reblock_fold: "db_inv db \<Longrightarrow> db_inv (fold (reblock now) gs db)"
  by (induction gs arbitrary: db) (auto intro: inv_reblock)

lemma ready_in: "t \<in> set (listTasks True None db) \<longleftrightarrow> t \<in> set (tasks db) \<and> t_status t = TReady"
  by (auto simp: listTasks_def task_selected_def)

text \<open>
  A tick never sends out a task that has an open decision gate, even when the task was set ready
  behind the gate's back: the gate pass re-blocks it before the dispatch pass looks.
\<close>

theorem gated_tasks_are_not_sent:
  assumes "c_db c = run_events db_step ops empty_odb"
  shows "\<exists>ps. c_sent (dispatchReadyTasks opts te (processDecisionGates te c)) = c_sent c @ ps \<and>
     p_task ` set ps \<inter> g_task ` set (listGates None (Some GPending) (c_db c)) = {}"
proof -
  let ?gs = "listGates None (Some GPending) (c_db c)"
  let ?c = "processDecisionGates te c"
  obtain ps where ps: "c_sent (dispatchReadyTasks opts te ?c) = c_sent c @ ps"
      "p_task ` set ps \<subseteq> t_id ` set (listTasks True None (c_db ?c))"
    using dispatchReadyTasks_sent [of opts te ?c] by (auto simp: processDecisionGates_def)
  have db: "c_db ?c = fold (reblock (te_now te)) ?gs (c_db c)" by (simp add: processDecisionGates_def)
  have inv: "db_inv (c_db ?c)" unfolding db using assms db_inv_reachable by (simp add: inv_reblock_fold)
  have "t_id t \<notin> g_task ` set ?gs" if "t \<in> set (listTasks True None (c_db ?c))" for t
  proof
    assume g: "t_id t \<in> g_task ` set ?gs"
    have t: "t \<in> set (tasks (c_db ?c))" "t_status t = TReady" using that by (auto simp: ready_in)
    have "getTask (t_id t) (c_db ?c) = Some t" using inv t(1) by (intro getTask_in db_inv_task)
    then have "t_status t = TBlocked" using reblock_fold g unfolding db by blast
    then show False using t(2) by simp
  qed
  then have "t_id ` set (listTasks True None (c_db ?c)) \<inter> g_task ` set ?gs = {}"
    unfolding disjoint_iff by (metis imageE)
  then have "p_task ` set ps \<inter> g_task ` set ?gs = {}" by (metis ps(2) Int_mono order_refl subset_empty)
  with ps(1) show ?thesis by (intro exI [of _ ps] conjI)
qed

subsection \<open>The status of a run\<close>

lemma tasks_updateRun [db_frame]: "tasks (fst (updateCoordinatorRun now i st db)) = tasks db"
  by (simp add: updateCoordinatorRun_def Let_def)

lemma set_listTasks [simp]: "set (listTasks False None db) = set (tasks db)"
  by (auto simp: listTasks_def task_selected_def)

lemma set_keep_first [simp]: "rev (remdups (rev xs)) = [] \<longleftrightarrow> xs = []"
  by simp

lemma finish_completed:
  assumes "finish now runId stopped c = (c', Finished CCompleted fs)"
  shows "fs = [] \<and> list_all (\<lambda>t. t_status t = TCompleted) (tasks (c_db c'))"
proof -
  let ?ts = "listTasks False None (c_db c)"
  let ?f = "rev (remdups (rev (c_failed c @ map t_id (filter (\<lambda>t. t_status t = TFailed) ?ts))))"
  let ?st = "if stopped \<or> ?f \<noteq> [] \<or> \<not> list_all task_done ?ts then CFailed else CCompleted"
  have eq: "finish now runId stopped c =
      (with_db (\<lambda>db. fst (updateCoordinatorRun now runId ?st db)) c, Finished ?st ?f)"
    unfolding finish_def Let_def by (rule refl)
  have *: "c' = with_db (\<lambda>db. fst (updateCoordinatorRun now runId ?st db)) c" "?st = CCompleted" "?f = fs"
    using assms unfolding eq prod.inject outcome.inject by blast+
  have "\<not> (stopped \<or> ?f \<noteq> [] \<or> \<not> list_all task_done ?ts)" (is "\<not> ?P")
  proof
    assume ?P
    then have "?st = CFailed" by (rule if_P)
    then show False unfolding *(2) by simp
  qed
  then have f: "?f = []" and d: "list_all task_done ?ts" by blast+
  have c': "tasks (c_db c') = tasks (c_db c)" unfolding *(1) by (simp add: db_frame)
  have "filter (\<lambda>t. t_status t = TFailed) ?ts = []" using f by simp
  then have no: "\<forall>t \<in> set (tasks (c_db c)). t_status t \<noteq> TFailed" by (simp add: filter_empty_conv)
  have "\<forall>t \<in> set (tasks (c_db c)). task_done t" using d by (simp add: list_all_iff)
  with no have "list_all (\<lambda>t. t_status t = TCompleted) (tasks (c_db c'))"
    by (auto simp: c' list_all_iff task_done_def)
  then show ?thesis using f *(3) by simp
qed

text \<open>
  A run reports success only when it is true: if a run ends as completed, no task is reported
  failed and every task in the store at that moment is completed.
\<close>

theorem completed_run_completed_everything:
  assumes "executeLoop opts runId now es c = Some (c', Finished CCompleted fs)"
  shows "fs = [] \<and> list_all (\<lambda>t. t_status t = TCompleted) (tasks (c_db c'))"
proof -
  have "execute_ticks opts runId es c0 = Some (c', Finished CCompleted fs) \<Longrightarrow> ?thesis" for c0
    by (induction opts runId es c0 rule: execute_ticks.induct)
       (auto simp: Let_def finish_completed split: if_splits prod.splits sum.splits bool.splits)
  then show ?thesis
    using assms by (auto simp: executeLoop_def split: option.splits)
qed

subsection \<open>Malformed gate messages\<close>

lemma parse_null_nonempty: "js ''null'' \<noteq> []"
  by (simp add: js_eval)

lemma parse_null: "json_parse (js ''null'') = Some JNull"
  using json_parse_stringify [of JNull] by simp

text \<open>
  A decision-gate message with the payload \<open>null\<close> stops the coordinator: the first
  unread message being one, the run throws at its next tick, no message is marked read, and so every later
  run of the same coordinator terminal throws on the same message.
\<close>

theorem null_gate_payload_stops_every_run:
  assumes "getUnreadMessages (co_handle opts) None (c_db c) = m # ms"
    and "m_type m = MDecisionGate" and "m_payload m = Some (js ''null'')"
  shows "\<exists>c'. execute_ticks opts runId (([], False, te) # es) c = Some (c', Threw JsTypeError) \<and>
     getUnreadMessages (co_handle opts) None (c_db c') = m # ms"
proof -
  have "handle_message te m c = (c, Some JsTypeError)"
    using assms(2,3) parse_null_nonempty by (simp add: handle_message_def handleDecisionGateMessage_def parse_null)
  then have p: "processMessages opts te c = (c, Some JsTypeError)"
    using assms(1) by (simp add: processMessages_def Let_def)
  have ms: "messages (fst (updateCoordinatorRun now runId st db)) = messages db" for now st db
    by (simp add: updateCoordinatorRun_def Let_def)
  show ?thesis
    using assms(1) by (simp add: with_db_def tick_def p getUnreadMessages_def ms)
qed

subsection \<open>A run with nothing to do\<close>

text \<open>
  A run never gives up by itself.  With no unread message, no open gate, no ready task and some task
  unfinished (a task that waits for a failed one, for example), every number of ticks leaves the
  store as it is and the run goes on.
\<close>

theorem stuck_run_never_ends:
  assumes "getUnreadMessages (co_handle opts) None (c_db c) = []"
    and "listGates None (Some GPending) (c_db c) = []"
    and "listTasks True None (c_db c) = []" and "\<not> list_all task_done (tasks (c_db c))"
  shows "execute_ticks opts runId (map (\<lambda>te. ([], False, te)) tes) c = None"
  using assms
proof (induction tes arbitrary: c)
  case (Cons te tes)
  let ?c = "c\<lparr>c_phase := Dispatching\<rparr>"
  have nd: "\<not> list_all task_done (listTasks False None (c_db c))"
    using Cons.prems(4) by (simp add: list_all_iff)
  then have ne: "listTasks False None (c_db c) \<noteq> []" by auto
  have p: "processMessages opts te c = (c, None)"
    using Cons.prems(1) by (simp add: processMessages_def)
  have g: "processDecisionGates te c = c"
    using Cons.prems(2) by (simp add: processDecisionGates_def with_db_def)
  have d: "dispatchReadyTasks opts te c = ?c"
    using Cons.prems(3) by (simp add: dispatchReadyTasks_def Let_def)
  have k: "checkConvergence ?c = (?c, False)"
    using nd ne by (simp add: checkConvergence_def Let_def)
  have t: "tick opts te c = (?c, Inr False)"
    by (simp add: tick_def p g d k)
  have "execute_ticks opts runId (map (\<lambda>te. ([], False, te)) tes) ?c = None"
    using Cons.prems by (intro Cons.IH) simp_all
  then show ?case by (simp add: with_db_def t)
qed simp

subsection \<open>Escalations\<close>

lemma getTask_failDispatch:
  assumes "getDispatchContextById i db = Some d"
  shows "map_option t_status (getTask (d_task d) (fst (failDispatch i e db))) =
     map_option (\<lambda>_. if 3 \<le> Suc (d_failures d) then TFailed else TReady) (getTask (d_task d) db)"
    and "map_option d_failures (snd (failDispatch i e db)) = Some (Suc (d_failures d))"
    and "map_option d_status (snd (failDispatch i e db)) =
       Some (if 3 \<le> Suc (d_failures d) then DCircuitBroken else DFailed)"
    and "getDispatchContextById i (fst (failDispatch i e db)) = snd (failDispatch i e db)"
proof -
  have i: "d_id d = i" using find_Some_in [OF assms [unfolded getDispatchContextById_def]] by simp
  show "map_option t_status (getTask (d_task d) (fst (failDispatch i e db))) =
     map_option (\<lambda>_. if 3 \<le> Suc (d_failures d) then TFailed else TReady) (getTask (d_task d) db)"
    using getTask_id [of "d_task d" db]
    by (cases "getTask (d_task d) db") (simp_all add: failDispatch_def assms Let_def getTask_set_task_status)
  show "map_option d_failures (snd (failDispatch i e db)) = Some (Suc (d_failures d))"
    and "map_option d_status (snd (failDispatch i e db)) =
       Some (if 3 \<le> Suc (d_failures d) then DCircuitBroken else DFailed)"
    using assms i by (simp_all add: failDispatch_def Let_def getDispatchContextById_def find_sql_update)
  show "getDispatchContextById i (fst (failDispatch i e db)) = snd (failDispatch i e db)"
    by (simp add: failDispatch_def assms Let_def)
qed

lemma getTask_updateTaskStatus_failed:
  "map_option t_status (getTask i (fst (updateTaskStatus now i TFailed res db))) =
     map_option (\<lambda>_. TFailed) (getTask i db)"
  using getTask_id [of i db]
  by (cases "getTask i db") (simp_all add: updateTaskStatus_def Let_def getTask_update_task_row)

lemma dispatchById_updateTaskStatus_failed:
  "getDispatchContextById j (fst (updateTaskStatus now i TFailed res db)) = getDispatchContextById j db"
  by (simp add: updateTaskStatus_def Let_def getDispatchContextById_def db_frame)

lemma escalate_task_effect:
  assumes inv: "db_inv (c_db c)" and task: "getTask t (c_db c) = Some task" "\<not> task_done task"
    and d: "getDispatchContext t (c_db c) = Some d"
  shows "map_option t_status (getTask t (c_db (escalate_task now msg task c))) =
       Some (if Suc (d_failures d) < 3 then TReady else TFailed)"
    and "map_option d_failures (getDispatchContextById (d_id d) (c_db (escalate_task now msg task c))) =
       Some (Suc (d_failures d))"
proof -
  have tid: "t_id task = t" using task(1) by (rule getTask_id)
  have in_d: "d \<in> set (dispatches (c_db c))" "d_task d = t"
    using sql_last_Some_in [OF d [unfolded getDispatchContext_def]] by auto
  have get: "getDispatchContextById (d_id d) (c_db c) = Some d"
    using db_inv_disp [OF inv] in_d(1) unfolding disp_inv_def getDispatchContextById_def by (simp add: find_key)
  note fail = getTask_failDispatch [OF get, of "m_subject msg"]
  obtain db1 u where f: "failDispatch (d_id d) (m_subject msg) (c_db c) = (db1, u)" by fastforce
  have f1: "map_option t_status (getTask t db1) = Some (if Suc (d_failures d) < 3 then TReady else TFailed)"
    using fail(1) task(1) by (auto simp: f in_d(2) split: if_splits)
  have f2: "map_option d_failures (getDispatchContextById (d_id d) db1) = Some (Suc (d_failures d))"
    using fail(2,4) by (simp add: f)
  have f3: "map_option d_status u = Some (if Suc (d_failures d) < 3 then DFailed else DCircuitBroken)"
    using fail(3) by (auto simp: f split: if_splits)
  have nd: "t_status task \<noteq> TCompleted" "t_status task \<noteq> TFailed" using task(2) by (auto simp: task_done_def)
  have eq: "c_db (escalate_task now msg task c) =
      (if Suc (d_failures d) < 3 then db1
       else fst (updateTaskStatus now t TFailed (Some (js ''Circuit broken: '' @ m_subject msg)) db1))"
    using nd d f3 by (auto simp: escalate_task_def tid f split: if_splits)
  show "map_option t_status (getTask t (c_db (escalate_task now msg task c))) =
       Some (if Suc (d_failures d) < 3 then TReady else TFailed)"
    using f1 getTask_updateTaskStatus_failed [of t now "Some (js ''Circuit broken: '' @ m_subject msg)" db1]
    by (cases "Suc (d_failures d) < 3") (auto simp: eq)
  show "map_option d_failures (getDispatchContextById (d_id d) (c_db (escalate_task now msg task c))) =
       Some (Suc (d_failures d))"
    using f2 by (simp add: eq dispatchById_updateTaskStatus_failed)
qed

definition names_task :: "jsstr \<Rightarrow> message_row \<Rightarrow> bool" where
  "names_task t msg \<longleftrightarrow> t \<noteq> [] \<and> m_payload msg = Some (json_stringify (JObj [(js ''taskId'', JStr t)]))"

lemma handleEscalation_names:
  assumes "names_task t msg" "getTask t (c_db c) = Some task"
  shows "handleEscalation te msg c = (escalate_task (te_now te) msg task (c\<lparr>c_escalations := c_escalations c @ [msg]\<rparr>), None)"
proof -
  have "json_ok (JObj [(js ''taskId'', JStr t)])" by simp
  then have "json_parse (json_stringify (JObj [(js ''taskId'', JStr t)])) = Some (JObj [(js ''taskId'', JStr t)])"
    by (rule json_parse_stringify)
  moreover have "json_stringify (JObj [(js ''taskId'', JStr t)]) \<noteq> []" by simp
  ultimately show ?thesis
    using assms
    by (simp add: handleEscalation_def names_task_def truthy_member_def member_def map_get_def json_truthy_def
        get_task_by_def sql_bind_def del: json_stringify.simps)
qed

text \<open>
  An escalation counts as a failure of the latest dispatch of the task it names, whoever sent it and
  whether or not that dispatch is still in flight: the count of that dispatch goes up by one, and the
  task becomes ready, or failed at the third count.  So repeated messages about one lost dispatch,
  or late ones from a former worker, use up the retries of the task.
\<close>

theorem escalation_counts_against_latest_dispatch:
  assumes "c_db c = run_events db_step ops empty_odb" and "names_task t msg"
    and "getTask t (c_db c) = Some task" "\<not> task_done task"
    and "getDispatchContext t (c_db c) = Some d"
  shows "let (c', e) = handleEscalation te msg c
    in e = None \<and> c_escalations c' = c_escalations c @ [msg] \<and>
       map_option t_status (getTask t (c_db c')) = Some (if Suc (d_failures d) < 3 then TReady else TFailed) \<and>
       map_option d_failures (getDispatchContextById (d_id d) (c_db c')) = Some (Suc (d_failures d))"
proof -
  let ?c = "c\<lparr>c_escalations := c_escalations c @ [msg]\<rparr>"
  have inv: "db_inv (c_db ?c)" using assms(1) db_inv_reachable by simp
  have 1: "c_escalations (escalate_task (te_now te) msg task ?c) = c_escalations c @ [msg]"
    by (simp add: escalate_task_def split: option.split prod.split)
  have 2: "getTask t (c_db ?c) = Some task" "getDispatchContext t (c_db ?c) = Some d" using assms by simp_all
  show ?thesis
    unfolding handleEscalation_names [OF assms(2,3)] Let_def case_prod_conv
    using 1 escalate_task_effect [OF inv 2(1) assms(4) 2(2)] by blast
qed

subsection \<open>Concrete runs\<close>

definition sample_te :: tick_env where
  "sample_te = \<lparr>te_now = 9, te_nowText = [], te_num = (\<lambda>_. None), te_gate_id = (\<lambda>i. i),
     te_terminals = Some [\<lparr>tm_handle = [20], tm_connected = True, tm_writable = True\<rparr>,
                          \<lparr>tm_handle = [21], tm_connected = True, tm_writable = True\<rparr>],
     te_created = None, te_drift = (\<lambda>_. None), te_pane = (\<lambda>_. None), te_dispatch_id = (\<lambda>t. t),
     te_send_error = (\<lambda>_. None), te_while_listing = [], te_while_creating = [], te_while_probing = (\<lambda>_. []),
     te_while_sending = (\<lambda>_. []), te_between = (\<lambda>_. [])\<rparr>"

text \<open>Another client adds a task while the first prompt is sent.\<close>

definition busy_te :: tick_env where
  "busy_te = sample_te\<lparr>te_while_sending := (\<lambda>_. [CreateTask [3] 0 (plain_task [67] [])])\<rparr>"

definition sample_opts :: coord_opts where
  "sample_opts = \<lparr>co_spec = [], co_handle = [8], co_max = 1, co_worktree = None\<rparr>"

theorem concurrency_limit_witness:
  "let db = run_events db_step [CreateTask [1] 0 (plain_task [65] []), CreateTask [2] 0 (plain_task [66] [])] empty_odb
   in dispatched_count db = 0 \<and>
      int (dispatched_count (c_db (fst (tick sample_opts busy_te (new_coordinator db))))) \<le> 1"
proof -
  let ?ops = "[CreateTask [1] 0 (plain_task [65] []), CreateTask [2] 0 (plain_task [66] [])]"
  let ?db = "run_events db_step ?ops empty_odb"
  have h: "c_db (new_coordinator ?db) = run_events db_step ?ops empty_odb"
    unfolding new_coordinator_def by (rule coordinator.select_convs)
  have n: "dispatched_count ?db = 0"
    by (simp add: dispatched_count_def createTask_def Let_def empty_odb_def plain_task_def)
  have "co_max sample_opts = 1" "leaves_dispatching busy_te" by (simp_all add: sample_opts_def leaves_dispatching_def busy_te_def sample_te_def)
  then show ?thesis
    using concurrency_limit [OF h, of sample_opts busy_te] unfolding Let_def h n by simp
qed

theorem gated_tasks_are_not_sent_witness:
  "let db = run_events db_step [CreateTask [1] 0 (plain_task [65] []), CreateGate [5] 1 [1] [63] None,
         UpdateTaskStatus 2 [1] TReady None] empty_odb
   in map_option t_status (getTask [1] db) = Some TReady \<and>
      [1] \<notin> p_task ` set (c_sent (dispatchReadyTasks sample_opts sample_te
        (processDecisionGates sample_te (new_coordinator db))))"
proof -
  let ?ops = "[CreateTask [1] 0 (plain_task [65] []), CreateGate [5] 1 [1] [63] None,
         UpdateTaskStatus 2 [1] TReady None]"
  let ?db = "run_events db_step ?ops empty_odb"
  let ?c = "new_coordinator ?db"
  have h: "c_db ?c = run_events db_step ?ops empty_odb" and s: "c_sent ?c = []"
    unfolding new_coordinator_def by (rule coordinator.select_convs)+
  have st: "map_option t_status (getTask [1] ?db) = Some TReady"
    by (simp add: getTask_def createTask_def createGate_def completeActiveDispatchForTask_def active_dispatch_for_def
        updateTaskStatus_def update_task_row_def set_task_status_def Let_def empty_odb_def plain_task_def)
  have g: "[1] \<in> g_task ` set (listGates None (Some GPending) ?db)"
    by (simp add: listGates_def createTask_def createGate_def completeActiveDispatchForTask_def active_dispatch_for_def
        updateTaskStatus_def update_task_row_def set_task_status_def Let_def empty_odb_def)
  obtain ps where "c_sent (dispatchReadyTasks sample_opts sample_te (processDecisionGates sample_te ?c)) = ps"
      "p_task ` set ps \<inter> g_task ` set (listGates None (Some GPending) ?db) = {}"
    using gated_tasks_are_not_sent [OF h, of sample_opts sample_te] unfolding h s by auto
  then show ?thesis using g st unfolding Let_def by blast
qed

definition sample_task :: "jsstr \<Rightarrow> task_status \<Rightarrow> jsstr list \<Rightarrow> task_row" where
  "sample_task i st deps = \<lparr>t_id = i, t_parent = None, t_created_by = None, t_title = None, t_display = None,
     t_spec = [65], t_status = st, t_deps = json_stringify (json_strings deps), t_result = None,
     t_created_at = SqlUtc 0, t_completed_at = None\<rparr>"

lemma sample_task_sel [simp]: "t_status (sample_task i st deps) = st" "t_id (sample_task i st deps) = i"
  by (simp_all add: sample_task_def)

theorem completed_run_completed_everything_witness:
  "\<exists>c'. executeLoop sample_opts [3] 1 [([], False, sample_te)]
      (new_coordinator (empty_odb\<lparr>tasks := [sample_task [1] TCompleted []]\<rparr>)) = Some (c', Finished CCompleted []) \<and>
    list_all (\<lambda>t. t_status t = TCompleted) (tasks (c_db c'))"
proof -
  let ?c = "new_coordinator (empty_odb\<lparr>tasks := [sample_task [1] TCompleted []]\<rparr>)"
  obtain c' where h: "executeLoop sample_opts [3] 1 [([], False, sample_te)] ?c = Some (c', Finished CCompleted [])"
    by (simp add: executeLoop_def decompose_def new_coordinator_def listTasks_def task_selected_def with_db_def
        tick_def processMessages_def getUnreadMessages_def empty_odb_def processDecisionGates_def listGates_def
        dispatchReadyTasks_def checkConvergence_def task_done_def finish_def Let_def)
  show ?thesis using completed_run_completed_everything [OF h] h by blast
qed

theorem null_gate_payload_stops_every_run_witness:
  "let m = (sample_msg MDecisionGate [9])\<lparr>m_payload := Some (js ''null'')\<rparr>;
       c = new_coordinator (empty_odb\<lparr>messages := [m]\<rparr>)
   in \<exists>c'. execute_ticks sample_opts [3] [([], False, sample_te)] c = Some (c', Threw JsTypeError) \<and>
        getUnreadMessages [8] None (c_db c') = [m]"
proof -
  let ?m = "(sample_msg MDecisionGate [9])\<lparr>m_payload := Some (js ''null'')\<rparr>"
  let ?c = "new_coordinator (empty_odb\<lparr>messages := [?m]\<rparr>)"
  have o: "co_handle sample_opts = [8]" by (simp add: sample_opts_def)
  have 1: "getUnreadMessages (co_handle sample_opts) None (c_db ?c) = [?m]"
    by (simp add: o getUnreadMessages_def new_coordinator_def type_selected_def sample_msg_def
        exposeMessageTimestamps_def exposeUtcTimestamp_def)
  have 2: "m_type ?m = MDecisionGate" by (simp add: sample_msg_def)
  have 3: "m_payload ?m = Some (js ''null'')" by simp
  show ?thesis
    using null_gate_payload_stops_every_run [OF 1 2 3, of "[3]" sample_te "[]"] unfolding Let_def o .
qed

text \<open>Task 2 waits for task 1, which failed: the run never reports that it is stuck.\<close>

theorem stuck_run_never_ends_witness:
  "let c = new_coordinator (empty_odb\<lparr>tasks := [sample_task [1] TFailed [], sample_task [2] TPending [[1]]]\<rparr>)
   in execute_ticks sample_opts [3] (map (\<lambda>te. ([], False, te)) [sample_te, sample_te]) c = None"
proof -
  let ?c = "new_coordinator (empty_odb\<lparr>tasks := [sample_task [1] TFailed [], sample_task [2] TPending [[1]]]\<rparr>)"
  have 1: "getUnreadMessages (co_handle sample_opts) None (c_db ?c) = []"
    by (simp add: getUnreadMessages_def new_coordinator_def empty_odb_def)
  have 2: "listGates None (Some GPending) (c_db ?c) = []"
    by (simp add: listGates_def new_coordinator_def empty_odb_def)
  have 3: "listTasks True None (c_db ?c) = []"
    by (simp add: listTasks_def new_coordinator_def task_selected_def)
  have 4: "\<not> list_all task_done (tasks (c_db ?c))"
    by (simp add: new_coordinator_def task_done_def)
  show ?thesis unfolding Let_def by (rule stuck_run_never_ends [OF 1 2 3 4])
qed

theorem escalation_counts_against_latest_dispatch_witness:
  "let db = run_events db_step sample_ops empty_odb;
       msg = (sample_msg MEscalation [99])\<lparr>m_payload := Some (json_stringify (JObj [(js ''taskId'', JStr [1])]))\<rparr>;
       c' = fst (handleEscalation sample_te msg (new_coordinator db))
   in map_option t_status (getTask [1] db) = Some TDispatched \<and>
      map_option t_status (getTask [1] (c_db c')) = Some TReady"
proof -
  let ?db = "run_events db_step sample_ops empty_odb"
  let ?msg = "(sample_msg MEscalation [99])\<lparr>m_payload := Some (json_stringify (JObj [(js ''taskId'', JStr [1])]))\<rparr>"
  let ?c = "new_coordinator ?db"
  have 1: "c_db ?c = ?db" unfolding new_coordinator_def by (rule coordinator.select_convs)
  have 2: "names_task [1] ?msg" by (simp add: names_task_def)
  obtain task where t: "getTask [1] ?db = Some task" "t_status task = TDispatched"
    using sample_db(2) by (cases "getTask [1] ?db") auto
  have 3: "getTask [1] (c_db ?c) = Some task" using t(1) by (simp add: 1)
  have 4: "\<not> task_done task" using t(2) by (simp add: task_done_def)
  have 5: "getDispatchContext [1] (c_db ?c) = Some (new_dispatch_row [2] 1 [1] [9] None 0)"
    by (simp add: 1 getDispatchContext_def sample_db sql_last_def new_dispatch_row_def)
  obtain c' e where h: "handleEscalation sample_te ?msg ?c = (c', e)" by fastforce
  have "d_failures (new_dispatch_row [2] 1 [1] [9] None 0) = 0" by (simp add: new_dispatch_row_def)
  then have "map_option t_status (getTask [1] (c_db c')) = Some TReady"
    using escalation_counts_against_latest_dispatch [OF 1 2 3 4 5, of sample_te]
    unfolding Let_def h case_prod_conv by simp
  then show ?thesis unfolding Let_def h fst_conv using sample_db(2) by blast
qed

end
