(* ===== verification/Js_Value.thy ===== *)
theory Js_Value
  imports Utf8 Complex_Main
begin

text \<open>
  Values of unknown shape, as \<open>JSON.parse\<close> and callers hand them over, and how the code reads them.
\<close>

subsection \<open>Values\<close>

text \<open>
  What a message of unknown shape can be.  Numbers are compared and written as integers only.  An object lists
  its own keys; reading a key that is not there gives undefined.
\<close>

datatype js_value =
    VUndefined
  | VNull
  | VBool bool
  | VNum rat
  | VStr jsstr
  | VArr "js_value list"
  | VObj "(jsstr \<times> js_value) list"

definition get :: "string \<Rightarrow> js_value \<Rightarrow> js_value" where
  "get k v = (case v of VObj ms \<Rightarrow> (case map_of ms (js k) of Some x \<Rightarrow> x | None \<Rightarrow> VUndefined) | _ \<Rightarrow> VUndefined)"

text \<open>
  \<open>===\<close> for values of which one was written as a string or read from another message: two objects are
  then never the same one.
\<close>

fun strict_eq :: "js_value \<Rightarrow> js_value \<Rightarrow> bool" where
  "strict_eq (VArr _) _ = False"
| "strict_eq (VObj _) _ = False"
| "strict_eq a b = (a = b)"

definition isRecord :: "js_value \<Rightarrow> bool" where
  "isRecord v \<longleftrightarrow> (case v of VObj _ \<Rightarrow> True | _ \<Rightarrow> False)"

definition object_keys :: "js_value \<Rightarrow> jsstr list" where
  "object_keys v = (case v of VObj ms \<Rightarrow> map fst ms | _ \<Rightarrow> [])"

definition is_str :: "js_value \<Rightarrow> string \<Rightarrow> bool" where
  "is_str v s \<longleftrightarrow> strict_eq v (VStr (js s))"

lemma unat_of_char: "unat (of_char d :: jschar) = of_char d"
proof -
  have "(of_char d :: nat) < 2 ^ 16" by (rule less_trans [OF nat_of_char_less_256]) simp
  then have "unat (of_nat (of_char d) :: jschar) = of_char d" by (simp only: unat_of_nat) (simp add: take_bit_nat_eq_self)
  then show ?thesis by (simp only: of_nat_of_char)
qed


lemma js_eq_iff: "js a = js b \<longleftrightarrow> a = b"
proof
  have "inj (of_char :: char \<Rightarrow> jschar)"
    by (rule injI) (metis unat_of_char of_char_eq_iff)
  moreover assume "js a = js b"
  ultimately show "a = b" by (simp add: js_def inj_map_eq_map)
qed simp

lemma is_str_iff: "is_str v s \<longleftrightarrow> v = VStr (js s)"
  by (cases v) (auto simp: is_str_def)

lemma get_absent: "js k \<notin> set (object_keys v) \<Longrightarrow> get k v = VUndefined"
proof (cases v)
  case (VObj ms)
  assume "js k \<notin> set (object_keys v)"
  then have "map_of ms (js k) = None" using VObj by (simp add: map_of_eq_None_iff object_keys_def)
  then show ?thesis by (simp add: get_def VObj)
qed (simp_all add: get_def)

lemma strict_eq_iff: "strict_eq a b \<longleftrightarrow> a = b \<and> (\<forall>vs. a \<noteq> VArr vs) \<and> (\<forall>ms. a \<noteq> VObj ms)"
  by (cases a) auto

end
