(* ===== verification/Git_Exec.thy ===== *)
theory Git_Exec
  imports Js_Value
begin

text \<open>
  The relay's validator of \<open>git.exec\<close> arguments, \<open>src/relay/git-exec-validator.ts\<close>.  An accepted argument list
  is \<open>Inr ()\<close>, a rejection \<open>Inl\<close> of the error's message.
\<close>

type_synonym verdict = "jsstr + unit"

definition reject :: "string \<Rightarrow> verdict" where
  "reject msg = Inl (js msg)"

text \<open>The checks run in sequence; the first rejection is the result.\<close>

fun and_then :: "verdict \<Rightarrow> verdict \<Rightarrow> verdict" where
  "and_then (Inl e) _ = Inl e"
| "and_then (Inr _) v = v"

definition check :: "bool \<Rightarrow> string \<Rightarrow> verdict" where
  "check ok msg = (if ok then Inr () else reject msg)"

definition ALLOWED_GIT_SUBCOMMANDS :: "jsstr list" where
  "ALLOWED_GIT_SUBCOMMANDS = map js
     [''rev-parse'', ''branch'', ''log'', ''show-ref'', ''ls-remote'', ''remote'', ''symbolic-ref'', ''merge-base'', ''diff'',
      ''ls-files'', ''clone'', ''init'', ''commit'', ''for-each-ref'', ''check-ref-format'', ''config'']"

definition CONFIG_READ_ONLY_FLAGS :: "jsstr list" where
  "CONFIG_READ_ONLY_FLAGS = map js [''--get'', ''--get-all'', ''--list'', ''--get-regexp'', ''-l'']"

definition CONFIG_WRITE_FLAGS :: "jsstr list" where
  "CONFIG_WRITE_FLAGS = map js
     [''--add'', ''--unset'', ''--unset-all'', ''--replace-all'', ''--rename-section'', ''--remove-section'', ''--edit'', ''-e'',
      ''--file'', ''-f'', ''--global'', ''--system'']"

definition BRANCH_DESTRUCTIVE_FLAGS :: "jsstr list" where
  "BRANCH_DESTRUCTIVE_FLAGS = map js [''-d'', ''-D'', ''--delete'', ''-m'', ''-M'', ''--move'', ''-c'', ''-C'', ''--copy'']"

definition GLOBAL_DENIED_FLAGS :: "jsstr list" where
  "GLOBAL_DENIED_FLAGS = map js [''--output'', ''-o'', ''--exec-path'', ''--work-tree'', ''--git-dir'']"

definition REMOTE_WRITE_SUBCOMMANDS :: "jsstr list" where
  "REMOTE_WRITE_SUBCOMMANDS = map js
     [''add'', ''remove'', ''rm'', ''rename'', ''set-head'', ''set-branches'', ''set-url'', ''prune'', ''update'']"

definition SYMBOLIC_REF_WRITE_FLAGS :: "jsstr list" where
  "SYMBOLIC_REF_WRITE_FLAGS = map js [''-d'', ''--delete'', ''-m'']"

definition DIFF_ALLOWED_FLAGS :: "jsstr list" where
  "DIFF_ALLOWED_FLAGS = map js
     [''--cached'', ''--staged'', ''--name-status'', ''--patch'', ''--minimal'', ''--no-color'', ''--no-ext-diff'']"

text \<open>A leading dash: \<open>startsWith('-')\<close>.\<close>

definition dashed :: "jsstr \<Rightarrow> bool" where
  "dashed a = starts_with (js ''-'') a"

definition safe_segment :: "jsstr \<Rightarrow> bool" where
  "safe_segment d \<longleftrightarrow> d \<noteq> [] \<and> d \<noteq> js ''.'' \<and> d \<noteq> js ''..'' \<and> 47 \<notin> set d \<and> 92 \<notin> set d \<and> 0 \<notin> set d"

definition validateCloneArgs :: "jsstr list \<Rightarrow> verdict" where
  "validateCloneArgs args =
     (let allowed = (if length args > 1 \<and> args ! 1 = js ''--progress'' then drop 2 args else drop 1 args)
      in if length allowed \<noteq> 3 \<or> allowed ! 0 \<noteq> js ''--''
         then reject ''git clone via exec is restricted to clone [--progress] -- <url> <dir>''
         else check (safe_segment (allowed ! 2)) ''git clone target directory must be a single safe path segment'')"

definition validateInitArgs :: "jsstr list \<Rightarrow> verdict" where
  "validateInitArgs args = check (length args = 1) ''git init via exec is restricted to init with no arguments''"

definition validateCommitArgs :: "jsstr list \<Rightarrow> verdict" where
  "validateCommitArgs args =
     check (length args = 4 \<and> args ! 1 = js ''--allow-empty'' \<and> args ! 2 = js ''-m'' \<and> args ! 3 \<noteq> [])
       ''git commit via exec is restricted to commit --allow-empty -m <message>''"

definition matchesDeniedFlag :: "jsstr \<Rightarrow> jsstr list \<Rightarrow> bool" where
  "matchesDeniedFlag arg denied \<longleftrightarrow>
     arg \<in> set denied \<or>
     (case index_of 61 arg of None \<Rightarrow> False | Some i \<Rightarrow> i > 0 \<and> take i arg \<in> set denied)"

definition validate_config :: "jsstr list \<Rightarrow> verdict" where
  "validate_config rest = and_then
     (check (\<exists>a \<in> set rest. a \<in> set CONFIG_READ_ONLY_FLAGS)
        ''git config is restricted to read-only operations (--get, --list, etc.)'')
     (check (\<not> (\<exists>a \<in> set rest. matchesDeniedFlag a CONFIG_WRITE_FLAGS))
        ''git config write operations are not allowed via exec'')"

definition validate_branch :: "jsstr list \<Rightarrow> verdict" where
  "validate_branch rest =
     check (\<not> (\<exists>a \<in> set rest. matchesDeniedFlag a BRANCH_DESTRUCTIVE_FLAGS))
       ''Destructive git branch flags are not allowed via exec''"

definition validate_remote :: "jsstr list \<Rightarrow> verdict" where
  "validate_remote rest =
     (let sub = find (\<lambda>a. \<not> dashed a) rest
      in check (\<not> (truthy sub \<and> the sub \<in> set REMOTE_WRITE_SUBCOMMANDS))
           ''Destructive git remote operations are not allowed via exec'')"

definition validate_symbolic_ref :: "jsstr list \<Rightarrow> verdict" where
  "validate_symbolic_ref rest = and_then
     (check (\<not> (\<exists>a \<in> set rest. matchesDeniedFlag a SYMBOLIC_REF_WRITE_FLAGS))
        ''git symbolic-ref write operations are not allowed via exec'')
     (check (length (filter (\<lambda>a. \<not> dashed a) rest) < 2)
        ''git symbolic-ref write operations are not allowed via exec'')"

text \<open>An empty argument is falsy and so is not reported as unsupported when it is the first one found.\<close>

definition validate_diff :: "jsstr list \<Rightarrow> verdict" where
  "validate_diff rest = and_then
     (check (\<exists>a \<in> set rest. a = js ''--cached'' \<or> a = js ''--staged'')
        ''git diff via exec is restricted to staged changes'')
     (let unsupported = find (\<lambda>a. a \<notin> set DIFF_ALLOWED_FLAGS) rest
      in if truthy unsupported then Inl (js ''git diff flag not allowed via exec: '' @ the unsupported) else Inr ())"

definition when_sub :: "jsstr \<Rightarrow> string \<Rightarrow> verdict \<Rightarrow> verdict" where
  "when_sub sub name v = (if sub = js name then v else Inr ())"

definition validateGitExecArgs :: "jsstr list \<Rightarrow> verdict" where
  "validateGitExecArgs args =
     (if length (takeWhile dashed args) > 0 then reject ''Global git flags before the subcommand are not allowed''
      else case args of
        [] \<Rightarrow> reject ''git subcommand not allowed: (empty)''
      | sub # rest \<Rightarrow>
          if sub = [] \<or> sub \<notin> set ALLOWED_GIT_SUBCOMMANDS then Inl (js ''git subcommand not allowed: '' @ sub)
          else if \<exists>a \<in> set rest. matchesDeniedFlag a GLOBAL_DENIED_FLAGS
          then reject ''Dangerous git flags are not allowed via exec''
          else and_then (when_sub sub ''config'' (validate_config rest))
              (and_then (when_sub sub ''init'' (validateInitArgs args))
              (and_then (when_sub sub ''commit'' (validateCommitArgs args))
              (and_then (when_sub sub ''branch'' (validate_branch rest))
              (and_then (when_sub sub ''remote'' (validate_remote rest))
              (and_then (when_sub sub ''symbolic-ref'' (validate_symbolic_ref rest))
              (and_then (when_sub sub ''diff'' (validate_diff rest))
                        (when_sub sub ''clone'' (validateCloneArgs args)))))))))"

subsection \<open>What is let through\<close>

text \<open>
  The command lines the relay means to allow, written down on their own: which words are reading commands, which options
  each of them is never given, alone or with a value, and which commands take one fixed shape only.
\<close>

definition is_word :: "string list \<Rightarrow> jsstr \<Rightarrow> bool" where
  "is_word names a \<longleftrightarrow> a \<in> js ` set names"

definition gives :: "string list \<Rightarrow> jsstr \<Rightarrow> bool" where
  "gives names a \<longleftrightarrow> (\<exists>n \<in> set names. a = js n \<or> (\<exists>value. a = js n @ js ''='' @ value))"

definition is_option :: "jsstr \<Rightarrow> bool" where
  "is_option a \<longleftrightarrow> (\<exists>name. a = js ''-'' @ name)"

text \<open>A new entry of the directory the command runs in: no separator, no terminator, not the directory or its parent.\<close>

definition names_entry :: "jsstr \<Rightarrow> bool" where
  "names_entry dir \<longleftrightarrow> \<not> is_word [[], ''.'', ''..''] dir \<and> (\<forall>c \<in> set dir. c \<noteq> 0x2F \<and> c \<noteq> 0x5C \<and> c \<noteq> 0)"

definition reads_only :: "jsstr list \<Rightarrow> bool" where
  "reads_only args \<longleftrightarrow> (\<exists>command rest. args = command # rest \<and>
     (is_word [''rev-parse'', ''log'', ''show-ref'', ''ls-remote'', ''merge-base'', ''ls-files'', ''for-each-ref'', ''check-ref-format''] command \<or>
      command = js ''branch'' \<and>
        (\<forall>a \<in> set rest. \<not> gives [''-d'', ''-D'', ''--delete'', ''-m'', ''-M'', ''--move'', ''-c'', ''-C'', ''--copy''] a) \<or>
      command = js ''remote'' \<and>
        (\<forall>opts a others. rest = opts @ a # others \<and> list_all is_option opts \<and> \<not> is_option a \<longrightarrow>
           \<not> is_word [''add'', ''remove'', ''rm'', ''rename'', ''set-head'', ''set-branches'', ''set-url'', ''prune'', ''update''] a) \<or>
      command = js ''symbolic-ref'' \<and>
        (\<forall>a \<in> set rest. \<not> gives [''-d'', ''--delete'', ''-m''] a) \<and> length (filter (\<lambda>a. \<not> is_option a) rest) \<le> 1 \<or>
      command = js ''config'' \<and>
        (\<exists>a \<in> set rest. is_word [''--get'', ''--get-all'', ''--get-regexp'', ''--list'', ''-l''] a) \<and>
        (\<forall>a \<in> set rest. \<not> gives [''--add'', ''--unset'', ''--unset-all'', ''--replace-all'', ''--rename-section'', ''--remove-section'',
           ''--edit'', ''-e'', ''--file'', ''-f'', ''--global'', ''--system''] a) \<or>
      command = js ''diff'' \<and>
        (\<exists>a \<in> set rest. is_word [''--cached'', ''--staged''] a) \<and>
        (\<forall>a \<in> set rest. is_word [''--cached'', ''--staged'', ''--name-status'', ''--patch'', ''--minimal'', ''--no-color'', ''--no-ext-diff''] a)))"

text \<open>Setting a project up: the only command lines that write, and then only below the directory they run in.\<close>

definition sets_up_project :: "jsstr list \<Rightarrow> bool" where
  "sets_up_project args \<longleftrightarrow>
     args = [js ''init''] \<or>
     (\<exists>message. message \<noteq> [] \<and> args = map js [''commit'', ''--allow-empty'', ''-m''] @ [message]) \<or>
     (\<exists>url dir. names_entry dir \<and>
        (args = map js [''clone'', ''--''] @ [url, dir] \<or> args = map js [''clone'', ''--progress'', ''--''] @ [url, dir]))"

definition permitted :: "jsstr list \<Rightarrow> bool" where
  "permitted args \<longleftrightarrow>
     (reads_only args \<or> sets_up_project args) \<and>
     (\<forall>a \<in> set (tl args). \<not> gives [''--output'', ''-o'', ''--exec-path'', ''--work-tree'', ''--git-dir''] a)"

lemma dashed_option: "dashed = is_option"
  by (auto simp: fun_eq_iff dashed_def is_option_def elim: starts_withE)

lemma segment_entry: "safe_segment = names_entry"
  by (auto simp: fun_eq_iff safe_segment_def names_entry_def is_word_def)

lemma is_word_js: "is_word names (js a) \<longleftrightarrow> a \<in> set names"
  by (auto simp: is_word_def js_eq_iff)

lemma matches_iff_gives:
  assumes "flags = map js names" "\<forall>n \<in> set names. n \<noteq> [] \<and> 61 \<notin> set (js n)"
  shows "matchesDeniedFlag a flags \<longleftrightarrow> gives names a"
proof
  assume "matchesDeniedFlag a flags"
  then consider "a \<in> js ` set names" | i where "index_of 61 a = Some i" "take i a \<in> js ` set names"
    using assms(1) by (auto simp: matchesDeniedFlag_def split: option.splits)
  then show "gives names a"
  proof cases
    case 2
    then obtain n where n: "n \<in> set names" "take i a = js n" by blast
    have "a = take i a @ 61 # drop (Suc i) a"
      using index_of_Some [of 61 a i] 2(1) by (metis id_take_nth_drop)
    then have "a = js n @ js ''='' @ drop (Suc i) a" using n(2) by (simp add: js_eval)
    then show ?thesis using n(1) unfolding gives_def by blast
  qed (auto simp: gives_def)
next
  assume "gives names a"
  then obtain n where n: "n \<in> set names" "a = js n \<or> (\<exists>v. a = js n @ 61 # v)" by (auto simp: gives_def js_eval)
  then have "js n \<noteq> []" "61 \<notin> set (js n)" using assms(2) by (auto simp: js_def)
  then show "matchesDeniedFlag a flags" using n assms(1) by (auto simp: matchesDeniedFlag_def index_of_sep)
qed

lemma and_then_ok [simp]: "and_then v w = Inr () \<longleftrightarrow> v = Inr () \<and> w = Inr ()"
  by (cases v) auto

lemma check_ok [simp]: "check b msg = Inr () \<longleftrightarrow> b"
  by (simp add: check_def reject_def)

lemma when_sub_ok [simp]: "when_sub sub name v = Inr () \<longleftrightarrow> (sub = js name \<longrightarrow> v = Inr ())"
  by (simp add: when_sub_def)

lemma find_first: "find (\<lambda>x. \<not> p x) xs = (case dropWhile p xs of [] \<Rightarrow> None | x # _ \<Rightarrow> Some x)"
  by (induction xs) auto

lemma first_non_option:
  "(\<forall>opts a others. rest = opts @ a # others \<and> list_all dashed opts \<and> \<not> dashed a \<longrightarrow> P a) \<longleftrightarrow>
   (\<forall>a \<in> set (take 1 (dropWhile dashed rest)). P a)"
proof (cases "dropWhile dashed rest")
  case Nil
  then have "\<forall>x \<in> set rest. dashed x" "take 1 (dropWhile dashed rest) = []" by simp_all
  then show ?thesis by (auto simp del: dropWhile_eq_Nil_conv)
next
  case (Cons b bs)
  have first: "rest = takeWhile dashed rest @ b # bs" using Cons by (metis takeWhile_dropWhile_id)
  have b: "\<not> dashed b" using Cons by (metis dropWhile_eq_Cons_conv)
  have "list_all dashed (takeWhile dashed rest)" by (auto simp: list_all_iff dest: set_takeWhileD)
  moreover have "dropWhile dashed (opts @ a # others) = a # others" if "list_all dashed opts" "\<not> dashed a" for opts a others
    using that by (simp add: list_all_iff dropWhile_append2)
  ultimately show ?thesis using Cons first b by (metis One_nat_def list.inject list.set_intros(1) set_ConsD take_Suc_Cons take0 empty_iff list.set(1))
qed

lemma remote_ok:
  "validate_remote rest = Inr () \<longleftrightarrow> set (take 1 (dropWhile dashed rest)) \<inter> set REMOTE_WRITE_SUBCOMMANDS = {}"
proof -
  have "[] \<notin> set REMOTE_WRITE_SUBCOMMANDS" by (simp add: REMOTE_WRITE_SUBCOMMANDS_def js_eval)
  then show ?thesis
    unfolding validate_remote_def find_first Let_def
    by (cases "dropWhile dashed rest") (auto simp del: dropWhile_eq_Nil_conv)
qed

lemma diff_ok:
  assumes "[] \<notin> set rest"
  shows "validate_diff rest = Inr () \<longleftrightarrow> (js ''--cached'' \<in> set rest \<or> js ''--staged'' \<in> set rest) \<and> set rest \<subseteq> set DIFF_ALLOWED_FLAGS"
proof -
  have "find (\<lambda>a. a \<notin> set DIFF_ALLOWED_FLAGS) rest = None \<longleftrightarrow> set rest \<subseteq> set DIFF_ALLOWED_FLAGS"
    by (auto simp: find_None_iff)
  moreover have "a \<noteq> []" if "find (\<lambda>a. a \<notin> set DIFF_ALLOWED_FLAGS) rest = Some a" for a
    using that assms unfolding find_Some_iff by (metis nth_mem)
  ultimately show ?thesis
    by (cases "find (\<lambda>a. a \<notin> set DIFF_ALLOWED_FLAGS) rest") (auto simp: validate_diff_def)
qed

lemma clone_ok:
  "validateCloneArgs (sub # rest) = Inr () \<longleftrightarrow>
   (\<exists>url dir. safe_segment dir \<and> (rest = [js ''--'', url, dir] \<or> rest = [js ''--progress'', js ''--'', url, dir]))"
proof -
  have "js ''--progress'' \<noteq> js ''--''" by (simp add: js_eval)
  then show ?thesis
    by (cases rest) (auto simp: validateCloneArgs_def Let_def reject_def length_Suc_conv eval_nat_numeral)
qed

lemma commit_ok:
  "validateCommitArgs (sub # rest) = Inr () \<longleftrightarrow> (\<exists>m. m \<noteq> [] \<and> rest = [js ''--allow-empty'', js ''-m'', m])"
  by (auto simp: validateCommitArgs_def length_Suc_conv eval_nat_numeral)

lemma allowed_not_dashed: "sub \<in> set ALLOWED_GIT_SUBCOMMANDS \<Longrightarrow> sub \<noteq> [] \<and> \<not> dashed sub"
  by (auto simp: ALLOWED_GIT_SUBCOMMANDS_def js_eval dashed_def starts_with_def)

lemma config_ok:
  "validate_config rest = Inr () \<longleftrightarrow>
   (\<exists>a \<in> set rest. a \<in> set CONFIG_READ_ONLY_FLAGS) \<and> (\<forall>a \<in> set rest. \<not> matchesDeniedFlag a CONFIG_WRITE_FLAGS)"
  by (auto simp: validate_config_def)

lemma branch_ok: "validate_branch rest = Inr () \<longleftrightarrow> (\<forall>a \<in> set rest. \<not> matchesDeniedFlag a BRANCH_DESTRUCTIVE_FLAGS)"
  by (auto simp: validate_branch_def)

lemma symbolic_ref_ok:
  "validate_symbolic_ref rest = Inr () \<longleftrightarrow>
   (\<forall>a \<in> set rest. \<not> matchesDeniedFlag a SYMBOLIC_REF_WRITE_FLAGS) \<and> length (filter (\<lambda>a. \<not> dashed a) rest) \<le> 1"
  by (auto simp: validate_symbolic_ref_def)

lemma init_ok: "validateInitArgs (sub # rest) = Inr () \<longleftrightarrow> rest = []"
  by (simp add: validateInitArgs_def)

text \<open>Each check in the words of the policy.\<close>

lemma remote_policy:
  "validate_remote rest = Inr () \<longleftrightarrow>
   (\<forall>opts a others. rest = opts @ a # others \<and> list_all is_option opts \<and> \<not> is_option a \<longrightarrow>
      \<not> is_word [''add'', ''remove'', ''rm'', ''rename'', ''set-head'', ''set-branches'', ''set-url'', ''prune'', ''update''] a)"
  unfolding remote_ok dashed_option [symmetric] first_non_option by (auto simp: is_word_def REMOTE_WRITE_SUBCOMMANDS_def)

lemma diff_policy:
  "[] \<notin> set rest \<Longrightarrow> validate_diff rest = Inr () \<longleftrightarrow>
     (\<exists>a \<in> set rest. is_word [''--cached'', ''--staged''] a) \<and>
     (\<forall>a \<in> set rest. is_word [''--cached'', ''--staged'', ''--name-status'', ''--patch'', ''--minimal'', ''--no-color'', ''--no-ext-diff''] a)"
  by (auto simp: diff_ok is_word_def DIFF_ALLOWED_FLAGS_def subset_eq)

lemma validate_allowed:
  assumes "sub \<in> set ALLOWED_GIT_SUBCOMMANDS"
  shows "validateGitExecArgs (sub # rest) = Inr () \<longleftrightarrow>
    (\<forall>a \<in> set rest. \<not> matchesDeniedFlag a GLOBAL_DENIED_FLAGS) \<and>
    (sub = js ''config'' \<longrightarrow> validate_config rest = Inr ()) \<and> (sub = js ''init'' \<longrightarrow> validateInitArgs (sub # rest) = Inr ()) \<and>
    (sub = js ''commit'' \<longrightarrow> validateCommitArgs (sub # rest) = Inr ()) \<and> (sub = js ''branch'' \<longrightarrow> validate_branch rest = Inr ()) \<and>
    (sub = js ''remote'' \<longrightarrow> validate_remote rest = Inr ()) \<and> (sub = js ''symbolic-ref'' \<longrightarrow> validate_symbolic_ref rest = Inr ()) \<and>
    (sub = js ''diff'' \<longrightarrow> validate_diff rest = Inr ()) \<and> (sub = js ''clone'' \<longrightarrow> validateCloneArgs (sub # rest) = Inr ())"
proof -
  have nd: "sub \<noteq> []" "\<not> dashed sub" using allowed_not_dashed [OF assms] by auto
  show ?thesis
    using nd assms
    by (simp only: validateGitExecArgs_def list.case takeWhile.simps if_False list.size
        when_sub_ok and_then_ok reject_def sum.distinct simp_thms less_irrefl split: if_split)
      blast
qed

lemma global_policy: "matchesDeniedFlag a GLOBAL_DENIED_FLAGS \<longleftrightarrow> gives [''--output'', ''-o'', ''--exec-path'', ''--work-tree'', ''--git-dir''] a"
  by (rule matches_iff_gives [OF GLOBAL_DENIED_FLAGS_def]) (simp add: js_eval)

lemma branch_policy:
  "validate_branch rest = Inr () \<longleftrightarrow>
     (\<forall>a \<in> set rest. \<not> gives [''-d'', ''-D'', ''--delete'', ''-m'', ''-M'', ''--move'', ''-c'', ''-C'', ''--copy''] a)"
  unfolding branch_ok by (subst matches_iff_gives [OF BRANCH_DESTRUCTIVE_FLAGS_def]) (simp_all add: js_eval)

lemma symbolic_ref_policy:
  "validate_symbolic_ref rest = Inr () \<longleftrightarrow>
     (\<forall>a \<in> set rest. \<not> gives [''-d'', ''--delete'', ''-m''] a) \<and> length (filter (\<lambda>a. \<not> is_option a) rest) \<le> 1"
  unfolding symbolic_ref_ok dashed_option by (subst matches_iff_gives [OF SYMBOLIC_REF_WRITE_FLAGS_def]) (simp_all add: js_eval)

lemma config_policy:
  "validate_config rest = Inr () \<longleftrightarrow>
     (\<exists>a \<in> set rest. is_word [''--get'', ''--get-all'', ''--get-regexp'', ''--list'', ''-l''] a) \<and>
     (\<forall>a \<in> set rest. \<not> gives [''--add'', ''--unset'', ''--unset-all'', ''--replace-all'', ''--rename-section'', ''--remove-section'',
        ''--edit'', ''-e'', ''--file'', ''-f'', ''--global'', ''--system''] a)"
proof -
  have "a \<in> set CONFIG_READ_ONLY_FLAGS \<longleftrightarrow> is_word [''--get'', ''--get-all'', ''--get-regexp'', ''--list'', ''-l''] a" for a
    by (auto simp: is_word_def CONFIG_READ_ONLY_FLAGS_def)
  then show ?thesis
    unfolding config_ok by (subst matches_iff_gives [OF CONFIG_WRITE_FLAGS_def]) (simp_all add: js_eval)
qed

lemma reads_only_checks:
  "[] \<notin> set rest \<Longrightarrow> reads_only (command # rest) \<longleftrightarrow>
     is_word [''rev-parse'', ''log'', ''show-ref'', ''ls-remote'', ''merge-base'', ''ls-files'', ''for-each-ref'', ''check-ref-format''] command \<or>
     command = js ''branch'' \<and> validate_branch rest = Inr () \<or> command = js ''remote'' \<and> validate_remote rest = Inr () \<or>
     command = js ''symbolic-ref'' \<and> validate_symbolic_ref rest = Inr () \<or> command = js ''config'' \<and> validate_config rest = Inr () \<or>
     command = js ''diff'' \<and> validate_diff rest = Inr ()"
  unfolding reads_only_def branch_policy remote_policy symbolic_ref_policy config_policy
  by (simp only: diff_policy list.inject ex_simps conj_assoc ex_disj_distrib simp_thms HOL.ex_simps)

lemma sets_up_checks:
  "sets_up_project (command # rest) \<longleftrightarrow>
     command = js ''init'' \<and> validateInitArgs (command # rest) = Inr () \<or>
     command = js ''commit'' \<and> validateCommitArgs (command # rest) = Inr () \<or>
     command = js ''clone'' \<and> validateCloneArgs (command # rest) = Inr ()"
  unfolding sets_up_project_def init_ok commit_ok clone_ok segment_entry by auto

lemmas validator_defs = validateGitExecArgs_def and_then.simps check_def when_sub_def reject_def validate_config_def
  validate_diff_def ALLOWED_GIT_SUBCOMMANDS_def CONFIG_READ_ONLY_FLAGS_def CONFIG_WRITE_FLAGS_def
  GLOBAL_DENIED_FLAGS_def DIFF_ALLOWED_FLAGS_def matchesDeniedFlag_def dashed_def starts_with_def Let_def

text \<open>One check per command: the two ways to say which.\<close>

lemma command_table:
  "n \<in> set [''rev-parse'', ''branch'', ''log'', ''show-ref'', ''ls-remote'', ''remote'', ''symbolic-ref'', ''merge-base'', ''diff'',
      ''ls-files'', ''clone'', ''init'', ''commit'', ''for-each-ref'', ''check-ref-format'', ''config''] \<Longrightarrow>
   (n \<in> set [''rev-parse'', ''log'', ''show-ref'', ''ls-remote'', ''merge-base'', ''ls-files'', ''for-each-ref'', ''check-ref-format''] \<or>
    n = ''branch'' \<and> Vb \<or> n = ''remote'' \<and> Vr \<or> n = ''symbolic-ref'' \<and> Vs \<or> n = ''config'' \<and> Vc \<or> n = ''diff'' \<and> Vd) \<or>
    n = ''init'' \<and> Vi \<or> n = ''commit'' \<and> Vm \<or> n = ''clone'' \<and> Vl \<longleftrightarrow>
   (n = ''config'' \<longrightarrow> Vc) \<and> (n = ''init'' \<longrightarrow> Vi) \<and> (n = ''commit'' \<longrightarrow> Vm) \<and> (n = ''branch'' \<longrightarrow> Vb) \<and>
   (n = ''remote'' \<longrightarrow> Vr) \<and> (n = ''symbolic-ref'' \<longrightarrow> Vs) \<and> (n = ''diff'' \<longrightarrow> Vd) \<and> (n = ''clone'' \<longrightarrow> Vl)"
  unfolding list.set insert_iff empty_iff by (elim disjE FalseE) (hypsubst, simp)+

lemma commands_allowed:
  assumes "[] \<notin> set rest" and "reads_only (command # rest) \<or> sets_up_project (command # rest)"
  shows "command \<in> set ALLOWED_GIT_SUBCOMMANDS"
proof -
  let ?names = "[''rev-parse'', ''branch'', ''log'', ''show-ref'', ''ls-remote'', ''remote'', ''symbolic-ref'', ''merge-base'', ''diff'',
      ''ls-files'', ''clone'', ''init'', ''commit'', ''for-each-ref'', ''check-ref-format'', ''config'']"
  have eq: "set ALLOWED_GIT_SUBCOMMANDS = js ` set ?names" by (simp only: ALLOWED_GIT_SUBCOMMANDS_def set_map)
  have readers: "is_word [''rev-parse'', ''log'', ''show-ref'', ''ls-remote'', ''merge-base'', ''ls-files'', ''for-each-ref'', ''check-ref-format''] command \<Longrightarrow>
      command \<in> js ` set ?names"
    unfolding is_word_def by (erule rev_subsetD) (rule image_mono, simp)
  have "command \<in> js ` set ?names"
    if "command = js ''branch'' \<or> command = js ''remote'' \<or> command = js ''symbolic-ref'' \<or> command = js ''config'' \<or>
      command = js ''diff'' \<or> command = js ''init'' \<or> command = js ''commit'' \<or> command = js ''clone''"
    using that by (elim disjE) (hypsubst, rule imageI, simp)+
  then show ?thesis
    using assms(2) readers unfolding eq reads_only_checks [OF assms(1)] sets_up_checks by blast
qed

text \<open>
  C36: The validator accepts exactly the command lines of a policy written down on its own (\<open>permitted\<close>), for argument
  lists without an empty argument: the reading commands, without the options listed there for each of them, and the three
  fixed ways to set a project up.  (That git has further options of the kind is shown below.)
\<close>

theorem validator_accepts_exactly:
  assumes "[] \<notin> set args"
  shows "validateGitExecArgs args = Inr () \<longleftrightarrow> permitted args"
proof (cases args)
  case Nil
  then show ?thesis by (simp add: validateGitExecArgs_def permitted_def reads_only_def sets_up_project_def reject_def)
next
  case (Cons sub rest)
  have rest: "[] \<notin> set rest" using assms Cons by simp
  show ?thesis
  proof (cases "sub \<in> set ALLOWED_GIT_SUBCOMMANDS")
    case True
    then obtain n where n: "sub = js n"
        "n \<in> set [''rev-parse'', ''branch'', ''log'', ''show-ref'', ''ls-remote'', ''remote'', ''symbolic-ref'', ''merge-base'', ''diff'',
      ''ls-files'', ''clone'', ''init'', ''commit'', ''for-each-ref'', ''check-ref-format'', ''config'']"
      unfolding ALLOWED_GIT_SUBCOMMANDS_def set_map by (rule imageE)
    have checks: "reads_only (sub # rest) \<or> sets_up_project (sub # rest) \<longleftrightarrow>
      (sub = js ''config'' \<longrightarrow> validate_config rest = Inr ()) \<and> (sub = js ''init'' \<longrightarrow> validateInitArgs (sub # rest) = Inr ()) \<and>
      (sub = js ''commit'' \<longrightarrow> validateCommitArgs (sub # rest) = Inr ()) \<and> (sub = js ''branch'' \<longrightarrow> validate_branch rest = Inr ()) \<and>
      (sub = js ''remote'' \<longrightarrow> validate_remote rest = Inr ()) \<and> (sub = js ''symbolic-ref'' \<longrightarrow> validate_symbolic_ref rest = Inr ()) \<and>
      (sub = js ''diff'' \<longrightarrow> validate_diff rest = Inr ()) \<and> (sub = js ''clone'' \<longrightarrow> validateCloneArgs (sub # rest) = Inr ())"
      unfolding reads_only_checks [OF rest] sets_up_checks n(1) is_word_js js_eq_iff by (rule command_table [OF n(2)])
    show ?thesis
      unfolding Cons validate_allowed [OF True] permitted_def list.sel global_policy checks by (rule conj_commute)
  next
    case False
    then have "\<not> (reads_only (sub # rest) \<or> sets_up_project (sub # rest))" using commands_allowed [OF rest] by blast
    moreover have "validateGitExecArgs (sub # rest) \<noteq> Inr ()" using False by (simp add: validateGitExecArgs_def reject_def)
    ultimately show ?thesis unfolding Cons permitted_def by blast
  qed
qed

lemma validator_accepts_exactly_witness:
  "permitted (map js [''config'', ''--list'']) \<and> \<not> permitted (map js [''config'', ''--list'', ''--file=x''])"
  using validator_accepts_exactly [of "map js [''config'', ''--list'']"] validator_accepts_exactly [of "map js [''config'', ''--list'', ''--file=x'']"]
  by (simp add: validator_defs js_eval)

subsection \<open>What slips through\<close>

text \<open>
  The denied flags are matched as whole words or up to an equals sign.  Git also reads a short option with its
  value attached, abbreviated long options, and options the lists do not name; an empty argument ends the
  search for unsupported \<open>diff\<close> arguments.
\<close>

lemma attached_file_flag_accepted:
  "validateGitExecArgs [js ''config'', js ''--list'', js ''-f/etc/passwd''] = Inr ()"
  by (simp add: validator_defs js_eval)

lemma upload_pack_accepted:
  "validateGitExecArgs [js ''ls-remote'', js ''--upload-pack=sh'', js ''.''] = Inr ()"
  by (simp add: validator_defs js_eval)

lemma abbreviated_output_accepted:
  "validateGitExecArgs [js ''log'', js ''--outpu=x''] = Inr ()"
  by (simp add: validator_defs js_eval)

lemma empty_argument_hides_the_rest:
  "validateGitExecArgs [js ''diff'', js ''--cached'', [], js ''--no-index'', js ''/etc/passwd''] = Inr ()"
  by (simp add: validator_defs js_eval)

lemma denied_flag_rejected:
  "validateGitExecArgs [js ''config'', js ''--list'', js ''--file=x''] = Inl (js ''git config write operations are not allowed via exec'')"
  by (simp add: validator_defs js_eval)

end
