(* ===== verification/Tab_Layout.thy ===== *)
theory Tab_Layout
  imports Complex_Main Contracts "HOL-Library.Multiset"
begin

text \<open>
  Split layouts of the headless host: tab groups, \<open>src/main/runtime/headless-tab-group-split-layout.ts\<close>, and the
  panes of a terminal tab, \<open>src/main/runtime/headless-terminal-split-layout.ts\<close>.  Both keep a binary tree whose
  leaves carry ids; a tree that may be \<open>null\<close> or \<open>undefined\<close> is an option.
\<close>

subsection \<open>Trees\<close>

datatype split_axis = Horizontal | Vertical

datatype layout_node = Leaf_Node jsstr | Split_Node split_axis layout_node layout_node "rat option"

datatype split_direction = Split_Left | Split_Right | Split_Up | Split_Down

datatype split_position = First | Second

definition buildSplitNode :: "jsstr \<Rightarrow> jsstr \<Rightarrow> split_axis \<Rightarrow> split_position \<Rightarrow> layout_node" where
  "buildSplitNode existing new axis pos =
     Split_Node axis (Leaf_Node (if pos = First then new else existing))
       (Leaf_Node (if pos = Second then new else existing)) (Some (1 / 2))"

fun replaceLeaf :: "layout_node \<Rightarrow> jsstr \<Rightarrow> layout_node \<Rightarrow> layout_node" where
  "replaceLeaf (Leaf_Node g) target r = (if g = target then r else Leaf_Node g)"
| "replaceLeaf (Split_Node ax a b ratio) target r =
     Split_Node ax (replaceLeaf a target r) (replaceLeaf b target r) ratio"

text \<open>A \<open>Set\<close> is the list of its elements in insertion order.\<close>

definition set_add :: "'a \<Rightarrow> 'a list \<Rightarrow> 'a list" where
  "set_add x xs = (if x \<in> set xs then xs else xs @ [x])"

fun collect_node :: "layout_node \<Rightarrow> jsstr list \<Rightarrow> jsstr list" where
  "collect_node (Leaf_Node g) ids = set_add g ids"
| "collect_node (Split_Node ax a b ratio) ids = collect_node b (collect_node a ids)"

definition collectTabGroupLayoutGroupIds :: "layout_node option \<Rightarrow> jsstr list \<Rightarrow> jsstr list" where
  "collectTabGroupLayoutGroupIds n ids = (case n of None \<Rightarrow> ids | Some t \<Rightarrow> collect_node t ids)"

fun remove_node :: "layout_node \<Rightarrow> jsstr \<Rightarrow> layout_node option" where
  "remove_node (Leaf_Node g) gid = (if g = gid then None else Some (Leaf_Node g))"
| "remove_node (Split_Node ax a b ratio) gid =
     (case remove_node a gid of
        None \<Rightarrow> remove_node b gid
      | Some a' \<Rightarrow> (case remove_node b gid of None \<Rightarrow> Some a' | Some b' \<Rightarrow> Some (Split_Node ax a' b' ratio)))"

definition removeTabGroupLayoutLeaf :: "layout_node option \<Rightarrow> jsstr \<Rightarrow> layout_node option" where
  "removeTabGroupLayoutLeaf n gid = (case n of None \<Rightarrow> None | Some t \<Rightarrow> remove_node t gid)"

text \<open>The loop that collapses the groups that are gone out of the layout.\<close>

definition prune_layout :: "jsstr list \<Rightarrow> layout_node option \<Rightarrow> layout_node option" where
  "prune_layout live layout =
     foldl (\<lambda>l g. if g \<in> set live then l else removeTabGroupLayoutLeaf l g) layout
       (collectTabGroupLayoutGroupIds layout [])"

subsection \<open>Tab groups\<close>

record tab_group =
  tg_id :: jsstr
  tg_active :: "jsstr option"
  tg_order :: "jsstr list"
  tg_recent :: "jsstr list option"

definition first_tab :: "jsstr list \<Rightarrow> jsstr option" where
  "first_tab order = (case order of [] \<Rightarrow> None | t # _ \<Rightarrow> Some t)"

definition without :: "jsstr \<Rightarrow> jsstr list \<Rightarrow> jsstr list" where
  "without tab order = filter (\<lambda>t. t \<noteq> tab) order"

text \<open>The source group without the tab; the next active tab is the first one left.\<close>

definition leave_group :: "jsstr \<Rightarrow> tab_group \<Rightarrow> tab_group" where
  "leave_group tab g =
     g\<lparr>tg_order := without tab (tg_order g),
       tg_active := (if tg_active g = Some tab then first_tab (without tab (tg_order g)) else tg_active g)\<rparr>"

definition join_group :: "jsstr \<Rightarrow> int option \<Rightarrow> tab_group \<Rightarrow> tab_group" where
  "join_group tab index g =
     (let order = without tab (tg_order g);
          n = int (length order);
          pos = max 0 (min (case index of None \<Rightarrow> n | Some i \<Rightarrow> i) n)
      in g\<lparr>tg_order := insert_at (nat pos) tab order, tg_active := Some tab\<rparr>)"

definition buildHeadlessTabGroupMove ::
    "tab_group list \<Rightarrow> layout_node option \<Rightarrow> jsstr \<Rightarrow> jsstr \<Rightarrow> int option \<Rightarrow> (tab_group list \<times> layout_node option) option" where
  "buildHeadlessTabGroupMove groups layout tabId targetGroupId index =
     (case (find (\<lambda>g. tabId \<in> set (tg_order g)) groups, find (\<lambda>g. tg_id g = targetGroupId) groups) of
        (Some source, Some target) \<Rightarrow>
          if tg_id source = targetGroupId then None
          else let gs = map (\<lambda>g. if tg_id g = tg_id source then leave_group tabId g
                                 else if tg_id g = targetGroupId then join_group tabId index g else g) groups;
                   live = filter (\<lambda>g. tg_order g \<noteq> []) gs
               in Some (live, prune_layout (map tg_id live) layout)
      | _ \<Rightarrow> None)"

definition split_axis_of :: "split_direction \<Rightarrow> split_axis" where
  "split_axis_of d = (if d = Split_Left \<or> d = Split_Right then Horizontal else Vertical)"

definition split_position_of :: "split_direction \<Rightarrow> split_position" where
  "split_position_of d = (if d = Split_Left \<or> d = Split_Up then First else Second)"

definition buildHeadlessTabGroupSplit ::
    "tab_group list \<Rightarrow> layout_node option \<Rightarrow> jsstr \<Rightarrow> jsstr \<Rightarrow> split_direction \<Rightarrow> jsstr \<Rightarrow>
     (tab_group list \<times> layout_node \<times> jsstr) option" where
  "buildHeadlessTabGroupSplit groups layout tabId targetGroupId dir newGroupId =
     (case find (\<lambda>g. tabId \<in> set (tg_order g)) groups of
        None \<Rightarrow> None
      | Some source \<Rightarrow>
          if tg_id source = targetGroupId \<and> length (tg_order source) \<le> 1 then None
          else let base = (case layout of None \<Rightarrow> Leaf_Node targetGroupId | Some l \<Rightarrow> l);
                   l' = replaceLeaf base targetGroupId
                          (buildSplitNode targetGroupId newGroupId (split_axis_of dir) (split_position_of dir));
                   sourceOrder = without tabId (tg_order source);
                   gs = map (\<lambda>g. if tg_id g = tg_id source
                                 then g\<lparr>tg_order := sourceOrder,
                                        tg_active := (if tg_active g = Some tabId then first_tab sourceOrder else tg_active g)\<rparr>
                                 else g) groups @
                        [\<lparr>tg_id = newGroupId, tg_active = Some tabId, tg_order = [tabId], tg_recent = None\<rparr>];
                   live = filter (\<lambda>g. tg_order g \<noteq> []) gs
               in Some (live,
                        case prune_layout (map tg_id live) (Some l') of None \<Rightarrow> Leaf_Node newGroupId | Some p \<Rightarrow> p,
                        newGroupId))"

subsection \<open>Terminal panes\<close>

record terminal_layout =
  tl_root :: "layout_node option"
  tl_active :: "jsstr option"
  tl_expanded :: "jsstr option"
  tl_ptys :: "(jsstr \<times> jsstr) list"
  tl_buffers :: "(jsstr \<times> jsstr) list option"
  tl_scrollback :: "(jsstr \<times> jsstr) list option"
  tl_titles :: "(jsstr \<times> jsstr) list option"

fun insertSplit :: "jsstr \<Rightarrow> jsstr \<Rightarrow> split_axis \<Rightarrow> layout_node \<Rightarrow> layout_node" where
  "insertSplit from new ax (Leaf_Node l) =
     (if l \<noteq> from then Leaf_Node l else Split_Node ax (Leaf_Node l) (Leaf_Node new) None)"
| "insertSplit from new ax (Split_Node bx a b ratio) =
     Split_Node bx (insertSplit from new ax a) (insertSplit from new ax b) ratio"

text \<open>An absent snapshot has no fields: no root and no maps.\<close>

definition no_layout :: terminal_layout where
  "no_layout = \<lparr>tl_root = None, tl_active = None, tl_expanded = None, tl_ptys = [], tl_buffers = None,
     tl_scrollback = None, tl_titles = None\<rparr>"

definition buildHeadlessTerminalSplitLayout ::
    "terminal_layout option \<Rightarrow> jsstr \<Rightarrow> jsstr \<Rightarrow> jsstr \<Rightarrow> split_axis \<Rightarrow> terminal_layout" where
  "buildHeadlessTerminalSplitLayout existing leafId ptyId from ax =
     (let e = (case existing of None \<Rightarrow> no_layout | Some t \<Rightarrow> t);
          old = (case tl_root e of None \<Rightarrow> Leaf_Node from | Some r \<Rightarrow> r)
      in e\<lparr>tl_root := Some (insertSplit from leafId ax old), tl_active := Some leafId,
           tl_ptys := map_set leafId ptyId (tl_ptys e)\<rparr>)"

fun count_leaves :: "layout_node \<Rightarrow> nat" where
  "count_leaves (Leaf_Node _) = 1"
| "count_leaves (Split_Node _ a b _) = count_leaves a + count_leaves b"

definition countTerminalLayoutLeaves :: "layout_node option \<Rightarrow> nat" where
  "countTerminalLayoutLeaves n = (case n of None \<Rightarrow> 0 | Some t \<Rightarrow> count_leaves t)"

subsection \<open>Leaves\<close>

fun leaves :: "layout_node \<Rightarrow> jsstr list" where
  "leaves (Leaf_Node g) = [g]"
| "leaves (Split_Node _ a b _) = leaves a @ leaves b"

definition leaves_opt :: "layout_node option \<Rightarrow> jsstr list" where
  "leaves_opt n = (case n of None \<Rightarrow> [] | Some t \<Rightarrow> leaves t)"

lemma leaves_opt_simps [simp]: "leaves_opt None = []" "leaves_opt (Some t) = leaves t"
  by (simp_all add: leaves_opt_def)

lemma leaves_nonempty [simp]: "leaves t \<noteq> []"
  by (induction t) auto

lemma leaves_opt_empty [simp]: "leaves_opt n = [] \<longleftrightarrow> n = None"
  by (cases n) auto

lemma leaves_remove: "leaves_opt (remove_node t g) = filter (\<lambda>x. x \<noteq> g) (leaves t)"
  by (induction t) (auto split: option.splits simp: leaves_opt_def)

lemma leaves_removeLeaf [simp]: "leaves_opt (removeTabGroupLayoutLeaf n g) = filter (\<lambda>x. x \<noteq> g) (leaves_opt n)"
  by (cases n) (simp_all add: removeTabGroupLayoutLeaf_def leaves_remove)

lemma set_collect: "set (collect_node t ids) = set ids \<union> set (leaves t)"
  by (induction t arbitrary: ids) (auto simp: set_add_def)

lemma set_collect_opt: "set (collectTabGroupLayoutGroupIds n []) = set (leaves_opt n)"
  by (cases n) (simp_all add: collectTabGroupLayoutGroupIds_def set_collect)

lemma prune_fold:
  "leaves_opt (foldl (\<lambda>l g. if g \<in> set live then l else removeTabGroupLayoutLeaf l g) n gs) =
   filter (\<lambda>x. x \<in> set live \<or> x \<notin> set gs) (leaves_opt n)"
  by (induction gs arbitrary: n) (auto intro!: filter_cong)

lemma leaves_prune: "leaves_opt (prune_layout live n) = filter (\<lambda>x. x \<in> set live) (leaves_opt n)"
  by (auto simp: prune_layout_def prune_fold set_collect_opt intro!: filter_cong)

lemma leaves_replace: "leaves (replaceLeaf t g r) = concat (map (\<lambda>x. if x = g then leaves r else [x]) (leaves t))"
  by (induction t) auto

lemma leaves_insertSplit:
  "leaves (insertSplit from new ax t) = concat (map (\<lambda>x. if x = from then [x, new] else [x]) (leaves t))"
  by (induction t) auto

lemma count_leaves_length: "count_leaves t = length (leaves t)"
  by (induction t) auto

subsection \<open>The workspace invariant\<close>

text \<open>
  Each tab is in one group, no group is empty, group ids are distinct, an active tab is in its group, and the
  layout shows each group exactly once.
\<close>

definition tabs_of :: "tab_group list \<Rightarrow> jsstr list" where
  "tabs_of gs = concat (map tg_order gs)"

definition groups_ok :: "tab_group list \<Rightarrow> bool" where
  "groups_ok gs \<longleftrightarrow> distinct (map tg_id gs) \<and> distinct (tabs_of gs) \<and>
     (\<forall>g \<in> set gs. tg_order g \<noteq> [] \<and> (\<forall>t. tg_active g = Some t \<longrightarrow> t \<in> set (tg_order g)))"

definition layout_shows :: "tab_group list \<Rightarrow> layout_node option \<Rightarrow> bool" where
  "layout_shows gs n \<longleftrightarrow> distinct (leaves_opt n) \<and> set (leaves_opt n) = set (map tg_id gs)"

definition workspace_ok :: "tab_group list \<times> layout_node option \<Rightarrow> bool" where
  "workspace_ok ws \<longleftrightarrow> groups_ok (fst ws) \<and> layout_shows (fst ws) (snd ws)"

text \<open>The group a tab is in: the view a client has of the groups.\<close>

definition group_of :: "tab_group list \<Rightarrow> jsstr \<Rightarrow> jsstr option" where
  "group_of gs tab = map_option tg_id (find (\<lambda>g. tab \<in> set (tg_order g)) gs)"

lemma set_without [simp]: "set (without t xs) = set xs - {t}"
  by (auto simp: without_def)

lemma leave_group_simps [simp]: "tg_id (leave_group t g) = tg_id g" "tg_order (leave_group t g) = without t (tg_order g)"
  by (simp_all add: leave_group_def)

lemma set_insert_at [simp]: "set (insert_at i x xs) = insert x (set xs)"
  by (metis Un_insert_right append_take_drop_id insert_at_def list.simps(15) set_append)

lemma distinct_insert_at: "distinct (insert_at i x xs) \<longleftrightarrow> x \<notin> set xs \<and> distinct xs"
proof -
  have "distinct (a @ x # b) \<longleftrightarrow> x \<notin> set (a @ b) \<and> distinct (a @ b)" for a b by auto
  from this [of "take i xs" "drop i xs"] show ?thesis
    unfolding insert_at_def append_take_drop_id .
qed

lemma join_group_simps [simp]:
  "tg_id (join_group t i g) = tg_id g" "set (tg_order (join_group t i g)) = insert t (set (tg_order g))"
  "tg_active (join_group t i g) = Some t"
  "distinct (tg_order (join_group t i g)) = distinct (without t (tg_order g))"
  by (auto simp: join_group_def Let_def distinct_insert_at)

text \<open>Groups are known by their ids and their tabs: the invariant without reference to the list's order.\<close>

lemma groups_ok_iff:
  assumes "distinct (map tg_id gs)"
  shows "distinct (tabs_of gs) \<longleftrightarrow> (\<forall>g \<in> set gs. distinct (tg_order g)) \<and>
     (\<forall>g \<in> set gs. \<forall>h \<in> set gs. tg_id g \<noteq> tg_id h \<longrightarrow> set (tg_order g) \<inter> set (tg_order h) = {})"
  using assms
proof (induction gs)
  case (Cons g gs)
  have ne: "h \<in> set gs \<Longrightarrow> tg_id h \<noteq> tg_id g" for h using Cons.prems by (auto simp: image_iff)
  have "distinct (tabs_of (g # gs)) \<longleftrightarrow> distinct (tg_order g) \<and> distinct (tabs_of gs) \<and>
      (\<forall>h \<in> set gs. set (tg_order g) \<inter> set (tg_order h) = {})"
    by (auto simp: tabs_of_def)
  also have "\<dots> \<longleftrightarrow> (\<forall>h \<in> set (g # gs). distinct (tg_order h)) \<and>
     (\<forall>h \<in> set (g # gs). \<forall>k \<in> set (g # gs). tg_id h \<noteq> tg_id k \<longrightarrow> set (tg_order h) \<inter> set (tg_order k) = {})"
    using Cons.IH Cons.prems ne ne [symmetric]
    by (simp add: ball_conj_distrib Int_commute [of _ "set (tg_order g)"] cong: ball_cong) blast
  finally show ?case .
qed (simp add: tabs_of_def)

lemma group_of_eq:
  assumes "distinct (map tg_id gs)" and "distinct (tabs_of gs)" and "g \<in> set gs" and "t \<in> set (tg_order g)"
  shows "find (\<lambda>h. t \<in> set (tg_order h)) gs = Some g"
proof -
  obtain h where h: "find (\<lambda>h. t \<in> set (tg_order h)) gs = Some h" using assms(3,4) by (fastforce simp: find_None_iff)
  then have in_h: "h \<in> set gs" "t \<in> set (tg_order h)" using find_Some_in by fastforce+
  then have "tg_id h = tg_id g" using assms groups_ok_iff [OF assms(1)] by blast
  then have "h = g" using assms(1,3) in_h distinct_key_eq by metis
  then show ?thesis using h by simp
qed

lemma group_of_Some:
  "distinct (map tg_id gs) \<Longrightarrow> distinct (tabs_of gs) \<Longrightarrow>
   group_of gs t = Some i \<longleftrightarrow> (\<exists>g \<in> set gs. tg_id g = i \<and> t \<in> set (tg_order g))"
  by (auto simp: group_of_def group_of_eq dest: find_Some_in)

text \<open>
  Both operations put one tab into a target group and take it out of all others; what they owe each group is
  stated once.
\<close>

definition reassigns :: "jsstr \<Rightarrow> jsstr \<Rightarrow> (tab_group \<Rightarrow> tab_group) \<Rightarrow> tab_group \<Rightarrow> bool" where
  "reassigns tab target f g \<longleftrightarrow>
     tg_id (f g) = tg_id g \<and> distinct (tg_order (f g)) \<and>
     set (tg_order (f g)) = (if tg_id g = target then insert tab (set (tg_order g)) else set (tg_order g) - {tab}) \<and>
     (tg_order (f g) \<noteq> [] \<longrightarrow> (\<forall>t. tg_active (f g) = Some t \<longrightarrow> t \<in> set (tg_order (f g))))"

lemma reassign:
  assumes "distinct (map tg_id gs)" and "distinct (tabs_of gs)" and "target \<in> tg_id ` set gs"
    and f: "\<And>g. g \<in> set gs \<Longrightarrow> reassigns tab target f g"
  defines "gs' \<equiv> filter (\<lambda>g. tg_order g \<noteq> []) (map f gs)"
  shows "groups_ok gs'" and "group_of gs' = (group_of gs)(tab \<mapsto> target)"
    and "set (map tg_id gs') \<subseteq> set (map tg_id gs)"
proof -
  have ids: "map tg_id (map f gs) = map tg_id gs" using f by (simp add: reassigns_def)
  then have d: "distinct (map tg_id gs')" using assms(1) unfolding gs'_def by (simp only: distinct_map_filter)
  have in_gs': "g' \<in> set gs' \<longleftrightarrow> (\<exists>g \<in> set gs. g' = f g \<and> tg_order (f g) \<noteq> [])" for g'
    by (auto simp: gs'_def)
  have apart: "set (tg_order (f g)) \<inter> set (tg_order (f h)) = {}" if "g \<in> set gs" "h \<in> set gs" "tg_id g \<noteq> tg_id h" for g h
  proof -
    have "set (tg_order g) \<inter> set (tg_order h) = {}" using groups_ok_iff [OF assms(1)] assms(2) that by blast
    then show ?thesis using f [OF that(1)] f [OF that(2)] that(3) by (auto simp: reassigns_def split: if_splits)
  qed
  have d': "distinct (tabs_of gs')"
    unfolding groups_ok_iff [OF d]
  proof (intro conjI ballI impI)
    show "distinct (tg_order g')" if "g' \<in> set gs'" for g' using that f by (auto simp: in_gs' reassigns_def)
  next
    fix g' h' assume g': "g' \<in> set gs'" and h': "h' \<in> set gs'" and ne: "tg_id g' \<noteq> tg_id h'"
    obtain g h where gh: "g \<in> set gs" "g' = f g" "h \<in> set gs" "h' = f h" using g' h' by (auto simp: in_gs')
    then have "tg_id g \<noteq> tg_id h" using f [OF gh(1)] f [OF gh(3)] ne by (simp add: reassigns_def)
    then show "set (tg_order g') \<inter> set (tg_order h') = {}" using apart gh by simp
  qed
  have act: "tg_order g' \<noteq> [] \<and> (\<forall>t. tg_active g' = Some t \<longrightarrow> t \<in> set (tg_order g'))" if g': "g' \<in> set gs'" for g'
  proof -
    obtain g where g: "g \<in> set gs" "g' = f g" "tg_order (f g) \<noteq> []" using g' by (auto simp: in_gs')
    then show ?thesis using f [OF g(1), unfolded reassigns_def] by blast
  qed
  then show "groups_ok gs'" using d d' by (simp add: groups_ok_def)
  show "set (map tg_id gs') \<subseteq> set (map tg_id gs)"
  proof
    fix i assume "i \<in> set (map tg_id gs')"
    then obtain g where g: "g \<in> set gs" "i = tg_id (f g)" by (auto simp: in_gs')
    then show "i \<in> set (map tg_id gs)" using f [OF g(1), unfolded reassigns_def] by simp
  qed
  have idf: "\<And>g. g \<in> set gs \<Longrightarrow> tg_id (f g) = tg_id g"
    and setf: "\<And>g. g \<in> set gs \<Longrightarrow> set (tg_order (f g)) =
      (if tg_id g = target then insert tab (set (tg_order g)) else set (tg_order g) - {tab})"
    using f by (simp_all add: reassigns_def)
  have "group_of gs' t = Some i \<longleftrightarrow> ((group_of gs)(tab \<mapsto> target)) t = Some i" for t i
  proof -
    have "group_of gs' t = Some i \<longleftrightarrow> (\<exists>g \<in> set gs. tg_order (f g) \<noteq> [] \<and> tg_id (f g) = i \<and> t \<in> set (tg_order (f g)))"
      unfolding group_of_Some [OF d d'] by (auto simp: gs'_def)
    also have "\<dots> \<longleftrightarrow> (\<exists>g \<in> set gs. tg_id g = i \<and> t \<in> set (tg_order (f g)))"
      by (rule bex_cong [OF refl]) (auto simp: idf)
    also have "\<dots> \<longleftrightarrow> (\<exists>g \<in> set gs. tg_id g = i \<and> (if i = target then t = tab \<or> t \<in> set (tg_order g)
        else t \<noteq> tab \<and> t \<in> set (tg_order g)))"
      by (rule bex_cong [OF refl]) (auto simp: setf)
    also have "\<dots> \<longleftrightarrow> (if t = tab then i = target else group_of gs t = Some i)"
      unfolding group_of_Some [OF assms(1,2)] using assms(3) by auto
    finally show ?thesis by auto
  qed
  then show "group_of gs' = (group_of gs)(tab \<mapsto> target)"
    by (intro ext) (metis not_None_eq)
qed

lemma layout_shows_prune:
  "distinct (leaves_opt n) \<Longrightarrow> set (map tg_id gs') \<subseteq> set (leaves_opt n) \<Longrightarrow>
   layout_shows gs' (prune_layout (map tg_id gs') n)"
  by (auto simp: layout_shows_def leaves_prune)

lemma first_tab_in: "first_tab xs = Some t \<Longrightarrow> t \<in> set xs"
  by (cases xs) (auto simp: first_tab_def)

lemma leave_group_active:
  "(\<forall>t. tg_active g = Some t \<longrightarrow> t \<in> set (tg_order g)) \<Longrightarrow> tg_active (leave_group tab g) = Some t \<Longrightarrow>
   t \<in> set (tg_order g) - {tab}"
  using first_tab_in [of "without tab (tg_order g)" t] by (auto simp: leave_group_def split: if_splits)

lemma distinct_without: "distinct xs \<Longrightarrow> distinct (without t xs)"
  by (simp add: without_def)

lemma groups_ok_distinct_order: "groups_ok gs \<Longrightarrow> g \<in> set gs \<Longrightarrow> distinct (tg_order g)"
  using groups_ok_iff unfolding groups_ok_def by blast

lemma move_core:
  assumes "workspace_ok (gs, layout)" and "buildHeadlessTabGroupMove gs layout tab target index = Some (gs', layout')"
  shows "group_of gs' = (group_of gs)(tab \<mapsto> target) \<and> workspace_ok (gs', layout')"
proof -
  have ok: "groups_ok gs" and sh: "layout_shows gs layout" using assms(1) by (simp_all add: workspace_ok_def)
  note d = ok [unfolded groups_ok_def, THEN conjunct1] ok [unfolded groups_ok_def, THEN conjunct2, THEN conjunct1]
  obtain src tgt where src: "find (\<lambda>g. tab \<in> set (tg_order g)) gs = Some src" "tg_id src \<noteq> target"
    and tgt: "find (\<lambda>g. tg_id g = target) gs = Some tgt"
    and gs': "gs' = filter (\<lambda>g. tg_order g \<noteq> []) (map (\<lambda>g. if tg_id g = tg_id src then leave_group tab g
                 else if tg_id g = target then join_group tab index g else g) gs)"
    and l': "layout' = prune_layout (map tg_id gs') layout"
    using assms(2) by (auto simp: buildHeadlessTabGroupMove_def Let_def split: option.splits if_splits)
  have re: "reassigns tab target (\<lambda>g. if tg_id g = tg_id src then leave_group tab g
                 else if tg_id g = target then join_group tab index g else g) g" if g: "g \<in> set gs" for g
  proof -
    have only: "tab \<in> set (tg_order g) \<Longrightarrow> g = src" using group_of_eq [OF d g] src(1) by simp
    have "\<forall>t. tg_active g = Some t \<longrightarrow> t \<in> set (tg_order g)" using ok g by (auto simp: groups_ok_def)
    then show ?thesis
      using only src(2) leave_group_active [of g tab] groups_ok_distinct_order [OF ok g]
      by (auto simp: reassigns_def distinct_without)
  qed
  have target: "target \<in> tg_id ` set gs" using find_Some_in [OF tgt] by auto
  note new = reassign [OF d target re, folded gs']
  have "set (map tg_id gs') \<subseteq> set (leaves_opt layout)"
    using sh new(3) by (simp add: layout_shows_def)
  then have "layout_shows gs' layout'"
    unfolding l' using sh by (intro layout_shows_prune) (simp_all add: layout_shows_def)
  then show ?thesis using new(1,2) by (simp add: workspace_ok_def)
qed

text \<open>
  C38: Moving a tab to another group changes, of the assignment of tabs to groups, exactly that tab; the
  workspace stays well formed: every tab in one group, no empty group, active tabs in their groups, and the
  layout tree shows every remaining group exactly once.
\<close>

theorem move_refines_reassignment:
  assumes "workspace_ok (gs, layout)" and "buildHeadlessTabGroupMove gs layout tab target index = Some (gs', layout')"
  shows "group_of gs' = (group_of gs)(tab \<mapsto> target) \<and> workspace_ok (gs', layout')"
  by (rule move_core [OF assms])

lemma splice_leaves:
  assumes "distinct xs" and "new \<notin> set xs" and "t \<in> set xs" and "ys = [t, new] \<or> ys = [new, t]"
  shows "distinct (concat (map (\<lambda>x. if x = t then ys else [x]) xs))"
    and "set (concat (map (\<lambda>x. if x = t then ys else [x]) xs)) = insert new (set xs)"
proof -
  have same: "concat (map (\<lambda>x. if x = t then ys else [x]) zs) = zs" if "t \<notin> set zs" for zs
    using that by (induction zs) auto
  obtain us vs where xs: "xs = us @ t # vs" "t \<notin> set us" using split_list_first [OF assms(3)] by blast
  then have vs: "t \<notin> set vs" using assms(1) by simp
  have "concat (map (\<lambda>x. if x = t then ys else [x]) xs) = us @ ys @ vs"
    using xs vs by (simp add: same)
  then show "distinct (concat (map (\<lambda>x. if x = t then ys else [x]) xs))"
    and "set (concat (map (\<lambda>x. if x = t then ys else [x]) xs)) = insert new (set xs)"
    using assms xs by auto
qed

lemma leaves_buildSplit: "leaves (buildSplitNode t new ax pos) = (if pos = First then [new, t] else [t, new])"
  by (cases pos) (auto simp: buildSplitNode_def)

lemma split_core:
  assumes "workspace_ok (gs, layout)" and "target \<in> tg_id ` set gs" and "new \<notin> tg_id ` set gs"
    and "buildHeadlessTabGroupSplit gs layout tab target dir new = Some (gs', l', n)"
  shows "group_of gs' = (group_of gs)(tab \<mapsto> new) \<and> workspace_ok (gs', Some l') \<and> n = new"
proof -
  have ok: "groups_ok gs" and sh: "layout_shows gs layout" using assms(1) by (simp_all add: workspace_ok_def)
  note d = ok [unfolded groups_ok_def, THEN conjunct1] ok [unfolded groups_ok_def, THEN conjunct2, THEN conjunct1]
  obtain l where l: "layout = Some l" using sh assms(2) by (cases layout) (auto simp: layout_shows_def)
  obtain src where src: "find (\<lambda>g. tab \<in> set (tg_order g)) gs = Some src"
    using assms(4) by (auto simp: buildHeadlessTabGroupSplit_def split: option.splits)
  have srcin: "src \<in> set gs" "tab \<in> set (tg_order src)" using find_Some_in [OF src] by auto
  let ?newg = "\<lparr>tg_id = new, tg_active = Some tab, tg_order = [tab], tg_recent = None\<rparr>"
  let ?gs0 = "gs @ [\<lparr>tg_id = new, tg_active = None, tg_order = [], tg_recent = None\<rparr>]"
  let ?f = "\<lambda>g. if tg_id g = tg_id src then leave_group tab g else if tg_id g = new then ?newg else g"
  have lv: "(if tg_id g = tg_id src
                 then g\<lparr>tg_order := without tab (tg_order src),
                        tg_active := (if tg_active g = Some tab then first_tab (without tab (tg_order src)) else tg_active g)\<rparr>
                 else g) = ?f g" if "g \<in> set gs" for g
  proof -
    have "tg_id g = tg_id src \<Longrightarrow> g = src" using d(1) that srcin(1) distinct_key_eq by metis
    then show ?thesis using that assms(3) by (auto simp: leave_group_def)
  qed
  have "?f \<lparr>tg_id = new, tg_active = None, tg_order = [], tg_recent = None\<rparr> = ?newg"
    using assms(3) srcin by auto
  then have maps: "map (\<lambda>g. if tg_id g = tg_id src
                 then g\<lparr>tg_order := without tab (tg_order src),
                        tg_active := (if tg_active g = Some tab then first_tab (without tab (tg_order src)) else tg_active g)\<rparr>
                 else g) gs @ [?newg] = map ?f ?gs0"
    using lv by simp
  let ?l = "replaceLeaf l target (buildSplitNode target new (split_axis_of dir) (split_position_of dir))"
  have gs': "gs' = filter (\<lambda>g. tg_order g \<noteq> []) (map ?f ?gs0)" and n: "n = new"
    and l': "l' = (case prune_layout (map tg_id gs') (Some ?l) of None \<Rightarrow> Leaf_Node new | Some p \<Rightarrow> p)"
    using assms(4) src l unfolding maps [symmetric]
    by (auto simp: buildHeadlessTabGroupSplit_def Let_def split: if_splits)
  have d0: "distinct (map tg_id ?gs0)" "distinct (tabs_of ?gs0)" "new \<in> tg_id ` set ?gs0"
    using d assms(3) by (auto simp: tabs_of_def)
  have re: "reassigns tab new ?f g" if g: "g \<in> set ?gs0" for g
  proof (cases "g \<in> set gs")
    case True
    have only: "tab \<in> set (tg_order g) \<Longrightarrow> g = src" using group_of_eq [OF d True] src by simp
    have "\<forall>t. tg_active g = Some t \<longrightarrow> t \<in> set (tg_order g)" using ok True by (auto simp: groups_ok_def)
    moreover have "tg_id g \<noteq> new" using True assms(3) by auto
    ultimately show ?thesis
      using only leave_group_active [of g tab] groups_ok_distinct_order [OF ok True]
      by (auto simp: reassigns_def distinct_without)
  next
    case False
    then show ?thesis using g assms(3) srcin by (auto simp: reassigns_def)
  qed
  note new = reassign [OF d0 re, folded gs']
  have "group_of ?gs0 = group_of gs"
    by (rule ext) (simp add: group_of_def find_snoc split: option.split)
  then have grp: "group_of gs' = (group_of gs)(tab \<mapsto> new)" using new(2) by simp
  have base: "distinct (leaves l)" "set (leaves l) = tg_id ` set gs" using sh l by (simp_all add: layout_shows_def)
  have ys: "leaves (buildSplitNode target new (split_axis_of dir) (split_position_of dir)) = [target, new] \<or>
      leaves (buildSplitNode target new (split_axis_of dir) (split_position_of dir)) = [new, target]"
    by (simp add: leaves_buildSplit)
  have nt: "new \<notin> set (leaves l)" "target \<in> set (leaves l)" using base(2) assms(2,3) by simp_all
  have dl: "distinct (leaves ?l)"
    unfolding leaves_replace by (rule splice_leaves(1) [OF base(1) nt ys])
  have sl: "set (leaves ?l) = insert new (tg_id ` set gs)"
    unfolding leaves_replace base(2) [symmetric] by (rule splice_leaves(2) [OF base(1) nt ys])
  have shows': "layout_shows gs' (prune_layout (map tg_id gs') (Some ?l))"
    using dl sl new(3) by (intro layout_shows_prune) auto
  have "?newg \<in> set (map (\<lambda>g. if tg_id g = tg_id src
                 then g\<lparr>tg_order := without tab (tg_order src),
                        tg_active := (if tg_active g = Some tab then first_tab (without tab (tg_order src)) else tg_active g)\<rparr>
                 else g) gs @ [?newg])" by simp
  then have "?newg \<in> set gs'" unfolding gs' maps by (simp only: set_filter) simp
  then have "map tg_id gs' \<noteq> []" by auto
  then have "prune_layout (map tg_id gs') (Some ?l) \<noteq> None"
    using shows' unfolding layout_shows_def by (metis leaves_opt_simps(1) set_empty)
  then have "layout_shows gs' (Some l')" using shows' unfolding l' by auto
  then show ?thesis using new(1) grp n by (simp add: workspace_ok_def)
qed

text \<open>
  Splitting a tab off into a new group, next to an existing one, moves exactly that tab into the new
  group and keeps the workspace well formed: the layout shows the new group and every group that is left once.
\<close>

theorem split_refines_reassignment:
  assumes "workspace_ok (gs, layout)" and "target \<in> tg_id ` set gs" and "new \<notin> tg_id ` set gs"
    and "buildHeadlessTabGroupSplit gs layout tab target dir new = Some (gs', l', n)"
  shows "group_of gs' = (group_of gs)(tab \<mapsto> new) \<and> workspace_ok (gs', Some l') \<and> n = new"
  by (rule split_core [OF assms])

text \<open>The workspaces a client can reach by moves and by splits next to existing groups.\<close>

inductive tab_step :: "tab_group list \<times> layout_node option \<Rightarrow> tab_group list \<times> layout_node option \<Rightarrow> bool" where
  step_move: "buildHeadlessTabGroupMove gs l tab target index = Some ws \<Longrightarrow> tab_step (gs, l) ws"
| step_split: "buildHeadlessTabGroupSplit gs l tab target dir new = Some (gs', l', n) \<Longrightarrow>
    target \<in> tg_id ` set gs \<Longrightarrow> new \<notin> tg_id ` set gs \<Longrightarrow> tab_step (gs, l) (gs', Some l')"

inductive_cases tab_stepE: "tab_step ws ws'"

lemma tab_step_dom: "tab_step ws ws' \<Longrightarrow> workspace_ok ws \<Longrightarrow> workspace_ok ws' \<and> dom (group_of (fst ws')) = dom (group_of (fst ws))"
proof (induction rule: tab_step.induct)
  case (step_move gs l tab target index ws)
  obtain gs' l' where ws: "ws = (gs', l')" by (cases ws)
  note core = move_core [OF step_move(2) step_move(1) [unfolded ws]]
  have "tab \<in> dom (group_of gs)"
    using step_move(1) by (auto simp: buildHeadlessTabGroupMove_def group_of_def dom_def split: option.splits)
  then have "dom ((group_of gs)(tab \<mapsto> target)) = dom (group_of gs)" by auto
  then show ?case using core ws by (metis fst_conv)
next
  case (step_split gs l tab target dir new gs' l' n)
  note core = split_core [OF step_split(4) step_split(2,3) step_split(1)]
  have "tab \<in> dom (group_of gs)"
    using step_split(1) by (auto simp: buildHeadlessTabGroupSplit_def group_of_def dom_def split: option.splits)
  then have "dom ((group_of gs)(tab \<mapsto> new)) = dom (group_of gs)" by auto
  then show ?case using core by (metis fst_conv)
qed

lemma tab_steps_keep:
  "tab_step\<^sup>*\<^sup>* ws ws' \<Longrightarrow> workspace_ok ws \<Longrightarrow>
   workspace_ok ws' \<and> dom (group_of (fst ws')) = dom (group_of (fst ws))"
proof (induction rule: rtranclp_induct)
  case (step ws1 ws2)
  then show ?case using tab_step_dom [of ws1 ws2] by simp
qed simp

subsection \<open>Terminal panes\<close>

text \<open>
  Splitting a pane keeps the panes of a tab in order and puts the new one right after the pane it was
  split from; the layout has one leaf more, the new pane is active and has its process, and the processes of
  the other panes are unchanged.
\<close>

theorem terminal_split_inserts_leaf:
  assumes "tl_root e = Some t" and "leaves t = us @ [from] @ vs" and "from \<notin> set us" and "from \<notin> set vs"
  shows "leaves_opt (tl_root (buildHeadlessTerminalSplitLayout (Some e) new pty from ax)) = us @ [from, new] @ vs \<and>
    countTerminalLayoutLeaves (tl_root (buildHeadlessTerminalSplitLayout (Some e) new pty from ax)) =
      countTerminalLayoutLeaves (tl_root e) + 1 \<and>
    tl_active (buildHeadlessTerminalSplitLayout (Some e) new pty from ax) = Some new \<and>
    map_get (tl_ptys (buildHeadlessTerminalSplitLayout (Some e) new pty from ax)) l =
      (if l = new then Some pty else map_get (tl_ptys e) l)"
proof -
  have same: "concat (map (\<lambda>x. if x = from then [x, new] else [x]) zs) = zs" if "from \<notin> set zs" for zs
    using that by (induction zs) auto
  have "leaves (insertSplit from new ax t) = us @ [from, new] @ vs"
    using assms same by (simp add: leaves_insertSplit)
  then show ?thesis
    using assms by (simp add: buildHeadlessTerminalSplitLayout_def countTerminalLayoutLeaves_def count_leaves_length Let_def)
qed

subsection \<open>Witnesses\<close>

definition two_groups :: "tab_group list" where
  "two_groups = [\<lparr>tg_id = [1], tg_active = Some [10], tg_order = [[10], [11]], tg_recent = None\<rparr>,
     \<lparr>tg_id = [2], tg_active = Some [20], tg_order = [[20]], tg_recent = None\<rparr>]"

definition two_leaves :: layout_node where
  "two_leaves = Split_Node Horizontal (Leaf_Node [1]) (Leaf_Node [2]) None"

lemma two_groups_ok: "workspace_ok (two_groups, Some two_leaves)"
  by (auto simp: workspace_ok_def groups_ok_def layout_shows_def two_groups_def two_leaves_def tabs_of_def)

lemmas layout_eval = two_groups_def two_leaves_def Let_def without_def insert_at_def leave_group_def join_group_def
  first_tab_def prune_layout_def collectTabGroupLayoutGroupIds_def set_add_def removeTabGroupLayoutLeaf_def
  buildSplitNode_def split_axis_of_def split_position_of_def

text \<open>The source group of the move is emptied and its leaf collapses.\<close>

theorem move_refines_reassignment_witness:
  "\<exists>gs'. buildHeadlessTabGroupMove two_groups (Some two_leaves) [20] [1] (Some 0) = Some (gs', Some (Leaf_Node [1])) \<and>
     group_of gs' [20] = Some [1]"
proof -
  have "\<exists>gs'. buildHeadlessTabGroupMove two_groups (Some two_leaves) [20] [1] (Some 0) = Some (gs', Some (Leaf_Node [1]))"
    by (simp add: buildHeadlessTabGroupMove_def layout_eval del: set_filter set_map)
  then obtain gs' where m: "buildHeadlessTabGroupMove two_groups (Some two_leaves) [20] [1] (Some 0) = Some (gs', Some (Leaf_Node [1]))"
    by blast
  then show ?thesis using move_refines_reassignment [OF two_groups_ok m] by auto
qed

theorem split_refines_reassignment_witness:
  "\<exists>gs' l' n. buildHeadlessTabGroupSplit two_groups (Some two_leaves) [11] [2] Split_Up [3] = Some (gs', l', n) \<and>
     leaves l' = [[1], [3], [2]] \<and> group_of gs' [11] = Some [3]"
proof -
  have "\<exists>gs' l' n. buildHeadlessTabGroupSplit two_groups (Some two_leaves) [11] [2] Split_Up [3] = Some (gs', l', n) \<and>
      leaves l' = [[1], [3], [2]]"
    by (simp add: buildHeadlessTabGroupSplit_def layout_eval del: set_filter set_map)
  then obtain gs' l' n where m: "buildHeadlessTabGroupSplit two_groups (Some two_leaves) [11] [2] Split_Up [3] = Some (gs', l', n)"
      "leaves l' = [[1], [3], [2]]" by blast
  have "[2] \<in> tg_id ` set two_groups" "[3] \<notin> tg_id ` set two_groups" by (simp_all add: two_groups_def)
  then show ?thesis using split_refines_reassignment [OF two_groups_ok _ _ m(1)] m by auto
qed

theorem terminal_split_inserts_leaf_witness:
  "countTerminalLayoutLeaves (tl_root (buildHeadlessTerminalSplitLayout
     (Some (no_layout\<lparr>tl_root := Some two_leaves\<rparr>)) [9] [99] [1] Vertical)) = 3"
proof -
  have 1: "tl_root (no_layout\<lparr>tl_root := Some two_leaves\<rparr>) = Some two_leaves" by simp
  have 2: "leaves two_leaves = [] @ [[1]] @ [[2]]" by (simp add: two_leaves_def)
  have 3: "[1] \<notin> set ([] :: jsstr list)" "[1] \<notin> set [[2 :: jschar]]" by simp_all
  have "countTerminalLayoutLeaves (Some two_leaves) = 2" by (simp add: countTerminalLayoutLeaves_def two_leaves_def)
  then show ?thesis using terminal_split_inserts_leaf [OF 1 2 3, of "[9]" "[99]" Vertical] 1 by simp
qed

text \<open>
  A split next to a group the layout does not have is not refused: the tab leaves its group for one that the
  layout does not show.
\<close>

lemma split_next_to_missing_group:
  "\<exists>gs'. buildHeadlessTabGroupSplit two_groups (Some two_leaves) [11] [7] Split_Up [3] = Some (gs', two_leaves, [3]) \<and>
     group_of gs' [11] = Some [3]"
  by (simp add: buildHeadlessTabGroupSplit_def layout_eval group_of_def del: set_filter set_map)

end
