(* ===== verification/Term_Log.thy ===== *)
theory Term_Log
  imports Utf8 "HOL-Library.Sublist"
begin

text \<open>
  The on-disk log of a terminal's output, \<open>src/main/daemon/terminal-history-log.ts\<close>: a header and length-prefixed
  frames, written in batches.  The decoder reads what is left of the buffer at its offset; a write of a length
  or count that does not fit its field throws, which is \<open>None\<close> in the encoders.
\<close>

subsection \<open>Little-endian fields\<close>

definition le32 :: "nat \<Rightarrow> bytes" where
  "le32 n = [of_nat (n mod 256), of_nat (n div 256 mod 256), of_nat (n div 65536 mod 256), of_nat (n div 16777216 mod 256)]"

definition readle32 :: "bytes \<Rightarrow> nat \<Rightarrow> nat" where
  "readle32 b i = unat (b ! i) + unat (b ! (i + 1)) * 256 + unat (b ! (i + 2)) * 65536 + unat (b ! (i + 3)) * 16777216"

definition le16 :: "nat \<Rightarrow> bytes" where
  "le16 n = [of_nat (n mod 256), of_nat (n div 256 mod 256)]"

definition readle16 :: "bytes \<Rightarrow> nat \<Rightarrow> nat" where
  "readle16 b i = unat (b ! i) + unat (b ! (i + 1)) * 256"

text \<open>\<open>n >>> 0\<close>\<close>

definition to_uint32 :: "int \<Rightarrow> nat" where
  "to_uint32 n = nat (n mod 4294967296)"

definition clampU16 :: "int \<Rightarrow> nat" where
  "clampU16 v = nat (max 0 (min 65535 v))"

subsection \<open>Records and frames\<close>

datatype log_record = Output jsstr | Resize int int | ClearScreen

record log_batch =
  lb_seq :: nat
  lb_records :: "log_record list"

record log_contents =
  lc_generation :: nat
  lc_batches :: "log_batch list"
  lc_truncated :: bool

definition LOG_MAGIC :: bytes where
  "LOG_MAGIC = [79, 67, 75, 76]"

definition LOG_FORMAT_VERSION :: "8 word" where
  "LOG_FORMAT_VERSION = 1"

definition LOG_HEADER_BYTES :: nat where
  "LOG_HEADER_BYTES = 9"

definition FRAME_BATCH :: "8 word" where "FRAME_BATCH = 1"
definition FRAME_OUTPUT :: "8 word" where "FRAME_OUTPUT = 2"
definition FRAME_RESIZE :: "8 word" where "FRAME_RESIZE = 3"
definition FRAME_CLEAR :: "8 word" where "FRAME_CLEAR = 4"

definition encodeLogHeader :: "int \<Rightarrow> bytes" where
  "encodeLogHeader generation = LOG_MAGIC @ [LOG_FORMAT_VERSION] @ le32 (to_uint32 generation)"

text \<open>\<open>buf.toString('ascii', 0, 4)\<close>: the runtime drops the top bit of every byte.\<close>

definition ascii_bytes :: "bytes \<Rightarrow> bytes" where
  "ascii_bytes bs = map (\<lambda>b. of_nat (unat b mod 128)) bs"

definition decodeLogHeader :: "bytes \<Rightarrow> nat option" where
  "decodeLogHeader buf =
     (if length buf < LOG_HEADER_BYTES then None
      else if ascii_bytes (take 4 buf) \<noteq> LOG_MAGIC then None
      else if buf ! 4 \<noteq> LOG_FORMAT_VERSION then None
      else Some (readle32 buf 5))"

definition encodeFrame :: "8 word \<Rightarrow> bytes \<Rightarrow> bytes option" where
  "encodeFrame kind payload =
     (if length payload < 4294967296 then Some (kind # le32 (length payload) @ payload) else None)"

definition encodeSeqPayload :: "int \<Rightarrow> bytes" where
  "encodeSeqPayload n = le32 (to_uint32 n)"

definition encode_record :: "log_record \<Rightarrow> bytes option" where
  "encode_record r = (case r of
     Output d \<Rightarrow> encodeFrame FRAME_OUTPUT (utf8_encode d)
   | Resize c w \<Rightarrow> encodeFrame FRAME_RESIZE (le16 (clampU16 c) @ le16 (clampU16 w))
   | ClearScreen \<Rightarrow> encodeFrame FRAME_CLEAR [])"

fun concat_opt :: "'a list option list \<Rightarrow> 'a list option" where
  "concat_opt [] = Some []"
| "concat_opt (None # xs) = None"
| "concat_opt (Some a # xs) = map_option (append a) (concat_opt xs)"

definition encodeLogBatch :: "int \<Rightarrow> log_record list \<Rightarrow> bytes option" where
  "encodeLogBatch n records =
     concat_opt (encodeFrame FRAME_BATCH (encodeSeqPayload n) # map encode_record records)"

text \<open>\<open>current\<close> is the last batch read; a record is added to it.\<close>

definition add_record :: "log_record \<Rightarrow> log_batch list \<Rightarrow> log_batch list" where
  "add_record r bs = butlast bs @ [(last bs)\<lparr>lb_records := lb_records (last bs) @ [r]\<rparr>]"

definition apply_frame :: "8 word \<Rightarrow> bytes \<Rightarrow> log_batch list \<Rightarrow> log_batch list option" where
  "apply_frame kind payload bs =
     (if kind = FRAME_BATCH then
        if length payload \<noteq> 4 then None
        else if bs \<noteq> [] \<and> readle32 payload 0 \<noteq> lb_seq (last bs) + 1 then None
        else Some (bs @ [\<lparr>lb_seq = readle32 payload 0, lb_records = []\<rparr>])
      else if bs = [] then None
      else if kind = FRAME_OUTPUT then Some (add_record (Output (utf8_decode payload)) bs)
      else if kind = FRAME_RESIZE then
        if length payload \<noteq> 4 then None
        else Some (add_record (Resize (int (readle16 payload 0)) (int (readle16 payload 2))) bs)
      else if kind = FRAME_CLEAR then Some (add_record ClearScreen bs)
      else None)"

function decode_frames :: "bytes \<Rightarrow> log_batch list \<Rightarrow> (log_batch list \<times> bool) option" where
  "decode_frames buf bs =
     (if buf = [] then Some (bs, False)
      else if length buf < 5 then Some (bs, True)
      else let n = readle32 buf 1
           in if length buf < 5 + n then Some (bs, True)
              else (case apply_frame (buf ! 0) (take n (drop 5 buf)) bs of
                      None \<Rightarrow> None
                    | Some bs' \<Rightarrow> decode_frames (drop (5 + n) buf) bs'))"
  by pat_completeness auto
termination by (relation "measure (\<lambda>(buf, _). length buf)") auto

declare decode_frames.simps [simp del]

definition decodeTerminalHistoryLog :: "bytes \<Rightarrow> log_contents option" where
  "decodeTerminalHistoryLog buf =
     (case decodeLogHeader buf of
        None \<Rightarrow> None
      | Some g \<Rightarrow>
          (case decode_frames (drop LOG_HEADER_BYTES buf) [] of
             None \<Rightarrow> None
           | Some (bs, t) \<Rightarrow> Some \<lparr>lc_generation = g, lc_batches = bs, lc_truncated = t\<rparr>))"

subsection \<open>Fields\<close>

lemma length_le [simp]: "length (le32 n) = 4" "length (le16 n) = 2"
  by (simp_all add: le32_def le16_def)

lemma readle32_at:
  assumes "n < 2 ^ 32" and "length p = i"
  shows "readle32 (p @ le32 n @ s) i = n"
proof -
  have "(p @ le32 n @ s) ! i = of_nat (n mod 256)" "(p @ le32 n @ s) ! (i + 1) = of_nat (n div 256 mod 256)"
    "(p @ le32 n @ s) ! (i + 2) = of_nat (n div 65536 mod 256)"
    "(p @ le32 n @ s) ! (i + 3) = of_nat (n div 16777216 mod 256)"
    using assms(2) by (auto simp: le32_def nth_append)
  then have "readle32 (p @ le32 n @ s) i = read32 (be32 n) 0"
    by (simp only: readle32_def unat_byte) (simp add: read32_def be32_def unat_byte)
  then show ?thesis using read32_be32 [OF assms(1), of "[]" 0 "[]"] by simp
qed

lemma readle16_at: "n < 65536 \<Longrightarrow> length p = i \<Longrightarrow> readle16 (p @ le16 n @ s) i = n"
  using unat_small [of "n div 256"] by (simp add: readle16_def le16_def nth_append unat_byte)

lemma to_uint32_less: "to_uint32 n < 2 ^ 32"
  by (simp add: to_uint32_def nat_less_iff)

lemma clampU16_less: "clampU16 v < 65536"
  by (simp add: clampU16_def nat_less_iff)

subsection \<open>Frames as items\<close>

text \<open>The items of a log in order: the numbers of its batches and the records under them.\<close>

datatype log_item = BatchItem nat | RecordItem log_record

definition item_bytes :: "log_item \<Rightarrow> bytes" where
  "item_bytes i = (case i of
     BatchItem n \<Rightarrow> FRAME_BATCH # le32 4 @ le32 n
   | RecordItem (Output d) \<Rightarrow> FRAME_OUTPUT # le32 (length (utf8_encode d)) @ utf8_encode d
   | RecordItem (Resize c r) \<Rightarrow> FRAME_RESIZE # le32 4 @ le16 (clampU16 c) @ le16 (clampU16 r)
   | RecordItem ClearScreen \<Rightarrow> FRAME_CLEAR # le32 0)"

text \<open>A record as it is read back: text without lone surrogates, sizes in range.\<close>

definition stored_record :: "log_record \<Rightarrow> log_record" where
  "stored_record r = (case r of
     Output d \<Rightarrow> Output (to_well_formed d)
   | Resize c w \<Rightarrow> Resize (int (clampU16 c)) (int (clampU16 w))
   | ClearScreen \<Rightarrow> ClearScreen)"

definition apply_item :: "log_item \<Rightarrow> log_batch list \<Rightarrow> log_batch list option" where
  "apply_item i bs = (case i of
     BatchItem n \<Rightarrow> if bs \<noteq> [] \<and> n \<noteq> lb_seq (last bs) + 1 then None else Some (bs @ [\<lparr>lb_seq = n, lb_records = []\<rparr>])
   | RecordItem r \<Rightarrow> if bs = [] then None else Some (add_record (stored_record r) bs))"

definition item_ok :: "log_item \<Rightarrow> bool" where
  "item_ok i = (case i of BatchItem n \<Rightarrow> n < 2 ^ 32 | RecordItem (Output d) \<Rightarrow> length (utf8_encode d) < 2 ^ 32 | _ \<Rightarrow> True)"

text \<open>Every item is a frame: its kind, its length and its payload.\<close>

definition item_kind :: "log_item \<Rightarrow> 8 word" where
  "item_kind i = (case i of BatchItem _ \<Rightarrow> FRAME_BATCH | RecordItem (Output _) \<Rightarrow> FRAME_OUTPUT
     | RecordItem (Resize _ _) \<Rightarrow> FRAME_RESIZE | RecordItem ClearScreen \<Rightarrow> FRAME_CLEAR)"

definition item_payload :: "log_item \<Rightarrow> bytes" where
  "item_payload i = (case i of BatchItem n \<Rightarrow> le32 n | RecordItem (Output d) \<Rightarrow> utf8_encode d
     | RecordItem (Resize c r) \<Rightarrow> le16 (clampU16 c) @ le16 (clampU16 r) | RecordItem ClearScreen \<Rightarrow> [])"

lemmas frame_kinds = FRAME_BATCH_def FRAME_OUTPUT_def FRAME_RESIZE_def FRAME_CLEAR_def

lemma item_bytes_eq: "item_bytes i = item_kind i # le32 (length (item_payload i)) @ item_payload i"
  by (simp add: item_bytes_def item_kind_def item_payload_def split: log_item.split log_record.split)

lemma item_payload_short: "item_ok i \<Longrightarrow> length (item_payload i) < 2 ^ 32"
  by (auto simp: item_ok_def item_payload_def split: log_item.splits log_record.splits)

lemma readle32_le32: "n < 2 ^ 32 \<Longrightarrow> readle32 (le32 n) 0 = n"
  using readle32_at [of n "[]" 0 "[]"] by simp

lemma readle16_pair:
  "a < 65536 \<Longrightarrow> b < 65536 \<Longrightarrow> readle16 (le16 a @ le16 b) 0 = a \<and> readle16 (le16 a @ le16 b) 2 = b"
  using readle16_at [of a "[]" 0 "le16 b"] readle16_at [of b "le16 a" 2 "[]"] by simp

lemma apply_item_frame: "item_ok i \<Longrightarrow> apply_frame (item_kind i) (item_payload i) bs = apply_item i bs"
proof (cases i)
  case (BatchItem n)
  then show "item_ok i \<Longrightarrow> ?thesis"
    by (simp add: apply_frame_def apply_item_def item_kind_def item_payload_def item_ok_def readle32_le32)
next
  case (RecordItem r)
  then show ?thesis
    using readle16_pair [OF clampU16_less clampU16_less]
    by (cases r) (simp_all add: apply_frame_def apply_item_def item_kind_def item_payload_def stored_record_def
        frame_kinds decode_encode)
qed

lemma decode_item:
  assumes "item_ok i"
  shows "decode_frames (item_bytes i @ r) bs =
     (case apply_item i bs of None \<Rightarrow> None | Some bs' \<Rightarrow> decode_frames r bs')"
proof -
  let ?k = "item_kind i" and ?p = "item_payload i"
  have n: "readle32 (item_bytes i @ r) 1 = length ?p"
    using readle32_at [OF item_payload_short [OF assms], of "[?k]" 1 "?p @ r"] by (simp add: item_bytes_eq)
  have len: "length (item_bytes i) = 5 + length ?p" by (simp add: item_bytes_eq)
  have "drop (5 + length ?p) (item_bytes i @ r) = r" by (simp flip: len)
  moreover have "take (length ?p) (drop 5 (item_bytes i @ r)) = ?p"
    "(item_bytes i @ r) ! 0 = ?k" "length (item_bytes i @ r) = 5 + length ?p + length r"
    by (simp_all add: item_bytes_eq)
  ultimately show ?thesis
    using n apply_item_frame [OF assms, of bs] by (subst decode_frames.simps) (auto simp: Let_def split: option.split)
qed

text \<open>A torn frame ends the log.\<close>

lemma decode_torn:
  assumes "item_ok i" and "strict_prefix q (item_bytes i)" and "q \<noteq> []"
  shows "decode_frames q bs = Some (bs, True)"
proof -
  obtain z where z: "item_bytes i = q @ z" "z \<noteq> []" using assms(2) by (auto simp: strict_prefix_def prefix_def)
  show ?thesis
  proof (cases "length q < 5")
    case False
    have "readle32 q 1 = readle32 (item_bytes i) 1" using False by (simp add: readle32_def z(1) nth_append)
    also have "\<dots> = length (item_payload i)"
      using readle32_at [OF item_payload_short [OF assms(1)], of "[item_kind i]" 1 "item_payload i"] by (simp add: item_bytes_eq)
    finally have "length q < 5 + readle32 q 1"
      using arg_cong [OF z(1), of length] z(2) by (simp add: item_bytes_eq)
    then show ?thesis using False assms(3) by (subst decode_frames.simps) (simp add: Let_def)
  qed (use assms(3) in \<open>subst decode_frames.simps, simp\<close>)
qed

definition items_bytes :: "log_item list \<Rightarrow> bytes" where
  "items_bytes is = concat (map item_bytes is)"

lemma items_bytes_simps [simp]: "items_bytes [] = []" "items_bytes (i # is) = item_bytes i @ items_bytes is"
  by (simp_all add: items_bytes_def)

fun apply_items :: "log_item list \<Rightarrow> log_batch list \<Rightarrow> log_batch list option" where
  "apply_items [] bs = Some bs"
| "apply_items (i # is) bs = (case apply_item i bs of None \<Rightarrow> None | Some bs' \<Rightarrow> apply_items is bs')"

text \<open>The cut after \<open>l\<close> bytes leaves \<open>k\<close> frames whole and no more.\<close>

definition whole_frames :: "log_item list \<Rightarrow> nat \<Rightarrow> nat \<Rightarrow> bool" where
  "whole_frames is l k \<longleftrightarrow> k \<le> length is \<and> length (items_bytes (take k is)) \<le> l \<and>
     (\<forall>j. k < j \<and> j \<le> length is \<longrightarrow> l < length (items_bytes (take j is)))"

lemma whole_frames_Suc:
  "whole_frames is l k \<Longrightarrow> whole_frames (i # is) (length (item_bytes i) + l) (Suc k)"
  unfolding whole_frames_def by (auto simp: less_Suc_eq_0_disj take_Cons split: nat.split)

lemma whole_frames_none: "l < length (item_bytes i) \<Longrightarrow> whole_frames (i # is) l 0"
  unfolding whole_frames_def by (auto simp: take_Cons split: nat.split)

text \<open>Whatever the log is cut to, the items before the cut are read and nothing else.\<close>

lemma decode_prefix:
  assumes "list_all item_ok is" and "apply_items is bs \<noteq> None" and "prefix p (items_bytes is)"
  shows "\<exists>k bs'. whole_frames is (length p) k \<and> apply_items (take k is) bs = Some bs' \<and>
    decode_frames p bs = Some (bs', p \<noteq> items_bytes (take k is))"
  using assms
proof (induction "is" arbitrary: bs p)
  case Nil
  then show ?case by (simp add: decode_frames.simps whole_frames_def)
next
  case (Cons i "is")
  have ok: "item_ok i" "list_all item_ok is" using Cons.prems(1) by simp_all
  obtain bs1 where bs1: "apply_item i bs = Some bs1" "apply_items is bs1 \<noteq> None"
    using Cons.prems(2) by (auto split: option.splits)
  have "prefix p (item_bytes i @ items_bytes is)" using Cons.prems(3) by simp
  then consider "prefix p (item_bytes i)" "p \<noteq> item_bytes i" | q where "p = item_bytes i @ q" "prefix q (items_bytes is)"
    by (cases "p = item_bytes i") (auto simp: prefix_append)
  then show ?case
  proof cases
    case 1
    then have "decode_frames p bs = Some (bs, p \<noteq> [])"
      using decode_torn [OF ok(1), of p bs] by (cases "p = []") (simp_all add: decode_frames.simps [of "[]"])
    moreover have "length p < length (item_bytes i)"
      using 1 by (auto simp: prefix_def)
    ultimately show ?thesis by (intro exI [of _ 0]) (simp add: whole_frames_none)
  next
    case 2
    obtain k bs' where k: "whole_frames is (length q) k" "apply_items (take k is) bs1 = Some bs'"
        "decode_frames q bs1 = Some (bs', q \<noteq> items_bytes (take k is))"
      using Cons.IH [OF ok(2) bs1(2) 2(2)] by auto
    then show ?thesis
      using bs1(1) 2(1) decode_item [OF ok(1), of q bs] whole_frames_Suc [OF k(1), of i] by (intro exI [of _ "Suc k"]) simp
  qed
qed

lemma decode_items:
  "list_all item_ok is \<Longrightarrow> apply_items is bs = Some bs' \<Longrightarrow> decode_frames (items_bytes is @ r) bs = decode_frames r bs'"
proof (induction "is" arbitrary: bs)
  case (Cons i "is")
  then show ?case using decode_item [of i "items_bytes is @ r" bs] by (auto split: option.splits)
qed simp

lemma decode_all:
  "list_all item_ok is \<Longrightarrow> apply_items is bs = Some bs' \<Longrightarrow> decode_frames (items_bytes is) bs = Some (bs', False)"
  using decode_items [of "is" bs bs' "[]"] by (simp add: decode_frames.simps [of "[]"])

subsection \<open>Logs\<close>

text \<open>The items of batches with consecutive numbers, and the items of what was read.\<close>

fun log_items :: "nat \<Rightarrow> log_record list list \<Rightarrow> log_item list" where
  "log_items n [] = []"
| "log_items n (rs # bss) = BatchItem n # map RecordItem rs @ log_items (Suc n) bss"

definition encode_log :: "int \<Rightarrow> nat \<Rightarrow> log_record list list \<Rightarrow> bytes option" where
  "encode_log generation n bss =
     map_option (append (encodeLogHeader generation))
       (concat_opt (map (\<lambda>(i, rs). encodeLogBatch (int i) rs) (enumerate n bss)))"

definition batch_items :: "log_batch list \<Rightarrow> log_item list" where
  "batch_items bs = concat (map (\<lambda>b. BatchItem (lb_seq b) # map RecordItem (lb_records b)) bs)"

definition stored_item :: "log_item \<Rightarrow> log_item" where
  "stored_item i = (case i of BatchItem n \<Rightarrow> BatchItem n | RecordItem r \<Rightarrow> RecordItem (stored_record r))"

definition stored_batches :: "nat \<Rightarrow> log_record list list \<Rightarrow> log_batch list" where
  "stored_batches n bss = map (\<lambda>(i, rs). \<lparr>lb_seq = i, lb_records = map stored_record rs\<rparr>) (enumerate n bss)"

lemma items_bytes_append [simp]: "items_bytes (xs @ ys) = items_bytes xs @ items_bytes ys"
  by (simp add: items_bytes_def)

lemma concat_opt_Cons: "concat_opt (x # xs) = Some b \<longleftrightarrow> (\<exists>a c. x = Some a \<and> concat_opt xs = Some c \<and> b = a @ c)"
  by (cases x) auto

lemma encode_record_item: "encode_record r = Some b \<Longrightarrow> item_ok (RecordItem r) \<and> b = item_bytes (RecordItem r)"
  by (auto simp: encode_record_def encodeFrame_def item_ok_def item_bytes_def split: log_record.splits if_splits)

lemma encode_records_items:
  "concat_opt (map encode_record rs) = Some b \<Longrightarrow>
   list_all item_ok (map RecordItem rs) \<and> b = items_bytes (map RecordItem rs)"
proof (induction rs arbitrary: b)
  case (Cons r rs)
  then obtain a c where "encode_record r = Some a" "concat_opt (map encode_record rs) = Some c" "b = a @ c"
    by (auto simp: concat_opt_Cons)
  then show ?case using Cons.IH encode_record_item by auto
qed simp

lemma encode_batch_items:
  assumes "encodeLogBatch (int n) rs = Some b" and "n < 2 ^ 32"
  shows "list_all item_ok (BatchItem n # map RecordItem rs) \<and> b = items_bytes (BatchItem n # map RecordItem rs)"
proof -
  have n: "to_uint32 (int n) = n" using assms(2) by (simp add: to_uint32_def)
  obtain c where c: "concat_opt (map encode_record rs) = Some c" "b = item_bytes (BatchItem n) @ c"
    using assms(1) by (auto simp: encodeLogBatch_def encodeFrame_def encodeSeqPayload_def n item_bytes_def)
  then show ?thesis using encode_records_items [OF c(1)] assms(2) by (simp add: item_ok_def)
qed

lemma encode_log_items:
  assumes "concat_opt (map (\<lambda>(i, rs). encodeLogBatch (int i) rs) (enumerate n bss)) = Some body" and "n + length bss \<le> 2 ^ 32"
  shows "list_all item_ok (log_items n bss) \<and> body = items_bytes (log_items n bss)"
  using assms
proof (induction bss arbitrary: n body)
  case (Cons rs bss)
  then obtain a c where a: "encodeLogBatch (int n) rs = Some a"
    and c: "concat_opt (map (\<lambda>(i, rs). encodeLogBatch (int i) rs) (enumerate (Suc n) bss)) = Some c" "body = a @ c"
    by (auto simp: concat_opt_Cons)
  then show ?case using Cons.IH [OF c(1)] encode_batch_items [OF a] Cons.prems(2) by auto
qed simp

lemma apply_records:
  "bs \<noteq> [] \<Longrightarrow> apply_items (map RecordItem rs) bs =
     Some (butlast bs @ [(last bs)\<lparr>lb_records := lb_records (last bs) @ map stored_record rs\<rparr>])"
proof (induction rs arbitrary: bs)
  case Nil
  then show ?case by (simp add: append_butlast_last_id)
next
  case (Cons r rs)
  then show ?case by (simp add: apply_item_def add_record_def)
qed

lemma apply_items_append:
  "apply_items (xs @ ys) bs = (case apply_items xs bs of None \<Rightarrow> None | Some bs' \<Rightarrow> apply_items ys bs')"
  by (induction xs arbitrary: bs) (auto split: option.split)

lemma apply_log_items:
  "bs = [] \<or> lb_seq (last bs) + 1 = n \<Longrightarrow> apply_items (log_items n bss) bs = Some (bs @ stored_batches n bss)"
proof (induction bss arbitrary: n bs)
  case (Cons rs bss)
  let ?bs = "bs @ [\<lparr>lb_seq = n, lb_records = map stored_record rs\<rparr>]"
  have "apply_items (log_items n (rs # bss)) bs = apply_items (log_items (Suc n) bss) ?bs"
    using Cons.prems by (auto simp: apply_item_def apply_items_append apply_records)
  also have "\<dots> = Some (?bs @ stored_batches (Suc n) bss)" using Cons.IH [of ?bs "Suc n"] by simp
  finally show ?case by (simp add: stored_batches_def)
qed (simp add: stored_batches_def)

lemma batch_items_add: "bs \<noteq> [] \<Longrightarrow> batch_items (add_record r bs) = batch_items bs @ [RecordItem r]"
  by (induction bs rule: rev_induct) (simp_all add: add_record_def batch_items_def)

lemma batch_items_snoc: "batch_items (bs @ [b]) = batch_items bs @ BatchItem (lb_seq b) # map RecordItem (lb_records b)"
  by (simp add: batch_items_def)

lemma apply_items_log: "apply_items is bs = Some bs' \<Longrightarrow> batch_items bs' = batch_items bs @ map stored_item is"
proof (induction "is" arbitrary: bs)
  case (Cons i "is")
  then obtain bs1 where bs1: "apply_item i bs = Some bs1" "apply_items is bs1 = Some bs'" by (auto split: option.splits)
  have "batch_items bs1 = batch_items bs @ [stored_item i]"
    using bs1(1) by (auto simp: apply_item_def stored_item_def batch_items_add batch_items_snoc batch_items_snoc [of "[]", simplified]
        split: log_item.splits if_splits)
  then show ?case using Cons.IH [OF bs1(2)] by simp
qed simp

lemma decode_header:
  assumes "9 \<le> length (encodeLogHeader g @ q)"
  shows "decodeTerminalHistoryLog (encodeLogHeader g @ q) =
    (case decode_frames q [] of None \<Rightarrow> None
     | Some (bs, t) \<Rightarrow> Some \<lparr>lc_generation = to_uint32 g, lc_batches = bs, lc_truncated = t\<rparr>)"
proof -
  have "decodeLogHeader (encodeLogHeader g @ q) = Some (to_uint32 g)"
    using readle32_at [OF to_uint32_less, of "LOG_MAGIC @ [LOG_FORMAT_VERSION]" 5 g q]
    by (simp add: decodeLogHeader_def encodeLogHeader_def LOG_HEADER_BYTES_def LOG_MAGIC_def ascii_bytes_def)
  then show ?thesis by (simp add: decodeTerminalHistoryLog_def encodeLogHeader_def LOG_MAGIC_def LOG_HEADER_BYTES_def)
qed

text \<open>
  C28: A torn log is read up to its last whole frame.  Cutting a log of consecutive batches anywhere after
  its header, as a crash during an append does, the decoder still returns the generation and exactly the
  batches and records of all the frames that are whole before the cut (as many as fit, not fewer), and reports a
  truncated tail exactly when bytes are left after them.
\<close>

theorem torn_log_keeps_whole_frames:
  assumes "encode_log g n bss = Some log" and "n + length bss \<le> 2 ^ 32" and "prefix p log" and "9 \<le> length p"
  shows "\<exists>k c. whole_frames (log_items n bss) (length p - 9) k \<and> decodeTerminalHistoryLog p = Some c \<and> lc_generation c = to_uint32 g \<and>
    batch_items (lc_batches c) = take k (map stored_item (log_items n bss)) \<and>
    (lc_truncated c \<longleftrightarrow> p \<noteq> encodeLogHeader g @ items_bytes (take k (log_items n bss)))"
proof -
  obtain body where body: "concat_opt (map (\<lambda>(i, rs). encodeLogBatch (int i) rs) (enumerate n bss)) = Some body"
      "log = encodeLogHeader g @ body"
    using assms(1) by (auto simp: encode_log_def)
  note it = encode_log_items [OF body(1) assms(2)]
  have len: "length (encodeLogHeader g) = 9" by (simp add: encodeLogHeader_def LOG_MAGIC_def)
  obtain q where q: "p = encodeLogHeader g @ q" "prefix q (items_bytes (log_items n bss))"
  proof -
    have "p = encodeLogHeader g" if "prefix p (encodeLogHeader g)"
      using that assms(4) len by (auto simp: prefix_def) (metis add_le_same_cancel1 le_zero_eq length_0_conv)
    then show thesis using that assms(3) it unfolding body(2) prefix_append by auto
  qed
  obtain k bs where k: "whole_frames (log_items n bss) (length q) k" "apply_items (take k (log_items n bss)) [] = Some bs"
      "decode_frames q [] = Some (bs, q \<noteq> items_bytes (take k (log_items n bss)))"
    using decode_prefix [OF _ _ q(2), of "[]"] it apply_log_items [of "[]" n bss] by auto
  have "batch_items bs = take k (map stored_item (log_items n bss))"
    using apply_items_log [OF k(2)] by (simp add: batch_items_def take_map)
  then show ?thesis using decode_header [of g q] assms(4) k q(1) len by auto
qed

text \<open>
  A whole log of consecutive batches is read back as it was written, with lone surrogates replaced and
  sizes clamped to 16 bits.
\<close>

theorem log_roundtrip:
  assumes "encode_log g n bss = Some log" and "n + length bss \<le> 2 ^ 32"
  shows "decodeTerminalHistoryLog log =
    Some \<lparr>lc_generation = to_uint32 g, lc_batches = stored_batches n bss, lc_truncated = False\<rparr>"
proof -
  obtain body where body: "concat_opt (map (\<lambda>(i, rs). encodeLogBatch (int i) rs) (enumerate n bss)) = Some body"
      "log = encodeLogHeader g @ body"
    using assms(1) by (auto simp: encode_log_def)
  note it = encode_log_items [OF body(1) assms(2)]
  have "decode_frames body [] = Some (stored_batches n bss, False)"
    using decode_all it apply_log_items [of "[]" n bss] by auto
  moreover have "9 \<le> length (encodeLogHeader g @ body)" by (simp add: encodeLogHeader_def LOG_MAGIC_def)
  ultimately show ?thesis using decode_header unfolding body(2) by simp
qed

text \<open>
  A lost batch is noticed.  When the batch after a log's last one does not carry the next number, the
  whole log is refused, whatever follows.
\<close>

theorem lost_batch_is_refused:
  assumes "encode_log g n bss = Some log" and "n + length bss \<le> 2 ^ 32" and "bss \<noteq> []"
    and "encodeLogBatch (int m) rs = Some b" and "m < 2 ^ 32" and "m \<noteq> n + length bss"
  shows "decodeTerminalHistoryLog (log @ b @ rest) = None"
proof -
  obtain body where body: "concat_opt (map (\<lambda>(i, rs). encodeLogBatch (int i) rs) (enumerate n bss)) = Some body"
      "log = encodeLogHeader g @ body"
    using assms(1) by (auto simp: encode_log_def)
  note it = encode_log_items [OF body(1) assms(2)]
  note ib = encode_batch_items [OF assms(4,5)]
  let ?bs = "stored_batches n bss"
  have "?bs \<noteq> []" "lb_seq (last ?bs) + 1 = n + length bss"
    using assms(3) by (cases bss rule: rev_cases; simp add: stored_batches_def enumerate_append_eq)+
  then have "apply_item (BatchItem m) ?bs = None" using assms(6) by (simp add: apply_item_def)
  moreover have "decode_frames (body @ b @ rest) [] = decode_frames (b @ rest) ?bs"
    using decode_items [of "log_items n bss" "[]" ?bs "b @ rest"] it apply_log_items [of "[]" n bss] by simp
  moreover have "decode_frames (b @ rest) ?bs = (case apply_item (BatchItem m) ?bs of None \<Rightarrow> None
      | Some bs' \<Rightarrow> decode_frames (items_bytes (map RecordItem rs) @ rest) bs')"
    using decode_item [of "BatchItem m" "items_bytes (map RecordItem rs) @ rest" ?bs] ib by simp
  ultimately show ?thesis
    using decode_header [of g "body @ b @ rest"] by (simp add: body(2) encodeLogHeader_def LOG_MAGIC_def)
qed

text \<open>A log of two batches, cut in the middle of the second one's record.\<close>

definition sample_log :: bytes where
  "sample_log = [79, 67, 75, 76, 1, 7, 0, 0, 0, 1, 4, 0, 0, 0, 3, 0, 0, 0, 2, 2, 0, 0, 0, 104, 105,
     1, 4, 0, 0, 0, 4, 0, 0, 0, 3, 4, 0, 0, 0, 80, 0, 24, 0]"

lemma sample_log_encoded: "encode_log 7 3 [[Output (js ''hi'')], [Resize 80 24]] = Some sample_log"
  by (simp add: encode_log_def encodeLogBatch_def encodeFrame_def encode_record_def encodeSeqPayload_def to_uint32_def
      clampU16_def le32_def le16_def utf8_code_point_def is_surrogate_def is_high_surrogate_def is_low_surrogate_def
      encodeLogHeader_def LOG_MAGIC_def LOG_FORMAT_VERSION_def frame_kinds sample_log_def js_eval)

theorem torn_log_keeps_whole_frames_witness:
  "\<exists>k c. whole_frames (log_items 3 [[Output (js ''hi'')], [Resize 80 24]]) 31 k \<and>
     decodeTerminalHistoryLog (take 40 sample_log) = Some c \<and> lc_generation c = 7 \<and>
     batch_items (lc_batches c) = take k (map stored_item (log_items 3 [[Output (js ''hi'')], [Resize 80 24]]))"
proof -
  have h: "(3::nat) + length [[Output (js ''hi'')], [Resize 80 24]] \<le> 2 ^ 32" by simp
  have p: "prefix (take 40 sample_log) sample_log" by (rule take_is_prefix)
  have l: "9 \<le> length (take 40 sample_log)" by (simp add: sample_log_def)
  have n: "length (take 40 sample_log) - 9 = 31" "to_uint32 7 = 7" by (simp_all add: sample_log_def to_uint32_def)
  show ?thesis using torn_log_keeps_whole_frames [OF sample_log_encoded h p l] unfolding n by blast
qed

theorem log_roundtrip_witness:
  "map lb_seq (lc_batches (the (decodeTerminalHistoryLog sample_log))) = [3, 4]"
proof -
  have h: "(3::nat) + length [[Output (js ''hi'')], [Resize 80 24]] \<le> 2 ^ 32" by simp
  show ?thesis using log_roundtrip [OF sample_log_encoded h] by (simp add: stored_batches_def)
qed

theorem lost_batch_is_refused_witness:
  "decodeTerminalHistoryLog (sample_log @ the (encodeLogBatch 9 [ClearScreen]) @ []) = None"
proof -
  have h: "(3::nat) + length [[Output (js ''hi'')], [Resize 80 24]] \<le> 2 ^ 32" "[[Output (js ''hi'')], [Resize 80 24]] \<noteq> []"
    by simp_all
  have e: "encodeLogBatch (int 9) [ClearScreen] = Some (the (encodeLogBatch 9 [ClearScreen]))"
    by (simp add: encodeLogBatch_def encodeFrame_def encode_record_def encodeSeqPayload_def)
  have m: "(9::nat) < 2 ^ 32" "(9::nat) \<noteq> 3 + length [[Output (js ''hi'')], [Resize 80 24]]" by simp_all
  show ?thesis by (rule lost_batch_is_refused [OF sample_log_encoded h e m])
qed

end
