(* ===== verification/Relay_Message.thy ===== *)
theory Relay_Message
  imports Relay_Frame
begin

text \<open>
  The messages inside relay frames, the parsing functions of \<open>src/relay/protocol.ts\<close>: a frame's payload is
  decoded as UTF-8, parsed as JSON and checked for its version or kind.  A thrown error is \<open>Inl\<close> of its kind.
\<close>

subsection \<open>Parsing\<close>

datatype parse_error =
    JsonSyntaxError
  | NullMessage                     \<comment> \<open>reading a property of null\<close>
  | InvalidVersion "json option"    \<comment> \<open>\<open>Invalid JSON-RPC version\<close>\<close>
  | UnknownHandshake "json option"  \<comment> \<open>\<open>Unknown handshake type\<close>\<close>

text \<open>Reading a property of a parsed value; \<open>None\<close> inside \<open>Inr\<close> is undefined.\<close>

fun read_prop :: "jsstr \<Rightarrow> json \<Rightarrow> parse_error + json option" where
  "read_prop k JNull = Inl NullMessage"
| "read_prop k (JObj ms) = Inr (map_of ms k)"
| "read_prop k v = Inr None"

definition parseJsonRpcMessage :: "bytes \<Rightarrow> parse_error + json" where
  "parseJsonRpcMessage payload =
     (case json_parse (utf8_decode payload) of
        None \<Rightarrow> Inl JsonSyntaxError
      | Some msg \<Rightarrow>
          (case read_prop (js ''jsonrpc'') msg of
             Inl e \<Rightarrow> Inl e
           | Inr v \<Rightarrow> if v \<noteq> Some (JStr (js ''2.0'')) then Inl (InvalidVersion v) else Inr msg))"

definition parseHandshakeMessage :: "bytes \<Rightarrow> parse_error + json" where
  "parseHandshakeMessage payload =
     (case json_parse (utf8_decode payload) of
        None \<Rightarrow> Inl JsonSyntaxError
      | Some msg \<Rightarrow>
          (case read_prop (js ''type'') msg of
             Inl e \<Rightarrow> Inl e
           | Inr t \<Rightarrow>
               if t \<noteq> Some (JStr (js ''orca-relay-handshake'')) \<and> t \<noteq> Some (JStr (js ''orca-relay-handshake-ok'')) \<and>
                  t \<noteq> Some (JStr (js ''orca-relay-handshake-mismatch''))
               then Inl (UnknownHandshake t) else Inr msg))"

subsection \<open>Printed JSON has no lone surrogates\<close>

lemma hex4_small: "c \<in> set (hex4 u) \<Longrightarrow> \<not> is_surrogate c"
proof -
  have "d < 16 \<Longrightarrow> \<not> is_surrogate (hex_digit d)" for d
    by (drule word16_lt16_cases, elim disjE)
      (simp_all add: hex_digit_def is_surrogate_def is_high_surrogate_def is_low_surrogate_def)
  moreover have "u mod 16 < 16" "u div 16 mod 16 < 16" "u div 16 div 16 mod 16 < 16"
      "u div 16 div 16 div 16 < 16" for u :: jschar
    using unsigned_less [of u, where ?'a = nat] by (simp_all add: word_less_nat_alt unat_mod unat_div)
  ultimately show "c \<in> set (hex4 u) \<Longrightarrow> \<not> is_surrogate c" by (auto simp: hex4_def)
qed

lemma escape_char_plain: "\<not> is_surrogate c \<Longrightarrow> d \<in> set (escape_char c) \<Longrightarrow> \<not> is_surrogate d"
  using hex4_small [of d c]
  by (auto simp: escape_char_def is_surrogate_def is_high_surrogate_def is_low_surrogate_def split: if_splits)

lemma escape_str_well_formed: "well_formed (escape_str s)"
proof (induction s rule: escape_str.induct)
  case (2 c s)
  show ?case
  proof (cases "is_high_surrogate c \<and> s \<noteq> [] \<and> is_low_surrogate (hd s)")
    case True
    then show ?thesis using "2.IH"(1) by (simp add: well_formed_def)
  next
    case F: False
    have u: "well_formed (92 # 117 # hex4 c)"
      using hex4_small [of _ c]
      by (intro well_formed_plain) (auto simp: is_surrogate_def is_high_surrogate_def is_low_surrogate_def)
    show ?thesis
    proof (cases "is_surrogate c")
      case True
      then have "escape_str (c # s) = (92 # 117 # hex4 c) @ escape_str s" using F by (auto simp: is_surrogate_def)
      moreover have "well_formed (escape_str s)" using "2.IH"(2) F True by (simp add: is_surrogate_def)
      ultimately show ?thesis using well_formed_append [OF u] by metis
    next
      case False
      then have "escape_str (c # s) = escape_char c @ escape_str s" using F by (auto simp: is_surrogate_def)
      moreover have "well_formed (escape_str s)" using "2.IH"(3) F False by (auto simp: is_surrogate_def)
      moreover have "well_formed (escape_char c)" using escape_char_plain [OF False] by (intro well_formed_plain) blast
      ultimately show ?thesis using well_formed_append by metis
    qed
  qed
qed (simp add: well_formed_def)

lemma quote_str_well_formed: "well_formed (quote_str s)"
  using well_formed_append [OF ascii_well_formed [of 34] well_formed_append [OF escape_str_well_formed [of s] ascii_well_formed [of 34]]]
  by (simp add: quote_str_def)

lemma join_well_formed: "well_formed d \<Longrightarrow> (\<And>x. x \<in> set xs \<Longrightarrow> well_formed x) \<Longrightarrow> well_formed (join d xs)"
proof (induction d xs rule: join.induct)
  case (3 d x y xs)
  then show ?case by (auto intro!: well_formed_append)
qed (auto simp: well_formed_def [of "[]"])

lemma stringify_well_formed: "json_ok v \<Longrightarrow> well_formed (json_stringify v)"
proof (induction v)
  case (JNum l)
  have "num_char c \<Longrightarrow> \<not> is_surrogate c" for c
    by (auto simp: num_char_def is_digit_def surrogate_range word_le_nat_alt)
  with JNum show ?case by (auto intro!: well_formed_plain simp: list_all_iff)
next
  case (JArr vs)
  then have "well_formed (join [44] (map json_stringify vs))"
    by (intro join_well_formed) (auto simp: list_all_iff ascii_well_formed)
  then have "well_formed ([91] @ join [44] (map json_stringify vs) @ [93])"
    by (intro well_formed_append ascii_well_formed) simp_all
  then show ?case by simp
next
  case (JObj ms)
  have "well_formed (quote_str k @ [58] @ json_stringify v)" if "(k, v) \<in> set ms" for k v
  proof -
    have "json_ok v" using JObj.prems that by (auto simp: list_all_iff)
    then have "well_formed (json_stringify v)" using JObj.IH [of "(k, v)" v] that by simp
    then show ?thesis by (intro well_formed_append quote_str_well_formed ascii_well_formed) simp_all
  qed
  then have "well_formed (join [44] (map print_member ms))"
    by (intro join_well_formed) (auto simp: ascii_well_formed)
  then have "well_formed ([123] @ join [44] (map print_member ms) @ [125])"
    by (intro well_formed_append ascii_well_formed) simp_all
  then show ?case by simp
qed (auto simp: quote_str_well_formed js_eval is_surrogate_def is_high_surrogate_def is_low_surrogate_def intro!: well_formed_plain)

lemma decode_stringify: "json_ok v \<Longrightarrow> json_parse (utf8_decode (utf8_encode (json_stringify v))) = Some v"
  using stringify_well_formed [of v] by (simp add: decode_encode well_formed_def json_parse_stringify)

subsection \<open>What is sent is what is received\<close>

definition is_rpc :: "json \<Rightarrow> bool" where
  "is_rpc msg \<longleftrightarrow> json_ok msg \<and> read_prop (js ''jsonrpc'') msg = Inr (Some (JStr (js ''2.0'')))"

lemma parse_rpc: "is_rpc msg \<Longrightarrow> parseJsonRpcMessage (utf8_encode (json_stringify msg)) = Inr msg"
  by (simp add: is_rpc_def parseJsonRpcMessage_def decode_stringify)

text \<open>How a receiver of regular frames reads what its decoder reports.\<close>

fun rpc_of_decoded :: "decoded \<Rightarrow> (nat \<times> nat \<times> (parse_error + json)) option" where
  "rpc_of_decoded (DecodedFrame ty i ack p) =
     (if ty = of_nat (relay_type_code Regular) then Some (i, ack, parseJsonRpcMessage p) else None)"
| "rpc_of_decoded _ = None"

text \<open>
  A message arrives as it was sent.  JSON-RPC messages that were encoded, whatever text they hold, come
  out of the decoder and the parser with their ids, in order and for every way of cutting the bytes.
\<close>

theorem rpc_messages_end_to_end:
  assumes "list_all2 (\<lambda>(msg, i, ack) f. is_rpc msg \<and> encodeJsonRpcFrame msg i ack = Some f) msgs frames"
    and "concat chunks = concat frames"
  shows "\<exists>out. feed_all fd_feed chunks fd_init = (fd_init, out) \<and>
     map rpc_of_decoded out = map (\<lambda>(msg, i, ack). Some (i, ack, Inr msg)) msgs"
proof -
  let ?raw = "\<lambda>(msg, i, ack). (relay_type_code Regular, i, ack, utf8_encode (json_stringify msg))"
  have "list_all2 (\<lambda>(ty, i, ack, p) f. encodeFrame ty i ack p = Some f) (map ?raw msgs) frames \<and>
      map rpc_of_decoded (map expected_frame (map ?raw msgs)) = map (\<lambda>(msg, i, ack). Some (i, ack, Inr msg)) msgs"
    using assms(1)
    by (induction rule: list_all2_induct)
      (auto simp: encodeJsonRpcFrame_def Let_def parse_rpc split: if_splits)
  then show ?thesis using relay_frames_core [OF _ assms(2)] by blast
qed

definition ping :: json where
  "ping = JObj [(js ''jsonrpc'', JStr (js ''2.0'')), (js ''method'', JStr [0xD83D, 0xDE00, 0xD800])]"

lemma ping_is_rpc: "is_rpc ping"
  by (simp add: is_rpc_def ping_def js_eval)

lemma length_escape_str: "length (escape_str s) \<le> 6 * length s"
proof (induction s rule: escape_str.induct)
  case (2 c s)
  have "length (escape_char c) \<le> 6" by (simp add: escape_char_def)
  then show ?case using 2 by (cases s) auto
qed simp

lemma ping_encodes: "\<exists>f. encodeJsonRpcFrame ping 3 2 = Some f"
proof -
  have "length (json_stringify ping) \<le> 1000"
    using length_escape_str [of "js ''jsonrpc''"] length_escape_str [of "js ''2.0''"] length_escape_str [of "js ''method''"]
      length_escape_str [of "[0xD83D, 0xDE00, 0xD800]"]
    by (simp add: ping_def quote_str_def js_def del: escape_str.simps)
  then have "length (utf8_encode (json_stringify ping)) \<le> 3000"
    using length_utf8_le [of "json_stringify ping"] by linarith
  then have "length (utf8_encode (json_stringify ping)) \<le> MAX_MESSAGE_SIZE \<and>
      length (utf8_encode (json_stringify ping)) < 2 ^ 32" by (simp add: MAX_MESSAGE_SIZE_def)
  then show ?thesis by (simp add: encodeJsonRpcFrame_def Let_def encodeFrame_def)
qed

lemma concat_singletons: "concat (map (\<lambda>b. [b]) xs) = xs"
  by (induction xs) simp_all

text \<open>An emoji and a lone surrogate, one byte at a time.\<close>

theorem rpc_messages_end_to_end_witness:
  "let f = the (encodeJsonRpcFrame ping 3 2)
   in \<exists>out. feed_all fd_feed (map (\<lambda>b. [b]) f) fd_init = (fd_init, out) \<and> map rpc_of_decoded out = [Some (3, 2, Inr ping)]"
proof -
  let ?f = "the (encodeJsonRpcFrame ping 3 2)"
  have 1: "list_all2 (\<lambda>(msg, i, ack) f. is_rpc msg \<and> encodeJsonRpcFrame msg i ack = Some f) [(ping, 3, 2)] [?f]"
    using ping_encodes ping_is_rpc by (auto simp del: option.collapse)
  have 2: "concat (map (\<lambda>b. [b]) ?f) = concat [?f]" by (simp add: concat_singletons)
  show ?thesis using rpc_messages_end_to_end [OF 1 2] by (simp add: Let_def)
qed

text \<open>A handshake frame carries its message through the same way.\<close>

lemma handshake_roundtrip:
  assumes "json_ok msg" and "read_prop (js ''type'') msg = Inr (Some (JStr t))"
    and "t = js ''orca-relay-handshake'' \<or> t = js ''orca-relay-handshake-ok'' \<or> t = js ''orca-relay-handshake-mismatch''"
    and "encodeHandshakeFrame msg = Some f"
  shows "parseHandshakeMessage (drop HEADER_LENGTH f) = Inr msg"
proof -
  have "drop HEADER_LENGTH f = utf8_encode (json_stringify msg)"
    using assms(4) by (auto simp: encodeHandshakeFrame_def encodeFrame_def HEADER_LENGTH_def be32_def split: if_splits)
  then show ?thesis using assms(1-3) by (auto simp: parseHandshakeMessage_def decode_stringify)
qed

end
