(* ===== verification/E2ee_Frame.thy ===== *)
theory E2ee_Frame
  imports Framing Prelude_Js "HOL-Library.Sublist"
begin

text \<open>
  The encrypted channel between the desktop and a paired phone: frames, \<open>src/shared/mobile-e2ee-v2-framing.ts\<close>,
  and the two ends that count them, \<open>src/main/runtime/rpc/mobile-e2ee-v2-desktop-session.ts\<close> and
  \<open>mobile/src/transport/mobile-e2ee-v2-client-session.ts\<close>.  The cipher, \<open>nacl.secretbox\<close>, is a parameter; what is
  documented of it is \<open>box_laws\<close>.  A thrown error is \<open>Inl\<close> of its kind.
\<close>

subsection \<open>The cipher\<close>

record secretbox =
  box_key_length :: nat
  box_overhead :: nat
  box_seal :: "bytes \<Rightarrow> bytes \<Rightarrow> bytes \<Rightarrow> bytes"
  box_open :: "bytes \<Rightarrow> bytes \<Rightarrow> bytes \<Rightarrow> bytes option"

text \<open>
  For a nonce of 24 bytes and a key of the right length, sealing adds a fixed overhead and opening accepts
  exactly what sealing gives: the box is deterministic and carries an authenticator.
\<close>

definition box_laws :: "secretbox \<Rightarrow> bool" where
  "box_laws B \<longleftrightarrow> (\<forall>c m n k. length n = 24 \<longrightarrow> length k = box_key_length B \<longrightarrow>
     (box_open B c n k = Some m \<longleftrightarrow> c = box_seal B m n k) \<and> length (box_seal B m n k) = box_overhead B + length m)"

subsection \<open>Frames\<close>

datatype direction = MobileToDesktop | DesktopToMobile

datatype payload_kind = KText | KBinary

datatype frame_error = BadKeyLength nat | BadSessionIdLength nat | BadCounter int | NotReady

definition NONCE_LENGTH :: nat where "NONCE_LENGTH = 24"
definition SESSION_ID_LENGTH :: nat where "SESSION_ID_LENGTH = 32"
definition HEADER_LENGTH :: nat where "HEADER_LENGTH = SESSION_ID_LENGTH + 1 + 1 + 8"
definition FRAME_VERSION :: "8 word" where "FRAME_VERSION = 2"
definition MAX_COUNTER :: int where "MAX_COUNTER = 2 ^ 64 - 1"

definition directionByte :: "direction \<Rightarrow> 8 word" where
  "directionByte d = (if d = MobileToDesktop then 0 else 1)"

definition payloadKindByte :: "payload_kind \<Rightarrow> 8 word" where
  "payloadKindByte k = (if k = KText then 0 else 1)"

definition validateFrameInputs :: "secretbox \<Rightarrow> bytes \<Rightarrow> bytes \<Rightarrow> int \<Rightarrow> frame_error option" where
  "validateFrameInputs B key sid counter =
     (if length key \<noteq> box_key_length B then Some (BadKeyLength (length key))
      else if length sid \<noteq> SESSION_ID_LENGTH then Some (BadSessionIdLength (length sid))
      else if counter < 0 \<or> counter > MAX_COUNTER then Some (BadCounter counter)
      else None)"

text \<open>\<open>writeUint64\<close>: the last \<open>n\<close> bytes of a number, most significant first.\<close>

fun write_uint :: "nat \<Rightarrow> int \<Rightarrow> bytes" where
  "write_uint 0 v = []"
| "write_uint (Suc n) v = write_uint n (v div 256) @ [of_int (v mod 256)]"

definition encodeHeader :: "bytes \<Rightarrow> direction \<Rightarrow> payload_kind \<Rightarrow> int \<Rightarrow> bytes" where
  "encodeHeader sid d k counter = sid @ [directionByte d, payloadKindByte k] @ write_uint 8 counter"

definition encodeNonce :: "bytes \<Rightarrow> direction \<Rightarrow> payload_kind \<Rightarrow> int \<Rightarrow> bytes" where
  "encodeNonce sid d k counter =
     take 12 sid @ [FRAME_VERSION, directionByte d, payloadKindByte k, 0] @ write_uint 8 counter"

definition sealMobileE2EEV2Frame ::
    "secretbox \<Rightarrow> bytes \<Rightarrow> bytes \<Rightarrow> bytes \<Rightarrow> direction \<Rightarrow> payload_kind \<Rightarrow> int \<Rightarrow> frame_error + bytes" where
  "sealMobileE2EEV2Frame B payload key sid d k counter =
     (case validateFrameInputs B key sid counter of
        Some e \<Rightarrow> Inl e
      | None \<Rightarrow> Inr (encodeNonce sid d k counter @
                   box_seal B (encodeHeader sid d k counter @ payload) (encodeNonce sid d k counter) key))"

text \<open>\<open>equalBytes\<close>: the differences of the bytes are collected, so the time taken does not depend on them.\<close>

definition equalBytes :: "bytes \<Rightarrow> bytes \<Rightarrow> bool" where
  "equalBytes left right \<longleftrightarrow>
     length left = length right \<and>
     foldl (\<lambda>d i. or d (xor (left ! i) (right ! i))) 0 [0..<length left] = 0"

definition openMobileE2EEV2Frame ::
    "secretbox \<Rightarrow> bytes \<Rightarrow> bytes \<Rightarrow> bytes \<Rightarrow> direction \<Rightarrow> payload_kind \<Rightarrow> int \<Rightarrow> frame_error + bytes option" where
  "openMobileE2EEV2Frame B frame key sid d k expected =
     (case validateFrameInputs B key sid expected of
        Some e \<Rightarrow> Inl e
      | None \<Rightarrow>
          if length frame < NONCE_LENGTH + box_overhead B + HEADER_LENGTH then Inr None
          else let nonce = encodeNonce sid d k expected
               in if \<not> equalBytes (take NONCE_LENGTH frame) nonce then Inr None
                  else (case box_open B (drop NONCE_LENGTH frame) nonce key of
                          None \<Rightarrow> Inr None
                        | Some plain \<Rightarrow>
                            if \<not> equalBytes (take HEADER_LENGTH plain) (encodeHeader sid d k expected) then Inr None
                            else Inr (Some (drop HEADER_LENGTH plain))))"

subsection \<open>The two ends\<close>

record key_schedule =
  ks_mobile_to_desktop :: bytes
  ks_desktop_to_mobile :: bytes
  ks_session_id :: bytes
  ks_transcript_hash :: bytes

record desktop_session =
  ds_inbound :: int
  ds_outbound :: int
  ds_schedule :: key_schedule

record client_session =
  cs_inbound :: int
  cs_outbound :: int
  cs_schedule :: "key_schedule option"

definition desktop_open ::
    "secretbox \<Rightarrow> bytes \<Rightarrow> payload_kind \<Rightarrow> desktop_session \<Rightarrow> desktop_session \<times> (frame_error + bytes option)" where
  "desktop_open B frame k s =
     (let r = openMobileE2EEV2Frame B frame (ks_mobile_to_desktop (ds_schedule s)) (ks_session_id (ds_schedule s))
                MobileToDesktop k (ds_inbound s)
      in (case r of Inr (Some _) \<Rightarrow> s\<lparr>ds_inbound := ds_inbound s + 1\<rparr> | _ \<Rightarrow> s, r))"

definition desktop_seal ::
    "secretbox \<Rightarrow> bytes \<Rightarrow> payload_kind \<Rightarrow> desktop_session \<Rightarrow> desktop_session \<times> (frame_error + bytes)" where
  "desktop_seal B plain k s =
     (let r = sealMobileE2EEV2Frame B plain (ks_desktop_to_mobile (ds_schedule s)) (ks_session_id (ds_schedule s))
                DesktopToMobile k (ds_outbound s)
      in (case r of Inr _ \<Rightarrow> s\<lparr>ds_outbound := ds_outbound s + 1\<rparr> | _ \<Rightarrow> s, r))"

definition client_open ::
    "secretbox \<Rightarrow> bytes \<Rightarrow> payload_kind \<Rightarrow> client_session \<Rightarrow> client_session \<times> (frame_error + bytes option)" where
  "client_open B frame k s =
     (case cs_schedule s of
        None \<Rightarrow> (s, Inr None)
      | Some ks \<Rightarrow>
          let r = openMobileE2EEV2Frame B frame (ks_desktop_to_mobile ks) (ks_session_id ks) DesktopToMobile k (cs_inbound s)
          in (case r of Inr (Some _) \<Rightarrow> s\<lparr>cs_inbound := cs_inbound s + 1\<rparr> | _ \<Rightarrow> s, r))"

definition client_seal ::
    "secretbox \<Rightarrow> bytes \<Rightarrow> payload_kind \<Rightarrow> client_session \<Rightarrow> client_session \<times> (frame_error + bytes)" where
  "client_seal B plain k s =
     (case cs_schedule s of
        None \<Rightarrow> (s, Inl NotReady)
      | Some ks \<Rightarrow>
          let r = sealMobileE2EEV2Frame B plain (ks_mobile_to_desktop ks) (ks_session_id ks) MobileToDesktop k (cs_outbound s)
          in (case r of Inr _ \<Rightarrow> s\<lparr>cs_outbound := cs_outbound s + 1\<rparr> | _ \<Rightarrow> s, r))"

subsection \<open>Byte comparison and counters\<close>

lemma fold_or_zero:
  "foldl (\<lambda>d i. or d (f i)) a is = (0 :: 8 word) \<longleftrightarrow> a = 0 \<and> (\<forall>i \<in> set is. f i = 0)"
  by (induction "is" arbitrary: a) (auto simp: or_eq_0_iff)

lemma xor_zero_iff: "xor x y = 0 \<longleftrightarrow> x = (y :: 8 word)"
proof
  assume "xor x y = 0"
  then have "xor (xor x y) y = y" by simp
  then show "x = y" by (simp add: xor.assoc)
qed simp

lemma equalBytes_iff: "equalBytes a b \<longleftrightarrow> a = b"
  unfolding equalBytes_def fold_or_zero xor_zero_iff list_eq_iff_nth_eq by auto

lemma length_write_uint [simp]: "length (write_uint n v) = n"
  by (induction n arbitrary: v) auto

lemma write_uint_inj:
  "0 \<le> v \<Longrightarrow> v < 256 ^ n \<Longrightarrow> 0 \<le> w \<Longrightarrow> w < 256 ^ n \<Longrightarrow> write_uint n v = write_uint n w \<Longrightarrow> v = w"
proof (induction n arbitrary: v w)
  case (Suc n)
  have b: "v mod 256 = w mod 256"
  proof -
    have "(of_int (v mod 256) :: 8 word) = of_int (w mod 256)" using Suc.prems(5) by simp
    then have "uint (of_int (v mod 256) :: 8 word) = uint (of_int (w mod 256) :: 8 word)" by simp
    then show ?thesis by (simp add: uint_word_of_int_eq take_bit_eq_mod)
  qed
  have "v div 256 < 256 ^ n" "w div 256 < 256 ^ n" using Suc.prems by (simp_all add: div_less_iff_less_mult mult.commute)
  then have "v div 256 = w div 256" using Suc.IH [of "v div 256" "w div 256"] Suc.prems by simp
  then show ?case using b by (metis mult_div_mod_eq)
qed simp

definition counter_ok :: "int \<Rightarrow> bool" where
  "counter_ok c \<longleftrightarrow> 0 \<le> c \<and> c \<le> MAX_COUNTER"

lemma encodeNonce_inj:
  assumes "counter_ok c" and "counter_ok c'" and "encodeNonce sid d k c = encodeNonce sid d' k' c'"
  shows "d = d' \<and> k = k' \<and> c = c'"
proof -
  have "write_uint 8 c = write_uint 8 c'" "directionByte d = directionByte d'" "payloadKindByte k = payloadKindByte k'"
    using assms(3) by (auto simp: encodeNonce_def)
  moreover have "c = c'"
    using calculation(1) assms(1,2) by (intro write_uint_inj [of c 8 c']) (simp_all add: counter_ok_def MAX_COUNTER_def)
  ultimately show ?thesis by (auto simp: directionByte_def payloadKindByte_def split: if_splits intro: direction.exhaust payload_kind.exhaust)
qed

subsection \<open>What opening accepts\<close>

definition frame_of :: "secretbox \<Rightarrow> bytes \<Rightarrow> bytes \<Rightarrow> direction \<Rightarrow> payload_kind \<Rightarrow> int \<Rightarrow> bytes \<Rightarrow> bytes" where
  "frame_of B key sid d k c p =
     encodeNonce sid d k c @ box_seal B (encodeHeader sid d k c @ p) (encodeNonce sid d k c) key"

lemma seal_frame_of:
  "validateFrameInputs B key sid c = None \<Longrightarrow> sealMobileE2EEV2Frame B p key sid d k c = Inr (frame_of B key sid d k c p)"
  by (simp add: sealMobileE2EEV2Frame_def frame_of_def)

lemma validate_None:
  "validateFrameInputs B key sid c = None \<longleftrightarrow> length key = box_key_length B \<and> length sid = 32 \<and> counter_ok c"
  by (auto simp: validateFrameInputs_def SESSION_ID_LENGTH_def counter_ok_def)

lemma length_nonce: "length sid = 32 \<Longrightarrow> length (encodeNonce sid d k c) = 24"
  by (simp add: encodeNonce_def)

lemma length_header: "length sid = 32 \<Longrightarrow> length (encodeHeader sid d k c) = 42"
  by (simp add: encodeHeader_def)

lemma open_core:
  assumes "box_laws B" and "validateFrameInputs B key sid c = None"
  shows "openMobileE2EEV2Frame B f key sid d k c = Inr (Some p) \<longleftrightarrow> f = frame_of B key sid d k c p"
proof -
  have l: "length key = box_key_length B" "length sid = 32" using assms(2) by (simp_all add: validate_None)
  let ?n = "encodeNonce sid d k c" and ?h = "encodeHeader sid d k c"
  have n: "length ?n = 24" and h: "length ?h = 42" using l by (simp_all add: length_nonce length_header)
  have box: "box_open B b ?n key = Some m \<longleftrightarrow> b = box_seal B m ?n key"
    "length (box_seal B m ?n key) = box_overhead B + length m" for b m
    using assms(1) l n by (auto simp: box_laws_def)
  have lens: "NONCE_LENGTH = 24" "HEADER_LENGTH = 42"
    by (simp_all add: NONCE_LENGTH_def HEADER_LENGTH_def SESSION_ID_LENGTH_def)
  show ?thesis
  proof
    assume "openMobileE2EEV2Frame B f key sid d k c = Inr (Some p)"
    then obtain plain where o: "take 24 f = ?n" "box_open B (drop 24 f) ?n key = Some plain"
        "take 42 plain = ?h" "p = drop 42 plain"
      using assms(2) by (auto simp: openMobileE2EEV2Frame_def Let_def equalBytes_iff lens split: if_splits option.splits)
    then have "plain = ?h @ p" by (metis append_take_drop_id)
    then have "drop 24 f = box_seal B (?h @ p) ?n key" using o(2) box(1) by simp
    then show "f = frame_of B key sid d k c p" using o(1) unfolding frame_of_def by (metis append_take_drop_id)
  next
    assume f: "f = frame_of B key sid d k c p"
    have "length f = 24 + (box_overhead B + (42 + length p))" using n h box(2) by (simp add: f frame_of_def)
    moreover have "take 24 f = ?n" "drop 24 f = box_seal B (?h @ p) ?n key" using n by (simp_all add: f frame_of_def)
    moreover have "box_open B (box_seal B (?h @ p) ?n key) ?n key = Some (?h @ p)" using box(1) by simp
    ultimately show "openMobileE2EEV2Frame B f key sid d k c = Inr (Some p)"
      using assms(2) h by (simp add: openMobileE2EEV2Frame_def Let_def equalBytes_iff lens)
  qed
qed

text \<open>
  A frame is opened to a payload exactly when it is the frame that sealing this payload with the same
  key, session, direction, kind and counter gives; every other byte string is refused.
\<close>

theorem open_accepts_exactly_sealed:
  assumes "box_laws B" and "validateFrameInputs B key sid c = None"
  shows "openMobileE2EEV2Frame B f key sid d k c = Inr (Some p) \<longleftrightarrow> sealMobileE2EEV2Frame B p key sid d k c = Inr f"
  using open_core [OF assms] seal_frame_of [OF assms(2)] by auto

subsection \<open>The channel\<close>

text \<open>One end seals a list of messages; the other is handed frames, each as text or binary.\<close>

fun client_seal_all :: "secretbox \<Rightarrow> (payload_kind \<times> bytes) list \<Rightarrow> client_session \<Rightarrow> client_session \<times> (frame_error + bytes) list" where
  "client_seal_all B [] s = (s, [])"
| "client_seal_all B ((k, p) # ms) s =
     (let (s1, r) = client_seal B p k s; (s2, rs) = client_seal_all B ms s1 in (s2, r # rs))"

fun desktop_seal_all :: "secretbox \<Rightarrow> (payload_kind \<times> bytes) list \<Rightarrow> desktop_session \<Rightarrow> desktop_session \<times> (frame_error + bytes) list" where
  "desktop_seal_all B [] s = (s, [])"
| "desktop_seal_all B ((k, p) # ms) s =
     (let (s1, r) = desktop_seal B p k s; (s2, rs) = desktop_seal_all B ms s1 in (s2, r # rs))"

text \<open>What a receiver makes of the frames: the messages it accepts, in order.\<close>

fun receive :: "(bytes \<Rightarrow> payload_kind \<Rightarrow> 's \<Rightarrow> 's \<times> (frame_error + bytes option)) \<Rightarrow> (payload_kind \<times> bytes) list \<Rightarrow> 's \<Rightarrow>
    's \<times> (payload_kind \<times> bytes) list" where
  "receive op [] s = (s, [])"
| "receive op ((k, f) # net) s =
     (let (s1, r) = op f k s; (s2, ms) = receive op net s1
      in (s2, (case r of Inr (Some p) \<Rightarrow> [(k, p)] | _ \<Rightarrow> []) @ ms))"

definition good_keys :: "secretbox \<Rightarrow> key_schedule \<Rightarrow> bool" where
  "good_keys B ks \<longleftrightarrow> length (ks_mobile_to_desktop ks) = box_key_length B \<and>
     length (ks_desktop_to_mobile ks) = box_key_length B \<and> length (ks_session_id ks) = 32"

text \<open>The frames of a list of messages in one direction, numbered from \<open>n\<close>.\<close>

definition frames_from :: "secretbox \<Rightarrow> bytes \<Rightarrow> bytes \<Rightarrow> direction \<Rightarrow> nat \<Rightarrow> (payload_kind \<times> bytes) list \<Rightarrow> bytes list" where
  "frames_from B key sid d n ms = map (\<lambda>(i, k, p). frame_of B key sid d k (int i) p) (enumerate n ms)"

lemma counter_ok_nat: "n < 2 ^ 64 \<Longrightarrow> counter_ok (int n)"
  by (simp add: counter_ok_def MAX_COUNTER_def)

lemma client_seal_all_frames:
  "good_keys B ks \<Longrightarrow> cs_schedule s = Some ks \<Longrightarrow> cs_outbound s = int n \<Longrightarrow> n + length ms \<le> 2 ^ 64 \<Longrightarrow>
   snd (client_seal_all B ms s) = map Inr (frames_from B (ks_mobile_to_desktop ks) (ks_session_id ks) MobileToDesktop n ms)"
proof (induction ms arbitrary: n s)
  case (Cons m ms)
  obtain k p where m: "m = (k, p)" by (cases m)
  have v: "validateFrameInputs B (ks_mobile_to_desktop ks) (ks_session_id ks) (int n) = None"
    using Cons.prems counter_ok_nat [of n] by (simp add: validate_None good_keys_def)
  let ?s = "s\<lparr>cs_outbound := int n + 1\<rparr>"
  have "client_seal B p k s = (?s, Inr (frame_of B (ks_mobile_to_desktop ks) (ks_session_id ks) MobileToDesktop k (int n) p))"
    using Cons.prems seal_frame_of [OF v] by (simp add: client_seal_def Let_def)
  moreover have "snd (client_seal_all B ms ?s) = map Inr (frames_from B (ks_mobile_to_desktop ks) (ks_session_id ks) MobileToDesktop (Suc n) ms)"
    using Cons.prems by (intro Cons.IH) simp_all
  ultimately show ?case by (simp add: m frames_from_def case_prod_unfold Let_def)
qed (simp add: frames_from_def)

lemma desktop_seal_all_frames:
  "good_keys B ks \<Longrightarrow> ds_schedule s = ks \<Longrightarrow> ds_outbound s = int n \<Longrightarrow> n + length ms \<le> 2 ^ 64 \<Longrightarrow>
   snd (desktop_seal_all B ms s) = map Inr (frames_from B (ks_desktop_to_mobile ks) (ks_session_id ks) DesktopToMobile n ms)"
proof (induction ms arbitrary: n s)
  case (Cons m ms)
  obtain k p where m: "m = (k, p)" by (cases m)
  have v: "validateFrameInputs B (ks_desktop_to_mobile ks) (ks_session_id ks) (int n) = None"
    using Cons.prems counter_ok_nat [of n] by (simp add: validate_None good_keys_def)
  let ?s = "s\<lparr>ds_outbound := int n + 1\<rparr>"
  have "desktop_seal B p k s = (?s, Inr (frame_of B (ks_desktop_to_mobile ks) (ks_session_id ks) DesktopToMobile k (int n) p))"
    using Cons.prems seal_frame_of [OF v] by (simp add: desktop_seal_def Let_def)
  moreover have "snd (desktop_seal_all B ms ?s) = map Inr (frames_from B (ks_desktop_to_mobile ks) (ks_session_id ks) DesktopToMobile (Suc n) ms)"
    using Cons.prems by (intro Cons.IH) simp_all
  ultimately show ?case by (simp add: m frames_from_def case_prod_unfold Let_def)
qed (simp add: frames_from_def)

text \<open>
  A receiver that opens its frames at a counter: it accepts a frame only as the one sealed at its counter, and
  then counts it.
\<close>

definition opens_at :: "secretbox \<Rightarrow> bytes \<Rightarrow> bytes \<Rightarrow> direction \<Rightarrow>
    (bytes \<Rightarrow> payload_kind \<Rightarrow> 's \<Rightarrow> 's \<times> (frame_error + bytes option)) \<Rightarrow> ('s \<Rightarrow> int) \<Rightarrow> ('s \<Rightarrow> bool) \<Rightarrow> bool" where
  "opens_at B key sid d op inb ok \<longleftrightarrow>
     (\<forall>s f k. ok s \<longrightarrow> ok (fst (op f k s)) \<and>
        (\<forall>p. snd (op f k s) = Inr (Some p) \<longleftrightarrow> counter_ok (inb s) \<and> f = frame_of B key sid d k (inb s) p) \<and>
        inb (fst (op f k s)) = (case snd (op f k s) of Inr (Some _) \<Rightarrow> inb s + 1 | _ \<Rightarrow> inb s))"

lemma frame_of_inj:
  assumes "box_laws B" and "length sid = 32" and "length key = box_key_length B"
    and "counter_ok c" and "counter_ok c'"
    and "frame_of B key sid d k c p = frame_of B key' sid d' k' c' p'"
  shows "d = d' \<and> k = k' \<and> c = c' \<and> (key = key' \<longrightarrow> p = p')"
proof -
  have "length (encodeNonce sid d k c) = length (encodeNonce sid d' k' c')" by (simp add: length_nonce assms(2))
  from append_eq_append_conv [OF disjI1 [OF this], THEN iffD1, OF assms(6) [unfolded frame_of_def]]
  have n: "encodeNonce sid d k c = encodeNonce sid d' k' c'"
    and b: "box_seal B (encodeHeader sid d k c @ p) (encodeNonce sid d k c) key =
      box_seal B (encodeHeader sid d' k' c' @ p') (encodeNonce sid d' k' c') key'"
    by blast+
  note e = encodeNonce_inj [OF assms(4,5) n]
  have "p = p'" if "key = key'"
  proof -
    have "box_open B (box_seal B (encodeHeader sid d k c @ p) (encodeNonce sid d k c) key) (encodeNonce sid d k c) key =
        Some (encodeHeader sid d k c @ x)" if "x = p \<or> x = p'" for x
      using assms(1-3) length_nonce [OF assms(2)] b e that \<open>key = key'\<close> unfolding box_laws_def by auto
    from this [of p] this [of p'] show ?thesis by simp
  qed
  then show ?thesis using e by simp
qed

lemma receive_prefix:
  assumes "box_laws B" and "length sid = 32" and "length key = box_key_length B" and "length ms \<le> 2 ^ 64" and "length rs \<le> 2 ^ 64"
    and op: "opens_at B key sid d op inb ok" and "d' \<noteq> d"
    and "snd ` set net \<subseteq> set (frames_from B key sid d 0 ms) \<union> set (frames_from B key' sid d' 0 rs)"
    and "ok s" and "inb s = int n" and "n \<le> length ms"
  shows "prefix (snd (receive op net s)) (drop n ms)"
  using assms(8-11)
proof (induction net arbitrary: s n)
  case (Cons kf net)
  obtain k f where kf: "kf = (k, f)" by (cases kf)
  let ?s = "fst (op f k s)" and ?r = "snd (op f k s)"
  have ok: "ok ?s" and acc: "\<And>p. ?r = Inr (Some p) \<longleftrightarrow> counter_ok (inb s) \<and> f = frame_of B key sid d k (inb s) p"
    and inb: "inb ?s = (case ?r of Inr (Some _) \<Rightarrow> inb s + 1 | _ \<Rightarrow> inb s)"
    using op Cons.prems(2) unfolding opens_at_def by blast+
  have step: "snd (receive op (kf # net) s) = (case ?r of Inr (Some p) \<Rightarrow> [(k, p)] | _ \<Rightarrow> []) @ snd (receive op net ?s)"
    by (simp add: kf case_prod_unfold Let_def)
  show ?case
  proof (cases "\<exists>p. ?r = Inr (Some p)")
    case False
    then have r: "(case ?r of Inr (Some p) \<Rightarrow> [(k, p)] | _ \<Rightarrow> []) = []" "inb ?s = int n"
      using inb Cons.prems(3) by (auto split: sum.splits option.splits)
    then show ?thesis using Cons.IH [OF _ ok r(2) Cons.prems(4)] Cons.prems(1) step by simp
  next
    case True
    then obtain p where p: "?r = Inr (Some p)" "counter_ok (int n)" "f = frame_of B key sid d k (int n) p"
      using acc Cons.prems(3) by auto
    have "f \<in> set (frames_from B key sid d 0 ms) \<or> f \<in> set (frames_from B key' sid d' 0 rs)"
      using Cons.prems(1) kf by auto
    then have "n < length ms \<and> ms ! n = (k, p)"
    proof
      assume "f \<in> set (frames_from B key sid d 0 ms)"
      then obtain i k' p' where i: "i < length ms" "ms ! i = (k', p')" "f = frame_of B key sid d k' (int i) p'"
        by (auto simp: frames_from_def in_set_conv_nth nth_enumerate_eq split: prod.splits)
      have "counter_ok (int i)" using i(1) assms(4) by (intro counter_ok_nat) simp
      then have "k = k' \<and> int n = int i \<and> p = p'"
        using frame_of_inj [OF assms(1-3) p(2), of "int i" d k p key d k' p'] p(3) i(3) by simp
      then show ?thesis using i by simp
    next
      assume "f \<in> set (frames_from B key' sid d' 0 rs)"
      then obtain i k' p' where i: "i < length rs" "f = frame_of B key' sid d' k' (int i) p'"
        by (auto simp: frames_from_def in_set_conv_nth nth_enumerate_eq split: prod.splits)
      have "counter_ok (int i)" using i(1) assms(5) by (intro counter_ok_nat) simp
      then have "d = d'"
        using frame_of_inj [OF assms(1-3) p(2), of "int i" d k p key' d' k' p'] p(3) i(2) by simp
      then show ?thesis using assms(7) by simp
    qed
    then have "drop n ms = (k, p) # drop (Suc n) ms" "Suc n \<le> length ms" by (auto simp: Cons_nth_drop_Suc [symmetric])
    moreover have "inb ?s = int (Suc n)" using inb p(1) Cons.prems(3) by simp
    ultimately show ?thesis using Cons.IH [OF _ ok, of "Suc n"] Cons.prems(1) step p(1) by simp
  qed
qed simp

lemma open_at_counter:
  assumes "box_laws B" and "length key = box_key_length B" and "length sid = 32"
  shows "openMobileE2EEV2Frame B f key sid d k c = Inr (Some p) \<longleftrightarrow> counter_ok c \<and> f = frame_of B key sid d k c p"
proof (cases "counter_ok c")
  case True
  then have "validateFrameInputs B key sid c = None" using assms by (simp add: validate_None)
  then show ?thesis using open_core [OF assms(1)] True by simp
next
  case False
  then obtain e where "validateFrameInputs B key sid c = Some e"
    using validate_None [of B key sid c] by (cases "validateFrameInputs B key sid c") auto
  then show ?thesis using False by (simp add: openMobileE2EEV2Frame_def)
qed

lemma desktop_opens:
  "box_laws B \<Longrightarrow> good_keys B ks \<Longrightarrow>
   opens_at B (ks_mobile_to_desktop ks) (ks_session_id ks) MobileToDesktop (desktop_open B) ds_inbound (\<lambda>s. ds_schedule s = ks)"
  unfolding opens_at_def desktop_open_def Let_def good_keys_def
  using open_at_counter [of B "ks_mobile_to_desktop ks" "ks_session_id ks"] by (auto split: sum.split option.split)

lemma client_opens:
  "box_laws B \<Longrightarrow> good_keys B ks \<Longrightarrow>
   opens_at B (ks_desktop_to_mobile ks) (ks_session_id ks) DesktopToMobile (client_open B) cs_inbound (\<lambda>s. cs_schedule s = Some ks)"
  unfolding opens_at_def client_open_def Let_def good_keys_def
  using open_at_counter [of B "ks_desktop_to_mobile ks" "ks_session_id ks"] by (auto split: sum.split option.split)

lemma receive_all:
  assumes op: "opens_at B key sid d op inb ok"
  shows "ok s \<Longrightarrow> inb s = int n \<Longrightarrow> n + length ms \<le> 2 ^ 64 \<Longrightarrow>
    snd (receive op (zip (map fst ms) (frames_from B key sid d n ms)) s) = ms"
proof (induction ms arbitrary: s n)
  case (Cons m ms)
  obtain k p where m: "m = (k, p)" by (cases m)
  let ?f = "frame_of B key sid d k (int n) p"
  let ?s = "fst (op ?f k s)" and ?r = "snd (op ?f k s)"
  have acc: "?r = Inr (Some p) \<longleftrightarrow> counter_ok (inb s) \<and> ?f = frame_of B key sid d k (inb s) p"
    and ok': "ok ?s" and inb: "inb ?s = (case ?r of Inr (Some _) \<Rightarrow> inb s + 1 | _ \<Rightarrow> inb s)"
    using op Cons.prems(1) unfolding opens_at_def by blast+
  have r: "?r = Inr (Some p)" using acc Cons.prems counter_ok_nat [of n] by simp
  note ok'
  moreover have "inb ?s = int (Suc n)" using inb r Cons.prems(2) by simp
  ultimately have "snd (receive op (zip (map fst ms) (frames_from B key sid d (Suc n) ms)) ?s) = ms"
    using Cons.IH [of ?s "Suc n"] Cons.prems by simp
  then show ?case using r by (simp add: m frames_from_def case_prod_unfold Let_def)
qed (simp add: frames_from_def)

definition fresh_client :: "key_schedule \<Rightarrow> client_session" where
  "fresh_client ks = \<lparr>cs_inbound = 0, cs_outbound = 0, cs_schedule = Some ks\<rparr>"

definition fresh_desktop :: "key_schedule \<Rightarrow> desktop_session" where
  "fresh_desktop ks = \<lparr>ds_inbound = 0, ds_outbound = 0, ds_schedule = ks\<rparr>"

lemma in_frames: "Inr f \<in> Inr ` X \<longleftrightarrow> f \<in> X"
  by auto

text \<open>
  C22: The channel keeps order.  Whatever the network makes of the frames the two ends sealed, dropping,
  repeating, reordering or reflecting them and passing text as binary, each end accepts a prefix of what the
  other one sent.
\<close>

theorem channel_accepts_prefix:
  assumes "box_laws B" and "good_keys B ks" and "length ms \<le> 2 ^ 64" and "length rs \<le> 2 ^ 64"
    and "Inr ` snd ` set net \<subseteq> set (snd (client_seal_all B ms (fresh_client ks))) \<union> set (snd (desktop_seal_all B rs (fresh_desktop ks)))"
  shows "prefix (snd (receive (desktop_open B) net (fresh_desktop ks))) ms \<and>
    prefix (snd (receive (client_open B) net (fresh_client ks))) rs"
proof -
  have l: "length (ks_session_id ks) = 32" "length (ks_mobile_to_desktop ks) = box_key_length B"
    "length (ks_desktop_to_mobile ks) = box_key_length B" using assms(2) by (simp_all add: good_keys_def)
  have m: "snd (client_seal_all B ms (fresh_client ks)) = map Inr (frames_from B (ks_mobile_to_desktop ks) (ks_session_id ks) MobileToDesktop 0 ms)"
    using client_seal_all_frames [OF assms(2), of "fresh_client ks" 0 ms] assms(3) by (simp add: fresh_client_def)
  have r: "snd (desktop_seal_all B rs (fresh_desktop ks)) = map Inr (frames_from B (ks_desktop_to_mobile ks) (ks_session_id ks) DesktopToMobile 0 rs)"
    using desktop_seal_all_frames [OF assms(2), of "fresh_desktop ks" 0 rs] assms(4) by (simp add: fresh_desktop_def)
  have net: "snd ` set net \<subseteq> set (frames_from B (ks_mobile_to_desktop ks) (ks_session_id ks) MobileToDesktop 0 ms) \<union>
      set (frames_from B (ks_desktop_to_mobile ks) (ks_session_id ks) DesktopToMobile 0 rs)"
    using assms(5) unfolding m r by auto
  have "prefix (snd (receive (desktop_open B) net (fresh_desktop ks))) (drop 0 ms)"
    by (rule receive_prefix [OF assms(1) l(1,2) assms(3,4) desktop_opens [OF assms(1,2)] _ net])
      (simp_all add: fresh_desktop_def)
  moreover have "prefix (snd (receive (client_open B) net (fresh_client ks))) (drop 0 rs)"
    by (rule receive_prefix [OF assms(1) l(1,3) assms(4,3) client_opens [OF assms(1,2)] _ net [unfolded Un_commute [of "set (frames_from B (ks_mobile_to_desktop ks) (ks_session_id ks) MobileToDesktop 0 ms)"]]])
      (simp_all add: fresh_client_def)
  ultimately show ?thesis by simp
qed

text \<open>
  On a network that passes the frames on in order, the desktop receives exactly the messages the phone
  sealed.
\<close>

theorem channel_delivers_all:
  assumes "box_laws B" and "good_keys B ks" and "length ms \<le> 2 ^ 64"
    and "map Inr frames = snd (client_seal_all B ms (fresh_client ks))"
  shows "snd (receive (desktop_open B) (zip (map fst ms) frames) (fresh_desktop ks)) = ms"
proof -
  have "map Inr frames = map Inr (frames_from B (ks_mobile_to_desktop ks) (ks_session_id ks) MobileToDesktop 0 ms)"
    using client_seal_all_frames [OF assms(2), of "fresh_client ks" 0 ms] assms(3,4) by (simp add: fresh_client_def)
  then have "frames = frames_from B (ks_mobile_to_desktop ks) (ks_session_id ks) MobileToDesktop 0 ms"
    by (simp add: inj_map_eq_map inj_def)
  then show ?thesis
    using receive_all [OF desktop_opens [OF assms(1,2)], of "fresh_desktop ks" 0 ms] assms(3) by (simp add: fresh_desktop_def)
qed

subsection \<open>Witnesses\<close>

text \<open>A box that appends nonce and key, so that it satisfies the laws (and hides nothing).\<close>

definition clear_box :: secretbox where
  "clear_box = \<lparr>box_key_length = 1, box_overhead = 25, box_seal = (\<lambda>m n k. n @ k @ m),
     box_open = (\<lambda>c n k. if take (length n + length k) c = n @ k then Some (drop (length n + length k) c) else None)\<rparr>"

lemma clear_box_open: "box_open clear_box c n k = Some m \<longleftrightarrow> c = n @ k @ m"
proof -
  have "(take (length n + length k) c = n @ k \<and> drop (length n + length k) c = m) \<longleftrightarrow> c = n @ k @ m"
    by (metis append.assoc append_eq_conv_conj length_append)
  then show ?thesis by (auto simp: clear_box_def)
qed

lemma clear_box_laws: "box_laws clear_box"
  unfolding box_laws_def clear_box_open by (simp add: clear_box_def)

definition clear_keys :: key_schedule where
  "clear_keys = \<lparr>ks_mobile_to_desktop = [1], ks_desktop_to_mobile = [2], ks_session_id = replicate 32 9, ks_transcript_hash = []\<rparr>"

lemma clear_keys_good: "good_keys clear_box clear_keys"
  by (simp add: good_keys_def clear_keys_def clear_box_def)

theorem open_accepts_exactly_sealed_witness:
  "openMobileE2EEV2Frame clear_box (frame_of clear_box [1] (replicate 32 9) MobileToDesktop KText 5 [104]) [1]
     (replicate 32 9) MobileToDesktop KText 5 = Inr (Some [104])"
proof -
  have v: "validateFrameInputs clear_box [1] (replicate 32 9) 5 = None"
    by (simp add: validate_None clear_box_def counter_ok_def MAX_COUNTER_def)
  show ?thesis
    using open_accepts_exactly_sealed [OF clear_box_laws v, of _ MobileToDesktop KText "[104]"] seal_frame_of [OF v] by blast
qed

definition two_messages :: "(payload_kind \<times> bytes) list" where
  "two_messages = [(KText, [104]), (KBinary, [105])]"

lemma two_messages_frames:
  "snd (client_seal_all clear_box two_messages (fresh_client clear_keys)) =
   map Inr (frames_from clear_box [1] (replicate 32 9) MobileToDesktop 0 two_messages)"
  using client_seal_all_frames [OF clear_keys_good, of "fresh_client clear_keys" 0 two_messages]
  by (simp add: two_messages_def fresh_client_def clear_keys_def)

text \<open>The second frame comes first and twice, then the first one.\<close>

theorem channel_accepts_prefix_witness:
  "let fs = frames_from clear_box [1] (replicate 32 9) MobileToDesktop 0 two_messages
   in prefix (snd (receive (desktop_open clear_box) [(KBinary, fs ! 1), (KBinary, fs ! 1), (KText, fs ! 0)]
        (fresh_desktop clear_keys))) two_messages"
proof -
  let ?fs = "frames_from clear_box [1] (replicate 32 9) MobileToDesktop 0 two_messages"
  have "?fs ! 0 \<in> set ?fs" "?fs ! 1 \<in> set ?fs" by (simp_all add: two_messages_def frames_from_def)
  then have net: "Inr ` snd ` set [(KBinary, ?fs ! 1), (KBinary, ?fs ! 1), (KText, ?fs ! 0)] \<subseteq>
      set (snd (client_seal_all clear_box two_messages (fresh_client clear_keys))) \<union>
      set (snd (desktop_seal_all clear_box [] (fresh_desktop clear_keys)))"
    unfolding two_messages_frames by simp
  have l: "length two_messages \<le> 2 ^ 64" "length ([] :: (payload_kind \<times> bytes) list) \<le> 2 ^ 64"
    by (simp_all add: two_messages_def)
  show ?thesis
    using channel_accepts_prefix [OF clear_box_laws clear_keys_good l net] unfolding Let_def by (rule conjunct1)
qed

theorem channel_delivers_all_witness:
  "snd (receive (desktop_open clear_box)
     (zip [KText, KBinary] (frames_from clear_box [1] (replicate 32 9) MobileToDesktop 0 two_messages)) (fresh_desktop clear_keys)) =
   two_messages"
proof -
  have l: "length two_messages \<le> 2 ^ 64" by (simp add: two_messages_def)
  show ?thesis
    using channel_delivers_all [OF clear_box_laws clear_keys_good l two_messages_frames [symmetric]]
    by (simp add: two_messages_def)
qed

end
