(* ===== verification/Base64.thy ===== *)
theory Base64
  imports Utf8
begin

text \<open>
  Base64 as the runtime provides it: \<open>btoa\<close> and \<open>Buffer.toString('base64')\<close> print bytes, \<open>atob\<close> is the
  forgiving decoder of the web platform, \<open>Buffer.from(s, 'base64')\<close> the lenient one of Node, and the pattern
  is the regular expression the sources test a value with before they decode it.
\<close>

subsection \<open>Printing\<close>

definition b64_char :: "nat \<Rightarrow> jschar" where
  "b64_char n = of_nat (if n < 26 then 65 + n else if n < 52 then 71 + n
     else if n < 62 then n - 4 else if n = 62 then 43 else 47)"

definition b64_val :: "jschar \<Rightarrow> nat option" where
  "b64_val c =
     (let u = unat c
      in if 65 \<le> u \<and> u \<le> 90 then Some (u - 65) else if 97 \<le> u \<and> u \<le> 122 then Some (u - 71)
         else if 48 \<le> u \<and> u \<le> 57 then Some (u + 4) else if u = 43 then Some 62 else if u = 47 then Some 63 else None)"

fun base64_sextets :: "nat list \<Rightarrow> nat list" where
  "base64_sextets [] = []"
| "base64_sextets [a] = [a div 4, a mod 4 * 16]"
| "base64_sextets [a, b] = [a div 4, a mod 4 * 16 + b div 16, b mod 16 * 4]"
| "base64_sextets (a # b # c # r) =
     a div 4 # (a mod 4 * 16 + b div 16) # (b mod 16 * 4 + c div 64) # c mod 64 # base64_sextets r"

definition base64_padding :: "nat \<Rightarrow> jsstr" where
  "base64_padding n = replicate ((3 - n mod 3) mod 3) 61"

definition base64_encode :: "bytes \<Rightarrow> jsstr" where
  "base64_encode bs = map b64_char (base64_sextets (map unat bs)) @ base64_padding (length bs)"

subsection \<open>Reading\<close>

fun sextet_bytes :: "nat list \<Rightarrow> bytes" where
  "sextet_bytes (p # q # r # s # t) =
     of_nat (p * 4 + q div 16) # of_nat (q mod 16 * 16 + r div 4) # of_nat (r mod 4 * 64 + s) # sextet_bytes t"
| "sextet_bytes [p, q, r] = [of_nat (p * 4 + q div 16), of_nat (q mod 16 * 16 + r div 4)]"
| "sextet_bytes [p, q] = [of_nat (p * 4 + q div 16)]"
| "sextet_bytes _ = []"

definition is_ascii_space :: "jschar \<Rightarrow> bool" where
  "is_ascii_space c \<longleftrightarrow> c = 9 \<or> c = 10 \<or> c = 12 \<or> c = 13 \<or> c = 32"

definition strip_padding :: "jsstr \<Rightarrow> jsstr" where
  "strip_padding s =
     (if length s mod 4 = 0 \<and> s \<noteq> []
      then if last s = 61 then (if last (butlast s) = 61 then butlast (butlast s) else butlast s) else s
      else s)"

definition atob :: "jsstr \<Rightarrow> bytes option" where
  "atob s =
     (let t = strip_padding (filter (\<lambda>c. \<not> is_ascii_space c) s)
      in if length t mod 4 = 1 \<or> list_ex (\<lambda>c. b64_val c = None) t then None
         else Some (sextet_bytes (map (the \<circ> b64_val) t)))"

text \<open>Node also reads the URL alphabet, skips what is in neither and stops at the first \<open>=\<close>.\<close>

definition b64_val_url :: "jschar \<Rightarrow> nat option" where
  "b64_val_url c = (if c = 45 then Some 62 else if c = 95 then Some 63 else b64_val c)"

definition buffer_from_base64 :: "jsstr \<Rightarrow> bytes" where
  "buffer_from_base64 s = sextet_bytes (List.map_filter b64_val_url (takeWhile (\<lambda>c. c \<noteq> 61) s))"

text \<open>\<open>/^(?:[A-Za-z0-9+/]{4})*(?:[A-Za-z0-9+/]{2}==|[A-Za-z0-9+/]{3}=)?$/\<close>\<close>

definition is_b64 :: "jschar \<Rightarrow> bool" where
  "is_b64 c \<longleftrightarrow> b64_val c \<noteq> None"

fun base64_pattern :: "jsstr \<Rightarrow> bool" where
  "base64_pattern [] = True"
| "base64_pattern (a # b # c # d # r) =
     (if r = [] then is_b64 a \<and> is_b64 b \<and> (is_b64 c \<and> is_b64 d \<or> c = 61 \<and> d = 61 \<or> is_b64 c \<and> d = 61)
      else is_b64 a \<and> is_b64 b \<and> is_b64 c \<and> is_b64 d \<and> base64_pattern r)"
| "base64_pattern _ = False"

subsection \<open>Reading what was printed\<close>

lemma sextet_cases: "n < 64 \<Longrightarrow> n < 26 \<or> 26 \<le> n \<and> n < 52 \<or> 52 \<le> n \<and> n < 62 \<or> n = 62 \<or> n = (63 :: nat)"
  by linarith

lemma b64_val_char: "n < 64 \<Longrightarrow> b64_val (b64_char n) = Some n"
proof -
  assume n: "n < 64"
  let ?m = "if n < 26 then 65 + n else if n < 52 then 71 + n else if n < 62 then n - 4 else if n = 62 then 43 else 47"
  have "?m < 2 ^ 16" using n by auto
  then have "unat (b64_char n) = ?m"
    unfolding b64_char_def by (simp only: unat_of_nat) (simp add: take_bit_nat_eq_self)
  then show ?thesis using sextet_cases [OF n] by (elim disjE) (auto simp: b64_val_def Let_def)
qed

lemma b64_val_61: "b64_val 61 = None"
  by (simp add: b64_val_def)

lemma is_b64_not_space: "is_b64 c \<Longrightarrow> \<not> is_ascii_space c \<and> c \<noteq> 61 \<and> c \<noteq> 45 \<and> c \<noteq> 95"
  by (auto simp: is_b64_def is_ascii_space_def b64_val_def)

lemma sextets_small: "list_all (\<lambda>a. a < 256) as \<Longrightarrow> list_all (\<lambda>n. n < 64) (base64_sextets as)"
  by (induction "as" rule: base64_sextets.induct) auto

lemma sextet_bytes_sextets:
  "list_all (\<lambda>a. a < 256) as \<Longrightarrow> sextet_bytes (base64_sextets as) = map of_nat as"
proof (induction "as" rule: base64_sextets.induct)
  case (2 a)
  have "a div 4 * 4 + a mod 4 * 16 div 16 = a" by simp
  then show ?case by simp
next
  case (3 a b)
  have "b div 16 < 16" using 3 by (auto simp: div_less_iff_less_mult)
  then have "(a mod 4 * 16 + b div 16) div 16 = a mod 4" "(a mod 4 * 16 + b div 16) mod 16 = b div 16"
    "b mod 16 * 4 div 4 = b mod 16" by simp_all
  then show ?case by simp
next
  case (4 a b c r)
  have "b div 16 < 16" "c div 64 < 4" using 4 by (auto simp: div_less_iff_less_mult)
  then have "(a mod 4 * 16 + b div 16) div 16 = a mod 4" "(a mod 4 * 16 + b div 16) mod 16 = b div 16"
    "(b mod 16 * 4 + c div 64) div 4 = b mod 16" "(b mod 16 * 4 + c div 64) mod 4 = c div 64" by simp_all
  then show ?case using 4 by simp
qed simp

lemma unat_bytes: "list_all (\<lambda>a. a < 256) (map unat (bs :: bytes))"
  using unsigned_less [where ?'a = nat and ?'b = 8] by (simp add: list_all_iff)

lemma sextet_bytes_of_bytes: "sextet_bytes (base64_sextets (map unat bs)) = bs"
  using sextet_bytes_sextets [OF unat_bytes [of bs]] by (simp add: map_idI)

lemma vals_of_chars: "list_all (\<lambda>n. n < 64) ns \<Longrightarrow> map (the \<circ> b64_val) (map b64_char ns) = ns"
  by (induction ns) (auto simp: b64_val_char)

lemma chars_are_b64: "list_all (\<lambda>n. n < 64) ns \<Longrightarrow> list_all is_b64 (map b64_char ns)"
  by (induction ns) (auto simp: is_b64_def b64_val_char)

text \<open>The printed text: digits, then the padding that fills the last group of four.\<close>

definition b64_digits :: "bytes \<Rightarrow> jsstr" where
  "b64_digits bs = map b64_char (base64_sextets (map unat bs))"

lemma base64_encode_digits: "base64_encode bs = b64_digits bs @ base64_padding (length bs)"
  by (simp add: base64_encode_def b64_digits_def)

lemma b64_digits_b64: "list_all is_b64 (b64_digits bs)"
  unfolding b64_digits_def by (intro chars_are_b64 sextets_small unat_bytes)

lemma b64_digits_bytes: "sextet_bytes (map (the \<circ> b64_val) (b64_digits bs)) = bs"
  unfolding b64_digits_def
  by (simp only: vals_of_chars [OF sextets_small [OF unat_bytes]] sextet_bytes_of_bytes)

lemma length_sextets: "length (base64_sextets as) = length as + (length as + 2) div 3"
  by (induction "as" rule: base64_sextets.induct) auto

lemma length_b64_digits: "length (b64_digits bs) = length bs + (length bs + 2) div 3"
  by (simp add: b64_digits_def length_sextets)

lemma b64_parts:
  obtains (full) k where "length bs = 3 * k" "base64_padding (length bs) = []" "length (b64_digits bs) = 4 * k"
  | (one) k where "length bs = 3 * k + 1" "base64_padding (length bs) = [61, 61]" "length (b64_digits bs) = 4 * k + 2"
  | (two) k where "length bs = 3 * k + 2" "base64_padding (length bs) = [61]" "length (b64_digits bs) = 4 * k + 3"
proof -
  obtain k where k: "length bs = 3 * k + length bs mod 3" using mult_div_mod_eq [of 3 "length bs"] by metis
  have "length bs mod 3 = 0 \<or> length bs mod 3 = 1 \<or> length bs mod 3 = 2" by linarith
  then show ?thesis
  proof (elim disjE)
    assume m: "length bs mod 3 = 0"
    then show ?thesis using k by (intro full [of k]) (simp_all add: base64_padding_def length_b64_digits)
  next
    assume m: "length bs mod 3 = 1"
    then have "length bs = 3 * k + 1" using k by simp
    then show ?thesis using m by (intro one [of k]) (simp_all add: base64_padding_def length_b64_digits numeral_2_eq_2)
  next
    assume m: "length bs mod 3 = 2"
    then have "length bs = 3 * k + 2" using k by simp
    then show ?thesis using m by (intro two [of k]) (simp_all add: base64_padding_def length_b64_digits)
  qed
qed

lemma digits_last: "list_all is_b64 d \<Longrightarrow> d \<noteq> [] \<Longrightarrow> last d \<noteq> 61"
  using is_b64_not_space by (auto simp: list_all_iff)

lemma strip_padding_encode: "strip_padding (base64_encode bs) = b64_digits bs"
proof (cases bs rule: b64_parts)
  case (full k)
  then show ?thesis using digits_last [OF b64_digits_b64, of bs] by (auto simp: strip_padding_def base64_encode_digits)
next
  case (one k)
  have "length (b64_digits bs @ [61, 61]) mod 4 = 0" using one(3) by simp
  then show ?thesis using one(2) by (simp add: strip_padding_def base64_encode_digits butlast_append)
next
  case (two k)
  have "b64_digits bs \<noteq> []" using two(3) by auto
  moreover have "length (b64_digits bs @ [61]) mod 4 = 0" using two(3) by simp
  ultimately show ?thesis using two(2) digits_last [OF b64_digits_b64, of bs]
    by (simp add: strip_padding_def base64_encode_digits butlast_append)
qed

lemma filter_encode: "filter (\<lambda>c. \<not> is_ascii_space c) (base64_encode bs) = base64_encode bs"
  using b64_digits_b64 [of bs] is_b64_not_space
  by (auto simp: filter_id_conv base64_encode_digits base64_padding_def list_all_iff is_ascii_space_def)

lemma atob_encode: "atob (base64_encode bs) = Some bs"
proof -
  have "\<not> list_ex (\<lambda>c. b64_val c = None) (b64_digits bs)"
    using b64_digits_b64 [of bs] by (auto simp: list_all_iff list_ex_iff is_b64_def)
  moreover have "length (b64_digits bs) mod 4 \<noteq> 1" by (cases bs rule: b64_parts) (simp only:; presburger)+
  ultimately show ?thesis
    by (simp add: atob_def Let_def filter_encode strip_padding_encode b64_digits_bytes)
qed

lemma buffer_from_encode: "buffer_from_base64 (base64_encode bs) = bs"
proof -
  have t: "takeWhile (\<lambda>c. c \<noteq> 61) (base64_encode bs) = b64_digits bs"
  proof -
    have "\<forall>c \<in> set (b64_digits bs). c \<noteq> 61" using b64_digits_b64 [of bs] is_b64_not_space by (auto simp: list_all_iff)
    then have "takeWhile (\<lambda>c. c \<noteq> 61) (base64_encode bs) = b64_digits bs @ takeWhile (\<lambda>c. c \<noteq> 61) (base64_padding (length bs))"
      by (simp add: base64_encode_digits takeWhile_append2)
    moreover have "takeWhile (\<lambda>c. c \<noteq> 61) (base64_padding (length bs)) = []"
      by (cases bs rule: b64_parts) simp_all
    ultimately show ?thesis by simp
  qed
  have "List.map_filter b64_val_url d = map (the \<circ> b64_val) d" if "list_all is_b64 d" for d
    using that is_b64_not_space by (induction d) (auto simp: List.map_filter_simps b64_val_url_def is_b64_def)
  then show ?thesis using b64_digits_b64 [of bs] by (simp add: buffer_from_base64_def t b64_digits_bytes)
qed

lemma pattern_groups:
  "list_all is_b64 d \<Longrightarrow> length d = 4 * k \<Longrightarrow> base64_pattern t \<Longrightarrow> base64_pattern (d @ t)"
proof (induction k arbitrary: d)
  case (Suc k)
  then obtain a b c e r where "d = a # b # c # e # r" "length r = 4 * k"
    by (auto simp: length_Suc_conv eval_nat_numeral)
  moreover have "base64_pattern (r @ t)" using calculation Suc by simp
  ultimately show ?case using Suc.prems(1) by auto
qed simp

lemma pattern_encode: "base64_pattern (base64_encode bs)"
proof (cases bs rule: b64_parts)
  case (full k)
  then show ?thesis using pattern_groups [OF b64_digits_b64, of bs k "[]"] by (simp add: base64_encode_digits)
next
  case (one k)
  let ?d = "take (4 * k) (b64_digits bs)" and ?e = "drop (4 * k) (b64_digits bs)"
  obtain a b where e: "?e = [a, b]"
    using one(3) by (cases ?e; cases "tl ?e") (auto dest: arg_cong [of _ _ length])
  have b: "list_all is_b64 ?e" "list_all is_b64 ?d" using b64_digits_b64 [of bs] by (auto simp: list_all_iff dest: in_set_takeD in_set_dropD)
  have "base64_pattern (?d @ [a, b, 61, 61])" using b e one(3) by (intro pattern_groups [of _ k]) auto
  then show ?thesis using e append_take_drop_id [of "4 * k" "b64_digits bs"] one(2)
    by (metis append.assoc append_Cons append_Nil base64_encode_digits)
next
  case (two k)
  let ?d = "take (4 * k) (b64_digits bs)" and ?e = "drop (4 * k) (b64_digits bs)"
  obtain a b c where e: "?e = [a, b, c]"
    using two(3) by (cases ?e; cases "tl ?e"; cases "tl (tl ?e)") (auto dest: arg_cong [of _ _ length])
  have b: "list_all is_b64 ?e" "list_all is_b64 ?d" using b64_digits_b64 [of bs] by (auto simp: list_all_iff dest: in_set_takeD in_set_dropD)
  have "base64_pattern (?d @ [a, b, c, 61])" using b e two(3) by (intro pattern_groups [of _ k]) auto
  then show ?thesis using e append_take_drop_id [of "4 * k" "b64_digits bs"] two(2)
    by (metis append.assoc append_Cons append_Nil base64_encode_digits)
qed

lemma base64_encode_inj: "base64_encode a = base64_encode b \<longleftrightarrow> a = b"
  using buffer_from_encode by metis

end
