(* ===== verification/E2ee_Contract.thy ===== *)
theory E2ee_Contract
  imports Base64 Js_Value "HOL-Library.List_Lexorder" "HOL-Library.Multiset"
begin

text \<open>
  The handshake of the mobile channel, \<open>src/shared/mobile-e2ee-v2-contract.ts\<close>: the strict check of the two
  messages and the transcript both ends hash.
\<close>

definition isExactRecord :: "js_value \<Rightarrow> string list \<Rightarrow> bool" where
  "isExactRecord v keys \<longleftrightarrow>
     isRecord v \<and>
     (let actual = sort (object_keys v); expected = sort (map js keys)
      in length actual = length expected \<and> list_all (\<lambda>i. actual ! i = expected ! i) [0..<length actual])"

definition is_two :: "js_value \<Rightarrow> bool" where
  "is_two v \<longleftrightarrow> strict_eq v (VNum 2)"

subsection \<open>Checking the messages\<close>

record handshake =
  hs_hello :: js_value
  hs_ready :: js_value
  hs_client_public_key :: bytes
  hs_desktop_public_key :: bytes
  hs_client_nonce :: bytes
  hs_desktop_nonce :: bytes

definition MOBILE_E2EE_V2_PROTOCOL :: string where
  "MOBILE_E2EE_V2_PROTOCOL = ''orca-mobile-e2ee''"

definition MOBILE_E2EE_V2_TRANSCRIPT_DOMAIN :: string where
  "MOBILE_E2EE_V2_TRANSCRIPT_DOMAIN = ''orca-mobile-e2ee/v2/transcript''"

text \<open>\<open>/^[A-Za-z0-9_-]{16}$/\<close>\<close>

definition base64url_char :: "jschar \<Rightarrow> bool" where
  "base64url_char c \<longleftrightarrow> (65 \<le> c \<and> c \<le> 90) \<or> (97 \<le> c \<and> c \<le> 122) \<or> (48 \<le> c \<and> c \<le> 57) \<or> c = 95 \<or> c = 45"

definition BASE64URL_16_PATTERN :: "jsstr \<Rightarrow> bool" where
  "BASE64URL_16_PATTERN s \<longleftrightarrow> length s = 16 \<and> list_all base64url_char s"

definition parseContext :: "js_value \<Rightarrow> js_value option" where
  "parseContext v =
     (if \<not> isRecord v then None
      else let transport = get ''transport'' v;
               keys = if is_str transport ''relay''
                      then [''protocol'', ''initiator'', ''responder'', ''transport'', ''relayHostId'']
                      else [''protocol'', ''initiator'', ''responder'', ''transport'']
           in if \<not> isExactRecord v keys then None
              else if \<not> is_str (get ''protocol'' v) MOBILE_E2EE_V2_PROTOCOL \<or> \<not> is_str (get ''initiator'' v) ''mobile'' \<or>
                \<not> is_str (get ''responder'' v) ''desktop'' \<or>
                (\<not> is_str transport ''direct'' \<and> \<not> is_str transport ''relay'') then None
              else if is_str transport ''relay'' \<and>
                (case get ''relayHostId'' v of VStr h \<Rightarrow> \<not> BASE64URL_16_PATTERN h | _ \<Rightarrow> True) then None
              else Some v)"

definition is_payload_kinds :: "js_value \<Rightarrow> bool" where
  "is_payload_kinds v \<longleftrightarrow>
     (case v of VArr vs \<Rightarrow> length vs = 2 \<and> is_str (vs ! 0) ''text'' \<and> is_str (vs ! 1) ''binary'' | _ \<Rightarrow> False)"

definition hasExactCapabilities :: "js_value \<Rightarrow> bool" where
  "hasExactCapabilities v \<longleftrightarrow>
     isExactRecord v [''framing'', ''payloadKinds''] \<and>
     (case get ''framing'' v of VArr vs \<Rightarrow> length vs = 1 \<and> is_two (vs ! 0) | _ \<Rightarrow> False) \<and>
     is_payload_kinds (get ''payloadKinds'' v)"

definition hasExactSelection :: "js_value \<Rightarrow> bool" where
  "hasExactSelection v \<longleftrightarrow>
     isExactRecord v [''framing'', ''payloadKinds''] \<and> is_two (get ''framing'' v) \<and>
     is_payload_kinds (get ''payloadKinds'' v)"

definition contextsEqual :: "js_value \<Rightarrow> js_value \<Rightarrow> bool" where
  "contextsEqual l r \<longleftrightarrow>
     strict_eq (get ''protocol'' l) (get ''protocol'' r) \<and> strict_eq (get ''initiator'' l) (get ''initiator'' r) \<and>
     strict_eq (get ''responder'' l) (get ''responder'' r) \<and> strict_eq (get ''transport'' l) (get ''transport'' r) \<and>
     strict_eq (get ''relayHostId'' l) (get ''relayHostId'' r)"

definition decodeCanonicalBase64Bytes :: "js_value \<Rightarrow> nat \<Rightarrow> bytes option" where
  "decodeCanonicalBase64Bytes v n =
     (case v of
        VStr s \<Rightarrow>
          if \<not> base64_pattern s then None
          else (case atob s of
                  None \<Rightarrow> None
                | Some bs \<Rightarrow> if length bs = n \<and> base64_encode bs = s then Some bs else None)
      | _ \<Rightarrow> None)"

definition validateMobileE2EEV2Handshake :: "js_value \<Rightarrow> js_value \<Rightarrow> handshake option" where
  "validateMobileE2EEV2Handshake hello ready =
     (if \<not> isExactRecord hello [''type'', ''v'', ''clientPublicKeyB64'', ''clientNonceB64'', ''capabilities'', ''context'']
      then None
      else if \<not> isExactRecord ready [''type'', ''v'', ''desktopPublicKeyB64'', ''clientNonceB64'', ''desktopNonceB64'',
                ''selection'', ''context'']
      then None
      else if \<not> is_str (get ''type'' hello) ''e2ee_hello'' \<or> \<not> is_two (get ''v'' hello) then None
      else if \<not> is_str (get ''type'' ready) ''e2ee_ready'' \<or> \<not> is_two (get ''v'' ready) then None
      else if \<not> hasExactCapabilities (get ''capabilities'' hello) \<or> \<not> hasExactSelection (get ''selection'' ready) then None
      else case (parseContext (get ''context'' hello), parseContext (get ''context'' ready)) of
             (Some hc, Some rc) \<Rightarrow>
               if \<not> contextsEqual hc rc then None
               else if \<not> strict_eq (get ''clientNonceB64'' ready) (get ''clientNonceB64'' hello) then None
               else (case (decodeCanonicalBase64Bytes (get ''clientPublicKeyB64'' hello) 32,
                           decodeCanonicalBase64Bytes (get ''desktopPublicKeyB64'' ready) 32,
                           decodeCanonicalBase64Bytes (get ''clientNonceB64'' hello) 32,
                           decodeCanonicalBase64Bytes (get ''desktopNonceB64'' ready) 32) of
                       (Some cpk, Some dpk, Some cn, Some dn) \<Rightarrow>
                         Some \<lparr>hs_hello = hello, hs_ready = ready, hs_client_public_key = cpk, hs_desktop_public_key = dpk,
                           hs_client_nonce = cn, hs_desktop_nonce = dn\<rparr>
                     | _ \<Rightarrow> None)
           | _ \<Rightarrow> None)"

subsection \<open>The transcript\<close>

text \<open>\<open>setUint32\<close> truncates a number and keeps 32 bits.\<close>

definition uint32 :: "rat \<Rightarrow> bytes" where
  "uint32 r = be32 (nat ((if r < 0 then \<lceil>r\<rceil> else \<lfloor>r\<rfloor>) mod 2 ^ 32))"

text \<open>
  The fields of a checked handshake are the strings, numbers and lists its type says; what is written for any
  other value does not matter, since the handshake comes from the check.
\<close>

fun as_str :: "js_value \<Rightarrow> jsstr" where
  "as_str (VStr s) = s"
| "as_str _ = []"

fun as_num :: "js_value \<Rightarrow> rat" where
  "as_num (VNum r) = r"
| "as_num _ = 0"

fun as_list :: "js_value \<Rightarrow> js_value list" where
  "as_list (VArr vs) = vs"
| "as_list _ = []"

definition encodeNumberList :: "rat list \<Rightarrow> bytes" where
  "encodeNumberList vs = uint32 (of_nat (length vs)) @ concat (map uint32 vs)"

definition encodeStringList :: "jsstr list \<Rightarrow> bytes" where
  "encodeStringList vs =
     uint32 (of_nat (length vs)) @
     concat (map (\<lambda>v. let bs = utf8_encode v in uint32 (of_nat (length bs)) @ bs) vs)"

definition transcript_field :: "string \<times> bytes \<Rightarrow> bytes" where
  "transcript_field = (\<lambda>(name, v).
     let n = utf8_encode (js name)
     in uint32 (of_nat (length n)) @ n @ uint32 (of_nat (length v)) @ v)"

definition transcript_fields :: "handshake \<Rightarrow> (string \<times> bytes) list" where
  "transcript_fields h =
     (let hello = hs_hello h; ready = hs_ready h; hc = get ''context'' hello; rc = get ''context'' ready;
          u = (\<lambda>v. utf8_encode (as_str v))
      in [(''domain'', utf8_encode (js MOBILE_E2EE_V2_TRANSCRIPT_DOMAIN)),
          (''mobile-to-desktop.type'', u (get ''type'' hello)),
          (''mobile-to-desktop.version'', uint32 (as_num (get ''v'' hello))),
          (''mobile-to-desktop.client-public-key'', hs_client_public_key h),
          (''mobile-to-desktop.client-nonce'', hs_client_nonce h),
          (''mobile-to-desktop.capabilities.framing'',
             encodeNumberList (map as_num (as_list (get ''framing'' (get ''capabilities'' hello))))),
          (''mobile-to-desktop.capabilities.payload-kinds'',
             encodeStringList (map as_str (as_list (get ''payloadKinds'' (get ''capabilities'' hello))))),
          (''mobile-to-desktop.context.protocol'', u (get ''protocol'' hc)),
          (''mobile-to-desktop.context.initiator'', u (get ''initiator'' hc)),
          (''mobile-to-desktop.context.responder'', u (get ''responder'' hc)),
          (''mobile-to-desktop.context.transport'', u (get ''transport'' hc)),
          (''mobile-to-desktop.context.relay-host-id'', u (get ''relayHostId'' hc)),
          (''desktop-to-mobile.type'', u (get ''type'' ready)),
          (''desktop-to-mobile.version'', uint32 (as_num (get ''v'' ready))),
          (''desktop-to-mobile.desktop-public-key'', hs_desktop_public_key h),
          (''desktop-to-mobile.client-nonce-echo'', hs_client_nonce h),
          (''desktop-to-mobile.desktop-nonce'', hs_desktop_nonce h),
          (''desktop-to-mobile.selection.framing'', uint32 (as_num (get ''framing'' (get ''selection'' ready)))),
          (''desktop-to-mobile.selection.payload-kinds'',
             encodeStringList (map as_str (as_list (get ''payloadKinds'' (get ''selection'' ready))))),
          (''desktop-to-mobile.context.protocol'', u (get ''protocol'' rc)),
          (''desktop-to-mobile.context.initiator'', u (get ''initiator'' rc)),
          (''desktop-to-mobile.context.responder'', u (get ''responder'' rc)),
          (''desktop-to-mobile.context.transport'', u (get ''transport'' rc)),
          (''desktop-to-mobile.context.relay-host-id'', u (get ''relayHostId'' rc))])"

definition encodeMobileE2EEV2Transcript :: "handshake \<Rightarrow> bytes" where
  "encodeMobileE2EEV2Transcript h = concat (map transcript_field (transcript_fields h))"

subsection \<open>What a checked handshake holds\<close>

lemma sort_eq_iff: "sort xs = sort ys \<longleftrightarrow> mset xs = mset (ys :: 'a :: linorder list)"
  using properties_for_sort [of "sort ys" xs] by (auto dest: arg_cong [of _ _ mset])

lemma list_eq_by_index: "length a = length e \<and> list_all (\<lambda>i. a ! i = e ! i) [0..<length a] \<longleftrightarrow> a = e"
  by (auto simp: list_all_iff intro: nth_equalityI)

lemma isExactRecord_iff: "isExactRecord v keys \<longleftrightarrow> isRecord v \<and> mset (object_keys v) = mset (map js keys)"
  by (simp only: isExactRecord_def Let_def list_eq_by_index sort_eq_iff)

lemma is_two_iff: "is_two v \<longleftrightarrow> v = VNum 2"
  by (cases v) (auto simp: is_two_def)

lemma is_payload_kinds_iff: "is_payload_kinds v \<longleftrightarrow> v = VArr [VStr (js ''text''), VStr (js ''binary'')]"
  by (auto simp: is_payload_kinds_def is_str_iff length_Suc_conv numeral_2_eq_2 split: js_value.splits)

text \<open>A context, by its transport and relay host.\<close>

definition is_context :: "js_value \<Rightarrow> string \<Rightarrow> jsstr option \<Rightarrow> bool" where
  "is_context v t rid \<longleftrightarrow>
     get ''protocol'' v = VStr (js MOBILE_E2EE_V2_PROTOCOL) \<and> get ''initiator'' v = VStr (js ''mobile'') \<and>
     get ''responder'' v = VStr (js ''desktop'') \<and> get ''transport'' v = VStr (js t) \<and>
     get ''relayHostId'' v = (case rid of None \<Rightarrow> VUndefined | Some h \<Rightarrow> VStr h)"

definition route_ok :: "string \<Rightarrow> jsstr option \<Rightarrow> bool" where
  "route_ok t rid \<longleftrightarrow> t = ''direct'' \<and> rid = None \<or> t = ''relay'' \<and> (\<exists>h. rid = Some h \<and> BASE64URL_16_PATTERN h)"

lemma parseContext_Some:
  assumes "parseContext v = Some c"
  shows "c = v \<and> (\<exists>t rid. route_ok t rid \<and> is_context v t rid)"
proof -
  let ?t = "get ''transport'' v"
  have c: "c = v" and base: "get ''protocol'' v = VStr (js MOBILE_E2EE_V2_PROTOCOL)" "get ''initiator'' v = VStr (js ''mobile'')"
    "get ''responder'' v = VStr (js ''desktop'')"
    using assms by (auto simp: parseContext_def Let_def is_str_iff split: if_splits)
  consider (direct) "?t = VStr (js ''direct'')" "isExactRecord v [''protocol'', ''initiator'', ''responder'', ''transport'']"
    | (relay) h where "?t = VStr (js ''relay'')" "get ''relayHostId'' v = VStr h" "BASE64URL_16_PATTERN h"
    using assms by (auto simp: parseContext_def Let_def is_str_iff js_eq_iff split: if_splits js_value.splits)
  then show ?thesis
  proof cases
    case direct
    have "set (object_keys v) = set (map js [''protocol'', ''initiator'', ''responder'', ''transport''])"
      using direct(2) unfolding isExactRecord_iff by (metis set_mset_mset)
    then have "get ''relayHostId'' v = VUndefined" by (intro get_absent) (simp add: js_eq_iff)
    then show ?thesis using c base direct(1)
      by (intro conjI exI [of _ "''direct''"] exI [of _ None]) (simp_all add: is_context_def route_ok_def)
  next
    case relay
    then show ?thesis using c base
      by (intro conjI exI [of _ "''relay''"] exI [of _ "Some h"]) (simp_all add: is_context_def route_ok_def)
  qed
qed

lemma is_context_unique: "is_context v t rid \<Longrightarrow> is_context v t' rid' \<Longrightarrow> t = t' \<and> rid = rid'"
  by (auto simp: is_context_def js_eq_iff split: option.splits)

lemma decode_canonical_iff:
  "decodeCanonicalBase64Bytes v n = Some bs \<longleftrightarrow> v = VStr (base64_encode bs) \<and> length bs = n"
proof
  assume "decodeCanonicalBase64Bytes v n = Some bs"
  then obtain s b where "v = VStr s" "length b = n" "base64_encode b = s" "b = bs"
    by (auto simp: decodeCanonicalBase64Bytes_def split: js_value.splits option.splits if_splits)
  then show "v = VStr (base64_encode bs) \<and> length bs = n" by simp
qed (simp add: decodeCanonicalBase64Bytes_def pattern_encode atob_encode)

text \<open>What the check establishes, and that it is exactly this for messages with the right keys.\<close>

definition checked :: "handshake \<Rightarrow> string \<Rightarrow> jsstr option \<Rightarrow> bool" where
  "checked h t rid \<longleftrightarrow>
     (let hello = hs_hello h; ready = hs_ready h
      in get ''type'' hello = VStr (js ''e2ee_hello'') \<and> get ''v'' hello = VNum 2 \<and>
         get ''type'' ready = VStr (js ''e2ee_ready'') \<and> get ''v'' ready = VNum 2 \<and>
         get ''framing'' (get ''capabilities'' hello) = VArr [VNum 2] \<and>
         get ''payloadKinds'' (get ''capabilities'' hello) = VArr [VStr (js ''text''), VStr (js ''binary'')] \<and>
         get ''framing'' (get ''selection'' ready) = VNum 2 \<and>
         get ''payloadKinds'' (get ''selection'' ready) = VArr [VStr (js ''text''), VStr (js ''binary'')] \<and>
         route_ok t rid \<and> is_context (get ''context'' hello) t rid \<and> is_context (get ''context'' ready) t rid \<and>
         get ''clientPublicKeyB64'' hello = VStr (base64_encode (hs_client_public_key h)) \<and>
         get ''desktopPublicKeyB64'' ready = VStr (base64_encode (hs_desktop_public_key h)) \<and>
         get ''clientNonceB64'' hello = VStr (base64_encode (hs_client_nonce h)) \<and>
         get ''clientNonceB64'' ready = VStr (base64_encode (hs_client_nonce h)) \<and>
         get ''desktopNonceB64'' ready = VStr (base64_encode (hs_desktop_nonce h)) \<and>
         length (hs_client_public_key h) = 32 \<and> length (hs_desktop_public_key h) = 32 \<and>
         length (hs_client_nonce h) = 32 \<and> length (hs_desktop_nonce h) = 32)"

lemma capabilities_iff:
  "hasExactCapabilities v \<Longrightarrow> get ''framing'' v = VArr [VNum 2] \<and>
     get ''payloadKinds'' v = VArr [VStr (js ''text''), VStr (js ''binary'')]"
  by (auto simp: hasExactCapabilities_def is_two_iff is_payload_kinds_iff length_Suc_conv split: js_value.splits)

lemma selection_iff:
  "hasExactSelection v \<Longrightarrow> get ''framing'' v = VNum 2 \<and>
     get ''payloadKinds'' v = VArr [VStr (js ''text''), VStr (js ''binary'')]"
  by (auto simp: hasExactSelection_def is_two_iff is_payload_kinds_iff)

lemma validated:
  assumes "validateMobileE2EEV2Handshake hello ready = Some h"
  obtains t rid where "hs_hello h = hello" "hs_ready h = ready" "checked h t rid"
proof -
  note v = assms [unfolded validateMobileE2EEV2Handshake_def]
  have e: "is_str (get ''type'' hello) ''e2ee_hello''" "is_two (get ''v'' hello)"
      "is_str (get ''type'' ready) ''e2ee_ready''" "is_two (get ''v'' ready)"
      "hasExactCapabilities (get ''capabilities'' hello)" "hasExactSelection (get ''selection'' ready)"
    using v by (simp_all split: if_splits)
  obtain hc rc where c: "parseContext (get ''context'' hello) = Some hc" "parseContext (get ''context'' ready) = Some rc"
    using v by (cases "parseContext (get ''context'' hello)"; cases "parseContext (get ''context'' ready)")
      (simp_all split: if_splits)
  have c': "contextsEqual hc rc" "strict_eq (get ''clientNonceB64'' ready) (get ''clientNonceB64'' hello)"
    using v by (simp_all add: c split: if_splits)
  obtain cpk dpk cn dn where d: "decodeCanonicalBase64Bytes (get ''clientPublicKeyB64'' hello) 32 = Some cpk"
      "decodeCanonicalBase64Bytes (get ''desktopPublicKeyB64'' ready) 32 = Some dpk"
      "decodeCanonicalBase64Bytes (get ''clientNonceB64'' hello) 32 = Some cn"
      "decodeCanonicalBase64Bytes (get ''desktopNonceB64'' ready) 32 = Some dn"
    using v by (simp add: c split: if_splits option.splits)
  have h: "h = \<lparr>hs_hello = hello, hs_ready = ready, hs_client_public_key = cpk, hs_desktop_public_key = dpk,
      hs_client_nonce = cn, hs_desktop_nonce = dn\<rparr>"
    using v by (simp add: c d split: if_splits)
  obtain t rid where x: "hc = get ''context'' hello" "route_ok t rid" "is_context hc t rid"
    using parseContext_Some [OF c(1)] by blast
  obtain t' rid' where y: "rc = get ''context'' ready" "is_context rc t' rid'"
    using parseContext_Some [OF c(2)] by blast
  have "t = t' \<and> rid = rid'" using c'(1) x(3) y(2)
    by (auto simp: contextsEqual_def strict_eq_iff is_context_def js_eq_iff split: option.splits)
  then have "checked h t rid"
    using x y capabilities_iff [OF e(5)] selection_iff [OF e(6)] e(1-4) c'(2) d
    by (simp add: checked_def h Let_def is_str_iff is_two_iff strict_eq_iff decode_canonical_iff)
  then show ?thesis using that h by simp
qed

subsection \<open>The transcript binds the handshake\<close>

lemma be32_inj: "a < 2 ^ 32 \<Longrightarrow> b < 2 ^ 32 \<Longrightarrow> be32 a = be32 b \<Longrightarrow> a = b"
  using read32_be32 [of a "[]" 0 "[]"] read32_be32 [of b "[]" 0 "[]"] by simp

lemma uint32_nat: "n < 2 ^ 32 \<Longrightarrow> uint32 (of_nat n) = be32 n"
  by (simp add: uint32_def nat_mod_distrib)

lemma uint32_append_inj:
  "n < 2 ^ 32 \<Longrightarrow> m < 2 ^ 32 \<Longrightarrow> uint32 (of_nat n) @ a = uint32 (of_nat m) @ b \<Longrightarrow> n = m \<and> a = b"
  using be32_inj [of n m] by (simp add: uint32_nat append_eq_append_conv)

lemma length_prefixed_inj:
  assumes "length a < 2 ^ 32" and "length b < 2 ^ 32"
    and "uint32 (of_nat (length a)) @ a @ r = uint32 (of_nat (length b)) @ b @ s"
  shows "a = b \<and> r = s"
proof -
  have l: "length a = length b" and "a @ r = b @ s" using uint32_append_inj [OF assms] by blast+
  then show ?thesis using append_eq_append_conv [of a b r s] by simp
qed

lemma utf8_inj: "well_formed a \<Longrightarrow> well_formed b \<Longrightarrow> utf8_encode a = utf8_encode b \<longleftrightarrow> a = b"
  by (metis decode_encode well_formed_def)

definition field_ok :: "string \<times> bytes \<Rightarrow> bool" where
  "field_ok f \<longleftrightarrow> length (utf8_encode (js (fst f))) < 2 ^ 32 \<and> length (snd f) < 2 ^ 32"

lemma transcript_field_inj:
  assumes "field_ok f" and "field_ok g" and "transcript_field f @ r = transcript_field g @ s"
  shows "snd f = snd g \<and> r = s"
proof -
  have "uint32 (of_nat (length (utf8_encode (js (fst f))))) @ utf8_encode (js (fst f)) @
        uint32 (of_nat (length (snd f))) @ snd f @ r =
      uint32 (of_nat (length (utf8_encode (js (fst g))))) @ utf8_encode (js (fst g)) @
        uint32 (of_nat (length (snd g))) @ snd g @ s"
    using assms(3) by (simp add: transcript_field_def case_prod_unfold Let_def)
  from length_prefixed_inj [OF _ _ this] have
    "uint32 (of_nat (length (snd f))) @ snd f @ r = uint32 (of_nat (length (snd g))) @ snd g @ s"
    using assms(1,2) by (simp add: field_ok_def)
  from length_prefixed_inj [OF _ _ this] show ?thesis using assms(1,2) by (simp add: field_ok_def)
qed

lemma transcript_fields_inj:
  "length fs = length gs \<Longrightarrow> list_all field_ok fs \<Longrightarrow> list_all field_ok gs \<Longrightarrow>
   concat (map transcript_field fs) = concat (map transcript_field gs) \<Longrightarrow> map snd fs = map snd gs"
proof (induction fs gs rule: list_induct2)
  case (Cons f fs g gs)
  have "snd f = snd g \<and> concat (map transcript_field fs) = concat (map transcript_field gs)"
    using Cons.prems by (intro transcript_field_inj) simp_all
  then show ?case using Cons by simp
qed simp

lemma base64url_well_formed: "BASE64URL_16_PATTERN h \<Longrightarrow> well_formed h"
  by (intro well_formed_plain)
    (auto simp: BASE64URL_16_PATTERN_def list_all_iff base64url_char_def surrogate_range word_le_nat_alt)

lemma js_well_formed: "well_formed (js s)"
proof (intro well_formed_plain ballI)
  fix c assume "c \<in> set (js s)"
  then obtain d :: char where "c = of_char d" by (auto simp: js_def)
  then have "unat c < 256" using nat_of_char_less_256 [of d] by (simp only: unat_of_char)
  then show "\<not> is_surrogate c" by (simp add: surrogate_range)
qed

text \<open>The fields of a checked handshake.\<close>

definition fields_of :: "bytes \<Rightarrow> bytes \<Rightarrow> bytes \<Rightarrow> bytes \<Rightarrow> string \<Rightarrow> jsstr \<Rightarrow> bytes list" where
  "fields_of cpk cn dpk dn t h =
     (let u = (\<lambda>s. utf8_encode (js s)); two = uint32 2; kinds = encodeStringList [js ''text'', js ''binary''];
          ctx = [u MOBILE_E2EE_V2_PROTOCOL, u ''mobile'', u ''desktop'', u t, utf8_encode h]
      in [u MOBILE_E2EE_V2_TRANSCRIPT_DOMAIN, u ''e2ee_hello'', two, cpk, cn, encodeNumberList [2], kinds] @ ctx @
         [u ''e2ee_ready'', two, dpk, cn, dn, two, kinds] @ ctx)"

lemma checked_fields:
  "checked h t rid \<Longrightarrow> map snd (transcript_fields h) =
     fields_of (hs_client_public_key h) (hs_client_nonce h) (hs_desktop_public_key h) (hs_desktop_nonce h) t
       (case rid of None \<Rightarrow> [] | Some r \<Rightarrow> r)"
  by (cases rid) (simp_all add: checked_def transcript_fields_def fields_of_def is_context_def Let_def)

lemma length_be: "length (uint32 r) = 4"
  by (simp add: uint32_def)

lemma checked_fields_ok:
  assumes "checked h t rid"
  shows "list_all field_ok (transcript_fields h)"
proof -
  have rid: "length (case rid of None \<Rightarrow> [] | Some r \<Rightarrow> r) \<le> 16" "length t \<le> 6"
    using assms unfolding checked_def Let_def by (auto simp: route_ok_def BASE64URL_16_PATTERN_def)
  have u: "length (utf8_encode (js s)) \<le> n" if "3 * length s \<le> n" for s n
    using length_utf8_le [of "js s"] that by simp
  have h: "length (utf8_encode (case rid of None \<Rightarrow> [] | Some r \<Rightarrow> r)) \<le> 200"
    using rid(1) length_utf8_le [of "case rid of None \<Rightarrow> [] | Some r \<Rightarrow> r"] by linarith
  have kinds: "length (encodeStringList [js ''text'', js ''binary'']) \<le> 200"
    using u [of "''text''" 20] u [of "''binary''" 20] by (simp add: encodeStringList_def length_be Let_def)
  have num: "length (encodeNumberList [2]) \<le> 200" by (simp add: encodeNumberList_def length_be)
  have keys: "length (hs_client_public_key h) = 32" "length (hs_desktop_public_key h) = 32"
    "length (hs_client_nonce h) = 32" "length (hs_desktop_nonce h) = 32"
    using assms by (simp_all add: checked_def Let_def)
  have "list_all (\<lambda>v. length v \<le> 200) (map snd (transcript_fields h))"
    unfolding checked_fields [OF assms] fields_of_def Let_def
    using h kinds num keys rid(2)
    by (simp add: u length_be MOBILE_E2EE_V2_PROTOCOL_def MOBILE_E2EE_V2_TRANSCRIPT_DOMAIN_def)
  then have "list_all (\<lambda>f. length (snd f) < 2 ^ 32) (transcript_fields h)"
    by (auto simp: list_all_iff intro: le_less_trans)
  moreover have "list_all (\<lambda>f. length (utf8_encode (js (fst f))) \<le> 200) (transcript_fields h)"
    unfolding transcript_fields_def Let_def by (simp add: u)
  then have "list_all (\<lambda>f. length (utf8_encode (js (fst f))) < 2 ^ 32) (transcript_fields h)"
    by (auto simp: list_all_iff intro: le_less_trans)
  ultimately show ?thesis by (auto simp: list_all_iff field_ok_def)
qed

lemma route_unique:
  assumes "route_ok t rid" and "route_ok t' rid'" and "utf8_encode (js t) = utf8_encode (js t')"
    and "utf8_encode (case rid of None \<Rightarrow> [] | Some r \<Rightarrow> r) = utf8_encode (case rid' of None \<Rightarrow> [] | Some r \<Rightarrow> r)"
  shows "t = t' \<and> rid = rid'"
proof -
  have t: "t = t'" using assms(3) by (simp add: utf8_inj js_well_formed js_eq_iff)
  have "well_formed (case r of None \<Rightarrow> [] | Some r \<Rightarrow> r)" if "route_ok t r" for t r
    using that by (auto simp: route_ok_def base64url_well_formed well_formed_def [of "[]"])
  then have "(case rid of None \<Rightarrow> [] | Some r \<Rightarrow> r) = (case rid' of None \<Rightarrow> [] | Some r \<Rightarrow> r)"
    using assms utf8_inj by blast
  then show ?thesis using t assms(1,2) by (auto simp: route_ok_def)
qed

end
