(* ===== verification/E2ee_Session.thy ===== *)
theory E2ee_Session
  imports E2ee_Frame E2ee_Contract
begin

text \<open>
  The two ends of the paired mobile channel, \<open>src/main/runtime/rpc/mobile-e2ee-v2-desktop-session.ts\<close> and
  \<open>mobile/src/transport/mobile-e2ee-v2-client-session.ts\<close>, with their key schedules, two files of the same
  text over two libraries.  Curve25519, SHA-256 and HKDF are parameters; both sides are given the same ones,
  and \<open>crypto_laws\<close> is what is documented of them.  The cipher is the parameter of \<open>E2ee_Frame\<close>.
\<close>

subsection \<open>Cryptographic functions\<close>

record crypto =
  cr_public :: "bytes \<Rightarrow> bytes"                        \<comment> \<open>public key of a secret key\<close>
  cr_shared :: "bytes \<Rightarrow> bytes \<Rightarrow> bytes"              \<comment> \<open>\<open>nacl.box.before\<close> of a public and a secret key\<close>
  cr_sha256 :: "bytes \<Rightarrow> bytes"
  cr_hkdf :: "bytes \<Rightarrow> bytes \<Rightarrow> bytes \<Rightarrow> nat \<Rightarrow> bytes"  \<comment> \<open>secret, salt, info, length\<close>

definition crypto_laws :: "crypto \<Rightarrow> bool" where
  "crypto_laws C \<longleftrightarrow>
     (\<forall>s. length (cr_public C s) = 32) \<and> (\<forall>p s. length (cr_shared C p s) = 32) \<and>
     (\<forall>a b. cr_shared C (cr_public C a) b = cr_shared C (cr_public C b) a) \<and>
     (\<forall>x. length (cr_sha256 C x) = 32) \<and>
     (\<forall>k s i n. n \<le> 255 * 32 \<longrightarrow> length (cr_hkdf C k s i n) = n)"

datatype session_error =
    BadLength string nat      \<comment> \<open>\<open>requireLength\<close>\<close>
  | BadSecretKey nat          \<comment> \<open>thrown by the library\<close>
  | BadClientNonce nat
  | BadPublicKey nat
  | BadBase64                 \<comment> \<open>thrown by \<open>atob\<close>\<close>

subsection \<open>The key schedule\<close>

definition SALT_LABEL :: bytes where
  "SALT_LABEL = utf8_encode (js ''orca-mobile-e2ee/v2/salt'' @ [0])"

definition INFO_LABEL :: bytes where
  "INFO_LABEL = utf8_encode (js ''orca-mobile-e2ee/v2/session'' @ [0])"

definition deriveMobileE2EEV2KeySchedule :: "crypto \<Rightarrow> bytes \<Rightarrow> bytes \<Rightarrow> bytes \<Rightarrow> bytes \<Rightarrow> session_error + key_schedule" where
  "deriveMobileE2EEV2KeySchedule C sharedSecret transcript clientNonce desktopNonce =
     (if length sharedSecret \<noteq> 32 then Inl (BadLength ''shared secret'' (length sharedSecret))
      else if length clientNonce \<noteq> 32 then Inl (BadLength ''client nonce'' (length clientNonce))
      else if length desktopNonce \<noteq> 32 then Inl (BadLength ''desktop nonce'' (length desktopNonce))
      else let transcriptHash = cr_sha256 C transcript;
               salt = cr_sha256 C (SALT_LABEL @ clientNonce @ desktopNonce);
               info = INFO_LABEL @ transcriptHash;
               expanded = cr_hkdf C sharedSecret salt info 96
           in Inr \<lparr>ks_mobile_to_desktop = slice 0 32 expanded, ks_desktop_to_mobile = slice 32 64 expanded,
                ks_session_id = slice 64 96 expanded, ks_transcript_hash = transcriptHash\<rparr>)"

subsection \<open>The desktop end\<close>

record desktop_context =
  dc_transport :: string
  dc_relay_host_id :: "jsstr option"

record desktop_e2ee =
  de_ready :: js_value
  de_transcript_hash_b64 :: jsstr
  de_session :: desktop_session

definition opt_str :: "jsstr option \<Rightarrow> js_value" where
  "opt_str x = (case x of None \<Rightarrow> VUndefined | Some s \<Rightarrow> VStr s)"

definition hasExpectedContext :: "js_value \<Rightarrow> desktop_context \<Rightarrow> bool" where
  "hasExpectedContext hello ctx \<longleftrightarrow>
     isRecord hello \<and> js ''context'' \<in> set (object_keys hello) \<and>
     (case get ''context'' hello of VObj _ \<Rightarrow> True | VArr _ \<Rightarrow> True | _ \<Rightarrow> False) \<and>
     strict_eq (get ''transport'' (get ''context'' hello)) (VStr (js (dc_transport ctx))) \<and>
     strict_eq (get ''relayHostId'' (get ''context'' hello)) (opt_str (dc_relay_host_id ctx))"

definition text_and_binary :: js_value where
  "text_and_binary = VArr [VStr (js ''text''), VStr (js ''binary'')]"

definition ready_message :: "js_value \<Rightarrow> bytes \<Rightarrow> bytes \<Rightarrow> js_value" where
  "ready_message hello desktopPublicKey desktopNonce =
     VObj [(js ''type'', VStr (js ''e2ee_ready'')),
           (js ''v'', VNum 2),
           (js ''desktopPublicKeyB64'', VStr (base64_encode desktopPublicKey)),
           (js ''clientNonceB64'', get ''clientNonceB64'' hello),
           (js ''desktopNonceB64'', VStr (base64_encode desktopNonce)),
           (js ''selection'', VObj [(js ''framing'', VNum 2), (js ''payloadKinds'', text_and_binary)]),
           (js ''context'', get ''context'' hello)]"

text \<open>\<open>DesktopMobileE2EEV2Session.create\<close>, given the 32 random bytes it draws.\<close>

definition desktop_create :: "crypto \<Rightarrow> js_value \<Rightarrow> bytes \<Rightarrow> desktop_context \<Rightarrow> bytes \<Rightarrow> session_error + desktop_e2ee option" where
  "desktop_create C hello serverSecretKey ctx random =
     (if \<not> hasExpectedContext hello ctx then Inr None
      else if length serverSecretKey \<noteq> 32 then Inl (BadSecretKey (length serverSecretKey))
      else let ready = ready_message hello (cr_public C serverSecretKey) random
           in (case validateMobileE2EEV2Handshake hello ready of
                 None \<Rightarrow> Inr None
               | Some h \<Rightarrow>
                   (case deriveMobileE2EEV2KeySchedule C (cr_shared C (hs_client_public_key h) serverSecretKey)
                           (encodeMobileE2EEV2Transcript h) (hs_client_nonce h) (hs_desktop_nonce h) of
                      Inl e \<Rightarrow> Inl e
                    | Inr ks \<Rightarrow>
                        Inr (Some \<lparr>de_ready = ready, de_transcript_hash_b64 = base64_encode (ks_transcript_hash ks),
                          de_session = \<lparr>ds_inbound = 0, ds_outbound = 0, ds_schedule = ks\<rparr>\<rparr>))))"

subsection \<open>The mobile end\<close>

record client_e2ee =
  ce_hello :: js_value
  ce_secret_key :: bytes
  ce_pinned_key :: bytes
  ce_transcript_hash_b64 :: "jsstr option"
  ce_session :: client_session

definition hello_message :: "bytes \<Rightarrow> bytes \<Rightarrow> string \<Rightarrow> jsstr option \<Rightarrow> js_value" where
  "hello_message clientPublicKey clientNonce transport relayHostId =
     VObj [(js ''type'', VStr (js ''e2ee_hello'')),
           (js ''v'', VNum 2),
           (js ''clientPublicKeyB64'', VStr (base64_encode clientPublicKey)),
           (js ''clientNonceB64'', VStr (base64_encode clientNonce)),
           (js ''capabilities'', VObj [(js ''framing'', VArr [VNum 2]), (js ''payloadKinds'', text_and_binary)]),
           (js ''context'', VObj ([(js ''protocol'', VStr (js ''orca-mobile-e2ee'')), (js ''initiator'', VStr (js ''mobile'')),
              (js ''responder'', VStr (js ''desktop'')), (js ''transport'', VStr (js transport))] @
              (case relayHostId of None \<Rightarrow> [] | Some h \<Rightarrow> if h = [] then [] else [(js ''relayHostId'', VStr h)])))]"

definition publicKeyFromBase64 :: "jsstr \<Rightarrow> session_error + bytes" where
  "publicKeyFromBase64 b64 =
     (case atob b64 of
        None \<Rightarrow> Inl BadBase64
      | Some key \<Rightarrow> if length key \<noteq> 32 then Inl (BadPublicKey (length key)) else Inr key)"

text \<open>\<open>MobileE2EEV2ClientSession.create\<close>, given the nonce and the key pair, public key first.\<close>

definition client_create :: "jsstr \<Rightarrow> string \<Rightarrow> jsstr option \<Rightarrow> bytes \<Rightarrow> bytes \<times> bytes \<Rightarrow> session_error + client_e2ee" where
  "client_create desktopPublicKeyB64 transport relayHostId clientNonce keyPair =
     (if length clientNonce \<noteq> 32 then Inl (BadClientNonce (length clientNonce))
      else (case publicKeyFromBase64 desktopPublicKeyB64 of
              Inl e \<Rightarrow> Inl e
            | Inr pinned \<Rightarrow>
                Inr \<lparr>ce_hello = hello_message (fst keyPair) clientNonce transport relayHostId, ce_secret_key = snd keyPair,
                  ce_pinned_key = pinned, ce_transcript_hash_b64 = None,
                  ce_session = \<lparr>cs_inbound = 0, cs_outbound = 0, cs_schedule = None\<rparr>\<rparr>))"

definition acceptReady :: "crypto \<Rightarrow> js_value \<Rightarrow> client_e2ee \<Rightarrow> session_error + client_e2ee \<times> bool" where
  "acceptReady C ready c =
     (case validateMobileE2EEV2Handshake (ce_hello c) ready of
        None \<Rightarrow> Inr (c, False)
      | Some h \<Rightarrow>
          if \<not> equalBytes (hs_desktop_public_key h) (ce_pinned_key c) then Inr (c, False)
          else if length (ce_secret_key c) \<noteq> 32 then Inl (BadSecretKey (length (ce_secret_key c)))
          else (case deriveMobileE2EEV2KeySchedule C (cr_shared C (ce_pinned_key c) (ce_secret_key c))
                       (encodeMobileE2EEV2Transcript h) (hs_client_nonce h) (hs_desktop_nonce h) of
                  Inl e \<Rightarrow> Inl e
                | Inr ks \<Rightarrow>
                    Inr (c\<lparr>ce_session := (ce_session c)\<lparr>cs_schedule := Some ks\<rparr>,
                           ce_transcript_hash_b64 := Some (base64_encode (ks_transcript_hash ks))\<rparr>, True)))"

subsection \<open>Text frames\<close>

definition desktop_decodeCanonicalBase64 :: "jsstr \<Rightarrow> bytes option" where
  "desktop_decodeCanonicalBase64 v =
     (if \<not> base64_pattern v then None
      else let bs = buffer_from_base64 v in if base64_encode bs = v then Some bs else None)"

definition client_decodeCanonicalBase64 :: "jsstr \<Rightarrow> bytes option" where
  "client_decodeCanonicalBase64 v =
     (case atob v of None \<Rightarrow> None | Some bs \<Rightarrow> if base64_encode bs = v then Some bs else None)"

definition desktop_openText :: "secretbox \<Rightarrow> jsstr \<Rightarrow> desktop_session \<Rightarrow> desktop_session \<times> (frame_error + jsstr option)" where
  "desktop_openText B frameB64 s =
     (case desktop_decodeCanonicalBase64 frameB64 of
        None \<Rightarrow> (s, Inr None)
      | Some frame \<Rightarrow> (case desktop_open B frame KText s of (s', r) \<Rightarrow> (s', map_sum id (map_option text_decode) r)))"

definition desktop_sealText :: "secretbox \<Rightarrow> jsstr \<Rightarrow> desktop_session \<Rightarrow> desktop_session \<times> (frame_error + jsstr)" where
  "desktop_sealText B plain s =
     (case desktop_seal B (utf8_encode plain) KText s of (s', r) \<Rightarrow> (s', map_sum id base64_encode r))"

definition client_openText :: "secretbox \<Rightarrow> jsstr \<Rightarrow> client_session \<Rightarrow> client_session \<times> (frame_error + jsstr option)" where
  "client_openText B frameB64 s =
     (case client_decodeCanonicalBase64 frameB64 of
        None \<Rightarrow> (s, Inr None)
      | Some frame \<Rightarrow> (case client_open B frame KText s of (s', r) \<Rightarrow> (s', map_sum id (map_option text_decode) r)))"

definition client_sealText :: "secretbox \<Rightarrow> jsstr \<Rightarrow> client_session \<Rightarrow> client_session \<times> (frame_error + jsstr)" where
  "client_sealText B plain s =
     (case client_seal B (utf8_encode plain) KText s of (s', r) \<Rightarrow> (s', map_sum id base64_encode r))"

text \<open>Binary frames go to the counting ends as they are.\<close>

definition desktop_openBinary :: "secretbox \<Rightarrow> bytes \<Rightarrow> desktop_session \<Rightarrow> desktop_session \<times> (frame_error + bytes option)" where
  "desktop_openBinary B frame s = desktop_open B frame KBinary s"

definition desktop_sealBinary :: "secretbox \<Rightarrow> bytes \<Rightarrow> desktop_session \<Rightarrow> desktop_session \<times> (frame_error + bytes)" where
  "desktop_sealBinary B plain s = desktop_seal B plain KBinary s"

definition client_openBinary :: "secretbox \<Rightarrow> bytes \<Rightarrow> client_session \<Rightarrow> client_session \<times> (frame_error + bytes option)" where
  "client_openBinary B frame s = client_open B frame KBinary s"

definition client_sealBinary :: "secretbox \<Rightarrow> bytes \<Rightarrow> client_session \<Rightarrow> client_session \<times> (frame_error + bytes)" where
  "client_sealBinary B plain s = client_seal B plain KBinary s"

text \<open>The client's \<open>transcriptHashB64\<close>; a hash that is not there is a thrown error.\<close>

definition client_transcriptHashB64 :: "client_e2ee \<Rightarrow> frame_error + jsstr" where
  "client_transcriptHashB64 c =
     (case ce_transcript_hash_b64 c of None \<Rightarrow> Inl NotReady | Some h \<Rightarrow> if h = [] then Inl NotReady else Inr h)"

subsection \<open>The messages the two ends build pass the check\<close>

lemma get_VObj: "get k (VObj ms) = (case map_of ms (js k) of Some x \<Rightarrow> x | None \<Rightarrow> VUndefined)"
  by (simp add: get_def)

definition route_ctx :: "string \<Rightarrow> jsstr option \<Rightarrow> js_value" where
  "route_ctx t rid = VObj ([(js ''protocol'', VStr (js ''orca-mobile-e2ee'')), (js ''initiator'', VStr (js ''mobile'')),
     (js ''responder'', VStr (js ''desktop'')), (js ''transport'', VStr (js t))] @
     (case rid of None \<Rightarrow> [] | Some h \<Rightarrow> if h = [] then [] else [(js ''relayHostId'', VStr h)]))"

lemma parse_route_ctx:
  assumes "route_ok t rid"
  shows "parseContext (route_ctx t rid) = Some (route_ctx t rid)" and "is_context (route_ctx t rid) t rid"
proof -
  have "rid \<noteq> Some []" using assms by (auto simp: route_ok_def BASE64URL_16_PATTERN_def)
  then show "parseContext (route_ctx t rid) = Some (route_ctx t rid)"
    using assms by (auto simp: route_ok_def parseContext_def Let_def is_str_iff js_eq_iff isExactRecord_iff isRecord_def
        object_keys_def route_ctx_def get_VObj MOBILE_E2EE_V2_PROTOCOL_def)
  show "is_context (route_ctx t rid) t rid"
    using assms [unfolded route_ok_def] \<open>rid \<noteq> Some []\<close>
    by (elim disjE conjE exE) (simp_all add: is_context_def route_ctx_def get_VObj js_eq_iff MOBILE_E2EE_V2_PROTOCOL_def)
qed

lemma hello_fields:
  "get ''type'' (hello_message pk cn t rid) = VStr (js ''e2ee_hello'')"
  "get ''v'' (hello_message pk cn t rid) = VNum 2"
  "get ''clientPublicKeyB64'' (hello_message pk cn t rid) = VStr (base64_encode pk)"
  "get ''clientNonceB64'' (hello_message pk cn t rid) = VStr (base64_encode cn)"
  "hasExactCapabilities (get ''capabilities'' (hello_message pk cn t rid))"
  "get ''context'' (hello_message pk cn t rid) = route_ctx t rid"
  "isExactRecord (hello_message pk cn t rid)
     [''type'', ''v'', ''clientPublicKeyB64'', ''clientNonceB64'', ''capabilities'', ''context'']"
  by (simp_all add: hello_message_def get_VObj js_eq_iff route_ctx_def hasExactCapabilities_def isExactRecord_iff isRecord_def
      object_keys_def is_two_iff is_payload_kinds_iff text_and_binary_def)

lemma ready_fields:
  "get ''type'' (ready_message hello pk dn) = VStr (js ''e2ee_ready'')"
  "get ''v'' (ready_message hello pk dn) = VNum 2"
  "get ''desktopPublicKeyB64'' (ready_message hello pk dn) = VStr (base64_encode pk)"
  "get ''clientNonceB64'' (ready_message hello pk dn) = get ''clientNonceB64'' hello"
  "get ''desktopNonceB64'' (ready_message hello pk dn) = VStr (base64_encode dn)"
  "hasExactSelection (get ''selection'' (ready_message hello pk dn))"
  "get ''context'' (ready_message hello pk dn) = get ''context'' hello"
  "isExactRecord (ready_message hello pk dn)
     [''type'', ''v'', ''desktopPublicKeyB64'', ''clientNonceB64'', ''desktopNonceB64'', ''selection'', ''context'']"
  by (simp_all add: ready_message_def get_VObj js_eq_iff hasExactSelection_def isExactRecord_iff isRecord_def
      object_keys_def is_two_iff is_payload_kinds_iff text_and_binary_def)

lemma validate_messages:
  assumes "route_ok t rid" and "length cpk = 32" and "length cn = 32" and "length dpk = 32" and "length dn = 32"
  shows "validateMobileE2EEV2Handshake (hello_message cpk cn t rid) (ready_message (hello_message cpk cn t rid) dpk dn) =
    Some \<lparr>hs_hello = hello_message cpk cn t rid, hs_ready = ready_message (hello_message cpk cn t rid) dpk dn,
      hs_client_public_key = cpk, hs_desktop_public_key = dpk, hs_client_nonce = cn, hs_desktop_nonce = dn\<rparr>"
proof -
  have d: "decodeCanonicalBase64Bytes (VStr (base64_encode bs)) 32 = Some bs" if "length bs = 32" for bs
    using that by (simp add: decode_canonical_iff)
  have c: "contextsEqual (route_ctx t rid) (route_ctx t rid)"
    using parse_route_ctx(2) [OF assms(1)] by (auto simp: contextsEqual_def is_context_def strict_eq_iff split: option.splits)
  show ?thesis
    unfolding validateMobileE2EEV2Handshake_def
    by (simp add: hello_fields ready_fields parse_route_ctx(1) [OF assms(1)] c is_str_iff is_two_iff d assms(2-5))
qed

text \<open>
  C23: The transcript binds the handshake.  Two checked handshakes have the same transcript exactly when they
  agree on both public keys, both nonces, the transport and the relay host.
\<close>

theorem transcript_binds:
  assumes "validateMobileE2EEV2Handshake hello ready = Some h" and "validateMobileE2EEV2Handshake hello' ready' = Some h'"
  shows "encodeMobileE2EEV2Transcript h = encodeMobileE2EEV2Transcript h' \<longleftrightarrow>
    hs_client_public_key h = hs_client_public_key h' \<and> hs_desktop_public_key h = hs_desktop_public_key h' \<and>
    hs_client_nonce h = hs_client_nonce h' \<and> hs_desktop_nonce h = hs_desktop_nonce h' \<and>
    (\<forall>k \<in> {''transport'', ''relayHostId''}. get k (get ''context'' hello) = get k (get ''context'' hello'))"
proof -
  obtain t rid where h: "hs_hello h = hello" "checked h t rid" using validated [OF assms(1)] by blast
  obtain t' rid' where h': "hs_hello h' = hello'" "checked h' t' rid'" using validated [OF assms(2)] by blast
  have ctx: "is_context (get ''context'' hello) t rid" "route_ok t rid" "is_context (get ''context'' hello') t' rid'" "route_ok t' rid'"
    using h h' by (simp_all add: checked_def Let_def)
  have same: "(\<forall>k \<in> {''transport'', ''relayHostId''}. get k (get ''context'' hello) = get k (get ''context'' hello')) \<longleftrightarrow> t = t' \<and> rid = rid'"
    using ctx by (auto simp: is_context_def js_eq_iff split: option.splits)
  have names: "map fst (transcript_fields h) = map fst (transcript_fields h')"
    by (simp add: transcript_fields_def Let_def)
  then have len: "length (transcript_fields h) = length (transcript_fields h')" by (rule map_eq_imp_length_eq)
  have "encodeMobileE2EEV2Transcript h = encodeMobileE2EEV2Transcript h' \<longleftrightarrow>
      map snd (transcript_fields h) = map snd (transcript_fields h')"
    using transcript_fields_inj [OF len checked_fields_ok [OF h(2)] checked_fields_ok [OF h'(2)]]
      zip_map_fst_snd [of "transcript_fields h"] zip_map_fst_snd [of "transcript_fields h'"] names
    unfolding encodeMobileE2EEV2Transcript_def by metis
  also have "\<dots> \<longleftrightarrow> hs_client_public_key h = hs_client_public_key h' \<and> hs_desktop_public_key h = hs_desktop_public_key h' \<and>
      hs_client_nonce h = hs_client_nonce h' \<and> hs_desktop_nonce h = hs_desktop_nonce h' \<and> t = t' \<and> rid = rid'"
    unfolding checked_fields [OF h(2)] checked_fields [OF h'(2)]
    using route_unique [OF ctx(2,4)] by (auto simp: fields_of_def Let_def)
  finally show ?thesis unfolding same .
qed


text \<open>Two handshakes over different routes have different transcripts.\<close>

definition sample_hello :: "string \<Rightarrow> jsstr option \<Rightarrow> js_value" where
  "sample_hello t rid = hello_message (replicate 32 1) (replicate 32 2) t rid"

definition sample_handshake :: "string \<Rightarrow> jsstr option \<Rightarrow> handshake" where
  "sample_handshake t rid = \<lparr>hs_hello = sample_hello t rid, hs_ready = ready_message (sample_hello t rid) (replicate 32 3) (replicate 32 4),
     hs_client_public_key = replicate 32 1, hs_desktop_public_key = replicate 32 3, hs_client_nonce = replicate 32 2,
     hs_desktop_nonce = replicate 32 4\<rparr>"

lemma sample_validates: "route_ok t rid \<Longrightarrow>
  validateMobileE2EEV2Handshake (sample_hello t rid) (ready_message (sample_hello t rid) (replicate 32 3) (replicate 32 4)) =
    Some (sample_handshake t rid)"
  unfolding sample_hello_def sample_handshake_def by (rule validate_messages) simp_all

lemma sample_routes: "route_ok ''direct'' None" "route_ok ''relay'' (Some (replicate 16 65))"
  by (simp_all add: route_ok_def BASE64URL_16_PATTERN_def base64url_char_def list_all_iff)

theorem transcript_binds_witness:
  "encodeMobileE2EEV2Transcript (sample_handshake ''direct'' None) \<noteq>
   encodeMobileE2EEV2Transcript (sample_handshake ''relay'' (Some (replicate 16 65)))"
  unfolding transcript_binds [OF sample_validates [OF sample_routes(1)] sample_validates [OF sample_routes(2)]]
  by (simp add: sample_hello_def hello_fields route_ctx_def get_VObj js_eq_iff)

subsection \<open>The handshake\<close>

lemma derive_ok:
  assumes "crypto_laws C" and "length sec = 32" and "length cn = 32" and "length dn = 32"
  shows "\<exists>ks. deriveMobileE2EEV2KeySchedule C sec tr cn dn = Inr ks \<and> length (ks_mobile_to_desktop ks) = 32 \<and>
    length (ks_desktop_to_mobile ks) = 32 \<and> length (ks_session_id ks) = 32"
  using assms by (simp add: deriveMobileE2EEV2KeySchedule_def Let_def slice_def crypto_laws_def)

lemma handshake_core:
  assumes laws: "crypto_laws C" and route: "route_ok t rid"
    and l: "length cn = 32" "length dn = 32" "length cs = 32" "length ds = 32"
    and c: "client_create (base64_encode (cr_public C ds)) t rid cn (cr_public C cs, cs) = Inr c"
  shows "\<exists>ks d c'. length (ks_mobile_to_desktop ks) = 32 \<and> length (ks_desktop_to_mobile ks) = 32 \<and> length (ks_session_id ks) = 32 \<and>
    desktop_create C (ce_hello c) ds \<lparr>dc_transport = t, dc_relay_host_id = rid\<rparr> dn = Inr (Some d) \<and>
    acceptReady C (de_ready d) c = Inr (c', True) \<and>
    de_session d = fresh_desktop ks \<and> ce_session c' = fresh_client ks \<and>
    ce_transcript_hash_b64 c' = Some (de_transcript_hash_b64 d)"
proof -
  let ?pub = "cr_public C" and ?hello = "hello_message (cr_public C cs) cn t rid"
  let ?ready = "ready_message ?hello (?pub ds) dn"
  let ?h = "\<lparr>hs_hello = ?hello, hs_ready = ?ready, hs_client_public_key = ?pub cs, hs_desktop_public_key = ?pub ds,
      hs_client_nonce = cn, hs_desktop_nonce = dn\<rparr>"
  have pub: "\<And>s. length (?pub s) = 32" and sh: "\<And>p s. length (cr_shared C p s) = 32"
    and dh: "cr_shared C (?pub ds) cs = cr_shared C (?pub cs) ds" using laws unfolding crypto_laws_def by blast+
  have h: "validateMobileE2EEV2Handshake ?hello ?ready = Some ?h"
    by (rule validate_messages [OF route pub l(1) pub l(2)])
  obtain ks where ks: "deriveMobileE2EEV2KeySchedule C (cr_shared C (?pub cs) ds) (encodeMobileE2EEV2Transcript ?h) cn dn = Inr ks"
      "length (ks_mobile_to_desktop ks) = 32" "length (ks_desktop_to_mobile ks) = 32" "length (ks_session_id ks) = 32"
    using derive_ok [OF laws sh l(1,2)] by blast
  have c_eq: "c = \<lparr>ce_hello = ?hello, ce_secret_key = cs, ce_pinned_key = ?pub ds, ce_transcript_hash_b64 = None,
      ce_session = \<lparr>cs_inbound = 0, cs_outbound = 0, cs_schedule = None\<rparr>\<rparr>"
    using c l(1) by (simp add: client_create_def publicKeyFromBase64_def atob_encode pub)
  have ctx: "hasExpectedContext ?hello \<lparr>dc_transport = t, dc_relay_host_id = rid\<rparr>"
  proof -
    have "isRecord ?hello" "js ''context'' \<in> set (object_keys ?hello)" "\<exists>ms. get ''context'' ?hello = VObj ms"
      by (simp_all add: hello_message_def isRecord_def object_keys_def get_VObj js_eq_iff)
    moreover have "is_context (get ''context'' ?hello) t rid"
      using parse_route_ctx(2) [OF route] by (simp add: hello_fields)
    ultimately show ?thesis
      by (auto simp: hasExpectedContext_def is_context_def strict_eq_iff opt_str_def split: option.splits)
  qed
  let ?d = "\<lparr>de_ready = ?ready, de_transcript_hash_b64 = base64_encode (ks_transcript_hash ks), de_session = fresh_desktop ks\<rparr>"
  have d: "desktop_create C ?hello ds \<lparr>dc_transport = t, dc_relay_host_id = rid\<rparr> dn = Inr (Some ?d)"
    using ctx l(4) h ks(1) by (simp add: desktop_create_def Let_def fresh_desktop_def)
  let ?c = "c\<lparr>ce_session := fresh_client ks, ce_transcript_hash_b64 := Some (base64_encode (ks_transcript_hash ks))\<rparr>"
  have "acceptReady C ?ready c = Inr (?c, True)"
    using h ks(1) l(3) dh by (simp add: acceptReady_def c_eq equalBytes_iff fresh_client_def)
  with d ks(2-4) show ?thesis
    by (intro exI [of _ ks] exI [of _ ?d] exI [of _ ?c]) (simp add: c_eq)
qed

text \<open>
  C24: The two ends agree.  A phone that pinned the desktop's key and a desktop that gets its hello over the
  expected route complete the handshake with the same keys, session id and transcript hash, ready to number
  frames from 0.
\<close>

theorem handshake_agrees:
  assumes "crypto_laws C" and "route_ok t rid"
    and "length cn = 32" and "length dn = 32" and "length cs = 32" and "length ds = 32"
    and "client_create (base64_encode (cr_public C ds)) t rid cn (cr_public C cs, cs) = Inr c"
  shows "\<exists>ks d c'. desktop_create C (ce_hello c) ds \<lparr>dc_transport = t, dc_relay_host_id = rid\<rparr> dn = Inr (Some d) \<and>
    acceptReady C (de_ready d) c = Inr (c', True) \<and>
    de_session d = fresh_desktop ks \<and> ce_session c' = fresh_client ks \<and>
    ce_transcript_hash_b64 c' = Some (de_transcript_hash_b64 d)"
  using handshake_core [OF assms] by blast

text \<open>
  C25: A ready message is accepted only from the pinned desktop.  When the phone accepts, the message names the
  pinned key, echoes the phone's nonce and repeats its context; when it does not, its session is as before.
\<close>

theorem accept_requires_pinned_key:
  assumes "acceptReady C ready c = Inr (c', ok)"
  shows "(ok \<longrightarrow> get ''desktopPublicKeyB64'' ready = VStr (base64_encode (ce_pinned_key c)) \<and>
      get ''clientNonceB64'' ready = get ''clientNonceB64'' (ce_hello c) \<and>
      (\<forall>k \<in> {''protocol'', ''initiator'', ''responder'', ''transport'', ''relayHostId''}.
         get k (get ''context'' ready) = get k (get ''context'' (ce_hello c)))) \<and>
    (\<not> ok \<longrightarrow> c' = c)"
proof (cases "validateMobileE2EEV2Handshake (ce_hello c) ready")
  case None
  then show ?thesis using assms by (simp add: acceptReady_def)
next
  case (Some h)
  obtain t rid where h: "hs_hello h = ce_hello c" "hs_ready h = ready" "checked h t rid" using validated [OF Some] .
  show ?thesis
  proof (cases "hs_desktop_public_key h = ce_pinned_key c")
    case True
    have "get ''desktopPublicKeyB64'' ready = VStr (base64_encode (ce_pinned_key c))"
      "get ''clientNonceB64'' ready = get ''clientNonceB64'' (ce_hello c)"
      "is_context (get ''context'' ready) t rid" "is_context (get ''context'' (ce_hello c)) t rid"
      using h True by (simp_all add: checked_def Let_def)
    moreover have ok using assms Some True by (auto simp: acceptReady_def equalBytes_iff split: if_splits sum.splits)
    ultimately show ?thesis by (simp add: is_context_def)
  next
    case False
    then show ?thesis using assms Some by (simp add: acceptReady_def equalBytes_iff)
  qed
qed

subsection \<open>Texts over the paired channel\<close>

fun run_texts :: "('a \<Rightarrow> 's \<Rightarrow> 's \<times> 'r) \<Rightarrow> 'a list \<Rightarrow> 's \<Rightarrow> 's \<times> 'r list" where
  "run_texts op [] s = (s, [])"
| "run_texts op (x # xs) s = (let (s1, r) = op x s; (s2, rs) = run_texts op xs s1 in (s2, r # rs))"

text \<open>A sender and a receiver that stay in step pass on any list of texts.\<close>

lemma texts_pass:
  assumes step: "\<And>n s x y. R n x y \<Longrightarrow> n < 2 ^ 64 \<Longrightarrow>
      \<exists>f x' y'. seal s x = (x', Inr f) \<and> opn f y = (y', Inr (Some (g s))) \<and> R (Suc n) x' y'"
  shows "R n x y \<Longrightarrow> n + length ss \<le> 2 ^ 64 \<Longrightarrow>
    \<exists>fs. snd (run_texts seal ss x) = map Inr fs \<and> snd (run_texts opn fs y) = map (\<lambda>s. Inr (Some (g s))) ss"
proof (induction ss arbitrary: n x y)
  case (Cons s ss)
  then obtain f x' y' where st: "seal s x = (x', Inr f)" "opn f y = (y', Inr (Some (g s)))" "R (Suc n) x' y'"
    using step [OF Cons.prems(1), of s] by auto
  obtain fs where "snd (run_texts seal ss x') = map Inr fs" "snd (run_texts opn fs y') = map (\<lambda>s. Inr (Some (g s))) ss"
    using Cons.IH [OF st(3)] Cons.prems(2) by auto
  then show ?case using st(1,2) by (intro exI [of _ "f # fs"]) (simp add: case_prod_unfold)
qed (auto intro: exI [of _ "[]"])

lemma canonical_decode:
  "desktop_decodeCanonicalBase64 (base64_encode bs) = Some bs" "client_decodeCanonicalBase64 (base64_encode bs) = Some bs"
  by (simp_all add: desktop_decodeCanonicalBase64_def client_decodeCanonicalBase64_def pattern_encode atob_encode
      buffer_from_encode Let_def)

lemma phone_to_desktop:
  assumes "box_laws B" and "good_keys B ks" and "length ss \<le> 2 ^ 64"
  shows "\<exists>fs. snd (run_texts (client_sealText B) ss (fresh_client ks)) = map Inr fs \<and>
    snd (run_texts (desktop_openText B) fs (fresh_desktop ks)) = map (\<lambda>s. Inr (Some (text_decode (utf8_encode s)))) ss"
proof (rule texts_pass [where n = 0])
  let ?R = "\<lambda>n (x :: client_session) (y :: desktop_session). cs_schedule x = Some ks \<and> cs_outbound x = int n \<and> ds_schedule y = ks \<and> ds_inbound y = int n"
  show "?R 0 (fresh_client ks) (fresh_desktop ks)" by (simp add: fresh_client_def fresh_desktop_def)
  show "0 + length ss \<le> 2 ^ 64" using assms(3) by simp
  fix n s x y
  assume R: "?R n x y" and n: "n < (2 :: nat) ^ 64"
  have k: "length (ks_mobile_to_desktop ks) = box_key_length B" "length (ks_session_id ks) = 32"
    using assms(2) by (simp_all add: good_keys_def)
  have v: "validateFrameInputs B (ks_mobile_to_desktop ks) (ks_session_id ks) (int n) = None"
    using k counter_ok_nat [OF n] by (simp add: validate_None)
  let ?f = "frame_of B (ks_mobile_to_desktop ks) (ks_session_id ks) MobileToDesktop KText (int n) (utf8_encode s)"
  have "client_sealText B s x = (x\<lparr>cs_outbound := int n + 1\<rparr>, Inr (base64_encode ?f))"
    using R seal_frame_of [OF v] by (simp add: client_sealText_def client_seal_def Let_def)
  moreover have "openMobileE2EEV2Frame B ?f (ks_mobile_to_desktop ks) (ks_session_id ks) MobileToDesktop KText (int n) =
      Inr (Some (utf8_encode s))"
    using open_at_counter [OF assms(1) k] counter_ok_nat [OF n] by simp
  then have "desktop_openText B (base64_encode ?f) y = (y\<lparr>ds_inbound := int n + 1\<rparr>, Inr (Some (text_decode (utf8_encode s))))"
    using R by (simp add: desktop_openText_def canonical_decode desktop_open_def Let_def)
  ultimately show "\<exists>f x' y'. client_sealText B s x = (x', Inr f) \<and>
      desktop_openText B f y = (y', Inr (Some (text_decode (utf8_encode s)))) \<and> ?R (Suc n) x' y'"
    using R by simp
qed

lemma desktop_to_phone:
  assumes "box_laws B" and "good_keys B ks" and "length ss \<le> 2 ^ 64"
  shows "\<exists>fs. snd (run_texts (desktop_sealText B) ss (fresh_desktop ks)) = map Inr fs \<and>
    snd (run_texts (client_openText B) fs (fresh_client ks)) = map (\<lambda>s. Inr (Some (text_decode (utf8_encode s)))) ss"
proof (rule texts_pass [where n = 0])
  let ?R = "\<lambda>n (x :: desktop_session) (y :: client_session). ds_schedule x = ks \<and> ds_outbound x = int n \<and> cs_schedule y = Some ks \<and> cs_inbound y = int n"
  show "?R 0 (fresh_desktop ks) (fresh_client ks)" by (simp add: fresh_client_def fresh_desktop_def)
  show "0 + length ss \<le> 2 ^ 64" using assms(3) by simp
  fix n s x y
  assume R: "?R n x y" and n: "n < (2 :: nat) ^ 64"
  have k: "length (ks_desktop_to_mobile ks) = box_key_length B" "length (ks_session_id ks) = 32"
    using assms(2) by (simp_all add: good_keys_def)
  have v: "validateFrameInputs B (ks_desktop_to_mobile ks) (ks_session_id ks) (int n) = None"
    using k counter_ok_nat [OF n] by (simp add: validate_None)
  let ?f = "frame_of B (ks_desktop_to_mobile ks) (ks_session_id ks) DesktopToMobile KText (int n) (utf8_encode s)"
  have "desktop_sealText B s x = (x\<lparr>ds_outbound := int n + 1\<rparr>, Inr (base64_encode ?f))"
    using R seal_frame_of [OF v] by (simp add: desktop_sealText_def desktop_seal_def Let_def)
  moreover have "openMobileE2EEV2Frame B ?f (ks_desktop_to_mobile ks) (ks_session_id ks) DesktopToMobile KText (int n) =
      Inr (Some (utf8_encode s))"
    using open_at_counter [OF assms(1) k] counter_ok_nat [OF n] by simp
  then have "client_openText B (base64_encode ?f) y = (y\<lparr>cs_inbound := int n + 1\<rparr>, Inr (Some (text_decode (utf8_encode s))))"
    using R by (simp add: client_openText_def canonical_decode client_open_def Let_def)
  ultimately show "\<exists>f x' y'. desktop_sealText B s x = (x', Inr f) \<and>
      client_openText B f y = (y', Inr (Some (text_decode (utf8_encode s)))) \<and> ?R (Suc n) x' y'"
    using R by simp
qed

text \<open>
  A text as it comes out: each lone surrogate is replaced, and a byte order mark in first place is dropped.  A text
  without either comes out as it was.
\<close>

definition received_text :: "jsstr \<Rightarrow> jsstr" where
  "received_text s = (let t = to_well_formed s in if take 1 t = [0xFEFF] then drop 1 t else t)"

lemma decode_bom: "utf8_decode (0xEF # 0xBB # 0xBF # r) = 0xFEFF # utf8_decode r"
  by (subst utf8_decode.simps(2)) (simp add: utf8_step_def Let_def cont_def units_def)

lemma encode_bom: "take 1 (to_well_formed s) = [0xFEFF] \<Longrightarrow> take 3 (utf8_encode s) = [0xEF, 0xBB, 0xBF]"
  by (cases s) (auto simp: is_high_surrogate_def is_low_surrogate_def is_surrogate_def utf8_code_point_def split: if_splits)

lemma text_roundtrip: "text_decode (utf8_encode s) = received_text s"
proof (cases "take 3 (utf8_encode s) = [0xEF, 0xBB, 0xBF]")
  case True
  then have "utf8_encode s = 0xEF # 0xBB # 0xBF # drop 3 (utf8_encode s)" by (metis append_take_drop_id append_Cons append_Nil)
  then have "to_well_formed s = 0xFEFF # utf8_decode (drop 3 (utf8_encode s))" using decode_bom decode_encode by metis
  then show ?thesis using True by (simp add: text_decode_def received_text_def)
next
  case False
  then show ?thesis using encode_bom [of s] by (auto simp: text_decode_def received_text_def decode_encode Let_def)
qed

lemma received_plain: "well_formed s \<Longrightarrow> take 1 s \<noteq> [0xFEFF] \<Longrightarrow> received_text s = s"
  by (simp add: received_text_def well_formed_def)

lemma byte_order_mark_is_dropped: "text_decode (utf8_encode [0xFEFF, 65]) = [65]"
  by (simp add: text_decode_def is_high_surrogate_def is_low_surrogate_def is_surrogate_def utf8_code_point_def
      utf8_decode.simps(2) utf8_step_def Let_def units_def)

text \<open>
  C21: Paired ends understand each other.  After a handshake, every text either end seals is opened by the other
  one, in both directions, through Base64, UTF-8 and the counted frames, and in the order it was sealed.  It comes
  out as it was, but for lone surrogates, which are replaced, and a byte order mark in first place, which is dropped.
\<close>

theorem paired_texts_arrive:
  assumes "crypto_laws C" and "box_laws B" and "box_key_length B = 32" and "route_ok t rid"
    and "length cn = 32" and "length dn = 32" and "length cs = 32" and "length ds = 32"
    and "client_create (base64_encode (cr_public C ds)) t rid cn (cr_public C cs, cs) = Inr c"
    and "desktop_create C (ce_hello c) ds \<lparr>dc_transport = t, dc_relay_host_id = rid\<rparr> dn = Inr (Some d)"
    and "acceptReady C (de_ready d) c = Inr (c', True)"
    and "length ps \<le> 2 ^ 64" and "length qs \<le> 2 ^ 64"
  shows "(\<exists>fs. snd (run_texts (client_sealText B) ps (ce_session c')) = map Inr fs \<and>
      snd (run_texts (desktop_openText B) fs (de_session d)) = map (\<lambda>s. Inr (Some (received_text s))) ps) \<and>
    (\<exists>fs. snd (run_texts (desktop_sealText B) qs (de_session d)) = map Inr fs \<and>
      snd (run_texts (client_openText B) fs (ce_session c')) = map (\<lambda>s. Inr (Some (received_text s))) qs) \<and>
    (\<forall>s\<in>set (ps @ qs). well_formed s \<and> take 1 s \<noteq> [0xFEFF] \<longrightarrow> received_text s = s)"
proof -
  obtain ks where ks: "length (ks_mobile_to_desktop ks) = 32" "length (ks_desktop_to_mobile ks) = 32" "length (ks_session_id ks) = 32"
      "de_session d = fresh_desktop ks" "ce_session c' = fresh_client ks"
    using handshake_core [OF assms(1,4-9)] assms(10,11) by auto
  have g: "good_keys B ks" using ks(1-3) assms(3) by (simp add: good_keys_def)
  show ?thesis
    using phone_to_desktop [OF assms(2) g assms(12), unfolded text_roundtrip]
      desktop_to_phone [OF assms(2) g assms(13), unfolded text_roundtrip]
    received_plain unfolding ks(4,5) by blast
qed

subsection \<open>Witnesses\<close>

text \<open>Functions that satisfy the laws (and protect nothing).\<close>

definition pad32 :: "bytes \<Rightarrow> bytes" where
  "pad32 x = take 32 (x @ replicate 32 0)"

definition toy_crypto :: crypto where
  "toy_crypto = \<lparr>cr_public = pad32, cr_shared = (\<lambda>p s. map2 xor (pad32 p) (pad32 s)), cr_sha256 = pad32,
     cr_hkdf = (\<lambda>k s i n. take n (k @ s @ i @ replicate n 0))\<rparr>"

definition toy_box :: secretbox where
  "toy_box = clear_box\<lparr>box_key_length := 32, box_overhead := 56\<rparr>"

lemma toy_laws: "crypto_laws toy_crypto" "box_laws toy_box" "box_key_length toy_box = 32"
proof -
  have "pad32 (pad32 x) = pad32 x" "length (pad32 x) = 32" for x by (simp_all add: pad32_def)
  moreover have "map2 xor a b = map2 xor b (a :: bytes)" for a b
    by (simp add: zip_commute [of a b] xor.commute case_prod_unfold)
  ultimately show "crypto_laws toy_crypto" by (auto simp: crypto_laws_def toy_crypto_def)
  have "box_open toy_box = box_open clear_box" by (simp add: toy_box_def)
  then show "box_laws toy_box" unfolding box_laws_def by (simp add: clear_box_open) (simp add: toy_box_def clear_box_def)
  show "box_key_length toy_box = 32" by (simp add: toy_box_def)
qed

definition toy_client :: client_e2ee where
  "toy_client = \<lparr>ce_hello = hello_message (pad32 (replicate 32 6)) (replicate 32 5) ''direct'' None,
     ce_secret_key = replicate 32 6, ce_pinned_key = pad32 (replicate 32 7), ce_transcript_hash_b64 = None,
     ce_session = \<lparr>cs_inbound = 0, cs_outbound = 0, cs_schedule = None\<rparr>\<rparr>"

lemma toy_created:
  "client_create (base64_encode (cr_public toy_crypto (replicate 32 7))) ''direct'' None (replicate 32 5)
     (cr_public toy_crypto (replicate 32 6), replicate 32 6) = Inr toy_client"
  by (simp add: client_create_def publicKeyFromBase64_def atob_encode toy_crypto_def toy_client_def pad32_def)

lemmas toy_lengths = length_replicate [of 32 "5 :: 8 word"] length_replicate [of 32 "8 :: 8 word"]
  length_replicate [of 32 "6 :: 8 word"] length_replicate [of 32 "7 :: 8 word"]

lemmas toy_handshake = handshake_core [OF toy_laws(1) sample_routes(1) toy_lengths toy_created]

theorem handshake_agrees_witness:
  "\<exists>ks d c'. desktop_create toy_crypto (ce_hello toy_client) (replicate 32 7)
      \<lparr>dc_transport = ''direct'', dc_relay_host_id = None\<rparr> (replicate 32 8) = Inr (Some d) \<and>
    acceptReady toy_crypto (de_ready d) toy_client = Inr (c', True) \<and>
    de_session d = fresh_desktop ks \<and> ce_session c' = fresh_client ks \<and>
    ce_transcript_hash_b64 c' = Some (de_transcript_hash_b64 d)"
  by (rule handshake_agrees [OF toy_laws(1) sample_routes(1) toy_lengths toy_created])

theorem accept_requires_pinned_key_witness:
  "\<exists>ready c'. acceptReady toy_crypto ready toy_client = Inr (c', True) \<and>
     get ''desktopPublicKeyB64'' ready = VStr (base64_encode (ce_pinned_key toy_client))"
proof -
  obtain ready c' where "acceptReady toy_crypto ready toy_client = Inr (c', True)" using toy_handshake by blast
  then show ?thesis using accept_requires_pinned_key by blast
qed

theorem paired_texts_arrive_witness:
  "\<exists>d c' fs. desktop_create toy_crypto (ce_hello toy_client) (replicate 32 7)
      \<lparr>dc_transport = ''direct'', dc_relay_host_id = None\<rparr> (replicate 32 8) = Inr (Some d) \<and>
    acceptReady toy_crypto (de_ready d) toy_client = Inr (c', True) \<and>
    snd (run_texts (client_sealText toy_box) [js ''hi'', js ''ho''] (ce_session c')) = map Inr fs \<and>
    snd (run_texts (desktop_openText toy_box) fs (de_session d)) = [Inr (Some (js ''hi'')), Inr (Some (js ''ho''))]"
proof -
  obtain d c' where h: "desktop_create toy_crypto (ce_hello toy_client) (replicate 32 7)
      \<lparr>dc_transport = ''direct'', dc_relay_host_id = None\<rparr> (replicate 32 8) = Inr (Some d)"
    "acceptReady toy_crypto (de_ready d) toy_client = Inr (c', True)" using toy_handshake by blast
  have p: "received_text (js ''hi'') = js ''hi''" "received_text (js ''ho'') = js ''ho''"
    using received_plain js_well_formed [of "''hi''"] js_well_formed [of "''ho''"] by (simp_all add: js_eval)
  have l: "length [js ''hi'', js ''ho''] \<le> 2 ^ 64" "length ([] :: jsstr list) \<le> 2 ^ 64" by simp_all
  show ?thesis
    using paired_texts_arrive [OF toy_laws sample_routes(1) toy_lengths toy_created h l] h p by auto
qed

end
