(* ===== verification/Pty_Flow.thy ===== *)
theory Pty_Flow
  imports Contracts
begin

text \<open>
  Producer flow control of the terminals, \<open>src/main/ipc/pty-producer-flow-control.ts\<close>: a terminal whose queue
  to the renderer passes the high mark is paused, and resumed when the queue falls below the low mark.  The
  calls to the provider are the output; what the provider throws is swallowed, so it has no effect here.
\<close>

subsection \<open>The controller\<close>

definition PRODUCER_FLOW_HIGH_WATERMARK_CHARS :: int where
  "PRODUCER_FLOW_HIGH_WATERMARK_CHARS = 256 * 1024"

definition PRODUCER_FLOW_LOW_WATERMARK_CHARS :: int where
  "PRODUCER_FLOW_LOW_WATERMARK_CHARS = 32 * 1024"

definition PRODUCER_PAUSE_REASSERT_INTERVAL_MS :: int where
  "PRODUCER_PAUSE_REASSERT_INTERVAL_MS = 5000"

datatype flow_call = PauseProducer jsstr | ResumeProducer jsstr

record flow =
  fl_high :: int
  fl_low :: int
  fl_interval :: int
  fl_paused_at :: "(jsstr \<times> int) list"

definition flow_init :: "int option \<Rightarrow> int option \<Rightarrow> int option \<Rightarrow> flow" where
  "flow_init high low interval =
     \<lparr>fl_high = (case high of None \<Rightarrow> PRODUCER_FLOW_HIGH_WATERMARK_CHARS | Some h \<Rightarrow> h),
      fl_low = (case low of None \<Rightarrow> PRODUCER_FLOW_LOW_WATERMARK_CHARS | Some l \<Rightarrow> l),
      fl_interval = (case interval of None \<Rightarrow> PRODUCER_PAUSE_REASSERT_INTERVAL_MS | Some i \<Rightarrow> i),
      fl_paused_at = []\<rparr>"

definition flow_isPaused :: "flow \<Rightarrow> jsstr \<Rightarrow> bool" where
  "flow_isPaused f i \<longleftrightarrow> map_get (fl_paused_at f) i \<noteq> None"

definition flow_update :: "jsstr \<Rightarrow> int \<Rightarrow> int \<Rightarrow> flow \<Rightarrow> flow \<times> flow_call list" where
  "flow_update i pendingChars now f =
     (case map_get (fl_paused_at f) i of
        None \<Rightarrow>
          if pendingChars > fl_high f
          then (f\<lparr>fl_paused_at := map_set i now (fl_paused_at f)\<rparr>, [PauseProducer i]) else (f, [])
      | Some pausedAt \<Rightarrow>
          if pendingChars < fl_low f
          then (f\<lparr>fl_paused_at := map_delete i (fl_paused_at f)\<rparr>, [ResumeProducer i])
          else if pendingChars > fl_high f \<and> now - pausedAt \<ge> fl_interval f
          then (f\<lparr>fl_paused_at := map_set i now (fl_paused_at f)\<rparr>, [PauseProducer i])
          else (f, []))"

definition flow_release :: "jsstr \<Rightarrow> flow \<Rightarrow> flow \<times> flow_call list" where
  "flow_release i f =
     (if flow_isPaused f i then (f\<lparr>fl_paused_at := map_delete i (fl_paused_at f)\<rparr>, [ResumeProducer i]) else (f, []))"

text \<open>The keys are those at the start of the loop; each visit deletes only its own key.\<close>

fun release_keys :: "jsstr list \<Rightarrow> flow \<Rightarrow> flow \<times> flow_call list" where
  "release_keys [] f = (f, [])"
| "release_keys (i # is) f =
     (let (f1, c1) = flow_release i f; (f2, c2) = release_keys is f1 in (f2, c1 @ c2))"

definition flow_releaseAll :: "flow \<Rightarrow> flow \<times> flow_call list" where
  "flow_releaseAll f = release_keys (map fst (fl_paused_at f)) f"

subsection \<open>What the provider sees\<close>

datatype flow_event = FlowUpdate jsstr int int | FlowRelease jsstr | FlowReleaseAll

fun flow_step :: "flow_event \<Rightarrow> flow \<Rightarrow> flow \<times> flow_call list" where
  "flow_step (FlowUpdate i n now) f = flow_update i n now f"
| "flow_step (FlowRelease i) f = flow_release i f"
| "flow_step FlowReleaseAll f = flow_releaseAll f"

fun flow_run :: "flow_event list \<Rightarrow> flow \<Rightarrow> flow \<times> flow_call list" where
  "flow_run [] f = (f, [])"
| "flow_run (e # es) f = (let (f1, c1) = flow_step e f; (f2, c2) = flow_run es f1 in (f2, c1 @ c2))"

text \<open>
  The producer of one terminal as the calls leave it: \<open>produces i p cs\<close> is whether it ends paused when it
  started as \<open>p\<close>, and \<open>None\<close> when it was resumed without having been paused.
\<close>

fun producer :: "jsstr \<Rightarrow> bool \<Rightarrow> flow_call list \<Rightarrow> bool option" where
  "producer i p [] = Some p"
| "producer i p (PauseProducer j # cs) = producer i (p \<or> i = j) cs"
| "producer i p (ResumeProducer j # cs) = (if i = j then if p then producer i False cs else None else producer i p cs)"

lemma producer_append:
  "producer i p (cs @ ds) = (case producer i p cs of None \<Rightarrow> None | Some q \<Rightarrow> producer i q ds)"
  by (induction i p cs rule: producer.induct) auto

lemma isPaused_set [simp]: "flow_isPaused (f\<lparr>fl_paused_at := map_set i t (fl_paused_at f)\<rparr>) j \<longleftrightarrow> i = j \<or> flow_isPaused f j"
  by (simp add: flow_isPaused_def)

lemma isPaused_delete [simp]:
  "flow_isPaused (f\<lparr>fl_paused_at := map_delete i (fl_paused_at f)\<rparr>) j \<longleftrightarrow> i \<noteq> j \<and> flow_isPaused f j"
  by (simp add: flow_isPaused_def)

text \<open>An operation keeps the controller and the producers in step.\<close>

definition tracks :: "flow \<Rightarrow> flow \<times> flow_call list \<Rightarrow> bool" where
  "tracks f r \<longleftrightarrow> (\<forall>i. producer i (flow_isPaused f i) (snd r) = Some (flow_isPaused (fst r) i))"

lemma tracks_update: "tracks f (flow_update i n now f)"
  by (auto simp: tracks_def flow_update_def flow_isPaused_def split: option.splits)

lemma tracks_release: "tracks f (flow_release i f)"
  by (auto simp: tracks_def flow_release_def)

lemma tracks_seq:
  "tracks f (f1, c1) \<Longrightarrow> tracks f1 (f2, c2) \<Longrightarrow> tracks f (f2, c1 @ c2)"
  by (simp add: tracks_def producer_append)

lemma tracks_release_keys: "tracks f (release_keys is f)"
proof (induction "is" arbitrary: f)
  case (Cons i "is")
  show ?case
    using tracks_seq [of f "fst (flow_release i f)" "snd (flow_release i f)"] tracks_release [of f i]
      Cons [of "fst (flow_release i f)"]
    by (simp add: case_prod_unfold Let_def)
qed (simp add: tracks_def)

lemma release_keys_paused: "flow_isPaused (fst (release_keys is f)) j \<longleftrightarrow> j \<notin> set is \<and> flow_isPaused f j"
proof (induction "is" arbitrary: f)
  case (Cons i "is")
  have "flow_isPaused (fst (flow_release i f)) j \<longleftrightarrow> i \<noteq> j \<and> flow_isPaused f j"
    by (auto simp: flow_release_def)
  then show ?case using Cons [of "fst (flow_release i f)"] by (auto simp: case_prod_unfold Let_def)
qed simp

lemma releaseAll_paused: "\<not> flow_isPaused (fst (flow_releaseAll f)) j"
  unfolding flow_releaseAll_def release_keys_paused by (auto simp: flow_isPaused_def map_get_None)

lemma release_keeps_marks:
  "fl_high (fst (flow_release i f)) = fl_high f" "fl_low (fst (flow_release i f)) = fl_low f"
  by (simp_all add: flow_release_def)

lemma release_keys_marks:
  "fl_high (fst (release_keys is f)) = fl_high f" "fl_low (fst (release_keys is f)) = fl_low f"
proof (induction "is" arbitrary: f)
  case (Cons i "is")
  { case 1 show ?case using Cons(1) [of "fst (flow_release i f)"] by (simp add: case_prod_unfold Let_def release_keeps_marks) }
  { case 2 show ?case using Cons(2) [of "fst (flow_release i f)"] by (simp add: case_prod_unfold Let_def release_keeps_marks) }
qed simp_all

lemma tracks_run: "tracks f (flow_run es f)"
proof (induction es arbitrary: f)
  case (Cons e es)
  have "tracks f (flow_step e f)"
    by (cases e) (simp_all add: tracks_update tracks_release flow_releaseAll_def tracks_release_keys)
  then show ?case
    using tracks_seq [of f "fst (flow_step e f)" "snd (flow_step e f)"] Cons [of "fst (flow_step e f)"]
    by (simp add: case_prod_unfold Let_def)
qed (simp add: tracks_def)

text \<open>
  The controller and the producers agree.  Over any sequence of reports and releases no producer is resumed
  that was not paused, and a producer is left paused exactly when the controller still holds it, so a release of
  all leaves none paused.
\<close>

theorem producers_are_tracked:
  "let (f, calls) = flow_run es (flow_init high low interval)
   in producer i False calls = Some (flow_isPaused f i) \<and>
      producer i False (calls @ snd (flow_releaseAll f)) = Some False"
proof -
  let ?f0 = "flow_init high low interval"
  obtain f calls where r: "flow_run es ?f0 = (f, calls)" by fastforce
  have "\<not> flow_isPaused ?f0 i" by (simp add: flow_init_def flow_isPaused_def)
  then have p: "producer i False calls = Some (flow_isPaused f i)"
    using tracks_run [of ?f0 es, unfolded tracks_def, rule_format, of i] r by simp
  have "producer i (flow_isPaused f i) (snd (flow_releaseAll f)) = Some False"
    using tracks_release_keys [of f "map fst (fl_paused_at f)"] releaseAll_paused [of f i]
    by (simp add: tracks_def flow_releaseAll_def)
  then show ?thesis using r p by (simp add: producer_append)
qed

end
