(* ===== verification/Pty_Gate.thy ===== *)
theory Pty_Gate
  imports Contracts
begin

text \<open>
  The hidden-delivery gate, \<open>src/main/ipc/pty-hidden-delivery-gate.ts\<close>: output of a terminal that no visible
  view shows is dropped, and the first drop is remembered until the terminal is shown again.  The module's sets
  are the fields of a record; a setting that is not there counts as on.
\<close>

record gate_settings =
  gs_main_authority :: "bool option"
  gs_hidden_gate :: "bool option"

record gate =
  gt_hidden :: "jsstr set"
  gt_interest :: "jsstr set"
  gt_dropped :: "jsstr set"
  gt_dropped_chars :: int
  gt_dropped_chunks :: nat

definition isHiddenPtyDeliveryGateEnabled :: "gate_settings option \<Rightarrow> bool" where
  "isHiddenPtyDeliveryGateEnabled s \<longleftrightarrow>
     (case s of None \<Rightarrow> True | Some g \<Rightarrow> gs_main_authority g \<noteq> Some False \<and> gs_hidden_gate g \<noteq> Some False)"

definition markHiddenRendererPty :: "jsstr \<Rightarrow> gate \<Rightarrow> gate" where
  "markHiddenRendererPty i g = g\<lparr>gt_hidden := insert i (gt_hidden g)\<rparr>"

text \<open>The flag is \<open>droppedWhileHidden\<close>.\<close>

definition unmarkHiddenRendererPty :: "jsstr \<Rightarrow> gate \<Rightarrow> gate \<times> bool" where
  "unmarkHiddenRendererPty i g =
     (g\<lparr>gt_hidden := gt_hidden g - {i}, gt_dropped := gt_dropped g - {i}\<rparr>, i \<in> gt_dropped g)"

definition isHiddenRendererPty :: "jsstr \<Rightarrow> gate \<Rightarrow> bool" where
  "isHiddenRendererPty i g \<longleftrightarrow> i \<in> gt_hidden g"

definition setRendererPtyDeliveryInterest :: "jsstr \<Rightarrow> bool \<Rightarrow> gate \<Rightarrow> gate" where
  "setRendererPtyDeliveryInterest i interested g =
     g\<lparr>gt_interest := (if interested then insert i (gt_interest g) else gt_interest g - {i})\<rparr>"

definition shouldDropHiddenRendererPtyData :: "jsstr \<Rightarrow> gate_settings option \<Rightarrow> gate \<Rightarrow> bool" where
  "shouldDropHiddenRendererPtyData i s g \<longleftrightarrow>
     isHiddenPtyDeliveryGateEnabled s \<and> i \<in> gt_hidden g \<and> i \<notin> gt_interest g"

text \<open>The flag is \<open>shouldEmitRestoreMarker\<close>.\<close>

definition recordHiddenRendererPtyDataDrop :: "jsstr \<Rightarrow> int \<Rightarrow> gate \<Rightarrow> gate \<times> bool" where
  "recordHiddenRendererPtyDataDrop i chars g =
     (let g1 = g\<lparr>gt_dropped_chars := gt_dropped_chars g + chars, gt_dropped_chunks := gt_dropped_chunks g + 1\<rparr>
      in if i \<in> gt_dropped g1 then (g1, False) else (g1\<lparr>gt_dropped := insert i (gt_dropped g1)\<rparr>, True))"

definition resetRendererScopedHiddenPtyDeliveryState :: "gate \<Rightarrow> gate" where
  "resetRendererScopedHiddenPtyDeliveryState g = g\<lparr>gt_hidden := {}, gt_interest := {}\<rparr>"

definition clearHiddenRendererPtyDeliveryState :: "jsstr \<Rightarrow> gate \<Rightarrow> gate" where
  "clearHiddenRendererPtyDeliveryState i g =
     g\<lparr>gt_hidden := gt_hidden g - {i}, gt_interest := gt_interest g - {i}, gt_dropped := gt_dropped g - {i}\<rparr>"

definition resetHiddenRendererPtyDeliveryDebugCounters :: "gate \<Rightarrow> gate" where
  "resetHiddenRendererPtyDeliveryDebugCounters g = g\<lparr>gt_dropped_chars := 0, gt_dropped_chunks := 0\<rparr>"

definition gate_init :: gate where
  "gate_init = \<lparr>gt_hidden = {}, gt_interest = {}, gt_dropped = {}, gt_dropped_chars = 0, gt_dropped_chunks = 0\<rparr>"

end
