(* ===== verification/Pty_Delivery.thy ===== *)
theory Pty_Delivery
  imports Pty_Flow Pty_Gate Complex_Main
begin

text \<open>
  Delivery of terminal output to the renderer, the closure of \<open>registerPtyHandlers\<close> in \<open>src/main/ipc/pty.ts\<close>:
  output waits per terminal in \<open>pendingData\<close>, is flushed in slices while what the renderer has not acknowledged
  stays below a limit, is dropped behind a restore marker when the terminal is hidden or its backlog too large,
  and is written off when the renderer provably lost it.  Every callback is a step on one state; what it sends
  is a list of outputs.  Times that only feed diagnostics, warnings, peaks and counters are left out, and the
  counts the renderer reports are integers.
\<close>

subsection \<open>State\<close>

record pending =
  pd_data :: jsstr
  pd_start :: "int option"
  pd_background :: bool
  pd_dropped :: bool

record payload =
  pl_data :: jsstr
  pl_seq :: "int option"
  pl_raw :: "int option"
  pl_background :: bool
  pl_dropped :: bool

record accounting =
  ac_sent :: int
  ac_acked :: int

datatype restore_reason = RestoreHiddenDrop | RestorePendingCap | RestoreUnhide

datatype delivery_out =
    OData jsstr payload
  | ORestore jsstr restore_reason "int option"
  | OExit jsstr int
  | OResync nat
  | OFlow flow_call
  | OAckProvider jsstr int
  | OBackground jsstr bool
  | OHealth int nat "int option" "(jsstr \<times> int option \<times> int) list"

record delivery =
  dv_pending :: "(jsstr \<times> pending) list"
  dv_overflow_marked :: "jsstr set"
  dv_accounting :: "(jsstr \<times> accounting) list"
  dv_timer :: bool
  dv_in_flight :: int
  dv_resync_serial :: nat
  dv_resync_outstanding :: "nat option"
  dv_last_ack :: "int option"
  dv_ready :: bool
  dv_watchdog :: bool
  dv_active :: "jsstr set"
  dv_visible :: "jsstr set"
  dv_known :: "jsstr set"
  dv_resize_pending :: "jsstr set"
  dv_resize_delivered :: "jsstr set"
  dv_last_input :: "jsstr \<rightharpoonup> rat"
  dv_interactive :: "jsstr \<rightharpoonup> int"
  dv_gate :: gate
  dv_flow :: flow
  dv_backgrounded :: "(jsstr \<times> bool) list"
  dv_destroyed :: bool

text \<open>
  What a callback reads of its surroundings: the settings, the clocks, the runtime's output counters, the
  query scanner that \<open>extractDroppedPtyQueryBytes\<close> calls, which terminals a remote viewer shows, and which have
  a provider that takes \<open>setPtyBackgrounded\<close>.
\<close>

record delivery_env =
  ev_settings :: "gate_settings option"
  ev_scrollback_rows :: "rat option"      \<comment> \<open>\<open>None\<close>: not a finite number\<close>
  ev_now :: int
  ev_perf :: rat
  ev_seq :: "jsstr \<Rightarrow> int option"
  ev_queries :: "jsstr \<Rightarrow> jsstr"
  ev_remote_view :: "jsstr \<Rightarrow> bool"
  ev_can_background :: "jsstr \<Rightarrow> bool"

type_synonym delivery_result = "delivery \<times> delivery_out list"

subsection \<open>Limits\<close>

definition PTY_BATCH_FLUSH_CHUNK_CHARS :: nat where "PTY_BATCH_FLUSH_CHUNK_CHARS = 16 * 1024"
definition PTY_BATCH_FLUSH_MAX_WRITES :: nat where "PTY_BATCH_FLUSH_MAX_WRITES = 2"
definition PTY_RENDERER_IN_FLIGHT_HIGH_WATER_CHARS :: int where "PTY_RENDERER_IN_FLIGHT_HIGH_WATER_CHARS = 512 * 1024"
definition PTY_RENDERER_TOTAL_IN_FLIGHT_HIGH_WATER_CHARS :: int where
  "PTY_RENDERER_TOTAL_IN_FLIGHT_HIGH_WATER_CHARS = 8 * 1024 * 1024"
definition PTY_RENDERER_INTERACTIVE_RESERVE_CHARS :: int where "PTY_RENDERER_INTERACTIVE_RESERVE_CHARS = 256 * 1024"
definition PTY_RENDERER_ACTIVE_PTY_IN_FLIGHT_RESERVE_CHARS :: int where
  "PTY_RENDERER_ACTIVE_PTY_IN_FLIGHT_RESERVE_CHARS = 512 * 1024"
definition PTY_DELIVERY_HEAL_MIN_ACK_SILENCE_MS :: int where "PTY_DELIVERY_HEAL_MIN_ACK_SILENCE_MS = 10000"
definition INTERACTIVE_OUTPUT_WINDOW_MS :: rat where "INTERACTIVE_OUTPUT_WINDOW_MS = 100"
definition INTERACTIVE_OUTPUT_MAX_CHARS :: nat where "INTERACTIVE_OUTPUT_MAX_CHARS = 1024"
definition INTERACTIVE_REDRAW_MAX_CHARS :: nat where "INTERACTIVE_REDRAW_MAX_CHARS = PTY_BATCH_FLUSH_CHUNK_CHARS"
definition INTERACTIVE_OUTPUT_BUDGET_CHARS :: int where "INTERACTIVE_OUTPUT_BUDGET_CHARS = 32 * 1024"
definition DROPPED_QUERY_SALVAGE_MAX_CHARS :: nat where "DROPPED_QUERY_SALVAGE_MAX_CHARS = 4096"

text \<open>The backlog cap, \<open>src/shared/terminal-scrollback-policy.ts\<close>.\<close>

definition clampRows :: "rat \<Rightarrow> int \<Rightarrow> int" where
  "clampRows v m = min 50000 (max m \<lfloor>v\<rfloor>)"

definition normalizeDesktopTerminalScrollbackRows :: "rat option \<Rightarrow> int" where
  "normalizeDesktopTerminalScrollbackRows v = (case v of None \<Rightarrow> 5000 | Some r \<Rightarrow> clampRows r 1000)"

definition terminalOutputBacklogCapChars :: "rat option \<Rightarrow> int" where
  "terminalOutputBacklogCapChars rows = max (2 * 1024 * 1024) (normalizeDesktopTerminalScrollbackRows rows * 120)"

subsection \<open>Accounting\<close>

definition getRendererInFlightCharsForPty :: "jsstr \<Rightarrow> delivery \<Rightarrow> int" where
  "getRendererInFlightCharsForPty i st =
     (case map_get (dv_accounting st) i of None \<Rightarrow> 0 | Some a \<Rightarrow> ac_sent a - ac_acked a)"

definition getPtyPayloadCharCount :: "payload \<Rightarrow> int" where
  "getPtyPayloadCharCount p = max 0 (case pl_raw p of None \<Rightarrow> int (length (pl_data p)) | Some r \<Rightarrow> r)"

definition canSendPtyDataToRenderer :: "jsstr \<Rightarrow> bool \<Rightarrow> delivery \<Rightarrow> bool" where
  "canSendPtyDataToRenderer i interactive st \<longleftrightarrow>
     (let totalLimit = PTY_RENDERER_TOTAL_IN_FLIGHT_HIGH_WATER_CHARS +
            (if interactive then PTY_RENDERER_INTERACTIVE_RESERVE_CHARS else 0);
          ptyLimit = PTY_RENDERER_IN_FLIGHT_HIGH_WATER_CHARS +
            (if interactive then PTY_RENDERER_ACTIVE_PTY_IN_FLIGHT_RESERVE_CHARS else 0)
      in getRendererInFlightCharsForPty i st < ptyLimit \<and> dv_in_flight st < totalLimit)"

text \<open>The new state and the newly acknowledged count.\<close>

definition applyCumulativeAck :: "jsstr \<Rightarrow> int \<Rightarrow> delivery \<Rightarrow> delivery \<times> int" where
  "applyCumulativeAck i processed st =
     (case map_get (dv_accounting st) i of
        None \<Rightarrow> (st, 0)
      | Some a \<Rightarrow>
          let nextAcked = min (ac_sent a) (max (ac_acked a) processed);
              acknowledged = nextAcked - ac_acked a
          in (st\<lparr>dv_accounting := map_set i (a\<lparr>ac_acked := nextAcked\<rparr>) (dv_accounting st),
                dv_in_flight := max 0 (dv_in_flight st - acknowledged)\<rparr>, acknowledged))"

definition sendPtyDataToRenderer :: "jsstr \<Rightarrow> payload \<Rightarrow> delivery \<Rightarrow> delivery_result" where
  "sendPtyDataToRenderer i p st =
     (let n = getPtyPayloadCharCount p;
          a = (case map_get (dv_accounting st) i of
                 Some a \<Rightarrow> a\<lparr>ac_sent := ac_sent a + n\<rparr> | None \<Rightarrow> \<lparr>ac_sent = n, ac_acked = 0\<rparr>)
      in (st\<lparr>dv_accounting := map_set i a (dv_accounting st), dv_in_flight := dv_in_flight st + n\<rparr>, [OData i p]))"

subsection \<open>Small operations\<close>

definition schedulePendingDataFlush :: "delivery \<Rightarrow> delivery" where
  "schedulePendingDataFlush st = (if dv_timer st then st else st\<lparr>dv_timer := True\<rparr>)"

definition schedule_if_pending :: "delivery \<Rightarrow> delivery" where
  "schedule_if_pending st =
     (if dv_pending st \<noteq> [] \<and> \<not> dv_timer st then schedulePendingDataFlush st else st)"

definition pending_chars :: "jsstr \<Rightarrow> delivery \<Rightarrow> int" where
  "pending_chars i st = (case map_get (dv_pending st) i of None \<Rightarrow> 0 | Some p \<Rightarrow> int (length (pd_data p)))"

definition updateProducerFlowControl :: "delivery_env \<Rightarrow> jsstr \<Rightarrow> delivery \<Rightarrow> delivery_result" where
  "updateProducerFlowControl E i st =
     (case flow_update i (pending_chars i st) (ev_now E) (dv_flow st) of
        (f, calls) \<Rightarrow> (st\<lparr>dv_flow := f\<rparr>, map OFlow calls))"

definition release_producer :: "jsstr \<Rightarrow> delivery \<Rightarrow> delivery_result" where
  "release_producer i st = (case flow_release i (dv_flow st) of (f, calls) \<Rightarrow> (st\<lparr>dv_flow := f\<rparr>, map OFlow calls))"

definition release_producers :: "delivery \<Rightarrow> delivery_result" where
  "release_producers st = (case flow_releaseAll (dv_flow st) of (f, calls) \<Rightarrow> (st\<lparr>dv_flow := f\<rparr>, map OFlow calls))"

definition clearDeliveryResyncProbe :: "delivery \<Rightarrow> delivery" where
  "clearDeliveryResyncProbe st = st\<lparr>dv_resync_outstanding := None\<rparr>"

definition requestDeliveryResyncForGatedPty :: "delivery \<Rightarrow> delivery_result" where
  "requestDeliveryResyncForGatedPty st =
     (if dv_resync_outstanding st \<noteq> None \<or> dv_destroyed st then (st, [])
      else (st\<lparr>dv_resync_serial := dv_resync_serial st + 1, dv_resync_outstanding := Some (dv_resync_serial st + 1)\<rparr>,
            [OResync (dv_resync_serial st + 1)]))"

definition sendModelRestoreNeededMarker :: "jsstr \<Rightarrow> restore_reason \<Rightarrow> int option \<Rightarrow> delivery \<Rightarrow> delivery_out list" where
  "sendModelRestoreNeededMarker i reason seq st = (if dv_destroyed st then [] else [ORestore i reason seq])"

definition rendererPtyIsKnownHidden :: "jsstr \<Rightarrow> delivery \<Rightarrow> bool" where
  "rendererPtyIsKnownHidden i st \<longleftrightarrow> i \<in> dv_known st \<and> i \<notin> dv_visible st"

definition ptyHasHiddenRendererResizeOutput :: "jsstr \<Rightarrow> delivery \<Rightarrow> bool" where
  "ptyHasHiddenRendererResizeOutput i st \<longleftrightarrow> i \<in> dv_resize_pending st \<or> i \<in> dv_resize_delivered st"

definition markHiddenRendererResizeOutputDelivered :: "jsstr \<Rightarrow> delivery \<Rightarrow> delivery" where
  "markHiddenRendererResizeOutputDelivered i st =
     (if i \<notin> dv_resize_pending st then st
      else st\<lparr>dv_resize_pending := dv_resize_pending st - {i}, dv_resize_delivered := insert i (dv_resize_delivered st)\<rparr>)"

definition drop_pending :: "jsstr \<Rightarrow> delivery \<Rightarrow> delivery" where
  "drop_pending i st = st\<lparr>dv_pending := map_delete i (dv_pending st)\<rparr>"

definition unmark_overflow :: "jsstr \<Rightarrow> delivery \<Rightarrow> delivery" where
  "unmark_overflow i st = st\<lparr>dv_overflow_marked := dv_overflow_marked st - {i}\<rparr>"

definition set_pending :: "jsstr \<Rightarrow> pending \<Rightarrow> delivery \<Rightarrow> delivery" where
  "set_pending i p st = st\<lparr>dv_pending := map_set i p (dv_pending st)\<rparr>"

text \<open>Record a gated drop and send its marker when it is the first.\<close>

definition gated_drop :: "jsstr \<Rightarrow> int \<Rightarrow> int option \<Rightarrow> delivery \<Rightarrow> delivery_result" where
  "gated_drop i chars seq st =
     (case recordHiddenRendererPtyDataDrop i chars (dv_gate st) of
        (g, marker) \<Rightarrow>
          (st\<lparr>dv_gate := g\<rparr>, if marker then sendModelRestoreNeededMarker i RestoreHiddenDrop seq st else []))"

text \<open>Steps after one another, the outputs in order.\<close>

definition then_do :: "delivery_result \<Rightarrow> (delivery \<Rightarrow> delivery_result) \<Rightarrow> delivery_result" where
  "then_do r f = (case r of (st, o1) \<Rightarrow> case f st of (st', o2) \<Rightarrow> (st', o1 @ o2))"

definition quietly :: "(delivery \<Rightarrow> delivery) \<Rightarrow> delivery \<Rightarrow> delivery_result" where
  "quietly f st = (f st, [])"

subsection \<open>The backlog of a terminal\<close>

definition extractDroppedPtyQueryBytes :: "delivery_env \<Rightarrow> jsstr \<Rightarrow> jsstr" where
  "extractDroppedPtyQueryBytes E d = (if 0x1B \<notin> set d then [] else ev_queries E d)"

definition dropOversizedPendingPtyData :: "delivery_env \<Rightarrow> jsstr \<Rightarrow> pending \<Rightarrow> delivery \<Rightarrow> delivery \<times> pending \<times> delivery_out list" where
  "dropOversizedPendingPtyData E i p st =
     (if pd_dropped p \<or> int (length (pd_data p)) \<le> terminalOutputBacklogCapChars (ev_scrollback_rows E) then (st, p, [])
      else let mark = isHiddenPtyDeliveryGateEnabled (ev_settings E) \<and> i \<notin> dv_overflow_marked st;
               st1 = (if mark then st\<lparr>dv_overflow_marked := insert i (dv_overflow_marked st)\<rparr> else st);
               out = (if mark then sendModelRestoreNeededMarker i RestorePendingCap (ev_seq E i) st else [])
           in (st1, \<lparr>pd_data = take DROPPED_QUERY_SALVAGE_MAX_CHARS (extractDroppedPtyQueryBytes E (pd_data p)),
                     pd_start = None, pd_background = False, pd_dropped = True\<rparr>, out))"

definition appendPendingPtyData ::
    "delivery_env \<Rightarrow> jsstr \<Rightarrow> pending option \<Rightarrow> jsstr \<Rightarrow> int option \<Rightarrow> bool \<Rightarrow> bool \<Rightarrow> delivery \<Rightarrow>
     delivery \<times> pending \<times> delivery_out list" where
  "appendPendingPtyData E i existing data startSeq preservesSeq background st =
     (case existing of
        Some p \<Rightarrow>
          if pd_dropped p then
            (if length (pd_data p) \<ge> DROPPED_QUERY_SALVAGE_MAX_CHARS then (st, p, [])
             else (st, p\<lparr>pd_data := pd_data p @ extractDroppedPtyQueryBytes E data\<rparr>, []))
          else if \<not> preservesSeq then
            dropOversizedPendingPtyData E i
              \<lparr>pd_data = pd_data p @ data, pd_start = None, pd_background = pd_background p \<or> background, pd_dropped = False\<rparr> st
          else
            dropOversizedPendingPtyData E i
              \<lparr>pd_data = pd_data p @ data, pd_start = pd_start p, pd_background = pd_background p \<or> background, pd_dropped = False\<rparr> st
      | None \<Rightarrow>
          dropOversizedPendingPtyData E i
            \<lparr>pd_data = data, pd_start = (if preservesSeq then startSeq else None), pd_background = background, pd_dropped = False\<rparr> st)"

definition makePtyDataPayload :: "jsstr \<Rightarrow> int option \<Rightarrow> bool \<Rightarrow> payload" where
  "makePtyDataPayload data startSeq background =
     \<lparr>pl_data = data, pl_seq = map_option (\<lambda>s. s + int (length data)) startSeq,
      pl_raw = map_option (\<lambda>_. int (length data)) startSeq, pl_background = background, pl_dropped = False\<rparr>"

definition dropped_payload :: "jsstr \<Rightarrow> payload" where
  "dropped_payload data = \<lparr>pl_data = data, pl_seq = None, pl_raw = None, pl_background = False, pl_dropped = True\<rparr>"

subsection \<open>Flushing\<close>

definition getPendingPtyFlushEntries :: "delivery \<Rightarrow> (jsstr \<times> pending) list" where
  "getPendingPtyFlushEntries st =
     filter (\<lambda>(i, _). i \<in> dv_active st) (dv_pending st) @ filter (\<lambda>(i, _). i \<notin> dv_active st) (dv_pending st)"

text \<open>One terminal of the flush loop; the number is how many writes it made.\<close>

definition flush_entry :: "delivery_env \<Rightarrow> jsstr \<Rightarrow> pending \<Rightarrow> delivery \<Rightarrow> delivery_result \<times> nat" where
  "flush_entry E i p st =
     (if shouldDropHiddenRendererPtyData i (ev_settings E) (dv_gate st) then
        (then_do (updateProducerFlowControl E i (unmark_overflow i (drop_pending i st)))
           (gated_drop i (int (length (pd_data p))) (ev_seq E i)), 0)
      else if \<not> canSendPtyDataToRenderer i (i \<in> dv_active st) st then ((st, []), 0)
      else if pd_dropped p then
        (then_do (updateProducerFlowControl E i (drop_pending i st)) (sendPtyDataToRenderer i (dropped_payload (pd_data p))), 1)
      else
        let chunk = take PTY_BATCH_FLUSH_CHUNK_CHARS (pd_data p);
            remaining = drop PTY_BATCH_FLUSH_CHUNK_CHARS (pd_data p);
            st1 = drop_pending i st;
            st2 = (if remaining \<noteq> []
                   then set_pending i \<lparr>pd_data = remaining, pd_start = map_option (\<lambda>s. s + int (length chunk)) (pd_start p),
                          pd_background = pd_background p, pd_dropped = False\<rparr> st1
                   else unmark_overflow i st1)
        in (then_do (updateProducerFlowControl E i st2)
              (sendPtyDataToRenderer i (makePtyDataPayload chunk (pd_start p) (pd_background p))), 1))"

fun flush_loop :: "delivery_env \<Rightarrow> (jsstr \<times> pending) list \<Rightarrow> nat \<Rightarrow> delivery \<Rightarrow> delivery_result \<times> nat" where
  "flush_loop E [] writes st = ((st, []), writes)"
| "flush_loop E ((i, p) # es) writes st =
     (if writes \<ge> PTY_BATCH_FLUSH_MAX_WRITES then ((st, []), writes)
      else case flush_entry E i p st of
             ((st1, o1), w) \<Rightarrow> case flush_loop E es (writes + w) st1 of ((st2, o2), n) \<Rightarrow> ((st2, o1 @ o2), n))"

text \<open>What is done when the window is gone.\<close>

definition wipe :: "delivery \<Rightarrow> delivery_result" where
  "wipe st =
     (case release_producers st of
        (st1, out) \<Rightarrow> ((clearDeliveryResyncProbe st1)\<lparr>dv_pending := [], dv_overflow_marked := {}, dv_accounting := [],
                          dv_in_flight := 0, dv_watchdog := False\<rparr>, out))"

definition flushPendingData :: "delivery_env \<Rightarrow> delivery \<Rightarrow> delivery_result" where
  "flushPendingData E st0 =
     (let st = st0\<lparr>dv_timer := False\<rparr>
      in if dv_destroyed st then wipe st
         else if \<not> dv_ready st then (st, [])
         else (case flush_loop E (getPendingPtyFlushEntries st) 0 st of
                 ((st1, out), writes) \<Rightarrow>
                   (if dv_pending st1 \<noteq> [] \<and> writes > 0 then schedulePendingDataFlush st1 else st1, out)))"

subsection \<open>Output of a terminal\<close>

fun includes_csi :: "jsstr \<Rightarrow> bool" where
  "includes_csi (a # b # r) \<longleftrightarrow> a = 0x1B \<and> b = 0x5B \<or> includes_csi (b # r)"
| "includes_csi _ = False"

definition isLikelyInteractiveRedraw :: "jsstr \<Rightarrow> bool" where
  "isLikelyInteractiveRedraw d \<longleftrightarrow>
     length d \<le> INTERACTIVE_OUTPUT_MAX_CHARS \<or> length d \<le> INTERACTIVE_REDRAW_MAX_CHARS \<and> includes_csi d"

definition shouldSendInteractiveOutputNow :: "jsstr \<Rightarrow> jsstr \<Rightarrow> rat \<Rightarrow> delivery \<Rightarrow> delivery \<times> bool" where
  "shouldSendInteractiveOutputNow i d now st =
     (if (case dv_last_input st i of None \<Rightarrow> True | Some t \<Rightarrow> now - t > INTERACTIVE_OUTPUT_WINDOW_MS)
      then (st\<lparr>dv_interactive := (dv_interactive st)(i := None)\<rparr>, False)
      else if \<not> isLikelyInteractiveRedraw d
      then (st\<lparr>dv_interactive := (dv_interactive st)(i \<mapsto> INTERACTIVE_OUTPUT_BUDGET_CHARS)\<rparr>, False)
      else let used = (case dv_interactive st i of None \<Rightarrow> 0 | Some u \<Rightarrow> u)
           in if used + int (length d) > INTERACTIVE_OUTPUT_BUDGET_CHARS
              then (st\<lparr>dv_interactive := (dv_interactive st)(i \<mapsto> INTERACTIVE_OUTPUT_BUDGET_CHARS)\<rparr>, False)
              else (st\<lparr>dv_interactive := (dv_interactive st)(i \<mapsto> used + int (length d))\<rparr>, True))"

definition getChunkStartSeq :: "int option \<Rightarrow> jsstr \<Rightarrow> int option" where
  "getChunkStartSeq endSeq d = map_option (\<lambda>e. max 0 (e - int (length d))) endSeq"

definition clearFlushTimerIfIdle :: "delivery \<Rightarrow> delivery" where
  "clearFlushTimerIfIdle st = (if dv_pending st \<noteq> [] \<or> \<not> dv_timer st then st else st\<lparr>dv_timer := False\<rparr>)"

text \<open>The payload of the interactive path, written out in the callback itself.\<close>

definition interactive_payload :: "pending \<Rightarrow> payload" where
  "interactive_payload p =
     \<lparr>pl_data = pd_data p, pl_seq = map_option (\<lambda>s. s + int (length (pd_data p))) (pd_start p),
      pl_raw = map_option (\<lambda>_. int (length (pd_data p))) (pd_start p), pl_background = pd_background p, pl_dropped = pd_dropped p\<rparr>"

definition probe_if_gated :: "jsstr \<Rightarrow> delivery \<Rightarrow> delivery_result" where
  "probe_if_gated i st =
     (if \<not> canSendPtyDataToRenderer i (i \<in> dv_active st) st then requestDeliveryResyncForGatedPty st else (st, []))"

text \<open>The part of the callback after the window and gate checks.\<close>

definition queue_output :: "delivery_env \<Rightarrow> jsstr \<Rightarrow> jsstr \<Rightarrow> int option \<Rightarrow> bool \<Rightarrow> delivery \<Rightarrow> delivery_result" where
  "queue_output E i rendererData startSeq preservesSeq st =
     (let background = rendererPtyIsKnownHidden i st \<or> ptyHasHiddenRendererResizeOutput i st;
          st1 = (if background then markHiddenRendererResizeOutputDelivered i st else st)
      in case appendPendingPtyData E i (map_get (dv_pending st1) i) rendererData startSeq preservesSeq background st1 of
           (st2, p, o1) \<Rightarrow>
             case shouldSendInteractiveOutputNow i (pd_data p) (ev_perf E) st2 of
               (st3, interactive) \<Rightarrow>
                 if interactive \<and> dv_ready st3 then
                   if \<not> canSendPtyDataToRenderer i True st3 then
                     then_do (then_do (st3, o1) requestDeliveryResyncForGatedPty)
                       (\<lambda>st. updateProducerFlowControl E i (set_pending i p st))
                   else
                     then_do (then_do (st3, o1) (\<lambda>st. updateProducerFlowControl E i (drop_pending i st)))
                       (\<lambda>st. sendPtyDataToRenderer i (interactive_payload p) (clearFlushTimerIfIdle (unmark_overflow i st)))
                 else
                   then_do (then_do (then_do (st3, o1) (\<lambda>st. updateProducerFlowControl E i (set_pending i p st))) (probe_if_gated i))
                     (quietly schedulePendingDataFlush))"

text \<open>
  The data callback: the chunk, what is left of it for the renderer once startup colour queries are answered,
  the runtime's output counter after it, and how many characters of the stream it stands for.
\<close>

definition onProviderData :: "delivery_env \<Rightarrow> jsstr \<Rightarrow> jsstr \<Rightarrow> jsstr \<Rightarrow> int option \<Rightarrow> nat option \<Rightarrow> delivery \<Rightarrow> delivery_result" where
  "onProviderData E i data rendererData outputSeq sequenceChars st =
     (let preservesSeq = (rendererData = data \<and> (sequenceChars = None \<or> sequenceChars = Some (length data)));
          startSeq = (if preservesSeq then getChunkStartSeq outputSeq data else None)
      in if dv_destroyed st then wipe (st\<lparr>dv_timer := False\<rparr>)
         else if shouldDropHiddenRendererPtyData i (ev_settings E) (dv_gate st) then
           gated_drop i (int (length data)) outputSeq st
         else if rendererData = [] then (st, [])
         else queue_output E i rendererData startSeq preservesSeq st)"

text \<open>\<open>sendPtyExitToRenderer\<close>\<close>

definition sendPtyExitToRenderer :: "jsstr \<Rightarrow> int \<Rightarrow> delivery \<Rightarrow> delivery_result" where
  "sendPtyExitToRenderer i code st =
     (if dv_destroyed st then (st, [])
      else let r = (case map_get (dv_pending st) i of
                      None \<Rightarrow> (st, [])
                    | Some p \<Rightarrow>
                        then_do (sendPtyDataToRenderer i
                          (if pd_dropped p then dropped_payload (pd_data p)
                           else makePtyDataPayload (pd_data p) (pd_start p) (pd_background p)) st)
                          (quietly (drop_pending i)))
           in then_do (then_do r (release_producer i))
                (\<lambda>st. ((unmark_overflow i st)\<lparr>dv_last_input := (dv_last_input st)(i := None),
                         dv_interactive := (dv_interactive st)(i := None),
                         dv_in_flight := max 0 (dv_in_flight st - getRendererInFlightCharsForPty i st),
                         dv_accounting := map_delete i (dv_accounting st)\<rparr>, [OExit i code])))"

end
