(* ===== verification/Pty_Handlers.thy ===== *)
theory Pty_Handlers
  imports Pty_Delivery
begin

text \<open>
  The messages that reach the delivery of \<open>src/main/ipc/pty.ts\<close>, each a step: acknowledgements, the two
  reconciliations with the renderer's own counts, the handshake and its watchdog, the view's hints, input and
  resize, teardown and the reload of the page.  An event carries what the message and the provider contribute;
  checks on the sender and on who drives the terminal come before it and let it through or not.
\<close>

subsection \<open>Acknowledgements\<close>

text \<open>The arguments are \<open>processedChars\<close> and \<open>charCount\<close>, \<open>None\<close> when absent or not a finite number.\<close>

definition on_ackData :: "delivery_env \<Rightarrow> jsstr \<Rightarrow> int option \<Rightarrow> int option \<Rightarrow> delivery \<Rightarrow> delivery_result" where
  "on_ackData E i processed charCount st0 =
     (let st = st0\<lparr>dv_last_ack := Some (ev_now E)\<rparr>
      in case (case processed of
                 Some n \<Rightarrow> applyCumulativeAck i (max 0 n) st
               | None \<Rightarrow>
                   (case map_get (dv_accounting st) i of
                      None \<Rightarrow> (st, 0)
                    | Some a \<Rightarrow> applyCumulativeAck i (ac_acked a + (case charCount of None \<Rightarrow> 0 | Some d \<Rightarrow> max 0 d)) st)) of
           (st1, acknowledged) \<Rightarrow> (schedule_if_pending st1, [OAckProvider i acknowledged]))"

text \<open>The merge of reported counts; a value that is not a finite number is \<open>None\<close>.\<close>

fun merge_processed :: "(jsstr \<times> int option) list \<Rightarrow> delivery \<Rightarrow> delivery_result" where
  "merge_processed [] st = (st, [])"
| "merge_processed ((i, v) # rs) st =
     (case v of
        None \<Rightarrow> merge_processed rs st
      | Some n \<Rightarrow>
          (case applyCumulativeAck i (max 0 n) st of
             (st1, acknowledged) \<Rightarrow>
               then_do (st1, if acknowledged > 0 then [OAckProvider i acknowledged] else []) (merge_processed rs)))"

definition on_deliveryResyncResponse :: "nat \<Rightarrow> (jsstr \<times> int option) list \<Rightarrow> delivery \<Rightarrow> delivery_result" where
  "on_deliveryResyncResponse requestId reports st =
     (if dv_resync_outstanding st \<noteq> Some requestId then (st, [])
      else then_do (merge_processed reports (clearDeliveryResyncProbe st)) (quietly schedule_if_pending))"

definition on_resync_timeout :: "nat \<Rightarrow> delivery \<Rightarrow> delivery_result" where
  "on_resync_timeout requestId st =
     (if dv_resync_outstanding st \<noteq> Some requestId then (st, []) else (clearDeliveryResyncProbe st, []))"

text \<open>One terminal of the write-off loop, and the loop over the accounts there are.\<close>

definition write_off_one ::
    "delivery_env \<Rightarrow> (jsstr \<Rightarrow> int option) \<Rightarrow> jsstr \<Rightarrow> delivery \<Rightarrow> delivery_result \<times> (jsstr \<times> int option \<times> int) list" where
  "write_off_one E received i st =
     (case map_get (dv_accounting st) i of
        None \<Rightarrow> ((st, []), [])
      | Some a \<Rightarrow>
          if ac_sent a - ac_acked a \<le> 0 then ((st, []), [])
          else if (case received i of None \<Rightarrow> 0 | Some r \<Rightarrow> max 0 r) > ac_acked a then ((st, []), [])
          else case applyCumulativeAck i (ac_sent a) st of
                 (st1, acknowledged) \<Rightarrow>
                   if acknowledged \<le> 0 then ((st1, []), [])
                   else (then_do (st1, [OAckProvider i acknowledged])
                           (\<lambda>st. if map_get (dv_pending st) i \<noteq> None
                                 then updateProducerFlowControl E i (unmark_overflow i (drop_pending i st)) else (st, [])),
                         [(i, ev_seq E i, acknowledged)]))"

fun write_off_loop ::
    "delivery_env \<Rightarrow> (jsstr \<Rightarrow> int option) \<Rightarrow> jsstr list \<Rightarrow> delivery \<Rightarrow> delivery_result \<times> (jsstr \<times> int option \<times> int) list" where
  "write_off_loop E received [] st = ((st, []), [])"
| "write_off_loop E received (i # is) st =
     (case write_off_one E received i st of
        ((st1, o1), w1) \<Rightarrow> case write_off_loop E received is st1 of ((st2, o2), w2) \<Rightarrow> ((st2, o1 @ o2), w1 @ w2))"

definition writeOffLostRendererDelivery ::
    "delivery_env \<Rightarrow> (jsstr \<Rightarrow> int option) \<Rightarrow> delivery \<Rightarrow> delivery_result \<times> (jsstr \<times> int option \<times> int) list" where
  "writeOffLostRendererDelivery E received st =
     (case write_off_loop E received (map fst (dv_accounting st)) st of
        ((st1, out), w) \<Rightarrow> ((if w \<noteq> [] then clearDeliveryResyncProbe st1 else st1, out), w))"

definition health_reply :: "delivery_env \<Rightarrow> (jsstr \<times> int option \<times> int) list \<Rightarrow> delivery \<Rightarrow> delivery_result" where
  "health_reply E writtenOff st =
     (st, [OHealth (dv_in_flight st) (length (filter (\<lambda>(_, a). ac_sent a - ac_acked a > 0) (dv_accounting st)))
             (map_option (\<lambda>t. ev_now E - t) (dv_last_ack st)) writtenOff])"

definition on_reportRendererDeliveryState ::
    "delivery_env \<Rightarrow> (jsstr \<times> int option) list \<Rightarrow> (jsstr \<Rightarrow> int option) \<Rightarrow> bool \<Rightarrow> delivery \<Rightarrow> delivery_result" where
  "on_reportRendererDeliveryState E reports received heal st =
     (case merge_processed reports st of
        (st1, o1) \<Rightarrow>
          case (if heal \<and> dv_in_flight st1 > 0 \<and>
                   (case dv_last_ack st1 of None \<Rightarrow> True | Some t \<Rightarrow> ev_now E - t \<ge> PTY_DELIVERY_HEAL_MIN_ACK_SILENCE_MS)
                then writeOffLostRendererDelivery E received st1 else ((st1, []), [])) of
            ((st2, o2), writtenOff) \<Rightarrow>
              then_do (schedule_if_pending st2, o1 @ o2) (health_reply E writtenOff))"

subsection \<open>The page\<close>

definition armDispatcherReadyWatchdog :: "delivery \<Rightarrow> delivery" where
  "armDispatcherReadyWatchdog st = st\<lparr>dv_watchdog := \<not> dv_destroyed st\<rparr>"

definition resetRendererDeliveryAccountingForLifecycleReset :: "delivery \<Rightarrow> delivery_result" where
  "resetRendererDeliveryAccountingForLifecycleReset st =
     (case release_producers st of
        (st1, out) \<Rightarrow>
          (armDispatcherReadyWatchdog ((clearDeliveryResyncProbe st1)\<lparr>dv_accounting := [], dv_in_flight := 0, dv_pending := [],
             dv_overflow_marked := {}, dv_ready := False\<rparr>), out))"

definition markRendererPtysHiddenForRendererLifecycleReset :: "delivery \<Rightarrow> delivery_result" where
  "markRendererPtysHiddenForRendererLifecycleReset st =
     resetRendererDeliveryAccountingForLifecycleReset (st\<lparr>dv_active := {}, dv_visible := {}\<rparr>)"

definition on_rendererDispatcherReady :: "bool \<Rightarrow> delivery \<Rightarrow> delivery_result" where
  "on_rendererDispatcherReady fromMainWindow st =
     (if \<not> fromMainWindow \<or> dv_destroyed st then (st, [])
      else then_do (if dv_ready st then resetRendererDeliveryAccountingForLifecycleReset st else (st, []))
             (quietly (\<lambda>st. schedulePendingDataFlush (st\<lparr>dv_watchdog := False, dv_ready := True\<rparr>))))"

definition on_dispatcher_watchdog :: "delivery \<Rightarrow> delivery_result" where
  "on_dispatcher_watchdog st =
     (if \<not> dv_watchdog st then (st, [])
      else let st1 = st\<lparr>dv_watchdog := False\<rparr>
           in if dv_ready st1 \<or> dv_destroyed st1 then (st1, [])
              else (schedulePendingDataFlush (st1\<lparr>dv_ready := True\<rparr>), []))"

subsection \<open>What the views show\<close>

definition syncPtyBackgroundedDelivery :: "delivery_env \<Rightarrow> jsstr \<Rightarrow> delivery \<Rightarrow> delivery_result" where
  "syncPtyBackgroundedDelivery E i st =
     (let background = rendererPtyIsKnownHidden i st \<and> \<not> ev_remote_view E i
      in if (case map_get (dv_backgrounded st) i of None \<Rightarrow> False | Some b \<Rightarrow> b) = background then (st, [])
         else if \<not> ev_can_background E i then (st, [])
         else (st\<lparr>dv_backgrounded := map_set i background (dv_backgrounded st)\<rparr>, [OBackground i background]))"

fun sync_all :: "delivery_env \<Rightarrow> jsstr list \<Rightarrow> delivery \<Rightarrow> delivery_result" where
  "sync_all E [] st = (st, [])"
| "sync_all E (i # is) st = then_do (syncPtyBackgroundedDelivery E i st) (sync_all E is)"

definition rendererGateReset :: "delivery_env \<Rightarrow> delivery \<Rightarrow> delivery_result" where
  "rendererGateReset E st =
     sync_all E (map fst (dv_backgrounded st)) (st\<lparr>dv_gate := resetRendererScopedHiddenPtyDeliveryState (dv_gate st)\<rparr>)"

definition on_setActiveRendererPty :: "jsstr \<Rightarrow> bool \<Rightarrow> delivery \<Rightarrow> delivery_result" where
  "on_setActiveRendererPty i active st =
     (if i = [] then (st, [])
      else (schedule_if_pending (st\<lparr>dv_active := (if active then insert i (dv_active st) else dv_active st - {i})\<rparr>), []))"

definition on_setRendererPtyVisible :: "delivery_env \<Rightarrow> jsstr \<Rightarrow> bool \<Rightarrow> delivery \<Rightarrow> delivery_result" where
  "on_setRendererPtyVisible E i visible st =
     (if i = [] then (st, [])
      else syncPtyBackgroundedDelivery E i
             (st\<lparr>dv_known := insert i (dv_known st),
                 dv_visible := (if visible then insert i (dv_visible st) else dv_visible st - {i})\<rparr>))"

definition on_setHiddenRendererPty :: "delivery_env \<Rightarrow> jsstr \<Rightarrow> bool \<Rightarrow> delivery \<Rightarrow> delivery_result" where
  "on_setHiddenRendererPty E i hidden st =
     (if i = [] then (st, [])
      else if hidden then
        let st1 = st\<lparr>dv_gate := markHiddenRendererPty i (dv_gate st)\<rparr>
        in then_do
             (case map_get (dv_pending st1) i of
                Some p \<Rightarrow>
                  if shouldDropHiddenRendererPtyData i (ev_settings E) (dv_gate st1)
                  then then_do (then_do (updateProducerFlowControl E i (drop_pending i st1)) (quietly (unmark_overflow i)))
                         (gated_drop i (int (length (pd_data p))) (ev_seq E i))
                  else (st1, [])
              | None \<Rightarrow> (st1, []))
             (syncPtyBackgroundedDelivery E i)
      else
        (case unmarkHiddenRendererPty i (dv_gate st) of
           (g, droppedWhileHidden) \<Rightarrow>
             then_do (syncPtyBackgroundedDelivery E i (st\<lparr>dv_gate := g\<rparr>))
               (\<lambda>st. (st, if droppedWhileHidden then sendModelRestoreNeededMarker i RestoreUnhide (ev_seq E i) st else []))))"

definition on_setPtyDeliveryInterest :: "jsstr \<Rightarrow> bool \<Rightarrow> delivery \<Rightarrow> delivery_result" where
  "on_setPtyDeliveryInterest i interested st =
     (if i = [] then (st, []) else (st\<lparr>dv_gate := setRendererPtyDeliveryInterest i interested (dv_gate st)\<rparr>, []))"

subsection \<open>Input, resize, teardown\<close>

definition on_input :: "delivery_env \<Rightarrow> jsstr \<Rightarrow> delivery \<Rightarrow> delivery_result" where
  "on_input E i st =
     (let st1 = st\<lparr>dv_last_input := (dv_last_input st)(i \<mapsto> ev_perf E), dv_interactive := (dv_interactive st)(i \<mapsto> 0)\<rparr>
      in (if i \<in> dv_visible st1
          then st1\<lparr>dv_resize_pending := dv_resize_pending st1 - {i}, dv_resize_delivered := dv_resize_delivered st1 - {i}\<rparr>
          else st1, []))"

text \<open>The flag is whether \<open>provider.resize\<close> returned.\<close>

definition on_resize :: "jsstr \<Rightarrow> bool \<Rightarrow> delivery \<Rightarrow> delivery_result" where
  "on_resize i returned st =
     (let marked = rendererPtyIsKnownHidden i st;
          st1 = (if marked
                 then st\<lparr>dv_resize_pending := insert i (dv_resize_pending st), dv_resize_delivered := dv_resize_delivered st - {i}\<rparr>
                 else if i \<in> dv_visible st then st\<lparr>dv_resize_delivered := dv_resize_delivered st - {i}\<rparr> else st)
      in (if \<not> returned \<and> marked then st1\<lparr>dv_resize_pending := dv_resize_pending st1 - {i}\<rparr> else st1, []))"

definition clearProviderPtyState :: "jsstr \<Rightarrow> delivery \<Rightarrow> delivery" where
  "clearProviderPtyState i st =
     st\<lparr>dv_last_input := (dv_last_input st)(i := None), dv_interactive := (dv_interactive st)(i := None),
        dv_active := dv_active st - {i}, dv_visible := dv_visible st - {i}, dv_known := dv_known st - {i},
        dv_resize_pending := dv_resize_pending st - {i}, dv_resize_delivered := dv_resize_delivered st - {i},
        dv_gate := clearHiddenRendererPtyDeliveryState i (dv_gate st),
        dv_backgrounded := map_delete i (dv_backgrounded st)\<rparr>"

subsection \<open>The machine\<close>

datatype delivery_event =
    EvData jsstr jsstr jsstr "int option" "nat option"
  | EvFlushTimer
  | EvAck jsstr "int option" "int option"
  | EvResyncReply nat "(jsstr \<times> int option) list"
  | EvResyncTimeout nat
  | EvReport "(jsstr \<times> int option) list" "jsstr \<Rightarrow> int option" bool
  | EvReady bool
  | EvWatchdog
  | EvReload
  | EvGateReset
  | EvActive jsstr bool
  | EvVisible jsstr bool
  | EvHidden jsstr bool
  | EvInterest jsstr bool
  | EvRemoteView jsstr
  | EvInput jsstr
  | EvResize jsstr bool
  | EvTeardown jsstr
  | EvExit jsstr int
  | EvWindowClosed

text \<open>A timer that is not armed does not fire.\<close>

fun delivery_step :: "delivery_env \<Rightarrow> delivery_event \<Rightarrow> delivery \<Rightarrow> delivery_result" where
  "delivery_step E (EvData i d rd outputSeq chars) st = onProviderData E i d rd outputSeq chars st"
| "delivery_step E EvFlushTimer st = (if dv_timer st then flushPendingData E st else (st, []))"
| "delivery_step E (EvAck i processed charCount) st = on_ackData E i processed charCount st"
| "delivery_step E (EvResyncReply n rs) st = on_deliveryResyncResponse n rs st"
| "delivery_step E (EvResyncTimeout n) st = on_resync_timeout n st"
| "delivery_step E (EvReport rs received heal) st = on_reportRendererDeliveryState E rs received heal st"
| "delivery_step E (EvReady ok) st = on_rendererDispatcherReady ok st"
| "delivery_step E EvWatchdog st = on_dispatcher_watchdog st"
| "delivery_step E EvReload st = markRendererPtysHiddenForRendererLifecycleReset st"
| "delivery_step E EvGateReset st = rendererGateReset E st"
| "delivery_step E (EvActive i b) st = on_setActiveRendererPty i b st"
| "delivery_step E (EvVisible i b) st = on_setRendererPtyVisible E i b st"
| "delivery_step E (EvHidden i b) st = on_setHiddenRendererPty E i b st"
| "delivery_step E (EvInterest i b) st = on_setPtyDeliveryInterest i b st"
| "delivery_step E (EvRemoteView i) st = syncPtyBackgroundedDelivery E i st"
| "delivery_step E (EvInput i) st = on_input E i st"
| "delivery_step E (EvResize i ok) st = on_resize i ok st"
| "delivery_step E (EvTeardown i) st = (clearProviderPtyState i st, [])"
| "delivery_step E (EvExit i code) st = sendPtyExitToRenderer i code st"
| "delivery_step E EvWindowClosed st = (st\<lparr>dv_destroyed := True\<rparr>, [])"

fun delivery_run :: "(delivery_env \<times> delivery_event) list \<Rightarrow> delivery \<Rightarrow> delivery_result" where
  "delivery_run [] st = (st, [])"
| "delivery_run ((E, e) # es) st = then_do (delivery_step E e st) (delivery_run es)"

definition delivery_init :: delivery where
  "delivery_init =
     \<lparr>dv_pending = [], dv_overflow_marked = {}, dv_accounting = [], dv_timer = False, dv_in_flight = 0,
      dv_resync_serial = 0, dv_resync_outstanding = None, dv_last_ack = None, dv_ready = False, dv_watchdog = False,
      dv_active = {}, dv_visible = {}, dv_known = {}, dv_resize_pending = {}, dv_resize_delivered = {},
      dv_last_input = Map.empty, dv_interactive = Map.empty, dv_gate = gate_init,
      dv_flow = flow_init None None None, dv_backgrounded = [], dv_destroyed = False\<rparr>"

end
