(* ===== verification/Pty_Delivery_Props.thy ===== *)
theory Pty_Delivery_Props
  imports Pty_Handlers
begin

text \<open>
  What the delivery keeps: the accounts add up to the total the limits are checked against, a producer is
  paused exactly while its queue calls for it, no queue waits without a timer or a limit that holds it back,
  and no output disappears unless the renderer is told to restore the terminal.
\<close>

subsection \<open>Results\<close>

lemma fst_then_do [simp]: "fst (then_do r f) = fst (f (fst r))"
  by (simp add: then_do_def case_prod_unfold)

lemma snd_then_do [simp]: "snd (then_do r f) = snd r @ snd (f (fst r))"
  by (simp add: then_do_def case_prod_unfold)

lemma quietly_simps [simp]: "fst (quietly f st) = f st" "snd (quietly f st) = []"
  by (simp_all add: quietly_def)

text \<open>The part of the state that decides what may be sent and when.\<close>

definition core :: "delivery \<Rightarrow> (jsstr \<times> pending) list \<times> (jsstr \<times> accounting) list \<times> int \<times> bool \<times> bool \<times> jsstr set \<times> flow \<times> bool" where
  "core st = (dv_pending st, dv_accounting st, dv_in_flight st, dv_timer st, dv_ready st, dv_active st, dv_flow st, dv_destroyed st)"

lemma core_eqD:
  assumes "core st' = core st"
  shows "dv_pending st' = dv_pending st" "dv_accounting st' = dv_accounting st" "dv_in_flight st' = dv_in_flight st"
    "dv_timer st' = dv_timer st" "dv_ready st' = dv_ready st" "dv_active st' = dv_active st" "dv_flow st' = dv_flow st"
    "dv_destroyed st' = dv_destroyed st"
  using assms by (simp_all add: core_def)

lemma core_gated_drop [simp]: "core (fst (gated_drop i n s st)) = core st"
  by (simp add: core_def gated_drop_def case_prod_unfold)

lemma core_unmark [simp]: "core (unmark_overflow i st) = core st"
  by (simp add: core_def unmark_overflow_def)

lemma core_resync [simp]: "core (fst (requestDeliveryResyncForGatedPty st)) = core st"
  by (simp add: core_def requestDeliveryResyncForGatedPty_def)

lemma core_clear_probe [simp]: "core (clearDeliveryResyncProbe st) = core st"
  by (simp add: core_def clearDeliveryResyncProbe_def)

lemma core_probe_if_gated [simp]: "core (fst (probe_if_gated i st)) = core st"
  by (simp add: probe_if_gated_def)

lemma core_interactive [simp]: "core (fst (shouldSendInteractiveOutputNow i d now st)) = core st"
  by (simp add: core_def shouldSendInteractiveOutputNow_def Let_def)

lemma core_oversized [simp]: "core (fst (dropOversizedPendingPtyData E i p st)) = core st"
  by (simp add: core_def dropOversizedPendingPtyData_def Let_def)

lemma core_append [simp]: "core (fst (appendPendingPtyData E i e d s ps b st)) = core st"
  by (simp add: appendPendingPtyData_def split: option.split)

lemma core_resize_output [simp]: "core (markHiddenRendererResizeOutputDelivered i st) = core st"
  by (simp add: core_def markHiddenRendererResizeOutputDelivered_def)

lemma core_sync [simp]: "core (fst (syncPtyBackgroundedDelivery E i st)) = core st"
  by (simp add: core_def syncPtyBackgroundedDelivery_def Let_def)

lemma core_sync_all [simp]: "core (fst (sync_all E is st)) = core st"
  by (induction "is" arbitrary: st) simp_all

lemma core_gate [simp]: "core (st\<lparr>dv_gate := g\<rparr>) = core st"
  by (simp add: core_def)

lemma core_send: 
  "dv_pending (fst (sendPtyDataToRenderer i p st)) = dv_pending st" "dv_timer (fst (sendPtyDataToRenderer i p st)) = dv_timer st"
  "dv_ready (fst (sendPtyDataToRenderer i p st)) = dv_ready st" "dv_active (fst (sendPtyDataToRenderer i p st)) = dv_active st"
  "dv_flow (fst (sendPtyDataToRenderer i p st)) = dv_flow st" "dv_destroyed (fst (sendPtyDataToRenderer i p st)) = dv_destroyed st"
  by (simp_all add: sendPtyDataToRenderer_def Let_def)

subsection \<open>The accounts\<close>

definition in_flight_of :: "accounting \<Rightarrow> int" where
  "in_flight_of a = ac_sent a - ac_acked a"

definition accounts_add_up :: "(jsstr \<times> accounting) list \<Rightarrow> int \<Rightarrow> bool" where
  "accounts_add_up as n \<longleftrightarrow> distinct (map fst as) \<and> (\<forall>(i, a)\<in>set as. 0 \<le> ac_acked a \<and> ac_acked a \<le> ac_sent a) \<and>
     n = (\<Sum>(i, a)\<leftarrow>as. in_flight_of a)"

definition accounts_ok :: "delivery \<Rightarrow> bool" where
  "accounts_ok st \<longleftrightarrow> accounts_add_up (dv_accounting st) (dv_in_flight st)"

lemma sum_map_set:
  fixes f :: "'v \<Rightarrow> int"
  shows "distinct (map fst as) \<Longrightarrow> (\<Sum>(i, a)\<leftarrow>map_set k v as. f a) =
     (\<Sum>(i, a)\<leftarrow>as. f a) + f v - (case map_get as k of None \<Rightarrow> 0 | Some a \<Rightarrow> f a)"
proof (induction as)
  case (Cons e as)
  then show ?case by (cases e) (auto simp: map_get_def split: option.splits)
qed simp

lemma sum_map_delete:
  fixes f :: "'v \<Rightarrow> int"
  shows "distinct (map fst as) \<Longrightarrow> (\<Sum>(i, a)\<leftarrow>map_delete k as. f a) =
     (\<Sum>(i, a)\<leftarrow>as. f a) - (case map_get as k of None \<Rightarrow> 0 | Some a \<Rightarrow> f a)"
proof (induction as)
  case (Cons e as)
  have "map_delete k as = as" if "k \<notin> fst ` set as"
    using that by (induction as) (auto simp: map_delete_def)
  with Cons show ?case
    by (cases e) (auto simp: map_get_def map_delete_def map_of_eq_None_iff split: option.splits)
qed (simp add: map_delete_def)

lemma set_map_set: "distinct (map fst as) \<Longrightarrow> set (map_set k v as) \<subseteq> insert (k, v) {e \<in> set as. fst e \<noteq> k}"
  by (induction as) (auto simp: image_iff)

lemma sum_nonneg: "\<forall>(i, a)\<in>set as. ac_acked a \<le> ac_sent a \<Longrightarrow> 0 \<le> (\<Sum>(i, a)\<leftarrow>as. in_flight_of a)"
  by (induction as) (auto simp: in_flight_of_def)

lemma account_le_sum:
  "\<forall>(i, a)\<in>set as. ac_acked a \<le> ac_sent a \<Longrightarrow> map_get as k = Some a \<Longrightarrow> in_flight_of a \<le> (\<Sum>(i, a)\<leftarrow>as. in_flight_of a)"
proof (induction as)
  case (Cons e as)
  then show ?case using sum_nonneg [of as] by (cases e) (auto simp: map_get_def in_flight_of_def split: if_splits)
qed simp

lemma accounts_set:
  assumes "accounts_add_up as n" and "0 \<le> ac_acked v" and "ac_acked v \<le> ac_sent v"
  shows "accounts_add_up (map_set k v as) (n + in_flight_of v - (case map_get as k of None \<Rightarrow> 0 | Some a \<Rightarrow> in_flight_of a))"
  using assms set_map_set [of as k v] by (auto simp: accounts_add_up_def distinct_map_set sum_map_set)

lemma accounts_get:
  assumes "accounts_add_up as n" and "map_get as k = Some a"
  shows "0 \<le> ac_acked a" "ac_acked a \<le> ac_sent a" "in_flight_of a \<le> n"
  using assms map_get_in [OF assms(2)] account_le_sum [OF _ assms(2)] by (auto simp: accounts_add_up_def)

lemma accounts_delete:
  assumes "accounts_add_up as n"
  shows "accounts_add_up (map_delete k as) (n - (case map_get as k of None \<Rightarrow> 0 | Some a \<Rightarrow> in_flight_of a))"
proof -
  have "set (map_delete k as) \<subseteq> set as" by (auto simp: map_delete_def)
  then show ?thesis using assms by (auto simp: accounts_add_up_def distinct_map_delete sum_map_delete)
qed

lemma accounts_core: "core st' = core st \<Longrightarrow> accounts_ok st' = accounts_ok st"
  by (simp add: accounts_ok_def core_def)

lemma accounts_send: "accounts_ok st \<Longrightarrow> accounts_ok (fst (sendPtyDataToRenderer i p st))"
proof -
  assume a: "accounts_ok st"
  let ?n = "getPtyPayloadCharCount p"
  have n: "0 \<le> ?n" by (simp add: getPtyPayloadCharCount_def)
  show ?thesis
  proof (cases "map_get (dv_accounting st) i")
    case None
    with a n accounts_set [of "dv_accounting st" "dv_in_flight st" "\<lparr>ac_sent = ?n, ac_acked = 0\<rparr>" i] show ?thesis
      by (simp add: accounts_ok_def sendPtyDataToRenderer_def in_flight_of_def Let_def)
  next
    case (Some c)
    with a n accounts_get [of "dv_accounting st" "dv_in_flight st" i c]
      accounts_set [of "dv_accounting st" "dv_in_flight st" "c\<lparr>ac_sent := ac_sent c + ?n\<rparr>" i]
    show ?thesis by (simp add: accounts_ok_def sendPtyDataToRenderer_def in_flight_of_def Let_def algebra_simps)
  qed
qed

lemma accounts_ack: "accounts_ok st \<Longrightarrow> accounts_ok (fst (applyCumulativeAck i n st))"
proof (cases "map_get (dv_accounting st) i")
  case (Some a)
  assume ok: "accounts_ok st"
  let ?next = "min (ac_sent a) (max (ac_acked a) n)"
  have g: "0 \<le> ac_acked a" "ac_acked a \<le> ac_sent a" "in_flight_of a \<le> dv_in_flight st"
    using accounts_get [OF _ Some] ok by (auto simp: accounts_ok_def)
  have "0 \<le> dv_in_flight st - (?next - ac_acked a)" using g by (simp add: in_flight_of_def)
  then have "max 0 (dv_in_flight st - (?next - ac_acked a)) =
      dv_in_flight st + in_flight_of (a\<lparr>ac_acked := ?next\<rparr>) - in_flight_of a"
    by (simp add: in_flight_of_def max_absorb2)
  moreover have "accounts_add_up (map_set i (a\<lparr>ac_acked := ?next\<rparr>) (dv_accounting st))
      (dv_in_flight st + in_flight_of (a\<lparr>ac_acked := ?next\<rparr>) - in_flight_of a)"
    using accounts_set [of "dv_accounting st" "dv_in_flight st" "a\<lparr>ac_acked := ?next\<rparr>" i] ok g Some
    by (simp add: accounts_ok_def)
  ultimately show ?thesis using Some by (simp add: accounts_ok_def applyCumulativeAck_def Let_def)
qed (simp add: applyCumulativeAck_def)


subsection \<open>Flow control\<close>

text \<open>Every queue but those of \<open>ks\<close> has the producer its length calls for; a terminal has one queue.\<close>

definition flow_fits_but :: "jsstr set \<Rightarrow> delivery \<Rightarrow> bool" where
  "flow_fits_but ks st \<longleftrightarrow> distinct (map fst (dv_pending st)) \<and>
     fl_high (dv_flow st) = PRODUCER_FLOW_HIGH_WATERMARK_CHARS \<and> fl_low (dv_flow st) = PRODUCER_FLOW_LOW_WATERMARK_CHARS \<and>
     (\<forall>i. i \<notin> ks \<longrightarrow>
        (flow_isPaused (dv_flow st) i \<longrightarrow> PRODUCER_FLOW_LOW_WATERMARK_CHARS \<le> pending_chars i st) \<and>
        (PRODUCER_FLOW_HIGH_WATERMARK_CHARS < pending_chars i st \<longrightarrow> flow_isPaused (dv_flow st) i))"

abbreviation flow_fits :: "delivery \<Rightarrow> bool" where
  "flow_fits \<equiv> flow_fits_but {}"

lemma pending_chars_core: "core st' = core st \<Longrightarrow> pending_chars i st' = pending_chars i st"
  by (simp add: core_def pending_chars_def)

lemma flow_core: "core st' = core st \<Longrightarrow> flow_fits_but ks st' = flow_fits_but ks st"
  using pending_chars_core [of st' st] by (auto simp: flow_fits_but_def core_def)

lemma flow_same: "dv_pending st' = dv_pending st \<Longrightarrow> dv_flow st' = dv_flow st \<Longrightarrow> flow_fits_but ks st' = flow_fits_but ks st"
  by (auto simp: flow_fits_but_def pending_chars_def)

lemma flow_update_pauses:
  assumes "fl_low f \<le> fl_high f"
  shows "j \<noteq> i \<Longrightarrow> flow_isPaused (fst (flow_update i n t f)) j = flow_isPaused f j"
    and "flow_isPaused (fst (flow_update i n t f)) i \<Longrightarrow> fl_low f \<le> n"
    and "fl_high f < n \<Longrightarrow> flow_isPaused (fst (flow_update i n t f)) i"
    and "fl_high (fst (flow_update i n t f)) = fl_high f" and "fl_low (fst (flow_update i n t f)) = fl_low f"
  using assms by (auto simp: flow_update_def flow_isPaused_def split: option.splits if_splits)

lemma updateProducerFlowControl_state:
  "fst (updateProducerFlowControl E i st) = st\<lparr>dv_flow := fst (flow_update i (pending_chars i st) (ev_now E) (dv_flow st))\<rparr>"
  by (simp add: updateProducerFlowControl_def case_prod_unfold)

lemma flow_update_fits:
  assumes "flow_fits_but {i} st"
  shows "flow_fits (fst (updateProducerFlowControl E i st))"
proof -
  let ?f = "dv_flow st"
  have marks: "fl_high ?f = PRODUCER_FLOW_HIGH_WATERMARK_CHARS" "fl_low ?f = PRODUCER_FLOW_LOW_WATERMARK_CHARS"
    using assms by (simp_all add: flow_fits_but_def)
  then have le: "fl_low ?f \<le> fl_high ?f"
    by (simp add: PRODUCER_FLOW_HIGH_WATERMARK_CHARS_def PRODUCER_FLOW_LOW_WATERMARK_CHARS_def)
  note u = flow_update_pauses [OF le, where n = "pending_chars i st" and t = "ev_now E"]
  have "(flow_isPaused (fst (flow_update i (pending_chars i st) (ev_now E) ?f)) j \<longrightarrow> fl_low ?f \<le> pending_chars j st) \<and>
    (fl_high ?f < pending_chars j st \<longrightarrow> flow_isPaused (fst (flow_update i (pending_chars i st) (ev_now E) ?f)) j)" for j
  proof (cases "j = i")
    case True then show ?thesis using u(2,3) [of i] by blast
  next
    case False then show ?thesis using u(1) [OF False] assms marks by (simp add: flow_fits_but_def)
  qed
  moreover have "pending_chars j (st\<lparr>dv_flow := g\<rparr>) = pending_chars j st" for j g by (simp add: pending_chars_def)
  moreover have "distinct (map fst (dv_pending st))" using assms by (simp add: flow_fits_but_def)
  ultimately show ?thesis using marks u(4,5) [of i]
    by (simp add: flow_fits_but_def updateProducerFlowControl_state)
qed

lemma flow_set_pending: "flow_fits_but ks st \<Longrightarrow> flow_fits_but (insert i ks) (set_pending i p st)"
  by (auto simp: flow_fits_but_def pending_chars_def set_pending_def distinct_map_set)

lemma flow_drop_pending: "flow_fits_but ks st \<Longrightarrow> flow_fits_but (insert i ks) (drop_pending i st)"
  by (auto simp: flow_fits_but_def pending_chars_def drop_pending_def distinct_map_delete)

lemma flow_drop_update: "flow_fits st \<Longrightarrow> flow_fits (fst (updateProducerFlowControl E i (drop_pending i st)))"
  by (rule flow_update_fits) (rule flow_drop_pending)

lemma flow_set_update: "flow_fits st \<Longrightarrow> flow_fits (fst (updateProducerFlowControl E i (set_pending i p st)))"
  by (rule flow_update_fits) (rule flow_set_pending)

lemma flow_release_fits:
  assumes "flow_fits_but {i} st" and "pending_chars i st = 0"
  shows "flow_fits (fst (release_producer i st))"
proof -
  have p: "flow_isPaused (fst (flow_release i f)) j \<longleftrightarrow> j \<noteq> i \<and> flow_isPaused f j" for f j
    by (auto simp: flow_release_def)
  have "fst (release_producer i st) = st\<lparr>dv_flow := fst (flow_release i (dv_flow st))\<rparr>"
    by (simp add: release_producer_def case_prod_unfold)
  moreover have "pending_chars j (st\<lparr>dv_flow := g\<rparr>) = pending_chars j st" for j g by (simp add: pending_chars_def)
  moreover have "j \<noteq> i" if "PRODUCER_FLOW_HIGH_WATERMARK_CHARS < pending_chars j st" for j
    using that assms(2) by (auto simp: PRODUCER_FLOW_HIGH_WATERMARK_CHARS_def)
  ultimately show ?thesis using assms by (simp add: flow_fits_but_def p release_keeps_marks)
qed

lemma flow_releaseAll_fits:
  assumes "flow_fits st" and "dv_pending st' = []" and "dv_flow st' = fst (flow_releaseAll (dv_flow st))"
  shows "flow_fits st'"
  using assms release_keys_marks [of "map fst (fl_paused_at (dv_flow st))" "dv_flow st"]
  by (simp add: flow_fits_but_def pending_chars_def releaseAll_paused flow_releaseAll_def [symmetric]
      PRODUCER_FLOW_HIGH_WATERMARK_CHARS_def)

lemma accounts_same:
  "dv_accounting st' = dv_accounting st \<Longrightarrow> dv_in_flight st' = dv_in_flight st \<Longrightarrow> accounts_ok st' = accounts_ok st"
  by (simp add: accounts_ok_def)

lemma accounts_update [simp]: "accounts_ok (fst (updateProducerFlowControl E i st)) = accounts_ok st"
  by (rule accounts_same) (simp_all add: updateProducerFlowControl_def case_prod_unfold)

lemma accounts_pending [simp]: "accounts_ok (set_pending i p st) = accounts_ok st" "accounts_ok (drop_pending i st) = accounts_ok st"
  by (simp_all add: accounts_ok_def set_pending_def drop_pending_def)

subsection \<open>Both invariants, kept by every operation\<close>

definition sound :: "delivery \<Rightarrow> bool" where
  "sound st \<longleftrightarrow> accounts_ok st \<and> flow_fits st"

lemma sound_core: "core st' = core st \<Longrightarrow> sound st' = sound st"
  using accounts_core [of st' st] flow_core [of st' st "{}"] by (simp add: sound_def)

lemma sound_same:
  "dv_pending st' = dv_pending st \<Longrightarrow> dv_flow st' = dv_flow st \<Longrightarrow> dv_accounting st' = dv_accounting st \<Longrightarrow>
   dv_in_flight st' = dv_in_flight st \<Longrightarrow> sound st' = sound st"
  using accounts_same [of st' st] flow_same [of st' st "{}"] by (simp add: sound_def)

lemma sound_send: "sound st \<Longrightarrow> sound (fst (sendPtyDataToRenderer i p st))"
  by (simp add: sound_def accounts_send flow_same [OF core_send(1) core_send(5)])

lemma sound_drop: "sound st \<Longrightarrow> sound (fst (updateProducerFlowControl E i (drop_pending i st)))"
  by (simp add: sound_def flow_drop_update)

lemma sound_set: "sound st \<Longrightarrow> sound (fst (updateProducerFlowControl E i (set_pending i p st)))"
  by (simp add: sound_def flow_set_update)

lemma sound_ack: "sound st \<Longrightarrow> sound (fst (applyCumulativeAck i n st))"
proof -
  have "dv_pending (fst (applyCumulativeAck i n st)) = dv_pending st" "dv_flow (fst (applyCumulativeAck i n st)) = dv_flow st"
    by (simp_all add: applyCumulativeAck_def Let_def split: option.split)
  then have "flow_fits (fst (applyCumulativeAck i n st)) = flow_fits st" by (rule flow_same)
  then show "sound st \<Longrightarrow> sound (fst (applyCumulativeAck i n st))"
    by (simp add: sound_def accounts_ack)
qed

lemma sound_schedule [simp]: "sound (schedulePendingDataFlush st) = sound st" "sound (schedule_if_pending st) = sound st"
  by (rule sound_same; simp add: schedulePendingDataFlush_def schedule_if_pending_def)+

lemma sound_empty:
  assumes "sound st" and "dv_pending st' = []" and "dv_accounting st' = []" and "dv_in_flight st' = 0"
    and "dv_flow st' = fst (flow_releaseAll (dv_flow st))"
  shows "sound st'"
  using assms flow_releaseAll_fits [of st st'] by (simp add: sound_def accounts_ok_def accounts_add_up_def)

lemma sound_unmark [simp]: "sound (unmark_overflow i st) = sound st"
  by (rule sound_core) simp

lemma sound_gated_drop [simp]: "sound (fst (gated_drop i n q st)) = sound st"
  by (rule sound_core) simp

lemma sound_gate [simp]: "sound (st\<lparr>dv_gate := g\<rparr>) = sound st"
  by (rule sound_core) simp

lemma sound_sync [simp]: "sound (fst (syncPtyBackgroundedDelivery E i st)) = sound st" "sound (fst (sync_all E is st)) = sound st"
  by (rule sound_core, simp)+

lemma sound_drop_unmarked: "sound st \<Longrightarrow> sound (fst (updateProducerFlowControl E i (unmark_overflow i (drop_pending i st))))"
proof -
  have "unmark_overflow i (drop_pending i st) = drop_pending i (unmark_overflow i st)"
    by (simp add: unmark_overflow_def drop_pending_def)
  then show "sound st \<Longrightarrow> sound (fst (updateProducerFlowControl E i (unmark_overflow i (drop_pending i st))))"
    using sound_drop [of "unmark_overflow i st" E i] by simp
qed

lemma sound_flush_entry: "sound st \<Longrightarrow> sound (fst (fst (flush_entry E i p st)))"
proof -
  assume s: "sound st"
  have twice: "set_pending i q (drop_pending i st) = set_pending i q (drop_pending i st)" for q by simp
  have again: "sound (fst (updateProducerFlowControl E i (set_pending i q (drop_pending i st))))" for q
    using flow_update_fits [of i "set_pending i q (drop_pending i st)" E]
      flow_set_pending [OF flow_drop_pending [of "{}" st i], of i q] s by (simp add: sound_def)
  show "sound (fst (fst (flush_entry E i p st)))"
    by (simp add: flush_entry_def Let_def s sound_send sound_drop_unmarked sound_drop again)
qed

lemma sound_flush_loop: "sound st \<Longrightarrow> sound (fst (fst (flush_loop E es n st)))"
proof (induction es arbitrary: st n)
  case (Cons e es)
  obtain i p where e: "e = (i, p)" by fastforce
  show ?case
    using Cons.IH [OF sound_flush_entry [OF Cons.prems, of E i p]] Cons.prems by (simp add: e case_prod_unfold)
qed simp

lemma sound_wipe: "sound st \<Longrightarrow> sound (fst (wipe st))"
  by (rule sound_empty [of st]) (simp_all add: wipe_def release_producers_def clearDeliveryResyncProbe_def case_prod_unfold)

lemma sound_timer [simp]: "sound (st\<lparr>dv_timer := b\<rparr>) = sound st"
  by (rule sound_same) simp_all

lemma sound_flush: "sound st \<Longrightarrow> sound (fst (flushPendingData E st))"
  by (simp add: flushPendingData_def Let_def case_prod_unfold sound_wipe sound_flush_loop)

lemma sound_clear_timer [simp]: "sound (clearFlushTimerIfIdle st) = sound st"
  by (simp add: clearFlushTimerIfIdle_def)

lemma sound_output: "sound st \<Longrightarrow> sound (fst (queue_output E i d q ps st))"
proof -
  assume s: "sound st"
  define st1 where "st1 = (if rendererPtyIsKnownHidden i st \<or> ptyHasHiddenRendererResizeOutput i st
    then markHiddenRendererResizeOutputDelivered i st else st)"
  obtain st2 p o1 where a: "appendPendingPtyData E i (map_get (dv_pending st1) i) d q ps
      (rendererPtyIsKnownHidden i st \<or> ptyHasHiddenRendererResizeOutput i st) st1 = (st2, p, o1)"
    using prod_cases3 by blast
  obtain st3 b where b: "shouldSendInteractiveOutputNow i (pd_data p) (ev_perf E) st2 = (st3, b)" by fastforce
  have "core st1 = core st" by (simp add: st1_def)
  moreover have "core st2 = core st1" using core_append a by (metis fst_conv)
  moreover have "core st3 = core st2" using core_interactive b by (metis fst_conv)
  ultimately have "core st3 = core st" by simp
  then have s3: "sound st3" using s sound_core by blast
  have "sound (fst (requestDeliveryResyncForGatedPty st3))" using s3 sound_core [OF core_resync] by blast
  moreover have "sound (fst (probe_if_gated i x)) = sound x" for x by (rule sound_core) simp
  ultimately show "sound (fst (queue_output E i d q ps st))"
    using a b s3
    by (simp add: queue_output_def Let_def st1_def [symmetric] sound_set sound_send sound_drop)
qed

lemma sound_data: "sound st \<Longrightarrow> sound (fst (onProviderData E i d rd q n st))"
  by (simp add: onProviderData_def Let_def sound_output sound_wipe)

lemma sound_exit: "sound st \<Longrightarrow> sound (fst (sendPtyExitToRenderer i code st))"
proof (cases "dv_destroyed st")
  case False
  assume s: "sound st"
  define st1 where "st1 = fst (case map_get (dv_pending st) i of None \<Rightarrow> (st, []) | Some p \<Rightarrow>
      then_do (sendPtyDataToRenderer i (if pd_dropped p then dropped_payload (pd_data p)
         else makePtyDataPayload (pd_data p) (pd_start p) (pd_background p)) st) (quietly (drop_pending i)))"
  define st2 where "st2 = fst (release_producer i st1)"
  have acc: "accounts_ok st1"
    using s by (auto simp: st1_def sound_def accounts_send split: option.split)
  have "flow_fits_but {i} st1 \<and> pending_chars i st1 = 0"
  proof (cases "map_get (dv_pending st) i")
    case None
    then show ?thesis using s by (simp add: st1_def sound_def pending_chars_def flow_fits_but_def)
  next
    case (Some p)
    then show ?thesis
      using flow_drop_pending [of "{}" "fst (sendPtyDataToRenderer i (if pd_dropped p then dropped_payload (pd_data p)
         else makePtyDataPayload (pd_data p) (pd_start p) (pd_background p)) st)" i] s sound_send
      by (auto simp: st1_def sound_def pending_chars_def drop_pending_def)
  qed
  then have "flow_fits st2" unfolding st2_def by (intro flow_release_fits) simp_all
  moreover have a2: "accounts_ok st2"
    using acc by (simp add: st2_def release_producer_def accounts_ok_def case_prod_unfold)
  moreover have "accounts_add_up (map_delete i (dv_accounting st2)) (max 0 (dv_in_flight st2 - getRendererInFlightCharsForPty i st2))"
  proof -
    have "getRendererInFlightCharsForPty i st2 \<le> dv_in_flight st2"
      using a2 sum_nonneg [of "dv_accounting st2"]
        accounts_get(3) [of "dv_accounting st2" "dv_in_flight st2" i]
      by (auto simp: getRendererInFlightCharsForPty_def accounts_ok_def accounts_add_up_def in_flight_of_def split: option.split)
    then show ?thesis using accounts_delete [of "dv_accounting st2" "dv_in_flight st2" i] a2
      by (simp add: accounts_ok_def getRendererInFlightCharsForPty_def in_flight_of_def split: option.splits)
  qed
  moreover have "fst (sendPtyExitToRenderer i code st) =
      (unmark_overflow i st2)\<lparr>dv_last_input := (dv_last_input st2)(i := None),
         dv_interactive := (dv_interactive st2)(i := None),
         dv_in_flight := max 0 (dv_in_flight st2 - getRendererInFlightCharsForPty i st2),
         dv_accounting := map_delete i (dv_accounting st2)\<rparr>"
    using False by (simp add: sendPtyExitToRenderer_def st2_def st1_def Let_def)
  ultimately show ?thesis
    by (simp add: sound_def accounts_ok_def flow_fits_but_def pending_chars_def unmark_overflow_def)
qed (simp add: sendPtyExitToRenderer_def)


lemma sound_merge: "sound st \<Longrightarrow> sound (fst (merge_processed rs st))"
proof (induction rs arbitrary: st)
  case (Cons r rs)
  then show ?case by (cases r) (auto simp: sound_ack case_prod_unfold split: option.split)
qed simp

lemma sound_probe [simp]: "sound (clearDeliveryResyncProbe st) = sound st"
  by (rule sound_core) simp

lemma sound_write_off_one: "sound st \<Longrightarrow> sound (fst (fst (write_off_one E received i st)))"
  by (simp add: write_off_one_def Let_def case_prod_unfold sound_ack sound_drop_unmarked split: option.split)

lemma sound_write_off: "sound st \<Longrightarrow> sound (fst (fst (write_off_loop E received is st)))"
proof (induction "is" arbitrary: st)
  case (Cons i "is")
  then show ?case using sound_write_off_one [OF Cons.prems, of E received i] by (simp add: case_prod_unfold)
qed simp

lemma sound_report: "sound st \<Longrightarrow> sound (fst (on_reportRendererDeliveryState E rs received heal st))"
  by (simp add: on_reportRendererDeliveryState_def health_reply_def writeOffLostRendererDelivery_def case_prod_unfold
      sound_merge sound_write_off)

lemma sound_acked: "sound st \<Longrightarrow> sound (fst (on_ackData E i processed n st))"
proof -
  assume s: "sound st"
  have "sound (st\<lparr>dv_last_ack := t\<rparr>)" for t using s by (subst sound_same [of _ st]) simp_all
  then show "sound (fst (on_ackData E i processed n st))"
    by (auto simp: on_ackData_def Let_def case_prod_unfold sound_ack split: option.split)
qed

lemma sound_reset: "sound st \<Longrightarrow> sound (fst (resetRendererDeliveryAccountingForLifecycleReset st))"
  by (rule sound_empty [of st])
    (simp_all add: resetRendererDeliveryAccountingForLifecycleReset_def armDispatcherReadyWatchdog_def release_producers_def
      clearDeliveryResyncProbe_def case_prod_unfold)

lemma sound_other:
  "sound (st\<lparr>dv_active := x, dv_visible := y\<rparr>) = sound st" "sound (st\<lparr>dv_watchdog := b, dv_ready := c\<rparr>) = sound st"
  "sound (st\<lparr>dv_watchdog := b\<rparr>) = sound st" "sound (st\<lparr>dv_active := x\<rparr>) = sound st"
  "sound (st\<lparr>dv_known := x, dv_visible := y\<rparr>) = sound st" "sound (st\<lparr>dv_destroyed := b\<rparr>) = sound st"
  "sound (clearProviderPtyState i st) = sound st" "sound (fst (on_input E i st)) = sound st"
  "sound (fst (on_resize i ok st)) = sound st" "sound (st\<lparr>dv_ready := c\<rparr>) = sound st"
  by (rule sound_same; simp add: clearProviderPtyState_def on_input_def on_resize_def Let_def)+

lemma sound_step: "sound st \<Longrightarrow> sound (fst (delivery_step E e st))"
proof (cases e)
  case (EvReady ok)
  moreover assume "sound st"
  ultimately show ?thesis
    by (simp add: on_rendererDispatcherReady_def sound_other sound_reset)
qed (simp_all add: sound_data sound_flush sound_acked sound_report sound_exit sound_other sound_reset
      on_deliveryResyncResponse_def on_resync_timeout_def on_dispatcher_watchdog_def sound_merge
      markRendererPtysHiddenForRendererLifecycleReset_def rendererGateReset_def on_setActiveRendererPty_def
      on_setRendererPtyVisible_def on_setHiddenRendererPty_def on_setPtyDeliveryInterest_def Let_def case_prod_unfold
      sound_drop split: option.split)

text \<open>The machine of the contracts: an event comes with what the callback reads.\<close>

definition delivery_machine :: "delivery_env \<times> delivery_event \<Rightarrow> delivery \<Rightarrow> delivery" where
  "delivery_machine e st = fst (delivery_step (fst e) (snd e) st)"

interpretation pty_sound: event_machine delivery_machine sound
  by unfold_locales (simp add: delivery_machine_def sound_step)

lemma sound_init: "sound delivery_init"
  by (simp add: sound_def accounts_ok_def accounts_add_up_def flow_fits_but_def delivery_init_def flow_init_def
      flow_isPaused_def pending_chars_def PRODUCER_FLOW_HIGH_WATERMARK_CHARS_def)


subsection \<open>No queue is left waiting\<close>

text \<open>With no flush armed, every queue is held back by a limit.\<close>

definition held :: "jsstr \<Rightarrow> delivery \<Rightarrow> bool" where
  "held i st \<longleftrightarrow> \<not> canSendPtyDataToRenderer i (i \<in> dv_active st) st"

definition no_stall :: "delivery \<Rightarrow> bool" where
  "no_stall st \<longleftrightarrow> (dv_ready st \<and> \<not> dv_destroyed st \<and> \<not> dv_timer st \<longrightarrow> (\<forall>i. map_get (dv_pending st) i \<noteq> None \<longrightarrow> held i st))"

lemma held_core: "core st' = core st \<Longrightarrow> held i st' = held i st"
  by (simp add: held_def core_def canSendPtyDataToRenderer_def getRendererInFlightCharsForPty_def)

lemma no_stall_core: "core st' = core st \<Longrightarrow> no_stall st' = no_stall st"
  using held_core [of st' st] by (simp add: no_stall_def core_def)

lemma held_mono:
  assumes "held i st" and "getRendererInFlightCharsForPty i st \<le> getRendererInFlightCharsForPty i st'"
    and "dv_in_flight st \<le> dv_in_flight st'" and "i \<in> dv_active st' \<longrightarrow> i \<in> dv_active st"
  shows "held i st'"
  using assms by (auto simp: held_def canSendPtyDataToRenderer_def PTY_RENDERER_INTERACTIVE_RESERVE_CHARS_def
      PTY_RENDERER_ACTIVE_PTY_IN_FLIGHT_RESERVE_CHARS_def Let_def split: if_splits)

lemma held_interactive: "\<not> canSendPtyDataToRenderer i True st \<Longrightarrow> held i st"
  by (auto simp: held_def canSendPtyDataToRenderer_def PTY_RENDERER_INTERACTIVE_RESERVE_CHARS_def
      PTY_RENDERER_ACTIVE_PTY_IN_FLIGHT_RESERVE_CHARS_def Let_def split: if_splits)

lemma held_in_flight: "held i st \<Longrightarrow> accounts_ok st \<Longrightarrow> 0 < dv_in_flight st"
  using accounts_get(3) [of "dv_accounting st" "dv_in_flight st" i]
  by (auto simp: held_def canSendPtyDataToRenderer_def getRendererInFlightCharsForPty_def accounts_ok_def in_flight_of_def
      PTY_RENDERER_IN_FLIGHT_HIGH_WATER_CHARS_def PTY_RENDERER_TOTAL_IN_FLIGHT_HIGH_WATER_CHARS_def
      PTY_RENDERER_INTERACTIVE_RESERVE_CHARS_def PTY_RENDERER_ACTIVE_PTY_IN_FLIGHT_RESERVE_CHARS_def Let_def
      split: option.splits if_splits)

lemma no_stall_timer: "dv_timer st \<Longrightarrow> no_stall st" "dv_pending st = [] \<Longrightarrow> no_stall st" "dv_destroyed st \<Longrightarrow> no_stall st"
    "\<not> dv_ready st \<Longrightarrow> no_stall st"
  by (simp_all add: no_stall_def)

lemma no_stall_scheduled [simp]: "no_stall (schedule_if_pending st)" "no_stall (schedulePendingDataFlush st)"
  by (auto simp: no_stall_def schedule_if_pending_def schedulePendingDataFlush_def)

text \<open>Data in flight only grows and queues only vanish: what was held stays held.\<close>

definition tighter :: "delivery \<Rightarrow> delivery \<Rightarrow> bool" where
  "tighter st st' \<longleftrightarrow> (\<forall>i. held i st \<longrightarrow> held i st') \<and> (\<forall>i. map_get (dv_pending st') i \<noteq> None \<longrightarrow> map_get (dv_pending st) i \<noteq> None)"

lemma tighter_core: "core st' = core st \<Longrightarrow> tighter st st'"
  using held_core [of st' st] by (simp add: tighter_def core_def)

lemma tighter_trans: "tighter a b \<Longrightarrow> tighter b c \<Longrightarrow> tighter a c"
  by (simp add: tighter_def)

lemma tighter_same:
  assumes "dv_accounting st' = dv_accounting st" "dv_in_flight st' = dv_in_flight st" "dv_active st' \<subseteq> dv_active st"
    and "\<And>i. map_get (dv_pending st') i \<noteq> None \<Longrightarrow> map_get (dv_pending st) i \<noteq> None"
  shows "tighter st st'"
  using assms held_mono [of _ st st'] by (auto simp: tighter_def getRendererInFlightCharsForPty_def)

lemma tighter_send: "tighter st (fst (sendPtyDataToRenderer i p st))"
  unfolding tighter_def core_send(1)
proof (intro conjI allI impI)
  fix j assume "held j st"
  then show "held j (fst (sendPtyDataToRenderer i p st))"
    by (rule held_mono)
      (auto simp: sendPtyDataToRenderer_def Let_def getRendererInFlightCharsForPty_def getPtyPayloadCharCount_def split: option.split)
qed

lemma tighter_no_stall:
  "tighter st st' \<Longrightarrow> no_stall st \<Longrightarrow> dv_timer st' = dv_timer st \<Longrightarrow> dv_ready st' = dv_ready st \<Longrightarrow>
   dv_destroyed st' = dv_destroyed st \<Longrightarrow> no_stall st'"
  by (auto simp: tighter_def no_stall_def)


text \<open>The flush loop: what a visit changes, and what it means that nothing was written.\<close>

definition backlog :: "delivery \<Rightarrow> int" where
  "backlog st = (\<Sum>(i, p)\<leftarrow>dv_pending st. int (length (pd_data p)) + 1)"

lemma backlog_nonneg: "0 \<le> backlog st"
  unfolding backlog_def by (rule sum_list_nonneg) auto

lemma tighter_gated:
  "tighter st (fst (gated_drop i n q (fst (updateProducerFlowControl E i (unmark_overflow i (drop_pending i st))))))"
  by (rule tighter_trans [OF _ tighter_core [OF core_gated_drop]], rule tighter_same)
    (auto simp: updateProducerFlowControl_state unmark_overflow_def drop_pending_def split: if_splits)

lemma flush_entry_frame:
  "dv_ready (fst (fst (flush_entry E i p st))) = dv_ready st" "dv_destroyed (fst (fst (flush_entry E i p st))) = dv_destroyed st"
  "dv_timer (fst (fst (flush_entry E i p st))) = dv_timer st"
  "j \<noteq> i \<Longrightarrow> map_get (dv_pending (fst (fst (flush_entry E i p st)))) j = map_get (dv_pending st) j"
  by (simp_all add: flush_entry_def Let_def core_send updateProducerFlowControl_state unmark_overflow_def drop_pending_def
      set_pending_def core_eqD [OF core_gated_drop])

lemma flush_entry_idle:
  assumes "snd (flush_entry E i p st) = 0"
  shows "tighter st (fst (fst (flush_entry E i p st)))"
    and "map_get (dv_pending (fst (fst (flush_entry E i p st)))) i = None \<or> held i (fst (fst (flush_entry E i p st)))"
proof -
  have "tighter st st" by (rule tighter_core) simp
  then show "tighter st (fst (fst (flush_entry E i p st)))"
    using assms tighter_gated [of st i _ _ E] by (auto simp: flush_entry_def Let_def split: if_splits)
  show "map_get (dv_pending (fst (fst (flush_entry E i p st)))) i = None \<or> held i (fst (fst (flush_entry E i p st)))"
    using assms by (auto simp: flush_entry_def Let_def held_def updateProducerFlowControl_state unmark_overflow_def
        drop_pending_def core_eqD [OF core_gated_drop] split: if_splits)
qed

lemma flush_loop_writes: "n \<le> snd (flush_loop E es n st)"
proof (induction es arbitrary: n st)
  case (Cons e es)
  show ?case
    using Cons [of "n + snd (flush_entry E (fst e) (snd e) st)" "fst (fst (flush_entry E (fst e) (snd e) st))"]
    by (cases e) (auto simp: case_prod_unfold)
qed simp

lemma flush_loop_frame:
  "dv_ready (fst (fst (flush_loop E es n st))) = dv_ready st" "dv_destroyed (fst (fst (flush_loop E es n st))) = dv_destroyed st"
  "dv_timer (fst (fst (flush_loop E es n st))) = dv_timer st"
proof (induction es arbitrary: n st)
  case (Cons e es)
  { case 1 show ?case by (cases e) (simp add: case_prod_unfold Cons flush_entry_frame) }
  { case 2 show ?case by (cases e) (simp add: case_prod_unfold Cons flush_entry_frame) }
  { case 3 show ?case by (cases e) (simp add: case_prod_unfold Cons flush_entry_frame) }
qed simp_all

lemma flush_loop_idle:
  assumes "snd (flush_loop E es n st) = n" and "n < PTY_BATCH_FLUSH_MAX_WRITES"
  shows "tighter st (fst (fst (flush_loop E es n st))) \<and>
    (\<forall>i\<in>fst ` set es. map_get (dv_pending (fst (fst (flush_loop E es n st)))) i = None \<or> held i (fst (fst (flush_loop E es n st))))"
  using assms
proof (induction es arbitrary: st)
  case Nil
  then show ?case using tighter_core [of st st] by simp
next
  case (Cons e es)
  obtain i p where e: "e = (i, p)" by fastforce
  let ?r = "flush_entry E i p st" and ?st1 = "fst (fst (flush_entry E i p st))"
  have w: "snd ?r = 0" and rest: "snd (flush_loop E es n ?st1) = n"
    using Cons.prems flush_loop_writes [of "n + snd ?r" E es ?st1] by (auto simp: e case_prod_unfold)
  note one = flush_entry_idle [OF w] and ih = Cons.IH [OF rest Cons.prems(2)]
  have "fst (fst (flush_loop E (e # es) n st)) = fst (fst (flush_loop E es n ?st1))"
    using w Cons.prems(2) by (simp add: e case_prod_unfold)
  moreover have "tighter st (fst (fst (flush_loop E es n ?st1)))" using one(1) ih tighter_trans by blast
  moreover have "map_get (dv_pending (fst (fst (flush_loop E es n ?st1)))) i = None \<or> held i (fst (fst (flush_loop E es n ?st1)))"
    using one(2) ih by (auto simp: tighter_def)
  ultimately show ?case using ih by (auto simp: e)
qed

lemma flush_entries_keys:
  "fst ` set (getPendingPtyFlushEntries st) = fst ` set (dv_pending st)"
  "set (getPendingPtyFlushEntries st) = set (dv_pending st)"
  "distinct (map fst (dv_pending st)) \<Longrightarrow> distinct (map fst (getPendingPtyFlushEntries st))"
  by (force simp: getPendingPtyFlushEntries_def distinct_map_filter)+

lemma no_stall_flush: "no_stall (fst (flushPendingData E st))"
proof (cases "\<not> dv_destroyed st \<and> dv_ready st")
  case True
  let ?s = "st\<lparr>dv_timer := False\<rparr>"
  let ?r = "flush_loop E (getPendingPtyFlushEntries ?s) 0 ?s"
  show ?thesis
  proof (cases "dv_pending (fst (fst ?r)) \<noteq> [] \<and> snd ?r > 0")
    case False
    have "held i (fst (fst ?r))" if i: "map_get (dv_pending (fst (fst ?r))) i \<noteq> None" for i
    proof -
      have "dv_pending (fst (fst ?r)) \<noteq> []" using i by auto
      with False have w: "snd ?r = 0" by simp
      note idle = flush_loop_idle [OF w] 
      have "i \<in> fst ` set (dv_pending ?s)"
        using idle i map_get_None [of "dv_pending ?s" i] by (auto simp: tighter_def PTY_BATCH_FLUSH_MAX_WRITES_def)
      then show ?thesis using idle i unfolding flush_entries_keys by (auto simp: PTY_BATCH_FLUSH_MAX_WRITES_def)
    qed
    with False True show ?thesis by (auto simp: flushPendingData_def Let_def case_prod_unfold no_stall_def)
  qed (use True in \<open>simp add: flushPendingData_def Let_def case_prod_unfold\<close>)
next
  case False
  then show ?thesis
    by (auto simp: flushPendingData_def Let_def case_prod_unfold wipe_def intro: no_stall_timer)
qed


text \<open>Every event but an exit keeps it.\<close>

lemma no_stall_wipe: "dv_destroyed st \<Longrightarrow> no_stall (fst (wipe st))"
  by (rule no_stall_timer(2)) (simp add: wipe_def case_prod_unfold)

lemma tighter_drop_update: "tighter st (fst (updateProducerFlowControl E i (drop_pending i st)))"
  by (rule tighter_same) (auto simp: updateProducerFlowControl_state drop_pending_def split: if_splits)

lemma no_stall_output: "no_stall st \<Longrightarrow> no_stall (fst (queue_output E i d q ps st))"
proof -
  assume s: "no_stall st"
  define st1 where "st1 = (if rendererPtyIsKnownHidden i st \<or> ptyHasHiddenRendererResizeOutput i st
    then markHiddenRendererResizeOutputDelivered i st else st)"
  obtain st2 p o1 where a: "appendPendingPtyData E i (map_get (dv_pending st1) i) d q ps
      (rendererPtyIsKnownHidden i st \<or> ptyHasHiddenRendererResizeOutput i st) st1 = (st2, p, o1)"
    using prod_cases3 by blast
  obtain st3 b where b: "shouldSendInteractiveOutputNow i (pd_data p) (ev_perf E) st2 = (st3, b)" by fastforce
  have "core st1 = core st" by (simp add: st1_def)
  moreover have "core st2 = core st1" using core_append a by (metis fst_conv)
  moreover have "core st3 = core st2" using core_interactive b by (metis fst_conv)
  ultimately have "core st3 = core st" by simp
  then have s3: "no_stall st3" using s no_stall_core by blast
  have refused: "no_stall (fst (updateProducerFlowControl E i (set_pending i p st4)))"
    if "\<not> canSendPtyDataToRenderer i True st3" and c: "core st4 = core st3" for st4
  proof -
    have "held i st4" using that held_interactive held_core by blast
    moreover have "no_stall st4" using s3 no_stall_core [OF c] by simp
    moreover have "held j (fst (updateProducerFlowControl E i (set_pending i p st4))) = held j st4" for j
      by (simp add: held_def canSendPtyDataToRenderer_def getRendererInFlightCharsForPty_def updateProducerFlowControl_state set_pending_def)
    ultimately show ?thesis
      by (auto simp: no_stall_def updateProducerFlowControl_state set_pending_def split: if_splits)
  qed
  have sent: "no_stall (fst (sendPtyDataToRenderer i pl (clearFlushTimerIfIdle (unmark_overflow i
      (fst (updateProducerFlowControl E i (drop_pending i st3)))))))" for pl
  proof -
    let ?st4 = "unmark_overflow i (fst (updateProducerFlowControl E i (drop_pending i st3)))"
    have "tighter st3 ?st4" by (rule tighter_trans [OF tighter_drop_update tighter_core]) simp
    then have "no_stall ?st4"
      by (rule tighter_no_stall [OF _ s3]) (simp_all add: updateProducerFlowControl_state drop_pending_def unmark_overflow_def)
    then have "no_stall (clearFlushTimerIfIdle ?st4)" by (auto simp: clearFlushTimerIfIdle_def no_stall_def)
    from tighter_no_stall [OF tighter_send this] show ?thesis by (simp add: core_send)
  qed
  show "no_stall (fst (queue_output E i d q ps st))"
    using a b refused [of "fst (requestDeliveryResyncForGatedPty st3)"] sent
    by (simp add: queue_output_def Let_def st1_def [symmetric])
qed

lemma no_stall_sync [simp]: "no_stall (fst (syncPtyBackgroundedDelivery E i st)) = no_stall st" "no_stall (fst (sync_all E is st)) = no_stall st"
  by (rule no_stall_core, simp)+

lemma no_stall_gate [simp]: "no_stall (st\<lparr>dv_gate := g\<rparr>) = no_stall st"
  by (rule no_stall_core) simp

lemma no_stall_hidden: "no_stall st \<Longrightarrow> no_stall (fst (on_setHiddenRendererPty E i b st))"
proof -
  assume s: "no_stall st"
  have "no_stall (fst (gated_drop i n q (unmark_overflow i (fst (updateProducerFlowControl E i (drop_pending i st1))))))"
    if "core st1 = core st" for st1 n q
  proof -
    let ?st4 = "unmark_overflow i (fst (updateProducerFlowControl E i (drop_pending i st1)))"
    have "tighter st1 ?st4" by (rule tighter_trans [OF tighter_drop_update tighter_core]) simp
    then have "no_stall ?st4" using s no_stall_core [OF that]
      by (elim tighter_no_stall) (simp_all add: updateProducerFlowControl_state drop_pending_def unmark_overflow_def)
    then show ?thesis using no_stall_core [OF core_gated_drop] by blast
  qed
  then show "no_stall (fst (on_setHiddenRendererPty E i b st))"
    using s by (auto simp: on_setHiddenRendererPty_def Let_def case_prod_unfold split: option.split)
qed

lemma no_stall_step:
  assumes "no_stall st" and "\<And>i c. e \<noteq> EvExit i c"
  shows "no_stall (fst (delivery_step E e st))"
proof (cases e)
  case (EvData i d rd q n)
  have "no_stall (fst (gated_drop i m q st))" for m using no_stall_core [OF core_gated_drop] assms(1) by blast
  then show ?thesis using EvData no_stall_wipe [of "st\<lparr>dv_timer := False\<rparr>"] no_stall_output [OF assms(1)] assms(1)
    by (simp add: onProviderData_def Let_def)
next
  case EvReload
  then show ?thesis
    by (auto simp: markRendererPtysHiddenForRendererLifecycleReset_def resetRendererDeliveryAccountingForLifecycleReset_def
        armDispatcherReadyWatchdog_def case_prod_unfold intro: no_stall_timer)
next
  case EvFlushTimer
  then show ?thesis using no_stall_flush assms(1) by simp
next
  case (EvReport rs received heal)
  then show ?thesis by (simp add: on_reportRendererDeliveryState_def health_reply_def case_prod_unfold)
next
  case (EvResyncReply n rs)
  then show ?thesis using assms(1) by (simp add: on_deliveryResyncResponse_def)
next
  case (EvResyncTimeout n)
  then show ?thesis using assms(1) no_stall_core [OF core_clear_probe] by (auto simp: on_resync_timeout_def)
next
  case EvWatchdog
  then show ?thesis using assms(1) by (auto simp: on_dispatcher_watchdog_def Let_def no_stall_def held_def
      canSendPtyDataToRenderer_def getRendererInFlightCharsForPty_def schedulePendingDataFlush_def)
next
  case (EvTeardown i)
  have "tighter st (clearProviderPtyState i st)" by (rule tighter_same) (auto simp: clearProviderPtyState_def)
  from tighter_no_stall [OF this assms(1)] EvTeardown show ?thesis by (simp add: clearProviderPtyState_def)
next
  case (EvVisible i b)
  have "no_stall (st\<lparr>dv_known := x, dv_visible := y\<rparr>) = no_stall st" for x y
    by (rule no_stall_core) (simp add: core_def)
  with EvVisible show ?thesis using assms(1) by (simp add: on_setRendererPtyVisible_def)
next
  case (EvInput i)
  have "no_stall (fst (on_input E i st)) = no_stall st" by (rule no_stall_core) (simp add: on_input_def Let_def core_def)
  with EvInput show ?thesis using assms(1) by simp
next
  case (EvResize i b)
  have "no_stall (fst (on_resize i b st)) = no_stall st" by (rule no_stall_core) (simp add: on_resize_def Let_def core_def)
  with EvResize show ?thesis using assms(1) by simp
qed (use assms in \<open>simp_all add: no_stall_hidden no_stall_timer on_ackData_def on_rendererDispatcherReady_def on_setActiveRendererPty_def
      rendererGateReset_def on_setPtyDeliveryInterest_def Let_def case_prod_unfold\<close>)


subsection \<open>Flushing ends\<close>

lemma backlog_drop:
  assumes "distinct (map fst (dv_pending st))" and "map_get (dv_pending st) i = Some p" and "dv_pending st' = map_delete i (dv_pending st)"
  shows "backlog st' = backlog st - int (length (pd_data p)) - 1"
  using assms sum_map_delete [of "dv_pending st" "\<lambda>p. int (length (pd_data p)) + 1" i] by (simp add: backlog_def)

lemma backlog_reset:
  assumes "distinct (map fst (dv_pending st))" and "map_get (dv_pending st) i = Some p"
    and "dv_pending st' = map_set i q (map_delete i (dv_pending st))"
  shows "backlog st' = backlog st - int (length (pd_data p)) + int (length (pd_data q))"
  using assms sum_map_delete [of "dv_pending st" "\<lambda>p. int (length (pd_data p)) + 1" i]
    sum_map_set [where f = "\<lambda>p. int (length (pd_data p)) + 1" and v = q and k = i, OF distinct_map_delete [OF assms(1)]]
  by (simp add: backlog_def)

lemma flush_entry_backlog:
  assumes "distinct (map fst (dv_pending st))" and "map_get (dv_pending st) i = Some p"
  shows "backlog (fst (fst (flush_entry E i p st))) + int (snd (flush_entry E i p st)) \<le> backlog st"
    and "distinct (map fst (dv_pending (fst (fst (flush_entry E i p st)))))"
proof -
  let ?st' = "fst (fst (flush_entry E i p st))" and ?w = "snd (flush_entry E i p st)"
  consider (same) "dv_pending ?st' = dv_pending st" "?w = 0"
    | (gone) "dv_pending ?st' = map_delete i (dv_pending st)" "?w \<le> 1"
    | (cut) q where "dv_pending ?st' = map_set i q (map_delete i (dv_pending st))" "?w = 1" "length (pd_data q) < length (pd_data p)"
  proof (cases "drop PTY_BATCH_FLUSH_CHUNK_CHARS (pd_data p) = []")
    case True
    then have "dv_pending ?st' = dv_pending st \<and> ?w = 0 \<or> dv_pending ?st' = map_delete i (dv_pending st) \<and> ?w \<le> 1"
      by (auto simp: flush_entry_def Let_def core_send updateProducerFlowControl_state unmark_overflow_def drop_pending_def
          core_eqD [OF core_gated_drop])
    then show thesis by (elim disjE conjE) (rule same gone; assumption)+
  next
    case False
    define q where "q = \<lparr>pd_data = drop PTY_BATCH_FLUSH_CHUNK_CHARS (pd_data p),
      pd_start = map_option (\<lambda>s. s + int (length (take PTY_BATCH_FLUSH_CHUNK_CHARS (pd_data p)))) (pd_start p),
      pd_background = pd_background p, pd_dropped = False\<rparr>"
    have "length (pd_data q) < length (pd_data p)" using False by (simp add: q_def PTY_BATCH_FLUSH_CHUNK_CHARS_def)
    moreover from False have "dv_pending ?st' = dv_pending st \<and> ?w = 0 \<or> dv_pending ?st' = map_delete i (dv_pending st) \<and> ?w \<le> 1 \<or>
        dv_pending ?st' = map_set i q (map_delete i (dv_pending st)) \<and> ?w = 1"
      by (simp add: flush_entry_def Let_def core_send updateProducerFlowControl_state unmark_overflow_def drop_pending_def set_pending_def
          core_eqD [OF core_gated_drop] q_def del: drop_eq_Nil)
    ultimately show thesis by (elim disjE conjE) (rule same gone cut; assumption)+
  qed
  then show "backlog ?st' + int ?w \<le> backlog st" and "distinct (map fst (dv_pending ?st'))"
    using assms(1) backlog_drop [OF assms, of ?st'] backlog_reset [OF assms, of ?st']
    by (cases; simp add: backlog_def [of ?st'] backlog_def [of st] distinct_map_delete distinct_map_set)+
qed

lemma flush_loop_backlog:
  assumes "distinct (map fst (dv_pending st))" and "\<forall>(i, p)\<in>set es. map_get (dv_pending st) i = Some p" and "distinct (map fst es)"
  shows "backlog (fst (fst (flush_loop E es n st))) + int (snd (flush_loop E es n st)) \<le> backlog st + int n"
  using assms
proof (induction es arbitrary: n st)
  case (Cons e es)
  obtain i p where e: "e = (i, p)" by fastforce
  let ?st1 = "fst (fst (flush_entry E i p st))"
  have "map_get (dv_pending st) i = Some p" using Cons.prems(2) by (simp add: e)
  note one = flush_entry_backlog [OF Cons.prems(1) this, of E]
  have "map_get (dv_pending ?st1) j = Some q" if "(j, q) \<in> set es" for j q
    using that Cons.prems(2,3) flush_entry_frame(4) [of j i E p st] by (force simp: e)
  then have "\<forall>(j, q)\<in>set es. map_get (dv_pending ?st1) j = Some q" by blast
  from Cons.IH [OF one(2) this, of "n + snd (flush_entry E i p st)"] Cons.prems(3) one(1)
  show ?case by (simp add: e case_prod_unfold)
qed simp

text \<open>A flush that arms the next one has made the backlog smaller.\<close>

lemma flush_progress:
  assumes "sound st" and "dv_ready st" and "\<not> dv_destroyed st" and "dv_timer (fst (flushPendingData E st))"
  shows "backlog (fst (flushPendingData E st)) < backlog st"
proof -
  let ?s = "st\<lparr>dv_timer := False\<rparr>"
  let ?r = "flush_loop E (getPendingPtyFlushEntries ?s) 0 ?s"
  have d: "distinct (map fst (dv_pending ?s))" using assms(1) by (simp add: sound_def flow_fits_but_def)
  have "map_get (dv_pending ?s) i = Some p" if "(i, p) \<in> set (getPendingPtyFlushEntries ?s)" for i p
    using that map_get_unique [OF d] unfolding flush_entries_keys by simp
  then have "backlog (fst (fst ?r)) + int (snd ?r) \<le> backlog ?s + int 0"
    using d by (intro flush_loop_backlog flush_entries_keys) auto
  moreover have "snd ?r > 0" and "backlog (fst (flushPendingData E st)) = backlog (fst (fst ?r))"
    using assms(2-4) by (auto simp: flushPendingData_def Let_def case_prod_unfold flush_loop_frame backlog_def
        schedulePendingDataFlush_def split: if_splits)
  ultimately show ?thesis by (simp add: backlog_def)
qed

lemma flush_keeps_page:
  "dv_ready st \<Longrightarrow> \<not> dv_destroyed st \<Longrightarrow> dv_ready (fst (flushPendingData E st)) \<and> \<not> dv_destroyed (fst (flushPendingData E st))"
  by (simp add: flushPendingData_def Let_def case_prod_unfold flush_loop_frame schedulePendingDataFlush_def)

lemma queues_drain_core:
  assumes "sound st" and "dv_ready st" and "\<not> dv_destroyed st" and "dv_timer st"
  shows "\<exists>n \<le> Suc (nat (backlog st)). \<not> dv_timer (run_events delivery_machine (replicate n (E, EvFlushTimer)) st) \<and>
     no_stall (run_events delivery_machine (replicate n (E, EvFlushTimer)) st) \<and>
     dv_ready (run_events delivery_machine (replicate n (E, EvFlushTimer)) st) \<and>
     \<not> dv_destroyed (run_events delivery_machine (replicate n (E, EvFlushTimer)) st)"
  using assms
proof (induction "nat (backlog st)" arbitrary: st rule: less_induct)
  case less
  let ?st1 = "fst (flushPendingData E st)"
  have m: "delivery_machine (E, EvFlushTimer) st = ?st1" using less.prems(4) by (simp add: delivery_machine_def)
  note page = flush_keeps_page [OF less.prems(2,3), of E]
  show ?case
  proof (cases "dv_timer ?st1")
    case False
    then show ?thesis using m page no_stall_flush [of E st] by (intro exI [of _ "Suc 0"]) simp
  next
    case True
    note p = flush_progress [OF less.prems(1,2,3) True]
    then have "nat (backlog ?st1) < nat (backlog st)" using backlog_nonneg [of ?st1] by linarith
    from less.hyps [OF this sound_flush [OF less.prems(1)]] page True obtain n where n: "n \<le> Suc (nat (backlog ?st1))"
      "\<not> dv_timer (run_events delivery_machine (replicate n (E, EvFlushTimer)) ?st1)"
      "no_stall (run_events delivery_machine (replicate n (E, EvFlushTimer)) ?st1)"
      "dv_ready (run_events delivery_machine (replicate n (E, EvFlushTimer)) ?st1)"
      "\<not> dv_destroyed (run_events delivery_machine (replicate n (E, EvFlushTimer)) ?st1)" by blast
    then show ?thesis using m \<open>nat (backlog ?st1) < nat (backlog st)\<close> by (intro exI [of _ "Suc n"]) (simp del: nat_less_eq_zless zless_nat_conj)
  qed
qed

subsection \<open>The properties\<close>

lemma no_stall_init: "no_stall delivery_init"
  by (simp add: no_stall_def delivery_init_def)

lemma no_stall_run:
  assumes "\<forall>e\<in>set es. \<forall>i c. snd e \<noteq> EvExit i c" and "no_stall st"
  shows "no_stall (run_events delivery_machine es st)"
  using assms
proof (induction es arbitrary: st)
  case (Cons e es)
  have "no_stall (delivery_machine e st)"
    unfolding delivery_machine_def using Cons.prems by (intro no_stall_step) auto
  then show ?case using Cons by simp
qed simp

lemma map_get_pending_in: "(i, p) \<in> set (dv_pending st) \<Longrightarrow> map_get (dv_pending st) i \<noteq> None"
  using map_get_None [of "dv_pending st" i] by force

text \<open>
  C29: The books of the delivery stay right over every sequence of messages.  Each terminal has acknowledged at
  least nothing and at most what was sent, and the total the global limit is checked against is the sum of what
  the terminals have in flight; a producer whose queue passed the high mark is paused, one whose queue is below
  the low mark is not.
\<close>

theorem books_balance:
  "let st = run_events delivery_machine es delivery_init
   in dv_in_flight st = (\<Sum>(i, a)\<leftarrow>dv_accounting st. ac_sent a - ac_acked a) \<and>
      list_all (\<lambda>(i, a). 0 \<le> ac_acked a \<and> ac_acked a \<le> ac_sent a) (dv_accounting st) \<and>
      flow_isPaused (dv_flow st) i \<in>
        (if PRODUCER_FLOW_HIGH_WATERMARK_CHARS < pending_chars i st then {True}
         else if pending_chars i st < PRODUCER_FLOW_LOW_WATERMARK_CHARS then {False} else {True, False})"
proof -
  have "sound (run_events delivery_machine es delivery_init)" using pty_sound.inv_run [OF sound_init] .
  then show ?thesis
    by (auto simp: sound_def accounts_ok_def accounts_add_up_def in_flight_of_def list_all_iff flow_fits_but_def Let_def)
qed

text \<open>
  C33: No queue is forgotten.  From a state whose books balance and in which a flush is armed or nothing waits, and
  as long as no terminal exits: whenever the page is ready and no flush is armed, every terminal with output
  waiting is at a limit, so that something is in flight and its acknowledgement will arm the flush.  An exit is
  the exception: it frees what the terminal had in flight without arming one.
\<close>

theorem queues_wait_for_limits:
  assumes "sound st0" and "dv_timer st0 \<or> dv_pending st0 = []"
    and "\<forall>e\<in>set es. \<forall>i c. snd e \<noteq> EvExit i c" and "run_events delivery_machine es st0 = st"
    and "dv_ready st" and "\<not> dv_destroyed st" and "\<not> dv_timer st" and "map_get (dv_pending st) i \<noteq> None"
  shows "\<not> canSendPtyDataToRenderer i (i \<in> dv_active st) st \<and> 0 < dv_in_flight st"
proof -
  have "no_stall st0" using assms(2) no_stall_timer by blast
  then have "held i st" using no_stall_run [OF assms(3)] assms(4-8) by (auto simp: no_stall_def)
  moreover have "accounts_ok st" using pty_sound.inv_run [OF assms(1)] assms(4) by (auto simp: sound_def)
  ultimately show ?thesis
    by (simp add: held_def held_in_flight)
qed

text \<open>Concrete surroundings and a first run, for the examples.\<close>

definition plain_env :: delivery_env where
  "plain_env = \<lparr>ev_settings = None, ev_scrollback_rows = None, ev_now = 0, ev_perf = 0, ev_seq = (\<lambda>_. None),
     ev_queries = (\<lambda>_. []), ev_remote_view = (\<lambda>_. False), ev_can_background = (\<lambda>_. False)\<rparr>"

definition start_events :: "(delivery_env \<times> delivery_event) list" where
  "start_events = [(plain_env, EvReady True), (plain_env, EvData [1] [104, 105] [104, 105] None None)]"

text \<open>A terminal with as much in flight as it may have produces one more character, and the flush leaves it.\<close>

definition at_limit :: delivery where
  "at_limit = delivery_init\<lparr>dv_ready := True, dv_in_flight := 524288, dv_accounting := [([1], \<lparr>ac_sent = 524288, ac_acked = 0\<rparr>)]\<rparr>"

definition one_more :: "(delivery_env \<times> delivery_event) list" where
  "one_more = [(plain_env, EvData [1] [33] [33] None None), (plain_env, EvFlushTimer)]"

lemma queues_wait_for_limits_witness:
  "let st = run_events delivery_machine one_more at_limit
   in map_get (dv_pending st) [1] \<noteq> None \<and> \<not> canSendPtyDataToRenderer [1] ([1] \<in> dv_active st) st \<and> 0 < dv_in_flight st"
proof -
  let ?st = "run_events delivery_machine one_more at_limit"
  have "sound at_limit"
    by (simp add: sound_def accounts_ok_def accounts_add_up_def in_flight_of_def flow_fits_but_def at_limit_def delivery_init_def
        flow_init_def flow_isPaused_def pending_chars_def PRODUCER_FLOW_HIGH_WATERMARK_CHARS_def)
  moreover have "dv_pending at_limit = []" by (simp add: at_limit_def delivery_init_def)
  moreover have "\<forall>e\<in>set one_more. \<forall>i c. snd e \<noteq> EvExit i c" by (simp add: one_more_def)
  moreover have "dv_ready ?st" "\<not> dv_destroyed ?st" "\<not> dv_timer ?st" "map_get (dv_pending ?st) [1] \<noteq> None"
    by code_simp+
  ultimately show ?thesis
    using queues_wait_for_limits [OF _ _ _ refl, where es = one_more and ?st0.0 = at_limit and i = "[1]"] by simp
qed

text \<open>
  C34: Flushing ends.  From any state the delivery can reach in which the page is ready and a flush is armed,
  the flush timer stops re-arming itself after at most one firing per waiting character and queue, and one more;
  then only terminals at a limit still have output waiting.
\<close>

theorem flushing_ends:
  assumes "run_events delivery_machine es delivery_init = st" and "dv_ready st" and "\<not> dv_destroyed st" and "dv_timer st"
  shows "\<exists>n \<le> Suc (nat (\<Sum>(i, p)\<leftarrow>dv_pending st. int (length (pd_data p)) + 1)).
     let st' = run_events delivery_machine (replicate n (E, EvFlushTimer)) st
     in \<not> dv_timer st' \<and> list_all (\<lambda>(i, p). \<not> canSendPtyDataToRenderer i (i \<in> dv_active st') st') (dv_pending st')"
proof -
  have "sound st" using pty_sound.inv_run [OF sound_init] assms(1) by blast
  from queues_drain_core [OF this assms(2-4), of E] obtain n where "n \<le> Suc (nat (backlog st))"
    "\<not> dv_timer (run_events delivery_machine (replicate n (E, EvFlushTimer)) st)"
    "no_stall (run_events delivery_machine (replicate n (E, EvFlushTimer)) st)"
    "dv_ready (run_events delivery_machine (replicate n (E, EvFlushTimer)) st)"
    "\<not> dv_destroyed (run_events delivery_machine (replicate n (E, EvFlushTimer)) st)" by blast
  moreover from this have "\<not> canSendPtyDataToRenderer i (i \<in> dv_active st') st'"
    if "st' = run_events delivery_machine (replicate n (E, EvFlushTimer)) st" "(i, p) \<in> set (dv_pending st')" for st' i p
    using that(1) map_get_pending_in [OF that(2)] by (simp add: no_stall_def held_def)
  ultimately show ?thesis
    by (intro exI [of _ n]) (auto simp: backlog_def list_all_iff Let_def)
qed

lemma flushing_ends_witness:
  "\<exists>n \<le> 4. let st' = run_events delivery_machine (replicate n (plain_env, EvFlushTimer)) (run_events delivery_machine start_events delivery_init)
     in \<not> dv_timer st' \<and> list_all (\<lambda>(i, p). \<not> canSendPtyDataToRenderer i (i \<in> dv_active st') st') (dv_pending st')"
proof -
  let ?st = "run_events delivery_machine start_events delivery_init"
  have "dv_ready ?st" "\<not> dv_destroyed ?st" "dv_timer ?st"
    "Suc (nat (\<Sum>(i, p)\<leftarrow>dv_pending ?st. int (length (pd_data p)) + 1)) = 4"
    by code_simp+
  then show ?thesis using flushing_ends [OF refl, where es = start_events and E = plain_env] by auto
qed

text \<open>
  An exit frees the total without arming a flush: here one terminal's queue waits for the total limit, and after
  the exit of another it may be sent, but nothing is armed.
\<close>

definition full_total :: delivery where
  "full_total = delivery_init\<lparr>dv_ready := True, dv_in_flight := 8389608, dv_accounting := [([1], \<lparr>ac_sent = 8389608, ac_acked = 0\<rparr>)],
     dv_pending := [([2], \<lparr>pd_data = [104], pd_start = None, pd_background = False, pd_dropped = False\<rparr>)]\<rparr>"

lemma exit_leaves_a_queue_waiting:
  "let st' = fst (sendPtyExitToRenderer [1] 0 full_total)
   in \<not> canSendPtyDataToRenderer [2] False full_total \<and> canSendPtyDataToRenderer [2] False st' \<and>
      map_get (dv_pending st') [2] \<noteq> None \<and> \<not> dv_timer st' \<and> dv_in_flight st' = 0"
  by code_simp

text \<open>
  A chunk that answering colour queries consumed whole moves the output counter but not the queue, so what is
  appended after it goes out under a number that is too low: after output up to 7 the payload says 5.
\<close>

lemma consumed_chunk_shifts_sequence:
  "OData [1] \<lparr>pl_data = [104, 105, 33, 33, 33], pl_seq = Some 5, pl_raw = Some 5, pl_background = False, pl_dropped = False\<rparr>
     \<in> set (snd (delivery_run
        [(plain_env, EvReady True), (plain_env, EvData [1] [104, 105] [104, 105] (Some 2) None),
         (plain_env, EvData [1] [27, 93] [] (Some 4) None),
         (plain_env, EvData [1] [33, 33, 33] [33, 33, 33] (Some 7) None), (plain_env, EvFlushTimer)] delivery_init))"
  by code_simp

end
