(* ===== verification/Pty_Loss.thy ===== *)
theory Pty_Loss
  imports Pty_Delivery_Props
begin

text \<open>
  No silent loss.  What a terminal produced either is in the messages sent to the renderer, or still waits, or
  the renderer was told to restore the terminal: the outputs of a run are compared with what was fed in.
\<close>

subsection \<open>What was fed and what was sent\<close>

text \<open>Output of terminal \<open>k\<close> that a callback takes in, after the colour queries are answered.\<close>

fun fed :: "jsstr \<Rightarrow> delivery_event \<Rightarrow> jsstr" where
  "fed k (EvData i d rd q n) = (if i = k then rd else [])"
| "fed k _ = []"

fun sent_of :: "jsstr \<Rightarrow> delivery_out \<Rightarrow> jsstr" where
  "sent_of k (OData i p) = (if i = k then pl_data p else [])"
| "sent_of k _ = []"

definition sent :: "jsstr \<Rightarrow> delivery_out list \<Rightarrow> jsstr" where
  "sent k out = concat (map (sent_of k) out)"

definition waiting :: "jsstr \<Rightarrow> delivery \<Rightarrow> jsstr" where
  "waiting k st = (case map_get (dv_pending st) k of None \<Rightarrow> [] | Some p \<Rightarrow> pd_data p)"

text \<open>The messages that tell the renderer, or its reply, that output of \<open>k\<close> is missing.\<close>

fun is_notice :: "jsstr \<Rightarrow> delivery_out \<Rightarrow> bool" where
  "is_notice k (ORestore i r s) \<longleftrightarrow> i = k"
| "is_notice k (OData i p) \<longleftrightarrow> i = k \<and> pl_dropped p"
| "is_notice k (OHealth n m t ws) \<longleftrightarrow> k \<in> fst ` set ws"
| "is_notice k _ \<longleftrightarrow> False"

definition noticed :: "jsstr \<Rightarrow> delivery_out list \<Rightarrow> bool" where
  "noticed k out \<longleftrightarrow> list_ex (is_notice k) out"

text \<open>A drop that is known and not made good yet: the latch of the gate, or the sentinel in the queue.\<close>

definition flagged :: "jsstr \<Rightarrow> delivery \<Rightarrow> bool" where
  "flagged k st \<longleftrightarrow> k \<in> gt_dropped (dv_gate st) \<or> (case map_get (dv_pending st) k of None \<Rightarrow> False | Some p \<Rightarrow> pd_dropped p)"

lemma sent_Cons [simp]: "sent k (x # xs) = sent_of k x @ sent k xs"
  by (simp add: sent_def)

lemma sent_append [simp]: "sent k (a @ b) = sent k a @ sent k b" "sent k [] = []"
  by (simp_all add: sent_def)

lemma noticed_append [simp]: "noticed k (a @ b) \<longleftrightarrow> noticed k a \<or> noticed k b" "\<not> noticed k []"
  by (simp_all add: noticed_def)

text \<open>
  \<open>carries k d st r\<close>: from \<open>st\<close>, where \<open>d\<close> more comes in, the result \<open>r\<close> gave notice, or is flagged, or has
  sent what was waiting with \<open>d\<close> after it but for what still waits.
\<close>

definition carries :: "jsstr \<Rightarrow> jsstr \<Rightarrow> delivery \<Rightarrow> delivery_result \<Rightarrow> bool" where
  "carries k d st r \<longleftrightarrow> noticed k (snd r) \<or> flagged k (fst r) \<or>
     (\<not> flagged k st \<and> sent k (snd r) @ waiting k (fst r) = waiting k st @ d)"

lemma carries_refl: "carries k [] st (st, [])"
  by (simp add: carries_def)

lemma carries_then:
  "carries k d st r \<Longrightarrow> carries k e (fst r) (f (fst r)) \<Longrightarrow> carries k (d @ e) st (then_do r f)"
  by (auto simp: carries_def)

lemma carries_seq: "carries k [] st r \<Longrightarrow> carries k [] (fst r) (f (fst r)) \<Longrightarrow> carries k [] st (then_do r f)"
  using carries_then [of k "[]" st r "[]" f] by simp

text \<open>Results that leave the queue, the latch and the renderer alone.\<close>

definition aside :: "jsstr \<Rightarrow> delivery \<Rightarrow> delivery_result \<Rightarrow> bool" where
  "aside k st r \<longleftrightarrow> map_get (dv_pending (fst r)) k = map_get (dv_pending st) k \<and>
     (k \<in> gt_dropped (dv_gate (fst r)) \<longleftrightarrow> k \<in> gt_dropped (dv_gate st)) \<and> sent k (snd r) = []"

lemma aside_carries: "aside k st r \<Longrightarrow> carries k [] st r"
  by (auto simp: aside_def carries_def flagged_def waiting_def)

lemma aside_then: "aside k st r \<Longrightarrow> aside k (fst r) (f (fst r)) \<Longrightarrow> aside k st (then_do r f)"
  by (simp add: aside_def)

lemma sent_flow [simp]: "sent k (map OFlow cs) = []" "noticed k (map OFlow cs) = False"
  by (induction cs) (simp_all add: sent_def noticed_def)

lemma aside_update: "aside k st (updateProducerFlowControl E i st)"
  by (simp add: aside_def updateProducerFlowControl_def case_prod_unfold)

lemma aside_resync: "aside k st (requestDeliveryResyncForGatedPty st)"
  by (simp add: aside_def requestDeliveryResyncForGatedPty_def sent_def)

lemma aside_probe: "aside k st (probe_if_gated i st)"
  using aside_resync [of k st] by (simp add: probe_if_gated_def) (simp add: aside_def)

lemma aside_sync: "aside k st (syncPtyBackgroundedDelivery E i st)"
  by (simp add: aside_def syncPtyBackgroundedDelivery_def Let_def sent_def)

lemma aside_sync_all: "aside k st (sync_all E is st)"
proof (induction "is" arbitrary: st)
  case Nil
  then show ?case by (simp add: aside_def)
next
  case (Cons i "is")
  then show ?case by (auto intro: aside_then aside_sync)
qed

lemma aside_ack: "aside k st (fst (applyCumulativeAck i n st), [])"
  by (simp add: aside_def applyCumulativeAck_def Let_def split: option.split)

lemma aside_quiet:
  "dv_pending st' = dv_pending st \<Longrightarrow> dv_gate st' = dv_gate st \<Longrightarrow> sent k out = [] \<Longrightarrow> aside k st (st', out)"
  by (simp add: aside_def)

text \<open>A gated drop gives notice once, and is flagged from then on.\<close>

lemma gated_drop_carries:
  assumes "\<not> dv_destroyed st"
  shows "carries k d st0 (gated_drop k n q st)" and "j \<noteq> k \<Longrightarrow> aside j st (gated_drop k n q st)"
  using assms
  by (auto simp: carries_def aside_def gated_drop_def recordHiddenRendererPtyDataDrop_def Let_def case_prod_unfold noticed_def
      sendModelRestoreNeededMarker_def flagged_def sent_def)

subsection \<open>Every operation\<close>

lemma aside_gated_other: "j \<noteq> k \<Longrightarrow> aside j st (gated_drop k n q st)"
  by (auto simp: aside_def gated_drop_def recordHiddenRendererPtyDataDrop_def Let_def case_prod_unfold
      sendModelRestoreNeededMarker_def sent_def)

lemma aside_pending_other:
  "j \<noteq> k \<Longrightarrow> aside j st (set_pending k p st, [])" "j \<noteq> k \<Longrightarrow> aside j st (drop_pending k st, [])"
  by (simp_all add: aside_def set_pending_def drop_pending_def)

lemma aside_from:
  assumes "aside k st' r" and "map_get (dv_pending st') k = map_get (dv_pending st) k" and "dv_gate st' = dv_gate st"
  shows "aside k st r"
  using assms by (simp add: aside_def)

lemma aside_flush_entry:
  assumes "j \<noteq> i"
  shows "aside j st (fst (flush_entry E i p st))"
proof -
  have u: "aside j st (updateProducerFlowControl E i st')"
    if "map_get (dv_pending st') j = map_get (dv_pending st) j" "dv_gate st' = dv_gate st" for st'
    by (rule aside_from [OF aside_update that])
  have g: "aside j st' (gated_drop i n q st')" for st' n q using assms by (rule aside_gated_other)
  have s: "aside j st' (sendPtyDataToRenderer i pl st')" for st' pl
    using assms by (auto simp: aside_def sendPtyDataToRenderer_def Let_def sent_def)
  have n: "aside j st (st, [])" by (simp add: aside_def)
  show ?thesis using assms
    unfolding flush_entry_def Let_def
    by (auto intro!: aside_then u g s n simp: unmark_overflow_def drop_pending_def set_pending_def)
qed

lemma flush_entry_carries:
  assumes "map_get (dv_pending st) k = Some p" and "\<not> dv_destroyed st"
  shows "carries k [] st (fst (flush_entry E k p st))"
proof -
  note defs = flush_entry_def Let_def unmark_overflow_def drop_pending_def set_pending_def updateProducerFlowControl_def
    sendPtyDataToRenderer_def then_do_def case_prod_unfold
  consider (gated) "shouldDropHiddenRendererPtyData k (ev_settings E) (dv_gate st)"
    | (held) "\<not> shouldDropHiddenRendererPtyData k (ev_settings E) (dv_gate st)" "\<not> canSendPtyDataToRenderer k (k \<in> dv_active st) st"
    | (sends) "\<not> shouldDropHiddenRendererPtyData k (ev_settings E) (dv_gate st)" "canSendPtyDataToRenderer k (k \<in> dv_active st) st"
    by blast
  then show ?thesis
  proof cases
    case gated
    let ?st1 = "fst (updateProducerFlowControl E k (unmark_overflow k (drop_pending k st)))"
    have "\<not> dv_destroyed ?st1"
      using assms(2) by (simp add: updateProducerFlowControl_state unmark_overflow_def drop_pending_def)
    then have "carries k [] ?st1 (gated_drop k (int (length (pd_data p))) (ev_seq E k) ?st1)"
      and "noticed k (snd (gated_drop k (int (length (pd_data p))) (ev_seq E k) ?st1)) \<or>
        flagged k (fst (gated_drop k (int (length (pd_data p))) (ev_seq E k) ?st1))"
      by (rule gated_drop_carries)
        (use \<open>\<not> dv_destroyed ?st1\<close> in \<open>auto simp: gated_drop_def recordHiddenRendererPtyDataDrop_def Let_def case_prod_unfold
          noticed_def sendModelRestoreNeededMarker_def flagged_def\<close>)
    then show ?thesis using gated by (auto simp: flush_entry_def carries_def)
  next
    case held
    then show ?thesis by (simp add: flush_entry_def carries_refl)
  next
    case sends
    show ?thesis
    proof (cases "pd_dropped p")
      case True
      then have "noticed k (snd (fst (flush_entry E k p st)))"
        using sends by (simp add: defs noticed_def dropped_payload_def)
      then show ?thesis by (simp add: carries_def)
    next
      case False
      have "flagged k (fst (fst (flush_entry E k p st))) \<longleftrightarrow> flagged k st"
        using sends False assms(1) by (simp add: defs flagged_def)
      moreover have "sent k (snd (fst (flush_entry E k p st))) = take PTY_BATCH_FLUSH_CHUNK_CHARS (pd_data p)"
        using sends False by (simp add: flush_entry_def Let_def updateProducerFlowControl_def case_prod_unfold
            sendPtyDataToRenderer_def makePtyDataPayload_def sent_def [of k "[_]"])
      moreover have "waiting k (fst (fst (flush_entry E k p st))) = drop PTY_BATCH_FLUSH_CHUNK_CHARS (pd_data p)"
        using sends False by (simp add: defs waiting_def del: drop_eq_Nil)
      ultimately show ?thesis using assms(1) by (simp add: carries_def waiting_def [of k st])
    qed
  qed
qed

lemma flush_loop_carries:
  assumes "\<forall>(i, p)\<in>set es. map_get (dv_pending st) i = Some p" and "distinct (map fst es)" and "\<not> dv_destroyed st"
  shows "carries k [] st (fst (flush_loop E es n st))"
  using assms
proof (induction es arbitrary: n st)
  case Nil
  then show ?case by (simp add: carries_refl)
next
  case (Cons e es)
  obtain i p where e: "e = (i, p)" by fastforce
  let ?r = "flush_entry E i p st"
  have first: "carries k [] st (fst ?r)"
    using flush_entry_carries [of st k p E] aside_carries [OF aside_flush_entry [of k i st E p]] Cons.prems(1,3)
    by (cases "k = i") (auto simp: e)
  have "map_get (dv_pending (fst (fst ?r))) j = Some q" if "(j, q) \<in> set es" for j q
    using that Cons.prems(1,2) flush_entry_frame(4) [of j i E p st] by (force simp: e)
  then have "carries k [] (fst (fst ?r)) (fst (flush_loop E es m (fst (fst ?r))))" for m
    using Cons.prems(2,3) by (intro Cons.IH) (auto simp: e flush_entry_frame)
  with first carries_seq [of k st "fst ?r" "\<lambda>s. fst (flush_loop E es (n + snd ?r) s)"] show ?case
    by (simp add: e case_prod_unfold then_do_def carries_refl)
qed

lemma flush_carries:
  assumes "sound st" and "\<not> dv_destroyed st"
  shows "carries k [] st (flushPendingData E st)"
proof -
  let ?s = "st\<lparr>dv_timer := False\<rparr>"
  have c: "carries k [] st (x\<lparr>dv_timer := b\<rparr>, out)" if "carries k [] ?s (x, out)" for x b out
    using that by (simp add: carries_def flagged_def waiting_def)
  have d: "distinct (map fst (dv_pending ?s))" using assms(1) by (simp add: sound_def flow_fits_but_def)
  have "map_get (dv_pending ?s) i = Some p" if "(i, p) \<in> set (getPendingPtyFlushEntries ?s)" for i p
    using that map_get_unique [OF d] unfolding flush_entries_keys by simp
  then have l: "carries k [] ?s (fst (flush_loop E (getPendingPtyFlushEntries ?s) 0 ?s))"
    using d assms(2) by (intro flush_loop_carries flush_entries_keys) auto
  have "carries k [] ?s (?s, [])" by (rule carries_refl)
  from c [OF this, of False] show ?thesis
    using l c [of "fst (fst (flush_loop E (getPendingPtyFlushEntries ?s) 0 ?s))" "snd (fst (flush_loop E (getPendingPtyFlushEntries ?s) 0 ?s))" True]
      assms(2) by (auto simp: flushPendingData_def Let_def case_prod_unfold schedulePendingDataFlush_def carries_def flagged_def waiting_def)
qed

text \<open>New output: what the queue holds afterwards.\<close>

lemma oversized_result:
  assumes "dropOversizedPendingPtyData E i p st = (st2, p2, out)"
  shows "dv_pending st2 = dv_pending st" "dv_gate st2 = dv_gate st" "dv_destroyed st2 = dv_destroyed st" "sent k out = []"
    "pd_dropped p2 \<or> p2 = p"
  using assms
  by (auto simp: dropOversizedPendingPtyData_def Let_def sendModelRestoreNeededMarker_def sent_def split: if_splits)

lemma append_result:
  assumes "appendPendingPtyData E i (map_get (dv_pending st) i) d q ps b st = (st2, p, out)"
  shows "dv_pending st2 = dv_pending st" "dv_gate st2 = dv_gate st" "dv_destroyed st2 = dv_destroyed st" "sent k out = []"
    "pd_dropped p \<or> pd_data p = waiting i st @ d \<and>
       \<not> (case map_get (dv_pending st) i of None \<Rightarrow> False | Some p \<Rightarrow> pd_dropped p)"
  using assms oversized_result [of E i _ st st2 p out]
  by (auto simp: appendPendingPtyData_def waiting_def split: option.splits if_splits dest: oversized_result)

lemma interactive_result:
  assumes "shouldSendInteractiveOutputNow i d now st = (st', b)"
  shows "dv_pending st' = dv_pending st" "dv_gate st' = dv_gate st" "dv_destroyed st' = dv_destroyed st"
  using assms by (auto simp: shouldSendInteractiveOutputNow_def Let_def split: if_splits)

lemma queue_output_cases:
  obtains (wait) p where
      "pd_dropped p \<or> pd_data p = waiting i st @ d \<and> \<not> (case map_get (dv_pending st) i of None \<Rightarrow> False | Some p \<Rightarrow> pd_dropped p)"
      "dv_gate (fst (queue_output E i d q ps st)) = dv_gate st"
      "dv_pending (fst (queue_output E i d q ps st)) = map_set i p (dv_pending st)"
      "\<And>k. sent k (snd (queue_output E i d q ps st)) = []"
    | (send) p where
      "pd_dropped p \<or> pd_data p = waiting i st @ d \<and> \<not> (case map_get (dv_pending st) i of None \<Rightarrow> False | Some p \<Rightarrow> pd_dropped p)"
      "dv_gate (fst (queue_output E i d q ps st)) = dv_gate st"
      "dv_pending (fst (queue_output E i d q ps st)) = map_delete i (dv_pending st)"
      "\<And>k. sent k (snd (queue_output E i d q ps st)) = (if k = i then pd_data p else [])"
      "OData i (interactive_payload p) \<in> set (snd (queue_output E i d q ps st))"
proof -
  define st1 where "st1 = (if rendererPtyIsKnownHidden i st \<or> ptyHasHiddenRendererResizeOutput i st
    then markHiddenRendererResizeOutputDelivered i st else st)"
  have st1: "dv_pending st1 = dv_pending st" "dv_gate st1 = dv_gate st"
    by (simp_all add: st1_def markHiddenRendererResizeOutputDelivered_def)
  obtain st2 p o1 where a: "appendPendingPtyData E i (map_get (dv_pending st1) i) d q ps
      (rendererPtyIsKnownHidden i st \<or> ptyHasHiddenRendererResizeOutput i st) st1 = (st2, p, o1)"
    using prod_cases3 by blast
  note ar = append_result [OF a]
  obtain st3 b where b: "shouldSendInteractiveOutputNow i (pd_data p) (ev_perf E) st2 = (st3, b)" by fastforce
  note br = interactive_result [OF b]
  have st3: "dv_pending st3 = dv_pending st" "dv_gate st3 = dv_gate st" using ar(1,2) br st1 by simp_all
  have p: "pd_dropped p \<or> pd_data p = waiting i st @ d \<and> \<not> (case map_get (dv_pending st) i of None \<Rightarrow> False | Some p \<Rightarrow> pd_dropped p)"
    using ar(5) st1 by (simp add: waiting_def)
  have r: "dv_pending (fst (requestDeliveryResyncForGatedPty x)) = dv_pending x" "dv_gate (fst (requestDeliveryResyncForGatedPty x)) = dv_gate x"
     "sent k (snd (requestDeliveryResyncForGatedPty x)) = []" for x k
    by (simp_all add: requestDeliveryResyncForGatedPty_def sent_def)
  have pr: "dv_pending (fst (probe_if_gated i x)) = dv_pending x" "dv_gate (fst (probe_if_gated i x)) = dv_gate x"
     "sent k (snd (probe_if_gated i x)) = []" for x k
    by (simp_all add: probe_if_gated_def r)
  have u: "sent k (snd (updateProducerFlowControl E i x)) = []" for x k
    by (simp add: updateProducerFlowControl_def case_prod_unfold)
  show thesis
  proof (cases "b \<and> dv_ready st3 \<and> canSendPtyDataToRenderer i True st3")
    case True
    show thesis
      by (rule send [OF p]) (use a b True st3 ar(4) in \<open>simp_all add: queue_output_def Let_def st1_def [symmetric] u
          updateProducerFlowControl_state sendPtyDataToRenderer_def interactive_payload_def drop_pending_def unmark_overflow_def
          clearFlushTimerIfIdle_def sent_def [of _ "[_]"]\<close>)
  next
    case False
    show thesis
      by (rule wait [OF p]) (use a b False st3 ar(4) in \<open>auto simp: queue_output_def Let_def st1_def [symmetric] u r pr
          updateProducerFlowControl_state set_pending_def schedulePendingDataFlush_def\<close>)
  qed
qed

lemma queue_output_carries: "carries k (if i = k then d else []) st (queue_output E i d q ps st)"
proof (cases rule: queue_output_cases [where i = i and d = d and st = st and E = E and q = q and ps = ps])
  case (wait p)
  then show ?thesis by (auto simp: carries_def flagged_def waiting_def split: option.splits)
next
  case (send p)
  have "noticed i (snd (queue_output E i d q ps st))" if "pd_dropped p"
    using send(5) that by (auto simp: noticed_def list_ex_iff interactive_payload_def intro!: bexI)
  with send(1-4) show ?thesis by (auto simp: carries_def flagged_def waiting_def split: option.splits)
qed

lemma data_carries:
  assumes "\<not> dv_destroyed st"
  shows "carries k (if i = k then rd else []) st (onProviderData E i d rd q n st)"
proof -
  have "carries k (if i = k then rd else []) st (gated_drop i (int (length d)) q st)"
    using gated_drop_carries(1) [OF assms] aside_carries [OF aside_gated_other] by (cases "i = k") auto
  then show ?thesis
    using assms queue_output_carries by (auto simp: onProviderData_def Let_def carries_refl)
qed

lemma exit_carries: "carries k [] st (sendPtyExitToRenderer i code st)"
proof (cases "dv_destroyed st")
  case False
  note defs = sendPtyExitToRenderer_def Let_def release_producer_def unmark_overflow_def drop_pending_def sendPtyDataToRenderer_def
    case_prod_unfold
  have other: "sent_of k (OExit i code) = []" "sent_of k (OData i p) = (if i = k then pl_data p else [])" for p by simp_all
  show ?thesis
  proof (cases "map_get (dv_pending st) i")
    case None
    with False show ?thesis
      by (intro aside_carries) (simp add: aside_def defs sent_def [of _ "[_]"])
  next
    case (Some p)
    show ?thesis
    proof (cases "i = k \<and> pd_dropped p")
      case True
      with Some False have "noticed k (snd (sendPtyExitToRenderer i code st))"
        by (simp add: defs noticed_def dropped_payload_def)
      then show ?thesis by (simp add: carries_def)
    next
      case False
      with Some \<open>\<not> dv_destroyed st\<close> show ?thesis
        by (auto simp: carries_def flagged_def waiting_def defs sent_def [of _ "[_]"] makePtyDataPayload_def split: option.splits)
    qed
  qed
qed (simp add: sendPtyExitToRenderer_def carries_refl)

lemma aside_merge: "aside k st (merge_processed rs st)"
proof (induction rs arbitrary: st)
  case (Cons r rs)
  obtain i v where r: "r = (i, v)" by fastforce
  have "aside k st (fst (applyCumulativeAck i n st), if b then [OAckProvider i m] else [])" for n b m
    using aside_ack [of k st i n] by (simp add: aside_def sent_def)
  then show ?case using Cons by (auto simp: r case_prod_unfold aside_def split: option.split)
qed (simp add: aside_def)

lemma write_off_aside:
  "k \<in> fst ` set (snd (write_off_loop E received is st)) \<or> aside k st (fst (write_off_loop E received is st))"
proof (induction "is" arbitrary: st)
  case Nil
  then show ?case by (simp add: aside_def)
next
  case (Cons i "is")
  let ?r = "write_off_one E received i st"
  have ack: "dv_pending (fst (applyCumulativeAck i n st)) = dv_pending st" "dv_gate (fst (applyCumulativeAck i n st)) = dv_gate st" for n
    by (simp_all add: applyCumulativeAck_def Let_def split: option.split)
  have "k \<in> fst ` set (snd ?r) \<or> aside k st (fst ?r)"
  proof (cases "k = i")
    case True
    then show ?thesis using ack
      by (auto simp: write_off_one_def case_prod_unfold aside_def split: option.split)
  next
    case False
    then show ?thesis using ack
      by (auto simp: write_off_one_def case_prod_unfold aside_def updateProducerFlowControl_def unmark_overflow_def drop_pending_def
          sent_def [of _ "[_]"] split: option.split)
  qed
  then show ?case using Cons [of "fst (fst ?r)"] by (auto simp: case_prod_unfold aside_def)
qed

lemma schedule_simps [simp]:
  "dv_pending (schedule_if_pending st) = dv_pending st" "dv_gate (schedule_if_pending st) = dv_gate st"
  "dv_pending (schedulePendingDataFlush st) = dv_pending st" "dv_gate (schedulePendingDataFlush st) = dv_gate st"
  by (simp_all add: schedule_if_pending_def schedulePendingDataFlush_def)

lemma report_carries: "carries k [] st (on_reportRendererDeliveryState E rs received heal st)"
proof -
  let ?m = "merge_processed rs st"
  define w where "w = (if heal \<and> dv_in_flight (fst ?m) > 0 \<and>
      (case dv_last_ack (fst ?m) of None \<Rightarrow> True | Some t \<Rightarrow> ev_now E - t \<ge> PTY_DELIVERY_HEAL_MIN_ACK_SILENCE_MS)
    then writeOffLostRendererDelivery E received (fst ?m) else ((fst ?m, []), []))"
  have r: "fst (on_reportRendererDeliveryState E rs received heal st) = schedule_if_pending (fst (fst w))"
    "snd (on_reportRendererDeliveryState E rs received heal st) = snd ?m @ snd (fst w) @ snd (health_reply E (snd w) (schedule_if_pending (fst (fst w))))"
    by (simp_all add: on_reportRendererDeliveryState_def w_def case_prod_unfold health_reply_def)
  have m: "aside k st ?m" by (rule aside_merge)
  have "k \<in> fst ` set (snd w) \<or> aside k (fst ?m) (fst w)"
    using write_off_aside [of k E received "map fst (dv_accounting (fst ?m))" "fst ?m"]
    by (auto simp: w_def writeOffLostRendererDelivery_def case_prod_unfold aside_def clearDeliveryResyncProbe_def)
  then show ?thesis
  proof
    assume "k \<in> fst ` set (snd w)"
    then have "noticed k (snd (on_reportRendererDeliveryState E rs received heal st))"
      unfolding r by (simp add: noticed_def health_reply_def)
    then show ?thesis by (simp add: carries_def)
  next
    assume "aside k (fst ?m) (fst w)"
    with m show ?thesis
      by (intro aside_carries) (simp add: aside_def r health_reply_def sent_def [of _ "[_]"])
  qed
qed

lemma hidden_carries:
  assumes "\<not> dv_destroyed st"
  shows "carries k [] st (on_setHiddenRendererPty E i b st)"
proof -
  let ?st1 = "st\<lparr>dv_gate := markHiddenRendererPty i (dv_gate st)\<rparr>"
  have mark: "aside k st (?st1, [])" by (simp add: aside_def markHiddenRendererPty_def)
  have drop: "carries k [] st (then_do (then_do (updateProducerFlowControl E i (drop_pending i ?st1)) (quietly (unmark_overflow i)))
       (gated_drop i n q))" for n q
  proof -
    let ?u = "then_do (updateProducerFlowControl E i (drop_pending i ?st1)) (quietly (unmark_overflow i))"
    have d: "\<not> dv_destroyed (fst ?u)"
      using assms by (simp add: updateProducerFlowControl_state unmark_overflow_def drop_pending_def)
    show ?thesis
    proof (cases "k = i")
      case True
      have "noticed k (snd (gated_drop k n q (fst ?u))) \<or> flagged k (fst (gated_drop k n q (fst ?u)))"
        using d by (auto simp: gated_drop_def recordHiddenRendererPtyDataDrop_def Let_def case_prod_unfold noticed_def
            sendModelRestoreNeededMarker_def flagged_def)
      then show ?thesis using True by (auto simp: carries_def)
    next
      case False
      then have "aside k st ?u"
        by (simp add: aside_def updateProducerFlowControl_def case_prod_unfold unmark_overflow_def drop_pending_def markHiddenRendererPty_def)
      then have "aside k st (then_do ?u (gated_drop i n q))"
        by (rule aside_then) (rule aside_gated_other [OF False])
      then show ?thesis by (rule aside_carries)
    qed
  qed
  have shown: "carries k [] st (then_do (syncPtyBackgroundedDelivery E i (st\<lparr>dv_gate := fst (unmarkHiddenRendererPty i (dv_gate st))\<rparr>))
      (\<lambda>x. (x, if snd (unmarkHiddenRendererPty i (dv_gate st)) then sendModelRestoreNeededMarker i RestoreUnhide q x else [])))" for q
  proof (cases "k = i \<and> k \<in> gt_dropped (dv_gate st)")
    case True
    have "\<not> dv_destroyed (fst (syncPtyBackgroundedDelivery E i (st\<lparr>dv_gate := g\<rparr>)))" for g
      using assms core_eqD(8) [OF core_sync] by simp
    moreover from True have "k = i" "i \<in> gt_dropped (dv_gate st)" by auto
    ultimately show ?thesis
      unfolding carries_def by (intro disjI1) (simp add: noticed_def unmarkHiddenRendererPty_def sendModelRestoreNeededMarker_def)
  next
    case False
    let ?g = "fst (unmarkHiddenRendererPty i (dv_gate st))"
    from False have "aside k st (st\<lparr>dv_gate := ?g\<rparr>, [])" by (auto simp: aside_def unmarkHiddenRendererPty_def)
    then have "aside k st (syncPtyBackgroundedDelivery E i (st\<lparr>dv_gate := ?g\<rparr>))"
      using aside_sync [of k "st\<lparr>dv_gate := ?g\<rparr>" E i] by (simp add: aside_def)
    then show ?thesis
      by (intro aside_carries) (simp add: aside_def sendModelRestoreNeededMarker_def)
  qed
  have sync: "carries k [] x (syncPtyBackgroundedDelivery E i x)" for x by (rule aside_carries [OF aside_sync])
  define r where "r = (case map_get (dv_pending ?st1) i of
      Some p \<Rightarrow>
        if shouldDropHiddenRendererPtyData i (ev_settings E) (dv_gate ?st1)
        then then_do (then_do (updateProducerFlowControl E i (drop_pending i ?st1)) (quietly (unmark_overflow i)))
               (gated_drop i (int (length (pd_data p))) (ev_seq E i))
        else (?st1, [])
    | None \<Rightarrow> (?st1, []))"
  have "carries k [] st r"
    using drop aside_carries [OF mark] unfolding r_def
    by (cases "map_get (dv_pending ?st1) i") (simp_all only: option.case if_split simp_thms)
  then have "carries k [] st (then_do r (syncPtyBackgroundedDelivery E i))" by (rule carries_seq) (rule sync)
  then show ?thesis
    using shown carries_refl [of k st]
    by (simp add: on_setHiddenRendererPty_def Let_def case_prod_unfold r_def)
qed

subsection \<open>Runs\<close>

text \<open>
  The page a terminal is shown on goes away with a reload, a second handshake and the window; the terminal's
  own state with its teardown.  Between these, nothing is lost without notice.
\<close>

fun leaves_page :: "jsstr \<Rightarrow> delivery_event \<Rightarrow> delivery \<Rightarrow> bool" where
  "leaves_page k EvReload st = True"
| "leaves_page k EvWindowClosed st = True"
| "leaves_page k (EvReady ok) st = (ok \<and> dv_ready st)"
| "leaves_page k (EvTeardown i) st = (i = k)"
| "leaves_page k _ st = False"

fun same_page :: "jsstr \<Rightarrow> (delivery_env \<times> delivery_event) list \<Rightarrow> delivery \<Rightarrow> bool" where
  "same_page k [] st = True"
| "same_page k ((E, e) # es) st = (\<not> leaves_page k e st \<and> same_page k es (fst (delivery_step E e st)))"

lemma step_carries:
  assumes "sound st" and "\<not> dv_destroyed st" and "\<not> leaves_page k e st"
  shows "carries k (fed k e) st (delivery_step E e st)"
proof (cases e)
  case (EvData i d rd q n)
  then show ?thesis using data_carries [OF assms(2), of k i rd E d q n] by simp
next
  case (EvAck i processed n)
  have "aside k st (on_ackData E i processed n st)"
    by (simp add: aside_def on_ackData_def Let_def case_prod_unfold applyCumulativeAck_def sent_def split: option.split)
  then show ?thesis using EvAck aside_carries by simp
next
  case (EvResyncReply n rs)
  have "aside k st (then_do (merge_processed rs (clearDeliveryResyncProbe st)) (quietly schedule_if_pending))"
    using aside_merge [of k "clearDeliveryResyncProbe st" rs] by (simp add: aside_def clearDeliveryResyncProbe_def)
  then show ?thesis using EvResyncReply aside_carries carries_refl by (simp add: on_deliveryResyncResponse_def)
next
  case (EvReady ok)
  have "aside k st (schedulePendingDataFlush (st\<lparr>dv_watchdog := False, dv_ready := True\<rparr>), [])" by (rule aside_quiet) simp_all
  then show ?thesis using EvReady assms(3) aside_carries
    by (auto simp: on_rendererDispatcherReady_def then_do_def quietly_def carries_refl)
next
  case (EvTeardown i)
  with assms(3) have "i \<noteq> k" by simp
  then have "aside k st (clearProviderPtyState i st, [])"
    by (simp add: aside_def clearProviderPtyState_def clearHiddenRendererPtyDeliveryState_def)
  then show ?thesis using EvTeardown aside_carries by simp
next
  case EvGateReset
  have "aside k st (rendererGateReset E st)"
    unfolding rendererGateReset_def
    using aside_sync_all [of k "st\<lparr>dv_gate := resetRendererScopedHiddenPtyDeliveryState (dv_gate st)\<rparr>" E "map fst (dv_backgrounded st)"]
    by (simp add: aside_def resetRendererScopedHiddenPtyDeliveryState_def)
  then show ?thesis using EvGateReset aside_carries by simp
next
  case (EvVisible i b)
  have "aside k st (on_setRendererPtyVisible E i b st)"
    by (simp add: on_setRendererPtyVisible_def aside_def syncPtyBackgroundedDelivery_def Let_def sent_def)
  then show ?thesis using EvVisible aside_carries by simp
next
  case (EvInterest i b)
  have "aside k st (on_setPtyDeliveryInterest i b st)"
    by (simp add: on_setPtyDeliveryInterest_def aside_def setRendererPtyDeliveryInterest_def)
  then show ?thesis using EvInterest aside_carries by simp
next
  case (EvInput i)
  have "aside k st (on_input E i st)" by (simp add: on_input_def Let_def aside_def)
  then show ?thesis using EvInput aside_carries by simp
next
  case (EvResize i b)
  have "aside k st (on_resize i b st)" by (simp add: on_resize_def Let_def aside_def)
  then show ?thesis using EvResize aside_carries by simp
next
  case EvWatchdog
  have "aside k st (on_dispatcher_watchdog st)" by (simp add: on_dispatcher_watchdog_def Let_def aside_def)
  then show ?thesis using EvWatchdog aside_carries by simp
next
  case (EvActive i b)
  have "aside k st (on_setActiveRendererPty i b st)" by (simp add: on_setActiveRendererPty_def aside_def)
  then show ?thesis using EvActive aside_carries by simp
next
  case (EvResyncTimeout n)
  have "aside k st (on_resync_timeout n st)" by (simp add: on_resync_timeout_def aside_def clearDeliveryResyncProbe_def)
  then show ?thesis using EvResyncTimeout aside_carries by simp
qed (use assms in \<open>simp_all add: flush_carries report_carries hidden_carries exit_carries aside_carries [OF aside_sync] carries_refl\<close>)

lemma destroyed_frames [simp]:
  "dv_destroyed (fst (updateProducerFlowControl E i st)) = dv_destroyed st" "dv_destroyed (fst (gated_drop i n q st)) = dv_destroyed st"
  "dv_destroyed (fst (syncPtyBackgroundedDelivery E i st)) = dv_destroyed st" "dv_destroyed (unmark_overflow i st) = dv_destroyed st"
  "dv_destroyed (drop_pending i st) = dv_destroyed st" "dv_destroyed (set_pending i p st) = dv_destroyed st"
  "dv_destroyed (schedule_if_pending st) = dv_destroyed st" "dv_destroyed (schedulePendingDataFlush st) = dv_destroyed st"
  "dv_destroyed (clearDeliveryResyncProbe st) = dv_destroyed st" "dv_destroyed (fst (applyCumulativeAck i m st)) = dv_destroyed st"
  "dv_destroyed (fst (requestDeliveryResyncForGatedPty st)) = dv_destroyed st" "dv_destroyed (fst (wipe st)) = dv_destroyed st"
  "dv_destroyed (fst (probe_if_gated i st)) = dv_destroyed st" "dv_destroyed (clearFlushTimerIfIdle st) = dv_destroyed st"
  "dv_destroyed (fst (sync_all E is st)) = dv_destroyed st" "dv_destroyed (fst (release_producer i st)) = dv_destroyed st"
  using core_eqD(8) [OF core_gated_drop] core_eqD(8) [OF core_sync] core_eqD(8) [OF core_unmark] core_eqD(8) [OF core_clear_probe]
    core_eqD(8) [OF core_resync] core_eqD(8) [OF core_probe_if_gated] core_eqD(8) [OF core_sync_all]
  by (auto simp: updateProducerFlowControl_state drop_pending_def set_pending_def schedule_if_pending_def schedulePendingDataFlush_def
      applyCumulativeAck_def Let_def wipe_def clearFlushTimerIfIdle_def release_producers_def release_producer_def clearDeliveryResyncProbe_def
      case_prod_unfold split: option.split)

lemma output_destroyed: "dv_destroyed (fst (queue_output E i d q ps st)) = dv_destroyed st"
proof -
  define st1 where "st1 = (if rendererPtyIsKnownHidden i st \<or> ptyHasHiddenRendererResizeOutput i st
    then markHiddenRendererResizeOutputDelivered i st else st)"
  obtain st2 p o1 where a: "appendPendingPtyData E i (map_get (dv_pending st1) i) d q ps
      (rendererPtyIsKnownHidden i st \<or> ptyHasHiddenRendererResizeOutput i st) st1 = (st2, p, o1)"
    using prod_cases3 by blast
  obtain st3 b where b: "shouldSendInteractiveOutputNow i (pd_data p) (ev_perf E) st2 = (st3, b)" by fastforce
  have "dv_destroyed st3 = dv_destroyed st"
    using append_result(3) [OF a] interactive_result(3) [OF b] by (simp add: st1_def markHiddenRendererResizeOutputDelivered_def)
  then show ?thesis using a b by (simp add: queue_output_def Let_def st1_def [symmetric] core_send)
qed

lemma merge_destroyed: "dv_destroyed (fst (merge_processed rs st)) = dv_destroyed st"
proof (induction rs arbitrary: st)
  case (Cons r rs)
  then show ?case by (cases r) (simp add: case_prod_unfold split: option.split)
qed simp

lemma write_off_destroyed: "dv_destroyed (fst (fst (write_off_loop E received is st))) = dv_destroyed st"
proof (induction "is" arbitrary: st)
  case (Cons i "is")
  have "dv_destroyed (fst (fst (write_off_one E received i st))) = dv_destroyed st"
    by (simp add: write_off_one_def case_prod_unfold split: option.split)
  with Cons show ?case by (simp add: case_prod_unfold)
qed simp

lemma step_destroyed: "e \<noteq> EvWindowClosed \<Longrightarrow> dv_destroyed (fst (delivery_step E e st)) = dv_destroyed st"
proof (cases e)
  case (EvExit i code)
  then show ?thesis by (simp add: sendPtyExitToRenderer_def Let_def core_send split: option.split)
next
  case (EvReport rs received heal)
  then show ?thesis
    by (simp add: on_reportRendererDeliveryState_def health_reply_def writeOffLostRendererDelivery_def case_prod_unfold
        merge_destroyed write_off_destroyed)
qed (auto simp: onProviderData_def output_destroyed flushPendingData_def flush_loop_frame on_ackData_def merge_destroyed
    on_deliveryResyncResponse_def on_resync_timeout_def on_rendererDispatcherReady_def on_dispatcher_watchdog_def
    markRendererPtysHiddenForRendererLifecycleReset_def resetRendererDeliveryAccountingForLifecycleReset_def
    armDispatcherReadyWatchdog_def release_producers_def rendererGateReset_def on_setActiveRendererPty_def
    on_setRendererPtyVisible_def on_setHiddenRendererPty_def on_setPtyDeliveryInterest_def on_input_def on_resize_def
    clearProviderPtyState_def clearDeliveryResyncProbe_def Let_def case_prod_unfold split: option.split)

lemma run_carries:
  assumes "sound st" and "\<not> dv_destroyed st" and "same_page k es st"
  shows "carries k (concat (map (\<lambda>(E, e). fed k e) es)) st (delivery_run es st)"
  using assms
proof (induction es arbitrary: st)
  case Nil
  then show ?case by (simp add: carries_refl)
next
  case (Cons x es)
  obtain E e where x: "x = (E, e)" by fastforce
  let ?st1 = "fst (delivery_step E e st)"
  have p: "\<not> leaves_page k e st" "same_page k es ?st1" using Cons.prems(3) by (simp_all add: x)
  have "e \<noteq> EvWindowClosed" using p(1) by auto
  then have "\<not> dv_destroyed ?st1" using step_destroyed Cons.prems(2) by simp
  from Cons.IH [OF sound_step [OF Cons.prems(1)] this p(2)] step_carries [OF Cons.prems(1,2) p(1)]
  show ?case by (simp add: x carries_then)
qed

text \<open>
  C6: No terminal output is lost in silence.  Let a terminal start with nothing waiting and no drop on record,
  and let the page stay.  Then after any interleaving of output, flushes, acknowledgements, resyncs, heals, hide
  and show of this and of other terminals, either the renderer was told that output of this terminal is missing
  (a restore marker, a dropped-output sentinel or a write-off), or a drop is on record and will be told, or what
  was sent, followed by what still waits, is exactly what the terminal produced, in order.
\<close>

theorem no_silent_loss:
  assumes "run_events delivery_machine fs delivery_init = st" and "\<not> dv_destroyed st" and "same_page k es st"
    and "map_get (dv_pending st) k = None" and "k \<notin> gt_dropped (dv_gate st)"
    and "delivery_run es st = (st', out)"
  shows "(\<exists>m\<in>set out. is_notice k m) \<or> k \<in> gt_dropped (dv_gate st') \<or> (\<exists>p. map_get (dv_pending st') k = Some p \<and> pd_dropped p) \<or>
    concat (map (sent_of k) out) @ (case map_get (dv_pending st') k of None \<Rightarrow> [] | Some p \<Rightarrow> pd_data p) =
      concat (map (\<lambda>(E, e). fed k e) es)"
proof -
  have "sound st" using pty_sound.inv_run [OF sound_init] assms(1) by blast
  from run_carries [OF this assms(2,3)] show ?thesis
    using assms(4-6)
    by (auto simp: carries_def noticed_def list_ex_iff flagged_def waiting_def sent_def split: option.splits)
qed

definition sample_start :: "(delivery_env \<times> delivery_event) list" where
  "sample_start = [(plain_env, EvReady True), (plain_env, EvFlushTimer), (plain_env, EvInput [7])]"

definition sample_events :: "(delivery_env \<times> delivery_event) list" where
  "sample_events = [(plain_env, EvData [1] [104, 105] [104, 105] (Some 2) None), (plain_env, EvData [7] [9] [9] None None),
     (plain_env, EvFlushTimer), (plain_env, EvData [1] [33] [33] (Some 3) None)]"

lemma no_silent_loss_witness:
  "let r = delivery_run sample_events (run_events delivery_machine sample_start delivery_init); st' = fst r; out = snd r
   in (\<exists>m\<in>set out. is_notice [1] m) \<or> [1] \<in> gt_dropped (dv_gate st') \<or> (\<exists>p. map_get (dv_pending st') [1] = Some p \<and> pd_dropped p) \<or>
     concat (map (sent_of [1]) out) @ (case map_get (dv_pending st') [1] of None \<Rightarrow> [] | Some p \<Rightarrow> pd_data p) = [104, 105, 33]"
proof -
  let ?st = "run_events delivery_machine sample_start delivery_init"
  have "\<not> dv_destroyed ?st" "map_get (dv_pending ?st) [1] = None" "[1] \<notin> gt_dropped (dv_gate ?st)"
    by code_simp+
  moreover have "same_page [1] sample_events ?st" by (simp add: sample_events_def)
  ultimately show ?thesis
    using no_silent_loss [OF refl, where fs = sample_start and es = sample_events and k = "[1]", OF _ _ _ _ surjective_pairing]
    by (simp add: sample_events_def Let_def)
qed

end
