(* ===== verification/Escape_Tail.thy ===== *)
theory Escape_Tail
  imports Prelude_Js
begin

text \<open>
  The incomplete escape sequence at the end of a terminal stream, \<open>src/shared/terminal-partial-escape-tail.ts\<close>:
  a scan of the code units with the parser states that can span a chunk, keeping where the pending sequence
  starts; and the fold that carries the tail from chunk to chunk.
\<close>

datatype scan_state = Ground | Esc | EscIntermediate | Csi | Osc | OscEsc | StringSeq | StringEsc

definition ESC :: "16 word" where "ESC = 0x1B"
definition CAN :: "16 word" where "CAN = 0x18"
definition SUB :: "16 word" where "SUB = 0x1A"
definition BEL :: "16 word" where "BEL = 0x07"

definition MAX_PARTIAL_ESCAPE_TAIL_LENGTH :: nat where "MAX_PARTIAL_ESCAPE_TAIL_LENGTH = 4096"

definition stateAfterEscByte :: "16 word \<Rightarrow> scan_state" where
  "stateAfterEscByte c =
     (if c = 0x5B then Csi
      else if c = 0x5D then Osc
      else if c = 0x50 \<or> c = 0x58 \<or> c = 0x5E \<or> c = 0x5F then StringSeq
      else if 0x20 \<le> c \<and> c \<le> 0x2F then EscIntermediate
      else if c < 0x20 \<or> c = 0x7F then Esc
      else Ground)"

text \<open>One turn of the loop: the state and the start of the pending sequence after the unit at \<open>i\<close>.\<close>

definition scan_unit :: "nat \<Rightarrow> 16 word \<Rightarrow> scan_state \<times> nat \<Rightarrow> scan_state \<times> nat" where
  "scan_unit i c r = (case r of (state, start) \<Rightarrow>
     if state = Ground then (if c = ESC then (Esc, i) else (Ground, start))
     else if c = ESC \<and> state \<noteq> Osc \<and> state \<noteq> StringSeq \<and> state \<noteq> OscEsc \<and> state \<noteq> StringEsc then (Esc, i)
     else if (c = CAN \<or> c = SUB) \<and> (state = Esc \<or> state = EscIntermediate) then (Ground, start)
     else case state of
       Esc \<Rightarrow> (stateAfterEscByte c, start)
     | EscIntermediate \<Rightarrow> (if 0x30 \<le> c \<and> c \<le> 0x7E then Ground else EscIntermediate, start)
     | Csi \<Rightarrow> (if c = CAN \<or> c = SUB then Ground else if 0x40 \<le> c \<and> c \<le> 0x7E then Ground else Csi, start)
     | Osc \<Rightarrow> (if c = BEL \<or> c = CAN \<or> c = SUB then Ground else if c = ESC then OscEsc else Osc, start)
     | OscEsc \<Rightarrow> (if c = 0x5C then (Ground, start) else (if c = ESC then Esc else stateAfterEscByte c, i - 1))
     | StringSeq \<Rightarrow> (if c = CAN \<or> c = SUB then Ground else if c = ESC then StringEsc else StringSeq, start)
     | StringEsc \<Rightarrow> (if c = 0x5C then (Ground, start) else (if c = ESC then Esc else stateAfterEscByte c, i - 1))
     | Ground \<Rightarrow> (Ground, start))"

fun scan_from :: "nat \<Rightarrow> jsstr \<Rightarrow> scan_state \<times> nat \<Rightarrow> scan_state \<times> nat" where
  "scan_from i [] r = r"
| "scan_from i (c # cs) r = scan_from (i + 1) cs (scan_unit i c r)"

definition extractPartialEscapeTail :: "jsstr \<Rightarrow> jsstr" where
  "extractPartialEscapeTail s =
     (case scan_from 0 s (Ground, 0) of (state, start) \<Rightarrow> if state = Ground then [] else drop start s)"

definition advancePartialEscapeTail :: "jsstr \<Rightarrow> jsstr \<Rightarrow> jsstr" where
  "advancePartialEscapeTail pendingTail chunk =
     (let tail = extractPartialEscapeTail (pendingTail @ chunk)
      in if length tail > MAX_PARTIAL_ESCAPE_TAIL_LENGTH then [] else tail)"

subsection \<open>The scan and where it starts\<close>

lemma scan_append: "scan_from i (a @ b) r = scan_from (i + length a) b (scan_from i a r)"
  by (induction a arbitrary: i r) simp_all

text \<open>
  Two scans at different offsets agree: they are in the same state, and their starts differ by the offset
  where a start matters.  \<open>k\<close> is how far the first scan is ahead.
\<close>

definition shifted :: "nat \<Rightarrow> scan_state \<times> nat \<Rightarrow> scan_state \<times> nat \<Rightarrow> bool" where
  "shifted k r r' \<longleftrightarrow> fst r = fst r' \<and> (fst r \<noteq> Ground \<longrightarrow> snd r = snd r' + k)"

lemma scan_unit_shifted:
  assumes "shifted k r r'" and "fst r \<in> {OscEsc, StringEsc} \<longrightarrow> 0 < i"
  shows "shifted k (scan_unit (i + k) c r) (scan_unit i c r')"
  using assms by (cases r; cases r'; cases "fst r") (auto simp: shifted_def scan_unit_def)

text \<open>After an escape inside a string at least one unit has been read.\<close>

lemma scan_unit_started: "fst (scan_unit i c r) \<in> {OscEsc, StringEsc} \<longrightarrow> 0 < Suc i"
  by simp

lemma scan_shifted:
  assumes "shifted k r r'" and "fst r \<in> {OscEsc, StringEsc} \<longrightarrow> 0 < i"
  shows "shifted k (scan_from (i + k) s r) (scan_from i s r')"
  using assms
proof (induction s arbitrary: i r r')
  case (Cons c s)
  have "shifted k (scan_unit (i + k) c r) (scan_unit i c r')" using Cons.prems by (rule scan_unit_shifted)
  from Cons.IH [OF this, of "i + 1"] show ?case by simp
qed simp

text \<open>An escape is never read twice: the pairs inside a string after which the tail is not what a scan of it sees.\<close>

definition plain_pair :: "16 word \<Rightarrow> 16 word \<Rightarrow> bool" where
  "plain_pair a b \<longleftrightarrow> \<not> (a = ESC \<and> (b = ESC \<or> b = CAN \<or> b = SUB))"

text \<open>Scanning the pending sequence by itself leads back to the state the whole scan is in.\<close>

definition rescans :: "jsstr \<Rightarrow> scan_state \<times> nat \<Rightarrow> bool" where
  "rescans a r \<longleftrightarrow>
     (fst r \<noteq> Ground \<longrightarrow> snd r < length a \<and> scan_from 0 (drop (snd r) a) (Ground, 0) = (fst r, 0)) \<and>
     (fst r \<in> {OscEsc, StringEsc} \<longrightarrow> a \<noteq> [] \<and> last a = ESC \<and> snd r + 2 \<le> length a)"

lemma scan_unit_keeps_start:
  assumes "snd (scan_unit i c (q, n)) = n" and "q \<notin> {OscEsc, StringEsc}" and "n < i"
  shows "scan_unit j c (q, 0) = (fst (scan_unit i c (q, n)), 0) \<or> fst (scan_unit i c (q, n)) = Ground"
  using assms by (cases q) (auto simp: scan_unit_def split: if_splits)

lemma stateAfterEscByte_simps [simp]: "stateAfterEscByte c \<noteq> OscEsc" "stateAfterEscByte c \<noteq> StringEsc"
  by (simp_all add: stateAfterEscByte_def)

lemma scan_escape: "scan_from 0 [ESC] (Ground, 0) = (Esc, 0)"
  by (simp add: scan_unit_def)

lemma scan_escape_pair:
  "c \<noteq> ESC \<Longrightarrow> c \<noteq> CAN \<Longrightarrow> c \<noteq> SUB \<Longrightarrow> scan_from 0 [ESC, c] (Ground, 0) = (stateAfterEscByte c, 0)"
  by (simp add: scan_unit_def)

lemma rescans_step:
  assumes "rescans a (q, n)" and "a \<noteq> [] \<longrightarrow> plain_pair (last a) c"
  shows "rescans (a @ [c]) (scan_unit (length a) c (q, n))"
proof -
  let ?r = "scan_unit (length a) c (q, n)"
  have keep: "rescans (a @ [c]) ?r" if k: "snd ?r = n" "q \<noteq> Ground" "q \<notin> {OscEsc, StringEsc}"
  proof -
    from assms(1) k have n: "n < length a" and s: "scan_from 0 (drop n a) (Ground, 0) = (q, 0)" by (auto simp: rescans_def)
    have "scan_from 0 (drop n (a @ [c])) (Ground, 0) = scan_unit (length a - n) c (q, 0)"
      using n s by (simp add: scan_append)
    moreover have "scan_unit (length a - n) c (q, 0) = (fst ?r, 0) \<or> fst ?r = Ground"
      using scan_unit_keeps_start [OF k(1,3) n] .
    moreover have "fst ?r \<in> {OscEsc, StringEsc} \<longrightarrow> c = ESC"
      using k(2,3) by (cases q) (auto simp: scan_unit_def split: if_splits)
    ultimately show ?thesis using k(1) n by (auto simp: rescans_def)
  qed
  have fresh: "rescans (a @ [c]) (Esc, length a)" if "c = ESC"
    using that scan_escape by (simp add: rescans_def)
  have restart: "rescans (a @ [c]) (stateAfterEscByte c, length a - 1)" if "q \<in> {OscEsc, StringEsc}"
  proof -
    from assms(1) that obtain b where a: "a = b @ [ESC]" by (auto simp: rescans_def) (metis append_butlast_last_id)+
    then have "c \<noteq> ESC" "c \<noteq> CAN" "c \<noteq> SUB" using assms(2) by (auto simp: plain_pair_def)
    then show ?thesis using a scan_escape_pair by (simp add: rescans_def)
  qed
  show ?thesis
  proof (cases "q = Ground")
    case True
    then show ?thesis using fresh by (cases "c = ESC") (auto simp: scan_unit_def rescans_def)
  next
    case False
    show ?thesis
    proof (cases "q \<in> {OscEsc, StringEsc}")
      case True
      have "c \<noteq> ESC" using assms True by (auto simp: rescans_def plain_pair_def)
      then show ?thesis
        using restart [OF True] True by (auto simp: scan_unit_def rescans_def [of _ "(Ground, _)"])
    next
      case nested: False
      have "?r = (Esc, length a) \<and> c = ESC \<or> snd ?r = n"
        using False nested by (cases q) (auto simp: scan_unit_def split: if_splits)
      then show ?thesis using keep [OF _ False nested] fresh by auto
    qed
  qed
qed

lemma rescans_scan:
  assumes "successively plain_pair a"
  shows "rescans a (scan_from 0 a (Ground, 0))"
  using assms
proof (induction a rule: rev_induct)
  case (snoc c a)
  then have "rescans a (scan_from 0 a (Ground, 0))" and "a \<noteq> [] \<longrightarrow> plain_pair (last a) c"
    by (auto simp: successively_append_iff)
  then show ?case
    using rescans_step [of a "fst (scan_from 0 a (Ground, 0))" "snd (scan_from 0 a (Ground, 0))" c] by (simp add: scan_append)
qed (simp add: rescans_def)

lemma extract_append_core:
  assumes "successively plain_pair a"
  shows "extractPartialEscapeTail (a @ b) = extractPartialEscapeTail (extractPartialEscapeTail a @ b)"
proof -
  obtain q n where r: "scan_from 0 a (Ground, 0) = (q, n)" by fastforce
  note re = rescans_scan [OF assms, unfolded r]
  show ?thesis
  proof (cases "q = Ground")
    case True
    have "shifted (length a) (scan_from (0 + length a) b (Ground, n)) (scan_from 0 b (Ground, 0))"
      by (rule scan_shifted) (simp_all add: shifted_def)
    then show ?thesis using True r
      by (simp add: extractPartialEscapeTail_def scan_append shifted_def case_prod_unfold)
  next
    case False
    from re False have n: "n < length a" and s: "scan_from 0 (drop n a) (Ground, 0) = (q, 0)" by (auto simp: rescans_def)
    have "shifted n (scan_from (length (drop n a) + n) b (q, n)) (scan_from (length (drop n a)) b (q, 0))"
      by (rule scan_shifted) (use n in \<open>auto simp: shifted_def\<close>)
    moreover have "snd (scan_from (length (drop n a) + n) b (q, n)) = snd (scan_from (length (drop n a)) b (q, 0)) + n \<or>
        fst (scan_from (length (drop n a)) b (q, 0)) = Ground"
      using calculation by (auto simp: shifted_def)
    moreover have "drop (m + n) (a @ b) = drop m (drop n a @ b)" for m using n by (simp add: add.commute)
    ultimately show ?thesis using False r s n
      by (auto simp: extractPartialEscapeTail_def scan_append shifted_def case_prod_unfold)
  qed
qed

subsection \<open>The fold over chunks\<close>

lemma successively_prefix: "successively P (a @ b) \<Longrightarrow> successively P a"
  by (simp add: successively_append_iff)

lemma advance_within:
  assumes "successively plain_pair a" and "length (extractPartialEscapeTail (a @ c)) \<le> MAX_PARTIAL_ESCAPE_TAIL_LENGTH"
  shows "advancePartialEscapeTail (extractPartialEscapeTail a) c = extractPartialEscapeTail (a @ c)"
  using assms extract_append_core [OF assms(1), of c] by (simp add: advancePartialEscapeTail_def Let_def)

text \<open>
  Carrying the tail from chunk to chunk is the same as scanning the whole stream.  However a terminal stream
  is cut, the tail that the fold carries is the incomplete sequence at the end of all of it, as long as no tail
  passes the cap on the way and no escape is followed at once by another escape, CAN or SUB.
\<close>

theorem escape_tail_folds:
  assumes "successively plain_pair (concat chunks)"
    and "\<forall>n \<le> length chunks. length (extractPartialEscapeTail (concat (take n chunks))) \<le> MAX_PARTIAL_ESCAPE_TAIL_LENGTH"
  shows "foldl advancePartialEscapeTail [] chunks = extractPartialEscapeTail (concat chunks)"
  using assms
proof (induction chunks rule: rev_induct)
  case Nil
  then show ?case by (simp add: extractPartialEscapeTail_def)
next
  case (snoc c chunks)
  have "\<forall>n \<le> length chunks. length (extractPartialEscapeTail (concat (take n chunks))) \<le> MAX_PARTIAL_ESCAPE_TAIL_LENGTH"
  proof (intro allI impI)
    fix n assume "n \<le> length chunks"
    then show "length (extractPartialEscapeTail (concat (take n chunks))) \<le> MAX_PARTIAL_ESCAPE_TAIL_LENGTH"
      using snoc.prems(2) [rule_format, of n] by simp
  qed
  moreover have p: "successively plain_pair (concat chunks)" using snoc.prems(1) successively_prefix [of plain_pair "concat chunks" c] by simp
  ultimately have "foldl advancePartialEscapeTail [] chunks = extractPartialEscapeTail (concat chunks)" by (rule snoc.IH [rotated])
  moreover have "length (extractPartialEscapeTail (concat chunks @ c)) \<le> MAX_PARTIAL_ESCAPE_TAIL_LENGTH"
    using snoc.prems(2) [rule_format, of "Suc (length chunks)"] by simp
  ultimately show ?case using advance_within [OF p] by simp
qed

lemma short_stream:
  "length (concat cs) \<le> MAX_PARTIAL_ESCAPE_TAIL_LENGTH \<Longrightarrow>
   length (extractPartialEscapeTail (concat (take n cs))) \<le> MAX_PARTIAL_ESCAPE_TAIL_LENGTH"
proof -
  assume a: "length (concat cs) \<le> MAX_PARTIAL_ESCAPE_TAIL_LENGTH"
  have "length (extractPartialEscapeTail s) \<le> length s" for s
    by (simp add: extractPartialEscapeTail_def case_prod_unfold)
  also have "length (concat (take n cs)) \<le> length (concat cs)"
    by (metis append_take_drop_id concat_append length_append le_add1)
  finally show ?thesis using a by simp
qed

lemma escape_tail_folds_witness:
  "foldl advancePartialEscapeTail [] [[104, 0x1B], [0x5B, 0x33, 0x31], [0x6D, 0x1B, 0x5D, 0x30], [0x3B, 0x78]] = [0x1B, 0x5D, 0x30, 0x3B, 0x78]"
proof -
  let ?cs = "[[104, 0x1B], [0x5B, 0x33, 0x31], [0x6D, 0x1B, 0x5D, 0x30], [0x3B, 0x78]] :: 16 word list list"
  have "successively plain_pair (concat ?cs)" by code_simp
  moreover have "\<forall>n \<le> length ?cs. length (extractPartialEscapeTail (concat (take n ?cs))) \<le> MAX_PARTIAL_ESCAPE_TAIL_LENGTH"
    by (intro allI impI short_stream) (simp add: MAX_PARTIAL_ESCAPE_TAIL_LENGTH_def)
  moreover have "extractPartialEscapeTail (concat ?cs) = [0x1B, 0x5D, 0x30, 0x3B, 0x78]" by code_simp
  ultimately show ?thesis using escape_tail_folds [of ?cs] by simp
qed

text \<open>
  Without the condition on escapes it fails: an escape inside an operating system command that CAN follows
  leaves a tail, where the parser of the terminal is at rest, and a scan of that tail finds nothing.
\<close>

lemma cancelled_escape_leaves_a_tail:
  "extractPartialEscapeTail [0x1B, 0x5D, 0x1B, 0x18] = [0x1B, 0x18]" "extractPartialEscapeTail [0x1B, 0x18] = []"
  by code_simp+

lemma fold_law_fails:
  "extractPartialEscapeTail ([0x1B, 0x5D, 0x1B, 0x18] @ [0x5B]) = [0x1B, 0x18, 0x5B]"
  "extractPartialEscapeTail (extractPartialEscapeTail [0x1B, 0x5D, 0x1B, 0x18] @ [0x5B]) = []"
  by code_simp+

end
