(* ===== verification/Bell_Detector.thy ===== *)
theory Bell_Detector
  imports Escape_Tail
begin

text \<open>
  The bell detector, \<open>src/shared/terminal-bell-detector.ts\<close>: a bell counts unless it ends an operating system
  command.  The three flags of the closure are a record; the answer for a chunk is returned at the first bell.
\<close>

record bell =
  bl_pendingEscape :: bool
  bl_inOsc :: bool
  bl_pendingOscEscape :: bool

definition createBellDetector :: bell where
  "createBellDetector = \<lparr>bl_pendingEscape = False, bl_inOsc = False, bl_pendingOscEscape = False\<rparr>"

definition bell_reset :: "bell \<Rightarrow> bell" where
  "bell_reset st = st\<lparr>bl_pendingEscape := False, bl_inOsc := False, bl_pendingOscEscape := False\<rparr>"

text \<open>One turn of the loop; the flag is a return with a bell.\<close>

definition bell_unit :: "16 word \<Rightarrow> bell \<Rightarrow> bell \<times> bool" where
  "bell_unit c st =
     (if bl_inOsc st then
        if c = CAN \<or> c = SUB then (st\<lparr>bl_inOsc := False, bl_pendingOscEscape := False\<rparr>, False)
        else if bl_pendingOscEscape st then
          (let st1 = st\<lparr>bl_pendingOscEscape := (c = ESC)\<rparr>
           in (if c = 0x5C then st1\<lparr>bl_inOsc := False, bl_pendingOscEscape := False\<rparr> else st1, False))
        else if c = BEL then (st\<lparr>bl_inOsc := False\<rparr>, False)
        else (st\<lparr>bl_pendingOscEscape := (c = ESC)\<rparr>, False)
      else if bl_pendingEscape st then
        if c = CAN \<or> c = SUB then (st\<lparr>bl_pendingEscape := False\<rparr>, False)
        else let st1 = st\<lparr>bl_pendingEscape := False\<rparr>
             in if c = 0x5D then (st1\<lparr>bl_inOsc := True, bl_pendingOscEscape := False\<rparr>, False)
                else if c = ESC then (st1\<lparr>bl_pendingEscape := True\<rparr>, False)
                else (st1, c = BEL)
      else if c = ESC then (st\<lparr>bl_pendingEscape := True\<rparr>, False)
      else (st, c = BEL))"

fun bell_loop :: "jsstr \<Rightarrow> bell \<Rightarrow> bell \<times> bool" where
  "bell_loop [] st = (st, False)"
| "bell_loop (c # cs) st = (case bell_unit c st of (st1, b) \<Rightarrow> if b then (st1, True) else bell_loop cs st1)"

fun includes_pair :: "'a \<Rightarrow> 'a \<Rightarrow> 'a list \<Rightarrow> bool" where
  "includes_pair a b (x # y # r) \<longleftrightarrow> x = a \<and> y = b \<or> includes_pair a b (y # r)"
| "includes_pair a b _ \<longleftrightarrow> False"

definition chunkContainsBell :: "jsstr \<Rightarrow> bool option \<Rightarrow> bell \<Rightarrow> bell \<times> bool" where
  "chunkContainsBell data containsOscIntroducer st =
     (if \<not> bl_inOsc st \<and> \<not> bl_pendingEscape st \<and> BEL \<notin> set data \<and>
         \<not> (case containsOscIntroducer of Some b \<Rightarrow> b | None \<Rightarrow> includes_pair ESC 0x5D data)
      then (st\<lparr>bl_pendingEscape := (data \<noteq> [] \<and> last data = ESC)\<rparr>, False)
      else bell_loop data st)"

subsection \<open>The specification\<close>

text \<open>A terminal at rest, after an escape, inside an operating system command, and after an escape inside one.\<close>

datatype bell_mode = Rest | AfterEscape | Command | CommandEscape

definition bell_next :: "bell_mode \<Rightarrow> 16 word \<Rightarrow> bell_mode" where
  "bell_next m c =
     (case m of
        Rest \<Rightarrow> if c = ESC then AfterEscape else Rest
      | AfterEscape \<Rightarrow> if c = 0x5D then Command else if c = ESC then AfterEscape else Rest
      | Command \<Rightarrow> if c \<in> {CAN, SUB, BEL} then Rest else if c = ESC then CommandEscape else Command
      | CommandEscape \<Rightarrow> if c \<in> {CAN, SUB, 0x5C} then Rest else if c = ESC then CommandEscape else Command)"

text \<open>A bell rings outside a command.\<close>

fun rings :: "bell_mode \<Rightarrow> jsstr \<Rightarrow> bool" where
  "rings m [] \<longleftrightarrow> False"
| "rings m (c # cs) \<longleftrightarrow> c = BEL \<and> m \<in> {Rest, AfterEscape} \<or> rings (bell_next m c) cs"

definition bell_mode_of :: "bell \<Rightarrow> bell_mode" where
  "bell_mode_of st =
     (if bl_inOsc st then if bl_pendingOscEscape st then CommandEscape else Command
      else if bl_pendingEscape st then AfterEscape else Rest)"

definition bell_ok :: "bell \<Rightarrow> bool" where
  "bell_ok st \<longleftrightarrow> (bl_inOsc st \<longrightarrow> \<not> bl_pendingEscape st) \<and> (bl_pendingOscEscape st \<longrightarrow> bl_inOsc st)"

lemma bell_unit_spec:
  assumes "bell_ok st"
  shows "bell_ok (fst (bell_unit c st))" and "bell_mode_of (fst (bell_unit c st)) = bell_next (bell_mode_of st) c"
    and "snd (bell_unit c st) \<longleftrightarrow> c = BEL \<and> bell_mode_of st \<in> {Rest, AfterEscape}"
  using assms
  by (auto simp: bell_unit_def bell_ok_def bell_mode_of_def bell_next_def Let_def ESC_def BEL_def CAN_def SUB_def)

lemma bell_loop_spec:
  assumes "bell_ok st"
  shows "bell_ok (fst (bell_loop cs st))" and "snd (bell_loop cs st) \<longleftrightarrow> rings (bell_mode_of st) cs"
    and "\<not> snd (bell_loop cs st) \<Longrightarrow> bell_mode_of (fst (bell_loop cs st)) = foldl bell_next (bell_mode_of st) cs"
proof -
  have "bell_ok (fst (bell_loop cs st)) \<and> (snd (bell_loop cs st) \<longleftrightarrow> rings (bell_mode_of st) cs) \<and>
    (\<not> snd (bell_loop cs st) \<longrightarrow> bell_mode_of (fst (bell_loop cs st)) = foldl bell_next (bell_mode_of st) cs)"
    using assms
  proof (induction cs arbitrary: st)
    case (Cons c cs)
    show ?case using Cons.IH [OF bell_unit_spec(1) [OF Cons.prems, of c]] bell_unit_spec [OF Cons.prems, of c]
      by (auto simp: case_prod_unfold)
  qed simp
  then show "bell_ok (fst (bell_loop cs st))" and "snd (bell_loop cs st) \<longleftrightarrow> rings (bell_mode_of st) cs"
    and "\<not> snd (bell_loop cs st) \<Longrightarrow> bell_mode_of (fst (bell_loop cs st)) = foldl bell_next (bell_mode_of st) cs"
    by blast+
qed

text \<open>The shortcut: without a bell and without a command nothing rings, and the mode is known from the last unit.\<close>

lemma quiet_chunk:
  assumes "BEL \<notin> set cs" and "\<not> includes_pair ESC 0x5D cs" and "m \<in> {Rest, AfterEscape}" and "m = AfterEscape \<longrightarrow> cs \<noteq> [] \<longrightarrow> hd cs \<noteq> 0x5D"
  shows "\<not> rings m cs \<and> foldl bell_next m cs = (if cs = [] then m else if last cs = ESC then AfterEscape else Rest)"
  using assms
proof (induction cs arbitrary: m)
  case (Cons c cs)
  have "bell_next m c = (if c = ESC then AfterEscape else Rest)" and "c \<noteq> BEL"
    using Cons.prems by (auto simp: bell_next_def)
  moreover have "\<not> includes_pair ESC 0x5D cs" "c = ESC \<longrightarrow> cs \<noteq> [] \<longrightarrow> hd cs \<noteq> 0x5D"
    using Cons.prems(2) by (cases cs; simp)+
  ultimately show ?case using Cons.IH [of "bell_next m c"] Cons.prems(1) by auto
qed simp

lemma chunk_spec:
  assumes "bell_ok st" and "hint = None \<or> hint = Some (includes_pair ESC 0x5D data)"
  shows "bell_ok (fst (chunkContainsBell data hint st))"
    and "snd (chunkContainsBell data hint st) \<longleftrightarrow> rings (bell_mode_of st) data"
    and "\<not> snd (chunkContainsBell data hint st) \<Longrightarrow>
      bell_mode_of (fst (chunkContainsBell data hint st)) = foldl bell_next (bell_mode_of st) data"
proof -
  have h: "(case hint of Some b \<Rightarrow> b | None \<Rightarrow> includes_pair ESC 0x5D data) = includes_pair ESC 0x5D data"
    using assms(2) by auto
  have "bell_ok (fst (chunkContainsBell data hint st)) \<and>
    (snd (chunkContainsBell data hint st) \<longleftrightarrow> rings (bell_mode_of st) data) \<and>
    (\<not> snd (chunkContainsBell data hint st) \<longrightarrow>
      bell_mode_of (fst (chunkContainsBell data hint st)) = foldl bell_next (bell_mode_of st) data)"
  proof (cases "\<not> bl_inOsc st \<and> \<not> bl_pendingEscape st \<and> BEL \<notin> set data \<and> \<not> includes_pair ESC 0x5D data")
    case True
    then show ?thesis using quiet_chunk [of data "bell_mode_of st"] assms(1)
      by (simp add: chunkContainsBell_def h bell_ok_def bell_mode_of_def)
  next
    case False
    then have "chunkContainsBell data hint st = bell_loop data st" by (auto simp: chunkContainsBell_def h)
    then show ?thesis using bell_loop_spec [OF assms(1), of data] by simp
  qed
  then show "bell_ok (fst (chunkContainsBell data hint st))"
    and "snd (chunkContainsBell data hint st) \<longleftrightarrow> rings (bell_mode_of st) data"
    and "\<not> snd (chunkContainsBell data hint st) \<Longrightarrow>
      bell_mode_of (fst (chunkContainsBell data hint st)) = foldl bell_next (bell_mode_of st) data"
    by blast+
qed

text \<open>Chunks fed in order, up to the first that rings.\<close>

fun first_bell :: "jsstr list \<Rightarrow> bell \<Rightarrow> nat option" where
  "first_bell [] st = None"
| "first_bell (c # cs) st =
     (case chunkContainsBell c None st of (st1, b) \<Rightarrow> if b then Some 0 else map_option Suc (first_bell cs st1))"

lemma rings_append: "rings m (a @ b) \<longleftrightarrow> rings m a \<or> rings (foldl bell_next m a) b"
  by (induction a arbitrary: m) auto

lemma first_bell_spec:
  assumes "bell_ok st"
  shows "case first_bell cs st of
      None \<Rightarrow> \<not> rings (bell_mode_of st) (concat cs)
    | Some n \<Rightarrow> n < length cs \<and> \<not> rings (bell_mode_of st) (concat (take n cs)) \<and> rings (bell_mode_of st) (concat (take (Suc n) cs))"
  using assms
proof (induction cs arbitrary: st)
  case (Cons c cs)
  note spec = chunk_spec [OF Cons.prems, of None c]
  show ?case
  proof (cases "snd (chunkContainsBell c None st)")
    case True
    then show ?thesis using spec by (simp add: case_prod_unfold)
  next
    case False
    then show ?thesis using Cons.IH [OF spec(1)] spec
      by (auto simp: case_prod_unfold rings_append split: option.splits)
  qed
qed simp

text \<open>
  The first bell is found whatever the chunks.  Fed chunk by chunk, with its shortcut for quiet chunks, the
  detector answers no for the chunks before the first bell outside a command in the whole stream and yes for the
  chunk that holds it; a bell that ends an operating system command does not count.
\<close>

theorem first_bell_found:
  "case first_bell cs createBellDetector of
     None \<Rightarrow> \<not> rings Rest (concat cs)
   | Some n \<Rightarrow> n < length cs \<and> \<not> rings Rest (concat (take n cs)) \<and> rings Rest (concat (take (Suc n) cs))"
proof -
  have ok: "bell_ok createBellDetector" and mode: "bell_mode_of createBellDetector = Rest"
    by (simp_all add: bell_ok_def bell_mode_of_def createBellDetector_def)
  show ?thesis by (rule first_bell_spec [OF ok, of cs, unfolded mode])
qed

text \<open>
  After a chunk that rings the rest of it is not read: a title that starts behind the bell is not seen, and the
  bell that ends it in the next chunk is taken for one of the terminal.
\<close>

lemma rest_of_ringing_chunk_is_lost:
  "let (st, b) = chunkContainsBell [0x07, 0x1B, 0x5D, 0x30] None createBellDetector
   in b \<and> snd (chunkContainsBell [0x78, 0x07] None st)"
  "rings (foldl bell_next Rest [0x07, 0x1B, 0x5D, 0x30]) [0x78, 0x07] = False"
  by code_simp+

end
