(* ===== verification/Ws_Queue.thy ===== *)
theory Ws_Queue
  imports Contracts
begin

text \<open>
  The outbound queue of a web socket, \<open>src/shared/ws-outbound-backpressure-queue.ts\<close>: frames go straight to the
  wire while it takes them, wait in order while too much is buffered, and are given up only when the socket goes,
  the owner disposes of the queue, or the backlog passes a hard bound.  The socket is outside: a call reads
  whether it is writable and, before each send, how much it buffers.
\<close>

subsection \<open>State and surroundings\<close>

record 'f ws_options =
  wo_byteLengthOf :: "'f \<Rightarrow> nat"
  wo_softCapBytes :: nat
  wo_maxQueuedBytes :: nat

definition DEFAULT_SOFT_CAP_BYTES :: nat where "DEFAULT_SOFT_CAP_BYTES = 8 * 1024 * 1024"
definition DEFAULT_MAX_QUEUED_BYTES :: nat where "DEFAULT_MAX_QUEUED_BYTES = 64 * 1024 * 1024"

definition ws_default_options :: "('f \<Rightarrow> nat) \<Rightarrow> nat option \<Rightarrow> nat option \<Rightarrow> 'f ws_options" where
  "ws_default_options len soft hard =
     \<lparr>wo_byteLengthOf = len,
      wo_softCapBytes = (case soft of None \<Rightarrow> DEFAULT_SOFT_CAP_BYTES | Some s \<Rightarrow> s),
      wo_maxQueuedBytes = (case hard of None \<Rightarrow> DEFAULT_MAX_QUEUED_BYTES | Some m \<Rightarrow> m)\<rparr>"

record 'f ws_queue =
  wq_queue :: "('f \<times> nat) list"
  wq_head :: nat
  wq_queued :: int
  wq_timer :: bool
  wq_overflowed :: bool
  wq_disposed :: bool

text \<open>
  What a call reads of the socket: \<open>ws_writable\<close>, and \<open>ws_buffered k\<close>, the amount it reports after the \<open>k\<close> sends
  of this call, \<open>None\<close> when that is not a finite number.
\<close>

record socket =
  ws_writable :: bool
  ws_buffered :: "nat \<Rightarrow> nat option"

datatype 'f ws_out = WsSend 'f | WsOverflow

definition bufferedAmount :: "socket \<Rightarrow> nat \<Rightarrow> nat" where
  "bufferedAmount s k = (case ws_buffered s k of None \<Rightarrow> 0 | Some n \<Rightarrow> n)"

definition createWsOutboundBackpressureQueue :: "'f ws_queue" where
  "createWsOutboundBackpressureQueue =
     \<lparr>wq_queue = [], wq_head = 0, wq_queued = 0, wq_timer = False, wq_overflowed = False, wq_disposed = False\<rparr>"

subsection \<open>Operations\<close>

definition stopTimer :: "'f ws_queue \<Rightarrow> 'f ws_queue" where
  "stopTimer st = st\<lparr>wq_timer := False\<rparr>"

definition dropBacklog :: "'f ws_queue \<Rightarrow> 'f ws_queue" where
  "dropBacklog st = stopTimer (st\<lparr>wq_queue := [], wq_head := 0, wq_queued := 0\<rparr>)"

text \<open>The loop of \<open>drain\<close>; \<open>k\<close> counts its sends.\<close>

function drain_loop :: "'f ws_options \<Rightarrow> socket \<Rightarrow> nat \<Rightarrow> 'f ws_queue \<Rightarrow> 'f ws_queue \<times> 'f ws_out list" where
  "drain_loop opts s k st =
     (if wq_head st < length (wq_queue st) \<and> bufferedAmount s k \<le> wo_softCapBytes opts
      then let entry = wq_queue st ! wq_head st
           in case drain_loop opts s (k + 1) (st\<lparr>wq_head := wq_head st + 1, wq_queued := wq_queued st - int (snd entry)\<rparr>) of
                (st', out) \<Rightarrow> (st', WsSend (fst entry) # out)
      else (st, []))"
  by pat_completeness auto
termination
  by (relation "measure (\<lambda>(opts, s, k, st). length (wq_queue st) - wq_head st)") auto

declare drain_loop.simps [simp del]

definition ws_drain :: "'f ws_options \<Rightarrow> socket \<Rightarrow> 'f ws_queue \<Rightarrow> 'f ws_queue \<times> 'f ws_out list" where
  "ws_drain opts s st =
     (if wq_disposed st \<or> wq_overflowed st then (st, [])
      else if \<not> ws_writable s then (dropBacklog st, [])
      else case drain_loop opts s 0 st of
             (st1, out) \<Rightarrow>
               (if wq_head st1 < length (wq_queue st1) then st1\<lparr>wq_timer := True\<rparr>
                else stopTimer (st1\<lparr>wq_queue := [], wq_head := 0\<rparr>), out))"

definition ws_enqueue :: "'f ws_options \<Rightarrow> socket \<Rightarrow> 'f \<Rightarrow> 'f ws_queue \<Rightarrow> 'f ws_queue \<times> 'f ws_out list" where
  "ws_enqueue opts s frame st =
     (if wq_disposed st \<or> wq_overflowed st then (st, [])
      else if wq_head st = length (wq_queue st) \<and> ws_writable s \<and> bufferedAmount s 0 \<le> wo_softCapBytes opts
      then (st, [WsSend frame])
      else let bytes = wo_byteLengthOf opts frame;
               st1 = st\<lparr>wq_queue := wq_queue st @ [(frame, bytes)], wq_queued := wq_queued st + int bytes\<rparr>
           in if wq_queued st1 > int (wo_maxQueuedBytes opts)
              then (dropBacklog (st1\<lparr>wq_overflowed := True\<rparr>), [WsOverflow])
              else (if \<not> wq_timer st1 then st1\<lparr>wq_timer := True\<rparr> else st1, []))"

definition ws_dispose :: "'f ws_queue \<Rightarrow> 'f ws_queue" where
  "ws_dispose st = dropBacklog (st\<lparr>wq_disposed := True\<rparr>)"

definition ws_queuedBytes :: "'f ws_queue \<Rightarrow> int" where
  "ws_queuedBytes st = wq_queued st"

subsection \<open>The machine\<close>

datatype 'f ws_event = WsEnqueue socket 'f | WsTimer socket | WsDispose

fun ws_step :: "'f ws_options \<Rightarrow> 'f ws_event \<Rightarrow> 'f ws_queue \<Rightarrow> 'f ws_queue \<times> 'f ws_out list" where
  "ws_step opts (WsEnqueue s f) st = ws_enqueue opts s f st"
| "ws_step opts (WsTimer s) st = (if wq_timer st then ws_drain opts s st else (st, []))"
| "ws_step opts WsDispose st = (ws_dispose st, [])"

fun ws_run :: "'f ws_options \<Rightarrow> 'f ws_event list \<Rightarrow> 'f ws_queue \<Rightarrow> 'f ws_queue \<times> 'f ws_out list" where
  "ws_run opts [] st = (st, [])"
| "ws_run opts (e # es) st =
     (case ws_step opts e st of (st1, o1) \<Rightarrow> case ws_run opts es st1 of (st2, o2) \<Rightarrow> (st2, o1 @ o2))"

subsection \<open>Invariant\<close>

definition parked :: "'f ws_queue \<Rightarrow> ('f \<times> nat) list" where
  "parked st = drop (wq_head st) (wq_queue st)"

definition ws_sent :: "'f ws_out list \<Rightarrow> 'f list" where
  "ws_sent out = concat (map (\<lambda>w. case w of WsSend f \<Rightarrow> [f] | WsOverflow \<Rightarrow> []) out)"

lemma ws_sent_simps [simp]:
  "ws_sent [] = []" "ws_sent (WsSend f # out) = f # ws_sent out" "ws_sent (WsOverflow # out) = ws_sent out"
  "ws_sent (a @ b) = ws_sent a @ ws_sent b"
  by (simp_all add: ws_sent_def)

definition ws_ok :: "'f ws_options \<Rightarrow> 'f ws_queue \<Rightarrow> bool" where
  "ws_ok opts st \<longleftrightarrow> wq_head st \<le> length (wq_queue st) \<and> wq_queued st = int (sum_list (map snd (parked st))) \<and>
     wq_queued st \<le> int (wo_maxQueuedBytes opts) \<and> (parked st \<noteq> [] \<longrightarrow> wq_timer st) \<and>
     (wq_disposed st \<or> wq_overflowed st \<longrightarrow> parked st = [])"

lemma parked_step:
  assumes "wq_head st < length (wq_queue st)"
  shows "parked st = wq_queue st ! wq_head st # drop (wq_head st + 1) (wq_queue st)"
  using assms Cons_nth_drop_Suc [of "wq_head st" "wq_queue st"] by (simp add: parked_def)

text \<open>What the loop does: a prefix of what is parked is sent, and the count follows.\<close>

definition drained :: "'f ws_queue \<Rightarrow> 'f ws_queue \<times> 'f ws_out list \<Rightarrow> bool" where
  "drained st r \<longleftrightarrow> (case r of (st', out) \<Rightarrow>
     wq_head st' \<le> length (wq_queue st') \<and> wq_queued st' = int (sum_list (map snd (parked st'))) \<and> wq_queued st' \<le> wq_queued st \<and>
     ws_sent out @ map fst (parked st') = map fst (parked st) \<and> WsOverflow \<notin> set out \<and>
     wq_timer st' = wq_timer st \<and> wq_disposed st' = wq_disposed st \<and> wq_overflowed st' = wq_overflowed st)"

lemma drain_loop_spec:
  "wq_head st \<le> length (wq_queue st) \<Longrightarrow> wq_queued st = int (sum_list (map snd (parked st))) \<Longrightarrow>
   drained st (drain_loop opts s k st)"
proof (induction opts s k st rule: drain_loop.induct)
  case (1 opts s k st)
  let ?st1 = "st\<lparr>wq_head := wq_head st + 1, wq_queued := wq_queued st - int (snd (wq_queue st ! wq_head st))\<rparr>"
  show ?case
  proof (cases "wq_head st < length (wq_queue st) \<and> bufferedAmount s k \<le> wo_softCapBytes opts")
    case True
    have p: "parked st = wq_queue st ! wq_head st # parked ?st1" using parked_step [of st] True by (simp add: parked_def)
    have "wq_head ?st1 \<le> length (wq_queue ?st1)" "wq_queued ?st1 = int (sum_list (map snd (parked ?st1)))"
      using True "1.prems" p by simp_all
    from "1.IH" [OF True refl this]
    have "drained ?st1 (drain_loop opts s (k + 1) ?st1)" .
    moreover have "drain_loop opts s k st =
        (fst (drain_loop opts s (k + 1) ?st1), WsSend (fst (wq_queue st ! wq_head st)) # snd (drain_loop opts s (k + 1) ?st1))"
      using True by (subst drain_loop.simps) (simp add: case_prod_unfold Let_def)
    ultimately show ?thesis using p by (auto simp: drained_def case_prod_unfold)
  next
    case False
    have "drain_loop opts s k st = (st, [])" by (subst drain_loop.simps, subst if_not_P [OF False]) (rule refl)
    then show ?thesis using "1.prems" by (simp add: drained_def)
  qed
qed

lemma parked_dropBacklog [simp]: "parked (dropBacklog st) = []"
  by (simp add: parked_def dropBacklog_def stopTimer_def)

lemma dropBacklog_simps [simp]:
  "wq_head (dropBacklog st) = 0" "wq_queue (dropBacklog st) = []" "wq_queued (dropBacklog st) = 0" "wq_timer (dropBacklog st) = False"
  "wq_disposed (dropBacklog st) = wq_disposed st" "wq_overflowed (dropBacklog st) = wq_overflowed st"
  by (simp_all add: dropBacklog_def stopTimer_def)

lemma ws_ok_dropBacklog [simp]: "ws_ok opts (dropBacklog st)"
  by (simp add: ws_ok_def)

lemma ws_drain_spec:
  assumes "ws_ok opts st"
  shows "ws_ok opts (fst (ws_drain opts s st))"
    and "ws_writable s \<Longrightarrow> ws_sent (snd (ws_drain opts s st)) @ map fst (parked (fst (ws_drain opts s st))) = map fst (parked st)"
    and "WsOverflow \<notin> set (snd (ws_drain opts s st))"
    and "wq_disposed (fst (ws_drain opts s st)) = wq_disposed st" "wq_overflowed (fst (ws_drain opts s st)) = wq_overflowed st"
proof -
  obtain st1 out where l: "drain_loop opts s 0 st = (st1, out)" by fastforce
  have d: "drained st (st1, out)" using drain_loop_spec [of st opts s 0] assms l by (simp add: ws_ok_def)
  have "ws_ok opts (fst (ws_drain opts s st)) \<and>
    (ws_writable s \<longrightarrow> ws_sent (snd (ws_drain opts s st)) @ map fst (parked (fst (ws_drain opts s st))) = map fst (parked st)) \<and>
    WsOverflow \<notin> set (snd (ws_drain opts s st)) \<and>
    wq_disposed (fst (ws_drain opts s st)) = wq_disposed st \<and> wq_overflowed (fst (ws_drain opts s st)) = wq_overflowed st"
  proof (cases "wq_disposed st \<or> wq_overflowed st \<or> \<not> ws_writable s")
    case True
    then show ?thesis using assms by (auto simp: ws_drain_def)
  next
    case False
    show ?thesis
    proof (cases "wq_head st1 < length (wq_queue st1)")
      case True
      then show ?thesis using False d l assms by (auto simp: ws_drain_def drained_def ws_ok_def parked_def)
    next
      case nothing: False
      then have "parked st1 = []" using d by (simp add: drained_def parked_def)
      then show ?thesis using False nothing d l by (auto simp: ws_drain_def drained_def ws_ok_def parked_def stopTimer_def)
    qed
  qed
  then show "ws_ok opts (fst (ws_drain opts s st))"
    and "ws_writable s \<Longrightarrow> ws_sent (snd (ws_drain opts s st)) @ map fst (parked (fst (ws_drain opts s st))) = map fst (parked st)"
    and "WsOverflow \<notin> set (snd (ws_drain opts s st))"
    and "wq_disposed (fst (ws_drain opts s st)) = wq_disposed st" "wq_overflowed (fst (ws_drain opts s st)) = wq_overflowed st"
    by blast+
qed

lemma ws_enqueue_ok: "ws_ok opts st \<Longrightarrow> ws_ok opts (fst (ws_enqueue opts s f st))"
  by (auto simp: ws_enqueue_def ws_ok_def Let_def parked_def)

lemma ws_step_ok: "ws_ok opts st \<Longrightarrow> ws_ok opts (fst (ws_step opts e st))"
  by (cases e) (simp_all add: ws_enqueue_ok ws_drain_spec(1) ws_dispose_def)

interpretation ws: event_machine "\<lambda>e st. fst (ws_step opts e st)" "ws_ok opts" for opts
  by unfold_locales (rule ws_step_ok)

lemma ws_run_state: "fst (ws_run opts es st) = run_events (\<lambda>e st. fst (ws_step opts e st)) es st"
  by (induction es arbitrary: st) (simp_all add: case_prod_unfold)

lemma ws_ok_init: "ws_ok opts createWsOutboundBackpressureQueue"
  by (simp add: ws_ok_def createWsOutboundBackpressureQueue_def parked_def)

subsection \<open>Order and loss\<close>

text \<open>The frames handed in, and the moments at which the queue may give frames up.\<close>

fun ws_given :: "'f ws_event \<Rightarrow> 'f list" where
  "ws_given (WsEnqueue s f) = [f]"
| "ws_given _ = []"

fun gives_up :: "'f ws_event \<Rightarrow> bool" where
  "gives_up (WsTimer s) \<longleftrightarrow> \<not> ws_writable s"
| "gives_up WsDispose \<longleftrightarrow> True"
| "gives_up _ \<longleftrightarrow> False"

lemma ws_step_order:
  assumes "ws_ok opts st" and "\<not> gives_up e" and "\<not> wq_disposed st" "\<not> wq_overflowed st"
    and "WsOverflow \<notin> set (snd (ws_step opts e st))"
  shows "ws_sent (snd (ws_step opts e st)) @ map fst (parked (fst (ws_step opts e st))) = map fst (parked st) @ ws_given e"
    and "\<not> wq_disposed (fst (ws_step opts e st))" "\<not> wq_overflowed (fst (ws_step opts e st))"
proof (atomize (full), cases e)
  case (WsEnqueue s f)
  then show "ws_sent (snd (ws_step opts e st)) @ map fst (parked (fst (ws_step opts e st))) = map fst (parked st) @ ws_given e \<and>
    \<not> wq_disposed (fst (ws_step opts e st)) \<and> \<not> wq_overflowed (fst (ws_step opts e st))"
    using assms by (auto simp: ws_enqueue_def Let_def parked_def ws_ok_def split: if_splits)
next
  case (WsTimer s)
  then show "ws_sent (snd (ws_step opts e st)) @ map fst (parked (fst (ws_step opts e st))) = map fst (parked st) @ ws_given e \<and>
    \<not> wq_disposed (fst (ws_step opts e st)) \<and> \<not> wq_overflowed (fst (ws_step opts e st))"
    using assms(2-4) ws_drain_spec(2,4,5) [OF assms(1), of s] by simp
next
  case WsDispose
  then show "ws_sent (snd (ws_step opts e st)) @ map fst (parked (fst (ws_step opts e st))) = map fst (parked st) @ ws_given e \<and>
    \<not> wq_disposed (fst (ws_step opts e st)) \<and> \<not> wq_overflowed (fst (ws_step opts e st))"
    using assms(2) by simp
qed

lemma ws_run_order:
  assumes "ws_ok opts st" and "\<forall>e\<in>set es. \<not> gives_up e" and "\<not> wq_disposed st" "\<not> wq_overflowed st"
    and "WsOverflow \<notin> set (snd (ws_run opts es st))"
  shows "ws_sent (snd (ws_run opts es st)) @ map fst (parked (fst (ws_run opts es st))) = map fst (parked st) @ concat (map ws_given es)"
  using assms
proof (induction es arbitrary: st)
  case (Cons e es)
  let ?st1 = "fst (ws_step opts e st)"
  have o: "WsOverflow \<notin> set (snd (ws_step opts e st))" "WsOverflow \<notin> set (snd (ws_run opts es ?st1))"
    using Cons.prems(5) by (auto simp: case_prod_unfold)
  note step = ws_step_order [OF Cons.prems(1) _ Cons.prems(3,4) o(1)]
  have ih: "ws_sent (snd (ws_run opts es ?st1)) @ map fst (parked (fst (ws_run opts es ?st1))) = map fst (parked ?st1) @ concat (map ws_given es)"
    using Cons.prems(2) step(2,3) by (intro Cons.IH ws_step_ok o(2) Cons.prems(1)) auto
  have "ws_sent (snd (ws_step opts e st)) @ map fst (parked ?st1) = map fst (parked st) @ ws_given e"
    using step(1) Cons.prems(2) by simp
  then show ?case using ih by (simp add: case_prod_unfold)
qed simp

text \<open>
  While the socket stays and the bound holds, no frame is dropped or reordered: what was sent, followed by
  what is parked, is what was handed in.  The bytes parked never pass the hard bound, and frames are parked only
  with the poll timer armed.
\<close>

theorem outbound_frames_in_order:
  "let r = ws_run opts es createWsOutboundBackpressureQueue; st = fst r; out = snd r; waiting = drop (wq_head st) (wq_queue st)
   in ((\<exists>e\<in>set es. gives_up e) \<or> WsOverflow \<in> set out \<or>
      concat (map (\<lambda>w. case w of WsSend f \<Rightarrow> [f] | WsOverflow \<Rightarrow> []) out) @ map fst waiting = concat (map ws_given es)) \<and>
    ws_queuedBytes st = int (sum_list (map snd waiting)) \<and> ws_queuedBytes st \<le> int (wo_maxQueuedBytes opts) \<and>
    (waiting = [] \<or> wq_timer st)"
proof -
  let ?r = "ws_run opts es createWsOutboundBackpressureQueue"
  have ok: "ws_ok opts (fst ?r)" using ws.inv_run [OF ws_ok_init, of opts es] ws_run_state [of opts es] by metis
  show ?thesis
    using ws_run_order [OF ws_ok_init, of es opts] ok
    by (auto simp: createWsOutboundBackpressureQueue_def parked_def ws_sent_def ws_ok_def ws_queuedBytes_def Let_def)
qed

end
