(* ===== verification/Rpc_Pool.thy ===== *)
theory Rpc_Pool
  imports Contracts Utf16
begin

text \<open>
  The pool of queues for calls to remote runtimes, \<open>src/shared/runtime-rpc-call-queue.ts\<close>: per runtime at most so
  many calls run, at most so many of them background refreshes, foreground calls first.  A call is named by a
  number; that its promise has settled is an event, whether the call resolved, rejected or threw at once.
\<close>

subsection \<open>State\<close>

definition DEFAULT_REMOTE_RUNTIME_CALL_CONCURRENCY :: nat where "DEFAULT_REMOTE_RUNTIME_CALL_CONCURRENCY = 8"
definition DEFAULT_REMOTE_RUNTIME_BACKGROUND_CALL_CONCURRENCY :: nat where
  "DEFAULT_REMOTE_RUNTIME_BACKGROUND_CALL_CONCURRENCY = 2"

record queued_call =
  qc_id :: nat
  qc_background :: bool

text \<open>\<open>rq_running\<close> are the calls whose settling will call back into this queue.\<close>

record call_queue =
  rq_active :: nat
  rq_backgroundActive :: nat
  rq_foreground :: "queued_call list"
  rq_foregroundHead :: nat
  rq_background :: "queued_call list"
  rq_backgroundHead :: nat
  rq_running :: "queued_call list"

record call_pool =
  cp_concurrency :: nat
  cp_backgroundConcurrency :: nat
  cp_queues :: "(jsstr \<times> call_queue) list"

definition isBackgroundRuntimeMethod :: "jsstr \<Rightarrow> bool" where
  "isBackgroundRuntimeMethod m \<longleftrightarrow>
     m = js ''hostedReview.forBranch'' \<or> m = js ''github.prForBranch'' \<or> m = js ''github.listWorkItems'' \<or>
     m = js ''github.countWorkItems'' \<or> m = js ''git.status'' \<or> m = js ''git.history'' \<or> m = js ''git.conflictOperation'' \<or>
     m = js ''git.branchCompare'' \<or> m = js ''git.upstreamStatus'' \<or> m = js ''worktree.prefetchCreateBase''"

definition new_call_queue :: call_queue where
  "new_call_queue = \<lparr>rq_active = 0, rq_backgroundActive = 0, rq_foreground = [], rq_foregroundHead = 0,
     rq_background = [], rq_backgroundHead = 0, rq_running = []\<rparr>"

definition new_pool :: "nat option \<Rightarrow> nat option \<Rightarrow> call_pool" where
  "new_pool c b = \<lparr>cp_concurrency = (case c of None \<Rightarrow> DEFAULT_REMOTE_RUNTIME_CALL_CONCURRENCY | Some n \<Rightarrow> n),
     cp_backgroundConcurrency = (case b of None \<Rightarrow> DEFAULT_REMOTE_RUNTIME_BACKGROUND_CALL_CONCURRENCY | Some n \<Rightarrow> n),
     cp_queues = []\<rparr>"

subsection \<open>Taking calls\<close>

definition compactForeground :: "call_queue \<Rightarrow> call_queue" where
  "compactForeground q =
     (if rq_foregroundHead q \<le> 32 \<or> rq_foregroundHead q * 2 < length (rq_foreground q) then q
      else q\<lparr>rq_foreground := drop (rq_foregroundHead q) (rq_foreground q), rq_foregroundHead := 0\<rparr>)"

definition compactBackground :: "call_queue \<Rightarrow> call_queue" where
  "compactBackground q =
     (if rq_backgroundHead q \<le> 32 \<or> rq_backgroundHead q * 2 < length (rq_background q) then q
      else q\<lparr>rq_background := drop (rq_backgroundHead q) (rq_background q), rq_backgroundHead := 0\<rparr>)"

definition takeForeground :: "call_queue \<Rightarrow> call_queue \<times> queued_call option" where
  "takeForeground q =
     (if rq_foregroundHead q \<ge> length (rq_foreground q) then (q, None)
      else let call = rq_foreground q ! rq_foregroundHead q
           in (compactForeground (q\<lparr>rq_foregroundHead := rq_foregroundHead q + 1\<rparr>), Some call))"

definition takeBackground :: "call_queue \<Rightarrow> call_queue \<times> queued_call option" where
  "takeBackground q =
     (if rq_backgroundHead q \<ge> length (rq_background q) then (q, None)
      else let call = rq_background q ! rq_backgroundHead q
           in (compactBackground (q\<lparr>rq_backgroundHead := rq_backgroundHead q + 1\<rparr>), Some call))"

definition rpc_isEmpty :: "call_queue \<Rightarrow> bool" where
  "rpc_isEmpty q \<longleftrightarrow> rq_foregroundHead q \<ge> length (rq_foreground q) \<and> rq_backgroundHead q \<ge> length (rq_background q)"

text \<open>The calls that wait, and how the taking operations see them.\<close>

definition fg_waiting :: "call_queue \<Rightarrow> queued_call list" where
  "fg_waiting q = drop (rq_foregroundHead q) (rq_foreground q)"

definition bg_waiting :: "call_queue \<Rightarrow> queued_call list" where
  "bg_waiting q = drop (rq_backgroundHead q) (rq_background q)"

definition heads_ok :: "call_queue \<Rightarrow> bool" where
  "heads_ok q \<longleftrightarrow> rq_foregroundHead q \<le> length (rq_foreground q) \<and> rq_backgroundHead q \<le> length (rq_background q)"

lemma takeForeground_None: "snd (takeForeground q) = None \<longleftrightarrow> fg_waiting q = []"
  by (simp add: takeForeground_def fg_waiting_def Let_def)

lemma takeForeground_Nil: "fg_waiting q = [] \<Longrightarrow> takeForeground q = (q, None)"
  by (simp add: takeForeground_def fg_waiting_def)

lemma takeBackground_Nil: "bg_waiting q = [] \<Longrightarrow> takeBackground q = (q, None)"
  by (simp add: takeBackground_def bg_waiting_def)

lemma takeForeground_Cons:
  assumes "fg_waiting q = c # cs"
  obtains q' where "takeForeground q = (q', Some c)" "fg_waiting q' = cs" "bg_waiting q' = bg_waiting q"
    "rq_active q' = rq_active q" "rq_backgroundActive q' = rq_backgroundActive q" "rq_running q' = rq_running q"
    "heads_ok q \<longrightarrow> heads_ok q'"
proof -
  have h: "rq_foregroundHead q < length (rq_foreground q)" using assms by (simp add: fg_waiting_def) (metis drop_all list.distinct(1) not_le)
  then have "rq_foreground q ! rq_foregroundHead q = c" "drop (Suc (rq_foregroundHead q)) (rq_foreground q) = cs"
    using assms by (simp_all add: fg_waiting_def Cons_nth_drop_Suc [symmetric])
  then show thesis
    using h by (intro that [of "compactForeground (q\<lparr>rq_foregroundHead := rq_foregroundHead q + 1\<rparr>)"])
      (auto simp: takeForeground_def compactForeground_def fg_waiting_def bg_waiting_def heads_ok_def)
qed

lemma takeBackground_Cons:
  assumes "bg_waiting q = c # cs"
  obtains q' where "takeBackground q = (q', Some c)" "bg_waiting q' = cs" "fg_waiting q' = fg_waiting q"
    "rq_active q' = rq_active q" "rq_backgroundActive q' = rq_backgroundActive q" "rq_running q' = rq_running q"
    "heads_ok q \<longrightarrow> heads_ok q'"
proof -
  have h: "rq_backgroundHead q < length (rq_background q)" using assms by (simp add: bg_waiting_def) (metis drop_all list.distinct(1) not_le)
  then have "rq_background q ! rq_backgroundHead q = c" "drop (Suc (rq_backgroundHead q)) (rq_background q) = cs"
    using assms by (simp_all add: bg_waiting_def Cons_nth_drop_Suc [symmetric])
  then show thesis
    using h by (intro that [of "compactBackground (q\<lparr>rq_backgroundHead := rq_backgroundHead q + 1\<rparr>)"])
      (auto simp: takeBackground_def compactBackground_def fg_waiting_def bg_waiting_def heads_ok_def)
qed

subsection \<open>Pumping\<close>

definition next_call :: "nat \<Rightarrow> call_queue \<Rightarrow> call_queue \<times> queued_call option" where
  "next_call bg q =
     (case takeForeground q of (q1, call) \<Rightarrow>
        if call = None \<and> rq_backgroundActive q1 < bg then takeBackground q1 else (q1, call))"

definition start_call :: "queued_call \<Rightarrow> call_queue \<Rightarrow> call_queue" where
  "start_call c q =
     (let q1 = q\<lparr>rq_active := rq_active q + 1\<rparr>;
          q2 = (if qc_background c then q1\<lparr>rq_backgroundActive := rq_backgroundActive q1 + 1\<rparr> else q1)
      in q2\<lparr>rq_running := rq_running q2 @ [c]\<rparr>)"

definition waiting_count :: "call_queue \<Rightarrow> nat" where
  "waiting_count q = length (fg_waiting q) + length (bg_waiting q)"

lemma next_call_cases:
  obtains (none) "next_call bg q = (q, None)" "fg_waiting q = []" "bg_waiting q = [] \<or> bg \<le> rq_backgroundActive q"
    | (fg) c cs q' where "next_call bg q = (q', Some c)" "fg_waiting q = c # cs" "fg_waiting q' = cs" "bg_waiting q' = bg_waiting q"
        "rq_active q' = rq_active q" "rq_backgroundActive q' = rq_backgroundActive q" "rq_running q' = rq_running q"
        "heads_ok q \<longrightarrow> heads_ok q'"
    | (bg) c cs q' where "next_call bg q = (q', Some c)" "fg_waiting q = []" "fg_waiting q' = []" "bg_waiting q = c # cs" "bg_waiting q' = cs"
        "rq_backgroundActive q < bg"
        "rq_active q' = rq_active q" "rq_backgroundActive q' = rq_backgroundActive q" "rq_running q' = rq_running q"
        "heads_ok q \<longrightarrow> heads_ok q'"
proof (cases "fg_waiting q")
  case Nil
  note f = takeForeground_Nil [OF Nil]
  show thesis
  proof (cases "rq_backgroundActive q < bg")
    case True
    show thesis
    proof (cases "bg_waiting q")
      case b: Nil
      show thesis by (rule none) (simp_all add: next_call_def f takeBackground_Nil [OF b] Nil b)
    next
      case (Cons c cs)
      from takeBackground_Cons [OF this] obtain q' where "takeBackground q = (q', Some c)" "bg_waiting q' = cs" "fg_waiting q' = fg_waiting q"
        "rq_active q' = rq_active q" "rq_backgroundActive q' = rq_backgroundActive q" "rq_running q' = rq_running q"
    "heads_ok q \<longrightarrow> heads_ok q'" .
      then show thesis using True Nil Cons by (intro bg [of q' c cs]) (simp_all add: next_call_def f)
    qed
  next
    case False
    then show thesis using Nil by (intro none) (simp_all add: next_call_def f)
  qed
next
  case (Cons c cs)
  from takeForeground_Cons [OF this] obtain q' where "takeForeground q = (q', Some c)" "fg_waiting q' = cs" "bg_waiting q' = bg_waiting q"
    "rq_active q' = rq_active q" "rq_backgroundActive q' = rq_backgroundActive q" "rq_running q' = rq_running q"
    "heads_ok q \<longrightarrow> heads_ok q'" .
  then show thesis using Cons by (intro fg [of q' c cs]) (simp_all add: next_call_def)
qed

lemma start_call_simps [simp]:
  "fg_waiting (start_call c q) = fg_waiting q" "bg_waiting (start_call c q) = bg_waiting q"
  "rq_active (start_call c q) = rq_active q + 1" "rq_running (start_call c q) = rq_running q @ [c]"
  "rq_backgroundActive (start_call c q) = rq_backgroundActive q + (if qc_background c then 1 else 0)"
  "heads_ok (start_call c q) = heads_ok q"
  by (simp_all add: start_call_def Let_def fg_waiting_def bg_waiting_def heads_ok_def)

lemma next_call_decreases: "next_call bg q = (q', Some c) \<Longrightarrow> waiting_count (start_call c q') < waiting_count q"
  by (rule next_call_cases [of bg q]) (simp_all add: waiting_count_def)

function pump :: "nat \<Rightarrow> nat \<Rightarrow> call_queue \<Rightarrow> call_queue \<times> queued_call list" where
  "pump limit bg q =
     (if rq_active q < limit then
        (case next_call bg q of
           (q1, None) \<Rightarrow> (q1, [])
         | (q1, Some c) \<Rightarrow> (case pump limit bg (start_call c q1) of (q2, cs) \<Rightarrow> (q2, c # cs)))
      else (q, []))"
  by pat_completeness auto
termination
  by (relation "measure (\<lambda>(limit, bg, q). waiting_count q)") (auto dest: next_call_decreases sym)

declare pump.simps [simp del]

subsection \<open>The pool\<close>

definition getQueue :: "jsstr \<Rightarrow> call_pool \<Rightarrow> call_queue" where
  "getQueue sel p = (case map_get (cp_queues p) sel of None \<Rightarrow> new_call_queue | Some q \<Rightarrow> q)"

definition put_queue :: "jsstr \<Rightarrow> call_queue \<Rightarrow> call_pool \<Rightarrow> call_pool" where
  "put_queue sel q p = p\<lparr>cp_queues := map_set sel q (cp_queues p)\<rparr>"

definition pool_enqueue :: "jsstr \<Rightarrow> jsstr \<Rightarrow> nat \<Rightarrow> call_pool \<Rightarrow> call_pool \<times> queued_call list" where
  "pool_enqueue sel method n p =
     (let q = getQueue sel p;
          call = \<lparr>qc_id = n, qc_background = isBackgroundRuntimeMethod method\<rparr>;
          q1 = (if qc_background call then q\<lparr>rq_background := rq_background q @ [call]\<rparr> else q\<lparr>rq_foreground := rq_foreground q @ [call]\<rparr>)
      in case pump (cp_concurrency p) (cp_backgroundConcurrency p) q1 of (q2, cs) \<Rightarrow> (put_queue sel q2 p, cs))"

text \<open>The \<open>finally\<close> of a call.\<close>

definition settled :: "queued_call \<Rightarrow> call_queue \<Rightarrow> call_queue" where
  "settled c q =
     q\<lparr>rq_active := rq_active q - 1, rq_backgroundActive := (if qc_background c then rq_backgroundActive q - 1 else rq_backgroundActive q),
       rq_running := remove1 c (rq_running q)\<rparr>"

definition pool_settle :: "jsstr \<Rightarrow> queued_call \<Rightarrow> call_pool \<Rightarrow> call_pool \<times> queued_call list" where
  "pool_settle sel c p =
     (case map_get (cp_queues p) sel of
        None \<Rightarrow> (p, [])
      | Some q \<Rightarrow>
          if c \<notin> set (rq_running q) then (p, [])
          else let q1 = settled c q
               in if rq_active q1 = 0 \<and> rpc_isEmpty q1 then (p\<lparr>cp_queues := map_delete sel (cp_queues p)\<rparr>, [])
                  else case pump (cp_concurrency p) (cp_backgroundConcurrency p) q1 of (q2, cs) \<Rightarrow> (put_queue sel q2 p, cs))"

datatype pool_event = RpEnqueue jsstr jsstr nat | RpSettle jsstr queued_call

fun pool_selector :: "pool_event \<Rightarrow> jsstr" where
  "pool_selector (RpEnqueue sel m n) = sel"
| "pool_selector (RpSettle sel c) = sel"

fun pool_step :: "pool_event \<Rightarrow> call_pool \<Rightarrow> call_pool \<times> queued_call list" where
  "pool_step (RpEnqueue sel m n) p = pool_enqueue sel m n p"
| "pool_step (RpSettle sel c) p = pool_settle sel c p"

text \<open>A run, with the calls it starts for each runtime.\<close>

fun pool_run :: "pool_event list \<Rightarrow> call_pool \<Rightarrow> call_pool \<times> (jsstr \<times> queued_call) list" where
  "pool_run [] p = (p, [])"
| "pool_run (e # es) p =
     (case pool_step e p of (p1, cs) \<Rightarrow>
      case pool_run es p1 of (p2, out) \<Rightarrow> (p2, map (Pair (pool_selector e)) cs @ out))"

subsection \<open>What the queues keep\<close>

definition slots_ok :: "nat \<Rightarrow> nat \<Rightarrow> call_queue \<Rightarrow> bool" where
  "slots_ok limit bg q \<longleftrightarrow> heads_ok q \<and>
     rq_active q = length (rq_running q) \<and> rq_backgroundActive q = length (filter qc_background (rq_running q)) \<and>
     rq_active q \<le> limit \<and> rq_backgroundActive q \<le> bg \<and>
     list_all (Not \<circ> qc_background) (fg_waiting q) \<and> list_all qc_background (bg_waiting q)"

definition busy :: "nat \<Rightarrow> nat \<Rightarrow> call_queue \<Rightarrow> bool" where
  "busy limit bg q \<longleftrightarrow> rq_active q = limit \<or> fg_waiting q = [] \<and> (bg_waiting q = [] \<or> rq_backgroundActive q = bg)"

lemma pump_spec:
  "slots_ok limit bg q \<Longrightarrow> case pump limit bg q of (q', cs) \<Rightarrow>
     slots_ok limit bg q' \<and> busy limit bg q' \<and> rq_running q' = rq_running q @ cs \<and>
     fg_waiting q = filter (Not \<circ> qc_background) cs @ fg_waiting q' \<and> bg_waiting q = filter qc_background cs @ bg_waiting q'"
proof (induction limit bg q rule: pump.induct)
  case (1 limit bg q)
  show ?case
  proof (cases "rq_active q < limit")
    case False
    then have "pump limit bg q = (q, [])" by (subst pump.simps) simp
    then show ?thesis using 1(2) False by (auto simp: busy_def slots_ok_def)
  next
    case True
    have step: ?thesis if n: "next_call bg q = (q1, Some c)" and ok: "slots_ok limit bg (start_call c q1)"
      and r: "rq_running q1 = rq_running q"
      and w: "fg_waiting q = filter (Not \<circ> qc_background) [c] @ fg_waiting q1" "bg_waiting q = filter qc_background [c] @ bg_waiting q1" for q1 c
    proof -
      have "pump limit bg q = (fst (pump limit bg (start_call c q1)), c # snd (pump limit bg (start_call c q1)))"
        using True n by (subst pump.simps) (simp add: case_prod_unfold)
      then show ?thesis using 1(1) [OF True n [symmetric] refl ok] r w by (simp add: case_prod_unfold)
    qed
    show ?thesis
    proof (cases rule: next_call_cases [of bg q])
      case none
      then have "pump limit bg q = (q, [])" using True by (subst pump.simps) simp
      then show ?thesis using 1(2) none by (auto simp: busy_def slots_ok_def)
    next
      case (fg c cs q')
      then show ?thesis using 1(2) True by (intro step [OF fg(1)]) (auto simp: slots_ok_def)
    next
      case (bg c cs q')
      then show ?thesis using 1(2) True by (intro step [OF bg(1)]) (auto simp: slots_ok_def)
    qed
  qed
qed

text \<open>What an event does to the queue of its own runtime, and that it leaves the others.\<close>

definition pool_fits :: "call_pool \<Rightarrow> bool" where
  "pool_fits p \<longleftrightarrow> (\<forall>sel. slots_ok (cp_concurrency p) (cp_backgroundConcurrency p) (getQueue sel p) \<and>
     busy (cp_concurrency p) (cp_backgroundConcurrency p) (getQueue sel p))"

fun given_to :: "jsstr \<Rightarrow> pool_event \<Rightarrow> queued_call list" where
  "given_to sel (RpEnqueue s m n) = (if s = sel then [\<lparr>qc_id = n, qc_background = isBackgroundRuntimeMethod m\<rparr>] else [])"
| "given_to sel (RpSettle s c) = []"

lemma getQueue_put [simp]: "getQueue s (put_queue sel q p) = (if s = sel then q else getQueue s p)"
  by (simp add: getQueue_def put_queue_def)

lemma put_queue_limits [simp]:
  "cp_concurrency (put_queue sel q p) = cp_concurrency p" "cp_backgroundConcurrency (put_queue sel q p) = cp_backgroundConcurrency p"
  by (simp_all add: put_queue_def)

lemma slots_new: "slots_ok limit bg new_call_queue" "busy limit bg new_call_queue"
  by (simp_all add: slots_ok_def busy_def new_call_queue_def fg_waiting_def bg_waiting_def heads_ok_def)

lemma waiting_new [simp]: "fg_waiting new_call_queue = []" "bg_waiting new_call_queue = []"
  by (simp_all add: new_call_queue_def fg_waiting_def bg_waiting_def)

lemma filter_remove1_length:
  "c \<in> set xs \<Longrightarrow> length (filter P xs) = length (filter P (remove1 c xs)) + (if P c then 1 else 0)"
  by (induction xs) auto

lemma slots_settled:
  assumes "slots_ok limit bg q" and "c \<in> set (rq_running q)"
  shows "slots_ok limit bg (settled c q)"
  using assms filter_remove1_length [OF assms(2), of qc_background]
  by (auto simp: slots_ok_def settled_def length_remove1 fg_waiting_def bg_waiting_def heads_ok_def)

text \<open>The queue of the event's runtime before, seen by the pump, and after.\<close>

definition same_calls :: "call_queue \<Rightarrow> queued_call list \<Rightarrow> queued_call list \<Rightarrow> call_queue \<Rightarrow> bool" where
  "same_calls q given started q' \<longleftrightarrow>
     filter (Not \<circ> qc_background) started @ fg_waiting q' = fg_waiting q @ filter (Not \<circ> qc_background) given \<and>
     filter qc_background started @ bg_waiting q' = bg_waiting q @ filter qc_background given"

lemma pool_step_spec:
  assumes "pool_fits p" and "pool_step e p = (p', cs)"
  shows "pool_fits p'" and "same_calls (getQueue (pool_selector e) p) (given_to (pool_selector e) e) cs (getQueue (pool_selector e) p')"
    and "sel \<noteq> pool_selector e \<Longrightarrow> getQueue sel p' = getQueue sel p"
    and "cp_concurrency p' = cp_concurrency p" "cp_backgroundConcurrency p' = cp_backgroundConcurrency p"
proof -
  have ok: "slots_ok (cp_concurrency p) (cp_backgroundConcurrency p) (getQueue s p)" for s using assms(1) by (simp add: pool_fits_def)
  have "pool_fits p' \<and> same_calls (getQueue (pool_selector e) p) (given_to (pool_selector e) e) cs (getQueue (pool_selector e) p') \<and>
    (\<forall>sel. sel \<noteq> pool_selector e \<longrightarrow> getQueue sel p' = getQueue sel p) \<and>
    cp_concurrency p' = cp_concurrency p \<and> cp_backgroundConcurrency p' = cp_backgroundConcurrency p"
  proof (cases e)
    case (RpEnqueue sel m n)
    define c where "c = \<lparr>qc_id = n, qc_background = isBackgroundRuntimeMethod m\<rparr>"
    define q1 where "q1 = (if qc_background c then (getQueue sel p)\<lparr>rq_background := rq_background (getQueue sel p) @ [c]\<rparr>
      else (getQueue sel p)\<lparr>rq_foreground := rq_foreground (getQueue sel p) @ [c]\<rparr>)"
    have q1: "slots_ok (cp_concurrency p) (cp_backgroundConcurrency p) q1"
      and w: "fg_waiting q1 = fg_waiting (getQueue sel p) @ filter (Not \<circ> qc_background) [c]"
        "bg_waiting q1 = bg_waiting (getQueue sel p) @ filter qc_background [c]"
      using ok [of sel] by (auto simp: q1_def slots_ok_def heads_ok_def fg_waiting_def bg_waiting_def)
    have "p' = put_queue sel (fst (pump (cp_concurrency p) (cp_backgroundConcurrency p) q1)) p"
      "cs = snd (pump (cp_concurrency p) (cp_backgroundConcurrency p) q1)"
      using assms(2) by (auto simp: RpEnqueue pool_enqueue_def Let_def c_def [symmetric] q1_def case_prod_unfold)
    then show ?thesis
      using pump_spec [OF q1] assms(1) w by (auto simp: RpEnqueue pool_fits_def same_calls_def case_prod_unfold c_def)
  next
    case (RpSettle sel c)
    show ?thesis
    proof (cases "\<exists>q. map_get (cp_queues p) sel = Some q \<and> c \<in> set (rq_running q)")
      case False
      then have "p' = p" "cs = []" using assms(2) by (auto simp: RpSettle pool_settle_def split: option.splits if_splits)
      then show ?thesis using assms(1) by (simp add: RpSettle same_calls_def)
    next
      case True
      then obtain q where q: "map_get (cp_queues p) sel = Some q" "c \<in> set (rq_running q)" by blast
      then have g: "getQueue sel p = q" by (simp add: getQueue_def)
      let ?q1 = "settled c q"
      have q1: "slots_ok (cp_concurrency p) (cp_backgroundConcurrency p) ?q1"
        using slots_settled [OF _ q(2)] ok [of sel] g by simp
      have w: "fg_waiting ?q1 = fg_waiting q" "bg_waiting ?q1 = bg_waiting q"
        by (simp_all add: settled_def fg_waiting_def bg_waiting_def)
      show ?thesis
      proof (cases "rq_active ?q1 = 0 \<and> rpc_isEmpty ?q1")
        case True
        then have p': "p' = p\<lparr>cp_queues := map_delete sel (cp_queues p)\<rparr>" "cs = []"
          using assms(2) q by (simp_all add: RpSettle pool_settle_def)
        have n: "getQueue s p' = (if s = sel then new_call_queue else getQueue s p)" for s by (simp add: p' getQueue_def)
        have "fg_waiting q = []" "bg_waiting q = []"
          using True w [symmetric] by (simp_all add: rpc_isEmpty_def fg_waiting_def bg_waiting_def)
        then show ?thesis
          using assms(1) slots_new n
          by (auto simp: RpSettle pool_fits_def same_calls_def g p')
      next
        case False
        then have "p' = put_queue sel (fst (pump (cp_concurrency p) (cp_backgroundConcurrency p) ?q1)) p"
          "cs = snd (pump (cp_concurrency p) (cp_backgroundConcurrency p) ?q1)"
          using assms(2) q by (auto simp: RpSettle pool_settle_def Let_def case_prod_unfold)
        then show ?thesis
          using pump_spec [OF q1] assms(1) w g by (auto simp: RpSettle pool_fits_def same_calls_def case_prod_unfold)
      qed
    qed
  qed
  then show "pool_fits p'" and "same_calls (getQueue (pool_selector e) p) (given_to (pool_selector e) e) cs (getQueue (pool_selector e) p')"
    and "sel \<noteq> pool_selector e \<Longrightarrow> getQueue sel p' = getQueue sel p"
    and "cp_concurrency p' = cp_concurrency p" "cp_backgroundConcurrency p' = cp_backgroundConcurrency p"
    by blast+
qed

lemma pool_fits_new: "pool_fits (new_pool c b)"
  by (simp add: pool_fits_def new_pool_def getQueue_def slots_new)

lemma pool_run_spec:
  assumes "pool_fits p" and "pool_run es p = (p', out)"
  shows "pool_fits p' \<and> cp_concurrency p' = cp_concurrency p \<and> cp_backgroundConcurrency p' = cp_backgroundConcurrency p \<and>
    same_calls (getQueue sel p) (concat (map (given_to sel) es)) (map snd (filter (\<lambda>x. fst x = sel) out)) (getQueue sel p')"
  using assms
proof (induction es arbitrary: p out)
  case Nil
  then show ?case by (simp add: same_calls_def)
next
  case (Cons e es)
  obtain p1 cs where st: "pool_step e p = (p1, cs)" by fastforce
  define out2 where "out2 = snd (pool_run es p1)"
  have r: "pool_run es p1 = (p', out2)" and out: "out = map (Pair (pool_selector e)) cs @ out2"
    using Cons.prems(2) st by (simp_all add: case_prod_unfold out2_def prod_eq_iff)
  note step = pool_step_spec [OF Cons.prems(1) st]
  note ih = Cons.IH [OF step(1) r]
  have mine: "map snd (filter (\<lambda>x. fst x = sel) (map (Pair (pool_selector e)) cs)) = (if pool_selector e = sel then cs else [])"
    by (induction cs) auto
  show ?case
  proof (cases "pool_selector e = sel")
    case True
    then have "same_calls (getQueue sel p) (given_to sel e) cs (getQueue sel p1)" using step(2) by simp
    with ih step(4,5) mine True show ?thesis by (simp add: out same_calls_def)
  next
    case False
    note step(3) [OF False [symmetric]]
    moreover have "given_to sel e = []" using False by (cases e) simp_all
    ultimately show ?thesis using ih step(4,5) mine False by (simp add: out)
  qed
qed

text \<open>
  The slots of a runtime.  After any sequence of calls handed in and calls settled, in any order, each
  runtime runs no more calls than the limit and no more background calls than theirs, the counters count the
  calls that run, and no slot is idle that a waiting call may take.
\<close>

theorem rpc_slots:
  "let p = fst (pool_run es (new_pool c b)); q = getQueue sel p; running = rq_running q
   in length running \<le> cp_concurrency (new_pool c b) \<and>
      length (filter qc_background running) \<le> cp_backgroundConcurrency (new_pool c b) \<and>
      rq_active q = length running \<and> rq_backgroundActive q = length (filter qc_background running) \<and>
      (length running = cp_concurrency (new_pool c b) \<or>
       fg_waiting q = [] \<and> (bg_waiting q = [] \<or> length (filter qc_background running) = cp_backgroundConcurrency (new_pool c b)))"
proof -
  let ?p = "fst (pool_run es (new_pool c b))"
  have "pool_fits ?p" and l: "cp_concurrency ?p = cp_concurrency (new_pool c b)"
    "cp_backgroundConcurrency ?p = cp_backgroundConcurrency (new_pool c b)"
    using pool_run_spec [OF pool_fits_new surjective_pairing, of es c b sel] by blast+
  then have "slots_ok (cp_concurrency (new_pool c b)) (cp_backgroundConcurrency (new_pool c b)) (getQueue sel ?p)"
    and "busy (cp_concurrency (new_pool c b)) (cp_backgroundConcurrency (new_pool c b)) (getQueue sel ?p)"
    by (simp_all add: pool_fits_def)
  then show ?thesis by (simp add: slots_ok_def busy_def Let_def)
qed

text \<open>
  Every call handed in for a runtime is started once or still waits, and calls of the same kind start in the
  order they came: what was started, followed by what waits, is what was handed in, for foreground and for
  background calls.
\<close>

theorem rpc_calls_in_order:
  "let (p, out) = pool_run es (new_pool c b);
       started = map snd (filter (\<lambda>x. fst x = sel) out);
       given = concat (map (given_to sel) es)
   in filter (Not \<circ> qc_background) started @ fg_waiting (getQueue sel p) = filter (Not \<circ> qc_background) given \<and>
      filter qc_background started @ bg_waiting (getQueue sel p) = filter qc_background given"
proof -
  obtain p out where r: "pool_run es (new_pool c b) = (p, out)" by fastforce
  have "getQueue sel (new_pool c b) = new_call_queue" by (simp add: getQueue_def new_pool_def)
  then show ?thesis using pool_run_spec [OF pool_fits_new r, of sel] r by (simp add: same_calls_def)
qed

end
