(* ===== verification/Shared_Control.thy ===== *)
theory Shared_Control
  imports Contracts Js_Value
begin

text \<open>
  The control connection to a remote runtime, \<open>src/shared/remote-runtime-shared-control-*.ts\<close>: requests and
  subscriptions of many callers share one authenticated socket that reconnects and replays the subscriptions.
  What the socket, the cipher, \<open>JSON.parse\<close> and the envelope schema make of a frame is outside.  Promises that
  are settled run their continuation later: a job is queued and is an event of its own.  Callbacks are outputs
  and do not call back into the connection before they return.
\<close>

subsection \<open>Data\<close>

datatype connection_state = Closed | AwaitingReady | AwaitingAuthenticated | Ready

datatype client_error = RuntimeUnavailable | RuntimeNotRestored | RuntimeTimeout | InvalidResponse | Unauthorized
  | ClosedBeforeStart

record rpc_response =
  rr_id :: jsstr
  rr_ok :: bool
  rr_result :: js_value
  rr_replayed :: bool

datatype rpc_frame = Keepalive | Response rpc_response

record pending_request =
  pq_method :: jsstr
  pq_refresh :: bool

record subscription =
  sb_method :: jsstr
  sb_params :: js_value
  sb_sent :: bool
  sb_closeAfterReady :: bool
  sb_remoteSubscriptionId :: "jsstr option"
  sb_pendingReplayTag :: bool
  sb_awaitingResubscribe :: bool

text \<open>Who waits for the connection, and what runs once the wait is over.\<close>

datatype waiter = WaitRequest jsstr jsstr js_value | WaitSubscribe jsstr

datatype job =
    JobReady waiter
  | JobFailed waiter client_error

text \<open>
  A subscription that is finished is not in \<open>sc_subs\<close> any more, which stands for its \<open>closed\<close> flag; a waiter
  that is settled is not in \<open>sc_waiters\<close>.  The shared key is there exactly when the socket is.
\<close>

record shared_control =
  sc_state :: connection_state
  sc_socket :: "nat option"
  sc_reconnectTimer :: bool
  sc_stableTimer :: bool
  sc_reconnectAttempt :: nat
  sc_intentionallyClosed :: bool
  sc_pending :: "(jsstr \<times> pending_request) list"
  sc_subs :: "(jsstr \<times> subscription) list"
  sc_waiters :: "waiter list"
  sc_everReady :: bool
  sc_jobs :: "job list"

datatype sc_out =
    OSend jsstr jsstr js_value
  | OSendAuth
  | OResolve jsstr rpc_response
  | OReject jsstr client_error
  | ORefresh jsstr
  | OSubResponse jsstr rpc_response
  | OSubError jsstr client_error
  | OSubClose jsstr
  | OSubStarted jsstr
  | OSubFailed jsstr client_error
  | OSocketClose nat

text \<open>
  What a call reads: whether the socket is open, whether it is closing or closed, the socket a new connection
  gives or the error it fails with, a fresh identifier, and the readings of a frame's text.
\<close>

record sc_env =
  se_open :: bool
  se_closing :: bool
  se_opened :: "nat option"
  se_uuid :: jsstr
  se_decrypt :: "jsstr \<Rightarrow> jsstr option"
  se_json :: "jsstr \<Rightarrow> js_value option"
  se_envelope :: "js_value \<Rightarrow> rpc_response option"

type_synonym sc_result = "shared_control \<times> sc_out list"

definition new_connection :: shared_control where
  "new_connection = \<lparr>sc_state = Closed, sc_socket = None, sc_reconnectTimer = False, sc_stableTimer = False,
     sc_reconnectAttempt = 0, sc_intentionallyClosed = False, sc_pending = [], sc_subs = [], sc_waiters = [],
     sc_everReady = False, sc_jobs = []\<rparr>"

subsection \<open>Frames\<close>

definition is_object :: "js_value \<Rightarrow> bool" where
  "is_object v \<longleftrightarrow> (case v of VNull \<Rightarrow> True | VArr _ \<Rightarrow> True | VObj _ \<Rightarrow> True | _ \<Rightarrow> False)"

definition parseReadyFrame :: "sc_env \<Rightarrow> jsstr \<Rightarrow> client_error option" where
  "parseReadyFrame E frame =
     (case se_json E frame of
        None \<Rightarrow> Some InvalidResponse
      | Some ready \<Rightarrow>
          if \<not> is_object ready \<or> ready = VNull \<or> \<not> is_str (get ''type'' ready) ''e2ee_ready'' then Some InvalidResponse else None)"

text \<open>\<open>Inl ()\<close>: reading the type of null throws.\<close>

definition parseAuthenticatedFrame :: "sc_env \<Rightarrow> jsstr \<Rightarrow> unit + client_error option" where
  "parseAuthenticatedFrame E plaintext =
     (case se_json E plaintext of
        None \<Rightarrow> Inr (Some InvalidResponse)
      | Some a \<Rightarrow>
          if a = VNull then Inl ()
          else if is_str (get ''type'' a) ''e2ee_authenticated'' then Inr None
          else Inr (Some (if is_object a \<and> is_str (get ''code'' (get ''error'' a)) ''unauthorized'' then Unauthorized else InvalidResponse)))"

definition isKeepaliveFrame :: "js_value \<Rightarrow> bool" where
  "isKeepaliveFrame v \<longleftrightarrow> is_object v \<and> v \<noteq> VNull \<and> get ''_keepalive'' v = VBool True"

definition parseRemoteRuntimeRpcFrame :: "sc_env \<Rightarrow> jsstr \<Rightarrow> rpc_frame option" where
  "parseRemoteRuntimeRpcFrame E plaintext =
     (case se_json E plaintext of
        None \<Rightarrow> None
      | Some raw \<Rightarrow> if isKeepaliveFrame raw then Some Keepalive else map_option Response (se_envelope E raw))"

datatype parsed_frame = ParsedAuth jsstr | ParsedFrame rpc_frame | ParsedError

definition parseSharedControlFrame :: "sc_env \<Rightarrow> jsstr \<Rightarrow> shared_control \<Rightarrow> parsed_frame" where
  "parseSharedControlFrame E frame st =
     (if sc_socket st = None then ParsedError
      else case se_decrypt E frame of
        None \<Rightarrow> ParsedError
      | Some plaintext \<Rightarrow>
          if sc_state st = AwaitingAuthenticated then ParsedAuth plaintext
          else case parseRemoteRuntimeRpcFrame E plaintext of None \<Rightarrow> ParsedError | Some f \<Rightarrow> ParsedFrame f)"

definition getSubscriptionId :: "js_value \<Rightarrow> jsstr option" where
  "getSubscriptionId result =
     (if \<not> is_object result \<or> result = VNull then None
      else case get ''subscriptionId'' result of VStr s \<Rightarrow> if s = [] then None else Some s | _ \<Rightarrow> None)"

definition isEndResult :: "js_value \<Rightarrow> bool" where
  "isEndResult result \<longleftrightarrow> is_object result \<and> result \<noteq> VNull \<and> is_str (get ''type'' result) ''end''"

subsection \<open>Cleanup requests\<close>

fun index_key :: "nat \<Rightarrow> jsstr" where
  "index_key n = (if n < 10 then [of_nat (48 + n)] else index_key (n div 10) @ [of_nat (48 + n mod 10)])"

definition spread :: "js_value \<Rightarrow> (jsstr \<times> js_value) list" where
  "spread v = (case v of VObj ms \<Rightarrow> ms | VArr vs \<Rightarrow> zip (map index_key [0..<length vs]) vs | _ \<Rightarrow> [])"

definition cleanupBySubscriptionId :: "string \<Rightarrow> jsstr \<Rightarrow> jsstr \<times> js_value" where
  "cleanupBySubscriptionId m s = (js m, VObj [(js ''subscriptionId'', VStr s)])"

definition getCleanupRequest :: "jsstr \<Rightarrow> subscription \<Rightarrow> (jsstr \<times> js_value) option" where
  "getCleanupRequest i sub =
     (case (sb_remoteSubscriptionId sub, sb_method sub) of (remote, m) \<Rightarrow>
        if m = js ''accounts.subscribe'' \<and> remote \<noteq> None then Some (cleanupBySubscriptionId ''accounts.unsubscribe'' (the remote))
        else if m = js ''notifications.subscribe'' \<and> remote \<noteq> None
        then Some (cleanupBySubscriptionId ''notifications.unsubscribe'' (the remote))
        else if m = js ''runtime.clientEvents.subscribe'' \<and> remote \<noteq> None
        then Some (cleanupBySubscriptionId ''runtime.clientEvents.unsubscribe'' (the remote))
        else if m = js ''files.watch'' \<and> remote \<noteq> None then Some (cleanupBySubscriptionId ''files.unwatch'' (the remote))
        else if m = js ''session.tabs.subscribe''
        then Some (js ''session.tabs.unsubscribe'',
               if is_object (sb_params sub) \<and> sb_params sub \<noteq> VNull
               then VObj (map_set (js ''subscriptionId'') (VStr i) (spread (sb_params sub))) else sb_params sub)
        else if m = js ''session.tabs.subscribeAll''
        then Some (js ''session.tabs.unsubscribeAll'', VObj [(js ''subscriptionId'', VStr i)])
        else None)"

definition cleanupNeedsRemoteSubscriptionId :: "jsstr \<Rightarrow> bool" where
  "cleanupNeedsRemoteSubscriptionId m \<longleftrightarrow>
     m = js ''accounts.subscribe'' \<or> m = js ''notifications.subscribe'' \<or> m = js ''runtime.clientEvents.subscribe'' \<or> m = js ''files.watch''"

subsection \<open>Sending\<close>

definition sendEncrypted :: "sc_env \<Rightarrow> sc_out \<Rightarrow> shared_control \<Rightarrow> bool \<times> sc_out list" where
  "sendEncrypted E payload st =
     (if sc_state st \<noteq> Ready \<and> sc_state st \<noteq> AwaitingAuthenticated then (False, [])
      else if sc_socket st = None \<or> \<not> se_open E then (False, [])
      else (True, [payload]))"

definition sendSharedControlCleanupRequest :: "sc_env \<Rightarrow> jsstr \<times> js_value \<Rightarrow> shared_control \<Rightarrow> sc_result" where
  "sendSharedControlCleanupRequest E r st = (st, snd (sendEncrypted E (OSend (se_uuid E) (fst r) (snd r)) st))"

subsection \<open>Requests and subscriptions\<close>

definition rejectSharedControlPendingRequest :: "jsstr \<Rightarrow> client_error \<Rightarrow> shared_control \<Rightarrow> sc_result" where
  "rejectSharedControlPendingRequest i err st =
     (if map_get (sc_pending st) i = None then (st, [])
      else (st\<lparr>sc_pending := map_delete i (sc_pending st)\<rparr>, [OReject i err]))"

definition resolveSharedControlPendingResponse :: "jsstr \<Rightarrow> rpc_response \<Rightarrow> shared_control \<Rightarrow> sc_result" where
  "resolveSharedControlPendingResponse i response st =
     (if map_get (sc_pending st) i = None then (st, [])
      else (st\<lparr>sc_pending := map_delete i (sc_pending st)\<rparr>, [OResolve i response]))"

definition refreshSharedControlPendingRequestTimeouts :: "shared_control \<Rightarrow> sc_result" where
  "refreshSharedControlPendingRequestTimeouts st =
     (st, map (\<lambda>(i, _). ORefresh i) (filter (\<lambda>(_, q). pq_refresh q) (sc_pending st)))"

definition rejectAllSharedControlPendingRequests :: "client_error option \<Rightarrow> shared_control \<Rightarrow> sc_result" where
  "rejectAllSharedControlPendingRequests err st =
     (let e = (case err of None \<Rightarrow> RuntimeUnavailable | Some e \<Rightarrow> e)
      in (st\<lparr>sc_pending := []\<rparr>, map (\<lambda>(i, _). OReject i e) (sc_pending st)))"

definition markSharedControlSubscriptionsUnsent :: "shared_control \<Rightarrow> shared_control" where
  "markSharedControlSubscriptionsUnsent st = st\<lparr>sc_subs := map (\<lambda>(i, s). (i, s\<lparr>sb_sent := False\<rparr>)) (sc_subs st)\<rparr>"

definition finishSharedControlSubscription :: "jsstr \<Rightarrow> bool \<Rightarrow> client_error option \<Rightarrow> shared_control \<Rightarrow> sc_result" where
  "finishSharedControlSubscription i notifyClose err st =
     (if map_get (sc_subs st) i = None then (st, [])
      else (st\<lparr>sc_subs := map_delete i (sc_subs st)\<rparr>,
            (case err of None \<Rightarrow> [] | Some e \<Rightarrow> [OSubError i e]) @ (if notifyClose then [OSubClose i] else [])))"

definition set_sub :: "jsstr \<Rightarrow> subscription \<Rightarrow> shared_control \<Rightarrow> shared_control" where
  "set_sub i s st = st\<lparr>sc_subs := map_set i s (sc_subs st)\<rparr>"

definition resolveSharedControlReadyWaiters :: "shared_control \<Rightarrow> shared_control" where
  "resolveSharedControlReadyWaiters st = st\<lparr>sc_waiters := [], sc_jobs := sc_jobs st @ map JobReady (sc_waiters st)\<rparr>"

definition rejectSharedControlReadyWaiters :: "client_error \<Rightarrow> shared_control \<Rightarrow> shared_control" where
  "rejectSharedControlReadyWaiters err st =
     st\<lparr>sc_waiters := [], sc_jobs := sc_jobs st @ map (\<lambda>w. JobFailed w err) (sc_waiters st)\<rparr>"

definition sendSharedControlRequest :: "sc_env \<Rightarrow> jsstr \<Rightarrow> jsstr \<Rightarrow> js_value \<Rightarrow> shared_control \<Rightarrow> sc_result" where
  "sendSharedControlRequest E i m params st =
     (if map_get (sc_pending st) i = None then (st, [])
      else case sendEncrypted E (OSend i m params) st of
        (True, out) \<Rightarrow> (st, out)
      | (False, _) \<Rightarrow> rejectSharedControlPendingRequest i RuntimeUnavailable st)"

definition sendSharedControlSubscription :: "sc_env \<Rightarrow> jsstr \<Rightarrow> shared_control \<Rightarrow> sc_result" where
  "sendSharedControlSubscription E i st =
     (case map_get (sc_subs st) i of
        None \<Rightarrow> (st, [])
      | Some s \<Rightarrow>
          if sb_sent s then (st, [])
          else case sendEncrypted E (OSend i (sb_method s) (sb_params s)) st of
            (True, out) \<Rightarrow> (set_sub i (s\<lparr>sb_sent := True\<rparr>) st, out)
          | (False, _) \<Rightarrow> finishSharedControlSubscription i True (Some RuntimeUnavailable) st)"

definition handleSharedControlSubscriptionResponse :: "jsstr \<Rightarrow> subscription \<Rightarrow> rpc_response \<Rightarrow> shared_control \<Rightarrow> sc_result" where
  "handleSharedControlSubscriptionResponse i s response st =
     (let s1 = s\<lparr>sb_awaitingResubscribe := False\<rparr>;
          s2 = (if \<not> rr_ok response then s1\<lparr>sb_sent := False\<rparr> else s1);
          s3 = (case (if rr_ok response then getSubscriptionId (rr_result response) else None) of
                  Some r \<Rightarrow> s2\<lparr>sb_remoteSubscriptionId := Some r\<rparr> | None \<Rightarrow> s2);
          delivered = (if sb_pendingReplayTag s3 \<and> rr_ok response then response\<lparr>rr_replayed := True\<rparr> else response);
          s4 = s3\<lparr>sb_pendingReplayTag := False\<rparr>
      in emit_then (set_sub i s4 st, [OSubResponse i delivered])
           (if rr_ok response \<and> isEndResult (rr_result response) then finishSharedControlSubscription i False None
            else emit_quiet id))"

definition handleSharedControlLogicalResponse :: "sc_env \<Rightarrow> jsstr \<Rightarrow> subscription \<Rightarrow> rpc_response \<Rightarrow> shared_control \<Rightarrow> sc_result" where
  "handleSharedControlLogicalResponse E i s response st =
     (if \<not> sb_closeAfterReady s then handleSharedControlSubscriptionResponse i s response st
      else
        let s1 = (if rr_ok response then
                    (case getSubscriptionId (rr_result response) of Some r \<Rightarrow> s\<lparr>sb_remoteSubscriptionId := Some r\<rparr> | None \<Rightarrow> s)
                  else s);
            r = (if rr_ok response then
                   (case getCleanupRequest i s1 of
                      Some c \<Rightarrow> sendSharedControlCleanupRequest E c (set_sub i s1 st)
                    | None \<Rightarrow> (set_sub i s1 st, []))
                 else (st, []))
        in emit_then r (finishSharedControlSubscription i False None))"

definition closeSharedControlLogicalSubscription :: "sc_env \<Rightarrow> jsstr \<Rightarrow> subscription \<Rightarrow> shared_control \<Rightarrow> sc_result" where
  "closeSharedControlLogicalSubscription E i s st =
     (case getCleanupRequest i s of
        Some c \<Rightarrow> emit_then (finishSharedControlSubscription i False None st) (sendSharedControlCleanupRequest E c)
      | None \<Rightarrow>
          if (sb_sent s \<or> sb_awaitingResubscribe s) \<and> cleanupNeedsRemoteSubscriptionId (sb_method s)
          then (set_sub i (s\<lparr>sb_closeAfterReady := True\<rparr>) st, [])
          else finishSharedControlSubscription i False None st)"

definition closeSubscription :: "sc_env \<Rightarrow> jsstr \<Rightarrow> shared_control \<Rightarrow> sc_result" where
  "closeSubscription E i st =
     (case map_get (sc_subs st) i of None \<Rightarrow> (st, []) | Some s \<Rightarrow> closeSharedControlLogicalSubscription E i s st)"

definition replay_one :: "sc_env \<Rightarrow> bool \<Rightarrow> jsstr \<Rightarrow> shared_control \<Rightarrow> sc_result" where
  "replay_one E tagReplayed i st =
     (case map_get (sc_subs st) i of
        None \<Rightarrow> (st, [])
      | Some s \<Rightarrow>
          if sb_closeAfterReady s then (st, [])
          else let s1 = s\<lparr>sb_sent := False, sb_remoteSubscriptionId := None, sb_awaitingResubscribe := True\<rparr>;
                   s2 = (if tagReplayed then s1\<lparr>sb_pendingReplayTag := True\<rparr> else s1)
               in sendSharedControlSubscription E i (set_sub i s2 st))"

definition replaySubscriptions :: "sc_env \<Rightarrow> shared_control \<Rightarrow> sc_result" where
  "replaySubscriptions E st =
     emit_then (emit_each (replay_one E (sc_everReady st)) (map fst (sc_subs st)) st) (emit_quiet (\<lambda>st. st\<lparr>sc_everReady := True\<rparr>))"

definition finish_closing :: "jsstr \<Rightarrow> shared_control \<Rightarrow> sc_result" where
  "finish_closing i st =
     (case map_get (sc_subs st) i of
        None \<Rightarrow> (st, [])
      | Some s \<Rightarrow> if sb_closeAfterReady s then finishSharedControlSubscription i False None st else (st, []))"

definition finishCloseAfterReadySubscriptions :: "shared_control \<Rightarrow> sc_result" where
  "finishCloseAfterReadySubscriptions st = emit_each finish_closing (map fst (sc_subs st)) st"

subsection \<open>The socket\<close>

definition reconnect_delays :: "nat list" where
  "reconnect_delays = [250, 500, 1000, 2000, 4000, 8000, 15000]"

definition closeSharedControlSocketState :: "client_error option \<Rightarrow> shared_control \<Rightarrow> sc_result" where
  "closeSharedControlSocketState err st =
     emit_then (rejectAllSharedControlPendingRequests err
                (rejectSharedControlReadyWaiters (case err of None \<Rightarrow> RuntimeUnavailable | Some e \<Rightarrow> e) st))
       (\<lambda>st. (markSharedControlSubscriptionsUnsent st, case sc_socket st of None \<Rightarrow> [] | Some w \<Rightarrow> [OSocketClose w]))"

definition closeSocket :: "client_error option \<Rightarrow> shared_control \<Rightarrow> sc_result" where
  "closeSocket err st =
     emit_then (emit_then (finishCloseAfterReadySubscriptions (st\<lparr>sc_stableTimer := False\<rparr>)) (closeSharedControlSocketState err))
       (emit_quiet (\<lambda>st. st\<lparr>sc_socket := None, sc_state := Closed\<rparr>))"

text \<open>The delay of the armed timer, before its jitter, is not part of the state.\<close>

definition scheduleSharedControlReconnect :: "shared_control \<Rightarrow> sc_result" where
  "scheduleSharedControlReconnect st =
     (if sc_reconnectTimer st \<or> sc_intentionallyClosed st then (st, [])
      else (st\<lparr>sc_reconnectTimer := True, sc_reconnectAttempt := sc_reconnectAttempt st + 1\<rparr>, []))"

definition scheduleReconnect :: "shared_control \<Rightarrow> sc_result" where
  "scheduleReconnect st =
     (if sc_reconnectAttempt st \<ge> length reconnect_delays
      then emit_then (emit_each (\<lambda>i. finishSharedControlSubscription i True (Some RuntimeNotRestored)) (map fst (sc_subs st)) st)
             (emit_quiet (\<lambda>st. st\<lparr>sc_reconnectTimer := False\<rparr>))
      else scheduleSharedControlReconnect st)"

definition handleSocketClosed :: "client_error \<Rightarrow> shared_control \<Rightarrow> sc_result" where
  "handleSocketClosed err st =
     emit_then (closeSocket (Some err) st)
       (\<lambda>st. if sc_subs st \<noteq> [] \<and> \<not> sc_intentionallyClosed st then scheduleReconnect st else (st, []))"

definition sc_open :: "sc_env \<Rightarrow> shared_control \<Rightarrow> sc_result" where
  "sc_open E st =
     (if sc_intentionallyClosed st then (rejectSharedControlReadyWaiters RuntimeUnavailable st, [])
      else let st1 = st\<lparr>sc_reconnectTimer := False\<rparr>
           in case se_opened E of
                None \<Rightarrow> handleSocketClosed RuntimeUnavailable st1
              | Some w \<Rightarrow> (st1\<lparr>sc_socket := Some w, sc_state := AwaitingReady\<rparr>, []))"

definition isSharedControlReady :: "sc_env \<Rightarrow> shared_control \<Rightarrow> bool" where
  "isSharedControlReady E st \<longleftrightarrow> sc_state st = Ready \<and> sc_socket st \<noteq> None \<and> se_open E"

definition ensureReady :: "sc_env \<Rightarrow> waiter \<Rightarrow> shared_control \<Rightarrow> sc_result" where
  "ensureReady E w st =
     (if isSharedControlReady E st then (st\<lparr>sc_jobs := sc_jobs st @ [JobReady w]\<rparr>, [])
      else let st1 = st\<lparr>sc_waiters := sc_waiters st @ [w]\<rparr>
           in if sc_socket st1 = None \<or> se_closing E then sc_open E st1 else (st1, []))"

subsection \<open>The machine\<close>

datatype sc_event =
    ScRequest jsstr jsstr js_value bool
  | ScRequestTimeout jsstr
  | ScSubscribe jsstr jsstr js_value
  | ScCloseSubscription jsstr
  | ScClose "client_error option"
  | ScWaiterTimeout waiter
  | ScJob
  | ScFrame nat jsstr
  | ScSocketClosed nat client_error
  | ScReconnect
  | ScStable

definition dispatchSharedControlFrame :: "sc_env \<Rightarrow> rpc_frame \<Rightarrow> shared_control \<Rightarrow> sc_result" where
  "dispatchSharedControlFrame E f st =
     (case f of
        Keepalive \<Rightarrow> refreshSharedControlPendingRequestTimeouts st
      | Response response \<Rightarrow>
          (case map_get (sc_subs st) (rr_id response) of
             Some s \<Rightarrow> handleSharedControlLogicalResponse E (rr_id response) s response st
           | None \<Rightarrow>
               if map_get (sc_pending st) (rr_id response) \<noteq> None
               then resolveSharedControlPendingResponse (rr_id response) response st else (st, [])))"

definition handleTextFrame :: "sc_env \<Rightarrow> jsstr \<Rightarrow> shared_control \<Rightarrow> sc_result" where
  "handleTextFrame E frame st =
     (if sc_state st = AwaitingReady then
        (case parseReadyFrame E frame of
           Some err \<Rightarrow> handleSocketClosed err st
         | None \<Rightarrow> let st1 = st\<lparr>sc_state := AwaitingAuthenticated\<rparr> in (st1, snd (sendEncrypted E OSendAuth st1)))
      else case parseSharedControlFrame E frame st of
        ParsedAuth plaintext \<Rightarrow>
          (case parseAuthenticatedFrame E plaintext of
             Inl _ \<Rightarrow> (st, [])
           | Inr (Some err) \<Rightarrow> handleSocketClosed err st
           | Inr None \<Rightarrow>
               replaySubscriptions E (resolveSharedControlReadyWaiters (st\<lparr>sc_state := Ready, sc_stableTimer := True\<rparr>)))
      | ParsedError \<Rightarrow> handleSocketClosed InvalidResponse st
      | ParsedFrame f \<Rightarrow> dispatchSharedControlFrame E f st)"

definition sc_close :: "sc_env \<Rightarrow> client_error option \<Rightarrow> shared_control \<Rightarrow> sc_result" where
  "sc_close E err st =
     (let st1 = st\<lparr>sc_intentionallyClosed := True, sc_reconnectTimer := False\<rparr>
      in emit_then (emit_each (closeSubscription E) (map fst (sc_subs st1)) st1) (closeSocket err))"

fun run_job :: "sc_env \<Rightarrow> job \<Rightarrow> shared_control \<Rightarrow> sc_result" where
  "run_job E (JobReady (WaitRequest i m params)) st = sendSharedControlRequest E i m params st"
| "run_job E (JobFailed (WaitRequest i m params) err) st = rejectSharedControlPendingRequest i err st"
| "run_job E (JobReady (WaitSubscribe i)) st =
     (if map_get (sc_subs st) i = None then (st, [OSubFailed i ClosedBeforeStart])
      else emit_then (sendSharedControlSubscription E i st) (\<lambda>st. (st, [OSubStarted i])))"
| "run_job E (JobFailed (WaitSubscribe i) err) st =
     emit_then (finishSharedControlSubscription i False None st) (\<lambda>st. (st, [OSubFailed i err]))"

fun sc_step :: "sc_env \<Rightarrow> sc_event \<Rightarrow> shared_control \<Rightarrow> sc_result" where
  "sc_step E (ScRequest i m params refresh) st =
     ensureReady E (WaitRequest i m params) (st\<lparr>sc_pending := map_set i \<lparr>pq_method = m, pq_refresh = refresh\<rparr> (sc_pending st)\<rparr>)"
| "sc_step E (ScRequestTimeout i) st = rejectSharedControlPendingRequest i RuntimeTimeout st"
| "sc_step E (ScSubscribe i m params) st =
     ensureReady E (WaitSubscribe i) (set_sub i \<lparr>sb_method = m, sb_params = params, sb_sent = False, sb_closeAfterReady = False,
       sb_remoteSubscriptionId = None, sb_pendingReplayTag = False, sb_awaitingResubscribe = False\<rparr> st)"
| "sc_step E (ScCloseSubscription i) st = closeSubscription E i st"
| "sc_step E (ScClose err) st = sc_close E err st"
| "sc_step E (ScWaiterTimeout w) st =
     (if w \<in> set (sc_waiters st)
      then (st\<lparr>sc_waiters := remove1 w (sc_waiters st), sc_jobs := sc_jobs st @ [JobFailed w RuntimeUnavailable]\<rparr>, []) else (st, []))"
| "sc_step E ScJob st = (case sc_jobs st of [] \<Rightarrow> (st, []) | j # rest \<Rightarrow> run_job E j (st\<lparr>sc_jobs := rest\<rparr>))"
| "sc_step E (ScFrame w frame) st = (if sc_socket st = Some w then handleTextFrame E frame st else (st, []))"
| "sc_step E (ScSocketClosed w err) st = (if sc_socket st = Some w then handleSocketClosed err st else (st, []))"
| "sc_step E ScReconnect st = (if sc_reconnectTimer st then sc_open E (st\<lparr>sc_reconnectTimer := False\<rparr>) else (st, []))"
| "sc_step E ScStable st =
     (if sc_stableTimer st
      then ((if sc_state st = Ready \<and> sc_socket st \<noteq> None \<and> se_open E then st\<lparr>sc_reconnectAttempt := 0\<rparr> else st)\<lparr>sc_stableTimer := False\<rparr>, [])
      else (st, []))"

fun sc_run :: "(sc_env \<times> sc_event) list \<Rightarrow> shared_control \<Rightarrow> sc_result" where
  "sc_run [] st = (st, [])"
| "sc_run ((E, e) # es) st = emit_then (sc_step E e st) (sc_run es)"

end
