(* ===== verification/Shared_Control_Props.thy ===== *)
theory Shared_Control_Props
  imports Shared_Control
begin

text \<open>
  What the control connection promises its callers: a request is settled once, a subscription that ended stays
  silent, and when the socket is gone nothing is left that nobody will settle or restore.
\<close>

subsection \<open>Requests\<close>

fun settles :: "jsstr \<Rightarrow> sc_out \<Rightarrow> bool" where
  "settles i (OResolve j r) \<longleftrightarrow> i = j"
| "settles i (OReject j e) \<longleftrightarrow> i = j"
| "settles i _ \<longleftrightarrow> False"

definition pend :: "jsstr \<Rightarrow> shared_control \<Rightarrow> nat" where
  "pend i st = (if map_get (sc_pending st) i = None then 0 else 1)"

definition settled_in :: "jsstr \<Rightarrow> sc_out list \<Rightarrow> nat" where
  "settled_in i out = length (filter (settles i) out)"

lemma settled_in_simps [simp]:
  "settled_in i [] = 0" "settled_in i (a @ b) = settled_in i a + settled_in i b"
  "settled_in i (x # out) = (if settles i x then 1 else 0) + settled_in i out"
  by (simp_all add: settled_in_def)

text \<open>Settled and still pending are together what was pending.\<close>

definition accounted :: "jsstr \<Rightarrow> shared_control \<Rightarrow> sc_result \<Rightarrow> bool" where
  "accounted i st r \<longleftrightarrow> (distinct (map fst (sc_pending st)) \<longrightarrow>
     distinct (map fst (sc_pending (fst r))) \<and> settled_in i (snd r) + pend i (fst r) = pend i st)"

interpretation acc: composing "accounted i" for i
  by unfold_locales (auto simp: accounted_def)

lemma accounted_silent:
  "sc_pending st' = sc_pending st \<Longrightarrow> settled_in i out = 0 \<Longrightarrow> accounted i st (st', out)"
  by (simp add: accounted_def pend_def)

lemma accounted_from: "sc_pending st' = sc_pending st \<Longrightarrow> accounted i st' r \<Longrightarrow> accounted i st r"
  by (simp add: accounted_def pend_def)

lemma accounted_reject: "accounted i st (rejectSharedControlPendingRequest j e st)"
  by (auto simp: accounted_def rejectSharedControlPendingRequest_def pend_def distinct_map_delete)

lemma accounted_resolve: "accounted i st (resolveSharedControlPendingResponse j r st)"
  by (auto simp: accounted_def resolveSharedControlPendingResponse_def pend_def distinct_map_delete)

lemma settled_reject_all:
  "distinct (map fst qs) \<Longrightarrow> settled_in i (map (\<lambda>(j, _). OReject j e) qs) = (if map_get qs i = None then 0 else 1)"
  by (induction qs) (auto simp: map_get_def map_of_eq_None_iff image_iff)

lemma accounted_reject_all: "accounted i st (rejectAllSharedControlPendingRequests err st)"
  by (auto simp: accounted_def rejectAllSharedControlPendingRequests_def Let_def pend_def settled_reject_all)

lemma settled_send [simp]: "\<not> settles i p \<Longrightarrow> settled_in i (snd (sendEncrypted E p st)) = 0"
  by (simp add: sendEncrypted_def)

lemma settled_send_eq: "sendEncrypted E p st = (b, out) \<Longrightarrow> \<not> settles i p \<Longrightarrow> settled_in i out = 0"
  by (auto simp: sendEncrypted_def split: if_splits)

lemma accounted_finish: "accounted i st (finishSharedControlSubscription j b err st)"
  unfolding finishSharedControlSubscription_def
  by (auto intro!: accounted_silent split: option.split)

lemma accounted_cleanup: "accounted i st (sendSharedControlCleanupRequest E c st)"
  by (simp add: sendSharedControlCleanupRequest_def accounted_silent)

lemma accounted_send_request: "accounted i st (sendSharedControlRequest E j m p st)"
  by (auto simp: sendSharedControlRequest_def accounted_reject acc.keeps_same settled_send_eq intro!: accounted_silent
      split: prod.split bool.split)

lemma sc_pending_set_sub [simp]: "sc_pending (set_sub j s st) = sc_pending st"
  by (simp add: set_sub_def)

lemma accounted_set_sub: "accounted i (set_sub j s st) r \<Longrightarrow> accounted i st r"
  by (rule accounted_from) simp_all

lemma accounted_send_subscription: "accounted i st (sendSharedControlSubscription E j st)"
  by (auto simp: sendSharedControlSubscription_def acc.keeps_same accounted_finish settled_send_eq intro!: accounted_silent
      split: option.split prod.split bool.split)

lemma accounted_close_subscription: "accounted i st (closeSubscription E j st)"
  unfolding closeSubscription_def closeSharedControlLogicalSubscription_def
  by (auto intro!: acc.keeps_then acc.keeps_same accounted_finish accounted_cleanup accounted_silent split: option.split)

lemma accounted_logical: "accounted i st (handleSharedControlLogicalResponse E j s response st)"
proof -
  have set: "accounted i st (set_sub j s' st, [])" for s' by (rule accounted_silent) simp_all
  have say: "accounted i st (set_sub j s' st, [OSubResponse j r])" for s' r by (rule accounted_silent) simp_all
  have quiet: "accounted i x (emit_quiet id x)" for x by (simp add: emit_quiet_def acc.keeps_same)
  show ?thesis
    unfolding handleSharedControlLogicalResponse_def handleSharedControlSubscriptionResponse_def Let_def
    by (auto intro!: acc.keeps_then accounted_finish set say quiet acc.keeps_same accounted_set_sub [OF accounted_cleanup] split: option.split)
qed

lemma accounted_quietly: "(\<And>x. sc_pending (f x) = sc_pending x) \<Longrightarrow> accounted i st (emit_quiet f st)"
  by (simp add: emit_quiet_def accounted_silent)

lemma accounted_replay: "accounted i st (replaySubscriptions E st)"
proof -
  have "accounted i x (replay_one E b j x)" for b j x
    unfolding replay_one_def
    by (auto simp: acc.keeps_same Let_def intro!: accounted_set_sub [OF accounted_send_subscription] split: option.split)
  then show ?thesis
    unfolding replaySubscriptions_def by (intro acc.keeps_then acc.keeps_each accounted_quietly) simp_all
qed

lemma sc_pending_waiters [simp]:
  "sc_pending (rejectSharedControlReadyWaiters e st) = sc_pending st" "sc_pending (resolveSharedControlReadyWaiters st) = sc_pending st"
  "sc_pending (markSharedControlSubscriptionsUnsent st) = sc_pending st"
  by (simp_all add: rejectSharedControlReadyWaiters_def resolveSharedControlReadyWaiters_def markSharedControlSubscriptionsUnsent_def)

lemma accounted_close_socket: "accounted i st (closeSocket err st)"
proof -
  have one: "accounted i x (finish_closing j x)" for j x
    by (auto simp: finish_closing_def acc.keeps_same accounted_finish split: option.split)
  have all: "accounted i x (finishCloseAfterReadySubscriptions (x\<lparr>sc_stableTimer := False\<rparr>))" for x
    unfolding finishCloseAfterReadySubscriptions_def
    by (rule accounted_from [OF _ acc.keeps_each [OF one]]) simp
  have state: "accounted i x (closeSharedControlSocketState err x)" for x
    unfolding closeSharedControlSocketState_def
    by (intro acc.keeps_then accounted_from [OF _ accounted_reject_all])
      (auto intro!: accounted_silent split: option.split)
  show ?thesis unfolding closeSocket_def by (intro acc.keeps_then all state accounted_quietly) simp
qed

lemma accounted_schedule: "accounted i st (scheduleReconnect st)"
proof -
  have "accounted i x (emit_quiet (\<lambda>st. st\<lparr>sc_reconnectTimer := False\<rparr>) x)" for x by (rule accounted_quietly) simp
  then show ?thesis
    unfolding scheduleReconnect_def scheduleSharedControlReconnect_def
    by (auto intro!: acc.keeps_then acc.keeps_each accounted_finish acc.keeps_same accounted_silent)
qed

lemma accounted_socket_closed: "accounted i st (handleSocketClosed err st)"
  unfolding handleSocketClosed_def
  by (auto intro!: acc.keeps_then accounted_close_socket accounted_schedule acc.keeps_same)

lemma accounted_open: "accounted i st (sc_open E st)"
  unfolding sc_open_def Let_def
  by (auto intro!: accounted_silent accounted_from [OF _ accounted_socket_closed] split: option.split)

lemma accounted_ensure: "accounted i st (ensureReady E w st)"
  unfolding ensureReady_def Let_def
  by (auto intro!: accounted_silent accounted_from [OF _ accounted_open])

lemma accounted_frame: "accounted i st (handleTextFrame E frame st)"
proof -
  have "accounted i st (dispatchSharedControlFrame E f st)" for f
    by (auto simp: dispatchSharedControlFrame_def refreshSharedControlPendingRequestTimeouts_def settled_in_def acc.keeps_same
        accounted_logical accounted_resolve intro!: accounted_silent split: rpc_frame.split option.split)
  then show ?thesis
    unfolding handleTextFrame_def Let_def
    by (auto simp: acc.keeps_same accounted_socket_closed intro!: accounted_silent accounted_from [OF _ accounted_replay]
        split: option.split parsed_frame.split sum.split)
qed

lemma accounted_close: "accounted i st (sc_close E err st)"
  unfolding sc_close_def Let_def
  by (rule accounted_from [of "st\<lparr>sc_intentionallyClosed := True, sc_reconnectTimer := False\<rparr>"])
    (auto intro!: acc.keeps_then acc.keeps_each accounted_close_subscription accounted_close_socket)

lemma accounted_job: "accounted i st (run_job E j st)"
proof -
  have say: "accounted i x (x, [OSubStarted k])" "accounted i x (x, [OSubFailed k e])" for x k e by (rule accounted_silent; simp)+
  show ?thesis
    by (cases "(E, j, st)" rule: run_job.cases)
      (auto simp: accounted_send_request accounted_reject say intro!: acc.keeps_then accounted_send_subscription accounted_finish)
qed

fun requested :: "sc_event \<Rightarrow> jsstr list" where
  "requested (ScRequest i m p r) = [i]"
| "requested _ = []"

fun requested_run :: "(sc_env \<times> sc_event) list \<Rightarrow> jsstr list" where
  "requested_run [] = []"
| "requested_run ((E, e) # es) = requested e @ requested_run es"

lemma count_list_distinct: "distinct xs \<Longrightarrow> count_list xs x = (if x \<in> set xs then 1 else 0)"
  by (induction xs) auto

lemma accounted_step:
  assumes "distinct (map fst (sc_pending st))" and "\<forall>j\<in>set (requested e). map_get (sc_pending st) j = None"
  shows "distinct (map fst (sc_pending (fst (sc_step E e st))))"
    and "settled_in i (snd (sc_step E e st)) + pend i (fst (sc_step E e st)) = pend i st + count_list (requested e) i"
proof -
  have "distinct (map fst (sc_pending (fst (sc_step E e st)))) \<and>
    settled_in i (snd (sc_step E e st)) + pend i (fst (sc_step E e st)) = pend i st + count_list (requested e) i"
  proof (cases e)
    case (ScRequest j m p r)
    let ?s = "st\<lparr>sc_pending := map_set j \<lparr>pq_method = m, pq_refresh = r\<rparr> (sc_pending st)\<rparr>"
    have "accounted i ?s (sc_step E e st)" using ScRequest accounted_ensure by simp
    moreover have "distinct (map fst (sc_pending ?s))" using assms(1) by (simp add: distinct_map_set)
    ultimately show ?thesis using assms(2) ScRequest by (auto simp: accounted_def pend_def split: if_splits)
  next
    case (ScSubscribe j m p)
    have "accounted i st (sc_step E e st)" using ScSubscribe by (simp add: accounted_set_sub [OF accounted_ensure])
    then show ?thesis using assms(1) ScSubscribe by (simp add: accounted_def)
  next
    case ScJob
    have "accounted i st (sc_step E e st)"
      using accounted_from [OF _ accounted_job] acc.keeps_same by (auto simp: ScJob split: list.split)
    then show ?thesis using assms(1) ScJob by (simp add: accounted_def)
  next
    case ScReconnect
    have "accounted i st (sc_step E e st)"
      using accounted_from [OF _ accounted_open, of "st\<lparr>sc_reconnectTimer := False\<rparr>"] acc.keeps_same by (simp add: ScReconnect)
    then show ?thesis using assms(1) ScReconnect by (simp add: accounted_def)
  next
    case (ScFrame w frame)
    have "accounted i st (sc_step E e st)" by (simp add: ScFrame accounted_frame acc.keeps_same)
    then show ?thesis using assms(1) ScFrame by (simp add: accounted_def)
  next
    case (ScSocketClosed w err)
    have "accounted i st (sc_step E e st)" by (simp add: ScSocketClosed accounted_socket_closed acc.keeps_same)
    then show ?thesis using assms(1) ScSocketClosed by (simp add: accounted_def)
  next
    case (ScRequestTimeout j)
    then show ?thesis using assms(1) accounted_reject [of i st] by (simp add: accounted_def)
  next
    case (ScCloseSubscription j)
    then show ?thesis using assms(1) accounted_close_subscription [of i st] by (simp add: accounted_def)
  next
    case (ScClose err)
    then show ?thesis using assms(1) accounted_close [of i st] by (simp add: accounted_def)
  qed (use assms(1) in \<open>simp_all add: pend_def\<close>)
  then show "distinct (map fst (sc_pending (fst (sc_step E e st))))"
    and "settled_in i (snd (sc_step E e st)) + pend i (fst (sc_step E e st)) = pend i st + count_list (requested e) i"
    by blast+
qed

lemma pend_0: "pend i st = 0 \<longleftrightarrow> map_get (sc_pending st) i = None"
  by (simp add: pend_def)

lemma accounted_run:
  assumes "distinct (map fst (sc_pending st))" and "distinct (requested_run es)"
    and "\<forall>j\<in>set (requested_run es). map_get (sc_pending st) j = None"
  shows "settled_in i (snd (sc_run es st)) + pend i (fst (sc_run es st)) = pend i st + count_list (requested_run es) i"
  using assms
proof (induction es arbitrary: st)
  case (Cons x es)
  obtain E e where x: "x = (E, e)" by fastforce
  let ?st1 = "fst (sc_step E e st)"
  have pre: "\<forall>j\<in>set (requested e). map_get (sc_pending st) j = None" using Cons.prems(3) by (simp add: x)
  note step = accounted_step [OF Cons.prems(1) pre]
  have "map_get (sc_pending ?st1) j = None" if j: "j \<in> set (requested_run es)" for j
  proof -
    have "j \<notin> set (requested e)" using j Cons.prems(2) by (auto simp: x)
    then have "pend j ?st1 \<le> 0" using step(2) [where i = j and E = E] Cons.prems(3) j pend_0 [of j st] by (simp add: x)
    then show ?thesis by (simp add: pend_0)
  qed
  then have "settled_in i (snd (sc_run es ?st1)) + pend i (fst (sc_run es ?st1)) =
      pend i ?st1 + count_list (requested_run es) i"
    using Cons.prems(2) by (intro Cons.IH step(1)) (auto simp: x)
  with step(2) [where i = i and E = E] show ?case by (simp add: x)
qed simp

text \<open>
  C15: Every request of a caller is settled exactly once or is still pending.  With identifiers that are not used
  twice, over any interleaving of requests, answers, timeouts, socket failures, reconnects and closes, the number
  of times a request was resolved or rejected, and one more if it is pending, is one for a request that was made
  and none for one that was not.
\<close>

theorem requests_settle_once:
  assumes "distinct (requested_run es)" and "sc_run es new_connection = (st, out)"
  shows "length (filter (settles i) out) + (if map_get (sc_pending st) i = None then 0 else 1) =
    (if i \<in> set (requested_run es) then 1 else 0)"
  using accounted_run [of new_connection es i] assms
  by (simp add: new_connection_def settled_in_def pend_def count_list_distinct)

text \<open>One request answered, one rejected with its socket, one that never got a socket.\<close>

definition demo_env :: "nat option \<Rightarrow> js_value option \<Rightarrow> rpc_response option \<Rightarrow> sc_env" where
  "demo_env opened json envelope =
     \<lparr>se_open = True, se_closing = False, se_opened = opened, se_uuid = js ''u'', se_decrypt = Some,
      se_json = (\<lambda>_. json), se_envelope = (\<lambda>_. envelope)\<rparr>"

definition typed_frame :: "string \<Rightarrow> js_value" where
  "typed_frame t = VObj [(js ''type'', VStr (js t))]"

definition demo_requests :: "(sc_env \<times> sc_event) list" where
  "demo_requests =
     (let up = demo_env (Some 7) None None; ready = demo_env None (Some (typed_frame ''e2ee_ready'')) None;
          authed = demo_env None (Some (typed_frame ''e2ee_authenticated'')) None;
          answer = demo_env None (Some VNull) (Some \<lparr>rr_id = js ''a'', rr_ok = True, rr_result = VNull, rr_replayed = False\<rparr>);
          down = demo_env None None None
      in [(up, ScRequest (js ''a'') (js ''m'') VNull False), (ready, ScFrame 7 (js ''x'')), (authed, ScFrame 7 (js ''x'')),
          (up, ScJob), (up, ScRequest (js ''b'') (js ''m'') VNull False), (answer, ScFrame 7 (js ''x'')),
          (down, ScSocketClosed 7 RuntimeUnavailable), (down, ScRequest (js ''c'') (js ''m'') VNull False)])"

theorem requests_settle_once_witness:
  "snd (sc_run demo_requests new_connection) =
     [OSendAuth, OSend (js ''a'') (js ''m'') VNull,
      OResolve (js ''a'') \<lparr>rr_id = js ''a'', rr_ok = True, rr_result = VNull, rr_replayed = False\<rparr>,
      OReject (js ''b'') RuntimeUnavailable, OSocketClose 7, OReject (js ''c'') RuntimeUnavailable] \<and>
   length (filter (settles (js ''b'')) (snd (sc_run demo_requests new_connection))) +
     (if map_get (sc_pending (fst (sc_run demo_requests new_connection))) (js ''b'') = None then 0 else 1) =
     (if js ''b'' \<in> set (requested_run demo_requests) then 1 else 0)"
proof (rule conjI)
  show "snd (sc_run demo_requests new_connection) =
     [OSendAuth, OSend (js ''a'') (js ''m'') VNull,
      OResolve (js ''a'') \<lparr>rr_id = js ''a'', rr_ok = True, rr_result = VNull, rr_replayed = False\<rparr>,
      OReject (js ''b'') RuntimeUnavailable, OSocketClose 7, OReject (js ''c'') RuntimeUnavailable]"
    by code_simp
  have "distinct (requested_run demo_requests)" by code_simp
  then show "length (filter (settles (js ''b'')) (snd (sc_run demo_requests new_connection))) +
     (if map_get (sc_pending (fst (sc_run demo_requests new_connection))) (js ''b'') = None then 0 else 1) =
     (if js ''b'' \<in> set (requested_run demo_requests) then 1 else 0)"
    by (rule requests_settle_once) simp
qed

end
