(* ===== verification/Shared_Control_Restore.thy ===== *)
theory Shared_Control_Restore
  imports Shared_Control_Props
begin

text \<open>
  What is left when the socket is gone: nobody waits, every request still listed is about to be rejected, and the
  subscriptions have a reconnect ahead of them, until the attempts are used up and they are reported lost.
\<close>

subsection \<open>Steps that only settle\<close>

text \<open>The socket, the waiters, the timers and the queued jobs are what they were, and no identifier is new.\<close>

definition control_of :: "shared_control \<Rightarrow> connection_state \<times> nat option \<times> bool \<times> nat \<times> bool \<times> waiter list \<times> job list" where
  "control_of st = (sc_state st, sc_socket st, sc_reconnectTimer st, sc_reconnectAttempt st, sc_intentionallyClosed st, sc_waiters st, sc_jobs st)"

definition lives :: "jsstr \<Rightarrow> shared_control \<Rightarrow> bool" where
  "lives i st \<longleftrightarrow> map_get (sc_subs st) i \<noteq> None"

definition waits :: "jsstr \<Rightarrow> shared_control \<Rightarrow> bool" where
  "waits i st \<longleftrightarrow> map_get (sc_pending st) i \<noteq> None"

lemma lives_update [simp]:
  "lives i (st\<lparr>sc_pending := x0\<rparr>) = lives i st"
  "lives i (st\<lparr>sc_waiters := x1\<rparr>) = lives i st"
  "lives i (st\<lparr>sc_jobs := x2\<rparr>) = lives i st"
  "lives i (st\<lparr>sc_reconnectTimer := x3\<rparr>) = lives i st"
  "lives i (st\<lparr>sc_stableTimer := x4\<rparr>) = lives i st"
  "lives i (st\<lparr>sc_reconnectAttempt := x5\<rparr>) = lives i st"
  by (simp_all add: lives_def)

lemma waits_update [simp]:
  "waits i (st\<lparr>sc_waiters := x0\<rparr>) = waits i st"
  "waits i (st\<lparr>sc_jobs := x1\<rparr>) = waits i st"
  "waits i (st\<lparr>sc_reconnectTimer := x2\<rparr>) = waits i st"
  "waits i (st\<lparr>sc_stableTimer := x3\<rparr>) = waits i st"
  "waits i (st\<lparr>sc_reconnectAttempt := x4\<rparr>) = waits i st"
  "waits i (st\<lparr>sc_pending := map_set j q (sc_pending st)\<rparr>) \<longleftrightarrow> i = j \<or> waits i st"
  by (auto simp: waits_def)

definition only_settles :: "shared_control \<Rightarrow> sc_result \<Rightarrow> bool" where
  "only_settles st r \<longleftrightarrow> control_of (fst r) = control_of st \<and>
     (\<forall>i. (lives i (fst r) \<longrightarrow> lives i st) \<and> (waits i (fst r) \<longrightarrow> waits i st))"

interpretation settling: composing only_settles
  by unfold_locales (auto simp: only_settles_def)

named_theorems settling_facts

lemma settling_unchanged [settling_facts]:
  "control_of st' = control_of st \<Longrightarrow> sc_subs st' = sc_subs st \<Longrightarrow> sc_pending st' = sc_pending st \<Longrightarrow> only_settles st (st', out)"
  by (simp add: only_settles_def lives_def waits_def)

lemma settling_reject [settling_facts]: "only_settles st (rejectSharedControlPendingRequest i err st)"
  by (auto simp: only_settles_def rejectSharedControlPendingRequest_def control_of_def lives_def waits_def)

lemma settling_resolve [settling_facts]: "only_settles st (resolveSharedControlPendingResponse i r st)"
  by (auto simp: only_settles_def resolveSharedControlPendingResponse_def control_of_def lives_def waits_def)

lemma settling_finish [settling_facts]: "only_settles st (finishSharedControlSubscription i b err st)"
  by (auto simp: only_settles_def finishSharedControlSubscription_def control_of_def lives_def waits_def)

lemma settling_cleanup [settling_facts]: "only_settles st (sendSharedControlCleanupRequest E c st)"
  by (simp add: sendSharedControlCleanupRequest_def settling_unchanged)

lemma control_of_set_sub [simp]: "control_of (set_sub i s st) = control_of st"
  by (simp add: control_of_def set_sub_def)

lemma lives_set_sub: "lives j (set_sub i s st) \<longleftrightarrow> j = i \<or> lives j st"
  by (auto simp: lives_def set_sub_def)

lemma waits_set_sub [simp]: "waits j (set_sub i s st) = waits j st"
  by (simp add: waits_def)

lemma settling_set_sub: "lives i st \<Longrightarrow> only_settles (set_sub i s st) r \<Longrightarrow> only_settles st r"
  by (auto simp: only_settles_def lives_set_sub)

lemma settling_set: "lives i st \<Longrightarrow> only_settles st (set_sub i s st, out)"
  by (auto simp: only_settles_def lives_set_sub)

lemma settling_send_request [settling_facts]: "only_settles st (sendSharedControlRequest E i m p st)"
  by (auto simp: sendSharedControlRequest_def settling.keeps_same settling_reject intro!: settling_unchanged
      split: prod.split bool.split)

lemma settling_send_subscription [settling_facts]: "only_settles st (sendSharedControlSubscription E i st)"
  by (auto simp: sendSharedControlSubscription_def settling.keeps_same settling_finish intro!: settling_set
      split: option.split prod.split bool.split) (simp add: lives_def)

lemma settling_close_subscription [settling_facts]: "only_settles st (closeSubscription E i st)"
  unfolding closeSubscription_def closeSharedControlLogicalSubscription_def
  by (auto intro!: settling.keeps_then settling.keeps_same settling_facts settling_set split: option.split)
    (simp_all add: lives_def)

lemma settling_logical:
  assumes "lives i st"
  shows "only_settles st (handleSharedControlLogicalResponse E i s response st)"
proof -
  have quiet: "only_settles x (emit_quiet id x)" for x by (simp add: emit_quiet_def settling.keeps_same)
  show ?thesis
    using assms
    unfolding handleSharedControlLogicalResponse_def handleSharedControlSubscriptionResponse_def Let_def
    by (auto intro!: settling.keeps_then settling_finish settling_set quiet settling.keeps_same
        settling_set_sub [OF _ settling_cleanup] split: option.split)
qed

lemma settling_replay_one [settling_facts]: "only_settles st (replay_one E b i st)"
proof (cases "map_get (sc_subs st) i")
  case (Some s)
  then have "lives i st" by (simp add: lives_def)
  then show ?thesis
    using Some by (simp add: replay_one_def Let_def settling.keeps_same settling_set_sub [OF _ settling_send_subscription])
qed (simp add: replay_one_def settling.keeps_same)

lemma settling_replay [settling_facts]: "only_settles st (replaySubscriptions E st)"
proof -
  have "only_settles x (emit_quiet (\<lambda>st. st\<lparr>sc_everReady := True\<rparr>) x)" for x
    by (simp add: emit_quiet_def settling_unchanged control_of_def)
  then show ?thesis unfolding replaySubscriptions_def by (intro settling.keeps_then settling.keeps_each settling_replay_one)
qed

lemma settling_finish_closing [settling_facts]: "only_settles st (finish_closing i st)"
  by (auto simp: finish_closing_def settling.keeps_same settling_finish split: option.split)

lemma settling_dispatch: "only_settles st (dispatchSharedControlFrame E f st)"
  by (auto simp: dispatchSharedControlFrame_def refreshSharedControlPendingRequestTimeouts_def settling.keeps_same
      settling_resolve lives_def intro!: settling_logical settling_unchanged split: rpc_frame.split option.split)

subsection \<open>Subscriptions taken out one after the other\<close>

lemma get_finish [simp]:
  "map_get (sc_subs (fst (finishSharedControlSubscription i b e st))) j = (if i = j then None else map_get (sc_subs st) j)"
  by (auto simp: finishSharedControlSubscription_def)

lemma get_finish_all:
  "map_get (sc_subs (fst (emit_each (\<lambda>i. finishSharedControlSubscription i b e) ks st))) j =
     (if j \<in> set ks then None else map_get (sc_subs st) j)"
  by (induction ks arbitrary: st) auto

definition done_or_closing :: "jsstr \<Rightarrow> shared_control \<Rightarrow> bool" where
  "done_or_closing i st \<longleftrightarrow> (case map_get (sc_subs st) i of None \<Rightarrow> True | Some s \<Rightarrow> sb_closeAfterReady s)"

lemma get_finish_closing:
  "map_get (sc_subs (fst (emit_each finish_closing ks st))) j =
     (if j \<in> set ks \<and> done_or_closing j st then None else map_get (sc_subs st) j)"
proof (induction ks arbitrary: st)
  case (Cons k ks)
  have one: "map_get (sc_subs (fst (finish_closing k st))) j = (if k = j \<and> done_or_closing j st then None else map_get (sc_subs st) j)"
    by (auto simp: finish_closing_def done_or_closing_def split: option.split)
  then show ?case by (auto simp: Cons.IH done_or_closing_def)
qed simp

lemma sc_subs_cleanup [simp]: "sc_subs (fst (sendSharedControlCleanupRequest E c st)) = sc_subs st"
  by (simp add: sendSharedControlCleanupRequest_def)

lemma get_set_sub [simp]: "map_get (sc_subs (set_sub i s st)) j = (if i = j then Some s else map_get (sc_subs st) j)"
  by (simp add: set_sub_def)

lemma closing_close_subscription: "done_or_closing i st \<or> i = j \<Longrightarrow> done_or_closing i (fst (closeSubscription E j st))"
  by (auto simp: closeSubscription_def closeSharedControlLogicalSubscription_def done_or_closing_def split: option.splits)

lemma closing_close_all: "done_or_closing i st \<or> i \<in> set ks \<Longrightarrow> done_or_closing i (fst (emit_each (closeSubscription E) ks st))"
  by (induction ks arbitrary: st) (auto simp: closing_close_subscription)

lemma lives_in_keys: "lives i st \<longleftrightarrow> i \<in> fst ` set (sc_subs st)"
  by (auto simp: lives_def map_get_None)

subsection \<open>Losing the socket\<close>

lemma settles_control:
  assumes "only_settles st r"
  shows "sc_socket (fst r) = sc_socket st" and "sc_reconnectTimer (fst r) = sc_reconnectTimer st"
    and "sc_reconnectAttempt (fst r) = sc_reconnectAttempt st" and "sc_intentionallyClosed (fst r) = sc_intentionallyClosed st"
    and "sc_waiters (fst r) = sc_waiters st" and "sc_jobs (fst r) = sc_jobs st"
  using assms by (simp_all add: only_settles_def control_of_def)

lemma get_unsent:
  "map_get (map (\<lambda>(j, s). (j, s\<lparr>sb_sent := False\<rparr>)) subs) i = map_option (\<lambda>s. s\<lparr>sb_sent := False\<rparr>) (map_get subs i)"
  by (induction subs) (auto simp: map_get_def)

lemma close_socket_state:
  fixes st :: shared_control and err :: "client_error option"
  defines "r \<equiv> fst (closeSocket err st)"
  shows "sc_socket r = None" and "sc_waiters r = []" and "sc_pending r = []"
    and "sc_reconnectTimer r = sc_reconnectTimer st" and "sc_reconnectAttempt r = sc_reconnectAttempt st"
    and "sc_intentionallyClosed r = sc_intentionallyClosed st"
    and "sc_jobs r = sc_jobs st @ map (\<lambda>w. JobFailed w (case err of None \<Rightarrow> RuntimeUnavailable | Some e \<Rightarrow> e)) (sc_waiters st)"
    and "lives i r \<longleftrightarrow> lives i st \<and> \<not> done_or_closing i st" and "done_or_closing i r \<longleftrightarrow> done_or_closing i st"
proof -
  let ?st0 = "st\<lparr>sc_stableTimer := False\<rparr>"
  let ?st1 = "fst (finishCloseAfterReadySubscriptions ?st0)"
  have "only_settles ?st0 (finishCloseAfterReadySubscriptions ?st0)"
    unfolding finishCloseAfterReadySubscriptions_def by (intro settling.keeps_each settling_finish_closing)
  note same = settles_control [OF this]
  have r: "r = markSharedControlSubscriptionsUnsent ((rejectSharedControlReadyWaiters (case err of None \<Rightarrow> RuntimeUnavailable | Some e \<Rightarrow> e) ?st1)
      \<lparr>sc_pending := []\<rparr>)\<lparr>sc_socket := None, sc_state := Closed\<rparr>"
    by (simp add: r_def closeSocket_def closeSharedControlSocketState_def rejectAllSharedControlPendingRequests_def Let_def)
  show "sc_socket r = None" and "sc_waiters r = []" and "sc_pending r = []"
    and "sc_reconnectTimer r = sc_reconnectTimer st" and "sc_reconnectAttempt r = sc_reconnectAttempt st"
    and "sc_intentionallyClosed r = sc_intentionallyClosed st"
    and "sc_jobs r = sc_jobs st @ map (\<lambda>w. JobFailed w (case err of None \<Rightarrow> RuntimeUnavailable | Some e \<Rightarrow> e)) (sc_waiters st)"
    by (simp_all add: r same rejectSharedControlReadyWaiters_def markSharedControlSubscriptionsUnsent_def)
  have "lives i r \<longleftrightarrow> lives i ?st1"
    by (simp add: lives_in_keys r rejectSharedControlReadyWaiters_def markSharedControlSubscriptionsUnsent_def case_prod_unfold image_image)
  also have "\<dots> \<longleftrightarrow> lives i st \<and> \<not> done_or_closing i st"
    by (auto simp: lives_def finishCloseAfterReadySubscriptions_def get_finish_closing done_or_closing_def
        lives_in_keys [of i st, unfolded lives_def, symmetric] split: option.splits)
  finally show "lives i r \<longleftrightarrow> lives i st \<and> \<not> done_or_closing i st" .
  have "done_or_closing i r \<longleftrightarrow> done_or_closing i ?st1"
    by (simp add: done_or_closing_def r rejectSharedControlReadyWaiters_def markSharedControlSubscriptionsUnsent_def get_unsent
        split: option.split)
  also have "\<dots> \<longleftrightarrow> done_or_closing i st"
    by (auto simp: finishCloseAfterReadySubscriptions_def get_finish_closing done_or_closing_def split: option.splits)
  finally show "done_or_closing i r \<longleftrightarrow> done_or_closing i st" .
qed

lemma no_subs: "sc_subs st = [] \<longleftrightarrow> (\<forall>i. \<not> lives i st)"
  by (auto simp: lives_in_keys)

lemma finish_all_state:
  fixes st :: shared_control
  defines "r \<equiv> fst (scheduleReconnect st)"
  assumes "sc_reconnectAttempt st \<ge> length reconnect_delays"
  shows "sc_subs r = []" and "sc_socket r = sc_socket st" and "sc_waiters r = sc_waiters st" and "sc_pending r = sc_pending st"
    and "sc_intentionallyClosed r = sc_intentionallyClosed st" and "sc_reconnectAttempt r = sc_reconnectAttempt st"
    and "\<not> sc_reconnectTimer r"
proof -
  let ?each = "emit_each (\<lambda>i. finishSharedControlSubscription i True (Some RuntimeNotRestored))"
  have "only_settles st (?each (map fst (sc_subs st)) st)" by (intro settling.keeps_each settling_finish)
  note same = settles_control [OF this]
  have pending: "sc_pending (fst (?each ks x)) = sc_pending x" for ks x
    by (induction ks arbitrary: x) (simp_all add: finishSharedControlSubscription_def)
  have r: "r = (fst (?each (map fst (sc_subs st)) st))\<lparr>sc_reconnectTimer := False\<rparr>"
    using assms by (simp add: r_def scheduleReconnect_def)
  show "sc_socket r = sc_socket st" and "sc_waiters r = sc_waiters st" and "sc_pending r = sc_pending st"
    and "sc_intentionallyClosed r = sc_intentionallyClosed st" and "sc_reconnectAttempt r = sc_reconnectAttempt st"
    and "\<not> sc_reconnectTimer r" by (simp_all add: r same pending)
  have "map_get (sc_subs (fst (?each (map fst (sc_subs st)) st))) i = None" for i
    using map_get_None [of "sc_subs st" i] by (simp add: get_finish_all)
  then show "sc_subs r = []" by (simp add: r no_subs lives_def)
qed

subsection \<open>Nothing is stranded\<close>

definition fails_request :: "jsstr \<Rightarrow> shared_control \<Rightarrow> bool" where
  "fails_request i st \<longleftrightarrow> (\<exists>m p e. JobFailed (WaitRequest i m p) e \<in> set (sc_jobs st))"

definition fails_subscribe :: "jsstr \<Rightarrow> shared_control \<Rightarrow> bool" where
  "fails_subscribe i st \<longleftrightarrow> (\<exists>e. JobFailed (WaitSubscribe i) e \<in> set (sc_jobs st))"

lemma fails_update [simp]:
  "fails_request i (st\<lparr>sc_pending := x0\<rparr>) = fails_request i st"
  "fails_request i (st\<lparr>sc_waiters := x1\<rparr>) = fails_request i st"
  "fails_request i (st\<lparr>sc_reconnectTimer := x2\<rparr>) = fails_request i st"
  "fails_request i (st\<lparr>sc_stableTimer := x3\<rparr>) = fails_request i st"
  "fails_request i (st\<lparr>sc_reconnectAttempt := x4\<rparr>) = fails_request i st"
  "fails_subscribe i (st\<lparr>sc_pending := x0\<rparr>) = fails_subscribe i st"
  "fails_subscribe i (st\<lparr>sc_waiters := x1\<rparr>) = fails_subscribe i st"
  "fails_subscribe i (st\<lparr>sc_reconnectTimer := x2\<rparr>) = fails_subscribe i st"
  "fails_subscribe i (st\<lparr>sc_stableTimer := x3\<rparr>) = fails_subscribe i st"
  "fails_subscribe i (st\<lparr>sc_reconnectAttempt := x4\<rparr>) = fails_subscribe i st"
  "fails_request i (set_sub j s st) = fails_request i st" "fails_subscribe i (set_sub j s st) = fails_subscribe i st"
  "fails_request i (st\<lparr>sc_subs := y\<rparr>) = fails_request i st" "fails_subscribe i (st\<lparr>sc_subs := y\<rparr>) = fails_subscribe i st"
  by (simp_all add: fails_request_def fails_subscribe_def set_sub_def)

definition bounded_closing :: "shared_control \<Rightarrow> bool" where
  "bounded_closing st \<longleftrightarrow> sc_reconnectAttempt st \<le> length reconnect_delays \<and> (sc_intentionallyClosed st \<longrightarrow> sc_socket st = None)"

definition control_ok :: "shared_control \<Rightarrow> bool" where
  "control_ok st \<longleftrightarrow> bounded_closing st \<and> (sc_socket st = None \<longrightarrow> sc_waiters st = [] \<and>
     (\<forall>i. waits i st \<longrightarrow> fails_request i st) \<and>
     (\<forall>i. lives i st \<longrightarrow> (if sc_intentionallyClosed st then fails_subscribe i st else sc_reconnectTimer st)))"

text \<open>The same while a call has its waiter in the list and has not opened the socket.\<close>

definition opening_ok :: "shared_control \<Rightarrow> bool" where
  "opening_ok st \<longleftrightarrow> bounded_closing st \<and> (sc_intentionallyClosed st \<longrightarrow>
     (\<forall>i. waits i st \<longrightarrow> fails_request i st \<or> (\<exists>m p. WaitRequest i m p \<in> set (sc_waiters st))) \<and>
     (\<forall>i. lives i st \<longrightarrow> fails_subscribe i st \<or> WaitSubscribe i \<in> set (sc_waiters st)))"

lemma connected_ok: "bounded_closing st \<Longrightarrow> sc_socket st \<noteq> None \<Longrightarrow> control_ok st"
  by (auto simp: control_ok_def)

lemma settling_ok: "only_settles st r \<Longrightarrow> control_ok st \<Longrightarrow> control_ok (fst r)"
  by (auto simp: only_settles_def control_of_def control_ok_def bounded_closing_def fails_request_def fails_subscribe_def)

lemma settling_connected: "only_settles st r \<Longrightarrow> bounded_closing st \<Longrightarrow> sc_socket st \<noteq> None \<Longrightarrow> control_ok (fst r)"
  by (rule settling_ok [OF _ connected_ok])

lemma socket_closed_ok:
  assumes "sc_reconnectAttempt st \<le> length reconnect_delays" and "\<not> sc_intentionallyClosed st"
  shows "control_ok (fst (handleSocketClosed err st))"
proof -
  let ?c = "fst (closeSocket (Some err) st)"
  note c = close_socket_state [where err = "Some err" and st = st]
  consider "sc_subs ?c = []" | "sc_subs ?c \<noteq> []" "sc_reconnectAttempt ?c \<ge> length reconnect_delays"
    | "sc_subs ?c \<noteq> []" "sc_reconnectAttempt ?c < length reconnect_delays" by linarith
  then show ?thesis
  proof cases
    case 1
    then show ?thesis
      using assms c(1-3,5,6) no_subs [of ?c] by (auto simp: handleSocketClosed_def control_ok_def bounded_closing_def waits_def)
  next
    case 2
    note f = finish_all_state [OF 2(2)]
    show ?thesis
      using assms 2(1) c(1-3,5,6) f no_subs [of "fst (scheduleReconnect ?c)"]
      by (auto simp: handleSocketClosed_def control_ok_def bounded_closing_def waits_def)
  next
    case 3
    then show ?thesis
      using assms c(1-6)
      by (auto simp: handleSocketClosed_def control_ok_def bounded_closing_def waits_def scheduleReconnect_def
          scheduleSharedControlReconnect_def)
  qed
qed

lemma open_ok: "opening_ok st \<Longrightarrow> control_ok (fst (sc_open E st))"
proof (cases "sc_intentionallyClosed st")
  case True
  assume "opening_ok st"
  then show ?thesis
    using True
    by (fastforce simp: sc_open_def opening_ok_def control_ok_def bounded_closing_def rejectSharedControlReadyWaiters_def
        waits_def lives_def fails_request_def fails_subscribe_def image_iff)
next
  case False
  assume "opening_ok st"
  then show ?thesis
    using False socket_closed_ok [of "st\<lparr>sc_reconnectTimer := False\<rparr>" RuntimeUnavailable]
    by (auto simp: sc_open_def opening_ok_def control_ok_def bounded_closing_def Let_def split: option.split)
qed

lemma ensure_ok: "opening_ok (st\<lparr>sc_waiters := sc_waiters st @ [w]\<rparr>) \<Longrightarrow> control_ok (fst (ensureReady E w st))"
  using open_ok [of "st\<lparr>sc_waiters := sc_waiters st @ [w]\<rparr>" E]
  by (auto simp: ensureReady_def Let_def isSharedControlReady_def opening_ok_def bounded_closing_def intro!: connected_ok)

lemma text_frame_ok:
  assumes "bounded_closing st" and "sc_socket st \<noteq> None"
  shows "control_ok (fst (handleTextFrame E frame st))"
proof -
  have closed: "control_ok (fst (handleSocketClosed err st))" for err
    using assms by (intro socket_closed_ok) (auto simp: bounded_closing_def)
  have state: "control_ok (st\<lparr>sc_state := s\<rparr>)" for s using assms by (intro connected_ok) (auto simp: bounded_closing_def)
  have replay: "control_ok (fst (replaySubscriptions E (resolveSharedControlReadyWaiters (st\<lparr>sc_state := s, sc_stableTimer := b\<rparr>))))" for s b
    using assms by (intro settling_connected [OF settling_replay]) (simp_all add: resolveSharedControlReadyWaiters_def bounded_closing_def)
  show ?thesis
    unfolding handleTextFrame_def Let_def
    using assms closed state replay settling_connected [OF settling_dispatch]
    by (auto intro: connected_ok split: option.split parsed_frame.split sum.split)
qed

lemma close_ok: "bounded_closing st \<Longrightarrow> control_ok (fst (sc_close E err st))"
proof -
  assume ok: "bounded_closing st"
  let ?st1 = "st\<lparr>sc_intentionallyClosed := True, sc_reconnectTimer := False\<rparr>"
  let ?c = "fst (emit_each (closeSubscription E) (map fst (sc_subs ?st1)) ?st1)"
  have settles: "only_settles ?st1 (emit_each (closeSubscription E) (map fst (sc_subs ?st1)) ?st1)"
    by (intro settling.keeps_each settling_close_subscription)
  note same = settles_control [OF this]
  note c = close_socket_state [where err = err and st = ?c]
  have "done_or_closing i ?c" for i
    using closing_close_all [of i ?st1 "map fst (sc_subs ?st1)" E] lives_in_keys [of i ?st1]
    by (cases "lives i ?st1") (auto simp: lives_def done_or_closing_def)
  then show ?thesis
    using ok c same by (simp add: sc_close_def Let_def control_ok_def bounded_closing_def waits_def)
qed

lemma fails_after_job:
  assumes "sc_jobs st = j # rest"
  shows "fails_request i st \<longleftrightarrow> fails_request i (st\<lparr>sc_jobs := rest\<rparr>) \<or> (\<exists>m p e. j = JobFailed (WaitRequest i m p) e)"
    and "fails_subscribe i st \<longleftrightarrow> fails_subscribe i (st\<lparr>sc_jobs := rest\<rparr>) \<or> (\<exists>e. j = JobFailed (WaitSubscribe i) e)"
  using assms by (auto simp: fails_request_def fails_subscribe_def)

lemma settling_say: "only_settles st r \<Longrightarrow> only_settles st (emit_then r (\<lambda>st. (st, out st)))"
  by (intro settling.keeps_then) (auto intro: settling_unchanged)

lemma settling_job: "only_settles st (run_job E j st)"
  by (cases "(E, j, st)" rule: run_job.cases) (auto intro!: settling_say settling_facts)

lemma failed_job_settles:
  "\<not> waits i (fst (run_job E (JobFailed (WaitRequest i m p) e) st))"
  "\<not> lives i (fst (run_job E (JobFailed (WaitSubscribe i) e) st))"
  by (simp_all add: waits_def lives_def rejectSharedControlPendingRequest_def)

lemma job_ok:
  assumes "control_ok st" and "sc_jobs st = j # rest"
  shows "control_ok (fst (run_job E j (st\<lparr>sc_jobs := rest\<rparr>)))"
proof (cases "sc_socket st")
  case (Some w)
  with assms show ?thesis by (intro settling_connected [OF settling_job]) (simp_all add: control_ok_def bounded_closing_def)
next
  case None
  let ?r = "fst (run_job E j (st\<lparr>sc_jobs := rest\<rparr>))"
  have settles: "only_settles (st\<lparr>sc_jobs := rest\<rparr>) (run_job E j (st\<lparr>sc_jobs := rest\<rparr>))" by (rule settling_job)
  note same = settles_control [OF settles, simplified]
  have less: "lives i ?r \<Longrightarrow> lives i st" "waits i ?r \<Longrightarrow> waits i st" for i
    using settles by (auto simp: only_settles_def lives_def waits_def)
  have kept: "fails_request i ?r = fails_request i (st\<lparr>sc_jobs := rest\<rparr>)" "fails_subscribe i ?r = fails_subscribe i (st\<lparr>sc_jobs := rest\<rparr>)" for i
    using same by (simp_all add: fails_request_def fails_subscribe_def)
  have "fails_request i ?r" if "waits i ?r" for i
    using that assms None less(2) [OF that] fails_after_job(1) [OF assms(2), of i] failed_job_settles(1)
    unfolding kept control_ok_def by blast
  moreover have "fails_subscribe i ?r" if "lives i ?r" "sc_intentionallyClosed st" for i
    using that assms None less(1) [OF that(1)] fails_after_job(2) [OF assms(2), of i] failed_job_settles(2)
    unfolding kept control_ok_def by metis
  moreover have "sc_reconnectTimer st" if "lives i ?r" "\<not> sc_intentionallyClosed st" for i
    using that assms(1) None less(1) [OF that(1)] by (auto simp: control_ok_def)
  ultimately show ?thesis using assms(1) None same by (auto simp: control_ok_def bounded_closing_def)
qed

lemma step_ok: "control_ok st \<Longrightarrow> control_ok (fst (sc_step E e st))"
proof (cases e)
  case (ScRequest i m p r)
  assume "control_ok st"
  then show ?thesis
    unfolding ScRequest sc_step.simps
    by (intro ensure_ok) (auto simp: control_ok_def opening_ok_def bounded_closing_def)
next
  case (ScSubscribe i m p)
  assume "control_ok st"
  then show ?thesis
    unfolding ScSubscribe sc_step.simps
    using waits_set_sub [of _ i _ st] lives_set_sub [of _ i _ st]
    by (intro ensure_ok) (auto simp: control_ok_def opening_ok_def bounded_closing_def set_sub_def)
next
  case (ScWaiterTimeout w)
  assume "control_ok st"
  then show ?thesis
    unfolding ScWaiterTimeout by (cases "sc_socket st") (auto simp: control_ok_def bounded_closing_def)
next
  case ScJob
  assume "control_ok st"
  then show ?thesis using job_ok by (auto simp: ScJob split: list.split)
next
  case (ScFrame w frame)
  assume "control_ok st"
  then show ?thesis using text_frame_ok [of st] by (auto simp: ScFrame control_ok_def)
next
  case (ScSocketClosed w err)
  assume "control_ok st"
  then show ?thesis
    using socket_closed_ok [of st err] by (cases "sc_socket st = Some w") (auto simp: ScSocketClosed control_ok_def bounded_closing_def)
next
  case ScReconnect
  assume "control_ok st"
  then have "opening_ok (st\<lparr>sc_reconnectTimer := False\<rparr>)"
    by (auto simp: control_ok_def opening_ok_def bounded_closing_def)
  then show ?thesis using \<open>control_ok st\<close> by (simp add: ScReconnect open_ok)
next
  case ScStable
  assume "control_ok st"
  then show ?thesis
    by (auto simp: ScStable control_ok_def bounded_closing_def)
next
  case (ScRequestTimeout i)
  assume "control_ok st"
  then show ?thesis by (simp add: ScRequestTimeout settling_ok [OF settling_reject])
next
  case (ScCloseSubscription i)
  assume "control_ok st"
  then show ?thesis by (simp add: ScCloseSubscription settling_ok [OF settling_close_subscription])
next
  case (ScClose err)
  assume "control_ok st"
  then have "bounded_closing st" by (simp add: control_ok_def)
  then show ?thesis by (simp add: ScClose close_ok)
qed

lemma run_ok: "control_ok st \<Longrightarrow> control_ok (fst (sc_run es st))"
  by (induction es arbitrary: st) (auto simp: step_ok)

text \<open>
  C16: Nothing is stranded.  Whenever the connection has no socket, nobody waits for it to be ready, and once the
  queued continuations have run no request is pending, and every subscription that is left has the reconnect timer
  armed on a connection that was not closed.  The attempts never pass the list of delays.
\<close>

theorem nothing_is_stranded:
  assumes "sc_socket (fst (sc_run es new_connection)) = None" and "sc_jobs (fst (sc_run es new_connection)) = []"
  shows "sc_waiters (fst (sc_run es new_connection)) = [] \<and> sc_pending (fst (sc_run es new_connection)) = [] \<and>
    (sc_subs (fst (sc_run es new_connection)) = [] \<or>
      sc_reconnectTimer (fst (sc_run es new_connection)) \<and> \<not> sc_intentionallyClosed (fst (sc_run es new_connection))) \<and>
    sc_reconnectAttempt (fst (sc_run es new_connection)) \<le> 7"
proof -
  let ?st = "fst (sc_run es new_connection)"
  have "control_ok new_connection"
    by (simp add: new_connection_def control_ok_def bounded_closing_def waits_def lives_def)
  then have ok: "control_ok ?st" by (rule run_ok)
  have "sc_pending ?st = [] \<longleftrightarrow> (\<forall>i. \<not> waits i ?st)"
    by (auto simp: waits_def map_get_None)
  then show ?thesis
    using ok assms no_subs [of ?st]
    by (auto simp: control_ok_def bounded_closing_def fails_request_def fails_subscribe_def reconnect_delays_def split: if_splits)
qed

text \<open>A subscription on a socket that is lost, and a request that comes while there is none to be had.\<close>

theorem nothing_is_stranded_witness:
  "let down = demo_env None None None;
       st = fst (sc_run [(demo_env (Some 7) None None, ScSubscribe (js ''s'') (js ''files.watch'') VNull),
         (down, ScSocketClosed 7 RuntimeUnavailable), (down, ScJob), (down, ScRequest (js ''c'') (js ''m'') VNull False),
         (down, ScJob), (down, ScClose None)] new_connection)
   in sc_waiters st = [] \<and> sc_pending st = [] \<and> sc_reconnectAttempt st \<le> 7"
  unfolding Let_def by (rule nothing_is_stranded [THEN conjunct1, THEN conjI]) code_simp+

subsection \<open>Giving up\<close>

lemma lives_if_not_done: "\<not> done_or_closing i st \<Longrightarrow> lives i st"
  by (auto simp: done_or_closing_def lives_def split: option.splits)

lemma reconnect_fails:
  assumes "se_opened E = None" and "sc_reconnectTimer st" and "\<not> sc_intentionallyClosed st"
  shows "sc_step E ScReconnect st = handleSocketClosed RuntimeUnavailable (st\<lparr>sc_reconnectTimer := False\<rparr>)"
  using assms by (simp add: sc_open_def Let_def)

lemma idle_reconnects: "\<not> sc_reconnectTimer st \<Longrightarrow> \<forall>x\<in>set es. snd x = ScReconnect \<Longrightarrow> sc_run es st = (st, [])"
  by (induction es) (auto simp: emit_then_def split: prod.splits)

lemma report_all:
  "i \<in> set ks \<Longrightarrow> lives i st \<Longrightarrow>
   OSubError i e \<in> set (snd (emit_each (\<lambda>i. finishSharedControlSubscription i True (Some e)) ks st))"
proof (induction ks arbitrary: st)
  case (Cons k ks)
  show ?case
  proof (cases "k = i")
    case True
    with Cons.prems show ?thesis by (auto simp: finishSharedControlSubscription_def lives_def)
  next
    case False
    with Cons show ?thesis by (simp add: lives_def)
  qed
qed simp

lemma retry:
  fixes st E
  assumes "se_opened E = None" and "sc_reconnectTimer st" and "\<not> sc_intentionallyClosed st"
  defines "r \<equiv> sc_step E ScReconnect st"
  shows "\<not> sc_intentionallyClosed (fst r)"
    and "sc_reconnectAttempt st < length reconnect_delays \<Longrightarrow>
      sc_subs (fst r) = [] \<and> \<not> sc_reconnectTimer (fst r) \<and> (\<forall>i. done_or_closing i st) \<or>
      sc_reconnectTimer (fst r) \<and> sc_reconnectAttempt (fst r) = sc_reconnectAttempt st + 1 \<and>
        (\<forall>i. done_or_closing i (fst r) \<longleftrightarrow> done_or_closing i st)"
    and "sc_reconnectAttempt st \<ge> length reconnect_delays \<Longrightarrow>
      sc_subs (fst r) = [] \<and> \<not> sc_reconnectTimer (fst r) \<and>
        (\<forall>i. done_or_closing i st \<or> OSubError i RuntimeNotRestored \<in> set (snd r))"
proof -
  let ?st0 = "st\<lparr>sc_reconnectTimer := False\<rparr>"
  let ?c = "fst (closeSocket (Some RuntimeUnavailable) ?st0)"
  note c = close_socket_state [where err = "Some RuntimeUnavailable" and st = ?st0]
  have doc: "done_or_closing i ?st0 \<longleftrightarrow> done_or_closing i st" for i by (simp add: done_or_closing_def)
  have alive: "lives i ?c \<longleftrightarrow> \<not> done_or_closing i st" for i using c(8) doc lives_if_not_done by auto
  have r: "r = handleSocketClosed RuntimeUnavailable ?st0" unfolding r_def by (rule reconnect_fails [OF assms(1-3)])
  note f = finish_all_state [of ?c]
  show "\<not> sc_intentionallyClosed (fst r)"
    using assms(3) c(6) f(5)
    by (auto simp: r handleSocketClosed_def scheduleReconnect_def scheduleSharedControlReconnect_def)
  show "sc_subs (fst r) = [] \<and> \<not> sc_reconnectTimer (fst r) \<and> (\<forall>i. done_or_closing i st) \<or>
      sc_reconnectTimer (fst r) \<and> sc_reconnectAttempt (fst r) = sc_reconnectAttempt st + 1 \<and>
        (\<forall>i. done_or_closing i (fst r) \<longleftrightarrow> done_or_closing i st)"
    if "sc_reconnectAttempt st < length reconnect_delays"
  proof (cases "sc_subs ?c = []")
    case True
    then have "\<forall>i. done_or_closing i st" using no_subs [of ?c] alive by simp
    then show ?thesis using True c(4) by (simp add: r handleSocketClosed_def)
  next
    case False
    then have "fst r = ?c\<lparr>sc_reconnectTimer := True, sc_reconnectAttempt := sc_reconnectAttempt st + 1\<rparr>"
      using that assms(3) c(4-6) by (simp add: r handleSocketClosed_def scheduleReconnect_def scheduleSharedControlReconnect_def)
    moreover have "done_or_closing i (?c\<lparr>sc_reconnectTimer := True, sc_reconnectAttempt := sc_reconnectAttempt st + 1\<rparr>)
        \<longleftrightarrow> done_or_closing i st" for i
      using c(9) doc by (simp add: done_or_closing_def)
    ultimately show ?thesis by simp
  qed
  show "sc_subs (fst r) = [] \<and> \<not> sc_reconnectTimer (fst r) \<and>
        (\<forall>i. done_or_closing i st \<or> OSubError i RuntimeNotRestored \<in> set (snd r))"
    if "sc_reconnectAttempt st \<ge> length reconnect_delays"
  proof (cases "sc_subs ?c = []")
    case True
    then have "\<forall>i. done_or_closing i st" using no_subs [of ?c] alive by simp
    then show ?thesis using True c(4) by (simp add: r handleSocketClosed_def)
  next
    case False
    have "r = emit_then (closeSocket (Some RuntimeUnavailable) ?st0) scheduleReconnect"
      using False assms(3) c(6) by (simp add: r handleSocketClosed_def emit_then_def case_prod_unfold)
    moreover have "OSubError i RuntimeNotRestored \<in> set (snd (scheduleReconnect ?c))" if i: "\<not> done_or_closing i st" for i
    proof -
      have "i \<in> set (map fst (sc_subs ?c))" and "lives i ?c" using i alive lives_in_keys [of i ?c] by auto
      then show ?thesis
        using report_all [of i "map fst (sc_subs ?c)" ?c RuntimeNotRestored] \<open>length reconnect_delays \<le> _\<close> c(5)
        by (simp add: scheduleReconnect_def)
    qed
    ultimately show ?thesis using f(1,7) that c(5) by auto
  qed
qed

lemma retries_run_out:
  assumes "\<forall>x\<in>set es. snd x = ScReconnect \<and> se_opened (fst x) = None" and "sc_reconnectTimer st" and "\<not> sc_intentionallyClosed st"
    and "length es + sc_reconnectAttempt st > length reconnect_delays" and "sc_reconnectAttempt st \<le> length reconnect_delays"
  shows "sc_subs (fst (sc_run es st)) = [] \<and> \<not> sc_reconnectTimer (fst (sc_run es st)) \<and>
    (\<forall>i. done_or_closing i st \<or> OSubError i RuntimeNotRestored \<in> set (snd (sc_run es st)))"
  using assms
proof (induction es arbitrary: st)
  case (Cons x es)
  obtain E where x: "x = (E, ScReconnect)" and E: "se_opened E = None" using Cons.prems(1) by (cases x) auto
  let ?r = "sc_step E ScReconnect st"
  have run: "fst (sc_run (x # es) st) = fst (sc_run es (fst ?r))" "snd (sc_run (x # es) st) = snd ?r @ snd (sc_run es (fst ?r))"
    unfolding x sc_run.simps by (simp_all del: sc_step.simps)
  note retry = retry [OF E Cons.prems(2,3)]
  have idle: "sc_run es (fst ?r) = (fst ?r, [])" if "\<not> sc_reconnectTimer (fst ?r)"
    using that Cons.prems(1) by (intro idle_reconnects) auto
  show ?case
  proof (cases "sc_reconnectAttempt st < length reconnect_delays")
    case False
    then have "sc_subs (fst ?r) = [] \<and> \<not> sc_reconnectTimer (fst ?r) \<and>
        (\<forall>i. done_or_closing i st \<or> OSubError i RuntimeNotRestored \<in> set (snd ?r))" by (intro retry(3)) simp
    then show ?thesis unfolding run using idle by simp
  next
    case True
    from retry(2) [OF this] show ?thesis
    proof (elim disjE conjE)
      assume "sc_subs (fst ?r) = []" and "\<not> sc_reconnectTimer (fst ?r)" and "\<forall>i. done_or_closing i st"
      then show ?thesis unfolding run using idle by simp
    next
      assume again: "sc_reconnectTimer (fst ?r)" "sc_reconnectAttempt (fst ?r) = sc_reconnectAttempt st + 1"
        "\<forall>i. done_or_closing i (fst ?r) \<longleftrightarrow> done_or_closing i st"
      have "sc_subs (fst (sc_run es (fst ?r))) = [] \<and> \<not> sc_reconnectTimer (fst (sc_run es (fst ?r))) \<and>
          (\<forall>i. done_or_closing i (fst ?r) \<or> OSubError i RuntimeNotRestored \<in> set (snd (sc_run es (fst ?r))))"
        using Cons.prems again True retry(1) by (intro Cons.IH) auto
      then show ?thesis unfolding run using again(3) by (auto simp del: sc_step.simps)
    qed
  qed
qed simp

text \<open>
  C30: Reconnecting ends.  A connection whose timer is armed and whose every attempt to open a socket fails makes
  no more attempts than there are delays left and one: then no subscription is left, no timer is armed, and every
  subscription that was not being closed has been told that it could not be restored.
\<close>

theorem reconnecting_ends:
  assumes "sc_reconnectTimer st" and "\<not> sc_intentionallyClosed st" and "sc_reconnectAttempt st \<le> 7"
    and "\<forall>x\<in>set es. snd x = ScReconnect \<and> se_opened (fst x) = None" and "length es + sc_reconnectAttempt st = 8"
  shows "sc_subs (fst (sc_run es st)) = [] \<and> \<not> sc_reconnectTimer (fst (sc_run es st)) \<and>
    (\<forall>i s. map_get (sc_subs st) i = Some s \<and> \<not> sb_closeAfterReady s \<longrightarrow>
      OSubError i RuntimeNotRestored \<in> set (snd (sc_run es st)))"
proof -
  have "sc_subs (fst (sc_run es st)) = [] \<and> \<not> sc_reconnectTimer (fst (sc_run es st)) \<and>
    (\<forall>i. done_or_closing i st \<or> OSubError i RuntimeNotRestored \<in> set (snd (sc_run es st)))"
    using assms by (intro retries_run_out) (simp_all add: reconnect_delays_def)
  then show ?thesis by (auto simp: done_or_closing_def split: option.splits)
qed

definition lost_socket :: shared_control where
  "lost_socket = fst (sc_run [(demo_env (Some 7) None None, ScSubscribe (js ''s'') (js ''files.watch'') VNull),
     (demo_env None None None, ScSocketClosed 7 RuntimeUnavailable)]
     new_connection)"

theorem reconnecting_ends_witness:
  "map fst (sc_subs lost_socket) = [js ''s''] \<and> sc_reconnectAttempt lost_socket = 1 \<and>
   sc_subs (fst (sc_run (replicate 7 (demo_env None None None, ScReconnect)) lost_socket)) = [] \<and>
   OSubError (js ''s'') RuntimeNotRestored \<in> set (snd (sc_run (replicate 7 (demo_env None None None, ScReconnect)) lost_socket))"
proof -
  have "sc_reconnectTimer lost_socket" "\<not> sc_intentionallyClosed lost_socket"
    and start: "map fst (sc_subs lost_socket) = [js ''s'']" "sc_reconnectAttempt lost_socket = 1"
    by code_simp+
  moreover obtain s where "map_get (sc_subs lost_socket) (js ''s'') = Some s \<and> \<not> sb_closeAfterReady s"
  proof
    show "map_get (sc_subs lost_socket) (js ''s'') = Some (snd (hd (sc_subs lost_socket))) \<and> \<not> sb_closeAfterReady (snd (hd (sc_subs lost_socket)))"
      by code_simp
  qed
  ultimately show ?thesis
    using reconnecting_ends [of lost_socket "replicate 7 (demo_env None None None, ScReconnect)"]
    by (simp add: demo_env_def)
qed

end
