(* ===== verification/Shell_Ready_Scan.thy ===== *)
theory Shell_Ready_Scan
  imports Escape_Tail
begin

text \<open>
  The scanner that takes the shell's ready marker out of the terminal output, \<open>src/main/shell-ready-marker-scanner.ts\<close>.
  Bytes that may be the start of the marker are held back until the next ones decide.
\<close>

subsection \<open>The scanner\<close>

definition SHELL_READY_MARKER_PREFIX :: jsstr where
  "SHELL_READY_MARKER_PREFIX = ESC # js '']777;orca-shell-ready''"

definition SHELL_READY_MARKER :: jsstr where
  "SHELL_READY_MARKER = SHELL_READY_MARKER_PREFIX @ [BEL]"

record ready_scan =
  rs_matchPos :: nat
  rs_heldBytes :: jsstr

record ready_result =
  rr_output :: jsstr
  rr_matched :: bool
  rr_postMarkerBytesObserved :: bool

definition createShellReadyScanState :: ready_scan where
  "createShellReadyScanState = \<lparr>rs_matchPos = 0, rs_heldBytes = []\<rparr>"

definition drainShellReadyHeldBytes :: "ready_scan \<Rightarrow> ready_scan \<times> jsstr" where
  "drainShellReadyHeldBytes st = (st\<lparr>rs_heldBytes := [], rs_matchPos := 0\<rparr>, rs_heldBytes st)"

text \<open>A unit that does not continue the marker: what was held goes out, and the unit may start the marker anew.\<close>

definition ready_restart :: "16 word \<Rightarrow> ready_scan \<Rightarrow> jsstr \<Rightarrow> ready_scan \<times> jsstr" where
  "ready_restart ch st output =
     (if ch = SHELL_READY_MARKER_PREFIX ! 0
      then (st\<lparr>rs_heldBytes := [ch], rs_matchPos := 1\<rparr>, output @ rs_heldBytes st)
      else (st\<lparr>rs_heldBytes := [], rs_matchPos := 0\<rparr>, output @ rs_heldBytes st @ [ch]))"

fun ready_loop :: "jsstr \<Rightarrow> ready_scan \<Rightarrow> jsstr \<Rightarrow> ready_scan \<times> ready_result" where
  "ready_loop [] st output = (st, \<lparr>rr_output = output, rr_matched = False, rr_postMarkerBytesObserved = False\<rparr>)"
| "ready_loop (ch # rest) st output =
     (if rs_matchPos st < length SHELL_READY_MARKER_PREFIX then
        (if ch = SHELL_READY_MARKER_PREFIX ! rs_matchPos st
         then ready_loop rest (st\<lparr>rs_heldBytes := rs_heldBytes st @ [ch], rs_matchPos := rs_matchPos st + 1\<rparr>) output
         else case ready_restart ch st output of (st', output') \<Rightarrow> ready_loop rest st' output')
      else if ch = BEL then
        (st\<lparr>rs_heldBytes := [], rs_matchPos := 0\<rparr>,
         \<lparr>rr_output = output @ rest, rr_matched = True, rr_postMarkerBytesObserved = (rest \<noteq> [])\<rparr>)
      else case ready_restart ch st output of (st', output') \<Rightarrow> ready_loop rest st' output')"

definition scanForShellReady :: "ready_scan \<Rightarrow> jsstr \<Rightarrow> ready_scan \<times> ready_result" where
  "scanForShellReady st data = ready_loop data st []"

subsection \<open>The first marker of a stream\<close>

fun find_marker :: "jsstr \<Rightarrow> (jsstr \<times> jsstr) option" where
  "find_marker [] = None"
| "find_marker (c # s) =
     (if take (length SHELL_READY_MARKER) (c # s) = SHELL_READY_MARKER then Some ([], drop (length SHELL_READY_MARKER) (c # s))
      else map_option (\<lambda>(a, b). (c # a, b)) (find_marker s))"

lemma find_marker_split: "find_marker s = Some (a, b) \<Longrightarrow> s = a @ SHELL_READY_MARKER @ b"
proof (induction s arbitrary: a)
  case (Cons c s)
  show ?case
  proof (cases "take (length SHELL_READY_MARKER) (c # s) = SHELL_READY_MARKER")
    case True
    with Cons.prems have "a = []" and "b = drop (length SHELL_READY_MARKER) (c # s)" by auto
    with True show ?thesis by (metis append_Nil append_take_drop_id)
  next
    case False
    with Cons show ?thesis by (auto split: if_splits)
  qed
qed simp

lemma find_marker_None: "find_marker s = None \<Longrightarrow> s \<noteq> a @ SHELL_READY_MARKER @ b"
proof (induction s arbitrary: a)
  case Nil
  then show ?case by (simp add: SHELL_READY_MARKER_def)
next
  case (Cons c s)
  then show ?case by (cases a) (auto split: if_splits)
qed

definition ready_ok :: "ready_scan \<Rightarrow> bool" where
  "ready_ok st \<longleftrightarrow> rs_matchPos st \<le> length SHELL_READY_MARKER_PREFIX \<and>
     rs_heldBytes st = take (rs_matchPos st) SHELL_READY_MARKER_PREFIX"

lemma marker_prefix: "SHELL_READY_MARKER_PREFIX = ESC # js '']777;orca-shell-ready''" "SHELL_READY_MARKER = ESC # (js '']777;orca-shell-ready'' @ [BEL])"
  by (simp_all add: SHELL_READY_MARKER_PREFIX_def SHELL_READY_MARKER_def)

lemma no_escape_inside: "ESC \<notin> set (js '']777;orca-shell-ready'')"
  by code_simp

lemma find_marker_skip: "ESC \<notin> set xs \<Longrightarrow> find_marker (xs @ s) = map_option (\<lambda>(a, b). (xs @ a, b)) (find_marker s)"
proof (induction xs)
  case Nil
  show ?case by (cases "find_marker s") auto
next
  case (Cons x xs)
  then have "take (length SHELL_READY_MARKER) ((x # xs) @ s) \<noteq> SHELL_READY_MARKER" by (auto simp: marker_prefix)
  with Cons show ?case by (cases "find_marker s") auto
qed

lemma held_mismatch:
  assumes "n \<le> length SHELL_READY_MARKER_PREFIX" and "ch \<noteq> SHELL_READY_MARKER ! n"
  shows "find_marker (take n SHELL_READY_MARKER_PREFIX @ ch # rest) =
    map_option (\<lambda>(a, b). (take n SHELL_READY_MARKER_PREFIX @ a, b)) (find_marker (ch # rest))"
proof (cases n)
  case 0
  then show ?thesis by (cases "find_marker (ch # rest)") auto
next
  case (Suc m)
  let ?h = "take n SHELL_READY_MARKER_PREFIX"
  define xs where "xs = take m (js '']777;orca-shell-ready'')"
  have h: "?h = ESC # xs" by (simp add: Suc xs_def marker_prefix)
  have len: "length ?h = n" using assms(1) by simp
  have "(?h @ ch # rest) ! n = ch" by (metis len nth_append_length)
  then have "take (length SHELL_READY_MARKER) (?h @ ch # rest) \<noteq> SHELL_READY_MARKER"
    using assms by (metis SHELL_READY_MARKER_def length_append_singleton less_Suc_eq_le nth_take)
  moreover have "ESC \<notin> set xs" using no_escape_inside in_set_takeD unfolding xs_def by fastforce
  ultimately show ?thesis
    unfolding h by (cases "find_marker (ch # rest)") (auto simp: find_marker_skip)
qed

lemma not_start: "ch \<noteq> ESC \<Longrightarrow> find_marker (ch # rest) = map_option (\<lambda>(a, b). (ch # a, b)) (find_marker rest)"
  using find_marker_skip [of "[ch]" rest] by simp

text \<open>What the loop does with what is held and what comes.\<close>

definition scanned :: "jsstr \<Rightarrow> jsstr \<Rightarrow> ready_scan \<times> ready_result \<Rightarrow> bool" where
  "scanned output s r \<longleftrightarrow> ready_ok (fst r) \<and>
     (case find_marker s of
        Some (a, b) \<Rightarrow> rs_heldBytes (fst r) = [] \<and>
          snd r = \<lparr>rr_output = output @ a @ b, rr_matched = True, rr_postMarkerBytesObserved = (b \<noteq> [])\<rparr>
      | None \<Rightarrow> rr_output (snd r) @ rs_heldBytes (fst r) = output @ s \<and> \<not> rr_matched (snd r) \<and>
          \<not> rr_postMarkerBytesObserved (snd r))"

lemma scanned_skip:
  "find_marker (xs @ s) = map_option (\<lambda>(a, b). (xs @ a, b)) (find_marker s) \<Longrightarrow> scanned (output @ xs) s r \<Longrightarrow> scanned output (xs @ s) r"
  by (cases "find_marker s") (auto simp: scanned_def)

lemma held_complete:
  "find_marker (SHELL_READY_MARKER_PREFIX @ BEL # rest) = Some ([], rest)"
proof -
  have "find_marker s = Some ([], rest)" if "s = SHELL_READY_MARKER @ rest" for s
  proof -
    have "take (length SHELL_READY_MARKER) s = SHELL_READY_MARKER" "drop (length SHELL_READY_MARKER) s = rest" using that by simp_all
    moreover have "s \<noteq> []" using that by (simp add: SHELL_READY_MARKER_def)
    ultimately show ?thesis by (cases s) auto
  qed
  then show ?thesis by (simp add: SHELL_READY_MARKER_def)
qed

lemma prefix_no_marker: "find_marker (take n SHELL_READY_MARKER_PREFIX) = None"
proof (rule ccontr)
  assume "find_marker (take n SHELL_READY_MARKER_PREFIX) \<noteq> None"
  then obtain a b where "find_marker (take n SHELL_READY_MARKER_PREFIX) = Some (a, b)" by auto
  from find_marker_split [OF this] have "length (take n SHELL_READY_MARKER_PREFIX) \<ge> length SHELL_READY_MARKER" by simp
  then show False by (simp add: SHELL_READY_MARKER_def)
qed

lemma ready_loop_scans: "ready_ok st \<Longrightarrow> scanned out (rs_heldBytes st @ data) (ready_loop data st out)"
proof (induction data arbitrary: st out)
  case Nil
  then show ?case using prefix_no_marker by (simp add: scanned_def ready_ok_def)
next
  case (Cons ch rest)
  let ?n = "rs_matchPos st"
  from Cons.prems have held: "rs_heldBytes st = take ?n SHELL_READY_MARKER_PREFIX" and n: "?n \<le> length SHELL_READY_MARKER_PREFIX"
    by (auto simp: ready_ok_def)
  have restart: "scanned out (rs_heldBytes st @ ch # rest)
      (case ready_restart ch st out of (st', out') \<Rightarrow> ready_loop rest st' out')"
    if "ch \<noteq> SHELL_READY_MARKER ! ?n"
  proof -
    have "scanned (out @ rs_heldBytes st) (ch # rest) (case ready_restart ch st out of (st', out') \<Rightarrow> ready_loop rest st' out')"
    proof (cases "ch = ESC")
      case True
      then show ?thesis
        using Cons.IH [of "st\<lparr>rs_heldBytes := [ch], rs_matchPos := 1\<rparr>" "out @ rs_heldBytes st"]
        by (simp add: ready_restart_def marker_prefix ready_ok_def)
    next
      case False
      then have "scanned (out @ rs_heldBytes st @ [ch]) rest (ready_loop rest (st\<lparr>rs_heldBytes := [], rs_matchPos := 0\<rparr>) (out @ rs_heldBytes st @ [ch]))"
        using Cons.IH [of "st\<lparr>rs_heldBytes := [], rs_matchPos := 0\<rparr>" "out @ rs_heldBytes st @ [ch]"]
        by (simp add: ready_ok_def)
      then show ?thesis
        using False scanned_skip [of "[ch]" rest "out @ rs_heldBytes st"] not_start [OF False]
        by (simp add: ready_restart_def marker_prefix)
    qed
    then show ?thesis using held_mismatch [OF n that, of rest] scanned_skip [of "rs_heldBytes st" "ch # rest"] held by simp
  qed
  show ?case
  proof (cases "?n < length SHELL_READY_MARKER_PREFIX")
    case True
    then have nth: "SHELL_READY_MARKER ! ?n = SHELL_READY_MARKER_PREFIX ! ?n" by (simp add: SHELL_READY_MARKER_def nth_append)
    show ?thesis
    proof (cases "ch = SHELL_READY_MARKER_PREFIX ! ?n")
      case match: True
      have "ready_ok (st\<lparr>rs_heldBytes := rs_heldBytes st @ [ch], rs_matchPos := ?n + 1\<rparr>)"
        using True held match by (simp add: ready_ok_def take_Suc_conv_app_nth)
      from Cons.IH [OF this, of out] show ?thesis using True match by simp
    next
      case False
      then show ?thesis using True restart nth by simp
    qed
  next
    case False
    then have whole: "?n = length SHELL_READY_MARKER_PREFIX" using n by simp
    then have nth: "SHELL_READY_MARKER ! ?n = BEL" by (simp add: SHELL_READY_MARKER_def)
    show ?thesis
    proof (cases "ch = BEL")
      case True
      then show ?thesis using False whole held held_complete [of rest] by (simp add: scanned_def ready_ok_def)
    next
      case no_bell: False
      then show ?thesis using False restart nth by simp
    qed
  qed
qed

lemma scan_spec: "ready_ok st \<Longrightarrow> scanned [] (rs_heldBytes st @ data) (scanForShellReady st data)"
  unfolding scanForShellReady_def by (rule ready_loop_scans)

lemma scan_start_ok: "ready_ok createShellReadyScanState" "rs_heldBytes createShellReadyScanState = []"
  by (simp_all add: createShellReadyScanState_def ready_ok_def)

text \<open>Feeding a list of chunks: after a match the rest of the output goes by untouched.\<close>

fun scan_chunks :: "jsstr list \<Rightarrow> ready_scan \<Rightarrow> jsstr \<times> ready_scan \<times> bool" where
  "scan_chunks [] st = ([], st, False)"
| "scan_chunks (d # ds) st =
     (case scanForShellReady st d of (st1, r) \<Rightarrow>
        if rr_matched r then (rr_output r @ concat ds, st1, True)
        else case scan_chunks ds st1 of (out, st2, found) \<Rightarrow> (rr_output r @ out, st2, found))"

lemma loop_acc:
  "ready_loop d st (o1 @ o2) = (case ready_loop d st o2 of (st', r) \<Rightarrow> (st', r\<lparr>rr_output := o1 @ rr_output r\<rparr>))"
  by (induction d arbitrary: st o2) (auto simp: ready_restart_def)

lemma ready_loop_append:
  "ready_loop (d1 @ d2) st out =
     (case ready_loop d1 st out of (st1, r) \<Rightarrow>
        if rr_matched r
        then (st1, r\<lparr>rr_output := rr_output r @ d2, rr_postMarkerBytesObserved := rr_postMarkerBytesObserved r \<or> d2 \<noteq> []\<rparr>)
        else ready_loop d2 st1 (rr_output r))"
  by (induction d1 arbitrary: st out) (auto simp: ready_restart_def)

lemma scan_chunks_whole:
  "scan_chunks ds st = (case scanForShellReady st (concat ds) of (st', r) \<Rightarrow> (rr_output r, st', rr_matched r))"
proof (induction ds arbitrary: st)
  case (Cons d ds)
  obtain st1 r where r: "ready_loop d st [] = (st1, r)" by fastforce
  show ?case
    using Cons [of st1] loop_acc [of "concat ds" st1 "rr_output r" "[]"]
    by (auto simp: scanForShellReady_def ready_loop_append r split: prod.splits)
qed (simp add: scanForShellReady_def)

text \<open>
  The ready marker is taken out of the output exactly where it first stands, whatever the chunks.  It is
  found if and only if the output has it; then what came out is the output before and behind the first one, and
  with none what came out and what is still held back, a piece of the marker, are the output.
\<close>

theorem marker_scan_exact:
  "let r = scan_chunks ds createShellReadyScanState; out = fst r; held = rs_heldBytes (fst (snd r))
   in (if snd (snd r)
       then \<exists>a b. concat ds = a @ SHELL_READY_MARKER @ b \<and> find_marker (concat ds) = Some (a, b) \<and> out = a @ b
       else find_marker (concat ds) = None \<and> out @ held = concat ds \<and>
         held = take (rs_matchPos (fst (snd r))) SHELL_READY_MARKER_PREFIX)"
  using scan_spec [OF scan_start_ok(1), of "concat ds"] scan_start_ok(2) find_marker_split [of "concat ds"]
  by (cases "find_marker (concat ds)")
    (auto simp: scan_chunks_whole scanned_def ready_ok_def case_prod_unfold Let_def)

end
