(* ===== verification/Daemon_Session.thy ===== *)
theory Daemon_Session
  imports Contracts Shell_Ready_Scan
begin

text \<open>
  A terminal session of the daemon, \<open>src/main/daemon/session.ts\<close> with \<open>post-ready-flush-gate.ts\<close>,
  \<open>daemon-pty-size.ts\<close> and \<open>src/shared/physical-exit-tracker.ts\<close>: one process behind a pseudo terminal, its input
  held until the shell is ready, its output kept for checkpoints and handed to clients, and its end.  The process
  handle, the terminal emulator and the clients are outside: what is called on them is the output of a step, in
  order.  Timers are flags of the state and their firing is an event.  Clients do not call back into the session
  before they return.
\<close>

subsection \<open>Data\<close>

datatype SessionState = Created | Spawning | Running | Exiting | Exited

datatype ShellReadyState = ShellPending | ShellReady | ShellTimedOut | ShellUnsupported

text \<open>A number of columns or rows; \<open>None\<close> is one that is not finite.\<close>

type_synonym pty_size = "int option"

datatype PendingOutputRecord = RecOutput jsstr | RecResize pty_size pty_size | RecClear

record taken =
  tk_records :: "PendingOutputRecord list"
  tk_seq :: nat
  tk_overflowed :: bool
  tk_snapshot :: bool

text \<open>
  A snapshot is the state of the emulator, which is what was done to it so far.  \<open>PtyFormFeed\<close> is the form feed
  written to make PowerShell paint its prompt again.
\<close>

datatype session_out =
    PtyWrite jsstr
  | PtyFormFeed
  | PtyResize pty_size pty_size
  | PtyPause
  | PtyResume
  | PtyClear
  | PtyKill
  | PtyForceKill
  | PtySignal jsstr
  | PtyDispose
  | EmuWrite jsstr
  | EmuResize pty_size pty_size
  | EmuClear
  | EmuDispose
  | ClientData nat jsstr
  | ClientExit nat int
  | SessionExit int
  | Took "taken option"
  | SweepStarted
  | ForceKillDone nat bool
  | CallThrew

record flush_gate =
  fg_awaitingPromptDraw :: bool
  fg_postDataTimer :: bool
  fg_fallbackTimer :: bool

text \<open>
  Who waits in \<open>forceKillAndWaitForExit\<close>: between two attempts, for the process to exit, or with the exit seen and
  the continuation queued.
\<close>

datatype force_phase = ForceRetry | ForceAwait | ForceExited

record session =
  ss_agent :: bool
  ss_canPause :: bool
  ss_canClear :: bool
  ss_state :: SessionState
  ss_shellState :: ShellReadyState
  ss_exitCode :: "int option"
  ss_isTerminating :: bool
  ss_disposed :: bool
  ss_clients :: "nat list"
  ss_nextToken :: nat
  ss_preReadyStdinQueue :: "jsstr list"
  ss_scan :: "ready_scan option"
  ss_shellReadyTimer :: bool
  ss_killTimer :: "nat option"
  ss_gate :: flush_gate
  ss_pendingOutputRecords :: "PendingOutputRecord list"
  ss_pendingOutputBytes :: nat
  ss_pendingOutputOverflowed :: bool
  ss_pendingOutputSeq :: nat
  ss_outputSequence :: nat
  ss_producerPaused :: bool
  ss_failsafeTimer :: bool
  ss_forceKillSent :: bool
  ss_subprocessDisposed :: bool
  ss_physicallyExited :: bool
  ss_forced :: "(nat \<times> bool \<times> force_phase) list"
  ss_sweeps :: nat

type_synonym session_result = "session \<times> session_out list"

text \<open>What a call meets outside: whether signalling fails, and whether PowerShell waits at an empty prompt on Windows.\<close>

record session_env =
  sv_killThrows :: bool
  sv_forceKillThrows :: bool
  sv_powerShellPrompt :: bool

definition SESSION_FORCE_KILL_MAX_ATTEMPTS :: nat where "SESSION_FORCE_KILL_MAX_ATTEMPTS = 2"
definition PENDING_OUTPUT_MAX_BYTES :: nat where "PENDING_OUTPUT_MAX_BYTES = 2 * 1024 * 1024"

subsection \<open>Sizes and the flush gate\<close>

definition isValidPtySize :: "pty_size \<Rightarrow> pty_size \<Rightarrow> bool" where
  "isValidPtySize cols rows \<longleftrightarrow> cols \<noteq> None \<and> rows \<noteq> None \<and> the cols \<ge> 1 \<and> the rows \<ge> 1"

definition normalizePtySize :: "pty_size \<Rightarrow> pty_size \<Rightarrow> pty_size \<times> pty_size" where
  "normalizePtySize cols rows = (if isValidPtySize cols rows then (cols, rows) else (Some 80, Some 24))"

definition new_flush_gate :: flush_gate where
  "new_flush_gate = \<lparr>fg_awaitingPromptDraw = False, fg_postDataTimer = False, fg_fallbackTimer = False\<rparr>"

definition flush_gate_isPending :: "flush_gate \<Rightarrow> bool" where
  "flush_gate_isPending g \<longleftrightarrow> fg_awaitingPromptDraw g \<or> fg_postDataTimer g \<or> fg_fallbackTimer g"

definition flush_gate_notifyData :: "flush_gate \<Rightarrow> flush_gate" where
  "flush_gate_notifyData g =
     (if \<not> fg_awaitingPromptDraw g then g
      else g\<lparr>fg_awaitingPromptDraw := False, fg_fallbackTimer := False, fg_postDataTimer := True\<rparr>)"

definition flush_gate_arm :: "bool \<Rightarrow> flush_gate \<Rightarrow> flush_gate" where
  "flush_gate_arm postMarkerBytesObserved g =
     (if postMarkerBytesObserved then flush_gate_notifyData (g\<lparr>fg_awaitingPromptDraw := True\<rparr>)
      else g\<lparr>fg_awaitingPromptDraw := True, fg_fallbackTimer := True\<rparr>)"

definition flush_gate_clear :: "flush_gate \<Rightarrow> flush_gate" where
  "flush_gate_clear g = g\<lparr>fg_awaitingPromptDraw := False, fg_postDataTimer := False, fg_fallbackTimer := False\<rparr>"

subsection \<open>Output\<close>

definition record_bytes :: "PendingOutputRecord \<Rightarrow> nat" where
  "record_bytes r = (case r of RecOutput d \<Rightarrow> length d | _ \<Rightarrow> 8)"

text \<open>A record joins the one before it when both are output and that one is short.\<close>

fun push_record :: "PendingOutputRecord list \<Rightarrow> PendingOutputRecord \<Rightarrow> PendingOutputRecord list" where
  "push_record [] r = [r]"
| "push_record [RecOutput d] (RecOutput e) = (if length d < 64 * 1024 then [RecOutput (d @ e)] else [RecOutput d, RecOutput e])"
| "push_record [x] r = [x, r]"
| "push_record (x # y # xs) r = x # push_record (y # xs) r"

definition recordPendingOutput :: "PendingOutputRecord \<Rightarrow> session \<Rightarrow> session" where
  "recordPendingOutput r st =
     (if ss_pendingOutputOverflowed st then st
      else if ss_pendingOutputBytes st + record_bytes r > PENDING_OUTPUT_MAX_BYTES
      then st\<lparr>ss_pendingOutputRecords := [], ss_pendingOutputBytes := 0, ss_pendingOutputOverflowed := True\<rparr>
      else st\<lparr>ss_pendingOutputRecords := push_record (ss_pendingOutputRecords st) r,
              ss_pendingOutputBytes := ss_pendingOutputBytes st + record_bytes r\<rparr>)"

definition emitSubprocessOutput :: "jsstr \<Rightarrow> session \<Rightarrow> session_result" where
  "emitSubprocessOutput data st =
     (if data = [] then (st, [])
      else let st1 = recordPendingOutput (RecOutput data) (st\<lparr>ss_outputSequence := ss_outputSequence st + length data\<rparr>)
           in (st1, EmuWrite data # map (\<lambda>c. ClientData c data) (ss_clients st)))"

definition releaseHeldShellReadyBytes :: "session \<Rightarrow> session_result \<times> jsstr" where
  "releaseHeldShellReadyBytes st =
     (case ss_scan st of
        None \<Rightarrow> ((st, []), [])
      | Some sc \<Rightarrow> let held = snd (drainShellReadyHeldBytes sc) in (emitSubprocessOutput held (st\<lparr>ss_scan := None\<rparr>), held))"

definition flushPreReadyQueue :: "session \<Rightarrow> session_result" where
  "flushPreReadyQueue st = (st\<lparr>ss_preReadyStdinQueue := []\<rparr>, map PtyWrite (ss_preReadyStdinQueue st))"

definition transitionToReady :: "bool \<Rightarrow> session \<Rightarrow> session" where
  "transitionToReady postMarkerBytesObserved st =
     (let st1 = st\<lparr>ss_shellState := ShellReady, ss_scan := None, ss_shellReadyTimer := False\<rparr>
      in if ss_preReadyStdinQueue st1 = [] then st1
         else st1\<lparr>ss_gate := flush_gate_arm postMarkerBytesObserved (ss_gate st1)\<rparr>)"

definition onShellReadyTimeout :: "session \<Rightarrow> session_result" where
  "onShellReadyTimeout st =
     (let st1 = st\<lparr>ss_shellReadyTimer := False\<rparr>
      in if ss_shellState st1 \<noteq> ShellPending then (st1, [])
         else emit_then (fst (releaseHeldShellReadyBytes (st1\<lparr>ss_shellState := ShellTimedOut\<rparr>))) flushPreReadyQueue)"

definition handleSubprocessData :: "jsstr \<Rightarrow> session \<Rightarrow> session_result" where
  "handleSubprocessData data st =
     (if ss_disposed st then (st, [])
      else case (if ss_shellState st = ShellPending then ss_scan st else None) of
        Some sc \<Rightarrow>
          (case scanForShellReady sc data of (sc', r) \<Rightarrow>
             let st1 = st\<lparr>ss_scan := Some sc'\<rparr>;
                 st2 = (if rr_matched r then transitionToReady (rr_postMarkerBytesObserved r) st1 else st1)
             in emitSubprocessOutput (rr_output r) st2)
      | None \<Rightarrow> emitSubprocessOutput data (st\<lparr>ss_gate := flush_gate_notifyData (ss_gate st)\<rparr>))"

subsection \<open>Producer flow control\<close>

definition resume_call :: "session \<Rightarrow> session_out list" where
  "resume_call st = (if ss_canPause st then [PtyResume] else [])"

definition releaseProducerPause :: "bool \<Rightarrow> session \<Rightarrow> session_result" where
  "releaseProducerPause resume st =
     (let st1 = st\<lparr>ss_failsafeTimer := False\<rparr>
      in if \<not> ss_producerPaused st1 then (st1, [])
         else (st1\<lparr>ss_producerPaused := False\<rparr>, if resume then resume_call st else []))"

definition pauseProducer :: "session \<Rightarrow> session_result" where
  "pauseProducer st =
     (if ss_state st = Exited \<or> ss_disposed st then (st, [])
      else (st\<lparr>ss_producerPaused := True, ss_failsafeTimer := True\<rparr>, if ss_canPause st then [PtyPause] else []))"

definition failsafe_fires :: "session \<Rightarrow> session_result" where
  "failsafe_fires st = (st\<lparr>ss_failsafeTimer := False, ss_producerPaused := False\<rparr>, resume_call st)"

subsection \<open>Input\<close>

definition session_write :: "jsstr \<Rightarrow> session \<Rightarrow> session_result" where
  "session_write data st =
     (if ss_state st = Exited \<or> ss_disposed st then (st, [])
      else if ss_shellState st = ShellPending \<or> flush_gate_isPending (ss_gate st)
      then (st\<lparr>ss_preReadyStdinQueue := ss_preReadyStdinQueue st @ [data]\<rparr>, [])
      else (st, [PtyWrite data]))"

definition session_resize :: "pty_size \<Rightarrow> pty_size \<Rightarrow> session \<Rightarrow> session_result" where
  "session_resize cols rows st =
     (if ss_state st = Exited \<or> ss_disposed st then (st, [])
      else if \<not> isValidPtySize cols rows then (st, [])
      else (recordPendingOutput (RecResize cols rows) st, [EmuResize cols rows, PtyResize cols rows]))"

definition nudgePowerShellPromptRepaint :: "session_env \<Rightarrow> session \<Rightarrow> session_out list" where
  "nudgePowerShellPromptRepaint E st =
     (if ss_shellState st = ShellPending \<or> flush_gate_isPending (ss_gate st) then []
      else if sv_powerShellPrompt E then [PtyFormFeed] else [])"

definition session_clearScrollback :: "session_env \<Rightarrow> session \<Rightarrow> session_result" where
  "session_clearScrollback E st =
     (if ss_disposed st then (st, [])
      else let st1 = recordPendingOutput RecClear st
           in (st1, [EmuClear] @ (if ss_canClear st then [PtyClear] else []) @ nudgePowerShellPromptRepaint E st1))"

definition takePendingOutput :: "bool \<Rightarrow> bool \<Rightarrow> session \<Rightarrow> session_result" where
  "takePendingOutput includeSnapshot teardownSnapshot st =
     (if ss_disposed st then (st, [Took None])
      else case (if includeSnapshot \<and> teardownSnapshot then releaseHeldShellReadyBytes st else ((st, []), [])) of
        ((st1, out), released) \<Rightarrow>
          let records = ss_pendingOutputRecords st1; overflowed = ss_pendingOutputOverflowed st1;
              st2 = st1\<lparr>ss_pendingOutputRecords := [], ss_pendingOutputBytes := 0, ss_pendingOutputOverflowed := False,
                        ss_pendingOutputSeq := ss_pendingOutputSeq st1 + 1\<rparr>
          in (st2, out @ [Took (Some \<lparr>tk_records = (if includeSnapshot then (if released \<noteq> [] then [RecOutput released] else []) else records),
                tk_seq = ss_pendingOutputSeq st2, tk_overflowed = overflowed, tk_snapshot = includeSnapshot\<rparr>)]))"

subsection \<open>Termination\<close>

definition beginTermination :: "session \<Rightarrow> session_result \<times> bool" where
  "beginTermination st =
     (if ss_state st = Exited \<or> ss_isTerminating st then ((st, []), False)
      else (releaseProducerPause True (st\<lparr>ss_isTerminating := True\<rparr>), True))"

definition resetTerminationAfterSignalFailure :: "session \<Rightarrow> session" where
  "resetTerminationAfterSignalFailure st = st\<lparr>ss_isTerminating := False, ss_killTimer := None\<rparr>"

text \<open>The flag says that the call threw.\<close>

definition signalTerminationRoot :: "session_env \<Rightarrow> session \<Rightarrow> session_result \<times> bool" where
  "signalTerminationRoot E st =
     (if ss_state st = Exited then ((st, []), False)
      else if sv_killThrows E then ((resetTerminationAfterSignalFailure st, [PtyKill]), True)
      else ((st, [PtyKill]), False))"

definition scheduleForceDisposeFallback :: "session \<Rightarrow> session" where
  "scheduleForceDisposeFallback st =
     (if ss_killTimer st \<noteq> None then st else st\<lparr>ss_killTimer := Some SESSION_FORCE_KILL_MAX_ATTEMPTS\<rparr>)"

definition session_kill :: "session_env \<Rightarrow> session \<Rightarrow> session_result" where
  "session_kill E st =
     (case beginTermination st of
        (r, False) \<Rightarrow> r
      | (r, True) \<Rightarrow>
          emit_then r (\<lambda>st.
            if \<not> ss_agent st then
              (case signalTerminationRoot E st of
                 (r, True) \<Rightarrow> emit_then r (\<lambda>st. (st, [CallThrew]))
               | (r, False) \<Rightarrow> emit_then r (emit_quiet scheduleForceDisposeFallback))
            else (scheduleForceDisposeFallback (st\<lparr>ss_sweeps := ss_sweeps st + 1\<rparr>), [SweepStarted])))"

definition sweep_signals :: "session_env \<Rightarrow> session \<Rightarrow> session_result" where
  "sweep_signals E st =
     (case signalTerminationRoot E st of
        (r, True) \<Rightarrow> emit_then r (emit_quiet (\<lambda>st. if ss_state st \<noteq> Exited then resetTerminationAfterSignalFailure st else st))
      | (r, False) \<Rightarrow> r)"

definition requestForceKill :: "session_env \<Rightarrow> session \<Rightarrow> session_result \<times> bool" where
  "requestForceKill E st =
     (if ss_state st = Exited \<or> ss_forceKillSent st then ((st, []), False)
      else if sv_forceKillThrows E then ((st, [PtyForceKill]), True)
      else ((st\<lparr>ss_forceKillSent := True\<rparr>, [PtyForceKill]), False))"

definition killTimer_fires :: "session_env \<Rightarrow> session \<Rightarrow> session_result" where
  "killTimer_fires E st =
     (case ss_killTimer st of
        None \<Rightarrow> (st, [])
      | Some attemptsRemaining \<Rightarrow>
          let st1 = st\<lparr>ss_killTimer := None\<rparr>
          in if ss_state st1 = Exited then (st1, [])
             else case requestForceKill E st1 of
               (r, False) \<Rightarrow> r
             | (r, True) \<Rightarrow>
                 emit_then r (emit_quiet (\<lambda>st. if attemptsRemaining > 1 then st\<lparr>ss_killTimer := Some (attemptsRemaining - 1)\<rparr> else st)))"

definition add_forced :: "nat \<Rightarrow> bool \<Rightarrow> force_phase \<Rightarrow> session \<Rightarrow> session" where
  "add_forced i disposes phase st = st\<lparr>ss_forced := (i, disposes, phase) # ss_forced st\<rparr>"

definition waiting_phase :: "force_phase \<Rightarrow> session \<Rightarrow> force_phase" where
  "waiting_phase phase st = (if ss_physicallyExited st then ForceExited else phase)"

definition forceKillAndWaitForExit :: "session_env \<Rightarrow> nat \<Rightarrow> bool \<Rightarrow> session \<Rightarrow> session_result" where
  "forceKillAndWaitForExit E i disposes st =
     (if ss_state st = Exited then (add_forced i disposes ForceExited st, [])
      else emit_then (if ss_isTerminating st then (st, []) else releaseProducerPause True (st\<lparr>ss_isTerminating := True\<rparr>))
        (\<lambda>st. case requestForceKill E st of
           (r, threw) \<Rightarrow>
             emit_then r (emit_quiet (\<lambda>st. add_forced i disposes (waiting_phase (if threw then ForceRetry else ForceAwait) st) st))))"

definition forced_phase :: "nat \<Rightarrow> session \<Rightarrow> (bool \<times> force_phase) option" where
  "forced_phase i st = map_of (ss_forced st) i"

definition drop_forced :: "nat \<Rightarrow> session \<Rightarrow> session" where
  "drop_forced i st = st\<lparr>ss_forced := filter (\<lambda>w. fst w \<noteq> i) (ss_forced st)\<rparr>"

text \<open>The deadline of a waiter: the second attempt after the first wait, failure after the second.\<close>

definition force_deadline :: "session_env \<Rightarrow> nat \<Rightarrow> session \<Rightarrow> session_result" where
  "force_deadline E i st =
     (case forced_phase i st of
        Some (disposes, ForceRetry) \<Rightarrow>
          (case requestForceKill E st of
             (r, True) \<Rightarrow> emit_then r (\<lambda>st. (drop_forced i st, [ForceKillDone i False]))
           | (r, False) \<Rightarrow> emit_then r (emit_quiet (\<lambda>st. add_forced i disposes (waiting_phase ForceAwait st) (drop_forced i st))))
      | Some (disposes, ForceAwait) \<Rightarrow> (drop_forced i st, [ForceKillDone i False])
      | _ \<Rightarrow> (st, []))"

definition session_signal :: "jsstr \<Rightarrow> session \<Rightarrow> session_result" where
  "session_signal sig st = (if ss_state st = Exited then (st, []) else (st, [PtySignal sig]))"

subsection \<open>Clients\<close>

definition attachClient :: "session \<Rightarrow> session" where
  "attachClient st = st\<lparr>ss_clients := ss_clients st @ [ss_nextToken st], ss_nextToken := ss_nextToken st + 1\<rparr>"

definition detachClient :: "nat \<Rightarrow> session \<Rightarrow> session_result" where
  "detachClient token st =
     (let st1 = st\<lparr>ss_clients := remove1 token (ss_clients st)\<rparr>
      in if ss_clients st1 = [] then releaseProducerPause True st1 else (st1, []))"

definition detachAllClients :: "session \<Rightarrow> session_result" where
  "detachAllClients st = releaseProducerPause True (st\<lparr>ss_clients := []\<rparr>)"

subsection \<open>The end\<close>

definition disposeSubprocessHandle :: "session \<Rightarrow> session_result" where
  "disposeSubprocessHandle st =
     (if ss_subprocessDisposed st then (st, []) else (st\<lparr>ss_subprocessDisposed := True\<rparr>, [PtyDispose]))"

definition teardownSubprocess :: "session \<Rightarrow> session_result" where
  "teardownSubprocess st =
     (if ss_disposed st then (st, [])
      else emit_then (releaseProducerPause True (st\<lparr>ss_disposed := True\<rparr>))
        (\<lambda>st. disposeSubprocessHandle (st\<lparr>ss_killTimer := None, ss_shellReadyTimer := False, ss_scan := None,
           ss_preReadyStdinQueue := [], ss_gate := flush_gate_clear (ss_gate st)\<rparr>)))"

definition session_dispose :: "session \<Rightarrow> session_result" where
  "session_dispose st =
     (if ss_disposed st then (st, [])
      else let wasTerminating = (ss_isTerminating st \<and> ss_state st \<noteq> Exited);
               clientsToNotify = (if wasTerminating then ss_clients st else [])
           in emit_then (if wasTerminating then (st\<lparr>ss_exitCode := Some (-1), ss_isTerminating := False\<rparr>, [PtyForceKill]) else (st, []))
                (\<lambda>st. emit_then (teardownSubprocess st)
                  (\<lambda>st. (st\<lparr>ss_state := Exited, ss_clients := [], ss_preReadyStdinQueue := [], ss_gate := flush_gate_clear (ss_gate st)\<rparr>,
                     EmuDispose # map (\<lambda>c. ClientExit c (-1)) clientsToNotify))))"

definition disposeSubprocess :: "session \<Rightarrow> session_result" where
  "disposeSubprocess st = emit_then (teardownSubprocess st) (emit_quiet (\<lambda>st. st\<lparr>ss_state := Exited\<rparr>))"

definition markExited :: "session \<Rightarrow> session" where
  "markExited st =
     (if ss_physicallyExited st then st
      else st\<lparr>ss_physicallyExited := True, ss_forced := map (\<lambda>(i, d, _). (i, d, ForceExited)) (ss_forced st)\<rparr>)"

definition handleSubprocessExit :: "int \<Rightarrow> session \<Rightarrow> session_result" where
  "handleSubprocessExit code st =
     (let st1 = markExited st
      in if ss_disposed st1 then (st1, [])
         else emit_then (releaseProducerPause False (st1\<lparr>ss_exitCode := Some code, ss_state := Exited, ss_isTerminating := False\<rparr>))
           (\<lambda>st. emit_then (fst (releaseHeldShellReadyBytes st))
             (\<lambda>st. emit_then (disposeSubprocessHandle (st\<lparr>ss_killTimer := None, ss_shellReadyTimer := False,
                       ss_gate := flush_gate_clear (ss_gate st)\<rparr>))
               (\<lambda>st. (st, map (\<lambda>c. ClientExit c code) (ss_clients st) @ [SessionExit code])))))"

text \<open>What runs when the exit a waiter asked for has been seen.\<close>

definition force_continues :: "nat \<Rightarrow> session \<Rightarrow> session_result" where
  "force_continues i st =
     (case forced_phase i st of
        Some (disposes, ForceExited) \<Rightarrow>
          emit_then (if disposes then session_dispose (drop_forced i st) else (drop_forced i st, []))
            (\<lambda>st. (st, [ForceKillDone i True]))
      | _ \<Rightarrow> (st, []))"

subsection \<open>The machine\<close>

definition new_session :: "bool \<Rightarrow> bool \<Rightarrow> bool \<Rightarrow> bool \<Rightarrow> session" where
  "new_session agent canPause canClear shellReadySupported =
     \<lparr>ss_agent = agent, ss_canPause = canPause, ss_canClear = canClear, ss_state = Running,
      ss_shellState = (if shellReadySupported then ShellPending else ShellUnsupported), ss_exitCode = None,
      ss_isTerminating = False, ss_disposed = False, ss_clients = [], ss_nextToken = 0, ss_preReadyStdinQueue = [],
      ss_scan = (if shellReadySupported then Some createShellReadyScanState else None),
      ss_shellReadyTimer = shellReadySupported, ss_killTimer = None, ss_gate = new_flush_gate,
      ss_pendingOutputRecords = [], ss_pendingOutputBytes = 0, ss_pendingOutputOverflowed = False, ss_pendingOutputSeq = 0,
      ss_outputSequence = 0, ss_producerPaused = False, ss_failsafeTimer = False, ss_forceKillSent = False,
      ss_subprocessDisposed = False, ss_physicallyExited = False, ss_forced = [], ss_sweeps = 0\<rparr>"

datatype session_event =
    SeData jsstr
  | SeExit int
  | SeShellTimeout
  | SePromptSettled
  | SePromptFallback
  | SeWrite jsstr
  | SeResize pty_size pty_size
  | SePause
  | SeResume
  | SeFailsafe
  | SeClear
  | SeTake bool bool
  | SeAttach
  | SeDetach nat
  | SeDetachAll
  | SeBeginTermination
  | SeSignalRoot
  | SeScheduleFallback
  | SeKill
  | SeSweepSignals
  | SeKillTimer
  | SeForceKill nat bool
  | SeForceDeadline nat
  | SeForceContinues nat
  | SeSignal jsstr
  | SeDispose
  | SeDisposeSubprocess

fun session_step :: "session_env \<times> session_event \<Rightarrow> session \<Rightarrow> session_result" where
  "session_step (E, SeData data) st = handleSubprocessData data st"
| "session_step (E, SeExit code) st = handleSubprocessExit code st"
| "session_step (E, SeShellTimeout) st = (if ss_shellReadyTimer st then onShellReadyTimeout st else (st, []))"
| "session_step (E, SePromptSettled) st =
     (if fg_postDataTimer (ss_gate st) then flushPreReadyQueue (st\<lparr>ss_gate := (ss_gate st)\<lparr>fg_postDataTimer := False\<rparr>\<rparr>) else (st, []))"
| "session_step (E, SePromptFallback) st =
     (if fg_fallbackTimer (ss_gate st)
      then flushPreReadyQueue (st\<lparr>ss_gate := (ss_gate st)\<lparr>fg_fallbackTimer := False, fg_awaitingPromptDraw := False\<rparr>\<rparr>) else (st, []))"
| "session_step (E, SeWrite data) st = session_write data st"
| "session_step (E, SeResize c r) st = session_resize c r st"
| "session_step (E, SePause) st = pauseProducer st"
| "session_step (E, SeResume) st = releaseProducerPause True st"
| "session_step (E, SeFailsafe) st = (if ss_failsafeTimer st then failsafe_fires st else (st, []))"
| "session_step (E, SeClear) st = session_clearScrollback E st"
| "session_step (E, SeTake s t) st = takePendingOutput s t st"
| "session_step (E, SeAttach) st = (attachClient st, [])"
| "session_step (E, SeDetach t) st = detachClient t st"
| "session_step (E, SeDetachAll) st = detachAllClients st"
| "session_step (E, SeBeginTermination) st = fst (beginTermination st)"
| "session_step (E, SeSignalRoot) st = fst (signalTerminationRoot E st)"
| "session_step (E, SeScheduleFallback) st = (scheduleForceDisposeFallback st, [])"
| "session_step (E, SeKill) st = session_kill E st"
| "session_step (E, SeSweepSignals) st =
     (if ss_sweeps st > 0 then sweep_signals E (st\<lparr>ss_sweeps := ss_sweeps st - 1\<rparr>) else (st, []))"
| "session_step (E, SeKillTimer) st = killTimer_fires E st"
| "session_step (E, SeForceKill i d) st = forceKillAndWaitForExit E i d st"
| "session_step (E, SeForceDeadline i) st = force_deadline E i st"
| "session_step (E, SeForceContinues i) st = force_continues i st"
| "session_step (E, SeSignal sig) st = session_signal sig st"
| "session_step (E, SeDispose) st = session_dispose st"
| "session_step (E, SeDisposeSubprocess) st = disposeSubprocess st"

abbreviation session_run :: "(session_env \<times> session_event) list \<Rightarrow> session \<Rightarrow> session_result" where
  "session_run es st \<equiv> emit_each session_step es st"

end
