(* ===== verification/Daemon_Session_Props.thy ===== *)
theory Daemon_Session_Props
  imports Daemon_Session
begin

text \<open>
  What a terminal session keeps: typed input reaches the process in order and is never held without a timer that
  lets it go, and the output is what the process wrote less one ready marker.
\<close>

subsection \<open>What a helper leaves alone\<close>

lemma record_keeps [simp]:
  "ss_agent (recordPendingOutput r st) = ss_agent st" "ss_canPause (recordPendingOutput r st) = ss_canPause st" "ss_canClear (recordPendingOutput r st) = ss_canClear st"
  "ss_state (recordPendingOutput r st) = ss_state st" "ss_shellState (recordPendingOutput r st) = ss_shellState st" "ss_exitCode (recordPendingOutput r st) = ss_exitCode st"
  "ss_isTerminating (recordPendingOutput r st) = ss_isTerminating st" "ss_disposed (recordPendingOutput r st) = ss_disposed st" "ss_clients (recordPendingOutput r st) = ss_clients st"
  "ss_nextToken (recordPendingOutput r st) = ss_nextToken st" "ss_preReadyStdinQueue (recordPendingOutput r st) = ss_preReadyStdinQueue st" "ss_scan (recordPendingOutput r st) = ss_scan st"
  "ss_shellReadyTimer (recordPendingOutput r st) = ss_shellReadyTimer st" "ss_killTimer (recordPendingOutput r st) = ss_killTimer st" "ss_gate (recordPendingOutput r st) = ss_gate st"
  "ss_outputSequence (recordPendingOutput r st) = ss_outputSequence st" "ss_producerPaused (recordPendingOutput r st) = ss_producerPaused st" "ss_failsafeTimer (recordPendingOutput r st) = ss_failsafeTimer st"
  "ss_forceKillSent (recordPendingOutput r st) = ss_forceKillSent st" "ss_subprocessDisposed (recordPendingOutput r st) = ss_subprocessDisposed st" "ss_physicallyExited (recordPendingOutput r st) = ss_physicallyExited st"
  "ss_forced (recordPendingOutput r st) = ss_forced st" "ss_sweeps (recordPendingOutput r st) = ss_sweeps st"
  by (simp_all add: recordPendingOutput_def)


lemma emit_keeps [simp]:
  "ss_agent (fst (emitSubprocessOutput d st)) = ss_agent st" "ss_canPause (fst (emitSubprocessOutput d st)) = ss_canPause st" "ss_canClear (fst (emitSubprocessOutput d st)) = ss_canClear st"
  "ss_state (fst (emitSubprocessOutput d st)) = ss_state st" "ss_shellState (fst (emitSubprocessOutput d st)) = ss_shellState st" "ss_exitCode (fst (emitSubprocessOutput d st)) = ss_exitCode st"
  "ss_isTerminating (fst (emitSubprocessOutput d st)) = ss_isTerminating st" "ss_disposed (fst (emitSubprocessOutput d st)) = ss_disposed st" "ss_clients (fst (emitSubprocessOutput d st)) = ss_clients st"
  "ss_nextToken (fst (emitSubprocessOutput d st)) = ss_nextToken st" "ss_preReadyStdinQueue (fst (emitSubprocessOutput d st)) = ss_preReadyStdinQueue st" "ss_scan (fst (emitSubprocessOutput d st)) = ss_scan st"
  "ss_shellReadyTimer (fst (emitSubprocessOutput d st)) = ss_shellReadyTimer st" "ss_killTimer (fst (emitSubprocessOutput d st)) = ss_killTimer st" "ss_gate (fst (emitSubprocessOutput d st)) = ss_gate st"
  "ss_producerPaused (fst (emitSubprocessOutput d st)) = ss_producerPaused st" "ss_failsafeTimer (fst (emitSubprocessOutput d st)) = ss_failsafeTimer st" "ss_forceKillSent (fst (emitSubprocessOutput d st)) = ss_forceKillSent st"
  "ss_subprocessDisposed (fst (emitSubprocessOutput d st)) = ss_subprocessDisposed st" "ss_physicallyExited (fst (emitSubprocessOutput d st)) = ss_physicallyExited st" "ss_forced (fst (emitSubprocessOutput d st)) = ss_forced st"
  "ss_sweeps (fst (emitSubprocessOutput d st)) = ss_sweeps st"
  by (simp_all add: emitSubprocessOutput_def Let_def)


definition live :: "session \<Rightarrow> bool" where
  "live st \<longleftrightarrow> ss_state st \<noteq> Exited \<and> \<not> ss_disposed st"

lemmas session_ops =
  handleSubprocessData_def handleSubprocessExit_def onShellReadyTimeout_def flushPreReadyQueue_def transitionToReady_def
  releaseHeldShellReadyBytes_def drainShellReadyHeldBytes_def session_write_def session_resize_def pauseProducer_def
  releaseProducerPause_def failsafe_fires_def session_clearScrollback_def nudgePowerShellPromptRepaint_def
  takePendingOutput_def beginTermination_def resetTerminationAfterSignalFailure_def signalTerminationRoot_def
  scheduleForceDisposeFallback_def session_kill_def sweep_signals_def requestForceKill_def killTimer_fires_def
  add_forced_def forceKillAndWaitForExit_def drop_forced_def force_deadline_def session_signal_def attachClient_def
  detachClient_def detachAllClients_def disposeSubprocessHandle_def teardownSubprocess_def session_dispose_def
  disposeSubprocess_def markExited_def force_continues_def resume_call_def

text \<open>Facts about the state and the output of every step are shown by running through the events.\<close>

subsection \<open>Input is never held without a timer\<close>

definition hold_ok :: "session \<Rightarrow> bool" where
  "hold_ok st \<longleftrightarrow> (live st \<longrightarrow>
     (ss_shellState st = ShellPending \<longrightarrow> ss_shellReadyTimer st) \<and>
     (fg_awaitingPromptDraw (ss_gate st) \<longrightarrow> fg_fallbackTimer (ss_gate st)) \<and>
     (ss_preReadyStdinQueue st \<noteq> [] \<longrightarrow> ss_shellState st = ShellPending \<or> flush_gate_isPending (ss_gate st)))"

lemma hold_step: "hold_ok st \<Longrightarrow> hold_ok (fst (session_step x st))"
  by (cases "(x, st)" rule: session_step.cases)
    (auto simp: hold_ok_def live_def session_ops Let_def flush_gate_arm_def flush_gate_notifyData_def
      flush_gate_isPending_def flush_gate_clear_def case_prod_unfold split: option.splits bool.splits if_splits force_phase.splits)

definition written :: "session_out list \<Rightarrow> jsstr list" where
  "written out = concat (map (\<lambda>x. case x of PtyWrite d \<Rightarrow> [d] | _ \<Rightarrow> []) out)"

lemma written_input_simps [simp]:
  "written [] = []" "written (a @ b) = written a @ written b" "written (x # out) = (case x of PtyWrite d \<Rightarrow> [d] | _ \<Rightarrow> []) @ written out"
  "written (map PtyWrite ds) = ds" "written (map (\<lambda>c. ClientData c d) cs) = []" "written (map (\<lambda>c. ClientExit c k) cs) = []"
  by (simp_all add: written_def comp_def)

lemma written_emit [simp]: "written (snd (emitSubprocessOutput d st)) = []"
  by (simp add: emitSubprocessOutput_def Let_def)

fun typed :: "session_event \<Rightarrow> jsstr list" where
  "typed (SeWrite d) = [d]"
| "typed _ = []"

lemma input_step:
  "hold_ok st \<Longrightarrow> live (fst (session_step x st)) \<Longrightarrow>
   live st \<and> written (snd (session_step x st)) @ ss_preReadyStdinQueue (fst (session_step x st)) = ss_preReadyStdinQueue st @ typed (snd x)"
  by (cases "(x, st)" rule: session_step.cases)
    (auto simp: hold_ok_def live_def session_ops Let_def case_prod_unfold split: option.splits bool.splits if_splits force_phase.splits)

definition calm :: session_env where
  "calm = \<lparr>sv_killThrows = False, sv_forceKillThrows = False, sv_powerShellPrompt = False\<rparr>"


lemma hold_run: "hold_ok st \<Longrightarrow> hold_ok (fst (session_run es st))"
  by (induction es arbitrary: st) (auto simp: hold_step)

text \<open>
  Held input has a timer that lets it go.  In every reachable state of a living session that holds input,
  one of three timers is armed, the one for a shell that never reports ready or one of the two that wait for the
  prompt to be drawn, and when it fires all of the held input is written, in order.
\<close>

theorem held_input_is_let_go:
  assumes "ss_state (fst (session_run es (new_session agent canPause canClear ready))) \<noteq> Exited"
    and "\<not> ss_disposed (fst (session_run es (new_session agent canPause canClear ready)))"
    and "ss_preReadyStdinQueue (fst (session_run es (new_session agent canPause canClear ready))) \<noteq> []"
  shows "\<exists>e. let st = fst (session_run es (new_session agent canPause canClear ready)); r = session_step (E, e) st
     in ((e = SeShellTimeout \<and> ss_shellReadyTimer st) \<or> (e = SePromptSettled \<and> fg_postDataTimer (ss_gate st)) \<or>
         (e = SePromptFallback \<and> fg_fallbackTimer (ss_gate st))) \<and>
       written (snd r) = ss_preReadyStdinQueue st \<and>
       ss_preReadyStdinQueue (fst r) = []"
proof -
  let ?st = "fst (session_run es (new_session agent canPause canClear ready))"
  have "hold_ok (new_session agent canPause canClear ready)" by (simp add: hold_ok_def new_session_def new_flush_gate_def)
  then have ok: "hold_ok ?st" by (rule hold_run)
  have live: "live ?st" using assms(1,2) by (simp add: live_def)
  consider (pending) "ss_shellState ?st = ShellPending" "ss_shellReadyTimer ?st" | (settled) "fg_postDataTimer (ss_gate ?st)"
    | (fallback) "fg_fallbackTimer (ss_gate ?st)"
    using ok live assms(3) by (auto simp: hold_ok_def flush_gate_isPending_def)
  then show ?thesis
  proof cases
    case pending
    then show ?thesis
      by (intro exI [of _ SeShellTimeout])
        (simp add: Let_def onShellReadyTimeout_def flushPreReadyQueue_def releaseHeldShellReadyBytes_def drainShellReadyHeldBytes_def
          split: option.split)
  next
    case settled
    then show ?thesis by (intro exI [of _ SePromptSettled]) (simp add: Let_def flushPreReadyQueue_def)
  next
    case fallback
    then show ?thesis by (intro exI [of _ SePromptFallback]) (simp add: Let_def flushPreReadyQueue_def)
  qed
qed

theorem held_input_is_let_go_witness:
  "\<exists>e. let st = fst (session_run [(calm, SeWrite (js ''claude''))] (new_session False True True True));
        r = session_step (calm, e) st
     in ((e = SeShellTimeout \<and> ss_shellReadyTimer st) \<or> (e = SePromptSettled \<and> fg_postDataTimer (ss_gate st)) \<or>
         (e = SePromptFallback \<and> fg_fallbackTimer (ss_gate st))) \<and>
       written (snd r) = ss_preReadyStdinQueue st \<and>
       ss_preReadyStdinQueue (fst r) = []"
  by (rule held_input_is_let_go) code_simp+

subsection \<open>Output\<close>

definition emulated :: "session_out list \<Rightarrow> jsstr" where
  "emulated out = concat (map (\<lambda>x. case x of EmuWrite d \<Rightarrow> d | _ \<Rightarrow> []) out)"

lemma emulated_simps [simp]:
  "emulated [] = []" "emulated (a @ b) = emulated a @ emulated b"
  "emulated (x # out) = (case x of EmuWrite d \<Rightarrow> d | _ \<Rightarrow> []) @ emulated out"
  "emulated (map PtyWrite ds) = []" "emulated (map (\<lambda>c. ClientData c d) cs) = []" "emulated (map (\<lambda>c. ClientExit c k) cs) = []"
  by (simp_all add: emulated_def comp_def)

lemma emulated_emit [simp]: "emulated (snd (emitSubprocessOutput d st)) = d"
  by (simp add: emitSubprocessOutput_def Let_def)

lemma sequence_emit [simp]: "ss_outputSequence (fst (emitSubprocessOutput d st)) = ss_outputSequence st + length d"
  by (simp add: emitSubprocessOutput_def Let_def)

fun produced :: "session_event \<Rightarrow> jsstr" where
  "produced (SeData d) = d"
| "produced _ = []"

text \<open>What has been shown, against what the process wrote.\<close>

definition shown_ok :: "jsstr \<Rightarrow> jsstr \<Rightarrow> session \<Rightarrow> bool" where
  "shown_ok w shown st \<longleftrightarrow> ss_outputSequence st = length shown \<and> (\<not> ss_disposed st \<longrightarrow>
     (case ss_scan st of
        Some sc \<Rightarrow> ss_shellState st = ShellPending \<and>
          scanForShellReady createShellReadyScanState w = (sc, \<lparr>rr_output = shown, rr_matched = False, rr_postMarkerBytesObserved = False\<rparr>)
      | None \<Rightarrow>
          (if ss_shellState st = ShellReady then \<exists>a b. find_marker w = Some (a, b) \<and> shown = a @ b else shown = w)))"

lemma shown_quiet:
  assumes "shown_ok w s st" and "ss_outputSequence st' = ss_outputSequence st" and "ss_disposed st \<longrightarrow> ss_disposed st'"
    and "\<not> ss_disposed st' \<longrightarrow> ss_scan st' = ss_scan st \<and> ss_shellState st' = ss_shellState st"
  shows "shown_ok w s st'"
  using assms by (cases "ss_scan st") (auto simp: shown_ok_def)

lemma scan_whole: "scanned [] w (scanForShellReady createShellReadyScanState w)"
  using scan_spec [OF scan_start_ok(1), of w] scan_start_ok(2) by simp

lemma shown_timeout:
  assumes "shown_ok w s st" and "shell = ss_shellState st \<or> ss_shellState st = ShellPending \<and> shell = ShellTimedOut"
  shows "shown_ok w (s @ emulated (snd (fst (releaseHeldShellReadyBytes (st\<lparr>ss_shellState := shell\<rparr>)))))
    (fst (fst (releaseHeldShellReadyBytes (st\<lparr>ss_shellState := shell\<rparr>))))"
proof (cases "ss_scan st")
  case (Some sc)
  have "ss_disposed st \<or> s @ rs_heldBytes sc = w"
    using assms(1) Some scan_whole [of w] by (auto simp: shown_ok_def scanned_def split: option.splits)
  then show ?thesis
    using Some assms by (auto simp: shown_ok_def releaseHeldShellReadyBytes_def drainShellReadyHeldBytes_def Let_def)
next
  case None
  then show ?thesis using assms by (auto simp: shown_ok_def releaseHeldShellReadyBytes_def)
qed

lemma shown_release:
  "shown_ok w s st \<Longrightarrow>
   shown_ok w (s @ emulated (snd (fst (releaseHeldShellReadyBytes st)))) (fst (fst (releaseHeldShellReadyBytes st)))"
  using shown_timeout [of w s st "ss_shellState st"] by simp

lemma find_marker_append: "find_marker x = Some (a, b) \<Longrightarrow> find_marker (x @ y) = Some (a, b @ y)"
proof (induction x arbitrary: a)
  case (Cons c x)
  show ?case
  proof (cases "take (length SHELL_READY_MARKER) (c # x) = SHELL_READY_MARKER")
    case True
    then have "length SHELL_READY_MARKER \<le> length (c # x)" by (metis length_take min.absorb_iff2 nat_le_linear)
    then have "take (length SHELL_READY_MARKER) ((c # x) @ y) = SHELL_READY_MARKER"
        and "drop (length SHELL_READY_MARKER) ((c # x) @ y) = drop (length SHELL_READY_MARKER) (c # x) @ y"
      using True by (simp_all only: take_append drop_append diff_is_0_eq' take0 drop0 append_Nil2)
    then show ?thesis using True Cons.prems by simp
  next
    case False
    then obtain a' where "find_marker x = Some (a', b)" "a = c # a'" using Cons.prems by auto
    moreover from find_marker_split [OF this(1)] have "length SHELL_READY_MARKER \<le> length x" by simp
    then have "take (length SHELL_READY_MARKER) ((c # x) @ y) = take (length SHELL_READY_MARKER) (c # x)"
      by (subst take_append) simp
    then have "take (length SHELL_READY_MARKER) ((c # x) @ y) \<noteq> SHELL_READY_MARKER" using False by metis
    ultimately show ?thesis using Cons.IH by simp
  qed
qed simp

lemma ready_scan_append:
  "scanForShellReady createShellReadyScanState (w @ data) =
     (case scanForShellReady createShellReadyScanState w of (sc, r) \<Rightarrow>
        if rr_matched r
        then (sc, r\<lparr>rr_output := rr_output r @ data, rr_postMarkerBytesObserved := rr_postMarkerBytesObserved r \<or> data \<noteq> []\<rparr>)
        else case scanForShellReady sc data of (sc', r') \<Rightarrow> (sc', r'\<lparr>rr_output := rr_output r @ rr_output r'\<rparr>))"
proof -
  obtain sc r where r: "ready_loop w createShellReadyScanState [] = (sc, r)" by fastforce
  show ?thesis using loop_acc [of data sc "rr_output r" "[]"] by (simp add: scanForShellReady_def ready_loop_append r)
qed

lemma shown_data:
  assumes "shown_ok w s st"
  shows "shown_ok (w @ data) (s @ emulated (snd (handleSubprocessData data st))) (fst (handleSubprocessData data st))"
proof (cases "ss_disposed st")
  case False
  show ?thesis
  proof (cases "ss_scan st")
    case None
    have "\<exists>a' b'. find_marker (w @ data) = Some (a', b') \<and> (a @ b) @ data = a' @ b'" if "find_marker w = Some (a, b)" for a b
      using find_marker_append [OF that, of data] by simp
    then show ?thesis
      using assms False None by (auto simp: shown_ok_def handleSubprocessData_def split: if_splits)
  next
    case (Some sc)
    then have sc: "ss_shellState st = ShellPending"
      "scanForShellReady createShellReadyScanState w = (sc, \<lparr>rr_output = s, rr_matched = False, rr_postMarkerBytesObserved = False\<rparr>)"
      using assms False by (simp_all add: shown_ok_def)
    obtain sc' r where r: "scanForShellReady sc data = (sc', r)" by fastforce
    have whole: "scanForShellReady createShellReadyScanState (w @ data) = (sc', r\<lparr>rr_output := s @ rr_output r\<rparr>)"
      by (simp add: ready_scan_append sc(2) r)
    have out: "emulated (snd (handleSubprocessData data st)) = rr_output r"
      using False Some sc(1) by (simp add: handleSubprocessData_def r Let_def)
    show ?thesis
    proof (cases "rr_matched r")
      case True
      then obtain a b where "find_marker (w @ data) = Some (a, b)" "s @ rr_output r = a @ b"
        using scan_whole [of "w @ data"] by (cases r) (auto simp: scanned_def whole split: option.splits)
      then have "length s + length (rr_output r) = length a + length b" by (metis length_append)
      then show ?thesis
        using True False Some sc(1) assms out \<open>find_marker (w @ data) = Some (a, b)\<close> \<open>s @ rr_output r = a @ b\<close>
        by (auto simp: shown_ok_def handleSubprocessData_def r Let_def transitionToReady_def)
    next
      case no: False
      then have "\<not> rr_postMarkerBytesObserved r"
        using scan_whole [of "w @ data"] by (cases r) (auto simp: scanned_def whole split: option.splits)
      then show ?thesis
        using no False Some sc assms out whole by (auto simp: shown_ok_def handleSubprocessData_def r Let_def)
    qed
  qed
qed (use assms in \<open>simp add: shown_ok_def handleSubprocessData_def\<close>)

text \<open>The other steps leave the scanner alone, or end the session.\<close>

definition scan_kept :: "session \<Rightarrow> session_result \<Rightarrow> bool" where
  "scan_kept st r \<longleftrightarrow> emulated (snd r) = [] \<and> ss_outputSequence (fst r) = ss_outputSequence st \<and>
     (ss_disposed st \<longrightarrow> ss_disposed (fst r)) \<and>
     (\<not> ss_disposed (fst r) \<longrightarrow> ss_scan (fst r) = ss_scan st \<and> ss_shellState (fst r) = ss_shellState st)"

lemma scan_kept_shown: "scan_kept st r \<Longrightarrow> shown_ok w s st \<Longrightarrow> shown_ok w (s @ emulated (snd r)) (fst r)"
  using shown_quiet [of w s st "fst r"] by (simp add: scan_kept_def)

fun reads_output :: "session_event \<Rightarrow> bool" where
  "reads_output (SeData d) \<longleftrightarrow> True"
| "reads_output (SeExit c) \<longleftrightarrow> True"
| "reads_output SeShellTimeout \<longleftrightarrow> True"
| "reads_output (SeTake s t) \<longleftrightarrow> True"
| "reads_output _ \<longleftrightarrow> False"

lemma scan_kept_step: "\<not> reads_output (snd x) \<Longrightarrow> scan_kept st (session_step x st)"
  by (cases "(x, st)" rule: session_step.cases)
    (auto simp: scan_kept_def session_ops Let_def case_prod_unfold split: option.splits bool.splits if_splits force_phase.splits)

lemma shown_step:
  assumes "shown_ok w s st"
  shows "shown_ok (w @ produced (snd x)) (s @ emulated (snd (session_step x st))) (fst (session_step x st))"
proof -
  obtain E e where x: "x = (E, e)" by fastforce
  consider (data) d where "e = SeData d" | (exit) c where "e = SeExit c" | (timeout) "e = SeShellTimeout"
    | (taken) i t where "e = SeTake i t" | (other) "\<not> reads_output e" by (cases e) auto
  then show ?thesis
  proof cases
    case data
    then show ?thesis using shown_data [OF assms] by (simp add: x)
  next
    case (exit c)
    let ?st2 = "fst (releaseProducerPause False ((markExited st)\<lparr>ss_exitCode := Some c, ss_state := Exited, ss_isTerminating := False\<rparr>))"
    have "shown_ok w s ?st2" using assms by (rule shown_quiet) (simp_all add: releaseProducerPause_def markExited_def Let_def)
    note release = shown_release [OF this]
    show ?thesis
    proof (cases "ss_disposed (markExited st)")
      case True
      have "shown_ok w s (markExited st)" using assms by (rule shown_quiet) (simp_all add: markExited_def)
      with True show ?thesis by (simp add: x exit handleSubprocessExit_def Let_def)
    next
      case False
      have out: "emulated (snd (session_step x st)) = emulated (snd (fst (releaseHeldShellReadyBytes ?st2)))"
        using False by (simp add: x exit handleSubprocessExit_def Let_def releaseProducerPause_def disposeSubprocessHandle_def)
      have none: "w @ produced (snd x) = w" by (simp add: x exit)
      show ?thesis
        unfolding out none using release
        by (rule shown_quiet) (use False in \<open>simp_all add: x exit handleSubprocessExit_def Let_def disposeSubprocessHandle_def\<close>)
    qed
  next
    case timeout
    have "shown_ok w s (st\<lparr>ss_shellReadyTimer := False\<rparr>)" using assms by (rule shown_quiet) simp_all
    note release = shown_timeout [OF this, of ShellTimedOut]
    have none: "w @ produced (snd x) = w" by (simp add: x timeout)
    show ?thesis
    proof (cases "ss_shellReadyTimer st \<and> ss_shellState st = ShellPending")
      case True
      have "shown_ok w (s @ emulated (snd (session_step x st)))
          (fst (fst (releaseHeldShellReadyBytes (st\<lparr>ss_shellReadyTimer := False, ss_shellState := ShellTimedOut\<rparr>))))"
        using release True by (simp add: x timeout onShellReadyTimeout_def flushPreReadyQueue_def Let_def)
      then show ?thesis
        unfolding none by (rule shown_quiet) (use True in \<open>simp_all add: x timeout onShellReadyTimeout_def flushPreReadyQueue_def Let_def\<close>)
    next
      case False
      then show ?thesis
        using assms by (auto simp: x timeout onShellReadyTimeout_def Let_def intro!: shown_quiet [OF assms])
    qed
  next
    case (taken i t)
    have none: "w @ produced (snd x) = w" by (simp add: x taken)
    show ?thesis
    proof (cases "ss_disposed st \<or> \<not> (i \<and> t)")
      case True
      then show ?thesis
        using assms by (auto simp: x taken takePendingOutput_def Let_def intro!: shown_quiet [OF assms])
    next
      case False
      have "shown_ok w (s @ emulated (snd (session_step x st))) (fst (fst (releaseHeldShellReadyBytes st)))"
        using shown_release [OF assms] False by (simp add: x taken takePendingOutput_def Let_def case_prod_unfold)
      then show ?thesis
        unfolding none by (rule shown_quiet) (use False in \<open>simp_all add: x taken takePendingOutput_def Let_def case_prod_unfold\<close>)
    qed
  next
    case other
    then show ?thesis using scan_kept_shown [OF _ assms, of "session_step x st"] scan_kept_step [of x st]
      by (cases e) (auto simp: x)
  qed
qed

lemma shown_run:
  "shown_ok w s st \<Longrightarrow>
   shown_ok (w @ concat (map (produced \<circ> snd) es)) (s @ emulated (snd (session_run es st))) (fst (session_run es st))"
proof (induction es arbitrary: w s st)
  case (Cons x es)
  from Cons.IH [OF shown_step [OF Cons.prems, of x]] show ?case by simp
qed simp

text \<open>
  C27: The output is what the process wrote, less at most one ready marker.  Over any interleaving, while the
  session is not disposed of, what the emulator was given is what the process wrote, without the first ready marker
  if the shell has reported ready, and without a piece of the marker that is still held back if it may yet report
  it; the sequence number counts exactly the units the emulator was given.
\<close>

theorem output_is_intact:
  "let r = session_run es (new_session agent canPause canClear ready); st = fst r;
       w = concat (map (produced \<circ> snd) es); shown = concat (map (\<lambda>x. case x of EmuWrite d \<Rightarrow> d | _ \<Rightarrow> []) (snd r))
   in ss_outputSequence st = length shown \<and>
     (ss_disposed st \<or>
      (case ss_scan st of
         Some sc \<Rightarrow> find_marker w = None \<and> shown @ rs_heldBytes sc = w \<and>
           rs_heldBytes sc = take (rs_matchPos sc) SHELL_READY_MARKER_PREFIX
       | None \<Rightarrow> if ss_shellState st = ShellReady
           then \<exists>a b. w = a @ SHELL_READY_MARKER @ b \<and> find_marker w = Some (a, b) \<and> shown = a @ b else shown = w))"
proof -
  have "shown_ok [] [] (new_session agent canPause canClear ready)"
    by (simp add: shown_ok_def new_session_def scanForShellReady_def)
  from shown_run [OF this, of es]
  have ok: "shown_ok (concat (map (produced \<circ> snd) es)) (emulated (snd (session_run es (new_session agent canPause canClear ready))))
      (fst (session_run es (new_session agent canPause canClear ready)))" by simp
  show ?thesis
    using ok scan_whole [of "concat (map (produced \<circ> snd) es)"] find_marker_split [of "concat (map (produced \<circ> snd) es)"]
    unfolding Let_def emulated_def [symmetric]
    by (auto simp: shown_ok_def scanned_def ready_ok_def split: option.splits)
qed

end
