(* ===== verification/Daemon_Session_Safety.thy ===== *)
theory Daemon_Session_Safety
  imports Daemon_Session_Props
begin

text \<open>
  A terminal session against what hangs on it: the checkpoints that restore the emulator, the process that must
  not stay paused, and the process that is gone and must not be signalled.
\<close>

subsection \<open>Checkpoints\<close>

text \<open>What a record does to an emulator, unit by unit, so that joined records and their parts are the same.\<close>

definition units :: "PendingOutputRecord list \<Rightarrow> PendingOutputRecord list" where
  "units rs = concat (map (\<lambda>r. case r of RecOutput d \<Rightarrow> map (\<lambda>c. RecOutput [c]) d | _ \<Rightarrow> [r]) rs)"

lemma units_simps [simp]:
  "units [] = []" "units (a @ b) = units a @ units b"
  "units (r # rs) = (case r of RecOutput d \<Rightarrow> map (\<lambda>c. RecOutput [c]) d | _ \<Rightarrow> [r]) @ units rs"
  by (simp_all add: units_def)

lemma units_push: "units (push_record rs r) = units rs @ units [r]"
  by (induction rs r rule: push_record.induct) auto

lemma bytes_push: "sum_list (map record_bytes (push_record rs r)) = sum_list (map record_bytes rs) + record_bytes r"
  by (induction rs r rule: push_record.induct) (auto simp: record_bytes_def)

fun emulator_call :: "session_out \<Rightarrow> PendingOutputRecord list" where
  "emulator_call (EmuWrite d) = [RecOutput d]"
| "emulator_call (EmuResize c r) = [RecResize c r]"
| "emulator_call EmuClear = [RecClear]"
| "emulator_call _ = []"

text \<open>
  A reader of the checkpoints: what the emulator was asked to do so far, and what the reader can rebuild.  A snapshot
  rebuilds all of it, records are added to what there is, and records that were dropped leave the reader with
  nothing until the next snapshot.
\<close>

type_synonym reader = "PendingOutputRecord list \<times> PendingOutputRecord list option"

fun read_checkpoint :: "session_out \<Rightarrow> reader \<Rightarrow> reader" where
  "read_checkpoint (Took (Some t)) (all, kept) =
     (all, if tk_snapshot t then Some all else if tk_overflowed t then None else map_option (\<lambda>x. x @ units (tk_records t)) kept)"
| "read_checkpoint x (all, kept) = (all @ units (emulator_call x), kept)"

definition read_all :: "session_out list \<Rightarrow> reader \<Rightarrow> reader" where
  "read_all out rd = fold read_checkpoint out rd"

lemma read_all_simps [simp]:
  "read_all [] rd = rd" "read_all (a @ b) rd = read_all b (read_all a rd)" "read_all (x # out) rd = read_all out (read_checkpoint x rd)"
  by (simp_all add: read_all_def)

lemma read_silent: "\<forall>x\<in>set out. emulator_call x = [] \<and> (\<forall>t. x \<noteq> Took t) \<Longrightarrow> read_all out rd = rd"
proof (induction out arbitrary: rd)
  case (Cons x out)
  then have "read_checkpoint x rd = rd" by (cases "(x, rd)" rule: read_checkpoint.cases) auto
  with Cons show ?case by simp
qed simp

lemma read_leaving [simp]:
  "read_checkpoint PtyDispose rd = rd" "read_checkpoint (SessionExit c) rd = rd" "read_all (map (\<lambda>t. ClientExit t c) cs) rd = rd"
  "read_all (map PtyWrite q) rd = rd"
  by (cases rd, simp, cases rd, simp) (rule read_silent, auto)+

definition reader_ok :: "reader \<Rightarrow> session \<Rightarrow> bool" where
  "reader_ok rd st \<longleftrightarrow>
     ss_pendingOutputBytes st = sum_list (map record_bytes (ss_pendingOutputRecords st)) \<and>
     ss_pendingOutputBytes st \<le> PENDING_OUTPUT_MAX_BYTES \<and>
     (ss_pendingOutputOverflowed st \<or> snd rd = None \<or> (\<exists>x. snd rd = Some x \<and> x @ units (ss_pendingOutputRecords st) = fst rd))"

lemma reader_record:
  assumes "reader_ok (all, kept) st"
  shows "reader_ok (all @ units [r], kept) (recordPendingOutput r st)"
  using assms by (auto simp: reader_ok_def recordPendingOutput_def units_push bytes_push)

lemma reader_quiet:
  assumes "reader_ok rd st" and "ss_pendingOutputRecords st' = ss_pendingOutputRecords st"
    and "ss_pendingOutputBytes st' = ss_pendingOutputBytes st" and "ss_pendingOutputOverflowed st' = ss_pendingOutputOverflowed st"
  shows "reader_ok rd st'"
  using assms by (simp add: reader_ok_def)

lemma reader_emit:
  assumes "reader_ok rd st"
  shows "reader_ok (read_all (snd (emitSubprocessOutput d st)) rd) (fst (emitSubprocessOutput d st))"
proof (cases "d = []")
  case False
  obtain all kept where rd: "rd = (all, kept)" by fastforce
  have "reader_ok (all, kept) (st\<lparr>ss_outputSequence := ss_outputSequence st + length d\<rparr>)"
    using assms unfolding rd by (rule reader_quiet) simp_all
  from reader_record [OF this, of "RecOutput d"] show ?thesis
    using False read_silent [of "map (\<lambda>c. ClientData c d) (ss_clients st)"]
    by (simp add: emitSubprocessOutput_def Let_def rd)
qed (use assms in \<open>simp add: emitSubprocessOutput_def\<close>)

lemma reader_release:
  assumes "reader_ok rd st"
  shows "reader_ok (read_all (snd (fst (releaseHeldShellReadyBytes st))) rd) (fst (fst (releaseHeldShellReadyBytes st)))"
proof (cases "ss_scan st")
  case (Some sc)
  have "reader_ok rd (st\<lparr>ss_scan := None\<rparr>)" using assms by (rule reader_quiet) simp_all
  from reader_emit [OF this] show ?thesis by (simp add: releaseHeldShellReadyBytes_def Some Let_def)
qed (use assms in \<open>simp add: releaseHeldShellReadyBytes_def\<close>)

text \<open>Steps that neither record nor hand out.\<close>

definition unread :: "session \<Rightarrow> session_result \<Rightarrow> bool" where
  "unread st r \<longleftrightarrow> (\<forall>x\<in>set (snd r). emulator_call x = [] \<and> (\<forall>t. x \<noteq> Took t)) \<and>
     ss_pendingOutputRecords (fst r) = ss_pendingOutputRecords st \<and> ss_pendingOutputBytes (fst r) = ss_pendingOutputBytes st \<and>
     ss_pendingOutputOverflowed (fst r) = ss_pendingOutputOverflowed st"

lemma unread_reader: "unread st r \<Longrightarrow> reader_ok rd st \<Longrightarrow> reader_ok (read_all (snd r) rd) (fst r)"
  using reader_quiet [of rd st "fst r"] read_silent [of "snd r" rd] by (simp add: unread_def)

fun recording :: "session_event \<Rightarrow> bool" where
  "recording (SeResize c r) \<longleftrightarrow> True"
| "recording SeClear \<longleftrightarrow> True"
| "recording e \<longleftrightarrow> reads_output e"

lemma unread_step: "\<not> recording (snd x) \<Longrightarrow> unread st (session_step x st)"
  by (cases "(x, st)" rule: session_step.cases)
    (auto simp: unread_def session_ops Let_def case_prod_unfold split: option.splits bool.splits if_splits force_phase.splits)

lemma reader_step:
  assumes "reader_ok rd st"
  shows "reader_ok (read_all (snd (session_step x st)) rd) (fst (session_step x st))"
proof -
  obtain E e where x: "x = (E, e)" by fastforce
  obtain all kept where rd: "rd = (all, kept)" by fastforce
  have quiet: "\<And>st'. ss_pendingOutputRecords st' = ss_pendingOutputRecords st \<Longrightarrow> ss_pendingOutputBytes st' = ss_pendingOutputBytes st \<Longrightarrow>
      ss_pendingOutputOverflowed st' = ss_pendingOutputOverflowed st \<Longrightarrow> reader_ok rd st'"
    using assms by (rule reader_quiet)
  consider (data) d where "e = SeData d" | (exit) c where "e = SeExit c" | (timeout) "e = SeShellTimeout"
    | (taken) i t where "e = SeTake i t" | (resize) c r where "e = SeResize c r" | (clear) "e = SeClear" | (other) "\<not> recording e"
    by (cases e) auto
  then show ?thesis
  proof cases
    case data
    show ?thesis
      using assms by (auto simp: x data handleSubprocessData_def Let_def transitionToReady_def
          intro!: reader_emit quiet split: option.split prod.split)
  next
    case (exit c)
    let ?st2 = "fst (releaseProducerPause False ((markExited st)\<lparr>ss_exitCode := Some c, ss_state := Exited, ss_isTerminating := False\<rparr>))"
    have "reader_ok rd ?st2" by (rule quiet) (simp_all add: releaseProducerPause_def markExited_def Let_def)
    note release = reader_release [OF this]
    show ?thesis
    proof (cases "ss_disposed (markExited st)")
      case True
      then show ?thesis by (auto simp: x exit handleSubprocessExit_def Let_def markExited_def intro!: quiet)
    next
      case False
      have out: "read_all (snd (session_step x st)) rd = read_all (snd (fst (releaseHeldShellReadyBytes ?st2))) rd"
        using False by (auto simp: x exit handleSubprocessExit_def Let_def releaseProducerPause_def disposeSubprocessHandle_def)
      show ?thesis
        unfolding out using release
        by (rule reader_quiet) (use False in \<open>simp_all add: x exit handleSubprocessExit_def Let_def disposeSubprocessHandle_def\<close>)
    qed
  next
    case timeout
    have "reader_ok rd (st\<lparr>ss_shellReadyTimer := False, ss_shellState := ShellTimedOut\<rparr>)" by (rule quiet) simp_all
    note release = reader_release [OF this]
    show ?thesis
      using release assms
      by (auto simp: x timeout onShellReadyTimeout_def flushPreReadyQueue_def Let_def intro!: quiet elim!: reader_quiet)
  next
    case (taken i t)
    show ?thesis
    proof (cases "ss_disposed st")
      case True
      then show ?thesis using assms by (simp add: x taken takePendingOutput_def rd)
    next
      case False
      let ?r = "if i \<and> t then releaseHeldShellReadyBytes st else ((st, []), [])"
      have ok: "reader_ok (read_all (snd (fst ?r)) rd) (fst (fst ?r))" using assms reader_release by simp
      obtain all' kept' where rd': "read_all (snd (fst ?r)) rd = (all', kept')" by fastforce
      show ?thesis
        using ok False by (auto simp: x taken takePendingOutput_def Let_def case_prod_unfold rd' reader_ok_def split: if_splits)
    qed
  next
    case (resize c r)
    show ?thesis
      using assms reader_record [of all kept st "RecResize c r"]
      by (auto simp: x resize session_resize_def rd)
  next
    case clear
    have rest: "read_all ((if ss_canClear st then [PtyClear] else []) @ nudgePowerShellPromptRepaint E st') rd' = rd'" for st' rd'
      by (rule read_silent) (auto simp: nudgePowerShellPromptRepaint_def)
    show ?thesis
      using assms reader_record [of all kept st RecClear] rest
      by (auto simp: x clear session_clearScrollback_def rd Let_def)
  next
    case other
    then show ?thesis using unread_reader [OF _ assms, of "session_step x st"] unread_step [of x st] by (simp add: x)
  qed
qed

lemma reader_run:
  "reader_ok rd st \<Longrightarrow> reader_ok (read_all (snd (session_run es st)) rd) (fst (session_run es st))"
proof (induction es arbitrary: rd st)
  case (Cons x es)
  from Cons.IH [OF reader_step [OF Cons.prems, of x]] show ?case by simp
qed simp

text \<open>
  C18: A checkpoint rebuilds what the emulator holds.  A reader that applies the records of every take, starts
  over from a snapshot, and gives up on an overflow until the next snapshot, has at any time either nothing it
  trusts or exactly the emulator's history less what the session has still pending, unless the pending records
  overflowed, which the next take reports.  The pending bytes are counted exactly and never pass the cap.
\<close>

theorem checkpoints_rebuild_the_emulator:
  "let r = session_run es (new_session agent canPause canClear ready); st = fst r;
       rd = fold read_checkpoint (snd r) ([], Some [])
   in fst rd = units (concat (map emulator_call (snd r))) \<and>
     (ss_pendingOutputOverflowed st \<or> snd rd = None \<or>
        (\<exists>x. snd rd = Some x \<and> x @ units (ss_pendingOutputRecords st) = fst rd)) \<and>
     ss_pendingOutputBytes st = sum_list (map record_bytes (ss_pendingOutputRecords st)) \<and>
     ss_pendingOutputBytes st \<le> PENDING_OUTPUT_MAX_BYTES"
proof -
  have all: "fst (read_all out rd) = fst rd @ units (concat (map emulator_call out))" for out rd
  proof (induction out arbitrary: rd)
    case (Cons x out)
    have "fst (read_checkpoint x rd) = fst rd @ units (emulator_call x)"
      by (cases "(x, rd)" rule: read_checkpoint.cases) auto
    with Cons show ?case by simp
  qed simp
  have "reader_ok ([], Some []) (new_session agent canPause canClear ready)" by (simp add: reader_ok_def new_session_def)
  from reader_run [OF this, of es] show ?thesis
    using all [of "snd (session_run es (new_session agent canPause canClear ready))" "([], Some [])"]
    by (auto simp: Let_def reader_ok_def read_all_def)
qed

subsection \<open>A paused process\<close>

fun pause_call :: "bool \<Rightarrow> session_out \<Rightarrow> bool" where
  "pause_call p PtyPause = True"
| "pause_call p PtyResume = False"
| "pause_call p _ = p"

definition pause_calls :: "session_out list \<Rightarrow> bool \<Rightarrow> bool" where
  "pause_calls out p = foldl pause_call p out"

lemma pause_calls_simps [simp]:
  "pause_calls [] p = p" "pause_calls (a @ b) p = pause_calls b (pause_calls a p)" "pause_calls (x # out) p = pause_calls out (pause_call p x)"
  by (simp_all add: pause_calls_def)

lemma pause_calls_silent [simp]:
  "pause_calls (map PtyWrite ds) p = p" "pause_calls (map (\<lambda>c. ClientData c d) cs) p = p" "pause_calls (map (\<lambda>c. ClientExit c k) cs) p = p"
  "pause_calls (snd (emitSubprocessOutput d st)) p = p"
proof -
  show "pause_calls (map PtyWrite ds) p = p" by (induction ds) auto
  show data: "pause_calls (map (\<lambda>c. ClientData c d) cs) p = p" for d cs by (induction cs) auto
  show "pause_calls (map (\<lambda>c. ClientExit c k) cs) p = p" by (induction cs) auto
  show "pause_calls (snd (emitSubprocessOutput d st)) p = p" by (simp add: emitSubprocessOutput_def Let_def data)
qed

definition pause_ok :: "bool \<Rightarrow> session \<Rightarrow> bool" where
  "pause_ok p st \<longleftrightarrow> (ss_producerPaused st = ss_failsafeTimer st) \<and> (ss_producerPaused st \<longrightarrow> live st) \<and>
     (ss_state st \<noteq> Exited \<longrightarrow> p = (ss_producerPaused st \<and> ss_canPause st))"

lemma pause_step: "pause_ok p st \<Longrightarrow> pause_ok (pause_calls (snd (session_step x st)) p) (fst (session_step x st))"
  by (cases "(x, st)" rule: session_step.cases)
    (auto simp: pause_ok_def live_def session_ops Let_def case_prod_unfold split: option.splits bool.splits if_splits force_phase.splits)

subsection \<open>A process that is gone\<close>

text \<open>Every call of the handle of the process that is not a question.\<close>

fun reaches_process :: "session_out \<Rightarrow> bool" where
  "reaches_process (PtyWrite d) \<longleftrightarrow> True"
| "reaches_process (PtyResize c r) \<longleftrightarrow> True"
| "reaches_process PtyPause \<longleftrightarrow> True"
| "reaches_process PtyResume \<longleftrightarrow> True"
| "reaches_process PtyFormFeed \<longleftrightarrow> True"
| "reaches_process PtyClear \<longleftrightarrow> True"
| "reaches_process PtyKill \<longleftrightarrow> True"
| "reaches_process PtyForceKill \<longleftrightarrow> True"
| "reaches_process (PtySignal s) \<longleftrightarrow> True"
| "reaches_process PtyDispose \<longleftrightarrow> True"
| "reaches_process _ \<longleftrightarrow> False"

definition gone_ok :: "session \<Rightarrow> bool" where
  "gone_ok st \<longleftrightarrow> (ss_physicallyExited st \<or> ss_subprocessDisposed st \<or> ss_disposed st \<longrightarrow> ss_state st = Exited) \<and>
     (ss_state st = Exited \<longrightarrow> ss_subprocessDisposed st \<and> \<not> ss_shellReadyTimer st \<and> ss_scan st = None \<and>
        \<not> flush_gate_isPending (ss_gate st) \<and> \<not> ss_producerPaused st \<and> \<not> ss_failsafeTimer st)"

lemma gone_step: "gone_ok st \<Longrightarrow> gone_ok (fst (session_step x st))"
  by (cases "(x, st)" rule: session_step.cases)
    (auto simp: gone_ok_def session_ops Let_def case_prod_unfold flush_gate_isPending_def flush_gate_clear_def
      flush_gate_notifyData_def flush_gate_arm_def split: option.splits bool.splits if_splits force_phase.splits)

text \<open>What a step may still ask of the handle of a process that is gone: clearing the screen, unless disposed of.\<close>

definition only_clears :: "session_env \<times> session_event \<Rightarrow> session \<Rightarrow> session_out \<Rightarrow> bool" where
  "only_clears x st y \<longleftrightarrow> (reaches_process y \<longrightarrow> snd x = SeClear \<and> \<not> ss_disposed st \<and> (y = PtyClear \<or> y = PtyFormFeed))"

lemma gone_silent:
  "gone_ok st \<Longrightarrow> ss_state st = Exited \<Longrightarrow>
   ss_state (fst (session_step x st)) = Exited \<and> (ss_disposed st \<longrightarrow> ss_disposed (fst (session_step x st))) \<and>
   (\<forall>y\<in>set (snd (session_step x st)). only_clears x st y)"
  by (cases "(x, st)" rule: session_step.cases)
    (auto simp: gone_ok_def only_clears_def session_ops emitSubprocessOutput_def Let_def case_prod_unfold flush_gate_isPending_def split: option.splits bool.splits if_splits force_phase.splits)

lemma gone_run:
  "gone_ok st \<Longrightarrow> ss_state st = Exited \<Longrightarrow> ss_state (fst (session_run xs st)) = Exited \<and>
   (\<forall>y\<in>set (snd (session_run xs st)). reaches_process y \<longrightarrow>
      (y = PtyClear \<or> y = PtyFormFeed) \<and> (\<exists>x\<in>set xs. snd x = SeClear) \<and> \<not> ss_disposed st)"
proof (induction xs arbitrary: st)
  case (Cons x xs)
  note step = gone_silent [OF Cons.prems, of x] and rest = Cons.IH [OF gone_step [OF Cons.prems(1)], of x]
  show ?case using step rest unfolding only_clears_def by auto
qed simp

lemma gone_is_exited: "gone_ok st \<Longrightarrow> (\<exists>x\<in>set (snd (session_step e st)). x = PtyDispose \<or> (\<exists>c. x = SessionExit c)) \<Longrightarrow>
    ss_state (fst (session_step e st)) = Exited"
  by (cases "(e, st)" rule: session_step.cases)
    (auto simp: gone_ok_def session_ops emitSubprocessOutput_def Let_def case_prod_unfold split: option.splits bool.splits if_splits force_phase.splits)

lemma gone_stays_exited: "gone_ok st \<Longrightarrow> (\<exists>x\<in>set (snd (session_run xs st)). x = PtyDispose \<or> (\<exists>c. x = SessionExit c)) \<Longrightarrow>
    ss_state (fst (session_run xs st)) = Exited"
proof (induction xs arbitrary: st)
  case (Cons x xs)
  show ?case
  proof (cases "\<exists>y\<in>set (snd (session_step x st)). y = PtyDispose \<or> (\<exists>c. y = SessionExit c)")
    case True
    then show ?thesis using gone_is_exited [OF Cons.prems(1) True] gone_run [OF gone_step [OF Cons.prems(1)]] by simp
  next
    case False
    then have "\<exists>y\<in>set (snd (session_run xs (fst (session_step x st)))). y = PtyDispose \<or> (\<exists>c. y = SessionExit c)"
      using Cons.prems(2) by auto
    then show ?thesis using Cons.IH [OF gone_step [OF Cons.prems(1)]] by simp
  qed
qed simp

text \<open>
  C26: A process that is gone is left alone, but for a request to clear the screen.  Once it has exited or its handle
  was released, over whatever comes later, nothing is written to it, it is not resized, paused, resumed or signalled,
  and its handle is not released a second time: the numeric identifier may belong to another process by then.  What
  still reaches the handle is the clear of the screen with its form feed, only when a client asks for it and only
  while the session is not disposed of.
\<close>

theorem gone_process_is_left_alone:
  assumes "\<exists>x\<in>set (snd (session_run es (new_session agent canPause canClear ready))). x = PtyDispose \<or> (\<exists>c. x = SessionExit c)"
  shows "let st = fst (session_run es (new_session agent canPause canClear ready))
    in ss_state st = Exited \<and>
       (\<forall>y\<in>set (snd (session_run later st)). reaches_process y \<longrightarrow>
          (y = PtyClear \<or> y = PtyFormFeed) \<and> (\<exists>x\<in>set later. snd x = SeClear) \<and> \<not> ss_disposed st)"
proof -
  have gone: "gone_ok (new_session agent canPause canClear ready)"
    by (simp add: gone_ok_def new_session_def new_flush_gate_def flush_gate_isPending_def)
  have "gone_ok st \<Longrightarrow> gone_ok (fst (session_run xs st))" for xs st
    by (induction xs arbitrary: st) (auto simp: gone_step)
  from gone_run [OF this [OF gone] gone_stays_exited [OF gone assms]] show ?thesis
    using gone_stays_exited [OF gone assms] unfolding Let_def by blast
qed

text \<open>Clearing the screen of a process that has exited: the handle is still called.\<close>

lemma clear_reaches_a_gone_process:
  "snd (session_run [(calm, SeAttach), (calm, SeExit 0), (calm, SeClear)] (new_session False True True False)) =
     [PtyDispose, ClientExit 0 0, SessionExit 0, EmuClear, PtyClear]"
  by (simp add: session_ops Let_def new_session_def calm_def emit_then_def new_flush_gate_def flush_gate_isPending_def flush_gate_clear_def)

text \<open>A kill that is joined by the exit, and what would come after.\<close>

theorem gone_process_is_left_alone_witness:
  "let es = [(calm, SeAttach), (calm, SeKill), (calm, SeExit 0)];
       later = [(calm, SeWrite (js ''x'')), (calm, SeForceKill 0 True), (calm, SeKillTimer), (calm, SeDispose)];
       st = fst (session_run es (new_session False True True True))
   in snd (session_run es (new_session False True True True)) = [PtyKill, PtyDispose, ClientExit 0 0, SessionExit 0] \<and>
     ss_state st = Exited \<and> PtyForceKill \<notin> set (snd (session_run later st))"
proof -
  let ?es = "[(calm, SeAttach), (calm, SeKill), (calm, SeExit 0)]"
  have out: "snd (session_run ?es (new_session False True True True)) = [PtyKill, PtyDispose, ClientExit 0 0, SessionExit 0]"
    by code_simp
  then have "\<exists>x\<in>set (snd (session_run ?es (new_session False True True True))). x = PtyDispose \<or> (\<exists>c. x = SessionExit c)" by simp
  note gone = gone_process_is_left_alone [OF this, unfolded Let_def]
  have "reaches_process PtyForceKill" "PtyForceKill \<noteq> PtyClear" "PtyForceKill \<noteq> PtyFormFeed" by simp_all
  then show ?thesis unfolding Let_def using out gone by blast
qed

text \<open>
  A process is not left paused.  While the process has not exited, it was last told to pause and not to resume
  exactly when the session counts it as paused, and then the timer that resumes it is armed; when it fires, the
  process is told to resume.
\<close>

theorem paused_process_will_resume:
  "let r = session_run es (new_session agent canPause canClear ready); st = fst r; paused = foldl pause_call False (snd r)
   in ss_state st = Exited \<or>
     paused = (ss_producerPaused st \<and> ss_canPause st) \<and> ss_producerPaused st = ss_failsafeTimer st \<and>
     \<not> foldl pause_call paused (snd (session_step (E, SeFailsafe) st))"
proof -
  have run: "pause_ok p st \<Longrightarrow> pause_ok (pause_calls (snd (session_run es st)) p) (fst (session_run es st))" for p st
  proof (induction es arbitrary: p st)
    case (Cons x es)
    from Cons.IH [OF pause_step [OF Cons.prems, of x]] show ?case by simp
  qed simp
  have "pause_ok False (new_session agent canPause canClear ready)" by (simp add: pause_ok_def new_session_def)
  from run [OF this] show ?thesis
    by (auto simp: Let_def pause_ok_def pause_calls_def failsafe_fires_def resume_call_def)
qed

end
