(* ===== verification/Terminal_Host.thy ===== *)
theory Terminal_Host
  imports Daemon_Session_Safety
begin

text \<open>
  The host of the daemon's terminal sessions, \<open>src/main/daemon/terminal-host.ts\<close> with
  \<open>terminal-session-teardown.ts\<close> and \<open>terminal-host-session-shutdown.ts\<close>: sessions by identifier, their creation,
  attachment, removal, and the orderly shutdown.  A session object is named by the number of the process it owns;
  the map holds such names, and a removed object may still be referred to by a teardown in progress.
\<close>

subsection \<open>Data\<close>

text \<open>A teardown of an agent's session: the sweep of its descendants, then the signal, then the exit it waits for.\<close>

record teardown =
  td_immediate :: bool
  td_rootSignalled :: bool
  td_rootCompletion :: "nat option"
  td_swept :: bool
  td_session :: nat

record host =
  th_sessions :: "(jsstr \<times> nat) list"
  th_objects :: "session list"
  th_ids :: "jsstr list"
  th_operations :: "(jsstr \<times> teardown) list"
  th_killedTombstones :: "jsstr list"
  th_maxTombstones :: nat
  th_creationFenced :: bool
  th_onFinalCheckpoint :: bool
  th_dispose :: "(nat \<times> nat \<times> bool option) list option"
  th_nextWaiter :: nat

datatype host_out =
    OfProcess nat session_out
  | Spawned nat
  | Attached bool nat
  | FinalCheckpoint jsstr taken
  | HostThrew

type_synonym host_result = "host \<times> host_out list"

text \<open>
  What a creation asks for: whether an agent is launched, whether the shell that was spawned reports ready, what the
  process can do, the text of the startup command if it is to be typed, and whether spawning fails.
\<close>

record create_options =
  co_agent :: bool
  co_shellReadySupported :: "bool option"
  co_shellPathSupports :: bool
  co_canPause :: bool
  co_canClear :: bool
  co_startup :: "bool \<Rightarrow> jsstr option"
  co_spawnThrows :: bool

definition DEFAULT_MAX_TOMBSTONES :: nat where "DEFAULT_MAX_TOMBSTONES = 1000"

definition new_host :: "nat option \<Rightarrow> bool \<Rightarrow> host" where
  "new_host maxTombstones checkpoint =
     \<lparr>th_sessions = [], th_objects = [], th_ids = [], th_operations = [], th_killedTombstones = [],
      th_maxTombstones = (case maxTombstones of None \<Rightarrow> DEFAULT_MAX_TOMBSTONES | Some m \<Rightarrow> m),
      th_creationFenced = False, th_onFinalCheckpoint = checkpoint, th_dispose = None, th_nextWaiter = 0\<rparr>"

subsection \<open>Calls on a session\<close>

definition object_of :: "host \<Rightarrow> nat \<Rightarrow> session" where
  "object_of h n = th_objects h ! n"

definition is_alive :: "host \<Rightarrow> nat \<Rightarrow> bool" where
  "is_alive h n \<longleftrightarrow> ss_state (object_of h n) \<noteq> Exited"

text \<open>A settled wait is noted with the shutdown that asked for it.\<close>

fun note_settled :: "session_out list \<Rightarrow> (nat \<times> nat \<times> bool option) list \<Rightarrow> (nat \<times> nat \<times> bool option) list" where
  "note_settled [] es = es"
| "note_settled (ForceKillDone i b # out) es = note_settled out (map (\<lambda>(n, w, r). (n, w, if w = i then Some b else r)) es)"
| "note_settled (_ # out) es = note_settled out es"

definition apply_object :: "nat \<Rightarrow> (session \<Rightarrow> session_result) \<Rightarrow> host \<Rightarrow> host_result" where
  "apply_object n f h =
     (case f (object_of h n) of
        (s, out) \<Rightarrow> (h\<lparr>th_objects := (th_objects h)[n := s], th_dispose := map_option (note_settled out) (th_dispose h)\<rparr>,
          map (OfProcess n) out))"

definition reapSession :: "jsstr \<Rightarrow> host \<Rightarrow> host_result" where
  "reapSession i h =
     (case map_get (th_sessions h) i of
        None \<Rightarrow> (h, [])
      | Some n \<Rightarrow>
          if is_alive h n then (h, [])
          else emit_then (apply_object n session_dispose h) (emit_quiet (\<lambda>h. h\<lparr>th_sessions := map_delete i (th_sessions h)\<rparr>)))"

definition reports_exit :: "session_out list \<Rightarrow> bool" where
  "reports_exit out \<longleftrightarrow> list_ex (\<lambda>x. case x of SessionExit c \<Rightarrow> True | _ \<Rightarrow> False) out"

text \<open>The last thing an exiting session does is to call the host back, which reaps it.\<close>

definition object_call :: "nat \<Rightarrow> (session \<Rightarrow> session_result) \<Rightarrow> host \<Rightarrow> host_result" where
  "object_call n f h =
     emit_then (apply_object n f h)
       (if reports_exit (snd (f (object_of h n))) then reapSession (th_ids h ! n) else (\<lambda>h. (h, [])))"

definition alive_call :: "jsstr \<Rightarrow> (session \<Rightarrow> session_result) \<Rightarrow> host \<Rightarrow> host_result" where
  "alive_call i f h =
     (case map_get (th_sessions h) i of
        None \<Rightarrow> (h, [HostThrew])
      | Some n \<Rightarrow> if is_alive h n then object_call n f h else (h, [HostThrew]))"

definition quiet_call :: "bool \<Rightarrow> jsstr \<Rightarrow> (session \<Rightarrow> session_result) \<Rightarrow> host \<Rightarrow> host_result" where
  "quiet_call only_alive i f h =
     (case map_get (th_sessions h) i of
        None \<Rightarrow> (h, [])
      | Some n \<Rightarrow> if only_alive \<and> \<not> is_alive h n then (h, []) else object_call n f h)"

subsection \<open>Creation\<close>

definition spawn_session :: "jsstr \<Rightarrow> create_options \<Rightarrow> host \<Rightarrow> host_result" where
  "spawn_session i opts h =
     (if co_spawnThrows opts then (h, [HostThrew])
      else
        let n = length (th_objects h);
            ready = ((case co_shellReadySupported opts of None \<Rightarrow> False | Some b \<Rightarrow> b) \<and> co_shellPathSupports opts);
            h1 = h\<lparr>th_objects := th_objects h @ [new_session (co_agent opts) (co_canPause opts) (co_canClear opts) ready],
                   th_ids := th_ids h @ [i], th_sessions := map_set i n (th_sessions h)\<rparr>
        in emit_then (h1, [Spawned n])
          (\<lambda>h. emit_then (apply_object n (emit_quiet attachClient) h)
            (\<lambda>h. emit_then (case co_startup opts ready of None \<Rightarrow> (h, []) | Some text \<Rightarrow> object_call n (session_write text) h)
              (\<lambda>h. (h, [Attached True n])))))"

definition createOrAttach :: "jsstr \<Rightarrow> create_options \<Rightarrow> host \<Rightarrow> host_result" where
  "createOrAttach i opts h =
     (if th_creationFenced h then (h, [HostThrew])
      else if map_get (th_operations h) i \<noteq> None \<or>
        (case map_get (th_sessions h) i of None \<Rightarrow> False | Some n \<Rightarrow> ss_isTerminating (object_of h n))
      then (h, [HostThrew])
      else case map_get (th_sessions h) i of
        Some n \<Rightarrow>
          if is_alive h n
          then emit_then (object_call n detachAllClients h)
                 (\<lambda>h. emit_then (apply_object n (emit_quiet attachClient) h) (\<lambda>h. (h, [Attached False n])))
          else emit_then (apply_object n session_dispose h)
                 (\<lambda>h. spawn_session i opts (h\<lparr>th_sessions := map_delete i (th_sessions h),
                    th_killedTombstones := removeAll i (th_killedTombstones h)\<rparr>))
      | None \<Rightarrow> spawn_session i opts (h\<lparr>th_killedTombstones := removeAll i (th_killedTombstones h)\<rparr>))"

subsection \<open>Teardown\<close>

definition force_waiter :: "session_env \<Rightarrow> nat \<Rightarrow> bool \<Rightarrow> host \<Rightarrow> host_result" where
  "force_waiter E n disposes h =
     object_call n (forceKillAndWaitForExit E (th_nextWaiter h) disposes) (h\<lparr>th_nextWaiter := th_nextWaiter h + 1\<rparr>)"

definition set_operation :: "jsstr \<Rightarrow> teardown \<Rightarrow> host \<Rightarrow> host" where
  "set_operation i op h = h\<lparr>th_operations := map_set i op (th_operations h)\<rparr>"

definition requestImmediate :: "session_env \<Rightarrow> jsstr \<Rightarrow> host \<Rightarrow> host_result" where
  "requestImmediate E i h =
     (case map_get (th_operations h) i of
        None \<Rightarrow> (h, [])
      | Some op \<Rightarrow>
          if td_rootSignalled op \<and> is_alive h (td_session op)
          then force_waiter E (td_session op) False
                 (set_operation i (op\<lparr>td_immediate := True, td_rootCompletion := Some (th_nextWaiter h)\<rparr>) h)
          else (set_operation i (op\<lparr>td_immediate := True\<rparr>) h, []))"

definition killAgentSession :: "session_env \<Rightarrow> jsstr \<Rightarrow> nat \<Rightarrow> bool \<Rightarrow> host \<Rightarrow> host_result" where
  "killAgentSession E i n immediate h =
     (case map_get (th_operations h) i of
        Some op \<Rightarrow> (set_operation i (op\<lparr>td_immediate := td_immediate op \<or> immediate\<rparr>) h, [])
      | None \<Rightarrow>
          if \<not> snd (beginTermination (object_of h n))
          then (if immediate \<and> is_alive h n \<and> ss_isTerminating (object_of h n) then force_waiter E n False h else (h, []))
          else emit_then (object_call n (\<lambda>s. fst (beginTermination s)) h)
            (\<lambda>h. emit_then (if immediate then (h, []) else apply_object n (emit_quiet scheduleForceDisposeFallback) h)
              (emit_quiet (set_operation i \<lparr>td_immediate = immediate, td_rootSignalled = False, td_rootCompletion = None,
                 td_swept = False, td_session = n\<rparr>))))"

definition killSession :: "session_env \<Rightarrow> jsstr \<Rightarrow> nat \<Rightarrow> bool \<Rightarrow> host \<Rightarrow> host_result" where
  "killSession E i n immediate h =
     (if ss_agent (object_of h n) then killAgentSession E i n immediate h
      else if immediate then force_waiter E n False h
      else object_call n (session_kill E) h)"

definition recordTombstone :: "jsstr \<Rightarrow> host \<Rightarrow> host" where
  "recordTombstone i h =
     (let ts = removeAll i (th_killedTombstones h) @ [i]
      in h\<lparr>th_killedTombstones := (if length ts > th_maxTombstones h \<and> hd ts \<noteq> [] then tl ts else ts)\<rparr>)"

definition host_kill :: "session_env \<Rightarrow> jsstr \<Rightarrow> bool \<Rightarrow> host \<Rightarrow> host_result" where
  "host_kill E i immediate h =
     (if map_get (th_operations h) i \<noteq> None then (if immediate then requestImmediate E i h else (h, []))
      else case map_get (th_sessions h) i of
        None \<Rightarrow> (h, [HostThrew])
      | Some n \<Rightarrow>
          if \<not> is_alive h n then (h, [HostThrew])
          else emit_then (killSession E i n immediate h)
                 (if OfProcess n CallThrew \<in> set (snd (killSession E i n immediate h)) then (\<lambda>h. (h, [HostThrew]))
                  else emit_quiet (recordTombstone i)))"

text \<open>The sweep calls back when the descendants have been seen to.\<close>

definition operation_sweeps :: "session_env \<Rightarrow> jsstr \<Rightarrow> host \<Rightarrow> host_result" where
  "operation_sweeps E i h =
     (case map_get (th_operations h) i of
        None \<Rightarrow> (h, [])
      | Some op \<Rightarrow>
          if td_swept op then (h, [])
          else if \<not> is_alive h (td_session op) then (set_operation i (op\<lparr>td_swept := True\<rparr>) h, [])
          else if td_immediate op
          then force_waiter E (td_session op) False
                 (set_operation i (op\<lparr>td_swept := True, td_rootSignalled := True, td_rootCompletion := Some (th_nextWaiter h)\<rparr>) h)
          else emit_then (object_call (td_session op) (\<lambda>s. fst (signalTerminationRoot E s))
                  (set_operation i (op\<lparr>td_swept := True, td_rootSignalled := True\<rparr>) h))
                 (if snd (signalTerminationRoot E (object_of h (td_session op)))
                  then emit_quiet (\<lambda>h. h\<lparr>th_operations := map_delete i (th_operations h)\<rparr>) else (\<lambda>h. (h, []))))"

definition operation_completes :: "jsstr \<Rightarrow> host \<Rightarrow> host_result" where
  "operation_completes i h =
     (case map_get (th_operations h) i of
        None \<Rightarrow> (h, [])
      | Some op \<Rightarrow>
          if td_swept op \<and> (case td_rootCompletion op of None \<Rightarrow> True | Some w \<Rightarrow> forced_phase w (object_of h (td_session op)) = None)
          then (h\<lparr>th_operations := map_delete i (th_operations h)\<rparr>, []) else (h, []))"

subsection \<open>Shutdown\<close>

fun took :: "session_out list \<Rightarrow> taken option" where
  "took [] = None"
| "took (Took t # out) = t"
| "took (_ # out) = took out"

definition checkpoint_one :: "jsstr \<times> nat \<Rightarrow> host \<Rightarrow> host_result" where
  "checkpoint_one e h =
     (case e of (i, n) \<Rightarrow>
        if \<not> is_alive h n then (h, [])
        else emit_then (apply_object n (takePendingOutput True True) h)
          (\<lambda>h'. (h', case took (snd (takePendingOutput True True (object_of h n))) of
             Some t \<Rightarrow> if tk_snapshot t then [FinalCheckpoint i t] else []
           | None \<Rightarrow> [])))"

definition add_result :: "nat \<Rightarrow> bool option \<Rightarrow> host \<Rightarrow> host" where
  "add_result n r h =
     h\<lparr>th_dispose := Some ((case th_dispose h of None \<Rightarrow> [] | Some es \<Rightarrow> es) @ [(n, th_nextWaiter h, r)])\<rparr>"

definition dispose_one :: "session_env \<Rightarrow> jsstr \<times> nat \<Rightarrow> host \<Rightarrow> host_result" where
  "dispose_one E e h =
     (case e of (i, n) \<Rightarrow>
        emit_then (object_call n detachAllClients h)
          (\<lambda>h. if is_alive h n then force_waiter E n True (add_result n None h)
               else apply_object n disposeSubprocess ((add_result n (Some True) h)\<lparr>th_nextWaiter := th_nextWaiter h + 1\<rparr>)))"

definition host_dispose :: "session_env \<Rightarrow> host \<Rightarrow> host_result" where
  "host_dispose E h =
     (let h1 = h\<lparr>th_creationFenced := True\<rparr>
      in if th_dispose h1 \<noteq> None then (h1, [])
         else emit_then (if th_onFinalCheckpoint h1 then emit_each checkpoint_one (th_sessions h1) h1 else (h1, []))
                (\<lambda>h. emit_each (dispose_one E) (th_sessions h) (h\<lparr>th_dispose := Some []\<rparr>)))"

text \<open>All of the waits are settled: the map is emptied, or, if one failed, the shutdown may be asked for again.\<close>

definition dispose_settles :: "host \<Rightarrow> host_result" where
  "dispose_settles h =
     (case th_dispose h of
        None \<Rightarrow> (h, [])
      | Some es \<Rightarrow>
          if \<not> list_all (\<lambda>(n, w, r). r \<noteq> None) es then (h, [])
          else if list_all (\<lambda>(n, w, r). r = Some True) es
          then (h\<lparr>th_sessions := [], th_killedTombstones := []\<rparr>, [])
          else (h\<lparr>th_dispose := None\<rparr>, [HostThrew]))"

subsection \<open>The machine\<close>

definition listSessions :: "host \<Rightarrow> jsstr list" where
  "listSessions h = map fst (filter (\<lambda>(i, n). is_alive h n) (th_sessions h))"

definition isKilled :: "jsstr \<Rightarrow> host \<Rightarrow> bool" where
  "isKilled i h \<longleftrightarrow> i \<in> set (th_killedTombstones h)"

text \<open>What the process, the timers and the queued continuations do to a session by themselves.\<close>

fun own_event :: "session_event \<Rightarrow> bool" where
  "own_event (SeData d) \<longleftrightarrow> True"
| "own_event (SeExit c) \<longleftrightarrow> True"
| "own_event SeShellTimeout \<longleftrightarrow> True"
| "own_event SePromptSettled \<longleftrightarrow> True"
| "own_event SePromptFallback \<longleftrightarrow> True"
| "own_event SeFailsafe \<longleftrightarrow> True"
| "own_event SeKillTimer \<longleftrightarrow> True"
| "own_event (SeForceDeadline i) \<longleftrightarrow> True"
| "own_event (SeForceContinues i) \<longleftrightarrow> True"
| "own_event _ \<longleftrightarrow> False"

datatype host_event =
    HCreate jsstr create_options
  | HWrite jsstr jsstr
  | HResize jsstr pty_size pty_size
  | HPause jsstr
  | HResume jsstr
  | HKill jsstr bool
  | HSignal jsstr jsstr
  | HDetach jsstr nat
  | HClear jsstr
  | HTake jsstr bool bool
  | HSweep jsstr
  | HOperationDone jsstr
  | HDispose
  | HDisposeDone
  | HOwn nat session_event

fun host_step :: "session_env \<times> host_event \<Rightarrow> host \<Rightarrow> host_result" where
  "host_step (E, HCreate i opts) h = createOrAttach i opts h"
| "host_step (E, HWrite i data) h = alive_call i (session_write data) h"
| "host_step (E, HResize i c r) h = alive_call i (session_resize c r) h"
| "host_step (E, HPause i) h = quiet_call True i pauseProducer h"
| "host_step (E, HResume i) h = quiet_call False i (releaseProducerPause True) h"
| "host_step (E, HKill i immediate) h = host_kill E i immediate h"
| "host_step (E, HSignal i sig) h = alive_call i (session_signal sig) h"
| "host_step (E, HDetach i token) h = quiet_call False i (detachClient token) h"
| "host_step (E, HClear i) h = alive_call i (session_clearScrollback E) h"
| "host_step (E, HTake i s t) h = quiet_call True i (takePendingOutput s t) h"
| "host_step (E, HSweep i) h = operation_sweeps E i h"
| "host_step (E, HOperationDone i) h = operation_completes i h"
| "host_step (E, HDispose) h = host_dispose E h"
| "host_step (E, HDisposeDone) h = dispose_settles h"
| "host_step (E, HOwn n e) h =
     (if n < length (th_objects h) \<and> own_event e then object_call n (session_step (E, e)) h else (h, []))"

abbreviation host_run :: "(session_env \<times> host_event) list \<Rightarrow> host \<Rightarrow> host_result" where
  "host_run es h \<equiv> emit_each host_step es h"

end
