(* ===== verification/Terminal_Host_Props.thy ===== *)
theory Terminal_Host_Props
  imports Terminal_Host
begin

text \<open>
  The host keeps hold of every process it spawned until the process is known to have exited: no teardown, attachment,
  replacement or shutdown loses one, and no identifier ever has two.
\<close>

subsection \<open>What a session promises its host\<close>

definition waiters :: "session \<Rightarrow> nat set" where
  "waiters s = fst ` set (ss_forced s)"

definition object_ok :: "session \<Rightarrow> bool" where
  "object_ok s \<longleftrightarrow> (ss_state s = Exited \<longrightarrow> ss_physicallyExited s) \<and>
     (\<forall>w d. (w, d, ForceExited) \<in> set (ss_forced s) \<longrightarrow> ss_physicallyExited s)"

text \<open>\<open>W\<close> are the waiters a call may add.\<close>

definition proper :: "nat set \<Rightarrow> session \<Rightarrow> session_result \<Rightarrow> bool" where
  "proper W s r \<longleftrightarrow> object_ok (fst r) \<and> (ss_physicallyExited s \<longrightarrow> ss_physicallyExited (fst r)) \<and>
     waiters (fst r) \<subseteq> waiters s \<union> W \<and>
     (\<forall>w b. ForceKillDone w b \<in> set (snd r) \<longrightarrow> w \<in> waiters s \<and> (b \<longrightarrow> ss_physicallyExited (fst r)))"

fun adds_waiter :: "session_event \<Rightarrow> nat set" where
  "adds_waiter (SeForceKill i d) = {i}"
| "adds_waiter _ = {}"

lemma forced_phase_in: "forced_phase i s = Some (d, p) \<Longrightarrow> (i, d, p) \<in> set (ss_forced s)"
  by (simp add: forced_phase_def map_of_SomeD)

lemma emit_no_settle [simp]: "ForceKillDone w b \<notin> set (snd (emitSubprocessOutput d st))"
  by (auto simp: emitSubprocessOutput_def Let_def)

fun ends_session :: "session_event \<Rightarrow> bool" where
  "ends_session (SeExit c) \<longleftrightarrow> True"
| "ends_session (SeForceKill i d) \<longleftrightarrow> True"
| "ends_session (SeForceDeadline i) \<longleftrightarrow> True"
| "ends_session (SeForceContinues i) \<longleftrightarrow> True"
| "ends_session SeDispose \<longleftrightarrow> True"
| "ends_session SeDisposeSubprocess \<longleftrightarrow> True"
| "ends_session _ \<longleftrightarrow> False"

lemma other_steps:
  "\<not> ends_session (snd x) \<Longrightarrow>
   ss_forced (fst (session_step x s)) = ss_forced s \<and> ss_physicallyExited (fst (session_step x s)) = ss_physicallyExited s \<and>
   ss_state (fst (session_step x s)) = ss_state s \<and> (\<forall>w b. ForceKillDone w b \<notin> set (snd (session_step x s)))"
  by (cases "(x, s)" rule: session_step.cases)
    (auto simp: session_ops Let_def case_prod_unfold split: option.splits bool.splits if_splits)

lemma proper_other:
  "object_ok s \<Longrightarrow> ss_forced (fst r) = ss_forced s \<Longrightarrow> ss_physicallyExited (fst r) = ss_physicallyExited s \<Longrightarrow> ss_state (fst r) = ss_state s \<Longrightarrow>
   \<forall>w b. ForceKillDone w b \<notin> set (snd r) \<Longrightarrow> proper W s r"
  by (simp add: proper_def object_ok_def waiters_def)

lemma proper_exit: "object_ok s \<Longrightarrow> proper {} s (handleSubprocessExit c s)"
  by (auto simp: proper_def object_ok_def waiters_def handleSubprocessExit_def markExited_def releaseProducerPause_def Let_def
      releaseHeldShellReadyBytes_def disposeSubprocessHandle_def image_iff split: option.splits if_splits) force+

lemma dispose_keeps:
  "ss_forced (fst (session_dispose s)) = ss_forced s" "ss_physicallyExited (fst (session_dispose s)) = ss_physicallyExited s"
  "ForceKillDone w b \<notin> set (snd (session_dispose s))"
  by (auto simp: session_dispose_def teardownSubprocess_def releaseProducerPause_def disposeSubprocessHandle_def resume_call_def Let_def split: if_splits)

lemma proper_dispose: "object_ok s \<Longrightarrow> ss_physicallyExited s \<Longrightarrow> proper {} s (session_dispose s)"
  by (simp add: proper_def object_ok_def waiters_def dispose_keeps)

lemma proper_dispose_subprocess: "object_ok s \<Longrightarrow> ss_physicallyExited s \<Longrightarrow> proper {} s (disposeSubprocess s)"
  by (auto simp: proper_def object_ok_def waiters_def disposeSubprocess_def teardownSubprocess_def releaseProducerPause_def
      disposeSubprocessHandle_def resume_call_def Let_def split: if_splits)

lemma proper_force: "object_ok s \<Longrightarrow> proper {i} s (forceKillAndWaitForExit E i d s)"
  by (auto simp: proper_def object_ok_def waiters_def forceKillAndWaitForExit_def requestForceKill_def releaseProducerPause_def
      add_forced_def waiting_phase_def resume_call_def Let_def split: if_splits)

lemma proper_deadline: "object_ok s \<Longrightarrow> proper {} s (force_deadline E i s)"
proof -
  assume ok: "object_ok s"
  consider "forced_phase i s = None" | d p where "forced_phase i s = Some (d, p)" by (cases "forced_phase i s") auto
  then show ?thesis
  proof cases
    case 1
    then show ?thesis using ok by (simp add: force_deadline_def proper_def)
  next
    case 2
    have "i \<in> waiters s" using forced_phase_in [OF 2] by (force simp: waiters_def)
    then show ?thesis
      using ok 2
      by (cases p) (auto simp: force_deadline_def proper_def object_ok_def waiters_def requestForceKill_def add_forced_def
          drop_forced_def waiting_phase_def split: if_splits)
  qed
qed

lemma proper_continues: "object_ok s \<Longrightarrow> proper {} s (force_continues i s)"
proof -
  assume ok: "object_ok s"
  show ?thesis
  proof (cases "\<exists>d. forced_phase i s = Some (d, ForceExited)")
    case True
    then obtain d where d: "forced_phase i s = Some (d, ForceExited)" by auto
    then have exited: "ss_physicallyExited s" and i: "i \<in> waiters s"
      using ok forced_phase_in [OF d] by (force simp: object_ok_def waiters_def)+
    have sub: "fst ` set (filter (\<lambda>w. fst w \<noteq> i) (ss_forced s)) \<subseteq> fst ` set (ss_forced s)" by auto
    then show ?thesis
      using ok d exited i
      by (cases d) (auto simp: force_continues_def proper_def object_ok_def waiters_def dispose_keeps drop_forced_def)
  next
    case False
    then have "force_continues i s = (s, [])" by (auto simp: force_continues_def split: option.splits force_phase.splits)
    then show ?thesis using ok by (simp add: proper_def)
  qed
qed

lemma proper_step:
  assumes ok: "object_ok s" and e: "e \<noteq> SeDispose \<and> e \<noteq> SeDisposeSubprocess \<or> ss_state s = Exited"
  shows "proper (adds_waiter e) s (session_step (E, e) s)"
proof (cases "ends_session e")
  case False
  then show ?thesis using ok other_steps [of "(E, e)" s] by (intro proper_other) auto
next
  case True
  have "ss_physicallyExited s" if "ss_state s = Exited" using ok that by (simp add: object_ok_def)
  with True ok e show ?thesis
    by (cases e) (auto simp: proper_exit proper_dispose proper_dispose_subprocess proper_force proper_deadline proper_continues)
qed

subsection \<open>What the host keeps\<close>

text \<open>The wait numbered \<open>w\<close> belongs to one object, and the shutdown's record of it to the same.\<close>

definition host_ok :: "host \<Rightarrow> bool" where
  "host_ok h \<longleftrightarrow> length (th_ids h) = length (th_objects h) \<and> distinct (map fst (th_sessions h)) \<and>
     (\<forall>i n. map_get (th_sessions h) i = Some n \<longrightarrow> n < length (th_objects h) \<and> th_ids h ! n = i) \<and>
     (\<forall>n<length (th_objects h). object_ok (object_of h n) \<and>
        (ss_physicallyExited (object_of h n) \<or> map_get (th_sessions h) (th_ids h ! n) = Some n) \<and>
        (\<forall>w\<in>waiters (object_of h n). w < th_nextWaiter h)) \<and>
     (\<forall>i op. map_get (th_operations h) i = Some op \<longrightarrow> td_session op < length (th_objects h))"

definition dispose_ok :: "host \<Rightarrow> bool" where
  "dispose_ok h \<longleftrightarrow> (\<forall>es. th_dispose h = Some es \<longrightarrow> th_creationFenced h \<and>
     (\<forall>(n, w, r)\<in>set es. n < length (th_objects h) \<and> w < th_nextWaiter h \<and> (r = Some True \<longrightarrow> ss_physicallyExited (object_of h n)) \<and>
        (\<forall>m<length (th_objects h). w \<in> waiters (object_of h m) \<longrightarrow> m = n)))"

text \<open>Every session still in the map is waited for by the shutdown, but those it has yet to come to.\<close>

definition covered :: "(jsstr \<times> nat) list \<Rightarrow> host \<Rightarrow> bool" where
  "covered todo h \<longleftrightarrow> (\<forall>es. th_dispose h = Some es \<longrightarrow>
     (\<forall>i n. map_get (th_sessions h) i = Some n \<longrightarrow> n \<in> fst ` set es \<or> (i, n) \<in> set todo))"

text \<open>The relation that calls on sessions keep: nothing is created, and sessions only leave the map.\<close>

definition calls_only :: "host \<Rightarrow> host \<Rightarrow> bool" where
  "calls_only h h' \<longleftrightarrow> length (th_objects h') = length (th_objects h) \<and> th_ids h' = th_ids h \<and>
     (\<forall>i n. map_get (th_sessions h') i = Some n \<longrightarrow> map_get (th_sessions h) i = Some n) \<and>
     th_operations h' = th_operations h \<and> th_creationFenced h' = th_creationFenced h \<and> th_nextWaiter h' = th_nextWaiter h \<and>
     map_option (map fst) (th_dispose h') = map_option (map fst) (th_dispose h)"

lemma calls_only_refl [simp]: "calls_only h h"
  by (simp add: calls_only_def)

lemma calls_only_trans: "calls_only h h' \<Longrightarrow> calls_only h' h'' \<Longrightarrow> calls_only h h''"
  by (auto simp: calls_only_def)

lemma note_settled_fst: "map fst (note_settled out es) = map fst es"
  by (induction out es rule: note_settled.induct) (auto simp: comp_def case_prod_unfold)

lemma note_settled_in:
  "(n, w, r) \<in> set (note_settled out es) \<Longrightarrow> \<exists>r0. (n, w, r0) \<in> set es \<and> (r = r0 \<or> (\<exists>b. ForceKillDone w b \<in> set out \<and> r = Some b))"
proof (induction out es rule: note_settled.induct)
  case (2 i b out es)
  have "(n, w, r) \<in> set (note_settled out (map (\<lambda>(n, w, r). (n, w, if w = i then Some b else r)) es))" using 2(2) by simp
  from 2(1) [OF this] obtain r0 where r0: "(n, w, r0) \<in> set (map (\<lambda>(n, w, r). (n, w, if w = i then Some b else r)) es)"
    "r = r0 \<or> (\<exists>b. ForceKillDone w b \<in> set out \<and> r = Some b)" by blast
  then obtain r1 where "(n, w, r1) \<in> set es" "r0 = (if w = i then Some b else r1)" by auto
  with r0(2) show ?case by (intro exI [of _ r1]) (auto split: if_splits)
qed auto

lemma covered_calls: "calls_only h h' \<Longrightarrow> covered todo h \<Longrightarrow> covered todo h'"
proof -
  assume calls: "calls_only h h'" and cov: "covered todo h"
  show ?thesis
  proof (cases "th_dispose h")
    case None
    then show ?thesis using calls by (auto simp: covered_def calls_only_def)
  next
    case (Some es)
    then obtain es' where "th_dispose h' = Some es'" "map fst es' = map fst es" using calls by (auto simp: calls_only_def)
    moreover from this(2) have "fst ` set es' = fst ` set es" by (metis list.set_map)
    ultimately show ?thesis using calls cov Some by (auto simp: covered_def calls_only_def)
  qed
qed

text \<open>A call on one session, which may use the next number for a wait.\<close>

lemma apply_keeps:
  assumes ok: "host_ok h" and n: "n < length (th_objects h)"
    and f: "proper W (object_of h n) (f (object_of h n))" and W: "\<forall>w\<in>W. w < th_nextWaiter h"
  shows "host_ok (fst (apply_object n f h))" and "calls_only h (fst (apply_object n f h))"
    and "ss_physicallyExited (object_of h m) \<Longrightarrow> ss_physicallyExited (object_of (fst (apply_object n f h)) m)"
    and "object_of (fst (apply_object n f h)) n = fst (f (object_of h n))"
proof -
  obtain s out where r: "f (object_of h n) = (s, out)" by fastforce
  have h': "fst (apply_object n f h) = h\<lparr>th_objects := (th_objects h)[n := s], th_dispose := map_option (note_settled out) (th_dispose h)\<rparr>"
    by (simp add: apply_object_def r)
  have obj: "object_of (fst (apply_object n f h)) m = (if m = n then s else object_of h m)" for m
    using n by (simp add: h' object_of_def nth_list_update)
  show calls: "calls_only h (fst (apply_object n f h))"
    by (cases "th_dispose h") (simp_all add: h' calls_only_def note_settled_fst)
  show "ss_physicallyExited (object_of h m) \<Longrightarrow> ss_physicallyExited (object_of (fst (apply_object n f h)) m)"
    using f by (cases "m = n") (simp_all add: obj proper_def r)
  show "object_of (fst (apply_object n f h)) n = fst (f (object_of h n))" by (simp add: obj r)
  have "object_ok (object_of (fst (apply_object n f h)) m) \<and>
      (ss_physicallyExited (object_of (fst (apply_object n f h)) m) \<or> map_get (th_sessions h) (th_ids h ! m) = Some m) \<and>
      (\<forall>w\<in>waiters (object_of (fst (apply_object n f h)) m). w < th_nextWaiter h)" if "m < length (th_objects h)" for m
  proof -
    have old: "object_ok (object_of h m)" "ss_physicallyExited (object_of h m) \<or> map_get (th_sessions h) (th_ids h ! m) = Some m"
      "\<forall>w\<in>waiters (object_of h m). w < th_nextWaiter h" using ok that by (auto simp: host_ok_def)
    have new: "object_ok s" "ss_physicallyExited (object_of h n) \<Longrightarrow> ss_physicallyExited s" "waiters s \<subseteq> waiters (object_of h n) \<union> W"
      using f by (simp_all add: proper_def r)
    show ?thesis using old new W by (cases "m = n") (auto simp: obj)
  qed
  then show "host_ok (fst (apply_object n f h))" using ok by (simp add: host_ok_def) (simp add: h')
qed

lemma apply_dispose:
  assumes ok: "host_ok h" and n: "n < length (th_objects h)" and d: "dispose_ok h"
    and f: "proper W (object_of h n) (f (object_of h n))"
    and W: "\<forall>w\<in>W. \<forall>es. th_dispose h = Some es \<longrightarrow> (\<forall>(m, v, r)\<in>set es. v = w \<longrightarrow> m = n)"
  shows "dispose_ok (fst (apply_object n f h))"
proof (cases "th_dispose h")
  case None
  then show ?thesis by (simp add: dispose_ok_def apply_object_def case_prod_unfold)
next
  case (Some es)
  obtain s out where r: "f (object_of h n) = (s, out)" by fastforce
  have h': "fst (apply_object n f h) = h\<lparr>th_objects := (th_objects h)[n := s], th_dispose := Some (note_settled out es)\<rparr>"
    by (simp add: apply_object_def r Some)
  have obj: "object_of (fst (apply_object n f h)) m = (if m = n then s else object_of h m)" for m
    using n by (simp add: h' object_of_def nth_list_update)
  have entry: "m < length (th_objects h) \<and> w < th_nextWaiter h \<and> (r' = Some True \<longrightarrow> ss_physicallyExited (object_of (fst (apply_object n f h)) m)) \<and>
      (\<forall>k<length (th_objects h). w \<in> waiters (object_of (fst (apply_object n f h)) k) \<longrightarrow> k = m)"
    if in_new: "(m, w, r') \<in> set (note_settled out es)" for m w r'
  proof -
    from note_settled_in [OF in_new] obtain r0 where r0: "(m, w, r0) \<in> set es" "r' = r0 \<or> (\<exists>b. ForceKillDone w b \<in> set out \<and> r' = Some b)"
      by blast
    have old: "m < length (th_objects h)" "w < th_nextWaiter h" "r0 = Some True \<Longrightarrow> ss_physicallyExited (object_of h m)"
        "\<And>k. k < length (th_objects h) \<Longrightarrow> w \<in> waiters (object_of h k) \<Longrightarrow> k = m"
      using d Some r0(1) unfolding dispose_ok_def by fastforce+
    have sub: "waiters s \<subseteq> waiters (object_of h n) \<union> W" using f by (simp add: proper_def r)
    have mine: "w \<in> waiters s \<Longrightarrow> n = m" using sub old(4) [OF n] W Some r0(1) by fastforce
    have settled: "ForceKillDone w True \<in> set out \<Longrightarrow> n = m \<and> ss_physicallyExited s"
      using f old(4) [OF n] by (auto simp: proper_def r)
    have grows: "ss_physicallyExited (object_of h m) \<Longrightarrow> ss_physicallyExited (object_of (fst (apply_object n f h)) m)" for m
      using f by (cases "m = n") (simp_all add: obj proper_def r)
    have "r' = Some True \<Longrightarrow> ss_physicallyExited (object_of (fst (apply_object n f h)) m)"
      using r0(2) settled old(3) grows [of m] by (auto simp: obj)
    moreover have "k = m" if "k < length (th_objects h)" "w \<in> waiters (object_of (fst (apply_object n f h)) k)" for k
      using that old(4) [of k] mine by (cases "k = n") (simp_all add: obj)
    ultimately show ?thesis using old(1,2) by blast
  qed
  have fields: "th_dispose (fst (apply_object n f h)) = Some (note_settled out es)" "th_nextWaiter (fst (apply_object n f h)) = th_nextWaiter h"
    "length (th_objects (fst (apply_object n f h))) = length (th_objects h)"
    "th_creationFenced (fst (apply_object n f h)) = th_creationFenced h" by (simp_all add: h')
  have "th_creationFenced h" using d Some by (simp add: dispose_ok_def)
  then show ?thesis unfolding dispose_ok_def fields using entry by auto
qed

definition host_inv :: "host \<Rightarrow> bool" where
  "host_inv h \<longleftrightarrow> host_ok h \<and> dispose_ok h"

lemma in_map_ok: "host_ok h \<Longrightarrow> map_get (th_sessions h) i = Some n \<Longrightarrow> n < length (th_objects h) \<and> th_ids h ! n = i"
  by (simp add: host_ok_def)

lemma object_ok_of: "host_ok h \<Longrightarrow> n < length (th_objects h) \<Longrightarrow> object_ok (object_of h n)"
  by (simp add: host_ok_def)

lemma dead_exited: "host_ok h \<Longrightarrow> n < length (th_objects h) \<Longrightarrow> \<not> is_alive h n \<Longrightarrow> ss_physicallyExited (object_of h n)"
  using object_ok_of by (fastforce simp: is_alive_def object_ok_def)

text \<open>An entry of an exited session may leave the map.\<close>

lemma drop_entry:
  assumes "host_inv h" and "\<And>n. map_get (th_sessions h) i = Some n \<Longrightarrow> ss_physicallyExited (object_of h n)"
  shows "host_inv (h\<lparr>th_sessions := map_delete i (th_sessions h)\<rparr>)" and "calls_only h (h\<lparr>th_sessions := map_delete i (th_sessions h)\<rparr>)"
proof -
  let ?h = "h\<lparr>th_sessions := map_delete i (th_sessions h)\<rparr>"
  have obj: "object_of ?h m = object_of h m" for m by (simp add: object_of_def)
  show "calls_only h ?h" by (auto simp: calls_only_def split: if_splits)
  have ok: "host_ok h" and d: "dispose_ok h" using assms(1) by (simp_all add: host_inv_def)
  have "ss_physicallyExited (object_of h m) \<or> map_get (th_sessions ?h) (th_ids h ! m) = Some m" if "m < length (th_objects h)" for m
  proof -
    have "ss_physicallyExited (object_of h m) \<or> map_get (th_sessions h) (th_ids h ! m) = Some m" using ok that by (simp add: host_ok_def)
    then show ?thesis using assms(2) [of m] by (cases "th_ids h ! m = i") auto
  qed
  then have "\<forall>m<length (th_objects h). object_ok (object_of h m) \<and>
      (ss_physicallyExited (object_of h m) \<or> map_get (th_sessions ?h) (th_ids h ! m) = Some m) \<and> (\<forall>w\<in>waiters (object_of h m). w < th_nextWaiter h)"
    using ok unfolding host_ok_def by blast
  moreover have "\<forall>j n. map_get (th_sessions ?h) j = Some n \<longrightarrow> n < length (th_objects h) \<and> th_ids h ! n = j"
    using ok unfolding host_ok_def by (auto split: if_splits)
  ultimately have "host_ok ?h" using ok unfolding host_ok_def obj by (simp add: distinct_map_delete)
  moreover have "dispose_ok ?h" using d unfolding dispose_ok_def obj by simp
  ultimately show "host_inv ?h" by (simp add: host_inv_def)
qed

lemma reap_keeps:
  assumes "host_inv h"
  shows "host_inv (fst (reapSession i h))" and "calls_only h (fst (reapSession i h))"
proof -
  have "host_inv (fst (reapSession i h)) \<and> calls_only h (fst (reapSession i h))"
  proof (cases "map_get (th_sessions h) i")
    case (Some n)
    show ?thesis
    proof (cases "is_alive h n")
      case False
      have n: "n < length (th_objects h)" and ok: "host_ok h" and d: "dispose_ok h"
        using assms Some in_map_ok by (auto simp: host_inv_def)
      have exited: "ss_physicallyExited (object_of h n)" using dead_exited [OF ok n False] .
      have f: "proper {} (object_of h n) (session_dispose (object_of h n))"
        by (rule proper_dispose [OF object_ok_of [OF ok n] exited])
      let ?h1 = "fst (apply_object n session_dispose h)"
      have h1: "host_inv ?h1" "calls_only h ?h1" and ex1: "ss_physicallyExited (object_of ?h1 n)"
        using apply_keeps [where h = h and n = n and f = session_dispose and W = "{}"]
          apply_dispose [where h = h and n = n and f = session_dispose and W = "{}"] ok n d f exited by (simp_all add: host_inv_def dispose_keeps)
      have "map_get (th_sessions ?h1) i = Some n" using Some by (simp add: apply_object_def case_prod_unfold)
      then show ?thesis
        using drop_entry [OF h1(1), of i] ex1 calls_only_trans [OF h1(2)] False Some by (simp add: reapSession_def)
    qed (use assms Some in \<open>simp add: reapSession_def\<close>)
  qed (use assms in \<open>simp add: reapSession_def\<close>)
  then show "host_inv (fst (reapSession i h))" and "calls_only h (fst (reapSession i h))" by simp_all
qed

lemma call_keeps:
  assumes "host_inv h" and "n < length (th_objects h)" and "proper W (object_of h n) (f (object_of h n))" and "\<forall>w\<in>W. w < th_nextWaiter h"
    and "\<forall>w\<in>W. \<forall>es. th_dispose h = Some es \<longrightarrow> (\<forall>(m, v, r)\<in>set es. v = w \<longrightarrow> m = n)"
  shows "host_inv (fst (object_call n f h)) \<and> calls_only h (fst (object_call n f h))"
proof -
  have one: "host_inv (fst (apply_object n f h))" "calls_only h (fst (apply_object n f h))"
    using assms apply_keeps [where h = h and n = n and f = f and W = W] apply_dispose [where h = h and n = n and f = f and W = W]
    by (simp_all add: host_inv_def)
  then show ?thesis
    using reap_keeps [OF one(1)] calls_only_trans [OF one(2)] by (simp add: object_call_def)
qed

lemma step_call_keeps:
  assumes "host_inv h" and "n < length (th_objects h)" and "f (object_of h n) = session_step (E, e) (object_of h n)"
    and "e \<noteq> SeDispose" and "e \<noteq> SeDisposeSubprocess" and "adds_waiter e = {}"
  shows "host_inv (fst (object_call n f h)) \<and> calls_only h (fst (object_call n f h))"
  using assms proper_step [of "object_of h n" e E] object_ok_of [of h n]
  by (intro call_keeps [where W = "{}"]) (auto simp: host_inv_def)

lemma step_apply_keeps:
  assumes "host_inv h" and "n < length (th_objects h)" and "f (object_of h n) = session_step (E, e) (object_of h n)"
    and "e \<noteq> SeDispose \<and> e \<noteq> SeDisposeSubprocess \<or> \<not> is_alive h n" and "adds_waiter e = {}"
  shows "host_inv (fst (apply_object n f h)) \<and> calls_only h (fst (apply_object n f h))"
proof -
  have ok: "host_ok h" and d: "dispose_ok h" using assms(1) by (auto simp: host_inv_def)
  have f: "proper {} (object_of h n) (f (object_of h n))"
    using assms proper_step [of "object_of h n" e E] object_ok_of [OF ok, of n] by (auto simp: is_alive_def)
  show ?thesis
    using apply_keeps [where h = h and n = n and f = f and W = "{}"] apply_dispose [where h = h and n = n and f = f and W = "{}"]
      ok d f assms(2) by (simp add: host_inv_def)
qed

lemma alive_call_keeps:
  assumes "host_inv h" and "\<And>s. f s = session_step (E, e) s" and "e \<noteq> SeDispose" and "e \<noteq> SeDisposeSubprocess" and "adds_waiter e = {}"
  shows "host_inv (fst (alive_call i f h)) \<and> calls_only h (fst (alive_call i f h))"
  using assms step_call_keeps [where h = h and f = f and E = E and e = e] in_map_ok [of h i]
  by (auto simp: alive_call_def host_inv_def split: option.split)

lemma quiet_call_keeps:
  assumes "host_inv h" and "\<And>s. f s = session_step (E, e) s" and "e \<noteq> SeDispose" and "e \<noteq> SeDisposeSubprocess" and "adds_waiter e = {}"
  shows "host_inv (fst (quiet_call b i f h)) \<and> calls_only h (fst (quiet_call b i f h))"
  using assms step_call_keeps [where h = h and f = f and E = E and e = e] in_map_ok [of h i]
  by (auto simp: quiet_call_def host_inv_def split: option.split)

subsection \<open>The operations of the host\<close>

definition keeps_hold :: "host \<Rightarrow> host_result \<Rightarrow> bool" where
  "keeps_hold h r \<longleftrightarrow> (host_inv h \<longrightarrow> host_inv (fst r) \<and> (\<forall>todo. covered todo h \<longrightarrow> covered todo (fst r)))"

interpretation hosting: composing keeps_hold
  by unfold_locales (auto simp: keeps_hold_def)

lemma keeps_calls: "(host_inv h \<Longrightarrow> host_inv (fst r) \<and> calls_only h (fst r)) \<Longrightarrow> keeps_hold h r"
  using covered_calls by (auto simp: keeps_hold_def)

lemma next_waiter_ok: "host_inv h \<Longrightarrow> host_inv (h\<lparr>th_nextWaiter := th_nextWaiter h + 1\<rparr>)"
  unfolding host_inv_def host_ok_def dispose_ok_def object_of_def by (auto simp: less_Suc_eq) fastforce+

lemma waiter_keeps:
  assumes "host_inv (h\<lparr>th_nextWaiter := th_nextWaiter h + 1\<rparr>)" and "n < length (th_objects h)"
    and "\<forall>es. th_dispose h = Some es \<longrightarrow> (\<forall>(m, v, r)\<in>set es. v = th_nextWaiter h \<longrightarrow> m = n)"
  shows "host_inv (fst (force_waiter E n d h)) \<and> calls_only (h\<lparr>th_nextWaiter := th_nextWaiter h + 1\<rparr>) (fst (force_waiter E n d h))"
  unfolding force_waiter_def
  using assms proper_force object_ok_of [of "h\<lparr>th_nextWaiter := th_nextWaiter h + 1\<rparr>" n]
  by (intro call_keeps [where W = "{th_nextWaiter h}"]) (auto simp: host_inv_def)

lemma covered_waiter [simp]: "covered todo (h\<lparr>th_nextWaiter := w\<rparr>) = covered todo h" "covered todo (h\<lparr>th_operations := ops\<rparr>) = covered todo h"
  by (simp_all add: covered_def)

lemma force_keeps:
  assumes "n < length (th_objects h)"
  shows "keeps_hold h (force_waiter E n d h)"
proof -
  have fresh: "\<forall>es. th_dispose h = Some es \<longrightarrow> (\<forall>(m, v, r)\<in>set es. v = th_nextWaiter h \<longrightarrow> m = n)" if "host_inv h"
    using that unfolding host_inv_def dispose_ok_def by fastforce
  show ?thesis
    using waiter_keeps [OF next_waiter_ok assms fresh] covered_calls covered_waiter(1) unfolding keeps_hold_def by metis
qed

lemma operation_ok: "host_inv h \<Longrightarrow> td_session op < length (th_objects h) \<Longrightarrow> host_inv (set_operation i op h)"
  by (auto simp: host_inv_def host_ok_def dispose_ok_def object_of_def set_operation_def)

lemma drop_operation_ok: "host_inv h \<Longrightarrow> host_inv (h\<lparr>th_operations := map_delete i (th_operations h)\<rparr>)"
  by (auto simp: host_inv_def host_ok_def dispose_ok_def object_of_def)

lemma keeps_set_operation:
  "td_session op < length (th_objects h) \<Longrightarrow> keeps_hold (set_operation i op h) r \<Longrightarrow> keeps_hold h r"
  using operation_ok by (auto simp: keeps_hold_def set_operation_def)

lemma keeps_quiet_operation: "td_session op < length (th_objects h) \<Longrightarrow> keeps_hold h (set_operation i op h, [])"
  using operation_ok by (auto simp: keeps_hold_def set_operation_def)

lemma keeps_drop_operation: "keeps_hold h (h\<lparr>th_operations := map_delete i (th_operations h)\<rparr>, [])"
  using drop_operation_ok by (auto simp: keeps_hold_def)

lemma operation_in: "host_inv h \<Longrightarrow> map_get (th_operations h) i = Some op \<Longrightarrow> td_session op < length (th_objects h)"
  by (auto simp: host_inv_def host_ok_def)

lemma keeps_if: "(host_inv h \<Longrightarrow> keeps_hold h r) \<Longrightarrow> keeps_hold h r"
  by (auto simp: keeps_hold_def)

lemma length_set_operation [simp]: "length (th_objects (set_operation i op h)) = length (th_objects h)"
  by (simp add: set_operation_def)

lemma keeps_set_force:
  "td_session op < length (th_objects h) \<Longrightarrow> keeps_hold h (force_waiter E (td_session op) d (set_operation i op h))"
  by (rule keeps_set_operation [where op = op and i = i]) (simp_all add: force_keeps)

lemma keeps_request: "keeps_hold h (requestImmediate E i h)"
proof (rule keeps_if)
  assume inv: "host_inv h"
  show ?thesis
  proof (cases "map_get (th_operations h) i")
    case (Some op)
    note n = operation_in [OF inv Some]
    show ?thesis
      using keeps_set_force [of "op\<lparr>td_immediate := True, td_rootCompletion := Some (th_nextWaiter h)\<rparr>" h] keeps_quiet_operation [of _ h] n by (simp add: requestImmediate_def Some)
  qed (simp add: requestImmediate_def hosting.keeps_same)
qed

lemma length_force: "length (th_objects (fst (apply_object n f h))) = length (th_objects h)"
  by (simp add: apply_object_def case_prod_unfold)

lemma length_reap: "length (th_objects (fst (reapSession i h))) = length (th_objects h)"
  by (auto simp: reapSession_def length_force split: option.split)

lemma length_call: "length (th_objects (fst (object_call n f h))) = length (th_objects h)"
  by (simp add: object_call_def length_force length_reap)

lemma dispose_none [simp]:
  "th_dispose (fst (apply_object n f h)) = None \<longleftrightarrow> th_dispose h = None"
  "th_dispose (fst (reapSession i h)) = None \<longleftrightarrow> th_dispose h = None"
  "th_dispose (fst (object_call n f h)) = None \<longleftrightarrow> th_dispose h = None"
proof -
  show one: "th_dispose (fst (apply_object n f h)) = None \<longleftrightarrow> th_dispose h = None" for n f h
    by (simp add: apply_object_def case_prod_unfold)
  show two: "th_dispose (fst (reapSession i h)) = None \<longleftrightarrow> th_dispose h = None" for i h
    by (auto simp: reapSession_def one split: option.split)
  show "th_dispose (fst (object_call n f h)) = None \<longleftrightarrow> th_dispose h = None"
    by (simp add: object_call_def one two)
qed

lemma keeps_call:
  assumes "n < length (th_objects h)" and "f (object_of h n) = session_step (E, e) (object_of h n)"
    and "e \<noteq> SeDispose" and "e \<noteq> SeDisposeSubprocess" and "adds_waiter e = {}"
  shows "keeps_hold h (object_call n f h)"
  by (rule keeps_calls) (use assms step_call_keeps in blast)

lemma keeps_apply:
  assumes "n < length (th_objects h)" and "f (object_of h n) = session_step (E, e) (object_of h n)"
    and "e \<noteq> SeDispose \<and> e \<noteq> SeDisposeSubprocess \<or> \<not> is_alive h n" and "adds_waiter e = {}"
  shows "keeps_hold h (apply_object n f h)"
  by (rule keeps_calls) (use assms step_apply_keeps in blast)

lemma keeps_kill_agent:
  assumes "n < length (th_objects h)"
  shows "keeps_hold h (killAgentSession E i n immediate h)"
proof (rule keeps_if)
  assume inv: "host_inv h"
  show ?thesis
  proof (cases "map_get (th_operations h) i")
    case (Some op)
    then show ?thesis using operation_in [OF inv Some] by (simp add: killAgentSession_def keeps_quiet_operation)
  next
    case None
    show ?thesis
    proof (cases "snd (beginTermination (object_of h n))")
      case False
      then show ?thesis using None assms by (simp add: killAgentSession_def force_keeps hosting.keeps_same)
    next
      case True
      let ?op = "\<lparr>td_immediate = immediate, td_rootSignalled = False, td_rootCompletion = None, td_swept = False, td_session = n\<rparr>"
      have begins: "keeps_hold h (object_call n (\<lambda>s. fst (beginTermination s)) h)"
        by (rule keeps_call [where e = SeBeginTermination]) (use assms in simp_all)
      have schedules: "keeps_hold h' (if immediate then (h', []) else apply_object n (emit_quiet scheduleForceDisposeFallback) h')"
        if "n < length (th_objects h')" for h'
        using that keeps_apply [where e = SeScheduleFallback and f = "emit_quiet scheduleForceDisposeFallback"]
        by (simp add: hosting.keeps_same emit_quiet_def)
      have noted: "keeps_hold h' (emit_quiet (set_operation i ?op) h')" if "n < length (th_objects h')" for h'
        using that keeps_quiet_operation [of ?op h' i] by (simp add: emit_quiet_def)
      have sequel: "keeps_hold h' (emit_then (if immediate then (h', []) else apply_object n (emit_quiet scheduleForceDisposeFallback) h')
          (emit_quiet (set_operation i ?op)))" if "n < length (th_objects h')" for h'
        using that by (intro hosting.keeps_then schedules noted) (simp_all add: length_force)
      have "keeps_hold h (emit_then (object_call n (\<lambda>s. fst (beginTermination s)) h)
          (\<lambda>h. emit_then (if immediate then (h, []) else apply_object n (emit_quiet scheduleForceDisposeFallback) h)
            (emit_quiet (set_operation i ?op))))"
        by (rule hosting.keeps_then, rule begins, rule sequel) (simp add: length_call assms)
      then show ?thesis using None True by (simp add: killAgentSession_def)
    qed
  qed
qed

lemma keeps_kill: "keeps_hold h (host_kill E i immediate h)"
proof (rule keeps_if)
  assume inv: "host_inv h"
  have tomb: "keeps_hold h' (emit_quiet (recordTombstone i) h')" for h'
    by (auto simp: keeps_hold_def emit_quiet_def recordTombstone_def host_inv_def host_ok_def dispose_ok_def object_of_def covered_def Let_def)
  show ?thesis
  proof (cases "map_get (th_operations h) i = None")
    case False
    then show ?thesis by (auto simp: host_kill_def keeps_request hosting.keeps_same)
  next
    case True
    show ?thesis
    proof (cases "map_get (th_sessions h) i")
      case (Some n)
      then have n: "n < length (th_objects h)" using inv in_map_ok by (auto simp: host_inv_def)
      have "keeps_hold h (object_call n (session_kill E) h)" by (rule keeps_call [where e = SeKill and E = E]) (use n in simp_all)
      then have kill: "keeps_hold h (killSession E i n immediate h)"
        using n by (simp add: killSession_def keeps_kill_agent force_keeps)
      have threw: "keeps_hold h' (h', [HostThrew])" for h' by (simp add: keeps_hold_def)
      show ?thesis
      proof (cases "is_alive h n")
        case alive: True
        have "keeps_hold h (emit_then (killSession E i n immediate h)
                 (if OfProcess n CallThrew \<in> set (snd (killSession E i n immediate h)) then (\<lambda>h. (h, [HostThrew]))
                  else emit_quiet (recordTombstone i)))"
          by (rule hosting.keeps_then [OF kill]) (simp add: threw tomb)
        then show ?thesis using True Some alive by (simp add: host_kill_def)
      next
        case False
        then show ?thesis using True Some threw by (simp add: host_kill_def)
      qed
    qed (use True in \<open>simp add: host_kill_def keeps_hold_def\<close>)
  qed
qed

lemma keeps_sweep: "keeps_hold h (operation_sweeps E i h)"
proof (rule keeps_if)
  assume inv: "host_inv h"
  show ?thesis
  proof (cases "map_get (th_operations h) i")
    case (Some op)
    note n = operation_in [OF inv Some]
    let ?h = "set_operation i (op\<lparr>td_swept := True, td_rootSignalled := True\<rparr>) h"
    have "keeps_hold ?h (object_call (td_session op) (\<lambda>s. fst (signalTerminationRoot E s)) ?h)"
      by (rule keeps_call [where e = SeSignalRoot and E = E]) (use n in simp_all)
    then have signals: "keeps_hold h (object_call (td_session op) (\<lambda>s. fst (signalTerminationRoot E s)) ?h)"
      using keeps_set_operation [where i = i and h = h and op = "op\<lparr>td_swept := True, td_rootSignalled := True\<rparr>"] n by simp
    have "keeps_hold h (emit_then (object_call (td_session op) (\<lambda>s. fst (signalTerminationRoot E s)) ?h)
       (if snd (signalTerminationRoot E (object_of h (td_session op)))
        then emit_quiet (\<lambda>h. h\<lparr>th_operations := map_delete i (th_operations h)\<rparr>) else (\<lambda>h. (h, []))))"
      by (rule hosting.keeps_then [OF signals]) (simp add: emit_quiet_def keeps_drop_operation hosting.keeps_same)
    then show ?thesis
      using n keeps_quiet_operation [of "op\<lparr>td_swept := True\<rparr>" h i] Some
        keeps_set_force [of "op\<lparr>td_swept := True, td_rootSignalled := True, td_rootCompletion := Some (th_nextWaiter h)\<rparr>" h]
      by (simp add: operation_sweeps_def hosting.keeps_same)
  qed (simp add: operation_sweeps_def hosting.keeps_same)
qed

lemma keeps_operation_done: "keeps_hold h (operation_completes i h)"
  by (auto simp: operation_completes_def hosting.keeps_same keeps_drop_operation split: option.split)

subsection \<open>Creation\<close>

lemma tombstones_ok [simp]: "host_inv (h\<lparr>th_killedTombstones := ts\<rparr>) = host_inv h" "covered todo (h\<lparr>th_killedTombstones := ts\<rparr>) = covered todo h"
  by (simp_all add: host_inv_def host_ok_def dispose_ok_def object_of_def covered_def)

lemma spawn_keeps:
  assumes inv: "host_inv h" and free: "map_get (th_sessions h) i = None" and open': "th_dispose h = None"
  shows "host_inv (fst (spawn_session i opts h))" and "th_dispose (fst (spawn_session i opts h)) = None"
proof -
  let ?n = "length (th_objects h)"
  let ?new = "\<lambda>ready. new_session (co_agent opts) (co_canPause opts) (co_canClear opts) ready"
  let ?h1 = "\<lambda>ready. h\<lparr>th_objects := th_objects h @ [?new ready], th_ids := th_ids h @ [i], th_sessions := map_set i ?n (th_sessions h)\<rparr>"
  have obj: "object_of (?h1 ready) m = (if m = ?n then ?new ready else object_of h m)" if "m \<le> ?n" for m ready
    using that by (simp add: object_of_def nth_append)
  have new: "object_ok (?new ready)" "waiters (?new ready) = {}" for ready
    by (simp_all add: object_ok_def new_session_def waiters_def)
  have h1: "host_inv (?h1 ready)" for ready
  proof -
    have ids: "length (th_ids h) = ?n" and host: "host_ok h" using inv by (simp_all add: host_inv_def host_ok_def)
    have "object_ok (object_of (?h1 ready) m) \<and>
        (ss_physicallyExited (object_of (?h1 ready) m) \<or> map_get (map_set i ?n (th_sessions h)) ((th_ids h @ [i]) ! m) = Some m) \<and>
        (\<forall>w\<in>waiters (object_of (?h1 ready) m). w < th_nextWaiter h)" if m: "m < Suc ?n" for m
    proof (cases "m = ?n")
      case True
      then show ?thesis using obj [of m ready] new [of ready] ids by (simp add: nth_append)
    next
      case False
      then have "m < length (th_objects h)" using m by simp
      then have "object_ok (object_of h m)" "ss_physicallyExited (object_of h m) \<or> map_get (th_sessions h) (th_ids h ! m) = Some m"
        "\<forall>w\<in>waiters (object_of h m). w < th_nextWaiter h" using host unfolding host_ok_def by blast+
      then show ?thesis using False m obj [of m ready] ids free by (auto simp: nth_append)
    qed
    moreover have "m < Suc ?n \<and> (th_ids h @ [i]) ! m = j" if "map_get (map_set i ?n (th_sessions h)) j = Some m" for j m
      using that host ids in_map_ok [OF host, of j m] by (auto simp: nth_append split: if_splits)
    moreover have "td_session op < Suc ?n" if "map_get (th_operations h) j = Some op" for j op
      using operation_in [OF inv that] by simp
    moreover have "distinct (map fst (map_set i ?n (th_sessions h)))" using host by (simp add: host_ok_def distinct_map_set)
    ultimately have "host_ok (?h1 ready)" using ids unfolding host_ok_def by simp
    then show ?thesis using open' by (simp add: host_inv_def dispose_ok_def)
  qed
  have attach: "keeps_hold h' (apply_object ?n (emit_quiet attachClient) h')" if "?n < length (th_objects h')" for h'
    by (rule keeps_apply [where e = SeAttach]) (use that in \<open>simp_all add: emit_quiet_def\<close>)
  have type: "keeps_hold h' (object_call ?n (session_write d) h')" if "?n < length (th_objects h')" for h' d
    by (rule keeps_call [where e = "SeWrite d"]) (use that in simp_all)
  have say: "keeps_hold h' (h', out)" for h' out by (simp add: keeps_hold_def)
  have startup: "keeps_hold h' (emit_then (case co_startup opts ready of None \<Rightarrow> (h', []) | Some text \<Rightarrow> object_call ?n (session_write text) h')
      (\<lambda>h. (h, [Attached True ?n])))" if "?n < length (th_objects h')" for h' ready
    using that by (intro hosting.keeps_then say) (auto simp: say type split: option.split)
  have rest: "keeps_hold h' (emit_then (apply_object ?n (emit_quiet attachClient) h')
      (\<lambda>h. emit_then (case co_startup opts ready of None \<Rightarrow> (h, []) | Some text \<Rightarrow> object_call ?n (session_write text) h)
        (\<lambda>h. (h, [Attached True ?n]))))" if "?n < length (th_objects h')" for h' ready
    by (rule hosting.keeps_then, rule attach, rule that, rule startup) (simp add: length_force that)
  show "host_inv (fst (spawn_session i opts h))"
    using inv h1 rest by (simp add: spawn_session_def Let_def keeps_hold_def)
  show "th_dispose (fst (spawn_session i opts h)) = None"
    using open' by (simp add: spawn_session_def Let_def split: option.split)
qed

lemma keeps_create: "keeps_hold h (createOrAttach i opts h)"
proof (rule keeps_if)
  assume inv: "host_inv h"
  have say: "keeps_hold h' (h', out)" for h' out by (simp add: keeps_hold_def)
  show ?thesis
  proof (cases "th_creationFenced h \<or> map_get (th_operations h) i \<noteq> None \<or>
      (case map_get (th_sessions h) i of None \<Rightarrow> False | Some n \<Rightarrow> ss_isTerminating (object_of h n))")
    case True
    then show ?thesis by (auto simp: createOrAttach_def say)
  next
    case False
    then have open': "th_dispose h = None" using inv by (auto simp: host_inv_def dispose_ok_def)
    show ?thesis
    proof (cases "map_get (th_sessions h) i")
      case None
      then have "keeps_hold h (spawn_session i opts (h\<lparr>th_killedTombstones := removeAll i (th_killedTombstones h)\<rparr>))"
        using spawn_keeps [of "h\<lparr>th_killedTombstones := removeAll i (th_killedTombstones h)\<rparr>" i opts] inv open'
        by (simp add: keeps_hold_def covered_def)
      then show ?thesis using None False by (simp add: createOrAttach_def)
    next
      case (Some n)
      have n: "n < length (th_objects h)" using inv Some in_map_ok by (auto simp: host_inv_def)
      show ?thesis
      proof (cases "is_alive h n")
        case alive: True
        have detach: "keeps_hold h (object_call n detachAllClients h)"
          by (rule keeps_call [where e = SeDetachAll]) (use n in simp_all)
        have attach: "keeps_hold h' (apply_object n (emit_quiet attachClient) h')" if "n < length (th_objects h')" for h'
          by (rule keeps_apply [where e = SeAttach]) (use that in \<open>simp_all add: emit_quiet_def\<close>)
        have "keeps_hold h (emit_then (object_call n detachAllClients h)
            (\<lambda>h. emit_then (apply_object n (emit_quiet attachClient) h) (\<lambda>h. (h, [Attached False n]))))"
          by (rule hosting.keeps_then, rule detach, rule hosting.keeps_then, rule attach) (simp_all add: n length_call say)
        then show ?thesis using Some False alive by (simp add: createOrAttach_def)
      next
        case dead: False
        let ?h1 = "fst (apply_object n session_dispose h)"
        let ?h2 = "?h1\<lparr>th_sessions := map_delete i (th_sessions ?h1)\<rparr>"
        have one: "host_inv ?h1 \<and> calls_only h ?h1"
          by (rule step_apply_keeps [where e = SeDispose]) (use inv n dead in simp_all)
        have sessions: "map_get (th_sessions ?h1) i = Some n" using Some by (simp add: apply_object_def case_prod_unfold)
        have "ss_physicallyExited (object_of ?h1 n)"
        proof -
          have "host_ok h" using inv by (simp add: host_inv_def)
          then have "ss_physicallyExited (object_of h n)" using dead_exited n dead by blast
          then show ?thesis using n by (simp add: apply_object_def case_prod_unfold object_of_def dispose_keeps)
        qed
        then have two: "host_inv ?h2" using drop_entry(1) [of ?h1 i] one sessions by simp
        let ?h3 = "?h2\<lparr>th_killedTombstones := removeAll i (th_killedTombstones ?h2)\<rparr>"
        have three: "host_inv (fst (spawn_session i opts ?h3))" "th_dispose (fst (spawn_session i opts ?h3)) = None"
          using spawn_keeps [of ?h3 i opts] two open' by simp_all
        have "fst (createOrAttach i opts h) = fst (spawn_session i opts ?h3)"
          using Some False dead by (simp add: createOrAttach_def)
        then show ?thesis using three by (simp add: keeps_hold_def covered_def)
      qed
    qed
  qed
qed

subsection \<open>Shutdown\<close>

lemma keeps_checkpoint: "(i, n) = e \<Longrightarrow> n < length (th_objects h) \<Longrightarrow> keeps_hold h (checkpoint_one e h)"
proof -
  assume e: "(i, n) = e" and n: "n < length (th_objects h)"
  have take: "keeps_hold h (apply_object n (takePendingOutput True True) h)"
    by (rule keeps_apply [where e = "SeTake True True"]) (use n in simp_all)
  have say: "keeps_hold h' (h', out)" for h' out by (simp add: keeps_hold_def)
  have "keeps_hold h (emit_then (apply_object n (takePendingOutput True True) h) (\<lambda>h'. (h', out)))" for out
    by (rule hosting.keeps_then, rule take, rule say)
  then show ?thesis using say by (auto simp: checkpoint_one_def e [symmetric])
qed

lemma length_checkpoint: "length (th_objects (fst (checkpoint_one e h))) = length (th_objects h)"
  "th_sessions (fst (checkpoint_one e h)) = th_sessions h" "th_creationFenced (fst (checkpoint_one e h)) = th_creationFenced h"
  "th_dispose (fst (checkpoint_one e h)) = None \<longleftrightarrow> th_dispose h = None"
  by (auto simp: checkpoint_one_def apply_object_def case_prod_unfold)

lemma checkpoints_keep:
  "host_inv h \<Longrightarrow> th_dispose h = None \<Longrightarrow> \<forall>(i, n)\<in>set es. n < length (th_objects h) \<Longrightarrow>
   host_inv (fst (emit_each checkpoint_one es h)) \<and> th_sessions (fst (emit_each checkpoint_one es h)) = th_sessions h \<and>
   th_creationFenced (fst (emit_each checkpoint_one es h)) = th_creationFenced h \<and> th_dispose (fst (emit_each checkpoint_one es h)) = None \<and>
   length (th_objects (fst (emit_each checkpoint_one es h))) = length (th_objects h)"
proof (induction es arbitrary: h)
  case (Cons e es)
  have "host_inv (fst (checkpoint_one e h))"
    using Cons.prems keeps_checkpoint [of "fst e" "snd e" e h] by (auto simp: keeps_hold_def)
  then show ?case using Cons.IH [of "fst (checkpoint_one e h)"] Cons.prems length_checkpoint by simp
qed simp

lemma add_result_ok:
  assumes inv: "host_inv h" and es: "th_dispose h = Some es" and n: "n < length (th_objects h)"
    and r: "r = Some True \<Longrightarrow> ss_physicallyExited (object_of h n)"
  shows "host_inv ((add_result n r h)\<lparr>th_nextWaiter := th_nextWaiter h + 1\<rparr>)"
proof -
  let ?h = "(add_result n r h)\<lparr>th_nextWaiter := th_nextWaiter h + 1\<rparr>"
  have ok: "host_ok h" and d: "dispose_ok h" using inv by (simp_all add: host_inv_def)
  have obj: "object_of ?h m = object_of h m" for m by (simp add: object_of_def add_result_def)
  have fields: "th_objects ?h = th_objects h" "th_ids ?h = th_ids h" "th_sessions ?h = th_sessions h" "th_operations ?h = th_operations h"
    "th_nextWaiter ?h = th_nextWaiter h + 1" "th_creationFenced ?h = th_creationFenced h" "th_dispose ?h = Some (es @ [(n, th_nextWaiter h, r)])"
    by (simp_all add: add_result_def es)
  have low: "w < th_nextWaiter h" if "m < length (th_objects h)" "w \<in> waiters (object_of h m)" for m w
    using ok that unfolding host_ok_def by blast
  have "host_ok ?h" using ok unfolding host_ok_def obj fields by (auto simp: less_Suc_eq)
  moreover have "dispose_ok ?h"
  proof -
    have old: "m < length (th_objects h) \<and> w < th_nextWaiter h + 1 \<and> (r' = Some True \<longrightarrow> ss_physicallyExited (object_of h m)) \<and>
        (\<forall>k<length (th_objects h). w \<in> waiters (object_of h k) \<longrightarrow> k = m)" if "(m, w, r') \<in> set es" for m w r'
      using d es that unfolding dispose_ok_def by fastforce
    have new: "\<forall>k<length (th_objects h). th_nextWaiter h \<in> waiters (object_of h k) \<longrightarrow> k = n" using low by blast
    have "th_creationFenced h" using d es by (simp add: dispose_ok_def)
    then show ?thesis unfolding dispose_ok_def obj fields using old new n r by auto
  qed
  ultimately show ?thesis by (simp add: host_inv_def)
qed

lemma covered_add: "covered ((i, n) # todo) h \<Longrightarrow> th_dispose h = Some es \<Longrightarrow> covered todo (add_result n r h)"
  by (auto simp: covered_def add_result_def)

lemma dispose_one_keeps:
  assumes inv: "host_inv h" and es: "th_dispose h \<noteq> None" and n: "n < length (th_objects h)" and cov: "covered ((i, n) # todo) h"
  shows "host_inv (fst (dispose_one E (i, n) h)) \<and> covered todo (fst (dispose_one E (i, n) h)) \<and>
    th_dispose (fst (dispose_one E (i, n) h)) \<noteq> None \<and> length (th_objects (fst (dispose_one E (i, n) h))) = length (th_objects h)"
proof -
  let ?h1 = "fst (object_call n detachAllClients h)"
  have "keeps_hold h (object_call n detachAllClients h)"
    by (rule keeps_call [where e = SeDetachAll]) (use n in simp_all)
  then have h1: "host_inv ?h1" "covered ((i, n) # todo) ?h1" using inv cov by (simp_all add: keeps_hold_def)
  have n1: "n < length (th_objects ?h1)" using n by (simp add: length_call)
  obtain es1 where es1: "th_dispose ?h1 = Some es1" using es by fastforce
  have old: "v < th_nextWaiter ?h1" if "(m, v, r) \<in> set es1" for m v r
    using h1(1) es1 that unfolding host_inv_def dispose_ok_def by fastforce
  show ?thesis
  proof (cases "is_alive ?h1 n")
    case True
    let ?h2 = "add_result n None ?h1"
    have h2: "host_inv (?h2\<lparr>th_nextWaiter := th_nextWaiter ?h2 + 1\<rparr>)"
      using add_result_ok [OF h1(1) es1 n1, of None] by (simp add: add_result_def)
    have fresh: "\<forall>es. th_dispose ?h2 = Some es \<longrightarrow> (\<forall>(m, v, r)\<in>set es. v = th_nextWaiter ?h2 \<longrightarrow> m = n)"
      using old by (auto simp: add_result_def es1)
    have n2: "n < length (th_objects ?h2)" using n1 by (simp add: add_result_def)
    note w = waiter_keeps [OF h2 n2 fresh, of E True]
    have "covered todo (fst (force_waiter E n True ?h2))"
      using w covered_calls covered_add [OF h1(2) es1] covered_waiter(1) by blast
    then show ?thesis
      using w True n by (simp add: dispose_one_def force_waiter_def length_call add_result_def)
  next
    case False
    let ?h2 = "(add_result n (Some True) ?h1)\<lparr>th_nextWaiter := th_nextWaiter ?h1 + 1\<rparr>"
    have "ss_physicallyExited (object_of ?h1 n)" using h1(1) n1 False dead_exited by (simp add: host_inv_def)
    then have h2: "host_inv ?h2" using add_result_ok [OF h1(1) es1 n1] by simp
    have n2: "n < length (th_objects ?h2)" and dead: "\<not> is_alive ?h2 n" using n1 False by (simp_all add: add_result_def is_alive_def object_of_def)
    have "host_inv (fst (apply_object n disposeSubprocess ?h2)) \<and> calls_only ?h2 (fst (apply_object n disposeSubprocess ?h2))"
      by (rule step_apply_keeps [where e = SeDisposeSubprocess]) (use h2 n2 dead in simp_all)
    moreover have "covered todo ?h2" using covered_add [OF h1(2) es1] by simp
    ultimately have "host_inv (fst (apply_object n disposeSubprocess ?h2))" "covered todo (fst (apply_object n disposeSubprocess ?h2))"
      using covered_calls by blast+
    moreover have "fst (dispose_one E (i, n) h) = fst (apply_object n disposeSubprocess ?h2)" using False by (simp add: dispose_one_def)
    moreover have "th_dispose (fst (apply_object n disposeSubprocess ?h2)) \<noteq> None" by (simp add: add_result_def)
    moreover have "length (th_objects (fst (apply_object n disposeSubprocess ?h2))) = length (th_objects h)"
      by (simp add: length_force add_result_def length_call)
    ultimately show ?thesis by simp
  qed
qed

lemma dispose_all_keeps:
  "host_inv h \<Longrightarrow> th_dispose h \<noteq> None \<Longrightarrow> \<forall>(i, n)\<in>set es. n < length (th_objects h) \<Longrightarrow> covered es h \<Longrightarrow>
   host_inv (fst (emit_each (dispose_one E) es h)) \<and> covered [] (fst (emit_each (dispose_one E) es h))"
proof (induction es arbitrary: h)
  case (Cons e es)
  obtain i n where e: "e = (i, n)" by fastforce
  have "n < length (th_objects h)" using Cons.prems(3) e by auto
  note one = dispose_one_keeps [OF Cons.prems(1,2) this, of i es E]
  show ?case using one Cons.IH [of "fst (dispose_one E e h)"] Cons.prems(3,4) by (auto simp: e)
qed simp

lemma start_dispose_ok: "host_inv h \<Longrightarrow> th_creationFenced h \<Longrightarrow> host_inv (h\<lparr>th_dispose := Some []\<rparr>)"
  by (simp add: host_inv_def host_ok_def dispose_ok_def object_of_def)

definition run_inv :: "host \<Rightarrow> bool" where
  "run_inv h \<longleftrightarrow> host_inv h \<and> covered [] h"

lemma dispose_inv:
  assumes "run_inv h"
  shows "run_inv (fst (host_dispose E h))"
proof -
  let ?h1 = "h\<lparr>th_creationFenced := True\<rparr>"
  have inv1: "host_inv ?h1" and cov1: "covered [] ?h1" using assms
    by (auto simp: run_inv_def host_inv_def host_ok_def dispose_ok_def object_of_def covered_def)
  show ?thesis
  proof (cases "th_dispose h")
    case (Some es)
    then show ?thesis using inv1 cov1 by (simp add: host_dispose_def Let_def run_inv_def)
  next
    case None
    have bound: "\<forall>(i, n)\<in>set (th_sessions ?h1). n < length (th_objects ?h1)"
    proof clarify
      fix i n
      assume "(i, n) \<in> set (th_sessions ?h1)"
      then have "map_get (th_sessions h) i = Some n" using inv1 by (simp add: host_inv_def host_ok_def map_get_unique)
      then show "n < length (th_objects ?h1)" using inv1 by (simp add: host_inv_def host_ok_def)
    qed
    let ?h2 = "fst (if th_onFinalCheckpoint ?h1 then emit_each checkpoint_one (th_sessions ?h1) ?h1 else (?h1, []))"
    have two: "host_inv ?h2 \<and> th_sessions ?h2 = th_sessions h \<and> th_creationFenced ?h2 \<and> th_dispose ?h2 = None \<and>
        length (th_objects ?h2) = length (th_objects h)"
      using checkpoints_keep [OF inv1 _ bound] None inv1 by auto
    let ?h3 = "?h2\<lparr>th_dispose := Some []\<rparr>"
    have "host_inv ?h3" using two by (intro start_dispose_ok) blast+
    moreover have "covered (th_sessions ?h2) ?h3" by (auto simp: covered_def dest: map_get_in)
    ultimately have "host_inv (fst (emit_each (dispose_one E) (th_sessions ?h2) ?h3)) \<and> covered [] (fst (emit_each (dispose_one E) (th_sessions ?h2) ?h3))"
      using bound two by (intro dispose_all_keeps) auto
    then show ?thesis using None by (simp add: host_dispose_def Let_def run_inv_def)
  qed
qed

lemma settles_inv:
  assumes "run_inv h"
  shows "run_inv (fst (dispose_settles h))"
proof (cases "th_dispose h")
  case None
  then show ?thesis using assms by (simp add: dispose_settles_def)
next
  case (Some es)
  show ?thesis
  proof (cases "list_all (\<lambda>(n, w, r). r = Some True) es")
    case True
    have ok: "host_ok h" and d: "dispose_ok h" and cov: "covered [] h" using assms by (simp_all add: run_inv_def host_inv_def)
    have exited: "ss_physicallyExited (object_of h n)" if "n < length (th_objects h)" for n
    proof (rule ccontr)
      assume "\<not> ss_physicallyExited (object_of h n)"
      then have "map_get (th_sessions h) (th_ids h ! n) = Some n" using ok that by (auto simp: host_ok_def)
      then have "n \<in> fst ` set es" using cov Some by (auto simp: covered_def)
      then obtain w r where "(n, w, r) \<in> set es" by auto
      moreover from this True have "r = Some True" by (auto simp: list_all_iff)
      ultimately have "ss_physicallyExited (object_of h n)" using d Some unfolding dispose_ok_def by fastforce
      with \<open>\<not> ss_physicallyExited (object_of h n)\<close> show False ..
    qed
    let ?h = "h\<lparr>th_sessions := [], th_killedTombstones := []\<rparr>"
    have obj: "object_of ?h m = object_of h m" for m by (simp add: object_of_def)
    have "host_ok ?h" using ok exited unfolding host_ok_def obj by simp
    moreover have "dispose_ok ?h" using d unfolding dispose_ok_def obj by simp
    moreover have "covered [] ?h" by (simp add: covered_def)
    moreover have "list_all (\<lambda>(n, w, r). r \<noteq> None) es" using True by (auto simp: list_all_iff)
    ultimately show ?thesis using True Some by (simp add: dispose_settles_def run_inv_def host_inv_def)
  next
    case False
    then show ?thesis
      using assms Some
      by (auto simp: dispose_settles_def run_inv_def host_inv_def host_ok_def dispose_ok_def covered_def object_of_def)
  qed
qed

lemma run_inv_keeps: "run_inv h \<Longrightarrow> keeps_hold h r \<Longrightarrow> run_inv (fst r)"
  by (simp add: run_inv_def keeps_hold_def)

lemma alive_keeps:
  "(\<And>s. f s = session_step (E, e) s) \<Longrightarrow> e \<noteq> SeDispose \<Longrightarrow> e \<noteq> SeDisposeSubprocess \<Longrightarrow> adds_waiter e = {} \<Longrightarrow> keeps_hold h (alive_call i f h)"
  by (rule keeps_calls) (use alive_call_keeps in blast)

lemma quiet_keeps:
  "(\<And>s. f s = session_step (E, e) s) \<Longrightarrow> e \<noteq> SeDispose \<Longrightarrow> e \<noteq> SeDisposeSubprocess \<Longrightarrow> adds_waiter e = {} \<Longrightarrow> keeps_hold h (quiet_call b i f h)"
  by (rule keeps_calls) (use quiet_call_keeps in blast)

lemma host_step_inv:
  assumes "run_inv h"
  shows "run_inv (fst (host_step x h))"
proof (cases "(x, h)" rule: host_step.cases)
  case (1 E i opts h')
  then show ?thesis using run_inv_keeps [OF assms keeps_create] by simp
next
  case (2 E i data h')
  then show ?thesis using run_inv_keeps [OF assms alive_keeps [where e = "SeWrite data"]] by simp
next
  case (3 E i c r h')
  then show ?thesis using run_inv_keeps [OF assms alive_keeps [where e = "SeResize c r"]] by simp
next
  case (4 E i h')
  then show ?thesis using run_inv_keeps [OF assms quiet_keeps [where e = SePause]] by simp
next
  case (5 E i h')
  then show ?thesis using run_inv_keeps [OF assms quiet_keeps [where e = SeResume]] by simp
next
  case (6 E i immediate h')
  then show ?thesis using run_inv_keeps [OF assms keeps_kill] by simp
next
  case (7 E i sig h')
  then show ?thesis using run_inv_keeps [OF assms alive_keeps [where e = "SeSignal sig"]] by simp
next
  case (8 E i token h')
  then show ?thesis using run_inv_keeps [OF assms quiet_keeps [where e = "SeDetach token"]] by simp
next
  case (9 E i h')
  then show ?thesis using run_inv_keeps [OF assms alive_keeps [where e = SeClear and E = E]] by simp
next
  case (10 E i s t h')
  then show ?thesis using run_inv_keeps [OF assms quiet_keeps [where e = "SeTake s t"]] by simp
next
  case (11 E i h')
  then show ?thesis using run_inv_keeps [OF assms keeps_sweep] by simp
next
  case (12 E i h')
  then show ?thesis using run_inv_keeps [OF assms keeps_operation_done] by simp
next
  case (13 E h')
  then show ?thesis using dispose_inv [OF assms] by simp
next
  case (14 E h')
  then show ?thesis using settles_inv [OF assms] by simp
next
  case (15 E n e h')
  have "keeps_hold h (object_call n (session_step (E, e)) h)" if "n < length (th_objects h)" "own_event e"
    using that(2) by (intro keeps_call [where e = e and E = E] that(1)) (cases e; simp)+
  then show ?thesis using 15 run_inv_keeps [OF assms] assms by auto
qed

lemma host_run_inv: "run_inv h \<Longrightarrow> run_inv (fst (host_run es h))"
  by (induction es arbitrary: h) (auto simp: host_step_inv)

text \<open>
  C7: The host never loses a process.  Over any interleaving of creations, attachments, kills, shutdowns, timers and
  exits, a process that was spawned and is not known to have exited is the one its session identifier names, so
  that no identifier ever has two of them and each can still be signalled and waited for.
\<close>

theorem no_process_is_lost:
  "let h = fst (host_run es (new_host m checkpoint));
       running = filter (\<lambda>n. \<not> ss_physicallyExited (th_objects h ! n)) [0..<length (th_objects h)]
   in set (map (\<lambda>n. (th_ids h ! n, n)) running) \<subseteq> set (th_sessions h) \<and> distinct (map (\<lambda>n. th_ids h ! n) running)"
proof -
  let ?h = "fst (host_run es (new_host m checkpoint))"
  have "run_inv (new_host m checkpoint)"
    by (simp add: run_inv_def host_inv_def host_ok_def dispose_ok_def covered_def new_host_def)
  then have ok: "host_ok ?h" using host_run_inv [of "new_host m checkpoint" es] by (simp add: run_inv_def host_inv_def)
  have named: "map_get (th_sessions ?h) (th_ids ?h ! n) = Some n" if "n < length (th_objects ?h)" "\<not> ss_physicallyExited (th_objects ?h ! n)" for n
    using ok that unfolding host_ok_def object_of_def by blast
  then have "inj_on (\<lambda>n. th_ids ?h ! n) {n. n < length (th_objects ?h) \<and> \<not> ss_physicallyExited (th_objects ?h ! n)}"
    by (intro inj_onI) (metis (mono_tags, lifting) mem_Collect_eq option.inject)
  moreover have "set (filter (\<lambda>n. \<not> ss_physicallyExited (th_objects ?h ! n)) [0..<length (th_objects ?h)]) =
      {n. n < length (th_objects ?h) \<and> \<not> ss_physicallyExited (th_objects ?h ! n)}" by auto
  ultimately have "distinct (map (\<lambda>n. th_ids ?h ! n) (filter (\<lambda>n. \<not> ss_physicallyExited (th_objects ?h ! n)) [0..<length (th_objects ?h)]))"
    by (simp add: distinct_map)
  then show ?thesis using named by (auto simp: Let_def dest: map_get_in)
qed

end
