(* ===== verification/Process_Sweep.thy ===== *)
theory Process_Sweep
  imports Prelude_Js
begin

text \<open>
  The descendants of a terminal's process and their termination, \<open>src/main/pty-descendant-termination.ts\<close>: a walk
  over a process table that may hold duplicate and cyclic rows, and the choice, a grace period later, of the
  survivors that are certainly the same processes.  Reading the table and \<open>Date.parse\<close> are outside.
\<close>

subsection \<open>Process tables\<close>

record process_row =
  pr_pid :: nat
  pr_ppid :: nat
  pr_pgid :: nat
  pr_startedAt :: jsstr

record descendant_snapshot =
  ds_rootPgid :: "nat option"
  ds_descendants :: "process_row list"
  ds_capturedAtMs :: int

subsection \<open>The walk\<close>

text \<open>The rows by parent, and the row of the root, the last one if there are several.\<close>

fun index_rows :: "nat \<Rightarrow> process_row list \<Rightarrow> (nat \<times> process_row list) list \<times> process_row option \<Rightarrow>
    (nat \<times> process_row list) list \<times> process_row option" where
  "index_rows rootPid [] acc = acc"
| "index_rows rootPid (row # rows) (childrenByPpid, rootRow) =
     (if pr_pid row = rootPid then index_rows rootPid rows (childrenByPpid, Some row)
      else case map_get childrenByPpid (pr_ppid row) of
        Some siblings \<Rightarrow> index_rows rootPid rows (map_set (pr_ppid row) (siblings @ [row]) childrenByPpid, rootRow)
      | None \<Rightarrow> index_rows rootPid rows (map_set (pr_ppid row) [row] childrenByPpid, rootRow))"

definition children_of :: "(nat \<times> process_row list) list \<Rightarrow> nat \<Rightarrow> process_row list" where
  "children_of childrenByPpid pid = (case map_get childrenByPpid pid of None \<Rightarrow> [] | Some rows \<Rightarrow> rows)"

text \<open>One parent's children: those not seen yet are noted and queued.\<close>

fun visit_children :: "process_row list \<Rightarrow> nat list \<times> nat list \<times> process_row list \<Rightarrow> nat list \<times> nat list \<times> process_row list" where
  "visit_children [] acc = acc"
| "visit_children (child # rest) (queue, visited, descendants) =
     (if pr_pid child \<in> set visited then visit_children rest (queue, visited, descendants)
      else visit_children rest (queue @ [pr_pid child], pr_pid child # visited, descendants @ [child]))"

definition unseen :: "(nat \<times> process_row list) list \<Rightarrow> nat list \<Rightarrow> nat set" where
  "unseen m visited = pr_pid ` set (concat (map snd m)) - set visited"

lemma visit_children_grows:
  assumes "visit_children rows (queue, visited, ds) = (queue', visited', ds')"
  shows "\<exists>new. queue' = queue @ map pr_pid new \<and> set visited' = set visited \<union> pr_pid ` set new \<and> ds' = ds @ new \<and>
    set new \<subseteq> set rows \<and> distinct (map pr_pid new) \<and> pr_pid ` set new \<inter> set visited = {} \<and> pr_pid ` set rows \<subseteq> set visited'"
  using assms
proof (induction rows arbitrary: queue visited ds)
  case (Cons child rest)
  show ?case
  proof (cases "pr_pid child \<in> set visited")
    case True
    with Cons.prems have "visit_children rest (queue, visited, ds) = (queue', visited', ds')" by simp
    from Cons.IH [OF this] True show ?thesis by auto
  next
    case False
    with Cons.prems have "visit_children rest (queue @ [pr_pid child], pr_pid child # visited, ds @ [child]) = (queue', visited', ds')" by simp
    from Cons.IH [OF this] obtain new where new: "queue' = (queue @ [pr_pid child]) @ map pr_pid new"
      "set visited' = set (pr_pid child # visited) \<union> pr_pid ` set new" "ds' = (ds @ [child]) @ new" "set new \<subseteq> set rest"
      "distinct (map pr_pid new)" "pr_pid ` set new \<inter> set (pr_pid child # visited) = {}" "pr_pid ` set rest \<subseteq> set visited'" by blast
    with False show ?thesis by (intro exI [of _ "child # new"]) auto
  qed
qed simp

lemma children_in_map: "set (children_of m pid) \<subseteq> set (concat (map snd m))"
proof (cases "map_get m pid")
  case (Some rows)
  from map_get_in [OF this] show ?thesis by (auto simp: children_of_def Some)
qed (simp add: children_of_def)

function walk :: "(nat \<times> process_row list) list \<Rightarrow> nat \<Rightarrow> nat list \<times> nat list \<times> process_row list \<Rightarrow> process_row list" where
  "walk m nextIndex (queue, visited, descendants) =
     (if nextIndex < length queue
      then walk m (nextIndex + 1) (visit_children (children_of m (queue ! nextIndex)) (queue, visited, descendants))
      else descendants)"
  by pat_completeness auto

termination
proof (relation "measure (\<lambda>(m, i, queue, visited, ds). card (unseen m visited) + (length queue - i))")
  fix m :: "(nat \<times> process_row list) list" and i queue visited ds
  assume less: "i < length (queue :: nat list)"
  obtain queue' visited' ds' where r: "visit_children (children_of m (queue ! i)) (queue, visited, ds) = (queue', visited', ds' :: process_row list)"
    by (cases "visit_children (children_of m (queue ! i)) (queue, visited, ds)") auto
  from visit_children_grows [OF r] obtain new where new: "queue' = queue @ map pr_pid new"
    "set visited' = set visited \<union> pr_pid ` set new" "ds' = ds @ new" "set new \<subseteq> set (children_of m (queue ! i))"
    "distinct (map pr_pid new)" "pr_pid ` set new \<inter> set visited = {}" by (elim exE conjE)
  have "set new \<subseteq> set (concat (map snd m))" by (rule subset_trans [OF new(4) children_in_map])
  then have sub: "pr_pid ` set new \<subseteq> unseen m visited"
    unfolding unseen_def using new(6) image_mono [of "set new" "set (concat (map snd m))" pr_pid] by blast
  have "unseen m visited' = unseen m visited - pr_pid ` set new" using new(2) by (auto simp: unseen_def)
  then have "card (unseen m visited') = card (unseen m visited) - card (pr_pid ` set new)"
    using card_Diff_subset [OF _ sub] by simp
  moreover have "card (pr_pid ` set new) \<le> card (unseen m visited)" by (rule card_mono [OF _ sub]) (simp add: unseen_def)
  moreover have "card (pr_pid ` set new) = length new" using distinct_card [OF new(5)] by simp
  ultimately have "card (unseen m visited') + length new = card (unseen m visited)" by simp
  then show "((m, i + 1, visit_children (children_of m (queue ! i)) (queue, visited, ds)), m, i, queue, visited, ds)
      \<in> measure (\<lambda>(m, i, queue, visited, ds). card (unseen m visited) + (length queue - i))"
    using less new(1) by (simp add: r)
qed simp

declare walk.simps [simp del]

definition collectDescendantRows :: "nat \<Rightarrow> process_row list \<Rightarrow> int \<Rightarrow> descendant_snapshot" where
  "collectDescendantRows rootPid table capturedAtMs =
     (case index_rows rootPid table ([], None) of
        (childrenByPpid, rootRow) \<Rightarrow>
          \<lparr>ds_rootPgid = map_option pr_pgid rootRow, ds_descendants = walk childrenByPpid 0 ([rootPid], [rootPid], []),
           ds_capturedAtMs = capturedAtMs\<rparr>)"

subsection \<open>Termination in two rounds\<close>

text \<open>
  The snapshot is taken first, from the table read before the deadline, if one was; its members get SIGTERM, then the
  root is killed by the caller's means.  \<open>owns\<close> is the answer of \<open>ownsRoot\<close> after the read.
\<close>

datatype sweep_signal = Sigterm nat | Sigkill nat | Kill_root

definition captureDescendantSnapshot ::
    "bool \<Rightarrow> int \<Rightarrow> (process_row list \<times> int) option \<Rightarrow> descendant_snapshot option" where
  "captureDescendantSnapshot windows rootPid capture =
     (if windows \<or> rootPid \<le> 0 then None
      else case capture of None \<Rightarrow> None | Some (rows, capturedAtMs) \<Rightarrow> Some (collectDescendantRows (nat rootPid) rows capturedAtMs))"

definition terminateDescendantSnapshot_now :: "descendant_snapshot \<Rightarrow> sweep_signal list" where
  "terminateDescendantSnapshot_now snapshot = map (\<lambda>row. Sigterm (pr_pid row)) (ds_descendants snapshot)"

definition killWithDescendantSweep :: "bool \<Rightarrow> int \<Rightarrow> (process_row list \<times> int) option \<Rightarrow> bool \<Rightarrow> sweep_signal list" where
  "killWithDescendantSweep windows rootPid capture owns =
     (case captureDescendantSnapshot windows rootPid capture of
        None \<Rightarrow> []
      | Some snapshot \<Rightarrow> if owns then terminateDescendantSnapshot_now snapshot else []) @ [Kill_root]"

text \<open>\<open>parse\<close> is \<open>Date.parse\<close>, with \<open>None\<close> for a result that is not finite.\<close>

definition hasUnambiguousStartIdentity :: "(jsstr \<Rightarrow> int option) \<Rightarrow> process_row \<Rightarrow> int \<Rightarrow> bool" where
  "hasUnambiguousStartIdentity parse row capturedAtMs =
     (case parse (pr_startedAt row) of None \<Rightarrow> False | Some startedAtMs \<Rightarrow> startedAtMs < capturedAtMs div 1000 * 1000)"

fun index_targets :: "nat list \<Rightarrow> process_row list \<Rightarrow> (nat \<times> process_row option) list \<Rightarrow> (nat \<times> process_row option) list" where
  "index_targets expectedPids [] liveTargets = liveTargets"
| "index_targets expectedPids (live # rows) liveTargets =
     (if pr_pid live \<in> set expectedPids
      then index_targets expectedPids rows
             (map_set (pr_pid live) (if map_get liveTargets (pr_pid live) = None then Some live else None) liveTargets)
      else index_targets expectedPids rows liveTargets)"

text \<open>The round after the grace period, on the second table if it came before its deadline.\<close>

definition same_process :: "(jsstr \<Rightarrow> int option) \<Rightarrow> int \<Rightarrow> (nat \<times> process_row option) list \<Rightarrow> process_row \<Rightarrow> bool" where
  "same_process parse capturedAtMs liveTargets row =
     (hasUnambiguousStartIdentity parse row capturedAtMs \<and>
      (case map_get liveTargets (pr_pid row) of
         Some (Some live) \<Rightarrow> pr_startedAt live = pr_startedAt row \<and> pr_pgid live = pr_pgid row
       | _ \<Rightarrow> False))"

definition terminateDescendantSnapshot_later ::
    "(jsstr \<Rightarrow> int option) \<Rightarrow> descendant_snapshot \<Rightarrow> process_row list option \<Rightarrow> sweep_signal list" where
  "terminateDescendantSnapshot_later parse snapshot capture =
     (if ds_descendants snapshot = [] then [] else
      case capture of
        None \<Rightarrow> []
      | Some rows \<Rightarrow>
          let liveTargets = index_targets (map pr_pid (ds_descendants snapshot)) rows [] in
          map (\<lambda>row. Sigkill (pr_pid row))
            (filter (same_process parse (ds_capturedAtMs snapshot) liveTargets) (ds_descendants snapshot)))"

subsection \<open>The walk finds what is reachable\<close>

lemma index_children:
  "children_of (fst (index_rows root rows (m, r))) p = children_of m p @ filter (\<lambda>row. pr_pid row \<noteq> root \<and> pr_ppid row = p) rows"
proof (induction rows arbitrary: m r p)
  case (Cons row rows)
  have set: "children_of (map_set q v m) p' = (if q = p' then v else children_of m p')" for q v p' by (simp add: children_of_def)
  show ?case
  proof (cases "map_get m (pr_ppid row)")
    case None
    then have "children_of m (pr_ppid row) = []" by (simp add: children_of_def)
    with None show ?thesis by (auto simp: Cons set)
  next
    case (Some siblings)
    then have "children_of m (pr_ppid row) = siblings" by (simp add: children_of_def)
    with Some show ?thesis by (auto simp: Cons set)
  qed
qed simp

definition parent_edges :: "nat \<Rightarrow> process_row list \<Rightarrow> (nat \<times> nat) set" where
  "parent_edges root table = {(pr_ppid row, pr_pid row) | row. row \<in> set table \<and> pr_pid row \<noteq> root}"

definition walk_ok :: "nat \<Rightarrow> process_row list \<Rightarrow> nat \<Rightarrow> nat list \<Rightarrow> nat list \<Rightarrow> process_row list \<Rightarrow> bool" where
  "walk_ok root table i queue visited ds \<longleftrightarrow> queue = root # map pr_pid ds \<and> set visited = set queue \<and> distinct queue \<and>
     set ds \<subseteq> set table \<and> (\<forall>p\<in>set queue. (root, p) \<in> (parent_edges root table)\<^sup>*) \<and> i \<le> length queue \<and>
     (\<forall>p\<in>set (take i queue). \<forall>q. (p, q) \<in> parent_edges root table \<longrightarrow> q \<in> set queue)"

lemma walk_finds:
  assumes "walk_ok root table i queue visited ds" and "\<And>p. children_of m p = filter (\<lambda>row. pr_pid row \<noteq> root \<and> pr_ppid row = p) table"
  shows "\<exists>ds' visited'. walk m i (queue, visited, ds) = ds' \<and>
    walk_ok root table (length (root # map pr_pid ds')) (root # map pr_pid ds') visited' ds'"
  using assms
proof (induction m i "(queue, visited, ds)" arbitrary: queue visited ds rule: walk.induct)
  case (1 m i queue visited ds)
  show ?case
  proof (cases "i < length queue")
    case False
    then have "i = length queue" using 1(2) by (simp add: walk_ok_def)
    moreover have "queue = root # map pr_pid ds" using 1(2) by (simp add: walk_ok_def)
    moreover have "walk m i (queue, visited, ds) = ds" using False by (subst walk.simps) simp
    ultimately show ?thesis using 1(2) by auto
  next
    case True
    let ?kids = "children_of m (queue ! i)"
    obtain queue' visited' ds' where r: "visit_children ?kids (queue, visited, ds) = (queue', visited', ds')"
      by (cases "visit_children ?kids (queue, visited, ds)") auto
    from visit_children_grows [OF r] obtain new where new: "queue' = queue @ map pr_pid new"
      "set visited' = set visited \<union> pr_pid ` set new" "ds' = ds @ new" "set new \<subseteq> set ?kids" "distinct (map pr_pid new)"
      "pr_pid ` set new \<inter> set visited = {}" "pr_pid ` set ?kids \<subseteq> set visited'" by blast
    have ok: "queue = root # map pr_pid ds" "set visited = set queue" "distinct queue" "set ds \<subseteq> set table"
      "\<forall>p\<in>set queue. (root, p) \<in> (parent_edges root table)\<^sup>*"
      "\<forall>p\<in>set (take i queue). \<forall>q. (p, q) \<in> parent_edges root table \<longrightarrow> q \<in> set queue"
      using 1(2) unfolding walk_ok_def by - (elim conjE, assumption)+
    have kids: "set ?kids = {row \<in> set table. pr_pid row \<noteq> root \<and> pr_ppid row = queue ! i}" using 1(3) by auto
    have edge: "(queue ! i, pr_pid row) \<in> parent_edges root table" if "row \<in> set new" for row
      using subsetD [OF new(4) that] unfolding kids parent_edges_def by (intro CollectI exI [of _ row]) simp
    have "(root, pr_pid row) \<in> (parent_edges root table)\<^sup>*" if "row \<in> set new" for row
      using ok(5) True edge [OF that] by (meson nth_mem rtrancl.rtrancl_into_rtrancl)
    then have reach: "\<forall>p\<in>set queue'. (root, p) \<in> (parent_edges root table)\<^sup>*" using ok(5) new(1) by auto
    have "q \<in> set queue'" if "(queue ! i, q) \<in> parent_edges root table" for q
    proof -
      from that obtain row where "row \<in> set ?kids" "q = pr_pid row" using kids by (auto simp: parent_edges_def)
      then show ?thesis using new(1,2,7) ok(2) by auto
    qed
    then have closed: "\<forall>p\<in>set (take (i + 1) queue'). \<forall>q. (p, q) \<in> parent_edges root table \<longrightarrow> q \<in> set queue'"
    proof -
      have "take (i + 1) queue' = take i queue @ [queue ! i]" using True new(1) by (simp add: take_Suc_conv_app_nth)
      moreover have "set queue \<subseteq> set queue'" using new(1) by auto
      ultimately show ?thesis using ok(6) \<open>\<And>q. (queue ! i, q) \<in> parent_edges root table \<Longrightarrow> q \<in> set queue'\<close> by auto
    qed
    have "walk_ok root table (i + 1) queue' visited' ds'"
      unfolding walk_ok_def using ok new reach closed True kids by auto
    from 1(1) [OF True r this 1(3)] show ?thesis using True r by (subst walk.simps) simp
  qed
qed

text \<open>
  C39: The sweep finds exactly the descendants.  The walk ends on every table, also one with duplicate or cyclic
  rows; the processes it lists are those reachable from the root over parent links, each once, never the root, and
  each by a row of the table.
\<close>

theorem sweep_finds_descendants:
  "pr_pid ` set (ds_descendants (collectDescendantRows root table t)) = {p. (root, p) \<in> (parent_edges root table)\<^sup>+} \<and>
   distinct (root # map pr_pid (ds_descendants (collectDescendantRows root table t))) \<and>
   set (ds_descendants (collectDescendantRows root table t)) \<subseteq> set table"
proof -
  let ?m = "fst (index_rows root table ([], None))" and ?E = "parent_edges root table"
  have kids: "children_of ?m p = filter (\<lambda>row. pr_pid row \<noteq> root \<and> pr_ppid row = p) table" for p
    by (simp add: index_children) (simp add: children_of_def)
  have "walk_ok root table 0 [root] [root] []" by (simp add: walk_ok_def)
  from walk_finds [OF this kids] obtain ds visited where ds: "walk ?m 0 ([root], [root], []) = ds"
    "walk_ok root table (length (root # map pr_pid ds)) (root # map pr_pid ds) visited ds" by blast
  have found: "ds_descendants (collectDescendantRows root table t) = ds"
    by (simp add: collectDescendantRows_def case_prod_unfold ds(1))
  have ok: "distinct (root # map pr_pid ds)" "set ds \<subseteq> set table" "\<forall>p\<in>set (root # map pr_pid ds). (root, p) \<in> ?E\<^sup>*"
    "\<forall>p\<in>set (root # map pr_pid ds). \<forall>q. (p, q) \<in> ?E \<longrightarrow> q \<in> set (root # map pr_pid ds)" using ds(2) by (simp_all add: walk_ok_def)
  have not_root: "(p, root) \<notin> ?E" for p by (auto simp: parent_edges_def)
  have "p \<in> set (root # map pr_pid ds)" if "(root, p) \<in> ?E\<^sup>*" for p
    using that by (induction rule: rtrancl_induct) (use ok(4) in auto)
  moreover have "(root, p) \<in> ?E\<^sup>* \<Longrightarrow> p \<noteq> root \<Longrightarrow> (root, p) \<in> ?E\<^sup>+" for p by (auto simp: rtrancl_eq_or_trancl)
  moreover have "(root, root) \<notin> ?E\<^sup>+" using not_root by (metis tranclD2)
  moreover have "(root, p) \<in> ?E\<^sup>*" if "(root, p) \<in> ?E\<^sup>+" for p using that by (rule trancl_into_rtrancl)
  ultimately have exact: "pr_pid ` set ds = {p. (root, p) \<in> ?E\<^sup>+}"
  proof (intro set_eqI iffI)
    fix p
    assume "p \<in> pr_pid ` set ds"
    then show "p \<in> {p. (root, p) \<in> ?E\<^sup>+}"
      using ok(1,3) \<open>\<And>p. (root, p) \<in> ?E\<^sup>* \<Longrightarrow> p \<noteq> root \<Longrightarrow> (root, p) \<in> ?E\<^sup>+\<close> [of p] by auto
  next
    fix p
    assume "p \<in> {p. (root, p) \<in> ?E\<^sup>+}"
    then show "p \<in> pr_pid ` set ds"
      using \<open>\<And>p. (root, p) \<in> ?E\<^sup>+ \<Longrightarrow> (root, p) \<in> ?E\<^sup>*\<close> [of p] \<open>\<And>p. (root, p) \<in> ?E\<^sup>* \<Longrightarrow> p \<in> set (root # map pr_pid ds)\<close> [of p]
        \<open>(root, root) \<notin> ?E\<^sup>+\<close> by auto
  qed
  then show ?thesis using ok(1,2) by (simp add: found)
qed

subsection \<open>Only certain survivors are killed\<close>

lemma index_targets_get:
  "map_get (index_targets expected rows m) p =
     (let matching = filter (\<lambda>row. pr_pid row = p) rows in
      if p \<notin> set expected \<or> matching = [] then map_get m p
      else if map_get m p = None \<and> tl matching = [] then Some (Some (hd matching)) else Some None)"
  by (induction rows arbitrary: m) (auto simp: Let_def neq_Nil_conv)

lemma same_process_iff:
  assumes "row \<in> set (ds_descendants snapshot)"
  shows "same_process parse t (index_targets (map pr_pid (ds_descendants snapshot)) rows []) row \<longleftrightarrow>
    (\<exists>live started. filter (\<lambda>r. pr_pid r = pr_pid row) rows = [live] \<and> pr_startedAt live = pr_startedAt row \<and>
       pr_pgid live = pr_pgid row \<and> parse (pr_startedAt row) = Some started \<and> started < t div 1000 * 1000)"
proof -
  let ?matching = "filter (\<lambda>r. pr_pid r = pr_pid row) rows"
  have "pr_pid row \<in> set (map pr_pid (ds_descendants snapshot))" using assms by simp
  then show ?thesis
    unfolding same_process_def index_targets_get Let_def hasUnambiguousStartIdentity_def
    by (cases ?matching; cases "tl ?matching") (auto split: option.splits)
qed

text \<open>
  C40: A reused process id is never killed.  The signals sent after the grace period are SIGKILLs of exactly those
  descendants found before whose id has one row only in the later table, with the same start and the same group,
  and which were started before the second in which the first table was read; so nothing that could be another
  process of the same number is signalled, and without a second table in time nothing is.
\<close>

theorem only_the_same_process_is_killed:
  "set (terminateDescendantSnapshot_later parse (collectDescendantRows root table t) capture) =
     {Sigkill (pr_pid row) | row rows live started.
        capture = Some rows \<and> row \<in> set (ds_descendants (collectDescendantRows root table t)) \<and>
        filter (\<lambda>r. pr_pid r = pr_pid row) rows = [live] \<and> pr_startedAt live = pr_startedAt row \<and>
        pr_pgid live = pr_pgid row \<and> parse (pr_startedAt row) = Some started \<and> started < t div 1000 * 1000}"
proof (cases capture)
  case None
  then show ?thesis by (simp add: terminateDescendantSnapshot_later_def)
next
  case (Some rows)
  let ?snapshot = "collectDescendantRows root table t"
  have captured: "ds_capturedAtMs ?snapshot = t" by (simp add: collectDescendantRows_def case_prod_unfold)
  have "set (terminateDescendantSnapshot_later parse ?snapshot (Some rows)) =
      {Sigkill (pr_pid row) | row. row \<in> set (ds_descendants ?snapshot) \<and>
         same_process parse t (index_targets (map pr_pid (ds_descendants ?snapshot)) rows []) row}"
    unfolding terminateDescendantSnapshot_later_def Let_def captured by auto
  also have "\<dots> = {Sigkill (pr_pid row) | row live started. row \<in> set (ds_descendants ?snapshot) \<and>
        filter (\<lambda>r. pr_pid r = pr_pid row) rows = [live] \<and> pr_startedAt live = pr_startedAt row \<and>
        pr_pgid live = pr_pgid row \<and> parse (pr_startedAt row) = Some started \<and> started < t div 1000 * 1000}"
    using same_process_iff [of _ ?snapshot parse t rows] by blast
  finally show ?thesis unfolding Some by blast
qed

end
