(* ===== verification/Json_Rpc.thy ===== *)
theory Json_Rpc
  imports Js_Value Contracts
begin

text \<open>
  The JSON-RPC messages both ends of the SSH relay exchange, \<open>src/relay/protocol.ts\<close> and
  \<open>src/main/ssh/relay-protocol.ts\<close>, after parsing: which fields a message has decides what it is.  How a message
  becomes bytes and comes back is \<open>Relay_Message\<close>; here a frame is its two numbers and its message.
\<close>

subsection \<open>Messages\<close>

text \<open>The identifier of a request: both ends count up from one; anything else is never one of theirs.\<close>

datatype rpc_id = IdNum nat | IdOther js_value

text \<open>A field is \<open>None\<close> when the message does not have it.\<close>

record rpc_message =
  rm_id :: "rpc_id option"
  rm_method :: "jsstr option"
  rm_params :: "js_value option"
  rm_result :: "js_value option"
  rm_error :: "js_value option"

definition rpc_request :: "nat \<Rightarrow> jsstr \<Rightarrow> js_value option \<Rightarrow> rpc_message" where
  "rpc_request i method params = \<lparr>rm_id = Some (IdNum i), rm_method = Some method, rm_params = params, rm_result = None, rm_error = None\<rparr>"

definition rpc_notification :: "jsstr \<Rightarrow> js_value option \<Rightarrow> rpc_message" where
  "rpc_notification method params = \<lparr>rm_id = None, rm_method = Some method, rm_params = params, rm_result = None, rm_error = None\<rparr>"

definition rpc_result :: "rpc_id \<Rightarrow> js_value \<Rightarrow> rpc_message" where
  "rpc_result i v = \<lparr>rm_id = Some i, rm_method = None, rm_params = None, rm_result = Some v, rm_error = None\<rparr>"

definition rpc_failure :: "rpc_id \<Rightarrow> js_value \<Rightarrow> rpc_message" where
  "rpc_failure i e = \<lparr>rm_id = Some i, rm_method = None, rm_params = None, rm_result = None, rm_error = Some e\<rparr>"

lemmas rpc_message_defs = rpc_request_def rpc_notification_def rpc_result_def rpc_failure_def

definition js_null_if_undefined :: "js_value \<Rightarrow> js_value" where
  "js_null_if_undefined v = (if v = VUndefined then VNull else v)"

definition js_truthy :: "js_value \<Rightarrow> bool" where
  "js_truthy v = (case v of VUndefined \<Rightarrow> False | VNull \<Rightarrow> False | VBool b \<Rightarrow> b | VNum n \<Rightarrow> n \<noteq> 0 | VStr s \<Rightarrow> s \<noteq> [] | _ \<Rightarrow> True)"

definition rpc_error :: "int \<Rightarrow> jsstr \<Rightarrow> js_value" where
  "rpc_error code message = VObj [(js ''code'', VNum (of_int code)), (js ''message'', VStr message)]"

definition rpc_cancel_params :: "nat \<Rightarrow> js_value" where
  "rpc_cancel_params i = VObj [(js ''id'', VNum (of_nat i))]"

text \<open>
  \<open>Number((params ?? {}).id)\<close> as an identifier: null and false count as zero, true as one.  Strings are not
  converted here; no client sends them.
\<close>

definition rpc_cancel_id :: "js_value option \<Rightarrow> nat option" where
  "rpc_cancel_id params =
     (case params of None \<Rightarrow> None | Some p \<Rightarrow>
        (case get ''id'' p of
           VNum r \<Rightarrow> if r \<ge> 0 \<and> of_int \<lfloor>r\<rfloor> = r then Some (nat \<lfloor>r\<rfloor>) else None
         | VNull \<Rightarrow> Some 0
         | VBool b \<Rightarrow> Some (if b then 1 else 0)
         | _ \<Rightarrow> None))"

lemma rpc_cancel_roundtrip [simp]: "rpc_cancel_id (Some (rpc_cancel_params i)) = Some i"
  by (simp add: rpc_cancel_id_def rpc_cancel_params_def get_def)

subsection \<open>Frames\<close>

text \<open>
  What the decoder reports: a frame with its number, the number it acknowledges and, for a regular one, its message,
  if it parses, or a frame that was too large and was skipped.
\<close>

datatype frame_body = KeepAliveBody | MessageBody rpc_message | BrokenBody | OtherBody

datatype incoming = InFrame nat nat frame_body | InTooLarge

text \<open>The sinks a frame can be handed to: it is taken, taken with the sink full, or the write throws.\<close>

datatype write_outcome = WriteTaken | WriteSaturated | WriteThrows

subsection \<open>The ledger of an end's own requests\<close>

text \<open>
  Between two moments of an end that numbers its requests, with \<open>n\<close> and \<open>n'\<close> the next number and \<open>W\<close> and \<open>W'\<close> the
  requests whose caller waits: those in \<open>done\<close> ended, each once; none ended that did not wait, and everybody who
  waited or came ended or waits still.
\<close>

definition ledger :: "nat \<Rightarrow> nat set \<Rightarrow> nat \<Rightarrow> nat set \<Rightarrow> nat list \<Rightarrow> bool" where
  "ledger n W n' W' done \<longleftrightarrow> n \<le> n' \<and> distinct done \<and> set done \<union> W' = W \<union> {n..<n'} \<and> set done \<inter> W' = {}"

lemma ledger_same [simp]: "ledger n W n W []"
  by (simp add: ledger_def)

lemma ledger_trans:
  assumes a: "ledger n W n1 W1 d1" and b: "ledger n1 W1 n2 W2 d2" and below: "W \<subseteq> {..<n}"
  shows "ledger n W n2 W2 (d1 @ d2)"
proof -
  have le: "n \<le> n1" "n1 \<le> n2" using a b by (simp_all add: ledger_def)
  then have new: "{n..<n2} = {n..<n1} \<union> {n1..<n2}" by auto
  have fresh: "{n1..<n2} \<inter> (W \<union> {n..<n1}) = {}" using below le by fastforce
  have 1: "set d1 \<union> W1 = W \<union> {n..<n1}" "set d1 \<inter> W1 = {}" "distinct d1"
    using a unfolding ledger_def by blast+
  have 2: "set d2 \<union> W2 = W1 \<union> {n1..<n2}" "set d2 \<inter> W2 = {}" "distinct d2"
    using b unfolding ledger_def by blast+
  have "set d1 \<inter> (set d2 \<union> W2) = {}" using 1(1,2) 2(1) fresh by blast
  moreover have "(set d1 \<union> set d2) \<union> W2 = W \<union> {n..<n2}" using 1(1) 2(1) new by blast
  moreover have "set d1 \<inter> set d2 = {}" and "(set d1 \<union> set d2) \<inter> W2 = {}"
    using \<open>set d1 \<inter> (set d2 \<union> W2) = {}\<close> 2(2) by (auto simp: Int_Un_distrib Int_Un_distrib2)
  ultimately show ?thesis using 1(3) 2(3) le by (simp add: ledger_def)
qed

text \<open>The order does not matter.\<close>

lemma ledger_order: "set d = set d' \<Longrightarrow> distinct d = distinct d' \<Longrightarrow> ledger n W n' W' d = ledger n W n' W' d'"
  by (simp add: ledger_def)

end
