(* ===== verification/Ssh_Mux.thy ===== *)
theory Ssh_Mux
  imports Json_Rpc
begin

text \<open>
  The desktop's end of an SSH relay, \<open>src/main/ssh/ssh-channel-multiplexer.ts\<close>: requests, notifications and
  keep-alives over one byte channel, the acknowledgements that show whether the channel lives, and its end.  The
  channel, the callers and the subscribers are outside: what they are told is the output of a step.  The decoder is
  \<open>Relay_Frame\<close>; a piece of data is here the frames it completes.  Subscribers do not call back before they return.
\<close>

subsection \<open>Data\<close>

definition KEEPALIVE_SEND_MS :: int where "KEEPALIVE_SEND_MS = 5000"
definition TIMEOUT_MS :: int where "TIMEOUT_MS = 20000"
definition WAKE_GAP_MS :: int where "WAKE_GAP_MS = KEEPALIVE_SEND_MS * 3"

datatype close_reason = Shutdown | ConnectionLost

text \<open>How a request ends for its caller.\<close>

datatype mux_settle =
    SettledOk js_value
  | SettledError js_value
  | SettledTimeout
  | SettledAborted
  | SettledClosed close_reason
  | SettledNotSent

text \<open>\<open>mp_settled\<close> is set when the caller was told that the request could not be encoded; its timer still runs.\<close>

record mux_pending =
  mp_method :: jsstr
  mp_signal :: bool
  mp_settled :: bool

record mux =
  mx_nextRequestId :: nat
  mx_nextOutgoingSeq :: nat
  mx_highestReceivedSeq :: nat
  mx_highestAckedBySelf :: nat
  mx_lastReceivedAt :: int
  mx_pendingRequests :: "(nat \<times> mux_pending) list"
  mx_notificationHandlers :: "nat list"
  mx_requestHandlers :: "(jsstr \<times> nat) list"
  mx_methodNotificationHandlers :: "(jsstr \<times> nat list) list"
  mx_disposeHandlers :: "nat list"
  mx_healthTimer :: bool
  mx_lastTickAt :: int
  mx_disposed :: bool
  mx_unackedTimestamps :: "(nat \<times> int) list"
  mx_livenessProbeWaiters :: "nat list"
  mx_tasks :: "(nat \<times> rpc_id) list"
  mx_nextToken :: nat

datatype mux_out =
    MxWrote int nat nat frame_body
  | MxSettled nat mux_settle
  | MxRefused
  | MxProbe nat bool
  | MxTransportClose
  | MxDisposed nat close_reason
  | MxNotified nat jsstr js_value
  | MxInvoked nat nat js_value
  | MxThrew

type_synonym mux_result = "mux \<times> mux_out list"

text \<open>
  What a step meets outside: the clock, whether the channel's write throws, which messages are over the frame
  limit, and the error object for one that is.
\<close>

record mux_env =
  mv_now :: int
  mv_writeThrows :: bool
  mv_tooLarge :: "rpc_message \<Rightarrow> bool"
  mv_encodeError :: js_value

definition new_mux :: "int \<Rightarrow> mux" where
  "new_mux now =
     \<lparr>mx_nextRequestId = 1, mx_nextOutgoingSeq = 1, mx_highestReceivedSeq = 0, mx_highestAckedBySelf = 0,
      mx_lastReceivedAt = now, mx_pendingRequests = [], mx_notificationHandlers = [], mx_requestHandlers = [],
      mx_methodNotificationHandlers = [], mx_disposeHandlers = [], mx_healthTimer = True, mx_lastTickAt = now,
      mx_disposed = False, mx_unackedTimestamps = [], mx_livenessProbeWaiters = [], mx_tasks = [], mx_nextToken = 0\<rparr>"

subsection \<open>The end\<close>

definition settle_pending :: "mux_settle \<Rightarrow> nat \<times> mux_pending \<Rightarrow> mux_out list" where
  "settle_pending s e = (if mp_settled (snd e) then [] else [MxSettled (fst e) s])"

definition mux_dispose :: "close_reason \<Rightarrow> mux \<Rightarrow> mux_result" where
  "mux_dispose reason st =
     (if mx_disposed st then (st, [])
      else (st\<lparr>mx_disposed := True, mx_healthTimer := False, mx_livenessProbeWaiters := [], mx_pendingRequests := [],
               mx_unackedTimestamps := [], mx_notificationHandlers := [], mx_methodNotificationHandlers := [],
               mx_disposeHandlers := []\<rparr>,
            map (\<lambda>w. MxProbe w False) (mx_livenessProbeWaiters st) @
            concat (map (settle_pending (SettledClosed reason)) (mx_pendingRequests st)) @
            [MxTransportClose] @ map (\<lambda>h. MxDisposed h reason) (mx_disposeHandlers st)))"

definition handleProtocolError :: "mux \<Rightarrow> mux_result" where
  "handleProtocolError st = mux_dispose ConnectionLost st"

subsection \<open>Sending\<close>

text \<open>\<open>None\<close> is a keep-alive.  Encoding fails for a message over the limit and when the counter leaves 32 bits.\<close>

definition frame_encodes :: "mux_env \<Rightarrow> nat \<Rightarrow> nat \<Rightarrow> rpc_message option \<Rightarrow> bool" where
  "frame_encodes E seq ack m \<longleftrightarrow> int seq < 2 ^ 32 \<and> int ack < 2 ^ 32 \<and> (case m of None \<Rightarrow> True | Some msg \<Rightarrow> \<not> mv_tooLarge E msg)"

definition body_of :: "rpc_message option \<Rightarrow> frame_body" where
  "body_of m = (case m of None \<Rightarrow> KeepAliveBody | Some msg \<Rightarrow> MessageBody msg)"

text \<open>The flag says that the call threw, which it does before anything but the counter has changed.\<close>

definition send_frame :: "mux_env \<Rightarrow> rpc_message option \<Rightarrow> mux \<Rightarrow> mux_result \<times> bool" where
  "send_frame E m st =
     (let seq = mx_nextOutgoingSeq st; ack = mx_highestReceivedSeq st; st1 = st\<lparr>mx_nextOutgoingSeq := seq + 1\<rparr>
      in if \<not> frame_encodes E seq ack m then ((st1, []), True)
         else let st2 = st1\<lparr>mx_unackedTimestamps := map_set seq (mv_now E) (mx_unackedTimestamps st1)\<rparr>
              in if mv_writeThrows E then (handleProtocolError st2, False)
                 else ((st2, [MxWrote (mv_now E) seq ack (body_of m)]), False))"

definition sendMessage :: "mux_env \<Rightarrow> rpc_message \<Rightarrow> mux \<Rightarrow> mux_result \<times> bool" where
  "sendMessage E msg st = send_frame E (Some msg) st"

definition sendKeepAlive :: "mux_env \<Rightarrow> mux \<Rightarrow> mux_result \<times> bool" where
  "sendKeepAlive E st = (if mx_disposed st then ((st, []), False) else send_frame E None st)"

definition mux_notify :: "mux_env \<Rightarrow> jsstr \<Rightarrow> js_value option \<Rightarrow> mux \<Rightarrow> mux_result \<times> bool" where
  "mux_notify E method params st =
     (if mx_disposed st then ((st, []), False) else sendMessage E (rpc_notification method params) st)"

text \<open>A call whose exception goes on to the caller.\<close>

definition or_throws :: "mux_result \<times> bool \<Rightarrow> mux_result" where
  "or_throws r = (if snd r then emit_then (fst r) (\<lambda>st. (st, [MxThrew])) else fst r)"

subsection \<open>Requests\<close>

definition set_pending :: "nat \<Rightarrow> mux_pending \<Rightarrow> mux \<Rightarrow> mux" where
  "set_pending i p st = st\<lparr>mx_pendingRequests := map_set i p (mx_pendingRequests st)\<rparr>"

definition drop_pending :: "nat \<Rightarrow> mux \<Rightarrow> mux" where
  "drop_pending i st = st\<lparr>mx_pendingRequests := map_delete i (mx_pendingRequests st)\<rparr>"

definition mux_request :: "mux_env \<Rightarrow> jsstr \<Rightarrow> js_value option \<Rightarrow> bool \<Rightarrow> bool \<Rightarrow> mux \<Rightarrow> mux_result" where
  "mux_request E method params signal aborted st =
     (if mx_disposed st \<or> (signal \<and> aborted) then (st, [MxRefused])
      else
        let i = mx_nextRequestId st; p = \<lparr>mp_method = method, mp_signal = signal, mp_settled = False\<rparr>
        in case sendMessage E (rpc_request i method params) (set_pending i p (st\<lparr>mx_nextRequestId := i + 1\<rparr>)) of
             (r, False) \<Rightarrow> r
           | (r, True) \<Rightarrow> emit_then r (\<lambda>st. (set_pending i (p\<lparr>mp_settled := True\<rparr>) st, [MxSettled i SettledNotSent])))"

definition onAbort :: "mux_env \<Rightarrow> nat \<Rightarrow> mux \<Rightarrow> mux_result" where
  "onAbort E i st =
     (case map_get (mx_pendingRequests st) i of
        None \<Rightarrow> (st, [])
      | Some p \<Rightarrow>
          if \<not> mp_signal p then (st, [])
          else case mux_notify E (js ''rpc.cancel'') (Some (rpc_cancel_params i)) (drop_pending i st) of
            (r, True) \<Rightarrow> emit_then r (\<lambda>st. (st, [MxThrew]))
          | (r, False) \<Rightarrow> emit_then r (\<lambda>st. (st, settle_pending SettledAborted (i, p))))"

text \<open>
  The entry is still listed while the cancellation is sent, so a write that throws then rejects it as lost, and the
  rejection below comes too late to be seen.
\<close>

definition request_times_out :: "mux_env \<Rightarrow> nat \<Rightarrow> mux \<Rightarrow> mux_result" where
  "request_times_out E i st =
     (case map_get (mx_pendingRequests st) i of
        None \<Rightarrow> (st, [])
      | Some p \<Rightarrow>
          case mux_notify E (js ''rpc.cancel'') (Some (rpc_cancel_params i)) st of
            (r, True) \<Rightarrow> emit_then r (\<lambda>st. (st, [MxThrew]))
          | (r, False) \<Rightarrow>
              emit_then r (\<lambda>st'. (drop_pending i st',
                if map_get (mx_pendingRequests st') i = None then [] else settle_pending SettledTimeout (i, p))))"

definition probeLiveness :: "mux_env \<Rightarrow> mux \<Rightarrow> mux_result" where
  "probeLiveness E st =
     (let w = mx_nextToken st; st1 = st\<lparr>mx_nextToken := w + 1\<rparr>
      in if mx_disposed st1 then (st1, [MxProbe w False])
         else or_throws (sendKeepAlive E (st1\<lparr>mx_livenessProbeWaiters := mx_livenessProbeWaiters st1 @ [w]\<rparr>)))"

definition probe_times_out :: "nat \<Rightarrow> mux \<Rightarrow> mux_result" where
  "probe_times_out w st =
     (if w \<in> set (mx_livenessProbeWaiters st)
      then (st\<lparr>mx_livenessProbeWaiters := remove1 w (mx_livenessProbeWaiters st)\<rparr>, [MxProbe w False]) else (st, []))"

subsection \<open>Receiving\<close>

definition handleRequest :: "mux_env \<Rightarrow> rpc_id \<Rightarrow> jsstr \<Rightarrow> js_value option \<Rightarrow> mux \<Rightarrow> mux_result" where
  "handleRequest E i method params st =
     (case map_get (mx_requestHandlers st) method of
        None \<Rightarrow> or_throws (sendMessage E (rpc_failure i (rpc_error (-32601) (js ''Method not found: '' @ method))) st)
      | Some handler \<Rightarrow>
          let t = mx_nextToken st
          in (st\<lparr>mx_nextToken := t + 1, mx_tasks := (t, i) # mx_tasks st\<rparr>,
              [MxInvoked t handler (case params of None \<Rightarrow> VObj [] | Some p \<Rightarrow> p)]))"

text \<open>The handler has returned: \<open>Inr\<close> its result, \<open>Inl\<close> the error object made of what it threw.\<close>

definition handler_settles :: "mux_env \<Rightarrow> nat \<Rightarrow> js_value + js_value \<Rightarrow> mux \<Rightarrow> mux_result" where
  "handler_settles E t outcome st =
     (case map_get (mx_tasks st) t of
        None \<Rightarrow> (st, [])
      | Some i \<Rightarrow>
          let st1 = st\<lparr>mx_tasks := map_delete t (mx_tasks st)\<rparr>
          in case outcome of
               Inl e \<Rightarrow> or_throws (sendMessage E (rpc_failure i e) st1)
             | Inr v \<Rightarrow>
                 (case sendMessage E (rpc_result i (js_null_if_undefined v)) st1 of
                    (r, False) \<Rightarrow> r
                  | (r, True) \<Rightarrow> emit_then r (\<lambda>st. or_throws (sendMessage E (rpc_failure i (mv_encodeError E)) st))))"

definition handleResponse :: "rpc_message \<Rightarrow> mux \<Rightarrow> mux_result" where
  "handleResponse msg st =
     (case rm_id msg of
        Some (IdNum i) \<Rightarrow>
          (case map_get (mx_pendingRequests st) i of
             None \<Rightarrow> (st, [])
           | Some p \<Rightarrow>
               (drop_pending i st,
                case rm_error msg of
                  Some e \<Rightarrow> if js_truthy e then settle_pending (SettledError e) (i, p)
                            else settle_pending (SettledOk (case rm_result msg of None \<Rightarrow> VUndefined | Some v \<Rightarrow> v)) (i, p)
                | None \<Rightarrow> settle_pending (SettledOk (case rm_result msg of None \<Rightarrow> VUndefined | Some v \<Rightarrow> v)) (i, p)))
      | _ \<Rightarrow> (st, []))"

definition handleNotification :: "jsstr \<Rightarrow> js_value option \<Rightarrow> mux \<Rightarrow> mux_result" where
  "handleNotification method params st =
     (let p = (case params of None \<Rightarrow> VObj [] | Some p \<Rightarrow> p)
      in (st, map (\<lambda>h. MxNotified h method p) (mx_notificationHandlers st) @
            (case map_get (mx_methodNotificationHandlers st) method of
               None \<Rightarrow> [] | Some hs \<Rightarrow> map (\<lambda>h. MxNotified h method p) hs)))"

definition handleMessage :: "mux_env \<Rightarrow> rpc_message \<Rightarrow> mux \<Rightarrow> mux_result" where
  "handleMessage E msg st =
     (case (rm_id msg, rm_method msg) of
        (Some i, method) \<Rightarrow>
          if rm_result msg \<noteq> None \<or> rm_error msg \<noteq> None then handleResponse msg st
          else (case method of Some m \<Rightarrow> handleRequest E i m (rm_params msg) st | None \<Rightarrow> (st, []))
      | (None, Some m) \<Rightarrow> handleNotification m (rm_params msg) st
      | (None, None) \<Rightarrow> (st, []))"

definition take_acks :: "nat \<Rightarrow> mux \<Rightarrow> mux" where
  "take_acks ack st =
     (if ack > mx_highestAckedBySelf st
      then st\<lparr>mx_unackedTimestamps := filter (\<lambda>(s, _). \<not> (mx_highestAckedBySelf st < s \<and> s \<le> ack)) (mx_unackedTimestamps st),
              mx_highestAckedBySelf := ack\<rparr>
      else st)"

definition handleFrame :: "mux_env \<Rightarrow> nat \<Rightarrow> nat \<Rightarrow> frame_body \<Rightarrow> mux \<Rightarrow> mux_result" where
  "handleFrame E i ack body st =
     (let st1 = st\<lparr>mx_livenessProbeWaiters := [], mx_highestReceivedSeq := max i (mx_highestReceivedSeq st)\<rparr>
      in emit_then (take_acks ack st1, map (\<lambda>w. MxProbe w True) (mx_livenessProbeWaiters st))
           (case body of
              MessageBody msg \<Rightarrow> handleMessage E msg
            | BrokenBody \<Rightarrow> handleProtocolError
            | _ \<Rightarrow> (\<lambda>st. (st, []))))"

text \<open>Disposing resets the decoder, so what else the piece of data held is not looked at.\<close>

fun handle_incoming :: "mux_env \<Rightarrow> incoming \<Rightarrow> mux \<Rightarrow> mux_result" where
  "handle_incoming E (InFrame i ack body) st = (if mx_disposed st then (st, []) else handleFrame E i ack body st)"
| "handle_incoming E InTooLarge st = handleProtocolError st"

definition onData :: "mux_env \<Rightarrow> incoming list \<Rightarrow> mux \<Rightarrow> mux_result" where
  "onData E frames st =
     (if mx_disposed st then (st, [])
      else emit_each (handle_incoming E) frames (st\<lparr>mx_lastReceivedAt := mv_now E\<rparr>))"

subsection \<open>The health of the connection\<close>

text \<open>The oldest time stamp; \<open>None\<close> is infinity.\<close>

definition oldest_unacked :: "(nat \<times> int) list \<Rightarrow> int option" where
  "oldest_unacked m = fold (\<lambda>(s, ts) acc. case acc of None \<Rightarrow> Some ts | Some o' \<Rightarrow> Some (if ts < o' then ts else o')) m None"

definition link_dead :: "int \<Rightarrow> mux \<Rightarrow> bool" where
  "link_dead now st \<longleftrightarrow>
     now - mx_lastReceivedAt st > TIMEOUT_MS \<and>
     (case oldest_unacked (mx_unackedTimestamps st) of None \<Rightarrow> False | Some o' \<Rightarrow> now - o' > TIMEOUT_MS)"

definition check_health :: "mux_env \<Rightarrow> mux \<Rightarrow> mux_result" where
  "check_health E st =
     (if mx_disposed st then (st, [])
      else
        let now = mv_now E; sinceLastTick = now - mx_lastTickAt st; st1 = st\<lparr>mx_lastTickAt := now\<rparr>
        in if sinceLastTick > WAKE_GAP_MS
           then or_throws (sendKeepAlive E (st1\<lparr>mx_lastReceivedAt := now,
                  mx_unackedTimestamps := map (\<lambda>(s, _). (s, now)) (mx_unackedTimestamps st1)\<rparr>))
           else if link_dead now st1 then handleProtocolError st1 else (st1, []))"

definition health_tick :: "mux_env \<Rightarrow> mux \<Rightarrow> mux_result" where
  "health_tick E st =
     (if \<not> mx_healthTimer st then (st, [])
      else case sendKeepAlive E st of
        (r, True) \<Rightarrow> emit_then r (\<lambda>st. (st, [MxThrew]))
      | (r, False) \<Rightarrow> emit_then r (check_health E))"

subsection \<open>Subscribers\<close>

definition onNotification :: "mux \<Rightarrow> mux" where
  "onNotification st =
     (if mx_disposed st then st
      else st\<lparr>mx_notificationHandlers := mx_notificationHandlers st @ [mx_nextToken st], mx_nextToken := mx_nextToken st + 1\<rparr>)"

definition offNotification :: "nat \<Rightarrow> mux \<Rightarrow> mux" where
  "offNotification h st = st\<lparr>mx_notificationHandlers := remove1 h (mx_notificationHandlers st)\<rparr>"

definition onNotificationByMethod :: "jsstr \<Rightarrow> mux \<Rightarrow> mux" where
  "onNotificationByMethod method st =
     (if mx_disposed st then st
      else st\<lparr>mx_methodNotificationHandlers := map_set method
                ((case map_get (mx_methodNotificationHandlers st) method of None \<Rightarrow> [] | Some hs \<Rightarrow> hs) @ [mx_nextToken st])
                (mx_methodNotificationHandlers st),
              mx_nextToken := mx_nextToken st + 1\<rparr>)"

definition offNotificationByMethod :: "jsstr \<Rightarrow> nat \<Rightarrow> mux \<Rightarrow> mux" where
  "offNotificationByMethod method h st =
     (case map_get (mx_methodNotificationHandlers st) method of
        None \<Rightarrow> st
      | Some hs \<Rightarrow>
          st\<lparr>mx_methodNotificationHandlers :=
            (if removeAll h hs = [] then map_delete method (mx_methodNotificationHandlers st)
             else map_set method (removeAll h hs) (mx_methodNotificationHandlers st))\<rparr>)"

definition onRequest :: "jsstr \<Rightarrow> mux \<Rightarrow> mux" where
  "onRequest method st =
     st\<lparr>mx_requestHandlers := map_set method (mx_nextToken st) (mx_requestHandlers st), mx_nextToken := mx_nextToken st + 1\<rparr>"

definition offRequest :: "jsstr \<Rightarrow> nat \<Rightarrow> mux \<Rightarrow> mux" where
  "offRequest method h st =
     (if map_get (mx_requestHandlers st) method = Some h
      then st\<lparr>mx_requestHandlers := map_delete method (mx_requestHandlers st)\<rparr> else st)"

definition onDispose :: "mux \<Rightarrow> mux" where
  "onDispose st =
     (if mx_disposed st then st
      else st\<lparr>mx_disposeHandlers := mx_disposeHandlers st @ [mx_nextToken st], mx_nextToken := mx_nextToken st + 1\<rparr>)"

definition offDispose :: "nat \<Rightarrow> mux \<Rightarrow> mux" where
  "offDispose h st = st\<lparr>mx_disposeHandlers := remove1 h (mx_disposeHandlers st)\<rparr>"

subsection \<open>The machine\<close>

datatype mux_event =
    MxRequest jsstr "js_value option" bool bool
  | MxNotify jsstr "js_value option"
  | MxProbeLink
  | MxProbeTimeout nat
  | MxTimeout nat
  | MxAbort nat
  | MxData "incoming list"
  | MxClosed
  | MxTick
  | MxDispose close_reason
  | MxHandlerDone nat "js_value + js_value"
  | MxOnNotification
  | MxOffNotification nat
  | MxOnMethod jsstr
  | MxOffMethod jsstr nat
  | MxOnRequest jsstr
  | MxOffRequest jsstr nat
  | MxOnDispose
  | MxOffDispose nat

fun mux_step :: "mux_env \<times> mux_event \<Rightarrow> mux \<Rightarrow> mux_result" where
  "mux_step (E, MxRequest m p signal aborted) st = mux_request E m p signal aborted st"
| "mux_step (E, MxNotify m p) st = or_throws (mux_notify E m p st)"
| "mux_step (E, MxProbeLink) st = probeLiveness E st"
| "mux_step (E, MxProbeTimeout w) st = probe_times_out w st"
| "mux_step (E, MxTimeout i) st = request_times_out E i st"
| "mux_step (E, MxAbort i) st = onAbort E i st"
| "mux_step (E, MxData frames) st = onData E frames st"
| "mux_step (E, MxClosed) st = mux_dispose ConnectionLost st"
| "mux_step (E, MxTick) st = health_tick E st"
| "mux_step (E, MxDispose reason) st = mux_dispose reason st"
| "mux_step (E, MxHandlerDone t outcome) st = handler_settles E t outcome st"
| "mux_step (E, MxOnNotification) st = (onNotification st, [])"
| "mux_step (E, MxOffNotification h) st = (offNotification h st, [])"
| "mux_step (E, MxOnMethod m) st = (onNotificationByMethod m st, [])"
| "mux_step (E, MxOffMethod m h) st = (offNotificationByMethod m h st, [])"
| "mux_step (E, MxOnRequest m) st = (onRequest m st, [])"
| "mux_step (E, MxOffRequest m h) st = (offRequest m h st, [])"
| "mux_step (E, MxOnDispose) st = (onDispose st, [])"
| "mux_step (E, MxOffDispose h) st = (offDispose h st, [])"

abbreviation mux_run :: "(mux_env \<times> mux_event) list \<Rightarrow> mux \<Rightarrow> mux_result" where
  "mux_run es st \<equiv> emit_each mux_step es st"

end
