(* ===== verification/Ssh_Mux_Props.thy ===== *)
theory Ssh_Mux_Props
  imports Ssh_Mux
begin

text \<open>
  What the desktop's end of a relay promises its callers: every request ends once, and the channel is given up only
  when it is silent and owes an acknowledgement.
\<close>

subsection \<open>Requests are accounted for\<close>

definition settled_ids :: "mux_out list \<Rightarrow> nat list" where
  "settled_ids out = concat (map (\<lambda>x. case x of MxSettled i s \<Rightarrow> [i] | _ \<Rightarrow> []) out)"

lemma settled_ids_simps [simp]:
  "settled_ids [] = []"
  "settled_ids (MxSettled i s # out) = i # settled_ids out"
  "settled_ids (MxWrote t n a b # out) = settled_ids out"
  "settled_ids (MxRefused # out) = settled_ids out"
  "settled_ids (MxProbe w alive # out) = settled_ids out"
  "settled_ids (MxTransportClose # out) = settled_ids out"
  "settled_ids (MxDisposed w reason # out) = settled_ids out"
  "settled_ids (MxNotified w m p # out) = settled_ids out"
  "settled_ids (MxInvoked w h p # out) = settled_ids out"
  "settled_ids (MxThrew # out) = settled_ids out"
  "settled_ids (out @ out') = settled_ids out @ settled_ids out'"
  by (simp_all add: settled_ids_def)

lemma settled_ids_map [simp]:
  "settled_ids (map (\<lambda>w. MxProbe w alive) ws) = []"
  "settled_ids (map (\<lambda>h. MxDisposed h reason) ws) = []"
  "settled_ids (map (\<lambda>h. MxNotified h m p) ws) = []"
  by (induction ws) simp_all

text \<open>The requests whose caller still waits.\<close>

definition waiting_requests :: "mux \<Rightarrow> nat set" where
  "waiting_requests st = {i. \<exists>p. map_get (mx_pendingRequests st) i = Some p \<and> \<not> mp_settled p}"

definition mux_ok :: "mux \<Rightarrow> bool" where
  "mux_ok st \<longleftrightarrow> distinct (map fst (mx_pendingRequests st)) \<and> (\<forall>i\<in>fst ` set (mx_pendingRequests st). i < mx_nextRequestId st) \<and>
     (mx_disposed st \<longrightarrow> mx_pendingRequests st = [] \<and> mx_livenessProbeWaiters st = [])"

definition mux_accounts :: "mux \<Rightarrow> mux_result \<Rightarrow> bool" where
  "mux_accounts st r \<longleftrightarrow> (mux_ok st \<longrightarrow>
     mux_ok (fst r) \<and> (mx_disposed st \<longrightarrow> mx_disposed (fst r)) \<and>
     ledger (mx_nextRequestId st) (waiting_requests st) (mx_nextRequestId (fst r)) (waiting_requests (fst r))
       (settled_ids (snd r)))"

lemma waiting_below: "mux_ok st \<Longrightarrow> waiting_requests st \<subseteq> {..<mx_nextRequestId st}"
  unfolding mux_ok_def waiting_requests_def using map_get_in by fastforce

interpretation mux_acc: composing mux_accounts
proof
  fix st :: mux
  show "mux_accounts st (st, [])" by (simp add: mux_accounts_def)
next
  fix st :: mux and r and f :: "mux \<Rightarrow> mux_result"
  assume a: "mux_accounts st r" and b: "mux_accounts (fst r) (f (fst r))"
  show "mux_accounts st (emit_then r f)"
    unfolding mux_accounts_def
  proof (intro impI)
    assume ok: "mux_ok st"
    note 1 = mp [OF a [unfolded mux_accounts_def] ok]
    note 2 = mp [OF b [unfolded mux_accounts_def] conjunct1 [OF 1]]
    have "ledger (mx_nextRequestId st) (waiting_requests st) (mx_nextRequestId (fst (emit_then r f))) (waiting_requests (fst (emit_then r f)))
        (settled_ids (snd (emit_then r f)))"
      using ledger_trans [OF conjunct2 [OF conjunct2 [OF 1]] conjunct2 [OF conjunct2 [OF 2]] waiting_below [OF ok]] by simp
    then show "mux_ok (fst (emit_then r f)) \<and> (mx_disposed st \<longrightarrow> mx_disposed (fst (emit_then r f))) \<and>
      ledger (mx_nextRequestId st) (waiting_requests st) (mx_nextRequestId (fst (emit_then r f))) (waiting_requests (fst (emit_then r f)))
        (settled_ids (snd (emit_then r f)))"
      using 1 2 by simp
  qed
qed

lemma waiting_same: "mx_pendingRequests st' = mx_pendingRequests st \<Longrightarrow> waiting_requests st' = waiting_requests st"
  by (simp add: waiting_requests_def)

text \<open>Steps that leave the requests alone.\<close>

lemma accounts_quiet:
  assumes "mx_pendingRequests (fst r) = mx_pendingRequests st" "mx_nextRequestId (fst r) = mx_nextRequestId st"
    "mx_disposed (fst r) = mx_disposed st" "mx_disposed st \<Longrightarrow> mx_livenessProbeWaiters st = [] \<Longrightarrow> mx_livenessProbeWaiters (fst r) = []"
    "settled_ids (snd r) = []"
  shows "mux_accounts st r"
  using assms waiting_same [OF assms(1)] unfolding mux_accounts_def mux_ok_def by simp

lemma accounts_state:
  assumes "mx_pendingRequests st' = mx_pendingRequests st" "mx_nextRequestId st' = mx_nextRequestId st"
    "mx_disposed st' = mx_disposed st" "mx_disposed st \<Longrightarrow> mx_livenessProbeWaiters st = [] \<Longrightarrow> mx_livenessProbeWaiters st' = []"
    and "mux_accounts st' r"
  shows "mux_accounts st r"
proof -
  have "mux_ok st \<Longrightarrow> mux_ok st'" using assms(1-4) unfolding mux_ok_def by auto
  then show ?thesis using assms(5) waiting_same [OF assms(1)] assms(2,3) unfolding mux_accounts_def by simp
qed

lemma settled_pendings:
  "settled_ids (concat (map (settle_pending s) m)) = map fst (filter (\<lambda>e. \<not> mp_settled (snd e)) m)"
  by (induction m) (auto simp: settle_pending_def)

lemma waiting_fst: "distinct (map fst (mx_pendingRequests st)) \<Longrightarrow>
    waiting_requests st = fst ` set (filter (\<lambda>e. \<not> mp_settled (snd e)) (mx_pendingRequests st))"
  unfolding waiting_requests_def
  by (force dest: map_get_in simp: image_iff intro: map_get_unique)

lemma accounts_dispose: "mux_accounts st (mux_dispose reason st)"
proof (cases "mx_disposed st")
  case True
  then show ?thesis by (simp add: mux_dispose_def mux_acc.keeps_same)
next
  case False
  let ?r = "mux_dispose reason st"
  have none: "waiting_requests (fst ?r) = {}" using False by (simp add: mux_dispose_def waiting_requests_def)
  have ids: "settled_ids (snd ?r) = map fst (filter (\<lambda>e. \<not> mp_settled (snd e)) (mx_pendingRequests st))"
    using False by (simp add: mux_dispose_def settled_pendings)
  have next_id: "mx_nextRequestId (fst ?r) = mx_nextRequestId st" using False by (simp add: mux_dispose_def)
  have ok: "mux_ok (fst ?r)" using False by (simp add: mux_dispose_def mux_ok_def)
  have "distinct (settled_ids (snd ?r)) \<and> set (settled_ids (snd ?r)) = waiting_requests st" if "mux_ok st"
    using that unfolding ids by (simp add: mux_ok_def waiting_fst distinct_map_filter)
  then show ?thesis using none next_id ok False unfolding mux_accounts_def by (auto simp: ledger_def)
qed

lemma accounts_error: "mux_accounts st (handleProtocolError st)"
  by (simp add: handleProtocolError_def accounts_dispose)

lemma mux_accounts_send: "mux_accounts st (fst (send_frame E m st))"
  unfolding send_frame_def Let_def
  by (auto intro!: accounts_quiet accounts_state [OF _ _ _ _ accounts_error])

lemma accounts_threw: "mux_accounts st r \<Longrightarrow> mux_accounts st (emit_then r (\<lambda>st. (st, [MxThrew])))"
  by (rule mux_acc.keeps_then) (auto intro: accounts_quiet)

lemma accounts_or_throws: "mux_accounts st (fst r) \<Longrightarrow> mux_accounts st (or_throws r)"
  by (simp add: or_throws_def accounts_threw)

lemmas accounts_sends = mux_accounts_send accounts_error accounts_dispose mux_acc.keeps_same

lemma accounts_message: "mux_accounts st (fst (sendMessage E msg st))"
  by (simp add: sendMessage_def mux_accounts_send)

lemma accounts_keepalive: "mux_accounts st (fst (sendKeepAlive E st))"
  by (simp add: sendKeepAlive_def mux_accounts_send mux_acc.keeps_same)

lemma accounts_notify: "mux_accounts st (fst (mux_notify E method params st))"
  by (simp add: mux_notify_def accounts_message mux_acc.keeps_same)

subsection \<open>Every operation keeps the account\<close>

lemma drop_pending_ok: "mux_ok st \<Longrightarrow> mux_ok (drop_pending i st)"
  by (auto simp: mux_ok_def drop_pending_def map_delete_def distinct_map_filter)

lemma waiting_drop: "waiting_requests (drop_pending i st) = waiting_requests st - {i}"
  by (auto simp: waiting_requests_def drop_pending_def)

lemma drop_fields [simp]:
  "mx_nextRequestId (drop_pending i st) = mx_nextRequestId st" "mx_disposed (drop_pending i st) = mx_disposed st"
  by (simp_all add: drop_pending_def)

lemma set_pending_fields [simp]:
  "mx_nextRequestId (set_pending i p st) = mx_nextRequestId st" "mx_disposed (set_pending i p st) = mx_disposed st"
  by (simp_all add: set_pending_def)

text \<open>An entry leaves the list and its caller, if it still waits, is told so.\<close>

lemma accounts_drop:
  assumes "map_get (mx_pendingRequests st) i = Some p"
  shows "mux_accounts st (drop_pending i st, settle_pending s (i, p))"
proof -
  have "mp_settled p \<Longrightarrow> i \<notin> waiting_requests st" and "\<not> mp_settled p \<Longrightarrow> i \<in> waiting_requests st"
    using assms by (auto simp: waiting_requests_def)
  then show ?thesis
    unfolding mux_accounts_def using drop_pending_ok [of st i]
    by (auto simp: waiting_drop settle_pending_def ledger_def)
qed

lemma send_pending: "mx_pendingRequests (fst (fst (send_frame E m st))) = mx_pendingRequests st \<or> mx_pendingRequests (fst (fst (send_frame E m st))) = []"
  by (simp add: send_frame_def Let_def handleProtocolError_def mux_dispose_def)

lemma send_threw: "snd (send_frame E m st) \<Longrightarrow> fst (send_frame E m st) = (st\<lparr>mx_nextOutgoingSeq := mx_nextOutgoingSeq st + 1\<rparr>, [])"
  by (simp add: send_frame_def Let_def split: if_splits)

lemma accounts_new_request:
  assumes "mx_disposed st = False"
  shows "mux_accounts st (set_pending (mx_nextRequestId st) \<lparr>mp_method = m, mp_signal = g, mp_settled = False\<rparr>
     (st\<lparr>mx_nextRequestId := mx_nextRequestId st + 1\<rparr>), [])"
proof -
  let ?i = "mx_nextRequestId st" and ?p = "\<lparr>mp_method = m, mp_signal = g, mp_settled = False\<rparr>"
  let ?st1 = "set_pending ?i ?p (st\<lparr>mx_nextRequestId := ?i + 1\<rparr>)"
  have w: "waiting_requests ?st1 = insert ?i (waiting_requests st)"
    by (auto simp: waiting_requests_def set_pending_def)
  have "mux_ok st \<Longrightarrow> mux_ok ?st1" using assms
    by (auto simp: mux_ok_def set_pending_def distinct_map_set fst_map_set)
  then show ?thesis unfolding mux_accounts_def using assms
    by (auto simp: w [simplified] ledger_def)
qed

lemma accounts_not_sent:
  assumes "\<not> mx_disposed st" and "m = \<lparr>mp_method = method, mp_signal = signal, mp_settled = False\<rparr>"
  shows "mux_accounts st (set_pending (mx_nextRequestId st) (m\<lparr>mp_settled := True\<rparr>)
     ((set_pending (mx_nextRequestId st) m (st\<lparr>mx_nextRequestId := mx_nextRequestId st + 1\<rparr>))\<lparr>mx_nextOutgoingSeq := n\<rparr>),
     [MxSettled (mx_nextRequestId st) SettledNotSent])"
    (is "mux_accounts st (?st2, _)")
proof -
  have below: "mux_ok st \<Longrightarrow> mx_nextRequestId st \<notin> waiting_requests st" using waiting_below by blast
  have w: "mux_ok st \<Longrightarrow> waiting_requests ?st2 = waiting_requests st"
    using below by (auto simp: waiting_requests_def set_pending_def)
  have "mux_ok st \<Longrightarrow> mux_ok ?st2" using assms
    by (auto simp: mux_ok_def set_pending_def distinct_map_set fst_map_set)
  then show ?thesis unfolding mux_accounts_def using assms(1) below w
    by (simp add: ledger_def)
qed

lemma accounts_request: "mux_accounts st (mux_request E method params signal aborted st)"
proof (cases "mx_disposed st \<or> (signal \<and> aborted)")
  case True
  then show ?thesis by (simp add: mux_request_def accounts_quiet)
next
  case False
  let ?i = "mx_nextRequestId st" and ?p = "\<lparr>mp_method = method, mp_signal = signal, mp_settled = False\<rparr>"
  let ?st1 = "set_pending ?i ?p (st\<lparr>mx_nextRequestId := ?i + 1\<rparr>)"
  let ?send = "sendMessage E (rpc_request ?i method params) ?st1"
  show ?thesis
  proof (cases "snd ?send")
    case True
    then have "fst ?send = (?st1\<lparr>mx_nextOutgoingSeq := mx_nextOutgoingSeq ?st1 + 1\<rparr>, [])"
      using send_threw unfolding sendMessage_def by blast
    then have "mux_request E method params signal aborted st =
        (set_pending ?i (?p\<lparr>mp_settled := True\<rparr>) (?st1\<lparr>mx_nextOutgoingSeq := mx_nextOutgoingSeq ?st1 + 1\<rparr>), [MxSettled ?i SettledNotSent])"
      using False True by (auto simp: mux_request_def Let_def case_prod_unfold emit_then_def split: bool.splits)
    then show ?thesis using accounts_not_sent [where st = st and m = ?p] False by simp
  next
    case sent: False
    have "mux_request E method params signal aborted st = emit_then (?st1, []) (\<lambda>st. fst (sendMessage E (rpc_request ?i method params) st))"
      using False sent by (auto simp: mux_request_def Let_def case_prod_unfold emit_then_def split: bool.splits)
    also have "mux_accounts st \<dots>"
      by (rule mux_acc.keeps_then) (use accounts_new_request [of st] False accounts_message in auto)
    finally show ?thesis .
  qed
qed

text \<open>A cancellation that cannot be sent takes the request off the list and tells nobody.\<close>

definition lost_ids :: "mux_event \<Rightarrow> mux \<Rightarrow> mux_result \<Rightarrow> nat list" where
  "lost_ids e st r = (case e of MxAbort i \<Rightarrow> if i \<in> waiting_requests st \<and> MxThrew \<in> set (snd r) then [i] else [] | _ \<Rightarrow> [])"

definition mux_books :: "mux \<Rightarrow> nat list \<Rightarrow> mux_result \<Rightarrow> bool" where
  "mux_books st lost r \<longleftrightarrow> (mux_ok st \<longrightarrow>
     mux_ok (fst r) \<and> (mx_disposed st \<longrightarrow> mx_disposed (fst r)) \<and>
     ledger (mx_nextRequestId st) (waiting_requests st) (mx_nextRequestId (fst r)) (waiting_requests (fst r)) (settled_ids (snd r) @ lost))"

lemma accounts_books: "mux_accounts st r \<Longrightarrow> mux_books st [] r"
  by (simp add: mux_accounts_def mux_books_def)

lemma cancel_threw: "snd (mux_notify E method params st) \<Longrightarrow>
    fst (mux_notify E method params st) = (st\<lparr>mx_nextOutgoingSeq := mx_nextOutgoingSeq st + 1\<rparr>, [])"
  unfolding mux_notify_def sendMessage_def using send_threw by (auto split: if_splits)

lemma notify_no_throw: "MxThrew \<notin> set (snd (fst (mux_notify E method params st)))"
  by (auto simp: mux_notify_def sendMessage_def send_frame_def Let_def handleProtocolError_def mux_dispose_def settle_pending_def)

lemma books_abort: "mux_books st (lost_ids (MxAbort i) st (onAbort E i st)) (onAbort E i st)"
proof (cases "map_get (mx_pendingRequests st) i")
  case None
  then show ?thesis by (simp add: onAbort_def mux_books_def lost_ids_def)
next
  case (Some p)
  let ?n = "mux_notify E (js ''rpc.cancel'') (Some (rpc_cancel_params i)) (drop_pending i st)"
  show ?thesis
  proof (cases "mp_signal p")
    case False
    with Some show ?thesis by (simp add: onAbort_def mux_books_def lost_ids_def)
  next
    case signal: True
    show ?thesis
    proof (cases "snd ?n")
      case True
      let ?st1 = "(drop_pending i st)\<lparr>mx_nextOutgoingSeq := mx_nextOutgoingSeq (drop_pending i st) + 1\<rparr>"
      have eq: "onAbort E i st = (?st1, [MxThrew])"
        using Some signal True cancel_threw [OF True] by (simp add: onAbort_def case_prod_unfold emit_then_def split: bool.splits)
      have w: "waiting_requests ?st1 = waiting_requests st - {i}"
        using waiting_same [of ?st1 "drop_pending i st"] by (simp add: waiting_drop)
      have "mux_ok st \<Longrightarrow> mux_ok ?st1" using drop_pending_ok [of st i] by (simp add: mux_ok_def)
      then show ?thesis unfolding eq mux_books_def lost_ids_def by (auto simp: w [simplified] ledger_def)
    next
      case False
      then have eq: "onAbort E i st = emit_then (fst ?n) (\<lambda>st. (st, settle_pending SettledAborted (i, p)))"
        using Some signal by (auto simp: onAbort_def case_prod_unfold split: bool.splits)
      have "lost_ids (MxAbort i) st (onAbort E i st) = []"
        unfolding eq using notify_no_throw by (auto simp: lost_ids_def settle_pending_def)
      moreover note mux_acc.keeps_then [OF accounts_drop [OF Some, of SettledAborted], of "\<lambda>st. fst (mux_notify E (js ''rpc.cancel'') (Some (rpc_cancel_params i)) st)"]
      then have told: "mux_accounts st (emit_then (drop_pending i st, settle_pending SettledAborted (i, p))
          (\<lambda>st. fst (mux_notify E (js ''rpc.cancel'') (Some (rpc_cancel_params i)) st)))"
        using accounts_notify by simp
      have "mux_accounts st (onAbort E i st)"
      proof -
        let ?a = "settled_ids (settle_pending SettledAborted (i, p))" and ?b = "settled_ids (snd (fst ?n))"
        have "ledger n W n' W' (?b @ ?a) = ledger n W n' W' (?a @ ?b)" for n W n' W'
          by (rule ledger_order) auto
        with told show ?thesis unfolding eq mux_accounts_def by simp
      qed
      ultimately show ?thesis using accounts_books by simp
    qed
  qed
qed

lemma send_disposes: "\<not> snd (send_frame E m st) \<Longrightarrow> mx_pendingRequests (fst (fst (send_frame E m st))) \<noteq> mx_pendingRequests st \<Longrightarrow>
    mx_disposed (fst (fst (send_frame E m st)))"
  by (auto simp: send_frame_def Let_def handleProtocolError_def mux_dispose_def split: if_splits)

lemma accounts_timeout: "mux_accounts st (request_times_out E i st)"
proof (cases "map_get (mx_pendingRequests st) i")
  case None
  then show ?thesis by (simp add: request_times_out_def mux_acc.keeps_same)
next
  case (Some p)
  let ?n = "mux_notify E (js ''rpc.cancel'') (Some (rpc_cancel_params i)) st"
  let ?rest = "\<lambda>st'. (drop_pending i st', if map_get (mx_pendingRequests st') i = None then [] else settle_pending SettledTimeout (i, p))"
  have eq: "request_times_out E i st = (if snd ?n then emit_then (fst ?n) (\<lambda>st. (st, [MxThrew])) else emit_then (fst ?n) ?rest)"
    using Some by (auto simp: request_times_out_def case_prod_unfold split: bool.splits)
  have kept: "mx_pendingRequests (fst (fst ?n)) = mx_pendingRequests st \<or> mx_pendingRequests (fst (fst ?n)) = []"
    by (simp add: mux_notify_def sendMessage_def send_pending)
  have "mux_accounts (fst (fst ?n)) (?rest (fst (fst ?n)))"
  proof (cases "map_get (mx_pendingRequests (fst (fst ?n))) i")
    case None
    then have "i \<notin> fst ` set (mx_pendingRequests (fst (fst ?n)))" by (simp add: map_get_None)
    then have "drop_pending i (fst (fst ?n)) = fst (fst ?n)"
      by (cases "fst (fst ?n)") (auto simp: drop_pending_def map_delete_def filter_id_conv)
    with None show ?thesis by (simp add: mux_acc.keeps_same)
  next
    case (Some q)
    then have "q = p" using kept \<open>map_get (mx_pendingRequests st) i = Some p\<close> by auto
    with Some show ?thesis using accounts_drop by simp
  qed
  then show ?thesis unfolding eq
    using accounts_threw [OF accounts_notify] mux_acc.keeps_then [where f = ?rest, OF accounts_notify] by simp
qed

lemma accounts_probe: "mux_accounts st (probeLiveness E st)"
  unfolding probeLiveness_def Let_def
  by (auto intro: accounts_quiet intro!: accounts_state [OF _ _ _ _ accounts_or_throws [OF accounts_keepalive]])

lemma accounts_probe_timeout: "mux_accounts st (probe_times_out w st)"
  by (auto simp: probe_times_out_def intro: accounts_quiet)

lemma accounts_handle_request: "mux_accounts st (handleRequest E i method params st)"
  by (auto simp: handleRequest_def Let_def intro: accounts_quiet accounts_or_throws accounts_message split: option.split)

lemma accounts_handler: "mux_accounts st (handler_settles E t outcome st)"
proof (cases "map_get (mx_tasks st) t")
  case None
  then show ?thesis by (simp add: handler_settles_def mux_acc.keeps_same)
next
  case (Some i)
  let ?st1 = "st\<lparr>mx_tasks := map_delete t (mx_tasks st)\<rparr>"
  have up: "mux_accounts ?st1 r \<Longrightarrow> mux_accounts st r" for r by (rule accounts_state) simp_all
  have twice: "mux_accounts ?st1 (emit_then (fst (sendMessage E m ?st1)) (\<lambda>st. or_throws (sendMessage E m' st)))" for m m'
    by (rule mux_acc.keeps_then) (intro accounts_message accounts_or_throws)+
  show ?thesis
    using Some by (auto simp: handler_settles_def Let_def case_prod_unfold split: sum.split bool.split
      intro!: up accounts_or_throws accounts_message twice)
qed

lemma accounts_response: "mux_accounts st (handleResponse msg st)"
  by (auto simp: handleResponse_def mux_acc.keeps_same split: option.split rpc_id.split intro: accounts_drop)

lemma accounts_notification: "mux_accounts st (handleNotification method params st)"
  by (auto simp: handleNotification_def Let_def split: option.split intro!: accounts_quiet)

lemma accounts_handle_message: "mux_accounts st (handleMessage E msg st)"
  by (auto simp: handleMessage_def mux_acc.keeps_same accounts_response accounts_handle_request accounts_notification split: option.split)

lemma acks_fields [simp]:
  "mx_pendingRequests (take_acks ack st) = mx_pendingRequests st" "mx_nextRequestId (take_acks ack st) = mx_nextRequestId st"
  "mx_disposed (take_acks ack st) = mx_disposed st" "mx_livenessProbeWaiters (take_acks ack st) = mx_livenessProbeWaiters st"
  "mx_nextOutgoingSeq (take_acks ack st) = mx_nextOutgoingSeq st" "mx_lastReceivedAt (take_acks ack st) = mx_lastReceivedAt st"
  "mx_healthTimer (take_acks ack st) = mx_healthTimer st"
  by (simp_all add: take_acks_def)

lemma accounts_frame: "mux_accounts st (handleFrame E i ack body st)"
  unfolding handleFrame_def Let_def
  by (rule mux_acc.keeps_then)
    (auto intro: accounts_quiet accounts_error accounts_handle_message mux_acc.keeps_same split: frame_body.split)

lemma accounts_incoming: "mux_accounts st (handle_incoming E frame st)"
  by (cases frame) (simp_all add: mux_acc.keeps_same accounts_frame accounts_error)

lemma accounts_data: "mux_accounts st (onData E frames st)"
  unfolding onData_def
  by (auto intro!: mux_acc.keeps_same accounts_state [OF _ _ _ _ mux_acc.keeps_each [OF accounts_incoming]])

lemma accounts_check: "mux_accounts st (check_health E st)"
  unfolding check_health_def Let_def
  by (auto intro!: mux_acc.keeps_same accounts_quiet accounts_state [OF _ _ _ _ accounts_or_throws [OF accounts_keepalive]]
    accounts_state [OF _ _ _ _ accounts_error])

lemma accounts_tick: "mux_accounts st (health_tick E st)"
  by (auto simp: health_tick_def case_prod_unfold mux_acc.keeps_same split: bool.split
    intro: accounts_threw accounts_keepalive mux_acc.keeps_then accounts_check)

lemma books_step: "mux_books st (lost_ids (snd x) st (mux_step x st)) (mux_step x st)"
proof (cases "\<exists>i. snd x = MxAbort i")
  case True
  then show ?thesis using books_abort by (cases x) auto
next
  case False
  then have "lost_ids (snd x) st (mux_step x st) = []" by (cases "snd x") (simp_all add: lost_ids_def)
  moreover have "mux_accounts st (mux_step x st)"
    using False by (cases "(x, st)" rule: mux_step.cases)
      (auto simp: accounts_request accounts_probe accounts_probe_timeout accounts_timeout accounts_data accounts_dispose
        accounts_tick accounts_handler onNotification_def offNotification_def onNotificationByMethod_def offNotificationByMethod_def
        onRequest_def offRequest_def onDispose_def offDispose_def
        intro!: accounts_or_throws accounts_notify intro: accounts_quiet split: option.split)
  ultimately show ?thesis using accounts_books by simp
qed

text \<open>What is left of the account when the lost ones are not named.\<close>

definition mux_keeps :: "mux \<Rightarrow> mux_result \<Rightarrow> bool" where
  "mux_keeps st r \<longleftrightarrow> (mux_ok st \<longrightarrow>
     mux_ok (fst r) \<and> mx_nextRequestId st \<le> mx_nextRequestId (fst r) \<and>
     waiting_requests (fst r) \<subseteq> waiting_requests st \<union> {mx_nextRequestId st..<mx_nextRequestId (fst r)})"

lemma books_keeps: "mux_books st lost r \<Longrightarrow> mux_keeps st r"
  unfolding mux_books_def mux_keeps_def ledger_def by blast

lemmas keeps_step = books_keeps [OF books_step]
  and keeps_incoming = books_keeps [OF accounts_books [OF accounts_incoming]]

text \<open>The requests that were waiting when their signal was aborted and the cancellation could not be sent.\<close>

fun lost_cancels :: "(mux_env \<times> mux_event) list \<Rightarrow> mux \<Rightarrow> nat list" where
  "lost_cancels [] st = []"
| "lost_cancels (x # xs) st = lost_ids (snd x) st (mux_step x st) @ lost_cancels xs (fst (mux_step x st))"

lemma books_run: "mux_books st (lost_cancels es st) (mux_run es st)"
proof (induction es arbitrary: st)
  case Nil
  then show ?case by (simp add: mux_books_def)
next
  case (Cons x es)
  let ?r = "mux_step x st"
  let ?l1 = "lost_ids (snd x) st ?r" and ?l2 = "lost_cancels es (fst ?r)"
  let ?d1 = "settled_ids (snd ?r)" and ?d2 = "settled_ids (snd (mux_run es (fst ?r)))"
  have sets: "ledger n W n' W' ((?d1 @ ?d2) @ ?l1 @ ?l2) = ledger n W n' W' ((?d1 @ ?l1) @ (?d2 @ ?l2))" for n W n' W'
    by (rule ledger_order) auto
  show ?case
    unfolding mux_books_def
  proof (intro impI)
    assume ok: "mux_ok st"
    note 1 = mp [OF books_step [of st x, unfolded mux_books_def] ok]
    note 2 = mp [OF Cons.IH [of "fst ?r", unfolded mux_books_def] conjunct1 [OF 1]]
    note ledger_trans [OF conjunct2 [OF conjunct2 [OF 1]] conjunct2 [OF conjunct2 [OF 2]] waiting_below [OF ok]]
    then show "mux_ok (fst (mux_run (x # es) st)) \<and> (mx_disposed st \<longrightarrow> mx_disposed (fst (mux_run (x # es) st))) \<and>
        ledger (mx_nextRequestId st) (waiting_requests st) (mx_nextRequestId (fst (mux_run (x # es) st)))
          (waiting_requests (fst (mux_run (x # es) st))) (settled_ids (snd (mux_run (x # es) st)) @ lost_cancels (x # es) st)"
      using 1 2 sets by simp
  qed
qed

text \<open>
  C10: A request of the desktop ends once.  Over any interleaving of requests, answers, time-outs, cancellations, lost
  connections and shutdowns, the requests that were told their outcome are pairwise different and none of them is still
  waiting; at every moment each request that was made was told or waits, but for those given up by their own caller
  whose cancellation could not be encoded, which are lost; a disposed channel leaves nobody waiting, neither a request
  nor a probe.
\<close>

theorem mux_requests_settle_once:
  "let r = mux_run es (new_mux now); st = fst r; told = settled_ids (snd r); lost = lost_cancels es (new_mux now)
   in distinct (told @ lost) \<and> set (told @ lost) \<inter> waiting_requests st = {} \<and>
     set told \<union> set lost \<union> waiting_requests st = {1..<mx_nextRequestId st} \<and>
     (if mx_disposed st then waiting_requests st = {} \<and> mx_livenessProbeWaiters st = [] else True)"
proof -
  have new: "mux_ok (new_mux now)" "waiting_requests (new_mux now) = {}" "mx_nextRequestId (new_mux now) = 1"
    by (simp_all add: mux_ok_def new_mux_def waiting_requests_def)
  note run = books_run [of "new_mux now" es, unfolded mux_books_def, THEN mp, OF new(1)]
  show ?thesis using run new(2,3) unfolding Let_def ledger_def by (auto simp: mux_ok_def waiting_requests_def)
qed

subsection \<open>A channel is given up when it is dead\<close>

text \<open>
  What a part of a step with clock \<open>now\<close> and acknowledgements up to \<open>A\<close> does to the frames not acknowledged: those that
  stay were there and are above the new acknowledgement if they were above the old one, the others were written now.
\<close>

definition link_rel :: "int \<Rightarrow> nat \<Rightarrow> mux \<Rightarrow> mux_result \<Rightarrow> bool" where
  "link_rel now A st r \<longleftrightarrow> mx_disposed (fst r) \<or>
     (\<not> mx_disposed st \<and> mx_nextOutgoingSeq st \<le> mx_nextOutgoingSeq (fst r) \<and> mx_lastReceivedAt (fst r) = mx_lastReceivedAt st \<and>
      mx_highestAckedBySelf st \<le> mx_highestAckedBySelf (fst r) \<and> mx_highestAckedBySelf (fst r) \<le> max (mx_highestAckedBySelf st) A \<and>
      (\<forall>(s, ts)\<in>set (mx_unackedTimestamps (fst r)).
         ((s, ts) \<in> set (mx_unackedTimestamps st) \<and> (mx_highestAckedBySelf st < s \<longrightarrow> mx_highestAckedBySelf (fst r) < s)) \<or>
         (mx_nextOutgoingSeq st \<le> s \<and> s < mx_nextOutgoingSeq (fst r) \<and> ts = now \<and> (\<exists>a b. MxWrote now s a b \<in> set (snd r)))))"

interpretation link: composing "link_rel now A" for now A
proof
  fix st :: mux
  show "link_rel now A st (st, [])" by (auto simp: link_rel_def)
next
  fix st :: mux and r and f :: "mux \<Rightarrow> mux_result"
  assume 1: "link_rel now A st r" and 2: "link_rel now A (fst r) (f (fst r))"
  let ?st1 = "fst r" and ?st2 = "fst (f (fst r))"
  show "link_rel now A st (emit_then r f)"
  proof (cases "mx_disposed ?st2")
    case True
    then show ?thesis by (simp add: link_rel_def)
  next
    case False
    then have live: "\<not> mx_disposed ?st1" using 2 by (simp add: link_rel_def)
    have b: "mx_nextOutgoingSeq ?st1 \<le> mx_nextOutgoingSeq ?st2" "mx_lastReceivedAt ?st2 = mx_lastReceivedAt ?st1"
      "mx_highestAckedBySelf ?st1 \<le> mx_highestAckedBySelf ?st2" "mx_highestAckedBySelf ?st2 \<le> max (mx_highestAckedBySelf ?st1) A"
      and bs: "\<And>s ts. (s, ts) \<in> set (mx_unackedTimestamps ?st2) \<Longrightarrow>
         ((s, ts) \<in> set (mx_unackedTimestamps ?st1) \<and> (mx_highestAckedBySelf ?st1 < s \<longrightarrow> mx_highestAckedBySelf ?st2 < s)) \<or>
         (mx_nextOutgoingSeq ?st1 \<le> s \<and> s < mx_nextOutgoingSeq ?st2 \<and> ts = now \<and> (\<exists>a b. MxWrote now s a b \<in> set (snd (f ?st1))))"
      using 2 False unfolding link_rel_def by blast+
    have a: "\<not> mx_disposed st" "mx_nextOutgoingSeq st \<le> mx_nextOutgoingSeq ?st1" "mx_lastReceivedAt ?st1 = mx_lastReceivedAt st"
      "mx_highestAckedBySelf st \<le> mx_highestAckedBySelf ?st1" "mx_highestAckedBySelf ?st1 \<le> max (mx_highestAckedBySelf st) A"
      and as: "\<And>s ts. (s, ts) \<in> set (mx_unackedTimestamps ?st1) \<Longrightarrow>
         ((s, ts) \<in> set (mx_unackedTimestamps st) \<and> (mx_highestAckedBySelf st < s \<longrightarrow> mx_highestAckedBySelf ?st1 < s)) \<or>
         (mx_nextOutgoingSeq st \<le> s \<and> s < mx_nextOutgoingSeq ?st1 \<and> ts = now \<and> (\<exists>a b. MxWrote now s a b \<in> set (snd r)))"
      using 1 live unfolding link_rel_def by blast+
    have "((s, ts) \<in> set (mx_unackedTimestamps st) \<and> (mx_highestAckedBySelf st < s \<longrightarrow> mx_highestAckedBySelf ?st2 < s)) \<or>
         (mx_nextOutgoingSeq st \<le> s \<and> s < mx_nextOutgoingSeq ?st2 \<and> ts = now \<and> (\<exists>a b. MxWrote now s a b \<in> set (snd r) \<union> set (snd (f ?st1))))"
      if "(s, ts) \<in> set (mx_unackedTimestamps ?st2)" for s ts
      using bs [OF that] as [of s ts] a(2) b(1) by (auto intro: order_less_le_trans)
    then show ?thesis unfolding link_rel_def using a(1-5) b(1-4) by auto
  qed
qed

lemma link_state:
  assumes "mx_nextOutgoingSeq st' = mx_nextOutgoingSeq st" "mx_lastReceivedAt st' = mx_lastReceivedAt st" "mx_disposed st' = mx_disposed st"
    "mx_highestAckedBySelf st' = mx_highestAckedBySelf st" "mx_unackedTimestamps st' = mx_unackedTimestamps st"
  shows "link_rel now A st' r \<Longrightarrow> link_rel now A st r"
    and "mx_disposed st \<or> link_rel now A st (st', out)"
  using assms by (auto simp: link_rel_def)

lemma link_quiet:
  assumes "mx_nextOutgoingSeq (fst r) = mx_nextOutgoingSeq st" "mx_lastReceivedAt (fst r) = mx_lastReceivedAt st"
    "mx_disposed (fst r) = mx_disposed st" "mx_highestAckedBySelf (fst r) = mx_highestAckedBySelf st"
    "mx_unackedTimestamps (fst r) = mx_unackedTimestamps st"
  shows "link_rel now A st r"
  using link_state(2) [OF assms, of now A "snd r"] assms(3) by (auto simp: link_rel_def)

lemma link_dispose: "link_rel now A st (mux_dispose reason st)"
  by (simp add: link_rel_def mux_dispose_def)

lemma map_set_cases: "(k, v) \<in> set (map_set i x m) \<Longrightarrow> (k = i \<and> v = x) \<or> (k, v) \<in> set m"
  by (induction m) (auto split: if_splits)

lemma link_send: "mv_now E = now \<Longrightarrow> link_rel now A st (fst (send_frame E m st))"
  unfolding send_frame_def Let_def handleProtocolError_def
  by (auto simp: link_rel_def mux_dispose_def dest!: map_set_cases)

lemma link_notify: "mv_now E = now \<Longrightarrow> link_rel now A st (fst (mux_notify E method params st))"
  by (simp add: mux_notify_def sendMessage_def link_send link.keeps_same)

lemma link_say: "link_rel now A st r \<Longrightarrow> link_rel now A st (emit_then r (\<lambda>st. (st, out st)))"
  by (rule link.keeps_then) (auto intro: link_quiet)

lemma link_or_throws: "link_rel now A st (fst r) \<Longrightarrow> link_rel now A st (or_throws r)"
  unfolding or_throws_def by (simp add: link_say)

lemma link_drop: "link_rel now A st (drop_pending i st, out)"
  by (rule link_quiet) (simp_all add: drop_pending_def)

lemma link_then_say: "link_rel now A st r \<Longrightarrow> (\<And>st. link_rel now A st (g st)) \<Longrightarrow> link_rel now A st (emit_then r g)"
  by (rule link.keeps_then)

lemma link_request: "mv_now E = now \<Longrightarrow> link_rel now A st (mux_request E method params signal aborted st)"
proof -
  assume E: "mv_now E = now"
  let ?st1 = "\<lambda>p. set_pending (mx_nextRequestId st) p (st\<lparr>mx_nextRequestId := mx_nextRequestId st + 1\<rparr>)"
  have sent: "link_rel now A st (fst (sendMessage E msg (?st1 p)))" for msg p
    unfolding sendMessage_def by (rule link_state(1) [OF _ _ _ _ _ link_send [OF E], of "?st1 p"]) (simp_all add: set_pending_def)
  have refused: "link_rel now A st (st, [MxRefused])" by (rule link_quiet) simp_all
  have unsent: "link_rel now A st r \<Longrightarrow> link_rel now A st (emit_then r (\<lambda>st. (set_pending i p st, out)))" for r i p out
    by (rule link.keeps_then) (auto intro: link_quiet simp: set_pending_def)
  show ?thesis unfolding mux_request_def Let_def
    by (simp add: case_prod_unfold split: bool.split) (use sent refused unsent in auto)
qed

lemma link_abort: "mv_now E = now \<Longrightarrow> link_rel now A st (onAbort E i st)"
proof -
  assume "mv_now E = now"
  then have "link_rel now A st (fst (mux_notify E (js ''rpc.cancel'') (Some (rpc_cancel_params i)) (drop_pending i st)))"
    by (intro link_state(1) [OF _ _ _ _ _ link_notify, of "drop_pending i st"]) (simp_all add: drop_pending_def)
  then show ?thesis unfolding onAbort_def
    by (auto simp: case_prod_unfold split: bool.split option.split intro: link.keeps_same link_say)
qed

lemma link_timeout: "mv_now E = now \<Longrightarrow> link_rel now A st (request_times_out E i st)"
  unfolding request_times_out_def
  by (auto simp: case_prod_unfold split: bool.split option.split intro!: link.keeps_same link_then_say link_notify link_quiet link_drop)

lemma link_keepalive: "mv_now E = now \<Longrightarrow> link_rel now A st (fst (sendKeepAlive E st))"
  by (simp add: sendKeepAlive_def link_send link.keeps_same)

lemma link_probe: "mv_now E = now \<Longrightarrow> link_rel now A st (probeLiveness E st)"
  unfolding probeLiveness_def Let_def
  by (auto intro: link_quiet intro!: link_state(1) [OF _ _ _ _ _ link_or_throws [OF link_keepalive]])

lemma link_probe_timeout: "link_rel now A st (probe_times_out w st)"
  by (auto simp: probe_times_out_def intro: link_quiet)

lemma link_handle_request: "mv_now E = now \<Longrightarrow> link_rel now A st (handleRequest E i method params st)"
  by (auto simp: handleRequest_def Let_def sendMessage_def intro: link_quiet intro!: link_or_throws link_send split: option.split)

lemma link_handler: "mv_now E = now \<Longrightarrow> link_rel now A st (handler_settles E t outcome st)"
  by (auto simp: handler_settles_def Let_def case_prod_unfold sendMessage_def split: option.split sum.split bool.split
    intro!: link.keeps_same link_then_say link_or_throws link_send
      link_state(1) [of "st\<lparr>mx_tasks := map_delete t (mx_tasks st)\<rparr>"])

lemma link_response: "link_rel now A st (handleResponse msg st)"
  by (auto simp: handleResponse_def split: option.split rpc_id.split intro: link.keeps_same link_drop)

lemma link_handle_message: "mv_now E = now \<Longrightarrow> link_rel now A st (handleMessage E msg st)"
  by (auto simp: handleMessage_def link.keeps_same link_response link_handle_request handleNotification_def Let_def
    intro!: link_quiet split: option.split)

lemma link_acks: "ack \<le> A \<Longrightarrow> link_rel now A st (take_acks ack (st\<lparr>mx_livenessProbeWaiters := [], mx_highestReceivedSeq := n\<rparr>), out)"
  by (auto simp: link_rel_def take_acks_def)

lemma link_frame: "mv_now E = now \<Longrightarrow> ack \<le> A \<Longrightarrow> link_rel now A st (handleFrame E i ack body st)"
  unfolding handleFrame_def Let_def handleProtocolError_def
  by (rule link.keeps_then)
    (auto intro: link_acks link_dispose link_handle_message link.keeps_same split: frame_body.split)

definition ack_of :: "incoming \<Rightarrow> nat" where
  "ack_of f = (case f of InFrame i ack body \<Rightarrow> ack | InTooLarge \<Rightarrow> 0)"

lemma link_incoming: "mv_now E = now \<Longrightarrow> ack_of f \<le> A \<Longrightarrow> link_rel now A st (handle_incoming E f st)"
  by (cases f) (auto simp: ack_of_def link_frame link.keeps_same handleProtocolError_def link_dispose)

lemma link_frames: "mv_now E = now \<Longrightarrow> \<forall>f\<in>set fs. ack_of f \<le> A \<Longrightarrow> link_rel now A st (emit_each (handle_incoming E) fs st)"
proof (induction fs arbitrary: st)
  case (Cons f fs)
  then have "link_rel now A st (handle_incoming E f st)" by (intro link_incoming) simp_all
  then show ?case using Cons by (simp only: emit_each.simps) (rule link.keeps_then, simp_all)
qed (simp add: link.keeps_same)

text \<open>The acknowledgements in a piece of data are taken.\<close>

lemma acked_incoming: "mx_disposed (fst (handle_incoming E f st)) \<or> ack_of f \<le> mx_highestAckedBySelf (fst (handle_incoming E f st))"
proof (cases f)
  case (InFrame i ack body)
  let ?st1 = "take_acks ack (st\<lparr>mx_livenessProbeWaiters := [], mx_highestReceivedSeq := max i (mx_highestReceivedSeq st)\<rparr>)"
  let ?f = "case body of MessageBody msg \<Rightarrow> handleMessage E msg | BrokenBody \<Rightarrow> handleProtocolError | _ \<Rightarrow> (\<lambda>st. (st, []))"
  have "link_rel (mv_now E) ack ?st1 (?f ?st1)"
    by (auto intro: link_dispose link_handle_message link.keeps_same simp: handleProtocolError_def split: frame_body.split)
  moreover have "ack \<le> mx_highestAckedBySelf ?st1" by (simp add: take_acks_def)
  ultimately show ?thesis using InFrame
    by (auto simp: handleFrame_def Let_def link_rel_def ack_of_def)
qed (auto simp: handleProtocolError_def mux_dispose_def ack_of_def)

lemma acked_frames:
  assumes "\<forall>f\<in>set fs. ack_of f \<le> A"
  shows "mx_disposed (fst (emit_each (handle_incoming E) fs st)) \<or>
    (\<forall>f\<in>set fs. ack_of f \<le> mx_highestAckedBySelf (fst (emit_each (handle_incoming E) fs st)))"
  using assms
proof (induction fs arbitrary: st)
  case (Cons f fs)
  let ?st1 = "fst (handle_incoming E f st)"
  have "link_rel (mv_now E) A ?st1 (emit_each (handle_incoming E) fs ?st1)" using Cons.prems by (intro link_frames) simp_all
  then show ?case using Cons.IH [of ?st1] Cons.prems acked_incoming [of E f st] by (auto simp: link_rel_def)
qed simp

text \<open>
  What is known of a channel in use at time \<open>T\<close>, after the events \<open>es\<close> and the output \<open>out\<close>: nothing came later than noted,
  every acknowledgement was taken, and what is listed as not acknowledged was written no later than its time stamp.
\<close>

definition link_inv :: "(mux_env \<times> mux_event) list \<Rightarrow> int \<Rightarrow> mux_out list \<Rightarrow> mux \<Rightarrow> bool" where
  "link_inv es T out st \<longleftrightarrow> mx_disposed st \<or>
     ((\<forall>E' fs. (E', MxData fs) \<in> set es \<longrightarrow> mv_now E' \<le> mx_lastReceivedAt st \<and> (\<forall>f\<in>set fs. ack_of f \<le> mx_highestAckedBySelf st)) \<and>
      mx_lastReceivedAt st \<le> T \<and> mx_highestAckedBySelf st < mx_nextOutgoingSeq st \<and>
      (\<forall>(s, ts)\<in>set (mx_unackedTimestamps st). mx_highestAckedBySelf st < s \<and> (\<exists>t a b. MxWrote t s a b \<in> set out \<and> t \<le> ts) \<and> ts \<le> T))"

lemma link_inv_rel:
  assumes inv: "link_inv es T out st" and rel: "link_rel now A st r" and A: "A < mx_nextOutgoingSeq st" and now: "now \<le> T"
  shows "link_inv es T (out @ snd r) (fst r)"
proof (cases "mx_disposed (fst r)")
  case True
  then show ?thesis by (simp add: link_inv_def)
next
  case False
  let ?st = "fst r"
  have r: "\<not> mx_disposed st" "mx_nextOutgoingSeq st \<le> mx_nextOutgoingSeq ?st" "mx_lastReceivedAt ?st = mx_lastReceivedAt st"
      "mx_highestAckedBySelf st \<le> mx_highestAckedBySelf ?st" "mx_highestAckedBySelf ?st \<le> max (mx_highestAckedBySelf st) A"
    and unacked: "\<And>s ts. (s, ts) \<in> set (mx_unackedTimestamps ?st) \<Longrightarrow>
         ((s, ts) \<in> set (mx_unackedTimestamps st) \<and> (mx_highestAckedBySelf st < s \<longrightarrow> mx_highestAckedBySelf ?st < s)) \<or>
         (mx_nextOutgoingSeq st \<le> s \<and> s < mx_nextOutgoingSeq ?st \<and> ts = now \<and> (\<exists>a b. MxWrote now s a b \<in> set (snd r)))"
    using rel False unfolding link_rel_def by blast+
  have data: "\<forall>E' fs. (E', MxData fs) \<in> set es \<longrightarrow> mv_now E' \<le> mx_lastReceivedAt st \<and> (\<forall>f\<in>set fs. ack_of f \<le> mx_highestAckedBySelf st)"
    and i: "mx_lastReceivedAt st \<le> T" "mx_highestAckedBySelf st < mx_nextOutgoingSeq st"
    and old: "\<forall>(s, ts)\<in>set (mx_unackedTimestamps st). mx_highestAckedBySelf st < s \<and> (\<exists>t a b. MxWrote t s a b \<in> set out \<and> t \<le> ts) \<and> ts \<le> T"
    using inv r(1) unfolding link_inv_def by blast+
  have "\<forall>E' fs. (E', MxData fs) \<in> set es \<longrightarrow> mv_now E' \<le> mx_lastReceivedAt ?st \<and> (\<forall>f\<in>set fs. ack_of f \<le> mx_highestAckedBySelf ?st)"
    using data r(3,4) by fastforce
  moreover have "mx_highestAckedBySelf ?st < mx_nextOutgoingSeq st" using r(5) i(2) A by simp
  moreover have "mx_highestAckedBySelf ?st < s \<and> (\<exists>t a b. MxWrote t s a b \<in> set (out @ snd r) \<and> t \<le> ts) \<and> ts \<le> T"
    if m: "(s, ts) \<in> set (mx_unackedTimestamps ?st)" for s ts
    using unacked [OF m]
  proof
    assume s: "(s, ts) \<in> set (mx_unackedTimestamps st) \<and> (mx_highestAckedBySelf st < s \<longrightarrow> mx_highestAckedBySelf ?st < s)"
    with old show ?thesis by fastforce
  next
    assume s: "mx_nextOutgoingSeq st \<le> s \<and> s < mx_nextOutgoingSeq ?st \<and> ts = now \<and> (\<exists>a b. MxWrote now s a b \<in> set (snd r))"
    then show ?thesis using \<open>mx_highestAckedBySelf ?st < mx_nextOutgoingSeq st\<close> now by fastforce
  qed
  ultimately show ?thesis using i(1) r(2,3) unfolding link_inv_def by auto
qed

lemma link_inv_later: "link_inv es T out st \<Longrightarrow> T \<le> T' \<Longrightarrow> link_inv es T' out st"
  unfolding link_inv_def by fastforce

lemma link_inv_other: "link_inv es T out st \<Longrightarrow> (case e of MxData fs \<Rightarrow> False | _ \<Rightarrow> True) \<Longrightarrow> link_inv (es @ [(E, e)]) T out st"
  unfolding link_inv_def by (cases e) auto

lemma link_inv_same:
  assumes "link_inv es T out st" "mx_nextOutgoingSeq st' = mx_nextOutgoingSeq st" "mx_lastReceivedAt st' = mx_lastReceivedAt st"
    "mx_disposed st' = mx_disposed st" "mx_highestAckedBySelf st' = mx_highestAckedBySelf st" "mx_unackedTimestamps st' = mx_unackedTimestamps st"
  shows "link_inv es T out st'"
  using assms unfolding link_inv_def by simp

definition acks_sent :: "mux_event \<Rightarrow> mux \<Rightarrow> bool" where
  "acks_sent e st \<longleftrightarrow> (case e of MxData fs \<Rightarrow> list_all (\<lambda>f. ack_of f < mx_nextOutgoingSeq st) fs | _ \<Rightarrow> True)"

lemma link_inv_data:
  assumes inv: "link_inv es T out st" and T: "T \<le> mv_now E" and acks: "acks_sent (MxData fs) st"
  shows "link_inv (es @ [(E, MxData fs)]) (mv_now E) (out @ snd (onData E fs st)) (fst (onData E fs st))"
proof (cases "mx_disposed st \<or> mx_disposed (fst (onData E fs st))")
  case True
  then show ?thesis by (auto simp: link_inv_def onData_def)
next
  case False
  let ?st0 = "st\<lparr>mx_lastReceivedAt := mv_now E\<rparr>"
  define A where "A = Max (insert 0 (ack_of ` set fs))"
  have le: "\<forall>f\<in>set fs. ack_of f \<le> A" by (simp add: A_def)
  have pos: "0 < mx_nextOutgoingSeq st" using inv False by (auto simp: link_inv_def)
  then have A: "A < mx_nextOutgoingSeq ?st0" using acks unfolding A_def acks_sent_def by (auto simp: list_all_iff)
  have inv0: "link_inv es (mv_now E) out ?st0" using link_inv_later [OF inv T] inv T unfolding link_inv_def by fastforce
  have eq: "onData E fs st = emit_each (handle_incoming E) fs ?st0" using False by (simp add: onData_def)
  have "link_inv es (mv_now E) (out @ snd (onData E fs st)) (fst (onData E fs st))"
    unfolding eq by (rule link_inv_rel [OF inv0 link_frames [OF refl le] A order_refl])
  moreover have "mx_lastReceivedAt (fst (onData E fs st)) = mv_now E"
    using link_frames [OF refl le, of E ?st0] False unfolding eq link_rel_def by auto
  moreover have "\<forall>f\<in>set fs. ack_of f \<le> mx_highestAckedBySelf (fst (onData E fs st))"
    using acked_frames [OF le, of E ?st0] False unfolding eq by auto
  ultimately show ?thesis using False unfolding link_inv_def by auto
qed

lemma link_inv_check:
  assumes "link_inv es (mv_now E) out st"
  shows "link_inv es (mv_now E) (out @ snd (check_health E st)) (fst (check_health E st))"
proof (cases "mx_disposed st \<or> mv_now E - mx_lastTickAt st \<le> WAKE_GAP_MS")
  case True
  let ?st1 = "st\<lparr>mx_lastTickAt := mv_now E\<rparr>"
  have eq: "check_health E st = (if mx_disposed st then (st, []) else if link_dead (mv_now E) ?st1 then handleProtocolError ?st1 else (?st1, []))"
    using True by (auto simp: check_health_def Let_def)
  have "link_inv es (mv_now E) out ?st1" by (rule link_inv_same [OF assms]) simp_all
  moreover have "mx_disposed (fst (handleProtocolError ?st1))" by (simp add: handleProtocolError_def mux_dispose_def)
  moreover have "mx_disposed st' \<Longrightarrow> link_inv es (mv_now E) out' st'" for st' out' by (simp add: link_inv_def)
  ultimately show ?thesis using assms unfolding eq by simp
next
  case False
  let ?st0 = "st\<lparr>mx_lastTickAt := mv_now E, mx_lastReceivedAt := mv_now E,
      mx_unackedTimestamps := map (\<lambda>(s, _). (s, mv_now E)) (mx_unackedTimestamps st)\<rparr>"
  have pos: "0 < mx_nextOutgoingSeq st" using assms False by (auto simp: link_inv_def)
  have inv0: "link_inv es (mv_now E) out ?st0"
    using assms False unfolding link_inv_def by fastforce
  have "check_health E st = or_throws (sendKeepAlive E ?st0)" using False by (simp add: check_health_def Let_def)
  then show ?thesis using link_inv_rel [OF inv0 link_or_throws [OF link_keepalive [OF refl]], of 0] pos by simp
qed

lemma link_inv_tick:
  assumes "link_inv es T out st" "T \<le> mv_now E"
  shows "link_inv es (mv_now E) (out @ snd (health_tick E st)) (fst (health_tick E st))"
proof (cases "mx_disposed st")
  case True
  then have "mx_disposed (fst (health_tick E st))" by (simp add: health_tick_def sendKeepAlive_def check_health_def)
  then show ?thesis by (simp add: link_inv_def)
next
  case False
  let ?k = "sendKeepAlive E st"
  have pos: "0 < mx_nextOutgoingSeq st" using assms False by (auto simp: link_inv_def)
  have sent: "link_inv es (mv_now E) (out @ snd (fst ?k)) (fst (fst ?k))"
    using link_inv_rel [OF link_inv_later [OF assms] link_keepalive [OF refl] pos] by simp
  have threw: "link_inv es (mv_now E) (out @ snd (emit_then (fst ?k) (\<lambda>st. (st, [MxThrew])))) (fst (emit_then (fst ?k) (\<lambda>st. (st, [MxThrew]))))"
    by (rule link_inv_rel [OF link_inv_later [OF assms] link_say [OF link_keepalive [OF refl], where out = "\<lambda>_. [MxThrew]"] pos order_refl])
  show ?thesis using link_inv_later [OF assms] link_inv_check [OF sent] threw
    by (cases "mx_healthTimer st"; cases "snd ?k") (simp_all add: health_tick_def case_prod_unfold)
qed

lemma link_step:
  "(case e of MxData fs \<Rightarrow> False | MxTick \<Rightarrow> False | _ \<Rightarrow> True) \<Longrightarrow> link_rel (mv_now E) A st (mux_step (E, e) st)"
  by (cases e)
    (auto simp: link_request link_probe link_probe_timeout link_timeout link_abort link_dispose link_handler onNotification_def
      offNotification_def onNotificationByMethod_def offNotificationByMethod_def onRequest_def offRequest_def onDispose_def offDispose_def
      intro!: link_or_throws link_notify intro: link_quiet split: option.split)

lemma link_inv_step:
  assumes inv: "link_inv es T out st" and T: "T \<le> mv_now E" and acks: "acks_sent e st"
  shows "link_inv (es @ [(E, e)]) (mv_now E) (out @ snd (mux_step (E, e) st)) (fst (mux_step (E, e) st))"
proof (cases "case e of MxData fs \<Rightarrow> False | MxTick \<Rightarrow> False | _ \<Rightarrow> True")
  case True
  have rel: "link_rel (mv_now E) 0 st (mux_step (E, e) st)" by (rule link_step [OF True])
  have "link_inv es (mv_now E) (out @ snd (mux_step (E, e) st)) (fst (mux_step (E, e) st))"
  proof (cases "mx_disposed st")
    case True
    then show ?thesis using rel by (simp add: link_rel_def link_inv_def)
  next
    case False
    then have "0 < mx_nextOutgoingSeq st" using inv by (auto simp: link_inv_def)
    then show ?thesis using link_inv_rel [OF link_inv_later [OF inv T] rel] by simp
  qed
  then show ?thesis by (rule link_inv_other) (use True in \<open>simp split: mux_event.splits\<close>)
next
  case False
  then consider fs where "e = MxData fs" | "e = MxTick" by (cases e) auto
  then show ?thesis
  proof cases
    case 1
    then show ?thesis using link_inv_data [OF inv T] acks by simp
  next
    case 2
    then show ?thesis using link_inv_other [OF link_inv_tick [OF inv T], of MxTick E] by simp
  qed
qed

fun honest_acks :: "(mux_env \<times> mux_event) list \<Rightarrow> mux \<Rightarrow> bool" where
  "honest_acks [] st = True"
| "honest_acks (x # es) st = (acks_sent (snd x) st \<and> honest_acks es (fst (mux_step x st)))"

lemma link_inv_run:
  assumes "link_inv es T out st" "sorted (T # map (mv_now \<circ> fst) xs)" "honest_acks xs st"
  shows "link_inv (es @ xs) (last (T # map (mv_now \<circ> fst) xs)) (out @ snd (mux_run xs st)) (fst (mux_run xs st))"
  using assms
proof (induction xs arbitrary: es T out st)
  case (Cons x xs)
  obtain E e where x: "x = (E, e)" by (cases x)
  have "link_inv (es @ [x]) (mv_now E) (out @ snd (mux_step x st)) (fst (mux_step x st))"
    unfolding x by (rule link_inv_step) (use Cons.prems x in auto)
  from Cons.IH [OF this] show ?case using Cons.prems x by simp
qed simp

lemma oldest_in: "oldest_unacked m = Some t \<Longrightarrow> \<exists>s. (s, t) \<in> set m"
proof -
  let ?f = "\<lambda>(s :: nat, ts :: int) acc. case acc of None \<Rightarrow> Some ts | Some o' \<Rightarrow> Some (if ts < o' then ts else o')"
  have "fold ?f m acc = Some t \<Longrightarrow> acc = Some t \<or> (\<exists>s. (s, t) \<in> set m)" for acc
  proof (induction m arbitrary: acc)
    case (Cons e m)
    obtain s ts where e: "e = (s, ts)" by (cases e)
    from Cons.IH [of "?f e acc"] Cons.prems show ?case by (auto simp: e split: option.splits if_splits)
  qed simp
  then show "oldest_unacked m = Some t \<Longrightarrow> \<exists>s. (s, t) \<in> set m" unfolding oldest_unacked_def by fastforce
qed

text \<open>
  C11: A living channel is not given up.  If the clock does not go back, the relay acknowledges only frames it was
  sent and writing does not fail, then the tick that disposes of the channel finds that no data came for more than
  twenty seconds, and that a frame written more than twenty seconds ago is not acknowledged by anything received.
\<close>

theorem living_link_is_kept:
  assumes "sorted (start # map (mv_now \<circ> fst) es @ [mv_now E])" and "honest_acks es (new_mux start)"
    and "\<not> mv_writeThrows E" and "\<not> mx_disposed (fst (mux_run es (new_mux start)))"
    and "mx_disposed (fst (mux_step (E, MxTick) (fst (mux_run es (new_mux start)))))"
  shows "(\<forall>E' fs. (E', MxData fs) \<in> set es \<longrightarrow> mv_now E - mv_now E' > TIMEOUT_MS) \<and>
    (\<exists>t s a b. MxWrote t s a b \<in> set (snd (mux_run es (new_mux start))) \<and> mv_now E - t > TIMEOUT_MS \<and>
       (\<forall>E' fs. (E', MxData fs) \<in> set es \<longrightarrow> (\<forall>f\<in>set fs. ack_of f < s)))"
proof -
  let ?st = "fst (mux_run es (new_mux start))" and ?out = "snd (mux_run es (new_mux start))"
  let ?k = "sendKeepAlive E ?st" and ?st1 = "fst (fst (sendKeepAlive E ?st))"
  have "link_inv [] start [] (new_mux start)" by (simp add: link_inv_def new_mux_def)
  from link_inv_run [OF this _ assms(2)] assms(1) have inv: "link_inv es (last (start # map (mv_now \<circ> fst) es)) ?out ?st"
    by (simp add: sorted_append)
  have data: "\<And>E' fs. (E', MxData fs) \<in> set es \<Longrightarrow> mv_now E' \<le> mx_lastReceivedAt ?st \<and> (\<forall>f\<in>set fs. ack_of f \<le> mx_highestAckedBySelf ?st)"
    and old: "\<And>s ts. (s, ts) \<in> set (mx_unackedTimestamps ?st) \<Longrightarrow>
      mx_highestAckedBySelf ?st < s \<and> (\<exists>t a b. MxWrote t s a b \<in> set ?out \<and> t \<le> ts)"
    using inv assms(4) unfolding link_inv_def by blast+
  have live: "\<not> mx_disposed ?st1" using assms(3,4)
    by (simp add: sendKeepAlive_def send_frame_def Let_def)
  have rel: "link_rel (mv_now E) 0 ?st (fst ?k)" by (rule link_keepalive [OF refl])
  have received: "mx_lastReceivedAt ?st1 = mx_lastReceivedAt ?st" using rel live by (simp add: link_rel_def)
  have "mx_disposed (fst (check_health E ?st1))"
    using assms(4,5) live by (cases "mx_healthTimer ?st"; cases "snd ?k") (simp_all add: health_tick_def case_prod_unfold)
  then have dead: "link_dead (mv_now E) (?st1\<lparr>mx_lastTickAt := mv_now E\<rparr>)"
    using live assms(3) by (auto simp: check_health_def Let_def or_throws_def sendKeepAlive_def send_frame_def split: if_splits)
  then obtain ts s where m: "(s, ts) \<in> set (mx_unackedTimestamps ?st1)" "mv_now E - ts > TIMEOUT_MS"
    unfolding link_dead_def by (auto split: option.splits dest!: oldest_in)
  then have "(s, ts) \<in> set (mx_unackedTimestamps ?st)"
    using rel live unfolding link_rel_def by (auto simp: TIMEOUT_MS_def)
  from old [OF this] obtain t a b where w: "mx_highestAckedBySelf ?st < s" "MxWrote t s a b \<in> set ?out" "t \<le> ts" by blast
  have "mv_now E - mx_lastReceivedAt ?st > TIMEOUT_MS" using dead received by (simp add: link_dead_def)
  then have "mv_now E - mv_now E' > TIMEOUT_MS" if "(E', MxData fs) \<in> set es" for E' fs
    using data [OF that] by linarith
  moreover have "ack_of f < s" if "(E', MxData fs) \<in> set es" "f \<in> set fs" for E' fs f
    using data [OF that(1)] that(2) w(1) by fastforce
  moreover have "mv_now E - t > TIMEOUT_MS" using m(2) w(3) by simp
  ultimately show ?thesis using w(2) by blast
qed

definition at_ms :: "int \<Rightarrow> mux_env" where
  "at_ms t = \<lparr>mv_now = t, mv_writeThrows = False, mv_tooLarge = (\<lambda>_. False), mv_encodeError = VUndefined\<rparr>"

text \<open>One frame is received, then nothing: the sixth tick ends it.\<close>

theorem living_link_is_kept_witness:
  "let es = (at_ms 1000, MxData [InFrame 1 0 KeepAliveBody]) # map (\<lambda>t. (at_ms t, MxTick)) [5000, 10000, 15000, 20000, 25000]
   in mx_disposed (fst (mux_step (at_ms 30000, MxTick) (fst (mux_run es (new_mux 0))))) \<and>
     (\<exists>t s a b. MxWrote t s a b \<in> set (snd (mux_run es (new_mux 0))) \<and> 30000 - t > TIMEOUT_MS)"
proof -
  let ?es = "(at_ms 1000, MxData [InFrame 1 0 KeepAliveBody]) # map (\<lambda>t. (at_ms t, MxTick)) [5000, 10000, 15000, 20000, 25000]"
  have d: "mx_disposed (fst (mux_step (at_ms 30000, MxTick) (fst (mux_run ?es (new_mux 0)))))" by code_simp
  have "sorted (0 # map (mv_now \<circ> fst) ?es @ [mv_now (at_ms 30000)])" by code_simp
  moreover have "honest_acks ?es (new_mux 0)" by code_simp
  moreover have "\<not> mv_writeThrows (at_ms 30000)" by (simp add: at_ms_def)
  moreover have "\<not> mx_disposed (fst (mux_run ?es (new_mux 0)))" by code_simp
  ultimately have "\<exists>t s a b. MxWrote t s a b \<in> set (snd (mux_run ?es (new_mux 0))) \<and> mv_now (at_ms 30000) - t > TIMEOUT_MS"
    using living_link_is_kept [of 0 ?es "at_ms 30000"] d by blast
  moreover have "mv_now (at_ms 30000) = 30000" by (simp add: at_ms_def)
  ultimately show ?thesis unfolding Let_def using d by metis
qed

end
