(* ===== verification/Relay_Dispatcher.thy ===== *)
theory Relay_Dispatcher
  imports Json_Rpc
begin

text \<open>
  The relay's end, \<open>src/relay/dispatcher.ts\<close> with \<open>client-request-aborts.ts\<close>: several clients, each with counters of
  its own and a generation that changes with its connection, the handlers running for them, the notifications, the
  lane for bulk frames, and the requests the relay makes of a client.  The sinks and the handlers are outside.  Data
  is the frames it completes.  Handlers and listeners do not call back before they return.
\<close>

subsection \<open>Data\<close>

text \<open>A step of the bulk lane: not run yet, parked until its sink drains, or woken with its continuation queued.\<close>

datatype bulk_phase = BulkQueued | BulkParked | BulkWoken

record bulk_step =
  bk_token :: nat
  bk_method :: jsstr
  bk_params :: "js_value option"
  bk_phase :: bulk_phase

record relay_client =
  rc_canDrain :: bool
  rc_bulkChain :: "bulk_step list"
  rc_nextOutgoingSeq :: nat
  rc_highestReceivedSeq :: nat
  rc_generation :: nat
  rc_closed :: bool

text \<open>A handler at work, with what its context was made of.\<close>

record relay_task =
  tk_client :: nat
  tk_generation :: nat
  tk_id :: rpc_id
  tk_aborted :: bool
  tk_running :: bool

record relay_dispatcher =
  rd_objects :: "relay_client list"
  rd_clients :: "nat list"
  rd_requestHandlers :: "jsstr list"
  rd_notificationHandlers :: "jsstr list"
  rd_tasks :: "relay_task list"
  rd_requestAborts :: "((nat \<times> rpc_id) \<times> nat) list"
  rd_pendingRelayRequests :: "(nat \<times> bool) list"
  rd_clientDetachListeners :: "nat list"
  rd_keepaliveTimer :: bool
  rd_disposed :: bool
  rd_nextRequestId :: nat
  rd_nextToken :: nat

datatype relay_settle = RelayOk js_value | RelayError js_value | RelayTimedOut | RelayDisposed | RelayNotSent

text \<open>Clients are named by position; the source numbers them from one.  \<open>RdWrote\<close> carries the generation it was written in.\<close>

datatype relay_out =
    RdWrote nat nat nat nat frame_body
  | RdInvoked nat nat nat rpc_id jsstr js_value
  | RdNotified nat nat jsstr js_value
  | RdAborted nat
  | RdDetached nat nat
  | RdAttached nat
  | RdSettled nat relay_settle
  | RdRefused
  | RdBulkDone nat bool
  | RdThrew

type_synonym relay_result = "relay_dispatcher \<times> relay_out list"

text \<open>
  What a step meets: what a client's sink does with a write, whether asking a full sink to report its drain comes back
  at once, which messages are over the frame limit, and the error object for one that is.
\<close>

record relay_env =
  rv_write :: "nat \<Rightarrow> write_outcome"
  rv_drainsAtOnce :: bool
  rv_tooLarge :: "rpc_message \<Rightarrow> bool"
  rv_encodeError :: js_value

definition primary :: nat where "primary = 0"

definition createClient :: "bool \<Rightarrow> relay_client" where
  "createClient canDrain =
     \<lparr>rc_canDrain = canDrain, rc_bulkChain = [], rc_nextOutgoingSeq = 1, rc_highestReceivedSeq = 0, rc_generation = 0, rc_closed = False\<rparr>"

definition new_dispatcher :: "bool \<Rightarrow> relay_dispatcher" where
  "new_dispatcher canDrain =
     \<lparr>rd_objects = [createClient canDrain], rd_clients = [primary], rd_requestHandlers = [], rd_notificationHandlers = [],
      rd_tasks = [], rd_requestAborts = [], rd_pendingRelayRequests = [], rd_clientDetachListeners = [],
      rd_keepaliveTimer = True, rd_disposed = False, rd_nextRequestId = 1, rd_nextToken = 0\<rparr>"

definition client_of :: "relay_dispatcher \<Rightarrow> nat \<Rightarrow> relay_client" where
  "client_of d c = rd_objects d ! c"

definition upd_client :: "nat \<Rightarrow> (relay_client \<Rightarrow> relay_client) \<Rightarrow> relay_dispatcher \<Rightarrow> relay_dispatcher" where
  "upd_client c f d = d\<lparr>rd_objects := (rd_objects d)[c := f (rd_objects d ! c)]\<rparr>"

subsection \<open>Aborting\<close>

definition mark_aborted :: "nat \<Rightarrow> relay_dispatcher \<Rightarrow> relay_dispatcher" where
  "mark_aborted t d = d\<lparr>rd_tasks := (rd_tasks d)[t := (rd_tasks d ! t)\<lparr>tk_aborted := True\<rparr>]\<rparr>"

definition aborts_of :: "nat \<Rightarrow> relay_dispatcher \<Rightarrow> nat list" where
  "aborts_of c d = map snd (filter (\<lambda>e. fst (fst e) = c) (rd_requestAborts d))"

definition abortClient :: "nat \<Rightarrow> relay_dispatcher \<Rightarrow> relay_result" where
  "abortClient c d =
     ((fold mark_aborted (aborts_of c d) d)\<lparr>rd_requestAborts := filter (\<lambda>e. fst (fst e) \<noteq> c) (rd_requestAborts d)\<rparr>,
      map RdAborted (aborts_of c d))"

definition abortAll :: "relay_dispatcher \<Rightarrow> relay_result" where
  "abortAll d =
     ((fold mark_aborted (map snd (rd_requestAborts d)) d)\<lparr>rd_requestAborts := []\<rparr>, map (RdAborted \<circ> snd) (rd_requestAborts d))"

subsection \<open>Sending\<close>

definition wake_bulk :: "bulk_step list \<Rightarrow> bulk_step list" where
  "wake_bulk bs = map (\<lambda>b. if bk_phase b = BulkParked then b\<lparr>bk_phase := BulkWoken\<rparr> else b) bs"

definition flushDrainWaiters :: "nat \<Rightarrow> relay_dispatcher \<Rightarrow> relay_dispatcher" where
  "flushDrainWaiters c d = upd_client c (\<lambda>k. k\<lparr>rc_bulkChain := wake_bulk (rc_bulkChain k)\<rparr>) d"

definition notifyClientDetached :: "nat \<Rightarrow> relay_dispatcher \<Rightarrow> relay_result" where
  "notifyClientDetached c d = (d, map (\<lambda>l. RdDetached l c) (rd_clientDetachListeners d))"

text \<open>The end of a client's connection, as a failing write, a lost primary and a detached client share it.\<close>

definition lose_client :: "nat \<Rightarrow> relay_dispatcher \<Rightarrow> relay_result" where
  "lose_client c d =
     emit_then (abortClient c d)
       (emit_quiet (\<lambda>d. flushDrainWaiters c (upd_client c (\<lambda>k. k\<lparr>rc_generation := rc_generation k + 1, rc_closed := True\<rparr>) d)))"

definition forget_client :: "nat \<Rightarrow> relay_dispatcher \<Rightarrow> relay_dispatcher" where
  "forget_client c d = (if c = primary then d else d\<lparr>rd_clients := removeAll c (rd_clients d)\<rparr>)"

text \<open>The flag is the literal \<open>false\<close> of a full sink.\<close>

definition writeFrame :: "relay_env \<Rightarrow> nat \<Rightarrow> nat \<Rightarrow> nat \<Rightarrow> frame_body \<Rightarrow> relay_dispatcher \<Rightarrow> relay_result \<times> bool" where
  "writeFrame E c seq ack body d =
     (case rv_write E c of
        WriteThrows \<Rightarrow> (emit_then (lose_client c d) (\<lambda>d. notifyClientDetached c (forget_client c d)), False)
      | w \<Rightarrow> ((d, [RdWrote c (rc_generation (client_of d c)) seq ack body]), w = WriteSaturated))"

definition relay_encodes :: "relay_env \<Rightarrow> nat \<Rightarrow> nat \<Rightarrow> rpc_message option \<Rightarrow> bool" where
  "relay_encodes E seq ack m \<longleftrightarrow> int seq < 2 ^ 32 \<and> int ack < 2 ^ 32 \<and> (case m of None \<Rightarrow> True | Some msg \<Rightarrow> \<not> rv_tooLarge E msg)"

datatype sent = SentNot | SentFull | SentOk | SentThrew

text \<open>Number the frame, encode it, write it; \<open>None\<close> is a keep-alive.\<close>

definition number_and_write :: "relay_env \<Rightarrow> nat \<Rightarrow> rpc_message option \<Rightarrow> relay_dispatcher \<Rightarrow> relay_result \<times> sent" where
  "number_and_write E c m d =
     (let k = client_of d c; seq = rc_nextOutgoingSeq k; ack = rc_highestReceivedSeq k;
          d1 = upd_client c (\<lambda>k. k\<lparr>rc_nextOutgoingSeq := seq + 1\<rparr>) d
      in if \<not> relay_encodes E seq ack m then ((d1, []), SentThrew)
         else case writeFrame E c seq ack (case m of None \<Rightarrow> KeepAliveBody | Some msg \<Rightarrow> MessageBody msg) d1 of
           (r, full) \<Rightarrow> (r, if full then SentFull else SentOk))"

definition sendFrame :: "relay_env \<Rightarrow> nat \<Rightarrow> rpc_message \<Rightarrow> relay_dispatcher \<Rightarrow> relay_result \<times> sent" where
  "sendFrame E c msg d = (if rd_disposed d \<or> rc_closed (client_of d c) then ((d, []), SentNot) else number_and_write E c (Some msg) d)"

definition relay_throws :: "relay_result \<times> sent \<Rightarrow> relay_result" where
  "relay_throws r = (if snd r = SentThrew then emit_then (fst r) (\<lambda>d. (d, [RdThrew])) else fst r)"

text \<open>One message to all of them, up to the first that throws.\<close>

fun send_all :: "relay_env \<Rightarrow> rpc_message \<Rightarrow> nat list \<Rightarrow> relay_dispatcher \<Rightarrow> relay_result" where
  "send_all E msg [] d = (d, [])"
| "send_all E msg (c # cs) d =
     (case sendFrame E c msg d of
        (r, SentThrew) \<Rightarrow> emit_then r (\<lambda>d. (d, [RdThrew]))
      | (r, _) \<Rightarrow> emit_then r (send_all E msg cs))"

definition relay_notify :: "relay_env \<Rightarrow> jsstr \<Rightarrow> js_value option \<Rightarrow> relay_dispatcher \<Rightarrow> relay_result" where
  "relay_notify E method params d =
     (if rd_disposed d then (d, []) else send_all E (rpc_notification method params) (rd_clients d) d)"

definition notifyClient :: "relay_env \<Rightarrow> nat \<Rightarrow> jsstr \<Rightarrow> js_value option \<Rightarrow> relay_dispatcher \<Rightarrow> relay_result" where
  "notifyClient E c method params d =
     (if rd_disposed d \<or> c \<notin> set (rd_clients d) \<or> rc_closed (client_of d c) then (d, [])
      else relay_throws (sendFrame E c (rpc_notification method params) d))"

fun keepalive_all :: "relay_env \<Rightarrow> nat list \<Rightarrow> relay_dispatcher \<Rightarrow> relay_result" where
  "keepalive_all E [] d = (d, [])"
| "keepalive_all E (c # cs) d =
     (if rc_closed (client_of d c) then keepalive_all E cs d
      else case number_and_write E c None d of
        (r, SentThrew) \<Rightarrow> emit_then r (\<lambda>d. (d, [RdThrew]))
      | (r, _) \<Rightarrow> emit_then r (keepalive_all E cs))"

definition keepalive_tick :: "relay_env \<Rightarrow> relay_dispatcher \<Rightarrow> relay_result" where
  "keepalive_tick E d = (if \<not> rd_keepaliveTimer d \<or> rd_disposed d then (d, []) else keepalive_all E (rd_clients d) d)"

subsection \<open>The bulk lane\<close>

definition add_bulk :: "nat \<Rightarrow> jsstr \<Rightarrow> js_value option \<Rightarrow> nat \<Rightarrow> relay_dispatcher \<Rightarrow> relay_dispatcher" where
  "add_bulk token method params c d =
     (if rc_closed (client_of d c) then d
      else upd_client c (\<lambda>k. k\<lparr>rc_bulkChain := rc_bulkChain k @ [\<lparr>bk_token = token, bk_method = method, bk_params = params, bk_phase = BulkQueued\<rparr>]\<rparr>) d)"

text \<open>One token names the call; it is done for each client it went to.\<close>

definition notifyBulk :: "relay_env \<Rightarrow> jsstr \<Rightarrow> js_value option \<Rightarrow> nat option \<Rightarrow> relay_dispatcher \<Rightarrow> relay_result" where
  "notifyBulk E method params target d =
     (if rd_disposed d then (d, [])
      else (fold (add_bulk (rd_nextToken d) method params)
              (case target of None \<Rightarrow> rd_clients d | Some c \<Rightarrow> filter (\<lambda>x. x = c) (rd_clients d))
              (d\<lparr>rd_nextToken := rd_nextToken d + 1\<rparr>), []))"

definition pop_bulk :: "nat \<Rightarrow> relay_dispatcher \<Rightarrow> relay_dispatcher" where
  "pop_bulk c d = upd_client c (\<lambda>k. k\<lparr>rc_bulkChain := tl (rc_bulkChain k)\<rparr>) d"

definition park_bulk :: "nat \<Rightarrow> relay_dispatcher \<Rightarrow> relay_dispatcher" where
  "park_bulk c d =
     upd_client c (\<lambda>k. k\<lparr>rc_bulkChain := (case rc_bulkChain k of [] \<Rightarrow> [] | b # bs \<Rightarrow> b\<lparr>bk_phase := BulkParked\<rparr> # bs)\<rparr>) d"

definition bulk_done :: "nat \<Rightarrow> nat \<Rightarrow> bool \<Rightarrow> relay_dispatcher \<Rightarrow> relay_result" where
  "bulk_done c token ok d = (pop_bulk c d, [RdBulkDone token ok])"

text \<open>The next continuation of a client's chain.\<close>

definition bulk_runs :: "relay_env \<Rightarrow> nat \<Rightarrow> relay_dispatcher \<Rightarrow> relay_result" where
  "bulk_runs E c d =
     (case rc_bulkChain (client_of d c) of
        [] \<Rightarrow> (d, [])
      | b # bs \<Rightarrow>
          (case bk_phase b of
             BulkParked \<Rightarrow> (d, [])
           | BulkWoken \<Rightarrow> bulk_done c (bk_token b) True d
           | BulkQueued \<Rightarrow>
               (case sendFrame E c (rpc_notification (bk_method b) (bk_params b)) d of
                  (r, SentThrew) \<Rightarrow> emit_then r (bulk_done c (bk_token b) False)
                | (r, SentFull) \<Rightarrow>
                    emit_then r (\<lambda>d. if rd_disposed d \<or> rc_closed (client_of d c) \<or> \<not> rc_canDrain (client_of d c) \<or> rv_drainsAtOnce E
                      then bulk_done c (bk_token b) True d else (park_bulk c d, []))
                | (r, _) \<Rightarrow> emit_then r (bulk_done c (bk_token b) True))))"

subsection \<open>Clients\<close>

definition setWrite :: "bool \<Rightarrow> relay_dispatcher \<Rightarrow> relay_result" where
  "setWrite canDrain d =
     emit_then (abortClient primary d)
       (emit_quiet (\<lambda>d. upd_client primary (\<lambda>k. k\<lparr>rc_nextOutgoingSeq := 1, rc_highestReceivedSeq := 0, rc_generation := rc_generation k + 1, rc_closed := False\<rparr>)
          (flushDrainWaiters primary (upd_client primary (\<lambda>k. k\<lparr>rc_canDrain := canDrain, rc_closed := False\<rparr>) d))))"

definition invalidateClient :: "relay_dispatcher \<Rightarrow> relay_result" where
  "invalidateClient d = emit_then (lose_client primary d) (notifyClientDetached primary)"

definition relay_attachClient :: "bool \<Rightarrow> relay_dispatcher \<Rightarrow> relay_result" where
  "relay_attachClient canDrain d =
     (let c = length (rd_objects d)
      in (d\<lparr>rd_objects := rd_objects d @ [createClient canDrain], rd_clients := rd_clients d @ [c]\<rparr>, [RdAttached c]))"

definition relay_detachClient :: "nat \<Rightarrow> relay_dispatcher \<Rightarrow> relay_result" where
  "relay_detachClient c d =
     (if c \<notin> set (rd_clients d) \<or> c = primary then (d, [])
      else emit_then (lose_client c d) (\<lambda>d. notifyClientDetached c (forget_client c d)))"

subsection \<open>Requests of the relay\<close>

definition relay_requestClient :: "relay_env \<Rightarrow> nat \<Rightarrow> jsstr \<Rightarrow> js_value option \<Rightarrow> relay_dispatcher \<Rightarrow> relay_result" where
  "relay_requestClient E c method params d =
     (if rd_disposed d \<or> c \<notin> set (rd_clients d) \<or> rc_closed (client_of d c) then (d, [RdRefused])
      else
        let i = rd_nextRequestId d
        in case sendFrame E c (rpc_request i method params)
               (d\<lparr>rd_nextRequestId := i + 1, rd_pendingRelayRequests := map_set i False (rd_pendingRelayRequests d)\<rparr>) of
             (r, SentThrew) \<Rightarrow>
               emit_then r (\<lambda>d. (d\<lparr>rd_pendingRelayRequests := map_set i True (rd_pendingRelayRequests d)\<rparr>, [RdSettled i RelayNotSent]))
           | (r, _) \<Rightarrow> r)"

definition requestAnyClient :: "relay_env \<Rightarrow> jsstr \<Rightarrow> js_value option \<Rightarrow> nat option \<Rightarrow> relay_dispatcher \<Rightarrow> relay_result" where
  "requestAnyClient E method params excluded d =
     (let candidates = filter (\<lambda>c. \<not> rc_closed (client_of d c) \<and> Some c \<noteq> excluded) (rd_clients d)
      in case find (\<lambda>c. c \<noteq> primary) candidates of
           Some c \<Rightarrow> relay_requestClient E c method params d
         | None \<Rightarrow> (case candidates of [] \<Rightarrow> (d, [RdRefused]) | c # _ \<Rightarrow> relay_requestClient E c method params d))"

definition relay_drop_request :: "nat \<Rightarrow> relay_dispatcher \<Rightarrow> relay_dispatcher" where
  "relay_drop_request i d = d\<lparr>rd_pendingRelayRequests := map_delete i (rd_pendingRelayRequests d)\<rparr>"

text \<open>The flag of an entry says that its caller knows already.\<close>

definition settle_relay :: "nat \<Rightarrow> bool \<Rightarrow> relay_settle \<Rightarrow> relay_out list" where
  "settle_relay i settled s = (if settled then [] else [RdSettled i s])"

definition relay_request_times_out :: "nat \<Rightarrow> relay_dispatcher \<Rightarrow> relay_result" where
  "relay_request_times_out i d =
     (case map_get (rd_pendingRelayRequests d) i of
        None \<Rightarrow> (d, []) | Some settled \<Rightarrow> (relay_drop_request i d, settle_relay i settled RelayTimedOut))"

definition relay_handleResponse :: "rpc_message \<Rightarrow> relay_dispatcher \<Rightarrow> relay_result" where
  "relay_handleResponse msg d =
     (case rm_id msg of
        Some (IdNum i) \<Rightarrow>
          (case map_get (rd_pendingRelayRequests d) i of
             None \<Rightarrow> (d, [])
           | Some settled \<Rightarrow>
               (relay_drop_request i d,
                settle_relay i settled
                  (case rm_error msg of
                     Some e \<Rightarrow> if js_truthy e then RelayError e else RelayOk (case rm_result msg of None \<Rightarrow> VUndefined | Some v \<Rightarrow> v)
                   | None \<Rightarrow> RelayOk (case rm_result msg of None \<Rightarrow> VUndefined | Some v \<Rightarrow> v))))
      | _ \<Rightarrow> (d, []))"

definition relay_dispose :: "relay_dispatcher \<Rightarrow> relay_result" where
  "relay_dispose d =
     (if rd_disposed d then (d, [])
      else emit_then (d\<lparr>rd_disposed := True, rd_keepaliveTimer := False, rd_pendingRelayRequests := []\<rparr>,
             concat (map (\<lambda>(i, settled). settle_relay i settled RelayDisposed) (rd_pendingRelayRequests d)))
             (\<lambda>d. emit_then (abortAll d) (emit_quiet (\<lambda>d. fold flushDrainWaiters (rd_clients d) d))))"

subsection \<open>Receiving\<close>

definition sendResponse :: "relay_env \<Rightarrow> nat \<Rightarrow> rpc_id \<Rightarrow> js_value + js_value \<Rightarrow> relay_dispatcher \<Rightarrow> relay_result \<times> sent" where
  "sendResponse E c i outcome d =
     sendFrame E c (case outcome of Inl e \<Rightarrow> rpc_failure i e | Inr v \<Rightarrow> rpc_result i (js_null_if_undefined v)) d"

definition method_not_found :: "jsstr \<Rightarrow> js_value" where
  "method_not_found method = rpc_error (-32601) (js ''Method not found: '' @ method)"

definition relay_handleRequest :: "relay_env \<Rightarrow> nat \<Rightarrow> rpc_id \<Rightarrow> jsstr \<Rightarrow> js_value option \<Rightarrow> relay_dispatcher \<Rightarrow> relay_result" where
  "relay_handleRequest E c i method params d =
     (if method \<notin> set (rd_requestHandlers d)
      then relay_throws (sendResponse E c i (Inl (method_not_found method)) d)
      else
        let t = length (rd_tasks d); gen = rc_generation (client_of d c)
        in (d\<lparr>rd_tasks := rd_tasks d @ [\<lparr>tk_client = c, tk_generation = gen, tk_id = i, tk_aborted = False, tk_running = True\<rparr>],
              rd_requestAborts := map_set (c, i) t (rd_requestAborts d)\<rparr>,
            [RdInvoked t c gen i method (case params of None \<Rightarrow> VObj [] | Some p \<Rightarrow> p)]))"

definition isStale :: "relay_dispatcher \<Rightarrow> relay_task \<Rightarrow> bool" where
  "isStale d task \<longleftrightarrow> rc_generation (client_of d (tk_client task)) \<noteq> tk_generation task \<or> tk_client task \<notin> set (rd_clients d) \<or> tk_aborted task"

text \<open>A handler returns, \<open>Inr\<close> its result, or throws, \<open>Inl\<close> the error object made of that.\<close>

definition handler_done :: "relay_env \<Rightarrow> nat \<Rightarrow> js_value + js_value \<Rightarrow> relay_dispatcher \<Rightarrow> relay_result" where
  "handler_done E t outcome d =
     (if \<not> (t < length (rd_tasks d) \<and> tk_running (rd_tasks d ! t)) then (d, [])
      else
        let task = rd_tasks d ! t; c = tk_client task; i = tk_id task;
            d1 = d\<lparr>rd_tasks := (rd_tasks d)[t := task\<lparr>tk_running := False\<rparr>]\<rparr>
        in emit_then
             (if isStale d1 task then (d1, [])
              else case sendResponse E c i outcome d1 of
                (r, SentThrew) \<Rightarrow>
                  (case outcome of
                     Inl e \<Rightarrow> emit_then r (\<lambda>d. (d, [RdThrew]))
                   | Inr v \<Rightarrow> emit_then r (\<lambda>d. relay_throws (sendResponse E c i (Inl (rv_encodeError E)) d)))
              | (r, _) \<Rightarrow> r)
             (emit_quiet (\<lambda>d. d\<lparr>rd_requestAborts := map_delete (c, i) (rd_requestAborts d)\<rparr>)))"

definition relay_handleNotification :: "nat \<Rightarrow> jsstr \<Rightarrow> js_value option \<Rightarrow> relay_dispatcher \<Rightarrow> relay_result" where
  "relay_handleNotification c method params d =
     (if method = js ''rpc.cancel''
      then (case rpc_cancel_id params of
              None \<Rightarrow> (d, [])
            | Some i \<Rightarrow>
                (case map_get (rd_requestAborts d) (c, IdNum i) of None \<Rightarrow> (d, []) | Some t \<Rightarrow> (mark_aborted t d, [RdAborted t])))
      else if method \<in> set (rd_notificationHandlers d)
      then (d, [RdNotified c (rc_generation (client_of d c)) method (case params of None \<Rightarrow> VObj [] | Some p \<Rightarrow> p)])
      else (d, []))"

definition relay_handleMessage :: "relay_env \<Rightarrow> nat \<Rightarrow> rpc_message \<Rightarrow> relay_dispatcher \<Rightarrow> relay_result" where
  "relay_handleMessage E c msg d =
     (case (rm_id msg, rm_method msg) of
        (Some i, Some method) \<Rightarrow> relay_handleRequest E c i method (rm_params msg) d
      | (Some i, None) \<Rightarrow> if rm_result msg \<noteq> None \<or> rm_error msg \<noteq> None then relay_handleResponse msg d else (d, [])
      | (None, Some method) \<Rightarrow> relay_handleNotification c method (rm_params msg) d
      | (None, None) \<Rightarrow> (d, []))"

fun relay_handleFrame :: "relay_env \<Rightarrow> nat \<Rightarrow> incoming \<Rightarrow> relay_dispatcher \<Rightarrow> relay_result" where
  "relay_handleFrame E c InTooLarge d = (d, [])"
| "relay_handleFrame E c (InFrame i ack body) d =
     (let d1 = upd_client c (\<lambda>k. k\<lparr>rc_highestReceivedSeq := max i (rc_highestReceivedSeq k)\<rparr>) d
      in case body of MessageBody msg \<Rightarrow> relay_handleMessage E c msg d1 | _ \<Rightarrow> (d1, []))"

definition feedClient :: "relay_env \<Rightarrow> nat \<Rightarrow> incoming list \<Rightarrow> relay_dispatcher \<Rightarrow> relay_result" where
  "feedClient E c frames d =
     (if c \<notin> set (rd_clients d) \<or> rd_disposed d then (d, []) else emit_each (relay_handleFrame E c) frames d)"

subsection \<open>The machine\<close>

datatype relay_event =
    RdData nat "incoming list"
  | RdHandlerDone nat "js_value + js_value"
  | RdNotify jsstr "js_value option"
  | RdNotifyClient nat jsstr "js_value option"
  | RdNotifyBulk jsstr "js_value option" "nat option"
  | RdBulkRuns nat
  | RdDrained nat
  | RdKeepalive
  | RdRequest nat jsstr "js_value option"
  | RdRequestAny jsstr "js_value option" "nat option"
  | RdRequestTimeout nat
  | RdSetWrite bool
  | RdInvalidate
  | RdAttach bool
  | RdDetach nat
  | RdOnRequest jsstr
  | RdOnNotification jsstr
  | RdOnDetached
  | RdOffDetached nat
  | RdDispose

definition is_object :: "relay_dispatcher \<Rightarrow> nat \<Rightarrow> bool" where
  "is_object d c \<longleftrightarrow> c < length (rd_objects d)"

fun relay_step :: "relay_env \<times> relay_event \<Rightarrow> relay_dispatcher \<Rightarrow> relay_result" where
  "relay_step (E, RdData c frames) d = feedClient E c frames d"
| "relay_step (E, RdHandlerDone t outcome) d = handler_done E t outcome d"
| "relay_step (E, RdNotify m p) d = relay_notify E m p d"
| "relay_step (E, RdNotifyClient c m p) d = notifyClient E c m p d"
| "relay_step (E, RdNotifyBulk m p target) d = notifyBulk E m p target d"
| "relay_step (E, RdBulkRuns c) d = (if is_object d c then bulk_runs E c d else (d, []))"
| "relay_step (E, RdDrained c) d = (if is_object d c then (flushDrainWaiters c d, []) else (d, []))"
| "relay_step (E, RdKeepalive) d = keepalive_tick E d"
| "relay_step (E, RdRequest c m p) d = relay_requestClient E c m p d"
| "relay_step (E, RdRequestAny m p excluded) d = requestAnyClient E m p excluded d"
| "relay_step (E, RdRequestTimeout i) d = relay_request_times_out i d"
| "relay_step (E, RdSetWrite canDrain) d = setWrite canDrain d"
| "relay_step (E, RdInvalidate) d = invalidateClient d"
| "relay_step (E, RdAttach canDrain) d = relay_attachClient canDrain d"
| "relay_step (E, RdDetach c) d = relay_detachClient c d"
| "relay_step (E, RdOnRequest m) d = (d\<lparr>rd_requestHandlers := m # rd_requestHandlers d\<rparr>, [])"
| "relay_step (E, RdOnNotification m) d = (d\<lparr>rd_notificationHandlers := m # rd_notificationHandlers d\<rparr>, [])"
| "relay_step (E, RdOnDetached) d =
     (d\<lparr>rd_clientDetachListeners := rd_clientDetachListeners d @ [rd_nextToken d], rd_nextToken := rd_nextToken d + 1\<rparr>, [])"
| "relay_step (E, RdOffDetached l) d = (d\<lparr>rd_clientDetachListeners := removeAll l (rd_clientDetachListeners d)\<rparr>, [])"
| "relay_step (E, RdDispose) d = relay_dispose d"

abbreviation relay_run :: "(relay_env \<times> relay_event) list \<Rightarrow> relay_dispatcher \<Rightarrow> relay_result" where
  "relay_run es d \<equiv> emit_each relay_step es d"

subsection \<open>A cancellation that is lost\<close>

text \<open>
  A handler of an old connection that outlives it removes, when it ends, the controller that the new connection's
  request of the same number has registered meanwhile: \<open>ClientRequestAborts\<close> keys by client and number, and the
  primary client keeps its number over reconnections.  The cancellation of the new request then finds nothing.
\<close>

lemma slow_handler_disarms_new_request:
  "let E = \<lparr>rv_write = (\<lambda>_. WriteTaken), rv_drainsAtOnce = False, rv_tooLarge = (\<lambda>_. False), rv_encodeError = VNull\<rparr>;
       ask = RdData primary [InFrame 1 0 (MessageBody (rpc_request 1 (js ''scan'') None))];
       cancel = RdData primary [InFrame 2 0 (MessageBody (rpc_notification (js ''rpc.cancel'') (Some (rpc_cancel_params 1))))];
       r = relay_run (map (Pair E) [RdOnRequest (js ''scan''), ask, RdSetWrite True, ask, RdHandlerDone 0 (Inr VNull), cancel]) (new_dispatcher True)
   in snd r = [RdInvoked 0 0 0 (IdNum 1) (js ''scan'') (VObj []), RdAborted 0, RdInvoked 1 0 1 (IdNum 1) (js ''scan'') (VObj [])] \<and>
      map tk_running (rd_tasks (fst r)) = [False, True] \<and> map tk_aborted (rd_tasks (fst r)) = [True, False]"
  by code_simp

end
