(* ===== verification/Relay_Link.thy ===== *)
theory Relay_Link
  imports Ssh_Mux_Props Relay_Dispatcher
begin

text \<open>
  Both ends of an SSH relay together: the desktop's multiplexer of \<open>src/main/ssh/ssh-channel-multiplexer.ts\<close> as the
  primary client of the relay's dispatcher of \<open>src/relay/dispatcher.ts\<close>, over a channel that keeps frames in order in
  both directions and delivers them in pieces of any size, or not at all.  Frames the relay writes after the primary's
  connection was replaced go elsewhere.
\<close>

subsection \<open>The link\<close>

record link =
  lk_mux :: mux
  lk_relay :: relay_dispatcher
  lk_up :: "incoming list"
  lk_down :: "incoming list"

datatype link_out = OfMux mux_out | OfRelay relay_out

text \<open>
  \<open>LkUp\<close> and \<open>LkDown\<close> deliver the next frames.  Callers of the multiplexer do not send \<open>rpc.cancel\<close> themselves.
\<close>

datatype link_event =
    LkMux mux_env mux_event
  | LkRelay relay_env relay_event
  | LkUp relay_env nat
  | LkDown mux_env nat

definition frames_up :: "mux_out list \<Rightarrow> incoming list" where
  "frames_up out = concat (map (\<lambda>x. case x of MxWrote t seq ack body \<Rightarrow> [InFrame seq ack body] | _ \<Rightarrow> []) out)"

definition frames_down :: "relay_out list \<Rightarrow> incoming list" where
  "frames_down out = concat (map (\<lambda>x. case x of RdWrote c g seq ack body \<Rightarrow>
     if c = primary \<and> g = 0 then [InFrame seq ack body] else [] | _ \<Rightarrow> []) out)"

definition put_mux :: "mux_result \<Rightarrow> link \<Rightarrow> link \<times> link_out list" where
  "put_mux r lk = (lk\<lparr>lk_mux := fst r, lk_up := lk_up lk @ frames_up (snd r)\<rparr>, map OfMux (snd r))"

definition put_relay :: "relay_result \<Rightarrow> link \<Rightarrow> link \<times> link_out list" where
  "put_relay r lk = (lk\<lparr>lk_relay := fst r, lk_down := lk_down lk @ frames_down (snd r)\<rparr>, map OfRelay (snd r))"

definition by_callers :: "mux_event \<Rightarrow> bool" where
  "by_callers e \<longleftrightarrow> (case e of MxData fs \<Rightarrow> False | MxNotify m p \<Rightarrow> m \<noteq> js ''rpc.cancel'' | _ \<Rightarrow> True)"

definition not_fed :: "relay_event \<Rightarrow> bool" where
  "not_fed e \<longleftrightarrow> (case e of RdData c fs \<Rightarrow> c \<noteq> primary | _ \<Rightarrow> True)"

fun link_do :: "link_event \<Rightarrow> link \<Rightarrow> link \<times> link_out list" where
  "link_do (LkMux E e) lk = (if by_callers e then put_mux (mux_step (E, e) (lk_mux lk)) lk else (lk, []))"
| "link_do (LkRelay E e) lk = (if not_fed e then put_relay (relay_step (E, e) (lk_relay lk)) lk else (lk, []))"
| "link_do (LkUp E n) lk =
     put_relay (relay_step (E, RdData primary (take n (lk_up lk))) (lk_relay lk)) (lk\<lparr>lk_up := drop n (lk_up lk)\<rparr>)"
| "link_do (LkDown E n) lk =
     put_mux (mux_step (E, MxData (take n (lk_down lk))) (lk_mux lk)) (lk\<lparr>lk_down := drop n (lk_down lk)\<rparr>)"

definition new_link :: "int \<Rightarrow> bool \<Rightarrow> link" where
  "new_link now canDrain = \<lparr>lk_mux = new_mux now, lk_relay = new_dispatcher canDrain, lk_up = [], lk_down = []\<rparr>"

abbreviation link_run :: "link_event list \<Rightarrow> link \<Rightarrow> link \<times> link_out list" where
  "link_run es lk \<equiv> emit_each link_do es lk"

subsection \<open>What a frame means\<close>

fun asks :: "incoming \<Rightarrow> (nat \<times> jsstr \<times> js_value option) option" where
  "asks (InFrame seq ack (MessageBody msg)) =
     (case (rm_id msg, rm_method msg) of
        (Some (IdNum i), Some m) \<Rightarrow> Some (i, m, rm_params msg)
      | _ \<Rightarrow> None)"
| "asks _ = None"

fun cancels :: "incoming \<Rightarrow> nat option" where
  "cancels (InFrame seq ack (MessageBody msg)) =
     (if rm_id msg = None \<and> rm_method msg = Some (js ''rpc.cancel'') then rpc_cancel_id (rm_params msg) else None)"
| "cancels _ = None"

fun answers :: "incoming \<Rightarrow> (nat \<times> rpc_message) option" where
  "answers (InFrame seq ack (MessageBody msg)) =
     (case rm_id msg of
        Some (IdNum i) \<Rightarrow> if rm_result msg \<noteq> None \<or> rm_error msg \<noteq> None then Some (i, msg) else None
      | _ \<Rightarrow> None)"
| "answers _ = None"

text \<open>How the multiplexer settles a request on an answer.\<close>

definition settle_of :: "rpc_message \<Rightarrow> mux_settle" where
  "settle_of msg =
     (let value = SettledOk (case rm_result msg of None \<Rightarrow> VUndefined | Some v \<Rightarrow> v)
      in case rm_error msg of Some e \<Rightarrow> if js_truthy e then SettledError e else value | None \<Rightarrow> value)"

end
