(* ===== verification/Relay_Link_Mux.thy ===== *)
theory Relay_Link_Mux
  imports Relay_Link
begin

text \<open>
  The desktop's side of a relay link: what it asks and cancels, and what it tells its callers on the answers that come.
\<close>

subsection \<open>What the desktop writes\<close>

lemma frames_up_simps [simp]:
  "frames_up [] = []"
  "frames_up (MxWrote t seq ack body # out) = InFrame seq ack body # frames_up out"
  "frames_up (MxSettled i s # out) = frames_up out"
  "frames_up (MxRefused # out) = frames_up out"
  "frames_up (MxProbe w alive # out) = frames_up out"
  "frames_up (MxTransportClose # out) = frames_up out"
  "frames_up (MxDisposed w reason # out) = frames_up out"
  "frames_up (MxNotified w m p # out) = frames_up out"
  "frames_up (MxInvoked w h p # out) = frames_up out"
  "frames_up (MxThrew # out) = frames_up out"
  "frames_up (out @ out') = frames_up out @ frames_up out'"
  by (simp_all add: frames_up_def)

lemma frames_up_map [simp]:
  "frames_up (map (\<lambda>w. MxProbe w alive) ws) = []"
  "frames_up (map (\<lambda>h. MxDisposed h reason) ws) = []"
  "frames_up (map (\<lambda>h. MxNotified h m p) ws) = []"
  by (induction ws) simp_all

lemma frames_up_settle [simp]: "frames_up (settle_pending s e) = []" "frames_up (concat (map (settle_pending s) es)) = []"
  by (auto simp: settle_pending_def) (induction es; auto simp: settle_pending_def)

definition asked :: "incoming list \<Rightarrow> (nat \<times> jsstr \<times> js_value option) list" where
  "asked fs = concat (map (\<lambda>f. case asks f of None \<Rightarrow> [] | Some q \<Rightarrow> [q]) fs)"

lemma asked_simps [simp]: "asked [] = []" "asked (f # fs) = (case asks f of None \<Rightarrow> [] | Some q \<Rightarrow> [q]) @ asked fs"
  "asked (fs @ gs) = asked fs @ asked gs"
  by (simp_all add: asked_def)

text \<open>Frames that neither ask nor cancel, with no request made.\<close>

definition mux_plain :: "mux \<Rightarrow> mux_result \<Rightarrow> bool" where
  "mux_plain st r \<longleftrightarrow> mx_nextRequestId (fst r) = mx_nextRequestId st \<and> (\<forall>f\<in>set (frames_up (snd r)). asks f = None \<and> cancels f = None)"

interpretation plain: composing mux_plain
  by unfold_locales (auto simp: mux_plain_def)

lemma plain_dispose: "mux_plain st (mux_dispose reason st)"
  by (simp add: mux_plain_def mux_dispose_def)

definition plain_message :: "rpc_message option \<Rightarrow> bool" where
  "plain_message m \<longleftrightarrow> asks (InFrame 0 0 (body_of m)) = None \<and> cancels (InFrame 0 0 (body_of m)) = None"

lemma asks_number: "asks (InFrame i j body) = asks (InFrame 0 0 body)" "cancels (InFrame i j body) = cancels (InFrame 0 0 body)"
  by (cases body; simp)+

lemma plain_send: "plain_message m \<Longrightarrow> mux_plain st (fst (send_frame E m st))"
  using plain_dispose [of _ ConnectionLost] asks_number [where body = "body_of m"]
  by (auto simp: send_frame_def Let_def plain_message_def mux_plain_def handleProtocolError_def mux_dispose_def)

lemma plain_messages [simp]:
  "plain_message None" "plain_message (Some (rpc_result i v))" "plain_message (Some (rpc_failure i e))"
  "method \<noteq> js ''rpc.cancel'' \<Longrightarrow> plain_message (Some (rpc_notification method params))"
  by (auto simp: plain_message_def body_of_def rpc_message_defs split: rpc_id.split)

lemma plain_quiet: "mx_nextRequestId (fst r) = mx_nextRequestId st \<Longrightarrow> frames_up (snd r) = [] \<Longrightarrow> mux_plain st r"
  by (simp add: mux_plain_def)

lemma plain_state: "mx_nextRequestId st' = mx_nextRequestId st \<Longrightarrow> mux_plain st' r \<Longrightarrow> mux_plain st r"
  by (simp add: mux_plain_def)

lemma plain_or_throws: "mux_plain st (fst r) \<Longrightarrow> mux_plain st (or_throws r)"
  by (auto simp: or_throws_def mux_plain_def)

lemma plain_keepalive: "mux_plain st (fst (sendKeepAlive E st))"
  by (simp add: sendKeepAlive_def plain_send plain.keeps_same)

lemma plain_notify: "method \<noteq> js ''rpc.cancel'' \<Longrightarrow> mux_plain st (fst (mux_notify E method params st))"
  by (simp add: mux_notify_def sendMessage_def plain_send plain.keeps_same)

lemma plain_handle_request: "mux_plain st (handleRequest E i method params st)"
  by (cases "map_get (mx_requestHandlers st) method")
    (simp_all add: handleRequest_def Let_def sendMessage_def plain_or_throws plain_send plain_quiet)

lemma plain_handle_message: "mux_plain st (handleMessage E msg st)"
  by (auto simp: handleMessage_def plain.keeps_same plain_handle_request handleResponse_def handleNotification_def Let_def drop_pending_def
    intro!: plain_quiet split: option.split rpc_id.split)

lemma plain_incoming: "mux_plain st (handle_incoming E f st)"
proof (cases f)
  case (InFrame i ack body)
  have "mux_plain st (handleFrame E i ack body st)"
    unfolding handleFrame_def Let_def handleProtocolError_def
    by (rule plain.keeps_then)
      (auto intro: plain_quiet plain_dispose plain_handle_message plain.keeps_same split: frame_body.split)
  then show ?thesis using InFrame by (simp add: plain.keeps_same)
qed (simp add: handleProtocolError_def plain_dispose)

lemma plain_handler: "mux_plain st (handler_settles E t outcome st)"
proof -
  have twice: "mux_plain st1 (emit_then (fst (sendMessage E (rpc_result i v) st1)) (\<lambda>st. or_throws (sendMessage E (rpc_failure i e) st)))" for st1 i v e
    by (rule plain.keeps_then) (simp_all add: sendMessage_def plain_send plain_or_throws)
  have once: "mux_plain st1 (or_throws (sendMessage E (rpc_failure i e) st1))" "mux_plain st1 (fst (sendMessage E (rpc_result i v) st1))" for st1 i v e
    by (simp_all add: sendMessage_def plain_send plain_or_throws)
  show ?thesis
  proof (cases "map_get (mx_tasks st) t")
    case None
    then show ?thesis by (simp add: handler_settles_def plain.keeps_same)
  next
    case (Some i)
    let ?st1 = "st\<lparr>mx_tasks := map_delete t (mx_tasks st)\<rparr>"
    have "mux_plain ?st1 (handler_settles E t outcome st)"
      using Some twice [of ?st1] once [of ?st1] by (simp add: handler_settles_def Let_def case_prod_unfold split: sum.split bool.split)
    then show ?thesis by (rule plain_state [rotated]) simp
  qed
qed

lemma plain_check: "mux_plain st (check_health E st)"
  unfolding check_health_def Let_def handleProtocolError_def
  by (auto intro!: plain.keeps_same plain_quiet plain_state [OF _ plain_or_throws [OF plain_keepalive]] plain_state [OF _ plain_dispose])

lemma plain_tick: "mux_plain st (health_tick E st)"
  by (auto simp: health_tick_def case_prod_unfold plain.keeps_same split: bool.split
    intro!: plain.keeps_then [OF plain_keepalive] plain_check plain_quiet)

lemma plain_step:
  "(case e of MxRequest m p s a \<Rightarrow> False | MxTimeout i \<Rightarrow> False | MxAbort i \<Rightarrow> False | MxNotify m p \<Rightarrow> m \<noteq> js ''rpc.cancel'' | _ \<Rightarrow> True) \<Longrightarrow>
   mux_plain st (mux_step (E, e) st)"
  by (cases e)
    (auto simp: probeLiveness_def Let_def probe_times_out_def plain_tick plain_handler plain_dispose onData_def plain.keeps_same onNotification_def
      offNotification_def onNotificationByMethod_def offNotificationByMethod_def onRequest_def offRequest_def onDispose_def offDispose_def
      intro!: plain_or_throws plain_notify plain_quiet plain_state [OF _ plain_or_throws [OF plain_keepalive]]
        plain_state [OF _ plain.keeps_each [OF plain_incoming]] split: option.split)

text \<open>
  What a step of the desktop writes: requests under new numbers, each once; a cancellation only of a request nobody
  waits for any more; and whoever begins to wait has asked.
\<close>

definition mux_says :: "mux \<Rightarrow> mux_result \<Rightarrow> bool" where
  "mux_says st r \<longleftrightarrow> (let fs = frames_up (snd r); st' = fst r
     in distinct (map fst (asked fs)) \<and> fst ` set (asked fs) \<subseteq> {mx_nextRequestId st..<mx_nextRequestId st'} \<and>
        (\<forall>f\<in>set fs. \<forall>i. cancels f = Some i \<longrightarrow> i < mx_nextRequestId st' \<and> i \<notin> waiting_requests st') \<and>
        waiting_requests st' - waiting_requests st \<subseteq> fst ` set (asked fs))"

lemma plain_asked: "mux_plain st r \<Longrightarrow> asked (frames_up (snd r)) = []"
  unfolding mux_plain_def by (induction "frames_up (snd r)" arbitrary: r) (auto simp: asked_def)

lemma says_plain:
  assumes "mux_plain st r" "mux_keeps st r" "mux_ok st"
  shows "mux_says st r"
proof -
  have "waiting_requests (fst r) \<subseteq> waiting_requests st"
    using assms unfolding mux_plain_def mux_keeps_def by auto
  then show ?thesis using assms(1) plain_asked [OF assms(1)] unfolding mux_says_def mux_plain_def Let_def by auto
qed

lemma send_cases:
  "fst (send_frame E m st) = (st\<lparr>mx_nextOutgoingSeq := mx_nextOutgoingSeq st + 1\<rparr>, []) \<and> snd (send_frame E m st) \<or>
   \<not> snd (send_frame E m st) \<and> (\<exists>st1. mx_pendingRequests st1 = mx_pendingRequests st \<and> mx_nextRequestId st1 = mx_nextRequestId st \<and>
      mx_disposed st1 = mx_disposed st \<and> (fst (send_frame E m st) = handleProtocolError st1 \<or>
      fst (send_frame E m st) = (st1, [MxWrote (mv_now E) (mx_nextOutgoingSeq st) (mx_highestReceivedSeq st) (body_of m)])))"
  by (auto simp: send_frame_def Let_def) (metis (no_types, lifting) mux.select_convs(1,6,13) mux.surjective mux.update_convs(2,14))+

lemma disposed_idle: "\<not> mx_disposed st \<Longrightarrow> waiting_requests (fst (mux_dispose reason st)) = {}"
  by (simp add: mux_dispose_def waiting_requests_def)

lemma dispose_frames [simp]: "frames_up (snd (mux_dispose reason st)) = []" "mx_nextRequestId (fst (mux_dispose reason st)) = mx_nextRequestId st"
  by (simp_all add: mux_dispose_def)

lemma asks_request [simp]:
  "asks (InFrame s a (body_of (Some (rpc_request i m p)))) = Some (i, m, p)"
  "cancels (InFrame s a (body_of (Some (rpc_request i m p)))) = None"
  by (simp_all add: body_of_def rpc_request_def)

lemma asks_cancel [simp]:
  "asks (InFrame s a (body_of (Some (rpc_notification m p)))) = None"
  "cancels (InFrame s a (body_of (Some (rpc_notification (js ''rpc.cancel'') (Some (rpc_cancel_params i)))))) = Some i"
  by (simp_all add: body_of_def rpc_notification_def)

lemma says_request:
  assumes ok: "mux_ok st"
  shows "mux_says st (mux_request E method params signal aborted st)"
proof (cases "mx_disposed st \<or> (signal \<and> aborted)")
  case True
  then show ?thesis by (simp add: mux_request_def mux_says_def)
next
  case False
  let ?i = "mx_nextRequestId st" and ?p = "\<lparr>mp_method = method, mp_signal = signal, mp_settled = False\<rparr>"
  let ?st1 = "set_pending ?i ?p (st\<lparr>mx_nextRequestId := ?i + 1\<rparr>)"
  let ?send = "send_frame E (Some (rpc_request ?i method params)) ?st1"
  have fresh: "?i \<notin> waiting_requests st" using waiting_below [OF ok] by auto
  have w1: "waiting_requests st2 = insert ?i (waiting_requests st)" if "mx_pendingRequests st2 = mx_pendingRequests ?st1" for st2
    using that by (auto simp: waiting_requests_def set_pending_def)
  have w2: "waiting_requests (set_pending ?i (?p\<lparr>mp_settled := True\<rparr>) (?st1\<lparr>mx_nextOutgoingSeq := n\<rparr>)) = waiting_requests st" for n
    using fresh by (auto simp: waiting_requests_def set_pending_def)
  have eq: "mux_request E method params signal aborted st =
      (if snd ?send then emit_then (fst ?send) (\<lambda>st. (set_pending ?i (?p\<lparr>mp_settled := True\<rparr>) st, [MxSettled ?i SettledNotSent])) else fst ?send)"
    using False by (auto simp: mux_request_def Let_def sendMessage_def case_prod_unfold split: bool.splits)
  consider "fst ?send = (?st1\<lparr>mx_nextOutgoingSeq := mx_nextOutgoingSeq ?st1 + 1\<rparr>, [])" "snd ?send"
    | st2 where "\<not> snd ?send" "mx_pendingRequests st2 = mx_pendingRequests ?st1" "mx_nextRequestId st2 = mx_nextRequestId ?st1"
        "mx_disposed st2 = mx_disposed ?st1" "fst ?send = handleProtocolError st2"
    | st2 where "\<not> snd ?send" "mx_pendingRequests st2 = mx_pendingRequests ?st1" "mx_nextRequestId st2 = mx_nextRequestId ?st1"
        "fst ?send = (st2, [MxWrote (mv_now E) (mx_nextOutgoingSeq ?st1) (mx_highestReceivedSeq ?st1) (body_of (Some (rpc_request ?i method params)))])"
    using send_cases [of E "Some (rpc_request ?i method params)" ?st1] by blast
  then show ?thesis
  proof cases
    case 1
    then show ?thesis unfolding eq mux_says_def Let_def using w2 by (simp add: emit_then_def)
  next
    case 2
    then show ?thesis unfolding eq mux_says_def Let_def handleProtocolError_def
      using False disposed_idle [of st2 ConnectionLost] by simp
  next
    case 3
    then show ?thesis unfolding eq mux_says_def Let_def using w1 [OF 3(2)] by auto
  qed
qed

lemma notify_cancel_cases:
  assumes "\<not> mx_disposed st"
  shows "\<exists>st1. mx_nextRequestId st1 = mx_nextRequestId st \<and>
     mx_pendingRequests st1 = mx_pendingRequests st \<and> mx_disposed st1 = mx_disposed st \<and>
     (fst (mux_notify E (js ''rpc.cancel'') (Some (rpc_cancel_params i)) st) = (st1, []) \<or>
      fst (mux_notify E (js ''rpc.cancel'') (Some (rpc_cancel_params i)) st) = handleProtocolError st1 \<or>
      (\<exists>t s a. fst (mux_notify E (js ''rpc.cancel'') (Some (rpc_cancel_params i)) st) =
        (st1, [MxWrote t s a (body_of (Some (rpc_notification (js ''rpc.cancel'') (Some (rpc_cancel_params i)))))])))"
proof -
  let ?m = "Some (rpc_notification (js ''rpc.cancel'') (Some (rpc_cancel_params i)))"
  have eq: "mux_notify E (js ''rpc.cancel'') (Some (rpc_cancel_params i)) st = send_frame E ?m st"
    using assms by (simp add: mux_notify_def sendMessage_def)
  from send_cases [of E ?m st] show ?thesis
  proof (elim disjE conjE exE)
    assume "fst (send_frame E ?m st) = (st\<lparr>mx_nextOutgoingSeq := mx_nextOutgoingSeq st + 1\<rparr>, [])"
    then show ?thesis unfolding eq by (intro exI [of _ "st\<lparr>mx_nextOutgoingSeq := mx_nextOutgoingSeq st + 1\<rparr>"]) simp
  next
    fix st1
    assume "mx_pendingRequests st1 = mx_pendingRequests st" "mx_nextRequestId st1 = mx_nextRequestId st" "mx_disposed st1 = mx_disposed st"
      "fst (send_frame E ?m st) = handleProtocolError st1"
    then show ?thesis unfolding eq by (intro exI [of _ st1]) simp
  next
    fix st1
    assume "mx_pendingRequests st1 = mx_pendingRequests st" "mx_nextRequestId st1 = mx_nextRequestId st" "mx_disposed st1 = mx_disposed st"
      "fst (send_frame E ?m st) = (st1, [MxWrote (mv_now E) (mx_nextOutgoingSeq st) (mx_highestReceivedSeq st) (body_of ?m)])"
    then show ?thesis unfolding eq by (intro exI [of _ st1]) blast
  qed
qed

lemma says_dropped:
  assumes ok: "mux_ok st" and pending: "map_get (mx_pendingRequests st) i = Some p"
    and next_id: "mx_nextRequestId (fst r) = mx_nextRequestId st"
    and frames: "\<forall>f\<in>set (frames_up (snd r)). asks f = None \<and> (cancels f = None \<or> cancels f = Some i)"
    and waiting: "waiting_requests (fst r) \<subseteq> waiting_requests st" and dropped: "frames_up (snd r) \<noteq> [] \<Longrightarrow> i \<notin> waiting_requests (fst r)"
  shows "mux_says st r"
proof -
  have "asked (frames_up (snd r)) = []" using frames by (induction "frames_up (snd r)" arbitrary: r) (auto simp: asked_def)
  moreover have "i < mx_nextRequestId st" using ok map_get_in [OF pending] by (force simp: mux_ok_def)
  ultimately show ?thesis using assms unfolding mux_says_def Let_def by fastforce
qed

lemma pending_live: "mux_ok st \<Longrightarrow> map_get (mx_pendingRequests st) i = Some p \<Longrightarrow> \<not> mx_disposed st"
  by (auto simp: mux_ok_def)

lemma says_abort:
  assumes ok: "mux_ok st"
  shows "mux_says st (onAbort E i st)"
proof (cases "map_get (mx_pendingRequests st) i")
  case None
  then show ?thesis by (simp add: onAbort_def mux_says_def)
next
  case (Some p)
  show ?thesis
  proof (cases "mp_signal p")
    case False
    with Some show ?thesis by (simp add: onAbort_def mux_says_def)
  next
    case True
    let ?n = "mux_notify E (js ''rpc.cancel'') (Some (rpc_cancel_params i)) (drop_pending i st)"
    have live: "\<not> mx_disposed (drop_pending i st)" using pending_live [OF ok Some] by simp
    obtain out where eq: "onAbort E i st = emit_then (fst ?n) (\<lambda>st. (st, out))" "frames_up out = []"
      using Some True by (cases "snd ?n") (auto simp: onAbort_def case_prod_unfold split: bool.splits)
    from notify_cancel_cases [OF live, of E i] obtain st1 where st1: "mx_nextRequestId st1 = mx_nextRequestId st"
        "mx_pendingRequests st1 = mx_pendingRequests (drop_pending i st)" "\<not> mx_disposed st1"
      and n: "fst ?n = (st1, []) \<or> fst ?n = handleProtocolError st1 \<or>
        (\<exists>t s a. fst ?n = (st1, [MxWrote t s a (body_of (Some (rpc_notification (js ''rpc.cancel'') (Some (rpc_cancel_params i)))))]))"
      using live by auto
    have w: "waiting_requests st1 = waiting_requests st - {i}"
      using waiting_drop [of i st] waiting_same [OF st1(2)] by simp
    show ?thesis
      by (rule says_dropped [OF ok Some])
        (use n w st1 eq disposed_idle [OF st1(3), of ConnectionLost] in \<open>auto simp: handleProtocolError_def\<close>)
  qed
qed

lemma says_timeout:
  assumes ok: "mux_ok st"
  shows "mux_says st (request_times_out E i st)"
proof (cases "map_get (mx_pendingRequests st) i")
  case None
  then show ?thesis by (simp add: request_times_out_def mux_says_def)
next
  case (Some p)
  let ?n = "mux_notify E (js ''rpc.cancel'') (Some (rpc_cancel_params i)) st"
  have live: "\<not> mx_disposed st" by (rule pending_live [OF ok Some])
  from notify_cancel_cases [OF live, of E i] obtain st1 where st1: "mx_nextRequestId st1 = mx_nextRequestId st"
      "mx_pendingRequests st1 = mx_pendingRequests st" "\<not> mx_disposed st1"
    and n: "fst ?n = (st1, []) \<or> fst ?n = handleProtocolError st1 \<or>
      (\<exists>t s a. fst ?n = (st1, [MxWrote t s a (body_of (Some (rpc_notification (js ''rpc.cancel'') (Some (rpc_cancel_params i)))))]))"
    using live by auto
  have w: "waiting_requests st1 = waiting_requests st" by (rule waiting_same [OF st1(2)])
  show ?thesis
  proof (cases "snd ?n")
    case True
    then have "request_times_out E i st = emit_then (fst ?n) (\<lambda>st. (st, [MxThrew]))"
      using Some by (auto simp: request_times_out_def case_prod_unfold split: bool.splits)
    moreover have "fst ?n = (st\<lparr>mx_nextOutgoingSeq := mx_nextOutgoingSeq st + 1\<rparr>, [])"
      using True live send_threw by (auto simp: mux_notify_def sendMessage_def)
    ultimately show ?thesis
      by (intro says_dropped [OF ok Some]) (simp_all add: waiting_requests_def)
  next
    case False
    then have eq: "request_times_out E i st = emit_then (fst ?n) (\<lambda>st'. (drop_pending i st',
        if map_get (mx_pendingRequests st') i = None then [] else settle_pending SettledTimeout (i, p)))"
      using Some by (auto simp: request_times_out_def case_prod_unfold split: bool.splits)
    show ?thesis
      by (rule says_dropped [OF ok Some])
        (use n w st1 eq disposed_idle [OF st1(3), of ConnectionLost] in \<open>auto simp: handleProtocolError_def waiting_drop\<close>)
  qed
qed

lemma says_step:
  assumes "mux_ok st" and "by_callers e \<or> (\<exists>fs. e = MxData fs)"
  shows "mux_says st (mux_step (E, e) st)"
proof (cases "case e of MxRequest m p s a \<Rightarrow> False | MxTimeout i \<Rightarrow> False | MxAbort i \<Rightarrow> False | MxNotify m p \<Rightarrow> m \<noteq> js ''rpc.cancel'' | _ \<Rightarrow> True")
  case True
  then show ?thesis by (intro says_plain plain_step keeps_step assms(1))
next
  case False
  then show ?thesis using assms says_request says_timeout says_abort by (cases e) (auto simp: by_callers_def)
qed

subsection \<open>What the desktop makes of answers\<close>

definition is_reply :: "mux_settle \<Rightarrow> bool" where
  "is_reply s \<longleftrightarrow> (case s of SettledOk v \<Rightarrow> True | SettledError e \<Rightarrow> True | _ \<Rightarrow> False)"

lemma is_reply_simps [simp]:
  "is_reply (SettledOk v)" "is_reply (SettledError e)" "\<not> is_reply SettledTimeout" "\<not> is_reply SettledAborted"
  "\<not> is_reply (SettledClosed reason)" "\<not> is_reply SettledNotSent"
  by (simp_all add: is_reply_def)

text \<open>Replies are told only on the answers in \<open>fs\<close>.\<close>

definition replies_from :: "incoming list \<Rightarrow> mux \<Rightarrow> mux_result \<Rightarrow> bool" where
  "replies_from fs st r \<longleftrightarrow> (\<forall>i s. MxSettled i s \<in> set (snd r) \<longrightarrow> is_reply s \<longrightarrow> (\<exists>f\<in>set fs. \<exists>msg. answers f = Some (i, msg) \<and> s = settle_of msg))"

interpretation replies: composing "replies_from fs" for fs
  by unfold_locales (auto simp: replies_from_def)

lemma replies_quiet: "(\<And>i s. MxSettled i s \<in> set (snd r) \<Longrightarrow> \<not> is_reply s) \<Longrightarrow> replies_from fs st r"
  by (auto simp: replies_from_def)

lemma replies_any_state: "replies_from fs st' r \<Longrightarrow> replies_from fs st r"
  by (simp add: replies_from_def)

lemma replies_dispose: "replies_from fs st (mux_dispose reason st)"
  by (rule replies_quiet) (auto simp: mux_dispose_def settle_pending_def split: if_splits)

lemma replies_send: "replies_from fs st (fst (send_frame E m st))"
  using replies_dispose by (auto simp: send_frame_def Let_def handleProtocolError_def replies_from_def)

lemma replies_message: "replies_from fs st (fst (sendMessage E m st))"
  by (simp add: sendMessage_def replies_send)

lemma replies_notify: "replies_from fs st (fst (mux_notify E method params st))"
  by (simp add: mux_notify_def replies_message replies.keeps_same)

lemma replies_keepalive: "replies_from fs st (fst (sendKeepAlive E st))"
  by (simp add: sendKeepAlive_def replies_send replies.keeps_same)

lemma replies_then: "replies_from fs st r \<Longrightarrow> (\<And>st'. replies_from fs st' (f st')) \<Longrightarrow> replies_from fs st (emit_then r f)"
  by (rule replies.keeps_then)

lemma replies_say: "replies_from fs st r \<Longrightarrow> (\<And>i s st'. MxSettled i s \<in> set (out st') \<Longrightarrow> \<not> is_reply s) \<Longrightarrow>
    replies_from fs st (emit_then r (\<lambda>st. (g st, out st)))"
  by (rule replies_then) (auto intro: replies_quiet)

lemma replies_or_throws: "replies_from fs st (fst r) \<Longrightarrow> replies_from fs st (or_throws r)"
  by (auto simp: or_throws_def intro: replies_say)

lemma in_settle [simp]: "MxSettled j s' \<in> set (settle_pending s e) \<longleftrightarrow> \<not> mp_settled (snd e) \<and> j = fst e \<and> s' = s"
  by (auto simp: settle_pending_def)

lemma replies_check: "replies_from fs st (check_health E st)"
proof -
  have "replies_from fs st' (or_throws (sendKeepAlive E st'))" "replies_from fs st' (handleProtocolError st')" for st'
    by (simp_all add: replies_or_throws replies_keepalive handleProtocolError_def replies_dispose)
  then show ?thesis unfolding check_health_def Let_def
    by (auto simp: replies.keeps_same intro: replies_any_state replies_quiet)
qed

lemma replies_handler: "replies_from fs st (handler_settles E t outcome st)"
proof -
  have "replies_from fs st' (emit_then (fst (sendMessage E m st')) (\<lambda>st. or_throws (sendMessage E m' st)))" for st' m m'
    by (rule replies_then) (simp_all add: replies_message replies_or_throws)
  then have "replies_from fs st (emit_then (fst (sendMessage E m st')) (\<lambda>st. or_throws (sendMessage E m' st)))" for st' m m'
    by (rule replies_any_state)
  moreover have "replies_from fs st (or_throws (sendMessage E m st'))" "replies_from fs st (fst (sendMessage E m st'))" for st' m
    by (rule replies_any_state [OF replies_or_throws [OF replies_message]], rule replies_any_state [OF replies_message])
  ultimately show ?thesis
    by (simp add: handler_settles_def Let_def case_prod_unfold replies.keeps_same split: option.split sum.split bool.split)
qed

lemma replies_request: "replies_from fs st (mux_request E method params signal aborted st)"
proof -
  have "replies_from fs st (fst (sendMessage E m st'))" for st' m using replies_any_state [OF replies_message] .
  then show ?thesis unfolding mux_request_def Let_def
    by (simp add: case_prod_unfold split: bool.split) (auto intro: replies_quiet replies_say)
qed

lemma replies_cancel: "replies_from fs st (onAbort E i st)" "replies_from fs st (request_times_out E i st)"
proof -
  have n: "replies_from fs st (fst (mux_notify E m p st'))" for m p st' using replies_any_state [OF replies_notify] .
  show "replies_from fs st (onAbort E i st)" unfolding onAbort_def
    by (simp add: case_prod_unfold replies.keeps_same split: option.split bool.split)
      (auto intro!: replies_say n)
  show "replies_from fs st (request_times_out E i st)" unfolding request_times_out_def
    by (simp add: case_prod_unfold replies.keeps_same split: option.split bool.split)
      (auto intro!: replies_say n split: if_splits)
qed

lemma replies_step: "(case e of MxData fs' \<Rightarrow> False | _ \<Rightarrow> True) \<Longrightarrow> replies_from fs st (mux_step (E, e) st)"
proof -
  have probe: "replies_from fs st (probeLiveness E st)" unfolding probeLiveness_def Let_def
    by (auto intro: replies_quiet replies_any_state [OF replies_or_throws [OF replies_keepalive]])
  have tick: "replies_from fs st (health_tick E st)" unfolding health_tick_def
    by (auto simp: case_prod_unfold replies.keeps_same split: bool.split intro: replies_say replies_then replies_keepalive replies_check)
  assume "case e of MxData fs' \<Rightarrow> False | _ \<Rightarrow> True"
  then show ?thesis
    by (cases e)
      (auto simp: probe tick replies_request replies_cancel replies_handler replies_dispose probe_times_out_def
        intro: replies_or_throws replies_notify replies_quiet)
qed

text \<open>Whoever is answered does not wait any longer.\<close>

definition answered :: "incoming list \<Rightarrow> (nat \<times> rpc_message) set" where
  "answered fs = {a. \<exists>f\<in>set fs. answers f = Some a}"

lemma answered_simps [simp]:
  "answered [] = {}" "answered (f # fs) = (case answers f of None \<Rightarrow> {} | Some a \<Rightarrow> {a}) \<union> answered fs"
  "answered (fs @ gs) = answered fs \<union> answered gs"
  by (auto simp: answered_def split: option.split)

lemma response_cases:
  assumes "rm_id msg = Some (IdNum i)" and "rm_result msg \<noteq> None \<or> rm_error msg \<noteq> None"
  shows "handleResponse msg st =
    (case map_get (mx_pendingRequests st) i of None \<Rightarrow> (st, []) | Some p \<Rightarrow> (drop_pending i st, settle_pending (settle_of msg) (i, p)))"
  using assms by (simp add: handleResponse_def settle_of_def Let_def split: option.split)

lemma response_waiting:
  assumes "rm_id msg = Some (IdNum i)"
  shows "i \<notin> waiting_requests (fst (handleResponse msg st))"
  using assms waiting_drop [of i st] by (auto simp: handleResponse_def waiting_requests_def split: option.split)

lemma reply_response:
  assumes "MxSettled i s \<in> set (snd (handleResponse msg st))" and "rm_result msg \<noteq> None \<or> rm_error msg \<noteq> None"
  shows "rm_id msg = Some (IdNum i) \<and> s = settle_of msg"
proof (cases "rm_id msg")
  case None
  then show ?thesis using assms by (simp add: handleResponse_def)
next
  case (Some x)
  show ?thesis
  proof (cases x)
    case (IdNum j)
    then show ?thesis using assms response_cases [of msg j st] Some by (auto split: option.splits)
  next
    case (IdOther v)
    then show ?thesis using assms Some by (simp add: handleResponse_def)
  qed
qed

lemma reply_request: "replies_from fs st (handleRequest E i method params st)"
  unfolding handleRequest_def Let_def
  by (auto intro: replies_or_throws replies_message replies_quiet split: option.split)

lemma reply_message:
  assumes "MxSettled i s \<in> set (snd (handleMessage E msg st))" and "is_reply s"
  shows "answers (InFrame j ack (MessageBody msg)) = Some (i, msg) \<and> s = settle_of msg"
proof (cases "rm_id msg \<noteq> None \<and> (rm_result msg \<noteq> None \<or> rm_error msg \<noteq> None)")
  case True
  then have "handleMessage E msg st = handleResponse msg st" by (auto simp: handleMessage_def)
  then show ?thesis using reply_response assms(1) True by simp
next
  case False
  have "replies_from [] st (handleMessage E msg st)"
    using False unfolding handleMessage_def handleNotification_def Let_def
    by (auto simp: replies.keeps_same reply_request intro: replies_quiet split: option.split)
  then show ?thesis using assms by (simp add: replies_from_def)
qed

lemma incoming_frame:
  "handle_incoming E (InFrame j ack body) st = (if mx_disposed st then (st, []) else
     emit_then (take_acks ack (st\<lparr>mx_livenessProbeWaiters := [], mx_highestReceivedSeq := max j (mx_highestReceivedSeq st)\<rparr>),
       map (\<lambda>w. MxProbe w True) (mx_livenessProbeWaiters st))
     (case body of MessageBody msg \<Rightarrow> handleMessage E msg | BrokenBody \<Rightarrow> handleProtocolError | _ \<Rightarrow> (\<lambda>st. (st, []))))"
  by (simp add: handleFrame_def Let_def)

lemma reply_incoming:
  assumes "MxSettled i s \<in> set (snd (handle_incoming E f st))" and "is_reply s"
  shows "\<exists>msg. answers f = Some (i, msg) \<and> s = settle_of msg"
proof (cases f)
  case (InFrame j ack body)
  show ?thesis
  proof (cases body)
    case (MessageBody msg)
    then show ?thesis using assms reply_message [where E = E] unfolding InFrame incoming_frame
      by (auto split: if_splits)
  next
    case BrokenBody
    then show ?thesis using assms replies_dispose [of "[]"] unfolding InFrame incoming_frame
      by (auto simp: handleProtocolError_def replies_from_def split: if_splits)
  qed (use assms in \<open>auto simp: InFrame handleFrame_def Let_def split: if_splits\<close>)
next
  case InTooLarge
  then show ?thesis using assms replies_dispose [of "[]"] by (simp add: handleProtocolError_def replies_from_def)
qed

lemma answered_message:
  assumes "answers (InFrame j ack (MessageBody msg)) = Some (i, msg')"
  shows "i \<notin> waiting_requests (fst (handleMessage E msg st))"
proof -
  have "rm_id msg = Some (IdNum i)" "rm_result msg \<noteq> None \<or> rm_error msg \<noteq> None"
    using assms by (auto split: option.splits rpc_id.splits if_splits)
  then show ?thesis using response_waiting by (simp add: handleMessage_def)
qed

lemma answered_incoming:
  assumes "mux_ok st" and "answers f = Some (i, msg)"
  shows "i \<notin> waiting_requests (fst (handle_incoming E f st))"
proof (cases "mx_disposed st")
  case True
  then have "waiting_requests (fst (handle_incoming E f st)) = {}"
    using assms(1) by (cases f) (auto simp: waiting_requests_def mux_ok_def handleProtocolError_def mux_dispose_def)
  then show ?thesis by simp
next
  case False
  obtain j ack m where f: "f = InFrame j ack (MessageBody m)" using assms(2) by (cases f rule: answers.cases) auto
  show ?thesis using False answered_message [OF assms(2) [unfolded f]] unfolding f incoming_frame by simp
qed

text \<open>One frame taken by the desktop.\<close>

lemma waiting_incoming:
  assumes "mux_ok st"
  shows "mux_ok (fst (handle_incoming E f st)) \<and> mx_nextRequestId (fst (handle_incoming E f st)) = mx_nextRequestId st \<and>
    waiting_requests (fst (handle_incoming E f st)) \<subseteq> waiting_requests st - fst ` answered [f] \<and>
    (\<forall>g\<in>set (frames_up (snd (handle_incoming E f st))). asks g = None \<and> cancels g = None)"
proof -
  have acc: "mux_keeps st (handle_incoming E f st)" and plain: "mux_plain st (handle_incoming E f st)"
    by (rule keeps_incoming, rule plain_incoming)
  have "waiting_requests (fst (handle_incoming E f st)) \<subseteq> waiting_requests st"
    using acc plain assms unfolding mux_keeps_def mux_plain_def ledger_def by auto
  then show ?thesis using acc plain assms answered_incoming [OF assms]
    unfolding mux_keeps_def mux_plain_def by (auto split: option.splits)
qed

end
