(* ===== verification/Relay_Link_Relay.thy ===== *)
theory Relay_Link_Relay
  imports Relay_Link_Mux
begin

text \<open>
  The relay's side of a relay link: which handlers run for the primary client, what it answers, and that an answer is
  owed as long as the handler runs.
\<close>

subsection \<open>What the relay does\<close>

definition invoked :: "relay_out list \<Rightarrow> (nat \<times> (nat \<times> nat \<times> rpc_id) \<times> jsstr \<times> js_value) list" where
  "invoked out = concat (map (\<lambda>x. case x of RdInvoked t c g i m p \<Rightarrow> [(t, (c, g, i), m, p)] | _ \<Rightarrow> []) out)"

lemma invoked_simps [simp]:
  "invoked [] = []"
  "invoked (RdInvoked t c g i m p # out) = (t, (c, g, i), m, p) # invoked out"
  "invoked (RdWrote c g seq ack body # out) = invoked out"
  "invoked (RdNotified c g m p # out) = invoked out"
  "invoked (RdAborted t # out) = invoked out"
  "invoked (RdDetached l c # out) = invoked out"
  "invoked (RdAttached c # out) = invoked out"
  "invoked (RdSettled n s # out) = invoked out"
  "invoked (RdRefused # out) = invoked out"
  "invoked (RdBulkDone n ok # out) = invoked out"
  "invoked (RdThrew # out) = invoked out"
  "invoked (out @ out') = invoked out @ invoked out'"
  by (simp_all add: invoked_def)

lemma frames_down_simps [simp]:
  "frames_down [] = []"
  "frames_down (RdInvoked t c g i m p # out) = frames_down out"
  "frames_down (RdWrote c g seq ack body # out) = (if c = primary \<and> g = 0 then [InFrame seq ack body] else []) @ frames_down out"
  "frames_down (RdNotified c g m p # out) = frames_down out"
  "frames_down (RdAborted t # out) = frames_down out"
  "frames_down (RdDetached l c # out) = frames_down out"
  "frames_down (RdAttached c # out) = frames_down out"
  "frames_down (RdSettled n s # out) = frames_down out"
  "frames_down (RdRefused # out) = frames_down out"
  "frames_down (RdBulkDone n ok # out) = frames_down out"
  "frames_down (RdThrew # out) = frames_down out"
  "frames_down (out @ out') = frames_down out @ frames_down out'"
  by (simp_all add: frames_down_def)

text \<open>Outputs that are neither frames nor calls of handlers.\<close>

definition silent :: "relay_out \<Rightarrow> bool" where
  "silent x \<longleftrightarrow> (case x of RdWrote c g seq ack body \<Rightarrow> False | RdInvoked t c g i m p \<Rightarrow> False | _ \<Rightarrow> True)"

lemma silent_simps [simp]:
  "silent (RdNotified c g m p)" "silent (RdAborted t)" "silent (RdDetached l c)" "silent (RdAttached c)" "silent (RdSettled n s)"
  "silent RdRefused" "silent (RdBulkDone n ok)" "silent RdThrew"
  by (simp_all add: silent_def)

lemma silent_outputs: "list_all silent out \<Longrightarrow> frames_down out = [] \<and> invoked out = []"
proof (induction out)
  case (Cons x out)
  then show ?case by (cases x) (simp_all add: silent_def)
qed simp

definition task_key :: "relay_task \<Rightarrow> nat \<times> nat \<times> rpc_id" where
  "task_key k = (tk_client k, tk_generation k, tk_id k)"

lemma task_key_flags [simp]: "task_key (k\<lparr>tk_aborted := b\<rparr>) = task_key k" "task_key (k\<lparr>tk_running := b\<rparr>) = task_key k"
  by (simp_all add: task_key_def)

text \<open>The numbers of the requests of the first connection whose handler runs and was not aborted.\<close>

definition busy :: "relay_dispatcher \<Rightarrow> nat set" where
  "busy d = {i. \<exists>k\<in>set (rd_tasks d). task_key k = (primary, 0, IdNum i) \<and> tk_running k \<and> \<not> tk_aborted k}"

definition first_link :: "relay_dispatcher \<Rightarrow> bool" where
  "first_link d \<longleftrightarrow> rc_generation (client_of d primary) = 0 \<and> \<not> rd_disposed d"

definition relay_ok :: "relay_dispatcher \<Rightarrow> bool" where
  "relay_ok d \<longleftrightarrow> primary \<in> set (rd_clients d) \<and> set (rd_clients d) \<subseteq> {..<length (rd_objects d)} \<and>
     (rc_closed (client_of d primary) \<longrightarrow> 0 < rc_generation (client_of d primary)) \<and>
     (\<forall>e\<in>set (rd_requestAborts d). snd e < length (rd_tasks d) \<and>
        tk_client (rd_tasks d ! snd e) = fst (fst e) \<and> tk_id (rd_tasks d ! snd e) = snd (fst e))"

text \<open>
  A step in which the answers written to the first connection are in \<open>A\<close>, the handlers called in \<open>I\<close>, and a handler
  that runs for the first connection runs on or answers, unless its request is in \<open>C\<close>, the connection ends, or
  something could not be encoded.
\<close>

definition relay_rel :: "(nat \<times> rpc_message) set \<Rightarrow> (nat \<times> (nat \<times> nat \<times> rpc_id) \<times> jsstr \<times> js_value) set \<Rightarrow> nat set \<Rightarrow>
    relay_dispatcher \<Rightarrow> relay_result \<Rightarrow> bool" where
  "relay_rel A I C d r \<longleftrightarrow> (relay_ok d \<longrightarrow>
     relay_ok (fst r) \<and> (first_link (fst r) \<longrightarrow> first_link d) \<and>
     map task_key (rd_tasks (fst r)) = map task_key (rd_tasks d) @ map (fst \<circ> snd) (invoked (snd r)) \<and>
     map fst (invoked (snd r)) = [length (rd_tasks d)..<length (rd_tasks (fst r))] \<and>
     answered (frames_down (snd r)) \<subseteq> A \<and> set (invoked (snd r)) \<subseteq> I \<and>
     (first_link (fst r) \<and> RdThrew \<notin> set (snd r) \<longrightarrow> busy d - C \<subseteq> busy (fst r) \<union> fst ` answered (frames_down (snd r))))"

lemma rel_length:
  assumes "relay_rel A I C d r" "relay_ok d"
  shows "length (rd_tasks d) \<le> length (rd_tasks (fst r))"
proof -
  have "length (map task_key (rd_tasks (fst r))) = length (map task_key (rd_tasks d) @ map (fst \<circ> snd) (invoked (snd r)))"
    using assms unfolding relay_rel_def by metis
  then show ?thesis by simp
qed

interpretation rel: composing "relay_rel A I C" for A I C
proof
  fix d :: relay_dispatcher
  show "relay_rel A I C d (d, [])" by (simp add: relay_rel_def)
next
  fix d :: relay_dispatcher and r and f :: "relay_dispatcher \<Rightarrow> relay_result"
  assume a: "relay_rel A I C d r" and b: "relay_rel A I C (fst r) (f (fst r))"
  show "relay_rel A I C d (emit_then r f)"
    unfolding relay_rel_def
  proof (intro impI)
    assume ok: "relay_ok d"
    note 1 = mp [OF a [unfolded relay_rel_def] ok]
    note 2 = mp [OF b [unfolded relay_rel_def] conjunct1 [OF 1]]
    have le: "length (rd_tasks d) \<le> length (rd_tasks (fst r))" "length (rd_tasks (fst r)) \<le> length (rd_tasks (fst (f (fst r))))"
      using rel_length [OF a ok] rel_length [OF b] 1 by auto
    have keys: "map fst (invoked (snd (emit_then r f))) = [length (rd_tasks d)..<length (rd_tasks (fst (emit_then r f)))]"
      using 1 2 upt_add_eq_append [OF le(1), of "length (rd_tasks (fst (f (fst r)))) - length (rd_tasks (fst r))"] le(2) by simp
    have old: "busy d - C \<subseteq> busy (fst (emit_then r f)) \<union> fst ` answered (frames_down (snd (emit_then r f)))"
      if "first_link (fst (emit_then r f))" "RdThrew \<notin> set (snd (emit_then r f))"
    proof -
      have "first_link (fst r)" "first_link (fst (f (fst r)))" "RdThrew \<notin> set (snd r)" "RdThrew \<notin> set (snd (f (fst r)))"
        using that 2 by auto
      then have x: "busy d - C \<subseteq> busy (fst r) \<union> fst ` answered (frames_down (snd r))"
        "busy (fst r) - C \<subseteq> busy (fst (f (fst r))) \<union> fst ` answered (frames_down (snd (f (fst r))))"
        using 1 2 by blast+
      show ?thesis unfolding fst_emit_then snd_emit_then frames_down_simps answered_simps using x by blast
    qed
    show "relay_ok (fst (emit_then r f)) \<and> (first_link (fst (emit_then r f)) \<longrightarrow> first_link d) \<and>
      map task_key (rd_tasks (fst (emit_then r f))) = map task_key (rd_tasks d) @ map (fst \<circ> snd) (invoked (snd (emit_then r f))) \<and>
      map fst (invoked (snd (emit_then r f))) = [length (rd_tasks d)..<length (rd_tasks (fst (emit_then r f)))] \<and>
      answered (frames_down (snd (emit_then r f))) \<subseteq> A \<and> set (invoked (snd (emit_then r f))) \<subseteq> I \<and>
      (first_link (fst (emit_then r f)) \<and> RdThrew \<notin> set (snd (emit_then r f)) \<longrightarrow>
        busy d - C \<subseteq> busy (fst (emit_then r f)) \<union> fst ` answered (frames_down (snd (emit_then r f))))"
      using 1 2 keys old by auto
  qed
qed

lemma rel_mono: "relay_rel A I C d r \<Longrightarrow> A \<subseteq> A' \<Longrightarrow> I \<subseteq> I' \<Longrightarrow> C \<subseteq> C' \<Longrightarrow> relay_rel A' I' C' d r"
  unfolding relay_rel_def by blast

text \<open>Steps that keep the tasks.\<close>

lemma rel_quiet:
  assumes "rd_tasks (fst r) = rd_tasks d" and "relay_ok d \<Longrightarrow> relay_ok (fst r)" and "relay_ok d \<Longrightarrow> first_link (fst r) \<Longrightarrow> first_link d"
    and "list_all silent (snd r)"
  shows "relay_rel A I C d r"
  using assms(1-3) silent_outputs [OF assms(4)] unfolding relay_rel_def by (simp add: busy_def)

text \<open>Steps after which the first connection is over.\<close>

lemma rel_over:
  assumes "map task_key (rd_tasks (fst r)) = map task_key (rd_tasks d)" and "relay_ok d \<Longrightarrow> relay_ok (fst r)" and "relay_ok d \<Longrightarrow> \<not> first_link (fst r)"
    and "list_all silent (snd r)"
  shows "relay_rel A I C d r"
  using assms(1-3) silent_outputs [OF assms(4)] map_eq_imp_length_eq [OF assms(1)] unfolding relay_rel_def by simp

lemma rel_kept:
  assumes "map task_key (rd_tasks (fst r)) = map task_key (rd_tasks d)" and "relay_ok d \<Longrightarrow> relay_ok (fst r)" and "first_link (fst r) \<Longrightarrow> first_link d"
    and "relay_ok d \<Longrightarrow> busy d - C \<subseteq> busy (fst r)" and "list_all silent (snd r)"
  shows "relay_rel A I C d r"
  using assms(1-4) silent_outputs [OF assms(5)] map_eq_imp_length_eq [OF assms(1)] unfolding relay_rel_def by simp

subsection \<open>Clients\<close>

lemma upd_client_fields [simp]:
  "rd_tasks (upd_client c f d) = rd_tasks d" "rd_clients (upd_client c f d) = rd_clients d"
  "rd_requestAborts (upd_client c f d) = rd_requestAborts d" "rd_disposed (upd_client c f d) = rd_disposed d"
  "length (rd_objects (upd_client c f d)) = length (rd_objects d)"
  by (simp_all add: upd_client_def)

lemma client_upd: "client_of (upd_client c f d) c' = (if c = c' \<and> c < length (rd_objects d) then f (client_of d c) else client_of d c')"
  by (cases "c = c'"; cases "c < length (rd_objects d)") (simp_all add: upd_client_def client_of_def list_update_beyond)

lemma client_counter [simp]:
  "rc_generation (client_of (upd_client c (rc_nextOutgoingSeq_update g) d) c') = rc_generation (client_of d c')"
  "rc_closed (client_of (upd_client c (rc_nextOutgoingSeq_update g) d) c') = rc_closed (client_of d c')"
  by (simp_all add: client_upd)

lemma client_fields [simp]:
  "client_of (d\<lparr>rd_tasks := ks\<rparr>) = client_of d" "client_of (d\<lparr>rd_requestAborts := m\<rparr>) = client_of d"
  "client_of (d\<lparr>rd_clients := cs\<rparr>) = client_of d" "client_of (d\<lparr>rd_pendingRelayRequests := q\<rparr>) = client_of d"
  "client_of (d\<lparr>rd_nextRequestId := n\<rparr>) = client_of d" "client_of (d\<lparr>rd_disposed := b\<rparr>) = client_of d"
  "client_of (d\<lparr>rd_keepaliveTimer := b\<rparr>) = client_of d" "client_of (d\<lparr>rd_nextToken := n\<rparr>) = client_of d"
  by (auto simp: client_of_def fun_eq_iff)

lemma ok_same:
  assumes "rd_tasks d' = rd_tasks d" "rd_clients d' = rd_clients d" "set (rd_requestAborts d') \<subseteq> set (rd_requestAborts d)"
    "length (rd_objects d') = length (rd_objects d)"
    "rc_closed (client_of d' primary) \<longrightarrow> rc_closed (client_of d primary) \<and> rc_generation (client_of d' primary) = rc_generation (client_of d primary)
      \<or> 0 < rc_generation (client_of d' primary)"
  shows "relay_ok d \<Longrightarrow> relay_ok d'"
  using assms unfolding relay_ok_def by fastforce

lemma rel_clients:
  assumes "rd_tasks d' = rd_tasks d" "rd_clients d' = rd_clients d" "rd_requestAborts d' = rd_requestAborts d" "rd_disposed d' = rd_disposed d"
    "length (rd_objects d') = length (rd_objects d)"
    "rc_closed (client_of d' primary) = rc_closed (client_of d primary)" "rc_generation (client_of d' primary) = rc_generation (client_of d primary)"
    and "list_all silent out"
  shows "relay_rel A I C d (d', out)"
proof (rule rel_quiet)
  show "relay_ok d \<Longrightarrow> relay_ok (fst (d', out))" by (rule ok_same [of _ d]) (use assms in auto)
qed (use assms in \<open>auto simp: first_link_def\<close>)

text \<open>A record of the client's that is neither its generation nor whether it is closed.\<close>

lemma rel_upd:
  assumes "\<And>k. rc_closed (f k) = rc_closed k" "\<And>k. rc_generation (f k) = rc_generation k" "list_all silent out"
  shows "relay_rel A I C d (upd_client c f d, out)"
  by (rule rel_clients) (use assms in \<open>simp_all add: client_upd\<close>)

lemma flush_upd: "relay_rel A I C d (flushDrainWaiters c d, [])"
  unfolding flushDrainWaiters_def by (rule rel_upd) simp_all

lemma mark_fields [simp]:
  "rd_clients (fold mark_aborted ts d) = rd_clients d" "rd_objects (fold mark_aborted ts d) = rd_objects d"
  "rd_requestAborts (fold mark_aborted ts d) = rd_requestAborts d" "rd_disposed (fold mark_aborted ts d) = rd_disposed d"
  "client_of (fold mark_aborted ts d) = client_of d"
  "map task_key (rd_tasks (fold mark_aborted ts d)) = map task_key (rd_tasks d)"
  "length (rd_tasks (fold mark_aborted ts d)) = length (rd_tasks d)"
proof (induction ts arbitrary: d)
  case (Cons t ts)
  have keys: "map task_key (rd_tasks (mark_aborted t d)) = map task_key (rd_tasks d)" for d
    by (cases "t < length (rd_tasks d)") (simp_all add: mark_aborted_def map_update list_update_beyond list_update_same_conv)
  { case 1 then show ?case using Cons.IH(1) by (simp add: mark_aborted_def) }
  { case 2 then show ?case using Cons.IH(2) by (simp add: mark_aborted_def) }
  { case 3 then show ?case using Cons.IH(3) by (simp add: mark_aborted_def) }
  { case 4 then show ?case using Cons.IH(4) by (simp add: mark_aborted_def) }
  { case 5 then show ?case using Cons.IH(5) by (simp add: mark_aborted_def) }
  { case 6 then show ?case using trans [OF Cons.IH(6) [of "mark_aborted t d"] keys [of d]] by simp }
  { case 7 then show ?case using Cons.IH(7) by (simp add: mark_aborted_def) }
qed simp_all

lemmas mark_one [simp] = mark_fields [where ts = "[t]" for t, simplified]

lemma key_same:
  assumes "map task_key ks = map task_key ks'" "t < length ks'"
  shows "tk_client (ks ! t) = tk_client (ks' ! t) \<and> tk_generation (ks ! t) = tk_generation (ks' ! t) \<and> tk_id (ks ! t) = tk_id (ks' ! t)"
proof -
  have "task_key (ks ! t) = task_key (ks' ! t)"
    using nth_map [of t ks task_key] nth_map [of t ks' task_key] assms map_eq_imp_length_eq [OF assms(1)] by simp
  then show ?thesis by (simp add: task_key_def)
qed

lemma ok_keys:
  assumes "relay_ok d" "map task_key (rd_tasks d') = map task_key (rd_tasks d)" "set (rd_clients d') \<subseteq> set (rd_clients d)" "primary \<in> set (rd_clients d')"
    "set (rd_requestAborts d') \<subseteq> set (rd_requestAborts d)" "length (rd_objects d) \<le> length (rd_objects d')"
    "rc_closed (client_of d' primary) \<Longrightarrow> 0 < rc_generation (client_of d' primary)"
  shows "relay_ok d'"
proof -
  have "snd e < length (rd_tasks d') \<and> tk_client (rd_tasks d' ! snd e) = fst (fst e) \<and> tk_id (rd_tasks d' ! snd e) = snd (fst e)"
    if "e \<in> set (rd_requestAborts d')" for e
    using assms(1,5) that key_same [OF assms(2), of "snd e"] map_eq_imp_length_eq [OF assms(2)] unfolding relay_ok_def by auto
  then show ?thesis using assms unfolding relay_ok_def by fastforce
qed

lemma unmarked: "k \<in> set (rd_tasks d) \<Longrightarrow> (\<forall>t\<in>set ts. t < length (rd_tasks d) \<longrightarrow> task_key (rd_tasks d ! t) \<noteq> task_key k) \<Longrightarrow>
    k \<in> set (rd_tasks (fold mark_aborted ts d))"
proof (induction ts arbitrary: d)
  case (Cons t ts)
  let ?d1 = "mark_aborted t d"
  have keys: "map task_key (rd_tasks ?d1) = map task_key (rd_tasks d)" using mark_fields(6) [of "[t]" d] by simp
  have "k \<in> set (rd_tasks ?d1)"
  proof (cases "t < length (rd_tasks d)")
    case True
    then have "rd_tasks d ! t \<noteq> k" using Cons.prems(2) by auto
    then show ?thesis using Cons.prems(1) True unfolding mark_aborted_def
      by (auto simp: in_set_conv_nth) (metis length_list_update nth_list_update_neq)
  qed (use Cons.prems(1) in \<open>simp add: mark_aborted_def list_update_beyond\<close>)
  moreover have "\<forall>t'\<in>set ts. t' < length (rd_tasks ?d1) \<longrightarrow> task_key (rd_tasks ?d1 ! t') \<noteq> task_key k"
    using Cons.prems(2) key_same [OF keys] by (fastforce simp: task_key_def mark_aborted_def)
  ultimately show ?case using Cons.IH [of ?d1] by simp
qed simp

lemma aborts_in: "t \<in> set (aborts_of c d) \<Longrightarrow> relay_ok d \<Longrightarrow> t < length (rd_tasks d) \<and> tk_client (rd_tasks d ! t) = c"
  unfolding aborts_of_def relay_ok_def by auto

lemma silent_map [simp]: "list_all silent (map RdAborted ts)" "list_all silent (map (\<lambda>l. RdDetached l c) ls)" "list_all silent (map (RdAborted \<circ> g) xs)"
  by (simp_all add: list_all_iff)

lemma rel_abort_other:
  assumes "c \<noteq> primary"
  shows "relay_rel A I C d (abortClient c d)"
proof (rule rel_kept)
  show "relay_ok d \<Longrightarrow> relay_ok (fst (abortClient c d))"
    by (rule ok_keys [of d]) (auto simp: abortClient_def relay_ok_def)
  show "busy d - C \<subseteq> busy (fst (abortClient c d))" if ok: "relay_ok d"
  proof
    fix i assume "i \<in> busy d - C"
    then obtain k where k: "k \<in> set (rd_tasks d)" "task_key k = (primary, 0, IdNum i)" "tk_running k" "\<not> tk_aborted k"
      by (auto simp: busy_def)
    have "k \<in> set (rd_tasks (fold mark_aborted (aborts_of c d) d))"
      by (rule unmarked [OF k(1)]) (use aborts_in [OF _ ok] k(2) assms in \<open>auto simp: task_key_def\<close>)
    then show "i \<in> busy (fst (abortClient c d))" using k by (auto simp: busy_def abortClient_def)
  qed
qed (simp_all add: abortClient_def first_link_def)

lemma abort_primary:
  "rd_clients (fst (abortClient c d)) = rd_clients d" "length (rd_objects (fst (abortClient c d))) = length (rd_objects d)"
  "client_of (fst (abortClient c d)) = client_of d" "rd_disposed (fst (abortClient c d)) = rd_disposed d"
  "map task_key (rd_tasks (fst (abortClient c d))) = map task_key (rd_tasks d)"
  "set (rd_requestAborts (fst (abortClient c d))) \<subseteq> set (rd_requestAborts d)" "list_all silent (snd (abortClient c d))"
  by (auto simp: abortClient_def)

lemma rel_end_primary:
  assumes "rd_clients (g (fst (abortClient primary d))) = rd_clients d" "length (rd_objects (g (fst (abortClient primary d)))) = length (rd_objects d)"
    "rd_tasks (g (fst (abortClient primary d))) = rd_tasks (fst (abortClient primary d))"
    "rd_requestAborts (g (fst (abortClient primary d))) = rd_requestAborts (fst (abortClient primary d))"
    "relay_ok d \<Longrightarrow> 0 < rc_generation (client_of (g (fst (abortClient primary d))) primary)"
  shows "relay_rel A I C d (emit_then (abortClient primary d) (emit_quiet g))"
proof (rule rel_over)
  show "relay_ok (fst (emit_then (abortClient primary d) (emit_quiet g)))" if ok: "relay_ok d"
    by (rule ok_keys [OF ok]) (use assms ok abort_primary [of primary d] in \<open>auto simp: relay_ok_def\<close>)
qed (use assms abort_primary [of primary d] in \<open>auto simp: first_link_def\<close>)

lemma primary_object: "relay_ok d \<Longrightarrow> primary < length (rd_objects d)"
  by (auto simp: relay_ok_def)

lemma rel_lose: "relay_rel A I C d (lose_client c d)"
proof (cases "c = primary")
  case True
  show ?thesis unfolding lose_client_def True
    by (rule rel_end_primary) (use abort_primary [of primary d] primary_object [of d] in \<open>simp_all add: flushDrainWaiters_def client_upd\<close>)
next
  case False
  show ?thesis unfolding lose_client_def
    by (rule rel.keeps_then [OF rel_abort_other [OF False]])
      (use False in \<open>auto simp: emit_quiet_def flushDrainWaiters_def client_upd intro!: rel_clients\<close>)
qed

lemma rel_say: "relay_rel A I C d r \<Longrightarrow> (\<And>d. list_all silent (out d)) \<Longrightarrow> relay_rel A I C d (emit_then r (\<lambda>d. (d, out d)))"
  by (rule rel.keeps_then) (auto intro: rel_quiet)

lemma forget_fields [simp]:
  "client_of (forget_client c d) = client_of d" "rd_tasks (forget_client c d) = rd_tasks d" "rd_requestAborts (forget_client c d) = rd_requestAborts d"
  "rd_objects (forget_client c d) = rd_objects d" "rd_disposed (forget_client c d) = rd_disposed d"
  by (simp_all add: forget_client_def)

lemma forget_clients: "set (rd_clients (forget_client c d)) \<subseteq> set (rd_clients d)" "primary \<in> set (rd_clients d) \<Longrightarrow> primary \<in> set (rd_clients (forget_client c d))"
  by (auto simp: forget_client_def)

lemma rel_forget: "relay_rel A I C d (notifyClientDetached c (forget_client c d))"
proof (rule rel_quiet)
  show "relay_ok (fst (notifyClientDetached c (forget_client c d)))" if ok: "relay_ok d"
    by (rule ok_keys [OF ok])
      (use ok in \<open>auto simp: notifyClientDetached_def relay_ok_def forget_clients(2) dest!: subsetD [OF forget_clients(1)]\<close>)
qed (auto simp: notifyClientDetached_def first_link_def)

lemma rel_detached: "relay_rel A I C d (notifyClientDetached c d)"
  by (rule rel_quiet) (simp_all add: notifyClientDetached_def)

subsection \<open>Sending\<close>

lemma answers_number: "answers (InFrame i j body) = answers (InFrame 0 0 body)"
  by (cases body; simp)

lemma rel_wrote:
  assumes "\<And>a. answers (InFrame 0 0 body) = Some a \<Longrightarrow> c = primary \<Longrightarrow> g = 0 \<Longrightarrow> a \<in> A"
  shows "relay_rel A I C d (d, [RdWrote c g seq ack body])"
  using assms answers_number [of seq ack body] unfolding relay_rel_def by (auto split: option.split)

definition may_answer :: "(nat \<times> rpc_message) set \<Rightarrow> nat \<Rightarrow> rpc_message option \<Rightarrow> relay_dispatcher \<Rightarrow> bool" where
  "may_answer A c m d \<longleftrightarrow> (case m of None \<Rightarrow> True | Some msg \<Rightarrow>
     (case answers (InFrame 0 0 (MessageBody msg)) of None \<Rightarrow> True | Some a \<Rightarrow> if c = primary \<and> rc_generation (client_of d c) = 0 then a \<in> A else True))"

lemma rel_number:
  assumes "may_answer A c m d"
  shows "relay_rel A I C d (fst (number_and_write E c m d))"
proof -
  let ?k = "client_of d c"
  let ?d1 = "upd_client c (\<lambda>k. k\<lparr>rc_nextOutgoingSeq := rc_nextOutgoingSeq ?k + 1\<rparr>) d"
  let ?body = "case m of None \<Rightarrow> KeepAliveBody | Some msg \<Rightarrow> MessageBody msg"
  have start: "relay_rel A I C d (?d1, [])" by (rule rel_upd) simp_all
  have gen: "rc_generation (client_of ?d1 c) = rc_generation ?k" by (simp add: client_upd)
  have "relay_rel A I C ?d1 (fst (writeFrame E c (rc_nextOutgoingSeq ?k) (rc_highestReceivedSeq ?k) ?body ?d1))"
    unfolding writeFrame_def
    by (cases "rv_write E c")
      (use assms in \<open>auto simp: rel.keeps_then rel_lose rel_forget gen may_answer_def simp del: answers.simps(1) intro!: rel_wrote split: option.splits if_splits\<close>)
  then have "relay_rel A I C d (emit_then (?d1, []) (\<lambda>d1. fst (writeFrame E c (rc_nextOutgoingSeq ?k) (rc_highestReceivedSeq ?k) ?body d1)))"
    by (intro rel.keeps_then [OF start]) simp
  then show ?thesis using start unfolding number_and_write_def Let_def
    by (simp add: case_prod_unfold emit_then_def)
qed

lemma rel_send: "may_answer A c (Some msg) d \<Longrightarrow> relay_rel A I C d (fst (sendFrame E c msg d))"
  by (simp add: sendFrame_def rel_number rel.keeps_same)

lemma rel_throws: "relay_rel A I C d (fst r) \<Longrightarrow> relay_rel A I C d (relay_throws r)"
  by (auto simp: relay_throws_def intro: rel_say)

lemma no_answer [simp]:
  "may_answer A c (Some (rpc_notification m p)) d" "may_answer A c (Some (rpc_request i m p)) d" "may_answer A c None d"
  "c \<noteq> primary \<Longrightarrow> may_answer A c msg d"
  by (auto simp: may_answer_def rpc_message_defs split: option.split)

text \<open>A message that was sent on the first connection arrives, if that connection lasts.\<close>

lemma sent_arrives:
  assumes "relay_ok d" "answers (InFrame 0 0 (MessageBody msg)) = Some a"
    and "first_link (fst (fst (sendFrame E primary msg d)))" "snd (sendFrame E primary msg d) \<noteq> SentThrew"
  shows "a \<in> answered (frames_down (snd (fst (sendFrame E primary msg d))))"
proof -
  have "relay_rel UNIV {} {} d (fst (sendFrame E primary msg d))"
    by (rule rel_send) (simp add: may_answer_def split: option.split)
  then have "first_link d" using assms(1,3) by (simp add: relay_rel_def)
  then have open_: "\<not> rd_disposed d" "rc_generation (client_of d primary) = 0" "\<not> rc_closed (client_of d primary)"
    using assms(1) by (auto simp: first_link_def relay_ok_def)
  let ?k = "client_of d primary"
  let ?d1 = "upd_client primary (\<lambda>k. k\<lparr>rc_nextOutgoingSeq := rc_nextOutgoingSeq ?k + 1\<rparr>) d"
  have eq: "fst (sendFrame E primary msg d) = fst (writeFrame E primary (rc_nextOutgoingSeq ?k) (rc_highestReceivedSeq ?k) (MessageBody msg) ?d1)"
    using assms(4) open_ by (auto simp: sendFrame_def number_and_write_def Let_def case_prod_unfold split: if_splits)
  have gen: "rc_generation (client_of ?d1 primary) = 0" using open_ by (simp add: client_upd)
  have ok1: "primary < length (rd_objects ?d1)" using primary_object [OF assms(1)] by simp
  have "\<not> first_link (fst (fst (writeFrame E primary (rc_nextOutgoingSeq ?k) (rc_highestReceivedSeq ?k) (MessageBody msg) ?d1)))" if "rv_write E primary = WriteThrows"
    using that ok1 abort_primary(2,3) [of primary ?d1]
    by (simp add: writeFrame_def first_link_def lose_client_def notifyClientDetached_def forget_client_def flushDrainWaiters_def client_upd)
  then have "rv_write E primary \<noteq> WriteThrows" using assms(3) unfolding eq by blast
  then have "snd (fst (sendFrame E primary msg d)) = [RdWrote primary 0 (rc_nextOutgoingSeq ?k) (rc_highestReceivedSeq ?k) (MessageBody msg)]"
    unfolding eq by (cases "rv_write E primary") (simp_all add: writeFrame_def open_(2))
  then show ?thesis using assms(2) answers_number [where body = "MessageBody msg"] by (simp del: answers.simps)
qed

subsection \<open>Every operation\<close>

lemma rel_all:
  assumes "\<And>c d. may_answer A c (Some msg) d"
  shows "relay_rel A I C d (send_all E msg cs d)"
proof (induction cs arbitrary: d)
  case (Cons c cs)
  have "relay_rel A I C d (fst (sendFrame E c msg d))" by (rule rel_send [OF assms])
  then show ?case using rel.keeps_then [where f = "send_all E msg cs"] Cons.IH
    by (auto simp: case_prod_unfold split: sent.split intro: rel_say)
qed (simp add: rel.keeps_same)

lemma rel_notify: "relay_rel A I C d (relay_notify E m p d)"
  by (simp add: relay_notify_def rel_all rel.keeps_same)

lemma rel_notify_client: "relay_rel A I C d (notifyClient E c m p d)"
  by (simp add: notifyClient_def rel_throws rel_send rel.keeps_same)

lemma rel_keepalives: "relay_rel A I C d (keepalive_all E cs d)"
proof (induction cs arbitrary: d)
  case (Cons c cs)
  have "relay_rel A I C d (fst (number_and_write E c None d))" by (rule rel_number) simp
  then show ?case using rel.keeps_then [where f = "keepalive_all E cs"] Cons.IH
    by (auto simp: case_prod_unfold split: sent.split intro: rel_say)
qed (simp add: rel.keeps_same)

lemma rel_keepalive: "relay_rel A I C d (keepalive_tick E d)"
  by (simp add: keepalive_tick_def rel_keepalives rel.keeps_same)

lemma rel_bulk_done: "relay_rel A I C d (bulk_done c token ok d)"
  unfolding bulk_done_def pop_bulk_def by (rule rel_upd) simp_all

lemma rel_park: "relay_rel A I C d (park_bulk c d, [])"
  unfolding park_bulk_def by (rule rel_upd) simp_all

lemma rel_bulk_runs: "relay_rel A I C d (bulk_runs E c d)"
proof (cases "rc_bulkChain (client_of d c)")
  case Nil
  then show ?thesis by (simp add: bulk_runs_def rel.keeps_same)
next
  case (Cons b bs)
  let ?r = "fst (sendFrame E c (rpc_notification (bk_method b) (bk_params b)) d)"
  have "relay_rel A I C d ?r" by (rule rel_send) simp
  then have "relay_rel A I C d (emit_then ?r (bulk_done c (bk_token b) ok))"
    "relay_rel A I C d (emit_then ?r (\<lambda>d. if rd_disposed d \<or> rc_closed (client_of d c) \<or> \<not> rc_canDrain (client_of d c) \<or> rv_drainsAtOnce E
       then bulk_done c (bk_token b) True d else (park_bulk c d, [])))" for ok
    by (auto intro!: rel.keeps_then rel_bulk_done rel_park)
  then show ?thesis using Cons
    by (auto simp: bulk_runs_def case_prod_unfold rel.keeps_same rel_bulk_done split: bulk_phase.split sent.split)
qed

lemma add_bulk_fields:
  "rd_tasks (add_bulk t m p c d) = rd_tasks d" "rd_clients (add_bulk t m p c d) = rd_clients d"
  "rd_requestAborts (add_bulk t m p c d) = rd_requestAborts d" "rd_disposed (add_bulk t m p c d) = rd_disposed d"
  "length (rd_objects (add_bulk t m p c d)) = length (rd_objects d)"
  "rc_closed (client_of (add_bulk t m p c d) c') = rc_closed (client_of d c')"
  "rc_generation (client_of (add_bulk t m p c d) c') = rc_generation (client_of d c')"
  by (simp_all add: add_bulk_def client_upd)

lemma rel_bulk: "relay_rel A I C d (notifyBulk E m p target d)"
proof -
  have "relay_rel A I C d' (fold (add_bulk t m p) cs d', [])" for t cs d'
  proof (induction cs arbitrary: d')
    case (Cons c cs)
    have "relay_rel A I C d' (add_bulk t m p c d', [])" by (rule rel_clients) (simp_all add: add_bulk_fields)
    from rel.keeps_then [OF this, where f = "\<lambda>d. (fold (add_bulk t m p) cs d, [])"] Cons.IH show ?case by (simp add: emit_then_def)
  qed (simp add: rel.keeps_same)
  then have "relay_rel A I C d (emit_then (d\<lparr>rd_nextToken := rd_nextToken d + 1\<rparr>, []) (\<lambda>d'. (fold (add_bulk t m p) cs d', [])))" for t cs
    by (intro rel.keeps_then) (auto intro: rel_clients)
  then show ?thesis by (simp add: notifyBulk_def emit_then_def rel.keeps_same)
qed

lemma rel_set_write: "relay_rel A I C d (setWrite canDrain d)"
  unfolding setWrite_def
  by (rule rel_end_primary)
    (use abort_primary [of primary d] primary_object [of d] in \<open>simp_all add: flushDrainWaiters_def client_upd\<close>)

lemma rel_invalidate: "relay_rel A I C d (invalidateClient d)"
  unfolding invalidateClient_def by (rule rel.keeps_then [OF rel_lose]) (rule rel_detached)

lemma rel_detach: "relay_rel A I C d (relay_detachClient c d)"
  using rel.keeps_then [OF rel_lose, where f = "\<lambda>d. notifyClientDetached c (forget_client c d)"] rel_forget
  by (auto simp: relay_detachClient_def intro: rel.keeps_same)

lemma rel_attach: "relay_rel A I C d (relay_attachClient canDrain d)"
proof (rule rel_quiet)
  have same: "relay_ok d \<Longrightarrow> client_of (fst (relay_attachClient canDrain d)) primary = client_of d primary"
    by (auto dest: primary_object simp: relay_attachClient_def Let_def client_of_def nth_append)
  show "relay_ok (fst (relay_attachClient canDrain d))" if ok: "relay_ok d"
    using same [OF ok] ok by (auto simp: relay_ok_def relay_attachClient_def Let_def)
  show "first_link (fst (relay_attachClient canDrain d)) \<Longrightarrow> first_link d" if ok: "relay_ok d"
    using same [OF ok] by (simp add: first_link_def) (simp add: relay_attachClient_def Let_def)
qed (simp_all add: relay_attachClient_def Let_def)

lemma rel_refused [simp]: "relay_rel A I C d (d, [RdRefused])"
  by (rule rel_quiet) simp_all

lemma rel_request: "relay_rel A I C d (relay_requestClient E c m p d)"
proof (cases "rd_disposed d \<or> c \<notin> set (rd_clients d) \<or> rc_closed (client_of d c)")
  case True
  then show ?thesis by (simp add: relay_requestClient_def rel_quiet)
next
  case False
  let ?i = "rd_nextRequestId d"
  let ?d1 = "d\<lparr>rd_nextRequestId := ?i + 1, rd_pendingRelayRequests := map_set ?i False (rd_pendingRelayRequests d)\<rparr>"
  let ?r = "sendFrame E c (rpc_request ?i m p)"
  have "relay_rel A I C d (?d1, [])" by (rule rel_clients) (simp_all add: client_of_def)
  then have r: "relay_rel A I C d (emit_then (?d1, []) (\<lambda>d. fst (?r d)))"
    by (rule rel.keeps_then) (simp add: rel_send)
  then have "relay_rel A I C d (emit_then (emit_then (?d1, []) (\<lambda>d. fst (?r d)))
      (\<lambda>d. (d\<lparr>rd_pendingRelayRequests := map_set ?i True (rd_pendingRelayRequests d)\<rparr>, [RdSettled ?i RelayNotSent])))"
    by (rule rel.keeps_then) (rule rel_clients; simp)
  then show ?thesis using r False
    by (simp add: relay_requestClient_def Let_def case_prod_unfold emit_then_def split: sent.split)
qed

lemma rel_request_any: "relay_rel A I C d (requestAnyClient E m p excluded d)"
  unfolding requestAnyClient_def Let_def by (auto simp: rel_request rel_quiet split: option.split list.split)

lemma silent_settle [simp]: "list_all silent (settle_relay i b s)"
  by (simp add: settle_relay_def)

lemma rel_drop: "list_all silent out \<Longrightarrow> relay_rel A I C d (relay_drop_request i d, out)"
  unfolding relay_drop_request_def by (rule rel_clients) simp_all

lemma rel_request_timeout: "relay_rel A I C d (relay_request_times_out i d)"
  unfolding relay_request_times_out_def by (auto simp: rel.keeps_same intro: rel_drop split: option.split)

lemma rel_response: "relay_rel A I C d (relay_handleResponse msg d)"
  unfolding relay_handleResponse_def by (auto simp: rel.keeps_same intro: rel_drop split: option.split rpc_id.split)

lemma fold_flush_fields:
  "rd_tasks (fold flushDrainWaiters cs d) = rd_tasks d" "rd_clients (fold flushDrainWaiters cs d) = rd_clients d"
  "rd_requestAborts (fold flushDrainWaiters cs d) = rd_requestAborts d" "rd_disposed (fold flushDrainWaiters cs d) = rd_disposed d"
  "length (rd_objects (fold flushDrainWaiters cs d)) = length (rd_objects d)"
  "rc_closed (client_of (fold flushDrainWaiters cs d) c') = rc_closed (client_of d c')"
  "rc_generation (client_of (fold flushDrainWaiters cs d) c') = rc_generation (client_of d c')"
  by (induction cs arbitrary: d) (simp_all add: flushDrainWaiters_def client_upd)

lemma silent_settles: "list_all silent (concat (map (\<lambda>(i, b). settle_relay i b s) q))"
  by (induction q) auto

lemma rel_dispose: "relay_rel A I C d (relay_dispose d)"
proof (cases "rd_disposed d")
  case True
  then show ?thesis by (simp add: relay_dispose_def rel.keeps_same)
next
  case False
  show ?thesis
  proof (rule rel_over)
    show "relay_ok (fst (relay_dispose d))" if ok: "relay_ok d"
      by (rule ok_keys [OF ok])
        (use ok False in \<open>auto simp: relay_dispose_def abortAll_def fold_flush_fields relay_ok_def\<close>)
  qed (use False in \<open>simp_all add: relay_dispose_def abortAll_def fold_flush_fields first_link_def silent_settles\<close>)
qed

subsection \<open>Questions and answers\<close>

definition no_calls :: "(nat \<times> (nat \<times> nat \<times> rpc_id) \<times> jsstr \<times> js_value) set" where
  "no_calls = {(t, k, m, q). \<forall>i. k \<noteq> (primary, 0, IdNum i)}"

definition calls_for :: "incoming \<Rightarrow> (nat \<times> (nat \<times> nat \<times> rpc_id) \<times> jsstr \<times> js_value) set" where
  "calls_for f = {(t, k, m, q). \<forall>i. k = (primary, 0, IdNum i) \<longrightarrow>
     (\<exists>p. asks f = Some (i, m, p) \<and> q = (case p of None \<Rightarrow> VObj [] | Some v \<Rightarrow> v))}"

definition not_found_for :: "incoming \<Rightarrow> (nat \<times> rpc_message) set" where
  "not_found_for f = {(i, rpc_failure (IdNum i) (method_not_found m)) | i m. \<exists>p. asks f = Some (i, m, p)}"

lemma response_answers [simp]:
  "answers (InFrame 0 0 (MessageBody (rpc_failure (IdNum i) e))) = Some (i, rpc_failure (IdNum i) e)"
  "answers (InFrame 0 0 (MessageBody (rpc_result (IdNum i) v))) = Some (i, rpc_result (IdNum i) v)"
  "answers (InFrame 0 0 (MessageBody (rpc_failure (IdOther w) e))) = None"
  "answers (InFrame 0 0 (MessageBody (rpc_result (IdOther w) v))) = None"
  by (simp_all add: rpc_message_defs)

lemma rel_call:
  assumes "c = primary \<Longrightarrow> rc_generation (client_of d c) = 0 \<Longrightarrow> (length (rd_tasks d), (primary, 0, i), m, q) \<in> I" and "no_calls \<subseteq> I"
  shows "relay_rel A I C d
    (d\<lparr>rd_tasks := rd_tasks d @ [\<lparr>tk_client = c, tk_generation = rc_generation (client_of d c), tk_id = i, tk_aborted = False, tk_running = True\<rparr>],
       rd_requestAborts := map_set (c, i) (length (rd_tasks d)) (rd_requestAborts d)\<rparr>,
     [RdInvoked (length (rd_tasks d)) c (rc_generation (client_of d c)) i m q])"
    (is "relay_rel A I C d (?d1, ?out)")
proof -
  have "relay_ok ?d1" if ok: "relay_ok d"
    using ok unfolding relay_ok_def
    by (auto simp: nth_append dest!: map_set_cases)
  moreover have "(length (rd_tasks d), (c, rc_generation (client_of d c), i), m, q) \<in> I"
    using assms by (cases "c = primary \<and> rc_generation (client_of d c) = 0") (auto simp: no_calls_def)
  ultimately show ?thesis unfolding relay_rel_def
    by (auto simp: first_link_def busy_def task_key_def)
qed

lemma rel_cancel:
  assumes t: "map_get (rd_requestAborts d) (c, IdNum i) = Some t" and C: "c = primary \<Longrightarrow> i \<in> C"
  shows "relay_rel A I C d (mark_aborted t d, [RdAborted t])"
proof (rule rel_kept)
  have one: "mark_aborted t d = fold mark_aborted [t] d" by simp
  show "relay_ok (fst (mark_aborted t d, [RdAborted t]))" if ok: "relay_ok d"
    by (rule ok_keys [OF ok]) (use ok in \<open>auto simp: relay_ok_def\<close>)
  show "busy d - C \<subseteq> busy (fst (mark_aborted t d, [RdAborted t]))" if ok: "relay_ok d"
  proof
    fix n assume n: "n \<in> busy d - C"
    then obtain k where k: "k \<in> set (rd_tasks d)" "task_key k = (primary, 0, IdNum n)" "tk_running k" "\<not> tk_aborted k"
      by (auto simp: busy_def)
    have "((c, IdNum i), t) \<in> set (rd_requestAborts d)" using map_get_in [OF t] .
    then have "tk_client (rd_tasks d ! t) = c" "tk_id (rd_tasks d ! t) = IdNum i" using ok unfolding relay_ok_def by force+
    then have "task_key (rd_tasks d ! t) \<noteq> task_key k" using k(2) n C by (auto simp: task_key_def)
    then have "k \<in> set (rd_tasks (mark_aborted t d))" unfolding one by (intro unmarked [OF k(1)]) simp
    then show "n \<in> busy (fst (mark_aborted t d, [RdAborted t]))" using k by (auto simp: busy_def)
  qed
qed (simp_all add: first_link_def)

lemma rel_handle_request:
  assumes "c = primary \<Longrightarrow> rc_generation (client_of d c) = 0 \<Longrightarrow> (length (rd_tasks d), (primary, 0, i), m, case p of None \<Rightarrow> VObj [] | Some v \<Rightarrow> v) \<in> I"
    and "no_calls \<subseteq> I" and "may_answer A c (Some (rpc_failure i (method_not_found m))) d"
  shows "relay_rel A I C d (relay_handleRequest E c i m p d)"
  using rel_call [OF assms(1,2)] rel_throws [OF rel_send [OF assms(3)]]
  by (simp add: relay_handleRequest_def Let_def sendResponse_def)

lemma rel_handle_notification:
  assumes "\<And>i. m = js ''rpc.cancel'' \<Longrightarrow> c = primary \<Longrightarrow> rpc_cancel_id p = Some i \<Longrightarrow> i \<in> C"
  shows "relay_rel A I C d (relay_handleNotification c m p d)"
  using assms unfolding relay_handleNotification_def
  by (auto simp: rel.keeps_same intro: rel_quiet rel_cancel split: option.split)

text \<open>A message from client \<open>c\<close>; \<open>f\<close> is the frame it came in.\<close>

lemma rel_handle_message:
  assumes f: "f = InFrame j ack (MessageBody msg)" and no: "no_calls \<subseteq> I"
    and own: "c = primary \<Longrightarrow> not_found_for f \<subseteq> A \<and> calls_for f \<subseteq> I \<and> set_option (cancels f) \<subseteq> C"
  shows "relay_rel A I C d (relay_handleMessage E c msg d)"
proof (cases "rm_id msg")
  case None
  then show ?thesis using own f
    by (auto simp: relay_handleMessage_def rel.keeps_same intro!: rel_handle_notification split: option.split)
next
  case (Some x)
  show ?thesis
  proof (cases "rm_method msg")
    case None
    then show ?thesis using Some by (simp add: relay_handleMessage_def rel_response rel.keeps_same)
  next
    case m: (Some m)
    let ?q = "case rm_params msg of None \<Rightarrow> VObj [] | Some v \<Rightarrow> v"
    have "(length (rd_tasks d), (primary, 0, x), m, ?q) \<in> calls_for f"
      using Some m by (auto simp: calls_for_def f)
    moreover have "may_answer (not_found_for f) c (Some (rpc_failure x (method_not_found m))) d"
      using Some m by (cases x) (auto simp: may_answer_def not_found_for_def f simp del: answers.simps)
    then have "may_answer A c (Some (rpc_failure x (method_not_found m))) d"
      using own by (cases "c = primary") (auto simp: may_answer_def split: option.splits if_splits)
    ultimately show ?thesis using Some m own no
      by (simp add: relay_handleMessage_def) (rule rel_handle_request; auto)
  qed
qed

lemma rel_frame:
  assumes no: "no_calls \<subseteq> I" and own: "c = primary \<Longrightarrow> not_found_for f \<subseteq> A \<and> calls_for f \<subseteq> I \<and> set_option (cancels f) \<subseteq> C"
  shows "relay_rel A I C d (relay_handleFrame E c f d)"
proof (cases f)
  case (InFrame j ack body)
  let ?d1 = "upd_client c (\<lambda>k. k\<lparr>rc_highestReceivedSeq := max j (rc_highestReceivedSeq k)\<rparr>) d"
  have "relay_rel A I C d (?d1, [])" by (rule rel_upd) simp_all
  then have "relay_rel A I C d (emit_then (?d1, []) (\<lambda>d. case body of MessageBody msg \<Rightarrow> relay_handleMessage E c msg d | _ \<Rightarrow> (d, [])))"
    by (rule rel.keeps_then)
      (use InFrame rel_handle_message [OF _ no own] in \<open>auto simp: rel.keeps_same split: frame_body.split\<close>)
  then show ?thesis using InFrame by (simp add: Let_def emit_then_def split: frame_body.split)
qed (simp add: rel.keeps_same)

text \<open>A question of the first connection is answered or its handler runs.\<close>

lemma question_taken:
  assumes ok: "relay_ok d" and asks: "asks f = Some (i, m, p)"
    and first: "first_link (fst (relay_handleFrame E primary f d))" and fine: "RdThrew \<notin> set (snd (relay_handleFrame E primary f d))"
  shows "i \<in> busy (fst (relay_handleFrame E primary f d)) \<union> fst ` answered (frames_down (snd (relay_handleFrame E primary f d)))"
proof -
  obtain j ack msg where f: "f = InFrame j ack (MessageBody msg)" using asks by (cases f rule: asks.cases) auto
  have msg: "rm_id msg = Some (IdNum i)" "rm_method msg = Some m" using asks by (auto simp: f split: option.splits rpc_id.splits)
  let ?d1 = "upd_client primary (\<lambda>k. k\<lparr>rc_highestReceivedSeq := max j (rc_highestReceivedSeq k)\<rparr>) d"
  have eq: "relay_handleFrame E primary f d = relay_handleRequest E primary (IdNum i) m (rm_params msg) ?d1"
    using msg by (simp add: f Let_def relay_handleMessage_def)
  have ok1: "relay_ok ?d1"
    using rel_upd [where f = "\<lambda>k. k\<lparr>rc_highestReceivedSeq := max j (rc_highestReceivedSeq k)\<rparr>" and c = primary and d = d and out = "[]"] ok
    by (simp add: relay_rel_def)
  have "relay_rel UNIV UNIV UNIV ?d1 (relay_handleRequest E primary (IdNum i) m (rm_params msg) ?d1)"
    by (rule rel_handle_request) (auto simp: may_answer_def split: option.split)
  then have gen: "rc_generation (client_of ?d1 primary) = 0"
    using ok1 first unfolding eq by (auto simp: relay_rel_def first_link_def)
  show ?thesis
  proof (cases "m \<in> set (rd_requestHandlers ?d1)")
    case True
    then show ?thesis unfolding eq by (simp add: relay_handleRequest_def Let_def busy_def task_key_def gen)
  next
    case False
    let ?s = "sendFrame E primary (rpc_failure (IdNum i) (method_not_found m)) ?d1"
    have r: "relay_handleRequest E primary (IdNum i) m (rm_params msg) ?d1 = relay_throws ?s"
      using False by (simp add: relay_handleRequest_def sendResponse_def)
    then have "snd ?s \<noteq> SentThrew" using fine unfolding eq by (auto simp: relay_throws_def)
    then show ?thesis using sent_arrives [OF ok1 response_answers(1), of E] first unfolding eq r by (force simp: relay_throws_def)
  qed
qed

subsection \<open>A handler's outcome\<close>

text \<open>The message an outcome becomes; a result that cannot be encoded is answered with an error.\<close>

definition outcome_messages :: "relay_env \<Rightarrow> nat \<Rightarrow> js_value + js_value \<Rightarrow> rpc_message set" where
  "outcome_messages E i outcome = (case outcome of
     Inl e \<Rightarrow> {rpc_failure (IdNum i) e}
   | Inr v \<Rightarrow> {rpc_result (IdNum i) (js_null_if_undefined v), rpc_failure (IdNum i) (rv_encodeError E)})"

definition outcome_answers :: "relay_env \<Rightarrow> nat \<Rightarrow> js_value + js_value \<Rightarrow> relay_dispatcher \<Rightarrow> (nat \<times> rpc_message) set" where
  "outcome_answers E t outcome d = {(i, msg). t < length (rd_tasks d) \<and> task_key (rd_tasks d ! t) = (primary, 0, IdNum i) \<and> msg \<in> outcome_messages E i outcome}"

definition respond :: "relay_env \<Rightarrow> relay_task \<Rightarrow> js_value + js_value \<Rightarrow> relay_dispatcher \<Rightarrow> relay_result" where
  "respond E task outcome d =
     (case sendResponse E (tk_client task) (tk_id task) outcome d of
        (r, SentThrew) \<Rightarrow>
          (case outcome of
             Inl e \<Rightarrow> emit_then r (\<lambda>d. (d, [RdThrew]))
           | Inr v \<Rightarrow> emit_then r (\<lambda>d. relay_throws (sendResponse E (tk_client task) (tk_id task) (Inl (rv_encodeError E)) d)))
      | (r, _) \<Rightarrow> r)"

lemma handler_done_eq:
  assumes "t < length (rd_tasks d)" "tk_running (rd_tasks d ! t)"
  shows "handler_done E t outcome d = emit_then
    ((\<lambda>d1. if isStale d1 (rd_tasks d ! t) then (d1, []) else respond E (rd_tasks d ! t) outcome d1)
      (d\<lparr>rd_tasks := (rd_tasks d)[t := (rd_tasks d ! t)\<lparr>tk_running := False\<rparr>]\<rparr>))
    (emit_quiet (\<lambda>d'. d'\<lparr>rd_requestAborts := map_delete (tk_client (rd_tasks d ! t), tk_id (rd_tasks d ! t)) (rd_requestAborts d')\<rparr>))"
  using assms by (simp add: handler_done_def Let_def respond_def)

lemma unencoded: "snd (sendFrame E c msg d) = SentThrew \<Longrightarrow>
    \<exists>g. fst (sendFrame E c msg d) = (upd_client c (rc_nextOutgoingSeq_update g) d, [])"
  by (auto simp: sendFrame_def number_and_write_def Let_def case_prod_unfold split: if_splits)

lemma rel_respond:
  assumes "\<And>i msg. task_key task = (primary, 0, IdNum i) \<Longrightarrow> msg \<in> outcome_messages E i outcome \<Longrightarrow> (i, msg) \<in> A"
    and live: "rc_generation (client_of d (tk_client task)) = tk_generation task"
  shows "relay_rel A I C d (respond E task outcome d)"
proof -
  let ?m = "case outcome of Inl e \<Rightarrow> rpc_failure (tk_id task) e | Inr v \<Rightarrow> rpc_result (tk_id task) (js_null_if_undefined v)"
  let ?s = "sendFrame E (tk_client task) ?m d"
  have may1: "may_answer A (tk_client task) (Some ?m) d"
    using assms by (cases outcome; cases "tk_id task")
      (auto simp: may_answer_def task_key_def outcome_messages_def simp del: answers.simps)
  have may2: "may_answer A (tk_client task) (Some (rpc_failure (tk_id task) (rv_encodeError E))) d'" if "outcome = Inr v"
      and "rc_generation (client_of d' (tk_client task)) = rc_generation (client_of d (tk_client task))" for v d'
    using assms that by (cases "tk_id task") (auto simp: may_answer_def task_key_def outcome_messages_def simp del: answers.simps)
  have first: "relay_rel A I C d (fst ?s)" by (rule rel_send [OF may1])
  show ?thesis
  proof (cases "snd ?s = SentThrew")
    case True
    then obtain g where g: "fst ?s = (upd_client (tk_client task) (rc_nextOutgoingSeq_update g) d, [])" using unencoded by blast
    have "relay_rel A I C d (emit_then (fst ?s) (\<lambda>d. relay_throws (sendFrame E (tk_client task) (rpc_failure (tk_id task) (rv_encodeError E)) d)))"
      if "outcome = Inr v" for v
      by (rule rel.keeps_then [OF first]) (use g may2 [OF that] in \<open>simp add: rel_throws rel_send\<close>)
    moreover have "relay_rel A I C d (emit_then (fst ?s) (\<lambda>d. (d, [RdThrew])))" by (rule rel_say [OF first]) simp
    ultimately show ?thesis using True by (auto simp: respond_def sendResponse_def case_prod_unfold split: sum.splits)
  next
    case False
    then have "respond E task outcome d = fst ?s"
      by (auto simp: respond_def sendResponse_def case_prod_unfold split: sent.split)
    then show ?thesis using first by simp
  qed
qed

lemma respond_arrives:
  assumes ok: "relay_ok d" and task: "task_key task = (primary, 0, IdNum i)"
    and first: "first_link (fst (respond E task outcome d))" and fine: "RdThrew \<notin> set (snd (respond E task outcome d))"
  shows "i \<in> fst ` answered (frames_down (snd (respond E task outcome d)))"
proof -
  have key: "tk_client task = primary" "tk_id task = IdNum i" using task by (simp_all add: task_key_def)
  let ?m = "case outcome of Inl e \<Rightarrow> rpc_failure (IdNum i) e | Inr v \<Rightarrow> rpc_result (IdNum i) (js_null_if_undefined v)"
  let ?s = "sendFrame E primary ?m d"
  have ans: "answers (InFrame 0 0 (MessageBody ?m)) = Some (i, ?m)" by (simp split: sum.split del: answers.simps)
  show ?thesis
  proof (cases "snd ?s = SentThrew")
    case False
    then have "respond E task outcome d = fst ?s"
      by (auto simp: respond_def sendResponse_def key case_prod_unfold split: sent.split)
    then show ?thesis using sent_arrives [OF ok ans, of E] False first by force
  next
    case True
    then obtain g where g: "fst ?s = (upd_client primary (rc_nextOutgoingSeq_update g) d, [])" using unencoded by blast
    let ?d1 = "upd_client primary (rc_nextOutgoingSeq_update g) d" and ?e = "rpc_failure (IdNum i) (rv_encodeError E)"
    have ok1: "relay_ok ?d1" using rel_upd [where d = d and c = primary and f = "rc_nextOutgoingSeq_update g" and out = "[]"] ok by (simp add: relay_rel_def)
    obtain v where "outcome = Inr v" using True fine
      by (cases outcome) (auto simp: respond_def sendResponse_def key case_prod_unfold split: sum.splits)
    then have r: "respond E task outcome d = relay_throws (sendFrame E primary ?e ?d1)"
      using True g by (simp add: respond_def sendResponse_def key case_prod_unfold emit_then_def)
    then have "snd (sendFrame E primary ?e ?d1) \<noteq> SentThrew" using fine by (auto simp: relay_throws_def)
    then show ?thesis using sent_arrives [OF ok1 response_answers(1), of E] first unfolding r by (force simp: relay_throws_def)
  qed
qed

lemma busy_stopped:
  assumes "t < length (rd_tasks d)"
  shows "busy d - busy (d\<lparr>rd_tasks := (rd_tasks d)[t := (rd_tasks d ! t)\<lparr>tk_running := False\<rparr>]\<rparr>) \<subseteq>
    {i. task_key (rd_tasks d ! t) = (primary, 0, IdNum i) \<and> \<not> tk_aborted (rd_tasks d ! t)}"
proof
  fix i assume i: "i \<in> busy d - busy (d\<lparr>rd_tasks := (rd_tasks d)[t := (rd_tasks d ! t)\<lparr>tk_running := False\<rparr>]\<rparr>)"
  then obtain n where n: "n < length (rd_tasks d)" "task_key (rd_tasks d ! n) = (primary, 0, IdNum i)" "tk_running (rd_tasks d ! n)" "\<not> tk_aborted (rd_tasks d ! n)"
    by (auto simp: busy_def in_set_conv_nth)
  have "n = t"
  proof (rule ccontr)
    assume "n \<noteq> t"
    then have "rd_tasks d ! n \<in> set ((rd_tasks d)[t := (rd_tasks d ! t)\<lparr>tk_running := False\<rparr>])"
      using n(1) by (metis length_list_update nth_list_update_neq nth_mem)
    then show False using i n by (auto simp: busy_def)
  qed
  then show "i \<in> {i. task_key (rd_tasks d ! t) = (primary, 0, IdNum i) \<and> \<not> tk_aborted (rd_tasks d ! t)}" using n by simp
qed

lemma rel_drop_abort: "relay_rel A I C d (emit_quiet (\<lambda>d'. d'\<lparr>rd_requestAborts := map_delete key (rd_requestAborts d')\<rparr>) d)"
proof (rule rel_quiet)
  show "relay_ok (fst (emit_quiet (\<lambda>d'. d'\<lparr>rd_requestAborts := map_delete key (rd_requestAborts d')\<rparr>) d))" if ok: "relay_ok d"
    by (rule ok_keys [OF ok]) (use ok in \<open>auto simp: relay_ok_def map_delete_def\<close>)
qed (simp_all add: first_link_def)

lemma rel_handler_done: "relay_rel (outcome_answers E t outcome d) I C d (handler_done E t outcome d)"
proof (cases "t < length (rd_tasks d) \<and> tk_running (rd_tasks d ! t)")
  case False
  then show ?thesis by (auto simp: handler_done_def rel.keeps_same)
next
  case True
  let ?k = "rd_tasks d ! t"
  let ?d1 = "d\<lparr>rd_tasks := (rd_tasks d)[t := ?k\<lparr>tk_running := False\<rparr>]\<rparr>"
  let ?A = "outcome_answers E t outcome d"
  let ?in = "if isStale ?d1 ?k then (?d1, []) else respond E ?k outcome ?d1"
  let ?r = "handler_done E t outcome d"
  have eq: "?r = emit_then ?in (emit_quiet (\<lambda>d'. d'\<lparr>rd_requestAborts := map_delete (tk_client ?k, tk_id ?k) (rd_requestAborts d')\<rparr>))"
    using handler_done_eq True by simp
  have keys: "map task_key (rd_tasks ?d1) = map task_key (rd_tasks d)" using True by (simp add: map_update list_update_same_conv)
  have "relay_rel ?A I C ?d1 (respond E ?k outcome ?d1)" if "\<not> isStale ?d1 ?k"
    by (rule rel_respond) (use True that in \<open>auto simp: outcome_answers_def isStale_def\<close>)
  then have inner: "relay_rel ?A I C ?d1 ?in" by (simp add: rel.keeps_same)
  have rel: "relay_rel ?A I C ?d1 ?r" unfolding eq by (rule rel.keeps_then [OF inner]) (rule rel_drop_abort)
  show ?thesis
    unfolding relay_rel_def
  proof (intro impI)
    assume ok: "relay_ok d"
    have ok1: "relay_ok ?d1" by (rule ok_keys [OF ok keys]) (use ok in \<open>auto simp: relay_ok_def\<close>)
    note 1 = mp [OF rel [unfolded relay_rel_def] ok1]
    have own: "i \<in> fst ` answered (frames_down (snd ?r))"
      if i: "task_key ?k = (primary, 0, IdNum i)" "\<not> tk_aborted ?k" and last_: "first_link (fst ?r)" "RdThrew \<notin> set (snd ?r)" for i
    proof -
      have "first_link ?d1" using 1 last_ by blast
      then have "\<not> isStale ?d1 ?k" using i ok by (auto simp: isStale_def task_key_def first_link_def relay_ok_def)
      then have "?in = respond E ?k outcome ?d1" by simp
      moreover have "first_link (fst ?in)"
        using last_(1) unfolding eq by (simp add: first_link_def)
      ultimately show ?thesis
        using respond_arrives [OF ok1 i(1), of E outcome] last_(2) unfolding eq by simp
    qed
    have "busy d - C \<subseteq> busy (fst ?r) \<union> fst ` answered (frames_down (snd ?r))" if "first_link (fst ?r) \<and> RdThrew \<notin> set (snd ?r)"
    proof -
      have "busy ?d1 - C \<subseteq> busy (fst ?r) \<union> fst ` answered (frames_down (snd ?r))" using 1 that by blast
      then show ?thesis using busy_stopped [of t d] True own that by blast
    qed
    moreover have "first_link ?d1 = first_link d" by (simp add: first_link_def)
    ultimately show "relay_ok (fst ?r) \<and> (first_link (fst ?r) \<longrightarrow> first_link d) \<and>
      map task_key (rd_tasks (fst ?r)) = map task_key (rd_tasks d) @ map (fst \<circ> snd) (invoked (snd ?r)) \<and>
      map fst (invoked (snd ?r)) = [length (rd_tasks d)..<length (rd_tasks (fst ?r))] \<and>
      answered (frames_down (snd ?r)) \<subseteq> ?A \<and> set (invoked (snd ?r)) \<subseteq> I \<and>
      (first_link (fst ?r) \<and> RdThrew \<notin> set (snd ?r) \<longrightarrow> busy d - C \<subseteq> busy (fst ?r) \<union> fst ` answered (frames_down (snd ?r)))"
      using 1 keys by simp
  qed
qed

lemma rel_quiet_updates:
  "relay_rel A I C d (d\<lparr>rd_requestHandlers := ms\<rparr>, [])" "relay_rel A I C d (d\<lparr>rd_notificationHandlers := ms\<rparr>, [])"
  "relay_rel A I C d (d\<lparr>rd_clientDetachListeners := ls, rd_nextToken := n\<rparr>, [])" "relay_rel A I C d (d\<lparr>rd_clientDetachListeners := ls\<rparr>, [])"
  by (rule rel_clients; simp add: client_of_def)+

lemma rel_feed_other:
  assumes "c \<noteq> primary" "no_calls \<subseteq> I"
  shows "relay_rel A I C d (feedClient E c fs d)"
  unfolding feedClient_def by (simp add: rel.keeps_same) (intro impI rel.keeps_each rel_frame; use assms in simp)

definition step_answers :: "relay_env \<Rightarrow> relay_event \<Rightarrow> relay_dispatcher \<Rightarrow> (nat \<times> rpc_message) set" where
  "step_answers E e d = (case e of RdHandlerDone t outcome \<Rightarrow> outcome_answers E t outcome d | _ \<Rightarrow> {})"

text \<open>Every step but the arrival of data from the first connection.\<close>

lemma rel_step:
  assumes "not_fed e"
  shows "relay_rel (step_answers E e d) no_calls {} d (relay_step (E, e) d)"
proof (cases e)
  case (RdData c fs)
  then show ?thesis using assms rel_feed_other by (simp add: not_fed_def)
next
  case (RdHandlerDone t outcome)
  then show ?thesis using rel_handler_done by (simp add: step_answers_def)
qed (simp_all add: rel_notify rel_notify_client rel_bulk rel_bulk_runs flush_upd rel_keepalive rel_request rel_request_any rel_request_timeout
  rel_set_write rel_invalidate rel_attach rel_detach rel_quiet_updates rel_dispose rel.keeps_same)

end
