(* ===== verification/Relay_Link_Props.thy ===== *)
theory Relay_Link_Props
  imports Relay_Link_Relay
begin

text \<open>
  What both ends of a relay achieve together: an answer is the answer to the question it is taken for, and no
  question is forgotten while the first connection lasts.
\<close>

subsection \<open>The account of a link\<close>

definition of_mux :: "link_out list \<Rightarrow> mux_out list" where
  "of_mux out = concat (map (\<lambda>x. case x of OfMux y \<Rightarrow> [y] | OfRelay y \<Rightarrow> []) out)"

definition of_relay :: "link_out list \<Rightarrow> relay_out list" where
  "of_relay out = concat (map (\<lambda>x. case x of OfMux y \<Rightarrow> [] | OfRelay y \<Rightarrow> [y]) out)"

lemma of_outs [simp]:
  "of_mux [] = []" "of_mux (out @ out') = of_mux out @ of_mux out'" "of_mux (map OfMux m) = m" "of_mux (map OfRelay r) = []"
  "of_relay [] = []" "of_relay (out @ out') = of_relay out @ of_relay out'" "of_relay (map OfRelay r) = r" "of_relay (map OfMux m) = []"
  unfolding of_mux_def of_relay_def by (simp_all add: comp_def)

text \<open>
  An answer to question \<open>i\<close>, given what the desktop asked, which handlers were called and what happened: the method is
  not there, or the message is what came out of the handler that was called for just this question.
\<close>

definition explained :: "(nat \<times> jsstr \<times> js_value option) list \<Rightarrow> (nat \<times> (nat \<times> nat \<times> rpc_id) \<times> jsstr \<times> js_value) list \<Rightarrow>
    link_event list \<Rightarrow> (nat \<times> rpc_message) set" where
  "explained qs calls es = {(i, msg). \<exists>m p. (i, m, p) \<in> set qs \<and>
     (msg = rpc_failure (IdNum i) (method_not_found m) \<or>
      (\<exists>t E outcome. (t, (primary, 0, IdNum i), m, case p of None \<Rightarrow> VObj [] | Some v \<Rightarrow> v) \<in> set calls \<and>
         LkRelay E (RdHandlerDone t outcome) \<in> set es \<and> msg \<in> outcome_messages E i outcome))}"

lemma explained_mono: "explained qs calls es \<subseteq> explained (qs @ qs') (calls @ calls') (es @ es')"
  unfolding explained_def by fastforce

definition link_account :: "link_event list \<Rightarrow> mux_out list \<Rightarrow> relay_out list \<Rightarrow> incoming list \<Rightarrow> incoming list \<Rightarrow> mux \<Rightarrow> relay_dispatcher \<Rightarrow> bool" where
  "link_account es mo ro up down st d \<longleftrightarrow>
     mux_ok st \<and> relay_ok d \<and> set up \<subseteq> set (frames_up mo) \<and> set down \<subseteq> set (frames_down ro) \<and>
     distinct (map fst (asked (frames_up mo))) \<and> (\<forall>q\<in>set (asked (frames_up mo)). fst q < mx_nextRequestId st) \<and>
     map task_key (rd_tasks d) = map (fst \<circ> snd) (invoked ro) \<and> map fst (invoked ro) = [0..<length (rd_tasks d)] \<and>
     (\<forall>(t, k, m, q)\<in>set (invoked ro). \<forall>i. k = (primary, 0, IdNum i) \<longrightarrow>
        (\<exists>p. (i, m, p) \<in> set (asked (frames_up mo)) \<and> q = (case p of None \<Rightarrow> VObj [] | Some v \<Rightarrow> v))) \<and>
     answered (frames_down ro) \<subseteq> explained (asked (frames_up mo)) (invoked ro) es \<and>
     (\<forall>i s. MxSettled i s \<in> set mo \<longrightarrow> is_reply s \<longrightarrow> (\<exists>msg. (i, msg) \<in> answered (frames_down ro) \<and> s = settle_of msg)) \<and>
     (\<forall>f\<in>set up. \<forall>i. cancels f = Some i \<longrightarrow> i < mx_nextRequestId st \<and> i \<notin> waiting_requests st) \<and>
     (first_link d \<and> RdThrew \<notin> set ro \<longrightarrow> waiting_requests st \<subseteq> fst ` set (asked up) \<union> busy d \<union> fst ` answered down)"

lemma account_later: "link_account es mo ro up down st d \<Longrightarrow> link_account (es @ es') mo ro up down st d"
  unfolding link_account_def using explained_mono [of "asked (frames_up mo)" "invoked ro" es "[]" "[]" es'] by auto

text \<open>A step of the desktop; replies only on frames \<open>fs\<close> that the relay wrote.\<close>

lemma account_mux:
  assumes acc: "link_account es mo ro up down st d" and keeps: "mux_keeps st r" and says: "mux_says st r"
    and replies: "replies_from fs st r" and fs: "set fs \<subseteq> set (frames_down ro)"
    and owed: "waiting_requests (fst r) \<inter> fst ` answered down \<subseteq> fst ` answered down'" and down: "set down' \<subseteq> set down"
  shows "link_account es (mo @ snd r) ro (up @ frames_up (snd r)) down' (fst r) d"
proof -
  have ok: "mux_ok st" using acc by (simp add: link_account_def)
  have k: "mux_ok (fst r)" "mx_nextRequestId st \<le> mx_nextRequestId (fst r)"
    "waiting_requests (fst r) \<subseteq> waiting_requests st \<union> {mx_nextRequestId st..<mx_nextRequestId (fst r)}"
    using keeps ok unfolding mux_keeps_def by auto
  have s: "distinct (map fst (asked (frames_up (snd r))))" "fst ` set (asked (frames_up (snd r))) \<subseteq> {mx_nextRequestId st..<mx_nextRequestId (fst r)}"
    "\<And>f i. f \<in> set (frames_up (snd r)) \<Longrightarrow> cancels f = Some i \<Longrightarrow> i < mx_nextRequestId (fst r) \<and> i \<notin> waiting_requests (fst r)"
    "waiting_requests (fst r) - waiting_requests st \<subseteq> fst ` set (asked (frames_up (snd r)))"
    using says unfolding mux_says_def Let_def by blast+
  have a: "distinct (map fst (asked (frames_up mo)))" "\<forall>q\<in>set (asked (frames_up mo)). fst q < mx_nextRequestId st"
    "\<And>f i. f \<in> set up \<Longrightarrow> cancels f = Some i \<Longrightarrow> i < mx_nextRequestId st \<and> i \<notin> waiting_requests st"
    "first_link d \<and> RdThrew \<notin> set ro \<longrightarrow> waiting_requests st \<subseteq> fst ` set (asked up) \<union> busy d \<union> fst ` answered down"
    "\<And>i s. MxSettled i s \<in> set mo \<Longrightarrow> is_reply s \<Longrightarrow> \<exists>msg. (i, msg) \<in> answered (frames_down ro) \<and> s = settle_of msg"
    using acc unfolding link_account_def by blast+
  have dist: "distinct (map fst (asked (frames_up (mo @ snd r))))"
    using a(1,2) s(1,2) by fastforce
  have below: "\<forall>q\<in>set (asked (frames_up (mo @ snd r))). fst q < mx_nextRequestId (fst r)"
    using a(2) s(2) k(2) by fastforce
  have cancel: "\<forall>f\<in>set (up @ frames_up (snd r)). \<forall>i. cancels f = Some i \<longrightarrow> i < mx_nextRequestId (fst r) \<and> i \<notin> waiting_requests (fst r)"
    using a(3) s(3) k(2,3) by fastforce
  have told: "\<exists>msg. (i, msg) \<in> answered (frames_down ro) \<and> t = settle_of msg" if t: "MxSettled i t \<in> set (mo @ snd r)" "is_reply t" for i t
  proof (cases "MxSettled i t \<in> set mo")
    case True
    then show ?thesis using a(5) t(2) by blast
  next
    case False
    then have "MxSettled i t \<in> set (snd r)" using t(1) by simp
    then obtain f msg where "f \<in> set fs" "answers f = Some (i, msg)" "t = settle_of msg"
      using replies t(2) unfolding replies_from_def by blast
    then show ?thesis using fs unfolding answered_def by blast
  qed
  have wait: "waiting_requests (fst r) \<subseteq> fst ` set (asked (up @ frames_up (snd r))) \<union> busy d \<union> fst ` answered down'"
    if "first_link d \<and> RdThrew \<notin> set ro"
  proof
    fix i assume i: "i \<in> waiting_requests (fst r)"
    show "i \<in> fst ` set (asked (up @ frames_up (snd r))) \<union> busy d \<union> fst ` answered down'"
    proof (cases "i \<in> waiting_requests st")
      case True
      then have "i \<in> fst ` set (asked up) \<union> busy d \<union> fst ` answered down" using a(4) that by blast
      then show ?thesis using i owed by (auto simp: image_Un)
    next
      case False
      then show ?thesis using i s(4) by (auto simp: image_Un)
    qed
  qed
  have calls: "\<forall>(t, k, m, q)\<in>set (invoked ro). \<forall>i. k = (primary, 0, IdNum i) \<longrightarrow>
      (\<exists>p. (i, m, p) \<in> set (asked (frames_up (mo @ snd r))) \<and> q = (case p of None \<Rightarrow> VObj [] | Some v \<Rightarrow> v))"
    using acc unfolding link_account_def by fastforce
  have "answered (frames_down ro) \<subseteq> explained (asked (frames_up mo)) (invoked ro) es"
    using acc unfolding link_account_def by blast
  then have ans: "answered (frames_down ro) \<subseteq> explained (asked (frames_up (mo @ snd r))) (invoked ro) es"
    using explained_mono [of "asked (frames_up mo)" "invoked ro" es "asked (frames_up (snd r))" "[]" "[]"] by auto
  have subs: "set (up @ frames_up (snd r)) \<subseteq> set (frames_up (mo @ snd r))" "set down' \<subseteq> set (frames_down ro)"
    "relay_ok d" "map task_key (rd_tasks d) = map (fst \<circ> snd) (invoked ro)" "map fst (invoked ro) = [0..<length (rd_tasks d)]"
    using acc down unfolding link_account_def by auto
  show ?thesis unfolding link_account_def
    using k(1) subs dist below cancel told wait calls ans by (intro conjI) blast+
qed

text \<open>A step of the relay.\<close>

lemma account_relay:
  assumes acc: "link_account es mo ro up down st d" and rel: "relay_rel A I C d r" and up: "set up' \<subseteq> set up"
    and A: "A \<subseteq> explained (asked (frames_up mo)) (invoked ro) (es @ es')"
    and I: "\<forall>(t, k, m, q)\<in>I. \<forall>i. k = (primary, 0, IdNum i) \<longrightarrow>
      (\<exists>p. (i, m, p) \<in> set (asked (frames_up mo)) \<and> q = (case p of None \<Rightarrow> VObj [] | Some v \<Rightarrow> v))"
    and C: "C \<inter> waiting_requests st = {}"
    and owed: "first_link (fst r) \<and> RdThrew \<notin> set (snd r) \<Longrightarrow>
      waiting_requests st \<inter> fst ` set (asked up) \<subseteq> fst ` set (asked up') \<union> busy (fst r) \<union> fst ` answered (frames_down (snd r))"
  shows "link_account (es @ es') mo (ro @ snd r) up' (down @ frames_down (snd r)) st (fst r)"
proof -
  have a: "mux_ok st" "relay_ok d" "set up \<subseteq> set (frames_up mo)" "set down \<subseteq> set (frames_down ro)"
    "distinct (map fst (asked (frames_up mo)))" "\<forall>q\<in>set (asked (frames_up mo)). fst q < mx_nextRequestId st"
    "map task_key (rd_tasks d) = map (fst \<circ> snd) (invoked ro)" "map fst (invoked ro) = [0..<length (rd_tasks d)]"
    "\<forall>(t, k, m, q)\<in>set (invoked ro). \<forall>i. k = (primary, 0, IdNum i) \<longrightarrow>
        (\<exists>p. (i, m, p) \<in> set (asked (frames_up mo)) \<and> q = (case p of None \<Rightarrow> VObj [] | Some v \<Rightarrow> v))"
    "answered (frames_down ro) \<subseteq> explained (asked (frames_up mo)) (invoked ro) es"
    "\<forall>i s. MxSettled i s \<in> set mo \<longrightarrow> is_reply s \<longrightarrow> (\<exists>msg. (i, msg) \<in> answered (frames_down ro) \<and> s = settle_of msg)"
    "\<forall>f\<in>set up. \<forall>i. cancels f = Some i \<longrightarrow> i < mx_nextRequestId st \<and> i \<notin> waiting_requests st"
    "first_link d \<and> RdThrew \<notin> set ro \<longrightarrow> waiting_requests st \<subseteq> fst ` set (asked up) \<union> busy d \<union> fst ` answered down"
    using acc unfolding link_account_def by blast+
  have r: "relay_ok (fst r)" "first_link (fst r) \<longrightarrow> first_link d"
    "map task_key (rd_tasks (fst r)) = map task_key (rd_tasks d) @ map (fst \<circ> snd) (invoked (snd r))"
    "map fst (invoked (snd r)) = [length (rd_tasks d)..<length (rd_tasks (fst r))]"
    "answered (frames_down (snd r)) \<subseteq> A" "set (invoked (snd r)) \<subseteq> I"
    "first_link (fst r) \<and> RdThrew \<notin> set (snd r) \<longrightarrow> busy d - C \<subseteq> busy (fst r) \<union> fst ` answered (frames_down (snd r))"
    using rel a(2) unfolding relay_rel_def by blast+
  have tasks: "map task_key (rd_tasks (fst r)) = map (fst \<circ> snd) (invoked (ro @ snd r))" using r(3) a(7) by simp
  have numbers: "map fst (invoked (ro @ snd r)) = [0..<length (rd_tasks (fst r))]"
    using r(4) a(8) upt_add_eq_append [OF le0, of "length (rd_tasks d)" "length (rd_tasks (fst r)) - length (rd_tasks d)"] rel_length [OF rel a(2)] by simp
  have calls: "\<forall>(t, k, m, q)\<in>set (invoked (ro @ snd r)). \<forall>i. k = (primary, 0, IdNum i) \<longrightarrow>
      (\<exists>p. (i, m, p) \<in> set (asked (frames_up mo)) \<and> q = (case p of None \<Rightarrow> VObj [] | Some v \<Rightarrow> v))"
    using a(9) I r(6) by (simp add: ball_Un) blast
  have ans: "answered (frames_down (ro @ snd r)) \<subseteq> explained (asked (frames_up mo)) (invoked (ro @ snd r)) (es @ es')"
    using a(10) r(5) A explained_mono [of "asked (frames_up mo)" "invoked ro" es "[]" "[]" es']
      explained_mono [of "asked (frames_up mo)" "invoked ro" "es @ es'" "[]" "invoked (snd r)" "[]"] by auto
  have told: "\<forall>i s. MxSettled i s \<in> set mo \<longrightarrow> is_reply s \<longrightarrow> (\<exists>msg. (i, msg) \<in> answered (frames_down (ro @ snd r)) \<and> s = settle_of msg)"
    using a(11) by fastforce
  have wait: "waiting_requests st \<subseteq> fst ` set (asked up') \<union> busy (fst r) \<union> fst ` answered (down @ frames_down (snd r))"
    if "first_link (fst r) \<and> RdThrew \<notin> set (ro @ snd r)"
  proof
    fix i assume i: "i \<in> waiting_requests st"
    have fine: "first_link (fst r) \<and> RdThrew \<notin> set (snd r)" "first_link d \<and> RdThrew \<notin> set ro" using that r(2) by auto
    from a(13) fine(2) i consider "i \<in> fst ` set (asked up)" | "i \<in> busy d" | "i \<in> fst ` answered down" by blast
    then show "i \<in> fst ` set (asked up') \<union> busy (fst r) \<union> fst ` answered (down @ frames_down (snd r))"
    proof cases
      case 1
      then show ?thesis using owed [OF fine(1)] i by auto
    next
      case 2
      then have "i \<in> busy d - C" using C i by blast
      then show ?thesis using r(7) fine(1) by auto
    next
      case 3
      then show ?thesis by auto
    qed
  qed
  have subs: "set up' \<subseteq> set (frames_up mo)" "set (down @ frames_down (snd r)) \<subseteq> set (frames_down (ro @ snd r))"
    "\<forall>f\<in>set up'. \<forall>i. cancels f = Some i \<longrightarrow> i < mx_nextRequestId st \<and> i \<notin> waiting_requests st"
    using a(3,4,12) up by auto
  show ?thesis unfolding link_account_def
    using a(1,5,6) r(1) subs tasks numbers calls ans told wait by (intro conjI) blast+
qed

lemma account_relay_step:
  assumes acc: "link_account es mo ro up down st d" and own: "not_fed e"
  shows "link_account (es @ [LkRelay E e]) mo (ro @ snd (relay_step (E, e) d)) up (down @ frames_down (snd (relay_step (E, e) d))) st (fst (relay_step (E, e) d))"
proof (rule account_relay [OF acc rel_step [OF own] order_refl])
  show "step_answers E e d \<subseteq> explained (asked (frames_up mo)) (invoked ro) (es @ [LkRelay E e])"
  proof (cases e)
    case (RdHandlerDone t outcome)
    have a: "map task_key (rd_tasks d) = map (fst \<circ> snd) (invoked ro)" "map fst (invoked ro) = [0..<length (rd_tasks d)]"
      "\<And>t k m q i. (t, k, m, q) \<in> set (invoked ro) \<Longrightarrow> k = (primary, 0, IdNum i) \<Longrightarrow>
        (\<exists>p. (i, m, p) \<in> set (asked (frames_up mo)) \<and> q = (case p of None \<Rightarrow> VObj [] | Some v \<Rightarrow> v))"
      using acc unfolding link_account_def by blast+
    have "(i, msg) \<in> explained (asked (frames_up mo)) (invoked ro) (es @ [LkRelay E e])"
      if t: "t < length (rd_tasks d)" "task_key (rd_tasks d ! t) = (primary, 0, IdNum i)" "msg \<in> outcome_messages E i outcome" for i msg
    proof -
      obtain u k m q where x: "invoked ro ! t = (u, k, m, q)" by (cases "invoked ro ! t")
      have len: "length (invoked ro) = length (rd_tasks d)" using a(2) by (metis length_map length_upt minus_nat.diff_0)
      have "u = t" using arg_cong [OF a(2), of "\<lambda>l. l ! t"] t(1) len x by simp
      moreover have "k = (primary, 0, IdNum i)"
        using nth_map [of t "rd_tasks d" task_key] nth_map [of t "invoked ro" "fst \<circ> snd"] a(1) t len x by simp
      ultimately have call: "(t, (primary, 0, IdNum i), m, q) \<in> set (invoked ro)" using nth_mem [of t "invoked ro"] t(1) len x by simp
      obtain p where p: "(i, m, p) \<in> set (asked (frames_up mo))" "q = (case p of None \<Rightarrow> VObj [] | Some v \<Rightarrow> v)"
        using a(3) [OF call refl] by blast
      have "LkRelay E (RdHandlerDone t outcome) \<in> set (es @ [LkRelay E e])" by (simp add: RdHandlerDone)
      then show ?thesis using call p t(3) unfolding explained_def by blast
    qed
    then show ?thesis by (auto simp: RdHandlerDone step_answers_def outcome_answers_def)
  qed (simp_all add: step_answers_def)
qed (auto simp: no_calls_def)

lemma account_up:
  assumes acc: "link_account es mo ro (f # up) down st d"
  shows "link_account es mo (ro @ snd (relay_handleFrame E primary f d)) up (down @ frames_down (snd (relay_handleFrame E primary f d))) st
    (fst (relay_handleFrame E primary f d))"
proof -
  let ?r = "relay_handleFrame E primary f d"
  have rel: "relay_rel (not_found_for f) (calls_for f) (set_option (cancels f)) d ?r"
    by (rule rel_frame) (auto simp: no_calls_def calls_for_def)
  have f: "f \<in> set (frames_up mo)" "\<And>i. cancels f = Some i \<Longrightarrow> i \<notin> waiting_requests st" and ok: "relay_ok d"
    using acc unfolding link_account_def by auto
  have q: "asks f = Some q \<Longrightarrow> q \<in> set (asked (frames_up mo))" for q
    using split_list [OF f(1)] by auto
  have "link_account (es @ []) mo (ro @ snd ?r) up (down @ frames_down (snd ?r)) st (fst ?r)"
  proof (rule account_relay [OF acc rel])
    show "set up \<subseteq> set (f # up)" by auto
    show "not_found_for f \<subseteq> explained (asked (frames_up mo)) (invoked ro) (es @ [])"
      unfolding not_found_for_def explained_def using q by blast
    show "\<forall>(t, a, m, q)\<in>calls_for f. \<forall>i. a = (primary, 0, IdNum i) \<longrightarrow>
        (\<exists>p. (i, m, p) \<in> set (asked (frames_up mo)) \<and> q = (case p of None \<Rightarrow> VObj [] | Some v \<Rightarrow> v))"
      using q by (fastforce simp: calls_for_def)
    show "set_option (cancels f) \<inter> waiting_requests st = {}" using f(2) by auto
    assume fine: "first_link (fst ?r) \<and> RdThrew \<notin> set (snd ?r)"
    show "waiting_requests st \<inter> fst ` set (asked (f # up)) \<subseteq> fst ` set (asked up) \<union> busy (fst ?r) \<union> fst ` answered (frames_down (snd ?r))"
    proof (cases "asks f")
      case (Some x)
      obtain i m p where "x = (i, m, p)" by (cases x)
      then show ?thesis using question_taken [OF ok, of f i m p E] Some fine by auto
    qed auto
  qed
  then show ?thesis by simp
qed

lemma account_down:
  assumes acc: "link_account es mo ro up (f # down) st d"
  shows "link_account es (mo @ snd (handle_incoming E f st)) ro (up @ frames_up (snd (handle_incoming E f st))) down (fst (handle_incoming E f st)) d"
proof -
  have ok: "mux_ok st" and f: "f \<in> set (frames_down ro)" using acc unfolding link_account_def by auto
  show ?thesis
  proof (rule account_mux [OF acc keeps_incoming, where fs = "[f]"])
    show "mux_says st (handle_incoming E f st)" by (rule says_plain [OF plain_incoming keeps_incoming ok])
    show "replies_from [f] st (handle_incoming E f st)" using reply_incoming unfolding replies_from_def by fastforce
    show "waiting_requests (fst (handle_incoming E f st)) \<inter> fst ` answered (f # down) \<subseteq> fst ` answered down"
      using waiting_incoming [OF ok, of E f] by (auto split: option.splits)
  qed (use f in auto)
qed

lemma account_frames_down:
  "link_account es mo ro up (fs @ down) st d \<Longrightarrow>
   link_account es (mo @ snd (emit_each (handle_incoming E) fs st)) ro (up @ frames_up (snd (emit_each (handle_incoming E) fs st))) down
     (fst (emit_each (handle_incoming E) fs st)) d"
proof (induction fs arbitrary: mo up st)
  case (Cons f fs)
  have "link_account es mo ro up (f # fs @ down) st d" using Cons.prems by simp
  from Cons.IH [OF account_down [OF this, of E]] show ?case by simp
qed simp

lemma account_frames_up:
  "link_account es mo ro (fs @ up) down st d \<Longrightarrow>
   link_account es mo (ro @ snd (emit_each (relay_handleFrame E primary) fs d)) up (down @ frames_down (snd (emit_each (relay_handleFrame E primary) fs d))) st
     (fst (emit_each (relay_handleFrame E primary) fs d))"
proof (induction fs arbitrary: ro down d)
  case (Cons f fs)
  have "link_account es mo ro (f # fs @ up) down st d" using Cons.prems by simp
  from Cons.IH [OF account_up [OF this, of E]] show ?case by simp
qed simp

definition link_ok :: "link_event list \<Rightarrow> link_out list \<Rightarrow> link \<Rightarrow> bool" where
  "link_ok es out lk \<longleftrightarrow> link_account es (of_mux out) (of_relay out) (lk_up lk) (lk_down lk) (lk_mux lk) (lk_relay lk)"

text \<open>Frames nobody will look at any more.\<close>

lemma account_drop:
  assumes "link_account es mo ro (fs @ up) (gs @ down) st d"
    and "fs \<noteq> [] \<Longrightarrow> \<not> first_link d" and "gs \<noteq> [] \<Longrightarrow> waiting_requests st = {}"
  shows "link_account es mo ro up down st d"
proof -
  have sub: "set up \<subseteq> set (frames_up mo)" "set down \<subseteq> set (frames_down ro)"
    using assms(1) unfolding link_account_def by simp_all
  have "\<forall>f\<in>set (fs @ up). \<forall>i. cancels f = Some i \<longrightarrow> i < mx_nextRequestId st \<and> i \<notin> waiting_requests st"
    using assms(1) unfolding link_account_def by blast
  then have cancel: "\<forall>f\<in>set up. \<forall>i. cancels f = Some i \<longrightarrow> i < mx_nextRequestId st \<and> i \<notin> waiting_requests st"
    unfolding set_append by blast
  have "first_link d \<and> RdThrew \<notin> set ro \<longrightarrow> waiting_requests st \<subseteq> fst ` set (asked up) \<union> busy d \<union> fst ` answered down"
    using assms unfolding link_account_def by (cases "fs = []"; cases "gs = []") simp_all
  then show ?thesis using assms(1) sub cancel unfolding link_account_def by (intro conjI) blast+
qed

lemma account_data:
  assumes "link_account es mo ro up (fs @ down) st d"
  shows "link_account es (mo @ snd (onData E fs st)) ro (up @ frames_up (snd (onData E fs st))) down (fst (onData E fs st)) d"
proof (cases "mx_disposed st")
  case True
  then have "waiting_requests st = {}" using assms unfolding link_account_def mux_ok_def waiting_requests_def by auto
  then have "link_account es mo ro up down st d" using account_drop [where fs = "[]"] assms by simp
  then show ?thesis using True by (simp add: onData_def)
next
  case False
  let ?st = "st\<lparr>mx_lastReceivedAt := mv_now E\<rparr>"
  have same: "waiting_requests ?st = waiting_requests st" "mux_ok ?st = mux_ok st" "mx_nextRequestId ?st = mx_nextRequestId st"
    by (simp_all add: waiting_requests_def mux_ok_def)
  have acc: "link_account es mo ro up (fs @ down) ?st d" using assms unfolding link_account_def same .
  have eq: "onData E fs st = emit_each (handle_incoming E) fs ?st" using False by (simp add: onData_def)
  show ?thesis unfolding eq by (rule account_frames_down [OF acc])
qed

lemma account_feed:
  assumes "link_account es mo ro (fs @ up) down st d"
  shows "link_account es mo (ro @ snd (feedClient E primary fs d)) up (down @ frames_down (snd (feedClient E primary fs d))) st (fst (feedClient E primary fs d))"
proof (cases "rd_disposed d")
  case True
  then have "\<not> first_link d" by (simp add: first_link_def)
  then have "link_account es mo ro up down st d" using account_drop [where gs = "[]"] assms by simp
  then show ?thesis using True by (simp add: feedClient_def)
next
  case False
  have "primary \<in> set (rd_clients d)" using assms unfolding link_account_def relay_ok_def by blast
  then show ?thesis using False account_frames_up [OF assms] by (simp add: feedClient_def)
qed

lemma link_ok_step:
  assumes "link_ok es out lk"
  shows "link_ok (es @ [e]) (out @ snd (link_do e lk)) (fst (link_do e lk))"
proof (cases e)
  case (LkMux E x)
  have acc: "link_account (es @ [e]) (of_mux out) (of_relay out) (lk_up lk) (lk_down lk) (lk_mux lk) (lk_relay lk)"
    using assms account_later unfolding link_ok_def by blast
  then have ok: "mux_ok (lk_mux lk)" by (simp add: link_account_def)
  show ?thesis
  proof (cases "by_callers x")
    case True
    have "replies_from [] (lk_mux lk) (mux_step (E, x) (lk_mux lk))"
      by (rule replies_step) (use True in \<open>auto simp: by_callers_def split: mux_event.splits\<close>)
    from account_mux [OF acc keeps_step says_step [OF ok] this, of "lk_down lk"] True LkMux
    show ?thesis unfolding link_ok_def by (simp add: put_mux_def)
  next
    case False
    then show ?thesis using acc LkMux unfolding link_ok_def by simp
  qed
next
  case (LkRelay E x)
  show ?thesis
  proof (cases "not_fed x")
    case True
    then show ?thesis using account_relay_step [OF assms [unfolded link_ok_def] True, of E] LkRelay unfolding link_ok_def by (simp add: put_relay_def)
  next
    case False
    then show ?thesis using account_later [OF assms [unfolded link_ok_def], of "[e]"] LkRelay unfolding link_ok_def by simp
  qed
next
  case (LkUp E n)
  have "link_account (es @ [e]) (of_mux out) (of_relay out) (take n (lk_up lk) @ drop n (lk_up lk)) (lk_down lk) (lk_mux lk) (lk_relay lk)"
    using account_later [OF assms [unfolded link_ok_def]] by simp
  from account_feed [OF this, of E] LkUp show ?thesis unfolding link_ok_def by (simp add: put_relay_def)
next
  case (LkDown E n)
  have "link_account (es @ [e]) (of_mux out) (of_relay out) (lk_up lk) (take n (lk_down lk) @ drop n (lk_down lk)) (lk_mux lk) (lk_relay lk)"
    using account_later [OF assms [unfolded link_ok_def]] by simp
  from account_data [OF this, of E] LkDown show ?thesis unfolding link_ok_def by (simp add: put_mux_def)
qed

lemma link_ok_run: "link_ok es out lk \<Longrightarrow> link_ok (es @ xs) (out @ snd (link_run xs lk)) (fst (link_run xs lk))"
proof (induction xs arbitrary: es out lk)
  case (Cons x xs)
  from Cons.IH [OF link_ok_step [OF Cons.prems, of x]] show ?case by simp
qed simp

lemma link_ok_new: "link_ok [] [] (new_link now canDrain)"
  by (simp add: link_ok_def link_account_def new_link_def new_mux_def new_dispatcher_def mux_ok_def relay_ok_def waiting_requests_def
    primary_def client_of_def createClient_def)

lemma link_ok_from_start: "link_ok es (snd (link_run es (new_link now canDrain))) (fst (link_run es (new_link now canDrain)))"
  using link_ok_run [OF link_ok_new, of es now canDrain] by simp

subsection \<open>No question is handled twice\<close>

text \<open>The questions of the first connection that a handler was called for, in order.\<close>

definition first_calls :: "relay_out list \<Rightarrow> nat list" where
  "first_calls out = concat (map (\<lambda>(t, (c, g, i), m, q).
     case i of IdNum n \<Rightarrow> if c = primary \<and> g = 0 then [n] else [] | IdOther v \<Rightarrow> []) (invoked out))"

lemma first_calls_append [simp]: "first_calls [] = []" "first_calls (out @ out') = first_calls out @ first_calls out'"
  by (simp_all add: first_calls_def)

lemma no_first_calls: "set (invoked out) \<subseteq> no_calls \<Longrightarrow> first_calls out = []"
  by (fastforce simp: first_calls_def no_calls_def split: rpc_id.split)

definition asked_once :: "relay_out list \<Rightarrow> incoming list \<Rightarrow> mux \<Rightarrow> bool" where
  "asked_once ro up st \<longleftrightarrow> (let is = first_calls ro @ map fst (asked up) in distinct is \<and> set is \<subseteq> {..<mx_nextRequestId st})"

lemma once_less: "distinct (xs @ ys @ zs) \<and> set (xs @ ys @ zs) \<subseteq> N \<Longrightarrow> distinct (xs @ zs) \<and> set (xs @ zs) \<subseteq> N"
  by auto

lemma once_mux:
  assumes "asked_once ro up st" "mux_ok st" "mux_keeps st r" "mux_says st r"
  shows "asked_once ro (up @ frames_up (snd r)) (fst r)"
proof -
  let ?old = "first_calls ro @ map fst (asked up)" and ?new = "map fst (asked (frames_up (snd r)))"
  have new: "distinct ?new" "set ?new \<subseteq> {mx_nextRequestId st..<mx_nextRequestId (fst r)}"
    using assms(4) unfolding mux_says_def Let_def set_map by blast+
  have old: "distinct ?old" "set ?old \<subseteq> {..<mx_nextRequestId st}" using assms(1) unfolding asked_once_def Let_def by blast+
  have le: "mx_nextRequestId st \<le> mx_nextRequestId (fst r)"
    using assms(2,3) unfolding mux_keeps_def by blast
  have "set ?old \<inter> set ?new = {}" using new(2) old(2) by fastforce
  then have "distinct (?old @ ?new)" using new(1) old(1) by (simp only: distinct_append simp_thms)
  moreover have "set (?old @ ?new) \<subseteq> {..<mx_nextRequestId (fst r)}" using new(2) old(2) le by fastforce
  ultimately show ?thesis unfolding asked_once_def Let_def by (simp only: asked_simps map_append append_assoc simp_thms)
qed

lemma rel_no_calls: "relay_ok d \<Longrightarrow> relay_rel A {} C d r \<Longrightarrow> invoked (snd r) = []"
  by (simp add: relay_rel_def)

lemma frame_calls:
  assumes ok: "relay_ok d"
  shows "first_calls (snd (relay_handleFrame E primary f d)) \<in> {[], map fst (asked [f])}"
proof (cases "asks f")
  case None
  have "relay_rel (not_found_for f) (calls_for f) (set_option (cancels f)) d (relay_handleFrame E primary f d)"
    by (rule rel_frame) (auto simp: no_calls_def calls_for_def)
  moreover have "calls_for f \<subseteq> no_calls" using None by (auto simp: calls_for_def no_calls_def)
  ultimately show ?thesis using ok no_first_calls unfolding relay_rel_def by blast
next
  case (Some x)
  obtain i m p where x: "x = (i, m, p)" by (cases x)
  obtain j ack msg where f: "f = InFrame j ack (MessageBody msg)" using Some by (cases f rule: asks.cases) auto
  have msg: "rm_id msg = Some (IdNum i)" "rm_method msg = Some m" using Some x by (auto simp: f split: option.splits rpc_id.splits)
  let ?d1 = "upd_client primary (\<lambda>k. k\<lparr>rc_highestReceivedSeq := max j (rc_highestReceivedSeq k)\<rparr>) d"
  have eq: "relay_handleFrame E primary f d = relay_handleRequest E primary (IdNum i) m (rm_params msg) ?d1"
    using msg by (simp add: f Let_def relay_handleMessage_def)
  show ?thesis
  proof (cases "m \<in> set (rd_requestHandlers ?d1)")
    case True
    then show ?thesis unfolding eq using Some x by (simp add: relay_handleRequest_def Let_def first_calls_def)
  next
    case False
    have "relay_ok ?d1"
      using rel_upd [where f = "\<lambda>k. k\<lparr>rc_highestReceivedSeq := max j (rc_highestReceivedSeq k)\<rparr>" and c = primary and d = d and out = "[]"] ok
      by (simp add: relay_rel_def)
    moreover have "relay_rel UNIV {} {} ?d1 (relay_throws (sendFrame E primary (rpc_failure (IdNum i) (method_not_found m)) ?d1))"
      by (rule rel_throws [OF rel_send]) (simp add: may_answer_def split: option.split)
    ultimately have "invoked (snd (relay_throws (sendFrame E primary (rpc_failure (IdNum i) (method_not_found m)) ?d1))) = []"
      using rel_no_calls by blast
    then show ?thesis unfolding eq using False by (simp add: relay_handleRequest_def sendResponse_def first_calls_def)
  qed
qed

lemma once_up:
  assumes "asked_once ro (f # up) st" "relay_ok d"
  shows "asked_once (ro @ snd (relay_handleFrame E primary f d)) up st"
proof -
  let ?c = "first_calls (snd (relay_handleFrame E primary f d))"
  have eq: "asked (f # up) = asked [f] @ asked up" by simp
  from frame_calls [OF assms(2), of E f] have "?c = [] \<or> ?c = map fst (asked [f])" by blast
  then show ?thesis
  proof
    assume c: "?c = []"
    from assms(1) show ?thesis unfolding asked_once_def Let_def eq map_append first_calls_append c append_Nil2 by (rule once_less)
  next
    assume c: "?c = map fst (asked [f])"
    from assms(1) show ?thesis unfolding asked_once_def Let_def eq map_append first_calls_append c append_assoc .
  qed
qed

lemma frame_ok: "relay_ok d \<Longrightarrow> relay_ok (fst (relay_handleFrame E primary f d))"
  using rel_frame [of UNIV primary f UNIV UNIV d E] by (simp add: relay_rel_def)

lemma once_frames_up:
  "asked_once ro (fs @ up) st \<Longrightarrow> relay_ok d \<Longrightarrow> asked_once (ro @ snd (emit_each (relay_handleFrame E primary) fs d)) up st"
proof (induction fs arbitrary: ro d)
  case (Cons f fs)
  from Cons.prems have "asked_once ro (f # fs @ up) st" by simp
  from Cons.IH [OF once_up [OF this Cons.prems(2), of E] frame_ok [OF Cons.prems(2), of E f]] show ?case by simp
qed simp

lemma once_drop: "asked_once ro (fs @ up) st \<Longrightarrow> asked_once ro up st"
  unfolding asked_once_def Let_def asked_simps map_append by (rule once_less)

definition link_once :: "link_out list \<Rightarrow> link \<Rightarrow> bool" where
  "link_once out lk \<longleftrightarrow> asked_once (of_relay out) (lk_up lk) (lk_mux lk)"

lemma once_step:
  assumes ok: "link_ok es out lk" and once: "link_once out lk"
  shows "link_once (out @ snd (link_do e lk)) (fst (link_do e lk))"
proof -
  have m: "mux_ok (lk_mux lk)" and r: "relay_ok (lk_relay lk)" using ok unfolding link_ok_def link_account_def by blast+
  have mux: "link_once (out @ snd (put_mux (mux_step (E, x) (lk_mux lk)) (lk\<lparr>lk_down := g\<rparr>))) (fst (put_mux (mux_step (E, x) (lk_mux lk)) (lk\<lparr>lk_down := g\<rparr>)))"
    if "by_callers x \<or> (\<exists>fs. x = MxData fs)" for E x g
    using once_mux [OF once [unfolded link_once_def] m keeps_step says_step [OF m that]] unfolding link_once_def by (simp add: put_mux_def)
  show ?thesis
  proof (cases e)
    case (LkMux E x)
    then show ?thesis using mux [of x E "lk_down lk"] once by simp
  next
    case (LkRelay E x)
    have "first_calls (snd (relay_step (E, x) (lk_relay lk))) = []" if "not_fed x"
      using rel_step [OF that, of E "lk_relay lk"] r no_first_calls unfolding relay_rel_def by blast
    then show ?thesis using LkRelay once unfolding link_once_def asked_once_def Let_def by (simp add: put_relay_def)
  next
    case (LkUp E n)
    have "asked_once (of_relay out) (take n (lk_up lk) @ drop n (lk_up lk)) (lk_mux lk)" using once by (simp add: link_once_def)
    from once_frames_up [OF this r, of E] once_drop [OF this]
    show ?thesis using LkUp unfolding link_once_def by (simp add: put_relay_def feedClient_def)
  next
    case (LkDown E n)
    then show ?thesis using mux [of "MxData (take n (lk_down lk))" E "drop n (lk_down lk)"] by simp
  qed
qed

lemma once_run: "link_ok es out lk \<Longrightarrow> link_once out lk \<Longrightarrow> link_once (out @ snd (link_run xs lk)) (fst (link_run xs lk))"
proof (induction xs arbitrary: es out lk)
  case (Cons x xs)
  from Cons.IH [OF link_ok_step [OF Cons.prems(1), of x] once_step [OF Cons.prems, of x]] show ?case by simp
qed simp

lemma once_from_start: "link_once (snd (link_run es (new_link now canDrain))) (fst (link_run es (new_link now canDrain)))"
  using once_run [OF link_ok_new, of now canDrain es] by (simp add: link_once_def asked_once_def new_link_def first_calls_def)

subsection \<open>The link as a whole\<close>

text \<open>
  C8: Whatever two ends do and however the frames between them are cut, delivered or lost, a caller is given as a
  reply only an answer to its own question: that the method is not there, or what came out of the handler that was
  called for this very question, with the question's method and parameters.  Questions have different numbers, and for
  none of them is more than one handler called.
\<close>

theorem relay_answers_match:
  "let out = snd (link_run es (new_link now canDrain)); qs = asked (frames_up (of_mux out)); calls = invoked (of_relay out)
   in {(i, s). MxSettled i s \<in> set (of_mux out) \<and> is_reply s} \<subseteq> {(i, settle_of msg) | i msg. (i, msg) \<in> explained qs calls es} \<and>
      distinct (map fst qs) \<and> distinct (map fst calls) \<and> distinct (first_calls (of_relay out)) \<and> set (first_calls (of_relay out)) \<subseteq> fst ` set qs"
proof -
  let ?lk = "fst (link_run es (new_link now canDrain))" and ?out = "snd (link_run es (new_link now canDrain))"
  let ?qs = "asked (frames_up (of_mux ?out))" and ?calls = "invoked (of_relay ?out)"
  have acc: "link_account es (of_mux ?out) (of_relay ?out) (lk_up ?lk) (lk_down ?lk) (lk_mux ?lk) (lk_relay ?lk)"
    using link_ok_from_start [of es now canDrain] by (simp add: link_ok_def)
  have "answered (frames_down (of_relay ?out)) \<subseteq> explained ?qs ?calls es"
    "\<And>i s. MxSettled i s \<in> set (of_mux ?out) \<Longrightarrow> is_reply s \<Longrightarrow> \<exists>msg. (i, msg) \<in> answered (frames_down (of_relay ?out)) \<and> s = settle_of msg"
    using acc unfolding link_account_def by blast+
  then have "{(i, s). MxSettled i s \<in> set (of_mux ?out) \<and> is_reply s} \<subseteq> {(i, settle_of msg) | i msg. (i, msg) \<in> explained ?qs ?calls es}" by blast
  moreover have "distinct (map fst ?qs)" "distinct (map fst ?calls)" using acc unfolding link_account_def by (blast, metis distinct_upt)
  moreover have "distinct (first_calls (of_relay ?out))" using once_from_start [of es now canDrain] by (simp add: link_once_def asked_once_def)
  moreover have "set (first_calls (of_relay ?out)) \<subseteq> fst ` set ?qs"
  proof
    fix i assume "i \<in> set (first_calls (of_relay ?out))"
    then obtain t m q where "(t, (primary, 0, IdNum i), m, q) \<in> set ?calls"
      by (auto simp: first_calls_def split: rpc_id.splits if_splits)
    moreover have "\<And>t k m q i. (t, k, m, q) \<in> set ?calls \<Longrightarrow> k = (primary, 0, IdNum i) \<Longrightarrow>
        (\<exists>p. (i, m, p) \<in> set ?qs \<and> q = (case p of None \<Rightarrow> VObj [] | Some v \<Rightarrow> v))"
      using acc unfolding link_account_def by blast
    ultimately obtain p where "(i, m, p) \<in> set ?qs" by blast
    then show "i \<in> fst ` set ?qs" by (rule rev_image_eqI) simp
  qed
  ultimately show ?thesis unfolding Let_def by blast
qed

text \<open>
  C9: While the first connection lasts, the relay is not disposed of and everything it says can be encoded, no question
  is forgotten: whoever waits at the desktop has his question on the way to the relay, or its handler at work and not
  aborted, or the answer on the way back.
\<close>

theorem no_question_forgotten:
  assumes "first_link (lk_relay (fst (link_run es (new_link now canDrain))))"
    and "RdThrew \<notin> set (of_relay (snd (link_run es (new_link now canDrain))))"
  shows "let lk = fst (link_run es (new_link now canDrain))
    in waiting_requests (lk_mux lk) \<subseteq> fst ` set (asked (lk_up lk)) \<union> busy (lk_relay lk) \<union> fst ` answered (lk_down lk)"
  using link_ok_from_start [of es now canDrain] assms unfolding link_ok_def link_account_def Let_def by blast

definition fine_relay :: relay_env where
  "fine_relay = \<lparr>rv_write = (\<lambda>_. WriteTaken), rv_drainsAtOnce = False, rv_tooLarge = (\<lambda>_. False), rv_encodeError = VNull\<rparr>"

text \<open>A question is asked and taken, its handler returns, and the answer is on its way.\<close>

definition one_question :: "link_event list" where
  "one_question =
     [LkRelay fine_relay (RdOnRequest (js ''stat'')), LkMux (at_ms 1) (MxRequest (js ''stat'') None False False),
      LkUp fine_relay 1, LkRelay fine_relay (RdHandlerDone 0 (Inr (VBool True)))]"

theorem no_question_forgotten_witness:
  "let lk = fst (link_run one_question (new_link 0 True))
   in map fst (mx_pendingRequests (lk_mux lk)) = [1] \<and> map answers (lk_down lk) = [Some (1, rpc_result (IdNum 1) (VBool True))] \<and>
     waiting_requests (lk_mux lk) \<subseteq> fst ` set (asked (lk_up lk)) \<union> busy (lk_relay lk) \<union> fst ` answered (lk_down lk)"
proof -
  have "rc_generation (client_of (lk_relay (fst (link_run one_question (new_link 0 True)))) primary) = 0"
    "\<not> rd_disposed (lk_relay (fst (link_run one_question (new_link 0 True))))"
    by code_simp+
  then have "first_link (lk_relay (fst (link_run one_question (new_link 0 True))))" by (simp add: first_link_def)
  moreover have "\<not> list_ex (\<lambda>x. case x of RdThrew \<Rightarrow> True | _ \<Rightarrow> False) (of_relay (snd (link_run one_question (new_link 0 True))))" by code_simp
  then have "RdThrew \<notin> set (of_relay (snd (link_run one_question (new_link 0 True))))" by (auto simp: list_ex_iff)
  moreover have "map fst (mx_pendingRequests (lk_mux (fst (link_run one_question (new_link 0 True))))) = [1]"
    "map answers (lk_down (fst (link_run one_question (new_link 0 True)))) = [Some (1, rpc_result (IdNum 1) (VBool True))]"
    by code_simp+
  ultimately show ?thesis using no_question_forgotten [of one_question 0 True] unfolding Let_def by blast
qed

end
