(* ===== verification/Git_Stream.thy ===== *)
theory Git_Stream
  imports Json_Rpc Ssh_Mux Base64 Json
begin

text \<open>
  Large git answers in pieces.  The relay's end, \<open>src/relay/git-response-stream.ts\<close>: the answer is cut into chunks, and a
  pump sends them one at a time over the bulk lane, never more than a window ahead of the client's acknowledgements.
  The client's end, \<open>src/main/ssh/ssh-git-response-stream-reader.ts\<close>: it asks, collects the chunks and puts the answer
  together.  The bulk lane, the multiplexer and whether a request is stale are outside.
\<close>

subsection \<open>Constants and chunks\<close>

definition STREAM_ACK_WINDOW_CHUNKS :: nat where "STREAM_ACK_WINDOW_CHUNKS = 4"
definition GIT_RESPONSE_CHUNK_SIZE :: nat where "GIT_RESPONSE_CHUNK_SIZE = 128 * 1024"
definition MAX_PENDING_FRAMES :: nat where "MAX_PENDING_FRAMES = 64"

text \<open>Pieces of \<open>n\<close> bytes, the last one shorter.\<close>

function pieces :: "nat \<Rightarrow> bytes \<Rightarrow> bytes list" where
  "pieces n bs = (if bs = [] \<or> n = 0 then [] else take n bs # pieces n (drop n bs))"
  by auto
termination by (relation "measure (length \<circ> snd)") auto

declare pieces.simps [simp del]

definition encodeChunks :: "bytes \<Rightarrow> jsstr list" where
  "encodeChunks payload = map base64_encode (pieces GIT_RESPONSE_CHUNK_SIZE payload)"

subsection \<open>The relay's end\<close>

text \<open>
  Where the pump stands: before its first turn, parked until an acknowledgement or the timer, woken with its
  continuation queued, waiting for the bulk lane to take a chunk, the end or an error message, or over.
\<close>

datatype pump_phase = PumpQueued | PumpParked | PumpWoken | PumpSending | PumpEnding | PumpFailing | PumpDone

record git_stream =
  gs_ownerClientId :: nat
  gs_aborted :: bool
  gs_ackedThroughSeq :: rat
  gs_chunks :: "jsstr list"
  gs_seq :: nat
  gs_phase :: pump_phase

text \<open>Stream \<open>i\<close> is entry \<open>i - 1\<close> of \<open>gr_objects\<close>; \<open>gr_streams\<close> are the keys of the map.\<close>

record git_streams =
  gr_objects :: "git_stream list"
  gr_streams :: "nat list"

record git_env =
  ge_isStale :: "nat \<Rightarrow> bool"
  ge_error :: jsstr

datatype git_out = GsMarker js_value | GsBulk nat jsstr js_value

type_synonym git_result = "git_streams \<times> git_out list"

definition git_marker :: "nat \<Rightarrow> nat \<Rightarrow> nat \<Rightarrow> js_value" where
  "git_marker streamId totalBytes chunkCount =
     VObj [(js ''__orcaGitResponseStream'',
       VObj [(js ''streamId'', VNum (of_nat streamId)), (js ''totalBytes'', VNum (of_nat totalBytes)), (js ''chunkCount'', VNum (of_nat chunkCount))])]"

definition git_chunk_params :: "nat \<Rightarrow> nat \<Rightarrow> jsstr \<Rightarrow> js_value" where
  "git_chunk_params streamId seq data =
     VObj [(js ''streamId'', VNum (of_nat streamId)), (js ''seq'', VNum (of_nat seq)), (js ''data'', VStr data)]"

definition new_git_streams :: git_streams where
  "new_git_streams = \<lparr>gr_objects = [], gr_streams = []\<rparr>"

definition upd_stream :: "nat \<Rightarrow> (git_stream \<Rightarrow> git_stream) \<Rightarrow> git_streams \<Rightarrow> git_streams" where
  "upd_stream i f st = (if 0 < i \<and> i \<le> length (gr_objects st) then st\<lparr>gr_objects := (gr_objects st)[i - 1 := f (gr_objects st ! (i - 1))]\<rparr> else st)"

definition startStream :: "bytes \<Rightarrow> nat \<Rightarrow> git_streams \<Rightarrow> git_result" where
  "startStream payload clientId st =
     (let streamId = length (gr_objects st) + 1; chunks = encodeChunks payload
      in (\<lparr>gr_objects = gr_objects st @ [\<lparr>gs_ownerClientId = clientId, gs_aborted = False, gs_ackedThroughSeq = - 1,
              gs_chunks = chunks, gs_seq = 0, gs_phase = PumpQueued\<rparr>],
           gr_streams = gr_streams st @ [streamId]\<rparr>,
          [GsMarker (git_marker streamId (length payload) (length chunks))]))"

definition git_wake :: "git_stream \<Rightarrow> git_stream" where
  "git_wake e = (if gs_phase e = PumpParked then e\<lparr>gs_phase := PumpWoken\<rparr> else e)"

definition recordAck :: "nat \<Rightarrow> rat \<Rightarrow> nat \<Rightarrow> git_streams \<Rightarrow> git_streams" where
  "recordAck i seq clientId st =
     (if i \<in> set (gr_streams st)
      then upd_stream i (\<lambda>e. if gs_ownerClientId e \<noteq> clientId then e
             else git_wake (if seq > gs_ackedThroughSeq e then e\<lparr>gs_ackedThroughSeq := seq\<rparr> else e)) st
      else st)"

definition git_abort :: "nat \<Rightarrow> nat \<Rightarrow> git_streams \<Rightarrow> git_streams" where
  "git_abort i clientId st =
     (if i \<in> set (gr_streams st)
      then upd_stream i (\<lambda>e. if gs_ownerClientId e = clientId then git_wake (e\<lparr>gs_aborted := True\<rparr>) else e) st
      else st)"

definition wakeAll :: "git_streams \<Rightarrow> git_streams" where
  "wakeAll st = fold (\<lambda>i. upd_stream i git_wake) (gr_streams st) st"

definition git_disposeAll :: "git_streams \<Rightarrow> git_streams" where
  "git_disposeAll st = (fold (\<lambda>i. upd_stream i (\<lambda>e. git_wake (e\<lparr>gs_aborted := True\<rparr>))) (gr_streams st) st)\<lparr>gr_streams := []\<rparr>"

definition pump_over :: "nat \<Rightarrow> git_streams \<Rightarrow> git_streams" where
  "pump_over i st = (upd_stream i (\<lambda>e. e\<lparr>gs_phase := PumpDone\<rparr>) st)\<lparr>gr_streams := removeAll i (gr_streams st)\<rparr>"

definition set_phase :: "nat \<Rightarrow> pump_phase \<Rightarrow> git_streams \<Rightarrow> git_streams" where
  "set_phase i p st = upd_stream i (\<lambda>e. e\<lparr>gs_phase := p\<rparr>) st"

text \<open>The pump up to its next \<open>await\<close>, at the head of the loop or after one on an acknowledgement.\<close>

definition pump_run :: "git_env \<Rightarrow> nat \<Rightarrow> git_streams \<Rightarrow> git_result" where
  "pump_run E i st =
     (let e = gr_objects st ! (i - 1)
      in if gs_seq e \<ge> length (gs_chunks e)
         then (set_phase i PumpEnding st, [GsBulk (gs_ownerClientId e) (js ''git.responseEnd'') (VObj [(js ''streamId'', VNum (of_nat i))])])
         else if ge_isStale E i \<or> gs_aborted e then (pump_over i st, [])
         else if of_nat (gs_seq e) - gs_ackedThroughSeq e > of_nat STREAM_ACK_WINDOW_CHUNKS
         then (set_phase i (if i \<in> set (gr_streams st) then PumpParked else PumpWoken) st, [])
         else (set_phase i PumpSending st,
               [GsBulk (gs_ownerClientId e) (js ''git.responseChunk'') (git_chunk_params i (gs_seq e) (gs_chunks e ! gs_seq e))]))"

text \<open>The handler of what the bulk lane throws.\<close>

definition pump_catch :: "git_env \<Rightarrow> nat \<Rightarrow> git_streams \<Rightarrow> git_result" where
  "pump_catch E i st =
     (let e = gr_objects st ! (i - 1)
      in if ge_isStale E i \<or> gs_aborted e then (pump_over i st, [])
         else (set_phase i PumpFailing st,
               [GsBulk (gs_ownerClientId e) (js ''git.responseError'')
                  (VObj [(js ''streamId'', VNum (of_nat i)), (js ''message'', VStr (ge_error E))])]))"

datatype git_event =
    GsStart bytes nat
  | GsPump nat
  | GsAck nat rat nat
  | GsAbort nat nat
  | GsWakeAll
  | GsStall nat
  | GsResume nat
  | GsBulkDone nat bool
  | GsDispose

definition is_stream :: "nat \<Rightarrow> pump_phase \<Rightarrow> git_streams \<Rightarrow> bool" where
  "is_stream i p st \<longleftrightarrow> 0 < i \<and> i \<le> length (gr_objects st) \<and> gs_phase (gr_objects st ! (i - 1)) = p"

fun git_step :: "git_env \<times> git_event \<Rightarrow> git_streams \<Rightarrow> git_result" where
  "git_step (E, GsStart payload c) st = startStream payload c st"
| "git_step (E, GsPump i) st =
     (if \<not> is_stream i PumpQueued st then (st, [])
      else if i \<notin> set (gr_streams st) then (set_phase i PumpDone st, []) else pump_run E i st)"
| "git_step (E, GsAck i seq c) st = (recordAck i seq c st, [])"
| "git_step (E, GsAbort i c) st = (git_abort i c st, [])"
| "git_step (E, GsWakeAll) st = (wakeAll st, [])"
| "git_step (E, GsStall i) st = (if is_stream i PumpParked st then (set_phase i PumpWoken st, []) else (st, []))"
| "git_step (E, GsResume i) st = (if is_stream i PumpWoken st then pump_run E i st else (st, []))"
| "git_step (E, GsBulkDone i ok) st =
     (if is_stream i PumpSending st
      then (if ok then pump_run E i (upd_stream i (\<lambda>e. e\<lparr>gs_seq := gs_seq e + 1\<rparr>) st) else pump_catch E i st)
      else if is_stream i PumpEnding st then (if ok then (pump_over i st, []) else pump_catch E i st)
      else if is_stream i PumpFailing st then (pump_over i st, [])
      else (st, []))"
| "git_step (E, GsDispose) st = (git_disposeAll st, [])"

abbreviation git_run :: "(git_env \<times> git_event) list \<Rightarrow> git_streams \<Rightarrow> git_result" where
  "git_run es st \<equiv> emit_each git_step es st"

subsection \<open>The client's end\<close>

datatype frame_kind = KChunk | KEnd | KError

text \<open>How the promise is settled.\<close>

datatype git_failure =
    GitMalformed
  | GitOutOfOrder nat rat
  | GitIncomplete nat nat
  | GitParseFailed
  | GitStreamError js_value
  | GitStalled
  | GitClosed close_reason
  | GitCancelled
  | GitNotAnswered mux_settle

datatype git_settle = GitPlain js_value | GitValue json | GitFailed git_failure

record git_reader =
  gq_streamId :: "nat option"
  gq_parts :: "bytes list"
  gq_expectedSeq :: nat
  gq_receivedBytes :: nat
  gq_totalBytes :: nat
  gq_chunkCount :: nat
  gq_settled :: bool
  gq_pending :: "(frame_kind \<times> js_value) list"
  gq_inactivityTimer :: bool

datatype reader_out = GqRequest | GqNotify jsstr js_value | GqSettled git_settle

type_synonym reader_result = "git_reader \<times> reader_out list"

text \<open>\<open>streamIdRef\<close> is \<open>None\<close> while it is the sentinel, which is as long as \<open>metadataReady\<close> is false.\<close>

definition new_git_reader :: git_reader where
  "new_git_reader = \<lparr>gq_streamId = None, gq_parts = [], gq_expectedSeq = 0, gq_receivedBytes = 0, gq_totalBytes = 0, gq_chunkCount = 0,
     gq_settled = False, gq_pending = [], gq_inactivityTimer = False\<rparr>"

definition git_fail :: "bool \<Rightarrow> git_failure \<Rightarrow> git_reader \<Rightarrow> reader_result" where
  "git_fail muxDisposed err q =
     (if gq_settled q then (q, [])
      else (q\<lparr>gq_settled := True, gq_inactivityTimer := False\<rparr>,
            (case gq_streamId q of
               Some i \<Rightarrow> if muxDisposed then [] else [GqNotify (js ''git.cancelResponseStream'') (VObj [(js ''streamId'', VNum (of_nat i))])]
             | None \<Rightarrow> []) @ [GqSettled (GitFailed err)]))"

definition git_succeed :: "git_settle \<Rightarrow> git_reader \<Rightarrow> reader_result" where
  "git_succeed v q =
     (if gq_settled q then (q, []) else (q\<lparr>gq_settled := True, gq_inactivityTimer := False\<rparr>, [GqSettled v]))"

definition not_mine :: "js_value \<Rightarrow> git_reader \<Rightarrow> bool" where
  "not_mine p q \<longleftrightarrow> (case gq_streamId q of None \<Rightarrow> True | Some i \<Rightarrow> \<not> strict_eq (get ''streamId'' p) (VNum (of_nat i)))"

definition git_handleChunk :: "bool \<Rightarrow> js_value \<Rightarrow> git_reader \<Rightarrow> reader_result" where
  "git_handleChunk muxDisposed p q =
     (if gq_settled q \<or> not_mine p q then (q, [])
      else case (get ''seq'' p, get ''data'' p) of
        (VNum seq, VStr data) \<Rightarrow>
          if seq \<noteq> of_nat (gq_expectedSeq q) then git_fail muxDisposed (GitOutOfOrder (gq_expectedSeq q) seq) q
          else
            let decoded = buffer_from_base64 data
            in (q\<lparr>gq_parts := gq_parts q @ [decoded], gq_receivedBytes := gq_receivedBytes q + length decoded,
                  gq_expectedSeq := gq_expectedSeq q + 1, gq_inactivityTimer := True\<rparr>,
                case gq_streamId q of
                  Some i \<Rightarrow> if muxDisposed then []
                            else [GqNotify (js ''git.responseAck'') (VObj [(js ''streamId'', VNum (of_nat i)), (js ''seq'', VNum seq)])]
                | None \<Rightarrow> [])
      | _ \<Rightarrow> git_fail muxDisposed GitMalformed q)"

definition git_handleEnd :: "bool \<Rightarrow> js_value \<Rightarrow> git_reader \<Rightarrow> reader_result" where
  "git_handleEnd muxDisposed p q =
     (if gq_settled q \<or> not_mine p q then (q, [])
      else if gq_expectedSeq q \<noteq> gq_chunkCount q \<or> gq_receivedBytes q \<noteq> gq_totalBytes q
      then git_fail muxDisposed (GitIncomplete (gq_expectedSeq q) (gq_receivedBytes q)) q
      else case json_parse (utf8_decode (concat (gq_parts q))) of
        Some v \<Rightarrow> git_succeed (GitValue v) q
      | None \<Rightarrow> git_fail muxDisposed GitParseFailed q)"

definition handleStreamError :: "bool \<Rightarrow> js_value \<Rightarrow> git_reader \<Rightarrow> reader_result" where
  "handleStreamError muxDisposed p q =
     (if gq_settled q \<or> not_mine p q then (q, []) else git_fail muxDisposed (GitStreamError (get ''message'' p)) q)"

definition git_frame :: "bool \<Rightarrow> frame_kind \<times> js_value \<Rightarrow> git_reader \<Rightarrow> reader_result" where
  "git_frame muxDisposed f q =
     (case fst f of
        KChunk \<Rightarrow> git_handleChunk muxDisposed (snd f) q
      | KEnd \<Rightarrow> git_handleEnd muxDisposed (snd f) q
      | KError \<Rightarrow> handleStreamError muxDisposed (snd f) q)"

text \<open>What is left in the backlog after the promise is settled is never looked at.\<close>

definition drainPending :: "bool \<Rightarrow> git_reader \<Rightarrow> reader_result" where
  "drainPending muxDisposed q = emit_each (git_frame muxDisposed) (gq_pending q) (q\<lparr>gq_pending := []\<rparr>)"

definition pushPending :: "frame_kind \<times> js_value \<Rightarrow> git_reader \<Rightarrow> git_reader" where
  "pushPending f q =
     (let pending = gq_pending q @ [f]
      in q\<lparr>gq_pending := (if length pending > MAX_PENDING_FRAMES then tl pending else pending)\<rparr>)"

definition as_count :: "js_value \<Rightarrow> nat option" where
  "as_count v = (case v of VNum r \<Rightarrow> if of_int \<lfloor>r\<rfloor> = r \<and> r \<ge> 0 then Some (nat \<lfloor>r\<rfloor>) else None | _ \<Rightarrow> None)"

definition isGitResponseStreamMarker :: "js_value \<Rightarrow> (nat \<times> nat \<times> nat) option" where
  "isGitResponseStreamMarker v =
     (let m = get ''__orcaGitResponseStream'' v
      in case (as_count (get ''streamId'' m), as_count (get ''totalBytes'' m), as_count (get ''chunkCount'' m)) of
           (Some i, Some total_, Some count) \<Rightarrow> if i > 0 then Some (i, total_, count) else None
         | _ \<Rightarrow> None)"

datatype reader_event =
    GqResult js_value
  | GqRequestFailed mux_settle
  | GqFrame frame_kind js_value
  | GqDisposed close_reason
  | GqAborted
  | GqInactive

text \<open>The flag of a step: whether the multiplexer is disposed of.\<close>

fun reader_step :: "bool \<times> reader_event \<Rightarrow> git_reader \<Rightarrow> reader_result" where
  "reader_step (gone, GqResult v) q =
     (if gq_settled q then (q, [])
      else case isGitResponseStreamMarker v of
        None \<Rightarrow> git_succeed (GitPlain v) q
      | Some (i, total_, count) \<Rightarrow>
          drainPending gone (q\<lparr>gq_totalBytes := total_, gq_chunkCount := count, gq_streamId := Some i, gq_inactivityTimer := True\<rparr>))"
| "reader_step (gone, GqRequestFailed s) q = git_fail gone (GitNotAnswered s) q"
| "reader_step (gone, GqFrame k p) q =
     (if gq_settled q then (q, []) else if gq_streamId q = None then (pushPending (k, p) q, []) else git_frame gone (k, p) q)"
| "reader_step (gone, GqDisposed reason) q = git_fail gone (GitClosed reason) q"
| "reader_step (gone, GqAborted) q = git_fail gone GitCancelled q"
| "reader_step (gone, GqInactive) q = (if gq_inactivityTimer q then git_fail gone GitStalled q else (q, []))"

text \<open>A signal that is aborted already ends it before anything is asked.\<close>

definition requestGitStreamable :: "bool \<Rightarrow> reader_result" where
  "requestGitStreamable aborted = (if aborted then git_fail False GitCancelled new_git_reader else (new_git_reader, [GqRequest]))"

abbreviation reader_run :: "(bool \<times> reader_event) list \<Rightarrow> reader_result" where
  "reader_run es \<equiv> emit_each reader_step es new_git_reader"

end
