(* ===== verification/Git_Stream_Props.thy ===== *)
theory Git_Stream_Props
  imports Git_Stream Relay_Message
begin

text \<open>
  What the pieces of a git answer add up to: the client resolves only with the answer the relay cut up, whatever
  happens to the frames in between, and the relay never runs further ahead than the window.
\<close>

subsection \<open>Pieces\<close>

lemma concat_pieces: "0 < n \<Longrightarrow> concat (pieces n bs) = bs"
proof (induction n bs rule: pieces.induct)
  case (1 n bs)
  then show ?case by (subst pieces.simps) auto
qed

lemma decode_chunks: "concat (map buffer_from_base64 (encodeChunks payload)) = payload"
  by (simp add: encodeChunks_def comp_def buffer_from_encode concat_pieces GIT_RESPONSE_CHUNK_SIZE_def)

subsection \<open>What the relay sends\<close>

lemma upd_stream_fields [simp]:
  "gr_streams (upd_stream i f st) = gr_streams st" "length (gr_objects (upd_stream i f st)) = length (gr_objects st)"
  by (simp_all add: upd_stream_def)

lemma chunks_upd: "(\<And>e. gs_chunks (f e) = gs_chunks e) \<Longrightarrow> map gs_chunks (gr_objects (upd_stream i f st)) = map gs_chunks (gr_objects st)"
  by (auto simp: upd_stream_def map_update list_update_same_conv intro: nth_equalityI simp: nth_list_update)

lemma chunks_fold: "(\<And>e. gs_chunks (f e) = gs_chunks e) \<Longrightarrow>
    map gs_chunks (gr_objects (fold (\<lambda>i. upd_stream i f) is st)) = map gs_chunks (gr_objects st)"
  by (induction "is" arbitrary: st) (simp_all add: chunks_upd)

lemma chunks_wake [simp]: "gs_chunks (git_wake e) = gs_chunks e"
  by (simp add: git_wake_def)

text \<open>A chunk frame that belongs to the streams with chunks \<open>cs\<close>.\<close>

definition true_chunk :: "jsstr list list \<Rightarrow> js_value \<Rightarrow> bool" where
  "true_chunk cs p \<longleftrightarrow> (\<exists>i s. 0 < i \<and> i \<le> length cs \<and> s < length (cs ! (i - 1)) \<and> p = git_chunk_params i s (cs ! (i - 1) ! s))"

definition true_frames :: "git_streams \<Rightarrow> git_result \<Rightarrow> bool" where
  "true_frames st r \<longleftrightarrow> (\<exists>later. map gs_chunks (gr_objects (fst r)) = map gs_chunks (gr_objects st) @ later) \<and>
     (\<forall>c p. GsBulk c (js ''git.responseChunk'') p \<in> set (snd r) \<longrightarrow> true_chunk (map gs_chunks (gr_objects (fst r))) p)"

lemma true_chunk_later:
  assumes "true_chunk cs p"
  shows "true_chunk (cs @ later) p"
proof -
  obtain i s where i: "0 < i" "i \<le> length cs" "s < length (cs ! (i - 1))" "p = git_chunk_params i s (cs ! (i - 1) ! s)"
    using assms unfolding true_chunk_def by blast
  moreover have "i - 1 < length cs" using i(1,2) by linarith
  then have "(cs @ later) ! (i - 1) = cs ! (i - 1)" by (simp only: nth_append if_True)
  ultimately show ?thesis unfolding true_chunk_def by (intro exI [of _ i] exI [of _ s]) simp
qed

interpretation frames: composing true_frames
proof
  fix st :: git_streams
  show "true_frames st (st, [])" by (simp add: true_frames_def)
next
  fix st :: git_streams and r and f :: "git_streams \<Rightarrow> git_result"
  assume a: "true_frames st r" and b: "true_frames (fst r) (f (fst r))"
  then obtain m where "map gs_chunks (gr_objects (fst (f (fst r)))) = map gs_chunks (gr_objects (fst r)) @ m" by (auto simp: true_frames_def)
  then show "true_frames st (emit_then r f)"
    using a b true_chunk_later unfolding true_frames_def by (auto simp del: append_assoc) (metis append_assoc)
qed

lemma frames_quiet: "map gs_chunks (gr_objects st') = map gs_chunks (gr_objects st) \<Longrightarrow> true_frames st (st', [])"
  by (simp add: true_frames_def)

lemma frames_run:
  assumes "0 < i" "i \<le> length (gr_objects st)"
  shows "true_frames st (pump_run E i st)"
proof -
  let ?e = "gr_objects st ! (i - 1)"
  have same: "map gs_chunks (gr_objects (set_phase i p st)) = map gs_chunks (gr_objects st)" "map gs_chunks (gr_objects (pump_over i st)) = map gs_chunks (gr_objects st)" for p
    by (simp_all add: set_phase_def pump_over_def chunks_upd)
  have "true_chunk (map gs_chunks (gr_objects st)) (git_chunk_params i (gs_seq ?e) (gs_chunks ?e ! gs_seq ?e))" if "gs_seq ?e < length (gs_chunks ?e)"
    unfolding true_chunk_def by (intro exI [of _ i] exI [of _ "gs_seq ?e"]) (use assms that in simp)
  then show ?thesis unfolding pump_run_def Let_def true_frames_def by (auto simp: same js_eq_iff)
qed

lemma frames_catch: "true_frames st (pump_catch E i st)"
  unfolding pump_catch_def Let_def true_frames_def by (auto simp: set_phase_def pump_over_def chunks_upd js_eq_iff)

lemma frames_state: "map gs_chunks (gr_objects st') = map gs_chunks (gr_objects st) \<Longrightarrow> true_frames st' r \<Longrightarrow> true_frames st r"
  by (simp add: true_frames_def)

lemma frames_sent: "true_frames st (git_step (E, GsBulkDone i ok) st)"
proof (cases "is_stream i PumpSending st \<and> ok")
  case True
  let ?st1 = "upd_stream i (\<lambda>e. e\<lparr>gs_seq := gs_seq e + 1\<rparr>) st"
  have "true_frames ?st1 (pump_run E i ?st1)" by (rule frames_run) (use True in \<open>simp_all add: is_stream_def\<close>)
  then have "true_frames st (pump_run E i ?st1)" by (rule frames_state [rotated]) (simp add: chunks_upd)
  then show ?thesis using True by simp
next
  case False
  have "true_frames st (pump_over i st, [])" by (simp add: frames_quiet pump_over_def chunks_upd)
  then show ?thesis using False by (auto simp: frames_catch frames.keeps_same)
qed

lemma frames_step: "true_frames st (git_step x st)"
proof -
  obtain E e where x: "x = (E, e)" by (cases x)
  show ?thesis unfolding x
  proof (cases e)
    case (GsStart payload c)
    then show "true_frames st (git_step (E, e) st)" by (simp add: startStream_def Let_def true_frames_def)
  next
    case (GsBulkDone i ok)
    then show "true_frames st (git_step (E, e) st)" using frames_sent by simp
  qed (auto simp: recordAck_def git_abort_def wakeAll_def git_disposeAll_def chunks_fold chunks_upd set_phase_def is_stream_def frames.keeps_same
    intro!: frames_quiet frames_run)
qed

text \<open>The answers that were cut up, in the order of their streams.\<close>

definition git_payloads :: "(git_env \<times> git_event) list \<Rightarrow> bytes list" where
  "git_payloads es = concat (map (\<lambda>x. case snd x of GsStart payload c \<Rightarrow> [payload] | _ \<Rightarrow> []) es)"

lemma chunks_step:
  "map gs_chunks (gr_objects (fst (git_step x st))) =
    map gs_chunks (gr_objects st) @ (case snd x of GsStart payload c \<Rightarrow> [encodeChunks payload] | _ \<Rightarrow> [])"
  by (cases "(x, st)" rule: git_step.cases)
    (simp_all add: startStream_def Let_def recordAck_def git_abort_def wakeAll_def git_disposeAll_def chunks_fold chunks_upd set_phase_def
      pump_run_def pump_over_def pump_catch_def)

lemma chunks_run: "map gs_chunks (gr_objects (fst (git_run es st))) = map gs_chunks (gr_objects st) @ map encodeChunks (git_payloads es)"
proof (induction es arbitrary: st)
  case (Cons x es)
  show ?case by (simp add: Cons.IH chunks_step) (simp add: git_payloads_def split: git_event.split)
qed (simp add: git_payloads_def)

lemma sent_chunks_true:
  assumes "GsBulk c (js ''git.responseChunk'') p \<in> set (snd (git_run es new_git_streams))"
  shows "true_chunk (map encodeChunks (git_payloads es)) p"
proof -
  have "true_frames new_git_streams (git_run es new_git_streams)" by (rule frames.keeps_each) (rule frames_step)
  then show ?thesis using assms chunks_run [of es new_git_streams] by (simp add: true_frames_def new_git_streams_def)
qed

subsection \<open>The window\<close>

definition sent_chunks :: "git_stream \<Rightarrow> nat" where
  "sent_chunks e = (if gs_phase e = PumpSending then gs_seq e + 1 else gs_seq e)"

definition in_window :: "git_stream \<Rightarrow> bool" where
  "in_window e \<longleftrightarrow> of_nat (sent_chunks e) - (gs_ackedThroughSeq e + 1) \<le> of_nat STREAM_ACK_WINDOW_CHUNKS"

lemma window_upd: "list_all in_window (gr_objects st) \<Longrightarrow> (\<And>e. in_window e \<Longrightarrow> in_window (f e)) \<Longrightarrow> list_all in_window (gr_objects (upd_stream i f st))"
  by (auto simp: upd_stream_def list_all_length nth_list_update)

lemma window_fold: "list_all in_window (gr_objects st) \<Longrightarrow> (\<And>e. in_window e \<Longrightarrow> in_window (f e)) \<Longrightarrow>
    list_all in_window (gr_objects (fold (\<lambda>i. upd_stream i f) is st))"
  by (induction "is" arbitrary: st) (simp_all add: window_upd)

lemma window_wake [simp]: "in_window (git_wake e) = in_window e"
  by (simp add: git_wake_def in_window_def sent_chunks_def)

lemma window_abort [simp]: "in_window (e\<lparr>gs_aborted := b\<rparr>) = in_window e"
  by (simp add: in_window_def sent_chunks_def)

lemma window_ack: "in_window e \<Longrightarrow> seq > gs_ackedThroughSeq e \<Longrightarrow> in_window (e\<lparr>gs_ackedThroughSeq := seq\<rparr>)"
  unfolding in_window_def sent_chunks_def by (simp split: if_splits)

text \<open>Whatever phase but the sending one may be entered.\<close>

lemma window_phase: "in_window e \<Longrightarrow> p \<noteq> PumpSending \<Longrightarrow> in_window (e\<lparr>gs_phase := p\<rparr>)"
  unfolding in_window_def sent_chunks_def by (simp split: if_splits)

lemma upd_twice: "upd_stream i f (upd_stream i g st) = upd_stream i (f \<circ> g) st"
proof (cases "0 < i \<and> i \<le> length (gr_objects st)")
  case True
  then have "i - 1 < length (gr_objects st)" by linarith
  then show ?thesis using True by (simp add: upd_stream_def)
qed (auto simp: upd_stream_def)

lemma set_phase_twice: "set_phase i p (set_phase i p' st) = set_phase i p st"
  by (simp add: set_phase_def upd_twice comp_def)

lemma window_entry:
  assumes "list_all in_window (gr_objects st)" "0 < i" "i \<le> length (gr_objects st)" "in_window (f (gr_objects st ! (i - 1)))"
  shows "list_all in_window (gr_objects (upd_stream i f st))"
  using assms set_update_subset_insert [of "gr_objects st" "i - 1" "f (gr_objects st ! (i - 1))"] by (auto simp: upd_stream_def list_all_iff)

lemma window_run:
  assumes "list_all in_window (gr_objects (set_phase i PumpDone st))" "0 < i" "i \<le> length (gr_objects st)"
  shows "list_all in_window (gr_objects (fst (pump_run E i st)))"
proof -
  let ?e = "gr_objects st ! (i - 1)" and ?st0 = "set_phase i PumpDone st"
  have quiet: "list_all in_window (gr_objects (set_phase i p st))" if "p \<noteq> PumpSending" for p
  proof -
    have "list_all in_window (gr_objects (set_phase i p ?st0))"
      unfolding set_phase_def [of i p] by (rule window_upd [OF assms(1)]) (simp add: window_phase that)
    then show ?thesis by (simp add: set_phase_twice)
  qed
  have over: "list_all in_window (gr_objects (pump_over i st))" using assms(1) by (simp add: pump_over_def set_phase_def)
  have "in_window (?e\<lparr>gs_phase := PumpSending\<rparr>)" if "\<not> of_nat (gs_seq ?e) - gs_ackedThroughSeq ?e > of_nat STREAM_ACK_WINDOW_CHUNKS"
    using that by (simp add: in_window_def sent_chunks_def)
  then have "list_all in_window (gr_objects (set_phase i PumpSending st))" if "\<not> of_nat (gs_seq ?e) - gs_ackedThroughSeq ?e > of_nat STREAM_ACK_WINDOW_CHUNKS"
    using assms that by (auto simp: set_phase_def upd_stream_def list_all_length nth_list_update)
  then show ?thesis using quiet over unfolding pump_run_def Let_def by auto
qed

lemma window_step:
  assumes "list_all in_window (gr_objects st)"
  shows "list_all in_window (gr_objects (fst (git_step x st)))"
proof -
  obtain E e where x: "x = (E, e)" by (cases x)
  have quiet: "list_all in_window (gr_objects (set_phase i p st))" if "p \<noteq> PumpSending" for i p
    unfolding set_phase_def by (rule window_upd [OF assms]) (simp add: window_phase that)
  then have over: "list_all in_window (gr_objects (pump_over i st))" for i
    using quiet [of PumpDone] by (simp add: pump_over_def set_phase_def)
  have catch: "list_all in_window (gr_objects (fst (pump_catch E i st)))" for i
    using quiet [of PumpFailing] over by (simp add: pump_catch_def Let_def)
  have run: "list_all in_window (gr_objects (fst (pump_run E i st)))" if "is_stream i p st" for i p
    using window_run [OF quiet] that by (simp add: is_stream_def)
  have next_: "list_all in_window (gr_objects (fst (pump_run E i (upd_stream i (\<lambda>e. e\<lparr>gs_seq := gs_seq e + 1\<rparr>) st))))"
    if sending: "is_stream i PumpSending st" for i
  proof (rule window_run)
    have i: "0 < i" "i \<le> length (gr_objects st)" "i - 1 < length (gr_objects st)" "gs_phase (gr_objects st ! (i - 1)) = PumpSending"
      using sending by (auto simp: is_stream_def)
    then have "in_window (gr_objects st ! (i - 1))" using assms by (simp only: list_all_length)
    then show "list_all in_window (gr_objects (set_phase i PumpDone (upd_stream i (\<lambda>e. e\<lparr>gs_seq := gs_seq e + 1\<rparr>) st)))"
      unfolding set_phase_def upd_twice by (intro window_entry assms i(1,2)) (use i(4) in \<open>simp add: in_window_def sent_chunks_def\<close>)
  qed (use sending in \<open>simp_all add: is_stream_def\<close>)
  have new: "in_window \<lparr>gs_ownerClientId = c, gs_aborted = False, gs_ackedThroughSeq = - 1, gs_chunks = cs, gs_seq = 0, gs_phase = PumpQueued\<rparr>" for c cs
    by (simp add: in_window_def sent_chunks_def)
  show ?thesis unfolding x
    by (cases e) (auto simp: startStream_def Let_def new recordAck_def git_abort_def wakeAll_def git_disposeAll_def quiet over catch next_ [simplified] run assms
      intro!: window_upd window_fold window_ack)
qed

lemma window_kept: "list_all in_window (gr_objects st) \<Longrightarrow> list_all in_window (gr_objects (fst (git_run es st)))"
  by (induction es arbitrary: st) (simp_all add: window_step)

subsection \<open>What the client makes of it\<close>

text \<open>
  The client before and after it has the marker of stream \<open>k\<close>, whose answer is \<open>P\<close>; \<open>F\<close> are the frames that can
  reach it.
\<close>

definition collects :: "(frame_kind \<times> js_value) set \<Rightarrow> nat \<Rightarrow> bytes \<Rightarrow> git_reader \<Rightarrow> bool" where
  "collects F k P q \<longleftrightarrow> gq_settled q \<or>
     (set (gq_pending q) \<subseteq> F \<and> gq_parts q = map buffer_from_base64 (take (gq_expectedSeq q) (encodeChunks P)) \<and>
      (case gq_streamId q of None \<Rightarrow> gq_expectedSeq q = 0
       | Some i \<Rightarrow> i = k \<and> gq_chunkCount q = length (encodeChunks P)))"

definition yields :: "bytes \<Rightarrow> reader_out list \<Rightarrow> bool" where
  "yields P out \<longleftrightarrow> (\<forall>x. GqSettled (GitValue x) \<in> set out \<longrightarrow> json_parse (utf8_decode P) = Some x)"

lemma yields_simps [simp]: "yields P []" "yields P (out @ out') \<longleftrightarrow> yields P out \<and> yields P out'"
  by (auto simp: yields_def)

lemma collects_fail: "collects F k P (fst (git_fail gone err q)) \<and> yields P (snd (git_fail gone err q))"
  by (auto simp: git_fail_def collects_def yields_def split: option.splits)

lemma chunk_fields [simp]:
  "get ''streamId'' (git_chunk_params i s d) = VNum (of_nat i)" "get ''seq'' (git_chunk_params i s d) = VNum (of_nat s)"
  "get ''data'' (git_chunk_params i s d) = VStr d"
  by (simp_all add: git_chunk_params_def get_def js_eq_iff)

lemma collects_chunk:
  assumes inv: "collects F k P q" and mine: "gq_streamId q \<noteq> None"
    and p: "true_chunk css p" and k: "0 < k" "css ! (k - 1) = encodeChunks P"
  shows "collects F k P (fst (git_handleChunk gone p q)) \<and> yields P (snd (git_handleChunk gone p q))"
proof (cases "gq_settled q \<or> not_mine p q")
  case True
  then show ?thesis using inv by (simp add: git_handleChunk_def)
next
  case False
  obtain i s where p_eq: "p = git_chunk_params i s (css ! (i - 1) ! s)" and s: "s < length (css ! (i - 1))"
    using p unfolding true_chunk_def by blast
  have q: "gq_streamId q = Some k" "gq_parts q = map buffer_from_base64 (take (gq_expectedSeq q) (encodeChunks P))"
    using inv False mine unfolding collects_def by auto
  have i: "i = k" using False q(1) by (simp add: not_mine_def p_eq)
  show ?thesis
  proof (cases "s = gq_expectedSeq q")
    case True
    then have "git_handleChunk gone p q =
        (q\<lparr>gq_parts := gq_parts q @ [buffer_from_base64 (encodeChunks P ! s)], gq_receivedBytes := gq_receivedBytes q + length (buffer_from_base64 (encodeChunks P ! s)),
           gq_expectedSeq := s + 1, gq_inactivityTimer := True\<rparr>,
         if gone then [] else [GqNotify (js ''git.responseAck'') (VObj [(js ''streamId'', VNum (of_nat k)), (js ''seq'', VNum (of_nat s))])])"
      using False q(1) by (simp add: git_handleChunk_def p_eq i k(2) [simplified] Let_def)
    moreover have "take (s + 1) (encodeChunks P) = take s (encodeChunks P) @ [encodeChunks P ! s]"
      using s by (simp add: i k(2) [simplified] take_Suc_conv_app_nth)
    ultimately show ?thesis using inv False q True by (simp add: collects_def yields_def)
  next
    case neq: False
    then have "git_handleChunk gone p q = git_fail gone (GitOutOfOrder (gq_expectedSeq q) (of_nat s)) q"
      using False by (simp add: git_handleChunk_def p_eq)
    then show ?thesis using collects_fail by simp
  qed
qed

lemma collects_end:
  assumes inv: "collects F k P q" and mine: "gq_streamId q \<noteq> None"
  shows "collects F k P (fst (git_handleEnd gone p q)) \<and> yields P (snd (git_handleEnd gone p q))"
proof (cases "gq_settled q \<or> not_mine p q \<or> gq_expectedSeq q \<noteq> gq_chunkCount q \<or> gq_receivedBytes q \<noteq> gq_totalBytes q")
  case True
  then show ?thesis using inv collects_fail by (auto simp: git_handleEnd_def)
next
  case False
  have "gq_parts q = map buffer_from_base64 (encodeChunks P)" using inv mine False unfolding collects_def by auto
  then have "concat (gq_parts q) = P" by (simp add: decode_chunks)
  then show ?thesis using False collects_fail
    by (cases "json_parse (utf8_decode P)") (simp_all add: git_handleEnd_def git_succeed_def, simp_all add: collects_def yields_def)
qed

definition frames_ok :: "(frame_kind \<times> js_value) set \<Rightarrow> jsstr list list \<Rightarrow> bool" where
  "frames_ok F css \<longleftrightarrow> (\<forall>p. (KChunk, p) \<in> F \<longrightarrow> true_chunk css p)"

lemma collects_frame:
  assumes inv: "collects F k P q" and mine: "gq_streamId q \<noteq> None" and f: "f \<in> F" and F: "frames_ok F css"
    and k: "0 < k" "css ! (k - 1) = encodeChunks P"
  shows "collects F k P (fst (git_frame gone f q)) \<and> yields P (snd (git_frame gone f q))"
proof (cases "fst f")
  case KChunk
  have "true_chunk css (snd f)" using f F KChunk unfolding frames_ok_def by (metis prod.collapse)
  then show ?thesis using collects_chunk [OF inv mine _ k] KChunk by (simp add: git_frame_def)
next
  case KEnd
  then show ?thesis using collects_end [OF inv mine] by (simp add: git_frame_def)
next
  case KError
  then show ?thesis using inv collects_fail by (simp add: git_frame_def handleStreamError_def)
qed

lemma id_kept: "gq_streamId (fst (git_frame gone f q)) = gq_streamId q"
  by (auto simp: git_frame_def git_handleChunk_def git_handleEnd_def handleStreamError_def git_fail_def git_succeed_def Let_def
    split: frame_kind.split js_value.split option.split)

lemma collects_frames:
  assumes "collects F k P q" "gq_streamId q \<noteq> None" "set fs \<subseteq> F" "frames_ok F css" "0 < k" "css ! (k - 1) = encodeChunks P"
  shows "collects F k P (fst (emit_each (git_frame gone) fs q)) \<and> yields P (snd (emit_each (git_frame gone) fs q))"
  using assms
proof (induction fs arbitrary: q)
  case (Cons f fs)
  have one: "collects F k P (fst (git_frame gone f q)) \<and> yields P (snd (git_frame gone f q))"
    by (rule collects_frame) (use Cons.prems in auto)
  have "collects F k P (fst (emit_each (git_frame gone) fs (fst (git_frame gone f q)))) \<and>
      yields P (snd (emit_each (git_frame gone) fs (fst (git_frame gone f q))))"
    by (rule Cons.IH) (use one Cons.prems in \<open>simp_all add: id_kept\<close>)
  then show ?case using one by simp
qed simp

lemma marker_fields:
  "0 < k \<Longrightarrow> isGitResponseStreamMarker (git_marker k n c) = Some (k, n, c)"
  by (simp add: isGitResponseStreamMarker_def git_marker_def get_def js_eq_iff as_count_def Let_def)

text \<open>What can reach the client: any frames of \<open>F\<close>, and as the answer of the request the marker.\<close>

definition reader_hears :: "(frame_kind \<times> js_value) set \<Rightarrow> js_value \<Rightarrow> reader_event \<Rightarrow> bool" where
  "reader_hears F marker e \<longleftrightarrow> (case e of GqResult v \<Rightarrow> v = marker | GqFrame kd p \<Rightarrow> (kd, p) \<in> F | _ \<Rightarrow> True)"

lemma collects_step:
  assumes inv: "collects F k P q" and hears: "reader_hears F (git_marker k (length P) (length (encodeChunks P))) e"
    and F: "frames_ok F css" and k: "0 < k" "css ! (k - 1) = encodeChunks P"
  shows "collects F k P (fst (reader_step (gone, e) q)) \<and> yields P (snd (reader_step (gone, e) q))"
proof (cases e)
  case (GqResult v)
  show ?thesis
  proof (cases "gq_settled q")
    case True
    then show ?thesis using inv GqResult by simp
  next
    case False
    let ?q1 = "q\<lparr>gq_totalBytes := length P, gq_chunkCount := length (encodeChunks P), gq_streamId := Some k, gq_inactivityTimer := True\<rparr>"
    have eq: "reader_step (gone, e) q = drainPending gone ?q1"
      using hears False k(1) by (simp add: GqResult reader_hears_def marker_fields)
    have "set (gq_pending q) \<subseteq> F" using inv False by (simp add: collects_def)
    moreover have "collects F k P (?q1\<lparr>gq_pending := []\<rparr>)" using inv False by (auto simp: collects_def)
    ultimately show ?thesis unfolding eq drainPending_def
      using collects_frames [of F k P "?q1\<lparr>gq_pending := []\<rparr>" "gq_pending q" css gone] F k by simp
  qed
next
  case (GqFrame kd p)
  show ?thesis
  proof (cases "gq_settled q \<or> gq_streamId q = None")
    case True
    have "set (tl (gq_pending q @ [(kd, p)])) \<subseteq> set (gq_pending q) \<union> {(kd, p)}" by (cases "gq_pending q") auto
    then show ?thesis using inv True hears GqFrame by (auto simp: collects_def reader_hears_def pushPending_def Let_def)
  next
    case False
    then obtain i where "gq_streamId q = Some i" by auto
    then show ?thesis using False collects_frame [OF inv _ _ F k, of "(kd, p)" gone] hears GqFrame by (simp add: reader_hears_def)
  qed
qed (use inv collects_fail in simp_all)

lemma collects_run:
  "collects F k P q \<Longrightarrow> \<forall>x\<in>set xs. reader_hears F (git_marker k (length P) (length (encodeChunks P))) (snd x) \<Longrightarrow>
   frames_ok F css \<Longrightarrow> 0 < k \<Longrightarrow> css ! (k - 1) = encodeChunks P \<Longrightarrow> yields P (snd (emit_each reader_step xs q))"
proof (induction xs arbitrary: q)
  case (Cons x xs)
  have "collects F k P (fst (reader_step x q)) \<and> yields P (snd (reader_step x q))"
    using collects_step [OF Cons.prems(1) _ Cons.prems(3-5), of "snd x" "fst x"] Cons.prems(2) by simp
  then show ?case using Cons.IH [of "fst (reader_step x q)"] Cons.prems by simp
qed simp

definition frame_method :: "frame_kind \<Rightarrow> jsstr" where
  "frame_method k = (case k of KChunk \<Rightarrow> js ''git.responseChunk'' | KEnd \<Rightarrow> js ''git.responseEnd'' | KError \<Rightarrow> js ''git.responseError'')"

definition sent_frames :: "git_out list \<Rightarrow> (frame_kind \<times> js_value) set" where
  "sent_frames out = {(k, p). \<exists>c. GsBulk c (frame_method k) p \<in> set out}"

lemma sent_frames_ok: "frames_ok (sent_frames (snd (git_run es new_git_streams))) (map encodeChunks (git_payloads es))"
  using sent_chunks_true by (auto simp: frames_ok_def sent_frames_def frame_method_def)

text \<open>
  C12: The relay cuts up any number of answers for any number of clients.  A client that was given the marker of one
  of them, and hears, besides the events of its own, only frames the relay sent, for this or other streams, lost,
  repeated or reordered in any way, resolves with no other value than the one that was cut up.
\<close>

theorem streamed_answer_is_intact:
  assumes "0 < k" and "k \<le> length (git_payloads es)" and "git_payloads es ! (k - 1) = utf8_encode (json_stringify r)" and "json_ok r"
    and "\<forall>x\<in>set xs. reader_hears (sent_frames (snd (git_run es new_git_streams)))
      (git_marker k (length (git_payloads es ! (k - 1))) (length (encodeChunks (git_payloads es ! (k - 1))))) (snd x)"
  shows "{v. GqSettled (GitValue v) \<in> set (snd (reader_run xs))} \<subseteq> {r}"
proof -
  let ?P = "git_payloads es ! (k - 1)" and ?F = "sent_frames (snd (git_run es new_git_streams))"
  have start: "collects ?F k ?P new_git_reader" by (simp add: collects_def new_git_reader_def)
  have "map encodeChunks (git_payloads es) ! (k - 1) = encodeChunks ?P" by (rule nth_map) (use assms(1,2) in linarith)
  from collects_run [OF start assms(5) sent_frames_ok assms(1) this] have "yields ?P (snd (reader_run xs))" .
  moreover have "json_parse (utf8_decode ?P) = Some r"
    using decode_stringify [OF assms(4)] assms(3) by simp
  ultimately show ?thesis by (auto simp: yields_def)
qed

text \<open>
  C13: For no stream does the relay run more than the window of chunks ahead of the acknowledgements, however these,
  the bulk lane, cancellations and the timers interleave.
\<close>

theorem streams_keep_to_the_window:
  "list_all (\<lambda>e. of_nat (sent_chunks e) - (gs_ackedThroughSeq e + 1) \<le> (4 :: rat)) (gr_objects (fst (git_run es new_git_streams)))"
  using window_kept [of new_git_streams es] by (simp add: new_git_streams_def in_window_def STREAM_ACK_WINDOW_CHUNKS_def list_all_iff)

subsection \<open>An answer that arrives\<close>

text \<open>The state of a relay with one stream, \<open>s\<close> chunks of which were taken by the bulk lane and acknowledged.\<close>

definition pumping :: "bytes \<Rightarrow> nat \<Rightarrow> nat \<Rightarrow> git_streams" where
  "pumping P c s = \<lparr>gr_objects = [\<lparr>gs_ownerClientId = c, gs_aborted = False, gs_ackedThroughSeq = of_nat s - 1, gs_chunks = encodeChunks P,
     gs_seq = s, gs_phase = (if s < length (encodeChunks P) then PumpSending else PumpEnding)\<rparr>], gr_streams = [1]\<rparr>"

definition stream_frame :: "bytes \<Rightarrow> nat \<Rightarrow> frame_kind \<times> js_value" where
  "stream_frame P s = (if s < length (encodeChunks P) then (KChunk, git_chunk_params 1 s (encodeChunks P ! s))
     else (KEnd, VObj [(js ''streamId'', VNum 1)]))"

definition as_bulk :: "nat \<Rightarrow> frame_kind \<times> js_value \<Rightarrow> git_out" where
  "as_bulk c f = GsBulk c (frame_method (fst f)) (snd f)"

lemma pump_sends:
  assumes "\<not> ge_isStale E 1"
  shows "pump_run E 1 \<lparr>gr_objects = [\<lparr>gs_ownerClientId = c, gs_aborted = False, gs_ackedThroughSeq = of_nat s - 1, gs_chunks = encodeChunks P,
      gs_seq = s, gs_phase = p\<rparr>], gr_streams = [1]\<rparr> = (pumping P c s, [as_bulk c (stream_frame P s)])"
  using assms by (simp add: pump_run_def Let_def set_phase_def upd_stream_def pumping_def as_bulk_def stream_frame_def frame_method_def STREAM_ACK_WINDOW_CHUNKS_def)

definition ack_and_go :: "git_env \<Rightarrow> nat \<Rightarrow> nat \<Rightarrow> (git_env \<times> git_event) list" where
  "ack_and_go E c s = [(E, GsAck 1 (of_nat s) c), (E, GsBulkDone 1 True)]"

lemma acked_sends:
  assumes "\<not> ge_isStale E 1" "s < length (encodeChunks P)"
  shows "git_run (ack_and_go E c s) (pumping P c s) = (pumping P c (s + 1), [as_bulk c (stream_frame P (s + 1))])"
proof -
  let ?st = "\<lparr>gr_objects = [\<lparr>gs_ownerClientId = c, gs_aborted = False, gs_ackedThroughSeq = of_nat (s + 1) - 1, gs_chunks = encodeChunks P,
      gs_seq = s + 1, gs_phase = PumpSending\<rparr>], gr_streams = [1]\<rparr>"
  have "git_run (ack_and_go E c s) (pumping P c s) = pump_run E 1 ?st"
    using assms(2) by (simp add: ack_and_go_def pumping_def recordAck_def upd_stream_def git_wake_def is_stream_def emit_then_def case_prod_unfold)
  then show ?thesis using pump_sends [OF assms(1), of c "s + 1" P PumpSending] by simp
qed

lemma acked_sends_all:
  assumes "\<not> ge_isStale E 1" "s + d = length (encodeChunks P)"
  shows "git_run (concat (map (ack_and_go E c) [s..<s + d])) (pumping P c s) =
    (pumping P c (s + d), map (as_bulk c \<circ> stream_frame P) [s + 1..<s + d + 1])"
  using assms(2)
proof (induction d arbitrary: s)
  case (Suc d)
  have split: "[s..<s + Suc d] = s # [s + 1..<(s + 1) + d]" "[s + 1..<s + Suc d + 1] = (s + 1) # [(s + 1) + 1..<(s + 1) + d + 1]"
    by (simp_all add: upt_conv_Cons)
  have one: "git_run (ack_and_go E c s) (pumping P c s) = (pumping P c (s + 1), [as_bulk c (stream_frame P (s + 1))])"
    by (rule acked_sends [OF assms(1)]) (use Suc.prems in simp)
  have rest: "git_run (concat (map (ack_and_go E c) [s + 1..<(s + 1) + d])) (pumping P c (s + 1)) =
      (pumping P c ((s + 1) + d), map (as_bulk c \<circ> stream_frame P) [(s + 1) + 1..<(s + 1) + d + 1])"
    by (rule Suc.IH) (use Suc.prems in simp)
  show ?case unfolding split list.map concat.simps emit_each_append one comp_apply using rest by (simp add: emit_then_def comp_def)
qed simp

text \<open>The client after \<open>s\<close> chunks.\<close>

definition collected :: "bytes \<Rightarrow> nat \<Rightarrow> git_reader" where
  "collected P s = \<lparr>gq_streamId = Some 1, gq_parts = map buffer_from_base64 (take s (encodeChunks P)), gq_expectedSeq = s,
     gq_receivedBytes = length (concat (map buffer_from_base64 (take s (encodeChunks P)))), gq_totalBytes = length P,
     gq_chunkCount = length (encodeChunks P), gq_settled = False, gq_pending = [], gq_inactivityTimer = True\<rparr>"

definition hear :: "frame_kind \<times> js_value \<Rightarrow> bool \<times> reader_event" where
  "hear f = (False, GqFrame (fst f) (snd f))"

definition acknowledged :: "nat \<Rightarrow> reader_out" where
  "acknowledged s = GqNotify (js ''git.responseAck'') (VObj [(js ''streamId'', VNum 1), (js ''seq'', VNum (of_nat s))])"

lemma collects_one:
  assumes "s < length (encodeChunks P)"
  shows "reader_step (hear (stream_frame P s)) (collected P s) = (collected P (s + 1), [acknowledged s])"
  using assms
  by (simp add: hear_def stream_frame_def collected_def git_frame_def git_handleChunk_def not_mine_def Let_def acknowledged_def take_Suc_conv_app_nth)

lemma collects_all:
  "s + d = length (encodeChunks P) \<Longrightarrow>
   emit_each reader_step (map (hear \<circ> stream_frame P) [s..<s + d]) (collected P s) = (collected P (s + d), map acknowledged [s..<s + d])"
proof (induction d arbitrary: s)
  case (Suc d)
  have split: "[s..<s + Suc d] = s # [s + 1..<(s + 1) + d]" by (simp add: upt_conv_Cons)
  have one: "reader_step (hear (stream_frame P s)) (collected P s) = (collected P (s + 1), [acknowledged s])"
    by (rule collects_one) (use Suc.prems in simp)
  have rest: "emit_each reader_step (map (hear \<circ> stream_frame P) [s + 1..<(s + 1) + d]) (collected P (s + 1)) =
      (collected P ((s + 1) + d), map acknowledged [s + 1..<(s + 1) + d])"
    by (rule Suc.IH) (use Suc.prems in simp)
  show ?case unfolding split list.map emit_each.simps comp_apply one using rest by (simp add: emit_then_def comp_def)
qed simp

text \<open>
  C14: If the client hears what is sent, the bulk lane takes what it is given and every chunk is acknowledged before
  the next, the relay sends the chunks and the end and is done with the stream, and the client acknowledges every chunk
  as the relay was told and resolves with the answer.
\<close>

theorem streamed_answer_arrives:
  assumes "\<not> ge_isStale E 1" and "json_ok r" and "P = utf8_encode (json_stringify r)" and "n = length (encodeChunks P)"
  shows "let relay = git_run ([(E, GsStart P c), (E, GsPump 1)] @ concat (map (ack_and_go E c) [0..<n]) @ [(E, GsBulkDone 1 True)]) new_git_streams;
      client = reader_run ((False, GqResult (git_marker 1 (length P) n)) # map (hear \<circ> stream_frame P) [0..<n + 1])
    in snd relay = GsMarker (git_marker 1 (length P) n) # map (as_bulk c \<circ> stream_frame P) [0..<n + 1] \<and> gr_streams (fst relay) = [] \<and>
       snd client = map acknowledged [0..<n] @ [GqSettled (GitValue r)]"
proof -
  let ?go = "concat (map (ack_and_go E c) [0..<n])"
  have start: "git_run [(E, GsStart P c), (E, GsPump 1)] new_git_streams =
      (pumping P c 0, [GsMarker (git_marker 1 (length P) n), as_bulk c (stream_frame P 0)])"
    using pump_sends [OF assms(1), of c 0 P PumpQueued] assms(4)
    by (simp add: new_git_streams_def startStream_def Let_def is_stream_def emit_then_def)
  have go: "git_run ?go (pumping P c 0) = (pumping P c n, map (as_bulk c \<circ> stream_frame P) [1..<n + 1])"
    using acked_sends_all [OF assms(1), of 0 n P c] assms(4) by simp
  have last_: "git_run [(E, GsBulkDone 1 True)] (pumping P c n) = (pump_over 1 (pumping P c n), [])"
    using assms(4) by (simp add: pumping_def is_stream_def emit_then_def)
  have relay: "git_run ([(E, GsStart P c), (E, GsPump 1)] @ ?go @ [(E, GsBulkDone 1 True)]) new_git_streams =
      (pump_over 1 (pumping P c n), GsMarker (git_marker 1 (length P) n) # as_bulk c (stream_frame P 0) # map (as_bulk c \<circ> stream_frame P) [1..<n + 1])"
    unfolding emit_each_append start by (simp only: emit_then_def prod.case go last_ emit_each_append) simp
  have marker: "reader_step (False, GqResult (git_marker 1 (length P) n)) new_git_reader = (collected P 0, [])"
    using marker_fields [of 1 "length P" n] assms(4) by (simp add: new_git_reader_def drainPending_def collected_def)
  have all_: "emit_each reader_step (map (hear \<circ> stream_frame P) [0..<n]) (collected P 0) = (collected P n, map acknowledged [0..<n])"
    using collects_all [of 0 n P] assms(4) by simp
  have end_: "snd (reader_step (hear (stream_frame P n)) (collected P n)) = [GqSettled (GitValue r)]"
    using assms(4) decode_stringify [OF assms(2)] unfolding assms(3)
    by (simp add: hear_def stream_frame_def collected_def git_frame_def git_handleEnd_def not_mine_def get_def decode_chunks git_succeed_def)
  have split: "[0..<n + 1] = [0..<n] @ [n]" "0 # [1..<n + 1] = [0..<n + 1]" by (simp_all add: upt_conv_Cons)
  have "emit_each reader_step (map (hear \<circ> stream_frame P) [0..<n + 1]) (collected P 0) =
      emit_then (collected P n, map acknowledged [0..<n]) (emit_each reader_step [hear (stream_frame P n)])"
    unfolding split(1) map_append emit_each_append all_ by simp
  then have client: "snd (reader_run ((False, GqResult (git_marker 1 (length P) n)) # map (hear \<circ> stream_frame P) [0..<n + 1])) =
      map acknowledged [0..<n] @ [GqSettled (GitValue r)]"
    unfolding emit_each.simps marker using end_ by (simp add: emit_then_def case_prod_unfold)
  have sent: "as_bulk c (stream_frame P 0) # map (as_bulk c \<circ> stream_frame P) [1..<n + 1] = map (as_bulk c \<circ> stream_frame P) [0..<n + 1]"
    unfolding split(2) [symmetric] by simp
  have over: "gr_streams (pump_over 1 (pumping P c n)) = []" by (simp add: pump_over_def pumping_def)
  show ?thesis unfolding Let_def relay client fst_conv snd_conv sent over by simp
qed

text \<open>A small answer makes the whole way, with a chunk of the other stream in between.\<close>

definition git_fine :: git_env where
  "git_fine = \<lparr>ge_isStale = (\<lambda>_. False), ge_error = []\<rparr>"

definition two_answers :: "(git_env \<times> git_event) list" where
  "two_answers = map (Pair git_fine)
     [GsStart (utf8_encode (json_stringify (JBool True))) 0, GsStart (utf8_encode (json_stringify JNull)) 1, GsPump 2, GsPump 1, GsBulkDone 1 True]"

definition hears_both :: "(bool \<times> reader_event) list" where
  "hears_both = map (Pair False)
     [GqFrame KChunk (git_chunk_params 2 0 (base64_encode (utf8_encode (json_stringify JNull)))),
      GqResult (git_marker 1 4 1),
      GqFrame KChunk (git_chunk_params 1 0 (base64_encode (utf8_encode (json_stringify (JBool True))))),
      GqFrame KEnd (VObj [(js ''streamId'', VNum 1)])]"

lemma encode_one: "bs \<noteq> [] \<Longrightarrow> length bs \<le> 131072 \<Longrightarrow> encodeChunks bs = [base64_encode bs]"
  by (simp add: encodeChunks_def GIT_RESPONSE_CHUNK_SIZE_def pieces.simps [of _ bs] pieces.simps [of _ "[]"])

lemma printed_small:
  "utf8_encode (json_stringify (JBool True)) = [116, 114, 117, 101]" "utf8_encode (json_stringify JNull) = [110, 117, 108, 108]"
  "utf8_encode (js ''true'') = [116, 114, 117, 101]" "utf8_encode (js ''null'') = [110, 117, 108, 108]"
  by code_simp+

lemma chunks_small:
  "encodeChunks [116, 114, 117, 101] = [base64_encode [116, 114, 117, 101]]" "encodeChunks [110, 117, 108, 108] = [base64_encode [110, 117, 108, 108]]"
  by (simp_all add: encode_one)

lemma two_payloads: "git_payloads two_answers = [[116, 114, 117, 101], [110, 117, 108, 108]]"
  by (simp add: git_payloads_def two_answers_def printed_small)

lemma two_frames: "snd (git_run two_answers new_git_streams) = 
   [GsMarker (git_marker (Suc 0) 4 (Suc 0)), GsMarker (git_marker (Suc (Suc 0)) 4 (Suc 0)),
    GsBulk 1 (frame_method KChunk) (git_chunk_params 2 0 (base64_encode [110, 117, 108, 108])),
    GsBulk 0 (frame_method KChunk) (git_chunk_params (Suc 0) 0 (base64_encode [116, 114, 117, 101])),
    GsBulk 0 (frame_method KEnd) (VObj [(js ''streamId'', VNum 1)])]"
  by (simp add: two_answers_def printed_small new_git_streams_def startStream_def chunks_small Let_def is_stream_def pump_run_def set_phase_def upd_stream_def
    git_fine_def STREAM_ACK_WINDOW_CHUNKS_def frame_method_def emit_then_def eval_nat_numeral)

lemma true_parses: "json_parse (utf8_decode [116, 114, 117, 101]) = Some (JBool True)"
  using decode_stringify [of "JBool True"] by (simp add: printed_small)

lemma end_field: "get ''streamId'' (VObj [(js ''streamId'', v)]) = v"
  by (simp add: get_def)

lemma both_heard: "GqSettled (GitValue (JBool True)) \<in> set (snd (reader_run hears_both))"
  by (simp add: hears_both_def printed_small new_git_reader_def pushPending_def marker_fields MAX_PENDING_FRAMES_def drainPending_def
    git_frame_def git_handleChunk_def git_handleEnd_def not_mine_def end_field Let_def buffer_from_encode true_parses git_succeed_def emit_then_def)

lemma both_hears: 
  "list_all (\<lambda>x. reader_hears (sent_frames (snd (git_run two_answers new_git_streams))) (git_marker 1 4 1) (snd x)) hears_both"
  unfolding two_frames
  by (simp add: hears_both_def reader_hears_def sent_frames_def printed_small eval_nat_numeral) (auto simp: frame_method_def)

theorem streamed_answer_is_intact_witness:
  "GqSettled (GitValue (JBool True)) \<in> set (snd (reader_run hears_both)) \<and>
   {v. GqSettled (GitValue v) \<in> set (snd (reader_run hears_both))} \<subseteq> {JBool True}"
proof
  have P: "git_payloads two_answers ! (1 - 1) = [116, 114, 117, 101]" by (simp add: two_payloads)
  have heard: "\<forall>x\<in>set hears_both. reader_hears (sent_frames (snd (git_run two_answers new_git_streams)))
      (git_marker 1 (length (git_payloads two_answers ! (1 - 1))) (length (encodeChunks (git_payloads two_answers ! (1 - 1))))) (snd x)"
    using both_hears unfolding P by (simp add: chunks_small list_all_iff eval_nat_numeral)
  show "{v. GqSettled (GitValue v) \<in> set (snd (reader_run hears_both))} \<subseteq> {JBool True}"
    by (rule streamed_answer_is_intact [OF _ _ _ _ heard]) (simp_all add: two_payloads printed_small)
qed (rule both_heard)

theorem streamed_answer_arrives_witness:
  "snd (reader_run ((False, GqResult (git_marker 1 (length [110, 117, 108, 108 :: 8 word]) 1)) # map (hear \<circ> stream_frame [110, 117, 108, 108]) [0..<1 + 1])) =
    map acknowledged [0..<1] @ [GqSettled (GitValue JNull)]"
proof -
  have "\<not> ge_isStale git_fine 1" "json_ok JNull" by (simp_all add: git_fine_def)
  moreover have "[110, 117, 108, 108] = utf8_encode (json_stringify JNull)" by (rule printed_small(2) [symmetric])
  moreover have "1 = length (encodeChunks [110, 117, 108, 108])" by (simp add: chunks_small)
  ultimately show ?thesis using streamed_answer_arrives [of git_fine JNull "[110, 117, 108, 108]" 1 0] unfolding Let_def by blast
qed

end
