(* ===== verification/Spec2Isabelle.thy ===== *)
theory Spec2Isabelle
  imports Priority_Sem Ndjson Daemon_Frame Relay_Frame Stream_Batcher Orch_Schema Orch_Db_Props Orch_Db_Queue Orch_Coordinator_Props Git_Exec Tab_Layout Term_Log Relay_Message E2ee_Session Pty_Loss Bell_Detector Ws_Queue Rpc_Pool Shared_Control_Restore Terminal_Host_Props Process_Sweep Relay_Link_Props Git_Stream_Props
begin

text \<open>
  A model of the core logic of a desktop application that runs coding agents in terminals, on the local machine,
  on remote hosts over SSH and for a paired phone.  The application is TypeScript; all paths below are under \<open>src/\<close>.
  A definition has the name of the function it translates where the language allows it, with a prefix where several
  classes use the same name (\<open>mux_\<close>, \<open>relay_\<close>, \<open>host_\<close>, \<open>session_\<close>, \<open>sc_\<close>, \<open>nd_\<close>, \<open>fd_\<close>).

  \<^bold>\<open>How the program is put together.\<close>  A daemon owns the terminals' processes.  A \<^emph>\<open>session\<close> stands between one process
  and its clients, the \<^emph>\<open>host\<close> holds the sessions, and the output goes through a \<^emph>\<open>batcher\<close> (splitting, coalescing,
  thinning of background output) and a line or frame protocol to the main process, which delivers it to the renderer
  under flow control.  On a remote host a \<^emph>\<open>relay\<close> plays the part of the daemon: the desktop talks to its
  dispatcher over one SSH channel, in frames that carry JSON-RPC.  Agents at work in terminals coordinate through an
  \<^emph>\<open>orchestration\<close> store: tasks with dependencies, dispatches of tasks to terminals, a message queue, and a
  coordinator that is run in ticks.  A phone reaches the desktop through an encrypted channel, and the desktop reaches
  other runtimes through a control connection that outlives its sockets.

  \<^bold>\<open>Conventions.\<close>  A class is a record of its fields, a method a function from the state to the new state and a list of
  outputs: what it writes, calls back, resolves or signals.  A timer is a flag or a deadline in the state, and its
  firing is an event; so is the continuation of an asynchronous function, which runs after its promise is settled, in
  any order with the rest.  An \<open>Error\<close> that leaves a function is a value of a sum or an output of its own.  What a step
  reads from outside (the clock, what a write does, what a service answers) is an argument or a record ending in
  \<open>env\<close>.  A component is run by folding its step over a list of events, so a statement about all lists of events is
  one about all interleavings.  Strings are lists of 16-bit code units (\<open>jsstr\<close>), bytes are \<open>8 word\<close>, counters are
  \<open>nat\<close> where the source's numbers stay below 2^53 and checked against 2^32 where a frame's header encodes them, and
  values of unknown shape are \<open>js_value\<close>.  A map of the language is an association list, because its order of insertion
  is seen by the loops over it.

  \<^bold>\<open>The library.\<close>  \<open>Prelude_Js\<close> has strings, association lists and the table operations behind the SQL statements;
  \<open>Js_Value\<close> reads values of unknown shape; \<open>Json\<close>, \<open>Utf16\<close>, \<open>Utf8\<close> and \<open>Base64\<close> are the parts of the language's library
  the sources use, with their round trips (\<open>JSON.parse\<close> recurses with fuel of twice the length of the text,
  which its round trip shows to be enough for what \<open>JSON.stringify\<close> prints).  \<open>Contracts\<close> states what several components
  share as locales: \<open>event_machine\<close> (a total step and an invariant), \<open>composing\<close> (a relation between a state and a
  result that survives sequencing) and \<open>stream_parser\<close> (a parser whose answers do not depend on how its input is
  cut), which \<open>framing\<close> in \<open>Framing\<close> refines for length-prefixed frames.  The components interpret them on their own
  definitions.

  \<^bold>\<open>Terminals.\<close>
  \<^item> \<open>Shell_Ready_Scan\<close> is \<open>main/shell-ready-marker-scanner.ts\<close>: over any cutting of the output the scanner takes out the
    first ready marker and nothing else.
  \<^item> \<open>Daemon_Session\<close> is \<open>main/daemon/session.ts\<close> with \<open>post-ready-flush-gate.ts\<close>, \<open>daemon-pty-size.ts\<close> and
    \<open>shared/physical-exit-tracker.ts\<close>.  \<open>Daemon_Session_Props\<close>: typed input reaches the process in order, is never held
    without a timer or a prompt that lets it go, and the output is what the process wrote less one marker.
    \<open>Daemon_Session_Safety\<close>: checkpoints rebuild what the emulator holds, a paused process has a timer that resumes it,
    and a process that is gone is left alone, but for a requested clear of the screen.
  \<^item> \<open>Terminal_Host\<close> is \<open>main/daemon/terminal-host.ts\<close> with \<open>terminal-session-teardown.ts\<close> and
    \<open>terminal-host-session-shutdown.ts\<close>.  \<open>Terminal_Host_Props\<close>: a spawned process that is not known to have exited is
    the one its session's name leads to, over every interleaving of attaching, killing, replacing and shutting down.
  \<^item> \<open>Process_Sweep\<close> is \<open>main/pty-descendant-termination.ts\<close> over process tables: the walk ends and finds exactly the
    descendants, and only processes that are provably the same as in the first table are killed.
  \<^item> \<open>Stream_Split\<close>, \<open>Stream_Keep_Tail\<close> and \<open>Stream_Batcher\<close> are \<open>main/daemon/daemon-stream-data-split.ts\<close>,
    \<open>-keep-tail-drop.ts\<close> and \<open>-batcher.ts\<close>: chunks fit the limits without cutting characters, thinning keeps positions
    and restores, and a foreground session loses nothing and gets everything in order.
  \<^item> \<open>Ndjson\<close> and \<open>Daemon_Frame\<close> are the daemon's two wire formats, \<open>main/daemon/ndjson.ts\<close> and \<open>binary-frame.ts\<close>: round
    trips for every cutting of the stream (a line at the limit must not be cut inside a character), and the parser's bounds on what it buffers.
  \<^item> \<open>Priority_Sem\<close> is \<open>main/daemon/priority-semaphore.ts\<close>: never more holders than slots, and no idle slot while anyone
    waits.
  \<^item> \<open>Term_Log\<close> is \<open>main/daemon/terminal-history-log.ts\<close>: what is written is read back, and of a torn log all the
    frames that are whole.
  \<^item> \<open>Pty_Flow\<close>, \<open>Pty_Gate\<close>, \<open>Pty_Delivery\<close> and \<open>Pty_Handlers\<close> are the delivery to the renderer in \<open>main/ipc/pty.ts\<close> with
    \<open>pty-producer-flow-control.ts\<close> and \<open>pty-hidden-delivery-gate.ts\<close>.  \<open>Pty_Delivery_Props\<close>: the books balance, producers
    are paused as the marks say, waiting output waits for a limit or a timer, and flushing ends.  \<open>Pty_Loss\<close>: output is
    delivered in order or the renderer is told that some is missing.
  \<^item> \<open>Escape_Tail\<close> and \<open>Bell_Detector\<close> are scanners of the terminal stream, \<open>shared/terminal-partial-escape-tail.ts\<close> and
    \<open>shared/terminal-bell-detector.ts\<close>; \<open>Pane_Key\<close> is \<open>shared/stable-pane-id.ts\<close>; \<open>Tab_Layout\<close> are the split layouts of
    \<open>main/runtime/headless-tab-group-split-layout.ts\<close> and \<open>headless-terminal-split-layout.ts\<close>.

  \<^bold>\<open>The relay.\<close>
  \<^item> \<open>Relay_Frame\<close> and \<open>Relay_Message\<close> are the bytes of \<open>relay/protocol.ts\<close>: its decoder over a list of chunks refines a
    decoder over one flat buffer, and messages come out as they went in.
  \<^item> \<open>Json_Rpc\<close>, \<open>Ssh_Mux\<close> and \<open>Relay_Dispatcher\<close> are the two ends, \<open>main/ssh/ssh-channel-multiplexer.ts\<close> and
    \<open>relay/dispatcher.ts\<close> with \<open>client-request-aborts.ts\<close>, from the decoded frame on.  \<open>Ssh_Mux_Props\<close>: a request is told its
    outcome once and nobody is forgotten but a caller whose own cancellation cannot be encoded, and a living channel is not given up.  \<open>Relay_Dispatcher\<close> also shows the run in
    which a handler of an old connection disarms a request of the new one.
  \<^item> \<open>Relay_Link\<close> joins both ends with two queues of frames.  \<open>Relay_Link_Mux\<close> and \<open>Relay_Link_Relay\<close> say what each end
    contributes, and \<open>Relay_Link_Props\<close> concludes: replies are answers to the question they are taken for, from the one
    handler called for it, and no question is forgotten while the connection lasts.
  \<^item> \<open>Git_Stream\<close> is \<open>relay/git-response-stream.ts\<close> and \<open>main/ssh/ssh-git-response-stream-reader.ts\<close>, large git answers
    sent in pieces.  \<open>Git_Stream_Props\<close>: a reader resolves with nothing but the answer that was cut up, the relay keeps to
    its window, and an answer that is heard and acknowledged arrives.
  \<^item> \<open>Git_Exec\<close> is \<open>relay/git-exec-validator.ts\<close>: but for empty arguments, which hide what
    follows them, it accepts exactly the command lines of a policy written down with lists of its own.

  \<^bold>\<open>Orchestration.\<close>
  \<^item> \<open>Orch_Types\<close>, \<open>Orch_Db\<close> and \<open>Orch_Schema\<close> are \<open>main/runtime/orchestration/types.ts\<close> and \<open>db.ts\<close>: tables are lists of
    rows in row order, a statement is a filter or an update of them, identifiers and times are arguments.  \<open>Orch_Db_Inv\<close>
    is the invariant of all operations, \<open>Orch_Db_Props\<close> and \<open>Orch_Db_Queue\<close> what clients rely on: one active dispatch per
    assignee, exact promotion, the circuit breaker, delivery once.  \<open>Orch_Schema\<close> opens stores of earlier versions: tables
    have columns, checks, required columns and a key, and a row the rebuilt table does not take stops the migration.
  \<^item> \<open>Orch_Lifecycle\<close> is \<open>lifecycle-reconciliation.ts\<close>: only the assignee's messages change anything.
  \<^item> \<open>Orch_Coordinator\<close> is \<open>coordinator.ts\<close>, a tick at a time, in which other clients run operations of the store at each wait
    for the runtime (a wait for a promise that is already settled is no such point); \<open>Orch_Coordinator_Props\<close> has its limit,
    gates and endings.
  \<^item> \<open>Task_Display\<close> is \<open>shared/orchestration-task-display.ts\<close> and \<open>orchestration-task-summary.ts\<close>.

  \<^bold>\<open>Remote clients.\<close>
  \<^item> \<open>E2ee_Contract\<close>, \<open>E2ee_Frame\<close> and \<open>E2ee_Session\<close> are the phone's channel: \<open>shared/mobile-e2ee-v2-contract.ts\<close> and
    \<open>-framing.ts\<close>, the key schedule and both sessions.  The handshake agrees and binds its transcript, each end accepts a
    prefix of what the other sealed whatever the network does, and texts arrive, decoded as the platform's decoder does:
    lone surrogates are replaced and a leading byte order mark is dropped.
  \<^item> \<open>Ws_Queue\<close> and \<open>Rpc_Pool\<close> are \<open>shared/ws-outbound-backpressure-queue.ts\<close> and \<open>runtime-rpc-call-queue.ts\<close>.
  \<^item> \<open>Shared_Control\<close> is the control connection, \<open>shared/remote-runtime-shared-control-*.ts\<close>.  \<open>Shared_Control_Props\<close> and
    \<open>Shared_Control_Restore\<close>: requests are settled once, nothing is stranded when the socket is gone, and reconnecting
    ends.

  \<^bold>\<open>Hypotheses.\<close>  Code that is not in the repository is a parameter: \<open>box_laws\<close> states that the cipher opens what it
  sealed under the same key and nonce and nothing else, and \<open>crypto_laws\<close> the lengths of keys and hashes and that both
  ends derive the same shared secret; both have instances.  \<open>honest_acks\<close> says that a peer acknowledges only frames it
  was sent, and \<open>stays_deep\<close> that a socket with a deep backlog does not become shallow by a write.  Other
  hypotheses are plain conditions on the events or the state, and every statement that has one is applied to a
  concrete run.

  \<^bold>\<open>Findings.\<close>  Where the code does not do what its comments say, or loses what it means to keep, a lemma shows the run;
  examples are the escape scanner's cancel codes, a coordinator that stops on a malformed gate or never ends on a task
  graph that is stuck, and the relay's controllers that outlive their connection.

  \<^bold>\<open>Not modelled.\<close>  The runtime core and its RPC methods, the IPC glue, the file system, git, pty and port handlers, the
  integrations with hosting services, issue trackers and agent providers, the browser and emulator panes and the
  command line client mostly call services and libraries whose code is not in the repository, and keep little state of
  their own.  The renderer and the phone's screens are user interface.  The terminal emulator is a library.  Of the
  files that are modelled, logging, diagnostics and debug reports are left out.  The handlers of a component do not call
  back into it before they return, unless its theory says so.
\<close>

end
